(* ===== verification/Prelude.thy ===== *)
theory Prelude
  imports Main "HOL-Library.Word" "HOL-Library.Signed_Division"
begin

text \<open>
  What the components share: the machine integers of the C++ code (\<open>int64_t\<close>, \<open>uint64_t\<close>,
  \<open>uint32_t\<close> as words of that width, \<open>__int128\<close> as an \<open>int\<close> that every operation wraps to
  128 bits), the collections of facts the proofs are run with, and generic lemmas on words,
  truncating division, options and lists.

  Signed overflow is undefined in C++. The words compute the two's complement result, which is
  what the target produces; every theorem that speaks of exact integers says, as a hypothesis,
  that the values it is about are in range (\<open>in_i64\<close>).
\<close>

named_theorems word_exact \<open>exact integer readings of word operations, under range conditions\<close>
named_theorems shape \<open>one-branch equations of the handlers\<close>

type_synonym i64 = "64 word"
type_synonym u64 = "64 word"
type_synonym u32 = "32 word"

section \<open>Signed 64-bit values\<close>

definition in_i64 :: "int \<Rightarrow> bool" where
  "in_i64 x \<longleftrightarrow> - (2 ^ 63) \<le> x \<and> x < 2 ^ 63"

lemma sint_in_i64 [simp, intro]: "in_i64 (sint (a :: i64))"
  using sint_ge [of a] sint_lt [of a] by (simp add: in_i64_def)

lemma sint_bounds: "- (2 ^ 63) \<le> sint (a :: i64)" "sint (a :: i64) < 2 ^ 63"
  using sint_in_i64 [of a] by (simp_all only: in_i64_def)

lemma signed_take_bit_63 [simp]: "in_i64 x \<Longrightarrow> signed_take_bit 63 x = x"
  by (rule signed_take_bit_int_eq_self) (simp_all add: in_i64_def)

lemma sint_word_of_int [word_exact]: "in_i64 x \<Longrightarrow> sint (word_of_int x :: i64) = x"
  by (simp add: signed_of_int)

lemma sint_plus [word_exact]:
  "in_i64 (sint a + sint b) \<Longrightarrow> sint (a + b :: i64) = sint a + sint b"
  by (simp add: sint_word_ariths)

lemma sint_minus [word_exact]:
  "in_i64 (sint a - sint b) \<Longrightarrow> sint (a - b :: i64) = sint a - sint b"
  by (simp add: sint_word_ariths)

lemma sint_uminus [word_exact]:
  "in_i64 (- sint a) \<Longrightarrow> sint (- a :: i64) = - sint a"
  by (simp add: sint_word_ariths)

lemma sint_times [word_exact]:
  "in_i64 (sint a * sint b) \<Longrightarrow> sint (a * b :: i64) = sint a * sint b"
  by (simp add: sint_word_ariths)

lemma sint_eq_0_iff [simp]: "sint (a :: i64) = 0 \<longleftrightarrow> a = 0"
  by (metis signed_0 signed_word_eqI)

lemma sint_inject_i64: "sint (a :: i64) = sint b \<longleftrightarrow> a = b"
  by (metis signed_word_eqI)

text \<open>\<open>std::abs\<close> on \<open>int64_t\<close>.\<close>

definition abs64 :: "i64 \<Rightarrow> i64" where
  "abs64 a = (if sint a < 0 then - a else a)"

lemma sint_abs64 [word_exact]: "in_i64 \<bar>sint a\<bar> \<Longrightarrow> sint (abs64 a) = \<bar>sint a\<bar>"
  by (auto simp: abs64_def word_exact)

text \<open>Incrementing a counter that does not wrap.\<close>

lemma unat_inc: "(n :: 'a :: len word) + 1 \<noteq> 0 \<Longrightarrow> unat (n + 1) = unat n + 1"
  using unatSuc [of n] by (simp add: add.commute)

lemma less_inc: "(n :: 'a :: len word) + 1 \<noteq> 0 \<Longrightarrow> n < n + 1"
  by (simp add: word_less_nat_alt unat_inc)

lemma inc_nonzero: "unat n + 1 < 2 ^ 64 \<Longrightarrow> (n :: u64) + 1 \<noteq> 0"
  by (auto simp: unat_eq_zero [symmetric] unat_word_ariths simp del: unat_eq_zero)

section \<open>128-bit intermediates\<close>

text \<open>A value of \<open>__int128\<close>: each operation's exact result, wrapped to 128 bits.\<close>

definition i128 :: "int \<Rightarrow> int" where
  "i128 x = signed_take_bit 127 x"

definition in_i128 :: "int \<Rightarrow> bool" where
  "in_i128 x \<longleftrightarrow> - (2 ^ 127) \<le> x \<and> x < 2 ^ 127"

lemma i128_exact [simp]: "in_i128 x \<Longrightarrow> i128 x = x"
  unfolding i128_def by (rule signed_take_bit_int_eq_self) (simp_all add: in_i128_def)

lemma abs_prod_i64:
  assumes "in_i64 a" "in_i64 b"
  shows "\<bar>a * b\<bar> \<le> 2 ^ 126"
proof -
  have "\<bar>a\<bar> \<le> 2 ^ 63" "\<bar>b\<bar> \<le> 2 ^ 63"
    using assms by (auto simp: in_i64_def)
  then have "\<bar>a\<bar> * \<bar>b\<bar> \<le> 2 ^ 63 * 2 ^ 63"
    by (rule mult_mono) simp_all
  then show ?thesis by (simp add: abs_mult)
qed

lemma in_i128_prod: "in_i64 a \<Longrightarrow> in_i64 b \<Longrightarrow> in_i128 (a * b)"
  using abs_prod_i64 [of a b] by (simp add: in_i128_def abs_le_iff)

lemma in_i128_small: "\<bar>x\<bar> < 2 ^ 127 \<Longrightarrow> in_i128 x"
  by (simp add: in_i128_def abs_less_iff)

lemma in_i64_in_i128: "in_i64 x \<Longrightarrow> in_i128 x"
  by (simp add: in_i64_def in_i128_def)

section \<open>Truncating division\<close>

text \<open>C++ division rounds towards zero: \<open>sdiv\<close> of the library.\<close>

lemma sdiv_nonneg: "0 \<le> a \<Longrightarrow> 0 < b \<Longrightarrow> (a :: int) sdiv b = a div b"
  by (cases "a = 0") (simp_all add: signed_divide_int_def)

lemma sdiv_neg: "0 < b \<Longrightarrow> (- a :: int) sdiv b = - (a sdiv b)"
  by (simp add: signed_divide_int_def)

lemma sdiv_mono:
  assumes "a \<le> b" "0 < c"
  shows "(a :: int) sdiv c \<le> b sdiv c"
proof -
  consider "0 \<le> a" | "a < 0" "0 \<le> b" | "b < 0" using assms by linarith
  then show ?thesis
  proof cases
    case 1
    with assms show ?thesis by (simp add: sdiv_nonneg zdiv_mono1)
  next
    case 2
    with assms sdiv_neg [of c "- a"] sdiv_nonneg [of "- a" c] sdiv_nonneg [of b c]
    show ?thesis by (smt (verit) pos_imp_zdiv_nonneg_iff)
  next
    case 3
    with assms sdiv_neg [of c "- a"] sdiv_neg [of c "- b"]
      sdiv_nonneg [of "- a" c] sdiv_nonneg [of "- b" c]
    show ?thesis by (smt (verit) zdiv_mono1)
  qed
qed

lemma sdiv_mult_cancel: "0 < c \<Longrightarrow> (a * c :: int) sdiv c = a"
  by (simp add: signed_divide_int_def abs_mult sgn_mult ac_simps abs_mult_sgn)

lemma sdiv_abs_le: "0 < b \<Longrightarrow> \<bar>(a :: int) sdiv b\<bar> \<le> \<bar>a\<bar>"
  using sdiv_int_range [of a b] by auto

lemma abs_sdiv: "0 < c \<Longrightarrow> \<bar>x sdiv c\<bar> = \<bar>x :: int\<bar> div c"
  by (cases "x = 0")
    (simp_all add: signed_divide_int_def abs_mult abs_sgn_eq pos_imp_zdiv_nonneg_iff)

section \<open>Runs of a state-passing operation\<close>

text \<open>The \<open>for\<close> loop that applies an operation to each element of a vector in turn.\<close>

fun run_each :: "('a \<Rightarrow> 's \<Rightarrow> 's) \<Rightarrow> 'a list \<Rightarrow> 's \<Rightarrow> 's" where
  "run_each f [] s = s"
| "run_each f (x # xs) s = run_each f xs (f x s)"

lemma run_each_append [simp]: "run_each f (xs @ ys) s = run_each f ys (run_each f xs s)"
  by (induction xs arbitrary: s) simp_all

lemma run_each_inv:
  assumes "\<And>x s. x \<in> set xs \<Longrightarrow> P s \<Longrightarrow> P (f x s)" "P s"
  shows "P (run_each f xs s)"
  using assms by (induction xs arbitrary: s) auto

lemma run_each_frame:
  assumes "\<And>x s. x \<in> set xs \<Longrightarrow> g (f x s) = g s"
  shows "g (run_each f xs s) = g s"
  using assms by (induction xs arbitrary: s) auto

lemma run_each_cong:
  assumes "\<And>x s. x \<in> set xs \<Longrightarrow> f x s = h x s"
  shows "run_each f xs s = run_each h xs s"
  using assms by (induction xs arbitrary: s) auto

section \<open>Results\<close>

abbreviation is_ok :: "'e + 'a \<Rightarrow> bool" where
  "is_ok r \<equiv> \<not> isl r"

end
