(* ===== verification/Std_Map.thy ===== *)
theory Std_Map
  imports Prelude
begin

text \<open>
  \<open>std::map<K, V>\<close> as the components use it: the sequence of its entries in iteration order,
  strictly ascending by key under the key's \<open>operator<\<close>. The operations are the members the
  code calls: \<open>find\<close>, \<open>operator[]\<close> with assignment, \<open>emplace\<close> / \<open>try_emplace\<close>, \<open>erase\<close> by key,
  \<open>begin\<close> and \<open>rbegin\<close>. The locale \<open>ordered_map\<close> is the interface the books rely on; the
  interpretation at the end discharges it for this model.
\<close>

type_synonym ('k, 'v) smap = "('k \<times> 'v) list"

definition smap_wf :: "('k :: linorder, 'v) smap \<Rightarrow> bool" where
  "smap_wf m \<longleftrightarrow> sorted_wrt (<) (map fst m)"

definition smap_find :: "('k, 'v) smap \<Rightarrow> 'k \<Rightarrow> 'v option" where
  "smap_find m k = map_of m k"

fun smap_assign :: "'k :: linorder \<Rightarrow> 'v \<Rightarrow> ('k, 'v) smap \<Rightarrow> ('k, 'v) smap" where
  "smap_assign k v [] = [(k, v)]"
| "smap_assign k v (e # m) =
     (if fst e < k then e # smap_assign k v m
      else if k < fst e then (k, v) # e # m
      else (k, v) # m)"

definition smap_erase :: "'k \<Rightarrow> ('k, 'v) smap \<Rightarrow> ('k, 'v) smap" where
  "smap_erase k m = filter (\<lambda>e. fst e \<noteq> k) m"

text \<open>\<open>emplace\<close> and \<open>try_emplace\<close> keep an entry that is there; the flag is \<open>inserted\<close>.\<close>

definition smap_emplace :: "'k :: linorder \<Rightarrow> 'v \<Rightarrow> ('k, 'v) smap \<Rightarrow> ('k, 'v) smap \<times> bool" where
  "smap_emplace k v m =
     (case smap_find m k of None \<Rightarrow> (smap_assign k v m, True) | Some _ \<Rightarrow> (m, False))"

definition smap_begin :: "('k, 'v) smap \<Rightarrow> ('k \<times> 'v) option" where
  "smap_begin m = (case m of [] \<Rightarrow> None | e # _ \<Rightarrow> Some e)"

definition smap_rbegin :: "('k, 'v) smap \<Rightarrow> ('k \<times> 'v) option" where
  "smap_rbegin m = (if m = [] then None else Some (last m))"

section \<open>Laws\<close>

lemma smap_wf_Nil [simp]: "smap_wf []"
  by (simp add: smap_wf_def)

lemma smap_wf_Cons [simp]:
  "smap_wf (e # m) \<longleftrightarrow> (\<forall>x \<in> set m. fst e < fst x) \<and> smap_wf m"
  by (auto simp: smap_wf_def)

lemma smap_find_Nil [simp]: "smap_find [] k = None"
  by (simp add: smap_find_def)

lemma smap_find_Cons [simp]:
  "smap_find (e # m) k = (if k = fst e then Some (snd e) else smap_find m k)"
  by (cases e) (auto simp: smap_find_def)

lemma smap_find_SomeD: "smap_find m k = Some v \<Longrightarrow> (k, v) \<in> set m"
  unfolding smap_find_def by (rule map_of_SomeD)

lemma smap_find_None_iff: "smap_find m k = None \<longleftrightarrow> k \<notin> fst ` set m"
  by (simp add: smap_find_def map_of_eq_None_iff)

lemma smap_wf_distinct: "smap_wf m \<Longrightarrow> distinct (map fst m)"
  by (simp add: smap_wf_def strict_sorted_iff)

lemma smap_find_in: "smap_wf m \<Longrightarrow> (k, v) \<in> set m \<Longrightarrow> smap_find m k = Some v"
  unfolding smap_find_def by (simp add: map_of_is_SomeI smap_wf_distinct)

lemma set_smap_assign_keys: "fst ` set (smap_assign k v m) = insert k (fst ` set m)"
  by (induction k v m rule: smap_assign.induct) auto

lemma set_smap_assign: "set (smap_assign k v m) \<subseteq> insert (k, v) (set m)"
  by (induction k v m rule: smap_assign.induct) auto

lemma smap_wf_assign [simp]: "smap_wf m \<Longrightarrow> smap_wf (smap_assign k v m)"
proof (induction k v m rule: smap_assign.induct)
  case (2 k v e m)
  have "\<forall>x \<in> set (smap_assign k v m). x = (k, v) \<or> x \<in> set m"
    using set_smap_assign [of k v m] by blast
  with 2 show ?case by (fastforce intro: less_trans)
qed simp

lemma smap_wf_erase [simp]: "smap_wf m \<Longrightarrow> smap_wf (smap_erase k m)"
  by (auto simp: smap_wf_def smap_erase_def sorted_wrt_map intro: sorted_wrt_filter)

lemma smap_find_assign [simp]:
  "smap_wf m \<Longrightarrow> smap_find (smap_assign k v m) = (smap_find m)(k \<mapsto> v)"
proof (induction k v m rule: smap_assign.induct)
  case (2 k v e m)
  have notin: "smap_find m k = None" if "k < fst e"
    using that 2 by (auto simp: smap_find_None_iff dest: order.strict_trans)
  show ?case
    using 2 notin by (auto simp: fun_eq_iff)
qed (auto simp: fun_eq_iff)

lemma smap_find_erase [simp]: "smap_find (smap_erase k m) = (smap_find m)(k := None)"
  by (induction m) (auto simp: smap_erase_def fun_eq_iff)

lemma smap_begin_least:
  assumes "smap_wf m" "smap_begin m = Some (k, v)"
  shows "smap_find m k = Some v" "smap_find m k' \<noteq> None \<Longrightarrow> k \<le> k'"
  using assms by (auto simp: smap_begin_def smap_find_None_iff split: list.splits if_splits)

lemma smap_rbegin_greatest:
  assumes "smap_wf m" "smap_rbegin m = Some (k, v)"
  shows "smap_find m k = Some v" "smap_find m k' \<noteq> None \<Longrightarrow> k' \<le> k"
proof -
  from assms(2) obtain m' where m: "m = m' @ [(k, v)]"
    by (auto simp: smap_rbegin_def split: if_splits) (metis append_butlast_last_id)
  then have "(k, v) \<in> set m" by simp
  with assms(1) show "smap_find m k = Some v" by (rule smap_find_in)
  have "\<forall>x \<in> set m'. fst x < k"
    using assms(1) m by (auto simp: smap_wf_def sorted_wrt_append)
  with m show "smap_find m k' \<noteq> None \<Longrightarrow> k' \<le> k"
    by (auto simp: smap_find_None_iff dest: less_imp_le)
qed

lemma smap_begin_None [simp]: "smap_begin m = None \<longleftrightarrow> m = []"
  by (simp add: smap_begin_def split: list.split)

lemma smap_rbegin_None [simp]: "smap_rbegin m = None \<longleftrightarrow> m = []"
  by (simp add: smap_rbegin_def)

lemma smap_empty_iff: "m = [] \<longleftrightarrow> smap_find m = Map.empty"
  by (cases m) (auto simp: fun_eq_iff)

lemma smap_emplace_fresh [simp]:
  "smap_find m k = None \<Longrightarrow> smap_emplace k v m = (smap_assign k v m, True)"
  by (simp add: smap_emplace_def)

lemma smap_emplace_present [simp]:
  "smap_find m k = Some v' \<Longrightarrow> smap_emplace k v m = (m, False)"
  by (simp add: smap_emplace_def)

lemma smap_wf_emplace [simp]: "smap_wf m \<Longrightarrow> smap_wf (fst (smap_emplace k v m))"
  by (simp add: smap_emplace_def split: option.split)

section \<open>The interface the order books use\<close>

locale ordered_map =
  fixes lookup :: "'m \<Rightarrow> 'k :: linorder \<Rightarrow> 'v option"
    and assign :: "'k \<Rightarrow> 'v \<Rightarrow> 'm \<Rightarrow> 'm"
    and erase :: "'k \<Rightarrow> 'm \<Rightarrow> 'm"
    and least :: "'m \<Rightarrow> ('k \<times> 'v) option"
    and greatest :: "'m \<Rightarrow> ('k \<times> 'v) option"
    and invar :: "'m \<Rightarrow> bool"
  assumes lookup_assign: "invar m \<Longrightarrow> lookup (assign k v m) = (lookup m)(k \<mapsto> v)"
    and lookup_erase: "invar m \<Longrightarrow> lookup (erase k m) = (lookup m)(k := None)"
    and invar_assign: "invar m \<Longrightarrow> invar (assign k v m)"
    and invar_erase: "invar m \<Longrightarrow> invar (erase k m)"
    and least_None: "invar m \<Longrightarrow> least m = None \<longleftrightarrow> lookup m = Map.empty"
    and least_Some: "invar m \<Longrightarrow> least m = Some (k, v) \<Longrightarrow>
          lookup m k = Some v \<and> (\<forall>k'. lookup m k' \<noteq> None \<longrightarrow> k \<le> k')"
    and greatest_None: "invar m \<Longrightarrow> greatest m = None \<longleftrightarrow> lookup m = Map.empty"
    and greatest_Some: "invar m \<Longrightarrow> greatest m = Some (k, v) \<Longrightarrow>
          lookup m k = Some v \<and> (\<forall>k'. lookup m k' \<noteq> None \<longrightarrow> k' \<le> k)"
begin

lemma least_iff:
  assumes "invar m"
  shows "least m = Some (k, v) \<longleftrightarrow>
    lookup m k = Some v \<and> (\<forall>k'. lookup m k' \<noteq> None \<longrightarrow> k \<le> k')"
proof (cases "least m")
  case None
  with assms have "lookup m = Map.empty" by (simp add: least_None)
  with None show ?thesis by simp
next
  case (Some e)
  then obtain k0 v0 where e: "least m = Some (k0, v0)" by (cases e) simp
  note L = least_Some [OF assms e]
  have "k = k0" if "lookup m k = Some v" "\<forall>k'. lookup m k' \<noteq> None \<longrightarrow> k \<le> k'"
    using L that by (intro antisym) auto
  with L e show ?thesis by auto
qed

lemma greatest_iff:
  assumes "invar m"
  shows "greatest m = Some (k, v) \<longleftrightarrow>
    lookup m k = Some v \<and> (\<forall>k'. lookup m k' \<noteq> None \<longrightarrow> k' \<le> k)"
proof (cases "greatest m")
  case None
  with assms have "lookup m = Map.empty" by (simp add: greatest_None)
  with None show ?thesis by simp
next
  case (Some e)
  then obtain k0 v0 where e: "greatest m = Some (k0, v0)" by (cases e) simp
  note L = greatest_Some [OF assms e]
  have "k = k0" if "lookup m k = Some v" "\<forall>k'. lookup m k' \<noteq> None \<longrightarrow> k' \<le> k"
    using L that by (intro antisym) auto
  with L e show ?thesis by auto
qed

text \<open>How one assignment moves the ends of the map.\<close>

lemma least_assign:
  assumes "invar m"
  shows "least (assign k v m) =
    (case least m of None \<Rightarrow> Some (k, v)
     | Some (k0, v0) \<Rightarrow> if k \<le> k0 then Some (k, v) else Some (k0, v0))"
proof (cases "least m")
  case None
  with assms have "lookup m = Map.empty" by (simp add: least_None)
  with None assms show ?thesis
    by (simp add: least_iff lookup_assign invar_assign)
next
  case (Some e)
  obtain k0 v0 where "e = (k0, v0)" by (cases e)
  with Some have e: "least m = Some (k0, v0)" by simp
  note L = least_Some [OF assms e]
  have "least (assign k v m) = Some (if k \<le> k0 then (k, v) else (k0, v0))"
    using L assms by (auto simp: least_iff lookup_assign invar_assign intro: order_trans)
  with e show ?thesis by simp
qed

lemma greatest_assign:
  assumes "invar m"
  shows "greatest (assign k v m) =
    (case greatest m of None \<Rightarrow> Some (k, v)
     | Some (k0, v0) \<Rightarrow> if k0 \<le> k then Some (k, v) else Some (k0, v0))"
proof (cases "greatest m")
  case None
  with assms have "lookup m = Map.empty" by (simp add: greatest_None)
  with None assms show ?thesis
    by (simp add: greatest_iff lookup_assign invar_assign)
next
  case (Some e)
  obtain k0 v0 where "e = (k0, v0)" by (cases e)
  with Some have e: "greatest m = Some (k0, v0)" by simp
  note L = greatest_Some [OF assms e]
  have "greatest (assign k v m) = Some (if k0 \<le> k then (k, v) else (k0, v0))"
    using L assms by (auto simp: greatest_iff lookup_assign invar_assign intro: order_trans)
  with e show ?thesis by simp
qed

end

interpretation smap: ordered_map smap_find smap_assign smap_erase smap_begin smap_rbegin smap_wf
  by unfold_locales
    (auto simp: smap_empty_iff [symmetric] dest: smap_begin_least smap_rbegin_greatest)

end
