(* ===== verification/Core_Types.thy ===== *)
theory Core_Types
  imports Std_Map
begin

text \<open>
  The value types of \<open>TradingCore/src/core\<close>: the fixed-point \<open>ScaledValue\<close> with its two domain
  types \<open>Price\<close> and \<open>Quantity\<close>, \<open>Timestamp\<close>, the identifiers and the enumerations, and
  \<open>Instrument\<close>. \<open>ScaledValue\<close> takes its concrete domain type as a template argument (CRTP);
  here it is the phantom argument of the datatype, so adding a price to a quantity is a type
  error in the model as it is in the code. Enumerators carry a prefix that says their
  enumeration (\<open>SideBuy\<close> is \<open>Side::Buy\<close>).
\<close>

section \<open>Identifiers and enumerations (types.hpp)\<close>

type_synonym instrument_id = u32
type_synonym order_id = u64
type_synonym exchange_order_id = u64
type_synonym sequence_number = u64

datatype side = SideBuy | SideSell
datatype order_type = TypeMarket | TypeLimit
datatype order_status = StNew | StPartiallyFilled | StFilled | StCancelled | StRejected
datatype exec_type = ExNew | ExTrade | ExCancel | ExReject

section \<open>ScaledValue (scaled_value.hpp)\<close>

fun pow10_loop :: "nat \<Rightarrow> i64 \<Rightarrow> i64" where
  "pow10_loop 0 result = result"
| "pow10_loop (Suc n) result = pow10_loop n (result * 10)"

definition pow10 :: "int \<Rightarrow> i64" where
  "pow10 exponent = pow10_loop (nat exponent) 1"

definition Scale :: i64 where
  "Scale = pow10 8"

datatype 'd scaled_value = ScaledValue (raw: i64)

definition fromInteger :: "i64 \<Rightarrow> 'd scaled_value" where
  "fromInteger v = ScaledValue (v * Scale)"

definition isZero :: "'d scaled_value \<Rightarrow> bool" where
  "isZero x \<longleftrightarrow> raw x = 0"

definition isPositive :: "'d scaled_value \<Rightarrow> bool" where
  "isPositive x \<longleftrightarrow> sint (raw x) > 0"

definition scaled_add :: "'d scaled_value \<Rightarrow> 'd scaled_value \<Rightarrow> 'd scaled_value" where
  "scaled_add x other = ScaledValue (raw x + raw other)"

definition scaled_sub :: "'d scaled_value \<Rightarrow> 'd scaled_value \<Rightarrow> 'd scaled_value" where
  "scaled_sub x other = ScaledValue (raw x - raw other)"

definition scaled_mult :: "'d scaled_value \<Rightarrow> i64 \<Rightarrow> 'd scaled_value" where
  "scaled_mult x multiplier = ScaledValue (raw x * multiplier)"

text \<open>The default \<open>operator<=>\<close> compares the raw values as signed integers.\<close>

definition scaled_le :: "'d scaled_value \<Rightarrow> 'd scaled_value \<Rightarrow> bool" where
  "scaled_le x y \<longleftrightarrow> sint (raw x) \<le> sint (raw y)"

definition scaled_less :: "'d scaled_value \<Rightarrow> 'd scaled_value \<Rightarrow> bool" where
  "scaled_less x y \<longleftrightarrow> sint (raw x) < sint (raw y)"

instantiation scaled_value :: (type) linorder
begin

definition less_eq_scaled_value where "less_eq_scaled_value = scaled_le"
definition less_scaled_value where "less_scaled_value = scaled_less"

instance
proof
  fix x y z :: "'a scaled_value"
  show "x < y \<longleftrightarrow> x \<le> y \<and> \<not> y \<le> x"
    by (auto simp: less_eq_scaled_value_def less_scaled_value_def scaled_le_def scaled_less_def)
  show "x \<le> x" "x \<le> y \<or> y \<le> x"
    by (auto simp: less_eq_scaled_value_def scaled_le_def)
  show "x \<le> y \<Longrightarrow> y \<le> z \<Longrightarrow> x \<le> z"
    by (auto simp: less_eq_scaled_value_def scaled_le_def)
  show "x \<le> y \<Longrightarrow> y \<le> x \<Longrightarrow> x = y"
    by (cases x; cases y)
      (simp add: less_eq_scaled_value_def scaled_le_def sint_inject_i64 [symmetric])
qed

end

instantiation scaled_value :: (type) "{zero, plus, minus}"
begin

definition zero_scaled_value where "zero_scaled_value = ScaledValue 0"
definition plus_scaled_value where "plus_scaled_value = scaled_add"
definition minus_scaled_value where "minus_scaled_value = scaled_sub"

instance ..

end

lemma raw_zero [simp]: "raw 0 = 0"
  by (simp add: zero_scaled_value_def)

lemma scaled_le_iff [simp]: "x \<le> y \<longleftrightarrow> sint (raw x) \<le> sint (raw (y :: 'd scaled_value))"
  by (simp add: less_eq_scaled_value_def scaled_le_def)

lemma scaled_less_iff [simp]: "x < y \<longleftrightarrow> sint (raw x) < sint (raw (y :: 'd scaled_value))"
  by (simp add: less_scaled_value_def scaled_less_def)

lemma raw_plus [simp]: "raw (x + y :: 'd scaled_value) = raw x + raw y"
  by (simp add: plus_scaled_value_def scaled_add_def)

lemma raw_minus [simp]: "raw (x - y :: 'd scaled_value) = raw x - raw y"
  by (simp add: minus_scaled_value_def scaled_sub_def)

lemma isZero_iff [simp]: "isZero x \<longleftrightarrow> x = 0"
  by (cases x) (simp add: isZero_def zero_scaled_value_def)

lemma isZero_0: "isZero 0"
  by simp

lemma raw_eq_0_iff [simp]: "raw x = 0 \<longleftrightarrow> x = 0"
  by (cases x) (simp add: zero_scaled_value_def)

lemma isPositive_not_zero: "isPositive x \<Longrightarrow> \<not> isZero x"
  by (auto simp: isPositive_def)

text \<open>Price and Quantity (price.hpp, quantity.hpp): the same representation, two types.\<close>

datatype price_tag = PriceTag
datatype quantity_tag = QuantityTag

type_synonym price = "price_tag scaled_value"
type_synonym quantity = "quantity_tag scaled_value"

abbreviation Price :: "i64 \<Rightarrow> price" where "Price \<equiv> ScaledValue"
abbreviation Quantity :: "i64 \<Rightarrow> quantity" where "Quantity \<equiv> ScaledValue"

lemma sint_pow10_loop:
  "\<bar>sint r\<bar> * 10 ^ n < 2 ^ 63 \<Longrightarrow> sint (pow10_loop n r) = sint r * 10 ^ n"
proof (induction n arbitrary: r)
  case (Suc n)
  have "\<bar>sint r * 10\<bar> \<le> \<bar>sint r\<bar> * 10 ^ Suc n"
    using mult_left_mono [of 1 "(10 :: int) ^ n" "\<bar>sint r\<bar> * 10"]
    by (simp add: abs_mult ac_simps)
  with Suc.prems have small: "\<bar>sint r * 10\<bar> < 2 ^ 63" by linarith
  then have e: "sint (r * 10) = sint r * 10"
    using sint_times [of r 10] by (simp add: in_i64_def abs_less_iff)
  with Suc.IH [of "r * 10"] Suc.prems show ?case
    by (simp add: abs_mult ac_simps)
qed simp

lemma sint_Scale [simp]: "sint Scale = 100000000"
  using sint_pow10_loop [of 1 8] by (simp add: Scale_def pow10_def)

section \<open>Timestamp (timestamp.hpp)\<close>

text \<open>\<open>Timestamp::now\<close> reads \<open>steady_clock\<close>; its readings are arguments of the model.\<close>

datatype timestamp = Timestamp (nanoseconds: u64)

definition timestamp_add :: "timestamp \<Rightarrow> u64 \<Rightarrow> timestamp" where
  "timestamp_add t ns = Timestamp (nanoseconds t + ns)"

definition timestamp_diff :: "timestamp \<Rightarrow> timestamp \<Rightarrow> u64" where
  "timestamp_diff t other = nanoseconds t - nanoseconds other"

definition timestamp_le :: "timestamp \<Rightarrow> timestamp \<Rightarrow> bool" where
  "timestamp_le t other \<longleftrightarrow> nanoseconds t \<le> nanoseconds other"

instantiation timestamp :: linorder
begin

definition less_eq_timestamp where "less_eq_timestamp = timestamp_le"
definition less_timestamp where
  "less_timestamp t u \<longleftrightarrow> timestamp_le t u \<and> \<not> timestamp_le u t"

instance
  by standard
    (auto simp: less_eq_timestamp_def less_timestamp_def timestamp_le_def timestamp.expand)

end

section \<open>Instrument (instrument.hpp)\<close>

record instrument =
  instr_id :: instrument_id
  instr_symbol :: string
  instr_tickSize :: price
  instr_lotSize :: quantity

definition Instrument :: "instrument_id \<Rightarrow> string \<Rightarrow> price \<Rightarrow> quantity \<Rightarrow> instrument" where
  "Instrument i symbol tickSize lotSize =
     \<lparr>instr_id = i, instr_symbol = symbol, instr_tickSize = tickSize, instr_lotSize = lotSize\<rparr>"

definition default_instrument :: instrument where
  "default_instrument = Instrument 0 '''' 0 0"

section \<open>Properties of the value types\<close>

lemma timestamp_add_diff: "timestamp_diff (timestamp_add t ns) t = ns"
  by (simp add: timestamp_diff_def timestamp_add_def)

lemma scaled_add_exact:
  "in_i64 (sint (raw x) + sint (raw y)) \<Longrightarrow>
   sint (raw (x + y :: 'd scaled_value)) = sint (raw x) + sint (raw y)"
  by (simp add: word_exact)

lemma scaled_sub_exact:
  "in_i64 (sint (raw x) - sint (raw y)) \<Longrightarrow>
   sint (raw (x - y :: 'd scaled_value)) = sint (raw x) - sint (raw y)"
  by (simp add: word_exact)

lemma fromInteger_exact:
  "in_i64 (sint v * 100000000) \<Longrightarrow> sint (raw (fromInteger v)) = sint v * 100000000"
  by (simp add: fromInteger_def word_exact)

end
