(* ===== verification/Execution_Types.thy ===== *)
theory Execution_Types
  imports Core_Types
begin

text \<open>
  The messages of the execution subsystem: \<open>OrderRequest\<close> and \<open>Order\<close> (order.hpp) and
  \<open>ExecutionReport\<close> (execution_report.hpp), with the default member values the structs give.
\<close>

record order_request =
  req_instrument :: instrument_id
  req_side :: side
  req_type :: order_type
  req_price :: price
  req_quantity :: quantity

record order =
  ord_clientOrderId :: order_id
  ord_exchangeOrderId :: exchange_order_id
  ord_instrument :: instrument_id
  ord_side :: side
  ord_type :: order_type
  ord_price :: price
  ord_quantity :: quantity
  ord_filledQuantity :: quantity
  ord_status :: order_status

record execution_report =
  er_clientOrderId :: order_id
  er_exchangeOrderId :: exchange_order_id
  er_instrument :: instrument_id
  er_side :: side
  er_execType :: exec_type
  er_status :: order_status
  er_price :: price
  er_quantity :: quantity
  er_filledQuantity :: quantity

text \<open>The request an order was made from.\<close>

definition request_of :: "order \<Rightarrow> order_request" where
  "request_of ord =
     \<lparr>req_instrument = ord_instrument ord, req_side = ord_side ord, req_type = ord_type ord,
      req_price = ord_price ord, req_quantity = ord_quantity ord\<rparr>"

text \<open>The signed integer quantity of a trade: positive for a buy, negative for a sell.\<close>

definition signed_qty :: "side \<Rightarrow> quantity \<Rightarrow> int" where
  "signed_qty sd q = (case sd of SideBuy \<Rightarrow> sint (raw q) | SideSell \<Rightarrow> - sint (raw q))"

definition trade_report :: "order_id \<Rightarrow> instrument_id \<Rightarrow> side \<Rightarrow> price \<Rightarrow> quantity \<Rightarrow> execution_report" where
  "trade_report oid ins sd p q =
     \<lparr>er_clientOrderId = oid, er_exchangeOrderId = 1001, er_instrument = ins, er_side = sd,
      er_execType = ExTrade, er_status = StFilled, er_price = p, er_quantity = q,
      er_filledQuantity = q\<rparr>"

end
