(* ===== verification/Position.thy ===== *)
theory Position
  imports Execution_Types
begin

text \<open>
  \<open>position::Position\<close> (position.cpp) and \<open>position::PositionManager\<close> (position_manager.cpp).
  \<open>applyTrade\<close> works on \<open>int64_t\<close> quantities with a 128-bit intermediate for the weighted
  average; the specification \<open>trade_spec\<close> states the documented rules over the integers, and
  \<open>applyTrade_refines_trade_spec\<close> that the code follows them wherever nothing overflows.
\<close>

record position =
  pos_instrument :: instrument_id
  currentQuantity :: i64
  averageEntryPrice :: price
  realizedPnL :: price

definition new_position :: "instrument_id \<Rightarrow> position" where
  "new_position i = \<lparr>pos_instrument = i, currentQuantity = 0, averageEntryPrice = 0, realizedPnL = 0\<rparr>"

definition isLong :: "position \<Rightarrow> bool" where
  "isLong pos \<longleftrightarrow> sint (currentQuantity pos) > 0"

definition isShort :: "position \<Rightarrow> bool" where
  "isShort pos \<longleftrightarrow> sint (currentQuantity pos) < 0"

definition isFlat :: "position \<Rightarrow> bool" where
  "isFlat pos \<longleftrightarrow> currentQuantity pos = 0"

definition applyTrade :: "side \<Rightarrow> price \<Rightarrow> quantity \<Rightarrow> position \<Rightarrow> position" where
  "applyTrade sd p q pos =
     (if isZero q then pos
      else
        let current = currentQuantity pos;
            executionQuantity = raw q;
            signedQuantity = (case sd of SideBuy \<Rightarrow> executionQuantity | SideSell \<Rightarrow> - executionQuantity)
        in if current = 0
           then pos\<lparr>currentQuantity := signedQuantity, averageEntryPrice := p\<rparr>
           else
             let absoluteCurrent = abs64 current;
                 absoluteExecution = abs64 signedQuantity;
                 sameDirection = ((sint current > 0) = (sint signedQuantity > 0))
             in if sameDirection
                then
                  let totalQuantity = absoluteCurrent + absoluteExecution;
                      weightedPrice =
                        i128 (i128 (sint (raw (averageEntryPrice pos)) * sint absoluteCurrent)
                              + i128 (sint (raw p) * sint absoluteExecution))
                  in pos\<lparr>currentQuantity := current + signedQuantity,
                         averageEntryPrice := Price (word_of_int (weightedPrice sdiv sint totalQuantity))\<rparr>
                else if sint absoluteExecution < sint absoluteCurrent
                then pos\<lparr>currentQuantity := current + signedQuantity\<rparr>
                else if absoluteExecution = absoluteCurrent
                then pos\<lparr>currentQuantity := 0, averageEntryPrice := 0\<rparr>
                else pos\<lparr>currentQuantity := current + signedQuantity, averageEntryPrice := p\<rparr>)"

section \<open>The documented rules over the integers\<close>

text \<open>
  Quantity \<open>c\<close> and average price \<open>a\<close> of the position, signed trade quantity \<open>s\<close>, price \<open>p\<close>.
\<close>

definition trade_spec :: "int \<Rightarrow> int \<Rightarrow> int \<times> int \<Rightarrow> int \<times> int" where
  "trade_spec s p = (\<lambda>(c, a).
     if s = 0 then (c, a)
     else if c = 0 then (s, p)
     else if sgn c = sgn s then (c + s, (a * \<bar>c\<bar> + p * \<bar>s\<bar>) sdiv (\<bar>c\<bar> + \<bar>s\<bar>))
     else if \<bar>s\<bar> < \<bar>c\<bar> then (c + s, a)
     else if \<bar>s\<bar> = \<bar>c\<bar> then (0, 0)
     else (c + s, p))"

definition abs_pos :: "position \<Rightarrow> int \<times> int" where
  "abs_pos pos = (sint (currentQuantity pos), sint (raw (averageEntryPrice pos)))"

text \<open>No \<open>std::abs\<close> or addition of the trade overflows.\<close>

definition trade_fits :: "side \<Rightarrow> quantity \<Rightarrow> position \<Rightarrow> bool" where
  "trade_fits sd q pos \<longleftrightarrow>
     - (2 ^ 63) < sint (raw q) \<and> - (2 ^ 63) < sint (currentQuantity pos)
     \<and> \<bar>sint (currentQuantity pos) + signed_qty sd q\<bar> < 2 ^ 63"

section \<open>The weighted average\<close>

lemma weighted_between:
  assumes "0 \<le> x" "0 \<le> y" "0 < x + (y :: int)"
  shows "min a p \<le> (a * x + p * y) sdiv (x + y)" "(a * x + p * y) sdiv (x + y) \<le> max a p"
proof -
  have "min a p * x \<le> a * x" "min a p * y \<le> p * y" "a * x \<le> max a p * x" "p * y \<le> max a p * y"
    using assms by (simp_all add: mult_right_mono)
  then have lo: "min a p * (x + y) \<le> a * x + p * y" and hi: "a * x + p * y \<le> max a p * (x + y)"
    by (simp_all add: distrib_left)
  show "min a p \<le> (a * x + p * y) sdiv (x + y)"
    using sdiv_mono [OF lo assms(3)] by (simp add: sdiv_mult_cancel assms(3))
  show "(a * x + p * y) sdiv (x + y) \<le> max a p"
    using sdiv_mono [OF hi assms(3)] by (simp add: sdiv_mult_cancel assms(3))
qed

lemma weighted_in_i64:
  assumes "0 \<le> x" "0 \<le> y" "0 < x + (y :: int)" "in_i64 a" "in_i64 p"
  shows "in_i64 ((a * x + p * y) sdiv (x + y))"
  using weighted_between [OF assms(1-3), of a p] assms(4,5) by (auto simp: in_i64_def)

lemma weighted_in_i128:
  assumes "in_i64 a" "in_i64 p" "0 \<le> x" "0 \<le> y" "x + y < 2 ^ 63"
  shows "in_i128 (a * x + p * y)"
proof (rule in_i128_small)
  have "\<bar>a\<bar> \<le> 2 ^ 63" "\<bar>p\<bar> \<le> 2 ^ 63" using assms by (auto simp: in_i64_def)
  then have "\<bar>a * x\<bar> \<le> 2 ^ 63 * x" "\<bar>p * y\<bar> \<le> 2 ^ 63 * y"
    using assms by (simp_all add: abs_mult mult_right_mono)
  then have "\<bar>a * x + p * y\<bar> \<le> 2 ^ 63 * (x + y)" by (simp add: distrib_left)
  also have "\<dots> \<le> 2 ^ 63 * 2 ^ 63" using assms by simp
  finally show "\<bar>a * x + p * y\<bar> < 2 ^ 127" by simp
qed

section \<open>applyTrade computes the rules\<close>

definition signed_word :: "side \<Rightarrow> quantity \<Rightarrow> i64" where
  "signed_word sd q = (case sd of SideBuy \<Rightarrow> raw q | SideSell \<Rightarrow> - raw q)"

lemma sint_signed_word: "- (2 ^ 63) < sint (raw q) \<Longrightarrow> sint (signed_word sd q) = signed_qty sd q"
  using sint_bounds(2) [of "raw q"]
  by (cases sd) (simp_all add: signed_word_def signed_qty_def word_exact in_i64_def)

lemma signed_qty_0_iff [simp]: "signed_qty sd q = 0 \<longleftrightarrow> q = 0"
  by (cases sd) (simp_all add: signed_qty_def)

lemma signed_qty_lt: "- (2 ^ 63) < sint (raw q) \<Longrightarrow> \<bar>signed_qty sd q\<bar> < 2 ^ 63"
  using sint_bounds(2) [of "raw q"] by (cases sd) (simp_all add: signed_qty_def abs_less_iff)

text \<open>The integer readings of the locals of \<open>applyTrade\<close>, for a trade that fits.\<close>

lemma trade_readings:
  assumes "trade_fits sd q pos"
  shows "sint (signed_word sd q) = signed_qty sd q"
    "sint (abs64 (currentQuantity pos)) = \<bar>sint (currentQuantity pos)\<bar>"
    "sint (abs64 (signed_word sd q)) = \<bar>signed_qty sd q\<bar>"
    "sint (currentQuantity pos + signed_word sd q) = sint (currentQuantity pos) + signed_qty sd q"
    "abs64 (signed_word sd q) = abs64 (currentQuantity pos) \<longleftrightarrow>
       \<bar>signed_qty sd q\<bar> = \<bar>sint (currentQuantity pos)\<bar>"
proof -
  let ?c = "currentQuantity pos" and ?w = "signed_word sd q"
  from assms have q: "- (2 ^ 63) < sint (raw q)" and c: "- (2 ^ 63) < sint ?c"
    and cs: "\<bar>sint ?c + signed_qty sd q\<bar> < 2 ^ 63"
    by (simp_all add: trade_fits_def)
  show w: "sint ?w = signed_qty sd q" using q by (rule sint_signed_word)
  show ac: "sint (abs64 ?c) = \<bar>sint ?c\<bar>"
    using c sint_bounds(2) [of ?c] by (intro sint_abs64) (auto simp: in_i64_def)
  show aw: "sint (abs64 ?w) = \<bar>signed_qty sd q\<bar>"
    using w signed_qty_lt [OF q, of sd] sint_abs64 [of ?w] by (auto simp: in_i64_def)
  show "sint (?c + ?w) = sint ?c + signed_qty sd q"
    using cs w by (subst sint_plus) (auto simp: in_i64_def)
  show "abs64 ?w = abs64 ?c \<longleftrightarrow> \<bar>signed_qty sd q\<bar> = \<bar>sint ?c\<bar>"
    by (simp add: sint_inject_i64 [symmetric] ac aw)
qed

lemma same_direction_sgn:
  "c \<noteq> 0 \<Longrightarrow> s \<noteq> 0 \<Longrightarrow> ((c > 0) = (s > 0)) = (sgn c = sgn (s :: int))"
  by (auto simp: sgn_if)

lemma abs_add_same_sgn: "sgn c = sgn (s :: int) \<Longrightarrow> \<bar>c\<bar> + \<bar>s\<bar> = \<bar>c + s\<bar>"
  by (auto simp: sgn_if abs_if split: if_splits)

lemma applyTrade_exact:
  assumes fits: "trade_fits sd q pos"
  shows "abs_pos (applyTrade sd p q pos) =
    trade_spec (signed_qty sd q) (sint (raw p)) (abs_pos pos)"
proof -
  let ?c = "sint (currentQuantity pos)" and ?s = "signed_qty sd q"
    and ?a = "sint (raw (averageEntryPrice pos))"
  note R = trade_readings [OF fits]
  have cs: "\<bar>?c + ?s\<bar> < 2 ^ 63" using fits by (simp add: trade_fits_def)
  have w: "(case sd of SideBuy \<Rightarrow> raw q | SideSell \<Rightarrow> - raw q) = signed_word sd q"
    by (simp add: signed_word_def)
  consider (zero) "?s = 0" | (flat) "?s \<noteq> 0" "?c = 0"
    | (same) "?s \<noteq> 0" "?c \<noteq> 0" "sgn ?c = sgn ?s"
    | (opposite) "?s \<noteq> 0" "?c \<noteq> 0" "sgn ?c \<noteq> sgn ?s" by blast
  then show ?thesis
  proof cases
    case zero
    then show ?thesis by (simp add: applyTrade_def trade_spec_def abs_pos_def)
  next
    case flat
    then show ?thesis
      using R(1) by (simp add: applyTrade_def trade_spec_def abs_pos_def w Let_def)
  next
    case opposite
    then show ?thesis
      using R same_direction_sgn [of ?c ?s]
      by (simp add: applyTrade_def trade_spec_def abs_pos_def w Let_def)
  next
    case same
    have total: "\<bar>?c\<bar> + \<bar>?s\<bar> < 2 ^ 63"
      using abs_add_same_sgn [OF same(3)] cs by simp
    have sum: "sint (abs64 (currentQuantity pos) + abs64 (signed_word sd q)) = \<bar>?c\<bar> + \<bar>?s\<bar>"
      using R total by (subst sint_plus) (auto simp: in_i64_def)
    have positive: "0 < \<bar>?c\<bar> + \<bar>?s\<bar>" using same(2) by linarith
    have in_a: "in_i64 ?a" and in_p: "in_i64 (sint (raw p))" by simp_all
    have "in_i128 (?a * \<bar>?c\<bar> + sint (raw p) * \<bar>?s\<bar>)"
      using total by (intro weighted_in_i128) simp_all
    moreover have "in_i128 (?a * \<bar>?c\<bar>)" "in_i128 (sint (raw p) * \<bar>?s\<bar>)"
      using in_i128_prod [OF in_a sint_in_i64 [of "abs64 (currentQuantity pos)"]]
        in_i128_prod [OF in_p sint_in_i64 [of "abs64 (signed_word sd q)"]] R by simp_all
    moreover have "in_i64 ((?a * \<bar>?c\<bar> + sint (raw p) * \<bar>?s\<bar>) sdiv (\<bar>?c\<bar> + \<bar>?s\<bar>))"
      using positive by (intro weighted_in_i64) simp_all
    ultimately show ?thesis
      using same R sum same_direction_sgn [of ?c ?s]
      by (simp add: applyTrade_def trade_spec_def abs_pos_def w Let_def sint_word_of_int)
  qed
qed

lemma applyTrade_frame [simp]:
  "pos_instrument (applyTrade sd p q pos) = pos_instrument pos"
  "realizedPnL (applyTrade sd p q pos) = realizedPnL pos"
  by (simp_all add: applyTrade_def Let_def)

lemma applyTrade_zero [simp]: "applyTrade sd p 0 pos = pos"
  by (simp add: applyTrade_def)

lemma applyTrade_quantity:
  assumes "trade_fits sd q pos"
  shows "sint (currentQuantity (applyTrade sd p q pos)) = sint (currentQuantity pos) + signed_qty sd q"
  using applyTrade_exact [OF assms, of p]
  by (auto simp: abs_pos_def trade_spec_def abs_eq_iff sgn_if split: if_splits)

text \<open>A flat position has entry price zero.\<close>

definition pos_wf :: "position \<Rightarrow> bool" where
  "pos_wf pos \<longleftrightarrow> (isFlat pos \<longrightarrow> averageEntryPrice pos = 0)"

lemma pos_wf_new [simp]: "pos_wf (new_position i)"
  by (simp add: pos_wf_def new_position_def)

lemma applyTrade_wf:
  assumes "trade_fits sd q pos" "pos_wf pos"
  shows "pos_wf (applyTrade sd p q pos)"
proof (cases "currentQuantity (applyTrade sd p q pos) = 0 \<and> q \<noteq> 0")
  case True
  then have z: "sint (currentQuantity pos) + signed_qty sd q = 0"
    using applyTrade_quantity [OF assms(1), of p] by simp
  then have s: "signed_qty sd q = - sint (currentQuantity pos)" by linarith
  have "signed_qty sd q \<noteq> 0" using True by simp
  with s have "sint (currentQuantity pos) \<noteq> 0" by simp
  with s have "trade_spec (signed_qty sd q) (sint (raw p)) (abs_pos pos) = (0, 0)"
    by (auto simp: trade_spec_def abs_pos_def sgn_if)
  with applyTrade_exact [OF assms(1), of p] show ?thesis by (simp add: pos_wf_def abs_pos_def)
next
  case False
  with assms(2) show ?thesis by (auto simp: pos_wf_def isFlat_def)
qed

section \<open>Sequences of trades\<close>

type_synonym trade = "side \<times> price \<times> quantity"

definition apply_trades :: "trade list \<Rightarrow> position \<Rightarrow> position" where
  "apply_trades ts pos = run_each (\<lambda>(sd, p, q). applyTrade sd p q) ts pos"

fun trades_fit :: "trade list \<Rightarrow> position \<Rightarrow> bool" where
  "trades_fit [] pos \<longleftrightarrow> True"
| "trades_fit ((sd, p, q) # ts) pos \<longleftrightarrow> trade_fits sd q pos \<and> trades_fit ts (applyTrade sd p q pos)"

lemma apply_trades_simps [simp]:
  "apply_trades [] pos = pos"
  "apply_trades ((sd, p, q) # ts) pos = apply_trades ts (applyTrade sd p q pos)"
  by (simp_all add: apply_trades_def)

lemma apply_trades_exact:
  "trades_fit ts pos \<Longrightarrow>
   abs_pos (apply_trades ts pos) =
     run_each (\<lambda>(sd, p, q). trade_spec (signed_qty sd q) (sint (raw p))) ts (abs_pos pos)"
  by (induction ts pos rule: trades_fit.induct) (simp_all add: applyTrade_exact)

lemma apply_trades_quantity:
  "trades_fit ts pos \<Longrightarrow>
   sint (currentQuantity (apply_trades ts pos)) =
     sint (currentQuantity pos) + (\<Sum>(sd, p, q) \<leftarrow> ts. signed_qty sd q)"
  by (induction ts pos rule: trades_fit.induct) (simp_all add: applyTrade_quantity)

lemma apply_trades_wf: "trades_fit ts pos \<Longrightarrow> pos_wf pos \<Longrightarrow> pos_wf (apply_trades ts pos)"
  by (induction ts pos rule: trades_fit.induct) (simp_all add: applyTrade_wf)

section \<open>PositionManager (position_manager.cpp)\<close>

type_synonym position_manager = "(instrument_id, position) smap"

definition pm_applyExecution :: "execution_report \<Rightarrow> position_manager \<Rightarrow> bool \<times> position_manager" where
  "pm_applyExecution report positions =
     (if er_execType report \<noteq> ExTrade \<or> isZero (er_quantity report) then (False, positions)
      else
        let (positions', inserted) =
              smap_emplace (er_instrument report) (new_position (er_instrument report)) positions
        in (case smap_find positions' (er_instrument report) of
              None \<Rightarrow> (True, positions')
            | Some pos \<Rightarrow>
                (True, smap_assign (er_instrument report)
                   (applyTrade (er_side report) (er_price report) (er_quantity report) pos) positions')))"

definition pm_find :: "instrument_id \<Rightarrow> position_manager \<Rightarrow> position option" where
  "pm_find i positions = smap_find positions i"

text \<open>The position of an instrument: a new one where none is stored yet.\<close>

definition pm_position :: "position_manager \<Rightarrow> instrument_id \<Rightarrow> position" where
  "pm_position positions i =
     (case pm_find i positions of None \<Rightarrow> new_position i | Some pos \<Rightarrow> pos)"

definition pm_wf :: "position_manager \<Rightarrow> bool" where
  "pm_wf positions \<longleftrightarrow> smap_wf positions
     \<and> (\<forall>i pos. pm_find i positions = Some pos \<longrightarrow> pos_instrument pos = i)"

definition is_fill :: "execution_report \<Rightarrow> bool" where
  "is_fill report \<longleftrightarrow> er_execType report = ExTrade \<and> er_quantity report \<noteq> 0"

lemma pm_ignored [shape]:
  "\<not> is_fill report \<Longrightarrow> pm_applyExecution report positions = (False, positions)"
  by (auto simp: pm_applyExecution_def is_fill_def)

lemma pm_applied [shape]:
  assumes "is_fill report" "smap_wf positions"
  shows "fst (pm_applyExecution report positions)"
    "pm_find i (snd (pm_applyExecution report positions)) =
       (if i = er_instrument report
        then Some (applyTrade (er_side report) (er_price report) (er_quantity report)
                     (pm_position positions i))
        else pm_find i positions)"
    "smap_wf (snd (pm_applyExecution report positions))"
  using assms
  by (auto simp: pm_applyExecution_def is_fill_def pm_position_def pm_find_def smap_emplace_def
      split: option.splits)

lemma pm_position_step:
  assumes "smap_wf positions"
  shows "pm_position (snd (pm_applyExecution report positions)) i =
    (if is_fill report \<and> er_instrument report = i
     then applyTrade (er_side report) (er_price report) (er_quantity report) (pm_position positions i)
     else pm_position positions i)"
  using assms pm_applied(2) [of report positions i]
  by (cases "is_fill report") (auto simp: pm_ignored pm_position_def)

lemma pm_wf_step: "pm_wf positions \<Longrightarrow> pm_wf (snd (pm_applyExecution report positions))"
  by (cases "is_fill report")
    (auto simp: pm_ignored pm_wf_def pm_applied pm_position_def new_position_def split: option.splits)

lemma pm_wf_Nil [simp]: "pm_wf []"
  by (simp add: pm_wf_def pm_find_def)

definition pm_run :: "execution_report list \<Rightarrow> position_manager \<Rightarrow> position_manager" where
  "pm_run reports positions = run_each (\<lambda>r pm. snd (pm_applyExecution r pm)) reports positions"

text \<open>The trades of one instrument, in the order of their reports.\<close>

fun fills_of :: "instrument_id \<Rightarrow> execution_report list \<Rightarrow> trade list" where
  "fills_of i [] = []"
| "fills_of i (r # rs) =
     (if is_fill r \<and> er_instrument r = i
      then (er_side r, er_price r, er_quantity r) # fills_of i rs
      else fills_of i rs)"

lemma pm_run_simps [simp]:
  "pm_run [] positions = positions"
  "pm_run (r # rs) positions = pm_run rs (snd (pm_applyExecution r positions))"
  by (simp_all add: pm_run_def)

lemma pm_run_positions:
  "pm_wf positions \<Longrightarrow>
   pm_position (pm_run reports positions) i =
     apply_trades (fills_of i reports) (pm_position positions i)"
proof (induction reports arbitrary: positions)
  case (Cons r rs)
  have "smap_wf positions" using Cons.prems by (simp add: pm_wf_def)
  with Cons show ?case by (simp add: pm_position_step pm_wf_step)
qed simp

section \<open>Properties\<close>

text \<open>
  C3. Wherever no intermediate of the trade overflows, \<open>applyTrade\<close> computes the documented
  rules over the integers: open from flat, average in the same direction with the weighted price
  truncated towards zero, keep the entry price on a partial close, reset on an exact close,
  restart at the execution price on a reversal.
\<close>

theorem applyTrade_refines_trade_spec:
  assumes "trade_fits sd q pos"
  shows "abs_pos (applyTrade sd p q pos) =
    trade_spec (signed_qty sd q) (sint (raw p)) (abs_pos pos)"
  using assms by (rule applyTrade_exact)

theorem applyTrade_refines_trade_spec_witness:
  "abs_pos (applyTrade SideBuy (Price 7000) (Quantity 100)
     \<lparr>pos_instrument = 1, currentQuantity = 100, averageEntryPrice = Price 6000, realizedPnL = 0\<rparr>) =
   (200, 6500)"
  using applyTrade_refines_trade_spec [of SideBuy "Quantity 100"
      "\<lparr>pos_instrument = 1, currentQuantity = 100, averageEntryPrice = Price 6000, realizedPnL = 0\<rparr>"
      "Price 7000"]
  by (simp add: trade_fits_def signed_qty_def trade_spec_def abs_pos_def signed_divide_int_def
      zero_scaled_value_def)

text \<open>
  When a trade increases an open position, the new average entry price lies between the old
  average and the execution price.
\<close>

theorem increase_average_between:
  assumes "trade_fits sd q pos" "\<not> isFlat pos" "sgn (signed_qty sd q) = sgn (sint (currentQuantity pos))"
  shows "min (averageEntryPrice pos) p \<le> averageEntryPrice (applyTrade sd p q pos)
    \<and> averageEntryPrice (applyTrade sd p q pos) \<le> max (averageEntryPrice pos) p"
proof -
  let ?c = "sint (currentQuantity pos)" and ?s = "signed_qty sd q"
    and ?a = "sint (raw (averageEntryPrice pos))"
  have "?c \<noteq> 0" using assms(2) by (simp add: isFlat_def)
  then have positive: "0 < \<bar>?c\<bar> + \<bar>?s\<bar>" by linarith
  have "?s \<noteq> 0" using assms(3) \<open>?c \<noteq> 0\<close> by (metis sgn_eq_0_iff)
  then have "sint (raw (averageEntryPrice (applyTrade sd p q pos))) =
      (?a * \<bar>?c\<bar> + sint (raw p) * \<bar>?s\<bar>) sdiv (\<bar>?c\<bar> + \<bar>?s\<bar>)"
    using applyTrade_exact [OF assms(1), of p] \<open>?c \<noteq> 0\<close> assms(3)
    by (simp add: abs_pos_def trade_spec_def)
  with weighted_between [of "\<bar>?c\<bar>" "\<bar>?s\<bar>" ?a "sint (raw p)"] positive
  show ?thesis by (auto simp: min_def max_def)
qed

theorem increase_average_between_witness:
  "averageEntryPrice (applyTrade SideSell (Price 9) (Quantity 1) (applyTrade SideSell (Price 5) (Quantity 2) (new_position 1)))
     \<le> Price 9"
  using increase_average_between [of SideSell "Quantity 1"
      "applyTrade SideSell (Price 5) (Quantity 2) (new_position 1)" "Price 9"]
  by (simp add: trade_fits_def signed_qty_def applyTrade_def new_position_def isFlat_def isZero_def
      zero_scaled_value_def sgn_if)

text \<open>
  A run of trades none of which overflows ends with the starting quantity plus the signed
  quantities of the trades, and, if a flat start had entry price zero, a flat end has too.
\<close>

theorem trades_net_quantity:
  assumes "trades_fit ts pos" "pos_wf pos"
  shows "sint (currentQuantity (apply_trades ts pos)) =
      sint (currentQuantity pos) + (\<Sum>(sd, p, q) \<leftarrow> ts. signed_qty sd q)
    \<and> (isFlat (apply_trades ts pos) \<longrightarrow> averageEntryPrice (apply_trades ts pos) = 0)"
  using apply_trades_quantity [OF assms(1)] apply_trades_wf [OF assms] by (simp add: pos_wf_def)

theorem trades_net_quantity_witness:
  "sint (currentQuantity
     (apply_trades [(SideBuy, Price 5, Quantity 3), (SideSell, Price 8, Quantity 2)] (new_position 1))) = 1"
  using trades_net_quantity [of "[(SideBuy, Price 5, Quantity 3), (SideSell, Price 8, Quantity 2)]"
      "new_position 1"]
  by (simp add: trade_fits_def signed_qty_def applyTrade_def new_position_def isZero_def
      zero_scaled_value_def pos_wf_def)

text \<open>
  The position manager is the product of independent positions: after any reports, the
  position of each instrument is what its own fills, in order, make of the position it had;
  reports that are not fills, and fills of other instruments, do not touch it.
\<close>

theorem positions_are_independent:
  assumes "pm_wf positions"
  shows "pm_position (pm_run reports positions) i =
    apply_trades (fills_of i reports) (pm_position positions i)"
  using assms by (rule pm_run_positions)

theorem positions_are_independent_witness:
  "pm_position (pm_run [trade_report 1 7 SideBuy (Price 4) (Quantity 2),
      trade_report 2 8 SideBuy (Price 9) (Quantity 5)] []) 7 =
   apply_trades [(SideBuy, Price 4, Quantity 2)] (new_position 7)"
  using positions_are_independent [OF pm_wf_Nil,
      of "[trade_report 1 7 SideBuy (Price 4) (Quantity 2), trade_report 2 8 SideBuy (Price 9) (Quantity 5)]" 7]
  by (simp add: is_fill_def trade_report_def pm_position_def pm_find_def zero_scaled_value_def)

end
