(* ===== verification/Risk.thy ===== *)
theory Risk
  imports Position
begin

text \<open>
  \<open>risk::RiskManager\<close> (risk_manager.cpp), its limits (risk_limits.hpp) and results (risk.hpp).
  The check computes in 128 bits; \<open>within_limits\<close> is the same decision over the integers, and
  \<open>checkOrder_accepts_iff\<close> that they agree on all inputs. The locale \<open>risk_gate\<close> is
  \<open>IRiskManager\<close> as the order manager relies on it.
\<close>

record risk_limits =
  maxOrderQuantity :: quantity
  maxPositionQuantity :: quantity
  maxNotional :: price

datatype risk_result = RiskAccepted | RiskRejected
datatype risk_reason = ReasonNone | ReasonMaxOrderQuantity | ReasonMaxPositionQuantity | ReasonMaxNotional

record risk_manager =
  rm_limits :: risk_limits
  rm_reason :: risk_reason

definition no_limits :: risk_limits where
  "no_limits = \<lparr>maxOrderQuantity = 0, maxPositionQuantity = 0, maxNotional = 0\<rparr>"

definition new_risk_manager :: "risk_limits \<Rightarrow> risk_manager" where
  "new_risk_manager limits = \<lparr>rm_limits = limits, rm_reason = ReasonNone\<rparr>"

definition setLimits :: "risk_limits \<Rightarrow> risk_manager \<Rightarrow> risk_manager" where
  "setLimits newLimits rm = rm\<lparr>rm_limits := newLimits, rm_reason := ReasonNone\<rparr>"

definition risk_absolute :: "int \<Rightarrow> int" where
  "risk_absolute v = (if v < 0 then i128 (- v) else v)"

definition positionDelta :: "order_request \<Rightarrow> int" where
  "positionDelta request =
     (let q = sint (raw (req_quantity request))
      in case req_side request of SideBuy \<Rightarrow> q | SideSell \<Rightarrow> i128 (- q))"

definition checkOrder :: "order_request \<Rightarrow> position \<Rightarrow> risk_manager \<Rightarrow> risk_result \<times> risk_manager" where
  "checkOrder request pos rm0 =
     (let rm = rm0\<lparr>rm_reason := ReasonNone\<rparr>;
          limits = rm_limits rm
      in if \<not> isZero (maxOrderQuantity limits) \<and> req_quantity request > maxOrderQuantity limits
         then (RiskRejected, rm\<lparr>rm_reason := ReasonMaxOrderQuantity\<rparr>)
         else
           let resultingPosition = i128 (sint (currentQuantity pos) + positionDelta request)
           in if \<not> isZero (maxPositionQuantity limits)
                 \<and> risk_absolute resultingPosition > sint (raw (maxPositionQuantity limits))
              then (RiskRejected, rm\<lparr>rm_reason := ReasonMaxPositionQuantity\<rparr>)
              else
                let notional =
                      i128 (sint (raw (req_price request)) * sint (raw (req_quantity request)))
                        sdiv sint Scale
                in if \<not> isZero (maxNotional limits)
                      \<and> risk_absolute notional > sint (raw (maxNotional limits))
                   then (RiskRejected, rm\<lparr>rm_reason := ReasonMaxNotional\<rparr>)
                   else (RiskAccepted, rm))"

definition lastReason :: "risk_manager \<Rightarrow> risk_reason" where
  "lastReason rm = rm_reason rm"

section \<open>The decision over the integers\<close>

definition quantity_ok :: "risk_limits \<Rightarrow> order_request \<Rightarrow> bool" where
  "quantity_ok limits request \<longleftrightarrow>
     maxOrderQuantity limits = 0 \<or> req_quantity request \<le> maxOrderQuantity limits"

definition position_ok :: "risk_limits \<Rightarrow> order_request \<Rightarrow> position \<Rightarrow> bool" where
  "position_ok limits request pos \<longleftrightarrow>
     maxPositionQuantity limits = 0
     \<or> \<bar>sint (currentQuantity pos) + signed_qty (req_side request) (req_quantity request)\<bar>
         \<le> sint (raw (maxPositionQuantity limits))"

definition notional_ok :: "risk_limits \<Rightarrow> order_request \<Rightarrow> bool" where
  "notional_ok limits request \<longleftrightarrow>
     maxNotional limits = 0
     \<or> \<bar>sint (raw (req_price request)) * sint (raw (req_quantity request))\<bar> div 100000000
         \<le> sint (raw (maxNotional limits))"

definition within_limits :: "risk_limits \<Rightarrow> order_request \<Rightarrow> position \<Rightarrow> bool" where
  "within_limits limits request pos \<longleftrightarrow>
     quantity_ok limits request \<and> position_ok limits request pos \<and> notional_ok limits request"

lemma risk_absolute_exact: "\<bar>v\<bar> < 2 ^ 127 \<Longrightarrow> risk_absolute v = \<bar>v\<bar>"
  by (auto simp: risk_absolute_def in_i128_def)

lemma positionDelta_exact: "positionDelta request = signed_qty (req_side request) (req_quantity request)"
  using sint_bounds [of "raw (req_quantity request)"]
  by (auto simp: positionDelta_def signed_qty_def in_i128_def split: side.split)

lemma resulting_position_exact:
  "risk_absolute (i128 (sint (currentQuantity pos) + positionDelta request)) =
     \<bar>sint (currentQuantity pos) + signed_qty (req_side request) (req_quantity request)\<bar>"
proof -
  have "\<bar>signed_qty (req_side request) (req_quantity request)\<bar> \<le> 2 ^ 63"
    using sint_bounds [of "raw (req_quantity request)"]
    by (auto simp: signed_qty_def split: side.split)
  then have "\<bar>sint (currentQuantity pos) + signed_qty (req_side request) (req_quantity request)\<bar> < 2 ^ 127"
    using sint_bounds [of "currentQuantity pos"] by (auto simp: abs_if split: if_splits)
  then show ?thesis by (simp add: positionDelta_exact risk_absolute_exact in_i128_small)
qed

lemma notional_exact:
  "risk_absolute (i128 (sint (a :: i64) * sint (b :: i64)) sdiv 100000000) =
     \<bar>sint a * sint b\<bar> div 100000000"
proof -
  have "\<bar>sint a * sint b\<bar> \<le> 2 ^ 126" by (rule abs_prod_i64) simp_all
  moreover have "\<bar>sint a * sint b sdiv 100000000\<bar> \<le> \<bar>sint a * sint b\<bar>"
    by (rule sdiv_abs_le) simp
  ultimately show ?thesis
    by (simp add: in_i128_prod risk_absolute_exact abs_sdiv)
qed

lemma checkOrder_result:
  "checkOrder request pos rm =
     (if \<not> quantity_ok (rm_limits rm) request
      then (RiskRejected, rm\<lparr>rm_reason := ReasonMaxOrderQuantity\<rparr>)
      else if \<not> position_ok (rm_limits rm) request pos
      then (RiskRejected, rm\<lparr>rm_reason := ReasonMaxPositionQuantity\<rparr>)
      else if \<not> notional_ok (rm_limits rm) request
      then (RiskRejected, rm\<lparr>rm_reason := ReasonMaxNotional\<rparr>)
      else (RiskAccepted, rm\<lparr>rm_reason := ReasonNone\<rparr>))"
  by (simp add: checkOrder_def Let_def quantity_ok_def position_ok_def notional_ok_def
      resulting_position_exact notional_exact not_le [symmetric])

section \<open>The interface of the order manager\<close>

text \<open>
  \<open>checkOrder\<close> of an \<open>IRiskManager\<close>: \<open>permits\<close> is the decision the manager stands for in a given
  state, and checking one order never changes that decision for the next.
\<close>

locale risk_gate =
  fixes check :: "order_request \<Rightarrow> position \<Rightarrow> 'rm \<Rightarrow> risk_result \<times> 'rm"
    and permits :: "'rm \<Rightarrow> order_request \<Rightarrow> position \<Rightarrow> bool"
  assumes accepted_iff: "fst (check r p s) = RiskAccepted \<longleftrightarrow> permits s r p"
    and permits_stable: "permits (snd (check r p s)) = permits s"
begin

lemma permits_after_checks:
  "permits (run_each (\<lambda>(r, p) s. snd (check r p s)) rps s) = permits s"
  by (induction rps arbitrary: s) (auto simp: permits_stable)

end

definition rm_permits :: "risk_manager \<Rightarrow> order_request \<Rightarrow> position \<Rightarrow> bool" where
  "rm_permits rm = within_limits (rm_limits rm)"

interpretation risk: risk_gate checkOrder rm_permits
  by unfold_locales (auto simp: checkOrder_result rm_permits_def within_limits_def)

section \<open>Properties\<close>

text \<open>
  C6. For every request, position and limit values, the check accepts exactly the orders within
  the enabled limits as integers (a zero limit is disabled): no 128-bit overflow or truncation
  changes the verdict. A rejection reports the first limit violated in the order quantity,
  position, notional, an acceptance reports none, and the limits are not changed.
\<close>

theorem checkOrder_accepts_iff:
  "(fst (checkOrder request pos rm) = RiskAccepted \<longleftrightarrow> within_limits (rm_limits rm) request pos)
   \<and> lastReason (snd (checkOrder request pos rm)) =
       (if \<not> quantity_ok (rm_limits rm) request then ReasonMaxOrderQuantity
        else if \<not> position_ok (rm_limits rm) request pos then ReasonMaxPositionQuantity
        else if \<not> notional_ok (rm_limits rm) request then ReasonMaxNotional
        else ReasonNone)
   \<and> rm_limits (snd (checkOrder request pos rm)) = rm_limits rm"
  by (simp add: checkOrder_result within_limits_def lastReason_def)

end
