(* ===== verification/Execution_Gateway.thy ===== *)
theory Execution_Gateway
  imports Execution_Types
begin

text \<open>
  The outbound execution boundary: \<open>IExecutionGateway\<close> (execution_gateway.hpp) as a locale, and
  \<open>BinanceExecutionGateway\<close> (binance_execution_gateway.cpp). The gateway's transport is injected
  through two \<open>std::function\<close> callbacks that may be empty; the model holds them as optional
  functions on an opaque transport state of type \<open>'n\<close>.
\<close>

record 'n binance_gateway =
  sendHandler :: "(order \<Rightarrow> 'n \<Rightarrow> 'n) option"
  cancelHandler :: "(order_id \<Rightarrow> 'n \<Rightarrow> 'n) option"
  transport :: 'n

definition new_gateway :: "'n \<Rightarrow> 'n binance_gateway" where
  "new_gateway net = \<lparr>sendHandler = None, cancelHandler = None, transport = net\<rparr>"

definition gateway_with_handlers ::
  "(order \<Rightarrow> 'n \<Rightarrow> 'n) option \<Rightarrow> (order_id \<Rightarrow> 'n \<Rightarrow> 'n) option \<Rightarrow> 'n \<Rightarrow> 'n binance_gateway" where
  "gateway_with_handlers s c net = \<lparr>sendHandler = s, cancelHandler = c, transport = net\<rparr>"

definition setSendHandler :: "(order \<Rightarrow> 'n \<Rightarrow> 'n) option \<Rightarrow> 'n binance_gateway \<Rightarrow> 'n binance_gateway" where
  "setSendHandler h g = g\<lparr>sendHandler := h\<rparr>"

definition setCancelHandler :: "(order_id \<Rightarrow> 'n \<Rightarrow> 'n) option \<Rightarrow> 'n binance_gateway \<Rightarrow> 'n binance_gateway" where
  "setCancelHandler h g = g\<lparr>cancelHandler := h\<rparr>"

definition gateway_send :: "order \<Rightarrow> 'n binance_gateway \<Rightarrow> 'n binance_gateway" where
  "gateway_send ord g =
     (case sendHandler g of None \<Rightarrow> g | Some h \<Rightarrow> g\<lparr>transport := h ord (transport g)\<rparr>)"

definition gateway_cancel :: "order_id \<Rightarrow> 'n binance_gateway \<Rightarrow> 'n binance_gateway" where
  "gateway_cancel oid g =
     (case cancelHandler g of None \<Rightarrow> g | Some h \<Rightarrow> g\<lparr>transport := h oid (transport g)\<rparr>)"

lemma gateway_unset:
  "sendHandler g = None \<Longrightarrow> gateway_send ord g = g"
  "cancelHandler g = None \<Longrightarrow> gateway_cancel oid g = g"
  by (simp_all add: gateway_send_def gateway_cancel_def)

lemma gateway_handlers_kept [simp]:
  "sendHandler (gateway_send ord g) = sendHandler g"
  "cancelHandler (gateway_send ord g) = cancelHandler g"
  "sendHandler (gateway_cancel oid g) = sendHandler g"
  "cancelHandler (gateway_cancel oid g) = cancelHandler g"
  by (simp_all add: gateway_send_def gateway_cancel_def split: option.splits)

section \<open>The interface\<close>

text \<open>
  What reaches the venue, in order. A gateway that is online appends every request to its
  outbox; sending and cancelling do not take it offline.
\<close>

datatype wire_message = WireSend order | WireCancel order_id

locale execution_gateway =
  fixes send :: "order \<Rightarrow> 'gw \<Rightarrow> 'gw"
    and cancel :: "order_id \<Rightarrow> 'gw \<Rightarrow> 'gw"
    and outbox :: "'gw \<Rightarrow> wire_message list"
    and online :: "'gw \<Rightarrow> bool"
  assumes outbox_send: "online g \<Longrightarrow> outbox (send ord g) = outbox g @ [WireSend ord]"
    and outbox_cancel: "online g \<Longrightarrow> outbox (cancel oid g) = outbox g @ [WireCancel oid]"
    and online_send: "online g \<Longrightarrow> online (send ord g)"
    and online_cancel: "online g \<Longrightarrow> online (cancel oid g)"
begin

lemma outbox_sends: "online g \<Longrightarrow> outbox (run_each send os g) = outbox g @ map WireSend os"
  by (induction os arbitrary: g) (simp_all add: outbox_send online_send)

end

text \<open>The Binance gateway over a transport that is the sequence of messages written to it.\<close>

type_synonym wire_gateway = "wire_message list binance_gateway"

definition wire_online :: "wire_gateway \<Rightarrow> bool" where
  "wire_online g \<longleftrightarrow> (\<exists>s c. sendHandler g = Some s \<and> cancelHandler g = Some c
     \<and> s = (\<lambda>ord net. net @ [WireSend ord]) \<and> c = (\<lambda>oid net. net @ [WireCancel oid]))"

definition wire_gateway :: wire_gateway where
  "wire_gateway = gateway_with_handlers
     (Some (\<lambda>ord net. net @ [WireSend ord])) (Some (\<lambda>oid net. net @ [WireCancel oid])) []"

lemma wire_online_gateway [simp]: "wire_online wire_gateway"
  by (simp add: wire_online_def wire_gateway_def gateway_with_handlers_def)

interpretation wire: execution_gateway gateway_send gateway_cancel transport wire_online
  by unfold_locales (auto simp: wire_online_def gateway_send_def gateway_cancel_def)

end
