(* ===== verification/Order_Manager.thy ===== *)
theory Order_Manager
  imports Risk Execution_Gateway
begin

text \<open>
  \<open>execution::OrderManager\<close> (order_manager.cpp). Its references to the gateway, the risk manager
  and the shared position are fields of its state, and the virtual calls it makes on the two
  interfaces are arguments of the operations (\<open>check\<close>, \<open>send\<close>, \<open>cancel\<close>), so that the definitions
  hold for every implementation; the locale \<open>order_flow\<close> adds what the interfaces promise.
\<close>

datatype order_creation_error = ErrRiskRejected | ErrInvalidRequest

type_synonym order_creation_result = "order_creation_error + order_id"

record ('rm, 'gw) order_manager =
  om_gateway :: 'gw
  om_riskManager :: 'rm
  om_position :: position
  om_orders :: "(order_id, order) smap"
  om_nextOrderId :: order_id

definition new_order_manager :: "'gw \<Rightarrow> 'rm \<Rightarrow> position \<Rightarrow> ('rm, 'gw) order_manager" where
  "new_order_manager gw rm pos =
     \<lparr>om_gateway = gw, om_riskManager = rm, om_position = pos, om_orders = [], om_nextOrderId = 1\<rparr>"

definition invalid_request :: "order_request \<Rightarrow> bool" where
  "invalid_request request \<longleftrightarrow>
     req_instrument request = 0
     \<or> isZero (req_quantity request) \<or> \<not> isPositive (req_quantity request)
     \<or> isZero (req_price request) \<or> \<not> isPositive (req_price request)"

definition order_of :: "order_id \<Rightarrow> order_request \<Rightarrow> order" where
  "order_of orderId request =
     \<lparr>ord_clientOrderId = orderId, ord_exchangeOrderId = 0,
      ord_instrument = req_instrument request, ord_side = req_side request,
      ord_type = req_type request, ord_price = req_price request,
      ord_quantity = req_quantity request, ord_filledQuantity = 0, ord_status = StNew\<rparr>"

definition createOrder ::
  "(order_request \<Rightarrow> position \<Rightarrow> 'rm \<Rightarrow> risk_result \<times> 'rm) \<Rightarrow> (order \<Rightarrow> 'gw \<Rightarrow> 'gw) \<Rightarrow>
   order_request \<Rightarrow> ('rm, 'gw) order_manager \<Rightarrow> order_creation_result \<times> ('rm, 'gw) order_manager" where
  "createOrder check send request om0 =
     (if invalid_request request then (Inl ErrInvalidRequest, om0)
      else
        let (riskResult, rm) = check request (om_position om0) (om_riskManager om0);
            om1 = om0\<lparr>om_riskManager := rm\<rparr>
        in if riskResult \<noteq> RiskAccepted then (Inl ErrRiskRejected, om1)
           else
             let orderId = om_nextOrderId om1;
                 om2 = om1\<lparr>om_nextOrderId := orderId + 1\<rparr>;
                 ord = order_of orderId request;
                 (orders', inserted) = smap_emplace orderId ord (om_orders om2);
                 om3 = om2\<lparr>om_orders := orders'\<rparr>
             in if \<not> inserted then (Inl ErrInvalidRequest, om3)
                else (Inr orderId, om3\<lparr>om_gateway := send ord (om_gateway om3)\<rparr>))"

definition om_applyExecution ::
  "execution_report \<Rightarrow> ('rm, 'gw) order_manager \<Rightarrow> bool \<times> ('rm, 'gw) order_manager" where
  "om_applyExecution report om =
     (case smap_find (om_orders om) (er_clientOrderId report) of
        None \<Rightarrow> (False, om)
      | Some ord \<Rightarrow>
          let ord' = ord\<lparr>ord_exchangeOrderId := er_exchangeOrderId report,
                         ord_status := er_status report,
                         ord_filledQuantity := er_filledQuantity report\<rparr>;
              om' = om\<lparr>om_orders := smap_assign (er_clientOrderId report) ord' (om_orders om)\<rparr>
          in if er_execType report = ExTrade
             then (True, om'\<lparr>om_position :=
                     applyTrade (er_side report) (er_price report) (er_quantity report) (om_position om')\<rparr>)
             else (True, om'))"

definition om_find :: "order_id \<Rightarrow> ('rm, 'gw) order_manager \<Rightarrow> order option" where
  "om_find oid om = smap_find (om_orders om) oid"

definition om_cancel ::
  "(order_id \<Rightarrow> 'gw \<Rightarrow> 'gw) \<Rightarrow> order_id \<Rightarrow> ('rm, 'gw) order_manager \<Rightarrow> bool \<times> ('rm, 'gw) order_manager" where
  "om_cancel cancel oid om =
     (case smap_find (om_orders om) oid of
        None \<Rightarrow> (False, om)
      | Some _ \<Rightarrow> (True, om\<lparr>om_gateway := cancel oid (om_gateway om)\<rparr>))"

section \<open>Invariant: client order ids\<close>

text \<open>
  Every stored order sits under its own client id, and all ids are below the counter. It holds
  as long as the 64-bit counter has not wrapped.
\<close>

definition om_wf :: "('rm, 'gw) order_manager \<Rightarrow> bool" where
  "om_wf om \<longleftrightarrow> smap_wf (om_orders om) \<and> om_nextOrderId om \<noteq> 0
     \<and> (\<forall>oid ord. om_find oid om = Some ord \<longrightarrow>
          ord_clientOrderId ord = oid \<and> 0 < oid \<and> oid < om_nextOrderId om)"

lemma om_wf_new [simp]: "om_wf (new_order_manager gw rm pos)"
  by (simp add: om_wf_def new_order_manager_def om_find_def)

lemma om_wf_fresh: "om_wf om \<Longrightarrow> smap_find (om_orders om) (om_nextOrderId om) = None"
  by (cases "smap_find (om_orders om) (om_nextOrderId om)") (auto simp: om_wf_def om_find_def)

lemma request_of_order_of [simp]: "request_of (order_of oid request) = request"
  by (simp add: request_of_def order_of_def)

lemma order_of_fields [simp]:
  "ord_clientOrderId (order_of oid request) = oid"
  "ord_filledQuantity (order_of oid request) = 0"
  "ord_status (order_of oid request) = StNew"
  by (simp_all add: order_of_def)

text \<open>The three outcomes of \<open>createOrder\<close> for a manager whose ids have not wrapped.\<close>

lemma createOrder_invalid [shape]:
  "invalid_request request \<Longrightarrow> createOrder check send request om = (Inl ErrInvalidRequest, om)"
  by (simp add: createOrder_def)

lemma createOrder_rejected [shape]:
  "\<not> invalid_request request \<Longrightarrow>
   fst (check request (om_position om) (om_riskManager om)) \<noteq> RiskAccepted \<Longrightarrow>
   createOrder check send request om =
     (Inl ErrRiskRejected,
      om\<lparr>om_riskManager := snd (check request (om_position om) (om_riskManager om))\<rparr>)"
  by (cases "check request (om_position om) (om_riskManager om)") (simp add: createOrder_def Let_def)

lemma createOrder_accepted [shape]:
  assumes "om_wf om" "\<not> invalid_request request"
    "fst (check request (om_position om) (om_riskManager om)) = RiskAccepted"
  shows "createOrder check send request om =
    (Inr (om_nextOrderId om),
     om\<lparr>om_riskManager := snd (check request (om_position om) (om_riskManager om)),
        om_nextOrderId := om_nextOrderId om + 1,
        om_orders := smap_assign (om_nextOrderId om) (order_of (om_nextOrderId om) request) (om_orders om),
        om_gateway := send (order_of (om_nextOrderId om) request) (om_gateway om)\<rparr>)"
  using assms om_wf_fresh [OF assms(1)]
  by (cases "check request (om_position om) (om_riskManager om)") (simp add: createOrder_def Let_def)

lemma createOrder_cases:
  assumes "om_wf om"
  obtains (invalid) "createOrder check send request om = (Inl ErrInvalidRequest, om)" "invalid_request request"
  | (rejected) "createOrder check send request om =
      (Inl ErrRiskRejected,
       om\<lparr>om_riskManager := snd (check request (om_position om) (om_riskManager om))\<rparr>)"
      "\<not> invalid_request request"
      "fst (check request (om_position om) (om_riskManager om)) \<noteq> RiskAccepted"
  | (accepted) "createOrder check send request om =
     (Inr (om_nextOrderId om),
     om\<lparr>om_riskManager := snd (check request (om_position om) (om_riskManager om)),
        om_nextOrderId := om_nextOrderId om + 1,
        om_orders := smap_assign (om_nextOrderId om) (order_of (om_nextOrderId om) request) (om_orders om),
        om_gateway := send (order_of (om_nextOrderId om) request) (om_gateway om)\<rparr>)"
      "\<not> invalid_request request"
      "fst (check request (om_position om) (om_riskManager om)) = RiskAccepted"
  using createOrder_invalid createOrder_rejected createOrder_accepted [OF assms] by blast

lemma om_wf_createOrder:
  assumes "om_wf om" "om_nextOrderId om + 1 \<noteq> 0"
  shows "om_wf (snd (createOrder check send request om))"
  using assms(1)
proof (cases rule: createOrder_cases [where check = check and send = send and request = request])
  case accepted
  have "om_nextOrderId om < om_nextOrderId om + 1" using assms(2) by (rule less_inc)
  with assms accepted(1) show ?thesis
    by (auto simp: om_wf_def om_find_def word_gt_0 intro: less_trans)
qed (use assms in \<open>simp_all add: om_wf_def om_find_def\<close>)

lemma nextOrderId_createOrder:
  "om_wf om \<Longrightarrow>
   om_nextOrderId (snd (createOrder check send request om)) \<in> {om_nextOrderId om, om_nextOrderId om + 1}"
  by (erule createOrder_cases [of om check send request]) simp_all

lemma om_wf_gateway [simp]: "om_wf (om\<lparr>om_gateway := g\<rparr>) = om_wf om"
  by (simp add: om_wf_def om_find_def)

lemma om_applyExecution_unknown [shape]:
  "om_find (er_clientOrderId report) om = None \<Longrightarrow> om_applyExecution report om = (False, om)"
  by (simp add: om_applyExecution_def om_find_def)

lemma om_applyExecution_known [shape]:
  assumes "om_find (er_clientOrderId report) om = Some ord" "smap_wf (om_orders om)"
  shows "fst (om_applyExecution report om)"
    "om_find oid (snd (om_applyExecution report om)) =
       (if oid = er_clientOrderId report
        then Some (ord\<lparr>ord_exchangeOrderId := er_exchangeOrderId report,
                       ord_status := er_status report, ord_filledQuantity := er_filledQuantity report\<rparr>)
        else om_find oid om)"
    "om_position (snd (om_applyExecution report om)) =
       (if er_execType report = ExTrade
        then applyTrade (er_side report) (er_price report) (er_quantity report) (om_position om)
        else om_position om)"
  using assms by (simp_all add: om_applyExecution_def om_find_def Let_def)

lemma om_applyExecution_frame [simp]:
  "om_gateway (snd (om_applyExecution report om)) = om_gateway om"
  "om_riskManager (snd (om_applyExecution report om)) = om_riskManager om"
  "om_nextOrderId (snd (om_applyExecution report om)) = om_nextOrderId om"
  by (simp_all add: om_applyExecution_def Let_def split: option.split)

lemma om_wf_applyExecution: "om_wf om \<Longrightarrow> om_wf (snd (om_applyExecution report om))"
  by (auto simp: om_wf_def om_applyExecution_def om_find_def Let_def split: option.split)

lemma om_cancel_frame [simp]:
  "om_orders (snd (om_cancel cancel oid om)) = om_orders om"
  "om_riskManager (snd (om_cancel cancel oid om)) = om_riskManager om"
  "om_position (snd (om_cancel cancel oid om)) = om_position om"
  "om_nextOrderId (snd (om_cancel cancel oid om)) = om_nextOrderId om"
  by (simp_all add: om_cancel_def split: option.split)

lemma om_wf_cancel: "om_wf om \<Longrightarrow> om_wf (snd (om_cancel cancel oid om))"
  by (simp add: om_wf_def om_find_def)

section \<open>Sequences of calls\<close>

datatype om_event = EvCreate order_request | EvReport execution_report | EvCancel order_id

fun om_do ::
  "(order_request \<Rightarrow> position \<Rightarrow> 'rm \<Rightarrow> risk_result \<times> 'rm) \<Rightarrow> (order \<Rightarrow> 'gw \<Rightarrow> 'gw) \<Rightarrow>
   (order_id \<Rightarrow> 'gw \<Rightarrow> 'gw) \<Rightarrow> om_event \<Rightarrow> ('rm, 'gw) order_manager \<Rightarrow> ('rm, 'gw) order_manager" where
  "om_do check send cancel (EvCreate request) om = snd (createOrder check send request om)"
| "om_do check send cancel (EvReport report) om = snd (om_applyExecution report om)"
| "om_do check send cancel (EvCancel oid) om = snd (om_cancel cancel oid om)"

text \<open>The orders among the messages that reached the venue.\<close>

fun sends :: "wire_message list \<Rightarrow> order list" where
  "sends [] = []"
| "sends (WireSend ord # ms) = ord # sends ms"
| "sends (WireCancel oid # ms) = sends ms"

lemma sends_append [simp]: "sends (ms @ ns) = sends ms @ sends ns"
  by (induction ms rule: sends.induct) simp_all

text \<open>
  What holds between the orders that were sent and the orders that are tracked: the ids sent are
  distinct and are exactly the ids tracked, the tracked order still carries the request that was
  sent, and every sent order is a new, valid order the risk gate accepted.
\<close>

definition sent_ok ::
  "('rm \<Rightarrow> order_request \<Rightarrow> position \<Rightarrow> bool) \<Rightarrow> 'rm \<Rightarrow> order \<Rightarrow> bool" where
  "sent_ok permits rm ord \<longleftrightarrow>
     \<not> invalid_request (request_of ord) \<and> ord_status ord = StNew \<and> ord_filledQuantity ord = 0
     \<and> (\<exists>pos. permits rm (request_of ord) pos)"

definition tracked_ok :: "('rm, 'gw) order_manager \<Rightarrow> order list \<Rightarrow> bool" where
  "tracked_ok om os \<longleftrightarrow>
     distinct (map ord_clientOrderId os)
     \<and> (\<forall>oid. om_find oid om \<noteq> None \<longleftrightarrow> oid \<in> ord_clientOrderId ` set os)
     \<and> (\<forall>ord \<in> set os. map_option request_of (om_find (ord_clientOrderId ord) om) = Some (request_of ord))"

definition flow_inv ::
  "('rm \<Rightarrow> order_request \<Rightarrow> position \<Rightarrow> bool) \<Rightarrow> ('gw \<Rightarrow> wire_message list) \<Rightarrow> ('gw \<Rightarrow> bool) \<Rightarrow>
   'rm \<Rightarrow> ('rm, 'gw) order_manager \<Rightarrow> bool" where
  "flow_inv permits outbox online rm om \<longleftrightarrow>
     om_wf om \<and> online (om_gateway om) \<and> permits (om_riskManager om) = permits rm
     \<and> tracked_ok om (sends (outbox (om_gateway om)))
     \<and> (\<forall>ord \<in> set (sends (outbox (om_gateway om))). sent_ok permits rm ord)"

lemma tracked_ok_applyExecution:
  assumes "om_wf om" "tracked_ok om os"
  shows "tracked_ok (snd (om_applyExecution report om)) os"
proof (cases "om_find (er_clientOrderId report) om")
  case None
  with assms show ?thesis by (simp add: om_applyExecution_unknown)
next
  case (Some ord)
  have "smap_wf (om_orders om)" using assms(1) by (simp add: om_wf_def)
  from om_applyExecution_known(2) [OF Some this] assms(2) Some show ?thesis
    by (auto simp: tracked_ok_def request_of_def)
qed

lemma tracked_ok_create:
  assumes "om_wf om" "tracked_ok om os" "oid = om_nextOrderId om"
    "om_orders om' = smap_assign oid (order_of oid request) (om_orders om)"
  shows "tracked_ok om' (os @ [order_of oid request])"
proof -
  have "om_find oid om = None" using om_wf_fresh [OF assms(1)] assms(3) by (simp add: om_find_def)
  moreover have "om_find i om' = (if i = oid then Some (order_of oid request) else om_find i om)" for i
    using assms(1,4) by (simp add: om_find_def om_wf_def)
  ultimately show ?thesis
    using assms(2) by (auto simp: tracked_ok_def)
qed

section \<open>What the interfaces make of it\<close>

locale order_flow = risk_gate check permits + execution_gateway send cancel outbox online
  for check :: "order_request \<Rightarrow> position \<Rightarrow> 'rm \<Rightarrow> risk_result \<times> 'rm"
    and permits :: "'rm \<Rightarrow> order_request \<Rightarrow> position \<Rightarrow> bool"
    and send :: "order \<Rightarrow> 'gw \<Rightarrow> 'gw"
    and cancel :: "order_id \<Rightarrow> 'gw \<Rightarrow> 'gw"
    and outbox :: "'gw \<Rightarrow> wire_message list"
    and online :: "'gw \<Rightarrow> bool"
begin

lemma flow_inv_create:
  assumes "flow_inv permits outbox online rm om" "om_nextOrderId om + 1 \<noteq> 0"
  shows "flow_inv permits outbox online rm (snd (createOrder check send request om))"
proof -
  have wf: "om_wf om" using assms(1) by (simp add: flow_inv_def)
  note wf' = om_wf_createOrder [OF wf assms(2), of check send request]
  from wf show ?thesis
  proof (cases rule: createOrder_cases [where check = check and send = send and request = request])
    case invalid
    with assms(1) show ?thesis by simp
  next
    case rejected
    with assms(1) wf' show ?thesis
      by (simp add: flow_inv_def permits_stable tracked_ok_def om_find_def)
  next
    case accepted
    let ?om = "snd (createOrder check send request om)" and ?id = "om_nextOrderId om"
    have "tracked_ok ?om (sends (outbox (om_gateway om)) @ [order_of ?id request])"
      using assms(1) accepted(1) by (intro tracked_ok_create [OF wf]) (simp_all add: flow_inv_def)
    moreover have "sent_ok permits rm (order_of ?id request)"
      using assms(1) accepted(2,3) by (auto simp: sent_ok_def flow_inv_def accepted_iff)
    ultimately show ?thesis
      using assms(1) accepted(1) wf'
      by (auto simp: flow_inv_def permits_stable outbox_send online_send)
  qed
qed

lemma flow_inv_report:
  "flow_inv permits outbox online rm om \<Longrightarrow>
   flow_inv permits outbox online rm (snd (om_applyExecution report om))"
  by (simp add: flow_inv_def om_wf_applyExecution tracked_ok_applyExecution)

lemma flow_inv_cancel:
  "flow_inv permits outbox online rm om \<Longrightarrow>
   flow_inv permits outbox online rm (snd (om_cancel cancel oid om))"
  by (auto simp: flow_inv_def om_cancel_def outbox_cancel online_cancel
      tracked_ok_def om_find_def split: option.split)

lemma flow_inv_do:
  "flow_inv permits outbox online rm om \<Longrightarrow> om_nextOrderId om + 1 \<noteq> 0 \<Longrightarrow>
   flow_inv permits outbox online rm (om_do check send cancel ev om)"
  by (cases ev) (simp_all add: flow_inv_create flow_inv_report flow_inv_cancel)

lemma nextOrderId_do:
  "flow_inv permits outbox online rm om \<Longrightarrow>
   om_nextOrderId (om_do check send cancel ev om) \<in> {om_nextOrderId om, om_nextOrderId om + 1}"
  using nextOrderId_createOrder [of om check send] by (cases ev) (simp_all add: flow_inv_def)

lemma flow_inv_run:
  "flow_inv permits outbox online rm om \<Longrightarrow> unat (om_nextOrderId om) + length evs < 2 ^ 64 \<Longrightarrow>
   flow_inv permits outbox online rm (run_each (om_do check send cancel) evs om)"
proof (induction evs arbitrary: om)
  case (Cons ev evs)
  let ?om = "om_do check send cancel ev om"
  have no_wrap: "om_nextOrderId om + 1 \<noteq> 0" "unat (om_nextOrderId om + 1) = unat (om_nextOrderId om) + 1"
    using Cons.prems(2) inc_nonzero [of "om_nextOrderId om"] unat_inc [of "om_nextOrderId om"] by simp_all
  have "flow_inv permits outbox online rm ?om"
    using Cons.prems(1) no_wrap(1) by (rule flow_inv_do)
  moreover have "unat (om_nextOrderId ?om) \<le> unat (om_nextOrderId om) + 1"
    using nextOrderId_do [OF Cons.prems(1), of ev] no_wrap(2) by auto
  ultimately show ?case using Cons.IH [of ?om] Cons.prems(2) by simp
qed simp

lemma flow_inv_new:
  assumes "online gw" "outbox gw = []"
  shows "flow_inv permits outbox online rm (new_order_manager gw rm pos)"
  using assms by (auto simp: flow_inv_def tracked_ok_def new_order_manager_def om_find_def
      om_wf_new [unfolded new_order_manager_def])

end

interpretation desk: order_flow checkOrder rm_permits gateway_send gateway_cancel transport wire_online ..

text \<open>The order manager on the Binance gateway with a recording transport, and its runs.\<close>

type_synonym desk = "(risk_manager, wire_gateway) order_manager"

definition new_desk :: "risk_limits \<Rightarrow> position \<Rightarrow> desk" where
  "new_desk limits pos = new_order_manager wire_gateway (new_risk_manager limits) pos"

definition desk_run :: "om_event list \<Rightarrow> desk \<Rightarrow> desk" where
  "desk_run evs om = run_each (om_do checkOrder gateway_send gateway_cancel) evs om"

definition sent_orders :: "desk \<Rightarrow> order list" where
  "sent_orders om = sends (transport (om_gateway om))"

lemma desk_run_inv:
  assumes "length evs < 2 ^ 64 - 1"
  shows "flow_inv rm_permits transport wire_online (new_risk_manager limits)
    (desk_run evs (new_desk limits pos))"
  unfolding desk_run_def new_desk_def
  using assms
  by (intro desk.flow_inv_run desk.flow_inv_new)
    (simp_all add: new_order_manager_def wire_gateway_def gateway_with_handlers_def
      wire_online_gateway [unfolded wire_gateway_def gateway_with_handlers_def])

text \<open>Every order at the venue answers a creation call with its request.\<close>

lemma sent_orders_step:
  assumes "wire_online (om_gateway om)"
  shows "wire_online (om_gateway (om_do checkOrder gateway_send gateway_cancel ev om))"
    "ord \<in> set (sent_orders (om_do checkOrder gateway_send gateway_cancel ev om)) \<Longrightarrow>
     ord \<in> set (sent_orders om) \<or> ev = EvCreate (request_of ord)"
proof -
  have *: "wire_online (om_gateway (om_do checkOrder gateway_send gateway_cancel ev om))
    \<and> (ord \<in> set (sent_orders (om_do checkOrder gateway_send gateway_cancel ev om)) \<longrightarrow>
        ord \<in> set (sent_orders om) \<or> ev = EvCreate (request_of ord))"
  proof (cases ev)
    case (EvCreate request)
    with assms show ?thesis
      by (auto simp: createOrder_def Let_def sent_orders_def wire.outbox_send wire.online_send
          split: prod.split)
  next
    case (EvReport report)
    with assms show ?thesis by (simp add: sent_orders_def)
  next
    case (EvCancel oid)
    with assms show ?thesis
      by (auto simp: om_cancel_def sent_orders_def wire.outbox_cancel wire.online_cancel
          split: option.split)
  qed
  then show "wire_online (om_gateway (om_do checkOrder gateway_send gateway_cancel ev om))"
    "ord \<in> set (sent_orders (om_do checkOrder gateway_send gateway_cancel ev om)) \<Longrightarrow>
     ord \<in> set (sent_orders om) \<or> ev = EvCreate (request_of ord)"
    by blast+
qed

lemma sent_orders_requested:
  "wire_online (om_gateway om) \<Longrightarrow> ord \<in> set (sent_orders (desk_run evs om)) \<Longrightarrow>
   ord \<in> set (sent_orders om) \<or> EvCreate (request_of ord) \<in> set evs"
proof (induction evs arbitrary: om)
  case (Cons ev evs)
  let ?om = "om_do checkOrder gateway_send gateway_cancel ev om"
  have "ord \<in> set (sent_orders ?om) \<or> EvCreate (request_of ord) \<in> set evs"
    using Cons.IH [OF sent_orders_step(1) [OF Cons.prems(1)]] Cons.prems(2) by (simp add: desk_run_def)
  then show ?case using sent_orders_step(2) [OF Cons.prems(1), of ord ev] by auto
qed (simp add: desk_run_def)

definition buy_request :: "price \<Rightarrow> quantity \<Rightarrow> order_request" where
  "buy_request p q = \<lparr>req_instrument = 1, req_side = SideBuy, req_type = TypeLimit,
     req_price = p, req_quantity = q\<rparr>"

lemma valid_buy_request [simp]:
  "0 < sint (raw p) \<Longrightarrow> 0 < sint (raw q) \<Longrightarrow> \<not> invalid_request (buy_request p q)"
  by (auto simp: invalid_request_def buy_request_def isPositive_def)

lemma new_desk_readings [simp]:
  "om_wf (new_desk limits pos)"
  "om_position (new_desk limits pos) = pos"
  "om_riskManager (new_desk limits pos) = new_risk_manager limits"
  "om_nextOrderId (new_desk limits pos) = 1"
  "om_gateway (new_desk limits pos) = wire_gateway"
  by (simp_all add: new_desk_def) (simp_all add: new_order_manager_def)

lemma within_no_limits [simp]:
  "quantity_ok no_limits r" "notional_ok no_limits r" "position_ok no_limits r pos"
  "rm_limits (new_risk_manager limits) = limits"
  by (simp_all add: quantity_ok_def notional_ok_def position_ok_def no_limits_def new_risk_manager_def)

lemma desk_first_state:
  assumes "\<not> invalid_request request" "within_limits limits request pos"
  shows "sent_orders (desk_run [EvCreate request] (new_desk limits pos)) = [order_of 1 request]"
    "om_find oid (desk_run [EvCreate request] (new_desk limits pos)) =
       (if oid = 1 then Some (order_of 1 request) else None)"
    "om_wf (desk_run [EvCreate request] (new_desk limits pos))"
    "om_nextOrderId (desk_run [EvCreate request] (new_desk limits pos)) = 2"
    "om_position (desk_run [EvCreate request] (new_desk limits pos)) = pos"
proof -
  let ?om = "new_desk limits pos"
  have "fst (checkOrder request pos (new_risk_manager limits)) = RiskAccepted"
    using assms(2) by (simp add: risk.accepted_iff rm_permits_def)
  with assms(1) have st: "createOrder checkOrder gateway_send request ?om = (Inr 1,
      ?om\<lparr>om_riskManager := snd (checkOrder request pos (new_risk_manager limits)),
         om_nextOrderId := 2, om_orders := smap_assign 1 (order_of 1 request) (om_orders ?om),
         om_gateway := gateway_send (order_of 1 request) wire_gateway\<rparr>)"
    by (simp add: createOrder_accepted)
  have tr: "transport wire_gateway = []"
    by (simp add: wire_gateway_def gateway_with_handlers_def)
  from st show "sent_orders (desk_run [EvCreate request] ?om) = [order_of 1 request]"
    "om_nextOrderId (desk_run [EvCreate request] ?om) = 2"
    "om_position (desk_run [EvCreate request] ?om) = pos"
    by (simp_all add: sent_orders_def desk_run_def wire.outbox_send tr)
  have "om_orders ?om = []" by (simp add: new_desk_def new_order_manager_def)
  with st show "om_find oid (desk_run [EvCreate request] ?om) =
      (if oid = 1 then Some (order_of 1 request) else None)"
    by (simp add: desk_run_def om_find_def)
  show "om_wf (desk_run [EvCreate request] ?om)"
    by (simp add: desk_run_def om_wf_createOrder)
qed

section \<open>Properties\<close>

text \<open>
  C4. \<open>createOrder\<close> returns \<open>InvalidRequest\<close> exactly for a request without instrument or with a
  price or quantity that is not positive, \<open>RiskRejected\<close> exactly when the risk manager refuses a
  valid one, and otherwise the next id. A refusal stores and sends nothing; a success stores the
  new order under its id, leaves every other tracked order alone, and sends that order once.
\<close>

theorem createOrder_outcome:
  fixes check :: "order_request \<Rightarrow> position \<Rightarrow> 'rm \<Rightarrow> risk_result \<times> 'rm"
    and send :: "order \<Rightarrow> 'gw \<Rightarrow> 'gw"
    and request :: order_request and om :: "('rm, 'gw) order_manager"
  assumes "om_wf om"
  defines "res \<equiv> createOrder check send request om"
  shows "fst res =
      (if invalid_request request then Inl ErrInvalidRequest
       else if fst (check request (om_position om) (om_riskManager om)) \<noteq> RiskAccepted
       then Inl ErrRiskRejected else Inr (om_nextOrderId om))
    \<and> om_position (snd res) = om_position om
    \<and> (case fst res of
         Inl e \<Rightarrow> om_orders (snd res) = om_orders om \<and> om_gateway (snd res) = om_gateway om
                  \<and> om_nextOrderId (snd res) = om_nextOrderId om
       | Inr oid \<Rightarrow> om_find oid om = None \<and> om_nextOrderId (snd res) = oid + 1
                  \<and> om_find oid (snd res) = Some (order_of oid request)
                  \<and> (\<forall>i. i \<noteq> oid \<longrightarrow> om_find i (snd res) = om_find i om)
                  \<and> om_gateway (snd res) = send (order_of oid request) (om_gateway om))"
proof -
  have "smap_wf (om_orders om)" using assms(1) by (simp add: om_wf_def)
  with assms(1) om_wf_fresh [OF assms(1)] show ?thesis
    unfolding res_def
    by (cases rule: createOrder_cases [where check = check and send = send and request = request])
      (simp_all add: om_find_def)
qed

theorem createOrder_outcome_witness:
  "fst (createOrder checkOrder gateway_send (buy_request (Price 5) (Quantity 7)) (new_desk no_limits (new_position 1))) = Inr 1"
  using createOrder_outcome [of "new_desk no_limits (new_position 1)" checkOrder gateway_send
      "buy_request (Price 5) (Quantity 7)"]
  by (simp add: new_desk_readings checkOrder_result within_no_limits)

text \<open>
  Risk control of the outbound flow: whatever requests, execution reports and cancellations
  the order manager gets (fewer than its 64-bit id counter can number), every order that ever
  reached the venue is a valid new order with nothing filled, within the order quantity and
  notional limits and, for some position it was checked against, within the position limit.
\<close>

theorem every_sent_order_passed_risk:
  assumes "length evs < 2 ^ 64 - 1"
    and "ord \<in> set (sent_orders (desk_run evs (new_desk limits pos)))"
  shows "\<not> invalid_request (request_of ord) \<and> ord_status ord = StNew \<and> ord_filledQuantity ord = 0
    \<and> quantity_ok limits (request_of ord) \<and> notional_ok limits (request_of ord)
    \<and> (\<exists>p. position_ok limits (request_of ord) p)"
  using desk_run_inv [OF assms(1), of limits pos] assms(2)
  by (auto simp: flow_inv_def sent_orders_def sent_ok_def rm_permits_def within_limits_def
      new_risk_manager_def)

theorem every_sent_order_passed_risk_witness:
  "quantity_ok \<lparr>maxOrderQuantity = Quantity 9, maxPositionQuantity = 0, maxNotional = 0\<rparr>
     (request_of (order_of 1 (buy_request (Price 5) (Quantity 7))))"
proof -
  let ?l = "\<lparr>maxOrderQuantity = Quantity 9, maxPositionQuantity = 0, maxNotional = 0\<rparr>"
  let ?r = "buy_request (Price 5) (Quantity 7)"
  have "within_limits ?l ?r (new_position 1)"
    by (simp add: within_limits_def quantity_ok_def position_ok_def notional_ok_def buy_request_def)
  then show ?thesis
    using every_sent_order_passed_risk [of "[EvCreate ?r]" "order_of 1 ?r" ?l "new_position 1"]
    by (simp add: desk_first_state)
qed

text \<open>
  C5. No order is lost, duplicated or renamed: after any run the client ids sent to the venue are
  pairwise distinct and are exactly the ids the manager tracks, and the tracked order still has
  the instrument, side, type, price and quantity that were sent.
\<close>

theorem sent_orders_are_tracked:
  assumes "length evs < 2 ^ 64 - 1" and "om = desk_run evs (new_desk limits pos)"
  shows "distinct (map ord_clientOrderId (sent_orders om))
    \<and> {oid. om_find oid om \<noteq> None} = ord_clientOrderId ` set (sent_orders om)
    \<and> (\<forall>ord \<in> set (sent_orders om).
         map_option request_of (om_find (ord_clientOrderId ord) om) = Some (request_of ord))"
  using desk_run_inv [OF assms(1), of limits pos] assms(2)
  by (auto simp: flow_inv_def tracked_ok_def sent_orders_def)

theorem sent_orders_are_tracked_witness:
  "{oid. om_find oid (desk_run [EvCreate (buy_request (Price 5) (Quantity 7))]
      (new_desk no_limits (new_position 1))) \<noteq> None} = {1}"
  using sent_orders_are_tracked [of "[EvCreate (buy_request (Price 5) (Quantity 7))]" _ no_limits
      "new_position 1", OF _ refl]
  by (simp add: desk_first_state within_limits_def)

text \<open>
  What one execution report does to the order manager: nothing, with \<open>false\<close>, when its client
  id is not tracked; otherwise it overwrites exchange id, status and filled quantity of that
  order alone, whatever its current status, and a trade, and only a trade, is applied to the
  manager's position with the report's side, price and quantity, for any instrument.
\<close>

theorem applyExecution_effect:
  assumes "om_wf om"
  shows "case om_find (er_clientOrderId report) om of
      None \<Rightarrow> om_applyExecution report om = (False, om)
    | Some ord \<Rightarrow>
        fst (om_applyExecution report om)
        \<and> om_find (er_clientOrderId report) (snd (om_applyExecution report om)) =
            Some (ord\<lparr>ord_exchangeOrderId := er_exchangeOrderId report,
                      ord_status := er_status report, ord_filledQuantity := er_filledQuantity report\<rparr>)
        \<and> (\<forall>oid. oid \<noteq> er_clientOrderId report \<longrightarrow>
              om_find oid (snd (om_applyExecution report om)) = om_find oid om)
        \<and> om_position (snd (om_applyExecution report om)) =
            (if er_execType report = ExTrade
             then applyTrade (er_side report) (er_price report) (er_quantity report) (om_position om)
             else om_position om)
        \<and> om_gateway (snd (om_applyExecution report om)) = om_gateway om"
proof (cases "om_find (er_clientOrderId report) om")
  case (Some ord)
  moreover have "smap_wf (om_orders om)" using assms by (simp add: om_wf_def)
  ultimately show ?thesis by (simp add: om_applyExecution_known)
qed (simp add: om_applyExecution_unknown)

theorem applyExecution_effect_witness:
  "map_option ord_status (om_find 1 (snd (om_applyExecution
      (trade_report 1 1 SideBuy (Price 5) (Quantity 7))
      (desk_run [EvCreate (buy_request (Price 5) (Quantity 7))] (new_desk no_limits (new_position 1))))))
   = Some StFilled"
  using applyExecution_effect [of
      "desk_run [EvCreate (buy_request (Price 5) (Quantity 7))] (new_desk no_limits (new_position 1))"
      "trade_report 1 1 SideBuy (Price 5) (Quantity 7)"]
  by (simp add: desk_first_state within_limits_def trade_report_def)

end
