(* ===== verification/Market_Event.thy ===== *)
theory Market_Event
  imports Core_Types
begin

text \<open>
  \<open>MarketEvent\<close> (market_event.hpp): the top of the book after one update, the message between
  the market data side and the strategy, recording and PnL components.
\<close>

record market_event =
  me_instrument :: instrument_id
  me_sequence :: sequence_number
  me_exchangeTimestamp :: timestamp
  me_receiveTimestamp :: timestamp
  me_bestBid :: price
  me_bestBidQuantity :: quantity
  me_bestAsk :: price
  me_bestAskQuantity :: quantity

text \<open>The struct's default member values.\<close>

definition default_event :: market_event where
  "default_event =
     \<lparr>me_instrument = 0, me_sequence = 0, me_exchangeTimestamp = Timestamp 0,
      me_receiveTimestamp = Timestamp 0, me_bestBid = 0, me_bestBidQuantity = 0,
      me_bestAsk = 0, me_bestAskQuantity = 0\<rparr>"

end
