(* ===== verification/Strategy.thy ===== *)
theory Strategy
  imports Order_Manager Market_Event
begin

text \<open>
  The strategy side: \<open>Signal\<close> (signal.hpp), \<open>ImbalanceStrategy\<close> (imbalance_strategy.cpp) and
  \<open>StrategyExecutor\<close> (strategy_executor.cpp). The strategy decides in 128-bit integers;
  \<open>imbalance_signal\<close> is the documented rule as a rational inequality over the integers.
\<close>

section \<open>ImbalanceStrategy\<close>

datatype signal = SigNone | SigBuy | SigSell

record imbalance_strategy =
  thresholdNumerator :: i64
  thresholdDenominator :: i64

definition default_strategy :: imbalance_strategy where
  "default_strategy = \<lparr>thresholdNumerator = 7, thresholdDenominator = 10\<rparr>"

definition evaluate :: "imbalance_strategy \<Rightarrow> market_event \<Rightarrow> signal" where
  "evaluate st event =
     (let bidQuantity = sint (raw (me_bestBidQuantity event));
          askQuantity = sint (raw (me_bestAskQuantity event));
          totalQuantity = i128 (bidQuantity + askQuantity)
      in if totalQuantity \<le> 0 then SigNone
         else
           let difference = i128 (bidQuantity - askQuantity)
           in if difference > 0
              then let lhs = i128 (difference * sint (thresholdDenominator st));
                       rhs = i128 (totalQuantity * sint (thresholdNumerator st))
                   in if lhs \<ge> rhs then SigBuy else SigNone
              else if difference < 0
              then let absoluteDifference = i128 (- difference);
                       lhs = i128 (absoluteDifference * sint (thresholdDenominator st));
                       rhs = i128 (totalQuantity * sint (thresholdNumerator st))
                   in if lhs \<ge> rhs then SigSell else SigNone
              else SigNone)"

text \<open>The documented decision for bid quantity \<open>b\<close>, ask quantity \<open>a\<close> and threshold \<open>n / d\<close>.\<close>

definition imbalance_signal :: "int \<Rightarrow> int \<Rightarrow> int \<Rightarrow> int \<Rightarrow> signal" where
  "imbalance_signal n d b a =
     (if b + a \<le> 0 \<or> b = a \<or> \<bar>b - a\<bar> * d < (b + a) * n then SigNone
      else if b > a then SigBuy else SigSell)"

lemma i64_abs_sum: "\<bar>sint (x :: i64)\<bar> \<le> 2 ^ 63"
  using sint_bounds [of x] by (simp add: abs_le_iff)

lemma in_i128_times_i64:
  assumes "\<bar>z\<bar> < 2 ^ 64"
  shows "in_i128 (z * sint (y :: i64))"
proof -
  have "\<bar>z * sint y\<bar> \<le> \<bar>z\<bar> * 2 ^ 63"
    using i64_abs_sum [of y] by (simp add: abs_mult mult_left_mono)
  also have "\<dots> < 2 ^ 64 * 2 ^ 63" using assms by simp
  finally show ?thesis by (intro in_i128_small) simp
qed

lemma evaluate_exact:
  "evaluate st event =
     imbalance_signal (sint (thresholdNumerator st)) (sint (thresholdDenominator st))
       (sint (raw (me_bestBidQuantity event))) (sint (raw (me_bestAskQuantity event)))"
proof -
  let ?b = "sint (raw (me_bestBidQuantity event))" and ?a = "sint (raw (me_bestAskQuantity event))"
  have b: "- (2 ^ 63) \<le> ?b" "?b < 2 ^ 63" and a: "- (2 ^ 63) \<le> ?a" "?a < 2 ^ 63"
    by (rule sint_bounds)+
  have sum: "in_i128 (?b + ?a)" and diff: "in_i128 (?b - ?a)" and flip: "in_i128 (?a - ?b)"
    using a b by (simp_all add: in_i128_def)
  have tn: "in_i128 ((?b + ?a) * sint (thresholdNumerator st))" if "0 < ?b + ?a"
    using a b that by (intro in_i128_times_i64) (simp add: abs_less_iff)
  have dd: "in_i128 ((?b - ?a) * sint (thresholdDenominator st))"
    "in_i128 ((?a - ?b) * sint (thresholdDenominator st))"
    using a b by (intro in_i128_times_i64; simp add: abs_less_iff)+
  note exact = i128_exact [OF sum] i128_exact [OF diff] i128_exact [OF flip]
    i128_exact [OF tn] i128_exact [OF dd(1)] i128_exact [OF dd(2)]
  consider "?b + ?a \<le> 0" | "0 < ?b + ?a" "?a < ?b" | "0 < ?b + ?a" "?b < ?a" | "0 < ?b + ?a" "?a = ?b"
    by linarith
  then show ?thesis
  proof cases
    case 4
    then have "i128 (?b - ?a) = 0" using exact(2) by simp
    with 4 exact(1) show ?thesis by (simp add: evaluate_def imbalance_signal_def Let_def)
  qed (use exact in \<open>simp_all add: evaluate_def imbalance_signal_def Let_def not_le\<close>)
qed

text \<open>The same event with its two sides exchanged.\<close>

definition mirrored :: "market_event \<Rightarrow> market_event" where
  "mirrored event = event\<lparr>me_bestBid := me_bestAsk event, me_bestAsk := me_bestBid event,
     me_bestBidQuantity := me_bestAskQuantity event, me_bestAskQuantity := me_bestBidQuantity event\<rparr>"

fun opposite :: "signal \<Rightarrow> signal" where
  "opposite SigBuy = SigSell"
| "opposite SigSell = SigBuy"
| "opposite SigNone = SigNone"

lemma imbalance_signal_mirror: "imbalance_signal n d a b = opposite (imbalance_signal n d b a)"
  by (auto simp: imbalance_signal_def add.commute abs_minus_commute)

section \<open>StrategyExecutor\<close>

definition signal_request :: "quantity \<Rightarrow> signal \<Rightarrow> market_event \<Rightarrow> order_request" where
  "signal_request orderQuantity sg event =
     \<lparr>req_instrument = me_instrument event,
      req_side = (if sg = SigBuy then SideBuy else SideSell),
      req_type = TypeLimit,
      req_price = (if sg = SigBuy then me_bestAsk event else me_bestBid event),
      req_quantity = orderQuantity\<rparr>"

definition execute ::
  "(order_request \<Rightarrow> position \<Rightarrow> 'rm \<Rightarrow> risk_result \<times> 'rm) \<Rightarrow> (order \<Rightarrow> 'gw \<Rightarrow> 'gw) \<Rightarrow> quantity \<Rightarrow>
   signal \<Rightarrow> market_event \<Rightarrow> ('rm, 'gw) order_manager \<Rightarrow>
   (order_creation_error + order_id option) \<times> ('rm, 'gw) order_manager" where
  "execute check send orderQuantity sg event om =
     (if sg = SigNone then (Inr None, om)
      else
        let (result, om') = createOrder check send (signal_request orderQuantity sg event) om
        in (case result of Inl e \<Rightarrow> (Inl e, om') | Inr oid \<Rightarrow> (Inr (Some oid), om')))"

lemma execute_none [simp]: "execute check send q SigNone event om = (Inr None, om)"
  by (simp add: execute_def)

lemma execute_state:
  "snd (execute check send q sg event om) =
     (if sg = SigNone then om else snd (createOrder check send (signal_request q sg event) om))"
  by (simp add: execute_def split: prod.split sum.split)

lemma execute_result:
  "sg \<noteq> SigNone \<Longrightarrow>
   fst (execute check send q sg event om) =
     map_sum id Some (fst (createOrder check send (signal_request q sg event) om))"
  by (simp add: execute_def split: prod.split sum.split)

lemma signal_request_invalid:
  "invalid_request (signal_request q sg event) \<longleftrightarrow>
     me_instrument event = 0 \<or> \<not> isPositive q
     \<or> \<not> isPositive (if sg = SigBuy then me_bestAsk event else me_bestBid event)"
  by (auto simp: invalid_request_def signal_request_def isPositive_def)

section \<open>Properties\<close>

text \<open>
  C11. For all 64-bit quantities and thresholds the strategy decides the documented inequality
  over the integers, no 128-bit product overflowing: nothing on a non-positive total, a tie or
  an imbalance below the threshold, and otherwise the side with more quantity; exchanging the
  two sides of the book exchanges Buy and Sell.
\<close>

theorem evaluate_is_imbalance_rule:
  "evaluate st event =
     imbalance_signal (sint (thresholdNumerator st)) (sint (thresholdDenominator st))
       (sint (raw (me_bestBidQuantity event))) (sint (raw (me_bestAskQuantity event)))
   \<and> evaluate st (mirrored event) = opposite (evaluate st event)"
  by (simp add: evaluate_exact imbalance_signal_mirror [of _ _ "sint (raw (me_bestAskQuantity event))"]
      mirrored_def)

text \<open>
  The executor takes the liquidity of the other side: a successful Buy (Sell) stores one
  limit order of the configured quantity at the event's best ask (bid) price under the returned
  id; without a signal nothing happens at all; a signal whose price side is empty (price zero)
  is refused as \<open>InvalidRequest\<close>, leaving the manager unchanged.
\<close>

theorem execute_outcome:
  assumes "om_wf om" and "res = execute check send q sg event om"
  shows "(sg = SigNone \<longrightarrow> res = (Inr None, om))
    \<and> (sg \<noteq> SigNone \<longrightarrow>
        (case fst res of
           Inr None \<Rightarrow> False
         | Inr (Some oid) \<Rightarrow>
             oid = om_nextOrderId om
             \<and> om_find oid (snd res) = Some
                \<lparr>ord_clientOrderId = oid, ord_exchangeOrderId = 0, ord_instrument = me_instrument event,
                 ord_side = (if sg = SigBuy then SideBuy else SideSell), ord_type = TypeLimit,
                 ord_price = (if sg = SigBuy then me_bestAsk event else me_bestBid event),
                 ord_quantity = q, ord_filledQuantity = 0, ord_status = StNew\<rparr>
         | Inl e \<Rightarrow> om_orders (snd res) = om_orders om \<and> om_gateway (snd res) = om_gateway om))
    \<and> (sg \<noteq> SigNone \<and> (if sg = SigBuy then me_bestAsk event else me_bestBid event) = 0 \<longrightarrow>
        res = (Inl ErrInvalidRequest, om))"
proof (cases "sg = SigNone")
  case False
  have wf: "smap_wf (om_orders om)" using assms(1) by (simp add: om_wf_def)
  have invalid: "invalid_request (signal_request q sg event)"
    if "(if sg = SigBuy then me_bestAsk event else me_bestBid event) = 0"
    using that by (simp add: signal_request_invalid isPositive_def)
  from assms(1) show ?thesis
  proof (cases rule: createOrder_cases [where check = check and send = send
        and request = "signal_request q sg event"])
    case accepted
    with invalid assms(2) False wf show ?thesis
      by (auto simp: execute_def om_find_def order_of_def signal_request_def)
  qed (use invalid assms(2) False in \<open>auto simp: execute_def\<close>)
qed (use assms in simp)

definition one_sided_event :: market_event where
  "one_sided_event = default_event\<lparr>me_instrument := 1, me_bestBid := Price 5, me_bestBidQuantity := Quantity 3\<rparr>"

theorem execute_outcome_witness:
  "evaluate default_strategy one_sided_event = SigBuy
   \<and> fst (execute checkOrder gateway_send (Quantity 7) SigBuy one_sided_event
        (new_desk no_limits (new_position 1))) = Inl ErrInvalidRequest"
  using execute_outcome [of "new_desk no_limits (new_position 1)" _ checkOrder gateway_send
      "Quantity 7" SigBuy one_sided_event, OF _ refl]
  by (simp add: one_sided_event_def default_event_def evaluate_exact imbalance_signal_def
      default_strategy_def)

end
