(* ===== verification/Order_Book.thy ===== *)
theory Order_Book
  imports Core_Types
begin

text \<open>
  \<open>market_data::OrderBook\<close> (order_book.cpp) and the two model structs it works on, \<open>BookLevel\<close>
  and \<open>BookUpdate\<close>. The book keeps one \<open>std::map\<close> per side, the sequence number of the last
  applied update and a validity flag: an update that does not carry the next sequence number
  invalidates the book, and only a new snapshot (\<open>replace\<close>) revives it.
\<close>

record book_level =
  lvl_price :: price
  lvl_quantity :: quantity

record book_update =
  bu_instrument :: instrument_id
  bu_sequence :: sequence_number
  bu_exchangeTimestamp :: timestamp
  bu_side :: side
  bu_price :: price
  bu_quantity :: quantity

type_synonym levels = "(price, quantity) smap"

record order_book =
  ob_bids :: levels
  ob_asks :: levels
  ob_sequenceNumber :: sequence_number
  ob_valid :: bool

definition new_book :: order_book where
  "new_book = \<lparr>ob_bids = [], ob_asks = [], ob_sequenceNumber = 0, ob_valid = False\<rparr>"

definition isValid :: "order_book \<Rightarrow> bool" where
  "isValid b = ob_valid b"

definition book_sequence :: "order_book \<Rightarrow> sequence_number" where
  "book_sequence b = ob_sequenceNumber b"

definition clear_book :: "order_book \<Rightarrow> order_book" where
  "clear_book b = b\<lparr>ob_bids := [], ob_asks := [], ob_sequenceNumber := 0, ob_valid := False\<rparr>"

definition replace_book :: "sequence_number \<Rightarrow> levels \<Rightarrow> levels \<Rightarrow> order_book \<Rightarrow> order_book" where
  "replace_book seq bids asks b =
     b\<lparr>ob_bids := bids, ob_asks := asks, ob_sequenceNumber := seq, ob_valid := True\<rparr>"

text \<open>The level change of one update: zero quantity erases, anything else assigns.\<close>

definition update_levels :: "book_update \<Rightarrow> levels \<Rightarrow> levels" where
  "update_levels u ls =
     (if isZero (bu_quantity u) then smap_erase (bu_price u) ls
      else smap_assign (bu_price u) (bu_quantity u) ls)"

definition applyUpdate :: "book_update \<Rightarrow> order_book \<Rightarrow> bool \<times> order_book" where
  "applyUpdate u b =
     (if \<not> ob_valid b then (False, b)
      else if bu_sequence u \<noteq> ob_sequenceNumber b + 1 then (False, b\<lparr>ob_valid := False\<rparr>)
      else
        let b' = (case bu_side u of
                    SideBuy \<Rightarrow> b\<lparr>ob_bids := update_levels u (ob_bids b)\<rparr>
                  | SideSell \<Rightarrow> b\<lparr>ob_asks := update_levels u (ob_asks b)\<rparr>)
        in (True, b'\<lparr>ob_sequenceNumber := bu_sequence u\<rparr>))"

definition level_of :: "price \<times> quantity \<Rightarrow> book_level" where
  "level_of e = \<lparr>lvl_price = fst e, lvl_quantity = snd e\<rparr>"

definition bestBid :: "order_book \<Rightarrow> book_level option" where
  "bestBid b = map_option level_of (smap_rbegin (ob_bids b))"

definition bestAsk :: "order_book \<Rightarrow> book_level option" where
  "bestAsk b = map_option level_of (smap_begin (ob_asks b))"

definition bidVolume :: "order_book \<Rightarrow> price \<Rightarrow> quantity" where
  "bidVolume b p = (case smap_find (ob_bids b) p of None \<Rightarrow> 0 | Some q \<Rightarrow> q)"

definition askVolume :: "order_book \<Rightarrow> price \<Rightarrow> quantity" where
  "askVolume b p = (case smap_find (ob_asks b) p of None \<Rightarrow> 0 | Some q \<Rightarrow> q)"

section \<open>Invariant\<close>

text \<open>
  The levels are well-formed maps and no level holds a zero quantity. The second half needs
  snapshots that hold none (\<open>replace\<close> stores whatever it is given).
\<close>

definition levels_wf :: "levels \<Rightarrow> bool" where
  "levels_wf ls \<longleftrightarrow> smap_wf ls \<and> (\<forall>e \<in> set ls. snd e \<noteq> 0)"

definition book_wf :: "order_book \<Rightarrow> bool" where
  "book_wf b \<longleftrightarrow> levels_wf (ob_bids b) \<and> levels_wf (ob_asks b)"

lemma levels_wf_Nil [simp]: "levels_wf []"
  by (simp add: levels_wf_def)

lemma levels_wfD [dest]: "levels_wf ls \<Longrightarrow> smap_wf ls"
  by (simp add: levels_wf_def)

lemma levels_wf_update [simp]: "levels_wf ls \<Longrightarrow> levels_wf (update_levels u ls)"
  using set_smap_assign [of "bu_price u" "bu_quantity u" ls]
  by (auto simp: levels_wf_def update_levels_def) (auto simp: smap_erase_def)

lemma levels_find_nonzero: "levels_wf ls \<Longrightarrow> smap_find ls p = Some q \<Longrightarrow> q \<noteq> 0"
  by (auto simp: levels_wf_def dest!: smap_find_SomeD)

lemma find_update_levels:
  "smap_wf ls \<Longrightarrow>
   smap_find (update_levels u ls) =
     (smap_find ls)(bu_price u := (if bu_quantity u = 0 then None else Some (bu_quantity u)))"
  by (simp add: update_levels_def)

lemma book_wf_new [simp]: "book_wf new_book"
  by (simp add: book_wf_def new_book_def)

lemma book_wf_clear [simp]: "book_wf (clear_book b)"
  by (simp add: book_wf_def clear_book_def)

lemma book_wf_replace: "levels_wf bids \<Longrightarrow> levels_wf asks \<Longrightarrow> book_wf (replace_book s bids asks b)"
  by (simp add: book_wf_def replace_book_def)

lemma book_wf_applyUpdate: "book_wf b \<Longrightarrow> book_wf (snd (applyUpdate u b))"
  by (auto simp: book_wf_def applyUpdate_def Let_def split: side.split)

section \<open>The branches of applyUpdate\<close>

lemma applyUpdate_invalid [shape]: "\<not> ob_valid b \<Longrightarrow> applyUpdate u b = (False, b)"
  by (simp add: applyUpdate_def)

lemma applyUpdate_gap [shape]:
  "ob_valid b \<Longrightarrow> bu_sequence u \<noteq> ob_sequenceNumber b + 1 \<Longrightarrow>
   applyUpdate u b = (False, b\<lparr>ob_valid := False\<rparr>)"
  by (simp add: applyUpdate_def)

lemma applyUpdate_accepted_iff:
  "fst (applyUpdate u b) \<longleftrightarrow> ob_valid b \<and> bu_sequence u = ob_sequenceNumber b + 1"
  by (simp add: applyUpdate_def Let_def)

lemma applyUpdate_valid: "ob_valid (snd (applyUpdate u b)) = fst (applyUpdate u b)"
  by (simp add: applyUpdate_def Let_def split: side.split)

lemma applyUpdate_buy [shape]:
  "ob_valid b \<Longrightarrow> bu_sequence u = ob_sequenceNumber b + 1 \<Longrightarrow> bu_side u = SideBuy \<Longrightarrow>
   applyUpdate u b =
     (True, b\<lparr>ob_bids := update_levels u (ob_bids b), ob_sequenceNumber := ob_sequenceNumber b + 1\<rparr>)"
  by (simp add: applyUpdate_def)

lemma applyUpdate_sell [shape]:
  "ob_valid b \<Longrightarrow> bu_sequence u = ob_sequenceNumber b + 1 \<Longrightarrow> bu_side u = SideSell \<Longrightarrow>
   applyUpdate u b =
     (True, b\<lparr>ob_asks := update_levels u (ob_asks b), ob_sequenceNumber := ob_sequenceNumber b + 1\<rparr>)"
  by (simp add: applyUpdate_def)

section \<open>Abstract contract and refinement\<close>

text \<open>
  What the book promises: it is either out of sync, or in sync at a sequence number with one
  partial function from prices to quantities per side.
\<close>

datatype sync_book = OutOfSync | InSync sequence_number "price \<rightharpoonup> quantity" "price \<rightharpoonup> quantity"

fun sync_step :: "book_update \<Rightarrow> sync_book \<Rightarrow> sync_book" where
  "sync_step u OutOfSync = OutOfSync"
| "sync_step u (InSync s bids asks) =
     (let change = (\<lambda>m. m(bu_price u := (if bu_quantity u = 0 then None else Some (bu_quantity u))))
      in if bu_sequence u = s + 1
         then (case bu_side u of
                 SideBuy \<Rightarrow> InSync (s + 1) (change bids) asks
               | SideSell \<Rightarrow> InSync (s + 1) bids (change asks))
         else OutOfSync)"

definition abs_book :: "order_book \<Rightarrow> sync_book" where
  "abs_book b =
     (if ob_valid b
      then InSync (ob_sequenceNumber b) (smap_find (ob_bids b)) (smap_find (ob_asks b))
      else OutOfSync)"

text \<open>The levels of one side after a run of updates, and the numbering a run must have.\<close>

fun side_run :: "side \<Rightarrow> book_update list \<Rightarrow> (price \<rightharpoonup> quantity) \<Rightarrow> (price \<rightharpoonup> quantity)" where
  "side_run sd [] m = m"
| "side_run sd (u # us) m =
     side_run sd us
       (if bu_side u = sd
        then m(bu_price u := (if bu_quantity u = 0 then None else Some (bu_quantity u)))
        else m)"

fun consecutive_from :: "sequence_number \<Rightarrow> book_update list \<Rightarrow> bool" where
  "consecutive_from s [] \<longleftrightarrow> True"
| "consecutive_from s (u # us) \<longleftrightarrow> bu_sequence u = s + 1 \<and> consecutive_from (s + 1) us"

definition apply_updates :: "book_update list \<Rightarrow> order_book \<Rightarrow> order_book" where
  "apply_updates us b = run_each (\<lambda>u b. snd (applyUpdate u b)) us b"

lemma apply_updates_simps [simp]:
  "apply_updates [] b = b"
  "apply_updates (u # us) b = apply_updates us (snd (applyUpdate u b))"
  by (simp_all add: apply_updates_def)

lemma abs_applyUpdate:
  "book_wf b \<Longrightarrow> abs_book (snd (applyUpdate u b)) = sync_step u (abs_book b)"
  by (cases "bu_side u")
    (auto simp: abs_book_def applyUpdate_def find_update_levels book_wf_def Let_def levels_wfD)

lemma applyUpdate_sync: "fst (applyUpdate u b) \<longleftrightarrow> abs_book (snd (applyUpdate u b)) \<noteq> OutOfSync"
  by (simp add: abs_book_def applyUpdate_valid)

lemma abs_book_invalid: "\<not> ob_valid b \<Longrightarrow> abs_book (apply_updates us b) = OutOfSync"
  by (induction us) (simp_all add: abs_book_def applyUpdate_invalid)

lemma book_wf_apply_updates: "book_wf b \<Longrightarrow> book_wf (apply_updates us b)"
  unfolding apply_updates_def by (rule run_each_inv) (simp_all add: book_wf_applyUpdate)

lemma abs_apply_updates:
  "book_wf b \<Longrightarrow> abs_book b = InSync s bids asks \<Longrightarrow>
   abs_book (apply_updates us b) =
     (if consecutive_from s us
      then InSync (s + of_nat (length us)) (side_run SideBuy us bids) (side_run SideSell us asks)
      else OutOfSync)"
proof (induction us arbitrary: b s bids asks)
  case (Cons u us)
  let ?b = "snd (applyUpdate u b)"
  note step = abs_applyUpdate [OF Cons.prems(1), of u]
  show ?case
  proof (cases "bu_sequence u = s + 1")
    case True
    with step Cons.prems(2) show ?thesis
      by (cases "bu_side u") (simp_all add: Cons.IH [OF book_wf_applyUpdate] Cons.prems(1) add.assoc)
  next
    case False
    with step Cons.prems(2) have "\<not> ob_valid ?b"
      by (auto simp: abs_book_def split: if_splits)
    with False show ?thesis by (simp add: abs_book_invalid)
  qed
qed simp

section \<open>Operation sequences\<close>

datatype book_op = OpUpdate book_update | OpReplace sequence_number levels levels | OpClear

fun book_do :: "book_op \<Rightarrow> order_book \<Rightarrow> order_book" where
  "book_do (OpUpdate u) b = snd (applyUpdate u b)"
| "book_do (OpReplace s bids asks) b = replace_book s bids asks b"
| "book_do OpClear b = clear_book b"

fun op_wf :: "book_op \<Rightarrow> bool" where
  "op_wf (OpReplace s bids asks) \<longleftrightarrow> levels_wf bids \<and> levels_wf asks"
| "op_wf _ \<longleftrightarrow> True"

fun is_replace :: "book_op \<Rightarrow> bool" where
  "is_replace (OpReplace s bids asks) \<longleftrightarrow> True"
| "is_replace _ \<longleftrightarrow> False"

lemma book_do_wf: "op_wf x \<Longrightarrow> book_wf b \<Longrightarrow> book_wf (book_do x b)"
  by (cases x) (simp_all add: book_wf_applyUpdate book_wf_replace)

lemma book_do_stays_invalid: "\<not> is_replace x \<Longrightarrow> \<not> ob_valid b \<Longrightarrow> \<not> ob_valid (book_do x b)"
  by (cases x) (simp_all add: applyUpdate_invalid clear_book_def)

section \<open>Top of book\<close>

lemma bidVolume_nonzero:
  "levels_wf (ob_bids b) \<Longrightarrow> bidVolume b p \<noteq> 0 \<longleftrightarrow> smap_find (ob_bids b) p \<noteq> None"
  by (auto simp: bidVolume_def dest: levels_find_nonzero split: option.splits)

lemma askVolume_nonzero:
  "levels_wf (ob_asks b) \<Longrightarrow> askVolume b p \<noteq> 0 \<longleftrightarrow> smap_find (ob_asks b) p \<noteq> None"
  by (auto simp: askVolume_def dest: levels_find_nonzero split: option.splits)

lemma level_of_eq: "level_of e = l \<longleftrightarrow> e = (lvl_price l, lvl_quantity l)"
  by (cases e; cases l) (auto simp: level_of_def)

lemma bestBid_Some:
  "bestBid b = Some l \<longleftrightarrow> smap_rbegin (ob_bids b) = Some (lvl_price l, lvl_quantity l)"
  by (auto simp: bestBid_def level_of_eq)

lemma bestAsk_Some:
  "bestAsk b = Some l \<longleftrightarrow> smap_begin (ob_asks b) = Some (lvl_price l, lvl_quantity l)"
  by (auto simp: bestAsk_def level_of_eq)

text \<open>An example book: two bids, two asks, in sync at 10.\<close>

definition example_book :: order_book where
  "example_book = replace_book 10 [(Price 99, Quantity 5), (Price 100, Quantity 3)]
     [(Price 102, Quantity 4), (Price 103, Quantity 1)] new_book"

definition example_update :: "sequence_number \<Rightarrow> side \<Rightarrow> price \<Rightarrow> quantity \<Rightarrow> book_update" where
  "example_update s sd p q = \<lparr>bu_instrument = 1, bu_sequence = s, bu_exchangeTimestamp = Timestamp 0,
     bu_side = sd, bu_price = p, bu_quantity = q\<rparr>"

lemma book_wf_example: "book_wf example_book"
  by (simp add: example_book_def replace_book_def book_wf_def levels_wf_def zero_scaled_value_def)

section \<open>Properties\<close>

text \<open>
  C2. Every update on a well-formed book does to the pair of price maps exactly what the
  contract of a synchronised book says (assign, remove, or fall out of sync), and the returned
  flag tells whether the book is still in sync.
\<close>

theorem applyUpdate_refines_sync_book:
  assumes "book_wf b"
  shows "abs_book (snd (applyUpdate u b)) = sync_step u (abs_book b)
    \<and> (fst (applyUpdate u b) \<longleftrightarrow> sync_step u (abs_book b) \<noteq> OutOfSync)"
  using assms by (simp add: applyUpdate_sync abs_applyUpdate)

theorem applyUpdate_refines_sync_book_witness:
  "abs_book (snd (applyUpdate (example_update 11 SideBuy (Price 100) (Quantity 8)) example_book)) =
     InSync 11 [Price 99 \<mapsto> Quantity 5, Price 100 \<mapsto> Quantity 8]
       [Price 102 \<mapsto> Quantity 4, Price 103 \<mapsto> Quantity 1]"
  using applyUpdate_refines_sync_book
    [OF book_wf_example, of "example_update 11 SideBuy (Price 100) (Quantity 8)"]
  by (simp add: abs_book_def example_book_def replace_book_def new_book_def example_update_def
      fun_eq_iff zero_scaled_value_def)

text \<open>
  After a snapshot, any run of updates leaves the book in sync exactly when the updates are
  numbered consecutively from the snapshot's number; then the book holds, per side, the
  snapshot with the run's changes applied in order, at the number of the last update. A single
  gap, repetition or reordering leaves it out of sync, whatever follows.
\<close>

theorem snapshot_then_stream:
  assumes "levels_wf bids" "levels_wf asks"
  shows "abs_book (apply_updates us (replace_book s bids asks b)) =
    (if consecutive_from s us
     then InSync (s + of_nat (length us))
            (side_run SideBuy us (smap_find bids)) (side_run SideSell us (smap_find asks))
     else OutOfSync)"
  using abs_apply_updates [OF book_wf_replace [OF assms]]
  by (simp add: abs_book_def replace_book_def)

theorem snapshot_then_stream_witness:
  "abs_book (apply_updates
     [example_update 8 SideBuy (Price 100) (Quantity 2), example_update 9 SideBuy (Price 100) (Quantity 0)]
     (replace_book 7 [] [] new_book)) = InSync 9 Map.empty Map.empty"
  using snapshot_then_stream [of "[]" "[]"
      "[example_update 8 SideBuy (Price 100) (Quantity 2), example_update 9 SideBuy (Price 100) (Quantity 0)]"
      7 new_book]
  by (simp add: example_update_def fun_eq_iff zero_scaled_value_def)

text \<open>
  The best bid is the level with a non-zero bid volume at the highest price, the best ask
  the one at the lowest, with the volume the book reports at that price; there is none exactly
  when the side has no volume at all.
\<close>

theorem best_levels_are_extreme:
  assumes "book_wf b"
  shows "(bestBid b = Some l \<longleftrightarrow> bidVolume b (lvl_price l) = lvl_quantity l \<and> lvl_quantity l \<noteq> 0
            \<and> (\<forall>p. bidVolume b p \<noteq> 0 \<longrightarrow> p \<le> lvl_price l))
    \<and> (bestAsk b = Some l \<longleftrightarrow> askVolume b (lvl_price l) = lvl_quantity l \<and> lvl_quantity l \<noteq> 0
            \<and> (\<forall>p. askVolume b p \<noteq> 0 \<longrightarrow> lvl_price l \<le> p))
    \<and> (bestBid b = None \<longleftrightarrow> (\<forall>p. bidVolume b p = 0))
    \<and> (bestAsk b = None \<longleftrightarrow> (\<forall>p. askVolume b p = 0))"
proof -
  from assms have wf: "levels_wf (ob_bids b)" "levels_wf (ob_asks b)"
    by (simp_all add: book_wf_def)
  note nz = bidVolume_nonzero [OF wf(1)] askVolume_nonzero [OF wf(2)]
  have find: "smap_find (ob_bids b) p = Some q \<longleftrightarrow> bidVolume b p = q \<and> q \<noteq> 0"
    "smap_find (ob_asks b) p = Some q \<longleftrightarrow> askVolume b p = q \<and> q \<noteq> 0" for p q
    using nz [of p] levels_find_nonzero [OF wf(1), of p] levels_find_nonzero [OF wf(2), of p]
    by (auto simp: bidVolume_def askVolume_def split: option.splits)
  have "bestBid b = None \<longleftrightarrow> (\<forall>p. bidVolume b p = 0)"
    using nz(1) by (auto simp: bestBid_def smap_empty_iff fun_eq_iff; metis option.distinct(1))
  moreover have "bestAsk b = None \<longleftrightarrow> (\<forall>p. askVolume b p = 0)"
    using nz(2) by (auto simp: bestAsk_def smap_empty_iff fun_eq_iff; metis option.distinct(1))
  moreover have "bestBid b = Some l \<longleftrightarrow> bidVolume b (lvl_price l) = lvl_quantity l \<and> lvl_quantity l \<noteq> 0
      \<and> (\<forall>p. bidVolume b p \<noteq> 0 \<longrightarrow> p \<le> lvl_price l)"
    by (simp only: bestBid_Some smap.greatest_iff [OF levels_wfD [OF wf(1)]] find nz conj_assoc)
  moreover have "bestAsk b = Some l \<longleftrightarrow> askVolume b (lvl_price l) = lvl_quantity l \<and> lvl_quantity l \<noteq> 0
      \<and> (\<forall>p. askVolume b p \<noteq> 0 \<longrightarrow> lvl_price l \<le> p)"
    by (simp only: bestAsk_Some smap.least_iff [OF levels_wfD [OF wf(2)]] find nz conj_assoc)
  ultimately show ?thesis by (intro conjI)
qed

theorem best_levels_are_extreme_witness:
  "bidVolume example_book (Price 100) = Quantity 3 \<and> bidVolume example_book (Price 101) = 0"
  using best_levels_are_extreme
    [OF book_wf_example, of "\<lparr>lvl_price = Price 100, lvl_quantity = Quantity 3\<rparr>"]
  by (auto simp: bestBid_def example_book_def replace_book_def smap_rbegin_def level_of_def)

text \<open>
  C12. Whatever sequence of updates, snapshots without zero quantities and clears the book goes
  through, it stays well-formed: both sides strictly ascending by price, no level of quantity
  zero.
\<close>

theorem book_operations_preserve_wf:
  assumes "\<forall>x \<in> set xs. op_wf x"
  shows "book_wf (run_each book_do xs new_book)"
  by (rule run_each_inv [where P = book_wf]) (use assms in \<open>auto intro: book_do_wf\<close>)

theorem book_operations_preserve_wf_witness:
  "book_wf (run_each book_do
     [OpReplace 3 [(Price 5, Quantity 1)] [], OpUpdate (example_update 4 SideBuy (Price 5) 0)] new_book)"
  by (rule book_operations_preserve_wf) (simp add: levels_wf_def zero_scaled_value_def)

text \<open>
  A book that lost synchronisation stays so until the next snapshot: with no \<open>replace\<close> among
  the operations it ends invalid and every further update is refused without touching it.
\<close>

theorem no_revival_without_snapshot:
  assumes "\<not> ob_valid b" "\<forall>x \<in> set xs. \<not> is_replace x"
  shows "applyUpdate u (run_each book_do xs b) = (False, run_each book_do xs b)"
proof -
  have "\<not> ob_valid (run_each book_do xs b)"
    by (rule run_each_inv [where P = "\<lambda>b. \<not> ob_valid b"])
      (use assms book_do_stays_invalid in \<open>blast+\<close>)
  then show ?thesis by (rule applyUpdate_invalid)
qed

theorem no_revival_without_snapshot_witness:
  "applyUpdate (example_update 1 SideSell (Price 7) (Quantity 1)) (run_each book_do [OpClear] new_book) =
     (False, run_each book_do [OpClear] new_book)"
  by (rule no_revival_without_snapshot) (simp_all add: new_book_def)

end
