(* ===== verification/Market_Data.thy ===== *)
theory Market_Data
  imports Order_Book Market_Event
begin

text \<open>
  The market data path: \<open>BookBuilder\<close> (book_builder.cpp), the parser interface with the Binance
  parser (binance_market_data_parser.cpp) and \<open>MarketDataMessageHandler\<close>
  (market_data_message_handler.cpp). What stands behind a handler reference is a state of its
  own (\<open>'h\<close>), changed by the operation the reference calls; the readings of the steady clock
  are an argument (\<open>clock n\<close> is the n-th reading).
\<close>

section \<open>BookBuilder\<close>

record 'h book_builder =
  bb_instrument :: instrument_id
  bb_orderBook :: order_book
  bb_eventHandler :: 'h
  bb_reads :: nat

definition new_builder :: "instrument_id \<Rightarrow> order_book \<Rightarrow> 'h \<Rightarrow> 'h book_builder" where
  "new_builder i b h = \<lparr>bb_instrument = i, bb_orderBook = b, bb_eventHandler = h, bb_reads = 0\<rparr>"

definition top_event ::
  "instrument_id \<Rightarrow> sequence_number \<Rightarrow> timestamp \<Rightarrow> timestamp \<Rightarrow> order_book \<Rightarrow> market_event" where
  "top_event i seq exchangeTimestamp now b =
     \<lparr>me_instrument = i, me_sequence = seq, me_exchangeTimestamp = exchangeTimestamp,
      me_receiveTimestamp = now,
      me_bestBid = (case bestBid b of None \<Rightarrow> 0 | Some l \<Rightarrow> lvl_price l),
      me_bestBidQuantity = (case bestBid b of None \<Rightarrow> 0 | Some l \<Rightarrow> lvl_quantity l),
      me_bestAsk = (case bestAsk b of None \<Rightarrow> 0 | Some l \<Rightarrow> lvl_price l),
      me_bestAskQuantity = (case bestAsk b of None \<Rightarrow> 0 | Some l \<Rightarrow> lvl_quantity l)\<rparr>"

definition publishMarketEvent ::
  "(nat \<Rightarrow> timestamp) \<Rightarrow> (market_event \<Rightarrow> 'h \<Rightarrow> 'h) \<Rightarrow> sequence_number \<Rightarrow> timestamp \<Rightarrow>
   'h book_builder \<Rightarrow> 'h book_builder" where
  "publishMarketEvent clock onEvent seq exchangeTimestamp bb =
     bb\<lparr>bb_reads := bb_reads bb + 1,
        bb_eventHandler :=
          onEvent (top_event (bb_instrument bb) seq exchangeTimestamp (clock (bb_reads bb)) (bb_orderBook bb))
            (bb_eventHandler bb)\<rparr>"

definition applySnapshot ::
  "(nat \<Rightarrow> timestamp) \<Rightarrow> (market_event \<Rightarrow> 'h \<Rightarrow> 'h) \<Rightarrow> sequence_number \<Rightarrow> levels \<Rightarrow> levels \<Rightarrow> timestamp \<Rightarrow>
   'h book_builder \<Rightarrow> bool \<times> 'h book_builder" where
  "applySnapshot clock onEvent seq bids asks exchangeTimestamp bb =
     (True, publishMarketEvent clock onEvent seq exchangeTimestamp
              (bb\<lparr>bb_orderBook := replace_book seq bids asks (bb_orderBook bb)\<rparr>))"

definition onBookUpdate ::
  "(nat \<Rightarrow> timestamp) \<Rightarrow> (market_event \<Rightarrow> 'h \<Rightarrow> 'h) \<Rightarrow> book_update \<Rightarrow> 'h book_builder \<Rightarrow> 'h book_builder" where
  "onBookUpdate clock onEvent u bb =
     (if bu_instrument u \<noteq> bb_instrument bb then bb
      else
        let (applied, b) = applyUpdate u (bb_orderBook bb);
            bb' = bb\<lparr>bb_orderBook := b\<rparr>
        in if \<not> applied then bb'
           else publishMarketEvent clock onEvent (bu_sequence u) (bu_exchangeTimestamp u) bb')"

definition onBookUpdates ::
  "(nat \<Rightarrow> timestamp) \<Rightarrow> (market_event \<Rightarrow> 'h \<Rightarrow> 'h) \<Rightarrow> book_update list \<Rightarrow> 'h book_builder \<Rightarrow> 'h book_builder" where
  "onBookUpdates clock onEvent us bb = run_each (onBookUpdate clock onEvent) us bb"

lemma onBookUpdates_simps [simp]:
  "onBookUpdates clock onEvent [] bb = bb"
  "onBookUpdates clock onEvent (u # us) bb = onBookUpdates clock onEvent us (onBookUpdate clock onEvent u bb)"
  by (simp_all add: onBookUpdates_def)

lemma publishMarketEvent_frame [simp]:
  "bb_instrument (publishMarketEvent clock onEvent seq ts bb) = bb_instrument bb"
  "bb_orderBook (publishMarketEvent clock onEvent seq ts bb) = bb_orderBook bb"
  by (simp_all add: publishMarketEvent_def)

lemma onBookUpdate_foreign [shape]:
  "bu_instrument u \<noteq> bb_instrument bb \<Longrightarrow> onBookUpdate clock onEvent u bb = bb"
  by (simp add: onBookUpdate_def)

lemma onBookUpdate_refused [shape]:
  "bu_instrument u = bb_instrument bb \<Longrightarrow> \<not> fst (applyUpdate u (bb_orderBook bb)) \<Longrightarrow>
   onBookUpdate clock onEvent u bb = bb\<lparr>bb_orderBook := snd (applyUpdate u (bb_orderBook bb))\<rparr>"
  by (cases "applyUpdate u (bb_orderBook bb)") (simp add: onBookUpdate_def)

lemma onBookUpdate_applied [shape]:
  "bu_instrument u = bb_instrument bb \<Longrightarrow> fst (applyUpdate u (bb_orderBook bb)) \<Longrightarrow>
   onBookUpdate clock onEvent u bb =
     publishMarketEvent clock onEvent (bu_sequence u) (bu_exchangeTimestamp u)
       (bb\<lparr>bb_orderBook := snd (applyUpdate u (bb_orderBook bb))\<rparr>)"
  by (cases "applyUpdate u (bb_orderBook bb)") (simp add: onBookUpdate_def)

lemma onBookUpdate_instrument [simp]:
  "bb_instrument (onBookUpdate clock onEvent u bb) = bb_instrument bb"
  by (simp add: onBookUpdate_def Let_def split: prod.split)

lemma onBookUpdate_book [simp]:
  "bb_orderBook (onBookUpdate clock onEvent u bb) =
     (if bu_instrument u = bb_instrument bb then snd (applyUpdate u (bb_orderBook bb))
      else bb_orderBook bb)"
  by (simp add: onBookUpdate_def Let_def split: prod.split)

lemma onBookUpdates_instrument [simp]:
  "bb_instrument (onBookUpdates clock onEvent us bb) = bb_instrument bb"
  by (induction us arbitrary: bb) simp_all

lemma onBookUpdates_book:
  "bb_orderBook (onBookUpdates clock onEvent us bb) =
     apply_updates (filter (\<lambda>u. bu_instrument u = bb_instrument bb) us) (bb_orderBook bb)"
  by (induction us arbitrary: bb) simp_all

lemma onBookUpdates_foreign:
  "onBookUpdates clock onEvent us bb =
     onBookUpdates clock onEvent (filter (\<lambda>u. bu_instrument u = bb_instrument bb) us) bb"
  by (induction us arbitrary: bb) (simp_all add: onBookUpdate_foreign)

section \<open>The events a run publishes\<close>

fun published ::
  "(nat \<Rightarrow> timestamp) \<Rightarrow> nat \<Rightarrow> instrument_id \<Rightarrow> book_update list \<Rightarrow> order_book \<Rightarrow> market_event list" where
  "published clock n i [] b = []"
| "published clock n i (u # us) b =
     (if bu_instrument u \<noteq> i then published clock n i us b
      else if fst (applyUpdate u b)
      then top_event i (bu_sequence u) (bu_exchangeTimestamp u) (clock n) (snd (applyUpdate u b))
             # published clock (n + 1) i us (snd (applyUpdate u b))
      else published clock n i us (snd (applyUpdate u b)))"

text \<open>\<open>IMarketEventHandler\<close>: the handler sees the events in the order they are published.\<close>

locale event_handler =
  fixes onEvent :: "market_event \<Rightarrow> 'h \<Rightarrow> 'h"
    and received :: "'h \<Rightarrow> market_event list"
  assumes received_onEvent: "received (onEvent e h) = received h @ [e]"
begin

lemma received_publish:
  "received (bb_eventHandler (publishMarketEvent clock onEvent seq ts bb)) =
     received (bb_eventHandler bb)
       @ [top_event (bb_instrument bb) seq ts (clock (bb_reads bb)) (bb_orderBook bb)]"
  by (simp add: publishMarketEvent_def received_onEvent)

lemma received_onBookUpdates:
  "received (bb_eventHandler (onBookUpdates clock onEvent us bb)) =
     received (bb_eventHandler bb)
       @ published clock (bb_reads bb) (bb_instrument bb) us (bb_orderBook bb)"
proof (induction us arbitrary: bb)
  case (Cons u us)
  consider "bu_instrument u \<noteq> bb_instrument bb"
    | "bu_instrument u = bb_instrument bb" "\<not> fst (applyUpdate u (bb_orderBook bb))"
    | "bu_instrument u = bb_instrument bb" "fst (applyUpdate u (bb_orderBook bb))"
    by blast
  then show ?case
    by cases (simp_all add: Cons.IH shape received_publish, simp add: publishMarketEvent_def)
qed simp

lemma silent_while_invalid:
  "\<not> ob_valid (bb_orderBook bb) \<Longrightarrow> onBookUpdates clock onEvent us bb = bb"
  by (induction us arbitrary: bb) (simp_all add: onBookUpdate_def applyUpdate_invalid)

end

text \<open>A handler that only keeps what it receives; the strategy's handler gives a second one.\<close>

interpretation collected: event_handler "\<lambda>e es. es @ [e]" "\<lambda>es. es"
  by unfold_locales simp

lemma published_sequences:
  "ob_valid b \<Longrightarrow> ob_sequenceNumber b = s \<Longrightarrow> (\<And>u. u \<in> set us \<Longrightarrow> bu_instrument u = i) \<Longrightarrow>
   consecutive_from s us \<Longrightarrow>
   map me_sequence (published clock n i us b) = map bu_sequence us
   \<and> map me_exchangeTimestamp (published clock n i us b) = map bu_exchangeTimestamp us"
proof (induction us arbitrary: b s n)
  case (Cons u us)
  then have ok: "fst (applyUpdate u b)" by (simp add: applyUpdate_accepted_iff)
  moreover have "ob_sequenceNumber (snd (applyUpdate u b)) = s + 1" "ob_valid (snd (applyUpdate u b))"
    using ok Cons.prems by (simp_all add: applyUpdate_valid) (simp add: applyUpdate_def Let_def)
  ultimately show ?case
    using Cons.IH [of "snd (applyUpdate u b)" "s + 1" "n + 1"] Cons.prems
    by (simp add: top_event_def)
qed simp

text \<open>
  The best level of a side given as a partial function, for the order that prefers higher
  (lower) prices: price and quantity are zero when the side is empty.
\<close>

definition best_of :: "(price \<Rightarrow> price \<Rightarrow> bool) \<Rightarrow> (price \<rightharpoonup> quantity) \<Rightarrow> price \<Rightarrow> quantity \<Rightarrow> bool" where
  "best_of worse m p q \<longleftrightarrow>
     (if m = Map.empty then p = 0 \<and> q = 0
      else m p = Some q \<and> (\<forall>p'. m p' \<noteq> None \<longrightarrow> worse p' p))"

lemma top_event_bid:
  assumes "levels_wf (ob_bids b)"
  shows "best_of (\<le>) (smap_find (ob_bids b)) (me_bestBid (top_event i s ts now b))
    (me_bestBidQuantity (top_event i s ts now b))"
proof (cases "smap_rbegin (ob_bids b)")
  case None
  then have "ob_bids b = []" by simp
  moreover from this have "bestBid b = None" by (simp add: bestBid_def)
  ultimately show ?thesis by (simp add: best_of_def top_event_def smap_empty_iff [symmetric])
next
  case (Some e)
  with smap.greatest_iff [OF levels_wfD [OF assms], of "fst e" "snd e"]
  have "smap_find (ob_bids b) (fst e) = Some (snd e)"
    "\<forall>p'. smap_find (ob_bids b) p' \<noteq> None \<longrightarrow> p' \<le> fst e"
    by simp_all
  moreover have "smap_find (ob_bids b) \<noteq> Map.empty" using calculation(1) by auto
  ultimately show ?thesis using Some
    by (simp add: best_of_def top_event_def bestBid_def level_of_def del: scaled_le_iff)
qed

lemma top_event_ask:
  assumes "levels_wf (ob_asks b)"
  shows "best_of (\<ge>) (smap_find (ob_asks b)) (me_bestAsk (top_event i s ts now b))
    (me_bestAskQuantity (top_event i s ts now b))"
proof (cases "smap_begin (ob_asks b)")
  case None
  then have "ob_asks b = []" by simp
  moreover from this have "bestAsk b = None" by (simp add: bestAsk_def)
  ultimately show ?thesis by (simp add: best_of_def top_event_def smap_empty_iff [symmetric])
next
  case (Some e)
  with smap.least_iff [OF levels_wfD [OF assms], of "fst e" "snd e"]
  have "smap_find (ob_asks b) (fst e) = Some (snd e)"
    "\<forall>p'. smap_find (ob_asks b) p' \<noteq> None \<longrightarrow> fst e \<le> p'"
    by simp_all
  moreover have "smap_find (ob_asks b) \<noteq> Map.empty" using calculation(1) by auto
  ultimately show ?thesis using Some
    by (simp add: best_of_def top_event_def bestAsk_def level_of_def del: scaled_le_iff)
qed

text \<open>The event after the last of a consecutive run.\<close>

lemma last_published:
  "ob_valid b \<Longrightarrow> (\<And>u. u \<in> set us \<Longrightarrow> bu_instrument u = i) \<Longrightarrow>
   consecutive_from (ob_sequenceNumber b) us \<Longrightarrow> us \<noteq> [] \<Longrightarrow>
   last (published clock n i us b) =
     top_event i (bu_sequence (last us)) (bu_exchangeTimestamp (last us)) (clock (n + (length us - 1)))
       (apply_updates us b)"
proof (induction us arbitrary: b n)
  case (Cons u us)
  let ?b = "snd (applyUpdate u b)" and ?rest = "published clock (n + 1) i us (snd (applyUpdate u b))"
  have ok: "fst (applyUpdate u b)" using Cons.prems by (simp add: applyUpdate_accepted_iff)
  have seq: "ob_sequenceNumber ?b = ob_sequenceNumber b + 1"
    using ok by (auto simp: applyUpdate_def Let_def split: if_splits)
  have valid: "ob_valid ?b" using ok by (simp add: applyUpdate_valid)
  have pub: "published clock n i (u # us) b =
      top_event i (bu_sequence u) (bu_exchangeTimestamp u) (clock n) ?b # ?rest"
    using ok Cons.prems(2) by simp
  show ?case
  proof (cases "us = []")
    case True
    with pub show ?thesis by simp
  next
    case False
    have rest: "consecutive_from (ob_sequenceNumber ?b) us" "\<And>u'. u' \<in> set us \<Longrightarrow> bu_instrument u' = i"
      using Cons.prems seq by simp_all
    have "map me_sequence ?rest = map bu_sequence us"
      using published_sequences [OF valid refl rest(2) rest(1)] by blast
    with False have "?rest \<noteq> []" by (metis Nil_is_map_conv)
    then have "last (published clock n i (u # us) b) = last ?rest" by (simp only: pub last.simps if_False)
    also have "\<dots> = top_event i (bu_sequence (last us)) (bu_exchangeTimestamp (last us))
        (clock (n + 1 + (length us - 1))) (apply_updates us ?b)"
      using valid rest(2) rest(1) False by (rule Cons.IH)
    also have "n + 1 + (length us - 1) = n + (length (u # us) - 1)"
      using False by (cases us) simp_all
    finally show ?thesis using False by simp
  qed
qed simp

section \<open>Parser and message handler\<close>

datatype parse_result = PrSuccess | PrInvalidMessage | PrInvalidJson | PrUnsupportedMessage
  | PrMissingField | PrInvalidField | PrInvalidInstrument | PrInvalidSequence
  | PrInvalidTimestamp | PrInvalidPrice | PrInvalidQuantity

text \<open>
  \<open>BinanceMarketDataParser::parse\<close> as it is built: it empties the caller's buffer and reports
  success; the JSON translation below it is disabled by the preprocessor.
\<close>

definition binance_parse :: "string \<Rightarrow> book_update list \<Rightarrow> parse_result \<times> book_update list" where
  "binance_parse message bookUpdates = (PrSuccess, [])"

record 'h message_handler =
  mh_bookUpdates :: "book_update list"
  mh_bookUpdateHandler :: 'h

definition onMessage ::
  "(string \<Rightarrow> book_update list \<Rightarrow> parse_result \<times> book_update list) \<Rightarrow> (book_update \<Rightarrow> 'h \<Rightarrow> 'h) \<Rightarrow>
   string \<Rightarrow> 'h message_handler \<Rightarrow> 'h message_handler" where
  "onMessage parse deliver message mh =
     (let (result, bookUpdates) = parse message (mh_bookUpdates mh);
          mh' = mh\<lparr>mh_bookUpdates := bookUpdates\<rparr>
      in if result \<noteq> PrSuccess then mh'
         else mh'\<lparr>mh_bookUpdateHandler := run_each deliver bookUpdates (mh_bookUpdateHandler mh')\<rparr>)"

definition onMessages ::
  "(string \<Rightarrow> book_update list \<Rightarrow> parse_result \<times> book_update list) \<Rightarrow> (book_update \<Rightarrow> 'h \<Rightarrow> 'h) \<Rightarrow>
   string list \<Rightarrow> 'h message_handler \<Rightarrow> 'h message_handler" where
  "onMessages parse deliver messages mh = run_each (onMessage parse deliver) messages mh"

text \<open>
  \<open>IMarketDataParser\<close>: the parser clears the supplied buffer before it fills it, so that
  neither its verdict nor the updates of a successful parse depend on the previous message.
\<close>

locale market_data_parser =
  fixes parse :: "string \<Rightarrow> book_update list \<Rightarrow> parse_result \<times> book_update list"
  assumes verdict: "fst (parse message buf) = fst (parse message buf')"
    and content: "fst (parse message buf) = PrSuccess \<Longrightarrow> snd (parse message buf) = snd (parse message buf')"
begin

definition decoded :: "string \<Rightarrow> book_update list" where
  "decoded message = (if fst (parse message []) = PrSuccess then snd (parse message []) else [])"

lemma onMessage_delivers:
  "mh_bookUpdateHandler (onMessage parse deliver message mh) =
     run_each deliver (decoded message) (mh_bookUpdateHandler mh)"
  using verdict [of message "mh_bookUpdates mh" "[]"] content [of message "mh_bookUpdates mh" "[]"]
  by (cases "parse message (mh_bookUpdates mh)") (auto simp: onMessage_def decoded_def)

lemma onMessages_deliver:
  "mh_bookUpdateHandler (onMessages parse deliver messages mh) =
     run_each deliver (concat (map decoded messages)) (mh_bookUpdateHandler mh)"
  unfolding onMessages_def
  by (induction messages arbitrary: mh) (simp_all add: onMessage_delivers)

end

interpretation binance: market_data_parser binance_parse
  by unfold_locales (simp_all add: binance_parse_def)

lemma binance_decoded [simp]: "binance.decoded message = []"
  by (simp add: binance.decoded_def binance_parse_def)

section \<open>Properties\<close>

text \<open>
  A book builder serves one instrument: the updates of other instruments can be removed from
  any stream without changing the builder, its book, the events it publishes or its clock
  readings, and its book is the one the remaining updates make.
\<close>

theorem builder_ignores_foreign_updates:
  "onBookUpdates clock onEvent us bb =
     onBookUpdates clock onEvent (filter (\<lambda>u. bu_instrument u = bb_instrument bb) us) bb
   \<and> bb_orderBook (onBookUpdates clock onEvent us bb) =
       apply_updates (filter (\<lambda>u. bu_instrument u = bb_instrument bb) us) (bb_orderBook bb)"
  using onBookUpdates_foreign [of clock onEvent us bb] onBookUpdates_book [of clock onEvent us bb]
  by simp

text \<open>
  C9. From a valid, well-formed book a stream of the builder's instrument with consecutive
  sequence numbers gives exactly one event per update, in order and with the update's sequence
  number and exchange time; the last event shows the highest bid and lowest ask, with their
  quantities, of the levels that remain after the whole stream (zero for an empty side).
\<close>

theorem builder_publishes_top_of_book:
  assumes "book_wf b" "ob_valid b" "us \<noteq> []"
    and "\<And>u. u \<in> set us \<Longrightarrow> bu_instrument u = i"
    and "consecutive_from (ob_sequenceNumber b) us"
    and "es = bb_eventHandler (onBookUpdates clock (\<lambda>e es. es @ [e]) us (new_builder i b []))"
  shows "map me_sequence es = map bu_sequence us
    \<and> map me_exchangeTimestamp es = map bu_exchangeTimestamp us
    \<and> best_of (\<le>) (side_run SideBuy us (smap_find (ob_bids b))) (me_bestBid (last es)) (me_bestBidQuantity (last es))
    \<and> best_of (\<ge>) (side_run SideSell us (smap_find (ob_asks b))) (me_bestAsk (last es)) (me_bestAskQuantity (last es))"
proof -
  let ?b = "apply_updates us b"
  have es: "es = published clock 0 i us b"
    using assms(6) collected.received_onBookUpdates by (simp add: new_builder_def)
  have "abs_book ?b = InSync (ob_sequenceNumber b + of_nat (length us))
      (side_run SideBuy us (smap_find (ob_bids b))) (side_run SideSell us (smap_find (ob_asks b)))"
    using abs_apply_updates [OF assms(1), of "ob_sequenceNumber b" "smap_find (ob_bids b)"
        "smap_find (ob_asks b)" us] assms(2,5) by (simp add: abs_book_def)
  then have sides: "smap_find (ob_bids ?b) = side_run SideBuy us (smap_find (ob_bids b))"
    "smap_find (ob_asks ?b) = side_run SideSell us (smap_find (ob_asks b))"
    by (auto simp: abs_book_def split: if_splits)
  have wf: "levels_wf (ob_bids ?b)" "levels_wf (ob_asks ?b)"
    using book_wf_apply_updates [OF assms(1), of us] by (simp_all add: book_wf_def)
  show ?thesis
    using published_sequences [OF assms(2) refl assms(4,5), of clock 0]
      last_published [OF assms(2) assms(4,5,3), of clock 0] top_event_bid [OF wf(1)] top_event_ask [OF wf(2)]
    by (simp only: es sides simp_thms)
qed

theorem builder_publishes_top_of_book_witness:
  "map me_sequence (bb_eventHandler (onBookUpdates (\<lambda>n. Timestamp 0) (\<lambda>e es. es @ [e])
     [example_update 11 SideBuy (Price 101) (Quantity 2)\<lparr>bu_instrument := 4\<rparr>] (new_builder 4 example_book []))) = [11]"
  using builder_publishes_top_of_book [OF book_wf_example _ _ _ _ refl, of
      "[example_update 11 SideBuy (Price 101) (Quantity 2)\<lparr>bu_instrument := 4\<rparr>]" 4 "\<lambda>n. Timestamp 0"]
  by (simp add: example_update_def example_book_def replace_book_def)

text \<open>
  For every parser that keeps the parser contract, what a sequence of messages delivers
  downstream is independent of the reused buffer and is exactly the updates of the successfully
  parsed messages, in order; a message that fails to parse delivers nothing. The Binance parser
  keeps the contract, and decodes every message to no update.
\<close>

theorem messages_deliver_decoded_updates:
  assumes "market_data_parser parse"
  shows "mh_bookUpdateHandler (onMessages parse deliver messages mh) =
     run_each deliver
       (concat (map (\<lambda>m. if fst (parse m []) = PrSuccess then snd (parse m []) else []) messages))
       (mh_bookUpdateHandler mh)"
  using market_data_parser.onMessages_deliver [OF assms, of deliver messages mh]
  by (simp add: market_data_parser.decoded_def [OF assms, abs_def])

theorem messages_deliver_decoded_updates_witness:
  "mh_bookUpdateHandler (onMessages binance_parse (\<lambda>u n. n + 1) [''a'', ''b''] \<lparr>mh_bookUpdates = [], mh_bookUpdateHandler = 0 :: nat\<rparr>) = 0"
  using messages_deliver_decoded_updates [OF binance.market_data_parser_axioms, of "\<lambda>u n. n + 1"
      "[''a'', ''b'']" "\<lparr>mh_bookUpdates = [], mh_bookUpdateHandler = 0 :: nat\<rparr>"]
  by (simp add: binance_parse_def)

end
