(* ===== verification/Recording.thy ===== *)
theory Recording
  imports Execution_Types Market_Event
begin

text \<open>
  \<open>recording::TradeRecorder\<close> (trade_recorder.cpp) and the recording interface \<open>IRecorder\<close>
  (recorder.hpp) as a locale: what a client may rely on is that every recorded event is appended
  to its log and nothing else changes.
\<close>

datatype event_type = EvMarketEvent | EvExecutionReport

record recording_event =
  rec_type :: event_type
  rec_timestamp :: timestamp

record trade_recorder =
  marketEventsVec :: "market_event list"
  executionReportsVec :: "execution_report list"

definition new_recorder :: trade_recorder where
  "new_recorder = \<lparr>marketEventsVec = [], executionReportsVec = []\<rparr>"

definition record_market_event :: "market_event \<Rightarrow> trade_recorder \<Rightarrow> trade_recorder" where
  "record_market_event event r = r\<lparr>marketEventsVec := marketEventsVec r @ [event]\<rparr>"

definition record_execution_report :: "execution_report \<Rightarrow> trade_recorder \<Rightarrow> trade_recorder" where
  "record_execution_report report r = r\<lparr>executionReportsVec := executionReportsVec r @ [report]\<rparr>"

definition marketEvents :: "trade_recorder \<Rightarrow> market_event list" where
  "marketEvents r = marketEventsVec r"

definition executionReports :: "trade_recorder \<Rightarrow> execution_report list" where
  "executionReports r = executionReportsVec r"

definition marketEventCount :: "trade_recorder \<Rightarrow> nat" where
  "marketEventCount r = length (marketEventsVec r)"

definition executionReportCount :: "trade_recorder \<Rightarrow> nat" where
  "executionReportCount r = length (executionReportsVec r)"

definition recorder_clear :: "trade_recorder \<Rightarrow> trade_recorder" where
  "recorder_clear r = r\<lparr>marketEventsVec := [], executionReportsVec := []\<rparr>"

lemmas recorder_defs = new_recorder_def record_market_event_def record_execution_report_def
  marketEvents_def executionReports_def marketEventCount_def executionReportCount_def
  recorder_clear_def

section \<open>The recording interface\<close>

locale event_log =
  fixes rec_event :: "market_event \<Rightarrow> 'r \<Rightarrow> 'r"
    and rec_report :: "execution_report \<Rightarrow> 'r \<Rightarrow> 'r"
    and events :: "'r \<Rightarrow> market_event list"
    and reports :: "'r \<Rightarrow> execution_report list"
  assumes events_rec_event: "events (rec_event e r) = events r @ [e]"
    and reports_rec_event: "reports (rec_event e r) = reports r"
    and events_rec_report: "events (rec_report x r) = events r"
    and reports_rec_report: "reports (rec_report x r) = reports r @ [x]"
begin

lemma events_run: "events (run_each rec_event es r) = events r @ es"
  by (induction es arbitrary: r) (simp_all add: events_rec_event)

lemma reports_run: "reports (run_each rec_report xs r) = reports r @ xs"
  by (induction xs arbitrary: r) (simp_all add: reports_rec_report)

end

interpretation trade_log: event_log record_market_event record_execution_report marketEvents executionReports
  by unfold_locales (simp_all add: recorder_defs)

end
