(* ===== verification/Exec_Report_Handler.thy ===== *)
theory Exec_Report_Handler
  imports Order_Manager Recording
begin

text \<open>
  \<open>execution::ExecutionReportHandler\<close> (execution_report_handler.cpp): one inbound execution
  report is recorded, then applied to the order manager and, when that knows the order, to the
  position manager. The record holds the states behind the handler's three references.
\<close>

record ('rm, 'gw, 'r) execution_report_handler =
  eh_orderManager :: "('rm, 'gw) order_manager"
  eh_positionManager :: position_manager
  eh_recorder :: 'r

definition onExecutionReport ::
  "(execution_report \<Rightarrow> 'r \<Rightarrow> 'r) \<Rightarrow> execution_report \<Rightarrow>
   ('rm, 'gw, 'r) execution_report_handler \<Rightarrow> bool \<times> ('rm, 'gw, 'r) execution_report_handler" where
  "onExecutionReport rec_report report h0 =
     (let h1 = h0\<lparr>eh_recorder := rec_report report (eh_recorder h0)\<rparr>;
          (applied, om) = om_applyExecution report (eh_orderManager h1);
          h2 = h1\<lparr>eh_orderManager := om\<rparr>
      in if \<not> applied then (False, h2)
         else
           let (filled, pm) = pm_applyExecution report (eh_positionManager h2)
           in (filled, h2\<lparr>eh_positionManager := pm\<rparr>))"

definition handle_reports ::
  "(execution_report \<Rightarrow> 'r \<Rightarrow> 'r) \<Rightarrow> execution_report list \<Rightarrow>
   ('rm, 'gw, 'r) execution_report_handler \<Rightarrow> ('rm, 'gw, 'r) execution_report_handler" where
  "handle_reports rec_report reports h =
     run_each (\<lambda>report h. snd (onExecutionReport rec_report report h)) reports h"

lemma handle_reports_simps [simp]:
  "handle_reports rec_report [] h = h"
  "handle_reports rec_report (r # rs) h = handle_reports rec_report rs (snd (onExecutionReport rec_report r h))"
  by (simp_all add: handle_reports_def)

definition knows :: "('rm, 'gw, 'r) execution_report_handler \<Rightarrow> execution_report \<Rightarrow> bool" where
  "knows h report \<longleftrightarrow> om_find (er_clientOrderId report) (eh_orderManager h) \<noteq> None"

section \<open>The three effects of one report\<close>

lemma fst_om_applyExecution:
  "fst (om_applyExecution report om) \<longleftrightarrow> om_find (er_clientOrderId report) om \<noteq> None"
  by (auto simp: om_applyExecution_def om_find_def Let_def split: option.split)

lemma onExecutionReport_recorder [simp]:
  "eh_recorder (snd (onExecutionReport rec_report report h)) = rec_report report (eh_recorder h)"
  by (simp add: onExecutionReport_def Let_def split: prod.split)

lemma onExecutionReport_orderManager [simp]:
  "eh_orderManager (snd (onExecutionReport rec_report report h)) =
     snd (om_applyExecution report (eh_orderManager h))"
  by (simp add: onExecutionReport_def Let_def split: prod.split)

lemma onExecutionReport_positionManager [simp]:
  "eh_positionManager (snd (onExecutionReport rec_report report h)) =
     (if knows h report then snd (pm_applyExecution report (eh_positionManager h))
      else eh_positionManager h)"
  using fst_om_applyExecution [of report "eh_orderManager h"]
  by (auto simp: onExecutionReport_def knows_def Let_def split: prod.split)

lemma onExecutionReport_result:
  "fst (onExecutionReport rec_report report h) \<longleftrightarrow> knows h report \<and> is_fill report"
proof -
  have "fst (pm_applyExecution report (eh_positionManager h)) \<longleftrightarrow> is_fill report"
    by (auto simp: pm_applyExecution_def is_fill_def Let_def split: prod.split option.split)
  then show ?thesis
    using fst_om_applyExecution [of report "eh_orderManager h"]
    by (cases "pm_applyExecution report (eh_positionManager h)")
      (auto simp: onExecutionReport_def knows_def Let_def split: prod.split)
qed

lemma om_find_applyExecution_None [simp]:
  "om_find oid (snd (om_applyExecution report om)) = None \<longleftrightarrow> om_find oid om = None"
  if "smap_wf (om_orders om)"
  using that by (auto simp: om_find_def om_applyExecution_def Let_def split: option.split)

lemma om_position_applyExecution:
  "om_position (snd (om_applyExecution report om)) =
     (if om_find (er_clientOrderId report) om \<noteq> None \<and> is_fill report
      then applyTrade (er_side report) (er_price report) (er_quantity report) (om_position om)
      else om_position om)"
  by (auto simp: om_applyExecution_def om_find_def is_fill_def Let_def split: option.split)

section \<open>Recording, for every recorder\<close>

context event_log begin

lemma reports_handled:
  "reports (eh_recorder (handle_reports rec_report rs h)) = reports (eh_recorder h) @ rs"
  by (induction rs arbitrary: h) (simp_all add: reports_rec_report)

lemma events_handled:
  "events (eh_recorder (handle_reports rec_report rs h)) = events (eh_recorder h)"
  by (induction rs arbitrary: h) (simp_all add: events_rec_report)

end

section \<open>Runs of reports\<close>

lemma om_wf_handle_reports:
  "om_wf (eh_orderManager h) \<Longrightarrow> om_wf (eh_orderManager (handle_reports rec_report rs h))"
  by (induction rs arbitrary: h) (simp_all add: om_wf_applyExecution)

lemma knows_after:
  assumes "om_wf (eh_orderManager h)"
  shows "knows (snd (onExecutionReport rec_report r h)) = knows h"
  using assms by (auto simp: knows_def om_wf_def fun_eq_iff)

lemma handle_reports_positions:
  "pm_wf (eh_positionManager h) \<Longrightarrow> om_wf (eh_orderManager h) \<Longrightarrow>
   pm_position (eh_positionManager (handle_reports rec_report rs h)) i =
     apply_trades (fills_of i (filter (knows h) rs)) (pm_position (eh_positionManager h) i)"
proof (induction rs arbitrary: h)
  case (Cons r rs)
  have "smap_wf (eh_positionManager h)" using Cons.prems by (simp add: pm_wf_def)
  with Cons show ?case
    by (auto simp: knows_after om_wf_applyExecution pm_wf_step pm_position_step)
qed simp

lemma handle_reports_om_position:
  "om_wf (eh_orderManager h) \<Longrightarrow> (\<And>r. r \<in> set rs \<Longrightarrow> er_instrument r = i) \<Longrightarrow>
   om_position (eh_orderManager (handle_reports rec_report rs h)) =
     apply_trades (fills_of i (filter (knows h) rs)) (om_position (eh_orderManager h))"
proof (induction rs arbitrary: h)
  case (Cons r rs)
  then show ?case
    by (simp add: knows_after om_wf_applyExecution om_position_applyExecution)
      (auto simp: knows_def)
qed simp

section \<open>Properties\<close>

text \<open>
  One execution report: it is appended to the trade recorder whatever becomes of it; the
  result is true exactly for a fill (a trade of non-zero quantity) of a tracked order, so a
  report of another kind updates its order and still returns false; a report for an unknown
  order changes neither the orders, nor the positions.
\<close>

theorem onExecutionReport_outcome:
  assumes "om_wf (eh_orderManager h)" and "res = onExecutionReport record_execution_report report h"
  shows "(fst res \<longleftrightarrow> knows h report \<and> is_fill report)
    \<and> executionReports (eh_recorder (snd res)) = executionReports (eh_recorder h) @ [report]
    \<and> marketEvents (eh_recorder (snd res)) = marketEvents (eh_recorder h)
    \<and> (\<not> knows h report \<longrightarrow> eh_orderManager (snd res) = eh_orderManager h
          \<and> eh_positionManager (snd res) = eh_positionManager h)
    \<and> (knows h report \<longrightarrow>
          map_option ord_status (om_find (er_clientOrderId report) (eh_orderManager (snd res)))
            = Some (er_status report)
          \<and> (\<not> is_fill report \<longrightarrow> eh_positionManager (snd res) = eh_positionManager h))"
proof -
  have wf: "smap_wf (om_orders (eh_orderManager h))" using assms(1) by (simp add: om_wf_def)
  have "map_option ord_status (om_find (er_clientOrderId report)
      (snd (om_applyExecution report (eh_orderManager h)))) = Some (er_status report)"
    if "knows h report"
    using that om_applyExecution_known(2) [OF _ wf] by (auto simp: knows_def)
  then show ?thesis
    using assms(2)
    by (simp add: onExecutionReport_result trade_log.reports_rec_report trade_log.events_rec_report
        pm_ignored) (simp add: knows_def om_applyExecution_unknown)
qed

definition example_handler :: "(risk_manager, wire_gateway, trade_recorder) execution_report_handler" where
  "example_handler =
     \<lparr>eh_orderManager = desk_run [EvCreate (buy_request (Price 5) (Quantity 7))]
                         (new_desk no_limits (new_position 1)),
      eh_positionManager = [], eh_recorder = new_recorder\<rparr>"

lemma example_handler_state:
  "om_wf (eh_orderManager example_handler)"
  "om_find 1 (eh_orderManager example_handler) = Some (order_of 1 (buy_request (Price 5) (Quantity 7)))"
  "om_find 9 (eh_orderManager example_handler) = None"
  "om_position (eh_orderManager example_handler) = new_position 1"
  "eh_positionManager example_handler = []"
  by (simp_all add: example_handler_def desk_first_state within_limits_def)

theorem onExecutionReport_outcome_witness:
  "fst (onExecutionReport record_execution_report
      (trade_report 1 1 SideBuy (Price 5) (Quantity 7)) example_handler)"
  using onExecutionReport_outcome [OF example_handler_state(1) refl,
      of "trade_report 1 1 SideBuy (Price 5) (Quantity 7)"]
  by (simp add: knows_def example_handler_state is_fill_def trade_report_def zero_scaled_value_def)

text \<open>
  C8. The two positions the system keeps agree: the order manager's own position and the position
  manager's position of an instrument stay equal under any run of reports of that instrument,
  tracked or not, both being the fills of the tracked orders applied in order, and every report
  is recorded once, in order.
\<close>

theorem positions_agree:
  assumes "om_wf (eh_orderManager h)" "pm_wf (eh_positionManager h)"
    and "om_position (eh_orderManager h) = pm_position (eh_positionManager h) i"
    and "\<And>r. r \<in> set rs \<Longrightarrow> er_instrument r = i"
  shows "om_position (eh_orderManager (handle_reports record_execution_report rs h)) =
      pm_position (eh_positionManager (handle_reports record_execution_report rs h)) i
    \<and> pm_position (eh_positionManager (handle_reports record_execution_report rs h)) i =
        apply_trades (fills_of i (filter (knows h) rs)) (om_position (eh_orderManager h))
    \<and> executionReports (eh_recorder (handle_reports record_execution_report rs h)) =
        executionReports (eh_recorder h) @ rs"
  using assms
  by (simp add: handle_reports_positions handle_reports_om_position [of h rs i]
      trade_log.reports_handled)

lemma example_reports_same_instrument:
  "r \<in> set [trade_report 1 1 SideBuy p q, trade_report 9 1 SideSell p' q'] \<Longrightarrow> er_instrument r = 1"
  by (auto simp: trade_report_def)

theorem positions_agree_witness:
  "om_position (eh_orderManager (handle_reports record_execution_report
      [trade_report 1 1 SideBuy (Price 5) (Quantity 7), trade_report 9 1 SideSell (Price 6) (Quantity 3)]
      example_handler)) = applyTrade SideBuy (Price 5) (Quantity 7) (new_position 1)"
proof -
  let ?rs = "[trade_report 1 1 SideBuy (Price 5) (Quantity 7), trade_report 9 1 SideSell (Price 6) (Quantity 3)]"
  have "filter (knows example_handler) ?rs = [trade_report 1 1 SideBuy (Price 5) (Quantity 7)]"
    by (simp add: knows_def trade_report_def example_handler_state)
  moreover have "fills_of 1 [trade_report 1 1 SideBuy (Price 5) (Quantity 7)] =
      [(SideBuy, Price 5, Quantity 7)]"
    by (simp add: trade_report_def is_fill_def zero_scaled_value_def)
  ultimately show ?thesis
    using positions_agree [of example_handler 1 ?rs] example_reports_same_instrument
    by (simp add: example_handler_state pm_position_def pm_find_def del: set_simps handle_reports_simps)
qed

end
