(* ===== verification/Trading_App.thy ===== *)
theory Trading_App
  imports Strategy Market_Data Exec_Report_Handler
begin

text \<open>
  The composition of the trading core: \<open>MarketEventHandler\<close> (market_event_handler.cpp), the
  Binance data source (binance_market_data_source.cpp) and \<open>Application\<close> (application.cpp), which
  owns every component and wires them; the properties here span the whole path from a market
  data message to an order at the venue.
\<close>

section \<open>MarketEventHandler\<close>

text \<open>The states behind the handler's executor (its order manager) and recorder references.\<close>

record ('rm, 'gw, 'r) market_event_handler =
  meh_orderManager :: "('rm, 'gw) order_manager"
  meh_recorder :: 'r

definition onMarketEvent ::
  "(market_event \<Rightarrow> 'r \<Rightarrow> 'r) \<Rightarrow> (market_event \<Rightarrow> signal) \<Rightarrow>
   (order_request \<Rightarrow> position \<Rightarrow> 'rm \<Rightarrow> risk_result \<times> 'rm) \<Rightarrow> (order \<Rightarrow> 'gw \<Rightarrow> 'gw) \<Rightarrow> quantity \<Rightarrow>
   market_event \<Rightarrow> ('rm, 'gw, 'r) market_event_handler \<Rightarrow> ('rm, 'gw, 'r) market_event_handler" where
  "onMarketEvent rec_event eval check send orderQuantity event h0 =
     (let h1 = h0\<lparr>meh_recorder := rec_event event (meh_recorder h0)\<rparr>;
          sg = eval event;
          (result, om) = execute check send orderQuantity sg event (meh_orderManager h1)
      in h1\<lparr>meh_orderManager := om\<rparr>)"

lemma onMarketEvent_parts [simp]:
  "meh_recorder (onMarketEvent rec_event eval check send q event h) = rec_event event (meh_recorder h)"
  "meh_orderManager (onMarketEvent rec_event eval check send q event h) =
     snd (execute check send q (eval event) event (meh_orderManager h))"
  by (simp_all add: onMarketEvent_def Let_def split: prod.split)

interpretation trading: event_handler
  "onMarketEvent record_market_event eval check send q" "\<lambda>h. marketEvents (meh_recorder h)"
  for eval :: "market_event \<Rightarrow> signal"
    and check :: "order_request \<Rightarrow> position \<Rightarrow> 'rm \<Rightarrow> risk_result \<times> 'rm"
    and send :: "order \<Rightarrow> 'gw \<Rightarrow> 'gw" and q :: quantity
  by unfold_locales (simp add: trade_log.events_rec_event)

section \<open>The data source\<close>

text \<open>\<open>messageHandler\<close> is a pointer the source never follows; the model keeps whether it is set.\<close>

record market_data_source =
  src_handlerSet :: bool
  src_running :: bool

definition new_source :: market_data_source where
  "new_source = \<lparr>src_handlerSet = False, src_running = False\<rparr>"

definition source_start :: "market_data_source \<Rightarrow> market_data_source" where
  "source_start s = s\<lparr>src_running := True\<rparr>"

definition source_stop :: "market_data_source \<Rightarrow> market_data_source" where
  "source_stop s = s\<lparr>src_running := False\<rparr>"

definition setMessageHandler :: "market_data_source \<Rightarrow> market_data_source" where
  "setMessageHandler s = s\<lparr>src_handlerSet := True\<rparr>"

section \<open>Application\<close>

type_synonym 'gw builder = "(risk_manager, 'gw, trade_recorder) market_event_handler book_builder"

record 'n application =
  app_messageHandler :: "'n binance_gateway builder message_handler"
  app_source :: market_data_source
  app_running :: bool

definition configured_limits :: risk_limits where
  "configured_limits =
     \<lparr>maxOrderQuantity = Quantity 100000000, maxPositionQuantity = Quantity 500000000,
      maxNotional = Price 100000000000000\<rparr>"

definition order_quantity :: quantity where
  "order_quantity = Quantity 100000000"

definition app_construct :: "'n \<Rightarrow> 'n application" where
  "app_construct net =
     (let om = new_order_manager (new_gateway net) (new_risk_manager no_limits) (new_position 1);
          handler = \<lparr>meh_orderManager = om, meh_recorder = new_recorder\<rparr>;
          builder = new_builder 1 new_book handler
      in \<lparr>app_messageHandler = \<lparr>mh_bookUpdates = [], mh_bookUpdateHandler = builder\<rparr>,
          app_source = new_source, app_running = False\<rparr>)"

definition configureRisk :: "'n application \<Rightarrow> 'n application" where
  "configureRisk app =
     (let mh = app_messageHandler app; bb = mh_bookUpdateHandler mh; h = bb_eventHandler bb;
          om = meh_orderManager h;
          om' = om\<lparr>om_riskManager := setLimits configured_limits (om_riskManager om)\<rparr>
      in app\<lparr>app_messageHandler :=
           mh\<lparr>mh_bookUpdateHandler := bb\<lparr>bb_eventHandler := h\<lparr>meh_orderManager := om'\<rparr>\<rparr>\<rparr>\<rparr>)"

definition configureMarketData :: "'n application \<Rightarrow> 'n application" where
  "configureMarketData app = app\<lparr>app_source := setMessageHandler (app_source app)\<rparr>"

definition new_application :: "'n \<Rightarrow> 'n application" where
  "new_application net = configureMarketData (configureRisk (app_construct net))"

definition app_start :: "'n application \<Rightarrow> 'n application" where
  "app_start app =
     (if app_running app then app
      else app\<lparr>app_running := True, app_source := source_start (app_source app)\<rparr>)"

definition app_stop :: "'n application \<Rightarrow> 'n application" where
  "app_stop app =
     (if \<not> app_running app then app
      else app\<lparr>app_source := source_stop (app_source app), app_running := False\<rparr>)"

text \<open>What the application can be asked to do; messages may arrive at any time.\<close>

datatype app_op = AppStart | AppStop | AppMessage string

definition app_deliver ::
  "(nat \<Rightarrow> timestamp) \<Rightarrow> book_update \<Rightarrow> 'n binance_gateway builder \<Rightarrow> 'n binance_gateway builder" where
  "app_deliver clock = onBookUpdate clock
     (onMarketEvent record_market_event (evaluate default_strategy) checkOrder gateway_send order_quantity)"

fun app_do ::
  "(string \<Rightarrow> book_update list \<Rightarrow> parse_result \<times> book_update list) \<Rightarrow> (nat \<Rightarrow> timestamp) \<Rightarrow>
   app_op \<Rightarrow> 'n application \<Rightarrow> 'n application" where
  "app_do parse clock AppStart app = app_start app"
| "app_do parse clock AppStop app = app_stop app"
| "app_do parse clock (AppMessage m) app =
     app\<lparr>app_messageHandler := onMessage parse (app_deliver clock) m (app_messageHandler app)\<rparr>"

text \<open>Whether the last start or stop among the operations was a start.\<close>

fun started :: "app_op list \<Rightarrow> bool \<Rightarrow> bool" where
  "started [] r = r"
| "started (AppStart # ops) r = started ops True"
| "started (AppStop # ops) r = started ops False"
| "started (AppMessage m # ops) r = started ops r"

lemma app_running_run:
  "app_running app = src_running (app_source app) \<Longrightarrow>
   app_running (run_each (app_do parse clock) ops app) = started ops (app_running app)
   \<and> src_running (app_source (run_each (app_do parse clock) ops app)) = started ops (app_running app)
   \<and> src_handlerSet (app_source (run_each (app_do parse clock) ops app)) = src_handlerSet (app_source app)"
proof (induction ops arbitrary: app)
  case (Cons x ops)
  then show ?case
    by (cases x) (auto simp: app_start_def app_stop_def source_start_def source_stop_def)
qed simp

lemma new_application_source:
  "app_source (new_application net) = \<lparr>src_handlerSet = True, src_running = False\<rparr>"
  "\<not> app_running (new_application net)"
  by (simp_all add: new_application_def configureMarketData_def configureRisk_def app_construct_def
      new_source_def setMessageHandler_def Let_def)

abbreviation app_builder :: "'n application \<Rightarrow> 'n binance_gateway builder" where
  "app_builder app \<equiv> mh_bookUpdateHandler (app_messageHandler app)"

lemma app_builder_start_stop [simp]:
  "app_builder (app_start app) = app_builder app"
  "app_builder (app_stop app) = app_builder app"
  by (simp_all add: app_start_def app_stop_def)

lemma app_builder_unsynced:
  "\<not> ob_valid (bb_orderBook (app_builder app)) \<Longrightarrow>
   app_builder (run_each (app_do parse clock) ops app) = app_builder app"
proof (induction ops arbitrary: app)
  case (Cons x ops)
  have "app_builder (app_do parse clock x app) = app_builder app"
  proof (cases x)
    case (AppMessage m)
    have "run_each (app_deliver clock) us (app_builder app) = app_builder app" for us
      using trading.silent_while_invalid [OF Cons.prems, of clock "evaluate default_strategy" checkOrder
          gateway_send order_quantity us]
      by (simp add: app_deliver_def onBookUpdates_def)
    with AppMessage show ?thesis
      by (simp add: onMessage_def Let_def split: prod.split)
  qed simp_all
  with Cons show ?case by simp
qed simp

lemma new_application_builder:
  "app_builder (new_application net) =
     new_builder 1 new_book
       \<lparr>meh_orderManager =
          new_order_manager (new_gateway net) (new_risk_manager configured_limits) (new_position 1),
        meh_recorder = new_recorder\<rparr>"
  by (simp add: new_application_def configureMarketData_def configureRisk_def app_construct_def
      new_builder_def new_order_manager_def new_risk_manager_def setLimits_def Let_def)

section \<open>The path from a message to the venue\<close>

text \<open>
  The same components with a snapshot source, execution reports and a connected gateway: what
  the builder, the strategy and the order manager do to one another.
\<close>

datatype feed = FeedSnapshot sequence_number levels levels timestamp
  | FeedUpdate book_update | FeedReport execution_report

type_synonym pipeline = "wire_gateway builder"

definition pipeline_event :: "imbalance_strategy \<Rightarrow> quantity \<Rightarrow> market_event \<Rightarrow>
    (risk_manager, wire_gateway, trade_recorder) market_event_handler \<Rightarrow>
    (risk_manager, wire_gateway, trade_recorder) market_event_handler" where
  "pipeline_event st q = onMarketEvent record_market_event (evaluate st) checkOrder gateway_send q"

fun pipeline_do ::
  "(nat \<Rightarrow> timestamp) \<Rightarrow> imbalance_strategy \<Rightarrow> quantity \<Rightarrow> feed \<Rightarrow> pipeline \<Rightarrow> pipeline" where
  "pipeline_do clock st q (FeedSnapshot s bids asks ts) p =
     snd (applySnapshot clock (pipeline_event st q) s bids asks ts p)"
| "pipeline_do clock st q (FeedUpdate u) p = onBookUpdate clock (pipeline_event st q) u p"
| "pipeline_do clock st q (FeedReport r) p =
     p\<lparr>bb_eventHandler := (bb_eventHandler p)
        \<lparr>meh_orderManager := snd (om_applyExecution r (meh_orderManager (bb_eventHandler p)))\<rparr>\<rparr>"

definition pipeline_run ::
  "(nat \<Rightarrow> timestamp) \<Rightarrow> imbalance_strategy \<Rightarrow> quantity \<Rightarrow> feed list \<Rightarrow> pipeline \<Rightarrow> pipeline" where
  "pipeline_run clock st q feeds p = run_each (pipeline_do clock st q) feeds p"

abbreviation pipe_desk :: "pipeline \<Rightarrow> desk" where
  "pipe_desk p \<equiv> meh_orderManager (bb_eventHandler p)"

abbreviation pipe_events :: "pipeline \<Rightarrow> market_event list" where
  "pipe_events p \<equiv> marketEvents (meh_recorder (bb_eventHandler p))"

definition new_pipeline :: "instrument_id \<Rightarrow> risk_limits \<Rightarrow> pipeline" where
  "new_pipeline i limits = new_builder i new_book
     \<lparr>meh_orderManager = new_desk limits (new_position i), meh_recorder = new_recorder\<rparr>"

text \<open>The calls the order manager gets for one event.\<close>

definition desk_calls :: "imbalance_strategy \<Rightarrow> quantity \<Rightarrow> market_event \<Rightarrow> om_event list" where
  "desk_calls st q e =
     (if evaluate st e = SigNone then [] else [EvCreate (signal_request q (evaluate st e) e)])"

lemma pipeline_publish:
  "pipe_desk (publishMarketEvent clock (pipeline_event st q) s ts p) =
     desk_run (desk_calls st q (top_event (bb_instrument p) s ts (clock (bb_reads p)) (bb_orderBook p)))
       (pipe_desk p)"
  "pipe_events (publishMarketEvent clock (pipeline_event st q) s ts p) =
     pipe_events p @ [top_event (bb_instrument p) s ts (clock (bb_reads p)) (bb_orderBook p)]"
  by (simp_all add: publishMarketEvent_def pipeline_event_def trade_log.events_rec_event
      execute_state desk_run_def desk_calls_def)

text \<open>One feed makes at most one call of the order manager, a creation only for a recorded event.\<close>

lemma pipeline_step:
  obtains (event) e where "pipe_desk (pipeline_do clock st q f p) = desk_run (desk_calls st q e) (pipe_desk p)"
      "pipe_events (pipeline_do clock st q f p) = pipe_events p @ [e]"
  | (report) r where "pipe_desk (pipeline_do clock st q f p) = desk_run [EvReport r] (pipe_desk p)"
      "pipe_events (pipeline_do clock st q f p) = pipe_events p"
  | (quiet) "pipe_desk (pipeline_do clock st q f p) = desk_run [] (pipe_desk p)"
      "pipe_events (pipeline_do clock st q f p) = pipe_events p"
proof (cases f)
  case (FeedSnapshot s bids asks ts)
  then show thesis
    using event pipeline_publish [of clock st q s ts "p\<lparr>bb_orderBook := replace_book s bids asks (bb_orderBook p)\<rparr>"]
    by (simp add: applySnapshot_def)
next
  case (FeedUpdate u)
  consider "bu_instrument u \<noteq> bb_instrument p"
    | "bu_instrument u = bb_instrument p" "\<not> fst (applyUpdate u (bb_orderBook p))"
    | "bu_instrument u = bb_instrument p" "fst (applyUpdate u (bb_orderBook p))"
    by blast
  then show thesis
  proof cases
    case 3
    with FeedUpdate show thesis
      using event pipeline_publish [of clock st q "bu_sequence u" "bu_exchangeTimestamp u"
          "p\<lparr>bb_orderBook := snd (applyUpdate u (bb_orderBook p))\<rparr>"]
      by (simp add: onBookUpdate_applied)
  qed (use FeedUpdate quiet in \<open>simp_all add: shape desk_run_def\<close>)
next
  case (FeedReport r)
  then show thesis using report [of r] by (simp add: desk_run_def)
qed

text \<open>An order that reaches the venue was created, by a request within the limits, in one of the steps.\<close>

lemma desk_run_one:
  "desk_run [] om = om" "desk_run [ev] om = om_do checkOrder gateway_send gateway_cancel ev om"
  by (simp_all add: desk_run_def)

lemma desk_step_limits:
  "rm_limits (om_riskManager (om_do checkOrder gateway_send gateway_cancel ev om)) = rm_limits (om_riskManager om)"
  by (cases ev) (auto simp: createOrder_def Let_def checkOrder_result split: prod.split)

lemma newly_sent:
  assumes "wire_online (om_gateway om)" "ord \<notin> set (sent_orders om)"
    "ord \<in> set (sent_orders (om_do checkOrder gateway_send gateway_cancel (EvCreate request) om))"
  shows "request_of ord = request" "\<not> invalid_request request"
    "within_limits (rm_limits (om_riskManager om)) request (om_position om)"
proof -
  show "request_of ord = request" using sent_orders_step(2) [OF assms(1,3)] assms(2) by simp
  have ok: "\<not> invalid_request request \<and> fst (checkOrder request (om_position om) (om_riskManager om)) = RiskAccepted"
    using assms(2,3) by (auto simp: createOrder_def Let_def sent_orders_def split: prod.splits if_splits)
  then show "\<not> invalid_request request" "within_limits (rm_limits (om_riskManager om)) request (om_position om)"
    using risk.accepted_iff by (auto simp: rm_permits_def)
qed

lemma pipeline_run_simps [simp]:
  "pipeline_run clock st q [] p = p"
  "pipeline_run clock st q (f # fs) p = pipeline_run clock st q fs (pipeline_do clock st q f p)"
  by (simp_all add: pipeline_run_def)

lemma pipeline_events_grow: "set (pipe_events p) \<subseteq> set (pipe_events (pipeline_run clock st q feeds p))"
proof (induction feeds arbitrary: p)
  case (Cons f feeds)
  have "set (pipe_events p) \<subseteq> set (pipe_events (pipeline_do clock st q f p))"
    by (rule pipeline_step [of clock st q f p]) auto
  with Cons.IH [of "pipeline_do clock st q f p"] show ?case by auto
qed simp

lemma pipeline_step_desk:
  "\<exists>evs. length evs \<le> 1 \<and> pipe_desk (pipeline_do clock st q f p) = desk_run evs (pipe_desk p)"
proof (rule pipeline_step [of clock st q f p])
  fix e assume "pipe_desk (pipeline_do clock st q f p) = desk_run (desk_calls st q e) (pipe_desk p)"
  then show ?thesis by (intro exI [of _ "desk_calls st q e"]) (simp add: desk_calls_def)
next
  fix r assume "pipe_desk (pipeline_do clock st q f p) = desk_run [EvReport r] (pipe_desk p)"
  then show ?thesis by (intro exI [of _ "[EvReport r]"]) simp
next
  assume "pipe_desk (pipeline_do clock st q f p) = desk_run [] (pipe_desk p)"
  then show ?thesis by (intro exI [of _ "[]"]) simp
qed

lemma pipeline_step_limits:
  "rm_limits (om_riskManager (pipe_desk (pipeline_do clock st q f p))) = rm_limits (om_riskManager (pipe_desk p))"
  "wire_online (om_gateway (pipe_desk p)) \<Longrightarrow> wire_online (om_gateway (pipe_desk (pipeline_do clock st q f p)))"
proof -
  obtain evs where evs: "length evs \<le> 1" "pipe_desk (pipeline_do clock st q f p) = desk_run evs (pipe_desk p)"
    using pipeline_step_desk by blast
  then have "evs = [] \<or> (\<exists>ev. evs = [ev])" by (cases evs) auto
  then show "rm_limits (om_riskManager (pipe_desk (pipeline_do clock st q f p))) = rm_limits (om_riskManager (pipe_desk p))"
    "wire_online (om_gateway (pipe_desk p)) \<Longrightarrow> wire_online (om_gateway (pipe_desk (pipeline_do clock st q f p)))"
    unfolding evs(2) by (auto simp only: desk_run_one desk_step_limits intro: sent_orders_step(1))
qed

lemma pipeline_sent:
  assumes "wire_online (om_gateway (pipe_desk p))" "ord \<notin> set (sent_orders (pipe_desk p))"
    "ord \<in> set (sent_orders (pipe_desk (pipeline_run clock st q feeds p)))"
  shows "\<exists>earlier f later e. feeds = earlier @ f # later
    \<and> pipe_events (pipeline_run clock st q (earlier @ [f]) p) = pipe_events (pipeline_run clock st q earlier p) @ [e]
    \<and> e \<in> set (pipe_events (pipeline_run clock st q feeds p))
    \<and> evaluate st e \<noteq> SigNone \<and> request_of ord = signal_request q (evaluate st e) e \<and> \<not> invalid_request (request_of ord)
    \<and> within_limits (rm_limits (om_riskManager (pipe_desk p))) (request_of ord)
        (om_position (pipe_desk (pipeline_run clock st q earlier p)))"
  using assms
proof (induction feeds arbitrary: p)
  case (Cons f feeds)
  let ?p = "pipeline_do clock st q f p"
  show ?case
  proof (cases "ord \<in> set (sent_orders (pipe_desk ?p))")
    case False
    from Cons.prems(3) have "ord \<in> set (sent_orders (pipe_desk (pipeline_run clock st q feeds ?p)))" by simp
    from Cons.IH [OF pipeline_step_limits(2) [OF Cons.prems(1)] False this] obtain earlier g later e where
      "feeds = earlier @ g # later"
      "pipe_events (pipeline_run clock st q (earlier @ [g]) ?p) = pipe_events (pipeline_run clock st q earlier ?p) @ [e]"
      "e \<in> set (pipe_events (pipeline_run clock st q feeds ?p))"
      "evaluate st e \<noteq> SigNone" "request_of ord = signal_request q (evaluate st e) e" "\<not> invalid_request (request_of ord)"
      "within_limits (rm_limits (om_riskManager (pipe_desk ?p))) (request_of ord)
        (om_position (pipe_desk (pipeline_run clock st q earlier ?p)))" by blast
    then show ?thesis by (intro exI [of _ "f # earlier"] exI [of _ g] exI [of _ later] exI [of _ e])
        (simp add: pipeline_step_limits(1))
  next
    case True
    have new: ?thesis if "pipe_desk ?p = desk_run (desk_calls st q e) (pipe_desk p)" "pipe_events ?p = pipe_events p @ [e]" for e
    proof -
      from that(1) True Cons.prems(2) have sg: "evaluate st e \<noteq> SigNone"
        and "ord \<in> set (sent_orders (om_do checkOrder gateway_send gateway_cancel
          (EvCreate (signal_request q (evaluate st e) e)) (pipe_desk p)))" by (auto simp: desk_calls_def desk_run_one split: if_splits)
      note sent = newly_sent [OF Cons.prems(1,2) this(2)]
      have "e \<in> set (pipe_events (pipeline_run clock st q feeds ?p))"
        using pipeline_events_grow [where p = ?p and feeds = feeds] that(2) by fastforce
      with sg sent that(2) show ?thesis
        by (intro exI [of _ "[]"] exI [of _ f] exI [of _ feeds] exI [of _ e]) simp
    qed
    show ?thesis
    proof (rule pipeline_step [of clock st q f p])
      fix e assume "pipe_desk ?p = desk_run (desk_calls st q e) (pipe_desk p)" "pipe_events ?p = pipe_events p @ [e]"
      then show ?thesis by (rule new)
    next
      fix r assume "pipe_desk ?p = desk_run [EvReport r] (pipe_desk p)"
      with True sent_orders_step(2) [OF Cons.prems(1), of ord "EvReport r"] Cons.prems(2) show ?thesis by (simp add: desk_run_one)
    next
      assume "pipe_desk ?p = desk_run [] (pipe_desk p)"
      with True Cons.prems(2) show ?thesis by (simp add: desk_run_one)
    qed
  qed
qed simp

lemma new_pipeline_desk [simp]:
  "pipe_desk (new_pipeline i limits) = new_desk limits (new_position i)"
  "pipe_events (new_pipeline i limits) = []"
  by (simp_all add: new_pipeline_def new_builder_def recorder_defs)

lemma sent_orders_new_desk [simp]: "sent_orders (new_desk limits pos) = []"
  by (simp add: sent_orders_def wire_gateway_def gateway_with_handlers_def)

section \<open>Properties\<close>

text \<open>
  C1. End to end: whatever snapshots, book updates and execution reports arrive, every order at
  the venue answers a recorded market event on which the strategy gave a signal; it is a limit
  order of the configured quantity for the event's instrument, a buy at the event's best ask or
  a sell at its best bid with a positive price, and it is within all three limits: the order
  quantity, the notional, and the position limit together with the position held when the event
  arrived, which the feeds before it led to.
\<close>

theorem every_order_is_justified:
  assumes "p = pipeline_run clock st q feeds (new_pipeline i limits)"
    and "ord \<in> set (sent_orders (pipe_desk p))"
  shows "\<exists>earlier f later e. feeds = earlier @ f # later \<and> e \<in> set (pipe_events p)
    \<and> pipe_events (pipeline_run clock st q (earlier @ [f]) (new_pipeline i limits))
        = pipe_events (pipeline_run clock st q earlier (new_pipeline i limits)) @ [e]
    \<and> ord_instrument ord = me_instrument e \<and> ord_type ord = TypeLimit \<and> ord_quantity ord = q
    \<and> ((evaluate st e = SigBuy \<and> ord_side ord = SideBuy \<and> ord_price ord = me_bestAsk e)
        \<or> (evaluate st e = SigSell \<and> ord_side ord = SideSell \<and> ord_price ord = me_bestBid e))
    \<and> isPositive (ord_price ord)
    \<and> within_limits limits (request_of ord)
        (om_position (pipe_desk (pipeline_run clock st q earlier (new_pipeline i limits))))"
proof -
  have "wire_online (om_gateway (pipe_desk (new_pipeline i limits)))" "rm_limits (om_riskManager (pipe_desk (new_pipeline i limits))) = limits"
    using desk_run_inv [of "[]" limits "new_position i"] by (simp_all add: flow_inv_def)
  with pipeline_sent [of "new_pipeline i limits" ord clock st q feeds] assms(2) [unfolded assms(1)] obtain earlier f later e where e:
    "feeds = earlier @ f # later" "e \<in> set (pipe_events p)"
    "pipe_events (pipeline_run clock st q (earlier @ [f]) (new_pipeline i limits))
        = pipe_events (pipeline_run clock st q earlier (new_pipeline i limits)) @ [e]"
    "evaluate st e \<noteq> SigNone" "request_of ord = signal_request q (evaluate st e) e" "\<not> invalid_request (request_of ord)"
    "within_limits limits (request_of ord)
       (om_position (pipe_desk (pipeline_run clock st q earlier (new_pipeline i limits))))"
    unfolding assms(1) by auto
  show ?thesis
    by (rule exI [of _ earlier], rule exI [of _ f], rule exI [of _ later], rule exI [of _ e], cases "evaluate st e")
      (use e in \<open>auto simp: request_of_def signal_request_def invalid_request_def\<close>)
qed

lemma pipeline_first_order:
  "sent_orders (pipe_desk (pipeline_run clock default_strategy (Quantity 7)
      [FeedSnapshot 10 [(Price 100, Quantity 30)] [(Price 102, Quantity 1)] (Timestamp 0)]
      (new_pipeline 1 no_limits)))
   = [order_of 1 \<lparr>req_instrument = 1, req_side = SideBuy, req_type = TypeLimit,
                  req_price = Price 102, req_quantity = Quantity 7\<rparr>]"
proof -
  let ?b = "replace_book 10 [(Price 100, Quantity 30)] [(Price 102, Quantity 1)] new_book"
  let ?e = "top_event 1 10 (Timestamp 0) (clock 0) ?b"
  have e: "me_bestAsk ?e = Price 102" "me_instrument ?e = 1" "evaluate default_strategy ?e = SigBuy"
    by (simp_all add: top_event_def bestBid_def bestAsk_def replace_book_def smap_rbegin_def
        smap_begin_def level_of_def evaluate_exact default_strategy_def imbalance_signal_def)
  have "pipe_desk (pipeline_run clock default_strategy (Quantity 7)
      [FeedSnapshot 10 [(Price 100, Quantity 30)] [(Price 102, Quantity 1)] (Timestamp 0)]
      (new_pipeline 1 no_limits))
    = desk_run (desk_calls default_strategy (Quantity 7) ?e) (new_desk no_limits (new_position 1))"
    by (simp add: pipeline_run_def applySnapshot_def pipeline_publish) (simp add: new_pipeline_def new_builder_def)
  then show ?thesis
    by (simp add: desk_calls_def e desk_first_state signal_request_invalid within_limits_def isPositive_def)
      (simp add: signal_request_def e)
qed

theorem every_order_is_justified_witness:
  "\<exists>e \<in> set (pipe_events (pipeline_run (\<lambda>n. Timestamp 0) default_strategy (Quantity 7)
      [FeedSnapshot 10 [(Price 100, Quantity 30)] [(Price 102, Quantity 1)] (Timestamp 0)]
      (new_pipeline 1 no_limits))). evaluate default_strategy e = SigBuy \<and> me_bestAsk e = Price 102"
proof -
  let ?p = "pipeline_run (\<lambda>n. Timestamp 0) default_strategy (Quantity 7)
    [FeedSnapshot 10 [(Price 100, Quantity 30)] [(Price 102, Quantity 1)] (Timestamp 0)] (new_pipeline 1 no_limits)"
  let ?o = "order_of 1 \<lparr>req_instrument = 1, req_side = SideBuy, req_type = TypeLimit,
    req_price = Price 102, req_quantity = Quantity 7\<rparr>"
  have "?o \<in> set (sent_orders (pipe_desk ?p))" by (simp only: pipeline_first_order) simp
  from every_order_is_justified [OF refl this] obtain e where "e \<in> set (pipe_events ?p)"
    "(evaluate default_strategy e = SigBuy \<and> ord_side ?o = SideBuy \<and> ord_price ?o = me_bestAsk e)
      \<or> (evaluate default_strategy e = SigSell \<and> ord_side ?o = SideSell \<and> ord_price ?o = me_bestBid e)" by blast
  then show ?thesis by (intro bexI [of _ e]) (simp_all add: order_of_def)
qed

text \<open>
  Life cycle: \<open>start\<close> and \<open>stop\<close> are idempotent, and after any sequence of starts, stops and
  messages the application and its data source are running exactly when the last of the two was
  a start; the source keeps the message handler it was given at construction.
\<close>

theorem application_lifecycle:
  "app_start (app_start app) = app_start app
   \<and> app_stop (app_stop app) = app_stop app
   \<and> app_running (run_each (app_do parse clock) ops (new_application net)) = started ops False
   \<and> src_running (app_source (run_each (app_do parse clock) ops (new_application net))) = started ops False
   \<and> src_handlerSet (app_source (run_each (app_do parse clock) ops (new_application net)))"
  using app_running_run [of "new_application net" parse clock ops]
  by (simp add: new_application_source) (simp add: app_start_def app_stop_def)

text \<open>
  C19. The application as wired never trades: nothing in it applies a snapshot, so with any parser
  in place of the stub and any messages its book stays invalid, no market event is recorded, no
  order is created and the transport is never used. The components themselves are the configured
  ones: instrument 1, the configured limits, no order handlers.
\<close>

theorem application_never_trades:
  "let bb = app_builder (run_each (app_do parse clock) ops (new_application net))
    in \<not> isValid (bb_orderBook bb) \<and> bb_instrument bb = 1
    \<and> marketEvents (meh_recorder (bb_eventHandler bb)) = []
    \<and> (\<forall>oid. om_find oid (meh_orderManager (bb_eventHandler bb)) = None)
    \<and> om_gateway (meh_orderManager (bb_eventHandler bb)) = new_gateway net
    \<and> rm_limits (om_riskManager (meh_orderManager (bb_eventHandler bb))) = configured_limits"
proof -
  have "\<not> ob_valid (bb_orderBook (app_builder (new_application net)))"
    by (simp add: new_application_builder new_builder_def new_book_def)
  from app_builder_unsynced [OF this, of parse clock ops] show ?thesis
    by (simp add: new_application_builder Let_def)
      (simp add: new_builder_def isValid_def new_book_def recorder_defs om_find_def
        new_order_manager_def new_risk_manager_def)
qed

end
