(* ===== verification/Pnl.thy ===== *)
theory Pnl
  imports Position Market_Event
begin

text \<open>
  \<open>pnl::PnLCalculator\<close> (pnl_calculator.cpp) and the struct \<open>PnL\<close> (pnl.hpp). Products of prices
  and quantities are 128-bit, divided by the price scale with truncation and cast back to 64
  bits. The first group of lemmas shows that the 128-bit arithmetic never overflows; the cast
  does lose the high half of a result that does not fit.
\<close>

record pnl =
  pnl_realized :: price
  pnl_unrealized :: price

definition pnl_total :: "pnl \<Rightarrow> price" where
  "pnl_total x = pnl_realized x + pnl_unrealized x"

definition pnl_absolute :: "int \<Rightarrow> int" where
  "pnl_absolute v = (if v < 0 then i128 (- v) else v)"

definition fromProduct :: "int \<Rightarrow> int \<Rightarrow> price" where
  "fromProduct priceDifference q =
     Price (word_of_int (i128 (priceDifference * q) sdiv sint Scale))"

definition calculateRealized :: "position \<Rightarrow> execution_report \<Rightarrow> price" where
  "calculateRealized pos report =
     (if er_execType report \<noteq> ExTrade \<or> isZero (er_quantity report) then 0
      else
        let positionQuantity = currentQuantity pos
        in if positionQuantity = 0 then 0
           else
             let executionQuantity = raw (er_quantity report)
             in if sint positionQuantity > 0 \<and> er_side report = SideSell
                then
                  let closedQuantity = min (sint positionQuantity) (sint executionQuantity);
                      priceDifference =
                        i128 (sint (raw (er_price report)) - sint (raw (averageEntryPrice pos)))
                  in fromProduct priceDifference closedQuantity
                else if sint positionQuantity < 0 \<and> er_side report = SideBuy
                then
                  let absolutePositionQuantity = pnl_absolute (sint positionQuantity);
                      closedQuantity = min absolutePositionQuantity (sint executionQuantity);
                      priceDifference =
                        i128 (sint (raw (averageEntryPrice pos)) - sint (raw (er_price report)))
                  in fromProduct priceDifference closedQuantity
                else 0)"

definition calculateUnrealized :: "position \<Rightarrow> market_event \<Rightarrow> price" where
  "calculateUnrealized pos event =
     (let positionQuantity = currentQuantity pos
      in if positionQuantity = 0 then 0
         else if sint positionQuantity > 0
         then (if isZero (me_bestBidQuantity event) then 0
               else
                 let priceDifference =
                       i128 (sint (raw (me_bestBid event)) - sint (raw (averageEntryPrice pos)))
                 in fromProduct priceDifference (sint positionQuantity))
         else if isZero (me_bestAskQuantity event) then 0
         else
           let priceDifference =
                 i128 (sint (raw (averageEntryPrice pos)) - sint (raw (me_bestAsk event)))
           in fromProduct priceDifference (pnl_absolute (sint positionQuantity)))"

definition pnl_calculate :: "position \<Rightarrow> execution_report \<Rightarrow> market_event \<Rightarrow> pnl" where
  "pnl_calculate pos report event =
     \<lparr>pnl_realized = calculateRealized pos report, pnl_unrealized = calculateUnrealized pos event\<rparr>"

section \<open>No 128-bit overflow\<close>

lemma i128_diff [simp]: "i128 (sint (a :: i64) - sint (b :: i64)) = sint a - sint b"
  using sint_bounds [of a] sint_bounds [of b] by (intro i128_exact) (simp add: in_i128_def)

lemma pnl_absolute_sint [simp]: "pnl_absolute (sint (a :: i64)) = \<bar>sint a\<bar>"
  using sint_bounds [of a] by (auto simp: pnl_absolute_def in_i128_def)

lemma product_in_i128:
  assumes "\<bar>q\<bar> \<le> 2 ^ 63"
  shows "in_i128 ((sint (a :: i64) - sint (b :: i64)) * q)"
proof (rule in_i128_small)
  have "\<bar>sint a - sint b\<bar> \<le> 2 ^ 64 - 1"
    using sint_bounds [of a] sint_bounds [of b] by (simp add: abs_le_iff)
  with assms have "\<bar>sint a - sint b\<bar> * \<bar>q\<bar> \<le> (2 ^ 64 - 1) * 2 ^ 63"
    by (intro mult_mono) simp_all
  then show "\<bar>(sint a - sint b) * q\<bar> < 2 ^ 127" by (simp add: abs_mult)
qed

lemma fromProduct_sint:
  assumes "\<bar>q\<bar> \<le> 2 ^ 63"
  shows "fromProduct (sint (a :: i64) - sint (b :: i64)) q =
    Price (word_of_int (((sint a - sint b) * q) sdiv 100000000))"
  using product_in_i128 [OF assms, of a b] by (simp add: fromProduct_def)

lemma abs_sint_le: "\<bar>sint (a :: i64)\<bar> \<le> 2 ^ 63"
  using sint_bounds [of a] by (simp add: abs_le_iff)

section \<open>Integer specification\<close>

text \<open>
  Profit of closing quantity \<open>k\<close> of a position of sign \<open>sgn c\<close> entered at \<open>a\<close>, at price \<open>p\<close>.
\<close>

definition close_profit :: "int \<Rightarrow> int \<Rightarrow> int \<Rightarrow> int \<Rightarrow> int" where
  "close_profit c a p k = (sgn c * (p - a) * k) sdiv 100000000"

definition price_of_int :: "int \<Rightarrow> price" where
  "price_of_int v = Price (word_of_int v)"

lemma realized_closing:
  assumes "is_fill report" "0 < sint (raw (er_quantity report))"
    "sgn (sint (currentQuantity pos)) = - sgn (signed_qty (er_side report) (er_quantity report))"
  shows "calculateRealized pos report =
    price_of_int (close_profit (sint (currentQuantity pos)) (sint (raw (averageEntryPrice pos)))
      (sint (raw (er_price report)))
      (min \<bar>sint (currentQuantity pos)\<bar> (sint (raw (er_quantity report)))))"
proof -
  let ?c = "sint (currentQuantity pos)" and ?q = "sint (raw (er_quantity report))"
  have k: "\<bar>min \<bar>?c\<bar> ?q\<bar> \<le> 2 ^ 63"
    using assms(2) abs_sint_le [of "currentQuantity pos"] by (auto simp: min_def)
  show ?thesis
  proof (cases "er_side report")
    case SideBuy
    with assms have "sgn ?c = - 1" by (simp add: signed_qty_def)
    then have "?c < 0" by (simp only: sgn_1_neg)
    moreover from this have "currentQuantity pos \<noteq> 0" by auto
    ultimately show ?thesis
      using SideBuy assms(1,2) k
      by (simp add: calculateRealized_def is_fill_def fromProduct_sint close_profit_def
          price_of_int_def Let_def)
  next
    case SideSell
    with assms have "sgn ?c = 1" by (simp add: signed_qty_def)
    then have "?c > 0" by (simp only: sgn_1_pos)
    moreover from this have "currentQuantity pos \<noteq> 0" by auto
    ultimately show ?thesis
      using SideSell assms(1,2) k
      by (simp add: calculateRealized_def is_fill_def fromProduct_sint close_profit_def
          price_of_int_def Let_def)
  qed
qed

lemma realized_not_closing:
  assumes "0 < sint (raw (er_quantity report))"
    "sgn (sint (currentQuantity pos)) \<noteq> - sgn (signed_qty (er_side report) (er_quantity report))"
  shows "calculateRealized pos report = 0"
  using assms
  by (cases "er_side report") (auto simp: calculateRealized_def signed_qty_def sgn_if split: if_splits)

lemma unrealized_mark:
  assumes "me_bestBid event = m" "me_bestAsk event = m"
    "me_bestBidQuantity event \<noteq> 0" "me_bestAskQuantity event \<noteq> 0"
  shows "calculateUnrealized pos event =
    price_of_int (close_profit (sint (currentQuantity pos)) (sint (raw (averageEntryPrice pos)))
      (sint (raw m)) \<bar>sint (currentQuantity pos)\<bar>)"
  using assms abs_sint_le [of "currentQuantity pos"]
  by (auto simp: calculateUnrealized_def fromProduct_sint close_profit_def price_of_int_def
      zero_scaled_value_def sgn_if)

section \<open>Properties\<close>

lemma sint_price_of_int [simp]: "in_i64 v \<Longrightarrow> sint (raw (price_of_int v)) = v"
  by (simp add: price_of_int_def sint_word_of_int)

lemma min_abs_opposite:
  "sgn c = - sgn s \<Longrightarrow> \<bar>c + s\<bar> = \<bar>\<bar>c\<bar> - \<bar>s :: int\<bar>\<bar>"
  by (auto simp: sgn_if abs_if split: if_splits)

text \<open>Truncating division splits a sum up to one unit.\<close>

lemma sdiv_split_le:
  assumes "0 \<le> x * y" "0 < (c :: int)"
  shows "\<bar>(x + y) sdiv c - (x sdiv c + y sdiv c)\<bar> \<le> 1"
proof -
  have nonneg: "\<bar>(u + v) sdiv c - (u sdiv c + v sdiv c)\<bar> \<le> 1" if "0 \<le> u" "0 \<le> v" for u v
  proof -
    have carry: "0 \<le> r div c \<and> r div c \<le> 1" if "0 \<le> r" "r < 2 * c" for r
      using that assms(2) by (cases "r < c") (simp_all add: div_pos_geq)
    have "0 \<le> u mod c + v mod c" "u mod c + v mod c < 2 * c"
      using pos_mod_bound [OF assms(2), of u] pos_mod_bound [OF assms(2), of v]
        pos_mod_sign [OF assms(2), of u] pos_mod_sign [OF assms(2), of v]
      by linarith+
    from carry [OF this] that assms(2) div_add1_eq [of u v c]
    show ?thesis by (simp add: sdiv_nonneg)
  qed
  from assms(1) consider "0 \<le> x" "0 \<le> y" | "x \<le> 0" "y \<le> 0"
    by (auto simp: zero_le_mult_iff)
  then show ?thesis
  proof cases
    case 1
    then show ?thesis by (rule nonneg)
  next
    case 2
    then have "\<bar>(- x + - y) sdiv c - (- x sdiv c + - y sdiv c)\<bar> \<le> 1" by (intro nonneg) auto
    moreover have "(- x + - y) sdiv c = - ((x + y) sdiv c)"
      using sdiv_neg [OF assms(2), of "x + y"] by simp
    ultimately show ?thesis using assms(2) by (simp add: sdiv_neg)
  qed
qed

lemma close_profit_mono:
  assumes "0 \<le> k" "k \<le> n"
  shows "\<bar>close_profit c a p k\<bar> \<le> \<bar>close_profit c a p n\<bar>"
  using assms by (auto simp: close_profit_def abs_sdiv abs_mult intro!: zdiv_mono1 mult_left_mono)

lemma close_profit_flat [simp]: "close_profit 0 a p k = 0"
  by (simp add: close_profit_def)

lemma close_profit_at_entry [simp]: "close_profit c a a k = 0"
  by (simp add: close_profit_def)

lemma close_profit_split:
  assumes "0 \<le> k" "k \<le> n"
  shows "\<bar>close_profit c a p n - (close_profit c a p k + close_profit c a p (n - k))\<bar> \<le> 1"
proof -
  let ?d = "sgn c * (p - a)"
  have "0 \<le> ?d\<^sup>2 * (k * (n - k))" using assms by simp
  also have "\<dots> = (?d * k) * (?d * (n - k))" by (simp add: power2_eq_square ac_simps)
  finally have "0 \<le> (?d * k) * (?d * (n - k))" .
  moreover have "?d * n = ?d * k + ?d * (n - k)" by (simp add: right_diff_distrib)
  ultimately show ?thesis
    using sdiv_split_le [of "?d * k" "?d * (n - k)" 100000000] by (simp add: close_profit_def)
qed

text \<open>
  A fill of positive quantity realises profit exactly when it is on the opposite side of an
  open position; then the result is the documented one: direction times price difference times
  the closed quantity (the smaller of position and fill), divided by the scale towards zero,
  read back exactly whenever that number fits 64 bits.
\<close>

theorem realized_pnl_formula:
  assumes "is_fill report" "0 < sint (raw (er_quantity report))"
  shows "calculateRealized pos report =
    (if sgn (sint (currentQuantity pos)) = - sgn (signed_qty (er_side report) (er_quantity report))
     then price_of_int (close_profit (sint (currentQuantity pos)) (sint (raw (averageEntryPrice pos)))
            (sint (raw (er_price report)))
            (min \<bar>sint (currentQuantity pos)\<bar> (sint (raw (er_quantity report)))))
     else 0)"
  using realized_closing [OF assms] realized_not_closing [OF assms(2)] by simp

theorem realized_pnl_formula_witness:
  "calculateRealized \<lparr>pos_instrument = 1, currentQuantity = 300000000, averageEntryPrice = Price 500, realizedPnL = 0\<rparr>
     (trade_report 1 1 SideSell (Price 700) (Quantity 200000000)) = price_of_int 400"
  using realized_pnl_formula [of "trade_report 1 1 SideSell (Price 700) (Quantity 200000000)"
      "\<lparr>pos_instrument = 1, currentQuantity = 300000000, averageEntryPrice = Price 500, realizedPnL = 0\<rparr>"]
  by (simp add: is_fill_def trade_report_def signed_qty_def close_profit_def sgn_if
      signed_divide_int_def zero_scaled_value_def)

text \<open>What a reducing trade leaves to mark: the rest of the old position, or nothing.\<close>

lemma unrealized_after_reduction:
  assumes fill: "is_fill report" "0 < sint (raw (er_quantity report))"
    and opp: "sgn (sint (currentQuantity pos)) = - sgn (signed_qty (er_side report) (er_quantity report))"
    and fits: "trade_fits (er_side report) (er_quantity report) pos"
    and mark: "me_bestBid event = er_price report" "me_bestAsk event = er_price report"
      "me_bestBidQuantity event \<noteq> 0" "me_bestAskQuantity event \<noteq> 0"
  defines "c \<equiv> sint (currentQuantity pos)" and "q \<equiv> sint (raw (er_quantity report))"
  shows "calculateUnrealized
      (applyTrade (er_side report) (er_price report) (er_quantity report) pos) event =
    price_of_int (if q < \<bar>c\<bar>
      then close_profit c (sint (raw (averageEntryPrice pos))) (sint (raw (er_price report))) (\<bar>c\<bar> - q)
      else 0)"
proof -
  let ?s = "signed_qty (er_side report) (er_quantity report)"
  have s: "\<bar>?s\<bar> = q" "?s \<noteq> 0"
    using fill by (cases "er_side report"; simp add: signed_qty_def is_fill_def q_def)+
  have c: "c \<noteq> 0" "sgn c \<noteq> sgn ?s"
    using opp s(2) by (auto simp: sgn_if c_def split: if_splits)
  note after = applyTrade_exact [OF fits, of "er_price report"] and unreal = unrealized_mark [OF mark]
  consider (part) "q < \<bar>c\<bar>" | (all) "q = \<bar>c\<bar>" | (reverse) "\<bar>c\<bar> < q" by linarith
  then show ?thesis
  proof cases
    case part
    have "\<bar>c + ?s\<bar> = \<bar>c\<bar> - q" "sgn (c + ?s) = sgn c"
      using part min_abs_opposite [OF opp] s opp by (auto simp: sgn_if c_def split: if_splits)
    with part after s c show ?thesis
      by (simp add: trade_spec_def abs_pos_def c_def [symmetric] unreal close_profit_def)
  next
    case all
    with after s c show ?thesis
      by (simp add: trade_spec_def abs_pos_def c_def [symmetric] unreal)
  next
    case reverse
    with after s c show ?thesis
      by (simp add: trade_spec_def abs_pos_def c_def [symmetric] unreal)
  qed
qed

text \<open>
  C10. Marking to market is conserved by reducing trades: when a position is reduced, closed or
  reversed at the price the market is marked at, the profit realised by the trade plus the
  unrealised profit of what is left equals the unrealised profit before, up to one unit of
  rounding.
\<close>

theorem reducing_trade_conserves_pnl:
  assumes fill: "is_fill report" "0 < sint (raw (er_quantity report))"
    and opp: "sgn (sint (currentQuantity pos)) = - sgn (signed_qty (er_side report) (er_quantity report))"
    and fits: "trade_fits (er_side report) (er_quantity report) pos"
    and mark: "me_bestBid event = er_price report" "me_bestAsk event = er_price report"
      "me_bestBidQuantity event \<noteq> 0" "me_bestAskQuantity event \<noteq> 0"
    and small: "\<bar>close_profit (sint (currentQuantity pos)) (sint (raw (averageEntryPrice pos)))
      (sint (raw (er_price report))) \<bar>sint (currentQuantity pos)\<bar>\<bar> < 2 ^ 63"
  shows "\<bar>sint (raw (calculateUnrealized pos event))
      - (sint (raw (calculateRealized pos report))
         + sint (raw (calculateUnrealized
             (applyTrade (er_side report) (er_price report) (er_quantity report) pos) event)))\<bar> \<le> 1"
proof -
  let ?c = "sint (currentQuantity pos)" and ?a = "sint (raw (averageEntryPrice pos))"
    and ?m = "sint (raw (er_price report))" and ?q = "sint (raw (er_quantity report))"
  have fit: "in_i64 (close_profit ?c ?a ?m k)" if "0 \<le> k" "k \<le> \<bar>?c\<bar>" for k
    using close_profit_mono [OF that, of ?c ?a ?m] small by (auto simp: in_i64_def)
  have realized: "sint (raw (calculateRealized pos report)) = close_profit ?c ?a ?m (min \<bar>?c\<bar> ?q)"
    using realized_closing [OF fill opp] fill(2) by (simp add: fit)
  have before: "sint (raw (calculateUnrealized pos event)) = close_profit ?c ?a ?m \<bar>?c\<bar>"
    using unrealized_mark [OF mark] by (simp add: fit)
  have after: "sint (raw (calculateUnrealized
      (applyTrade (er_side report) (er_price report) (er_quantity report) pos) event)) =
    (if ?q < \<bar>?c\<bar> then close_profit ?c ?a ?m (\<bar>?c\<bar> - ?q) else 0)"
    using unrealized_after_reduction [OF fill opp fits mark] fill(2) fit [of "\<bar>?c\<bar> - ?q"]
    by (simp add: in_i64_def)
  from before realized after fill(2) close_profit_split [of ?q "\<bar>?c\<bar>" ?c ?a ?m] show ?thesis
    by (simp add: min_def)
qed

definition marked_at :: "price \<Rightarrow> market_event" where
  "marked_at m = default_event\<lparr>me_bestBid := m, me_bestBidQuantity := Quantity 1,
     me_bestAsk := m, me_bestAskQuantity := Quantity 1\<rparr>"

theorem reducing_trade_conserves_pnl_witness:
  "\<bar>sint (raw (calculateUnrealized
        \<lparr>pos_instrument = 1, currentQuantity = 30, averageEntryPrice = Price 500, realizedPnL = 0\<rparr>
        (marked_at (Price 900)))) -
     (sint (raw (calculateRealized
        \<lparr>pos_instrument = 1, currentQuantity = 30, averageEntryPrice = Price 500, realizedPnL = 0\<rparr>
        (trade_report 1 1 SideSell (Price 900) (Quantity 10)))) +
      sint (raw (calculateUnrealized (applyTrade SideSell (Price 900) (Quantity 10)
        \<lparr>pos_instrument = 1, currentQuantity = 30, averageEntryPrice = Price 500, realizedPnL = 0\<rparr>)
        (marked_at (Price 900)))))\<bar> \<le> 1"
  using reducing_trade_conserves_pnl [of "trade_report 1 1 SideSell (Price 900) (Quantity 10)"
      "\<lparr>pos_instrument = 1, currentQuantity = 30, averageEntryPrice = Price 500, realizedPnL = 0\<rparr>"
      "marked_at (Price 900)"]
  by (simp add: trade_report_def is_fill_def signed_qty_def trade_fits_def marked_at_def
      zero_scaled_value_def sgn_if close_profit_def signed_divide_int_def)

text \<open>
  The result of a profit calculation is cast to 64 bits without a check: a long position of
  ten thousand million units entered at 0 and marked at 10 is reported with a loss.
\<close>

theorem unrealized_pnl_wraps:
  "sint (raw (calculateUnrealized
     \<lparr>pos_instrument = 1, currentQuantity = 1000000000000000000, averageEntryPrice = 0, realizedPnL = 0\<rparr>
     (marked_at (Price 1000000000)))) < 0"
  by (simp add: calculateUnrealized_def marked_at_def default_event_def fromProduct_def Let_def
      zero_scaled_value_def i128_def signed_divide_int_def)

end
