(* ===== verification/Sorted_Array.thy ===== *)
theory Sorted_Array
  imports Prelude "HOL-Library.Monad_Syntax"
begin

text \<open>
  What the fixed-capacity sorted tables of the repository share: arrays with checked access (an
  access outside the array, which is undefined behaviour in C++, has no result), the shifting
  loops, and the binary search. \<open>None\<close> in an operation that returns an option stands for
  undefined behaviour or a loop that does not end; the lemmas show that neither happens on
  well-formed tables.
\<close>

section \<open>Checked arrays\<close>

definition fetch :: "'a list \<Rightarrow> u32 \<Rightarrow> 'a option" where
  "fetch d i = (if unat i < length d then Some (d ! unat i) else None)"

definition store :: "u32 \<Rightarrow> 'a \<Rightarrow> 'a list \<Rightarrow> 'a list option" where
  "store i x d = (if unat i < length d then Some (d[unat i := x]) else None)"

lemma fetch_Some [simp]: "unat i < length d \<Longrightarrow> fetch d i = Some (d ! unat i)"
  by (simp add: fetch_def)

lemma store_Some [simp]: "unat i < length d \<Longrightarrow> store i x d = Some (d[unat i := x])"
  by (simp add: store_def)

text \<open>\<open>for (i = last; i > idx; --i) data[i] = data[i - 1]\<close>\<close>

fun shift_right :: "nat \<Rightarrow> nat \<Rightarrow> 'a list \<Rightarrow> 'a list option" where
  "shift_right idx 0 d = Some d"
| "shift_right idx (Suc i) d =
     (if idx < Suc i
      then (if Suc i < length d then shift_right idx i (d[Suc i := d ! i]) else None)
      else Some d)"

text \<open>\<open>for (n = from; n < size; ++n) data[n - 1] = data[n]\<close>\<close>

function shift_left :: "nat \<Rightarrow> nat \<Rightarrow> 'a list \<Rightarrow> 'a list option" where
  "shift_left n sz d =
     (if n < sz
      then (if n < length d then shift_left (n + 1) sz (d[n - 1 := d ! n]) else None)
      else Some d)"
  by pat_completeness auto
termination by (relation "measure (\<lambda>(n, sz, d). sz - n)") auto

declare shift_left.simps [simp del]

lemma list_split_at: "i < length d \<Longrightarrow> d = take i d @ d ! i # drop (Suc i) d"
  by (simp add: id_take_nth_drop)

lemma shift_right_eq:
  "idx \<le> i \<Longrightarrow> i < length d \<Longrightarrow>
   shift_right idx i d =
     Some (take (Suc idx) d @ take (i - idx) (drop idx d) @ drop (Suc i) d)"
proof (induction i arbitrary: d)
  case 0
  then show ?case by simp
next
  case (Suc i)
  show ?case
  proof (cases "idx = Suc i")
    case True
    then show ?thesis by simp
  next
    case False
    then have le: "idx \<le> i" using Suc.prems(1) by simp
    let ?d = "d[Suc i := d ! i]"
    have "shift_right idx (Suc i) d = shift_right idx i ?d" using False Suc.prems by simp
    also have "\<dots> = Some (take (Suc idx) ?d @ take (i - idx) (drop idx ?d) @ drop (Suc i) ?d)"
      using Suc.prems le by (intro Suc.IH) simp_all
    also have "take (Suc idx) ?d = take (Suc idx) d" using le by simp
    also have "take (i - idx) (drop idx ?d) = take (i - idx) (drop idx d)"
      using le by (simp add: drop_update_swap)
    also have "drop (Suc i) ?d = d ! i # drop (Suc (Suc i)) d"
      using Suc.prems(2) by (simp add: Cons_nth_drop_Suc [symmetric])
    also have "take (i - idx) (drop idx d) @ d ! i # drop (Suc (Suc i)) d
        = take (Suc i - idx) (drop idx d) @ drop (Suc (Suc i)) d"
      using le Suc.prems(2) by (simp add: Suc_diff_le take_Suc_conv_app_nth)
    finally show ?thesis .
  qed
qed

lemma shift_left_eq:
  "0 < n \<Longrightarrow> n \<le> sz \<Longrightarrow> sz \<le> length d \<Longrightarrow>
   shift_left n sz d = Some (take (n - 1) d @ take (sz - n) (drop n d) @ drop (sz - 1) d)"
proof (induction "sz - n" arbitrary: n d)
  case 0
  then show ?case by (simp add: shift_left.simps)
next
  case (Suc k)
  let ?d = "d[n - 1 := d ! n]"
  have n: "n < sz" using Suc.hyps(2) by simp
  then have "shift_left n sz d = shift_left (n + 1) sz ?d"
    using Suc.prems by (subst shift_left.simps) simp
  also have "\<dots> = Some (take n ?d @ take (sz - (n + 1)) (drop (n + 1) ?d) @ drop (sz - 1) ?d)"
    using Suc n by (subst Suc.hyps(1)) simp_all
  also have "take n ?d = take (n - 1) d @ [d ! n]"
    using Suc.prems(1,3) n by (cases n) (simp_all add: take_Suc_conv_app_nth)
  also have "drop (n + 1) ?d = drop (n + 1) d" using Suc.prems(1) by simp
  also have "drop (sz - 1) ?d = drop (sz - 1) d" using Suc.prems(1) n by simp
  also have "(take (n - 1) d @ [d ! n]) @ take (sz - (n + 1)) (drop (n + 1) d) @ drop (sz - 1) d
      = take (n - 1) d @ take (sz - n) (drop n d) @ drop (sz - 1) d"
    using Suc.prems n by (simp add: Cons_nth_drop_Suc [symmetric] take_Cons' Suc_diff_Suc)
  finally show ?case .
qed

section \<open>Binary search\<close>

datatype sort_order = Ascending | Descending

definition compare_keys :: "sort_order \<Rightarrow> 'k :: linorder \<Rightarrow> 'k \<Rightarrow> bool" where
  "compare_keys ord a b = (case ord of Descending \<Rightarrow> a \<ge> b | Ascending \<Rightarrow> a \<le> b)"

text \<open>
  The loop of \<open>findInsertIndex\<close> on 32-bit indices; \<open>at_or_after e\<close> is the comparison of the
  searched key with the key of an element.
\<close>

partial_function (option) search_loop :: "('e \<Rightarrow> bool) \<Rightarrow> 'e list \<Rightarrow> u32 \<Rightarrow> u32 \<Rightarrow> u32 option" where
  "search_loop at_or_after d left right =
     (if left < right
      then
        let mid = drop_bit 1 (left + right)
        in (case fetch d mid of
              None \<Rightarrow> None
            | Some e \<Rightarrow>
                if at_or_after e then search_loop at_or_after d left mid
                else search_loop at_or_after d (mid + 1) right)
      else Some left)"

lemma unat_mid:
  assumes "left < right" "unat right < 2 ^ 31"
  shows "unat (drop_bit 1 (left + right) :: u32) = (unat left + unat right) div 2"
proof -
  have "unat left < unat right" using assms(1) by (simp add: word_less_nat_alt)
  then have "unat (left + right) = unat left + unat right"
    using assms(2) by (subst unat_word_ariths) simp
  then show ?thesis by (simp add: drop_bit_eq_div unat_div)
qed

text \<open>The search ends, inside the array, at the first element the key does not come after.\<close>

lemma search_loop_correct:
  assumes "unat right \<le> length d" "unat right < 2 ^ 31" "left \<le> right"
    and "\<And>i j. i \<le> j \<Longrightarrow> j < unat right \<Longrightarrow> P (d ! i) \<Longrightarrow> P (d ! j)"
  shows "\<exists>p. search_loop P d left right = Some p \<and> left \<le> p \<and> p \<le> right
    \<and> (\<forall>i. unat left \<le> i \<and> i < unat p \<longrightarrow> \<not> P (d ! i))
    \<and> (\<forall>i. unat p \<le> i \<and> i < unat right \<longrightarrow> P (d ! i))"
  using assms
proof (induction "unat right - unat left" arbitrary: left right rule: less_induct)
  case less
  show ?case
  proof (cases "left < right")
    case False
    with less.prems(3) have "left = right" by simp
    with False show ?thesis by (subst search_loop.simps) auto
  next
    case True
    define mid where "mid = (drop_bit 1 (left + right) :: u32)"
    have m: "unat mid = (unat left + unat right) div 2"
      unfolding mid_def using True less.prems(2) by (rule unat_mid)
    have lr: "unat left < unat right" using True by (simp add: word_less_nat_alt)
    have mid: "unat left \<le> unat mid" "unat mid < unat right" using m lr by simp_all
    have inside: "unat mid < length d" using mid(2) less.prems(1) by simp
    have step: "search_loop P d left right =
        (if P (d ! unat mid) then search_loop P d left mid else search_loop P d (mid + 1) right)"
      using True inside by (subst search_loop.simps) (simp add: mid_def Let_def)
    have msuc: "unat (mid + 1) = unat mid + 1"
      using mid(2) less.prems(2) by (simp add: unat_word_ariths)
    show ?thesis
    proof (cases "P (d ! unat mid)")
      case hit: True
      have "\<exists>p. search_loop P d left mid = Some p \<and> left \<le> p \<and> p \<le> mid
          \<and> (\<forall>i. unat left \<le> i \<and> i < unat p \<longrightarrow> \<not> P (d ! i))
          \<and> (\<forall>i. unat p \<le> i \<and> i < unat mid \<longrightarrow> P (d ! i))"
        using mid lr inside less.prems by (intro less.hyps) (auto simp: word_le_nat_alt)
      then obtain p where p: "search_loop P d left mid = Some p" "left \<le> p" "p \<le> mid"
        "\<And>i. unat left \<le> i \<and> i < unat p \<Longrightarrow> \<not> P (d ! i)"
        "\<And>i. unat p \<le> i \<and> i < unat mid \<Longrightarrow> P (d ! i)" by blast
      have "P (d ! i)" if "unat p \<le> i" "i < unat right" for i
        using p(5) [of i] less.prems(4) [of "unat mid" i] hit that by (cases "i < unat mid") simp_all
      with p step hit mid show ?thesis by (auto simp: word_le_nat_alt)
    next
      case miss: False
      have "\<exists>p. search_loop P d (mid + 1) right = Some p \<and> mid + 1 \<le> p \<and> p \<le> right
          \<and> (\<forall>i. unat (mid + 1) \<le> i \<and> i < unat p \<longrightarrow> \<not> P (d ! i))
          \<and> (\<forall>i. unat p \<le> i \<and> i < unat right \<longrightarrow> P (d ! i))"
        using mid lr msuc less.prems by (intro less.hyps) (auto simp: word_le_nat_alt)
      then obtain p where p: "search_loop P d (mid + 1) right = Some p" "mid + 1 \<le> p" "p \<le> right"
        "\<And>i. unat (mid + 1) \<le> i \<and> i < unat p \<Longrightarrow> \<not> P (d ! i)"
        "\<And>i. unat p \<le> i \<and> i < unat right \<Longrightarrow> P (d ! i)" by blast
      have "\<not> P (d ! i)" if "i < unat p" for i
        using p(4) [of i] less.prems(4) [of i "unat mid"] miss mid(2) msuc that
        by (cases "i \<le> unat mid") auto
      with p step miss mid msuc show ?thesis by (auto simp: word_le_nat_alt)
    qed
  qed
qed

section \<open>Sorted tables as lists\<close>

text \<open>
  The order of a table: \<open>before\<close> is strict. \<open>insert_entry\<close> is the intended insertion: at the
  place of the key, nothing when the key is present.
\<close>

definition before :: "sort_order \<Rightarrow> 'k :: linorder \<Rightarrow> 'k \<Rightarrow> bool" where
  "before ord a b = (case ord of Descending \<Rightarrow> a > b | Ascending \<Rightarrow> a < b)"

definition sorted_keys :: "sort_order \<Rightarrow> ('k :: linorder \<times> 'v) list \<Rightarrow> bool" where
  "sorted_keys ord xs = sorted_wrt (\<lambda>a b. before ord (fst a) (fst b)) xs"

fun insert_entry :: "sort_order \<Rightarrow> 'k :: linorder \<times> 'v \<Rightarrow> ('k \<times> 'v) list \<Rightarrow> ('k \<times> 'v) list" where
  "insert_entry ord e [] = [e]"
| "insert_entry ord e (x # xs) =
     (if fst e = fst x then x # xs
      else if compare_keys ord (fst e) (fst x) then e # x # xs
      else x # insert_entry ord e xs)"

lemma compare_before: "compare_keys ord a b \<longleftrightarrow> a = b \<or> before ord a b"
  by (auto simp: compare_keys_def before_def split: sort_order.split)

lemma not_compare: "\<not> compare_keys ord a b \<longleftrightarrow> before ord b a"
  by (auto simp: compare_keys_def before_def split: sort_order.split)

lemma before_trans: "before ord a b \<Longrightarrow> before ord b c \<Longrightarrow> before ord a c"
  by (auto simp: before_def split: sort_order.splits)

lemma before_irrefl [simp]: "\<not> before ord a a"
  by (simp add: before_def split: sort_order.split)

lemma compare_refl [simp]: "compare_keys ord a a"
  by (simp add: compare_before)

lemma sorted_keys_Cons [simp]:
  "sorted_keys ord (x # xs) \<longleftrightarrow> (\<forall>y \<in> set xs. before ord (fst x) (fst y)) \<and> sorted_keys ord xs"
  by (simp add: sorted_keys_def)

lemma sorted_keys_Nil [simp]: "sorted_keys ord []"
  by (simp add: sorted_keys_def)

lemma sorted_keys_append:
  "sorted_keys ord (xs @ ys) \<longleftrightarrow> sorted_keys ord xs \<and> sorted_keys ord ys
     \<and> (\<forall>x \<in> set xs. \<forall>y \<in> set ys. before ord (fst x) (fst y))"
  by (simp add: sorted_keys_def sorted_wrt_append)

lemma sorted_keys_take: "sorted_keys ord xs \<Longrightarrow> sorted_keys ord (take n xs)"
  by (simp add: sorted_keys_def sorted_wrt_take)

lemma sorted_keys_distinct: "sorted_keys ord xs \<Longrightarrow> distinct (map fst xs)"
  by (induction xs) auto

lemma set_insert_entry:
  "set (insert_entry ord e xs) \<subseteq> insert e (set xs)"
  "fst ` set (insert_entry ord e xs) = insert (fst e) (fst ` set xs)"
  by (induction xs) auto

lemma sorted_insert_entry:
  "sorted_keys ord xs \<Longrightarrow> sorted_keys ord (insert_entry ord e xs)"
proof (induction xs)
  case (Cons x xs)
  have sub: "set (insert_entry ord e xs) \<subseteq> insert e (set xs)" by (rule set_insert_entry)
  show ?case
  proof (cases "compare_keys ord (fst e) (fst x)")
    case True
    with Cons.prems show ?thesis by (auto simp: compare_before intro: before_trans)
  next
    case False
    then have "fst e \<noteq> fst x" "before ord (fst x) (fst e)" by (auto simp: not_compare)
    with Cons False sub show ?thesis by auto
  qed
qed simp

lemma map_of_insert_entry:
  "sorted_keys ord xs \<Longrightarrow> map_of (insert_entry ord (k, v) xs) =
     (if map_of xs k = None then (map_of xs)(k \<mapsto> v) else map_of xs)"
proof (induction xs)
  case (Cons x xs)
  have "map_of (x # xs) k = None" if "compare_keys ord k (fst x)" "k \<noteq> fst x"
  proof -
    have "before ord k (fst y)" if "y \<in> set xs" for y
      using Cons.prems \<open>compare_keys ord k (fst x)\<close> \<open>k \<noteq> fst x\<close> that
      by (auto simp: compare_before intro: before_trans)
    then have "k \<notin> fst ` set xs" using before_irrefl [of ord k] by force
    with that show ?thesis by (cases x) (auto simp: map_of_eq_None_iff)
  qed
  with Cons show ?case by (cases x) (auto simp: fun_eq_iff)
qed simp

lemma insert_entry_append:
  "(\<forall>x \<in> set xs. before ord (fst x) (fst e)) \<Longrightarrow>
   insert_entry ord e (xs @ ys) = xs @ insert_entry ord e ys"
proof (induction xs)
  case (Cons x xs)
  then have "before ord (fst x) (fst e)" by simp
  then have "\<not> compare_keys ord (fst e) (fst x)" "fst e \<noteq> fst x"
    using not_compare [of ord "fst e" "fst x"] by auto
  with Cons show ?case by simp
qed simp

text \<open>The monotonicity the search needs.\<close>

lemma sorted_keys_search_mono:
  assumes "sorted_keys ord (take n d)" "n \<le> length d" "i \<le> j" "j < n"
    "compare_keys ord k (fst (d ! i))"
  shows "compare_keys ord k (fst (d ! j))"
proof (cases "i = j")
  case False
  with assms(1-4) have "before ord (fst (d ! i)) (fst (d ! j))"
    by (auto simp: sorted_keys_def sorted_wrt_iff_nth_less)
  with assms(5) show ?thesis by (auto simp: compare_before intro: before_trans)
qed (use assms in simp)

text \<open>Where the search stops in a sorted table of \<open>n\<close> entries.\<close>

lemma search_position:
  assumes "sorted_keys ord (take (unat n) d)" "unat n \<le> length d" "unat n < 2 ^ 31"
  obtains p where "search_loop (\<lambda>e. compare_keys ord k (fst e)) d 0 n = Some p"
    "unat p \<le> unat n"
    "\<forall>x \<in> set (take (unat p) d). before ord (fst x) k"
    "unat p < unat n \<Longrightarrow> compare_keys ord k (fst (d ! unat p))"
proof -
  have "\<exists>p. search_loop (\<lambda>e. compare_keys ord k (fst e)) d 0 n = Some p \<and> 0 \<le> p \<and> p \<le> n
    \<and> (\<forall>i. unat (0 :: u32) \<le> i \<and> i < unat p \<longrightarrow> \<not> compare_keys ord k (fst (d ! i)))
    \<and> (\<forall>i. unat p \<le> i \<and> i < unat n \<longrightarrow> compare_keys ord k (fst (d ! i)))"
    using sorted_keys_search_mono [OF assms(1,2)] assms(2,3)
    by (intro search_loop_correct) simp_all
  then obtain p where p: "search_loop (\<lambda>e. compare_keys ord k (fst e)) d 0 n = Some p" "p \<le> n"
    "\<And>i. i < unat p \<Longrightarrow> \<not> compare_keys ord k (fst (d ! i))"
    "\<And>i. unat p \<le> i \<and> i < unat n \<Longrightarrow> compare_keys ord k (fst (d ! i))" by auto
  have "\<forall>x \<in> set (take (unat p) d). before ord (fst x) k"
  proof
    fix x
    assume "x \<in> set (take (unat p) d)"
    then obtain i where "x = d ! i" "i < unat p" by (auto simp: in_set_conv_nth)
    with p(3) [of i] show "before ord (fst x) k" by (simp add: not_compare)
  qed
  with p that show thesis by (auto simp: word_le_nat_alt)
qed

end
