(* ===== verification/Flat_Map.thy ===== *)
theory Flat_Map
  imports Sorted_Array
begin

text \<open>
  \<open>flat_map::FlatMap\<close> (MarketDepthBook/FlatMap.hpp): a sorted table of at most \<open>capacity\<close>
  key-value nodes in one array, with 32-bit size and indices, and \<open>depth_book::MarketDepthBook\<close>
  (MarketDepthBook.hpp) on two of them. The array keeps the nodes behind its end: erased nodes
  stay readable there, and a fresh array holds zero keys. Both matter: an empty table is searched
  at index 0 as if it had a node there.

  Keys are any linear order (the book uses \<open>double\<close> prices; NaN is outside the model).
\<close>

section \<open>State and operations\<close>

record ('k, 'v) flat_map =
  fm_size :: u32
  fm_capacity :: u32
  fm_data :: "('k \<times> 'v) list"

definition new_flat_map :: "u32 \<Rightarrow> ('k :: zero, 'v :: zero) flat_map" where
  "new_flat_map capacity =
     \<lparr>fm_size = 0, fm_capacity = capacity, fm_data = replicate (unat capacity) (0, 0)\<rparr>"

text \<open>
  Copying allocates without initialising: the nodes behind the end are arbitrary (\<open>fresh\<close>).
  A moved-from table has no array.
\<close>

definition copy_flat_map :: "('k \<times> 'v) list \<Rightarrow> ('k, 'v) flat_map \<Rightarrow> ('k, 'v) flat_map option" where
  "copy_flat_map fresh other =
     (if unat (fm_size other) \<le> length (fm_data other) \<and> fm_size other \<le> fm_capacity other
      then Some \<lparr>fm_size = fm_size other, fm_capacity = fm_capacity other,
        fm_data = take (unat (fm_size other)) (fm_data other)
                    @ take (unat (fm_capacity other) - unat (fm_size other)) fresh\<rparr>
      else None)"

definition move_flat_map :: "('k, 'v) flat_map \<Rightarrow> ('k, 'v) flat_map \<times> ('k, 'v) flat_map" where
  "move_flat_map other = (other, \<lparr>fm_size = 0, fm_capacity = 0, fm_data = []\<rparr>)"

definition findInsertIndex :: "sort_order \<Rightarrow> 'k :: linorder \<Rightarrow> ('k, 'v) flat_map \<Rightarrow> u32 option" where
  "findInsertIndex ord key m =
     search_loop (\<lambda>node. compare_keys ord key (fst node)) (fm_data m) 0 (fm_size m)"

text \<open>The conditions \<open>push\<close> and \<open>erase\<close> test first: the key lies behind (outside) all nodes.\<close>

definition beyond_last :: "sort_order \<Rightarrow> 'k :: linorder \<Rightarrow> ('k, 'v) flat_map \<Rightarrow> bool option" where
  "beyond_last ord key m =
     (if fm_size m > 0
      then do { lastNode \<leftarrow> fetch (fm_data m) (fm_size m - 1);
                Some (\<not> compare_keys ord key (fst lastNode)) }
      else Some False)"

definition outside_nodes :: "sort_order \<Rightarrow> 'k :: linorder \<Rightarrow> ('k, 'v) flat_map \<Rightarrow> bool option" where
  "outside_nodes ord key m =
     (if fm_size m > 0
      then do { firstNode \<leftarrow> fetch (fm_data m) 0;
                if \<not> compare_keys ord (fst firstNode) key then Some True
                else do { lastNode \<leftarrow> fetch (fm_data m) (fm_size m - 1);
                          Some (\<not> compare_keys ord key (fst lastNode)) } }
      else Some False)"

text \<open>\<open>push\<close> returns a pointer into the array, here its index, or \<open>nullptr\<close>, here \<open>None\<close>.\<close>

definition fm_push ::
  "sort_order \<Rightarrow> 'k :: linorder \<Rightarrow> 'v \<Rightarrow> ('k, 'v) flat_map \<Rightarrow> (u32 option \<times> ('k, 'v) flat_map) option" where
  "fm_push ord key val m =
     do {
       append \<leftarrow> beyond_last ord key m;
       if append
       then (if fm_size m = fm_capacity m then Some (None, m)
             else do { d \<leftarrow> store (fm_size m) (key, val) (fm_data m);
                       Some (Some (fm_size m), m\<lparr>fm_data := d, fm_size := fm_size m + 1\<rparr>) })
       else do {
         idxInsert \<leftarrow> findInsertIndex ord key m;
         present \<leftarrow> (if fm_capacity m = idxInsert then Some True
                     else do { node \<leftarrow> fetch (fm_data m) idxInsert; Some (key = fst node) });
         if present then Some (Some idxInsert, m)
         else do {
           let newSize = (if fm_capacity m = fm_size m then fm_size m else fm_size m + 1);
           shifted \<leftarrow> shift_right (unat idxInsert) (unat (newSize - 1)) (fm_data m);
           d \<leftarrow> store idxInsert (key, val) shifted;
           Some (Some idxInsert, m\<lparr>fm_size := newSize, fm_data := d\<rparr>) } } }"

definition fm_erase ::
  "sort_order \<Rightarrow> 'k :: linorder \<Rightarrow> ('k, 'v) flat_map \<Rightarrow> (bool \<times> ('k, 'v) flat_map) option" where
  "fm_erase ord key m =
     do {
       outside \<leftarrow> outside_nodes ord key m;
       if outside then Some (False, m)
       else do {
         idx \<leftarrow> findInsertIndex ord key m;
         node \<leftarrow> fetch (fm_data m) idx;
         if key \<noteq> fst node then Some (False, m)
         else do {
           d \<leftarrow> shift_left (unat (idx + 1)) (unat (fm_size m)) (fm_data m);
           Some (True, m\<lparr>fm_data := d, fm_size := fm_size m - 1\<rparr>) } } }"

definition fm_empty :: "('k, 'v) flat_map \<Rightarrow> bool" where
  "fm_empty m \<longleftrightarrow> 0 = fm_size m"

definition fm_front :: "('k, 'v) flat_map \<Rightarrow> ('k \<times> 'v) option" where
  "fm_front m = fetch (fm_data m) 0"

definition fm_back :: "('k, 'v) flat_map \<Rightarrow> ('k \<times> 'v) option" where
  "fm_back m = fetch (fm_data m) (fm_size m - 1)"

section \<open>Well-formed tables\<close>

definition fm_list :: "('k, 'v) flat_map \<Rightarrow> ('k \<times> 'v) list" where
  "fm_list m = take (unat (fm_size m)) (fm_data m)"

definition fm_wf :: "sort_order \<Rightarrow> ('k :: linorder, 'v) flat_map \<Rightarrow> bool" where
  "fm_wf ord m \<longleftrightarrow>
     fm_size m \<le> fm_capacity m \<and> length (fm_data m) = unat (fm_capacity m)
     \<and> 0 < fm_capacity m \<and> unat (fm_capacity m) < 2 ^ 31 \<and> sorted_keys ord (fm_list m)"

text \<open>The node behind the end of an empty table does not carry the key.\<close>

definition no_ghost :: "'k \<Rightarrow> ('k, 'v) flat_map \<Rightarrow> bool" where
  "no_ghost key m \<longleftrightarrow> fm_size m = 0 \<longrightarrow> fst (fm_data m ! 0) \<noteq> key"

lemma fm_wf_new: "0 < capacity \<Longrightarrow> unat capacity < 2 ^ 31 \<Longrightarrow> fm_wf ord (new_flat_map capacity)"
  by (simp add: fm_wf_def new_flat_map_def fm_list_def)

lemma fm_wfD:
  assumes "fm_wf ord m"
  shows "unat (fm_size m) \<le> length (fm_data m)" "unat (fm_size m) < 2 ^ 31"
    "sorted_keys ord (take (unat (fm_size m)) (fm_data m))" "0 < length (fm_data m)"
    "length (fm_data m) = unat (fm_capacity m)" "length (fm_list m) = unat (fm_size m)"
    "unat (fm_capacity m) < 2 ^ 31"
  using assms by (auto simp: fm_wf_def fm_list_def word_le_nat_alt word_less_nat_alt)

lemma fm_last:
  assumes "fm_wf ord m" "fm_size m \<noteq> 0"
  shows "unat (fm_size m - 1) = unat (fm_size m) - 1" "unat (fm_size m) - 1 < length (fm_data m)"
    "fm_list m \<noteq> []" "last (fm_list m) = fm_data m ! (unat (fm_size m) - 1)"
proof -
  show 1: "unat (fm_size m - 1) = unat (fm_size m) - 1" using assms(2) by (rule unat_minus_one)
  have pos: "0 < unat (fm_size m)" using assms(2) by (simp add: unat_gt_0)
  with fm_wfD(1) [OF assms(1)] show 2: "unat (fm_size m) - 1 < length (fm_data m)" by simp
  have "length (fm_list m) = unat (fm_size m)" by (rule fm_wfD(6) [OF assms(1)])
  with pos show 3: "fm_list m \<noteq> []" by auto
  show "last (fm_list m) = fm_data m ! (unat (fm_size m) - 1)"
    using 3 pos fm_wfD(1) [OF assms(1)] by (simp add: last_conv_nth fm_list_def)
qed

lemma beyond_last_eq:
  assumes "fm_wf ord m"
  shows "beyond_last ord key m =
    Some (fm_size m \<noteq> 0 \<and> before ord (fst (last (fm_list m))) key)"
  using fm_last [OF assms] not_compare [of ord key]
  by (auto simp: beyond_last_def word_neq_0_conv)

lemma outside_nodes_eq:
  assumes "fm_wf ord m"
  shows "outside_nodes ord key m =
    Some (fm_size m \<noteq> 0 \<and> (before ord key (fst (hd (fm_list m))) \<or> before ord (fst (last (fm_list m))) key))"
proof (cases "fm_size m = 0")
  case False
  then have "hd (fm_list m) = fm_data m ! 0"
    using fm_wfD(4) [OF assms] by (simp add: fm_list_def hd_conv_nth unat_gt_0)
  with False show ?thesis
    using fm_last [OF assms False] fm_wfD(4) [OF assms] not_compare [of ord]
    by (auto simp: outside_nodes_def word_neq_0_conv)
qed (simp add: outside_nodes_def)

text \<open>The search, as seen from the list.\<close>

lemma findInsertIndex_split:
  assumes "fm_wf ord m"
  obtains p where "findInsertIndex ord key m = Some p" "unat p \<le> unat (fm_size m)"
    "\<forall>x \<in> set (take (unat p) (fm_list m)). before ord (fst x) key"
    "unat p < unat (fm_size m) \<Longrightarrow> compare_keys ord key (fst (fm_data m ! unat p))"
proof -
  obtain p where p: "findInsertIndex ord key m = Some p" "unat p \<le> unat (fm_size m)"
    "\<forall>x \<in> set (take (unat p) (fm_data m)). before ord (fst x) key"
    "unat p < unat (fm_size m) \<Longrightarrow> compare_keys ord key (fst (fm_data m ! unat p))"
    using search_position [OF fm_wfD(3,1,2) [OF assms], of key] unfolding findInsertIndex_def by blast
  have "take (unat p) (fm_list m) = take (unat p) (fm_data m)"
    using p(2) by (simp add: fm_list_def min_def)
  with p that show thesis by simp
qed

text \<open>The three outcomes of \<open>push\<close> on a well-formed table.\<close>

lemma fm_push_beyond_full:
  assumes "fm_wf ord m" "fm_size m \<noteq> 0" "before ord (fst (last (fm_list m))) key"
    "fm_size m = fm_capacity m"
  shows "fm_push ord key val m = Some (None, m)"
  using assms by (simp add: fm_push_def beyond_last_eq)

lemma fm_push_beyond:
  assumes "fm_wf ord m" "fm_size m \<noteq> 0" "before ord (fst (last (fm_list m))) key"
    "fm_size m \<noteq> fm_capacity m"
  obtains m' where "fm_push ord key val m = Some (Some (fm_size m), m')" "fm_wf ord m'"
    "fm_list m' = fm_list m @ [(key, val)]" "fm_capacity m' = fm_capacity m"
proof -
  let ?n = "unat (fm_size m)"
  let ?m = "m\<lparr>fm_data := (fm_data m)[?n := (key, val)], fm_size := fm_size m + 1\<rparr>"
  have lt: "?n < unat (fm_capacity m)"
    using assms(1,4) by (auto simp: fm_wf_def word_le_nat_alt le_less word_unat_eq_iff)
  have suc: "unat (fm_size m + 1) = ?n + 1"
    using lt fm_wfD(7) [OF assms(1)] by (simp add: unat_word_ariths)
  have list': "fm_list ?m = fm_list m @ [(key, val)]"
    using lt suc fm_wfD(5) [OF assms(1)] by (simp add: fm_list_def take_Suc_conv_app_nth)
  have "fm_push ord key val m = Some (Some (fm_size m), ?m)"
    using assms lt fm_wfD(5) [OF assms(1)] by (simp add: fm_push_def beyond_last_eq)
  moreover have "fm_wf ord ?m"
  proof -
    have "sorted_keys ord (fm_list m @ [(key, val)])"
    proof -
      have "before ord (fst x) key" if "x \<in> set (fm_list m)" for x
      proof -
        have "fm_list m = butlast (fm_list m) @ [last (fm_list m)]"
          using fm_last(3) [OF assms(1,2)] by simp
        with assms(1) that have "x = last (fm_list m) \<or> before ord (fst x) (fst (last (fm_list m)))"
          by (metis Un_iff fm_wf_def list.set_intros(1) set_append set_ConsD sorted_keys_append
              empty_iff list.set(1))
        with assms(3) show ?thesis by (auto intro: before_trans)
      qed
      with assms(1) show ?thesis by (simp add: sorted_keys_append fm_wf_def)
    qed
    with list' suc lt assms(1) show ?thesis by (simp add: fm_wf_def word_le_nat_alt)
  qed
  ultimately show thesis using that list' by simp
qed

lemma insert_entry_at:
  assumes "sorted_keys ord xs" "\<forall>x \<in> set (take p xs). before ord (fst x) (fst e)"
    "p < length xs \<Longrightarrow> compare_keys ord (fst e) (fst (xs ! p))"
  shows "insert_entry ord e xs =
    (if p < length xs \<and> fst e = fst (xs ! p) then xs else take p xs @ e # drop p xs)"
proof -
  have "insert_entry ord e xs = take p xs @ insert_entry ord e (drop p xs)"
    using insert_entry_append [OF assms(2), of "drop p xs"] by simp
  moreover have "drop p xs = xs ! p # drop (Suc p) xs" if "p < length xs"
    using that by (simp add: Cons_nth_drop_Suc)
  ultimately show ?thesis
    using assms(3) append_take_drop_id [of p xs] by (cases "p < length xs") auto
qed

lemma entry_present_iff:
  assumes "sorted_keys ord xs" "\<forall>x \<in> set (take p xs). before ord (fst x) k"
    "p < length xs \<Longrightarrow> compare_keys ord k (fst (xs ! p))"
  shows "map_of xs k = None \<longleftrightarrow> \<not> (p < length xs \<and> k = fst (xs ! p))"
proof (cases "p < length xs")
  case False
  with assms(2) have "\<forall>x \<in> set xs. before ord (fst x) k" by simp
  then have "k \<notin> fst ` set xs" using before_irrefl [of ord k] by force
  with False show ?thesis by (simp add: map_of_eq_None_iff)
next
  case True
  then have xs: "xs = take p xs @ xs ! p # drop (Suc p) xs" by (rule id_take_nth_drop)
  then have rest: "\<forall>y \<in> set (drop (Suc p) xs). before ord (fst (xs ! p)) (fst y)"
    using assms(1) by (metis sorted_keys_Cons sorted_keys_append)
  have "k \<notin> fst ` set (take p xs)" using assms(2) before_irrefl [of ord k] by force
  moreover have "k \<notin> fst ` set (drop (Suc p) xs)"
    using rest assms(3) [OF True] before_irrefl [of ord k] before_trans [of ord k "fst (xs ! p)"]
    by (force simp: compare_before)
  ultimately have "k \<in> fst ` set xs \<longleftrightarrow> k = fst (xs ! p)"
    by (subst xs) auto
  with True show ?thesis by (simp add: map_of_eq_None_iff)
qed

text \<open>Shifting behind \<open>p\<close> and writing \<open>e\<close> there, seen from the first \<open>i + 1\<close> nodes.\<close>

lemma shift_and_store:
  assumes "p \<le> i" "i < length d"
  obtains d' where "shift_right p i d = Some d'" "length d' = length d"
    "take (Suc i) (d'[p := e]) = take p d @ e # take (i - p) (drop p d)"
proof -
  let ?d = "take (Suc p) d @ take (i - p) (drop p d) @ drop (Suc i) d"
  have upd: "(take (Suc p) d @ ys)[p := e] = take p d @ e # ys" for ys
    using assms by (simp add: take_Suc_conv_app_nth list_update_append)
  have "take (Suc i) (take p d @ e # take (i - p) (drop p d) @ drop (Suc i) d)
      = take p d @ e # take (i - p) (drop p d)"
    using assms by (simp add: min_def Suc_diff_le) arith
  with upd shift_right_eq [OF assms] assms that [of ?d] show thesis by simp
qed

lemma fm_push_within:
  assumes "fm_wf ord m" "no_ghost key m"
    "fm_size m \<noteq> 0 \<longrightarrow> compare_keys ord key (fst (last (fm_list m)))"
  obtains p m' where "fm_push ord key val m = Some (Some p, m')" "fm_wf ord m'"
    "fm_list m' = take (unat (fm_capacity m)) (insert_entry ord (key, val) (fm_list m))"
    "fm_capacity m' = fm_capacity m"
    "unat p < length (fm_list m')" "fst (fm_data m' ! unat p) = key"
    "map_of (fm_list m) key \<noteq> None \<Longrightarrow> m' = m"
proof -
  let ?n = "unat (fm_size m)" and ?xs = "fm_list m" and ?cap = "unat (fm_capacity m)" and ?d = "fm_data m"
  note wf = fm_wfD [OF assms(1)]
  have sorted: "sorted_keys ord ?xs" using assms(1) by (simp add: fm_wf_def)
  have n_cap: "?n \<le> ?cap" using wf by simp
  obtain p where p: "findInsertIndex ord key m = Some p" "unat p \<le> ?n"
    "\<forall>x \<in> set (take (unat p) ?xs). before ord (fst x) key"
    "unat p < ?n \<Longrightarrow> compare_keys ord key (fst (?d ! unat p))"
    using findInsertIndex_split [OF assms(1), of key] by blast
  have p_lt: "unat p < ?n" if "fm_size m \<noteq> 0"
  proof (rule ccontr)
    assume "\<not> unat p < ?n"
    with p(2,3) wf(6) have "before ord (fst (last ?xs)) key"
      using fm_last(3) [OF assms(1) that] by simp
    with assms(3) that not_compare [of ord key] show False by auto
  qed
  have n0: "unat p = 0" if "fm_size m = 0" using p(2) that by simp
  have p_cap: "unat p < ?cap" using p_lt n0 n_cap wf(4,5) by (cases "fm_size m = 0") simp_all
  have cap_p: "fm_capacity m \<noteq> p" using p_cap by auto
  have nth: "?xs ! unat p = ?d ! unat p" if "unat p < ?n" using that by (simp add: fm_list_def)
  have ins: "insert_entry ord (key, val) ?xs =
      (if unat p < ?n \<and> key = fst (?d ! unat p) then ?xs
       else take (unat p) ?xs @ (key, val) # drop (unat p) ?xs)"
    using insert_entry_at [OF sorted, of "unat p" "(key, val)"] p(3,4) nth wf(6) by auto
  have append: "beyond_last ord key m = Some False"
    using assms(3) not_compare [of ord key] by (auto simp: beyond_last_eq [OF assms(1)])
  have fetch_p: "fetch ?d p = Some (?d ! unat p)" using p_cap wf(5) by simp
  show thesis
  proof (cases "key = fst (?d ! unat p)")
    case True
    with assms(2) n0 have nz: "fm_size m \<noteq> 0" by (auto simp: no_ghost_def)
    have "fm_push ord key val m = Some (Some p, m)"
      by (simp add: fm_push_def append p(1) cap_p fetch_p True [symmetric])
    moreover have "?xs = take ?cap (insert_entry ord (key, val) ?xs)"
    proof -
      have "insert_entry ord (key, val) ?xs = ?xs"
        using p_lt [OF nz] True unfolding ins by (intro if_P conjI)
      with n_cap wf(6) show ?thesis by simp
    qed
    moreover have "unat p < length ?xs" using p_lt [OF nz] wf(6) by simp
    ultimately show thesis
      using that [of p m] assms(1) True [symmetric] by blast
  next
    case False
    let ?new = "if fm_capacity m = fm_size m then fm_size m else fm_size m + 1"
    define i where "i = unat (?new - 1)"
    have new: "unat ?new = min (?n + 1) ?cap"
    proof (cases "fm_capacity m = fm_size m")
      case neq: False
      then have "?n < ?cap" using n_cap by (simp add: word_unat_eq_iff)
      with wf(7) neq show ?thesis by (simp add: unat_word_ariths)
    qed simp
    have "0 < unat ?new" using new wf(4,5) by simp
    then have "?new \<noteq> 0" by (auto simp: unat_eq_zero)
    then have i: "i = unat ?new - 1" unfolding i_def by (rule unat_minus_one)
    with new \<open>0 < unat ?new\<close> have Suc_i: "Suc i = min (?n + 1) ?cap" by simp
    have i_n: "i \<le> ?n" using Suc_i by linarith
    have p_i: "unat p \<le> i" using Suc_i p_cap p(2) by simp
    have i_lt: "i < length ?d" using Suc_i wf(5) by simp
    obtain d' where d': "shift_right (unat p) i ?d = Some d'" "length d' = length ?d"
      "take (Suc i) (d'[unat p := (key, val)]) =
         take (unat p) ?d @ (key, val) # take (i - unat p) (drop (unat p) ?d)"
      using shift_and_store [OF p_i i_lt] by blast
    let ?m = "m\<lparr>fm_size := ?new, fm_data := d'[unat p := (key, val)]\<rparr>"
    have push: "fm_push ord key val m = Some (Some p, ?m)"
      using p_cap wf(5) d'(2)
      by (simp add: fm_push_def append p(1) cap_p fetch_p False d'(1) [unfolded i_def] Let_def
          del: if_split cong: if_weak_cong)
    have list': "fm_list ?m = take ?cap (insert_entry ord (key, val) ?xs)"
    proof -
      have "fm_list ?m = take (unat p) ?d @ (key, val) # take (i - unat p) (drop (unat p) ?d)"
        using d'(3) Suc_i new by (simp add: fm_list_def)
      also have "take (unat p) ?d = take (unat p) ?xs"
        using p(2) by (simp add: fm_list_def min_def)
      also have "take (i - unat p) (drop (unat p) ?d) = take (i - unat p) (drop (unat p) ?xs)"
        using i_n by (simp add: fm_list_def drop_take min_def)
      also have "take (unat p) ?xs @ (key, val) # take (i - unat p) (drop (unat p) ?xs)
          = take (Suc i) (take (unat p) ?xs @ (key, val) # drop (unat p) ?xs)"
        using p(2) p_i wf(6) by (simp add: take_Cons' min_def)
      also have "\<dots> = take ?cap (take (unat p) ?xs @ (key, val) # drop (unat p) ?xs)"
        using Suc_i wf(6) p(2) by (cases "?n + 1 \<le> ?cap") simp_all
      finally show ?thesis using ins False by auto
    qed
    have "fm_wf ord ?m"
      using assms(1) d'(2) new list' sorted_keys_take [OF sorted_insert_entry [OF sorted, of "(key, val)"]]
      by (simp add: fm_wf_def word_le_nat_alt)
    moreover have "unat p < length (fm_list ?m)"
      using new p(2) p_cap d'(2) wf(5) by (simp add: fm_list_def)
    moreover have "fm_data ?m ! unat p = (key, val)" using d'(2) p_i i_lt by simp
    moreover have "map_of ?xs key = None"
      using entry_present_iff [OF sorted, of "unat p" key] p(3,4) nth wf(6) False by simp
    ultimately show thesis using that [of p ?m] push list' by simp
  qed
qed

text \<open>\<open>erase\<close> on a well-formed table.\<close>

lemma filter_at:
  assumes "sorted_keys ord xs" "p < length xs" "fst (xs ! p) = k"
  shows "filter (\<lambda>e. fst e \<noteq> k) xs = take p xs @ drop (Suc p) xs"
proof -
  have xs: "xs = take p xs @ xs ! p # drop (Suc p) xs" using assms(2) by (rule id_take_nth_drop)
  have "distinct (map fst (take p xs @ xs ! p # drop (Suc p) xs))"
    using sorted_keys_distinct [OF assms(1)] xs by simp
  then have "k \<notin> fst ` set (take p xs)" "k \<notin> fst ` set (drop (Suc p) xs)"
    using assms(3) by auto
  then have "filter (\<lambda>e. fst e \<noteq> k) (take p xs) = take p xs"
    "filter (\<lambda>e. fst e \<noteq> k) (drop (Suc p) xs) = drop (Suc p) xs"
    by (auto simp: filter_id_conv)
  then show ?thesis by (subst xs) (simp add: assms(3))
qed

lemma sorted_keys_ends:
  assumes "sorted_keys ord xs" "x \<in> set xs"
  shows "compare_keys ord (fst (hd xs)) (fst x)" "compare_keys ord (fst x) (fst (last xs))"
  using assms by (induction xs) (auto simp: compare_before)

lemma absent_filter: "map_of xs k = None \<Longrightarrow> filter (\<lambda>e. fst e \<noteq> k) xs = xs"
  by (force simp: map_of_eq_None_iff filter_id_conv)

lemma fm_erase_absent:
  assumes "fm_wf ord m" "no_ghost key m" "map_of (fm_list m) key = None"
  shows "fm_erase ord key m = Some (False, m)"
proof (cases "outside_nodes ord key m = Some True")
  case True
  then show ?thesis by (simp add: fm_erase_def)
next
  case False
  then have inside: "outside_nodes ord key m = Some False" using outside_nodes_eq [OF assms(1)] by auto
  obtain p where p: "findInsertIndex ord key m = Some p" "unat p \<le> unat (fm_size m)"
    "\<forall>x \<in> set (take (unat p) (fm_list m)). before ord (fst x) key"
    "unat p < unat (fm_size m) \<Longrightarrow> compare_keys ord key (fst (fm_data m ! unat p))"
    using findInsertIndex_split [OF assms(1), of key] by blast
  note wf = fm_wfD [OF assms(1)]
  have "unat p < length (fm_data m) \<and> key \<noteq> fst (fm_data m ! unat p)"
  proof (cases "fm_size m = 0")
    case True
    with p(2) assms(2) wf(4) show ?thesis by (auto simp: no_ghost_def)
  next
    case nz: False
    have "unat p < unat (fm_size m)"
    proof (rule ccontr)
      assume "\<not> unat p < unat (fm_size m)"
      with p(2,3) wf(6) have "before ord (fst (last (fm_list m))) key"
        using fm_last(3) [OF assms(1) nz] by simp
      with inside nz outside_nodes_eq [OF assms(1), of key] show False by simp
    qed
    moreover from this have "key \<noteq> fst (fm_list m ! unat p)"
      using assms(3) wf(6) by (metis map_of_eq_None_iff image_eqI nth_mem)
    ultimately show ?thesis using wf(1) by (simp add: fm_list_def)
  qed
  then show ?thesis by (simp add: fm_erase_def inside p(1))
qed

lemma take_removed:
  assumes "p < n" "n \<le> length d"
  shows "take (n - 1) (take p d @ take (n - (p + 1)) (drop (p + 1) d) @ drop (n - 1) d) =
    take p (take n d) @ drop (Suc p) (take n d)"
proof -
  have "take (n - 1) ((take p d @ take (n - (p + 1)) (drop (p + 1) d)) @ drop (n - 1) d)
      = take p d @ take (n - (p + 1)) (drop (p + 1) d)"
    by (subst take_append) (use assms in simp)
  then show ?thesis using assms by (simp add: drop_take min_def)
qed

lemma fm_erase_present:
  assumes "fm_wf ord m" "map_of (fm_list m) key \<noteq> None"
  obtains m' where "fm_erase ord key m = Some (True, m')" "fm_wf ord m'"
    "fm_list m' = filter (\<lambda>e. fst e \<noteq> key) (fm_list m)" "fm_capacity m' = fm_capacity m"
    "fm_size m = 1 \<Longrightarrow> fm_data m' = fm_data m"
proof -
  let ?n = "unat (fm_size m)" and ?xs = "fm_list m" and ?d = "fm_data m"
  note wf = fm_wfD [OF assms(1)]
  have sorted: "sorted_keys ord ?xs" using assms(1) by (simp add: fm_wf_def)
  obtain p where p: "findInsertIndex ord key m = Some p" "unat p \<le> ?n"
    "\<forall>x \<in> set (take (unat p) ?xs). before ord (fst x) key"
    "unat p < ?n \<Longrightarrow> compare_keys ord key (fst (?d ! unat p))"
    using findInsertIndex_split [OF assms(1), of key] by blast
  have nth: "?xs ! unat p = ?d ! unat p" if "unat p < ?n" using that by (simp add: fm_list_def)
  have at: "unat p < ?n" "key = fst (?xs ! unat p)"
    using entry_present_iff [OF sorted p(3)] p(4) nth wf(6) assms(2) by auto
  have nz: "fm_size m \<noteq> 0" using at(1) by auto
  have mem: "?xs ! unat p \<in> set ?xs" using at(1) wf(6) by simp
  have inside: "outside_nodes ord key m = Some False"
    using sorted_keys_ends [OF sorted mem] at(2) not_compare [of ord]
    by (auto simp: outside_nodes_eq [OF assms(1)])
  have ne: "?n \<le> length ?d" by (rule wf(1))
  have suc: "unat (p + 1) = unat p + 1" using at(1) wf(2) by (simp add: unat_word_ariths)
  let ?e = "take (unat p) ?d @ take (?n - (unat p + 1)) (drop (unat p + 1) ?d) @ drop (?n - 1) ?d"
  let ?m = "m\<lparr>fm_data := ?e, fm_size := fm_size m - 1\<rparr>"
  have "shift_left (unat (p + 1)) ?n ?d = Some ?e"
    using shift_left_eq [of "unat p + 1" ?n ?d] at(1) ne suc by simp
  moreover have "fetch ?d p = Some (?d ! unat p)" using at(1) ne by simp
  moreover have "fst (?d ! unat p) = key" using at nth by simp
  ultimately have er: "fm_erase ord key m = Some (True, ?m)"
    by (simp add: fm_erase_def inside p(1))
  have size': "unat (fm_size m - 1) = ?n - 1" by (rule fm_last(1) [OF assms(1) nz])
  have "fm_list ?m = take (unat p) ?xs @ drop (Suc (unat p)) ?xs"
    using take_removed [OF at(1) ne] size' by (simp add: fm_list_def)
  also have "\<dots> = filter (\<lambda>e. fst e \<noteq> key) ?xs"
    using filter_at [OF sorted _ at(2) [symmetric]] at(1) wf(6) by simp
  finally have list': "fm_list ?m = filter (\<lambda>e. fst e \<noteq> key) ?xs" .
  have "length ?e = length ?d" using at(1) ne by simp
  moreover have "sorted_keys ord (filter (\<lambda>e. fst e \<noteq> key) ?xs)"
    using sorted by (simp add: sorted_keys_def sorted_wrt_filter)
  ultimately have "fm_wf ord ?m"
    using assms(1) list' size' by (auto simp: fm_wf_def word_le_nat_alt)
  moreover have "fm_data ?m = ?d" if "fm_size m = 1"
    using that at(1) by simp
  ultimately show thesis using that [OF er] list' by simp
qed

section \<open>MarketDepthBook\<close>

record ('k, 'v) depth_book =
  db_asks :: "('k, 'v) flat_map"
  db_bids :: "('k, 'v) flat_map"

definition MaxDepth :: u32 where
  "MaxDepth = 1000"

definition new_depth_book :: "('k :: zero, 'v :: zero) depth_book" where
  "new_depth_book = \<lparr>db_asks = new_flat_map MaxDepth, db_bids = new_flat_map MaxDepth\<rparr>"

text \<open>\<open>result->value = quantity\<close> writes through the pointer \<open>push\<close> returned.\<close>

definition write_value :: "u32 \<Rightarrow> 'v \<Rightarrow> ('k, 'v) flat_map \<Rightarrow> ('k, 'v) flat_map option" where
  "write_value i val m =
     do { node \<leftarrow> fetch (fm_data m) i;
          d \<leftarrow> store i (fst node, val) (fm_data m);
          Some (m\<lparr>fm_data := d\<rparr>) }"

definition handlePriceUpdate ::
  "sort_order \<Rightarrow> 'k :: linorder \<Rightarrow> 'v :: zero \<Rightarrow> ('k, 'v) flat_map \<Rightarrow> ('k, 'v) flat_map option" where
  "handlePriceUpdate ord price quantity m =
     (if 0 = quantity then map_option snd (fm_erase ord price m)
      else do {
        (result, m') \<leftarrow> fm_push ord price quantity m;
        (case result of None \<Rightarrow> Some m' | Some i \<Rightarrow> write_value i quantity m') })"

definition getBestPrice :: "('k, 'v) flat_map \<Rightarrow> ('k \<times> 'v) option option" where
  "getBestPrice m =
     (if fm_empty m then Some None else do { node \<leftarrow> fm_front m; Some (Some node) })"

definition buyUpdate :: "'k :: linorder \<Rightarrow> 'v :: zero \<Rightarrow> ('k, 'v) depth_book \<Rightarrow> ('k, 'v) depth_book option" where
  "buyUpdate price quantity b =
     map_option (\<lambda>m. b\<lparr>db_bids := m\<rparr>) (handlePriceUpdate Descending price quantity (db_bids b))"

definition askUpdate :: "'k :: linorder \<Rightarrow> 'v :: zero \<Rightarrow> ('k, 'v) depth_book \<Rightarrow> ('k, 'v) depth_book option" where
  "askUpdate price quantity b =
     map_option (\<lambda>m. b\<lparr>db_asks := m\<rparr>) (handlePriceUpdate Ascending price quantity (db_asks b))"

definition getBestBid :: "('k, 'v) depth_book \<Rightarrow> ('k \<times> 'v) option option" where
  "getBestBid b = getBestPrice (db_bids b)"

definition getBestAsk :: "('k, 'v) depth_book \<Rightarrow> ('k \<times> 'v) option option" where
  "getBestAsk b = getBestPrice (db_asks b)"

text \<open>
  The two derived prices, over the arithmetic of the price type: \<open>midpoint\<close> is
  \<open>std::midpoint\<close>, \<open>dist a b\<close> is \<open>std::abs(a - b)\<close>.
\<close>

definition getMarketPrice :: "('k \<Rightarrow> 'k \<Rightarrow> 'k) \<Rightarrow> ('k, 'v) depth_book \<Rightarrow> 'k option option" where
  "getMarketPrice midpoint b =
     (if fm_empty (db_asks b) \<or> fm_empty (db_bids b) then Some None
      else do { a \<leftarrow> fm_front (db_asks b); d \<leftarrow> fm_front (db_bids b);
                Some (Some (midpoint (fst a) (fst d))) })"

definition getSpread :: "('k \<Rightarrow> 'k \<Rightarrow> 'k :: zero) \<Rightarrow> ('k, 'v) depth_book \<Rightarrow> 'k option" where
  "getSpread dist b =
     (if fm_empty (db_asks b) \<or> fm_empty (db_bids b) then Some 0
      else do { a \<leftarrow> fm_front (db_asks b); d \<leftarrow> fm_front (db_bids b);
                Some (dist (fst a) (fst d)) })"

section \<open>What an update means\<close>

text \<open>The level list an update should lead to: the key's level set, or removed for quantity zero.\<close>

fun set_level :: "sort_order \<Rightarrow> 'k :: linorder \<Rightarrow> 'v \<Rightarrow> ('k \<times> 'v) list \<Rightarrow> ('k \<times> 'v) list" where
  "set_level ord k q [] = [(k, q)]"
| "set_level ord k q (x # xs) =
     (if k = fst x then (k, q) # xs
      else if compare_keys ord k (fst x) then (k, q) # x # xs
      else x # set_level ord k q xs)"

definition updated_levels ::
  "nat \<Rightarrow> sort_order \<Rightarrow> 'k :: linorder \<Rightarrow> 'v :: zero \<Rightarrow> ('k \<times> 'v) list \<Rightarrow> ('k \<times> 'v) list" where
  "updated_levels depth ord k q xs =
     (if q = 0 then filter (\<lambda>e. fst e \<noteq> k) xs else take depth (set_level ord k q xs))"

lemma set_level_conv:
  assumes "sorted_keys ord xs"
  shows "set_level ord k q xs = map (\<lambda>e. if fst e = k then (k, q) else e) (insert_entry ord (k, q) xs)"
  using assms
proof (induction xs)
  case (Cons x xs)
  have rest: "map (\<lambda>e. if fst e = k then (k, q) else e) xs = xs" if "k = fst x \<or> before ord k (fst x)"
  proof (rule map_idI)
    fix e assume "e \<in> set xs"
    with Cons.prems that have "before ord k (fst e)" by (auto intro: before_trans)
    then show "(if fst e = k then (k, q) else e) = e" by auto
  qed
  have "k \<noteq> fst x" if "before ord k (fst x)" using that by auto
  with Cons rest show ?case by (auto simp: compare_before)
qed simp

lemma set_level_beyond:
  assumes "\<forall>x \<in> set xs. before ord (fst x) k"
  shows "set_level ord k q xs = xs @ [(k, q)]"
  using assms
proof (induction xs)
  case (Cons x xs)
  then have "before ord (fst x) k" by simp
  then have "\<not> compare_keys ord k (fst x)" "k \<noteq> fst x"
    using not_compare [of ord k "fst x"] by auto
  with Cons show ?case by simp
qed simp

lemma map_of_set_level:
  "sorted_keys ord xs \<Longrightarrow> map_of (set_level ord k q xs) = (map_of xs)(k \<mapsto> q)"
proof (induction xs)
  case (Cons x xs)
  then show ?case by (cases x) (auto simp: fun_eq_iff)
qed (simp add: fun_eq_iff)

lemma length_set_level: "length (set_level ord k q xs) \<le> length xs + 1"
  by (induction xs) auto

lemma map_of_filter_key:
  "map_of (filter (\<lambda>e. fst e \<noteq> k) xs) = (map_of xs)(k := None)"
  by (induction xs) (auto simp: fun_eq_iff)

lemma update_at_key:
  assumes "sorted_keys ord xs" "p < length xs" "fst (xs ! p) = k"
  shows "xs[p := (k, q)] = map (\<lambda>e. if fst e = k then (k, q) else e) xs"
proof (rule nth_equalityI)
  fix i assume "i < length (xs[p := (k, q)])"
  then have i: "i < length xs" by simp
  have "fst (xs ! i) = k \<longleftrightarrow> i = p"
    using sorted_keys_distinct [OF assms(1)] i assms(2,3)
    by (metis distinct_conv_nth length_map nth_map)
  with i show "xs[p := (k, q)] ! i = map (\<lambda>e. if fst e = k then (k, q) else e) xs ! i"
    by (auto simp: nth_list_update)
qed simp

lemma sorted_all_before_last:
  assumes "sorted_keys ord xs" "xs \<noteq> []" "before ord (fst (last xs)) k"
  shows "\<forall>x \<in> set xs. before ord (fst x) k"
proof
  fix x assume "x \<in> set xs"
  from sorted_keys_ends(2) [OF assms(1) this] assms(3) show "before ord (fst x) k"
    by (auto simp: compare_before intro: before_trans)
qed

lemma write_value_levels:
  assumes "fm_wf ord m" "unat p < length (fm_list m)" "fst (fm_data m ! unat p) = k"
  obtains m' where "write_value p q m = Some m'" "fm_wf ord m'" "fm_capacity m' = fm_capacity m"
    "fm_list m' = map (\<lambda>e. if fst e = k then (k, q) else e) (fm_list m)"
proof -
  note wf = fm_wfD [OF assms(1)]
  let ?m = "m\<lparr>fm_data := (fm_data m)[unat p := (k, q)]\<rparr>"
  have sorted: "sorted_keys ord (fm_list m)" using assms(1) by (simp add: fm_wf_def)
  have p: "unat p < length (fm_data m)" using assms(2) wf(1,6) by simp
  then have wr: "write_value p q m = Some ?m" using assms(3) by (simp add: write_value_def)
  have "fm_list ?m = (fm_list m)[unat p := (k, q)]"
    by (simp add: fm_list_def take_update_swap)
  also have "\<dots> = map (\<lambda>e. if fst e = k then (k, q) else e) (fm_list m)"
    using assms(2,3) wf(6) by (intro update_at_key [OF sorted]) (simp_all add: fm_list_def)
  finally have l: "fm_list ?m = map (\<lambda>e. if fst e = k then (k, q) else e) (fm_list m)" .
  have "sorted_keys ord (map (\<lambda>e. if fst e = k then (k, q) else e) (fm_list m))"
    using sorted by (auto simp: sorted_keys_def sorted_wrt_map elim!: sorted_wrt_mono_rel [rotated])
  with assms(1) l have "fm_wf ord ?m" by (simp add: fm_wf_def)
  with wr l show thesis using that by simp
qed

text \<open>The update of a side, on the levels.\<close>

lemma handlePriceUpdate_levels:
  assumes "fm_wf ord m" "no_ghost price m"
  obtains m' where "handlePriceUpdate ord price q m = Some m'" "fm_wf ord m'"
    "fm_capacity m' = fm_capacity m"
    "fm_list m' = updated_levels (unat (fm_capacity m)) ord price q (fm_list m)"
proof -
  note wf = fm_wfD [OF assms(1)]
  let ?cap = "unat (fm_capacity m)"
  have sorted: "sorted_keys ord (fm_list m)" using assms(1) by (simp add: fm_wf_def)
  consider (zero_absent) "q = 0" "map_of (fm_list m) price = None"
    | (zero_present) "q = 0" "map_of (fm_list m) price \<noteq> None"
    | (full) "q \<noteq> 0" "fm_size m \<noteq> 0" "before ord (fst (last (fm_list m))) price" "fm_size m = fm_capacity m"
    | (beyond) "q \<noteq> 0" "fm_size m \<noteq> 0" "before ord (fst (last (fm_list m))) price" "fm_size m \<noteq> fm_capacity m"
    | (inside) "q \<noteq> 0" "fm_size m \<noteq> 0 \<longrightarrow> compare_keys ord price (fst (last (fm_list m)))"
    using not_compare by blast
  then show thesis
  proof cases
    case zero_absent
    then show thesis
      using that [of m] assms fm_erase_absent [OF assms]
      by (simp add: handlePriceUpdate_def updated_levels_def absent_filter)
  next
    case zero_present
    obtain m' where "fm_erase ord price m = Some (True, m')" "fm_wf ord m'"
      "fm_list m' = filter (\<lambda>e. fst e \<noteq> price) (fm_list m)" "fm_capacity m' = fm_capacity m"
      using fm_erase_present [OF assms(1) zero_present(2)] by blast
    with zero_present(1) show thesis
      using that [of m'] by (simp add: handlePriceUpdate_def updated_levels_def)
  next
    case full
    have "set_level ord price q (fm_list m) = fm_list m @ [(price, q)]"
      using sorted_all_before_last [OF sorted fm_last(3) [OF assms(1) full(2)] full(3)]
      by (rule set_level_beyond)
    with full fm_push_beyond_full [OF assms(1) full(2-4), of q] wf(6) show thesis
      using that [of m] assms(1) by (simp add: handlePriceUpdate_def updated_levels_def)
  next
    case beyond
    obtain m' where m': "fm_push ord price q m = Some (Some (fm_size m), m')" "fm_wf ord m'"
      "fm_list m' = fm_list m @ [(price, q)]" "fm_capacity m' = fm_capacity m"
      using fm_push_beyond [OF assms(1) beyond(2-4)] by blast
    have lv: "set_level ord price q (fm_list m) = fm_list m @ [(price, q)]"
      using sorted_all_before_last [OF sorted fm_last(3) [OF assms(1) beyond(2)] beyond(3)]
      by (rule set_level_beyond)
    have len: "length (fm_list m') \<le> ?cap"
      using fm_wfD(1,5,6) [OF m'(2)] m'(4) by simp
    have p: "unat (fm_size m) < length (fm_list m')" using m'(3) wf(6) by simp
    have "fm_data m' ! unat (fm_size m) = fm_list m' ! unat (fm_size m)"
      using p fm_wfD(6) [OF m'(2)] by (simp add: fm_list_def)
    also have "\<dots> = (price, q)" using m'(3) wf(6) by (simp add: nth_append)
    finally have "fst (fm_data m' ! unat (fm_size m)) = price" by simp
    from write_value_levels [OF m'(2) p this, of q] obtain m'' where m'':
      "write_value (fm_size m) q m' = Some m''" "fm_wf ord m''" "fm_capacity m'' = fm_capacity m'"
      "fm_list m'' = map (\<lambda>e. if fst e = price then (price, q) else e) (fm_list m')" by blast
    have "(if fst e = price then (price, q) else e) = e" if "e \<in> set (fm_list m')" for e
      using that m'(3) before_irrefl [of ord price]
        sorted_all_before_last [OF sorted fm_last(3) [OF assms(1) beyond(2)] beyond(3)]
      by auto
    then have "fm_list m'' = fm_list m'" unfolding m''(4) by (rule map_idI)
    with m'' m' lv len beyond(1) show thesis
      using that [of m''] by (simp add: handlePriceUpdate_def updated_levels_def)
  next
    case inside
    obtain p m' where m': "fm_push ord price q m = Some (Some p, m')" "fm_wf ord m'"
      "fm_list m' = take ?cap (insert_entry ord (price, q) (fm_list m))" "fm_capacity m' = fm_capacity m"
      "unat p < length (fm_list m')" "fst (fm_data m' ! unat p) = price"
      using fm_push_within [OF assms inside(2), of q] by blast
    from write_value_levels [OF m'(2,5,6), of q] obtain m'' where m'':
      "write_value p q m' = Some m''" "fm_wf ord m''" "fm_capacity m'' = fm_capacity m'"
      "fm_list m'' = map (\<lambda>e. if fst e = price then (price, q) else e) (fm_list m')" by blast
    have "fm_list m'' = take ?cap (set_level ord price q (fm_list m))"
      by (simp add: m''(4) m'(3) set_level_conv [OF sorted] take_map)
    with m'' m' inside(1) show thesis
      using that [of m''] by (simp add: handlePriceUpdate_def updated_levels_def)
  qed
qed

section \<open>The interface of a bounded level table\<close>

text \<open>
  What a depth book needs of a side: an update that is \<open>safe\<close> sets or removes one level and keeps
  the best \<open>depth\<close> levels in order.
\<close>

locale level_table =
  fixes upd :: "'k :: linorder \<Rightarrow> 'v :: zero \<Rightarrow> 'm \<Rightarrow> 'm option"
    and levels :: "'m \<Rightarrow> ('k \<times> 'v) list"
    and depth :: "'m \<Rightarrow> nat"
    and invar :: "'m \<Rightarrow> bool"
    and safe :: "'k \<Rightarrow> 'm \<Rightarrow> bool"
    and ord :: sort_order
  assumes upd_law: "invar m \<Longrightarrow> safe k m \<Longrightarrow>
      \<exists>m'. upd k q m = Some m' \<and> invar m' \<and> depth m' = depth m
        \<and> levels m' = updated_levels (depth m) ord k q (levels m)"
    and levels_sorted: "invar m \<Longrightarrow> sorted_keys ord (levels m) \<and> length (levels m) \<le> depth m"
begin

text \<open>Below its depth the table is a map.\<close>

lemma upd_map:
  assumes "invar m" "safe k m" "length (levels m) < depth m"
  obtains m' where "upd k q m = Some m'" "invar m'" "depth m' = depth m"
    "map_of (levels m') = (map_of (levels m))(k := if q = 0 then None else Some q)"
proof -
  obtain m' where m': "upd k q m = Some m'" "invar m'" "depth m' = depth m"
    "levels m' = updated_levels (depth m) ord k q (levels m)"
    using upd_law [OF assms(1,2)] by blast
  have sorted: "sorted_keys ord (levels m)" using levels_sorted [OF assms(1)] by simp
  have "length (set_level ord k q (levels m)) \<le> depth m"
    using length_set_level [of ord k q "levels m"] assms(3) by simp
  then show thesis
    using that [OF m'(1-3)] m'(4) map_of_set_level [OF sorted]
    by (auto simp: updated_levels_def map_of_filter_key)
qed

lemma best_first:
  assumes "invar m" "levels m \<noteq> []" "(k, q) \<in> set (levels m)"
  shows "compare_keys ord (fst (hd (levels m))) k"
  using sorted_keys_ends(1) [of ord "levels m" "(k, q)"] levels_sorted [OF assms(1)] assms(3) by simp

end

interpretation side_table: level_table "handlePriceUpdate ord" fm_list "\<lambda>m. unat (fm_capacity m)"
    "fm_wf ord" no_ghost ord for ord
proof
  fix m :: "('k :: linorder, 'v :: zero) flat_map" and k q
  assume "fm_wf ord m" "no_ghost k m"
  then show "\<exists>m'. handlePriceUpdate ord k q m = Some m' \<and> fm_wf ord m'
      \<and> unat (fm_capacity m') = unat (fm_capacity m)
      \<and> fm_list m' = updated_levels (unat (fm_capacity m)) ord k q (fm_list m)"
    using handlePriceUpdate_levels by metis
next
  fix m :: "('k :: linorder, 'v :: zero) flat_map"
  assume "fm_wf ord m"
  then show "sorted_keys ord (fm_list m) \<and> length (fm_list m) \<le> unat (fm_capacity m)"
    using fm_wfD(1,5,6) [of ord m] by (simp add: fm_wf_def)
qed

lemma front_first:
  assumes "fm_wf ord m" "\<not> fm_empty m"
  shows "fm_front m = Some (hd (fm_list m))" "fm_list m \<noteq> []"
  using assms fm_wfD(4,6) [OF assms(1)]
  by (auto simp: fm_front_def fm_empty_def fm_list_def hd_conv_nth unat_gt_0 fetch_def)

lemma getBestPrice_first:
  fixes m :: "('k :: linorder, 'v :: zero) flat_map"
  assumes "fm_wf ord m"
  shows "\<exists>r. getBestPrice m = Some r \<and> (r = None \<longleftrightarrow> fm_list m = [])
    \<and> (\<forall>p q. r = Some (p, q) \<longrightarrow> (p, q) \<in> set (fm_list m)
          \<and> (\<forall>(p', q') \<in> set (fm_list m). compare_keys ord p p'))"
proof (cases "fm_empty m")
  case True
  then show ?thesis by (simp add: getBestPrice_def fm_empty_def fm_list_def)
next
  case False
  note front = front_first [OF assms False]
  obtain p q where pq: "hd (fm_list m) = (p, q)" by (cases "hd (fm_list m)")
  have "(p, q) \<in> set (fm_list m)" using front(2) pq hd_in_set by metis
  moreover have "compare_keys ord p p'" if "(p', q') \<in> set (fm_list m)" for p' q'
    using side_table.best_first [OF assms front(2) that] pq by simp
  ultimately show ?thesis
    using front False pq by (intro exI [of _ "Some (p, q)"]) (auto simp: getBestPrice_def)
qed

section \<open>Properties\<close>

text \<open>
  C7. On a well-formed side whose array does not show the price behind an empty table, a price
  update runs without undefined behaviour, keeps the side well-formed, and leads to exactly the
  intended levels: quantity zero removes the level, any other quantity sets it, keeping at most
  \<open>capacity\<close> best levels; while the side is not full this is a map update.
\<close>

theorem price_update_sets_level:
  assumes "fm_wf ord m" "no_ghost price m"
  shows "\<exists>m'. handlePriceUpdate ord price q m = Some m' \<and> fm_wf ord m'
    \<and> fm_list m' = updated_levels (unat (fm_capacity m)) ord price q (fm_list m)
    \<and> (length (fm_list m) < unat (fm_capacity m) \<longrightarrow>
         map_of (fm_list m') = (map_of (fm_list m))(price := if q = 0 then None else Some q))"
proof -
  obtain m' where m': "handlePriceUpdate ord price q m = Some m'" "fm_wf ord m'"
    "fm_list m' = updated_levels (unat (fm_capacity m)) ord price q (fm_list m)"
    using handlePriceUpdate_levels [OF assms] by metis
  moreover have "map_of (fm_list m') = (map_of (fm_list m))(price := if q = 0 then None else Some q)"
    if "length (fm_list m) < unat (fm_capacity m)"
    using side_table.upd_map [OF assms that, of q] m'(1) by (metis option.inject)
  ultimately show ?thesis by blast
qed

definition example_table :: "(int, int) flat_map" where
  "example_table = \<lparr>fm_size = 2, fm_capacity = 3, fm_data = [(5, 50), (7, 70), (0, 0)]\<rparr>"

lemma fm_wf_example: "fm_wf Ascending example_table" "no_ghost k example_table"
  by (simp_all add: fm_wf_def example_table_def fm_list_def before_def no_ghost_def)

lemma fm_list_example: "fm_list example_table = [(5, 50), (7, 70)]"
  by (simp add: example_table_def fm_list_def)

theorem price_update_sets_level_witness:
  "\<exists>m'. handlePriceUpdate Ascending 6 60 example_table = Some m' \<and> fm_list m' = [(5, 50), (6, 60), (7, 70)]"
  using price_update_sets_level [OF fm_wf_example, of 6 60]
  by (auto simp: example_table_def fm_list_def updated_levels_def compare_keys_def)

text \<open>
  The best price of a side is its first node: none exactly when the side has no level, and
  otherwise no level of the bid (ask) side has a higher (lower) price.
\<close>

theorem best_price_is_extreme:
  fixes b :: "('k :: linorder, 'v :: zero) depth_book"
  assumes "fm_wf Descending (db_bids b)" "fm_wf Ascending (db_asks b)"
  shows "(\<exists>r. getBestBid b = Some r \<and> (r = None \<longleftrightarrow> fm_list (db_bids b) = [])
        \<and> (\<forall>p q. r = Some (p, q) \<longrightarrow> (p, q) \<in> set (fm_list (db_bids b))
              \<and> (\<forall>(p', q') \<in> set (fm_list (db_bids b)). p' \<le> p)))
    \<and> (\<exists>r. getBestAsk b = Some r \<and> (r = None \<longleftrightarrow> fm_list (db_asks b) = [])
        \<and> (\<forall>p q. r = Some (p, q) \<longrightarrow> (p, q) \<in> set (fm_list (db_asks b))
              \<and> (\<forall>(p', q') \<in> set (fm_list (db_asks b)). p \<le> p')))"
  using getBestPrice_first [OF assms(1)] getBestPrice_first [OF assms(2)]
  by (simp add: getBestBid_def getBestAsk_def compare_keys_def)

theorem best_price_is_extreme_witness:
  "\<exists>r. getBestAsk \<lparr>db_asks = example_table, db_bids = new_flat_map 3\<rparr> = Some r \<and> r \<noteq> None"
  using best_price_is_extreme [of "\<lparr>db_asks = example_table, db_bids = new_flat_map 3\<rparr>"]
    fm_wf_example(1) fm_wf_new [of 3 Descending]
  by (force simp: fm_list_example)

text \<open>
  C18. A side that has just lost its only level mishandles that price: setting it again leaves the
  side empty (the level is lost), and removing it again, as a repeated delete message does,
  wraps the 32-bit size to its maximum, after which the side is not empty any more.
\<close>

theorem emptied_side_is_corrupted:
  assumes "fm_wf ord m" "fm_list m = [(price, q0)]" "q \<noteq> 0"
  shows "\<exists>m1. handlePriceUpdate ord price 0 m = Some m1 \<and> fm_list m1 = []
    \<and> (\<exists>m2. handlePriceUpdate ord price q m1 = Some m2 \<and> fm_list m2 = [])
    \<and> (\<exists>m3. handlePriceUpdate ord price 0 m1 = Some m3 \<and> unat (fm_size m3) = 2 ^ 32 - 1
          \<and> getBestPrice m3 \<noteq> Some None)"
proof -
  note wf = fm_wfD [OF assms(1)]
  have "unat (fm_size m) = 1" using wf(6) assms(2) by simp
  then have one: "fm_size m = 1" by (simp add: word_unat_eq_iff)
  obtain m1 where m1: "fm_erase ord price m = Some (True, m1)" "fm_wf ord m1"
    "fm_list m1 = filter (\<lambda>e. fst e \<noteq> price) (fm_list m)" "fm_capacity m1 = fm_capacity m"
    "fm_data m1 = fm_data m"
    using fm_erase_present [OF assms(1), of price] assms(2) one by auto
  have "unat (fm_size m1) = 0" using m1(3) assms(2) fm_wfD(6) [OF m1(2)] by simp
  then have zero: "fm_size m1 = 0" by (simp add: unat_eq_zero)
  have hd: "fm_data m1 ! 0 = (price, q0)"
    using assms(2) one wf(4) m1(5) by (cases "fm_data m") (simp_all add: fm_list_def)
  have len: "0 < length (fm_data m1)" using m1(5) wf(4) by simp
  have cap: "fm_capacity m1 \<noteq> 0" using assms(1) m1(4) by (auto simp: fm_wf_def)
  have idx: "findInsertIndex ord price m1 = Some 0"
    by (simp add: findInsertIndex_def zero search_loop.simps)
  have "fm_push ord price q m1 = Some (Some 0, m1)"
    using idx len hd cap by (simp add: fm_push_def beyond_last_def zero)
  then have lost: "\<exists>m2. handlePriceUpdate ord price q m1 = Some m2 \<and> fm_list m2 = []"
    using assms(3) len zero
    by (simp add: handlePriceUpdate_def write_value_def fm_list_def)
  have "fm_erase ord price m1 = Some (True, m1\<lparr>fm_size := - 1\<rparr>)"
    using idx len hd by (simp add: fm_erase_def outside_nodes_def zero shift_left.simps)
  moreover have "unat (- 1 :: u32) = 2 ^ 32 - 1" by (simp add: unsigned_minus_1_eq_mask mask_eq_exp_minus_1)
  ultimately have "\<exists>m3. handlePriceUpdate ord price 0 m1 = Some m3 \<and> unat (fm_size m3) = 2 ^ 32 - 1
      \<and> getBestPrice m3 \<noteq> Some None"
    using len by (simp add: handlePriceUpdate_def getBestPrice_def fm_empty_def fm_front_def)
  with lost m1(1,3) assms(2) show ?thesis by (auto simp: handlePriceUpdate_def)
qed

theorem emptied_side_is_corrupted_witness:
  "\<exists>m1. handlePriceUpdate Ascending 5 0 \<lparr>fm_size = 1, fm_capacity = 2, fm_data = [(5 :: int, 8 :: int), (0, 0)]\<rparr> = Some m1
     \<and> (\<exists>m2. handlePriceUpdate Ascending 5 9 m1 = Some m2 \<and> fm_list m2 = [])"
  using emptied_side_is_corrupted [of Ascending "\<lparr>fm_size = 1, fm_capacity = 2, fm_data = [(5 :: int, 8 :: int), (0, 0)]\<rparr>" 5 8 9]
  by (auto simp: fm_wf_def fm_list_def)

end
