(* ===== verification/Static_Collections.thy ===== *)
theory Static_Collections
  imports Flat_Map Std_Map
begin

text \<open>
  The bounded sorted containers of Collection/: \<open>SortedArray\<close> (StaticSortedArray.cpp), the two
  \<open>FlatMap\<close>s of StaticSortedFlatMap.cpp and StaticSortedFlatMap_WithDeletion.cpp, and the
  bounded \<open>push\<close> on a \<open>std::map\<close> (MapWithConstantSize.cpp). The arrays are those of the depth
  book's flat map with another interface, and the lemmas relate them to it; none of these
  containers updates the value of a key it has.
\<close>

section \<open>StaticSortedFlatMap: push that reports whether it stored\<close>

definition static_push ::
  "sort_order \<Rightarrow> 'k :: linorder \<Rightarrow> 'v \<Rightarrow> ('k, 'v) flat_map \<Rightarrow> (bool \<times> ('k, 'v) flat_map) option" where
  "static_push ord key val m =
     do {
       append \<leftarrow> beyond_last ord key m;
       if append
       then (if fm_size m = fm_capacity m then Some (False, m)
             else do { d \<leftarrow> store (fm_size m) (key, val) (fm_data m);
                       Some (True, m\<lparr>fm_data := d, fm_size := fm_size m + 1\<rparr>) })
       else do {
         idxInsert \<leftarrow> findInsertIndex ord key m;
         present \<leftarrow> (if fm_capacity m = idxInsert then Some True
                     else do { node \<leftarrow> fetch (fm_data m) idxInsert; Some (key = fst node) });
         if present then Some (False, m)
         else do {
           let newSize = (if fm_capacity m = fm_size m then fm_size m else fm_size m + 1);
           shifted \<leftarrow> shift_right (unat idxInsert) (unat (newSize - 1)) (fm_data m);
           d \<leftarrow> store idxInsert (key, val) shifted;
           Some (True, m\<lparr>fm_size := newSize, fm_data := d\<rparr>) } } }"

text \<open>The copies of the search and of the state in these files are those of the flat map.\<close>

definition static_new :: "u32 \<Rightarrow> ('k :: zero, 'v :: zero) flat_map" where
  "static_new capacity =
     \<lparr>fm_size = 0, fm_capacity = capacity, fm_data = replicate (unat capacity) (0, 0)\<rparr>"

definition static_findInsertIndex :: "sort_order \<Rightarrow> 'k :: linorder \<Rightarrow> ('k, 'v) flat_map \<Rightarrow> u32 option" where
  "static_findInsertIndex ord key m =
     search_loop (\<lambda>node. compare_keys ord key (fst node)) (fm_data m) 0 (fm_size m)"

text \<open>The copies and moves, of both files and of the sorted array, are the flat map's too.\<close>

definition static_copy :: "('k \<times> 'v) list \<Rightarrow> ('k, 'v) flat_map \<Rightarrow> ('k, 'v) flat_map option" where
  "static_copy fresh other = copy_flat_map fresh other"

definition static_move :: "('k, 'v) flat_map \<Rightarrow> ('k, 'v) flat_map \<times> ('k, 'v) flat_map" where
  "static_move other = move_flat_map other"

text \<open>It stores what \<open>FlatMap::push\<close> stores, and nothing else.\<close>

lemma static_push_state: "map_option snd (static_push ord key val m) = map_option snd (fm_push ord key val m)"
  by (cases "beyond_last ord key m"; cases "findInsertIndex ord key m";
      simp add: static_push_def fm_push_def Let_def split: bind_splits)

text \<open>On a well-formed table it keeps the best \<open>capacity\<close> keys in order and never overwrites.\<close>

lemma static_push_levels:
  assumes "fm_wf ord m" "no_ghost key m"
  obtains b m' where "static_push ord key val m = Some (b, m')" "fm_wf ord m'"
    "fm_list m' = take (unat (fm_capacity m)) (insert_entry ord (key, val) (fm_list m))"
    "fm_capacity m' = fm_capacity m"
proof -
  note wf = fm_wfD [OF assms(1)]
  have sorted: "sorted_keys ord (fm_list m)" using assms(1) by (simp add: fm_wf_def)
  have append: "insert_entry ord (key, val) (fm_list m) = fm_list m @ [(key, val)]"
    if "fm_size m \<noteq> 0" "before ord (fst (last (fm_list m))) key"
    using insert_entry_append [of "fm_list m" ord "(key, val)" "[]"]
      sorted_all_before_last [OF sorted fm_last(3) [OF assms(1) that(1)] that(2)] by simp
  consider "fm_size m \<noteq> 0" "before ord (fst (last (fm_list m))) key" "fm_size m = fm_capacity m"
    | "fm_size m \<noteq> 0" "before ord (fst (last (fm_list m))) key" "fm_size m \<noteq> fm_capacity m"
    | "fm_size m \<noteq> 0 \<longrightarrow> compare_keys ord key (fst (last (fm_list m)))"
    using not_compare by blast
  then obtain r m' where m': "fm_push ord key val m = Some (r, m')" "fm_wf ord m'"
    "fm_list m' = take (unat (fm_capacity m)) (insert_entry ord (key, val) (fm_list m))"
    "fm_capacity m' = fm_capacity m"
  proof cases
    case 1
    with that [of None m] fm_push_beyond_full [OF assms(1) 1, of val] append assms(1) wf(6)
    show thesis by simp
  next
    case 2
    obtain m' where m': "fm_push ord key val m = Some (Some (fm_size m), m')" "fm_wf ord m'"
      "fm_list m' = fm_list m @ [(key, val)]" "fm_capacity m' = fm_capacity m"
      using fm_push_beyond [OF assms(1) 2, of val] by blast
    have "length (fm_list m') \<le> unat (fm_capacity m)" using fm_wfD(1,5,6) [OF m'(2)] m'(4) by simp
    with that [OF m'(1,2)] m'(3,4) append 2 show thesis by simp
  next
    case 3
    obtain p m' where "fm_push ord key val m = Some (Some p, m')" "fm_wf ord m'"
      "fm_list m' = take (unat (fm_capacity m)) (insert_entry ord (key, val) (fm_list m))"
      "fm_capacity m' = fm_capacity m"
      using fm_push_within [OF assms 3, of val] by blast
    then show thesis by (rule that)
  qed
  then obtain b where "static_push ord key val m = Some (b, m')"
    using static_push_state [of ord key val m] by auto
  with that m' show thesis by blast
qed

section \<open>StaticSortedFlatMap_WithDeletion\<close>

text \<open>Its \<open>push\<close> and \<open>erase\<close> are, word for word, those above and of the depth book.\<close>

definition deletion_push ::
  "sort_order \<Rightarrow> 'k :: linorder \<Rightarrow> 'v \<Rightarrow> ('k, 'v) flat_map \<Rightarrow> (bool \<times> ('k, 'v) flat_map) option" where
  "deletion_push = static_push"

definition deletion_erase ::
  "sort_order \<Rightarrow> 'k :: linorder \<Rightarrow> ('k, 'v) flat_map \<Rightarrow> (bool \<times> ('k, 'v) flat_map) option" where
  "deletion_erase = fm_erase"

definition deletion_findInsertIndex :: "sort_order \<Rightarrow> 'k :: linorder \<Rightarrow> ('k, 'v) flat_map \<Rightarrow> u32 option" where
  "deletion_findInsertIndex = static_findInsertIndex"

definition deletion_copy :: "('k \<times> 'v) list \<Rightarrow> ('k, 'v) flat_map \<Rightarrow> ('k, 'v) flat_map option" where
  "deletion_copy = static_copy"

definition deletion_move :: "('k, 'v) flat_map \<Rightarrow> ('k, 'v) flat_map \<times> ('k, 'v) flat_map" where
  "deletion_move = static_move"

definition deletion_new :: "u32 \<Rightarrow> ('k :: zero, 'v :: zero) flat_map" where
  "deletion_new = static_new"

section \<open>SortedArray\<close>

text \<open>An array of items is a table of keys without values.\<close>

type_synonym 'a sorted_array = "('a, unit) flat_map"

definition sa_new :: "u32 \<Rightarrow> 'a :: zero sorted_array" where
  "sa_new capacity =
     \<lparr>fm_size = 0, fm_capacity = capacity, fm_data = replicate (unat capacity) (0, ())\<rparr>"

definition sa_copy :: "('a \<times> unit) list \<Rightarrow> 'a sorted_array \<Rightarrow> 'a sorted_array option" where
  "sa_copy = static_copy"

definition sa_move :: "'a sorted_array \<Rightarrow> 'a sorted_array \<times> 'a sorted_array" where
  "sa_move = static_move"

definition sa_findInsertIndex :: "sort_order \<Rightarrow> 'a :: linorder \<Rightarrow> 'a sorted_array \<Rightarrow> u32 option" where
  "sa_findInsertIndex ord x a =
     search_loop (\<lambda>node. compare_keys ord x (fst node)) (fm_data a) 0 (fm_size a)"

text \<open>The first test of its \<open>push\<close> is \<open>item > _data[_size - 1]\<close> in both orders.\<close>

definition sa_beyond :: "'a :: linorder \<Rightarrow> 'a sorted_array \<Rightarrow> bool option" where
  "sa_beyond x a =
     (if fm_size a > 0
      then do { lastItem \<leftarrow> fetch (fm_data a) (fm_size a - 1); Some (x > fst lastItem) }
      else Some False)"

definition sa_push :: "sort_order \<Rightarrow> 'a :: linorder \<Rightarrow> 'a sorted_array \<Rightarrow> (bool \<times> 'a sorted_array) option" where
  "sa_push ord x a =
     do {
       append \<leftarrow> sa_beyond x a;
       if append
       then (if fm_size a = fm_capacity a then Some (False, a)
             else do { d \<leftarrow> store (fm_size a) (x, ()) (fm_data a);
                       Some (True, a\<lparr>fm_data := d, fm_size := fm_size a + 1\<rparr>) })
       else do {
         idxInsert \<leftarrow> sa_findInsertIndex ord x a;
         present \<leftarrow> (if fm_capacity a = idxInsert then Some True
                     else do { node \<leftarrow> fetch (fm_data a) idxInsert; Some (x = fst node) });
         if present then Some (False, a)
         else do {
           let newSize = (if fm_capacity a = fm_size a then fm_size a else fm_size a + 1);
           shifted \<leftarrow> shift_right (unat idxInsert) (unat (newSize - 1)) (fm_data a);
           d \<leftarrow> store idxInsert (x, ()) shifted;
           Some (True, a\<lparr>fm_size := newSize, fm_data := d\<rparr>) } } }"

lemma sa_push_ascending: "sa_push Ascending x a = static_push Ascending x () a"
proof -
  have "sa_beyond x a = beyond_last Ascending x a"
    by (simp add: sa_beyond_def beyond_last_def compare_keys_def not_le)
  moreover have "sa_findInsertIndex Ascending x a = findInsertIndex Ascending x a"
    by (simp add: sa_findInsertIndex_def findInsertIndex_def)
  ultimately show ?thesis unfolding sa_push_def static_push_def by (simp only: )
qed

lemma sa_push_descending_appends:
  assumes "fm_wf Descending a" "fm_size a \<noteq> 0" "fm_size a \<noteq> fm_capacity a"
    "x > fst (last (fm_list a))"
  obtains a' where "sa_push Descending x a = Some (True, a')" "fm_list a' = fm_list a @ [(x, ())]"
proof -
  note wf = fm_wfD [OF assms(1)]
  let ?n = "unat (fm_size a)"
  let ?a = "a\<lparr>fm_data := (fm_data a)[?n := (x, ())], fm_size := fm_size a + 1\<rparr>"
  have lt: "?n < unat (fm_capacity a)"
    using assms(1,3) by (auto simp: fm_wf_def word_le_nat_alt le_less word_unat_eq_iff)
  then have suc: "unat (fm_size a + 1) = ?n + 1" using wf(7) by (simp add: unat_word_ariths)
  have "sa_beyond x a = Some True"
    using assms(2,4) fm_last [OF assms(1,2)] by (simp add: sa_beyond_def word_neq_0_conv)
  then have "sa_push Descending x a = Some (True, ?a)"
    using assms(3) lt wf(5) by (simp add: sa_push_def)
  moreover have "fm_list ?a = fm_list a @ [(x, ())]"
    using lt suc wf(5) by (simp add: fm_list_def take_Suc_conv_app_nth)
  ultimately show thesis by (rule that)
qed

section \<open>A std::map bounded by MaxSize\<close>

text \<open>No result when \<open>rbegin\<close> is read from an empty map (\<open>MaxSize\<close> 0).\<close>

definition bounded_push ::
  "nat \<Rightarrow> 'k :: linorder \<Rightarrow> 'v \<Rightarrow> ('k, 'v) smap \<Rightarrow> (bool \<times> ('k, 'v) smap) option" where
  "bounded_push MaxSize key val m =
     do {
       let sz = length m;
       refuse \<leftarrow> (if MaxSize = sz
                  then do { e \<leftarrow> smap_rbegin m; Some (key \<ge> fst e) }
                  else Some False);
       if refuse then Some (False, m)
       else do {
         let m' = fst (smap_emplace key val m);
         Some (True, if MaxSize = sz then butlast m' else m') } }"

lemma smap_wf_butlast: "smap_wf m \<Longrightarrow> smap_wf (butlast m)"
  by (simp add: smap_wf_def butlast_conv_take take_map [symmetric] sorted_wrt_take)

lemma smap_wf_last_greatest:
  assumes "smap_wf m" "(k, v) \<in> set m"
  shows "k \<le> fst (last m)"
proof -
  have "m \<noteq> []" using assms(2) by auto
  then obtain e where e: "smap_rbegin m = Some e" "e = last m" by (simp add: smap_rbegin_def)
  have "smap_find m k \<noteq> None" using smap_find_in [OF assms] by simp
  with smap_rbegin_greatest(2) [OF assms(1), of "fst e" "snd e" k] e show ?thesis by simp
qed

section \<open>Properties\<close>

text \<open>
  The bounded flat map with a boolean \<open>push\<close> keeps, on a well-formed table that shows no stale
  node, exactly the best \<open>capacity\<close> of its keys and the new one in order, with the values they
  were first stored with, and runs without undefined behaviour.
\<close>

theorem static_push_keeps_best:
  assumes "fm_wf ord m" "no_ghost key m"
  shows "\<exists>b m'. static_push ord key val m = Some (b, m') \<and> fm_wf ord m'
    \<and> fm_list m' = take (unat (fm_capacity m)) (insert_entry ord (key, val) (fm_list m))"
  using static_push_levels [OF assms, of val] by metis

lemma example_capacity: "fm_capacity example_table = 3"
  by (simp add: example_table_def)

theorem static_push_keeps_best_witness:
  "\<exists>b m'. static_push Ascending 6 60 example_table = Some (b, m') \<and> fm_list m' = [(5, 50), (6, 60), (7, 70)]"
  using static_push_keeps_best [OF fm_wf_example, of 6 60]
  by (auto simp: fm_list_example example_capacity compare_keys_def)

text \<open>
  The sorted array does not sort in descending order: an item greater than the last one is
  appended behind it, leaving the array out of order, as long as there is room.
\<close>

theorem descending_array_loses_order:
  assumes "fm_wf Descending a" "fm_size a \<noteq> 0" "fm_size a \<noteq> fm_capacity a"
    and "x > fst (last (fm_list a))"
  shows "\<exists>a'. sa_push Descending x a = Some (True, a') \<and> \<not> sorted_keys Descending (fm_list a')"
proof -
  obtain a' where a': "sa_push Descending x a = Some (True, a')" "fm_list a' = fm_list a @ [(x, ())]"
    using sa_push_descending_appends [OF assms] by blast
  have "last (fm_list a) \<in> set (fm_list a)" using fm_last(3) [OF assms(1,2)] by simp
  with assms(4) have "\<not> sorted_keys Descending (fm_list a')"
    by (auto simp: a'(2) sorted_keys_append before_def intro!: bexI [of _ "last (fm_list a)"])
  with a'(1) show ?thesis by blast
qed

theorem descending_array_loses_order_witness:
  "\<exists>a'. sa_push Descending 9 \<lparr>fm_size = 1, fm_capacity = 2, fm_data = [(5 :: int, ()), (0, ())]\<rparr> = Some (True, a')
     \<and> \<not> sorted_keys Descending (fm_list a')"
  by (rule descending_array_loses_order) (simp_all add: fm_wf_def fm_list_def)

text \<open>
  The bounded \<open>std::map\<close> at its maximal size: a new key below the greatest replaces the
  greatest key, but a key it already has, below the greatest, changes no value and still drops
  the greatest key, so the map shrinks.
\<close>

theorem bounded_push_full:
  assumes "smap_wf m" "length m = MaxSize" "m \<noteq> []" "key < fst (last m)"
  shows "\<exists>m'. bounded_push MaxSize key val m = Some (True, m') \<and> smap_wf m'
    \<and> (smap_find m key = None \<longrightarrow> m' = butlast (smap_assign key val m) \<and> length m' = MaxSize)
    \<and> (smap_find m key \<noteq> None \<longrightarrow> m' = butlast m \<and> length m' = MaxSize - 1)"
proof -
  have rb: "smap_rbegin m = Some (last m)" using assms(3) by (simp add: smap_rbegin_def)
  have len: "length (smap_assign key val m) = length m + 1" if "smap_find m key = None"
    using that by (induction m rule: smap_assign.induct) (auto simp: smap_find_def split: if_splits)
  show ?thesis
  proof (cases "smap_find m key")
    case None
    with rb assms len show ?thesis
      by (simp add: bounded_push_def Let_def smap_wf_butlast not_le)
  next
    case (Some v)
    with rb assms show ?thesis
      by (simp add: bounded_push_def Let_def smap_wf_butlast not_le)
  qed
qed

theorem bounded_push_full_witness:
  "\<exists>m'. bounded_push 2 1 7 [(1 :: int, 5 :: int), (4, 6)] = Some (True, m') \<and> length m' = 1"
  using bounded_push_full [of "[(1 :: int, 5 :: int), (4, 6)]" 2 1 7] by (auto simp: smap_wf_def)

end
