(* ===== verification/Ring_Buffer.thy ===== *)
theory Ring_Buffer
  imports Sorted_Array
begin

text \<open>
  The single-producer single-consumer ring buffers of the trading systems
  (TradingSystem_MVP_Ps1/common/RingBuffer.hpp; the Ps2 and Ps3 copies rename the namespaces):
  \<open>pricer::RingBuffer\<close> moves items in and out, \<open>static_buffer::RingBuffer\<close> hands out the slot to
  fill (\<open>getItem\<close>), publishes it (\<open>commit\<close>) and returns a pointer to the slot read (\<open>pop\<close>). This
  theory is about one operation at a time; \<open>Ring_Concurrent\<close> interleaves the two threads.

  \<open>Capacity\<close>, a template parameter, is an argument. A slot is the index of the pointer the code
  passes. The locale \<open>bounded_fifo\<close> is the interface of a bounded queue and both buffers
  interpret it.
\<close>

section \<open>Index arithmetic\<close>

definition fast_modulo :: "u32 \<Rightarrow> u32 \<Rightarrow> u32" where
  "fast_modulo n d = and n (d - 1)"

definition is_pow_of_2 :: "u32 \<Rightarrow> bool" where
  "is_pow_of_2 v \<longleftrightarrow> v \<noteq> 0 \<and> and v (v - 1) = 0"

lemma pow_of_2_nat:
  fixes n :: nat
  shows "0 < n \<Longrightarrow> and n (n - 1) = 0 \<Longrightarrow> \<exists>k. n = 2 ^ k"
proof (induction n rule: less_induct)
  case (less n)
  show ?case
  proof (cases "even n")
    case True
    then obtain m where m: "n = 2 * m" by blast
    with less.prems have "0 < m" by simp
    have "n - 1 = 1 + 2 * (m - 1)" using m \<open>0 < m\<close> by simp
    moreover have "and (2 * m) (1 + 2 * j) = 2 * and m j" for j
      by (simp add: and_rec [of "2 * m"])
    ultimately have "and n (n - 1) = 2 * and m (m - 1)" using m by simp
    with less.prems have "and m (m - 1) = 0" by simp
    with less.IH [of m] m \<open>0 < m\<close> obtain k where "m = 2 ^ k" by auto
    with m have "n = 2 ^ Suc k" by simp
    then show ?thesis by blast
  next
    case False
    then obtain m where m: "n = 2 * m + 1" by (elim oddE)
    have "and (1 + 2 * j) (2 * j) = 2 * j" for j :: nat
      by (simp add: and_rec [of "Suc (2 * j)"])
    with m have "and n (n - 1) = 2 * m" by simp
    with less.prems m have "n = 2 ^ 0" by simp
    then show ?thesis by blast
  qed
qed

lemma is_pow_of_2D:
  assumes "is_pow_of_2 C"
  obtains k where "k < 32" "C = 2 ^ k" "unat C = 2 ^ k"
proof -
  have nz: "unat C \<noteq> 0" using assms by (simp add: is_pow_of_2_def unat_eq_zero)
  then have "unat (C - 1) = unat C - 1"
    using assms by (simp add: is_pow_of_2_def unat_minus_one)
  moreover have "unat (and C (C - 1)) = 0" using assms by (simp add: is_pow_of_2_def)
  ultimately have "and (unat C) (unat C - 1) = 0" by (simp add: unsigned_and_eq)
  then obtain k where k: "unat C = 2 ^ k" using pow_of_2_nat [of "unat C"] nz by auto
  moreover have "unat C < 2 ^ 32" using unsigned_less [of C, where 'a = nat] by simp
  ultimately have "(2 :: nat) ^ k < 2 ^ 32" by simp
  then have lt: "k < 32" by (rule power_less_imp_less_exp [rotated]) simp
  have "of_nat (unat C) = C" by simp
  then have "C = 2 ^ k" by (simp add: k)
  with that k lt show thesis by blast
qed

lemma unat_fast_modulo:
  assumes "is_pow_of_2 C"
  shows "unat (fast_modulo n C) = unat n mod unat C"
proof -
  obtain k where k: "k < 32" "C = 2 ^ k" "unat C = 2 ^ k" using is_pow_of_2D [OF assms] .
  have "fast_modulo n C = take_bit k n"
    by (simp add: fast_modulo_def k(2) take_bit_eq_mask mask_eq_exp_minus_1)
  then show ?thesis by (simp add: k(3) unsigned_take_bit_eq flip: take_bit_eq_mod)
qed

definition next_index :: "nat \<Rightarrow> nat \<Rightarrow> nat" where
  "next_index n i = (if i + 1 = n then 0 else i + 1)"

lemma fast_modulo_next:
  assumes "is_pow_of_2 C" "unat i < unat C"
  shows "unat (fast_modulo (i + 1) C) = next_index (unat C) (unat i)"
proof -
  have "unat (i + 1) = unat i + 1"
    using unsigned_less [of C, where 'a = nat] assms(2) by (simp add: unat_word_ariths)
  with assms show ?thesis by (auto simp: unat_fast_modulo next_index_def)
qed

text \<open>The items of a ring over \<open>n\<close> slots, from \<open>tail\<close> up to \<open>head\<close>.\<close>

definition ring_count :: "nat \<Rightarrow> nat \<Rightarrow> nat \<Rightarrow> nat" where
  "ring_count n t h = (if t \<le> h then h - t else h + n - t)"

definition ring_slot :: "nat \<Rightarrow> nat \<Rightarrow> nat \<Rightarrow> nat" where
  "ring_slot n t i = (if t + i < n then t + i else t + i - n)"

definition ring_items :: "'a list \<Rightarrow> nat \<Rightarrow> nat \<Rightarrow> 'a list" where
  "ring_items b t h =
     map (\<lambda>i. b ! ring_slot (length b) t i) [0..<ring_count (length b) t h]"

lemma ring_items_empty [simp]: "ring_items b t t = []"
  by (simp add: ring_items_def ring_count_def)

lemma length_ring_items [simp]: "length (ring_items b t h) = ring_count (length b) t h"
  by (simp add: ring_items_def)

lemma ring_count_less: "t < n \<Longrightarrow> h < n \<Longrightarrow> ring_count n t h < n"
  by (auto simp: ring_count_def)

lemma next_index_less [simp, intro]: "i < n \<Longrightarrow> next_index n i < n"
  by (auto simp: next_index_def)

lemma next_index_inj: "i < n \<Longrightarrow> j < n \<Longrightarrow> next_index n i = next_index n j \<longleftrightarrow> i = j"
  by (auto simp: next_index_def)

lemma ring_count_put:
  "t < n \<Longrightarrow> h < n \<Longrightarrow> next_index n h \<noteq> t \<Longrightarrow> ring_count n t (next_index n h) = ring_count n t h + 1"
  by (auto simp: ring_count_def next_index_def)

lemma ring_count_pop:
  "t < n \<Longrightarrow> h < n \<Longrightarrow> t \<noteq> h \<Longrightarrow> ring_count n t h = ring_count n (next_index n t) h + 1"
  by (auto simp: ring_count_def next_index_def)

lemma ring_count_full:
  "t < n \<Longrightarrow> h < n \<Longrightarrow> next_index n h = t \<longleftrightarrow> ring_count n t h = n - 1"
  by (auto simp: ring_count_def next_index_def)

lemma ring_count_zero: "t < n \<Longrightarrow> h < n \<Longrightarrow> ring_count n t h = 0 \<longleftrightarrow> t = h"
  by (auto simp: ring_count_def)

lemma ring_items_frame:
  assumes "t < length b" "h < length b" "p < length b" "ring_count (length b) t h \<le> ring_count (length b) t p"
  shows "ring_items (b[p := x]) t h = ring_items b t h"
  using assms by (auto simp: ring_items_def ring_slot_def ring_count_def split: if_splits)

lemma ring_items_put:
  assumes "t < length b" "h < length b" "next_index (length b) h \<noteq> t"
  shows "ring_items b t (next_index (length b) h) = ring_items b t h @ [b ! h]"
proof -
  have "ring_slot (length b) t (ring_count (length b) t h) = h"
    using assms by (auto simp: ring_slot_def ring_count_def)
  then show ?thesis by (simp add: ring_items_def ring_count_put [OF assms])
qed

lemma ring_items_pop:
  assumes "t < length b" "h < length b" "t \<noteq> h"
  shows "ring_items b t h = b ! t # ring_items b (next_index (length b) t) h"
proof -
  have "ring_slot (length b) t 0 = t" using assms by (simp add: ring_slot_def)
  moreover have "ring_slot (length b) t (Suc i) = ring_slot (length b) (next_index (length b) t) i"
    if "i < ring_count (length b) (next_index (length b) t) h" for i
    using that assms by (auto simp: ring_slot_def next_index_def ring_count_def split: if_splits)
  moreover have "[0..<ring_count (length b) t h] = 0 # map Suc [0..<ring_count (length b) (next_index (length b) t) h]"
    unfolding ring_count_pop [OF assms] by (simp add: upt_conv_Cons map_Suc_upt del: upt_Suc)
  ultimately show ?thesis by (simp add: ring_items_def)
qed

section \<open>pricer::RingBuffer\<close>

record 'a ring =
  rb_buffer :: "'a list"
  rb_tail :: u32
  rb_head :: u32

text \<open>The constructor fills the buffer with default items, \<open>d\<close> here.\<close>

definition ring_new :: "u32 \<Rightarrow> 'a \<Rightarrow> 'a ring" where
  "ring_new Capacity d = \<lparr>rb_buffer = replicate (unat Capacity) d, rb_tail = 0, rb_head = 0\<rparr>"

definition ring_put :: "u32 \<Rightarrow> 'a \<Rightarrow> 'a ring \<Rightarrow> (bool \<times> 'a ring) option" where
  "ring_put Capacity item r =
     do {
       let headCurrent = rb_head r;
       let headNext = fast_modulo (headCurrent + 1) Capacity;
       if headNext = rb_tail r then Some (False, r)
       else do {
         b \<leftarrow> store headCurrent item (rb_buffer r);
         Some (True, r\<lparr>rb_buffer := b, rb_head := headNext\<rparr>) } }"

definition ring_pop :: "u32 \<Rightarrow> 'a ring \<Rightarrow> ('a option \<times> 'a ring) option" where
  "ring_pop Capacity r =
     do {
       let tailCurrent = rb_tail r;
       if tailCurrent = rb_head r then Some (None, r)
       else do {
         item \<leftarrow> fetch (rb_buffer r) tailCurrent;
         Some (Some item, r\<lparr>rb_tail := fast_modulo (tailCurrent + 1) Capacity\<rparr>) } }"

definition ring_size :: "'a ring \<Rightarrow> u32" where
  "ring_size r = rb_head r - rb_tail r"

definition ring_empty :: "'a ring \<Rightarrow> bool" where
  "ring_empty r \<longleftrightarrow> rb_head r = rb_tail r"

definition ring_full :: "u32 \<Rightarrow> 'a ring \<Rightarrow> bool" where
  "ring_full Capacity r \<longleftrightarrow> ring_size r = Capacity"

text \<open>The invariant, and the items held, oldest first.\<close>

definition ring_wf :: "u32 \<Rightarrow> ('a, 'b) ring_scheme \<Rightarrow> bool" where
  "ring_wf C r \<longleftrightarrow> is_pow_of_2 C \<and> length (rb_buffer r) = unat C
     \<and> unat (rb_tail r) < unat C \<and> unat (rb_head r) < unat C"

definition ring_contents :: "('a, 'b) ring_scheme \<Rightarrow> 'a list" where
  "ring_contents r = ring_items (rb_buffer r) (unat (rb_tail r)) (unat (rb_head r))"

lemma ring_wfD:
  assumes "ring_wf C r"
  shows "is_pow_of_2 C" "length (rb_buffer r) = unat C"
    "unat (rb_tail r) < unat C" "unat (rb_head r) < unat C"
  using assms by (simp_all add: ring_wf_def)

lemma ring_new_wf: "is_pow_of_2 C \<Longrightarrow> ring_wf C (ring_new C d)"
  by (simp add: ring_wf_def ring_new_def is_pow_of_2_def word_unat_eq_iff)

lemma ring_new_contents [simp]: "ring_contents (ring_new C d) = []"
  by (simp add: ring_contents_def ring_new_def)

lemma ring_contents_bound: "ring_wf C r \<Longrightarrow> length (ring_contents r) < unat C"
  by (simp add: ring_contents_def ring_wf_def ring_count_less)

lemma ring_full_iff:
  assumes "ring_wf C r"
  shows "fast_modulo (rb_head r + 1) C = rb_tail r \<longleftrightarrow> length (ring_contents r) = unat C - 1"
  using ring_wfD [OF assms]
  by (simp add: word_unat_eq_iff fast_modulo_next ring_count_full ring_contents_def)

lemma ring_empty_iff:
  assumes "ring_wf C r"
  shows "rb_tail r = rb_head r \<longleftrightarrow> ring_contents r = []"
  using ring_wfD [OF assms] ring_count_zero [of "unat (rb_tail r)" "unat C" "unat (rb_head r)"]
  by (simp add: word_unat_eq_iff ring_contents_def flip: length_0_conv)

text \<open>Writing the slot at \<open>head\<close> and publishing it, and taking the slot at \<open>tail\<close>.\<close>

lemma ring_write_free:
  assumes "ring_wf C r"
  shows "ring_contents (r\<lparr>rb_buffer := (rb_buffer r)[unat (rb_head r) := x]\<rparr>) = ring_contents r"
  using ring_wfD [OF assms] by (simp add: ring_contents_def ring_items_frame)

lemma ring_publish:
  assumes "ring_wf C r" "fast_modulo (rb_head r + 1) C \<noteq> rb_tail r"
  shows "ring_wf C (r\<lparr>rb_head := fast_modulo (rb_head r + 1) C\<rparr>)"
    "ring_contents (r\<lparr>rb_head := fast_modulo (rb_head r + 1) C\<rparr>)
      = ring_contents r @ [rb_buffer r ! unat (rb_head r)]"
  using ring_wfD [OF assms(1)] assms(2)
    ring_items_put [of "unat (rb_tail r)" "rb_buffer r" "unat (rb_head r)"]
  by (simp_all add: ring_wf_def ring_contents_def fast_modulo_next word_unat_eq_iff)

lemma ring_take:
  assumes "ring_wf C r" "rb_tail r \<noteq> rb_head r"
  shows "ring_wf C (r\<lparr>rb_tail := fast_modulo (rb_tail r + 1) C\<rparr>)"
    "ring_contents r = rb_buffer r ! unat (rb_tail r)
      # ring_contents (r\<lparr>rb_tail := fast_modulo (rb_tail r + 1) C\<rparr>)"
  using ring_wfD [OF assms(1)] assms(2)
  by (simp_all add: ring_wf_def ring_contents_def fast_modulo_next ring_items_pop word_unat_eq_iff)

lemma ring_wf_write [simp]: "ring_wf C (r\<lparr>rb_buffer := (rb_buffer r)[i := x]\<rparr>) = ring_wf C r"
  by (simp add: ring_wf_def)

lemma ring_put_full:
  assumes "ring_wf C r" "length (ring_contents r) = unat C - 1"
  shows "ring_put C item r = Some (False, r)"
  using assms ring_full_iff [OF assms(1)] by (simp add: ring_put_def Let_def)

lemma ring_put_room:
  assumes "ring_wf C r" "length (ring_contents r) < unat C - 1"
  obtains r' where "ring_put C item r = Some (True, r')" "ring_wf C r'"
    "ring_contents r' = ring_contents r @ [item]"
proof -
  let ?r = "r\<lparr>rb_buffer := (rb_buffer r)[unat (rb_head r) := item]\<rparr>"
  let ?r' = "?r\<lparr>rb_head := fast_modulo (rb_head r + 1) C\<rparr>"
  have nf: "fast_modulo (rb_head r + 1) C \<noteq> rb_tail r" using assms ring_full_iff by force
  note wf = ring_wfD [OF assms(1)]
  have "ring_wf C ?r'" "ring_contents ?r' = ring_contents ?r @ [item]"
    using ring_publish [of C ?r] assms(1) nf wf by simp_all
  moreover have "ring_put C item r = Some (True, ?r')"
    using nf wf by (simp add: ring_put_def Let_def)
  ultimately show thesis using that ring_write_free [OF assms(1)] by metis
qed

lemma ring_pop_none:
  assumes "ring_wf C r" "ring_contents r = []"
  shows "ring_pop C r = Some (None, r)"
  using assms ring_empty_iff [OF assms(1)] by (simp add: ring_pop_def)

lemma ring_pop_some:
  assumes "ring_wf C r" "ring_contents r = x # xs"
  obtains r' where "ring_pop C r = Some (Some x, r')" "ring_wf C r'" "ring_contents r' = xs"
proof -
  have ne: "rb_tail r \<noteq> rb_head r" using assms ring_empty_iff by force
  from ring_take [OF assms(1) ne] assms(2) that ring_wfD [OF assms(1)] ne show thesis
    by (simp add: ring_pop_def Let_def)
qed

text \<open>
  Its \<open>size()\<close> is the difference of the two indices on 32 bits, so it wraps as soon as the head is
  behind the tail, and \<open>full()\<close> compares it with a value it never has.
\<close>

lemma unat_ring_size:
  assumes "ring_wf C r"
  shows "unat (ring_size r) =
    (if rb_tail r \<le> rb_head r then length (ring_contents r)
     else 2 ^ 32 - unat C + length (ring_contents r))"
proof -
  have "unat C < 2 ^ 32" using unsigned_less [of C, where 'a = nat] by simp
  with ring_wfD [OF assms] show ?thesis
    by (auto simp: ring_size_def ring_contents_def ring_count_def unat_sub_if' word_le_nat_alt)
qed

lemma ring_full_never:
  assumes "ring_wf C r"
  shows "\<not> ring_full C r"
proof -
  obtain k where k: "k < 32" "unat C = 2 ^ k" using is_pow_of_2D ring_wfD(1) [OF assms] by metis
  then have "(2 :: nat) ^ k \<le> 2 ^ 31" by (intro power_increasing) simp_all
  then have half: "2 * unat C \<le> 2 ^ 32" using k(2) by simp
  have "rb_tail r \<noteq> rb_head r" if "\<not> rb_tail r \<le> rb_head r" using that by auto
  then have "unat (ring_size r) \<noteq> unat C"
    using unat_ring_size [OF assms] ring_contents_bound [OF assms] half ring_empty_iff [OF assms]
    by (cases "ring_contents r") (auto split: if_splits)
  then show ?thesis by (auto simp: ring_full_def)
qed

section \<open>static_buffer::RingBuffer\<close>

text \<open>The two members the producer remembers between \<open>getItem\<close> and \<open>commit\<close>.\<close>

record 'a slot_ring = "'a ring" +
  rb_headCached :: u32
  rb_headNext :: u32

definition slot_ring_new :: "u32 \<Rightarrow> 'a \<Rightarrow> 'a slot_ring" where
  "slot_ring_new Capacity d =
     \<lparr>rb_buffer = replicate (unat Capacity) d, rb_tail = 0, rb_head = 0,
      rb_headCached = 0, rb_headNext = 0\<rparr>"

definition getItem :: "u32 \<Rightarrow> 'a slot_ring \<Rightarrow> u32 option \<times> 'a slot_ring" where
  "getItem Capacity r =
     (let r1 = r\<lparr>rb_headCached := rb_head r\<rparr>;
          r2 = r1\<lparr>rb_headNext := fast_modulo (rb_headCached r1 + 1) Capacity\<rparr>
      in if rb_headNext r2 = rb_tail r2 then (None, r2) else (Some (rb_headCached r2), r2))"

definition commit :: "'a slot_ring \<Rightarrow> 'a slot_ring" where
  "commit r = r\<lparr>rb_head := rb_headNext r\<rparr>"

definition pop_slot :: "u32 \<Rightarrow> 'a slot_ring \<Rightarrow> u32 option \<times> 'a slot_ring" where
  "pop_slot Capacity r =
     (let tailLocal = rb_tail r
      in if tailLocal = rb_head r then (None, r)
         else (Some tailLocal, r\<lparr>rb_tail := fast_modulo (tailLocal + 1) Capacity\<rparr>))"

lemma ring_wf_cached [simp]:
  "ring_wf C (r\<lparr>rb_headCached := c, rb_headNext := n\<rparr>) = ring_wf C r"
  "ring_contents (r\<lparr>rb_headCached := c, rb_headNext := n\<rparr>) = ring_contents r"
  by (simp_all add: ring_wf_def ring_contents_def)

lemma ring_write_taken:
  assumes "ring_wf C r" "rb_tail r \<noteq> rb_head r"
  shows "ring_contents (r\<lparr>rb_tail := fast_modulo (rb_tail r + 1) C,
           rb_buffer := (rb_buffer r)[unat (rb_tail r) := x]\<rparr>)
    = ring_contents (r\<lparr>rb_tail := fast_modulo (rb_tail r + 1) C\<rparr>)"
proof -
  note wf = ring_wfD [OF assms(1)]
  have "ring_count n (next_index n t) h \<le> ring_count n (next_index n t) t"
    if "t < n" "h < n" for t h n
    using that by (auto simp: ring_count_def next_index_def)
  with wf show ?thesis
    by (simp add: ring_contents_def fast_modulo_next ring_items_frame)
qed

section \<open>A bounded queue\<close>

text \<open>
  One run of operations on a queue, with the items it accepted and the items it delivered, and the
  same run on a list of at most \<open>bound\<close> items.
\<close>

datatype 'x queue_op = Enqueue 'x | Dequeue

fun queue_run ::
  "('x \<Rightarrow> 's \<Rightarrow> (bool \<times> 's) option) \<Rightarrow> ('s \<Rightarrow> ('x option \<times> 's) option)
    \<Rightarrow> 'x queue_op list \<Rightarrow> 's \<Rightarrow> ('x list \<times> 'x list \<times> 's) option" where
  "queue_run enq deq [] s = Some ([], [], s)"
| "queue_run enq deq (Enqueue x # ops) s =
     do { (accepted, s1) \<leftarrow> enq x s;
          (a, d, s2) \<leftarrow> queue_run enq deq ops s1;
          Some (if accepted then x # a else a, d, s2) }"
| "queue_run enq deq (Dequeue # ops) s =
     do { (item, s1) \<leftarrow> deq s;
          (a, d, s2) \<leftarrow> queue_run enq deq ops s1;
          Some (a, case item of Some x \<Rightarrow> x # d | None \<Rightarrow> d, s2) }"

fun fifo_run :: "nat \<Rightarrow> 'x queue_op list \<Rightarrow> 'x list \<Rightarrow> 'x list \<times> 'x list \<times> 'x list" where
  "fifo_run bound [] q = ([], [], q)"
| "fifo_run bound (Enqueue x # ops) q =
     (if length q < bound
      then (case fifo_run bound ops (q @ [x]) of (a, d, q') \<Rightarrow> (x # a, d, q'))
      else fifo_run bound ops q)"
| "fifo_run bound (Dequeue # ops) q =
     (case q of
        [] \<Rightarrow> fifo_run bound ops []
      | x # q1 \<Rightarrow> (case fifo_run bound ops q1 of (a, d, q') \<Rightarrow> (a, x # d, q')))"

lemma fifo_run_order:
  "fifo_run bound ops q = (a, d, q') \<Longrightarrow> q @ a = d @ q'"
  by (induction bound ops q arbitrary: a d q' rule: fifo_run.induct)
    (fastforce split: if_splits prod.splits list.splits)+

lemma fifo_run_bound:
  "fifo_run bound ops q = (a, d, q') \<Longrightarrow> length q \<le> bound \<Longrightarrow> length q' \<le> bound"
  by (induction bound ops q arbitrary: a d q' rule: fifo_run.induct)
    (auto split: if_splits prod.splits list.splits)

fun op_fits :: "('x \<Rightarrow> bool) \<Rightarrow> 'x queue_op \<Rightarrow> bool" where
  "op_fits fits (Enqueue x) = fits x"
| "op_fits fits Dequeue = True"

lemma op_fits_True [simp]: "op_fits (\<lambda>_. True) op"
  by (cases op) simp_all

locale bounded_fifo =
  fixes enq :: "'x \<Rightarrow> 's \<Rightarrow> (bool \<times> 's) option"
    and deq :: "'s \<Rightarrow> ('x option \<times> 's) option"
    and items :: "'s \<Rightarrow> 'x list"
    and invar :: "'s \<Rightarrow> bool"
    and bound :: nat
    and fits :: "'x \<Rightarrow> bool"
  assumes enq_full: "invar s \<Longrightarrow> \<not> length (items s) < bound \<Longrightarrow>
      \<exists>s'. enq x s = Some (False, s') \<and> invar s' \<and> items s' = items s"
    and enq_room: "invar s \<Longrightarrow> fits x \<Longrightarrow> length (items s) < bound \<Longrightarrow>
      \<exists>s'. enq x s = Some (True, s') \<and> invar s' \<and> items s' = items s @ [x]"
    and deq_empty: "invar s \<Longrightarrow> items s = [] \<Longrightarrow>
      \<exists>s'. deq s = Some (None, s') \<and> invar s' \<and> items s' = []"
    and deq_item: "invar s \<Longrightarrow> items s = x # xs \<Longrightarrow>
      \<exists>s'. deq s = Some (Some x, s') \<and> invar s' \<and> items s' = xs"
begin

lemma run_refines:
  assumes "invar s" "list_all (op_fits fits) ops" "fifo_run bound ops (items s) = (a, d, q)"
  shows "\<exists>s'. queue_run enq deq ops s = Some (a, d, s') \<and> invar s' \<and> items s' = q"
  using assms
proof (induction ops arbitrary: s a d q)
  case Nil
  then show ?case by simp
next
  case (Cons op ops)
  show ?case
  proof (cases op)
    case (Enqueue x)
    show ?thesis
    proof (cases "length (items s) < bound")
      case True
      with enq_room [OF Cons.prems(1) _ True, of x] Cons.prems(2) Enqueue
      obtain s1 where s1: "enq x s = Some (True, s1)" "invar s1" "items s1 = items s @ [x]" by auto
      obtain a' where "fifo_run bound ops (items s1) = (a', d, q)" "a = x # a'"
        using Cons.prems(3) Enqueue True s1(3) by (auto split: prod.splits)
      with Cons.IH [OF s1(2)] Cons.prems(2) Enqueue s1(1) show ?thesis by fastforce
    next
      case False
      with enq_full [OF Cons.prems(1) False, of x]
      obtain s1 where s1: "enq x s = Some (False, s1)" "invar s1" "items s1 = items s" by blast
      with Cons.IH [OF s1(2), of a d q] Cons.prems(2,3) Enqueue False show ?thesis by auto
    qed
  next
    case Dequeue
    show ?thesis
    proof (cases "items s")
      case Nil
      with deq_empty [OF Cons.prems(1) Nil]
      obtain s1 where s1: "deq s = Some (None, s1)" "invar s1" "items s1 = []" by blast
      with Cons.IH [OF s1(2), of a d q] Cons.prems(2,3) Dequeue Nil show ?thesis by auto
    next
      case items: (Cons x xs)
      with deq_item [OF Cons.prems(1) items]
      obtain s1 where s1: "deq s = Some (Some x, s1)" "invar s1" "items s1 = xs" by blast
      obtain d' where "fifo_run bound ops (items s1) = (a, d', q)" "d = x # d'"
        using Cons.prems(3) Dequeue items s1(3) by (auto split: prod.splits)
      with Cons.IH [OF s1(2)] Cons.prems(2) Dequeue s1(1) show ?thesis by fastforce
    qed
  qed
qed

end

interpretation item_ring: bounded_fifo "ring_put C" "ring_pop C" ring_contents "ring_wf C"
    "unat C - 1" "\<lambda>_. True" for C :: u32
proof
  fix s :: "'x ring" and x :: 'x
  assume "ring_wf C s" "\<not> length (ring_contents s) < unat C - 1"
  then show "\<exists>s'. ring_put C x s = Some (False, s') \<and> ring_wf C s' \<and> ring_contents s' = ring_contents s"
    using ring_put_full [of C s x] ring_contents_bound [of C s] by auto
next
  fix s :: "'x ring" and x :: 'x
  assume "ring_wf C s" "length (ring_contents s) < unat C - 1"
  then show "\<exists>s'. ring_put C x s = Some (True, s') \<and> ring_wf C s' \<and> ring_contents s' = ring_contents s @ [x]"
    using ring_put_room by metis
next
  fix s :: "'x ring"
  assume "ring_wf C s" "ring_contents s = []"
  then show "\<exists>s'. ring_pop C s = Some (None, s') \<and> ring_wf C s' \<and> ring_contents s' = []"
    using ring_pop_none by metis
next
  fix s :: "'x ring" and x xs
  assume "ring_wf C s" "ring_contents s = x # xs"
  then show "\<exists>s'. ring_pop C s = Some (Some x, s') \<and> ring_wf C s' \<and> ring_contents s' = xs"
    using ring_pop_some by metis
qed

section \<open>Properties\<close>

text \<open>
  From a well-formed ring of any power-of-two capacity, any sequence of puts and pops runs
  without leaving the buffer and does what a queue of at most \<open>Capacity - 1\<close> items does: the same
  items accepted and refused, the same items delivered, in the order of their acceptance.
\<close>

theorem item_ring_is_fifo:
  assumes "ring_wf C r" and "fifo_run (unat C - 1) ops (ring_contents r) = (accepted, delivered, q)"
  shows "\<exists>r'. queue_run (ring_put C) (ring_pop C) ops r = Some (accepted, delivered, r')
    \<and> ring_wf C r' \<and> ring_contents r' = q \<and> ring_contents r @ accepted = delivered @ q"
  using item_ring.run_refines [OF assms(1) _ assms(2)] fifo_run_order [OF assms(2)]
  by (simp add: list_all_iff)

lemma capacity_4: "is_pow_of_2 4"
  by (simp add: is_pow_of_2_def)

theorem item_ring_is_fifo_witness:
  "\<exists>r'. queue_run (ring_put 4) (ring_pop 4)
     [Enqueue 1, Enqueue 2, Dequeue, Enqueue 3, Enqueue 4, Enqueue 5, Dequeue] (ring_new 4 (0 :: nat))
   = Some ([1, 2, 3, 4], [1, 2], r') \<and> ring_contents r' = [3, 4]"
proof -
  have "fifo_run (unat (4 :: u32) - 1)
      [Enqueue 1, Enqueue 2, Dequeue, Enqueue 3, Enqueue 4, Enqueue 5, Dequeue] (ring_contents (ring_new 4 (0 :: nat)))
    = ([1, 2, 3, 4], [1, 2], [3, 4])" by simp
  from item_ring_is_fifo [OF ring_new_wf [OF capacity_4] this] show ?thesis by blast
qed

text \<open>
  The reported size of a ring is the number of its items only while the head has not wrapped
  behind the tail, and it never reports itself full, not even when it refuses a put.
\<close>

theorem ring_size_and_full:
  assumes "ring_wf C r"
  shows "unat (ring_size r) = (if rb_tail r \<le> rb_head r then length (ring_contents r)
      else 2 ^ 32 - unat C + length (ring_contents r)) \<and> \<not> ring_full C r"
  using unat_ring_size [OF assms] ring_full_never [OF assms] by blast

theorem ring_size_and_full_witness:
  "unat (ring_size \<lparr>rb_buffer = replicate 4 (0 :: nat), rb_tail = 3, rb_head = 2\<rparr>) = 2 ^ 32 - 1"
proof -
  have "ring_wf 4 \<lparr>rb_buffer = replicate 4 (0 :: nat), rb_tail = 3, rb_head = 2\<rparr>"
    by (simp add: ring_wf_def capacity_4)
  from ring_size_and_full [OF this] show ?thesis by (simp add: ring_contents_def ring_count_def)
qed

end
