(* ===== verification/Buffer.thy ===== *)
theory Buffer
  imports Prelude "HOL-Library.Monad_Syntax"
begin

text \<open>
  The growing byte buffer of the trading systems (\<open>buffer::Buffer\<close>,
  TradingSystem_MVP_Ps1/common/Buffer.cpp; the same class in Ps2, Ps3, MarketDataFeeders and
  CommonModules): 32-bit capacity and size, and storage that may be absent. A byte of storage that
  was allocated and never written is \<open>None\<close>. An operation with undefined behaviour (a shift by 32
  bits in \<open>round_up_to_pow2\<close>, a copy outside the storage) has no result.
\<close>

type_synonym byte = "8 word"

record buffer =
  bf_capacity :: u32
  bf_size :: u32
  bf_data :: "byte option list option"

section \<open>Rounding up to a power of two\<close>

fun bit_width :: "nat \<Rightarrow> nat" where
  "bit_width n = (if n = 0 then 0 else Suc (bit_width (n div 2)))"

declare bit_width.simps [simp del]

text \<open>\<open>std::countl_zero\<close> on 32 bits.\<close>

definition countl_zero :: "u32 \<Rightarrow> nat" where
  "countl_zero v = 32 - bit_width (unat v)"

definition round_up_to_pow2 :: "u32 \<Rightarrow> u32 option" where
  "round_up_to_pow2 value =
     (let shift = 32 - countl_zero (value - 1)
      in if shift < 32 then Some (push_bit shift 1) else None)"

lemma bit_width_0 [simp]: "bit_width 0 = 0"
  by (simp add: bit_width.simps)

lemma bit_width_le: "n < 2 ^ k \<Longrightarrow> bit_width n \<le> k"
proof (induction n arbitrary: k rule: bit_width.induct)
  case (1 n)
  show ?case
  proof (cases "n = 0")
    case False
    with 1(2) obtain j where "k = Suc j" by (cases k) auto
    with False 1 show ?thesis by (subst bit_width.simps) auto
  qed simp
qed

lemma less_bit_width: "n < 2 ^ bit_width n"
proof (induction n rule: bit_width.induct)
  case (1 n)
  then show ?case by (cases "n = 0") (simp_all add: bit_width.simps [of n])
qed

lemma bit_width_lower: "0 < n \<Longrightarrow> 2 ^ (bit_width n - 1) \<le> n"
proof (induction n rule: bit_width.induct)
  case (1 n)
  show ?case
  proof (cases "n div 2 = 0")
    case True
    with 1(2) have "n = 1" by simp
    then show ?thesis by (simp add: bit_width.simps [of "Suc 0"])
  next
    case False
    then obtain j where j: "bit_width (n div 2) = Suc j" by (simp add: bit_width.simps [of "n div 2"])
    with 1 False have "2 ^ j \<le> n div 2" by simp
    then have "2 * 2 ^ j \<le> n" by linarith
    with j 1(2) show ?thesis by (subst bit_width.simps) simp
  qed
qed

text \<open>The least power of two that is not below the value, up to \<open>2 ^ 31\<close>.\<close>

lemma round_up_to_pow2_Some:
  assumes "1 \<le> unat v" "unat v \<le> 2 ^ 31"
  obtains c where "round_up_to_pow2 v = Some c" "unat v \<le> unat c" "unat c < 2 * unat v"
    "\<exists>k. unat c = 2 ^ k"
proof -
  let ?k = "bit_width (unat v - 1)"
  have nz: "v \<noteq> 0" using assms(1) by auto
  have "?k \<le> 31" using assms by (intro bit_width_le) auto
  then have "32 - countl_zero (v - 1) = ?k"
    using nz by (simp add: countl_zero_def unat_minus_one)
  then have r: "round_up_to_pow2 v = Some (push_bit ?k 1)"
    using \<open>?k \<le> 31\<close> by (simp add: round_up_to_pow2_def)
  have "(2 :: nat) ^ ?k < 2 ^ 32" using \<open>?k \<le> 31\<close> by (intro power_strict_increasing) simp_all
  then have "unat (of_nat (2 ^ ?k) :: u32) = 2 ^ ?k" by (subst unat_of_nat) simp
  then have u: "unat (push_bit ?k 1 :: u32) = 2 ^ ?k" by simp
  have "unat v \<le> 2 ^ ?k" using less_bit_width [of "unat v - 1"] assms(1) by linarith
  moreover have "2 ^ ?k < 2 * unat v"
  proof (cases "unat v = 1")
    case False
    then have "2 ^ (?k - 1) \<le> unat v - 1" using assms(1) by (intro bit_width_lower) simp
    moreover have "?k \<noteq> 0" using False assms(1) by (subst bit_width.simps) simp
    ultimately
    show ?thesis using assms(1) by (cases ?k) simp_all
  qed simp
  ultimately show thesis using that [OF r] u by auto
qed

lemma round_up_to_pow2_None: "2 ^ 31 < unat v \<Longrightarrow> round_up_to_pow2 v = None"
proof -
  assume big: "2 ^ 31 < unat v"
  have "\<not> bit_width (unat v - 1) \<le> 31"
  proof
    assume "bit_width (unat v - 1) \<le> 31"
    then have "(2 :: nat) ^ bit_width (unat v - 1) \<le> 2 ^ 31" by (intro power_increasing) simp_all
    with less_bit_width [of "unat v - 1"] big show False by linarith
  qed
  moreover have "bit_width (unat v - 1) \<le> 32"
    using unsigned_less [of v, where 'a = nat] by (intro bit_width_le) simp
  moreover have "v \<noteq> 0" using big by auto
  ultimately show ?thesis by (simp add: round_up_to_pow2_def countl_zero_def unat_minus_one)
qed

section \<open>Operations\<close>

definition buffer_default :: buffer where
  "buffer_default = \<lparr>bf_capacity = 0, bf_size = 0, bf_data = None\<rparr>"

definition buffer_new :: "u32 \<Rightarrow> buffer" where
  "buffer_new initialCapacity =
     \<lparr>bf_capacity = initialCapacity, bf_size = 0,
      bf_data = Some (replicate (unat initialCapacity) None)\<rparr>"

text \<open>
  \<open>memcpy\<close> of \<open>n\<close> bytes of \<open>src\<close> to offset \<open>off\<close> of \<open>dst\<close>: both ranges must lie in their storage.
\<close>

definition copy_bytes :: "nat \<Rightarrow> 'b list \<Rightarrow> nat \<Rightarrow> 'b list \<Rightarrow> 'b list option" where
  "copy_bytes n src off dst =
     (if n \<le> length src \<and> off + n \<le> length dst
      then Some (take off dst @ take n src @ drop (off + n) dst) else None)"

definition ensure_capacity :: "u32 \<Rightarrow> buffer \<Rightarrow> buffer option" where
  "ensure_capacity n b =
     do {
       newCapacity \<leftarrow> round_up_to_pow2 n;
       let new_data = replicate (unat newCapacity) None;
       d \<leftarrow> (case bf_data b of
               Some old \<Rightarrow> copy_bytes (unat (bf_size b)) old 0 new_data
             | None \<Rightarrow> Some new_data);
       Some (b\<lparr>bf_data := Some d, bf_capacity := newCapacity\<rparr>) }"

definition validateCapacity :: "u32 \<Rightarrow> buffer \<Rightarrow> buffer option" where
  "validateCapacity n b =
     (if bf_capacity b - bf_size b \<ge> n then Some b
      else ensure_capacity (bf_capacity b + n) b)"

definition buffer_clear :: "buffer \<Rightarrow> buffer" where
  "buffer_clear b = b\<lparr>bf_size := 0\<rparr>"

definition incrementLength :: "u32 \<Rightarrow> buffer \<Rightarrow> buffer" where
  "incrementLength incrSize b = b\<lparr>bf_size := bf_size b + incrSize\<rparr>"

definition buffer_at :: "u32 \<Rightarrow> buffer \<Rightarrow> byte option" where
  "buffer_at idx b =
     (case bf_data b of
        Some d \<Rightarrow> if unat idx < length d then d ! unat idx else None
      | None \<Rightarrow> None)"

text \<open>A copy of \<open>str\<close> behind the bytes held; with no storage there is nothing to copy to.\<close>

definition write_behind :: "byte list \<Rightarrow> buffer \<Rightarrow> buffer option" where
  "write_behind str b =
     (case bf_data b of
        Some d \<Rightarrow>
          do { d' \<leftarrow> copy_bytes (length str) (map Some str) (unat (bf_size b)) d;
               Some (b\<lparr>bf_data := Some d'\<rparr>) }
      | None \<Rightarrow> if str = [] then Some b else None)"

definition buffer_append :: "byte list \<Rightarrow> u32 \<Rightarrow> buffer \<Rightarrow> buffer option" where
  "buffer_append str len b =
     do {
       b1 \<leftarrow> ensure_capacity (bf_size b + len) b;
       b2 \<leftarrow> write_behind (take (unat len) str) b1;
       Some (b2\<lparr>bf_size := bf_size b2 + len\<rparr>) }"

definition push_back :: "byte \<Rightarrow> buffer \<Rightarrow> buffer option" where
  "push_back c b =
     do {
       b1 \<leftarrow> ensure_capacity (bf_size b + 1) b;
       b2 \<leftarrow> write_behind [c] b1;
       Some (b2\<lparr>bf_size := bf_size b2 + 1\<rparr>) }"

text \<open>The copy constructor and the copy assignment; the moves empty the source.\<close>

definition copy_buffer :: "buffer \<Rightarrow> buffer option" where
  "copy_buffer other =
     do {
       let fresh = replicate (unat (bf_capacity other)) None;
       d \<leftarrow> (case bf_data other of
               Some old \<Rightarrow> copy_bytes (unat (bf_size other)) old 0 fresh
             | None \<Rightarrow> if bf_size other = 0 then Some fresh else None);
       Some \<lparr>bf_capacity = bf_capacity other, bf_size = bf_size other, bf_data = Some d\<rparr> }"

definition move_buffer :: "buffer \<Rightarrow> buffer \<times> buffer" where
  "move_buffer other =
     (other, \<lparr>bf_capacity = 0, bf_size = 0, bf_data = None\<rparr>)"

text \<open>
  What a connector does to its slot: \<open>memcpy(response.tail(bytes), entry.data(), bytes)\<close> and
  \<open>response.incrementLength(bytes)\<close>.
\<close>

definition receive_entry :: "byte list \<Rightarrow> buffer \<Rightarrow> buffer option" where
  "receive_entry entry response =
     do {
       let bytes = of_nat (length entry);
       b1 \<leftarrow> validateCapacity bytes response;
       b2 \<leftarrow> write_behind entry b1;
       Some (incrementLength bytes b2) }"

section \<open>The bytes held\<close>

definition buffer_wf :: "buffer \<Rightarrow> bool" where
  "buffer_wf b \<longleftrightarrow> unat (bf_size b) \<le> unat (bf_capacity b)
     \<and> (case bf_data b of
          Some d \<Rightarrow> length d = unat (bf_capacity b) \<and> None \<notin> set (take (unat (bf_size b)) d)
        | None \<Rightarrow> bf_capacity b = 0)"

definition buffer_bytes :: "buffer \<Rightarrow> byte list" where
  "buffer_bytes b =
     (case bf_data b of Some d \<Rightarrow> map the (take (unat (bf_size b)) d) | None \<Rightarrow> [])"

lemma length_buffer_bytes: "buffer_wf b \<Longrightarrow> length (buffer_bytes b) = unat (bf_size b)"
  by (auto simp: buffer_wf_def buffer_bytes_def split: option.splits)

lemma buffer_clear_empty [simp]: "buffer_wf b \<Longrightarrow> buffer_wf (buffer_clear b)" "buffer_bytes (buffer_clear b) = []"
  by (auto simp: buffer_wf_def buffer_clear_def buffer_bytes_def split: option.splits)

lemma buffer_default_wf [simp]: "buffer_wf buffer_default" "buffer_bytes buffer_default = []"
  by (simp_all add: buffer_wf_def buffer_default_def buffer_bytes_def)

lemma buffer_new_wf [simp]: "buffer_wf (buffer_new n)" "buffer_bytes (buffer_new n) = []"
  by (simp_all add: buffer_wf_def buffer_new_def buffer_bytes_def)

lemma ensure_capacity_keeps:
  assumes "buffer_wf b" "unat (bf_size b) \<le> unat n" "1 \<le> unat n" "unat n \<le> 2 ^ 31"
  obtains b' d where "ensure_capacity n b = Some b'" "buffer_wf b'" "buffer_bytes b' = buffer_bytes b"
    "bf_size b' = bf_size b" "unat n \<le> unat (bf_capacity b')" "bf_data b' = Some d"
proof -
  obtain c where c: "round_up_to_pow2 n = Some c" "unat n \<le> unat c"
    using round_up_to_pow2_Some [OF assms(3,4)] by metis
  show thesis
  proof (cases "bf_data b")
    case None
    then have "bf_size b = 0" using assms(1) by (simp add: buffer_wf_def word_unat_eq_iff)
    with None c that [of "b\<lparr>bf_data := Some (replicate (unat c) None), bf_capacity := c\<rparr>" "replicate (unat c) None"]
    show thesis by (simp add: ensure_capacity_def buffer_wf_def buffer_bytes_def Let_def)
  next
    case (Some old)
    then have l: "length old = unat (bf_capacity b)" "unat (bf_size b) \<le> unat (bf_capacity b)"
      "None \<notin> set (take (unat (bf_size b)) old)"
      using assms(1) by (simp_all add: buffer_wf_def)
    let ?d = "take (unat (bf_size b)) old @ replicate (unat c - unat (bf_size b)) None"
    from Some c that [of "b\<lparr>bf_data := Some ?d, bf_capacity := c\<rparr>" ?d] assms(2) l show thesis
      by (simp add: ensure_capacity_def copy_bytes_def buffer_wf_def buffer_bytes_def Let_def)
  qed
qed

lemma write_behind_appends:
  assumes "buffer_wf b" "bf_data b = Some d" "unat (bf_size b) + length str \<le> unat (bf_capacity b)"
  obtains b' where "write_behind str b = Some b'" "bf_size b' = bf_size b"
    "buffer_wf (b'\<lparr>bf_size := bf_size b + of_nat (length str)\<rparr>)"
    "buffer_bytes (b'\<lparr>bf_size := bf_size b + of_nat (length str)\<rparr>) = buffer_bytes b @ str"
proof -
  have lt: "unat (bf_capacity b) < 2 ^ 32" using unsigned_less [of "bf_capacity b", where 'a = nat] by simp
  then have s: "unat (bf_size b + of_nat (length str)) = unat (bf_size b) + length str"
    using assms(3) by (simp add: unat_word_ariths unat_of_nat)
  have "length d = unat (bf_capacity b)" "None \<notin> set (take (unat (bf_size b)) d)"
    using assms(1,2) by (simp_all add: buffer_wf_def)
  with assms that s show thesis
    by (auto simp: write_behind_def copy_bytes_def buffer_wf_def buffer_bytes_def)
qed

lemma validateCapacity_keeps:
  assumes "buffer_wf b" "1 \<le> unat n" "unat n \<le> unat (bf_capacity b - bf_size b) \<or> unat (bf_capacity b) + unat n \<le> 2 ^ 31"
  obtains b' d where "validateCapacity n b = Some b'" "buffer_wf b'" "buffer_bytes b' = buffer_bytes b"
    "bf_size b' = bf_size b" "unat (bf_size b) + unat n \<le> unat (bf_capacity b')" "bf_data b' = Some d"
proof -
  have le: "unat (bf_size b) \<le> unat (bf_capacity b)" using assms(1) by (simp add: buffer_wf_def)
  then have sub: "unat (bf_capacity b - bf_size b) = unat (bf_capacity b) - unat (bf_size b)"
    by (simp add: unat_sub word_le_nat_alt)
  show thesis
  proof (cases "bf_capacity b - bf_size b \<ge> n")
    case True
    then have room: "unat n \<le> unat (bf_capacity b) - unat (bf_size b)" by (simp add: word_le_nat_alt sub)
    then have "bf_data b \<noteq> None" using assms(1,2) by (cases "bf_data b") (auto simp: buffer_wf_def)
    then obtain d where "bf_data b = Some d" by blast
    with that [of b d] True room le assms(1) show thesis by (simp add: validateCapacity_def)
  next
    case False
    then have sum: "unat (bf_capacity b) + unat n \<le> 2 ^ 31" using assms(3) by (simp add: word_le_nat_alt)
    then have u: "unat (bf_capacity b + n) = unat (bf_capacity b) + unat n" by (simp add: unat_word_ariths)
    from u sum le assms(2) obtain b' d where "ensure_capacity (bf_capacity b + n) b = Some b'" "buffer_wf b'"
      "buffer_bytes b' = buffer_bytes b" "bf_size b' = bf_size b"
      "unat (bf_capacity b + n) \<le> unat (bf_capacity b')" "bf_data b' = Some d"
      by (rule_tac ensure_capacity_keeps [OF assms(1), of "bf_capacity b + n"]) auto
    with that [of b' d] False u le show thesis by (simp add: validateCapacity_def)
  qed
qed

lemma receive_entry_appends:
  assumes "buffer_wf b" "length entry < 2 ^ 32"
    "unat (bf_size b) + length entry \<le> unat (bf_capacity b) \<or> unat (bf_capacity b) + length entry \<le> 2 ^ 31"
  obtains b' where "receive_entry entry b = Some b'" "buffer_wf b'" "buffer_bytes b' = buffer_bytes b @ entry"
proof (cases "entry = []")
  case True
  have "b\<lparr>bf_data := bf_data b\<rparr> = b" by simp
  then have "receive_entry entry b = Some b"
    using True assms(1)
    by (cases "bf_data b")
      (simp_all add: receive_entry_def validateCapacity_def write_behind_def copy_bytes_def
        incrementLength_def Let_def buffer_wf_def)
  with True assms(1) that show thesis by simp
next
  case False
  let ?n = "of_nat (length entry) :: u32"
  have n: "unat ?n = length entry" using assms(2) by (simp add: unat_of_nat)
  have "unat (bf_size b) \<le> unat (bf_capacity b)" using assms(1) by (simp add: buffer_wf_def)
  then have "unat (bf_capacity b - bf_size b) = unat (bf_capacity b) - unat (bf_size b)"
    by (simp add: unat_sub word_le_nat_alt)
  with assms(3) n False obtain b1 d where b1: "validateCapacity ?n b = Some b1" "buffer_wf b1"
    "buffer_bytes b1 = buffer_bytes b" "bf_size b1 = bf_size b"
    "unat (bf_size b) + unat ?n \<le> unat (bf_capacity b1)" "bf_data b1 = Some d"
    by (rule_tac validateCapacity_keeps [OF assms(1), of ?n]) (auto simp: Suc_le_eq)
  obtain b2 where "write_behind entry b1 = Some b2" "bf_size b2 = bf_size b1"
    "buffer_wf (b2\<lparr>bf_size := bf_size b1 + ?n\<rparr>)"
    "buffer_bytes (b2\<lparr>bf_size := bf_size b1 + ?n\<rparr>) = buffer_bytes b1 @ entry"
    using write_behind_appends [OF b1(2,6)] b1(4,5) n by auto
  with that [of "b2\<lparr>bf_size := bf_size b1 + ?n\<rparr>"] b1(1,3) show thesis
    by (simp add: receive_entry_def incrementLength_def Let_def)
qed

lemma buffer_append_appends:
  assumes "buffer_wf b" "str \<noteq> []" "unat (bf_size b) + length str \<le> 2 ^ 31"
  obtains b' where "buffer_append str (of_nat (length str)) b = Some b'" "buffer_wf b'"
    "buffer_bytes b' = buffer_bytes b @ str"
proof -
  let ?n = "of_nat (length str) :: u32"
  have n: "unat ?n = length str" using assms(3) by (simp add: unat_of_nat)
  then have u: "unat (bf_size b + ?n) = unat (bf_size b) + length str"
    using assms(3) by (simp add: unat_word_ariths)
  with assms(2,3) obtain b1 d where b1: "ensure_capacity (bf_size b + ?n) b = Some b1" "buffer_wf b1"
    "buffer_bytes b1 = buffer_bytes b" "bf_size b1 = bf_size b"
    "unat (bf_size b + ?n) \<le> unat (bf_capacity b1)" "bf_data b1 = Some d"
    by (rule_tac ensure_capacity_keeps [OF assms(1), of "bf_size b + ?n"]) (auto simp: Suc_le_eq)
  obtain b2 where "write_behind str b1 = Some b2" "bf_size b2 = bf_size b1"
    "buffer_wf (b2\<lparr>bf_size := bf_size b1 + ?n\<rparr>)"
    "buffer_bytes (b2\<lparr>bf_size := bf_size b1 + ?n\<rparr>) = buffer_bytes b1 @ str"
    using write_behind_appends [OF b1(2,6)] b1(4,5) u by auto
  with that [of "b2\<lparr>bf_size := bf_size b1 + ?n\<rparr>"] b1(1,3) n show thesis
    by (simp add: buffer_append_def)
qed

lemma push_back_is_append: "push_back c b = buffer_append [c] 1 b"
  by (simp add: push_back_def buffer_append_def)

lemma copy_buffer_copies:
  assumes "buffer_wf b"
  obtains b' where "copy_buffer b = Some b'" "buffer_wf b'" "buffer_bytes b' = buffer_bytes b"
  using assms that
  by (auto simp: copy_buffer_def copy_bytes_def buffer_wf_def buffer_bytes_def Let_def word_unat_eq_iff
      split: option.splits)

end
