(* ===== verification/Message_Ring.thy ===== *)
theory Message_Ring
  imports Ring_Buffer Buffer
begin

text \<open>
  The message queue of the data feeder (TradingSystem_MVP_Ps1/main.cpp, \<open>DataFeederBase\<close>): a ring
  of byte buffers. The connector's loop takes the free slot, appends the received entry to the
  buffer in it and commits; the parser's loop pops a slot, reads its buffer and clears it. A slot
  is handed out again with what was left in it, so the queue delivers the entries as they came
  only because every slot is cleared: that is the invariant here.
\<close>

definition connector_step ::
  "u32 \<Rightarrow> byte list \<Rightarrow> buffer slot_ring \<Rightarrow> (bool \<times> buffer slot_ring) option" where
  "connector_step Capacity entry queue =
     (case getItem Capacity queue of
        (None, q1) \<Rightarrow> Some (False, q1)
      | (Some slot, q1) \<Rightarrow>
          do {
            response \<leftarrow> fetch (rb_buffer q1) slot;
            filled \<leftarrow> receive_entry entry response;
            b \<leftarrow> store slot filled (rb_buffer q1);
            Some (True, commit (q1\<lparr>rb_buffer := b\<rparr>)) })"

definition parser_step ::
  "u32 \<Rightarrow> buffer slot_ring \<Rightarrow> (byte list option \<times> buffer slot_ring) option" where
  "parser_step Capacity queue =
     (case pop_slot Capacity queue of
        (None, q1) \<Rightarrow> Some (None, q1)
      | (Some slot, q1) \<Rightarrow>
          do {
            item \<leftarrow> fetch (rb_buffer q1) slot;
            b \<leftarrow> store slot (buffer_clear item) (rb_buffer q1);
            Some (Some (buffer_bytes item), q1\<lparr>rb_buffer := b\<rparr>) })"

definition queue_new :: "u32 \<Rightarrow> buffer slot_ring" where
  "queue_new Capacity = slot_ring_new Capacity buffer_default"

section \<open>Invariant\<close>

definition entry_fits :: "byte list \<Rightarrow> bool" where
  "entry_fits entry \<longleftrightarrow> length entry \<le> 2 ^ 30"

text \<open>Slot \<open>i\<close> is between \<open>tail\<close> and \<open>head\<close>.\<close>

definition slot_live :: "('a, 'b) ring_scheme \<Rightarrow> nat \<Rightarrow> bool" where
  "slot_live r i \<longleftrightarrow>
     ring_count (length (rb_buffer r)) (unat (rb_tail r)) i
       < ring_count (length (rb_buffer r)) (unat (rb_tail r)) (unat (rb_head r))"

definition queue_wf :: "u32 \<Rightarrow> buffer slot_ring \<Rightarrow> bool" where
  "queue_wf C q \<longleftrightarrow> ring_wf C q \<and> list_all buffer_wf (rb_buffer q)
     \<and> (\<forall>i < unat C. \<not> slot_live q i \<longrightarrow> bf_size (rb_buffer q ! i) = 0)"

definition queue_entries :: "buffer slot_ring \<Rightarrow> byte list list" where
  "queue_entries q = map buffer_bytes (ring_contents q)"

lemma queue_wfD:
  assumes "queue_wf C q"
  shows "ring_wf C q" "list_all buffer_wf (rb_buffer q)"
    "\<And>i. i < unat C \<Longrightarrow> \<not> slot_live q i \<Longrightarrow> bf_size (rb_buffer q ! i) = 0"
  using assms by (simp_all add: queue_wf_def)

lemma head_not_live: "ring_wf C q \<Longrightarrow> \<not> slot_live q (unat (rb_head q))"
  by (simp add: slot_live_def)

lemma receive_entry_cleared:
  assumes "buffer_wf b" "bf_size b = 0" "entry_fits entry"
  obtains b' where "receive_entry entry b = Some b'" "buffer_wf b'" "buffer_bytes b' = entry"
proof -
  have "buffer_bytes b = []" using length_buffer_bytes [OF assms(1)] assms(2) by simp
  moreover have "unat (bf_size b) + length entry \<le> unat (bf_capacity b)
      \<or> unat (bf_capacity b) + length entry \<le> 2 ^ 31"
    using assms(2,3) by (auto simp: entry_fits_def)
  ultimately show thesis
    using receive_entry_appends [OF assms(1), of entry] assms(3) that by (auto simp: entry_fits_def)
qed

lemma queue_new_wf: "is_pow_of_2 C \<Longrightarrow> queue_wf C (queue_new C)"
  by (simp add: queue_wf_def queue_new_def slot_ring_new_def ring_wf_def list_all_iff
      buffer_default_def buffer_wf_def is_pow_of_2_def word_unat_eq_iff)

lemma queue_new_entries [simp]: "queue_entries (queue_new C) = []"
  by (simp add: queue_entries_def queue_new_def slot_ring_new_def ring_contents_def)

lemma connector_step_full:
  assumes "queue_wf C q" "\<not> length (queue_entries q) < unat C - 1"
  shows "\<exists>q'. connector_step C entry q = Some (False, q') \<and> queue_wf C q' \<and> queue_entries q' = queue_entries q"
proof -
  note wf = queue_wfD [OF assms(1)]
  have "fast_modulo (rb_head q + 1) C = rb_tail q"
    using ring_full_iff [OF wf(1)] ring_contents_bound [OF wf(1)] assms(2) by (simp add: queue_entries_def)
  then show ?thesis
    using assms(1)
    by (simp add: connector_step_def getItem_def Let_def queue_wf_def queue_entries_def slot_live_def)
qed

lemma slot_live_put:
  assumes "t < n" "h < n" "i < n" "next_index n h \<noteq> t" "\<not> ring_count n t i < ring_count n t (next_index n h)"
  shows "i \<noteq> h \<and> \<not> ring_count n t i < ring_count n t h"
  using assms ring_count_put [OF assms(1,2,4)] by auto

lemma slot_live_pop:
  assumes "t < n" "h < n" "i < n" "i \<noteq> t" "t \<noteq> h"
    "\<not> ring_count n (next_index n t) i < ring_count n (next_index n t) h"
  shows "\<not> ring_count n t i < ring_count n t h"
  using assms by (auto simp: ring_count_def next_index_def split: if_splits)

lemma connector_step_room:
  assumes "queue_wf C q" "entry_fits entry" "length (queue_entries q) < unat C - 1"
  shows "\<exists>q'. connector_step C entry q = Some (True, q') \<and> queue_wf C q'
    \<and> queue_entries q' = queue_entries q @ [entry]"
proof -
  note q = queue_wfD [OF assms(1)]
  note wf = ring_wfD [OF q(1)]
  let ?h = "unat (rb_head q)" let ?hn = "fast_modulo (rb_head q + 1) C"
  have nf: "?hn \<noteq> rb_tail q" using ring_full_iff [OF q(1)] assms(3) by (auto simp: queue_entries_def)
  have "buffer_wf (rb_buffer q ! ?h)" using q(2) wf by (simp add: list_all_length)
  then obtain b where b: "receive_entry entry (rb_buffer q ! ?h) = Some b" "buffer_wf b" "buffer_bytes b = entry"
    using receive_entry_cleared [OF _ q(3) [OF wf(4) head_not_live [OF q(1)]] assms(2)] by blast
  let ?q1 = "q\<lparr>rb_headCached := rb_head q, rb_headNext := ?hn\<rparr>"
  let ?q2 = "?q1\<lparr>rb_buffer := (rb_buffer q)[?h := b]\<rparr>"
  let ?q' = "?q2\<lparr>rb_head := ?hn\<rparr>"
  have "connector_step C entry q = Some (True, ?q')"
    using nf b(1) wf by (simp add: connector_step_def getItem_def commit_def Let_def)
  moreover have "ring_wf C ?q'" "ring_contents ?q' = ring_contents ?q2 @ [b]"
    using ring_publish [of C ?q2] q(1) nf wf by (simp_all add: ring_wf_def)
  moreover have "ring_contents ?q2 = ring_contents q"
    using ring_write_free [OF q(1), of b] by (simp add: ring_contents_def)
  moreover have "list_all buffer_wf (rb_buffer ?q')"
    using q(2) b(2) by (auto simp: list_all_iff dest!: set_update_subset_insert [THEN subsetD])
  moreover have "bf_size (rb_buffer ?q' ! i) = 0" if "i < unat C" "\<not> slot_live ?q' i" for i
    using slot_live_put [of "unat (rb_tail q)" "unat C" ?h i] that nf wf q(3) [of i]
    by (simp add: slot_live_def fast_modulo_next word_unat_eq_iff)
  ultimately show ?thesis using b(3) by (simp add: queue_wf_def queue_entries_def)
qed

lemma parser_step_empty:
  assumes "queue_wf C q" "queue_entries q = []"
  shows "\<exists>q'. parser_step C q = Some (None, q') \<and> queue_wf C q' \<and> queue_entries q' = []"
proof -
  have "rb_tail q = rb_head q"
    using assms(2) ring_empty_iff [OF queue_wfD(1) [OF assms(1)]] by (simp add: queue_entries_def)
  with assms show ?thesis by (simp add: parser_step_def pop_slot_def)
qed

lemma parser_step_item:
  assumes "queue_wf C q" "queue_entries q = x # xs"
  shows "\<exists>q'. parser_step C q = Some (Some x, q') \<and> queue_wf C q' \<and> queue_entries q' = xs"
proof -
  note q = queue_wfD [OF assms(1)]
  note wf = ring_wfD [OF q(1)]
  let ?t = "unat (rb_tail q)" let ?tn = "fast_modulo (rb_tail q + 1) C"
  have ne: "rb_tail q \<noteq> rb_head q" using ring_empty_iff [OF q(1)] assms(2) by (auto simp: queue_entries_def)
  let ?b = "buffer_clear (rb_buffer q ! ?t)"
  let ?q' = "q\<lparr>rb_tail := ?tn, rb_buffer := (rb_buffer q)[?t := ?b]\<rparr>"
  have "buffer_wf (rb_buffer q ! ?t)" using q(2) wf by (simp add: list_all_length)
  then have "list_all buffer_wf (rb_buffer ?q')"
    using q(2) by (auto simp: list_all_iff dest!: set_update_subset_insert [THEN subsetD])
  moreover have "parser_step C q = Some (Some (buffer_bytes (rb_buffer q ! ?t)), ?q')"
    using ne wf by (simp add: parser_step_def pop_slot_def Let_def)
  moreover have "ring_wf C ?q'" using ring_take(1) [OF q(1) ne] by (simp add: ring_wf_def)
  moreover have "ring_contents q = rb_buffer q ! ?t # ring_contents ?q'"
    using ring_take(2) [OF q(1) ne] ring_write_taken [OF q(1) ne, of ?b] by simp
  moreover have "bf_size (rb_buffer ?q' ! i) = 0" if "i < unat C" "\<not> slot_live ?q' i" for i
    using slot_live_pop [of ?t "unat C" "unat (rb_head q)" i] that ne wf q(3) [of i]
    by (cases "i = ?t") (simp_all add: slot_live_def fast_modulo_next word_unat_eq_iff buffer_clear_def)
  ultimately show ?thesis using assms(2) by (simp add: queue_wf_def queue_entries_def)
qed

interpretation message_ring: bounded_fifo "connector_step C" "parser_step C" queue_entries "queue_wf C"
    "unat C - 1" entry_fits for C :: u32
  by unfold_locales (metis connector_step_full, metis connector_step_room,
      metis parser_step_empty, metis parser_step_item)

section \<open>Properties\<close>

text \<open>
  C17. The feeder's queue delivers to the parser exactly the entries the connector received, byte
  for byte and in order, as a queue of \<open>Capacity - 1\<close> entries: for any sequence of connector and
  parser steps with entries of at most \<open>2 ^ 30\<close> bytes, and without undefined behaviour in ring or
  buffers.
\<close>

theorem message_queue_is_fifo:
  assumes "queue_wf C r" "list_all (op_fits entry_fits) ops"
    and "fifo_run (unat C - 1) ops (queue_entries r) = (accepted, delivered, q)"
  shows "\<exists>r'. queue_run (connector_step C) (parser_step C) ops r = Some (accepted, delivered, r')
    \<and> queue_wf C r' \<and> queue_entries r' = q \<and> queue_entries r @ accepted = delivered @ q"
  using message_ring.run_refines [OF assms] fifo_run_order [OF assms(3)] by simp

theorem message_queue_is_fifo_witness:
  "\<exists>r'. queue_run (connector_step 2) (parser_step 2)
     [Enqueue [1, 2], Enqueue [3], Dequeue, Enqueue [4]] (queue_new 2) = Some ([[1, 2], [4]], [[1, 2]], r')
   \<and> queue_entries r' = [[4]]"
proof -
  have "queue_wf 2 (queue_new 2)" by (rule queue_new_wf) (simp add: is_pow_of_2_def)
  moreover have "fifo_run (unat (2 :: u32) - 1)
      [Enqueue [1, 2], Enqueue [3], Dequeue, Enqueue [4]] (queue_entries (queue_new 2))
    = ([[1, 2], [4]], [[1, 2]], [[4]])" by simp
  moreover have "list_all (op_fits entry_fits) [Enqueue [1, 2], Enqueue [3], Dequeue, Enqueue [4]]"
    by (simp add: entry_fits_def)
  ultimately show ?thesis using message_queue_is_fifo by blast
qed

end
