(* ===== verification/Ring_Concurrent.thy ===== *)
theory Ring_Concurrent
  imports Ring_Buffer
begin

text \<open>
  The ring of slots under its two threads. Each atomic load or store of \<open>getItem\<close>, \<open>commit\<close> and
  \<open>pop\<close>, each write of the producer to the slot it got and each write of the consumer to the slot
  it popped (clearing the buffer) is one step, and the threads' steps interleave in any order. The
  threads' positions are \<open>producer_pc\<close> and \<open>consumer_pc\<close>; \<open>sp_committed\<close> and \<open>sp_delivered\<close> record
  the slot contents at each \<open>commit\<close> and at each successful \<open>pop\<close>. The members \<open>headCached\<close> and
  \<open>headNext\<close> are the producer's alone.

  The interleaving is sequentially consistent. The code's acquire and release orderings are on
  exactly the accesses that hand a slot from one thread to the other, and each index has one
  writer; that they make the C++ executions these interleavings is not proved here.

  \<open>pop\<close> advances the tail before its caller reads the slot. The slot stays untouched because the
  producer leaves one slot free: this is the invariant.
\<close>

datatype producer_pc =
    P_idle      \<comment> \<open>outside the ring\<close>
  | P_loaded    \<comment> \<open>in getItem, head loaded\<close>
  | P_filling   \<comment> \<open>has the slot, until commit\<close>

datatype consumer_pc =
    C_idle
  | C_loaded u32     \<comment> \<open>in pop, tail loaded\<close>
  | C_nonempty u32   \<comment> \<open>in pop, tail found different from head\<close>
  | C_holding u32    \<comment> \<open>has the slot, not written to it\<close>
  | C_clearing u32   \<comment> \<open>has the slot and writes to it\<close>

record 'a spsc = "'a slot_ring" +
  sp_producer :: producer_pc
  sp_consumer :: consumer_pc
  sp_committed :: "'a list"
  sp_delivered :: "'a list"

definition spsc_initial :: "u32 \<Rightarrow> 'a \<Rightarrow> 'a spsc" where
  "spsc_initial Capacity d =
     \<lparr>rb_buffer = replicate (unat Capacity) d, rb_tail = 0, rb_head = 0,
      rb_headCached = 0, rb_headNext = 0,
      sp_producer = P_idle, sp_consumer = C_idle, sp_committed = [], sp_delivered = []\<rparr>"

inductive producer_step :: "u32 \<Rightarrow> 'a spsc \<Rightarrow> 'a spsc \<Rightarrow> bool" for C where
  load_head: "sp_producer s = P_idle \<Longrightarrow>
    producer_step C s (s\<lparr>rb_headCached := rb_head s,
      rb_headNext := fast_modulo (rb_head s + 1) C, sp_producer := P_loaded\<rparr>)"
| no_slot: "sp_producer s = P_loaded \<Longrightarrow> rb_headNext s = rb_tail s \<Longrightarrow>
    producer_step C s (s\<lparr>sp_producer := P_idle\<rparr>)"
| got_slot: "sp_producer s = P_loaded \<Longrightarrow> rb_headNext s \<noteq> rb_tail s \<Longrightarrow>
    producer_step C s (s\<lparr>sp_producer := P_filling\<rparr>)"
| write_slot: "sp_producer s = P_filling \<Longrightarrow> store (rb_headCached s) x (rb_buffer s) = Some b \<Longrightarrow>
    producer_step C s (s\<lparr>rb_buffer := b\<rparr>)"
| commit_slot: "sp_producer s = P_filling \<Longrightarrow> fetch (rb_buffer s) (rb_headCached s) = Some x \<Longrightarrow>
    producer_step C s (s\<lparr>rb_head := rb_headNext s, sp_producer := P_idle,
      sp_committed := sp_committed s @ [x]\<rparr>)"

inductive consumer_step :: "u32 \<Rightarrow> 'a spsc \<Rightarrow> 'a spsc \<Rightarrow> bool" for C where
  load_tail: "sp_consumer s = C_idle \<Longrightarrow>
    consumer_step C s (s\<lparr>sp_consumer := C_loaded (rb_tail s)\<rparr>)"
| found_empty: "sp_consumer s = C_loaded t \<Longrightarrow> t = rb_head s \<Longrightarrow>
    consumer_step C s (s\<lparr>sp_consumer := C_idle\<rparr>)"
| found_item: "sp_consumer s = C_loaded t \<Longrightarrow> t \<noteq> rb_head s \<Longrightarrow>
    consumer_step C s (s\<lparr>sp_consumer := C_nonempty t\<rparr>)"
| store_tail: "sp_consumer s = C_nonempty t \<Longrightarrow> fetch (rb_buffer s) t = Some x \<Longrightarrow>
    consumer_step C s (s\<lparr>rb_tail := fast_modulo (t + 1) C, sp_consumer := C_holding t,
      sp_delivered := sp_delivered s @ [x]\<rparr>)"
| clear_slot: "sp_consumer s = C_holding t \<or> sp_consumer s = C_clearing t \<Longrightarrow>
    store t x (rb_buffer s) = Some b \<Longrightarrow>
    consumer_step C s (s\<lparr>rb_buffer := b, sp_consumer := C_clearing t\<rparr>)"
| release: "sp_consumer s = C_holding t \<or> sp_consumer s = C_clearing t \<Longrightarrow>
    consumer_step C s (s\<lparr>sp_consumer := C_idle\<rparr>)"

inductive spsc_reachable :: "u32 \<Rightarrow> 'a spsc \<Rightarrow> bool" for C where
  initial: "spsc_reachable C (spsc_initial C d)"
| producer: "spsc_reachable C s \<Longrightarrow> producer_step C s s' \<Longrightarrow> spsc_reachable C s'"
| consumer: "spsc_reachable C s \<Longrightarrow> consumer_step C s s' \<Longrightarrow> spsc_reachable C s'"

inductive_cases producer_stepE: "producer_step C s s'"
inductive_cases consumer_stepE: "consumer_step C s s'"

section \<open>The invariant\<close>

definition producer_inv :: "u32 \<Rightarrow> 'a spsc \<Rightarrow> bool" where
  "producer_inv C s \<longleftrightarrow> sp_producer s \<noteq> P_idle \<longrightarrow>
     rb_headCached s = rb_head s \<and> rb_headNext s = fast_modulo (rb_head s + 1) C
     \<and> (sp_producer s = P_filling \<longrightarrow> rb_headNext s \<noteq> rb_tail s)"

definition consumer_inv :: "u32 \<Rightarrow> 'a spsc \<Rightarrow> bool" where
  "consumer_inv C s \<longleftrightarrow>
     (case sp_consumer s of
        C_idle \<Rightarrow> True
      | C_loaded t \<Rightarrow> t = rb_tail s
      | C_nonempty t \<Rightarrow> t = rb_tail s \<and> t \<noteq> rb_head s
      | C_holding t \<Rightarrow> unat t < unat C \<and> rb_tail s = fast_modulo (t + 1) C
          \<and> sp_delivered s \<noteq> [] \<and> rb_buffer s ! unat t = last (sp_delivered s)
      | C_clearing t \<Rightarrow> unat t < unat C \<and> rb_tail s = fast_modulo (t + 1) C)"

definition spsc_inv :: "u32 \<Rightarrow> 'a spsc \<Rightarrow> bool" where
  "spsc_inv C s \<longleftrightarrow> ring_wf C s \<and> sp_committed s = sp_delivered s @ ring_contents s
     \<and> producer_inv C s \<and> consumer_inv C s"

lemma spsc_invD:
  assumes "spsc_inv C s"
  shows "ring_wf C s" "sp_committed s = sp_delivered s @ ring_contents s"
    "producer_inv C s" "consumer_inv C s"
  using assms by (simp_all add: spsc_inv_def)

lemma ring_scheme_cong:
  assumes "rb_buffer r' = rb_buffer r" "rb_tail r' = rb_tail r" "rb_head r' = rb_head r"
  shows "ring_wf C r' = ring_wf C r" "ring_contents r' = ring_contents r"
  using assms by (simp_all add: ring_wf_def ring_contents_def)

lemma fast_modulo_next_inj:
  assumes "is_pow_of_2 C" "unat i < unat C" "unat j < unat C"
  shows "fast_modulo (i + 1) C = fast_modulo (j + 1) C \<longleftrightarrow> i = j"
  using assms by (auto simp: word_unat_eq_iff fast_modulo_next next_index_inj)

text \<open>The consumer's slot is not the producer's, and writing it disturbs no item.\<close>

lemma popped_not_filling:
  assumes "spsc_inv C s" "sp_producer s = P_filling" "rb_tail s = fast_modulo (t + 1) C"
  shows "t \<noteq> rb_headCached s"
  using assms by (auto simp: spsc_inv_def producer_inv_def)

lemma ring_write_popped:
  assumes "ring_wf C r" "unat t < unat C" "rb_tail r = fast_modulo (t + 1) C"
  shows "ring_contents (r\<lparr>rb_buffer := (rb_buffer r)[unat t := x]\<rparr>) = ring_contents r"
proof -
  note wf = ring_wfD [OF assms(1)]
  have "ring_count n (next_index n t) h \<le> ring_count n (next_index n t) t"
    if "t < n" "h < n" for t h n
    using that by (auto simp: ring_count_def next_index_def)
  with wf assms(2,3) show ?thesis
    by (simp add: ring_contents_def fast_modulo_next ring_items_frame)
qed

lemma spsc_initial_inv: "is_pow_of_2 C \<Longrightarrow> spsc_inv C (spsc_initial C d)"
  by (simp add: spsc_inv_def spsc_initial_def producer_inv_def consumer_inv_def ring_wf_def
      ring_contents_def is_pow_of_2_def word_unat_eq_iff)

lemma producer_step_inv:
  assumes "producer_step C s s'" "spsc_inv C s"
  shows "spsc_inv C s'"
  using assms(1)
proof (cases rule: producer_step.cases)
  case load_head
  with spsc_invD [OF assms(2)] show ?thesis
    by (simp add: spsc_inv_def producer_inv_def consumer_inv_def ring_wf_def ring_contents_def
        split: consumer_pc.splits)
next
  case no_slot
  with spsc_invD [OF assms(2)] show ?thesis
    by (simp add: spsc_inv_def producer_inv_def consumer_inv_def ring_wf_def ring_contents_def
        split: consumer_pc.splits)
next
  case got_slot
  with spsc_invD [OF assms(2)] show ?thesis
    by (simp add: spsc_inv_def producer_inv_def consumer_inv_def ring_wf_def ring_contents_def
        split: consumer_pc.splits)
next
  case (write_slot x b)
  note inv = spsc_invD [OF assms(2)]
  have head: "rb_headCached s = rb_head s" using inv(3) write_slot(2) by (simp add: producer_inv_def)
  with write_slot(3) ring_wfD [OF inv(1)] have b: "b = (rb_buffer s)[unat (rb_head s) := x]"
    by (simp add: store_def)
  have "unat (rb_head s) \<noteq> unat t" if "rb_tail s = fast_modulo (t + 1) C" for t
    using popped_not_filling [OF assms(2) write_slot(2) that] head by (auto simp: word_unat_eq_iff)
  then have "consumer_inv C s'"
    using inv(4) by (cases "sp_consumer s") (simp_all add: write_slot(1) b consumer_inv_def)
  with inv ring_write_free [OF inv(1), of x] write_slot(2) show ?thesis
    by (auto simp: write_slot(1) b spsc_inv_def producer_inv_def)
next
  case (commit_slot x)
  note inv = spsc_invD [OF assms(2)]
  have p: "rb_headCached s = rb_head s" "rb_headNext s = fast_modulo (rb_head s + 1) C"
    "rb_headNext s \<noteq> rb_tail s"
    using inv(3) commit_slot(2) by (auto simp: producer_inv_def)
  let ?r = "s\<lparr>rb_head := rb_headNext s\<rparr>"
  have r: "ring_wf C ?r" "ring_contents ?r = ring_contents s @ [rb_buffer s ! unat (rb_head s)]"
    using ring_publish [OF inv(1)] p by simp_all
  moreover have "x = rb_buffer s ! unat (rb_head s)"
    using commit_slot(3) p(1) ring_wfD [OF inv(1)] by simp
  moreover have "consumer_inv C s'"
    using inv(4) p(3) by (auto simp: commit_slot(1) consumer_inv_def split: consumer_pc.splits)
  ultimately show ?thesis using inv(2)
    by (simp add: commit_slot(1) spsc_inv_def producer_inv_def ring_scheme_cong [of s' ?r] ring_wf_def ring_contents_def)
qed

lemma consumer_step_inv:
  assumes "consumer_step C s s'" "spsc_inv C s"
  shows "spsc_inv C s'"
  using assms(1)
proof (cases rule: consumer_step.cases)
  case load_tail
  with spsc_invD [OF assms(2)] show ?thesis
    by (auto simp: spsc_inv_def producer_inv_def consumer_inv_def ring_wf_def ring_contents_def)
next
  case (found_empty t)
  with spsc_invD [OF assms(2)] show ?thesis
    by (auto simp: spsc_inv_def producer_inv_def consumer_inv_def ring_wf_def ring_contents_def)
next
  case (found_item t)
  with spsc_invD [OF assms(2)] show ?thesis
    by (auto simp: spsc_inv_def producer_inv_def consumer_inv_def ring_wf_def ring_contents_def)
next
  case (store_tail t x)
  note inv = spsc_invD [OF assms(2)]
  note wf = ring_wfD [OF inv(1)]
  have t: "t = rb_tail s" "rb_tail s \<noteq> rb_head s"
    using inv(4) store_tail(2) by (auto simp: consumer_inv_def)
  have x: "x = rb_buffer s ! unat t" using store_tail(3) t wf by simp
  have "ring_wf C s'" "ring_contents s = x # ring_contents s'"
    using ring_take [OF inv(1) t(2)] t(1)
    by (simp_all add: store_tail(1) x ring_wf_def ring_contents_def)
  moreover have "producer_inv C s'"
    using inv(3) t wf fast_modulo_next_inj [of C "rb_head s" "rb_tail s"]
    by (auto simp: store_tail(1) producer_inv_def)
  moreover have "consumer_inv C s'" using x t wf by (simp add: store_tail(1) consumer_inv_def)
  ultimately show ?thesis using inv(2) by (simp add: store_tail(1) spsc_inv_def)
next
  case (clear_slot t x b)
  note inv = spsc_invD [OF assms(2)]
  have t: "unat t < unat C" "rb_tail s = fast_modulo (t + 1) C"
    using inv(4) clear_slot(2) by (auto simp: consumer_inv_def)
  have b: "b = (rb_buffer s)[unat t := x]" using clear_slot(3) t(1) ring_wfD [OF inv(1)] by simp
  have "ring_wf C s'" using inv(1) by (simp add: clear_slot(1) b ring_wf_def)
  moreover have "ring_contents s' = ring_contents s"
    using ring_write_popped [OF inv(1) t, of x] by (simp add: clear_slot(1) b ring_contents_def)
  moreover have "producer_inv C s'" using inv(3) by (auto simp: clear_slot(1) producer_inv_def)
  moreover have "consumer_inv C s'" using t by (simp add: clear_slot(1) consumer_inv_def)
  ultimately show ?thesis using inv(2) by (simp add: clear_slot(1) spsc_inv_def)
next
  case (release t)
  with spsc_invD [OF assms(2)] show ?thesis
    by (auto simp: spsc_inv_def producer_inv_def consumer_inv_def ring_wf_def ring_contents_def)
qed

lemma spsc_reachable_inv:
  assumes "spsc_reachable C s" "is_pow_of_2 C"
  shows "spsc_inv C s"
  using assms(1)
  by induction (blast intro: spsc_initial_inv assms(2) producer_step_inv consumer_step_inv)+

section \<open>Progress\<close>

text \<open>Each thread's operation ends by its own steps, whatever the other did before.\<close>

lemma consumer_delivers:
  assumes "spsc_inv C s" "sp_consumer s = C_idle" "ring_contents s = x # xs"
  shows "\<exists>s1 s2 s3. consumer_step C s s1 \<and> consumer_step C s1 s2 \<and> consumer_step C s2 s3
    \<and> sp_delivered s3 = sp_delivered s @ [x] \<and> ring_contents s3 = xs"
proof -
  note inv = spsc_invD [OF assms(1)]
  note wf = ring_wfD [OF inv(1)]
  have ne: "rb_tail s \<noteq> rb_head s" using ring_empty_iff [OF inv(1)] assms(3) by auto
  have x: "x = rb_buffer s ! unat (rb_tail s)" "xs = ring_contents (s\<lparr>rb_tail := fast_modulo (rb_tail s + 1) C\<rparr>)"
    using ring_take(2) [OF inv(1) ne] assms(3) by simp_all
  let ?s1 = "s\<lparr>sp_consumer := C_loaded (rb_tail s)\<rparr>"
  let ?s2 = "?s1\<lparr>sp_consumer := C_nonempty (rb_tail s)\<rparr>"
  let ?s3 = "?s2\<lparr>rb_tail := fast_modulo (rb_tail s + 1) C, sp_consumer := C_holding (rb_tail s),
      sp_delivered := sp_delivered ?s2 @ [x]\<rparr>"
  have "consumer_step C s ?s1" using assms(2) by (rule consumer_step.load_tail)
  moreover have "consumer_step C ?s1 ?s2" using ne by (intro consumer_step.found_item) simp_all
  moreover have "consumer_step C ?s2 ?s3" using x(1) wf by (intro consumer_step.store_tail) simp_all
  moreover have "ring_contents ?s3 = xs" by (simp add: x(2) ring_contents_def)
  ultimately show ?thesis by (intro exI conjI) (assumption | simp)+
qed

lemma producer_gets_slot:
  assumes "spsc_inv C s" "sp_producer s = P_idle" "length (ring_contents s) < unat C - 1"
  shows "\<exists>s1 s2. producer_step C s s1 \<and> producer_step C s1 s2 \<and> sp_producer s2 = P_filling"
proof -
  note inv = spsc_invD [OF assms(1)]
  have nf: "fast_modulo (rb_head s + 1) C \<noteq> rb_tail s" using ring_full_iff [OF inv(1)] assms(3) by auto
  let ?s1 = "s\<lparr>rb_headCached := rb_head s, rb_headNext := fast_modulo (rb_head s + 1) C, sp_producer := P_loaded\<rparr>"
  have "producer_step C s ?s1" using assms(2) by (rule producer_step.load_head)
  moreover have "producer_step C ?s1 (?s1\<lparr>sp_producer := P_filling\<rparr>)"
    using nf by (intro producer_step.got_slot) simp_all
  ultimately show ?thesis by (intro exI conjI) (assumption | simp)+
qed

lemma consumer_steps_inv:
  "(consumer_step C)\<^sup>*\<^sup>* s s' \<Longrightarrow> spsc_inv C s \<Longrightarrow> spsc_inv C s' \<and> sp_committed s' = sp_committed s
    \<and> length (sp_delivered s) \<le> length (sp_delivered s')"
proof (induction rule: rtranclp_induct)
  case (step s1 s2)
  then have "spsc_inv C s2" using consumer_step_inv by blast
  moreover have "sp_committed s2 = sp_committed s1 \<and> length (sp_delivered s1) \<le> length (sp_delivered s2)"
    using step(2) by (auto elim!: consumer_stepE)
  ultimately show ?case using step by simp
qed simp

lemma consumer_finishes:
  fixes s :: "'a spsc"
  assumes "spsc_inv C s"
  shows "\<exists>s'. (consumer_step C)\<^sup>*\<^sup>* s s' \<and> sp_consumer s' = C_idle"
proof -
  have release: "\<exists>s'. (consumer_step C)\<^sup>*\<^sup>* s s' \<and> sp_consumer s' = C_idle"
    if "sp_consumer s = C_holding t \<or> sp_consumer s = C_clearing t" for s :: "'a spsc" and t
    using r_into_rtranclp [of "consumer_step C", OF consumer_step.release [OF that]]
    by (intro exI [of _ "s\<lparr>sp_consumer := C_idle\<rparr>"]) simp
  have take_item: "\<exists>s'. (consumer_step C)\<^sup>*\<^sup>* s s' \<and> sp_consumer s' = C_idle"
    if "spsc_inv C s" "sp_consumer s = C_nonempty t" for s :: "'a spsc" and t
  proof -
    have "t = rb_tail s" using that by (simp add: spsc_inv_def consumer_inv_def)
    with ring_wfD [OF spsc_invD(1) [OF that(1)]] have "fetch (rb_buffer s) t = Some (rb_buffer s ! unat t)" by simp
    note step = consumer_step.store_tail [OF that(2) this, of C]
    let ?s1 = "s\<lparr>rb_tail := fast_modulo (t + 1) C, sp_consumer := C_holding t,
        sp_delivered := sp_delivered s @ [rb_buffer s ! unat t]\<rparr>"
    have "sp_consumer ?s1 = C_holding t \<or> sp_consumer ?s1 = C_clearing t" by simp
    from release [OF this] obtain s' where "(consumer_step C)\<^sup>*\<^sup>* ?s1 s'" "sp_consumer s' = C_idle" by blast
    with step show ?thesis by (meson converse_rtranclp_into_rtranclp)
  qed
  show ?thesis
  proof (cases "sp_consumer s")
    case (C_loaded t)
    show ?thesis
    proof (cases "t = rb_head s")
      case True
      from r_into_rtranclp [of "consumer_step C", OF consumer_step.found_empty [OF C_loaded True]] show ?thesis
        by (intro exI [of _ "s\<lparr>sp_consumer := C_idle\<rparr>"]) simp
    next
      case False
      note step = consumer_step.found_item [OF C_loaded False, of C]
      have "sp_consumer (s\<lparr>sp_consumer := C_nonempty t\<rparr>) = C_nonempty t" by simp
      from take_item [OF consumer_step_inv [OF step assms] this] step show ?thesis
        by (meson converse_rtranclp_into_rtranclp)
    qed
  qed (use assms release take_item in blast)+
qed

lemma consumer_drains:
  assumes "spsc_inv C s"
  shows "\<exists>s'. (consumer_step C)\<^sup>*\<^sup>* s s' \<and> ring_contents s' = []"
  using assms
proof (induction "length (ring_contents s)" arbitrary: s rule: less_induct)
  case less
  from consumer_finishes [OF less.prems] obtain s1
    where s1: "(consumer_step C)\<^sup>*\<^sup>* s s1" "sp_consumer s1 = C_idle" by blast
  note run = consumer_steps_inv [OF s1(1) less.prems]
  have fewer: "length (ring_contents s1) \<le> length (ring_contents s)"
  proof -
    have "length (sp_delivered s1) + length (ring_contents s1) = length (sp_delivered s) + length (ring_contents s)"
      using run spsc_invD(2) [OF less.prems] spsc_invD(2) [of C s1] by (metis length_append)
    with run show ?thesis by simp
  qed
  show ?case
  proof (cases "ring_contents s1")
    case Nil
    with s1(1) show ?thesis by blast
  next
    case (Cons x xs)
    from consumer_delivers [OF _ s1(2) this, of C] run obtain s3
      where s3: "(consumer_step C)\<^sup>*\<^sup>* s1 s3" "ring_contents s3 = xs"
      by (meson converse_rtranclp_into_rtranclp rtranclp.rtrancl_refl)
    have "spsc_inv C s3" using consumer_steps_inv [OF s3(1)] run by blast
    moreover have "length (ring_contents s3) < length (ring_contents s)" using fewer Cons s3(2) by simp
    ultimately obtain s' where "(consumer_step C)\<^sup>*\<^sup>* s3 s'" "ring_contents s' = []"
      using less.hyps by blast
    with s1(1) s3(1) show ?thesis by (meson rtranclp_trans)
  qed
qed

section \<open>Properties\<close>

text \<open>
  C15. In every interleaving of the producer's and the consumer's atomic steps, what was delivered
  followed by what the ring holds is what was committed, in order; the ring holds at most
  \<open>Capacity - 1\<close> items; and a consumer with a popped slot reads in it exactly the item last
  delivered until it writes to the slot itself.
\<close>

theorem concurrent_ring_is_fifo:
  assumes "spsc_reachable C s" "is_pow_of_2 C"
  shows "sp_committed s = sp_delivered s @ ring_contents s \<and> length (ring_contents s) \<le> unat C - 1
    \<and> (\<forall>t. sp_consumer s = C_holding t \<longrightarrow> fetch (rb_buffer s) t = Some (last (sp_delivered s)))"
proof -
  note inv = spsc_invD [OF spsc_reachable_inv [OF assms]]
  show ?thesis
    using inv(2,4) ring_contents_bound [OF inv(1)] ring_wfD [OF inv(1)]
    by (auto simp: consumer_inv_def)
qed

text \<open>A run on two slots: the producer fills and commits a slot and takes the other, the consumer pops.\<close>

definition example_filling :: "nat spsc" where
  "example_filling =
     \<lparr>rb_buffer = [7, 0], rb_tail = 0, rb_head = 0, rb_headCached = 0, rb_headNext = 1,
      sp_producer = P_filling, sp_consumer = C_idle, sp_committed = [], sp_delivered = []\<rparr>"

lemma example_filling_reachable: "spsc_reachable 2 example_filling"
proof -
  have two_slots: "replicate 2 (0 :: nat) = [0, 0]" by (simp add: numeral_2_eq_2)
  let ?s0 = "spsc_initial 2 (0 :: nat)"
  let ?s1 = "?s0\<lparr>rb_headCached := rb_head ?s0, rb_headNext := fast_modulo (rb_head ?s0 + 1) 2, sp_producer := P_loaded\<rparr>"
  have "spsc_reachable 2 ?s1"
    by (rule spsc_reachable.producer [OF spsc_reachable.initial producer_step.load_head])
      (simp add: spsc_initial_def)
  then have "spsc_reachable 2 (?s1\<lparr>sp_producer := P_filling\<rparr>)"
    by (rule spsc_reachable.producer [OF _ producer_step.got_slot])
      (simp_all add: spsc_initial_def fast_modulo_def)
  moreover have "producer_step 2 (?s1\<lparr>sp_producer := P_filling\<rparr>)
      (?s1\<lparr>sp_producer := P_filling, rb_buffer := [7, 0]\<rparr>)"
    using producer_step.write_slot [of "?s1\<lparr>sp_producer := P_filling\<rparr>" 7 "[7, 0]" 2]
    by (simp add: spsc_initial_def store_def two_slots)
  ultimately have "spsc_reachable 2 (?s1\<lparr>sp_producer := P_filling, rb_buffer := [7, 0]\<rparr>)"
    by (rule spsc_reachable.producer)
  then show ?thesis by (simp add: spsc_initial_def example_filling_def fast_modulo_def)
qed

lemma example_holding_reachable:
  "spsc_reachable 2 (example_filling\<lparr>rb_head := 1, sp_producer := P_idle, sp_committed := [7],
     rb_tail := 1, sp_consumer := C_holding 0, sp_delivered := [7]\<rparr>)"
proof -
  let ?s = "example_filling\<lparr>rb_head := 1, sp_producer := P_idle, sp_committed := [7]\<rparr>"
  have "producer_step 2 example_filling ?s"
    using producer_step.commit_slot [of example_filling 7] by (simp add: example_filling_def)
  with example_filling_reachable have "spsc_reachable 2 ?s" by (rule spsc_reachable.producer)
  moreover have "consumer_step 2 ?s (?s\<lparr>sp_consumer := C_loaded 0\<rparr>)"
    using consumer_step.load_tail [of ?s] by (simp add: example_filling_def)
  ultimately have "spsc_reachable 2 (?s\<lparr>sp_consumer := C_loaded 0\<rparr>)" by (rule spsc_reachable.consumer)
  moreover have "consumer_step 2 (?s\<lparr>sp_consumer := C_loaded 0\<rparr>) (?s\<lparr>sp_consumer := C_nonempty 0\<rparr>)"
    using consumer_step.found_item [of "?s\<lparr>sp_consumer := C_loaded 0\<rparr>" 0] by (simp add: example_filling_def)
  ultimately have "spsc_reachable 2 (?s\<lparr>sp_consumer := C_nonempty 0\<rparr>)" by (rule spsc_reachable.consumer)
  moreover have "consumer_step 2 (?s\<lparr>sp_consumer := C_nonempty 0\<rparr>)
      (?s\<lparr>rb_tail := 1, sp_consumer := C_holding 0, sp_delivered := [7]\<rparr>)"
    using consumer_step.store_tail [of "?s\<lparr>sp_consumer := C_nonempty 0\<rparr>" 0 7 2]
    by (simp add: example_filling_def fast_modulo_def)
  ultimately show ?thesis by (rule spsc_reachable.consumer)
qed

theorem concurrent_ring_is_fifo_witness:
  "let s = example_filling\<lparr>rb_head := 1, sp_producer := P_idle, sp_committed := [7],
     rb_tail := 1, sp_consumer := C_holding 0, sp_delivered := [7]\<rparr>
   in fetch (rb_buffer s) 0 = Some 7 \<and> ring_contents s = []"
  using concurrent_ring_is_fifo [OF example_holding_reachable]
  by (simp add: is_pow_of_2_def Let_def)

text \<open>
  C16. No interleaving lets the two threads touch one slot: the slot the producer writes is neither
  the one the consumer has popped nor the one it is about to pop, and no write of either thread
  changes an item the ring holds.
\<close>

theorem concurrent_slots_exclusive:
  assumes "spsc_reachable C s" "is_pow_of_2 C" "sp_producer s = P_filling"
  shows "sp_consumer s \<notin> {C_nonempty (rb_headCached s), C_holding (rb_headCached s), C_clearing (rb_headCached s)}
    \<and> (\<forall>x b. store (rb_headCached s) x (rb_buffer s) = Some b \<longrightarrow>
         ring_contents (s\<lparr>rb_buffer := b\<rparr>) = ring_contents s)"
proof -
  note inv = spsc_reachable_inv [OF assms(1,2)]
  note invD = spsc_invD [OF inv]
  have head: "rb_headCached s = rb_head s" using invD(3) assms(3) by (simp add: producer_inv_def)
  have "rb_tail s = fast_modulo (t + 1) C \<Longrightarrow> t \<noteq> rb_headCached s" for t
    using popped_not_filling [OF inv assms(3)] .
  with invD(4) head have "sp_consumer s \<notin>
      {C_nonempty (rb_headCached s), C_holding (rb_headCached s), C_clearing (rb_headCached s)}"
    by (cases "sp_consumer s") (auto simp: consumer_inv_def)
  with ring_wfD [OF invD(1)] ring_write_free [OF invD(1)] head
  show ?thesis by (simp add: store_def)
qed

theorem concurrent_slots_exclusive_witness:
  "sp_consumer example_filling \<notin> {C_nonempty 0, C_holding 0, C_clearing 0}"
  using concurrent_slots_exclusive [OF example_filling_reachable]
  by (simp add: is_pow_of_2_def example_filling_def)

text \<open>
  Progress: from every reachable state the consumer's own steps, whatever the producer did and
  wherever it stopped, lead to a state in which everything committed is delivered, in order.
\<close>

theorem committed_items_are_deliverable:
  assumes "spsc_reachable C s" "is_pow_of_2 C"
  shows "\<exists>s'. (consumer_step C)\<^sup>*\<^sup>* s s' \<and> sp_delivered s' = sp_committed s \<and> ring_contents s' = []"
proof -
  note inv = spsc_reachable_inv [OF assms]
  obtain s' where s': "(consumer_step C)\<^sup>*\<^sup>* s s'" "ring_contents s' = []" using consumer_drains [OF inv] by blast
  note run = consumer_steps_inv [OF s'(1) inv]
  with s'(2) spsc_invD(2) [of C s'] have "sp_delivered s' = sp_committed s" by simp
  with s' show ?thesis by blast
qed

theorem committed_items_are_deliverable_witness:
  "\<exists>s'. (consumer_step 2)\<^sup>*\<^sup>* (example_filling\<lparr>rb_head := 1, sp_producer := P_idle, sp_committed := [7],
     rb_tail := 1, sp_consumer := C_holding 0, sp_delivered := [7]\<rparr>) s' \<and> sp_delivered s' = [7]"
  using committed_items_are_deliverable [OF example_holding_reachable] by (auto simp: is_pow_of_2_def)

end
