(* ===== verification/Engine_Order.thy ===== *)
theory Engine_Order
  imports Prelude
begin

text \<open>
  The orders of the matching engine (MatchingEngine_UnitTests/common/Order.h and Order.cpp): the
  enumerations, the order record with its default values, and the builder.
\<close>

datatype order_side = BUY | SELL

datatype engine_order_type =
    LIMIT | MARKET | STOP_LIMIT | STOP_MARKET | TAKE_PROFIT_LIMIT | TAKE_PROFIT_MARKET

datatype order_stop_condition = STOP_NONE | GREATER_EQUAL | LESS_EQUAL

datatype order_action_type = NEW | AMEND | CANCEL | RECOVERY | RECOVERY_END

datatype order_time_condition = GTC | IOC | FOK | MAKER_ONLY | MAKER_ONLY_REPRICE

datatype trigger_type = MARK_PRICE | LAST_PRICE | TRIGGER_NONE

datatype self_trade_protection_type = STP_NONE | STP_TAKER | STP_MAKER | STP_BOTH

datatype order_status_type =
    OPEN | PARTIAL_FILL | FILLED | CANCELED_BY_USER
  | CANCELED_BY_MARKET_ORDER_NOT_FULL_MATCHED | CANCELED_BY_MARKET_ORDER_NOTHING_MATCH
  | CANCELED_ALL_BY_IOC | CANCELED_PARTIAL_BY_IOC | CANCELED_BY_FOK | CANCELED_BY_MAKER_ONLY
  | CANCELED_BY_AMEND | CANCELED_BY_SELF_TRADE_PROTECTION
  | REJECT_CANCEL_ORDER_ID_NOT_FOUND | REJECT_AMEND_ORDER_ID_NOT_FOUND
  | REJECT_DISPLAY_QUANTITY_ZERO | REJECT_DISPLAY_QUANTITY_LARGER_THAN_QUANTITY
  | REJECT_QUANTITY_AND_AMOUNT_ZERO | REJECT_LIMIT_ORDER_WITH_MARKET_PRICE
  | REJECT_MATCHING_ENGINE_RECOVERING | REJECT_STOP_CONDITION_IS_NONE
  | REJECT_STOP_TRIGGER_PRICE_IS_NONE | REJECT_QUANTITY_AND_AMOUNT_LARGER_ZERO

datatype order_matched_type = MAKER | TAKER

record engine_order =
  eo_side :: order_side
  eo_type :: engine_order_type
  eo_triggerType :: trigger_type
  eo_stopCondition :: order_stop_condition
  eo_timeCondition :: order_time_condition
  eo_action :: order_action_type
  eo_status :: order_status_type
  eo_matchedType :: order_matched_type
  eo_selfTradeProtectionType :: self_trade_protection_type
  eo_orderId :: u64
  eo_accountId :: u64
  eo_parentAccountId :: u64
  eo_marketId :: u64
  eo_price :: u64
  eo_quantity :: u64
  eo_displayQuantity :: u64
  eo_remainQuantity :: u64
  eo_amount :: u64
  eo_remainAmount :: u64

definition default_order :: engine_order where
  "default_order =
     \<lparr>eo_side = BUY, eo_type = LIMIT, eo_triggerType = LAST_PRICE, eo_stopCondition = STOP_NONE,
      eo_timeCondition = GTC, eo_action = NEW, eo_status = OPEN, eo_matchedType = MAKER,
      eo_selfTradeProtectionType = STP_NONE, eo_orderId = 0, eo_accountId = 0,
      eo_parentAccountId = 0, eo_marketId = 0, eo_price = 0, eo_quantity = 0,
      eo_displayQuantity = 0, eo_remainQuantity = 0, eo_amount = 0, eo_remainAmount = 0\<rparr>"

section \<open>OrderBuilder\<close>

text \<open>A setter returns the builder it was called on; \<open>long long\<close> prices become unsigned.\<close>

record order_builder =
  bu_order :: engine_order

definition new_builder :: order_builder where
  "new_builder = \<lparr>bu_order = default_order\<rparr>"

definition build :: "order_builder \<Rightarrow> engine_order" where
  "build b = bu_order b"

definition setOrderSide :: "order_side \<Rightarrow> order_builder \<Rightarrow> order_builder" where
  "setOrderSide v b = b\<lparr>bu_order := (bu_order b)\<lparr>eo_side := v\<rparr>\<rparr>"

definition setOrderType :: "engine_order_type \<Rightarrow> order_builder \<Rightarrow> order_builder" where
  "setOrderType v b = b\<lparr>bu_order := (bu_order b)\<lparr>eo_type := v\<rparr>\<rparr>"

definition setOrderActionType :: "order_action_type \<Rightarrow> order_builder \<Rightarrow> order_builder" where
  "setOrderActionType v b = b\<lparr>bu_order := (bu_order b)\<lparr>eo_action := v\<rparr>\<rparr>"

definition setOrderTimeCondition :: "order_time_condition \<Rightarrow> order_builder \<Rightarrow> order_builder" where
  "setOrderTimeCondition v b = b\<lparr>bu_order := (bu_order b)\<lparr>eo_timeCondition := v\<rparr>\<rparr>"

definition setTriggerType :: "trigger_type \<Rightarrow> order_builder \<Rightarrow> order_builder" where
  "setTriggerType v b = b\<lparr>bu_order := (bu_order b)\<lparr>eo_triggerType := v\<rparr>\<rparr>"

definition setOrderStatusType :: "order_status_type \<Rightarrow> order_builder \<Rightarrow> order_builder" where
  "setOrderStatusType v b = b\<lparr>bu_order := (bu_order b)\<lparr>eo_status := v\<rparr>\<rparr>"

definition setOrderMatchedType :: "order_matched_type \<Rightarrow> order_builder \<Rightarrow> order_builder" where
  "setOrderMatchedType v b = b\<lparr>bu_order := (bu_order b)\<lparr>eo_matchedType := v\<rparr>\<rparr>"

definition setOrderId :: "u64 \<Rightarrow> order_builder \<Rightarrow> order_builder" where
  "setOrderId v b = b\<lparr>bu_order := (bu_order b)\<lparr>eo_orderId := v\<rparr>\<rparr>"

definition setMarketId :: "u64 \<Rightarrow> order_builder \<Rightarrow> order_builder" where
  "setMarketId v b = b\<lparr>bu_order := (bu_order b)\<lparr>eo_marketId := v\<rparr>\<rparr>"

definition setAmount :: "u64 \<Rightarrow> order_builder \<Rightarrow> order_builder" where
  "setAmount v b = b\<lparr>bu_order := (bu_order b)\<lparr>eo_amount := v\<rparr>\<rparr>"

definition setRemainAmount :: "u64 \<Rightarrow> order_builder \<Rightarrow> order_builder" where
  "setRemainAmount v b = b\<lparr>bu_order := (bu_order b)\<lparr>eo_remainAmount := v\<rparr>\<rparr>"

definition setQuantity :: "u64 \<Rightarrow> order_builder \<Rightarrow> order_builder" where
  "setQuantity v b = b\<lparr>bu_order := (bu_order b)\<lparr>eo_quantity := v\<rparr>\<rparr>"

definition setDisplayQuantity :: "u64 \<Rightarrow> order_builder \<Rightarrow> order_builder" where
  "setDisplayQuantity v b = b\<lparr>bu_order := (bu_order b)\<lparr>eo_displayQuantity := v\<rparr>\<rparr>"

definition setRemainQuantity :: "u64 \<Rightarrow> order_builder \<Rightarrow> order_builder" where
  "setRemainQuantity v b = b\<lparr>bu_order := (bu_order b)\<lparr>eo_remainQuantity := v\<rparr>\<rparr>"

definition setPrice :: "i64 \<Rightarrow> order_builder \<Rightarrow> order_builder" where
  "setPrice v b = b\<lparr>bu_order := (bu_order b)\<lparr>eo_price := v\<rparr>\<rparr>"

definition setAccountId :: "u64 \<Rightarrow> order_builder \<Rightarrow> order_builder" where
  "setAccountId v b = b\<lparr>bu_order := (bu_order b)\<lparr>eo_accountId := v\<rparr>\<rparr>"

definition setParentAccountId :: "u64 \<Rightarrow> order_builder \<Rightarrow> order_builder" where
  "setParentAccountId v b = b\<lparr>bu_order := (bu_order b)\<lparr>eo_parentAccountId := v\<rparr>\<rparr>"

lemmas builder_defs = new_builder_def build_def setOrderSide_def setOrderType_def
  setOrderActionType_def setOrderTimeCondition_def setTriggerType_def setOrderStatusType_def
  setOrderMatchedType_def setOrderId_def setMarketId_def setAmount_def setRemainAmount_def
  setQuantity_def setDisplayQuantity_def setRemainQuantity_def setPrice_def setAccountId_def
  setParentAccountId_def default_order_def

text \<open>A limit order as the tests build it.\<close>

definition limit_order :: "order_side \<Rightarrow> order_action_type \<Rightarrow> u64 \<Rightarrow> u64 \<Rightarrow> u64 \<Rightarrow> engine_order" where
  "limit_order side action oid p q =
     build (setQuantity q (setPrice p (setOrderId oid (setOrderActionType action (setOrderSide side new_builder)))))"

lemma limit_order_fields [simp]:
  "eo_side (limit_order sd a i p q) = sd" "eo_action (limit_order sd a i p q) = a"
  "eo_orderId (limit_order sd a i p q) = i" "eo_price (limit_order sd a i p q) = p"
  "eo_quantity (limit_order sd a i p q) = q"
  by (simp_all add: limit_order_def builder_defs)

section \<open>Destroyed objects\<close>

text \<open>
  Reading an object after it was destroyed has no defined result in C++. The engines whose
  \<open>cancelOrder\<close> does so take as an argument what such a read gives: \<open>Undefined_Reads\<close> is the
  language's answer, \<open>Contents_Stay\<close> a run in which the memory still shows what the object held.
\<close>

datatype dead_memory = Undefined_Reads | Contents_Stay

primrec read_dead :: "dead_memory \<Rightarrow> 'a \<Rightarrow> 'a option" where
  "read_dead Undefined_Reads x = None"
| "read_dead Contents_Stay x = Some x"

end
