(* ===== verification/Matching_Engine.thy ===== *)
theory Matching_Engine
  imports Engine_Order Std_Map Sorted_Array
begin

text \<open>
  The price-time matching engine (MatchingEngine_UnitTests/engine/MatchingEngine.h and
  MatchingEngine.cpp): resting orders in one list per price level, the levels of a side in a
  \<open>boost::container::flat_map\<close> ordered best price first, and an index from order ids to the
  order's place.

  The price levels are heap objects the map entries own and the index points to: \<open>en_levels\<close> is the
  store, an address is a number, \<open>en_fresh\<close> the next one. An order is owned by its list node, so the
  list holds the orders, and the order pointer and list iterator of an index entry are the order's
  id. An operation whose pointers do not lead to an object has no result. \<open>cancelOrder\<close> reads the
  order after its list node was erased, and the level pointer of the index entry after the entry
  was: what these reads give is the argument \<open>dead\<close> of the operations that cancel.

  \<open>flat_map\<close> is third-party code: its operations are the argument \<open>ops\<close> of the definitions, one
  record for each side's comparator, and the locale \<open>price_map\<close> states its documented behaviour.
\<close>

section \<open>Trades\<close>

record order_info =
  oi_id :: u64
  oi_price :: u64

record engine_trade =
  et_buyOrderInfo :: order_info
  et_sellOrderInfo :: order_info
  et_quantity :: u32

definition new_trade :: engine_trade where
  "new_trade = \<lparr>et_buyOrderInfo = \<lparr>oi_id = 0, oi_price = 0\<rparr>,
                et_sellOrderInfo = \<lparr>oi_id = 0, oi_price = 0\<rparr>, et_quantity = 0\<rparr>"

definition order_info_of :: "engine_order \<Rightarrow> order_info" where
  "order_info_of ord = \<lparr>oi_id = eo_orderId ord, oi_price = eo_price ord\<rparr>"

definition setBuyOrder :: "engine_order \<Rightarrow> engine_trade \<Rightarrow> engine_trade" where
  "setBuyOrder ord t = t\<lparr>et_buyOrderInfo := order_info_of ord\<rparr>"

definition setSellOrder :: "engine_order \<Rightarrow> engine_trade \<Rightarrow> engine_trade" where
  "setSellOrder ord t = t\<lparr>et_sellOrderInfo := order_info_of ord\<rparr>"

text \<open>The argument of \<open>setQuantity\<close> is 32 bits wide, and the quantities are 64: it is cut.\<close>

definition setTradeQuantity :: "u64 \<Rightarrow> engine_trade \<Rightarrow> engine_trade" where
  "setTradeQuantity qnty t = t\<lparr>et_quantity := ucast qnty\<rparr>"

section \<open>State\<close>

record price_level =
  pl_orders :: "engine_order list"
  pl_quantity :: u32

record references_block =
  rf_order :: u64
  rf_priceLevel :: nat

record 'm matching_engine =
  en_orderByID :: "(u64, references_block) smap"
  en_bids :: 'm
  en_asks :: 'm
  en_trades :: "engine_trade list"
  en_levels :: "nat \<Rightarrow> price_level option"
  en_fresh :: nat

text \<open>
  The members of a \<open>flat_map\<close> from prices to owned levels the engine uses: default construction,
  dereferencing \<open>begin() + i\<close> (no value at \<open>end()\<close>), erasing at an iterator, \<open>emplace\<close> (the place
  of the entry and whether it was inserted), assignment through an iterator, erasing by key, and
  the size.
\<close>

record 'm flat_map_ops =
  fo_new :: 'm
  fo_at :: "'m \<Rightarrow> nat \<Rightarrow> (u64 \<times> nat option) option"
  fo_erase_at :: "nat \<Rightarrow> 'm \<Rightarrow> 'm"
  fo_emplace :: "u64 \<Rightarrow> nat option \<Rightarrow> 'm \<Rightarrow> nat \<times> bool \<times> 'm"
  fo_assign :: "nat \<Rightarrow> nat option \<Rightarrow> 'm \<Rightarrow> 'm"
  fo_erase_key :: "u64 \<Rightarrow> 'm \<Rightarrow> 'm"
  fo_size :: "'m \<Rightarrow> nat"

definition new_engine :: "(order_side \<Rightarrow> 'm flat_map_ops) \<Rightarrow> 'm matching_engine" where
  "new_engine ops =
     \<lparr>en_orderByID = [], en_bids = fo_new (ops BUY), en_asks = fo_new (ops SELL),
      en_trades = [], en_levels = Map.empty, en_fresh = 0\<rparr>"

text \<open>The map of the resting orders of a side.\<close>

definition side_map :: "order_side \<Rightarrow> 'm matching_engine \<Rightarrow> 'm" where
  "side_map s e = (case s of BUY \<Rightarrow> en_bids e | SELL \<Rightarrow> en_asks e)"

definition set_side_map :: "order_side \<Rightarrow> 'm \<Rightarrow> 'm matching_engine \<Rightarrow> 'm matching_engine" where
  "set_side_map s m e = (case s of BUY \<Rightarrow> e\<lparr>en_bids := m\<rparr> | SELL \<Rightarrow> e\<lparr>en_asks := m\<rparr>)"

section \<open>Matching\<close>

text \<open>The loop of \<open>matchOrderList\<close> over the orders of a level, with the trades and the index.\<close>

definition make_trade :: "engine_order \<Rightarrow> engine_order \<Rightarrow> engine_trade" where
  "make_trade ord matchedOrder =
     (let trade = setTradeQuantity (min (eo_quantity matchedOrder) (eo_quantity ord)) new_trade
      in if eo_side ord = SELL then setSellOrder ord (setBuyOrder matchedOrder trade)
         else setSellOrder matchedOrder (setBuyOrder ord trade))"

fun match_orders ::
  "engine_order \<Rightarrow> engine_order list \<Rightarrow> engine_trade list \<Rightarrow> (u64, references_block) smap
    \<Rightarrow> engine_order \<times> engine_order list \<times> engine_trade list \<times> (u64, references_block) smap" where
  "match_orders ord [] trades index = (ord, [], trades, index)"
| "match_orders ord (matchedOrder # rest) trades index =
     (let trades1 = trades @ [make_trade ord matchedOrder]
      in if eo_quantity ord \<ge> eo_quantity matchedOrder
         then match_orders (ord\<lparr>eo_quantity := eo_quantity ord - eo_quantity matchedOrder\<rparr>) rest
                trades1 (smap_erase (eo_orderId matchedOrder) index)
         else (ord\<lparr>eo_quantity := 0\<rparr>,
               matchedOrder\<lparr>eo_quantity := eo_quantity matchedOrder - eo_quantity ord\<rparr> # rest,
               trades1, index))"

definition matchOrderList ::
  "engine_order \<Rightarrow> nat \<Rightarrow> 'm matching_engine \<Rightarrow> (bool \<times> engine_order \<times> 'm matching_engine) option" where
  "matchOrderList ord priceLevel e =
     (case en_levels e priceLevel of
        None \<Rightarrow> None
      | Some level \<Rightarrow>
          (case match_orders ord (pl_orders level) (en_trades e) (en_orderByID e) of
             (ord', orders', trades', index') \<Rightarrow>
               Some (orders' = [], ord',
                     e\<lparr>en_levels := (en_levels e)(priceLevel \<mapsto> level\<lparr>pl_orders := orders'\<rparr>),
                       en_trades := trades', en_orderByID := index'\<rparr>)))"

text \<open>
  The comparator \<open>std::greater_equal\<close> for the bids and \<open>std::less_equal\<close> for the asks, and the loop
  over the opposite side's levels. The iterator is its distance from \<open>begin()\<close>; erasing the entry
  it points to leaves it at the next one. Erasing destroys the level the entry owns.
\<close>

definition comparator :: "order_side \<Rightarrow> u64 \<Rightarrow> u64 \<Rightarrow> bool" where
  "comparator opposite levelPrice orderPrice =
     (case opposite of BUY \<Rightarrow> levelPrice \<ge> orderPrice | SELL \<Rightarrow> levelPrice \<le> orderPrice)"

definition erase_level_at ::
  "(order_side \<Rightarrow> 'm flat_map_ops) \<Rightarrow> order_side \<Rightarrow> nat \<Rightarrow> nat \<Rightarrow> 'm matching_engine \<Rightarrow> 'm matching_engine" where
  "erase_level_at ops s i level e =
     (set_side_map s (fo_erase_at (ops s) i (side_map s e)) e)\<lparr>en_levels := (en_levels e)(level := None)\<rparr>"

partial_function (option) match_levels ::
  "(order_side \<Rightarrow> 'm flat_map_ops) \<Rightarrow> order_side \<Rightarrow> nat \<Rightarrow> engine_order \<Rightarrow> 'm matching_engine
    \<Rightarrow> (engine_order \<times> 'm matching_engine) option" where
  "match_levels ops opposite i ord e =
     (case fo_at (ops opposite) (side_map opposite e) i of
        None \<Rightarrow> Some (ord, e)
      | Some (levelPrice, levelPtr) \<Rightarrow>
          if eo_quantity ord > 0 \<and> comparator opposite levelPrice (eo_price ord)
          then (case levelPtr of
                  None \<Rightarrow> None
                | Some level \<Rightarrow>
                    (case matchOrderList ord level e of
                       None \<Rightarrow> None
                     | Some (levelEmpty, ord', e') \<Rightarrow>
                         if levelEmpty
                         then match_levels ops opposite i ord' (erase_level_at ops opposite i level e')
                         else match_levels ops opposite (i + 1) ord' e'))
          else Some (ord, e))"

definition opposite_side :: "order_side \<Rightarrow> order_side" where
  "opposite_side s = (if s = SELL then BUY else SELL)"

definition matchOrder ::
  "(order_side \<Rightarrow> 'm flat_map_ops) \<Rightarrow> engine_order \<Rightarrow> 'm matching_engine
    \<Rightarrow> (u64 \<times> engine_order \<times> 'm matching_engine) option" where
  "matchOrder ops ord e =
     (case match_levels ops (opposite_side (eo_side ord)) 0 ord e of
        None \<Rightarrow> None
      | Some (ord', e') \<Rightarrow> Some (eo_quantity ord', ord', e'))"

section \<open>Handlers\<close>

definition getOrderPriceList ::
  "(order_side \<Rightarrow> 'm flat_map_ops) \<Rightarrow> order_side \<Rightarrow> u64 \<Rightarrow> 'm matching_engine
    \<Rightarrow> (nat \<times> 'm matching_engine) option" where
  "getOrderPriceList ops s price e =
     (case fo_emplace (ops s) price None (side_map s e) of
        (iter, inserted, m) \<Rightarrow>
          let (m1, e1) =
            (if inserted
             then (fo_assign (ops s) iter (Some (en_fresh e)) m,
                   e\<lparr>en_levels := (en_levels e)(en_fresh e \<mapsto> \<lparr>pl_orders = [], pl_quantity = 0\<rparr>),
                     en_fresh := en_fresh e + 1\<rparr>)
             else (m, e))
          in (case fo_at (ops s) m1 iter of
                Some (_, Some level) \<Rightarrow> Some (level, set_side_map s m1 e1)
              | _ \<Rightarrow> None))"

definition handleOrderNew ::
  "(order_side \<Rightarrow> 'm flat_map_ops) \<Rightarrow> engine_order \<Rightarrow> 'm matching_engine \<Rightarrow> 'm matching_engine option" where
  "handleOrderNew ops ord0 e0 =
     do {
       (remaining, ord, e) \<leftarrow> matchOrder ops ord0 e0;
       if remaining = 0 then Some e
       else if smap_find (en_orderByID e) (eo_orderId ord) \<noteq> None then Some e
       else do {
         (level, e1) \<leftarrow> getOrderPriceList ops (if eo_side ord = BUY then BUY else SELL) (eo_price ord) e;
         l \<leftarrow> en_levels e1 level;
         let l1 = l\<lparr>pl_quantity := pl_quantity l + ucast (eo_quantity ord)\<rparr>;
         let l2 = l1\<lparr>pl_orders := pl_orders l1 @ [ord]\<rparr>;
         Some (e1\<lparr>en_levels := (en_levels e1)(level \<mapsto> l2),
                  en_orderByID := smap_assign (eo_orderId ord)
                    \<lparr>rf_order = eo_orderId ord, rf_priceLevel = level\<rparr> (en_orderByID e1)\<rparr>) } }"

text \<open>The order an index entry points to, and erasing its list node.\<close>

definition order_with_id :: "u64 \<Rightarrow> engine_order list \<Rightarrow> engine_order option" where
  "order_with_id i orders = find (\<lambda>o1. eo_orderId o1 = i) orders"

fun erase_order :: "u64 \<Rightarrow> engine_order list \<Rightarrow> engine_order list" where
  "erase_order i [] = []"
| "erase_order i (x # xs) = (if eo_orderId x = i then xs else x # erase_order i xs)"

fun assign_quantity :: "u64 \<Rightarrow> u64 \<Rightarrow> engine_order list \<Rightarrow> engine_order list" where
  "assign_quantity i q [] = []"
| "assign_quantity i q (x # xs) =
     (if eo_orderId x = i then x\<lparr>eo_quantity := q\<rparr> # xs else x # assign_quantity i q xs)"

definition cancelOrder ::
  "dead_memory \<Rightarrow> (order_side \<Rightarrow> 'm flat_map_ops) \<Rightarrow> u64 \<Rightarrow> references_block \<Rightarrow> 'm matching_engine
    \<Rightarrow> 'm matching_engine option" where
  "cancelOrder dead ops key refs e =
     do {
       l \<leftarrow> en_levels e (rf_priceLevel refs);
       destroyed \<leftarrow> order_with_id (rf_order refs) (pl_orders l);
       let l1 = l\<lparr>pl_orders := erase_order (rf_order refs) (pl_orders l)\<rparr>;
       ord \<leftarrow> read_dead dead destroyed;
       let l2 = l1\<lparr>pl_quantity := pl_quantity l1 - ucast (eo_quantity ord)\<rparr>;
       let e1 = e\<lparr>en_levels := (en_levels e)(rf_priceLevel refs \<mapsto> l2),
                  en_orderByID := smap_erase key (en_orderByID e)\<rparr>;
       priceLevel \<leftarrow> read_dead dead (rf_priceLevel refs);
       Some (if pl_orders l2 = []
             then let s = (if eo_side ord = BUY then BUY else SELL)
                  in (set_side_map s (fo_erase_key (ops s) (eo_price ord) (side_map s e1)) e1)
                       \<lparr>en_levels := (en_levels e1)(priceLevel := None)\<rparr>
             else e1) }"

definition handleOrderCancel ::
  "dead_memory \<Rightarrow> (order_side \<Rightarrow> 'm flat_map_ops) \<Rightarrow> engine_order \<Rightarrow> 'm matching_engine \<Rightarrow> 'm matching_engine option" where
  "handleOrderCancel dead ops ord e =
     (case smap_find (en_orderByID e) (eo_orderId ord) of
        None \<Rightarrow> Some e
      | Some refs \<Rightarrow>
          do { l \<leftarrow> en_levels e (rf_priceLevel refs);
               resting \<leftarrow> order_with_id (rf_order refs) (pl_orders l);
               if eo_side ord = eo_side resting then cancelOrder dead ops (eo_orderId ord) refs e
               else Some e })"

definition handleOrderAmend ::
  "dead_memory \<Rightarrow> (order_side \<Rightarrow> 'm flat_map_ops) \<Rightarrow> engine_order \<Rightarrow> 'm matching_engine \<Rightarrow> 'm matching_engine option" where
  "handleOrderAmend dead ops ord e =
     (case smap_find (en_orderByID e) (eo_orderId ord) of
        None \<Rightarrow> Some e
      | Some refs \<Rightarrow>
          do { l \<leftarrow> en_levels e (rf_priceLevel refs);
               orderOriginal \<leftarrow> order_with_id (rf_order refs) (pl_orders l);
               if eo_side orderOriginal \<noteq> eo_side ord then Some e
               else if eo_price orderOriginal \<noteq> eo_price ord
               then do { e1 \<leftarrow> cancelOrder dead ops (eo_orderId ord) refs e; handleOrderNew ops ord e1 }
               else do {
                 let l1 = l\<lparr>pl_quantity := pl_quantity l - ucast (eo_quantity orderOriginal)\<rparr>;
                 let l2 = l1\<lparr>pl_quantity := pl_quantity l1 + ucast (eo_quantity ord)\<rparr>;
                 let l3 = l2\<lparr>pl_orders := assign_quantity (rf_order refs) (eo_quantity ord) (pl_orders l2)\<rparr>;
                 Some (e\<lparr>en_levels := (en_levels e)(rf_priceLevel refs \<mapsto> l3)\<rparr>) } })"

definition processOrder ::
  "dead_memory \<Rightarrow> (order_side \<Rightarrow> 'm flat_map_ops) \<Rightarrow> engine_order \<Rightarrow> 'm matching_engine \<Rightarrow> 'm matching_engine option" where
  "processOrder dead ops ord e =
     (case eo_action ord of
        NEW \<Rightarrow> handleOrderNew ops ord e
      | CANCEL \<Rightarrow> handleOrderCancel dead ops ord e
      | AMEND \<Rightarrow> handleOrderAmend dead ops ord e
      | _ \<Rightarrow> Some e)"

text \<open>
  Cancelling a resting order is what reads destroyed objects: a \<open>CANCEL\<close> that names a resting order
  of its side, or an \<open>AMEND\<close> that moves one to another price.
\<close>

definition named_order :: "engine_order \<Rightarrow> 'm matching_engine \<Rightarrow> engine_order option" where
  "named_order ord e =
     do { refs \<leftarrow> smap_find (en_orderByID e) (eo_orderId ord);
          l \<leftarrow> en_levels e (rf_priceLevel refs);
          order_with_id (rf_order refs) (pl_orders l) }"

definition takes_out :: "engine_order \<Rightarrow> engine_order \<Rightarrow> bool" where
  "takes_out ord resting \<longleftrightarrow> eo_side resting = eo_side ord
     \<and> (eo_action ord = CANCEL \<or> eo_action ord = AMEND \<and> eo_price resting \<noteq> eo_price ord)"

definition cancels_resting :: "engine_order \<Rightarrow> 'm matching_engine \<Rightarrow> bool" where
  "cancels_resting ord e = (case named_order ord e of None \<Rightarrow> False | Some resting \<Rightarrow> takes_out ord resting)"

lemma cancelOrder_undefined [simp]: "cancelOrder Undefined_Reads ops key refs e = None"
  by (simp add: cancelOrder_def Let_def split: bind_splits)

lemma processOrder_strict:
  "processOrder Undefined_Reads ops ord e =
     (if cancels_resting ord e then None else processOrder Contents_Stay ops ord e)"
proof (cases "smap_find (en_orderByID e) (eo_orderId ord)")
  case None
  then show ?thesis
    by (simp add: processOrder_def handleOrderCancel_def handleOrderAmend_def cancels_resting_def named_order_def
        split: order_action_type.split)
next
  case (Some refs)
  then show ?thesis
    by (cases "eo_action ord"; cases "named_order ord e")
      (auto simp: processOrder_def handleOrderCancel_def handleOrderAmend_def cancels_resting_def named_order_def
        takes_out_def Let_def split: bind_splits)
qed

text \<open>
  The queries. No result of the inner option when the front of an empty list would be read.
\<close>

definition best_order ::
  "(order_side \<Rightarrow> 'm flat_map_ops) \<Rightarrow> order_side \<Rightarrow> 'm matching_engine \<Rightarrow> engine_order option option" where
  "best_order ops s e =
     (case fo_at (ops s) (side_map s e) 0 of
        None \<Rightarrow> Some None
      | Some (_, ptr) \<Rightarrow>
          do { level \<leftarrow> ptr; l \<leftarrow> en_levels e level;
               (case pl_orders l of [] \<Rightarrow> None | ord # _ \<Rightarrow> Some (Some ord)) })"

definition getBestBuyOrder where "getBestBuyOrder ops = best_order ops BUY"

definition getBestSellOrder where "getBestSellOrder ops = best_order ops SELL"

definition getOrdersCount :: "'m matching_engine \<Rightarrow> nat" where
  "getOrdersCount e = length (en_orderByID e)"

definition getBuyPriceLevelCount :: "(order_side \<Rightarrow> 'm flat_map_ops) \<Rightarrow> 'm matching_engine \<Rightarrow> nat" where
  "getBuyPriceLevelCount ops e = fo_size (ops BUY) (en_bids e)"

definition getSellPriceLevelsCount :: "(order_side \<Rightarrow> 'm flat_map_ops) \<Rightarrow> 'm matching_engine \<Rightarrow> nat" where
  "getSellPriceLevelsCount ops e = fo_size (ops SELL) (en_asks e)"

end
