(* ===== verification/Engine_Book.thy ===== *)
theory Engine_Book
  imports Matching_Engine
begin

text \<open>
  What the matching engine's state stands for: the interface of the level maps (\<open>price_map\<close>), the
  invariant that ties maps, levels and index together (\<open>book_wf\<close>, over the entries of the two maps,
  the store of levels and the index), how the elementary changes keep it, and the abstract book:
  for each side a list of levels, best first, of orders, oldest first.
\<close>

section \<open>The interface of the level maps\<close>

text \<open>
  \<open>std::greater\<close> orders the bids, \<open>std::less\<close> the asks. \<open>entries\<close> is the map's sequence of entries
  in iteration order; the laws are the documented behaviour of an ordered map with unique keys.
\<close>

definition side_order :: "order_side \<Rightarrow> sort_order" where
  "side_order s = (case s of BUY \<Rightarrow> Descending | SELL \<Rightarrow> Ascending)"

locale price_map =
  fixes ops :: "'m flat_map_ops"
    and entries :: "'m \<Rightarrow> (u64 \<times> nat option) list"
    and ord :: sort_order
  assumes entries_new: "entries (fo_new ops) = []"
    and at_eq: "fo_at ops m i = (if i < length (entries m) then Some (entries m ! i) else None)"
    and erase_at_eq: "i < length (entries m) \<Longrightarrow>
      entries (fo_erase_at ops i m) = take i (entries m) @ drop (Suc i) (entries m)"
    and emplace_present: "sorted_keys ord (entries m) \<Longrightarrow> k \<in> fst ` set (entries m) \<Longrightarrow>
      \<exists>i m'. fo_emplace ops k v m = (i, False, m') \<and> entries m' = entries m
        \<and> i < length (entries m) \<and> fst (entries m ! i) = k"
    and emplace_new: "sorted_keys ord (entries m) \<Longrightarrow> k \<notin> fst ` set (entries m) \<Longrightarrow>
      \<exists>i m'. fo_emplace ops k v m = (i, True, m') \<and> entries m' = insert_entry ord (k, v) (entries m)
        \<and> i < length (entries m') \<and> entries m' ! i = (k, v)"
    and assign_eq: "i < length (entries m) \<Longrightarrow>
      entries (fo_assign ops i v m) = (entries m)[i := (fst (entries m ! i), v)]"
    and erase_key_eq: "sorted_keys ord (entries m) \<Longrightarrow>
      entries (fo_erase_key ops k m) = filter (\<lambda>x. fst x \<noteq> k) (entries m)"
    and size_eq: "fo_size ops m = length (entries m)"

locale engine_maps =
  fixes ops :: "order_side \<Rightarrow> 'm flat_map_ops"
    and entries :: "'m \<Rightarrow> (u64 \<times> nat option) list"
  assumes maps: "price_map (ops s) entries (side_order s)"

text \<open>A sorted sequence of entries is such a map.\<close>

definition list_ops :: "sort_order \<Rightarrow> (u64 \<times> nat option) list flat_map_ops" where
  "list_ops so =
     \<lparr>fo_new = [],
      fo_at = \<lambda>m i. if i < length m then Some (m ! i) else None,
      fo_erase_at = \<lambda>i m. take i m @ drop (Suc i) m,
      fo_emplace = \<lambda>k v m.
        (let m' = insert_entry so (k, v) m
         in (length (takeWhile (\<lambda>x. fst x \<noteq> k) m'), k \<notin> fst ` set m, m')),
      fo_assign = \<lambda>i v m. m[i := (fst (m ! i), v)],
      fo_erase_key = \<lambda>k m. filter (\<lambda>x. fst x \<noteq> k) m,
      fo_size = length\<rparr>"

lemma takeWhile_key:
  assumes "k \<in> fst ` set m"
  shows "length (takeWhile (\<lambda>x. fst x \<noteq> k) m) < length m
    \<and> fst (m ! length (takeWhile (\<lambda>x. fst x \<noteq> k) m)) = k"
  using assms by (induction m) auto

lemma insert_entry_present: "sorted_keys so m \<Longrightarrow> k \<in> fst ` set m \<Longrightarrow> insert_entry so (k, v) m = m"
proof (induction m)
  case (Cons x m)
  have "\<not> compare_keys so k (fst x)" if "k \<noteq> fst x"
    using Cons.prems that by (auto simp: compare_before dest: before_trans)
  with Cons show ?case by auto
qed simp

lemma set_insert_entry_new:
  "k \<notin> fst ` set m \<Longrightarrow> set (insert_entry so (k, v) m) = insert (k, v) (set m)"
  by (induction m) auto

lemma insert_entry_value:
  "k \<notin> fst ` set m \<Longrightarrow> x \<in> set (insert_entry so (k, v) m) \<Longrightarrow> fst x = k \<Longrightarrow> x = (k, v)"
  by (auto simp: set_insert_entry_new)

interpretation list_map: price_map "list_ops so" "\<lambda>m. m" so for so
proof
  fix m :: "(u64 \<times> nat option) list" and k v
  assume "sorted_keys so m" "k \<in> fst ` set m"
  then show "\<exists>i m'. fo_emplace (list_ops so) k v m = (i, False, m') \<and> m' = m \<and> i < length m \<and> fst (m ! i) = k"
    using takeWhile_key by (simp add: list_ops_def Let_def insert_entry_present)
next
  fix m :: "(u64 \<times> nat option) list" and k v
  assume a: "sorted_keys so m" "k \<notin> fst ` set m"
  let ?m = "insert_entry so (k, v) m"
  have "k \<in> fst ` set ?m" by (simp add: set_insert_entry(2))
  note tw = takeWhile_key [OF this]
  then have "?m ! length (takeWhile (\<lambda>x. fst x \<noteq> k) ?m) = (k, v)"
    by (intro insert_entry_value [OF a(2), where so = so]) simp_all
  with a tw show "\<exists>i m'. fo_emplace (list_ops so) k v m = (i, True, m') \<and> m' = ?m \<and> i < length m' \<and> m' ! i = (k, v)"
    by (simp add: list_ops_def Let_def)
qed (simp_all add: list_ops_def)

interpretation list_maps: engine_maps "\<lambda>s. list_ops (side_order s)" "\<lambda>m. m"
  by unfold_locales

section \<open>The invariant\<close>

definition orders_at :: "(nat \<Rightarrow> price_level option) \<Rightarrow> nat \<Rightarrow> engine_order list" where
  "orders_at L ptr = (case L ptr of Some l \<Rightarrow> pl_orders l | None \<Rightarrow> [])"

definition order_ids :: "engine_order list \<Rightarrow> u64 set" where
  "order_ids os = eo_orderId ` set os"

definition level_ok :: "order_side \<Rightarrow> u64 \<Rightarrow> engine_order list \<Rightarrow> bool" where
  "level_ok s p os \<longleftrightarrow> os \<noteq> [] \<and> distinct (map eo_orderId os) \<and> (\<forall>o1 \<in> set os. eo_side o1 = s \<and> eo_price o1 = p)"

definition book_wf ::
  "(order_side \<Rightarrow> (u64 \<times> nat option) list) \<Rightarrow> (nat \<Rightarrow> price_level option) \<Rightarrow> nat
    \<Rightarrow> (u64, references_block) smap \<Rightarrow> bool" where
  "book_wf E L F I \<longleftrightarrow>
     smap_wf I \<and> (\<forall>s. sorted_keys (side_order s) (E s))
   \<and> (\<forall>s p v. (p, v) \<in> set (E s) \<longrightarrow> (\<exists>ptr. v = Some ptr \<and> ptr < F \<and> level_ok s p (orders_at L ptr)))
   \<and> (\<forall>s p s' p' ptr. (p, Some ptr) \<in> set (E s) \<longrightarrow> (p', Some ptr) \<in> set (E s') \<longrightarrow> s = s' \<and> p = p')
   \<and> (\<forall>i r. smap_find I i = Some r \<longleftrightarrow> rf_order r = i \<and> i \<in> order_ids (orders_at L (rf_priceLevel r))
        \<and> (\<exists>s p. (p, Some (rf_priceLevel r)) \<in> set (E s)))"

lemma book_wfD:
  assumes "book_wf E L F I"
  shows "sorted_keys (side_order s) (E s)"
    "(p, v) \<in> set (E s) \<Longrightarrow> \<exists>ptr. v = Some ptr \<and> ptr < F \<and> level_ok s p (orders_at L ptr)"
    "(p, Some ptr) \<in> set (E s) \<Longrightarrow> (p', Some ptr) \<in> set (E s') \<Longrightarrow> s = s' \<and> p = p'"
    "smap_find I i = Some r \<longleftrightarrow> rf_order r = i \<and> i \<in> order_ids (orders_at L (rf_priceLevel r))
        \<and> (\<exists>s p. (p, Some (rf_priceLevel r)) \<in> set (E s))"
    "smap_wf I"
  using assms unfolding book_wf_def by metis+

lemma book_wfI:
  assumes "smap_wf I" "\<And>s. sorted_keys (side_order s) (E s)"
    and "\<And>s p v. (p, v) \<in> set (E s) \<Longrightarrow> \<exists>ptr. v = Some ptr \<and> ptr < F \<and> level_ok s p (orders_at L ptr)"
    and "\<And>s p s' p' ptr. (p, Some ptr) \<in> set (E s) \<Longrightarrow> (p', Some ptr) \<in> set (E s') \<Longrightarrow> s = s' \<and> p = p'"
    and "\<And>i r. smap_find I i = Some r \<longleftrightarrow> rf_order r = i \<and> i \<in> order_ids (orders_at L (rf_priceLevel r))
        \<and> (\<exists>s p. (p, Some (rf_priceLevel r)) \<in> set (E s))"
  shows "book_wf E L F I"
  unfolding book_wf_def using assms by blast

lemma orders_at_update [simp]:
  "orders_at (L(ptr \<mapsto> l)) q = (if q = ptr then pl_orders l else orders_at L q)"
  "orders_at (L(ptr := None)) q = (if q = ptr then [] else orders_at L q)"
  by (simp_all add: orders_at_def)

text \<open>A level's orders are replaced by others of its side and price, whose ids the index follows.\<close>

lemma book_wf_set_level:
  assumes wf: "book_wf E L F I" "(p, Some ptr) \<in> set (E s)" "level_ok s p (pl_orders l)"
    and new: "\<And>i. i \<in> order_ids (pl_orders l) \<Longrightarrow> i \<in> order_ids (orders_at L ptr) \<or> smap_find I i = None"
    and I': "smap_wf I'" "\<And>i. smap_find I' i =
      (if i \<in> order_ids (pl_orders l) then Some \<lparr>rf_order = i, rf_priceLevel = ptr\<rparr>
       else if i \<in> order_ids (orders_at L ptr) then None else smap_find I i)"
  shows "book_wf E (L(ptr \<mapsto> l)) F I'"
proof -
  note w = book_wfD [OF wf(1)]
  have other: "i \<in> order_ids (orders_at L q) \<Longrightarrow> (p', Some q) \<in> set (E s') \<Longrightarrow>
      smap_find I i = Some \<lparr>rf_order = i, rf_priceLevel = q\<rparr>" for i q p' s'
    using w(4) by auto
  have "(p', v) \<in> set (E s') \<Longrightarrow> \<exists>q. v = Some q \<and> q < F \<and> level_ok s' p' (orders_at (L(ptr \<mapsto> l)) q)" for s' p' v
    using w(2) [of p' v s'] wf(2,3) w(3) by (auto dest: w(3))
  moreover have "smap_find I' i = Some r \<longleftrightarrow> rf_order r = i
      \<and> i \<in> order_ids (orders_at (L(ptr \<mapsto> l)) (rf_priceLevel r))
      \<and> (\<exists>s p. (p, Some (rf_priceLevel r)) \<in> set (E s))" for i r
    using I'(2) [of i] wf(2) new [of i] other [of i] w(4) [of i r]
    by (cases r) (auto split: if_splits)
  ultimately show ?thesis using w(1,3) I'(1) by (intro book_wfI) assumption+
qed

text \<open>A level goes with its entry and its orders' ids.\<close>

lemma book_wf_drop_level:
  assumes wf: "book_wf E L F I" "(p, Some ptr) \<in> set (E s)"
    and E': "sorted_keys (side_order s) E'" "set E' = set (E s) - {(p, Some ptr)}"
    and I': "smap_wf I'" "\<And>i. smap_find I' i = (if i \<in> order_ids (orders_at L ptr) then None else smap_find I i)"
  shows "book_wf (E(s := E')) (L(ptr := None)) F I'"
proof -
  note w = book_wfD [OF wf(1)]
  have in_E: "(p', v) \<in> set ((E(s := E')) s') \<longleftrightarrow> (p', v) \<in> set (E s') \<and> v \<noteq> Some ptr" for p' v s'
    using E'(2) wf(2) w(3) by (auto dest: w(3) split: if_splits)
  have "smap_find I' i = Some r \<longleftrightarrow> rf_order r = i
      \<and> i \<in> order_ids (orders_at (L(ptr := None)) (rf_priceLevel r))
      \<and> (\<exists>s' p. (p, Some (rf_priceLevel r)) \<in> set ((E(s := E')) s'))" for i r
    using I'(2) [of i] w(4) [of i r] w(4) [of i "\<lparr>rf_order = i, rf_priceLevel = ptr\<rparr>"] wf(2) in_E
    by (auto simp: order_ids_def split: if_splits)
  moreover have "(p', v) \<in> set ((E(s := E')) s') \<Longrightarrow>
      \<exists>q. v = Some q \<and> q < F \<and> level_ok s' p' (orders_at (L(ptr := None)) q)" for s' p' v
    using w(2) [of p' v s'] in_E by auto
  moreover have "sorted_keys (side_order s') ((E(s := E')) s')" for s' using w(1) E'(1) by simp
  moreover have "(p1, Some q) \<in> set ((E(s := E')) s1) \<Longrightarrow> (p2, Some q) \<in> set ((E(s := E')) s2) \<Longrightarrow> s1 = s2 \<and> p1 = p2"
    for p1 p2 q s1 s2 using in_E [of p1 "Some q" s1] in_E [of p2 "Some q" s2] w(3) by blast
  ultimately show ?thesis using I'(1) by (intro book_wfI) assumption+
qed

text \<open>A new level for a fresh order.\<close>

lemma book_wf_add_level:
  assumes wf: "book_wf E L F I" "p \<notin> fst ` set (E s)" "eo_side ord = s" "eo_price ord = p"
    and fresh: "smap_find I (eo_orderId ord) = None" "pl_orders l = [ord]"
    and E': "E' = insert_entry (side_order s) (p, Some F) (E s)"
    and I': "smap_wf I'" "\<And>i. smap_find I' i = (if i = eo_orderId ord then Some \<lparr>rf_order = i, rf_priceLevel = F\<rparr> else smap_find I i)"
  shows "book_wf (E(s := E')) (L(F \<mapsto> l)) (F + 1) I'"
proof -
  note w = book_wfD [OF wf(1)]
  have "set E' = insert (p, Some F) (set (E s))" unfolding E' using wf(2) by (rule set_insert_entry_new)
  then have in_E: "(p', v) \<in> set ((E(s := E')) s') \<longleftrightarrow> (p', v) \<in> set (E s') \<or> s' = s \<and> p' = p \<and> v = Some F" for p' v s'
    by auto
  have old: "(p', Some q) \<in> set (E s') \<Longrightarrow> q \<noteq> F" for p' q s' using w(2) [of p' "Some q" s'] by auto
  have no_F [simp]: "(p', Some F) \<notin> set (E s')" for p' s' using old by blast
  have "smap_find I' i = Some r \<longleftrightarrow> rf_order r = i
      \<and> i \<in> order_ids (orders_at (L(F \<mapsto> l)) (rf_priceLevel r))
      \<and> (\<exists>s' p. (p, Some (rf_priceLevel r)) \<in> set ((E(s := E')) s'))" for i r
    using I'(2) [of i] w(4) [of i r] w(4) [of "eo_orderId ord" r] in_E old fresh
    by (cases r) (auto simp: order_ids_def)
  moreover have "(p', v) \<in> set ((E(s := E')) s') \<Longrightarrow>
      \<exists>q. v = Some q \<and> q < F + 1 \<and> level_ok s' p' (orders_at (L(F \<mapsto> l)) q)" for s' p' v
    using w(2) [of p' v s'] in_E old wf(3,4) fresh(2) by (fastforce simp: level_ok_def)
  moreover have "sorted_keys (side_order s') ((E(s := E')) s')" for s'
    using w(1) sorted_insert_entry [OF w(1) [of s]] by (simp add: E')
  moreover have "(p1, Some q) \<in> set ((E(s := E')) s1) \<Longrightarrow> (p2, Some q) \<in> set ((E(s := E')) s2) \<Longrightarrow> s1 = s2 \<and> p1 = p2"
    for p1 p2 q s1 s2 using in_E [of p1 "Some q" s1] in_E [of p2 "Some q" s2] old w(3) by blast
  ultimately show ?thesis using I'(1) by (intro book_wfI) assumption+
qed

section \<open>The abstract book\<close>

definition side_entries ::
  "('m \<Rightarrow> (u64 \<times> nat option) list) \<Rightarrow> 'm matching_engine \<Rightarrow> order_side \<Rightarrow> (u64 \<times> nat option) list" where
  "side_entries entries e s = entries (side_map s e)"

definition engine_wf :: "('m \<Rightarrow> (u64 \<times> nat option) list) \<Rightarrow> 'm matching_engine \<Rightarrow> bool" where
  "engine_wf entries e \<longleftrightarrow> book_wf (side_entries entries e) (en_levels e) (en_fresh e) (en_orderByID e)"

type_synonym book_levels = "(u64 \<times> engine_order list) list"

definition levels_of :: "(nat \<Rightarrow> price_level option) \<Rightarrow> (u64 \<times> nat option) list \<Rightarrow> book_levels" where
  "levels_of L xs = map (\<lambda>(p, v). (p, orders_at L (the v))) xs"

definition side_levels ::
  "('m \<Rightarrow> (u64 \<times> nat option) list) \<Rightarrow> 'm matching_engine \<Rightarrow> order_side \<Rightarrow> book_levels" where
  "side_levels entries e s = levels_of (en_levels e) (side_entries entries e s)"

text \<open>All orders of some levels, in price-time order.\<close>

definition queue_of :: "book_levels \<Rightarrow> engine_order list" where
  "queue_of ls = concat (map snd ls)"

lemma levels_of_Nil [simp]: "levels_of L [] = []"
  by (simp add: levels_of_def)

lemma levels_of_Cons [simp]: "levels_of L ((p, v) # xs) = (p, orders_at L (the v)) # levels_of L xs"
  by (simp add: levels_of_def)

lemma levels_of_append [simp]: "levels_of L (xs @ ys) = levels_of L xs @ levels_of L ys"
  by (simp add: levels_of_def)

lemma queue_of_simps [simp]: "queue_of [] = []" "queue_of ((p, os) # ls) = os @ queue_of ls"
  by (simp_all add: queue_of_def)

lemma queue_of_append [simp]: "queue_of (xs @ ys) = queue_of xs @ queue_of ys"
  by (simp add: queue_of_def)

lemma levels_of_frame:
  "(\<And>p. (p, Some ptr) \<notin> set xs) \<Longrightarrow> (\<And>p v. (p, v) \<in> set xs \<Longrightarrow> v \<noteq> None) \<Longrightarrow> levels_of (L(ptr := x)) xs = levels_of L xs"
  by (auto simp: levels_of_def orders_at_def)

lemma levels_of_keys [simp]: "map fst (levels_of L xs) = map fst xs"
  by (simp add: levels_of_def comp_def split_beta)

text \<open>The index knows exactly the orders of the book.\<close>

lemma engine_wf_index:
  assumes "engine_wf entries e"
  shows "smap_find (en_orderByID e) i \<noteq> None \<longleftrightarrow>
    (\<exists>s. i \<in> order_ids (queue_of (side_levels entries e s)))"
proof -
  note w = book_wfD [OF assms [unfolded engine_wf_def]]
  have "i \<in> order_ids (queue_of (side_levels entries e s)) \<longleftrightarrow>
      (\<exists>p v. (p, v) \<in> set (side_entries entries e s) \<and> i \<in> order_ids (orders_at (en_levels e) (the v)))" for s
    by (auto simp: queue_of_def side_levels_def levels_of_def order_ids_def split_beta) force+
  moreover have "smap_find (en_orderByID e) i = Some \<lparr>rf_order = i, rf_priceLevel = ptr\<rparr>"
    if "(p, Some ptr) \<in> set (side_entries entries e s)" "i \<in> order_ids (orders_at (en_levels e) ptr)" for p ptr s
    using that w(4) [of i "\<lparr>rf_order = i, rf_priceLevel = ptr\<rparr>"] by auto
  ultimately show ?thesis using w(4) [of i] w(2)
    by (metis (no_types, lifting) not_None_eq option.sel)
qed

section \<open>Filling on the abstract book\<close>

fun fill_level :: "engine_order \<Rightarrow> engine_order list \<Rightarrow> engine_order \<times> engine_order list \<times> engine_trade list" where
  "fill_level ord [] = (ord, [], [])"
| "fill_level ord (x # xs) =
     (if eo_quantity ord \<ge> eo_quantity x
      then (case fill_level (ord\<lparr>eo_quantity := eo_quantity ord - eo_quantity x\<rparr>) xs of
              (ord', rest, ts) \<Rightarrow> (ord', rest, make_trade ord x # ts))
      else (ord\<lparr>eo_quantity := 0\<rparr>, x\<lparr>eo_quantity := eo_quantity x - eo_quantity ord\<rparr> # xs, [make_trade ord x]))"

fun sweep :: "order_side \<Rightarrow> engine_order \<Rightarrow> book_levels \<Rightarrow> engine_order \<times> book_levels \<times> engine_trade list" where
  "sweep s ord [] = (ord, [], [])"
| "sweep s ord ((p, os) # ls) =
     (if eo_quantity ord > 0 \<and> comparator s p (eo_price ord)
      then (case fill_level ord os of
              (ord1, os1, t1) \<Rightarrow>
                if os1 = [] then (case sweep s ord1 ls of (ord2, ls2, t2) \<Rightarrow> (ord2, ls2, t1 @ t2))
                else (ord1, (p, os1) # ls, t1))
      else (ord, (p, os) # ls, []))"

lemma order_ids_simps [simp]:
  "order_ids [] = {}" "order_ids (x # xs) = insert (eo_orderId x) (order_ids xs)"
  "order_ids (xs @ ys) = order_ids xs \<union> order_ids ys"
  by (auto simp: order_ids_def)

lemma fill_level_facts:
  assumes "fill_level ord os = (ord', rest, ts)"
  shows "\<exists>q. ord' = ord\<lparr>eo_quantity := q\<rparr>"
    and "rest \<noteq> [] \<Longrightarrow> eo_quantity ord' = 0"
    and "order_ids rest \<subseteq> order_ids os"
    and "rest \<noteq> [] \<Longrightarrow> level_ok s p os \<Longrightarrow> level_ok s p rest"
proof -
  have "(\<exists>q. ord' = ord\<lparr>eo_quantity := q\<rparr>) \<and> (rest \<noteq> [] \<longrightarrow> eo_quantity ord' = 0)
    \<and> (\<exists>d x. os = d @ x \<and> map eo_orderId rest = map eo_orderId x
       \<and> map eo_side rest = map eo_side x \<and> map eo_price rest = map eo_price x)"
    using assms
  proof (induction os arbitrary: ord ts)
    case Nil
    then show ?case by (auto intro: exI [of _ "eo_quantity ord'"])
  next
    case (Cons x xs)
    show ?case
    proof (cases "eo_quantity ord \<ge> eo_quantity x")
      case True
      let ?ord = "ord\<lparr>eo_quantity := eo_quantity ord - eo_quantity x\<rparr>"
      obtain ts1 where "fill_level ?ord xs = (ord', rest, ts1)"
        using Cons.prems True by (auto split: prod.splits)
      from Cons.IH [OF this] obtain q d y where "ord' = ?ord\<lparr>eo_quantity := q\<rparr>" "rest \<noteq> [] \<longrightarrow> eo_quantity ord' = 0"
        "xs = d @ y" "map eo_orderId rest = map eo_orderId y" "map eo_side rest = map eo_side y"
        "map eo_price rest = map eo_price y" by blast
      then show ?thesis by (intro conjI exI [of _ q] exI [of _ "x # d"] exI [of _ y]) auto
    next
      case False
      with Cons.prems show ?thesis by (intro conjI exI [of _ "[]"] exI [of _ "x # xs"]) auto
    qed
  qed
  then obtain q d y where f: "ord' = ord\<lparr>eo_quantity := q\<rparr>" "rest \<noteq> [] \<longrightarrow> eo_quantity ord' = 0" "os = d @ y"
    "map eo_orderId rest = map eo_orderId y" "map eo_side rest = map eo_side y" "map eo_price rest = map eo_price y"
    by blast
  have ids: "order_ids rest = order_ids y" using f(4) by (metis order_ids_def list.set_map)
  have sides: "eo_side ` set rest = eo_side ` set y" "eo_price ` set rest = eo_price ` set y"
    using f(5,6) by (metis list.set_map)+
  show "\<exists>q. ord' = ord\<lparr>eo_quantity := q\<rparr>" "rest \<noteq> [] \<Longrightarrow> eo_quantity ord' = 0" "order_ids rest \<subseteq> order_ids os"
    using f(1-3) ids by auto
  show "level_ok s p rest" if "rest \<noteq> []" "level_ok s p os"
  proof -
    have "eo_side ` set rest \<subseteq> {s}" "eo_price ` set rest \<subseteq> {p}" using that(2) f(3) sides by (auto simp: level_ok_def)
    then show ?thesis using that f(3,4) by (auto simp: level_ok_def)
  qed
qed

lemma match_orders_fill:
  "distinct (map eo_orderId os) \<Longrightarrow> smap_wf index \<Longrightarrow> fill_level ord os = (ord', rest, ts) \<Longrightarrow>
   \<exists>index'. match_orders ord os trades index = (ord', rest, trades @ ts, index') \<and> smap_wf index'
     \<and> (\<forall>i. smap_find index' i =
          (if i \<in> order_ids os \<and> i \<notin> order_ids rest then None else smap_find index i))"
proof (induction os arbitrary: ord ord' rest ts trades index)
  case (Cons x xs)
  have x: "eo_orderId x \<notin> order_ids xs" using Cons.prems(1) by (simp add: order_ids_def)
  show ?case
  proof (cases "eo_quantity ord \<ge> eo_quantity x")
    case True
    let ?ord = "ord\<lparr>eo_quantity := eo_quantity ord - eo_quantity x\<rparr>"
    obtain ts1 where f: "fill_level ?ord xs = (ord', rest, ts1)" "ts = make_trade ord x # ts1"
      using Cons.prems(3) True by (auto split: prod.splits)
    have sub: "order_ids rest \<subseteq> order_ids xs"
      by (rule fill_level_facts(3) [OF f(1)])
    obtain index' where "match_orders ?ord xs (trades @ [make_trade ord x]) (smap_erase (eo_orderId x) index)
        = (ord', rest, (trades @ [make_trade ord x]) @ ts1, index')" "smap_wf index'"
      "\<forall>i. smap_find index' i = (if i \<in> order_ids xs \<and> i \<notin> order_ids rest then None
          else smap_find (smap_erase (eo_orderId x) index) i)"
      using Cons.IH [OF _ _ f(1), of "smap_erase (eo_orderId x) index"] Cons.prems(1,2) by fastforce
    with True f(2) x sub show ?thesis by auto
  next
    case False
    with Cons.prems(2,3) show ?thesis by (auto simp: Let_def)
  qed
qed simp

section \<open>The engine's matching is the sweep\<close>

lemma side_map_set [simp]:
  "side_map s' (set_side_map s m e) = (if s' = s then m else side_map s' e)"
  "en_levels (set_side_map s m e) = en_levels e" "en_orderByID (set_side_map s m e) = en_orderByID e"
  "en_trades (set_side_map s m e) = en_trades e" "en_fresh (set_side_map s m e) = en_fresh e"
  by (cases s; cases s'; simp add: side_map_def set_side_map_def)+

lemma side_map_frame [simp]:
  "side_map s (e\<lparr>en_levels := L\<rparr>) = side_map s e" "side_map s (e\<lparr>en_trades := t\<rparr>) = side_map s e"
  "side_map s (e\<lparr>en_orderByID := I\<rparr>) = side_map s e" "side_map s (e\<lparr>en_fresh := n\<rparr>) = side_map s e"
  by (cases s; simp add: side_map_def)+

lemma side_entries_set [simp]:
  "side_entries entries (set_side_map s m e) = (side_entries entries e)(s := entries m)"
  by (simp add: side_entries_def fun_eq_iff)

lemma side_entries_frame [simp]:
  "side_entries entries (e\<lparr>en_levels := L\<rparr>) = side_entries entries e"
  "side_entries entries (e\<lparr>en_trades := t\<rparr>) = side_entries entries e"
  "side_entries entries (e\<lparr>en_orderByID := I\<rparr>) = side_entries entries e"
  "side_entries entries (e\<lparr>en_fresh := n\<rparr>) = side_entries entries e"
  by (simp_all add: side_entries_def fun_eq_iff)

lemma book_wf_only_entry:
  assumes "book_wf E L F I" "(p, Some ptr) \<in> set (E s)"
  shows "s' \<noteq> s \<Longrightarrow> (q, Some ptr) \<notin> set (E s')"
    and "E s = xs @ (p, Some ptr) # ys \<Longrightarrow> (q, Some ptr) \<notin> set (xs @ ys)"
proof -
  note w = book_wfD [OF assms(1)]
  show "(q, Some ptr) \<notin> set (E s')" if "s' \<noteq> s" using w(3) assms(2) that by blast
  assume e: "E s = xs @ (p, Some ptr) # ys"
  have "distinct (map fst (E s))" by (rule sorted_keys_distinct [OF w(1)])
  then have "p \<notin> fst ` set (xs @ ys)" by (auto simp: e)
  moreover have "q = p" if "(q, Some ptr) \<in> set (xs @ ys)"
    using w(3) [of q ptr s p s] assms(2) that e by auto
  ultimately show "(q, Some ptr) \<notin> set (xs @ ys)" by force
qed

lemma levels_of_other_side:
  assumes "book_wf E L F I" "(p, Some ptr) \<in> set (E s)" "s' \<noteq> s"
  shows "levels_of (L(ptr := x)) (E s') = levels_of L (E s')"
  using book_wf_only_entry(1) [OF assms] book_wfD(2) [OF assms(1)]
  by (intro levels_of_frame) fastforce+

lemma levels_of_rest:
  assumes "book_wf E L F I" "E s = xs @ (p, Some ptr) # ys"
  shows "levels_of (L(ptr := x)) xs = levels_of L xs" "levels_of (L(ptr := x)) ys = levels_of L ys"
proof -
  have in_E: "(p, Some ptr) \<in> set (E s)" using assms(2) by simp
  note only = book_wf_only_entry(2) [OF assms(1) in_E assms(2)]
  have some: "(q, v) \<in> set (xs @ ys) \<Longrightarrow> v \<noteq> None" for q v
    using book_wfD(2) [OF assms(1), of q v s] assms(2) by auto
  show "levels_of (L(ptr := x)) xs = levels_of L xs" "levels_of (L(ptr := x)) ys = levels_of L ys"
    using only some by (auto intro!: levels_of_frame)
qed

text \<open>What \<open>matchOrderList\<close> does to the first level of a side, and the erasure of an emptied one.\<close>

lemma matchOrderList_fill:
  assumes wf: "engine_wf entries e" "side_entries entries e s = (p, Some ptr) # rest"
    and fill: "fill_level ord (orders_at (en_levels e) ptr) = (ord', os', ts)"
  obtains l index' where "en_levels e ptr = Some l"
    "matchOrderList ord ptr e = Some (os' = [], ord',
       e\<lparr>en_levels := (en_levels e)(ptr \<mapsto> l\<lparr>pl_orders := os'\<rparr>), en_trades := en_trades e @ ts, en_orderByID := index'\<rparr>)"
    "smap_wf index'" "\<And>i. smap_find index' i = (if i \<in> order_ids (orders_at (en_levels e) ptr) \<and> i \<notin> order_ids os' then None
       else smap_find (en_orderByID e) i)"
proof -
  have ok: "level_ok s p (orders_at (en_levels e) ptr)"
    using book_wfD(2) [OF wf(1) [unfolded engine_wf_def], of p "Some ptr" s] wf(2) by auto
  then obtain l where l: "en_levels e ptr = Some l" "orders_at (en_levels e) ptr = pl_orders l"
    by (auto simp: level_ok_def orders_at_def split: option.splits)
  have "distinct (map eo_orderId (pl_orders l))" using ok l(2) by (simp add: level_ok_def)
  from match_orders_fill [OF this book_wfD(5) [OF wf(1) [unfolded engine_wf_def]] fill [unfolded l(2)], of "en_trades e"]
  obtain index' where "match_orders ord (pl_orders l) (en_trades e) (en_orderByID e) = (ord', os', en_trades e @ ts, index')" "smap_wf index'"
    "\<And>i. smap_find index' i = (if i \<in> order_ids (pl_orders l) \<and> i \<notin> order_ids os' then None
       else smap_find (en_orderByID e) i)" by blast
  with that l show thesis by (simp add: matchOrderList_def)
qed

end
