(* ===== verification/Engine_Matching.thy ===== *)
theory Engine_Matching
  imports Engine_Book
begin

text \<open>
  The matching engine's operations on the abstract book: the matching loop is \<open>sweep\<close>, a new order's
  remainder joins its level, cancelling and amending change one order, and every operation keeps the
  invariant. All of it holds for any level maps with the laws of \<open>price_map\<close>.
\<close>

section \<open>The matching loop\<close>

definition same_book :: "('m \<Rightarrow> (u64 \<times> nat option) list) \<Rightarrow> order_side \<Rightarrow> 'm matching_engine \<Rightarrow> 'm matching_engine \<Rightarrow> bool" where
  "same_book entries s e e' \<longleftrightarrow> (\<forall>s'. s' \<noteq> s \<longrightarrow> side_levels entries e' s' = side_levels entries e s')"

context engine_maps
begin

lemma at_entry:
  "fo_at (ops s) (side_map s e) i =
    (if i < length (side_entries entries e s) then Some (side_entries entries e s ! i) else None)"
  unfolding side_entries_def by (rule price_map.at_eq [OF maps])

lemma match_step_full:
  assumes wf: "engine_wf entries e" "side_entries entries e s = (p, Some ptr) # rest"
    and fill: "fill_level ord (orders_at (en_levels e) ptr) = (ord', [], ts)"
  obtains e1 e2 where "matchOrderList ord ptr e = Some (True, ord', e1)" "e2 = erase_level_at ops s 0 ptr e1"
    "engine_wf entries e2" "side_entries entries e2 s = rest"
    "side_levels entries e2 s = levels_of (en_levels e) rest" "same_book entries s e e2"
    "en_trades e2 = en_trades e @ ts"
proof -
  let ?L = "en_levels e"
  note bwf = wf(1) [unfolded engine_wf_def]
  obtain l index' where l: "?L ptr = Some l"
    "matchOrderList ord ptr e = Some (True, ord',
       e\<lparr>en_levels := ?L(ptr \<mapsto> l\<lparr>pl_orders := []\<rparr>), en_trades := en_trades e @ ts, en_orderByID := index'\<rparr>)"
    "smap_wf index'" "\<And>i. smap_find index' i = (if i \<in> order_ids (orders_at ?L ptr) then None else smap_find (en_orderByID e) i)"
    using matchOrderList_fill [OF wf fill] by auto
  define e1 where "e1 = e\<lparr>en_levels := ?L(ptr \<mapsto> l\<lparr>pl_orders := []\<rparr>), en_trades := en_trades e @ ts, en_orderByID := index'\<rparr>"
  define e2 where "e2 = erase_level_at ops s 0 ptr e1"
  have head: "(p, Some ptr) \<in> set (side_entries entries e s)" by (simp add: wf(2))
  have L2: "en_levels e2 = ?L(ptr := None)" by (simp add: e2_def e1_def erase_level_at_def)
  have "entries (side_map s e) = (p, Some ptr) # rest" using wf(2) by (simp add: side_entries_def)
  then have "entries (fo_erase_at (ops s) 0 (side_map s e)) = rest"
    using price_map.erase_at_eq [OF maps, of 0 "side_map s e" s] by simp
  then have E2: "side_entries entries e2 = (side_entries entries e)(s := rest)"
    by (simp add: e2_def e1_def erase_level_at_def)
  have "set rest = set (side_entries entries e s) - {(p, Some ptr)}"
    using book_wf_only_entry(2) [OF bwf head, of "[]" rest p] wf(2) by auto
  moreover have "sorted_keys (side_order s) rest" using book_wfD(1) [OF bwf, of s] wf(2) by simp
  ultimately have "book_wf ((side_entries entries e)(s := rest)) (?L(ptr := None)) (en_fresh e) index'"
    by (intro book_wf_drop_level [where s = s, OF bwf head]) (simp_all add: l(3,4))
  then have "engine_wf entries e2"
    by (simp add: engine_wf_def E2 L2) (simp add: e2_def e1_def erase_level_at_def)
  moreover have "side_levels entries e2 s = levels_of ?L rest"
    using levels_of_rest(2) [OF bwf, of s "[]"] wf(2) by (simp add: side_levels_def E2 L2)
  moreover have "same_book entries s e e2"
    using levels_of_other_side [OF bwf head] by (simp add: same_book_def side_levels_def E2 L2)
  moreover have "en_trades e2 = en_trades e @ ts" by (simp add: e2_def e1_def erase_level_at_def)
  ultimately show thesis using that [of e1 e2] l(2) e1_def e2_def E2 by simp
qed

lemma match_step_partial:
  assumes wf: "engine_wf entries e" "side_entries entries e s = (p, Some ptr) # rest"
    and fill: "fill_level ord (orders_at (en_levels e) ptr) = (ord', os', ts)" "os' \<noteq> []"
  obtains e1 where "matchOrderList ord ptr e = Some (False, ord', e1)"
    "engine_wf entries e1" "side_entries entries e1 = side_entries entries e"
    "side_levels entries e1 s = (p, os') # levels_of (en_levels e) rest" "same_book entries s e e1"
    "en_trades e1 = en_trades e @ ts"
proof -
  let ?L = "en_levels e"
  note bwf = wf(1) [unfolded engine_wf_def]
  obtain l index' where l: "?L ptr = Some l"
    "matchOrderList ord ptr e = Some (os' = [], ord',
       e\<lparr>en_levels := ?L(ptr \<mapsto> l\<lparr>pl_orders := os'\<rparr>), en_trades := en_trades e @ ts, en_orderByID := index'\<rparr>)"
    "smap_wf index'" "\<And>i. smap_find index' i = (if i \<in> order_ids (orders_at ?L ptr) \<and> i \<notin> order_ids os' then None
       else smap_find (en_orderByID e) i)"
    using matchOrderList_fill [OF wf fill(1)] by auto
  let ?l = "l\<lparr>pl_orders := os'\<rparr>"
  let ?e1 = "e\<lparr>en_levels := ?L(ptr \<mapsto> ?l), en_trades := en_trades e @ ts, en_orderByID := index'\<rparr>"
  have head: "(p, Some ptr) \<in> set (side_entries entries e s)" by (simp add: wf(2))
  have ok: "level_ok s p (orders_at ?L ptr)" using book_wfD(2) [OF bwf head] by auto
  have sub: "order_ids os' \<subseteq> order_ids (orders_at ?L ptr)" by (rule fill_level_facts(3) [OF fill(1)])
  have "smap_find (en_orderByID e) i = Some \<lparr>rf_order = i, rf_priceLevel = ptr\<rparr>" if "i \<in> order_ids os'" for i
    using that sub head book_wfD(4) [OF bwf, of i "\<lparr>rf_order = i, rf_priceLevel = ptr\<rparr>"] by auto
  then have "book_wf (side_entries entries e) (?L(ptr \<mapsto> ?l)) (en_fresh e) index'"
    using sub fill_level_facts(4) [OF fill ok]
    by (intro book_wf_set_level [OF bwf head]) (auto simp: l(3,4))
  then have "engine_wf entries ?e1" by (simp add: engine_wf_def)
  moreover have "side_levels entries ?e1 s = (p, os') # levels_of ?L rest"
    using levels_of_rest(2) [OF bwf, of s "[]"] wf(2) by (simp add: side_levels_def)
  moreover have "same_book entries s e ?e1"
    using levels_of_other_side [OF bwf head] by (simp add: same_book_def side_levels_def)
  ultimately show thesis using that [of ?e1] l(2) fill(2) by simp
qed

lemma match_levels_stop:
  "eo_quantity ord = 0 \<Longrightarrow> match_levels ops s i ord e = Some (ord, e)"
  by (subst match_levels.simps) (auto split: option.splits)

lemma match_levels_sweep:
  assumes "engine_wf entries e" "sweep s ord (side_levels entries e s) = (ord', ls', ts)"
  shows "\<exists>e'. match_levels ops s 0 ord e = Some (ord', e') \<and> engine_wf entries e'
    \<and> side_levels entries e' s = ls' \<and> same_book entries s e e' \<and> en_trades e' = en_trades e @ ts"
  using assms
proof (induction "side_entries entries e s" arbitrary: e ord ts)
  case Nil
  then show ?case
    by (subst match_levels.simps) (simp add: at_entry side_levels_def same_book_def)
next
  case (Cons x rest)
  obtain p v where "x = (p, v)" by (cases x)
  with Cons.hyps(2) have E: "side_entries entries e s = (p, v) # rest" by simp
  then obtain ptr where "v = Some ptr"
    using book_wfD(2) [OF Cons.prems(1) [unfolded engine_wf_def], of p v s] by auto
  note E = E [unfolded this]
  let ?os = "orders_at (en_levels e) ptr"
  have levels: "side_levels entries e s = (p, ?os) # levels_of (en_levels e) rest"
    by (simp add: side_levels_def E)
  have at: "fo_at (ops s) (side_map s e) 0 = Some (p, Some ptr)" by (simp add: at_entry E)
  show ?case
  proof (cases "eo_quantity ord > 0 \<and> comparator s p (eo_price ord)")
    case False
    with Cons.prems at levels show ?thesis
      by (subst match_levels.simps) (auto simp: same_book_def)
  next
    case True
    obtain ord1 os1 t1 where fill: "fill_level ord ?os = (ord1, os1, t1)" by (cases "fill_level ord ?os")
    show ?thesis
    proof (cases "os1 = []")
      case full: True
      obtain e1 e2 where s: "matchOrderList ord ptr e = Some (True, ord1, e1)" "e2 = erase_level_at ops s 0 ptr e1"
        "engine_wf entries e2" "side_entries entries e2 s = rest"
        "side_levels entries e2 s = levels_of (en_levels e) rest" "same_book entries s e e2"
        "en_trades e2 = en_trades e @ t1"
        using match_step_full [OF Cons.prems(1) E fill [unfolded full]] by metis
      obtain t2 where t2: "sweep s ord1 (side_levels entries e2 s) = (ord', ls', t2)" "ts = t1 @ t2"
        using Cons.prems(2) levels True fill full s(5) by (auto split: prod.splits)
      from Cons.hyps(1) [OF s(4) [symmetric] s(3) t2(1)] obtain e' where
        "match_levels ops s 0 ord1 e2 = Some (ord', e')" "engine_wf entries e'"
        "side_levels entries e' s = ls'" "same_book entries s e2 e'" "en_trades e' = en_trades e2 @ t2" by blast
      with s(1,2,6,7) t2(2) at True show ?thesis
        by (subst match_levels.simps) (simp add: same_book_def)
    next
      case partial: False
      obtain e1 where s: "matchOrderList ord ptr e = Some (False, ord1, e1)"
        "engine_wf entries e1" "side_levels entries e1 s = (p, os1) # levels_of (en_levels e) rest"
        "same_book entries s e e1" "en_trades e1 = en_trades e @ t1"
        using match_step_partial [OF Cons.prems(1) E fill partial] by metis
      have "ord' = ord1" "ls' = (p, os1) # levels_of (en_levels e) rest" "ts = t1"
        using Cons.prems(2) levels True fill partial by simp_all
      moreover have "match_levels ops s (0 + 1) ord1 e1 = Some (ord1, e1)"
        by (rule match_levels_stop) (rule fill_level_facts(2) [OF fill partial])
      ultimately show ?thesis using s at True
        by (subst match_levels.simps) simp
    qed
  qed
qed

end

lemma sweep_order: "sweep s ord ls = (ord', ls', ts) \<Longrightarrow> \<exists>q. ord' = ord\<lparr>eo_quantity := q\<rparr>"
proof (induction s ord ls arbitrary: ord' ls' ts rule: sweep.induct)
  case (1 s ord)
  then show ?case by (auto intro: exI [of _ "eo_quantity ord"])
next
  case (2 s ord p os ls)
  obtain ord1 os1 t1 where f: "fill_level ord os = (ord1, os1, t1)" by (cases "fill_level ord os")
  obtain q where q: "ord1 = ord\<lparr>eo_quantity := q\<rparr>" using fill_level_facts(1) [OF f] by blast
  show ?case
  proof (cases "eo_quantity ord > 0 \<and> comparator s p (eo_price ord)")
    case True
    with 2 f q show ?thesis by (fastforce split: if_splits prod.splits)
  next
    case False
    with 2 have "ord' = ord\<lparr>eo_quantity := eo_quantity ord\<rparr>" by (auto split: if_splits)
    then show ?thesis by blast
  qed
qed

section \<open>Resting the remainder\<close>

fun add_resting :: "sort_order \<Rightarrow> engine_order \<Rightarrow> book_levels \<Rightarrow> book_levels" where
  "add_resting so ord [] = [(eo_price ord, [ord])]"
| "add_resting so ord ((p, os) # ls) =
     (if p = eo_price ord then (p, os @ [ord]) # ls
      else if before so (eo_price ord) p then (eo_price ord, [ord]) # (p, os) # ls
      else (p, os) # add_resting so ord ls)"

lemma add_resting_present:
  "(\<And>x. x \<in> set A \<Longrightarrow> before so (fst x) (eo_price ord)) \<Longrightarrow>
   add_resting so ord (A @ (eo_price ord, os) # B) = A @ (eo_price ord, os @ [ord]) # B"
proof (induction A)
  case (Cons x A)
  have "before so (fst x) (eo_price ord)" using Cons.prems by simp
  then have "fst x \<noteq> eo_price ord" "\<not> before so (eo_price ord) (fst x)"
    using before_irrefl before_trans by metis+
  with Cons show ?case by (cases x) simp
qed simp

lemma insert_entry_assign:
  "k \<notin> fst ` set m \<Longrightarrow> i < length (insert_entry so (k, v) m) \<Longrightarrow> insert_entry so (k, v) m ! i = (k, v) \<Longrightarrow>
   (insert_entry so (k, v) m)[i := (k, w)] = insert_entry so (k, w) m"
proof (induction m arbitrary: i)
  case (Cons x m)
  have "(x # m) ! j \<noteq> (k, v)" if "j < length (x # m)" for j
    using Cons.prems(1) that nth_mem [OF that] by force
  with Cons show ?case by (cases i) (fastforce split: if_splits)+
qed simp

lemma levels_of_insert:
  assumes "p = eo_price ord" "p \<notin> fst ` set xs" "pl_orders l = [ord]"
    and "\<And>q v. (q, v) \<in> set xs \<Longrightarrow> v \<noteq> None \<and> v \<noteq> Some F"
  shows "levels_of (L(F \<mapsto> l)) (insert_entry so (p, Some F) xs) = add_resting so ord (levels_of L xs)"
  using assms(2,4)
proof (induction xs)
  case Nil
  have "orders_at (L(F \<mapsto> l)) F = [ord]" by (simp add: assms(3))
  then show ?case by (simp add: assms(1) del: orders_at_update fun_upd_apply)
next
  case (Cons x xs)
  obtain q ptr where x: "x = (q, Some ptr)" "ptr \<noteq> F" using Cons.prems(2) by (cases x) force
  have same: "levels_of (L(F \<mapsto> l)) xs = levels_of L xs"
    using Cons.prems(2) by (intro levels_of_frame) fastforce+
  have at: "orders_at (L(F \<mapsto> l)) F = [ord]" "orders_at (L(F \<mapsto> l)) ptr = orders_at L ptr"
    using x(2) by (simp_all add: assms(3))
  have IH: "levels_of (L(F \<mapsto> l)) (insert_entry so (p, Some F) xs) = add_resting so ord (levels_of L xs)"
    using Cons.prems by (intro Cons.IH) auto
  have "q \<noteq> eo_price ord" using Cons.prems(1) by (auto simp: x(1) assms(1))
  with at same IH show ?case
    by (simp add: x(1) assms(1) compare_before del: orders_at_update fun_upd_apply)
qed

text \<open>The part of \<open>handleOrderNew\<close> after the matching.\<close>

definition rest_order ::
  "(order_side \<Rightarrow> 'm flat_map_ops) \<Rightarrow> engine_order \<Rightarrow> 'm matching_engine \<Rightarrow> 'm matching_engine option" where
  "rest_order ops ord e =
     do {
       (level, e1) \<leftarrow> getOrderPriceList ops (if eo_side ord = BUY then BUY else SELL) (eo_price ord) e;
       l \<leftarrow> en_levels e1 level;
       let l1 = l\<lparr>pl_quantity := pl_quantity l + ucast (eo_quantity ord)\<rparr>;
       let l2 = l1\<lparr>pl_orders := pl_orders l1 @ [ord]\<rparr>;
       Some (e1\<lparr>en_levels := (en_levels e1)(level \<mapsto> l2),
                en_orderByID := smap_assign (eo_orderId ord)
                  \<lparr>rf_order = eo_orderId ord, rf_priceLevel = level\<rparr> (en_orderByID e1)\<rparr>) }"

lemma handleOrderNew_rest:
  "handleOrderNew ops ord0 e0 =
     (case matchOrder ops ord0 e0 of
        None \<Rightarrow> None
      | Some (remaining, ord, e) \<Rightarrow>
          if remaining = 0 \<or> smap_find (en_orderByID e) (eo_orderId ord) \<noteq> None then Some e
          else rest_order ops ord e)"
  by (auto simp: handleOrderNew_def rest_order_def split: option.splits)

lemma own_side [simp]: "(if s = BUY then BUY else SELL) = s"
  by (cases s) simp_all

context engine_maps
begin

lemma rest_order_present:
  assumes wf: "engine_wf entries e" "smap_find (en_orderByID e) (eo_orderId ord) = None"
    and here: "eo_price ord \<in> fst ` set (side_entries entries e (eo_side ord))"
  shows "\<exists>e'. rest_order ops ord e = Some e' \<and> engine_wf entries e'
    \<and> side_levels entries e' (eo_side ord) = add_resting (side_order (eo_side ord)) ord (side_levels entries e (eo_side ord))
    \<and> same_book entries (eo_side ord) e e' \<and> en_trades e' = en_trades e"
proof -
  let ?s = "eo_side ord" let ?p = "eo_price ord" let ?L = "en_levels e"
  let ?E = "side_entries entries e ?s"
  note bwf = wf(1) [unfolded engine_wf_def]
  have sorted: "sorted_keys (side_order ?s) ?E" by (rule book_wfD(1) [OF bwf])
  obtain i m' where m': "fo_emplace (ops ?s) ?p None (side_map ?s e) = (i, False, m')"
    "entries m' = ?E" "i < length ?E" "fst (?E ! i) = ?p"
    using price_map.emplace_present [OF maps sorted [unfolded side_entries_def] here [unfolded side_entries_def], of None]
    by (auto simp: side_entries_def)
  have "(?p, snd (?E ! i)) \<in> set ?E" using m'(3,4) by (metis nth_mem prod.collapse)
  with book_wfD(2) [OF bwf] obtain ptr where ptr: "snd (?E ! i) = Some ptr" "level_ok ?s ?p (orders_at ?L ptr)" by blast
  have nth: "?E ! i = (?p, Some ptr)" using m'(4) ptr(1) by (metis prod.collapse)
  then have in_E: "(?p, Some ptr) \<in> set ?E" using m'(3) by (metis nth_mem)
  obtain l where l: "?L ptr = Some l" "orders_at ?L ptr = pl_orders l"
    using ptr(2) by (auto simp: level_ok_def orders_at_def split: option.splits)
  let ?l = "l\<lparr>pl_quantity := pl_quantity l + ucast (eo_quantity ord), pl_orders := pl_orders l @ [ord]\<rparr>"
  let ?I = "smap_assign (eo_orderId ord) \<lparr>rf_order = eo_orderId ord, rf_priceLevel = ptr\<rparr> (en_orderByID e)"
  let ?e' = "(set_side_map ?s m' e)\<lparr>en_levels := ?L(ptr \<mapsto> ?l), en_orderByID := ?I\<rparr>"
  have "fo_at (ops ?s) m' i = Some (?p, Some ptr)"
    using price_map.at_eq [OF maps, of ?s m' i] m'(2,3) nth by simp
  then have run: "rest_order ops ord e = Some ?e'"
    using m'(1) l(1) by (simp add: rest_order_def getOrderPriceList_def Let_def)
  have E': "side_entries entries ?e' = side_entries entries e" using m'(2) by (simp add: fun_eq_iff)
  have known: "smap_find (en_orderByID e) i = Some \<lparr>rf_order = i, rf_priceLevel = ptr\<rparr>" if "i \<in> order_ids (pl_orders l)" for i
    using that in_E l(2) book_wfD(4) [OF bwf, of i "\<lparr>rf_order = i, rf_priceLevel = ptr\<rparr>"] by auto
  have "eo_orderId ord \<notin> order_ids (pl_orders l)" using known wf(2) by fastforce
  then have "level_ok ?s ?p (pl_orders ?l)" using ptr(2) l(2) by (auto simp: level_ok_def order_ids_def)
  then have "book_wf (side_entries entries e) (?L(ptr \<mapsto> ?l)) (en_fresh e) ?I"
    using wf(2) l(2) known book_wfD(5) [OF bwf] by (intro book_wf_set_level [OF bwf in_E]) auto
  then have "engine_wf entries ?e'" unfolding engine_wf_def E' by simp
  moreover have "side_levels entries ?e' ?s = add_resting (side_order ?s) ord (side_levels entries e ?s)"
  proof -
    have split: "?E = take i ?E @ (?p, Some ptr) # drop (Suc i) ?E" using m'(3) nth by (metis id_take_nth_drop)
    have "before (side_order ?s) (fst x) ?p" if "x \<in> set (take i ?E)" for x
    proof -
      have "sorted_keys (side_order ?s) (take i ?E @ (?p, Some ptr) # drop (Suc i) ?E)" using sorted split by simp
      then show ?thesis using that by (auto simp: sorted_keys_append)
    qed
    then have before: "before (side_order ?s) (fst x) ?p" if "x \<in> set (levels_of ?L (take i ?E))" for x
      using that by (fastforce simp: levels_of_def)
    have "levels_of L' ?E = levels_of L' (take i ?E) @ (?p, orders_at L' ptr) # levels_of L' (drop (Suc i) ?E)" for L'
      by (subst split) (simp add: levels_of_def)
    with add_resting_present [OF before] levels_of_rest [OF bwf split] l(2) show ?thesis
      by (simp only: side_levels_def E') simp
  qed
  moreover have "same_book entries ?s e ?e'"
    unfolding same_book_def side_levels_def E' using levels_of_other_side [OF bwf in_E] by simp
  ultimately show ?thesis using run by simp
qed

lemma rest_order_new:
  assumes wf: "engine_wf entries e" "smap_find (en_orderByID e) (eo_orderId ord) = None"
    and gone: "eo_price ord \<notin> fst ` set (side_entries entries e (eo_side ord))"
  shows "\<exists>e'. rest_order ops ord e = Some e' \<and> engine_wf entries e'
    \<and> side_levels entries e' (eo_side ord) = add_resting (side_order (eo_side ord)) ord (side_levels entries e (eo_side ord))
    \<and> same_book entries (eo_side ord) e e' \<and> en_trades e' = en_trades e"
proof -
  let ?s = "eo_side ord" let ?p = "eo_price ord" let ?L = "en_levels e" let ?F = "en_fresh e"
  let ?E = "side_entries entries e ?s"
  note bwf = wf(1) [unfolded engine_wf_def]
  have sorted: "sorted_keys (side_order ?s) ?E" by (rule book_wfD(1) [OF bwf])
  obtain i m' where m': "fo_emplace (ops ?s) ?p None (side_map ?s e) = (i, True, m')"
    "entries m' = insert_entry (side_order ?s) (?p, None) ?E" "i < length (entries m')" "entries m' ! i = (?p, None)"
    using price_map.emplace_new [OF maps sorted [unfolded side_entries_def] gone [unfolded side_entries_def], of None]
    by (auto simp: side_entries_def)
  let ?m = "fo_assign (ops ?s) i (Some ?F) m'"
  have m: "entries ?m = insert_entry (side_order ?s) (?p, Some ?F) ?E"
    using price_map.assign_eq [OF maps m'(3)] m'(4) insert_entry_assign [OF gone m'(3) [unfolded m'(2)] m'(4) [unfolded m'(2)]]
    by (simp add: m'(2))
  have "entries ?m ! i = (?p, Some ?F)" "i < length (entries ?m)"
    using price_map.assign_eq [OF maps m'(3)] m'(3,4) by simp_all
  then have at: "fo_at (ops ?s) ?m i = Some (?p, Some ?F)" using price_map.at_eq [OF maps, of ?s ?m i] by simp
  let ?l = "\<lparr>pl_orders = [ord], pl_quantity = ucast (eo_quantity ord)\<rparr>"
  let ?I = "smap_assign (eo_orderId ord) \<lparr>rf_order = eo_orderId ord, rf_priceLevel = ?F\<rparr> (en_orderByID e)"
  let ?e' = "(set_side_map ?s ?m (e\<lparr>en_levels := ?L(?F \<mapsto> \<lparr>pl_orders = [], pl_quantity = 0\<rparr>), en_fresh := ?F + 1\<rparr>))
    \<lparr>en_levels := ?L(?F \<mapsto> ?l), en_orderByID := ?I\<rparr>"
  have run: "rest_order ops ord e = Some ?e'"
    using m'(1) at by (simp add: rest_order_def getOrderPriceList_def Let_def)
  have E': "side_entries entries ?e' = (side_entries entries e)(?s := insert_entry (side_order ?s) (?p, Some ?F) ?E)"
    using m by simp
  have "book_wf ((side_entries entries e)(?s := insert_entry (side_order ?s) (?p, Some ?F) ?E)) (?L(?F \<mapsto> ?l)) (?F + 1) ?I"
    using wf(2) book_wfD(5) [OF bwf] by (intro book_wf_add_level [OF bwf gone, of ord]) auto
  then have "engine_wf entries ?e'" unfolding engine_wf_def E' by simp
  moreover have some: "v \<noteq> None \<and> v \<noteq> Some ?F" if "(q, v) \<in> set (side_entries entries e s')" for q v s'
    using book_wfD(2) [OF bwf that] by auto
  then have "side_levels entries ?e' ?s = add_resting (side_order ?s) ord (side_levels entries e ?s)"
    unfolding side_levels_def E' using levels_of_insert [OF refl gone, of ?l ?F ?L "side_order ?s"] by simp
  moreover have "same_book entries ?s e ?e'"
    unfolding same_book_def side_levels_def E' using some by (auto intro!: levels_of_frame)
  ultimately show ?thesis using run by simp
qed

lemmas rest_order_adds = rest_order_present rest_order_new

text \<open>A new order: the sweep, then the remainder unless its id is in the book.\<close>

lemma handleOrderNew_spec:
  assumes wf: "engine_wf entries e"
    and sw: "sweep (opposite_side (eo_side ord)) ord (side_levels entries e (opposite_side (eo_side ord))) = (ord', ls', ts)"
  shows "\<exists>e'. handleOrderNew ops ord e = Some e' \<and> engine_wf entries e' \<and> en_trades e' = en_trades e @ ts
    \<and> side_levels entries e' (opposite_side (eo_side ord)) = ls'
    \<and> side_levels entries e' (eo_side ord) =
        (if eo_quantity ord' = 0 \<or> eo_orderId ord \<in> order_ids (queue_of ls' @ queue_of (side_levels entries e (eo_side ord)))
         then side_levels entries e (eo_side ord)
         else add_resting (side_order (eo_side ord)) ord' (side_levels entries e (eo_side ord)))"
proof -
  let ?s = "eo_side ord"
  have opp: "opposite_side ?s \<noteq> ?s" "\<And>s. s = ?s \<or> s = opposite_side ?s"
    by (cases ?s; simp add: opposite_side_def; metis order_side.exhaust)+
  obtain q where ord': "ord' = ord\<lparr>eo_quantity := q\<rparr>" using sweep_order [OF sw] by blast
  obtain e1 where e1: "match_levels ops (opposite_side ?s) 0 ord e = Some (ord', e1)" "engine_wf entries e1"
    "side_levels entries e1 (opposite_side ?s) = ls'" "same_book entries (opposite_side ?s) e e1"
    "en_trades e1 = en_trades e @ ts"
    using match_levels_sweep [OF wf sw] by blast
  have own: "side_levels entries e1 ?s = side_levels entries e ?s"
    using e1(4) opp(1) by (simp add: same_book_def)
  have known: "smap_find (en_orderByID e1) (eo_orderId ord) \<noteq> None \<longleftrightarrow>
      eo_orderId ord \<in> order_ids (queue_of ls' @ queue_of (side_levels entries e ?s))"
    using engine_wf_index [OF e1(2), of "eo_orderId ord"] e1(3) own opp(2) by (auto; metis)
  show ?thesis
  proof (cases "q = 0 \<or> smap_find (en_orderByID e1) (eo_orderId ord) \<noteq> None")
    case True
    with e1 own known show ?thesis by (simp add: handleOrderNew_rest matchOrder_def ord')
  next
    case False
    then have "smap_find (en_orderByID e1) (eo_orderId ord') = None" by (simp add: ord')
    from rest_order_adds [OF e1(2) this] obtain e2 where "rest_order ops ord' e1 = Some e2" "engine_wf entries e2"
      "side_levels entries e2 ?s = add_resting (side_order ?s) ord' (side_levels entries e1 ?s)"
      "same_book entries ?s e1 e2" "en_trades e2 = en_trades e1" by (auto simp: ord')
    with False e1 own known opp(1) show ?thesis
      by (simp add: handleOrderNew_rest matchOrder_def ord' same_book_def)
  qed
qed

end

section \<open>Cancelling and amending\<close>

definition remove_resting :: "u64 \<Rightarrow> book_levels \<Rightarrow> book_levels" where
  "remove_resting i ls =
     filter (\<lambda>(p, os). os \<noteq> []) (map (\<lambda>(p, os). (p, filter (\<lambda>x. eo_orderId x \<noteq> i) os)) ls)"

definition requantify_order :: "u64 \<Rightarrow> u64 \<Rightarrow> engine_order \<Rightarrow> engine_order" where
  "requantify_order i q x = (if eo_orderId x = i then x\<lparr>eo_quantity := q\<rparr> else x)"

definition requantify :: "u64 \<Rightarrow> u64 \<Rightarrow> book_levels \<Rightarrow> book_levels" where
  "requantify i q ls = map (\<lambda>(p, os). (p, map (requantify_order i q) os)) ls"

lemma erase_order_filter:
  "distinct (map eo_orderId os) \<Longrightarrow> erase_order i os = filter (\<lambda>x. eo_orderId x \<noteq> i) os"
proof (induction os)
  case (Cons x xs)
  have "filter (\<lambda>x. eo_orderId x \<noteq> i) xs = xs" if "eo_orderId x = i"
    using Cons.prems that by (intro filter_True) (metis distinct.simps(2) image_eqI list.set_map list.simps(9))
  with Cons show ?case by simp
qed simp

lemma assign_quantity_map:
  "distinct (map eo_orderId os) \<Longrightarrow> assign_quantity i q os = map (requantify_order i q) os"
proof (induction os)
  case (Cons x xs)
  have "map (requantify_order i q) xs = xs" if "eo_orderId x = i"
    using Cons.prems that
    by (intro map_idI) (metis requantify_order_def distinct.simps(2) image_eqI list.set_map list.simps(9))
  with Cons show ?case by (cases "eo_orderId x = i") (simp_all add: requantify_order_def [of _ _ x])
qed simp

lemma order_with_idD:
  assumes "order_with_id i os = Some x"
  shows "x \<in> set os" "eo_orderId x = i"
  using assms unfolding order_with_id_def find_Some_iff by auto

lemma order_with_id_Some: "i \<in> order_ids os \<Longrightarrow> \<exists>x. order_with_id i os = Some x"
  unfolding order_with_id_def order_ids_def
  by (cases "find (\<lambda>o1. eo_orderId o1 = i) os") (auto simp: find_None_iff)

text \<open>What does not contain the id is not touched.\<close>

lemma remove_resting_id:
  "(\<And>p os. (p, os) \<in> set ls \<Longrightarrow> os \<noteq> [] \<and> i \<notin> order_ids os) \<Longrightarrow> remove_resting i ls = ls"
proof (induction ls)
  case (Cons x ls)
  obtain p os where x: "x = (p, os)" by (cases x)
  have "os \<noteq> []" "i \<notin> order_ids os" using Cons.prems [of p os] by (simp_all add: x)
  then have "filter (\<lambda>x. eo_orderId x \<noteq> i) os = os" by (intro filter_True) (auto simp: order_ids_def)
  moreover have "remove_resting i ls = ls" using Cons.prems by (intro Cons.IH) auto
  ultimately show ?case using \<open>os \<noteq> []\<close> by (simp add: remove_resting_def x)
qed (simp add: remove_resting_def)

lemma requantify_id:
  "(\<And>p os. (p, os) \<in> set ls \<Longrightarrow> i \<notin> order_ids os) \<Longrightarrow> requantify i q ls = ls"
  unfolding requantify_def
  by (rule map_idI) (auto simp: requantify_order_def order_ids_def intro!: map_idI, metis image_eqI)

lemma resting_append [simp]:
  "remove_resting i (xs @ ys) = remove_resting i xs @ remove_resting i ys"
  "requantify i q (xs @ ys) = requantify i q xs @ requantify i q ys"
  by (simp_all add: remove_resting_def requantify_def)

lemma resting_Cons:
  "remove_resting i ((p, os) # ls) =
     (let os' = filter (\<lambda>x. eo_orderId x \<noteq> i) os
      in if os' = [] then remove_resting i ls else (p, os') # remove_resting i ls)"
  "requantify i q ((p, os) # ls) = (p, map (requantify_order i q) os) # requantify i q ls"
  by (simp_all add: remove_resting_def requantify_def Let_def)

text \<open>Where a known order rests, and that it rests nowhere else.\<close>

definition only_at ::
  "('m \<Rightarrow> (u64 \<times> nat option) list) \<Rightarrow> 'm matching_engine \<Rightarrow> u64 \<Rightarrow> nat \<Rightarrow> bool" where
  "only_at entries e i ptr \<longleftrightarrow>
     (\<forall>s p v. (p, v) \<in> set (side_entries entries e s) \<longrightarrow> v \<noteq> Some ptr \<longrightarrow> i \<notin> order_ids (orders_at (en_levels e) (the v)))"

lemma index_entry:
  assumes wf: "engine_wf entries e" "smap_find (en_orderByID e) i = Some refs"
  obtains s p ptr xs ys l x where "refs = \<lparr>rf_order = i, rf_priceLevel = ptr\<rparr>"
    "side_entries entries e s = xs @ (p, Some ptr) # ys" "en_levels e ptr = Some l"
    "level_ok s p (pl_orders l)" "order_with_id i (pl_orders l) = Some x" "x \<in> set (pl_orders l)"
    "eo_orderId x = i" "eo_side x = s" "eo_price x = p" "only_at entries e i ptr"
proof -
  note bwf = wf(1) [unfolded engine_wf_def]
  obtain s p where r: "rf_order refs = i" "i \<in> order_ids (orders_at (en_levels e) (rf_priceLevel refs))"
    "(p, Some (rf_priceLevel refs)) \<in> set (side_entries entries e s)"
    using book_wfD(4) [OF bwf, of i refs] wf(2) by auto
  let ?ptr = "rf_priceLevel refs"
  have ok: "level_ok s p (orders_at (en_levels e) ?ptr)" "?ptr < en_fresh e" using book_wfD(2) [OF bwf r(3)] by auto
  then obtain l where l: "en_levels e ?ptr = Some l" "orders_at (en_levels e) ?ptr = pl_orders l"
    by (auto simp: level_ok_def orders_at_def split: option.splits)
  obtain x where x: "order_with_id i (pl_orders l) = Some x" using order_with_id_Some r(2) l(2) by metis
  note xD = order_with_idD [OF x]
  obtain xs ys where "side_entries entries e s = xs @ (p, Some ?ptr) # ys" using r(3) by (meson split_list)
  moreover have "i \<notin> order_ids (orders_at (en_levels e) (the v))"
    if "(p', v) \<in> set (side_entries entries e s')" "v \<noteq> Some ?ptr" for s' p' v
  proof
    assume "i \<in> order_ids (orders_at (en_levels e) (the v))"
    moreover have "v \<noteq> None" using book_wfD(2) [OF bwf that(1)] by auto
    then obtain q where "v = Some q" by blast
    ultimately have "smap_find (en_orderByID e) i = Some \<lparr>rf_order = i, rf_priceLevel = q\<rparr>"
      using book_wfD(4) [OF bwf, of i "\<lparr>rf_order = i, rf_priceLevel = q\<rparr>"] that(1) by auto
    with wf(2) r that(2) \<open>v = Some q\<close> show False by auto
  qed
  ultimately show thesis using that r(1) l ok x xD by (cases refs) (auto simp: level_ok_def only_at_def)
qed

lemma levels_entry_facts:
  assumes "engine_wf entries e" "(p, os) \<in> set (levels_of (en_levels e) xs)" "set xs \<subseteq> set (side_entries entries e s)"
  shows "os \<noteq> []" "\<exists>v. (p, v) \<in> set xs \<and> os = orders_at (en_levels e) (the v)"
proof -
  obtain v where v: "(p, v) \<in> set xs" "os = orders_at (en_levels e) (the v)"
    using assms(2) by (auto simp: levels_of_def)
  then show "\<exists>v. (p, v) \<in> set xs \<and> os = orders_at (en_levels e) (the v)" by blast
  show "os \<noteq> []"
    using book_wfD(2) [OF assms(1) [unfolded engine_wf_def], of p v s] v assms(3) by (fastforce simp: level_ok_def)
qed

text \<open>An id found in one level only: the removal and the new quantity happen there.\<close>

lemma resting_split:
  assumes wf: "engine_wf entries e"
    and E: "side_entries entries e s = xs @ (p, Some ptr) # ys" "en_levels e ptr = Some l"
    and only: "only_at entries e i ptr"
  shows "side_levels entries e s = levels_of (en_levels e) xs @ (p, pl_orders l) # levels_of (en_levels e) ys"
    and "remove_resting i (levels_of (en_levels e) xs) = levels_of (en_levels e) xs"
    and "remove_resting i (levels_of (en_levels e) ys) = levels_of (en_levels e) ys"
    and "requantify i q (levels_of (en_levels e) xs) = levels_of (en_levels e) xs"
    and "requantify i q (levels_of (en_levels e) ys) = levels_of (en_levels e) ys"
    and "s' \<noteq> s \<Longrightarrow> remove_resting i (side_levels entries e s') = side_levels entries e s'"
    and "s' \<noteq> s \<Longrightarrow> requantify i q (side_levels entries e s') = side_levels entries e s'"
proof -
  let ?L = "en_levels e"
  note bwf = wf [unfolded engine_wf_def]
  have in_E: "(p, Some ptr) \<in> set (side_entries entries e s)" by (simp add: E(1))
  show "side_levels entries e s = levels_of ?L xs @ (p, pl_orders l) # levels_of ?L ys"
    by (simp add: side_levels_def E levels_of_def orders_at_def)
  have clean: "os \<noteq> [] \<and> i \<notin> order_ids os"
    if sub: "set zs \<subseteq> set (side_entries entries e s')" and free: "\<And>q. (q, Some ptr) \<notin> set zs"
      and mem: "(p', os) \<in> set (levels_of ?L zs)" for zs s' p' os
  proof -
    obtain v where v: "(p', v) \<in> set zs" "os = orders_at ?L (the v)"
      using levels_entry_facts(2) [OF wf mem sub] by blast
    with only [unfolded only_at_def, rule_format, of p' v s'] sub free [of p'] levels_entry_facts(1) [OF wf mem sub] show ?thesis by auto
  qed
  note apart = book_wf_only_entry(2) [OF bwf in_E E(1)]
  have xs: "os \<noteq> [] \<and> i \<notin> order_ids os" if "(p', os) \<in> set (levels_of ?L xs)" for p' os
    using clean [of xs s p' os] apart that by (auto simp: E(1))
  have ys: "os \<noteq> [] \<and> i \<notin> order_ids os" if "(p', os) \<in> set (levels_of ?L ys)" for p' os
    using clean [of ys s p' os] apart that by (auto simp: E(1))
  show "remove_resting i (levels_of ?L xs) = levels_of ?L xs" "requantify i q (levels_of ?L xs) = levels_of ?L xs"
    using xs by (auto intro: remove_resting_id requantify_id)
  show "remove_resting i (levels_of ?L ys) = levels_of ?L ys" "requantify i q (levels_of ?L ys) = levels_of ?L ys"
    using ys by (auto intro: remove_resting_id requantify_id)
  have other: "os \<noteq> [] \<and> i \<notin> order_ids os"
    if "s' \<noteq> s" "(p', os) \<in> set (side_levels entries e s')" for p' os
    using clean [of "side_entries entries e s'" s' p' os] book_wf_only_entry(1) [OF bwf in_E that(1)] that(2)
    by (simp add: side_levels_def)
  show "remove_resting i (side_levels entries e s') = side_levels entries e s'" if "s' \<noteq> s"
    using other [OF that] by (auto intro: remove_resting_id)
  show "requantify i q (side_levels entries e s') = side_levels entries e s'" if "s' \<noteq> s"
    using other [OF that] by (auto intro: requantify_id)
qed

context engine_maps
begin

text \<open>Erasing an order of a level that keeps others, and the last order of a level.\<close>

lemma erase_from_level:
  assumes wf: "engine_wf entries e"
    and E: "side_entries entries e s = xs @ (p, Some ptr) # ys" "en_levels e ptr = Some l"
    and i: "i \<in> order_ids (pl_orders l)" "only_at entries e i ptr"
    and os: "os = filter (\<lambda>x. eo_orderId x \<noteq> i) (pl_orders l)" "os \<noteq> []"
    and e': "e' = e\<lparr>en_levels := (en_levels e)(ptr \<mapsto> l\<lparr>pl_orders := os, pl_quantity := q\<rparr>),
      en_orderByID := smap_erase i (en_orderByID e)\<rparr>"
  shows "engine_wf entries e'" "side_levels entries e' s' = remove_resting i (side_levels entries e s')"
proof -
  let ?L = "en_levels e"
  note bwf = wf [unfolded engine_wf_def]
  have in_E: "(p, Some ptr) \<in> set (side_entries entries e s)" by (simp add: E(1))
  have at: "orders_at ?L ptr = pl_orders l" by (simp add: orders_at_def E(2))
  have os_ids: "order_ids os = order_ids (pl_orders l) - {i}" by (auto simp: os(1) order_ids_def)
  have "level_ok s p (pl_orders l)" using book_wfD(2) [OF bwf in_E] at by auto
  then have "level_ok s p os" using os by (auto simp: level_ok_def distinct_map_filter)
  moreover have "smap_find (en_orderByID e) j = Some \<lparr>rf_order = j, rf_priceLevel = ptr\<rparr>"
    if "j \<in> order_ids (pl_orders l)" for j
    using that in_E at book_wfD(4) [OF bwf, of j "\<lparr>rf_order = j, rf_priceLevel = ptr\<rparr>"] by auto
  ultimately have "book_wf (side_entries entries e) (en_levels e') (en_fresh e) (en_orderByID e')"
    unfolding e' using at os_ids i(1) book_wfD(5) [OF bwf]
    by (simp, intro book_wf_set_level [OF bwf in_E]) auto
  then show "engine_wf entries e'" by (simp add: engine_wf_def e')
  note split = resting_split [OF wf E i(2)]
  show "side_levels entries e' s' = remove_resting i (side_levels entries e s')"
  proof (cases "s' = s")
    case True
    have "side_levels entries e' s = levels_of ?L xs @ (p, os) # levels_of ?L ys"
      using levels_of_rest [OF bwf E(1)] by (simp add: e' side_levels_def E(1))
    with True os split show ?thesis by (simp add: resting_Cons Let_def)
  next
    case other: False
    have "side_levels entries e' s' = side_levels entries e s'"
      using levels_of_other_side [OF bwf in_E other] by (simp add: e' side_levels_def)
    with split(6) [OF other] show ?thesis by simp
  qed
qed

lemma erase_last_order:
  assumes wf: "engine_wf entries e"
    and E: "side_entries entries e s = xs @ (p, Some ptr) # ys" "en_levels e ptr = Some l"
    and i: "order_ids (pl_orders l) = {i}" "only_at entries e i ptr"
    and e': "side_entries entries e' = (side_entries entries e)(s := xs @ ys)"
      "en_levels e' = (en_levels e)(ptr := None)" "en_fresh e' = en_fresh e"
      "en_orderByID e' = smap_erase i (en_orderByID e)"
  shows "engine_wf entries e'" "side_levels entries e' s' = remove_resting i (side_levels entries e s')"
proof -
  let ?L = "en_levels e"
  note bwf = wf [unfolded engine_wf_def]
  have in_E: "(p, Some ptr) \<in> set (side_entries entries e s)" by (simp add: E(1))
  have at: "orders_at ?L ptr = pl_orders l" by (simp add: orders_at_def E(2))
  have "set (xs @ ys) = set (side_entries entries e s) - {(p, Some ptr)}"
    using book_wf_only_entry(2) [OF bwf in_E E(1), of p] by (auto simp: E(1))
  moreover have "sorted_keys (side_order s) (xs @ ys)"
    using book_wfD(1) [OF bwf, of s] by (auto simp: E(1) sorted_keys_append)
  ultimately have "book_wf (side_entries entries e') (en_levels e') (en_fresh e) (en_orderByID e')"
    unfolding e' using at i(1) book_wfD(5) [OF bwf]
    by (intro book_wf_drop_level [where s = s, OF bwf in_E]) auto
  then show "engine_wf entries e'" by (simp add: engine_wf_def e'(3))
  note split = resting_split [OF wf E i(2)]
  show "side_levels entries e' s' = remove_resting i (side_levels entries e s')"
  proof (cases "s' = s")
    case True
    have "filter (\<lambda>x. eo_orderId x \<noteq> i) (pl_orders l) = []" using i(1) by (auto simp: order_ids_def filter_empty_conv)
    moreover have "side_levels entries e' s = levels_of ?L xs @ levels_of ?L ys"
      using levels_of_rest [OF bwf E(1)] by (simp add: side_levels_def e')
    ultimately show ?thesis using True split by (simp add: resting_Cons Let_def)
  next
    case other: False
    have "side_levels entries e' s' = side_levels entries e s'"
      using levels_of_other_side [OF bwf in_E other] other by (simp add: side_levels_def e')
    with split(6) [OF other] show ?thesis by simp
  qed
qed

lemma cancelOrder_spec:
  assumes wf: "engine_wf entries e" "smap_find (en_orderByID e) i = Some refs"
  shows "\<exists>e'. cancelOrder Contents_Stay ops i refs e = Some e' \<and> engine_wf entries e' \<and> en_trades e' = en_trades e
    \<and> (\<forall>s. side_levels entries e' s = remove_resting i (side_levels entries e s))"
proof -
  let ?L = "en_levels e" let ?I = "smap_erase i (en_orderByID e)"
  note bwf = wf(1) [unfolded engine_wf_def]
  obtain s p ptr xs ys l x where r: "refs = \<lparr>rf_order = i, rf_priceLevel = ptr\<rparr>"
    "side_entries entries e s = xs @ (p, Some ptr) # ys" "?L ptr = Some l" "level_ok s p (pl_orders l)"
    "order_with_id i (pl_orders l) = Some x" "x \<in> set (pl_orders l)" "eo_orderId x = i" "eo_side x = s" "eo_price x = p"
    "only_at entries e i ptr"
    using index_entry [OF wf] by metis
  define os where "os = filter (\<lambda>x. eo_orderId x \<noteq> i) (pl_orders l)"
  have ids: "distinct (map eo_orderId (pl_orders l))" "i \<in> order_ids (pl_orders l)"
    using r(4,6,7) by (auto simp: level_ok_def order_ids_def)
  have os: "erase_order i (pl_orders l) = os" using erase_order_filter [OF ids(1)] by (simp add: os_def)
  let ?l = "l\<lparr>pl_orders := os, pl_quantity := pl_quantity l - ucast (eo_quantity x)\<rparr>"
  show ?thesis
  proof (cases "os = []")
    case False
    let ?e' = "e\<lparr>en_levels := ?L(ptr \<mapsto> ?l), en_orderByID := ?I\<rparr>"
    have "cancelOrder Contents_Stay ops i refs e = Some ?e'" using False by (simp add: cancelOrder_def r(1,3,5) os)
    with erase_from_level [OF wf(1) r(2,3) ids(2) r(10) os_def False refl] show ?thesis by auto
  next
    case True
    let ?m = "fo_erase_key (ops s) p (side_map s e)"
    let ?e' = "(set_side_map s ?m (e\<lparr>en_levels := ?L(ptr \<mapsto> ?l), en_orderByID := ?I\<rparr>))
      \<lparr>en_levels := ?L(ptr := None)\<rparr>"
    have sorted: "sorted_keys (side_order s) (side_entries entries e s)" by (rule book_wfD(1) [OF bwf])
    have "distinct (map fst (side_entries entries e s))" by (rule sorted_keys_distinct [OF sorted])
    then have "p \<notin> fst ` set xs" "p \<notin> fst ` set ys" by (auto simp: r(2))
    then have "filter (\<lambda>y. fst y \<noteq> p) xs = xs" "filter (\<lambda>y. fst y \<noteq> p) ys = ys" by (force intro!: filter_True)+
    moreover have "entries ?m = filter (\<lambda>y. fst y \<noteq> p) (side_entries entries e s)"
      using price_map.erase_key_eq [OF maps sorted [unfolded side_entries_def]] by (simp add: side_entries_def)
    ultimately have "entries ?m = xs @ ys" by (simp add: r(2))
    then have "side_entries entries ?e' = (side_entries entries e)(s := xs @ ys)" by simp
    moreover have "order_ids (pl_orders l) = {i}"
    proof -
      have "order_ids os = order_ids (pl_orders l) - {i}" by (auto simp: os_def order_ids_def)
      with True ids(2) show ?thesis by auto
    qed
    moreover have "cancelOrder Contents_Stay ops i refs e = Some ?e'"
      using True r(8,9) by (simp add: cancelOrder_def r(1,3,5) os Let_def)
    ultimately show ?thesis using erase_last_order [OF wf(1) r(2,3) _ r(10), of ?e'] by simp
  qed
qed

end

definition rests_on ::
  "('m \<Rightarrow> (u64 \<times> nat option) list) \<Rightarrow> 'm matching_engine \<Rightarrow> order_side \<Rightarrow> u64 \<Rightarrow> bool" where
  "rests_on entries e s i \<longleftrightarrow> i \<in> order_ids (queue_of (side_levels entries e s))"

lemma queue_of_order_ids:
  "i \<in> order_ids (queue_of (levels_of L xs)) \<longleftrightarrow> (\<exists>p v. (p, v) \<in> set xs \<and> i \<in> order_ids (orders_at L (the v)))"
  by (induction xs) (auto, blast+)

lemma rests_on_entry:
  assumes "engine_wf entries e" "(p, Some ptr) \<in> set (side_entries entries e s)"
    "i \<in> order_ids (orders_at (en_levels e) ptr)" "only_at entries e i ptr"
  shows "rests_on entries e s' i \<longleftrightarrow> s' = s"
proof
  assume "rests_on entries e s' i"
  then obtain q v where "(q, v) \<in> set (side_entries entries e s')" "i \<in> order_ids (orders_at (en_levels e) (the v))"
    unfolding rests_on_def side_levels_def queue_of_order_ids by blast
  moreover from this have "v = Some ptr" using assms(4) unfolding only_at_def by blast
  ultimately show "s' = s" using book_wf_only_entry(1) [OF assms(1) [unfolded engine_wf_def] assms(2)] by blast
next
  assume "s' = s"
  with assms(2,3) show "rests_on entries e s' i"
    unfolding rests_on_def side_levels_def queue_of_order_ids by fastforce
qed

lemma rests_on_index:
  "engine_wf entries e \<Longrightarrow> smap_find (en_orderByID e) i = None \<longleftrightarrow> (\<forall>s. \<not> rests_on entries e s i)"
  using engine_wf_index [of entries e i] by (auto simp: rests_on_def)

text \<open>The resting order with an id, as the handlers find it.\<close>

lemma resting_order:
  assumes wf: "engine_wf entries e" "smap_find (en_orderByID e) i = Some refs"
  obtains s p ptr xs ys l x where "refs = \<lparr>rf_order = i, rf_priceLevel = ptr\<rparr>"
    "side_entries entries e s = xs @ (p, Some ptr) # ys" "en_levels e ptr = Some l" "level_ok s p (pl_orders l)"
    "order_with_id i (pl_orders l) = Some x" "eo_side x = s" "eo_price x = p" "only_at entries e i ptr"
    "x \<in> set (queue_of (side_levels entries e s))" "eo_orderId x = i" "\<forall>s'. rests_on entries e s' i \<longleftrightarrow> s' = s"
proof -
  obtain s p ptr xs ys l x where r: "refs = \<lparr>rf_order = i, rf_priceLevel = ptr\<rparr>"
    "side_entries entries e s = xs @ (p, Some ptr) # ys" "en_levels e ptr = Some l" "level_ok s p (pl_orders l)"
    "order_with_id i (pl_orders l) = Some x" "x \<in> set (pl_orders l)" "eo_orderId x = i" "eo_side x = s" "eo_price x = p"
    "only_at entries e i ptr"
    using index_entry [OF wf] by metis
  have at: "orders_at (en_levels e) ptr = pl_orders l" by (simp add: orders_at_def r(3))
  have "x \<in> set (queue_of (side_levels entries e s))" using r(6) by (simp add: side_levels_def r(2) at)
  moreover have "i \<in> order_ids (orders_at (en_levels e) ptr)" using r(6,7) by (auto simp: at order_ids_def)
  then have "rests_on entries e s' i \<longleftrightarrow> s' = s" for s'
    using rests_on_entry [OF wf(1) _ _ r(10), of p s] by (simp add: r(2))
  ultimately show thesis using that r by blast
qed

context engine_maps
begin

lemma handleOrderCancel_spec:
  assumes wf: "engine_wf entries e"
  shows "\<exists>e'. handleOrderCancel Contents_Stay ops ord e = Some e' \<and> engine_wf entries e' \<and> en_trades e' = en_trades e
    \<and> (\<forall>s. side_levels entries e' s =
          (if rests_on entries e (eo_side ord) (eo_orderId ord)
           then remove_resting (eo_orderId ord) (side_levels entries e s) else side_levels entries e s))"
proof (cases "smap_find (en_orderByID e) (eo_orderId ord)")
  case None
  then have "\<not> rests_on entries e (eo_side ord) (eo_orderId ord)" using rests_on_index [OF wf] by blast
  with None wf show ?thesis by (simp add: handleOrderCancel_def)
next
  case (Some refs)
  obtain s p ptr xs ys l x where r: "refs = \<lparr>rf_order = eo_orderId ord, rf_priceLevel = ptr\<rparr>"
    "en_levels e ptr = Some l" "order_with_id (eo_orderId ord) (pl_orders l) = Some x" "eo_side x = s"
    "\<forall>s'. rests_on entries e s' (eo_orderId ord) \<longleftrightarrow> s' = s"
    by (rule resting_order [OF wf Some])
  show ?thesis
  proof (cases "eo_side ord = s")
    case True
    with r Some have "handleOrderCancel Contents_Stay ops ord e = cancelOrder Contents_Stay ops (eo_orderId ord) refs e"
      by (simp add: handleOrderCancel_def)
    with cancelOrder_spec [OF wf Some] r(5) True show ?thesis by simp
  next
    case False
    with r Some wf show ?thesis by (simp add: handleOrderCancel_def)
  qed
qed

lemma requantify_level:
  assumes wf: "engine_wf entries e"
    and E: "side_entries entries e s = xs @ (p, Some ptr) # ys" "en_levels e ptr = Some l"
    and i: "level_ok s p (pl_orders l)" "only_at entries e i ptr"
    and e': "e' = e\<lparr>en_levels := (en_levels e)(ptr \<mapsto>
      l\<lparr>pl_quantity := n, pl_orders := map (requantify_order i q) (pl_orders l)\<rparr>)\<rparr>"
  shows "engine_wf entries e'" "side_levels entries e' s' = requantify i q (side_levels entries e s')"
proof -
  let ?L = "en_levels e" let ?os = "map (requantify_order i q) (pl_orders l)"
  note bwf = wf [unfolded engine_wf_def]
  have in_E: "(p, Some ptr) \<in> set (side_entries entries e s)" by (simp add: E(1))
  have at: "orders_at ?L ptr = pl_orders l" by (simp add: orders_at_def E(2))
  have keep: "eo_orderId (requantify_order i q x) = eo_orderId x" "eo_side (requantify_order i q x) = eo_side x"
    "eo_price (requantify_order i q x) = eo_price x" for x by (simp_all add: requantify_order_def)
  then have ids: "order_ids ?os = order_ids (pl_orders l)" by (simp add: order_ids_def image_image)
  have "map eo_orderId ?os = map eo_orderId (pl_orders l)" using keep(1) by simp
  moreover have "\<forall>x \<in> set ?os. eo_side x = s \<and> eo_price x = p" using i(1) keep by (simp add: level_ok_def)
  ultimately have "level_ok s p ?os" using i(1) unfolding level_ok_def by (metis Nil_is_map_conv)
  moreover have "smap_find (en_orderByID e) j = Some \<lparr>rf_order = j, rf_priceLevel = ptr\<rparr>"
    if "j \<in> order_ids (pl_orders l)" for j
    using that in_E at book_wfD(4) [OF bwf, of j "\<lparr>rf_order = j, rf_priceLevel = ptr\<rparr>"] by auto
  ultimately have "book_wf (side_entries entries e) (en_levels e') (en_fresh e) (en_orderByID e')"
    unfolding e' using at ids book_wfD(5) [OF bwf] by (simp, intro book_wf_set_level [OF bwf in_E]) auto
  then show "engine_wf entries e'" by (simp add: engine_wf_def e')
  note split = resting_split [OF wf E i(2)]
  show "side_levels entries e' s' = requantify i q (side_levels entries e s')"
  proof (cases "s' = s")
    case True
    have "side_levels entries e' s = levels_of ?L xs @ (p, ?os) # levels_of ?L ys"
      using levels_of_rest [OF bwf E(1)] by (simp add: e' side_levels_def E(1))
    with True split show ?thesis by (simp add: resting_Cons)
  next
    case other: False
    have "side_levels entries e' s' = side_levels entries e s'"
      using levels_of_other_side [OF bwf in_E other] by (simp add: e' side_levels_def)
    with split(7) [OF other] show ?thesis by simp
  qed
qed

text \<open>An amended order: unknown, of another side, of another price, or with a new quantity.\<close>

lemma handleOrderAmend_cases:
  assumes wf: "engine_wf entries e"
  obtains (unknown) "\<not> rests_on entries e (eo_side ord) (eo_orderId ord)" "handleOrderAmend Contents_Stay ops ord e = Some e"
  | (reprice) x e1 where "x \<in> set (queue_of (side_levels entries e (eo_side ord)))" "eo_orderId x = eo_orderId ord"
      "eo_price x \<noteq> eo_price ord" "rests_on entries e (eo_side ord) (eo_orderId ord)"
      "engine_wf entries e1" "en_trades e1 = en_trades e"
      "\<And>s. side_levels entries e1 s = remove_resting (eo_orderId ord) (side_levels entries e s)"
      "handleOrderAmend Contents_Stay ops ord e = handleOrderNew ops ord e1"
  | (requantify) x e1 where "x \<in> set (queue_of (side_levels entries e (eo_side ord)))" "eo_orderId x = eo_orderId ord"
      "eo_price x = eo_price ord" "rests_on entries e (eo_side ord) (eo_orderId ord)"
      "engine_wf entries e1" "en_trades e1 = en_trades e"
      "\<And>s. side_levels entries e1 s = requantify (eo_orderId ord) (eo_quantity ord) (side_levels entries e s)"
      "handleOrderAmend Contents_Stay ops ord e = Some e1"
proof (cases "smap_find (en_orderByID e) (eo_orderId ord)")
  case None
  then have "\<not> rests_on entries e (eo_side ord) (eo_orderId ord)" using rests_on_index [OF wf] by blast
  with None unknown show thesis by (simp add: handleOrderAmend_def)
next
  case (Some refs)
  let ?i = "eo_orderId ord"
  obtain s p ptr xs ys l x where r: "refs = \<lparr>rf_order = ?i, rf_priceLevel = ptr\<rparr>"
    "side_entries entries e s = xs @ (p, Some ptr) # ys" "en_levels e ptr = Some l" "level_ok s p (pl_orders l)"
    "order_with_id ?i (pl_orders l) = Some x" "eo_side x = s" "eo_price x = p" "only_at entries e ?i ptr"
    "x \<in> set (queue_of (side_levels entries e s))" "eo_orderId x = ?i" "\<forall>s'. rests_on entries e s' ?i \<longleftrightarrow> s' = s"
    by (rule resting_order [OF wf Some])
  show thesis
  proof (cases "eo_side ord = s")
    case False
    with r Some show thesis by (intro unknown) (simp_all add: handleOrderAmend_def)
  next
    case own: True
    show thesis
    proof (cases "p = eo_price ord")
      case False
      obtain e1 where e1: "cancelOrder Contents_Stay ops ?i refs e = Some e1" "engine_wf entries e1" "en_trades e1 = en_trades e"
        "\<forall>s. side_levels entries e1 s = remove_resting ?i (side_levels entries e s)"
        using cancelOrder_spec [OF wf Some] by blast
      have "handleOrderAmend Contents_Stay ops ord e = handleOrderNew ops ord e1"
        using Some r(1,3,5-7) own False e1(1) by (simp add: handleOrderAmend_def)
      with reprice [of x e1] own r(7,9-11) e1 False show thesis by simp
    next
      case True
      let ?l = "l\<lparr>pl_quantity := pl_quantity l - ucast (eo_quantity x) + ucast (eo_quantity ord),
        pl_orders := map (requantify_order ?i (eo_quantity ord)) (pl_orders l)\<rparr>"
      let ?e1 = "e\<lparr>en_levels := (en_levels e)(ptr \<mapsto> ?l)\<rparr>"
      have "distinct (map eo_orderId (pl_orders l))" using r(4) by (simp add: level_ok_def)
      then have "handleOrderAmend Contents_Stay ops ord e = Some ?e1"
        using Some r(1,3,5-7) own True by (simp add: handleOrderAmend_def assign_quantity_map)
      with requantify [of x ?e1] own r(7,9-11) True requantify_level [OF wf r(2,3,4,8) refl]
      show thesis by simp
    qed
  qed
qed

end

end
