(* ===== verification/Engine_Properties.thy ===== *)
theory Engine_Properties
  imports Engine_Matching
begin

text \<open>
  What the matching engine promises: a new order trades with the resting orders it crosses in
  price-time order and nothing else, its remainder rests, cancelling and amending touch one order,
  and no sequence of orders breaks the invariant or crosses the book. Stated for any level maps with
  the laws \<open>engine_maps\<close>; the witnesses use the sorted lists.
\<close>

section \<open>Greedy filling of a queue\<close>

text \<open>A quantity filled from a queue of orders: the fills, what is left of it and of the queue.\<close>

fun fills :: "u64 \<Rightarrow> engine_order list \<Rightarrow> (engine_order \<times> u64) list" where
  "fills n [] = []"
| "fills n (x # xs) =
     (if n = 0 then [] else (x, min (eo_quantity x) n) # fills (n - min (eo_quantity x) n) xs)"

fun leftover :: "u64 \<Rightarrow> engine_order list \<Rightarrow> u64" where
  "leftover n [] = n"
| "leftover n (x # xs) = (if n \<ge> eo_quantity x then leftover (n - eo_quantity x) xs else 0)"

fun unfilled :: "u64 \<Rightarrow> engine_order list \<Rightarrow> engine_order list" where
  "unfilled n [] = []"
| "unfilled n (x # xs) =
     (if n \<ge> eo_quantity x then unfilled (n - eo_quantity x) xs
      else x\<lparr>eo_quantity := eo_quantity x - n\<rparr> # xs)"

definition positive :: "engine_order list \<Rightarrow> bool" where
  "positive xs \<longleftrightarrow> (\<forall>x \<in> set xs. eo_quantity x > 0)"

lemma positive_simps [simp]:
  "positive []" "positive (x # xs) \<longleftrightarrow> eo_quantity x > 0 \<and> positive xs"
  "positive (xs @ ys) \<longleftrightarrow> positive xs \<and> positive ys"
  by (auto simp: positive_def)

lemma zero_fill [simp]:
  "positive xs \<Longrightarrow> fills 0 xs = []" "positive xs \<Longrightarrow> unfilled 0 xs = xs" "leftover 0 xs = 0"
proof -
  show "positive xs \<Longrightarrow> fills 0 xs = []" by (cases xs) simp_all
  show "positive xs \<Longrightarrow> unfilled 0 xs = xs" by (cases xs) (auto simp: word_le_nat_alt word_less_nat_alt)
  show "leftover 0 xs = 0" by (induction xs) (auto simp: word_le_nat_alt unat_eq_zero)
qed

lemma fills_sum: "(\<Sum>(x, q) \<leftarrow> fills n xs. unat q) + unat (leftover n xs) = unat n"
proof (induction xs arbitrary: n)
  case (Cons x xs)
  show ?case
  proof (cases "n \<ge> eo_quantity x")
    case True
    then have "min (eo_quantity x) n = eo_quantity x" "unat (n - eo_quantity x) = unat n - unat (eo_quantity x)"
      "unat (eo_quantity x) \<le> unat n"
      by (simp_all add: unat_sub word_le_nat_alt)
    with Cons [of "n - eo_quantity x"] True show ?thesis by (cases "n = 0") simp_all
  next
    case False
    then have "min (eo_quantity x) n = n" "n \<noteq> 0 \<or> n = 0" by simp_all
    with False show ?thesis by (cases xs) simp_all
  qed
qed simp

lemma fills_append:
  "positive (xs @ ys) \<Longrightarrow> fills n (xs @ ys) = fills n xs @ fills (leftover n xs) ys"
proof (induction xs arbitrary: n)
  case (Cons x xs)
  have m: "min (eo_quantity x) n = (if n \<ge> eo_quantity x then eo_quantity x else n)" by simp
  from Cons show ?case by (cases "n = 0") (simp_all add: m)
qed simp

lemma leftover_append: "leftover n (xs @ ys) = leftover (leftover n xs) ys"
  by (induction xs arbitrary: n) simp_all

lemma unfilled_append:
  "positive (xs @ ys) \<Longrightarrow> unfilled n (xs @ ys) = (if unfilled n xs = [] then unfilled (leftover n xs) ys else unfilled n xs @ ys)"
  by (induction xs arbitrary: n) simp_all

lemma leftover_unfilled: "unfilled n xs \<noteq> [] \<Longrightarrow> leftover n xs = 0"
  by (induction xs arbitrary: n) (simp_all split: if_splits)

text \<open>The trade of a fill.\<close>

definition fill_trade :: "engine_order \<Rightarrow> engine_order \<times> u64 \<Rightarrow> engine_trade" where
  "fill_trade ord f =
     (case f of (x, q) \<Rightarrow>
        \<lparr>et_buyOrderInfo = order_info_of (if eo_side ord = SELL then x else ord),
         et_sellOrderInfo = order_info_of (if eo_side ord = SELL then ord else x),
         et_quantity = ucast q\<rparr>)"

lemma make_trade_fill: "make_trade ord x = fill_trade ord (x, min (eo_quantity x) (eo_quantity ord))"
  by (simp add: make_trade_def fill_trade_def setTradeQuantity_def setBuyOrder_def setSellOrder_def
      new_trade_def Let_def)

lemma fill_trade_quantity [simp]: "fill_trade (ord\<lparr>eo_quantity := q\<rparr>) = fill_trade ord"
  by (simp add: fill_trade_def fun_eq_iff order_info_of_def)

text \<open>
  A level filled in the engine: the greedy fills, and possibly one more trade of quantity zero, when
  the order is used up exactly by an order of the level that is not its last.
\<close>

lemma fill_level_greedy:
  assumes "fill_level ord os = (ord', os', ts)" "positive os"
  shows "ord' = ord\<lparr>eo_quantity := leftover (eo_quantity ord) os\<rparr>" "os' = unfilled (eo_quantity ord) os"
    "\<exists>extra. ts = map (fill_trade ord) (fills (eo_quantity ord) os) @ extra
      \<and> length extra \<le> 1 \<and> (\<forall>t \<in> set extra. et_quantity t = 0) \<and> (os' = [] \<longrightarrow> extra = [])"
proof -
  have "ord' = ord\<lparr>eo_quantity := leftover (eo_quantity ord) os\<rparr> \<and> os' = unfilled (eo_quantity ord) os
    \<and> (\<exists>extra. ts = map (fill_trade ord) (fills (eo_quantity ord) os) @ extra
      \<and> length extra \<le> 1 \<and> (\<forall>t \<in> set extra. et_quantity t = 0) \<and> (os' = [] \<longrightarrow> extra = []))"
    using assms
  proof (induction os arbitrary: ord ts)
    case (Cons x xs)
    show ?case
    proof (cases "eo_quantity ord \<ge> eo_quantity x")
      case True
      let ?ord = "ord\<lparr>eo_quantity := eo_quantity ord - eo_quantity x\<rparr>"
      obtain ts1 where f: "fill_level ?ord xs = (ord', os', ts1)" "ts = make_trade ord x # ts1"
        using Cons.prems(1) True by (auto split: prod.splits)
      have "eo_quantity ord \<noteq> 0" using True Cons.prems(2) by (auto simp: word_le_nat_alt word_less_nat_alt)
      moreover have "min (eo_quantity x) (eo_quantity ord) = eo_quantity x" using True by simp
      ultimately show ?thesis using Cons.IH [OF f(1)] Cons.prems(2) True f(2) by (auto simp: make_trade_fill)
    next
      case False
      then have m: "min (eo_quantity x) (eo_quantity ord) = eo_quantity ord" by simp
      with Cons.prems False show ?thesis
        by (cases "eo_quantity ord = 0") (auto simp: make_trade_fill fill_trade_def)
    qed
  qed simp
  then show "ord' = ord\<lparr>eo_quantity := leftover (eo_quantity ord) os\<rparr>" "os' = unfilled (eo_quantity ord) os"
    "\<exists>extra. ts = map (fill_trade ord) (fills (eo_quantity ord) os) @ extra
      \<and> length extra \<le> 1 \<and> (\<forall>t \<in> set extra. et_quantity t = 0) \<and> (os' = [] \<longrightarrow> extra = [])" by blast+
qed

text \<open>The orders of a side that a price crosses, in price-time order, and the others.\<close>

definition crossed :: "order_side \<Rightarrow> u64 \<Rightarrow> book_levels \<Rightarrow> book_levels" where
  "crossed s price ls = takeWhile (\<lambda>(p, os). comparator s p price) ls"

definition uncrossed :: "order_side \<Rightarrow> u64 \<Rightarrow> book_levels \<Rightarrow> book_levels" where
  "uncrossed s price ls = dropWhile (\<lambda>(p, os). comparator s p price) ls"

lemma crossed_Cons:
  "crossed s price ((p, os) # ls) = (if comparator s p price then (p, os) # crossed s price ls else [])"
  "uncrossed s price ((p, os) # ls) = (if comparator s p price then uncrossed s price ls else (p, os) # ls)"
  by (simp_all add: crossed_def uncrossed_def)

lemma crossed_split: "queue_of ls = queue_of (crossed s price ls) @ queue_of (uncrossed s price ls)"
  by (metis queue_of_append crossed_def uncrossed_def takeWhile_dropWhile_id)

lemma sweep_greedy:
  assumes "sweep s ord ls = (ord', ls', ts)" "positive (queue_of ls)"
  shows "eo_quantity ord' = leftover (eo_quantity ord) (queue_of (crossed s (eo_price ord) ls))
    \<and> queue_of ls' = unfilled (eo_quantity ord) (queue_of (crossed s (eo_price ord) ls)) @ queue_of (uncrossed s (eo_price ord) ls)
    \<and> (\<exists>extra. ts = map (fill_trade ord) (fills (eo_quantity ord) (queue_of (crossed s (eo_price ord) ls))) @ extra
        \<and> length extra \<le> 1 \<and> (\<forall>t \<in> set extra. et_quantity t = 0))"
  using assms
proof (induction s ord ls arbitrary: ord' ls' ts rule: sweep.induct)
  case (1 s ord)
  then show ?case by (simp add: crossed_def uncrossed_def)
next
  case (2 s ord p os ls)
  have pos: "positive (queue_of (crossed s (eo_price ord) ls))"
    using 2(3) crossed_split [of ls s "eo_price ord"] by simp
  show ?case
  proof (cases "eo_quantity ord > 0 \<and> comparator s p (eo_price ord)")
    case False
    with 2(2,3) pos crossed_split [of ls s "eo_price ord"] show ?thesis
      by (cases "comparator s p (eo_price ord)") (auto simp: crossed_Cons word_greater_zero_iff)
  next
    case True
    obtain ord1 os1 t1 where f: "fill_level ord os = (ord1, os1, t1)" by (cases "fill_level ord os")
    have "positive os" using 2(3) by simp
    note g = fill_level_greedy [OF f this]
    have append: "fills n (os @ queue_of (crossed s (eo_price ord) ls)) =
        fills n os @ fills (leftover n os) (queue_of (crossed s (eo_price ord) ls))"
      "unfilled n (os @ queue_of (crossed s (eo_price ord) ls)) =
        (if unfilled n os = [] then unfilled (leftover n os) (queue_of (crossed s (eo_price ord) ls))
         else unfilled n os @ queue_of (crossed s (eo_price ord) ls))" for n
      using 2(3) pos by (simp_all add: fills_append unfilled_append)
    show ?thesis
    proof (cases "os1 = []")
      case full: True
      obtain t2 where t2: "sweep s ord1 ls = (ord', ls', t2)" "ts = t1 @ t2"
        using 2(2) True f full by (auto split: prod.splits)
      have price: "eo_price ord1 = eo_price ord" "fill_trade ord1 = fill_trade ord" using g(1) by simp_all
      have "t1 = map (fill_trade ord) (fills (eo_quantity ord) os)" using g(3) full by auto
      with 2(1) [OF True f [symmetric] refl full t2(1)] 2(3) True g(1,2) full t2(2) price append show ?thesis
        by (auto simp: crossed_Cons leftover_append)
    next
      case partial: False
      have "leftover (eo_quantity ord) os = 0" using leftover_unfilled g(2) partial by blast
      with 2(2) True f partial g append pos crossed_split [of ls s "eo_price ord"] show ?thesis
        by (auto simp: crossed_Cons leftover_append)
    qed
  qed
qed

section \<open>The book is never crossed\<close>

definition book_uncrossed :: "book_levels \<Rightarrow> book_levels \<Rightarrow> bool" where
  "book_uncrossed bids asks \<longleftrightarrow> (\<forall>b \<in> fst ` set bids. \<forall>a \<in> fst ` set asks. b < a)"

definition engine_uncrossed :: "('m \<Rightarrow> (u64 \<times> nat option) list) \<Rightarrow> 'm matching_engine \<Rightarrow> bool" where
  "engine_uncrossed entries e \<longleftrightarrow> book_uncrossed (side_levels entries e BUY) (side_levels entries e SELL)"

lemma engine_uncrossed_mono:
  assumes "engine_uncrossed entries e" "\<And>s. fst ` set (side_levels entries e' s) \<subseteq> fst ` set (side_levels entries e s)"
  shows "engine_uncrossed entries e'"
  using assms(1) assms(2) [of BUY] assms(2) [of SELL]
  unfolding engine_uncrossed_def book_uncrossed_def by (meson subsetD)

lemma sweep_keys: "sweep s ord ls = (ord', ls', ts) \<Longrightarrow> fst ` set ls' \<subseteq> fst ` set ls"
proof (induction s ord ls arbitrary: ord' ls' ts rule: sweep.induct)
  case (2 s ord p os ls)
  obtain ord1 os1 t1 where f: "fill_level ord os = (ord1, os1, t1)" by (cases "fill_level ord os")
  show ?case
  proof (cases "eo_quantity ord > 0 \<and> comparator s p (eo_price ord) \<and> os1 = []")
    case True
    then obtain t2 where "sweep s ord1 ls = (ord', ls', t2)" using 2(2) f by (auto split: prod.splits)
    with 2(1) [OF _ f [symmetric] refl] True show ?thesis by auto
  next
    case False
    with 2(2) f have "fst ` set ls' = fst ` set ((p, os) # ls)" by (auto split: if_splits)
    then show ?thesis by simp
  qed
qed simp

lemma sweep_remainder:
  "sweep s ord ls = (ord', ls', ts) \<Longrightarrow> eo_quantity ord' \<noteq> 0 \<Longrightarrow> ls' = uncrossed s (eo_price ord) ls"
proof (induction s ord ls arbitrary: ord' ls' ts rule: sweep.induct)
  case (1 s ord)
  then show ?case by (simp add: uncrossed_def)
next
  case (2 s ord p os ls)
  obtain ord1 os1 t1 where f: "fill_level ord os = (ord1, os1, t1)" by (cases "fill_level ord os")
  have price: "eo_price ord1 = eo_price ord" using fill_level_facts(1) [OF f] by auto
  show ?case
  proof (cases "eo_quantity ord > 0 \<and> comparator s p (eo_price ord)")
    case False
    with 2(2,3) show ?thesis by (auto simp: crossed_Cons word_greater_zero_iff)
  next
    case True
    then have "os1 = []" using 2(2,3) f fill_level_facts(2) [OF f] by (auto split: if_splits)
    with 2(1) [OF True f [symmetric] refl] 2(2,3) f True price show ?thesis
      by (auto simp: crossed_Cons split: prod.splits)
  qed
qed

lemma side_levels_sorted:
  assumes "engine_wf entries e"
  shows "sorted_keys (side_order s) (side_levels entries e s)"
proof -
  have keys: "sorted_keys so xs \<longleftrightarrow> sorted_wrt (before so) (map fst xs)" for so and xs :: "(u64 \<times> 'b) list"
    by (simp add: sorted_keys_def sorted_wrt_map)
  show ?thesis
    using book_wfD(1) [OF assms [unfolded engine_wf_def], of s] by (simp add: keys side_levels_def)
qed

lemma uncrossed_not_comparator:
  assumes "sorted_keys (side_order s) ls" "p \<in> fst ` set (uncrossed s price ls)"
  shows "\<not> comparator s p price"
  using assms
proof (induction ls)
  case Nil
  then show ?case by (simp add: uncrossed_def)
next
  case (Cons x ls)
  obtain q os where x: "x = (q, os)" by (cases x)
  show ?case
  proof (cases "comparator s q price")
    case True
    with Cons x show ?thesis by (simp add: crossed_Cons)
  next
    case False
    then have "p = q \<or> before (side_order s) q p" using Cons.prems x by (auto simp: crossed_Cons)
    with False show ?thesis by (cases s) (auto simp: comparator_def side_order_def before_def)
  qed
qed

lemma add_resting_keys: "fst ` set (add_resting so ord ls) = insert (eo_price ord) (fst ` set ls)"
  by (induction ls rule: add_resting.induct) auto

lemma remove_resting_keys: "fst ` set (remove_resting i ls) \<subseteq> fst ` set ls"
  by (force simp: remove_resting_def)

lemma requantify_keys: "fst ` set (requantify i q ls) = fst ` set ls"
  by (auto simp: requantify_def image_image split_beta)

lemma uncrossed_after:
  assumes un: "engine_uncrossed entries e"
    and opp: "fst ` set (side_levels entries e' (opposite_side s)) \<subseteq> fst ` set (side_levels entries e (opposite_side s))"
    and own: "fst ` set (side_levels entries e' s) \<subseteq> fst ` set (side_levels entries e s) \<or>
      fst ` set (side_levels entries e' s) \<subseteq> insert price (fst ` set (side_levels entries e s))
      \<and> (\<forall>p \<in> fst ` set (side_levels entries e' (opposite_side s)). \<not> comparator (opposite_side s) p price)"
  shows "engine_uncrossed entries e'"
proof -
  let ?K = "\<lambda>e s. fst ` set (side_levels entries e s)"
  have old: "b < a" if "b \<in> ?K e BUY" "a \<in> ?K e SELL" for a b
    using un that unfolding engine_uncrossed_def book_uncrossed_def by blast
  have "b < a" if "b \<in> ?K e' BUY" "a \<in> ?K e' SELL" for a b
  proof (cases s)
    case BUY
    then have o: "opposite_side s = SELL" by (simp add: opposite_side_def)
    then have a: "a \<in> ?K e SELL" using opp that(2) by auto
    show ?thesis
    proof (cases "b \<in> ?K e BUY")
      case False
      with own that have "b = price" "\<not> comparator SELL a price" unfolding o unfolding BUY by blast+
      then show ?thesis by (simp add: comparator_def)
    qed (use old a in blast)
  next
    case SELL
    then have o: "opposite_side s = BUY" by (simp add: opposite_side_def)
    then have b: "b \<in> ?K e BUY" using opp that(1) by auto
    show ?thesis
    proof (cases "a \<in> ?K e SELL")
      case False
      with own that have "a = price" "\<not> comparator BUY b price" unfolding o unfolding SELL by blast+
      then show ?thesis by (simp add: comparator_def)
    qed (use old b in blast)
  qed
  then show ?thesis by (simp add: engine_uncrossed_def book_uncrossed_def)
qed

context engine_maps
begin

lemma handleOrderNew_uncrossed:
  assumes wf: "engine_wf entries e" and un: "engine_uncrossed entries e"
  shows "\<exists>e'. handleOrderNew ops ord e = Some e' \<and> engine_wf entries e' \<and> engine_uncrossed entries e'"
proof -
  let ?s = "eo_side ord" let ?o = "opposite_side ?s"
  obtain ord' ls' ts where sw: "sweep ?o ord (side_levels entries e ?o) = (ord', ls', ts)"
    by (cases "sweep ?o ord (side_levels entries e ?o)")
  obtain e' where e': "handleOrderNew ops ord e = Some e'" "engine_wf entries e'" "side_levels entries e' ?o = ls'"
    "side_levels entries e' ?s = (if eo_quantity ord' = 0 \<or> eo_orderId ord \<in> order_ids (queue_of ls' @ queue_of (side_levels entries e ?s))
       then side_levels entries e ?s else add_resting (side_order ?s) ord' (side_levels entries e ?s))"
    using handleOrderNew_spec [OF wf sw] by blast
  have keys: "fst ` set ls' \<subseteq> fst ` set (side_levels entries e ?o)" by (rule sweep_keys [OF sw])
  obtain q where q: "ord' = ord\<lparr>eo_quantity := q\<rparr>" using sweep_order [OF sw] by blast
  have far: "\<not> comparator ?o p (eo_price ord)" if "p \<in> fst ` set ls'" "eo_quantity ord' \<noteq> 0" for p
    using that sweep_remainder [OF sw] uncrossed_not_comparator [OF side_levels_sorted [OF wf]] by metis
  have "engine_uncrossed entries e'"
  proof (rule uncrossed_after [OF un, where s = ?s and price = "eo_price ord"])
    show "fst ` set (side_levels entries e' ?o) \<subseteq> fst ` set (side_levels entries e ?o)" using keys e'(3) by simp
    show "fst ` set (side_levels entries e' ?s) \<subseteq> fst ` set (side_levels entries e ?s) \<or>
      fst ` set (side_levels entries e' ?s) \<subseteq> insert (eo_price ord) (fst ` set (side_levels entries e ?s))
      \<and> (\<forall>p \<in> fst ` set (side_levels entries e' ?o). \<not> comparator ?o p (eo_price ord))"
    proof (cases "eo_quantity ord' = 0")
      case True
      with e'(4) show ?thesis by simp
    next
      case False
      with e'(3,4) far show ?thesis by (auto simp: add_resting_keys q)
    qed
  qed
  with e' show ?thesis by blast
qed

lemma processOrder_keeps:
  assumes wf: "engine_wf entries e" and un: "engine_uncrossed entries e"
  shows "\<exists>e'. processOrder Contents_Stay ops ord e = Some e' \<and> engine_wf entries e' \<and> engine_uncrossed entries e'"
proof (cases "eo_action ord")
  case NEW
  with handleOrderNew_uncrossed [OF assms] show ?thesis by (simp add: processOrder_def)
next
  case CANCEL
  obtain e' where "handleOrderCancel Contents_Stay ops ord e = Some e'" "engine_wf entries e'"
    "\<forall>s. side_levels entries e' s = (if rests_on entries e (eo_side ord) (eo_orderId ord)
       then remove_resting (eo_orderId ord) (side_levels entries e s) else side_levels entries e s)"
    using handleOrderCancel_spec [OF wf] by blast
  moreover from this have "engine_uncrossed entries e'"
    by (intro engine_uncrossed_mono [OF un]) (simp add: remove_resting_keys)
  ultimately show ?thesis using CANCEL by (simp add: processOrder_def)
next
  case AMEND
  from wf show ?thesis
  proof (cases rule: handleOrderAmend_cases [where ord = ord, consumes 1, case_names unknown reprice requantify])
    case unknown
    with AMEND assms show ?thesis by (simp add: processOrder_def)
  next
    case (reprice x e1)
    have "engine_uncrossed entries e1"
      by (intro engine_uncrossed_mono [OF un]) (simp add: reprice remove_resting_keys)
    with handleOrderNew_uncrossed [OF reprice(5)] AMEND reprice(8) show ?thesis by (simp add: processOrder_def)
  next
    case (requantify x e1)
    have "engine_uncrossed entries e1"
      by (intro engine_uncrossed_mono [OF un]) (simp add: requantify requantify_keys)
    with AMEND requantify show ?thesis by (simp add: processOrder_def)
  qed
qed (use assms in \<open>simp_all add: processOrder_def\<close>)

lemma new_engine_wf: "engine_wf entries (new_engine ops)" "engine_uncrossed entries (new_engine ops)"
proof -
  have "side_entries entries (new_engine ops) s = []" for s
    using price_map.entries_new [OF maps] by (cases s) (simp_all add: side_entries_def side_map_def new_engine_def)
  then show "engine_wf entries (new_engine ops)" "engine_uncrossed entries (new_engine ops)"
    by (simp_all add: engine_wf_def book_wf_def new_engine_def engine_uncrossed_def book_uncrossed_def side_levels_def)
qed

end

section \<open>Properties\<close>

text \<open>A sequence of orders, and whether one of them takes out an order that rests.\<close>

fun process_orders ::
  "dead_memory \<Rightarrow> (order_side \<Rightarrow> 'm flat_map_ops) \<Rightarrow> engine_order list \<Rightarrow> 'm matching_engine
    \<Rightarrow> 'm matching_engine option" where
  "process_orders dead ops [] e = Some e"
| "process_orders dead ops (ord # orders) e =
     (case processOrder dead ops ord e of None \<Rightarrow> None | Some e' \<Rightarrow> process_orders dead ops orders e')"

fun cancels_during :: "(order_side \<Rightarrow> 'm flat_map_ops) \<Rightarrow> engine_order list \<Rightarrow> 'm matching_engine \<Rightarrow> bool" where
  "cancels_during ops [] e \<longleftrightarrow> False"
| "cancels_during ops (ord # orders) e \<longleftrightarrow> cancels_resting ord e
     \<or> (case processOrder Contents_Stay ops ord e of None \<Rightarrow> False | Some e' \<Rightarrow> cancels_during ops orders e')"

lemma process_orders_strict:
  "process_orders Undefined_Reads ops orders e =
     (if cancels_during ops orders e then None else process_orders Contents_Stay ops orders e)"
  by (induction orders arbitrary: e) (simp_all add: processOrder_strict split: option.split)

lemma process_orders_keeps:
  assumes "engine_maps ops entries" "engine_wf entries e" "engine_uncrossed entries e"
  shows "\<exists>e'. process_orders Contents_Stay ops orders e = Some e' \<and> engine_wf entries e' \<and> engine_uncrossed entries e'"
  using assms(2,3)
proof (induction orders arbitrary: e)
  case (Cons ord orders)
  obtain e1 where "processOrder Contents_Stay ops ord e = Some e1" "engine_wf entries e1" "engine_uncrossed entries e1"
    using engine_maps.processOrder_keeps [OF assms(1) Cons.prems] by blast
  with Cons.IH show ?case by simp
qed simp


abbreviation list_side_ops :: "order_side \<Rightarrow> (u64 \<times> nat option) list flat_map_ops" where
  "list_side_ops \<equiv> \<lambda>s. list_ops (side_order s)"

lemma new_engine_rests [simp]: "\<not> cancels_resting ord (new_engine ops)"
  by (simp add: cancels_resting_def named_order_def new_engine_def)

text \<open>The example: an order, and its cancellation.\<close>

lemma first_order:
  "processOrder dead list_side_ops (limit_order BUY NEW 1 100 5) (new_engine list_side_ops) =
     Some \<lparr>en_orderByID = [(1, \<lparr>rf_order = 1, rf_priceLevel = 0\<rparr>)], en_bids = [(100, Some 0)], en_asks = [],
       en_trades = [], en_levels = [0 \<mapsto> \<lparr>pl_orders = [limit_order BUY NEW 1 100 5], pl_quantity = 5\<rparr>], en_fresh = 1\<rparr>"
  by (simp add: processOrder_def handleOrderNew_def matchOrder_def match_levels.simps getOrderPriceList_def
      new_engine_def opposite_side_def side_map_def set_side_map_def list_ops_def Let_def)


text \<open>
  C13. A new order against a book of positive quantities: its trades are, in price-time order, the
  greedy fills of the opposite orders at prices it crosses, plus at most one more trade of quantity
  zero; those orders lose what they traded and all others stay; what is left of the new order joins
  the end of its price level unless its id is already resting; and traded and left quantity add up
  to the order's.
\<close>

theorem new_order_price_time:
  assumes "engine_maps ops entries" "engine_wf entries e" "eo_action ord = NEW"
    and "positive (queue_of (side_levels entries e (opposite_side (eo_side ord))))"
  shows "let s = eo_side ord; opp = side_levels entries e (opposite_side s);
      q = queue_of (crossed (opposite_side s) (eo_price ord) opp);
      left = leftover (eo_quantity ord) q
    in \<exists>e' extra. processOrder dead ops ord e = Some e'
      \<and> en_trades e' = en_trades e @ map (fill_trade ord) (fills (eo_quantity ord) q) @ extra
      \<and> length extra \<le> 1 \<and> (\<forall>t \<in> set extra. et_quantity t = 0)
      \<and> queue_of (side_levels entries e' (opposite_side s)) =
          unfilled (eo_quantity ord) q @ queue_of (uncrossed (opposite_side s) (eo_price ord) opp)
      \<and> side_levels entries e' s =
          (if left = 0 \<or> rests_on entries e s (eo_orderId ord)
              \<or> eo_orderId ord \<in> order_ids (queue_of (side_levels entries e' (opposite_side s)))
           then side_levels entries e s
           else add_resting (side_order s) (ord\<lparr>eo_quantity := left\<rparr>) (side_levels entries e s))
      \<and> (\<Sum>(x, n) \<leftarrow> fills (eo_quantity ord) q. unat n) + unat left = unat (eo_quantity ord)"
proof -
  let ?o = "opposite_side (eo_side ord)"
  obtain ord' ls' ts where sw: "sweep ?o ord (side_levels entries e ?o) = (ord', ls', ts)"
    by (cases "sweep ?o ord (side_levels entries e ?o)")
  note g = sweep_greedy [OF sw assms(4)]
  obtain q where q: "ord' = ord\<lparr>eo_quantity := q\<rparr>" using sweep_order [OF sw] by blast
  from engine_maps.handleOrderNew_spec [OF assms(1,2) sw] assms(3) g q show ?thesis
    by (auto simp: Let_def processOrder_def rests_on_def fills_sum)
qed

definition example_engine :: "(u64 \<times> nat option) list matching_engine" where
  "example_engine = \<lparr>en_orderByID = [(1, \<lparr>rf_order = 1, rf_priceLevel = 0\<rparr>), (2, \<lparr>rf_order = 2, rf_priceLevel = 0\<rparr>)],
     en_bids = [], en_asks = [(10, Some 0)], en_trades = [],
     en_levels = [0 \<mapsto> \<lparr>pl_orders = [limit_order SELL NEW 1 10 5, limit_order SELL NEW 2 10 4], pl_quantity = 9\<rparr>],
     en_fresh = 1\<rparr>"

lemma example_levels [simp]:
  "side_levels (\<lambda>m. m) example_engine SELL = [(10, [limit_order SELL NEW 1 10 5, limit_order SELL NEW 2 10 4])]"
  "side_levels (\<lambda>m. m) example_engine BUY = []"
  by (simp_all add: side_levels_def side_entries_def side_map_def example_engine_def orders_at_def)

lemma example_engine_wf: "engine_wf (\<lambda>m. m) example_engine"
proof -
  have E: "side_entries (\<lambda>m. m) example_engine s = (if s = SELL then [(10, Some 0)] else [])" for s
    by (cases s) (simp_all add: side_entries_def side_map_def example_engine_def)
  have parts: "orders_at (en_levels example_engine) ptr =
      (if ptr = 0 then [limit_order SELL NEW 1 10 5, limit_order SELL NEW 2 10 4] else [])"
    "en_fresh example_engine = 1" "smap_wf (en_orderByID example_engine)"
    "smap_find (en_orderByID example_engine) i = (if i = 1 then Some \<lparr>rf_order = 1, rf_priceLevel = 0\<rparr>
      else if i = 2 then Some \<lparr>rf_order = 2, rf_priceLevel = 0\<rparr> else None)" for ptr i
    by (simp_all add: example_engine_def orders_at_def)
  have "smap_find (en_orderByID example_engine) i = Some r \<longleftrightarrow> rf_order r = i
      \<and> i \<in> order_ids (orders_at (en_levels example_engine) (rf_priceLevel r))
      \<and> (\<exists>s p. (p, Some (rf_priceLevel r)) \<in> set (side_entries (\<lambda>m. m) example_engine s))" for i r
    unfolding E parts by (cases r) auto
  moreover have "\<exists>ptr. v = Some ptr \<and> ptr < en_fresh example_engine \<and> level_ok s p (orders_at (en_levels example_engine) ptr)"
    if "(p, v) \<in> set (side_entries (\<lambda>m. m) example_engine s)" for s p v
    using that by (auto simp: E parts level_ok_def split: if_splits)
  ultimately show ?thesis
    unfolding engine_wf_def by (intro book_wfI parts(3)) (auto simp: E split: if_splits)
qed

theorem new_order_price_time_witness:
  "\<exists>e'. processOrder Undefined_Reads list_side_ops (limit_order BUY NEW 7 11 6) example_engine = Some e'
     \<and> take 2 (map et_quantity (en_trades e')) = [5, 1]"
proof -
  have c: "opposite_side BUY = SELL" by (simp add: opposite_side_def)
  have "positive (queue_of (side_levels (\<lambda>m. m) example_engine (opposite_side (eo_side (limit_order BUY NEW 7 11 6)))))"
    by (simp add: c)
  from new_order_price_time [OF list_maps.engine_maps_axioms example_engine_wf _ this, where dead = Undefined_Reads]
  obtain e' extra where "processOrder Undefined_Reads list_side_ops (limit_order BUY NEW 7 11 6) example_engine = Some e'"
    "en_trades e' = en_trades example_engine @ map (fill_trade (limit_order BUY NEW 7 11 6))
       (fills 6 (queue_of (crossed SELL 11 [(10, [limit_order SELL NEW 1 10 5, limit_order SELL NEW 2 10 4])]))) @ extra"
    by (auto simp: Let_def c)
  moreover have "en_trades example_engine = []" by (simp add: example_engine_def)
  ultimately show ?thesis by (simp add: crossed_def comparator_def fill_trade_def)
qed

text \<open>
  Where destroyed objects still show what they held, a cancel takes exactly the order with its id, if
  that rests on the cancel's side, and otherwise does nothing; an amend of the quantity changes exactly
  that order and keeps its place; an amend of the price cancels it and treats the amended order as
  new; an amend that names no order of its side does nothing.
\<close>

theorem cancel_and_amend_one_order:
  assumes "engine_maps ops entries" "engine_wf entries e"
  shows "let i = eo_orderId ord; here = rests_on entries e (eo_side ord) i
    in (\<exists>e'. handleOrderCancel Contents_Stay ops ord e = Some e' \<and> en_trades e' = en_trades e
          \<and> (\<forall>s. side_levels entries e' s =
              (if here then remove_resting i (side_levels entries e s) else side_levels entries e s)))
     \<and> (if \<not> here then handleOrderAmend Contents_Stay ops ord e = Some e
        else \<exists>x e1. x \<in> set (queue_of (side_levels entries e (eo_side ord))) \<and> eo_orderId x = i \<and> en_trades e1 = en_trades e
          \<and> (if eo_price x = eo_price ord
             then handleOrderAmend Contents_Stay ops ord e = Some e1
               \<and> (\<forall>s. side_levels entries e1 s = requantify i (eo_quantity ord) (side_levels entries e s))
             else handleOrderAmend Contents_Stay ops ord e = handleOrderNew ops ord e1
               \<and> (\<forall>s. side_levels entries e1 s = remove_resting i (side_levels entries e s))))"
proof -
  from assms(2) have "if \<not> rests_on entries e (eo_side ord) (eo_orderId ord) then handleOrderAmend Contents_Stay ops ord e = Some e
        else \<exists>x e1. x \<in> set (queue_of (side_levels entries e (eo_side ord))) \<and> eo_orderId x = eo_orderId ord
          \<and> en_trades e1 = en_trades e
          \<and> (if eo_price x = eo_price ord
             then handleOrderAmend Contents_Stay ops ord e = Some e1
               \<and> (\<forall>s. side_levels entries e1 s = requantify (eo_orderId ord) (eo_quantity ord) (side_levels entries e s))
             else handleOrderAmend Contents_Stay ops ord e = handleOrderNew ops ord e1
               \<and> (\<forall>s. side_levels entries e1 s = remove_resting (eo_orderId ord) (side_levels entries e s)))"
    by (cases rule: engine_maps.handleOrderAmend_cases [OF assms(1), where ord = ord, consumes 1]) auto
  with engine_maps.handleOrderCancel_spec [OF assms, of ord] show ?thesis unfolding Let_def by blast
qed

theorem cancel_and_amend_one_order_witness:
  "(\<exists>e'. handleOrderCancel Contents_Stay list_side_ops (limit_order SELL CANCEL 1 0 0) example_engine = Some e'
      \<and> side_levels (\<lambda>m. m) e' SELL = [(10, [limit_order SELL NEW 2 10 4])])
   \<and> (\<exists>e'. handleOrderAmend Contents_Stay list_side_ops (limit_order BUY AMEND 2 10 8) example_engine = Some e')"
proof -
  have "rests_on (\<lambda>m. m) example_engine SELL 1" "\<not> rests_on (\<lambda>m. m) example_engine BUY 2"
    by (simp_all add: rests_on_def)
  with cancel_and_amend_one_order [OF list_maps.engine_maps_axioms example_engine_wf, of "limit_order SELL CANCEL 1 0 0"]
    cancel_and_amend_one_order [OF list_maps.engine_maps_axioms example_engine_wf, of "limit_order BUY AMEND 2 10 8"]
  show ?thesis by (auto simp: Let_def remove_resting_def)
qed

text \<open>
  When a new order is used up exactly by the first resting order of the best level and another
  one with a positive quantity waits behind it, the engine records a second trade, of quantity zero,
  with that other order.
\<close>

theorem exact_fill_adds_empty_trade:
  assumes "engine_maps ops entries" "engine_wf entries e" "eo_action ord = NEW"
    and "side_levels entries e (opposite_side (eo_side ord)) = (p, x # y # os) # ls"
    and "comparator (opposite_side (eo_side ord)) p (eo_price ord)"
    and "eo_quantity ord = eo_quantity x" "eo_quantity x > 0" "eo_quantity y > 0"
  shows "\<exists>e'. processOrder dead ops ord e = Some e'
    \<and> en_trades e' = en_trades e @ [fill_trade ord (x, eo_quantity x), fill_trade ord (y, 0)]"
proof -
  have "\<not> eo_quantity y \<le> 0" using assms(8) by (simp add: word_le_nat_alt word_less_nat_alt)
  then have "sweep (opposite_side (eo_side ord)) ord ((p, x # y # os) # ls) =
      (ord\<lparr>eo_quantity := 0\<rparr>, (p, y # os) # ls, [fill_trade ord (x, eo_quantity x), fill_trade ord (y, 0)])"
    using assms(5-7) by (simp add: make_trade_fill min_def)
  from engine_maps.handleOrderNew_spec [OF assms(1,2) this [folded assms(4)]] assms(3) show ?thesis
    by (auto simp: processOrder_def)
qed

theorem exact_fill_adds_empty_trade_witness:
  "\<exists>e'. processOrder Undefined_Reads list_side_ops (limit_order BUY NEW 7 11 5) example_engine = Some e' \<and> length (en_trades e') = 2"
  using exact_fill_adds_empty_trade [OF list_maps.engine_maps_axioms example_engine_wf, of "limit_order BUY NEW 7 11 5" _ _ _ _ _ Undefined_Reads]
  by (auto simp: opposite_side_def comparator_def example_engine_def side_levels_def side_entries_def side_map_def orders_at_def)

end
