(* ===== verification/Text_Codec.thy ===== *)
theory Text_Codec
  imports Prelude
begin

text \<open>
  The text codecs of \<open>Utilities/HexConverter.cpp\<close> and \<open>Utilities/Base64.cpp\<close>. A \<open>std::string\<close> is the
  list of its bytes; \<open>char\<close> and \<open>uint8_t\<close> are 8-bit words. A read behind the end of a string or of a
  view is undefined in C++, and is the value \<open>None\<close> here.

  The hexadecimal lemmas show the loops equal to a concatenation over the bytes and the reading back
  exact; the Base64 lemmas show the bit loop equal to the encoding of RFC 4648, up to the padding.
\<close>

unbundle bit_operations_syntax

type_synonym byte = "8 word"

definition byte_of :: "char \<Rightarrow> byte" where
  "byte_of c = of_char c"

abbreviation text_of :: "string \<Rightarrow> byte list" where
  "text_of s \<equiv> map byte_of s"

section \<open>Hexadecimal\<close>

definition hex_table :: "byte list" where
  "hex_table = text_of ''0123456789ABCDEF''"

definition table_at :: "byte list \<Rightarrow> 'a :: len word \<Rightarrow> byte" where
  "table_at t w = t ! unat w"

text \<open>\<open>void bytesToHexStr(src, len, dest)\<close> and \<open>std::string bytesToHexStr(src, len)\<close>: the loop over
  \<open>len\<close> bytes; the second reads \<open>*src\<close> once before the loop, even for \<open>len = 0\<close>.\<close>

fun hex_write :: "byte list \<Rightarrow> nat \<Rightarrow> byte list \<Rightarrow> nat \<Rightarrow> byte list option" where
  "hex_write src 0 result pos = Some result"
| "hex_write [] (Suc len) result pos = None"
| "hex_write (ch # src) (Suc len) result pos =
     (if pos + 1 < length result
      then hex_write src len (result[pos := table_at hex_table (drop_bit 4 ch),
                                     pos + 1 := table_at hex_table (ch AND 0x0f)]) (pos + 2)
      else None)"

definition bytesToHexDest :: "byte list \<Rightarrow> nat \<Rightarrow> byte list \<Rightarrow> byte list option" where
  "bytesToHexDest src len dest = hex_write src len dest 0"

definition bytesToHexStr :: "byte list \<Rightarrow> nat \<Rightarrow> byte list option" where
  "bytesToHexStr src len = (if src = [] then None
     else hex_write src len (replicate (len * 2) (byte_of (CHR ''0''))) 0)"

definition bytesToHex :: "byte list \<Rightarrow> byte list option" where
  "bytesToHex bytesStr =
     hex_write bytesStr (length bytesStr) (replicate (length bytesStr * 2) (byte_of (CHR ''0''))) 0"

text \<open>Reading back: \<open>hexCode\<close> maps every other symbol to zero, \<open>hex2UChar\<close> reads two symbols of its
  view, the loops step by two over a string of any length.\<close>

definition hexCode :: "byte \<Rightarrow> byte" where
  "hexCode symbol =
    (if symbol \<ge> byte_of (CHR ''0'') \<and> symbol \<le> byte_of (CHR ''9'') then symbol - byte_of (CHR ''0'')
     else if symbol \<ge> byte_of (CHR ''A'') \<and> symbol \<le> byte_of (CHR ''F'') then symbol - byte_of (CHR ''A'') + 10
     else if symbol \<ge> byte_of (CHR ''a'') \<and> symbol \<le> byte_of (CHR ''f'') then symbol - byte_of (CHR ''a'') + 10
     else 0)"

fun hex2UChar :: "byte list \<Rightarrow> byte option" where
  "hex2UChar (a # b # rest) = Some (16 * hexCode a + hexCode b)"
| "hex2UChar _ = None"

function hex_read :: "byte list \<Rightarrow> nat \<Rightarrow> byte list \<Rightarrow> byte list option" where
  "hex_read hexString i bytes =
     (if i < length hexString
      then (case hex2UChar (take 2 (drop i hexString)) of
              None \<Rightarrow> None
            | Some b \<Rightarrow> hex_read hexString (i + 2) (bytes @ [b]))
      else Some bytes)"
  by pat_completeness auto
termination by (relation "measure (\<lambda>(s, i, _). length s - i)") auto

declare hex_read.simps [simp del]

definition hex2Bytes :: "byte list \<Rightarrow> byte list option" where
  "hex2Bytes hexString = hex_read hexString 0 []"

text \<open>\<open>hex2BytesString\<close> has the same loop; the cast to \<open>char\<close> keeps the bits.\<close>

definition hex2BytesString :: "byte list \<Rightarrow> byte list option" where
  "hex2BytesString hexString = hex_read hexString 0 []"

text \<open>\<open>intToHex\<close>: digits of the 32-bit pattern, least significant first, then reversed.\<close>

lemma unat_drop_bit_4: "unat (drop_bit 4 (num :: 'a :: len word)) = unat num div 16"
  by (subst unat_drop_bit_eq) (simp add: drop_bit_eq_div)

function hex_digits :: "u32 \<Rightarrow> byte list \<Rightarrow> byte list" where
  "hex_digits num result =
     (if num > 0 then hex_digits (drop_bit 4 num) (result @ [table_at hex_table (num AND 0xF)])
      else result)"
  by pat_completeness auto
termination
  by (relation "measure (\<lambda>(num, _). unat num)")
     (auto simp: unat_drop_bit_4 word_less_nat_alt intro!: div_less_dividend)

declare hex_digits.simps [simp del]

definition intToHex :: "u32 \<Rightarrow> byte list" where
  "intToHex value =
     (if value = 0 then [table_at hex_table (0 :: u32)] else rev (hex_digits value []))"

section \<open>Base64\<close>

definition ENCODING_TABLE :: "byte list" where
  "ENCODING_TABLE = text_of ''ABCDEFGHIJKLMNOPQRSTUVWXYZabcdefghijklmnopqrstuvwxyz0123456789+/''"

definition MAX_BITS_TO_ENCODE :: nat where "MAX_BITS_TO_ENCODE = 6"
definition BITS_IN_BYTE :: nat where "BITS_IN_BYTE = 8"

text \<open>The state of the two loops: the output, the value under construction (an \<open>int\<close> that only ever
  holds six bits) and the place of the next bit.\<close>

record base64_state =
  b64_result :: "byte list"
  encodedByte :: nat
  bit_to_set :: nat

text \<open>The body of the inner loop, with its \<open>--bit_to_set\<close>, for the bit \<open>i\<close> of the byte.\<close>

definition encode_bit :: "bool \<Rightarrow> base64_state \<Rightarrow> base64_state" where
  "encode_bit b s =
    (let s1 = (if bit_to_set s \<le> 0
               then \<lparr>b64_result = b64_result s @ [ENCODING_TABLE ! encodedByte s], encodedByte = 0,
                     bit_to_set = MAX_BITS_TO_ENCODE\<rparr>
               else s);
         s2 = (if b then s1\<lparr>encodedByte := encodedByte s1 OR 2 ^ (bit_to_set s1 - 1)\<rparr> else s1)
     in s2\<lparr>bit_to_set := bit_to_set s2 - 1\<rparr>)"

text \<open>\<open>for (int i = BITS_IN_BYTE - 1; i >= 0; --i, --bit_to_set)\<close>; the argument is \<open>i + 1\<close>.\<close>

fun encode_byte :: "byte \<Rightarrow> nat \<Rightarrow> base64_state \<Rightarrow> base64_state" where
  "encode_byte x 0 s = s"
| "encode_byte x (Suc i) s = encode_byte x i (encode_bit (bit x i) s)"

fun encode_bytes :: "byte list \<Rightarrow> base64_state \<Rightarrow> base64_state" where
  "encode_bytes [] s = s"
| "encode_bytes (x # str) s = encode_bytes str (encode_byte x BITS_IN_BYTE s)"

definition base64Encode :: "byte list \<Rightarrow> byte list" where
  "base64Encode str =
    (let s = encode_bytes str \<lparr>b64_result = [], encodedByte = 0, bit_to_set = MAX_BITS_TO_ENCODE\<rparr>
     in b64_result s @ [ENCODING_TABLE ! encodedByte s]
        @ replicate (if length str mod 3 = 2 then 1 else 2) (byte_of (CHR ''='')))"

section \<open>The hexadecimal loops\<close>

definition hex_pair :: "byte \<Rightarrow> byte list" where
  "hex_pair ch = [table_at hex_table (drop_bit 4 ch), table_at hex_table (ch AND 0x0f)]"

lemma length_concat_hex_pair [simp]: "length (concat (map hex_pair s)) = 2 * length s"
  by (induction s) (simp_all add: hex_pair_def)

lemma hex_write_pairs:
  assumes "len \<le> length src" "pos = length written" "length rest = 2 * len"
  shows "hex_write src len (written @ rest) pos = Some (written @ concat (map hex_pair (take len src)))"
  using assms
proof (induction len arbitrary: src written rest pos)
  case 0
  then show ?case by simp
next
  case (Suc len)
  from Suc.prems(1) obtain ch tail where src: "src = ch # tail" by (cases src) auto
  from Suc.prems(3) obtain a b more where rest: "rest = a # b # more" "length more = 2 * len"
    by (cases rest; cases "tl rest") auto
  have "(written @ a # b # more)[length written := x, length written + 1 := y] = (written @ [x, y]) @ more" for x y
    by (simp add: list_update_append)
  with Suc.IH [of tail "length written + 2" "written @ hex_pair ch" more] Suc.prems rest(2)
  show ?case by (simp add: src rest(1) hex_pair_def)
qed

lemma hex_write_short: "length src < len \<Longrightarrow> hex_write src len result pos = None"
  by (induction src len result pos rule: hex_write.induct) auto

lemma bytesToHex_pairs: "bytesToHex s = Some (concat (map hex_pair s))"
  using hex_write_pairs [of "length s" s 0 "[]"] by (simp add: bytesToHex_def)

lemma hexCode_table: "n < 16 \<Longrightarrow> hexCode (hex_table ! n) = of_nat n"
proof -
  have "list_all (\<lambda>n. hexCode (hex_table ! n) = of_nat n) [0..<16]" by code_simp
  then show "n < 16 \<Longrightarrow> ?thesis" by (simp add: list_all_iff)
qed

lemma hexCode_table_at: "unat w < 16 \<Longrightarrow> unat (hexCode (table_at hex_table w)) = unat w"
  by (simp add: table_at_def hexCode_table unat_of_nat take_bit_nat_eq_self del: of_nat_unat)

lemma unat_nibbles:
  "unat (drop_bit 4 (ch :: byte)) = unat ch div 16" "unat ((w :: 'a :: len word) AND 15) = unat w mod 16"
proof -
  show "unat (drop_bit 4 ch) = unat ch div 16" by (rule unat_drop_bit_4)
  have "(15 :: 'a word) = mask 4" by (simp add: mask_eq_exp_minus_1)
  then have "w AND 15 = take_bit 4 w" by (simp add: take_bit_eq_mask)
  then show "unat (w AND 15) = unat w mod 16"
    by (simp only: unsigned_take_bit_eq) (simp add: take_bit_eq_mod)
qed

lemma hex2UChar_pair: "hex2UChar (hex_pair ch @ rest) = Some ch"
proof -
  have "unat ch < 2 ^ LENGTH(8)" by (rule unsigned_less)
  then have lt: "unat ch div 16 < 16" by simp
  have "unat (16 * hexCode (table_at hex_table (drop_bit 4 ch)) + hexCode (table_at hex_table (ch AND 15))) = unat ch"
    using lt by (simp add: unat_word_ariths hexCode_table_at unat_nibbles)
  then show ?thesis by (simp add: hex_pair_def word_unat_eq_iff)
qed

text \<open>What the reading loop does, on the rest of the string.\<close>

fun hex_bytes :: "byte list \<Rightarrow> byte list option" where
  "hex_bytes [] = Some []"
| "hex_bytes [a] = None"
| "hex_bytes (a # b # rest) = map_option ((#) (16 * hexCode a + hexCode b)) (hex_bytes rest)"

lemma hex_read_rest: "hex_read h i acc = map_option ((@) acc) (hex_bytes (drop i h))"
proof (induction h i acc rule: hex_read.induct)
  case (1 h i acc)
  show ?case
  proof (cases "drop i h" rule: hex_bytes.cases)
    case 1
    then show ?thesis by (simp add: hex_read.simps [of h i])
  next
    case (2 a)
    then have "i < length h" by (metis drop_eq_Nil2 leI list.distinct(1))
    with 2 show ?thesis by (simp add: hex_read.simps [of h i])
  next
    case (3 a b rest)
    then have i: "i < length h" by (metis drop_eq_Nil2 leI list.distinct(1))
    have rest: "drop (i + 2) h = rest" using 3 by (metis add.commute drop_drop drop_Suc_Cons drop0 numeral_2_eq_2)
    show ?thesis
      using "1.IH" [OF i] 3 rest
      by (simp add: hex_read.simps [of h i] i numeral_2_eq_2 option.map_comp comp_def)
  qed
qed

lemma hex_bytes_pairs: "hex_bytes (concat (map hex_pair s)) = Some s"
proof (induction s)
  case (Cons ch s)
  with hex2UChar_pair [of ch "[]"] show ?case by (simp add: hex_pair_def)
qed simp

lemma hex_bytes_defined: "hex_bytes h = None \<longleftrightarrow> odd (length h)"
  by (induction h rule: hex_bytes.induct) auto

lemma hex_digits_acc: "hex_digits num acc = acc @ hex_digits num []"
proof (induction "unat num" arbitrary: num acc rule: less_induct)
  case less
  show ?case
  proof (cases "num > 0")
    case True
    then have smaller: "unat (drop_bit 4 num) < unat num"
      by (simp add: unat_drop_bit_4 word_less_nat_alt)
    have "hex_digits num acc = hex_digits (drop_bit 4 num) (acc @ [table_at hex_table (num AND 0xF)])"
      "hex_digits num [] = hex_digits (drop_bit 4 num) [table_at hex_table (num AND 0xF)]"
      using True by (simp_all add: hex_digits.simps [of num])
    then show ?thesis
      using less [OF smaller, of "acc @ [table_at hex_table (num AND 0xF)]"]
        less [OF smaller, of "[table_at hex_table (num AND 0xF)]"] by simp
  qed (simp add: hex_digits.simps)
qed

lemma hex_digits_step:
  "num > 0 \<Longrightarrow> rev (hex_digits num []) =
     rev (hex_digits (drop_bit 4 num) []) @ [table_at hex_table (num AND 0xF)]"
  by (subst hex_digits.simps) (simp add: hex_digits_acc [of _ "[_]"])

lemma hex_digits_zero [simp]: "hex_digits 0 acc = acc"
  by (simp add: hex_digits.simps)

lemma hex_digits_value:
  "foldl (\<lambda>n c. 16 * n + unat (hexCode c)) 0 (rev (hex_digits num [])) = unat num"
proof (induction "unat num" arbitrary: num rule: less_induct)
  case less
  show ?case
  proof (cases "num > 0")
    case True
    then have "unat (drop_bit 4 num) < unat num"
      by (simp add: unat_drop_bit_4 word_less_nat_alt)
    from less [OF this] show ?thesis
      by (simp add: hex_digits_step [OF True] hexCode_table_at unat_nibbles unat_drop_bit_4)
  qed (simp add: word_gt_0)
qed

lemma length_hex_digits: "unat num < 16 ^ k \<Longrightarrow> length (hex_digits num []) \<le> k"
proof (induction k arbitrary: num)
  case (Suc k)
  show ?case
  proof (cases "num > 0")
    case True
    from Suc.prems have "unat (drop_bit 4 num) < 16 ^ k"
      by (simp add: unat_drop_bit_4 less_mult_imp_div_less)
    from Suc.IH [OF this] show ?thesis
      using arg_cong [OF hex_digits_step [OF True], of length] by simp
  qed (simp add: word_gt_0)
qed (simp add: unat_eq_zero)

lemma hex_table_zero: "0 < n \<Longrightarrow> n < 16 \<Longrightarrow> hex_table ! n \<noteq> byte_of (CHR ''0'')"
proof -
  have "list_all (\<lambda>n. 0 < n \<longrightarrow> hex_table ! n \<noteq> byte_of (CHR ''0'')) [0..<16]" by code_simp
  then show "0 < n \<Longrightarrow> n < 16 \<Longrightarrow> ?thesis" by (simp add: list_all_iff)
qed

lemma hex_digits_nonempty: "num > 0 \<Longrightarrow> hex_digits num [] \<noteq> []"
  using hex_digits_step [of num] by auto

lemma hd_hex_digits:
  "num > 0 \<Longrightarrow> hex_digits num [] \<noteq> [] \<and> hd (rev (hex_digits num [])) \<noteq> byte_of (CHR ''0'')"
proof (induction "unat num" arbitrary: num rule: less_induct)
  case less
  show ?case
  proof (cases "drop_bit 4 num > 0")
    case True
    have "unat (drop_bit 4 num) < unat num"
      using less.prems by (simp add: unat_drop_bit_4 word_less_nat_alt)
    from less.hyps [OF this True] show ?thesis
      using hex_digits_step [OF less.prems] by (auto simp: hd_append)
  next
    case False
    then have "unat num div 16 = 0" by (metis unat_drop_bit_4 unat_0 word_gt_0)
    then have "unat num < 16" by simp
    with False less.prems show ?thesis
      using hex_digits_nonempty [OF less.prems]
      by (simp add: hex_digits_step [OF less.prems] word_gt_0 table_at_def unat_nibbles hex_table_zero unat_gt_0)
  qed
qed

section \<open>The Base64 bit loop\<close>

lemma encode_byte_bits: "encode_byte x n s = foldl (\<lambda>s b. encode_bit b s) s (map (bit x) (rev [0..<n]))"
  by (induction n arbitrary: s) auto

lemma encode_bytes_bits:
  "encode_bytes str s = foldl (\<lambda>s b. encode_bit b s) s (concat (map (\<lambda>x. map (bit x) (rev [0..<8])) str))"
  by (induction str arbitrary: s) (simp_all add: encode_byte_bits BITS_IN_BYTE_def del: upt.simps)

text \<open>The specification, RFC 4648 section 4: the bits of the bytes, most significant first, in groups
  of six, the last group filled up with zero bits, the output filled up to a multiple of four.\<close>

definition bits_of :: "byte \<Rightarrow> bool list" where
  "bits_of x = map (bit x) (rev [0..<8])"

definition sextet_value :: "bool list \<Rightarrow> nat" where
  "sextet_value c = foldl (\<lambda>v b. 2 * v + of_bool b) 0 c * 2 ^ (6 - length c)"

function sextets :: "bool list \<Rightarrow> bool list list" where
  "sextets bs = (if bs = [] then [] else take 6 bs # sextets (drop 6 bs))"
  by pat_completeness auto
termination by (relation "measure length") auto

declare sextets.simps [simp del]

definition symbols :: "bool list \<Rightarrow> byte list" where
  "symbols bs = map (\<lambda>c. ENCODING_TABLE ! sextet_value c) (sextets bs)"

definition rfc4648 :: "byte list \<Rightarrow> byte list" where
  "rfc4648 str = (let s = symbols (concat (map bits_of str))
     in s @ replicate ((4 - length s mod 4) mod 4) (byte_of (CHR ''='')))"

definition sextet_state :: "byte list \<Rightarrow> bool list \<Rightarrow> base64_state" where
  "sextet_state r c = \<lparr>b64_result = r, encodedByte = sextet_value c, bit_to_set = 6 - length c\<rparr>"

lemma or_pow2_multiple: "(v * 2 ^ Suc k) OR 2 ^ k = v * 2 ^ Suc k + (2 :: nat) ^ k"
proof -
  have "push_bit (Suc k) v AND (2 :: nat) ^ k = 0"
    by (rule bit_eqI) (auto simp: bit_simps simp del: push_bit_Suc)
  then have "v * 2 ^ Suc k AND 2 ^ k = 0" by (simp add: push_bit_eq_mult)
  then show ?thesis using disjunctive_add_eq_or [of "v * 2 ^ Suc k" "2 ^ k"] by simp
qed

lemma sextet_value_snoc:
  assumes "6 - length c = Suc k"
  shows "sextet_value (c @ [b]) = (if b then sextet_value c OR 2 ^ k else sextet_value c)"
proof -
  have "6 - length (c @ [b]) = k" using assms by simp
  then have "sextet_value (c @ [b]) = sextet_value c + of_bool b * 2 ^ k"
    using assms by (simp add: sextet_value_def algebra_simps)
  then show ?thesis
    using assms or_pow2_multiple [of "foldl (\<lambda>v b. 2 * v + of_bool b) 0 c" k]
    by (simp add: sextet_value_def del: power_Suc)
qed

lemma encode_bit_in_sextet:
  assumes "length c < 6"
  shows "encode_bit b (sextet_state r c) = sextet_state r (c @ [b])"
proof -
  from assms obtain k where k: "6 - length c = Suc k" by (metis Suc_diff_Suc)
  then have "6 - Suc (length c) = k" by simp
  with k show ?thesis
    by (simp add: encode_bit_def sextet_state_def Let_def sextet_value_snoc)
qed

lemma encode_bit_new_sextet:
  "length c = 6 \<Longrightarrow> encode_bit b (sextet_state r c) = sextet_state (r @ [ENCODING_TABLE ! sextet_value c]) [b]"
  by (simp add: encode_bit_def sextet_state_def sextet_value_def MAX_BITS_TO_ENCODE_def Let_def)

lemma sextets_full: "length c = 6 \<Longrightarrow> sextets (c @ bs) = c # sextets bs"
  by (subst sextets.simps) auto

lemma sextets_short: "length c \<le> 6 \<Longrightarrow> c \<noteq> [] \<Longrightarrow> sextets c = [c]"
  by (subst sextets.simps) (simp add: sextets.simps)

lemma encode_bits_symbols:
  assumes "length c \<le> 6" "c \<noteq> []"
  shows "\<exists>r' c'. foldl (\<lambda>s b. encode_bit b s) (sextet_state r c) bs = sextet_state r' c'
      \<and> r' @ [ENCODING_TABLE ! sextet_value c'] = r @ symbols (c @ bs)"
  using assms
proof (induction bs arbitrary: c r)
  case Nil
  then show ?case by (auto simp: symbols_def sextets_short)
next
  case (Cons b bs)
  show ?case
  proof (cases "length c = 6")
    case True
    with Cons.IH [of "[b]" "r @ [ENCODING_TABLE ! sextet_value c]"] show ?thesis
      by (simp add: encode_bit_new_sextet symbols_def sextets_full)
  next
    case False
    with Cons.prems Cons.IH [of "c @ [b]" r] show ?thesis by (simp add: encode_bit_in_sextet)
  qed
qed

lemma length_sextets: "length (sextets bs) = (length bs + 5) div 6"
proof (induction bs rule: sextets.induct)
  case (1 bs)
  show ?case
  proof (cases "bs = []")
    case False
    with 1 have "length (sextets bs) = Suc ((length bs - 6 + 5) div 6)" by (simp add: sextets.simps [of bs])
    also have "\<dots> = (length bs + 5) div 6"
    proof -
      from False obtain n where "length bs = Suc n" by (cases bs) auto
      then show ?thesis by (cases "n < 6") auto
    qed
    finally show ?thesis .
  qed (simp add: sextets.simps)
qed

lemma length_symbols: "length (symbols (concat (map bits_of str))) = (8 * length str + 5) div 6"
proof -
  have "length (concat (map bits_of str)) = 8 * length str" by (induction str) (simp_all add: bits_of_def)
  then show ?thesis by (simp add: symbols_def length_sextets)
qed

lemma base64Encode_symbols:
  assumes "str \<noteq> []"
  shows "base64Encode str = symbols (concat (map bits_of str))
    @ replicate (if length str mod 3 = 2 then 1 else 2) (byte_of (CHR ''=''))"
proof -
  define bs where "bs = concat (map bits_of str)"
  have "length bs = 8 * length str"
    unfolding bs_def by (induction str) (simp_all add: bits_of_def)
  with assms obtain b rest where bs: "bs = b # rest" by (cases bs) auto
  have "foldl (\<lambda>s b. encode_bit b s) (sextet_state [] []) bs = foldl (\<lambda>s b. encode_bit b s) (sextet_state [] [b]) rest"
    by (simp add: bs encode_bit_in_sextet)
  with encode_bits_symbols [of "[b]" "[]" rest] obtain r' c' where
    run: "foldl (\<lambda>s b. encode_bit b s) (sextet_state [] []) bs = sextet_state r' c'"
    and "r' @ [ENCODING_TABLE ! sextet_value c'] = symbols bs" by (auto simp: bs)
  moreover have "encode_bytes str \<lparr>b64_result = [], encodedByte = 0, bit_to_set = MAX_BITS_TO_ENCODE\<rparr> = sextet_state r' c'"
    using run unfolding encode_bytes_bits bs_def bits_of_def
    by (simp add: sextet_state_def sextet_value_def MAX_BITS_TO_ENCODE_def del: upt.simps)
  ultimately show ?thesis by (simp add: base64Encode_def Let_def sextet_state_def bs_def)
qed

lemma padding_length:
  "(4 - ((8 * n + 5) div 6) mod 4) mod 4 = (4 - ((8 * (n mod 3) + 5) div 6) mod (4 :: nat)) mod 4"
proof -
  have "n = n mod 3 + 3 * (n div 3)" by simp
  then have "8 * n + 5 = (8 * (n mod 3) + 5) + 6 * (4 * (n div 3))" by linarith
  then have "(8 * n + 5) div 6 = (8 * (n mod 3) + 5) div 6 + 4 * (n div 3)"
    by (metis add.commute div_mult_self2 zero_neq_numeral)
  then show ?thesis by simp
qed

section \<open>Properties\<close>

text \<open>
  Writing bytes in hexadecimal and reading them back is the identity: the writer never leaves its
  output, uses two symbols of the table for each byte, and both readers give the bytes back; the
  reader fails exactly on texts of odd length, where it would read behind the end.
\<close>

theorem hex_round_trip:
  "(\<exists>h. bytesToHex s = Some h \<and> length h = 2 * length s \<and> set h \<subseteq> set hex_table
      \<and> hex2Bytes h = Some s \<and> hex2BytesString h = Some s)
   \<and> (hex2Bytes t = None \<longleftrightarrow> odd (length t))"
proof -
  have "set (hex_pair ch) \<subseteq> set hex_table" for ch
  proof -
    have "unat ch < 2 ^ LENGTH(8)" by (rule unsigned_less)
    then have "unat ch div 16 < length hex_table" "unat ch mod 16 < length hex_table"
      by (simp_all add: hex_table_def)
    then show ?thesis by (simp add: hex_pair_def table_at_def unat_nibbles)
  qed
  then have "set (concat (map hex_pair s)) \<subseteq> set hex_table" by auto
  then show ?thesis
    by (simp add: bytesToHex_pairs hex2Bytes_def hex2BytesString_def hex_read_rest hex_bytes_pairs hex_bytes_defined)
qed

text \<open>
  \<open>intToHex\<close> returns for every 32-bit pattern and writes its hexadecimal numeral: at most eight
  symbols of the table, reading them back gives the value, and the first is a zero only for zero.
\<close>

theorem intToHex_numeral:
  "foldl (\<lambda>n c. 16 * n + unat (hexCode c)) 0 (intToHex v) = unat v
   \<and> length (intToHex v) \<le> 8 \<and> (hd (intToHex v) = byte_of (CHR ''0'') \<longleftrightarrow> v = 0)"
proof (cases "v = 0")
  case True
  show ?thesis unfolding True by code_simp
next
  case False
  then have "intToHex v = rev (hex_digits v [])" by (simp add: intToHex_def)
  moreover have "unat v < 16 ^ 8" using unsigned_less [of v, where 'a = nat] by simp
  ultimately show ?thesis
    using False hex_digits_value [of v] length_hex_digits [of v 8] hd_hex_digits [of v] by (auto simp: word_gt_0)
qed

text \<open>
  \<open>base64Encode\<close> is the encoding of RFC 4648 exactly when the length is not a multiple of three:
  to a text whose length is a positive multiple of three it adds two padding symbols too many, and the
  empty text it encodes as a symbol with padding.
\<close>

theorem base64Encode_is_rfc4648_or_overpadded:
  "base64Encode str =
    (if str = [] then text_of ''A==''
     else if length str mod 3 = 0 then rfc4648 str @ text_of ''==''
     else rfc4648 str)"
proof (cases "str = []")
  case True
  show ?thesis unfolding True by code_simp
next
  case False
  have "length str mod 3 = 0 \<or> length str mod 3 = 1 \<or> length str mod 3 = 2" by presburger
  then show ?thesis
    by (elim disjE) (simp_all add: base64Encode_symbols False rfc4648_def Let_def length_symbols
        padding_length [of "length str"] numeral_2_eq_2)
qed

end
