(* ===== verification/String_Tools.thy ===== *)
theory String_Tools
  imports Text_Codec
begin

text \<open>
  The string helpers of \<open>Utilities/StringUtilities.cpp\<close>: splitting, stripping and trimming. A string
  is the list of its bytes, a position a natural number; \<open>std::string::npos\<close> is \<open>None\<close> where a search
  returns it, and \<open>2 ^ 64 - 1\<close> where it comes from an unsigned subtraction, which wraps at 64 bits. A
  read outside the string is undefined in C++ and is \<open>None\<close>. The splitting loop may run for ever, so
  it is a partial function whose value \<open>None\<close> means that it does not return.

  The lemmas show what each helper returns and on which inputs it goes wrong: \<open>strip\<close>, \<open>trim_3\<close> and
  \<open>trim\<close> on texts of blanks only, \<open>split_to\<close> on an empty delimiter.
\<close>

definition size_sub :: "nat \<Rightarrow> nat \<Rightarrow> nat" where
  "size_sub a b = (if b \<le> a then a - b else 2 ^ 64 + a - b)"

lemma size_sub_le [simp]: "b \<le> a \<Longrightarrow> size_sub a b = a - b"
  by (simp add: size_sub_def)

section \<open>Splitting\<close>

text \<open>\<open>std::string::find\<close> from a position, and \<open>find_first_of\<close>.\<close>

definition occurs_at :: "byte list \<Rightarrow> byte list \<Rightarrow> nat \<Rightarrow> bool" where
  "occurs_at str pat i \<longleftrightarrow> i + length pat \<le> length str \<and> take (length pat) (drop i str) = pat"

definition str_find :: "byte list \<Rightarrow> byte list \<Rightarrow> nat \<Rightarrow> nat option" where
  "str_find str pat pos = find (occurs_at str pat) [pos..<length str + 1]"

definition find_first_of :: "byte list \<Rightarrow> byte list \<Rightarrow> nat \<Rightarrow> nat option" where
  "find_first_of str chars pos = find (\<lambda>i. str ! i \<in> set chars) [pos..<length str]"

definition sub_str :: "byte list \<Rightarrow> nat \<Rightarrow> nat \<Rightarrow> byte list" where
  "sub_str str pos n = take n (drop pos str)"

text \<open>\<open>split(input, delimiter)\<close>: the loop over the tokens between delimiter symbols.\<close>

lemma find_first_of_bound: "find_first_of s c p = Some i \<Longrightarrow> p \<le> i \<and> i < length s"
  by (auto simp: find_first_of_def find_Some_iff)

function split_chars :: "byte list \<Rightarrow> byte list \<Rightarrow> nat \<Rightarrow> byte list list \<Rightarrow> byte list list" where
  "split_chars input delimiter first output =
     (if first < length input
      then (case find_first_of input delimiter first of
              None \<Rightarrow> output @ [drop first input]
            | Some second \<Rightarrow>
                split_chars input delimiter (second + 1)
                  (if first \<noteq> second then output @ [sub_str input first (second - first)] else output))
      else output)"
  by pat_completeness auto
termination
  by (relation "measure (\<lambda>(input, _, first, _). length input - first)")
     (auto dest!: find_first_of_bound)

declare split_chars.simps [simp del]

definition split :: "byte list \<Rightarrow> byte list \<Rightarrow> byte list list" where
  "split input delimiter = split_chars input delimiter 0 []"

text \<open>\<open>split(str, partsExpected, delimiter)\<close> and \<open>split_to\<close>: the loop over the occurrences of the
  delimiter, which does not advance when that is empty.\<close>

partial_function (option) split_loop ::
  "byte list \<Rightarrow> byte list \<Rightarrow> nat \<Rightarrow> byte list list \<Rightarrow> byte list list option" where
  "split_loop str delimiter prev parts =
     (case str_find str delimiter prev of
        None \<Rightarrow> Some (parts @ [sub_str str prev (length str - prev)])
      | Some pos \<Rightarrow> split_loop str delimiter (pos + length delimiter) (parts @ [sub_str str prev (pos - prev)]))"

text \<open>\<open>split\<close> first reserves room for the parts: \<open>std::vector::reserve\<close> throws \<open>length_error\<close> beyond the
  vector's \<open>max_size()\<close>, a number of the library's implementation and an argument here. Memory that is
  exhausted is not modelled.\<close>

datatype split_error = Length_error

definition split_parts ::
  "nat \<Rightarrow> byte list \<Rightarrow> u64 \<Rightarrow> byte list \<Rightarrow> (split_error + byte list list) option" where
  "split_parts max_size str partsExpected delimiter =
     (if unat partsExpected > max_size then Some (Inl Length_error)
      else map_option Inr (split_loop str delimiter 0 []))"

text \<open>\<open>split_to\<close> clears its output parameter first.\<close>

definition split_to :: "byte list \<Rightarrow> byte list list \<Rightarrow> byte list \<Rightarrow> byte list list option" where
  "split_to str parts delimiter = split_loop str delimiter 0 []"

section \<open>Stripping and trimming\<close>

definition strip_symbols :: "byte list" where
  "strip_symbols = [byte_of (CHR '' ''), 9, 10, 13, 10]"

text \<open>\<open>str[i]\<close>: the terminator at the size, nothing behind it.\<close>

definition char_at :: "byte list \<Rightarrow> nat \<Rightarrow> byte option" where
  "char_at str i = (if i < length str then Some (str ! i) else if i = length str then Some 0 else None)"

text \<open>The two loops of \<open>strip\<close> and \<open>trim_3\<close>; \<open>blank\<close> is the test on a symbol.\<close>

function skip_left :: "(byte \<Rightarrow> bool) \<Rightarrow> byte list \<Rightarrow> nat \<Rightarrow> nat" where
  "skip_left blank str start =
     (if length str > start \<and> blank (str ! start) then skip_left blank str (start + 1) else start)"
  by pat_completeness auto
termination by (relation "measure (\<lambda>(_, str, start). length str - start)") auto

fun skip_right :: "(byte \<Rightarrow> bool) \<Rightarrow> byte list \<Rightarrow> nat \<Rightarrow> nat option" where
  "skip_right blank str 0 = Some 0"
| "skip_right blank str (Suc e) =
     (case char_at str (Suc e) of
        None \<Rightarrow> None
      | Some c \<Rightarrow> if blank c then skip_right blank str e else Some (Suc e))"

declare skip_left.simps [simp del]

definition erase_both :: "(byte \<Rightarrow> bool) \<Rightarrow> byte list \<Rightarrow> byte list option" where
  "erase_both blank str =
    (let start = skip_left blank str 0;
         str1 = drop start str
     in case skip_right blank str1 (size_sub (length str - start) 1) of
          None \<Rightarrow> None
        | Some e \<Rightarrow> Some (take (e + 1) str1 @ drop (e + 1 + (length str - start - e)) str1))"

definition strip :: "byte list \<Rightarrow> byte list option" where
  "strip str = erase_both (\<lambda>c. c \<in> set strip_symbols) str"

definition space :: byte where "space = byte_of (CHR '' '')"

definition trim_3 :: "byte list \<Rightarrow> byte list option" where
  "trim_3 str = erase_both (\<lambda>c. c = space) str"

text \<open>\<open>trim_1\<close>: the second loop decrements before it reads.\<close>

fun trim_end :: "byte list \<Rightarrow> nat \<Rightarrow> nat" where
  "trim_end str 0 = 0"
| "trim_end str (Suc e) = (if str ! e = space then trim_end str e else e)"

definition trim_1 :: "byte list \<Rightarrow> byte list" where
  "trim_1 str =
    (let beg = skip_left (\<lambda>c. c = space) str 0; e = trim_end str (length str)
     in sub_str str beg ((size_sub e beg + 1) mod 2 ^ 64))"

text \<open>\<open>trim_2\<close>: \<open>erase(0, npos)\<close> erases everything.\<close>

definition erase_leading :: "byte list \<Rightarrow> byte list" where
  "erase_leading str = (case find (\<lambda>i. str ! i \<noteq> space) [0..<length str] of
     None \<Rightarrow> [] | Some n \<Rightarrow> drop n str)"

definition trim_2 :: "byte list \<Rightarrow> byte list" where
  "trim_2 str = rev (erase_leading (rev (erase_leading str)))"

text \<open>\<open>trim\<close> returns a view, given here by its start and its size.\<close>

definition trim :: "byte list \<Rightarrow> (nat \<times> nat) option" where
  "trim str =
    (let start = skip_left (\<lambda>c. c = space) str 0
     in case skip_right (\<lambda>c. c = space) str (size_sub (length str) 1) of
          None \<Rightarrow> None
        | Some e \<Rightarrow> Some (start, (size_sub e start + 1) mod 2 ^ 64))"

text \<open>The table lookups index with a signed \<open>char\<close>: a symbol from 128 on is negative and the index
  far outside the table.\<close>

definition TBL :: "byte \<Rightarrow> bool option" where
  "TBL c = (if sint c < 0 then None else Some (c \<in> {9, 10, 13, space}))"

definition toExclude :: "byte \<Rightarrow> bool option" where
  "toExclude c = (if sint c < 0 then None else Some (c \<in> {9, 10, 13}))"

definition table_char_at :: "byte list \<Rightarrow> nat \<Rightarrow> bool option" where
  "table_char_at str i = Option.bind (char_at str i) TBL"

text \<open>\<open>strip_fast\<close>, for texts of fewer than \<open>2 ^ 32\<close> symbols: the counters have 32 bits, so the last
  index of the empty text is \<open>2 ^ 32 - 1\<close>.\<close>

function fast_left :: "byte list \<Rightarrow> nat \<Rightarrow> nat \<Rightarrow> nat option" where
  "fast_left str left right =
     (if left \<le> right
      then (case table_char_at str left of
              None \<Rightarrow> None
            | Some b \<Rightarrow> if b then fast_left str (left + 1) right else Some left)
      else Some left)"
  by pat_completeness auto
termination by (relation "measure (\<lambda>(_, left, right). right + 1 - left)") auto

fun fast_right :: "byte list \<Rightarrow> nat \<Rightarrow> nat \<Rightarrow> nat option" where
  "fast_right str left 0 =
     (if left = 0 then (case table_char_at str 0 of
        None \<Rightarrow> None
      | Some b \<Rightarrow> if b then Some (2 ^ 32 - 1) else Some 0) else Some 0)"
| "fast_right str left (Suc r) =
     (if Suc r \<ge> left then (case table_char_at str (Suc r) of
        None \<Rightarrow> None
      | Some b \<Rightarrow> if b then fast_right str left r else Some (Suc r)) else Some (Suc r))"

function copy_down :: "byte list \<Rightarrow> nat \<Rightarrow> nat \<Rightarrow> nat \<Rightarrow> byte list \<times> nat" where
  "copy_down str idx left right =
     (if left \<le> right then copy_down (str[idx := str ! left]) (idx + 1) (left + 1) right
      else (str, idx))"
  by pat_completeness auto
termination by (relation "measure (\<lambda>(_, _, left, right). right + 1 - left)") auto

declare fast_left.simps [simp del] copy_down.simps [simp del]

definition strip_fast :: "byte list \<Rightarrow> byte list option" where
  "strip_fast str =
    (case fast_left str 0 (size_sub (length str) 1 mod 2 ^ 32) of
       None \<Rightarrow> None
     | Some left \<Rightarrow>
         (case fast_right str left (size_sub (length str) 1 mod 2 ^ 32) of
            None \<Rightarrow> None
          | Some right \<Rightarrow> let (str', idx) = copy_down str 0 left right in Some (take idx str')))"

text \<open>\<open>remove_chars_from_string\<close>: \<open>index\<close> never passes the symbol read.\<close>

fun remove_loop :: "byte list \<Rightarrow> byte list \<Rightarrow> byte list option" where
  "remove_loop kept [] = Some kept"
| "remove_loop kept (c # rest) =
     (case toExclude c of None \<Rightarrow> None | Some b \<Rightarrow> remove_loop (if b then kept else kept @ [c]) rest)"

definition remove_chars_from_string :: "byte list \<Rightarrow> byte list option" where
  "remove_chars_from_string str = remove_loop [] str"

section \<open>What trimming returns\<close>

definition strip_ends :: "(byte \<Rightarrow> bool) \<Rightarrow> byte list \<Rightarrow> byte list" where
  "strip_ends blank str = rev (dropWhile blank (rev (dropWhile blank str)))"

text \<open>A text with a symbol that is no blank is its core between two runs of blanks.\<close>

lemma core_split:
  assumes "\<exists>c\<in>set str. \<not> blank c"
  obtains ls core rs where "str = ls @ core @ rs" "\<forall>c\<in>set ls. blank c" "\<forall>c\<in>set rs. blank c"
    "core \<noteq> []" "\<not> blank (hd core)" "\<not> blank (last core)" "strip_ends blank str = core"
proof -
  define mid where "mid = dropWhile blank str"
  define core where "core = strip_ends blank str"
  have str: "str = takeWhile blank str @ mid" by (simp add: mid_def)
  have mid: "mid = core @ rev (takeWhile blank (rev mid))"
    unfolding core_def strip_ends_def mid_def by (metis rev_append rev_rev_ident takeWhile_dropWhile_id)
  have nonempty: "mid \<noteq> []" using assms by (simp add: mid_def dropWhile_eq_Nil_conv)
  then have hd: "\<not> blank (hd mid)" unfolding mid_def by (rule hd_dropWhile)
  have rest: "dropWhile blank (rev mid) \<noteq> []" using nonempty hd
    by (metis dropWhile_eq_Nil_conv hd_in_set set_rev)
  then have last: "\<not> blank (last core)"
    using hd_dropWhile [OF rest] by (simp add: core_def strip_ends_def mid_def last_rev)
  have ne: "core \<noteq> []" using rest by (simp add: core_def strip_ends_def mid_def)
  then have "hd core = hd mid" using mid by (metis hd_append2)
  show thesis
    using that [of "takeWhile blank str" core "rev (takeWhile blank (rev mid))"] str mid hd last ne \<open>hd core = hd mid\<close>
    by (metis core_def set_rev set_takeWhileD)
qed

lemma skip_left_run:
  "\<forall>c\<in>set ls. blank c \<Longrightarrow> (rest \<noteq> [] \<Longrightarrow> \<not> blank (hd rest)) \<Longrightarrow>
   skip_left blank (pre @ ls @ rest) (length pre) = length pre + length ls"
proof (induction ls arbitrary: pre)
  case Nil
  then show ?case by (cases rest) (simp_all add: skip_left.simps nth_append)
next
  case (Cons c ls)
  from Cons.IH [of "pre @ [c]"] Cons.prems show ?case
    by (subst skip_left.simps) (simp add: nth_append)
qed

lemma skip_left_core:
  "\<forall>c\<in>set ls. blank c \<Longrightarrow> (rest \<noteq> [] \<Longrightarrow> \<not> blank (hd rest)) \<Longrightarrow>
   skip_left blank (ls @ rest) 0 = length ls"
  using skip_left_run [of ls blank rest "[]"] by simp

lemma skip_right_stop:
  "j \<le> e \<Longrightarrow> e < length str \<Longrightarrow> \<not> blank (str ! j) \<Longrightarrow> (\<And>i. j < i \<Longrightarrow> i \<le> e \<Longrightarrow> blank (str ! i)) \<Longrightarrow>
   skip_right blank str e = Some j"
proof (induction e)
  case 0
  then show ?case by simp
next
  case (Suc e)
  then show ?case by (cases "j = Suc e") (auto simp: char_at_def)
qed

lemma skip_right_core:
  assumes "core \<noteq> []" "\<not> blank (last core)" "\<forall>c\<in>set rs. blank c"
  shows "skip_right blank (pre @ core @ rs) (length (pre @ core @ rs) - 1) = Some (length pre + length core - 1)"
proof (rule skip_right_stop)
  show "\<not> blank ((pre @ core @ rs) ! (length pre + length core - 1))"
    using assms(1,2) by (cases core rule: rev_cases) (simp_all add: nth_append)
  fix i assume "length pre + length core - 1 < i" "i \<le> length (pre @ core @ rs) - 1"
  moreover from this assms(1) have "(pre @ core @ rs) ! i = rs ! (i - length pre - length core)"
      "i - length pre - length core < length rs"
    by (cases core rule: rev_cases; auto simp: nth_append)+
  ultimately show "blank ((pre @ core @ rs) ! i)" using assms(3) by simp
qed (use assms(1) in \<open>cases core; simp\<close>)+

lemma erase_both_core:
  assumes "\<exists>c\<in>set str. \<not> blank c"
  shows "erase_both blank str = Some (strip_ends blank str)"
proof -
  obtain ls core rs where str: "str = ls @ core @ rs" and blanks: "\<forall>c\<in>set ls. blank c" "\<forall>c\<in>set rs. blank c"
    and core: "core \<noteq> []" "\<not> blank (hd core)" "\<not> blank (last core)" "strip_ends blank str = core"
    by (rule core_split [OF assms])
  have left: "skip_left blank str 0 = length ls"
    using skip_left_core [of ls blank "core @ rs"] blanks(1) core(1,2) by (simp add: str)
  have "skip_right blank (core @ rs) (length (core @ rs) - 1) = Some (length core - 1)"
    using skip_right_core [OF core(1,3) blanks(2), of "[]"] by simp
  moreover have "size_sub (length str - length ls) 1 = length (core @ rs) - 1"
    using core(1) by (cases core) (simp_all add: str)
  ultimately show ?thesis
    using core(1,4) by (simp add: erase_both_def Let_def left) (simp add: str)
qed

text \<open>On blanks only the second loop starts behind the end of what is left.\<close>

lemma skip_left_all_blank: "\<forall>c\<in>set str. blank c \<Longrightarrow> skip_left blank str 0 = length str"
  using skip_left_core [of str blank "[]"] by simp

lemma erase_both_blanks:
  assumes "\<forall>c\<in>set str. blank c"
  shows "erase_both blank str = None"
proof -
  have "skip_right blank [] k = None" if "k \<noteq> 0" for k
    using that by (cases k) (simp_all add: char_at_def)
  then show ?thesis
    by (simp add: erase_both_def skip_left_all_blank [OF assms] size_sub_def Let_def)
qed

lemma dropWhile_blanks: "\<forall>c\<in>set str. blank c \<Longrightarrow> dropWhile blank str = []"
  by (simp add: dropWhile_eq_Nil_conv)

lemma strip_ends_blanks: "\<forall>c\<in>set str. blank c \<Longrightarrow> strip_ends blank str = []"
  by (simp add: strip_ends_def dropWhile_blanks)

lemma erase_leading_dropWhile: "erase_leading str = dropWhile (\<lambda>c. c = space) str"
proof (cases "\<exists>c\<in>set str. c \<noteq> space")
  case False
  then have "find (\<lambda>i. str ! i \<noteq> space) [0..<length str] = None"
    by (auto simp: find_None_iff)
  with False show ?thesis by (simp add: erase_leading_def dropWhile_blanks)
next
  case True
  define n where "n = length (takeWhile (\<lambda>c. c = space) str)"
  from True have n: "n < length str" unfolding n_def
    by (metis (mono_tags, lifting) length_takeWhile_le nat_less_le takeWhile_eq_take take_all_iff set_takeWhileD order.refl)
  have "find (\<lambda>i. str ! i \<noteq> space) [0..<length str] = Some n"
    unfolding find_Some_iff
  proof (intro exI conjI allI impI)
    show "n < length [0..<length str]" using n by simp
    show "str ! ([0..<length str] ! n) \<noteq> space" using n nth_length_takeWhile [of "\<lambda>c. c = space" str] by (simp add: n_def)
    show "n = [0..<length str] ! n" using n by simp
    fix j assume "j < n"
    then show "\<not> str ! ([0..<length str] ! j) \<noteq> space"
      using n by (metis (mono_tags, lifting) length_takeWhile_le less_trans n_def nth_mem nth_upt set_takeWhileD takeWhile_nth add_0)
  qed
  then show ?thesis by (simp add: erase_leading_def n_def dropWhile_eq_drop)
qed

lemma trim_2_strip_ends: "trim_2 str = strip_ends (\<lambda>c. c = space) str"
  by (simp add: trim_2_def erase_leading_dropWhile strip_ends_def)

lemma trim_end_stop:
  "j < e \<Longrightarrow> str ! j \<noteq> space \<Longrightarrow> (\<And>i. j < i \<Longrightarrow> i < e \<Longrightarrow> str ! i = space) \<Longrightarrow> trim_end str e = j"
proof (induction e)
  case (Suc e)
  then show ?case by (cases "j = e") auto
qed simp

lemma trim_end_blanks: "\<forall>c\<in>set str. c = space \<Longrightarrow> e \<le> length str \<Longrightarrow> trim_end str e = 0"
  by (induction e) auto

lemma trim_1_strip_ends:
  assumes "length str < 2 ^ 64"
  shows "trim_1 str = strip_ends (\<lambda>c. c = space) str"
proof (cases "\<exists>c\<in>set str. c \<noteq> space")
  case False
  then have "skip_left (\<lambda>c. c = space) str 0 = length str" "trim_end str (length str) = 0"
    using skip_left_all_blank [of str "\<lambda>c. c = space"] trim_end_blanks by auto
  with False show ?thesis by (simp add: trim_1_def sub_str_def strip_ends_blanks)
next
  case True
  obtain ls core rs where str: "str = ls @ core @ rs" and blanks: "\<forall>c\<in>set ls. c = space" "\<forall>c\<in>set rs. c = space"
    and core: "core \<noteq> []" "hd core \<noteq> space" "last core \<noteq> space" "strip_ends (\<lambda>c. c = space) str = core"
    by (rule core_split [OF True])
  have left: "skip_left (\<lambda>c. c = space) str 0 = length ls"
    using skip_left_core [of ls _ "core @ rs"] blanks(1) core(1,2) by (simp add: str)
  have right: "trim_end str (length str) = length ls + length core - 1"
  proof (rule trim_end_stop)
    show "str ! (length ls + length core - 1) \<noteq> space"
      using core(1,3) by (cases core rule: rev_cases) (simp_all add: str nth_append)
    fix i assume "length ls + length core - 1 < i" "i < length str"
    moreover from this core(1) have "str ! i = rs ! (i - length ls - length core)" "i - length ls - length core < length rs"
      by (cases core rule: rev_cases; auto simp: str nth_append)+
    ultimately show "str ! i = space" using blanks(2) by simp
  qed (use core(1) in \<open>cases core; simp add: str\<close>)
  have "length ls + length core - 1 \<ge> length ls" "length core < 2 ^ 64"
    using core(1) assms by (cases core; simp add: str)+
  with core(1,4) show ?thesis
    by (simp add: trim_1_def left right sub_str_def Let_def) (simp add: str)
qed

lemma trim_view:
  assumes "\<exists>c\<in>set str. c \<noteq> space" "length str < 2 ^ 64"
  shows "\<exists>start n. trim str = Some (start, n) \<and> sub_str str start n = strip_ends (\<lambda>c. c = space) str"
proof -
  obtain ls core rs where str: "str = ls @ core @ rs" and blanks: "\<forall>c\<in>set ls. c = space" "\<forall>c\<in>set rs. c = space"
    and core: "core \<noteq> []" "hd core \<noteq> space" "last core \<noteq> space" "strip_ends (\<lambda>c. c = space) str = core"
    by (rule core_split [OF assms(1)])
  have left: "skip_left (\<lambda>c. c = space) str 0 = length ls"
    using skip_left_core [of ls _ "core @ rs"] blanks(1) core(1,2) by (simp add: str)
  have "skip_right (\<lambda>c. c = space) str (length str - 1) = Some (length ls + length core - 1)"
    using skip_right_core [of core "\<lambda>c. c = space" rs ls] core(1,3) blanks(2) by (simp add: str)
  moreover have "size_sub (length str) 1 = length str - 1" using core(1) by (cases core) (simp_all add: str)
  moreover have "length ls + length core - 1 \<ge> length ls" "length core < 2 ^ 64"
    using core(1) assms(2) by (cases core; simp add: str)+
  ultimately have "trim str = Some (length ls, length core)"
    using core(1) by (simp add: trim_def left)
  then show ?thesis using core(4) by (auto simp: sub_str_def str)
qed

lemma trim_blanks:
  assumes "\<forall>c\<in>set str. c = space" "str \<noteq> []" "length str < 2 ^ 64"
  shows "trim str = Some (length str, (2 ^ 64 - (length str - 1)) mod 2 ^ 64)"
proof -
  have "skip_right (\<lambda>c. c = space) str e = Some 0" if "e < length str" for e
    using that assms(1) by (induction e) (auto simp: char_at_def)
  then have "skip_right (\<lambda>c. c = space) str (size_sub (length str) 1) = Some 0"
    using assms(2) by (cases str) simp_all
  moreover have "size_sub 0 (length str) + 1 = 2 ^ 64 - (length str - 1)"
    using assms(2,3) by (cases str) (simp_all add: size_sub_def)
  ultimately show ?thesis using assms(1)
    by (simp only: trim_def Let_def skip_left_all_blank option.case)
qed

section \<open>The table versions\<close>

definition ascii :: "byte list \<Rightarrow> bool" where
  "ascii str \<longleftrightarrow> (\<forall>c\<in>set str. 0 \<le> sint c)"

abbreviation white :: "byte \<Rightarrow> bool" where
  "white c \<equiv> c \<in> {9, 10, 13, space}"

lemma table_char_at_ascii: "ascii str \<Longrightarrow> i < length str \<Longrightarrow> table_char_at str i = Some (white (str ! i))"
  by (simp add: table_char_at_def char_at_def TBL_def ascii_def linorder_not_less)

lemma fast_left_stop:
  "ascii str \<Longrightarrow> i \<le> j \<Longrightarrow> j \<le> right \<Longrightarrow> j < length str \<Longrightarrow> \<not> white (str ! j) \<Longrightarrow>
   (\<And>k. i \<le> k \<Longrightarrow> k < j \<Longrightarrow> white (str ! k)) \<Longrightarrow> fast_left str i right = Some j"
proof (induction "j - i" arbitrary: i)
  case 0
  then show ?case by (subst fast_left.simps) (simp add: table_char_at_ascii)
next
  case (Suc n)
  then have "i < j" by simp
  moreover have "fast_left str (i + 1) right = Some j"
    using Suc by (intro Suc.hyps(1)) auto
  moreover have "white (str ! i)" using Suc.prems(6) \<open>i < j\<close> by simp
  ultimately show ?case using Suc.prems
    by (subst fast_left.simps) (simp add: table_char_at_ascii)
qed

lemma fast_right_stop:
  "ascii str \<Longrightarrow> left \<le> j \<Longrightarrow> j \<le> e \<Longrightarrow> e < length str \<Longrightarrow> \<not> white (str ! j) \<Longrightarrow>
   (\<And>k. j < k \<Longrightarrow> k \<le> e \<Longrightarrow> white (str ! k)) \<Longrightarrow> fast_right str left e = Some j"
proof (induction e)
  case 0
  then show ?case by (simp add: table_char_at_ascii)
next
  case (Suc e)
  then show ?case by (cases "j = Suc e") (auto simp: table_char_at_ascii)
qed

lemma copy_down_moves:
  "idx \<le> left \<Longrightarrow> left \<le> right + 1 \<Longrightarrow> right < length str \<Longrightarrow>
   \<exists>str'. copy_down str idx left right = (str', idx + (right + 1 - left))
     \<and> take (idx + (right + 1 - left)) str' = take idx str @ take (right + 1 - left) (drop left str)"
proof (induction "right + 1 - left" arbitrary: idx left str)
  case 0
  then show ?case by (subst copy_down.simps) simp
next
  case (Suc n)
  then have le: "left \<le> right" by simp
  let ?s = "str[idx := str ! left]"
  have "\<exists>str'. copy_down ?s (idx + 1) (left + 1) right = (str', idx + 1 + (right + 1 - (left + 1)))
    \<and> take (idx + 1 + (right + 1 - (left + 1))) str'
      = take (idx + 1) ?s @ take (right + 1 - (left + 1)) (drop (left + 1) ?s)"
    by (rule Suc.hyps(1)) (use Suc.hyps(2) Suc.prems in auto)
  then obtain str' where run: "copy_down ?s (idx + 1) (left + 1) right = (str', idx + 1 + (right + 1 - (left + 1)))"
    and taken: "take (idx + 1 + (right + 1 - (left + 1))) str'
      = take (idx + 1) ?s @ take (right + 1 - (left + 1)) (drop (left + 1) ?s)"
    by blast
  have "idx + 1 + (right + 1 - (left + 1)) = idx + (right + 1 - left)" using le by simp
  moreover have "take (idx + 1) ?s @ take (right + 1 - (left + 1)) (drop (left + 1) ?s)
      = take idx str @ take (right + 1 - left) (drop left str)"
  proof -
    have "take (idx + 1) ?s = take idx str @ [str ! left]"
      using Suc.prems le by (simp add: take_Suc_conv_app_nth)
    moreover have "drop (left + 1) ?s = drop (left + 1) str" using Suc.prems by simp
    moreover have "drop left str = str ! left # drop (left + 1) str"
      using Suc.prems le by (simp add: Cons_nth_drop_Suc)
    moreover have "right + 1 - left = Suc (right + 1 - (left + 1))" using le by simp
    ultimately show ?thesis by simp
  qed
  ultimately show ?case
    using run taken le by (subst copy_down.simps) simp
qed

lemma strip_fast_strip_ends:
  assumes "ascii str" "\<exists>c\<in>set str. \<not> white c" "length str < 2 ^ 32"
  shows "strip_fast str = Some (strip_ends white str)"
proof -
  obtain ls core rs where str: "str = ls @ core @ rs" and blanks: "\<forall>c\<in>set ls. white c" "\<forall>c\<in>set rs. white c"
    and core: "core \<noteq> []" "\<not> white (hd core)" "\<not> white (last core)" "strip_ends white str = core"
    by (rule core_split [OF assms(2)])
  obtain a m where ends: "core = a # m" using core(1) by (cases core) auto
  have right: "size_sub (length str) 1 mod 2 ^ 32 = length str - 1"
    using assms(3) core(1) by (cases core) (simp_all add: str)
  have 1: "fast_left str 0 (length str - 1) = Some (length ls)"
  proof (rule fast_left_stop)
    show "\<not> white (str ! length ls)" using core(2) by (simp add: str ends nth_append)
    show "white (str ! k)" if "k < length ls" for k using blanks(1) that by (simp add: str nth_append)
  qed (use assms(1) core(1) in \<open>cases core; simp add: str\<close>)+
  have 2: "fast_right str (length ls) (length str - 1) = Some (length ls + length core - 1)"
  proof (rule fast_right_stop)
    show "\<not> white (str ! (length ls + length core - 1))"
      using core(1,3) by (cases core rule: rev_cases) (simp_all add: str nth_append)
    fix i assume i: "length ls + length core - 1 < i" "i \<le> length str - 1"
    then have "str ! i = rs ! (i - length ls - length core)" "i - length ls - length core < length rs"
      using core(1) by (cases core rule: rev_cases; auto simp: str nth_append)+
    then show "white (str ! i)" using blanks(2) by simp
  qed (use assms(1) core(1) in \<open>cases core; simp add: str\<close>)+
  have "length ls + length core - 1 < length str" "length ls \<le> length ls + length core - 1 + 1"
    "length ls + length core - 1 + 1 - length ls = length core"
    using core(1) by (cases core; simp add: str)+
  with copy_down_moves [of 0 "length ls" "length ls + length core - 1" str] obtain str' where
    "copy_down str 0 (length ls) (length ls + length core - 1) = (str', length core)"
    "take (length core) str' = core" by (auto simp: str)
  with 1 2 right core(4) show ?thesis by (simp add: strip_fast_def)
qed

lemma remove_loop_filter:
  "remove_loop kept str = (if ascii str then Some (kept @ filter (\<lambda>c. c \<notin> {9, 10, 13}) str) else None)"
  by (induction str arbitrary: kept) (auto simp: toExclude_def ascii_def)

lemma strip_white: "set strip_symbols = {9, 10, 13, space}"
  by (auto simp: strip_symbols_def space_def)

lemma strip_core: "\<exists>c\<in>set str. \<not> white c \<Longrightarrow> strip str = Some (strip_ends white str)"
  unfolding strip_def strip_white by (rule erase_both_core)

lemma strip_blanks: "\<forall>c\<in>set str. white c \<Longrightarrow> strip str = None"
  unfolding strip_def strip_white by (rule erase_both_blanks)

section \<open>What splitting returns\<close>

fun pieces :: "byte set \<Rightarrow> byte list \<Rightarrow> byte list \<Rightarrow> byte list list" where
  "pieces ds [] cur = [cur]"
| "pieces ds (c # cs) cur = (if c \<in> ds then cur # pieces ds cs [] else pieces ds cs (cur @ [c]))"

lemma pieces_token: "\<forall>c\<in>set w. c \<notin> ds \<Longrightarrow> pieces ds w cur = [cur @ w]"
  by (induction w arbitrary: cur) auto

lemma pieces_step:
  "\<forall>c\<in>set w. c \<notin> ds \<Longrightarrow> d \<in> ds \<Longrightarrow> pieces ds (w @ d # rest) cur = (cur @ w) # pieces ds rest []"
  by (induction w arbitrary: cur) auto

lemma find_first_of_Some:
  assumes "find_first_of s c p = Some i"
  shows "p \<le> i" "i < length s" "s ! i \<in> set c" "\<forall>x\<in>set (sub_str s p (i - p)). x \<notin> set c"
    "drop p s = sub_str s p (i - p) @ s ! i # drop (i + 1) s"
proof -
  from assms obtain k where k: "k < length s - p" "s ! (p + k) \<in> set c" "i = p + k"
    "\<forall>j<k. s ! (p + j) \<notin> set c"
    by (auto simp: find_first_of_def find_Some_iff)
  then show "p \<le> i" "i < length s" "s ! i \<in> set c" by auto
  show "\<forall>x\<in>set (sub_str s p (i - p)). x \<notin> set c"
  proof
    fix x assume "x \<in> set (sub_str s p (i - p))"
    then obtain j where "j < k" "x = s ! (p + j)"
      using k(1,3) by (auto simp: sub_str_def in_set_conv_nth)
    then show "x \<notin> set c" using k(4) by simp
  qed
  have "drop p s = take k (drop p s) @ drop k (drop p s)" by (rule append_take_drop_id [symmetric])
  also have "drop k (drop p s) = s ! i # drop (i + 1) s"
    using k by (simp add: add.commute Cons_nth_drop_Suc)
  finally show "drop p s = sub_str s p (i - p) @ s ! i # drop (i + 1) s"
    using k(3) by (simp add: sub_str_def)
qed

lemma find_first_of_None: "find_first_of s c p = None \<Longrightarrow> x \<in> set (drop p s) \<Longrightarrow> x \<notin> set c"
  by (auto simp: find_first_of_def find_None_iff in_set_conv_nth)

lemma split_chars_pieces:
  "first \<le> length s \<Longrightarrow>
   split_chars s ds first out = out @ filter (\<lambda>w. w \<noteq> []) (pieces (set ds) (drop first s) [])"
proof (induction s ds first out rule: split_chars.induct)
  case (1 s ds first out)
  show ?case
  proof (cases "first < length s")
    case False
    with 1 show ?thesis by (subst split_chars.simps) simp
  next
    case True
    show ?thesis
    proof (cases "find_first_of s ds first")
      case None
      then have "\<forall>x\<in>set (drop first s). x \<notin> set ds" using find_first_of_None by blast
      with True None show ?thesis by (simp add: split_chars.simps [of s ds first] pieces_token)
    next
      case (Some second)
      note found = find_first_of_Some [OF Some]
      have "sub_str s first (second - first) = [] \<longleftrightarrow> first = second"
        using found(1,2) by (auto simp: sub_str_def)
      with True Some found(2) 1(1) [OF True Some] show ?thesis
        by (simp add: split_chars.simps [of s ds first] found(5) pieces_step [OF found(4,3)])
    qed
  qed
qed

fun join :: "byte list \<Rightarrow> byte list list \<Rightarrow> byte list" where
  "join d [] = []"
| "join d [w] = w"
| "join d (w # v # ws) = w @ d @ join d (v # ws)"

definition contains :: "byte list \<Rightarrow> byte list \<Rightarrow> bool" where
  "contains w d \<longleftrightarrow> (\<exists>a b. w = a @ d @ b)"

lemma str_find_Some:
  assumes "str_find s d p = Some i"
  shows "p \<le> i" "i + length d \<le> length s" "drop p s = sub_str s p (i - p) @ d @ drop (i + length d) s"
    "d \<noteq> [] \<Longrightarrow> \<not> contains (sub_str s p (i - p)) d"
proof -
  from assms obtain k where k: "occurs_at s d (p + k)" "i = p + k" "\<forall>j<k. \<not> occurs_at s d (p + j)"
    by (auto simp: str_find_def find_Some_iff simp del: upt_Suc)
  then show "p \<le> i" "i + length d \<le> length s" by (auto simp: occurs_at_def)
  have "drop i s = d @ drop (length d) (drop i s)"
    using k(1,2) by (metis append_take_drop_id occurs_at_def)
  moreover have "drop p s = take k (drop p s) @ drop k (drop p s)" by (rule append_take_drop_id [symmetric])
  moreover have "drop k (drop p s) = drop i s" "drop (length d) (drop i s) = drop (i + length d) s"
    by (simp_all add: k(2) add.commute)
  ultimately show "drop p s = sub_str s p (i - p) @ d @ drop (i + length d) s"
    using k(2) by (metis diff_add_inverse sub_str_def)
  show "\<not> contains (sub_str s p (i - p)) d" if "d \<noteq> []"
  proof
    assume "contains (sub_str s p (i - p)) d"
    then obtain a b where ab: "take k (drop p s) = a @ d @ b" using k(2) by (auto simp: contains_def sub_str_def)
    then have "length a + length d \<le> k" by (metis append_assoc le_add1 length_append length_take min.bounded_iff)
    moreover have "drop p s = a @ d @ b @ drop k (drop p s)" using ab by (metis append_assoc append_take_drop_id)
    then have "drop (p + length a) s = d @ b @ drop k (drop p s)" by (metis add.commute append_eq_conv_conj drop_drop)
    then have "occurs_at s d (p + length a)"
      using \<open>length a + length d \<le> k\<close> k(1) by (simp add: occurs_at_def)
    ultimately show False using k(3) that by (cases d) auto
  qed
qed

lemma str_find_None:
  assumes "str_find s d p = None" "p \<le> length s"
  shows "\<not> contains (drop p s) d"
proof
  assume "contains (drop p s) d"
  then obtain a b where ab: "drop p s = a @ d @ b" by (auto simp: contains_def)
  then have "drop (p + length a) s = d @ b" by (metis add.commute append_eq_conv_conj drop_drop)
  moreover have "length s - p = length a + length d + length b" using arg_cong [OF ab, of length] by simp
  ultimately have "occurs_at s d (p + length a)" "p + length a < length s + 1"
    using assms(2) by (auto simp: occurs_at_def)
  then show False using assms(1) by (auto simp: str_find_def find_None_iff simp del: upt_Suc)
qed

lemma split_loop_parts:
  assumes "d \<noteq> []" "p \<le> length s"
  shows "\<exists>ps. split_loop s d p acc = Some (acc @ ps) \<and> ps \<noteq> [] \<and> join d ps = drop p s
    \<and> list_all (\<lambda>w. \<not> contains w d) ps"
  using assms(2)
proof (induction "length s - p" arbitrary: p acc rule: less_induct)
  case less
  show ?case
  proof (cases "str_find s d p")
    case None
    with less.prems str_find_None [OF None] show ?thesis
      by (subst split_loop.simps) (simp add: sub_str_def)
  next
    case (Some i)
    note found = str_find_Some [OF Some]
    have "length s - (i + length d) < length s - p" using found(1,2) assms(1) by (cases d) auto
    from less.hyps [OF this found(2), of "acc @ [sub_str s p (i - p)]"] obtain ps where ps:
      "split_loop s d (i + length d) (acc @ [sub_str s p (i - p)]) = Some (acc @ [sub_str s p (i - p)] @ ps)"
      "ps \<noteq> []" "join d ps = drop (i + length d) s" "list_all (\<lambda>w. \<not> contains w d) ps" by auto
    have "join d (sub_str s p (i - p) # ps) = drop p s"
      using ps(2,3) found(3) by (cases ps) simp_all
    with Some ps found(4) [OF assms(1)] show ?thesis
      by (subst split_loop.simps) (auto intro!: exI [of _ "sub_str s p (i - p) # ps"])
  qed
qed

lemma str_find_empty: "p \<le> length s \<Longrightarrow> str_find s [] p = Some p"
  by (simp add: str_find_def occurs_at_def upt_conv_Cons del: upt_Suc)

lemma split_loop_empty_delimiter:
  assumes "split_loop s d p acc = Some ps"
  shows "\<not> (d = [] \<and> p \<le> length s)"
proof (rule split_loop.raw_induct [where P = "\<lambda>s d p acc ps. \<not> (d = [] \<and> p \<le> length s)", OF _ assms])
  fix loop s d p acc ps
  assume IH: "\<And>s d p acc ps. loop s d p acc = Some ps \<Longrightarrow> \<not> (d = [] \<and> p \<le> length s)"
    and step: "(case str_find s d p of None \<Rightarrow> Some (acc @ [sub_str s p (length s - p)])
      | Some pos \<Rightarrow> loop s d (pos + length d) (acc @ [sub_str s p (pos - p)])) = Some ps"
  show "\<not> (d = [] \<and> p \<le> length s)"
  proof
    assume *: "d = [] \<and> p \<le> length s"
    with step have "loop s [] p (acc @ [sub_str s p 0]) = Some ps" by (simp add: str_find_empty)
    from IH [OF this] * show False by simp
  qed
qed

section \<open>Properties\<close>

text \<open>
  C29. \<open>split_to\<close> by a delimiter returns for every text exactly when the delimiter is not empty, and
  so does \<open>split\<close> unless more parts are expected than a vector can hold: then it throws, before it
  looks at the text. What both return are the same parts: joined by the delimiter they are the text
  again, and no part contains it.
\<close>

theorem split_to_returns:
  "if delimiter = []
   then split_to str out delimiter = None
     \<and> split_parts max_size str n delimiter = (if unat n > max_size then Some (Inl Length_error) else None)
   else \<exists>parts. split_to str out delimiter = Some parts
     \<and> split_parts max_size str n delimiter = Some (if unat n > max_size then Inl Length_error else Inr parts)
     \<and> join delimiter parts = str \<and> list_all (\<lambda>w. \<not> contains w delimiter) parts"
proof (cases "delimiter = []")
  case True
  then have "split_loop str delimiter 0 [] \<noteq> Some ps" for ps
    using split_loop_empty_delimiter [of str delimiter 0 "[]" ps] by auto
  with True show ?thesis by (auto simp: split_to_def split_parts_def)
next
  case False
  with split_loop_parts [of delimiter 0 str "[]"] show ?thesis
    by (auto simp: split_to_def split_parts_def)
qed

lemma split_tokens:
  "split input delimiter = filter (\<lambda>w. w \<noteq> []) (pieces (set delimiter) input [])"
  using split_chars_pieces [of 0 input delimiter "[]"] by (simp add: split_def)

text \<open>
  All the trimming helpers remove exactly the blanks at both ends, on a text with another symbol;
  on a text of blanks only the two that search in place give the empty text, \<open>trim_3\<close> and \<open>strip\<close>
  read outside the string, and \<open>trim\<close> returns a view of more than the memory behind it, unless the
  text is a single blank.
\<close>

theorem trimmers_agree_unless_blank:
  assumes "length str < 2 ^ 32"
  shows "trim_1 str = strip_ends (\<lambda>c. c = space) str
    \<and> trim_2 str = strip_ends (\<lambda>c. c = space) str
    \<and> (if \<exists>c\<in>set str. c \<noteq> space
       then trim_3 str = Some (strip_ends (\<lambda>c. c = space) str)
         \<and> (\<exists>start n. trim str = Some (start, n) \<and> sub_str str start n = strip_ends (\<lambda>c. c = space) str)
       else trim_3 str = None
         \<and> (str = [] \<or> trim str = Some (length str, (2 ^ 64 - (length str - 1)) mod 2 ^ 64)))
    \<and> strip str = (if \<exists>c\<in>set str. \<not> white c then Some (strip_ends white str) else None)
    \<and> (ascii str \<and> (\<exists>c\<in>set str. \<not> white c) \<longrightarrow> strip_fast str = strip str)"
proof -
  have lt: "length str < 2 ^ 64" using assms by simp
  show ?thesis
  proof (intro conjI)
    show "trim_1 str = strip_ends (\<lambda>c. c = space) str" by (rule trim_1_strip_ends [OF lt])
    show "trim_2 str = strip_ends (\<lambda>c. c = space) str" by (rule trim_2_strip_ends)
    show "strip str = (if \<exists>c\<in>set str. \<not> white c then Some (strip_ends white str) else None)"
      using strip_core [of str] strip_blanks [of str] by (simp only: split: if_split) blast
    show "ascii str \<and> (\<exists>c\<in>set str. \<not> white c) \<longrightarrow> strip_fast str = strip str"
      using strip_core [of str] strip_fast_strip_ends [of str] assms by metis
  next
    show "if \<exists>c\<in>set str. c \<noteq> space
       then trim_3 str = Some (strip_ends (\<lambda>c. c = space) str)
         \<and> (\<exists>start n. trim str = Some (start, n) \<and> sub_str str start n = strip_ends (\<lambda>c. c = space) str)
       else trim_3 str = None
         \<and> (str = [] \<or> trim str = Some (length str, (2 ^ 64 - (length str - 1)) mod 2 ^ 64))"
    proof (cases "\<exists>c\<in>set str. c \<noteq> space")
      case True
      then show ?thesis using erase_both_core [OF True] trim_view [OF True lt] by (simp add: trim_3_def)
    next
      case False
      then show ?thesis
        using erase_both_blanks [of str "\<lambda>c. c = space"] trim_blanks [of str] lt
        by (auto simp: trim_3_def)
    qed
  qed
qed

theorem trimmers_agree_unless_blank_witness:
  "trim_1 (text_of '' a b  '') = text_of ''a b''
   \<and> trim_3 (text_of '' a b  '') = Some (text_of ''a b'') \<and> trim_3 (text_of ''  '') = None
   \<and> trim (text_of ''  '') = Some (2, 2 ^ 64 - 1)
   \<and> strip_fast (text_of '' a b  '') = Some (text_of ''a b'')"
proof -
  define s b where st: "s = text_of '' a b  ''" "b = text_of ''  ''"
  have "\<exists>c\<in>set s. c \<noteq> space" "\<exists>c\<in>set s. \<not> white c" "ascii s" "\<not> (\<exists>c\<in>set b. c \<noteq> space)"
    "strip_ends (\<lambda>c. c = space) s = text_of ''a b''" "strip_ends white s = text_of ''a b''"
    unfolding st by code_simp+
  moreover have "length s < 2 ^ 32" "length b < 2 ^ 32" "length b = 2" "b \<noteq> []" by (simp_all add: st)
  moreover have "(2 ^ 64 - (2 - 1)) mod 2 ^ 64 = (2 ^ 64 - 1 :: nat)" by simp
  ultimately show ?thesis
    using trimmers_agree_unless_blank [of s] trimmers_agree_unless_blank [of b]
    unfolding st [symmetric] by (metis (no_types, lifting))
qed

end
