(* ===== verification/Price_Text.thy ===== *)
theory Price_Text
  imports Text_Codec
begin

text \<open>
  The decimal prices of \<open>TradingSystem_MVP/common/Utilities.cpp\<close> (\<open>TradingSystem_Experimental\<close> has the
  same text): a numeral with an optional fraction becomes a 64-bit integer in units of
  \<open>10 ^ -9\<close>. Any symbol is taken for a digit, as the difference of its code (a signed \<open>char\<close>) and
  that of zero. Texts are shorter than \<open>2 ^ 32\<close>.
\<close>

definition digit_offset :: int where "digit_offset = 48"

definition digit_value :: "byte \<Rightarrow> i64" where
  "digit_value c = word_of_int (sint c - digit_offset)"

definition dot :: byte where "dot = byte_of (CHR ''.'')"

function integer_loop :: "byte list \<Rightarrow> nat \<Rightarrow> i64 \<Rightarrow> i64 \<times> nat" where
  "integer_loop strPrice pos price =
     (if length strPrice > pos \<and> strPrice ! pos \<noteq> dot
      then integer_loop strPrice (pos + 1) (price * 10 + digit_value (strPrice ! pos))
      else (price, pos))"
  by pat_completeness auto
termination by (relation "measure (\<lambda>(s, pos, _). length s - pos)") auto

declare integer_loop.simps [simp del]

text \<open>The loop over nine fraction digits; the first argument counts the iterations left.\<close>

fun fraction_loop :: "nat \<Rightarrow> byte list \<Rightarrow> nat \<Rightarrow> i64 \<Rightarrow> i64" where
  "fraction_loop 0 strPrice pos price = price"
| "fraction_loop (Suc i) strPrice pos price =
     (let v = (if length strPrice > pos then digit_value (strPrice ! pos) else 0)
      in fraction_loop i strPrice (pos + 1) (price * 10 + v))"

definition priceToLong :: "byte list \<Rightarrow> i64" where
  "priceToLong strPrice =
    (let (price, pos) = integer_loop strPrice 0 0 in fraction_loop 9 strPrice (pos + 1) price)"

section \<open>The loops over digits\<close>

definition is_digit :: "byte \<Rightarrow> bool" where
  "is_digit c \<longleftrightarrow> 48 \<le> sint c \<and> sint c \<le> 57"

definition decimal :: "byte list \<Rightarrow> int" where
  "decimal ds = foldl (\<lambda>n d. 10 * n + (sint d - 48)) 0 ds"

lemma decimal_snoc [simp]: "decimal (ds @ [d]) = 10 * decimal ds + (sint d - 48)"
  by (simp add: decimal_def)

lemma decimal_Nil [simp]: "decimal [] = 0"
  by (simp add: decimal_def)

lemma word_decimal: "foldl (\<lambda>n d. n * 10 + digit_value d) (word_of_int a) ds
    = (word_of_int (a * 10 ^ length ds + decimal ds) :: i64)"
proof (induction ds rule: rev_induct)
  case (snoc d ds)
  then show ?case
    by (simp add: digit_value_def digit_offset_def algebra_simps)
qed simp

lemma integer_loop_digits:
  assumes "\<forall>d\<in>set ip. d \<noteq> dot" "rest = [] \<or> hd rest = dot"
  shows "integer_loop (pre @ ip @ rest) (length pre) price
    = (foldl (\<lambda>n d. n * 10 + digit_value d) price ip, length pre + length ip)"
  using assms(1)
proof (induction ip arbitrary: pre price)
  case Nil
  with assms(2) show ?case by (cases rest) (simp_all add: integer_loop.simps nth_append)
next
  case (Cons d ip)
  from Cons.IH [of "pre @ [d]" "price * 10 + digit_value d"] Cons.prems show ?case
    by (subst integer_loop.simps) (simp add: nth_append)
qed

lemma fraction_loop_digits:
  "fraction_loop n (pre @ fp) (length pre) price
   = foldl (\<lambda>n d. n * 10 + digit_value d) price (take n fp) * 10 ^ (n - length fp)"
proof (induction n arbitrary: pre fp price)
  case (Suc n)
  show ?case
  proof (cases fp)
    case Nil
    have "fraction_loop k pre p price = price * 10 ^ k" if "p \<ge> length pre" for k p price
      using that by (induction k arbitrary: p price) (simp_all add: Let_def algebra_simps)
    with Nil show ?thesis by simp
  next
    case (Cons d fp')
    from Suc.IH [of "pre @ [d]" fp' "price * 10 + digit_value d"] Cons show ?thesis
      by (simp add: nth_append)
  qed
qed simp

lemma decimal_nonneg: "\<forall>d\<in>set ds. is_digit d \<Longrightarrow> 0 \<le> decimal ds"
  by (induction ds rule: rev_induct) (auto simp: is_digit_def)

lemma digit_no_dot: "is_digit d \<Longrightarrow> d \<noteq> dot"
  by (auto simp: is_digit_def dot_def byte_of_def)

section \<open>Property\<close>

text \<open>
  The price of a decimal numeral with a fraction point is exactly its value in units of
  \<open>10 ^ -9\<close>, further fraction digits cut off, as long as that fits 64 bits; the largest price is
  about nine thousand million units.
\<close>

theorem priceToLong_exact:
  assumes "\<forall>d\<in>set ip. is_digit d" "\<forall>d\<in>set fp. is_digit d"
    and "in_i64 (decimal ip * 10 ^ 9 + decimal (take 9 fp) * 10 ^ (9 - length fp))"
  shows "sint (priceToLong (ip @ dot # fp)) = decimal ip * 10 ^ 9 + decimal (take 9 fp) * 10 ^ (9 - length fp)"
proof -
  let ?f = "\<lambda>n d. n * 10 + digit_value d"
  have "integer_loop (ip @ dot # fp) 0 0 = (foldl ?f 0 ip, length ip)"
    using integer_loop_digits [of ip "dot # fp" "[]" 0] assms(1) digit_no_dot by auto
  moreover have "fraction_loop 9 (ip @ dot # fp) (length ip + 1) (foldl ?f 0 ip)
      = foldl ?f (foldl ?f 0 ip) (take 9 fp) * 10 ^ (9 - length fp)"
    using fraction_loop_digits [of 9 "ip @ [dot]" fp] by simp
  moreover have "foldl ?f 0 ip = word_of_int (decimal ip)"
    using word_decimal [of 0 ip] by simp
  moreover have "foldl ?f (word_of_int (decimal ip)) (take 9 fp)
      = word_of_int (decimal ip * 10 ^ length (take 9 fp) + decimal (take 9 fp))" by (rule word_decimal)
  ultimately have "priceToLong (ip @ dot # fp)
      = word_of_int ((decimal ip * 10 ^ length (take 9 fp) + decimal (take 9 fp)) * 10 ^ (9 - length fp))"
    by (simp add: priceToLong_def)
  moreover have "(decimal ip * 10 ^ length (take 9 fp) + decimal (take 9 fp)) * 10 ^ (9 - length fp)
      = decimal ip * 10 ^ 9 + decimal (take 9 fp) * 10 ^ (9 - length fp)"
  proof -
    have "length (take 9 fp) + (9 - length fp) = 9" by simp
    then have "(10 :: int) ^ length (take 9 fp) * 10 ^ (9 - length fp) = 10 ^ 9" by (metis power_add)
    then show ?thesis by (simp add: algebra_simps)
  qed
  ultimately show ?thesis by (simp only: sint_word_of_int [OF assms(3)])
qed

theorem priceToLong_exact_witness: "sint (priceToLong (text_of ''97.5'')) = 97500000000"
proof -
  have "\<forall>d\<in>set (text_of ''97''). is_digit d" "\<forall>d\<in>set (text_of ''5''). is_digit d"
    "decimal (text_of ''97'') = 97" "decimal (take 9 (text_of ''5'')) = 5" by code_simp+
  moreover have "text_of ''97.5'' = text_of ''97'' @ dot # text_of ''5''" by (simp add: dot_def)
  ultimately show ?thesis
    using priceToLong_exact [of "text_of ''97''" "text_of ''5''"] by (simp add: in_i64_def del: list.map)
qed

end
