(* ===== verification/Level_Map.thy ===== *)
theory Level_Map
  imports Prelude
begin

text \<open>
  The members of \<open>boost::container::flat_map<Price, Quantity, Compare>\<close> that the depth books use.
  The container is third-party code: its operations are an argument of the books' definitions, and
  the locale \<open>level_map\<close> states its documented behaviour over a lookup function, for a strict
  order \<open>before\<close> of the keys (\<open>std::greater\<close> for the bids, \<open>std::less\<close> for the asks). A sequence of
  entries kept in that order is such a map.
\<close>

record ('m, 'p, 'q) level_ops =
  lo_new :: 'm
  lo_emplace :: "'p \<Rightarrow> 'q \<Rightarrow> 'm \<Rightarrow> nat \<times> bool \<times> 'm"
  lo_assign :: "nat \<Rightarrow> 'q \<Rightarrow> 'm \<Rightarrow> 'm"
  lo_erase :: "'p \<Rightarrow> 'm \<Rightarrow> nat \<times> 'm"
  lo_front :: "'m \<Rightarrow> ('p \<times> 'q) option"

locale level_map =
  fixes ops :: "('m, 'p, 'q) level_ops"
    and lookup :: "'m \<Rightarrow> 'p \<Rightarrow> 'q option"
    and before :: "'p \<Rightarrow> 'p \<Rightarrow> bool"
    and invar :: "'m \<Rightarrow> bool"
  assumes invar_new: "invar (lo_new ops)"
    and lookup_new: "lookup (lo_new ops) = Map.empty"
    and emplace_present: "invar m \<Longrightarrow> lookup m k \<noteq> None \<Longrightarrow>
      \<exists>i. lo_emplace ops k v m = (i, False, m)
        \<and> invar (lo_assign ops i v m) \<and> lookup (lo_assign ops i v m) = (lookup m)(k \<mapsto> v)"
    and emplace_new: "invar m \<Longrightarrow> lookup m k = None \<Longrightarrow>
      \<exists>i m'. lo_emplace ops k v m = (i, True, m') \<and> invar m' \<and> lookup m' = (lookup m)(k \<mapsto> v)"
    and erase_eq: "invar m \<Longrightarrow> \<exists>m'. lo_erase ops k m = (of_bool (lookup m k \<noteq> None), m')
      \<and> invar m' \<and> lookup m' = (lookup m)(k := None)"
    and front_None: "invar m \<Longrightarrow> lo_front ops m = None \<longleftrightarrow> lookup m = Map.empty"
    and front_Some: "invar m \<Longrightarrow> lo_front ops m = Some (k, v) \<Longrightarrow>
      lookup m k = Some v \<and> (\<forall>k'. lookup m k' \<noteq> None \<longrightarrow> k' = k \<or> before k k')"
begin

lemma front_best:
  assumes "invar m" "lookup m = L"
  shows "case lo_front ops m of None \<Rightarrow> L = Map.empty
    | Some (k, v) \<Rightarrow> L k = Some v \<and> (\<forall>k'. L k' \<noteq> None \<longrightarrow> k' = k \<or> before k k')"
  using front_None [OF assms(1)] front_Some [OF assms(1)] assms(2)
  by (auto split: option.split prod.split)

end

section \<open>A sorted sequence is such a map\<close>

fun seq_insert :: "('p \<Rightarrow> 'p \<Rightarrow> bool) \<Rightarrow> 'p \<Rightarrow> 'q \<Rightarrow> ('p \<times> 'q) list \<Rightarrow> ('p \<times> 'q) list" where
  "seq_insert before k v [] = [(k, v)]"
| "seq_insert before k v (e # m) =
     (if before (fst e) k then e # seq_insert before k v m else (k, v) # e # m)"

definition seq_ops :: "('p \<Rightarrow> 'p \<Rightarrow> bool) \<Rightarrow> (('p \<times> 'q) list, 'p, 'q) level_ops" where
  "seq_ops before =
     \<lparr>lo_new = [],
      lo_emplace = \<lambda>k v m.
        (if k \<in> fst ` set m then (length (takeWhile (\<lambda>e. fst e \<noteq> k) m), False, m)
         else let m' = seq_insert before k v m in (length (takeWhile (\<lambda>e. fst e \<noteq> k) m'), True, m')),
      lo_assign = \<lambda>i v m. m[i := (fst (m ! i), v)],
      lo_erase = \<lambda>k m. (of_bool (k \<in> fst ` set m), filter (\<lambda>e. fst e \<noteq> k) m),
      lo_front = \<lambda>m. (case m of [] \<Rightarrow> None | e # _ \<Rightarrow> Some e)\<rparr>"

definition seq_sorted :: "('p \<Rightarrow> 'p \<Rightarrow> bool) \<Rightarrow> ('p \<times> 'q) list \<Rightarrow> bool" where
  "seq_sorted before m \<longleftrightarrow> sorted_wrt (\<lambda>a b. before (fst a) (fst b)) m"

lemma map_of_assign_at:
  "k \<in> fst ` set m \<Longrightarrow> distinct (map fst m) \<Longrightarrow>
   map_of (m[length (takeWhile (\<lambda>e. fst e \<noteq> k) m) := (k, v)]) = (map_of m)(k \<mapsto> v)"
proof (induction m)
  case (Cons e m)
  then show ?case by (cases "fst e = k") (auto simp: fun_eq_iff image_iff)
qed simp

lemma set_seq_insert: "set (seq_insert before k v m) = insert (k, v) (set m)"
  by (induction m) auto

lemma map_of_seq_insert:
  "k \<notin> fst ` set m \<Longrightarrow> map_of (seq_insert before k v m) = (map_of m)(k \<mapsto> v)"
  by (induction m) (auto simp: fun_eq_iff)

lemma takeWhile_index:
  "k \<in> fst ` set m \<Longrightarrow> fst (m ! length (takeWhile (\<lambda>e. fst e \<noteq> k) m)) = k"
  by (induction m) auto

locale key_order =
  fixes before :: "'p \<Rightarrow> 'p \<Rightarrow> bool"
  assumes irrefl: "\<not> before a a"
    and trans: "before a b \<Longrightarrow> before b c \<Longrightarrow> before a c"
    and total: "a = b \<or> before a b \<or> before b a"
begin

lemma seq_sorted_distinct: "seq_sorted before m \<Longrightarrow> distinct (map fst m)"
  using irrefl by (induction m) (auto simp: seq_sorted_def)

lemma seq_sorted_insert:
  "seq_sorted before m \<Longrightarrow> k \<notin> fst ` set m \<Longrightarrow> seq_sorted before (seq_insert before k v m)"
proof (induction m)
  case (Cons e m)
  show ?case
  proof (cases "before (fst e) k")
    case True
    with Cons show ?thesis by (auto simp: seq_sorted_def set_seq_insert)
  next
    case False
    with Cons.prems have "before k (fst e)" using total [of k "fst e"] by auto
    moreover from this have "\<forall>x\<in>set m. before k (fst x)"
      using Cons.prems(1) trans by (auto simp: seq_sorted_def)
    ultimately show ?thesis using False Cons.prems(1) by (simp add: seq_sorted_def)
  qed
qed (simp add: seq_sorted_def)

lemma seq_sorted_update:
  "seq_sorted before m \<Longrightarrow> fst (m ! i) = k \<Longrightarrow> seq_sorted before (m[i := (k, v)])"
  unfolding seq_sorted_def sorted_wrt_iff_nth_less
  by (cases "i < length m") (auto simp: nth_list_update)

lemma seq_front_best:
  "seq_sorted before m \<Longrightarrow> m = e # r \<Longrightarrow> map_of m k' \<noteq> None \<Longrightarrow> k' = fst e \<or> before (fst e) k'"
  by (auto simp: seq_sorted_def dest!: map_of_SomeD split: if_splits)

end

sublocale key_order \<subseteq> seq: level_map "seq_ops before" map_of before "seq_sorted before"
proof
  fix m :: "('p \<times> 'b) list" and k v
  assume m: "seq_sorted before m"
  show "map_of m k \<noteq> None \<Longrightarrow> \<exists>i. lo_emplace (seq_ops before) k v m = (i, False, m)
      \<and> seq_sorted before (lo_assign (seq_ops before) i v m)
      \<and> map_of (lo_assign (seq_ops before) i v m) = (map_of m)(k \<mapsto> v)"
    using seq_sorted_distinct [OF m] seq_sorted_update [OF m takeWhile_index [of k m]]
    by (simp add: seq_ops_def map_of_assign_at takeWhile_index map_of_eq_None_iff)
  show "map_of m k = None \<Longrightarrow> \<exists>i m'. lo_emplace (seq_ops before) k v m = (i, True, m')
      \<and> seq_sorted before m' \<and> map_of m' = (map_of m)(k \<mapsto> v)"
    by (simp add: seq_ops_def map_of_eq_None_iff Let_def map_of_seq_insert seq_sorted_insert m)
  show "\<exists>m'. lo_erase (seq_ops before) k m = (of_bool (map_of m k \<noteq> None), m')
      \<and> seq_sorted before m' \<and> map_of m' = (map_of m)(k := None)"
  proof -
    have "map_of (filter (\<lambda>e. fst e \<noteq> k) m) = (map_of m)(k := None)"
      by (induction m) (auto simp: fun_eq_iff)
    then show ?thesis
      using m by (simp add: seq_ops_def seq_sorted_def sorted_wrt_filter map_of_eq_None_iff)
  qed
  show "lo_front (seq_ops before) m = None \<longleftrightarrow> map_of m = Map.empty"
    by (simp add: seq_ops_def split: list.split)
  show "lo_front (seq_ops before) m = Some (k, v) \<Longrightarrow>
      map_of m k = Some v \<and> (\<forall>k'. map_of m k' \<noteq> None \<longrightarrow> k' = k \<or> before k k')"
  proof -
    assume "lo_front (seq_ops before) m = Some (k, v)"
    then obtain r where r: "m = (k, v) # r" by (auto simp: seq_ops_def split: list.splits)
    then show ?thesis using seq_front_best [OF m r] by auto
  qed
qed (simp_all add: seq_ops_def seq_sorted_def)

end
