(* ===== verification/Depth_Engine.thy ===== *)
theory Depth_Engine
  imports Level_Map String_Tools
begin

text \<open>
  The depth book engine of \<open>TradingSystem_Experimental\<close>: the events of \<open>common/Event.h\<close>, the book and
  its engine of \<open>order_book/OrderBook.cpp\<close>, and the dispatch of raw messages of
  \<open>order_book/Manager.cpp\<close>. The engine waits for a snapshot, buffering the updates that come before
  it, and replays those that are newer. One iteration of its loop is one call of \<open>handle_event\<close>,
  with the outcome of \<open>eventQueue.pop\<close> as an argument. What the loop prints about the book is the
  list of reports of the state. A \<open>Price\<close> or \<open>Quantity\<close> is an \<open>int64_t\<close>, ordered as signed.

  The lemmas show that after a snapshot the book is the snapshot's levels under the newer buffered
  updates and then all further updates, in order.
\<close>

section \<open>Events (Event.h)\<close>

datatype depth_event_type = DepthSnapshot | DepthUpdate

record depth_level =
  dl_price :: i64
  dl_quantity :: i64

record depth_event =
  de_type :: depth_event_type
  de_bids :: "depth_level list"
  de_akss :: "depth_level list"
  de_symbol :: "byte list"
  de_id :: u64
  de_lastUpdateId :: u64
  de_firstUpdateId :: u64

section \<open>The book (MarketDepthBook)\<close>

definition greater_price :: "i64 \<Rightarrow> i64 \<Rightarrow> bool" where
  "greater_price a b \<longleftrightarrow> sint a > sint b"

definition less_price :: "i64 \<Rightarrow> i64 \<Rightarrow> bool" where
  "less_price a b \<longleftrightarrow> sint a < sint b"

type_synonym 'm price_ops = "('m, i64, i64) level_ops"

record 'm market_depth_book =
  md_bids :: 'm
  md_asks :: 'm

definition addLevel :: "'m price_ops \<Rightarrow> depth_level \<Rightarrow> 'm \<Rightarrow> 'm" where
  "addLevel ops lvl levelMap =
    (let (iter, inserted, m) = lo_emplace ops (dl_price lvl) (dl_quantity lvl) levelMap
     in if \<not> inserted then lo_assign ops iter (dl_quantity lvl) m else m)"

definition removeLevel :: "'m price_ops \<Rightarrow> depth_level \<Rightarrow> 'm \<Rightarrow> nat \<times> 'm" where
  "removeLevel ops lvl levelMap = lo_erase ops (dl_price lvl) levelMap"

definition addBidPrice :: "'m price_ops \<Rightarrow> depth_level \<Rightarrow> 'm market_depth_book \<Rightarrow> 'm market_depth_book" where
  "addBidPrice ops lvl b = b\<lparr>md_bids := addLevel ops lvl (md_bids b)\<rparr>"

definition addAskPrice :: "'m price_ops \<Rightarrow> depth_level \<Rightarrow> 'm market_depth_book \<Rightarrow> 'm market_depth_book" where
  "addAskPrice ops lvl b = b\<lparr>md_asks := addLevel ops lvl (md_asks b)\<rparr>"

definition removeBidPrice :: "'m price_ops \<Rightarrow> depth_level \<Rightarrow> 'm market_depth_book \<Rightarrow> 'm market_depth_book" where
  "removeBidPrice ops lvl b = b\<lparr>md_bids := snd (removeLevel ops lvl (md_bids b))\<rparr>"

definition removeAskPrice :: "'m price_ops \<Rightarrow> depth_level \<Rightarrow> 'm market_depth_book \<Rightarrow> 'm market_depth_book" where
  "removeAskPrice ops lvl b = b\<lparr>md_asks := snd (removeLevel ops lvl (md_asks b))\<rparr>"

text \<open>\<open>bops\<close> and \<open>aops\<close> are the operations of the two maps.\<close>

definition applySnapshot ::
  "'m price_ops \<Rightarrow> 'm price_ops \<Rightarrow> depth_event \<Rightarrow> 'm market_depth_book \<Rightarrow> 'm market_depth_book" where
  "applySnapshot bops aops snapshot b =
     fold (addAskPrice aops) (de_akss snapshot) (fold (addBidPrice bops) (de_bids snapshot) b)"

definition handleDepthUpdate ::
  "'m price_ops \<Rightarrow> 'm price_ops \<Rightarrow> depth_event \<Rightarrow> 'm market_depth_book \<Rightarrow> 'm market_depth_book" where
  "handleDepthUpdate bops aops event b =
     fold (\<lambda>lvl b. if dl_quantity lvl \<noteq> 0 then addAskPrice aops lvl b else removeAskPrice aops lvl b) (de_akss event)
       (fold (\<lambda>lvl b. if dl_quantity lvl \<noteq> 0 then addBidPrice bops lvl b else removeBidPrice bops lvl b) (de_bids event) b)"

section \<open>The engine (Engine)\<close>

datatype depth_book_status = Ready | NoReady

record quote_report =
  qr_bid :: i64
  qr_ask :: i64
  qr_price :: i64
  qr_spread :: i64

record 'm depth_engine =
  dg_status :: depth_book_status
  dg_depthBook :: "'m market_depth_book"
  dg_depthEvents :: "depth_event list"
  dg_reports :: "quote_report list"

definition new_depth_engine :: "'m price_ops \<Rightarrow> 'm price_ops \<Rightarrow> 'm depth_engine" where
  "new_depth_engine bops aops =
     \<lparr>dg_status = NoReady, dg_depthBook = \<lparr>md_bids = lo_new bops, md_asks = lo_new aops\<rparr>,
      dg_depthEvents = [], dg_reports = []\<rparr>"

text \<open>The printed line: the division of the spread truncates.\<close>

definition quote_of :: "'m price_ops \<Rightarrow> 'm price_ops \<Rightarrow> 'm market_depth_book \<Rightarrow> quote_report list" where
  "quote_of bops aops b =
    (case (lo_front bops (md_bids b), lo_front aops (md_asks b)) of
       (Some (bidPrice, _), Some (askPrice, _)) \<Rightarrow>
         (let spread = askPrice - bidPrice
          in [\<lparr>qr_bid = bidPrice, qr_ask = askPrice, qr_price = bidPrice + word_of_int (sint spread sdiv 2), qr_spread = spread\<rparr>])
     | _ \<Rightarrow> [])"

definition handle_event ::
  "'m price_ops \<Rightarrow> 'm price_ops \<Rightarrow> depth_event option \<Rightarrow> 'm depth_engine \<Rightarrow> 'm depth_engine" where
  "handle_event bops aops popped g =
    (case popped of
       None \<Rightarrow> g
     | Some event \<Rightarrow>
         if de_type event = DepthUpdate
         then (let g1 = (if dg_status g = Ready
                         then g\<lparr>dg_depthBook := handleDepthUpdate bops aops event (dg_depthBook g)\<rparr>
                         else g\<lparr>dg_depthEvents := dg_depthEvents g @ [event]\<rparr>)
               in if dg_status g1 = Ready
                  then g1\<lparr>dg_reports := dg_reports g1 @ quote_of bops aops (dg_depthBook g1)\<rparr>
                  else g1)
         else if de_type event = DepthSnapshot \<and> dg_status g = NoReady
         then (let b1 = applySnapshot bops aops event (dg_depthBook g);
                   b2 = fold (\<lambda>u b. if de_lastUpdateId u > de_lastUpdateId event
                                    then handleDepthUpdate bops aops u b else b) (dg_depthEvents g) b1
               in g\<lparr>dg_depthBook := b2, dg_depthEvents := [], dg_status := Ready\<rparr>)
         else g)"

definition run_engine ::
  "'m price_ops \<Rightarrow> 'm price_ops \<Rightarrow> depth_event option list \<Rightarrow> 'm depth_engine \<Rightarrow> 'm depth_engine" where
  "run_engine bops aops = fold (handle_event bops aops)"


section \<open>The abstract book\<close>

text \<open>One side of a book is a partial function from prices to quantities. A snapshot's level is
  taken as it is; an update's level of quantity zero removes.\<close>

type_synonym side_levels = "i64 \<Rightarrow> i64 option"

definition put_level :: "depth_level \<Rightarrow> side_levels \<Rightarrow> side_levels" where
  "put_level lvl L = L(dl_price lvl \<mapsto> dl_quantity lvl)"

definition update_level :: "depth_level \<Rightarrow> side_levels \<Rightarrow> side_levels" where
  "update_level lvl L = L(dl_price lvl := (if dl_quantity lvl = 0 then None else Some (dl_quantity lvl)))"

definition replay :: "(depth_event \<Rightarrow> depth_level list) \<Rightarrow> depth_event list \<Rightarrow> side_levels \<Rightarrow> side_levels" where
  "replay side us L = fold (\<lambda>u. fold update_level (side u)) us L"

fun events_of :: "depth_event option list \<Rightarrow> depth_event list" where
  "events_of [] = []"
| "events_of (None # es) = events_of es"
| "events_of (Some e # es) = e # events_of es"

abbreviation updates :: "depth_event list \<Rightarrow> depth_event list" where
  "updates \<equiv> filter (\<lambda>e. de_type e = DepthUpdate)"

abbreviation newer_than :: "depth_event \<Rightarrow> depth_event list \<Rightarrow> depth_event list" where
  "newer_than snapshot \<equiv> filter (\<lambda>u. de_lastUpdateId u > de_lastUpdateId snapshot)"

locale depth_books =
  bids: level_map bops blook greater_price binv + asks: level_map aops alook less_price ainv
  for bops :: "'m price_ops" and blook binv and aops :: "'m price_ops" and alook ainv
begin

definition levels :: "'m market_depth_book \<Rightarrow> side_levels \<Rightarrow> side_levels \<Rightarrow> bool" where
  "levels b B A \<longleftrightarrow> binv (md_bids b) \<and> ainv (md_asks b) \<and> blook (md_bids b) = B \<and> alook (md_asks b) = A"

lemma levels_new: "levels \<lparr>md_bids = lo_new bops, md_asks = lo_new aops\<rparr> Map.empty Map.empty"
  by (simp add: levels_def bids.invar_new asks.invar_new bids.lookup_new asks.lookup_new)

lemma add_bid: "levels b B A \<Longrightarrow> levels (addBidPrice bops lvl b) (put_level lvl B) A"
  using bids.emplace_present [of "md_bids b" "dl_price lvl" "dl_quantity lvl"]
    bids.emplace_new [of "md_bids b" "dl_price lvl" "dl_quantity lvl"]
  by (cases "blook (md_bids b) (dl_price lvl)")
     (auto simp: levels_def addBidPrice_def addLevel_def put_level_def)

lemma add_ask: "levels b B A \<Longrightarrow> levels (addAskPrice aops lvl b) B (put_level lvl A)"
  using asks.emplace_present [of "md_asks b" "dl_price lvl" "dl_quantity lvl"]
    asks.emplace_new [of "md_asks b" "dl_price lvl" "dl_quantity lvl"]
  by (cases "alook (md_asks b) (dl_price lvl)")
     (auto simp: levels_def addAskPrice_def addLevel_def put_level_def)

lemma remove_bid: "levels b B A \<Longrightarrow> levels (removeBidPrice bops lvl b) (B(dl_price lvl := None)) A"
  using bids.erase_eq [of "md_bids b" "dl_price lvl"]
  by (auto simp: levels_def removeBidPrice_def removeLevel_def)

lemma remove_ask: "levels b B A \<Longrightarrow> levels (removeAskPrice aops lvl b) B (A(dl_price lvl := None))"
  using asks.erase_eq [of "md_asks b" "dl_price lvl"]
  by (auto simp: levels_def removeAskPrice_def removeLevel_def)

lemma snapshot_levels:
  assumes "levels b B A"
  shows "levels (applySnapshot bops aops e b) (fold put_level (de_bids e) B) (fold put_level (de_akss e) A)"
proof -
  have "levels b B A \<Longrightarrow> levels (fold (addBidPrice bops) ls b) (fold put_level ls B) A" for ls b B A
    by (induction ls arbitrary: b B) (auto intro: add_bid)
  moreover have "levels b B A \<Longrightarrow> levels (fold (addAskPrice aops) ls b) B (fold put_level ls A)" for ls b B A
    by (induction ls arbitrary: b A) (auto intro: add_ask)
  ultimately show ?thesis using assms by (simp add: applySnapshot_def)
qed

lemma update_levels:
  assumes "levels b B A"
  shows "levels (handleDepthUpdate bops aops e b) (fold update_level (de_bids e) B) (fold update_level (de_akss e) A)"
proof -
  have "levels b B A \<Longrightarrow>
    levels (fold (\<lambda>lvl b. if dl_quantity lvl \<noteq> 0 then addBidPrice bops lvl b else removeBidPrice bops lvl b) ls b)
      (fold update_level ls B) A" for ls b B A
    by (induction ls arbitrary: b B)
       (simp_all add: add_bid [unfolded put_level_def] remove_bid update_level_def)
  moreover have "levels b B A \<Longrightarrow>
    levels (fold (\<lambda>lvl b. if dl_quantity lvl \<noteq> 0 then addAskPrice aops lvl b else removeAskPrice aops lvl b) ls b)
      B (fold update_level ls A)" for ls b B A
    by (induction ls arbitrary: b A)
       (simp_all add: add_ask [unfolded put_level_def] remove_ask update_level_def)
  ultimately show ?thesis using assms by (simp add: handleDepthUpdate_def)
qed

lemma replay_levels:
  "levels b B A \<Longrightarrow> levels (fold (handleDepthUpdate bops aops) us b) (replay de_bids us B) (replay de_akss us A)"
  by (induction us arbitrary: b B A) (auto simp: replay_def intro: update_levels)

lemma fold_newer:
  "fold (\<lambda>u b. if de_lastUpdateId u > n then handleDepthUpdate bops aops u b else b) us b
   = fold (handleDepthUpdate bops aops) (filter (\<lambda>u. de_lastUpdateId u > n) us) b"
  by (induction us arbitrary: b) auto

lemma waiting_run:
  "dg_status g = NoReady \<Longrightarrow> \<forall>e\<in>set (events_of es). de_type e = DepthUpdate \<Longrightarrow>
   run_engine bops aops es g = g\<lparr>dg_depthEvents := dg_depthEvents g @ events_of es\<rparr>"
proof (induction es arbitrary: g)
  case (Cons e es)
  then show ?case by (cases e) (simp_all add: run_engine_def handle_event_def)
qed (simp add: run_engine_def)

lemma ready_run:
  "dg_status g = Ready \<Longrightarrow> levels (dg_depthBook g) B A \<Longrightarrow>
   dg_status (run_engine bops aops es g) = Ready
   \<and> dg_depthEvents (run_engine bops aops es g) = dg_depthEvents g
   \<and> levels (dg_depthBook (run_engine bops aops es g))
       (replay de_bids (updates (events_of es)) B) (replay de_akss (updates (events_of es)) A)"
proof (induction es arbitrary: g B A)
  case Nil
  then show ?case by (simp add: run_engine_def replay_def)
next
  case (Cons e es)
  show ?case
  proof (cases "\<exists>u. e = Some u \<and> de_type u = DepthUpdate")
    case True
    then obtain u where u: "e = Some u" "de_type u = DepthUpdate" by blast
    let ?g = "handle_event bops aops e g"
    have "dg_status ?g = Ready" "dg_depthEvents ?g = dg_depthEvents g"
      "levels (dg_depthBook ?g) (fold update_level (de_bids u) B) (fold update_level (de_akss u) A)"
      using Cons.prems u update_levels by (simp_all add: handle_event_def)
    from Cons.IH [OF this(1,3)] this(2) u show ?thesis by (simp add: run_engine_def replay_def)
  next
    case False
    then have "handle_event bops aops e g = g"
      using Cons.prems(1) by (cases e) (auto simp: handle_event_def)
    with False Cons show ?thesis
      by (cases e) (auto simp: run_engine_def)
  qed
qed

lemma snapshot_step:
  assumes "dg_status g = NoReady" "levels (dg_depthBook g) B A" "de_type e = DepthSnapshot"
  shows "dg_status (handle_event bops aops (Some e) g) = Ready
    \<and> dg_depthEvents (handle_event bops aops (Some e) g) = []
    \<and> levels (dg_depthBook (handle_event bops aops (Some e) g))
        (replay de_bids (newer_than e (dg_depthEvents g)) (fold put_level (de_bids e) B))
        (replay de_akss (newer_than e (dg_depthEvents g)) (fold put_level (de_akss e) A))"
  using assms by (simp add: handle_event_def fold_newer replay_levels snapshot_levels)

lemma synchronised_run:
  assumes "\<forall>e\<in>set (events_of pre). de_type e = DepthUpdate" "de_type snapshot = DepthSnapshot"
  shows "let g = run_engine bops aops (pre @ Some snapshot # post) (new_depth_engine bops aops);
        us = newer_than snapshot (events_of pre) @ updates (events_of post)
    in dg_status g = Ready \<and> dg_depthEvents g = []
      \<and> levels (dg_depthBook g) (replay de_bids us (fold put_level (de_bids snapshot) Map.empty))
          (replay de_akss us (fold put_level (de_akss snapshot) Map.empty))"
proof -
  let ?new = "new_depth_engine bops aops"
  let ?w = "run_engine bops aops pre ?new"
  let ?s = "handle_event bops aops (Some snapshot) ?w"
  have new: "dg_status ?new = NoReady" "levels (dg_depthBook ?new) Map.empty Map.empty" "dg_depthEvents ?new = []"
    by (simp_all add: new_depth_engine_def levels_new)
  from waiting_run [OF new(1) assms(1)] have w: "dg_status ?w = NoReady"
    "levels (dg_depthBook ?w) Map.empty Map.empty" "dg_depthEvents ?w = events_of pre"
    using new by simp_all
  note s = snapshot_step [OF w(1,2) assms(2), unfolded w(3)]
  have "run_engine bops aops (pre @ Some snapshot # post) ?new = run_engine bops aops post ?s"
    by (simp add: run_engine_def)
  with ready_run [OF s [THEN conjunct1] s [THEN conjunct2, THEN conjunct2], of post] s
  show ?thesis by (simp add: Let_def replay_def)
qed

end

section \<open>The two maps\<close>

interpretation greater: key_order greater_price
  by standard (auto simp: greater_price_def sint_inject_i64 [symmetric])

interpretation less: key_order less_price
  by standard (auto simp: less_price_def sint_inject_i64 [symmetric])

interpretation seq_books: depth_books
  "seq_ops greater_price" map_of "seq_sorted greater_price" "seq_ops less_price" map_of "seq_sorted less_price" ..


section \<open>The dispatch of raw messages (Manager.cpp)\<close>

datatype connector_type = ConnectorBinance | ConnectorUnknown

definition quote :: byte where "quote = byte_of (CHR 0x22)"

definition connector_key :: "byte list" where
  "connector_key = [quote] @ text_of ''connector'' @ [quote]"

text \<open>The first string after the key; the empty view when there is none.\<close>

definition extractType :: "byte list \<Rightarrow> byte list" where
  "extractType message =
    (case str_find message connector_key 0 of
       None \<Rightarrow> []
     | Some pos \<Rightarrow>
         (case str_find message [quote] (pos + 11) of
            None \<Rightarrow> []
          | Some start \<Rightarrow>
              (case str_find message [quote] (start + 1) of
                 None \<Rightarrow> []
               | Some pos2 \<Rightarrow> sub_str message (start + 1) (pos2 - start - 1))))"

definition fromString :: "byte list \<Rightarrow> connector_type" where
  "fromString strType = (if strType = text_of ''Binance'' then ConnectorBinance else ConnectorUnknown)"

text \<open>One message of \<open>handleEvents\<close>: \<open>Inl\<close> is the unknown type reported on the error stream, \<open>Inr\<close>
  the connector whose parser gets the message.\<close>

definition dispatch_message :: "byte list \<Rightarrow> byte list + connector_type \<times> byte list" where
  "dispatch_message event =
    (let strType = extractType event; connectorType = fromString strType
     in if connectorType = ConnectorUnknown then Inl strType else Inr (connectorType, event))"

lemma find_append: "find P (xs @ ys) = (case find P xs of None \<Rightarrow> find P ys | Some x \<Rightarrow> Some x)"
  by (induction xs) auto

lemma str_find_quote:
  assumes "p \<le> length a" "quote \<notin> set (drop p a)"
  shows "str_find (a @ quote # b) [quote] p = Some (length a)"
proof -
  let ?P = "occurs_at (a @ quote # b) [quote]"
  have at: "?P i \<longleftrightarrow> i < length (a @ quote # b) \<and> (a @ quote # b) ! i = quote" for i
    by (cases "drop i (a @ quote # b)") (auto simp: occurs_at_def take_Suc nth_via_drop)
  have before: "\<not> ?P i" if "p \<le> i" "i < length a" for i
  proof -
    have "drop p a ! (i - p) = a ! i" "i - p < length (drop p a)" using that by simp_all
    then have "a ! i \<in> set (drop p a)" using nth_mem by metis
    then show ?thesis using assms(2) that by (auto simp: at nth_append)
  qed
  have split: "[p..<length (a @ quote # b) + 1] = [p..<length a] @ [length a..<length (a @ quote # b) + 1]"
    using upt_add_eq_append [OF assms(1), of "length b + 2"] by (simp del: upt_Suc)
  have "find ?P [p..<length a] = None" using before by (auto simp: find_None_iff)
  then show ?thesis
    unfolding str_find_def split
    by (simp add: find_append at upt_conv_Cons del: upt_Suc)
qed

lemma extractType_value:
  assumes "str_find (pre @ connector_key @ mid @ quote # v @ quote # rest) connector_key 0 = Some (length pre)"
    and "quote \<notin> set mid" "quote \<notin> set v"
  shows "extractType (pre @ connector_key @ mid @ quote # v @ quote # rest) = v"
proof -
  let ?m = "pre @ connector_key @ mid @ quote # v @ quote # rest"
  have len: "length connector_key = 11" by (simp add: connector_key_def)
  have 1: "str_find ?m [quote] (length pre + 11) = Some (length (pre @ connector_key @ mid))"
    using str_find_quote [of "length pre + 11" "pre @ connector_key @ mid" "v @ quote # rest"] assms(2) len by simp
  have 2: "str_find ?m [quote] (length (pre @ connector_key @ mid) + 1) = Some (length (pre @ connector_key @ mid @ quote # v))"
    using str_find_quote [of "length (pre @ connector_key @ mid) + 1" "pre @ connector_key @ mid @ quote # v" rest] assms(3)
    by simp
  show ?thesis
    using assms(1) 1 2 len by (simp add: extractType_def sub_str_def)
qed

section \<open>Properties\<close>

text \<open>
  C22. Before a snapshot the engine only buffers; after it, its book is the snapshot's levels under
  the buffered updates that are newer than the snapshot, and then under every later update, each
  in the order of arrival; further snapshots change nothing. This holds for every pair of ordered
  maps with the documented behaviour of \<open>flat_map\<close>.
\<close>

theorem depth_engine_synchronises:
  assumes "level_map bops blook greater_price binv" "level_map aops alook less_price ainv"
    and "\<forall>e\<in>set (events_of pre). de_type e = DepthUpdate" "de_type snapshot = DepthSnapshot"
  shows "let new = new_depth_engine bops aops;
        g = run_engine bops aops (pre @ Some snapshot # post) new;
        us = newer_than snapshot (events_of pre) @ updates (events_of post)
    in run_engine bops aops pre new = new\<lparr>dg_depthEvents := events_of pre\<rparr>
      \<and> dg_status g = Ready \<and> dg_depthEvents g = []
      \<and> blook (md_bids (dg_depthBook g)) = replay de_bids us (fold put_level (de_bids snapshot) Map.empty)
      \<and> alook (md_asks (dg_depthBook g)) = replay de_akss us (fold put_level (de_akss snapshot) Map.empty)"
proof -
  have books: "depth_books bops blook binv aops alook ainv"
    by (rule depth_books.intro) (rule assms)+
  show ?thesis
    using depth_books.synchronised_run [OF books assms(3,4), of post]
      depth_books.waiting_run [OF books _ assms(3), of "new_depth_engine bops aops"]
    by (simp add: Let_def depth_books.levels_def [OF books] new_depth_engine_def)
qed

definition sample_update :: "u64 \<Rightarrow> i64 \<Rightarrow> i64 \<Rightarrow> depth_event" where
  "sample_update n p q = \<lparr>de_type = DepthUpdate, de_bids = [\<lparr>dl_price = p, dl_quantity = q\<rparr>], de_akss = [],
     de_symbol = [], de_id = 0, de_lastUpdateId = n, de_firstUpdateId = n\<rparr>"

theorem depth_engine_synchronises_witness:
  "map_of (md_bids (dg_depthBook (run_engine (seq_ops greater_price) (seq_ops less_price)
     [Some (sample_update 4 7 1), None, Some (sample_update 6 8 2),
      Some \<lparr>de_type = DepthSnapshot, de_bids = [\<lparr>dl_price = 7, dl_quantity = 5\<rparr>], de_akss = [], de_symbol = [],
        de_id = 0, de_lastUpdateId = 5, de_firstUpdateId = 0\<rparr>,
      Some (sample_update 7 7 0)]
     (new_depth_engine (seq_ops greater_price) (seq_ops less_price))))) = [8 \<mapsto> 2]"
proof -
  let ?s = "\<lparr>de_type = DepthSnapshot, de_bids = [\<lparr>dl_price = 7, dl_quantity = 5\<rparr>], de_akss = [], de_symbol = [],
        de_id = 0, de_lastUpdateId = 5, de_firstUpdateId = 0\<rparr>"
  have "\<forall>e\<in>set (events_of [Some (sample_update 4 7 1), None, Some (sample_update 6 8 2)]). de_type e = DepthUpdate"
    "de_type ?s = DepthSnapshot" by (simp_all add: sample_update_def)
  from depth_engine_synchronises [OF greater.seq.level_map_axioms less.seq.level_map_axioms this, of "[Some (sample_update 7 7 0)]"]
  show ?thesis
    by (simp add: Let_def replay_def sample_update_def update_level_def put_level_def fun_eq_iff)
qed

end
