(* ===== verification/Pricing_Pipeline.thy ===== *)
theory Pricing_Pipeline
  imports Level_Map Ring_Buffer String_Tools
begin

text \<open>
  The pipeline of \<open>TradingSystem_MVP\<close>: the price level book (\<open>engine/PriceLevelBook.cpp\<close>), the book
  keepers of the exchanges and the engine that routes messages to them (\<open>engine/Engine.cpp\<close>), the
  queue of pointers between the threads (\<open>common/BlockingQueuePtr.h\<close>) and the receiving loop of
  \<open>connectors/BinanceConnector.cpp\<close>, which reuses a ring of buffers. A buffer is named by its index
  and holds a message; the queue holds indices, so that a message may change while it is queued.

  The parser is built on a JSON library: it is the argument \<open>parse\<close>, a function of the message and
  of the event object it overwrites. Prices and quantities are \<open>double\<close>s that are only compared and
  tested for zero; any types with an order and a zero stand for them.

  The lemmas show what a sequence of depth updates does to a book (the first quantity of a level
  stays), which messages a keeper cannot handle, and that the keeper sees the messages the connector
  received only while it is less than the ring behind.
\<close>

section \<open>Events (MarketData.h, Exchange.h)\<close>

datatype event_type =
  EvNone | EvResult | EvTicker | EvMiniTicker | EvBookTicker | EvTrade | EvAggTrade | EvMarkPrice | EvDepthUpdate

record ('p, 'q) depth =
  dp_bid :: "('p \<times> 'q) list"
  dp_ask :: "('p \<times> 'q) list"

record ('p, 'q) market_event =
  me_type :: event_type
  me_symbol :: "byte list"
  me_depth :: "('p, 'q) depth"

definition new_event :: "('p, 'q) market_event" where
  "new_event = \<lparr>me_type = EvNone, me_symbol = [], me_depth = \<lparr>dp_bid = [], dp_ask = []\<rparr>\<rparr>"

datatype exchange = Binance | ByBit | Deribit | GateIO | OKX

fun exchange_index :: "exchange \<Rightarrow> nat" where
  "exchange_index Binance = 0"
| "exchange_index ByBit = 1"
| "exchange_index Deribit = 2"
| "exchange_index GateIO = 3"
| "exchange_index OKX = 4"

section \<open>The book (PriceLevelBook)\<close>

record 'm price_level_book =
  pb_pair :: "byte list"
  pb_buyOrders :: 'm
  pb_sellOrders :: 'm

text \<open>One loop over the levels of a side: erase at quantity zero, otherwise \<open>emplace\<close>, which keeps the
  entry that is there.\<close>

definition level_loop :: "('m, 'p, 'q :: zero) level_ops \<Rightarrow> ('p \<times> 'q) list \<Rightarrow> 'm \<Rightarrow> 'm" where
  "level_loop ops lvls m =
     fold (\<lambda>(price, quantity) m.
       if quantity = 0 then snd (lo_erase ops price m) else snd (snd (lo_emplace ops price quantity m))) lvls m"

definition book_handleDepthUpdate ::
  "('m, 'p, 'q :: zero) level_ops \<Rightarrow> ('m, 'p, 'q) level_ops \<Rightarrow> ('p, 'q) depth
    \<Rightarrow> 'm price_level_book \<Rightarrow> 'm price_level_book" where
  "book_handleDepthUpdate bops sops d b =
     b\<lparr>pb_buyOrders := level_loop bops (dp_bid d) (pb_buyOrders b),
       pb_sellOrders := level_loop sops (dp_ask d) (pb_sellOrders b)\<rparr>"

definition processEvent ::
  "('m, 'p, 'q :: zero) level_ops \<Rightarrow> ('m, 'p, 'q) level_ops \<Rightarrow> ('p, 'q) market_event
    \<Rightarrow> 'm price_level_book \<Rightarrow> 'm price_level_book" where
  "processEvent bops sops event b =
     (case me_type event of
        EvDepthUpdate \<Rightarrow> book_handleDepthUpdate bops sops (me_depth event) b
      | _ \<Rightarrow> b)"

section \<open>The keepers and the engine (Engine.cpp)\<close>

text \<open>\<open>orderBooksByTicker\<close> maps a ticker to an owned book. \<open>operator[]\<close> with an unknown ticker inserts a
  null pointer, and the call through it is undefined: no result.\<close>

record ('m, 'p, 'q) book_keeper =
  bk_orderBooks :: "byte list \<rightharpoonup> 'm price_level_book"
  bk_queue :: "nat list"
  bk_event :: "('p, 'q) market_event"

definition tickers :: "byte list list" where
  "tickers = [text_of ''BTCUSDT'', text_of ''XRPUSDT'', text_of ''MEMEUSDT'']"

definition new_keeper ::
  "('m, 'p, 'q) level_ops \<Rightarrow> ('m, 'p, 'q) level_ops \<Rightarrow> ('m, 'p, 'q) book_keeper" where
  "new_keeper bops sops =
     \<lparr>bk_orderBooks = fold (\<lambda>ticker m. m(ticker \<mapsto>
          \<lparr>pb_pair = ticker, pb_buyOrders = lo_new bops, pb_sellOrders = lo_new sops\<rparr>)) tickers Map.empty,
      bk_queue = [], bk_event = new_event\<rparr>"

definition keeper_push :: "nat \<Rightarrow> ('m, 'p, 'q) book_keeper \<Rightarrow> ('m, 'p, 'q) book_keeper" where
  "keeper_push message k = k\<lparr>bk_queue := bk_queue k @ [message]\<rparr>"

text \<open>\<open>BlockingQueuePtr::pop\<close>, with the time-out as an empty queue.\<close>

definition queue_pop :: "('m, 'p, 'q) book_keeper \<Rightarrow> (nat \<times> ('m, 'p, 'q) book_keeper) option" where
  "queue_pop k = (case bk_queue k of [] \<Rightarrow> None | i # rest \<Rightarrow> Some (i, k\<lparr>bk_queue := rest\<rparr>))"

text \<open>What a keeper does with one message.\<close>

definition handle_message ::
  "('m, 'p, 'q :: zero) level_ops \<Rightarrow> ('m, 'p, 'q) level_ops
    \<Rightarrow> (byte list \<Rightarrow> ('p, 'q) market_event \<Rightarrow> ('p, 'q) market_event)
    \<Rightarrow> byte list \<Rightarrow> ('m, 'p, 'q) book_keeper \<Rightarrow> ('m, 'p, 'q) book_keeper option" where
  "handle_message bops sops parse message k =
    (let event = parse message (bk_event k); k1 = k\<lparr>bk_event := event\<rparr>
     in if me_type event = EvResult then Some k1
        else (case bk_orderBooks k1 (me_symbol event) of
                None \<Rightarrow> None
              | Some book \<Rightarrow>
                  Some (k1\<lparr>bk_orderBooks := (bk_orderBooks k1)(me_symbol event \<mapsto> processEvent bops sops event book)\<rparr>)))"

record ('m, 'p, 'q) pricing_engine =
  pe_binance :: "('m, 'p, 'q) book_keeper"
  pe_byBit :: "('m, 'p, 'q) book_keeper"

text \<open>\<open>books[static_cast<uint32_t>(exchange)]\<close>: an array of two pointers, indexed without a check.\<close>

definition engine_push ::
  "exchange \<Rightarrow> nat \<Rightarrow> ('m, 'p, 'q) pricing_engine \<Rightarrow> ('m, 'p, 'q) pricing_engine option" where
  "engine_push exchange message pe =
    (if exchange_index exchange = 0 then Some (pe\<lparr>pe_binance := keeper_push message (pe_binance pe)\<rparr>)
     else if exchange_index exchange = 1 then Some (pe\<lparr>pe_byBit := keeper_push message (pe_byBit pe)\<rparr>)
     else None)"

section \<open>The connector's loop (BinanceConnector.cpp)\<close>

definition bufferSize :: u32 where "bufferSize = 1024"

record connector =
  cn_counter :: i64
  cn_buffers :: "byte list list"

definition new_connector :: connector where
  "new_connector = \<lparr>cn_counter = 0, cn_buffers = replicate (unat bufferSize) []\<rparr>"

text \<open>One iteration: \<open>wsStream.read\<close> delivers a message, or throws after the buffer was cleared.\<close>

definition connector_iteration ::
  "byte list option \<Rightarrow> connector \<times> ('m, 'p, 'q) pricing_engine
    \<Rightarrow> (connector \<times> ('m, 'p, 'q) pricing_engine) option" where
  "connector_iteration read s =
    (let (c, pe) = s; slot = unat (fast_modulo (ucast (cn_counter c)) bufferSize)
     in case read of
          None \<Rightarrow> Some (c\<lparr>cn_buffers := (cn_buffers c)[slot := []]\<rparr>, pe)
        | Some message \<Rightarrow>
            (case engine_push Binance slot pe of
               None \<Rightarrow> None
             | Some pe' \<Rightarrow> Some (c\<lparr>cn_counter := cn_counter c + 1, cn_buffers := (cn_buffers c)[slot := message]\<rparr>, pe')))"

text \<open>One iteration of the Binance keeper's loop, reading the buffer as it is now.\<close>

definition keeper_iteration ::
  "('m, 'p, 'q :: zero) level_ops \<Rightarrow> ('m, 'p, 'q) level_ops
    \<Rightarrow> (byte list \<Rightarrow> ('p, 'q) market_event \<Rightarrow> ('p, 'q) market_event)
    \<Rightarrow> connector \<times> ('m, 'p, 'q) pricing_engine \<Rightarrow> (connector \<times> ('m, 'p, 'q) pricing_engine) option" where
  "keeper_iteration bops sops parse s =
    (let (c, pe) = s
     in case queue_pop (pe_binance pe) of
          None \<Rightarrow> Some (c, pe)
        | Some (slot, k) \<Rightarrow>
            map_option (\<lambda>k'. (c, pe\<lparr>pe_binance := k'\<rparr>))
              (handle_message bops sops parse (cn_buffers c ! slot) k))"

datatype pipeline_step = Receive "byte list option" | Handle

fun pipeline_run ::
  "('m, 'p, 'q :: zero) level_ops \<Rightarrow> ('m, 'p, 'q) level_ops
    \<Rightarrow> (byte list \<Rightarrow> ('p, 'q) market_event \<Rightarrow> ('p, 'q) market_event)
    \<Rightarrow> pipeline_step list \<Rightarrow> connector \<times> ('m, 'p, 'q) pricing_engine
    \<Rightarrow> (connector \<times> ('m, 'p, 'q) pricing_engine) option" where
  "pipeline_run bops sops parse [] s = Some s"
| "pipeline_run bops sops parse (Receive r # ops) s =
     Option.bind (connector_iteration r s) (pipeline_run bops sops parse ops)"
| "pipeline_run bops sops parse (Handle # ops) s =
     Option.bind (keeper_iteration bops sops parse s) (pipeline_run bops sops parse ops)"

section \<open>What the book keeps\<close>

text \<open>The effect of the loop on a side: a level keeps its first quantity until it is erased.\<close>

definition keep_first :: "'p \<times> 'q :: zero \<Rightarrow> ('p \<Rightarrow> 'q option) \<Rightarrow> 'p \<Rightarrow> 'q option" where
  "keep_first lvl L = (if snd lvl = 0 then L(fst lvl := None)
     else if L (fst lvl) = None then L(fst lvl \<mapsto> snd lvl) else L)"

locale loop_side = level_map ops lookup before invar
  for ops :: "('m, 'p, 'q :: zero) level_ops" and lookup before invar
begin

lemma level_loop_levels:
  "invar m \<Longrightarrow> invar (level_loop ops lvls m) \<and> lookup (level_loop ops lvls m) = fold keep_first lvls (lookup m)"
proof (induction lvls arbitrary: m)
  case (Cons lvl lvls)
  obtain p q where lvl: "lvl = (p, q)" by (cases lvl)
  let ?m = "if q = 0 then snd (lo_erase ops p m) else snd (snd (lo_emplace ops p q m))"
  have "invar ?m \<and> lookup ?m = keep_first lvl (lookup m)"
    using erase_eq [OF Cons.prems, of p] emplace_present [OF Cons.prems, of p q] emplace_new [OF Cons.prems, of p q]
    by (cases "lookup m p") (use Cons.prems in \<open>auto simp: lvl keep_first_def\<close>)
  with Cons.IH [of ?m] show ?case by (simp add: level_loop_def lvl)
qed (simp add: level_loop_def)

end

interpretation ascending: key_order "(<) :: 'p :: linorder \<Rightarrow> 'p \<Rightarrow> bool"
  by standard auto

interpretation descending: key_order "(>) :: 'p :: linorder \<Rightarrow> 'p \<Rightarrow> bool"
  by standard auto

interpretation sell_side: loop_side "seq_ops (<) :: (('p :: linorder \<times> 'q :: zero) list, 'p, 'q) level_ops"
  map_of "(<)" "seq_sorted (<)" ..

interpretation buy_side: loop_side "seq_ops (>) :: (('p :: linorder \<times> 'q :: zero) list, 'p, 'q) level_ops"
  map_of "(>)" "seq_sorted (>)" ..

section \<open>The ring of buffers\<close>

fun delivered :: "pipeline_step list \<Rightarrow> byte list list \<Rightarrow> byte list list" where
  "delivered [] q = []"
| "delivered (Receive None # ops) q = delivered ops q"
| "delivered (Receive (Some m) # ops) q = delivered ops (q @ [m])"
| "delivered (Handle # ops) [] = delivered ops []"
| "delivered (Handle # ops) (m # q) = m # delivered ops q"

text \<open>The keeper is never a whole ring behind when it handles a message.\<close>

fun keeps_up :: "pipeline_step list \<Rightarrow> nat \<Rightarrow> bool" where
  "keeps_up [] lag = True"
| "keeps_up (Receive None # ops) lag = keeps_up ops lag"
| "keeps_up (Receive (Some m) # ops) lag = keeps_up ops (lag + 1)"
| "keeps_up (Handle # ops) lag = (lag < 1024 \<and> keeps_up ops (lag - 1))"

fun handle_all ::
  "('m, 'p, 'q :: zero) level_ops \<Rightarrow> ('m, 'p, 'q) level_ops
    \<Rightarrow> (byte list \<Rightarrow> ('p, 'q) market_event \<Rightarrow> ('p, 'q) market_event)
    \<Rightarrow> byte list list \<Rightarrow> ('m, 'p, 'q) book_keeper \<Rightarrow> ('m, 'p, 'q) book_keeper option" where
  "handle_all bops sops parse [] k = Some k"
| "handle_all bops sops parse (m # ms) k =
     Option.bind (handle_message bops sops parse m k) (handle_all bops sops parse ms)"

definition same_books :: "('m, 'p, 'q) book_keeper \<Rightarrow> ('m, 'p, 'q) book_keeper \<Rightarrow> bool" where
  "same_books k l \<longleftrightarrow> bk_orderBooks k = bk_orderBooks l \<and> bk_event k = bk_event l"

definition ring_inv :: "byte list list \<Rightarrow> nat \<Rightarrow> connector \<Rightarrow> ('m, 'p, 'q) book_keeper \<Rightarrow> bool" where
  "ring_inv received h c k \<longleftrightarrow> h \<le> length received
     \<and> cn_counter c = of_nat (length received) \<and> length (cn_buffers c) = 1024
     \<and> (\<forall>i<length received. length received < i + 1024 \<longrightarrow> cn_buffers c ! (i mod 1024) = received ! i)
     \<and> bk_queue k = map (\<lambda>i. i mod 1024) [h..<length received]"

lemma slot_of_counter: "unat (fast_modulo (ucast (of_nat n :: i64)) bufferSize) = n mod 1024"
proof -
  have "is_pow_of_2 bufferSize" by (simp add: is_pow_of_2_def bufferSize_def)
  then have "unat (fast_modulo (ucast (of_nat n :: i64)) bufferSize) = unat (ucast (of_nat n :: i64) :: u32) mod 1024"
    by (simp add: unat_fast_modulo bufferSize_def)
  also have "unat (ucast (of_nat n :: i64) :: u32) = n mod 2 ^ 64 mod 2 ^ 32"
    by (simp add: unsigned_ucast_eq unat_of_nat take_bit_eq_mod)
  also have "n mod 2 ^ 64 mod 2 ^ 32 mod 1024 = n mod (1024 :: nat)"
    by (simp add: mod_mod_cancel)
  finally show ?thesis .
qed

lemma same_books_message:
  assumes "same_books k l"
  shows "case handle_message bops sops parse m k of
      None \<Rightarrow> handle_message bops sops parse m l = None
    | Some k' \<Rightarrow> bk_queue k' = bk_queue k \<and> (\<exists>l'. handle_message bops sops parse m l = Some l' \<and> same_books k' l')"
  using assms by (auto simp: same_books_def handle_message_def Let_def split: option.split)


lemma ring_inv_queue:
  assumes "ring_inv received h c k"
  shows "queue_pop k = (if h < length received
      then Some (h mod 1024, k\<lparr>bk_queue := map (\<lambda>i. i mod 1024) [Suc h..<length received]\<rparr>) else None)"
  using assms by (auto simp: ring_inv_def queue_pop_def upt_conv_Cons simp del: upt_Suc)

lemma ring_inv_receive:
  assumes "ring_inv received h c (pe_binance pe)"
  shows "\<exists>c' pe'. connector_iteration (Some m) (c, pe) = Some (c', pe')
    \<and> ring_inv (received @ [m]) h c' (pe_binance pe') \<and> same_books (pe_binance pe) (pe_binance pe')"
proof -
  have "(cn_buffers c)[length received mod 1024 := m] ! (i mod 1024) = (received @ [m]) ! i"
    if "i < length received + 1" "length received + 1 < i + 1024" for i
  proof (cases "i = length received")
    case True
    then show ?thesis using assms by (simp add: ring_inv_def)
  next
    case False
    with that have "i < length received" "length received < i + 1024" by simp_all
    moreover have "i mod 1024 \<noteq> length received mod 1024"
    proof
      assume "i mod 1024 = length received mod 1024"
      then have "(length received - i) mod 1024 = 0"
        using \<open>i < length received\<close> by (metis less_imp_le mod_eq_dvd_iff_nat mod_0_imp_dvd dvd_imp_mod_0)
      then show False using \<open>i < length received\<close> that by auto
    qed
    ultimately show ?thesis using assms by (simp add: ring_inv_def nth_append)
  qed
  with assms show ?thesis
    by (simp add: connector_iteration_def Let_def engine_push_def keeper_push_def ring_inv_def
        slot_of_counter same_books_def del: upt_Suc) (simp add: slot_of_counter)
qed

lemma ring_inv_failed_read:
  assumes "ring_inv received h c k"
  shows "ring_inv received h (c\<lparr>cn_buffers := (cn_buffers c)[length received mod 1024 := []]\<rparr>) k"
proof -
  have "(cn_buffers c)[length received mod 1024 := []] ! (i mod 1024) = received ! i"
    if "i < length received" "length received < i + 1024" for i
  proof -
    have "length received mod 1024 \<noteq> i mod 1024"
    proof
      assume "length received mod 1024 = i mod 1024"
      then have "(length received - i) mod 1024 = 0"
        using that(1) by (metis less_imp_le mod_eq_dvd_iff_nat dvd_imp_mod_0)
      then show False using that by auto
    qed
    with that assms show ?thesis by (simp add: ring_inv_def)
  qed
  with assms show ?thesis by (simp add: ring_inv_def)
qed

lemma ring_inv_handled:
  "ring_inv received h c k \<Longrightarrow> h < length received \<Longrightarrow> bk_queue k' = map (\<lambda>i. i mod 1024) [Suc h..<length received] \<Longrightarrow>
   ring_inv received (Suc h) c k'"
  by (simp add: ring_inv_def)

lemma pipeline_run_delivers:
  assumes "ring_inv received h c (pe_binance pe)" "keeps_up ops (length received - h)" "same_books (pe_binance pe) l"
  shows "case handle_all bops sops parse (delivered ops (drop h received)) l of
      None \<Rightarrow> pipeline_run bops sops parse ops (c, pe) = None
    | Some l' \<Rightarrow> \<exists>c' pe'. pipeline_run bops sops parse ops (c, pe) = Some (c', pe') \<and> same_books (pe_binance pe') l'"
  using assms
proof (induction ops arbitrary: received h c pe l)
  case Nil
  then show ?case by simp
next
  case (Cons op ops)
  note inv = Cons.prems(1)
  have le: "h \<le> length received" using inv by (simp add: ring_inv_def)
  show ?case
  proof (cases op)
    case (Receive r)
    show ?thesis
    proof (cases r)
      case None
      have "connector_iteration None (c, pe) = Some (c\<lparr>cn_buffers := (cn_buffers c)[length received mod 1024 := []]\<rparr>, pe)"
        using inv by (simp add: connector_iteration_def Let_def ring_inv_def slot_of_counter)
      then have run: "pipeline_run bops sops parse (op # ops) (c, pe)
          = pipeline_run bops sops parse ops (c\<lparr>cn_buffers := (cn_buffers c)[length received mod 1024 := []]\<rparr>, pe)"
        by (simp add: Receive None)
      show ?thesis
        using Cons.IH [OF ring_inv_failed_read [OF inv] _ Cons.prems(3)] Cons.prems(2)
        unfolding run by (simp add: Receive None)
    next
      case (Some m)
      from ring_inv_receive [OF inv, of m] obtain c' pe' where step: "connector_iteration (Some m) (c, pe) = Some (c', pe')"
        "ring_inv (received @ [m]) h c' (pe_binance pe')" "same_books (pe_binance pe) (pe_binance pe')" by blast
      have "same_books (pe_binance pe') l" using step(3) Cons.prems(3) by (simp add: same_books_def)
      have run: "pipeline_run bops sops parse (op # ops) (c, pe) = pipeline_run bops sops parse ops (c', pe')"
        using step(1) by (simp add: Receive Some)
      from Cons.IH [OF step(2) _ \<open>same_books (pe_binance pe') l\<close>] Cons.prems(2) le show ?thesis
        unfolding run by (simp add: Receive Some Suc_diff_le)
    qed
  next
    case Handle
    show ?thesis
    proof (cases "h < length received")
      case False
      then have "keeper_iteration bops sops parse (c, pe) = Some (c, pe)" "drop h received = []" "length received - h = 0"
        using ring_inv_queue [OF inv] by (simp_all add: keeper_iteration_def)
      then have run: "pipeline_run bops sops parse (op # ops) (c, pe) = pipeline_run bops sops parse ops (c, pe)"
        by (simp add: Handle)
      from Cons.IH [OF inv _ Cons.prems(3)] Cons.prems(2) False show ?thesis
        unfolding run by (simp add: Handle)
    next
      case True
      let ?k = "(pe_binance pe)\<lparr>bk_queue := map (\<lambda>i. i mod 1024) [Suc h..<length received]\<rparr>"
      have lag: "length received < h + 1024" using Cons.prems(2) Handle True by auto
      have msg: "cn_buffers c ! (h mod 1024) = received ! h" using inv True lag by (simp add: ring_inv_def)
      have iter: "keeper_iteration bops sops parse (c, pe)
          = map_option (\<lambda>k'. (c, pe\<lparr>pe_binance := k'\<rparr>)) (handle_message bops sops parse (received ! h) ?k)"
        using ring_inv_queue [OF inv] True by (simp add: keeper_iteration_def msg)
      have dr: "drop h received = received ! h # drop (Suc h) received" using True by (simp add: Cons_nth_drop_Suc)
      have "same_books ?k l" using Cons.prems(3) by (simp add: same_books_def)
      note msg_step = same_books_message [OF this, of bops sops parse "received ! h"]
      show ?thesis
      proof (cases "handle_message bops sops parse (received ! h) ?k")
        case None
        with msg_step iter show ?thesis by (simp add: Handle dr)
      next
        case (Some k')
        with msg_step obtain l' where l': "handle_message bops sops parse (received ! h) l = Some l'"
          "same_books k' l'" "bk_queue k' = map (\<lambda>i. i mod 1024) [Suc h..<length received]" by auto
        have "ring_inv received (Suc h) c (pe_binance (pe\<lparr>pe_binance := k'\<rparr>))"
          using ring_inv_handled [OF inv True, of k'] l'(3) by simp
        moreover have "keeps_up ops (length received - Suc h)" using Cons.prems(2) Handle by simp
        moreover have run: "pipeline_run bops sops parse (op # ops) (c, pe)
            = pipeline_run bops sops parse ops (c, pe\<lparr>pe_binance := k'\<rparr>)"
          using iter Some by (simp add: Handle)
        ultimately show ?thesis
          using Cons.IH [of received "Suc h" c "pe\<lparr>pe_binance := k'\<rparr>" l'] l'(1,2)
          unfolding run by (simp add: Handle dr)
      qed
    qed
  qed
qed


definition new_pricing_engine ::
  "('m, 'p, 'q) level_ops \<Rightarrow> ('m, 'p, 'q) level_ops \<Rightarrow> ('m, 'p, 'q) pricing_engine" where
  "new_pricing_engine bops sops = \<lparr>pe_binance = new_keeper bops sops, pe_byBit = new_keeper bops sops\<rparr>"

lemma ring_inv_new: "ring_inv [] 0 new_connector (pe_binance (new_pricing_engine bops sops))"
  by (simp add: ring_inv_def new_connector_def new_pricing_engine_def new_keeper_def bufferSize_def)

lemma receive_all:
  "ring_inv received h c (pe_binance pe) \<Longrightarrow>
   \<exists>c' pe'. pipeline_run bops sops parse (map (\<lambda>m. Receive (Some m)) ms) (c, pe) = Some (c', pe')
     \<and> ring_inv (received @ ms) h c' (pe_binance pe')"
proof (induction ms arbitrary: received c pe)
  case (Cons m ms)
  from ring_inv_receive [OF Cons.prems, of m] obtain c' pe' where
    "connector_iteration (Some m) (c, pe) = Some (c', pe')" "ring_inv (received @ [m]) h c' (pe_binance pe')" by blast
  with Cons.IH [of "received @ [m]" c' pe'] show ?case by simp
qed auto

lemma keeper_tickers: "handle_all bops sops parse ms k = Some k' \<Longrightarrow> dom (bk_orderBooks k') = dom (bk_orderBooks k)"
proof (induction ms arbitrary: k)
  case (Cons m ms)
  then obtain k1 where k1: "handle_message bops sops parse m k = Some k1" "handle_all bops sops parse ms k1 = Some k'"
    by (auto simp: bind_eq_Some_conv)
  have "dom (bk_orderBooks k1) = dom (bk_orderBooks k)"
    using k1(1) by (auto simp: handle_message_def Let_def split: if_splits option.splits)
  with Cons.IH [OF k1(2)] show ?case by simp
qed simp

section \<open>Properties\<close>

text \<open>
  C23. While the keeper is less than a whole ring behind at each message it handles, it handles
  exactly the messages the connector received, unchanged and in order, whatever reads fail in
  between: its books and its last event are those of handling the received messages directly.
\<close>

theorem keeper_sees_received_messages:
  assumes "keeps_up ops 0"
  shows "case handle_all bops sops parse (delivered ops []) (new_keeper bops sops) of
      None \<Rightarrow> pipeline_run bops sops parse ops (new_connector, new_pricing_engine bops sops) = None
    | Some k \<Rightarrow> \<exists>c pe. pipeline_run bops sops parse ops (new_connector, new_pricing_engine bops sops) = Some (c, pe)
        \<and> bk_orderBooks (pe_binance pe) = bk_orderBooks k \<and> bk_event (pe_binance pe) = bk_event k"
proof -
  have "same_books (pe_binance (new_pricing_engine bops sops)) (new_keeper bops sops)"
    by (simp add: same_books_def new_pricing_engine_def)
  from pipeline_run_delivers [where ops = ops and parse = parse and bops = bops and sops = sops, OF ring_inv_new _ this] assms show ?thesis
    unfolding same_books_def by simp
qed

theorem keeper_sees_received_messages_witness:
  "\<exists>c pe. pipeline_run (seq_ops (>)) (seq_ops (<)) (\<lambda>m e. new_event\<lparr>me_type := EvResult, me_symbol := m\<rparr>)
      [Receive (Some [1]), Receive None, Receive (Some [2]), Handle]
      (new_connector, new_pricing_engine (seq_ops (>)) (seq_ops (<))) = Some (c, pe)
    \<and> me_symbol (bk_event (pe_binance pe) :: (nat, nat) market_event) = [1]"
proof -
  have "keeps_up [Receive (Some [1]), Receive None, Receive (Some [2]), Handle] 0" by simp
  from keeper_sees_received_messages [OF this, of "seq_ops (>)" "seq_ops (<)"
      "\<lambda>m e. new_event\<lparr>me_type := EvResult, me_symbol := m\<rparr>"] show ?thesis
    by (fastforce simp: handle_message_def simp del: pipeline_run.simps)
qed

text \<open>
  When the connector is further ahead than the ring has buffers, the first message the keeper
  takes from its queue is not the first received but one a multiple of the ring's size later: the
  pointer in the queue leads to a buffer that was filled again.
\<close>

theorem overrun_ring_shows_later_message:
  assumes "1024 < length ms" "length ms mod 1024 \<noteq> 0"
  shows "\<exists>c pe k. pipeline_run bops sops parse (map (\<lambda>m. Receive (Some m)) ms)
        (new_connector, new_pricing_engine bops sops) = Some (c, pe)
      \<and> queue_pop (pe_binance pe) = Some (0, k)
      \<and> cn_buffers c ! 0 = ms ! (1024 * (length ms div 1024))"
proof -
  obtain c pe where
    run: "pipeline_run bops sops parse (map (\<lambda>m. Receive (Some m)) ms) (new_connector, new_pricing_engine bops sops) = Some (c, pe)"
    and inv: "ring_inv ms 0 c (pe_binance pe)"
    using receive_all [where ms = ms and bops = bops and sops = sops and parse = parse,
        OF ring_inv_new [where bops = bops and sops = sops]]
    unfolding append_Nil by blast
  have "1024 * (length ms div 1024) + length ms mod 1024 = length ms" by simp
  moreover have "length ms mod 1024 < 1024" by simp
  ultimately have "1024 * (length ms div 1024) < length ms" "length ms < 1024 * (length ms div 1024) + 1024"
    using assms(2) by linarith+
  with inv have "cn_buffers c ! (1024 * (length ms div 1024) mod 1024) = ms ! (1024 * (length ms div 1024))"
    by (simp only: ring_inv_def)
  with run ring_inv_queue [OF inv] assms(1) show ?thesis by (cases "ms = []") simp_all
qed

theorem overrun_ring_shows_later_message_witness:
  "\<exists>c pe k. pipeline_run (seq_ops (>)) (seq_ops (<)) (\<lambda>m e. (new_event :: (nat, nat) market_event))
       (map (\<lambda>m. Receive (Some m)) (replicate 1024 [7] @ [[8]]))
       (new_connector, new_pricing_engine (seq_ops (>)) (seq_ops (<))) = Some (c, pe)
     \<and> queue_pop (pe_binance pe) = Some (0, k) \<and> cn_buffers c ! 0 = [8]"
proof -
  have "1024 < length (replicate 1024 [7] @ [[8 :: byte]])" "length (replicate 1024 [7] @ [[8 :: byte]]) mod 1024 \<noteq> 0"
    by simp_all
  from overrun_ring_shows_later_message [OF this, of "seq_ops (>)" "seq_ops (<)" "\<lambda>m e. (new_event :: (nat, nat) market_event)"]
  show ?thesis by (simp add: nth_append)
qed

text \<open>
  The two unchecked lookups: a keeper fails on a message exactly when it is no result message and
  its symbol is none of the three tickers, however many messages it has handled before; and the
  engine can route the messages of two of the five exchanges only.
\<close>

theorem unknown_symbol_or_exchange_fails:
  assumes "handle_all bops sops parse ms (new_keeper bops sops) = Some k"
  shows "(handle_message bops sops parse m k = None \<longleftrightarrow>
      me_type (parse m (bk_event k)) \<noteq> EvResult \<and> me_symbol (parse m (bk_event k)) \<notin> set tickers)
    \<and> (engine_push exchange slot pe = None \<longleftrightarrow> exchange \<in> {Deribit, GateIO, OKX})"
proof -
  have "dom (bk_orderBooks (new_keeper bops sops)) = set tickers"
    by (auto simp: new_keeper_def tickers_def dom_def)
  with keeper_tickers [OF assms] have "me_symbol (parse m (bk_event k)) \<notin> set tickers \<longleftrightarrow>
      bk_orderBooks k (me_symbol (parse m (bk_event k))) = None" by (metis domIff)
  then show ?thesis
    by (cases exchange) (simp_all add: handle_message_def Let_def engine_push_def split: option.split)
qed

theorem unknown_symbol_or_exchange_fails_witness:
  "handle_message (seq_ops (>)) (seq_ops (<)) (\<lambda>m e. new_event\<lparr>me_type := EvDepthUpdate, me_symbol := m\<rparr>)
     (text_of ''ETHUSDT'') (new_keeper (seq_ops (>)) (seq_ops (<)) :: ((nat \<times> nat) list, nat, nat) book_keeper) = None"
proof -
  let ?parse = "\<lambda>m e. (new_event :: (nat, nat) market_event)\<lparr>me_type := EvDepthUpdate, me_symbol := m\<rparr>"
  have run: "handle_all (seq_ops (>)) (seq_ops (<)) ?parse [] (new_keeper (seq_ops (>)) (seq_ops (<)))
    = Some (new_keeper (seq_ops (>)) (seq_ops (<)))" by simp
  have "text_of ''ETHUSDT'' \<notin> set tickers" by code_simp
  then show ?thesis
    using unknown_symbol_or_exchange_fails [OF run, of "text_of ''ETHUSDT''" Binance 0
        "new_pricing_engine (seq_ops (>)) (seq_ops (<)) :: ((nat \<times> nat) list, nat, nat) pricing_engine"]
    by (simp del: list.map)
qed

text \<open>
  A run of depth updates on one side of the book erases a level at quantity zero and otherwise
  keeps the quantity the level was first given: an update of a level that is there changes nothing.
\<close>

theorem price_level_book_keeps_first_quantity:
  assumes "loop_side ops lookup key_before invar" "invar m"
  shows "lookup (level_loop ops lvls m) = fold keep_first lvls (lookup m)
    \<and> (if q \<noteq> 0 \<and> lookup m p = Some q0 then lookup (level_loop ops [(p, q)] m) p = Some q0 else True)"
  using loop_side.level_loop_levels [OF assms] by (simp add: keep_first_def)

theorem price_level_book_keeps_first_quantity_witness:
  "map_of (level_loop (seq_ops (>)) [(7 :: nat, 2 :: nat), (7, 5), (8, 1), (8, 0)] []) = [7 \<mapsto> 2]"
  using price_level_book_keeps_first_quantity [OF buy_side.loop_side_axioms, of "[]" "[(7 :: nat, 2 :: nat), (7, 5), (8, 1), (8, 0)]" 0 0 0]
  by (simp add: seq_sorted_def keep_first_def fun_eq_iff)

end
