(* ===== verification/Price_Ladder.thy ===== *)
theory Price_Ladder
  imports Prelude
begin

text \<open>
  The price ladder of \<open>Collection/PriceLevels/PriceLevelStorage_2.cpp\<close>: one level per price tick in an
  array, the orders of a level in an intrusive doubly linked list, the levels seen from both sides,
  an index of the orders by id. \<open>PriceLevelStorage_1.cpp\<close> has the same list, level and ladder
  without the sides; its two functions that differ are at the end.

  Orders are shared mutable objects: \<open>ld_orders\<close> is the store, an \<open>Order*\<close> an address (\<open>None\<close> is the
  null pointer), and a read through a pointer that leads to no object has no result. A \<open>PriceLevel*\<close>
  is an index into the array of levels, which never moves after the constructor. The loops of the
  constructor count with a 64-bit price and may run for ever, and so may a walk along the links; they
  are partial functions whose value \<open>None\<close> means that they do not return. The constructor is
  \<open>noexcept\<close> and reserves the levels first: a number of levels beyond the largest size of a vector
  ends the program, which has no result either. Otherwise memory is taken to suffice.
\<close>

type_synonym addr = nat

datatype order_side2 = Buy | Sell

record ladder_order =
  od_prev :: "addr option"
  od_next :: "addr option"
  od_orderId :: u64
  od_priceTick :: u64
  od_volume :: u64
  od_timestampNs :: u64
  od_side :: order_side2
  od_level :: "nat option"

type_synonym order_store = "addr \<Rightarrow> ladder_order option"

record ladder_level =
  lv_priceTick :: u64
  lv_totalVolume :: u64
  lv_head :: "addr option"
  lv_tail :: "addr option"

definition new_level :: "u64 \<Rightarrow> ladder_level" where
  "new_level price = \<lparr>lv_priceTick = price, lv_totalVolume = 0, lv_head = None, lv_tail = None\<rparr>"

section \<open>The memory pool (MemoryPool)\<close>

text \<open>\<open>malloc\<close> is the argument: it picks a fresh address for the addresses handed out so far.\<close>

record memory_pool =
  mp_free_list :: "addr list"
  mp_used :: "addr list"

definition pool_allocate :: "(addr list \<Rightarrow> addr) \<Rightarrow> memory_pool \<Rightarrow> addr \<times> memory_pool" where
  "pool_allocate malloc p =
    (if mp_free_list p = [] then (let a = malloc (mp_used p) in (a, p\<lparr>mp_used := a # mp_used p\<rparr>))
     else (last (mp_free_list p), p\<lparr>mp_free_list := butlast (mp_free_list p)\<rparr>))"

definition pool_deallocate :: "addr \<Rightarrow> memory_pool \<Rightarrow> memory_pool" where
  "pool_deallocate ptr p = p\<lparr>mp_free_list := mp_free_list p @ [ptr]\<rparr>"

section \<open>A level's list (PriceLevel)\<close>

text \<open>\<open>li\<close> is the level the method is called on, \<open>lv\<close> its value.\<close>

definition level_addOrder ::
  "nat \<Rightarrow> addr \<Rightarrow> ladder_level \<Rightarrow> order_store \<Rightarrow> (ladder_level \<times> order_store) option" where
  "level_addOrder li a lv h =
    (case h a of
       None \<Rightarrow> None
     | Some ord \<Rightarrow>
         let h1 = h(a \<mapsto> ord\<lparr>od_level := Some li, od_prev := lv_tail lv, od_next := None\<rparr>) in
         (case lv_tail lv of
            None \<Rightarrow> Some (lv\<lparr>lv_head := Some a, lv_tail := Some a,
                            lv_totalVolume := lv_totalVolume lv + od_volume ord\<rparr>, h1)
          | Some t \<Rightarrow>
              (case h1 t of
                 None \<Rightarrow> None
               | Some last_order \<Rightarrow>
                   Some (lv\<lparr>lv_tail := Some a, lv_totalVolume := lv_totalVolume lv + od_volume ord\<rparr>,
                         h1(t \<mapsto> last_order\<lparr>od_next := Some a\<rparr>)))))"

text \<open>\<open>removeOrder\<close>: the two links around the order are set one after the other.\<close>

definition unlink_prev ::
  "addr \<Rightarrow> ladder_level \<Rightarrow> order_store \<Rightarrow> (ladder_level \<times> order_store) option" where
  "unlink_prev a lv h =
    (case h a of
       None \<Rightarrow> None
     | Some ord \<Rightarrow>
         (case od_prev ord of
            None \<Rightarrow> Some (lv\<lparr>lv_head := od_next ord\<rparr>, h)
          | Some p \<Rightarrow>
              (case h p of
                 None \<Rightarrow> None
               | Some po \<Rightarrow> Some (lv, h(p \<mapsto> po\<lparr>od_next := od_next ord\<rparr>)))))"

definition unlink_next ::
  "addr \<Rightarrow> ladder_level \<Rightarrow> order_store \<Rightarrow> (ladder_level \<times> order_store) option" where
  "unlink_next a lv h =
    (case h a of
       None \<Rightarrow> None
     | Some ord \<Rightarrow>
         (case od_next ord of
            None \<Rightarrow> Some (lv\<lparr>lv_tail := od_prev ord\<rparr>, h)
          | Some n \<Rightarrow>
              (case h n of
                 None \<Rightarrow> None
               | Some no \<Rightarrow> Some (lv, h(n \<mapsto> no\<lparr>od_prev := od_prev ord\<rparr>)))))"

definition clear_links ::
  "addr \<Rightarrow> ladder_level \<Rightarrow> order_store \<Rightarrow> (ladder_level \<times> order_store) option" where
  "clear_links a lv h =
    (case h a of
       None \<Rightarrow> None
     | Some ord \<Rightarrow> Some (lv\<lparr>lv_totalVolume := lv_totalVolume lv - od_volume ord\<rparr>,
                         h(a \<mapsto> ord\<lparr>od_level := None, od_prev := None, od_next := None\<rparr>)))"

definition level_removeOrder ::
  "addr \<Rightarrow> ladder_level \<Rightarrow> order_store \<Rightarrow> (ladder_level \<times> order_store) option" where
  "level_removeOrder a lv h =
    Option.bind (unlink_prev a lv h) (\<lambda>(lv1, h1).
      Option.bind (unlink_next a lv1 h1) (\<lambda>(lv2, h2). clear_links a lv2 h2))"

definition getBestOrder :: "ladder_level \<Rightarrow> addr option" where
  "getBestOrder lv = lv_head lv"

definition level_isEmpty :: "ladder_level \<Rightarrow> bool" where
  "level_isEmpty lv \<longleftrightarrow> lv_head lv = None"

text \<open>The walks; the result is \<open>None\<close> if the walk does not end or leaves the store.\<close>

partial_function (option) hasOrdersOfSide :: "order_side2 \<Rightarrow> order_store \<Rightarrow> addr option \<Rightarrow> bool option" where
  "hasOrdersOfSide s h current =
    (case current of
       None \<Rightarrow> Some False
     | Some a \<Rightarrow>
         (case h a of
            None \<Rightarrow> None
          | Some ord \<Rightarrow> if od_side ord = s then Some True else hasOrdersOfSide s h (od_next ord)))"

partial_function (option) volume_walk :: "order_side2 \<Rightarrow> order_store \<Rightarrow> addr option \<Rightarrow> u64 \<Rightarrow> u64 option" where
  "volume_walk s h current volume =
    (case current of
       None \<Rightarrow> Some volume
     | Some a \<Rightarrow>
         (case h a of
            None \<Rightarrow> None
          | Some ord \<Rightarrow>
              volume_walk s h (od_next ord) (if od_side ord = s then volume + od_volume ord else volume)))"

definition getVolumeBySide :: "order_side2 \<Rightarrow> order_store \<Rightarrow> ladder_level \<Rightarrow> u64 option" where
  "getVolumeBySide s h lv = volume_walk s h (lv_head lv) 0"

definition hasBuyOrders :: "order_store \<Rightarrow> ladder_level \<Rightarrow> bool option" where
  "hasBuyOrders h lv = hasOrdersOfSide Buy h (lv_head lv)"

definition hasSellOrders :: "order_store \<Rightarrow> ladder_level \<Rightarrow> bool option" where
  "hasSellOrders h lv = hasOrdersOfSide Sell h (lv_head lv)"

definition getBuyVolume :: "order_store \<Rightarrow> ladder_level \<Rightarrow> u64 option" where
  "getBuyVolume h lv = getVolumeBySide Buy h lv"

definition getSellVolume :: "order_store \<Rightarrow> ladder_level \<Rightarrow> u64 option" where
  "getSellVolume h lv = getVolumeBySide Sell h lv"

section \<open>The ladder (PriceLadder)\<close>

record price_ladder =
  ld_minPriceTick :: u64
  ld_maxPriceTick :: u64
  ld_numLevels :: u64
  ld_levels :: "ladder_level list"
  ld_bidLevels :: "nat list"
  ld_askLevels :: "nat list"
  ld_orderIndex :: "u64 \<Rightarrow> addr option"
  ld_orders :: order_store

partial_function (option) ascending_loop ::
  "(u64 \<Rightarrow> 'a) \<Rightarrow> u64 \<Rightarrow> u64 \<Rightarrow> 'a list \<Rightarrow> 'a list option" where
  "ascending_loop f price maxPriceTick acc =
    (if price \<le> maxPriceTick then ascending_loop f (price + 1) maxPriceTick (acc @ [f price]) else Some acc)"

partial_function (option) descending_loop ::
  "(u64 \<Rightarrow> 'a) \<Rightarrow> u64 \<Rightarrow> u64 \<Rightarrow> 'a list \<Rightarrow> 'a list option" where
  "descending_loop f price minPriceTick acc =
    (if price \<ge> minPriceTick then descending_loop f (price - 1) minPriceTick (acc @ [f price]) else Some acc)"

text \<open>The largest size of a \<open>std::vector\<close> of levels, of 32 bytes each: \<open>PTRDIFF_MAX / 32\<close>. The later
  vectors hold pointers, whose limit is larger.\<close>

definition max_levels :: nat where "max_levels = 2 ^ 58 - 1"

definition new_ladder :: "u64 \<Rightarrow> u64 \<Rightarrow> order_store \<Rightarrow> price_ladder option" where
  "new_ladder minPriceTick maxPriceTick h =
    (if unat (maxPriceTick - minPriceTick + 1) > max_levels then None else
    Option.bind (ascending_loop new_level minPriceTick maxPriceTick []) (\<lambda>levels.
      Option.bind (descending_loop (\<lambda>price. unat (price - minPriceTick)) maxPriceTick minPriceTick []) (\<lambda>bidLevels.
        Option.bind (ascending_loop (\<lambda>price. unat (price - minPriceTick)) minPriceTick maxPriceTick []) (\<lambda>askLevels.
          Some \<lparr>ld_minPriceTick = minPriceTick, ld_maxPriceTick = maxPriceTick,
                ld_numLevels = maxPriceTick - minPriceTick + 1, ld_levels = levels,
                ld_bidLevels = bidLevels, ld_askLevels = askLevels, ld_orderIndex = Map.empty, ld_orders = h\<rparr>))))"

text \<open>\<open>getLevel\<close> indexes without a check.\<close>

definition getLevel :: "u64 \<Rightarrow> price_ladder \<Rightarrow> nat option" where
  "getLevel priceTick l =
    (let index = unat (priceTick - ld_minPriceTick l) in if index < length (ld_levels l) then Some index else None)"

definition ladder_addOrder :: "addr \<Rightarrow> price_ladder \<Rightarrow> price_ladder option" where
  "ladder_addOrder a l =
    Option.bind (ld_orders l a) (\<lambda>ord.
      Option.bind (getLevel (od_priceTick ord) l) (\<lambda>li.
        Option.bind (level_addOrder li a (ld_levels l ! li) (ld_orders l)) (\<lambda>(lv, h).
          Some (l\<lparr>ld_levels := (ld_levels l)[li := lv], ld_orders := h,
                  ld_orderIndex := (if ld_orderIndex l (od_orderId ord) = None
                     then (ld_orderIndex l)(od_orderId ord \<mapsto> a) else ld_orderIndex l)\<rparr>))))"

definition ladder_removeOrder :: "addr \<Rightarrow> price_ladder \<Rightarrow> price_ladder option" where
  "ladder_removeOrder a l =
    Option.bind (ld_orders l a) (\<lambda>ord.
      Option.bind (od_level ord) (\<lambda>li.
        Option.bind (level_removeOrder a (ld_levels l ! li) (ld_orders l)) (\<lambda>(lv, h).
          Some (l\<lparr>ld_levels := (ld_levels l)[li := lv], ld_orders := h,
                  ld_orderIndex := (ld_orderIndex l)(od_orderId ord := None)\<rparr>))))"

definition modifyOrderVolume :: "addr \<Rightarrow> u64 \<Rightarrow> price_ladder \<Rightarrow> price_ladder option" where
  "modifyOrderVolume a newVolume l =
    Option.bind (ld_orders l a) (\<lambda>ord.
      Option.bind (od_level ord) (\<lambda>li.
        let lv = ld_levels l ! li; total = lv_totalVolume lv - od_volume ord in
        Some (l\<lparr>ld_levels := (ld_levels l)[li := lv\<lparr>lv_totalVolume := total + newVolume\<rparr>],
                ld_orders := (ld_orders l)(a \<mapsto> ord\<lparr>od_volume := newVolume\<rparr>)\<rparr>)))"

definition findOrder :: "u64 \<Rightarrow> price_ladder \<Rightarrow> addr option" where
  "findOrder orderId l = ld_orderIndex l orderId"

text \<open>The scans over the levels of a side: the level at the given depth among those with orders of
  the side. Each of the functions below has this loop of its own.\<close>

fun depth_scan ::
  "order_side2 \<Rightarrow> price_ladder \<Rightarrow> nat list \<Rightarrow> nat \<Rightarrow> nat \<Rightarrow> nat option option" where
  "depth_scan s l [] nonEmptyCount depth = Some None"
| "depth_scan s l (i # is) nonEmptyCount depth =
    (case hasOrdersOfSide s (ld_orders l) (lv_head (ld_levels l ! i)) of
       None \<Rightarrow> None
     | Some b \<Rightarrow>
         if b then (if nonEmptyCount = depth then Some (Some i) else depth_scan s l is (nonEmptyCount + 1) depth)
         else depth_scan s l is nonEmptyCount depth)"

fun first_scan :: "order_side2 \<Rightarrow> price_ladder \<Rightarrow> nat list \<Rightarrow> nat option option" where
  "first_scan s l [] = Some None"
| "first_scan s l (i # is) =
    (case hasOrdersOfSide s (ld_orders l) (lv_head (ld_levels l ! i)) of
       None \<Rightarrow> None
     | Some b \<Rightarrow> if b then Some (Some i) else first_scan s l is)"

definition getBidLevel :: "nat \<Rightarrow> price_ladder \<Rightarrow> nat option option" where
  "getBidLevel depth l = depth_scan Buy l (ld_bidLevels l) 0 depth"

definition getAskLevel :: "nat \<Rightarrow> price_ladder \<Rightarrow> nat option option" where
  "getAskLevel depth l = depth_scan Sell l (ld_askLevels l) 0 depth"

definition max_price :: u64 where "max_price = - 1"

definition price_or :: "u64 \<Rightarrow> price_ladder \<Rightarrow> nat option \<Rightarrow> u64" where
  "price_or d l i = (case i of None \<Rightarrow> d | Some i \<Rightarrow> lv_priceTick (ld_levels l ! i))"

definition getBestBid :: "price_ladder \<Rightarrow> u64 option" where
  "getBestBid l = map_option (price_or 0 l) (first_scan Buy l (ld_bidLevels l))"

definition getBestAsk :: "price_ladder \<Rightarrow> u64 option" where
  "getBestAsk l = map_option (price_or max_price l) (first_scan Sell l (ld_askLevels l))"

definition getBestBidLevel :: "price_ladder \<Rightarrow> nat option option" where
  "getBestBidLevel l = first_scan Buy l (ld_bidLevels l)"

definition getBestAskLevel :: "price_ladder \<Rightarrow> nat option option" where
  "getBestAskLevel l = first_scan Sell l (ld_askLevels l)"

definition volume_or_zero :: "order_side2 \<Rightarrow> price_ladder \<Rightarrow> nat option \<Rightarrow> u64 option" where
  "volume_or_zero s l i =
    (case i of None \<Rightarrow> Some 0 | Some i \<Rightarrow> getVolumeBySide s (ld_orders l) (ld_levels l ! i))"

definition getBestBidVolume :: "price_ladder \<Rightarrow> u64 option" where
  "getBestBidVolume l = Option.bind (getBestBidLevel l) (volume_or_zero Buy l)"

definition getBestAskVolume :: "price_ladder \<Rightarrow> u64 option" where
  "getBestAskVolume l = Option.bind (getBestAskLevel l) (volume_or_zero Sell l)"

definition getBidPriceAtDepth :: "nat \<Rightarrow> price_ladder \<Rightarrow> u64 option" where
  "getBidPriceAtDepth depth l = map_option (price_or 0 l) (depth_scan Buy l (ld_bidLevels l) 0 depth)"

definition getAskPriceAtDepth :: "nat \<Rightarrow> price_ladder \<Rightarrow> u64 option" where
  "getAskPriceAtDepth depth l = map_option (price_or max_price l) (depth_scan Sell l (ld_askLevels l) 0 depth)"

definition getBidVolumeAtDepth :: "nat \<Rightarrow> price_ladder \<Rightarrow> u64 option" where
  "getBidVolumeAtDepth depth l =
     Option.bind (depth_scan Buy l (ld_bidLevels l) 0 depth) (volume_or_zero Buy l)"

definition getAskVolumeAtDepth :: "nat \<Rightarrow> price_ladder \<Rightarrow> u64 option" where
  "getAskVolumeAtDepth depth l =
     Option.bind (depth_scan Sell l (ld_askLevels l) 0 depth) (volume_or_zero Sell l)"

text \<open>\<open>isEmpty\<close> and \<open>getOrderCount\<close> ask the index.\<close>

definition ladder_isEmpty :: "price_ladder \<Rightarrow> bool" where
  "ladder_isEmpty l \<longleftrightarrow> dom (ld_orderIndex l) = {}"

definition getOrderCount :: "price_ladder \<Rightarrow> nat" where
  "getOrderCount l = card (dom (ld_orderIndex l))"

section \<open>PriceLevelStorage_1.cpp\<close>

text \<open>Here a level counts for both sides. \<open>getBestBid\<close> scans down with a signed index.\<close>

fun any_order_scan :: "price_ladder \<Rightarrow> nat list \<Rightarrow> nat option" where
  "any_order_scan l [] = None"
| "any_order_scan l (i # is) = (if lv_head (ld_levels l ! i) \<noteq> None then Some i else any_order_scan l is)"

definition getBestBid_1 :: "price_ladder \<Rightarrow> u64" where
  "getBestBid_1 l = price_or 0 l (any_order_scan l (rev [0..<unat (ld_numLevels l)]))"

definition getBestAsk_1 :: "price_ladder \<Rightarrow> u64" where
  "getBestAsk_1 l = price_or max_price l (any_order_scan l [0..<unat (ld_numLevels l)])"

end
