(* ===== verification/Ladder_Laws.thy ===== *)
theory Ladder_Laws
  imports Price_Ladder
begin

text \<open>
  What the price ladder's pointers stand for: \<open>links\<close> says that a list of addresses is a doubly
  linked segment of the store, \<open>holds\<close> that a level's value describes such a list with its total
  volume, \<open>ladder_inv\<close> that the whole ladder holds one list of orders per level, disjoint from each
  other, with the index exact. Every operation is then an operation on the lists.
\<close>

section \<open>Linked segments\<close>

definition first_or :: "addr option \<Rightarrow> addr list \<Rightarrow> addr option" where
  "first_or n xs = (case xs of [] \<Rightarrow> n | x # _ \<Rightarrow> Some x)"

definition last_or :: "addr option \<Rightarrow> addr list \<Rightarrow> addr option" where
  "last_or p xs = (if xs = [] then p else Some (last xs))"

fun links :: "order_store \<Rightarrow> addr option \<Rightarrow> addr list \<Rightarrow> addr option \<Rightarrow> bool" where
  "links h p [] n = True"
| "links h p (x # xs) n =
     (\<exists>o1. h x = Some o1 \<and> od_prev o1 = p \<and> od_next o1 = first_or n xs \<and> links h (Some x) xs n)"

lemma first_or_simps [simp]: "first_or n [] = n" "first_or n (x # xs) = Some x"
  "first_or n (xs @ ys) = first_or (first_or n ys) xs"
  by (simp_all add: first_or_def split: list.split)

lemma last_or_simps [simp]: "last_or p [] = p" "last_or p (x # xs) = last_or (Some x) xs"
  "last_or p (xs @ ys) = last_or (last_or p xs) ys"
  by (auto simp: last_or_def)

lemma links_append [simp]:
  "links h p (xs @ ys) n \<longleftrightarrow> links h p xs (first_or n ys) \<and> links h (last_or p xs) ys n"
  by (induction xs arbitrary: p) auto

lemma links_frame: "(\<And>x. x \<in> set xs \<Longrightarrow> h' x = h x) \<Longrightarrow> links h' p xs n = links h p xs n"
  by (induction xs arbitrary: p) auto

lemma links_update_other [simp]: "a \<notin> set xs \<Longrightarrow> links (h(a \<mapsto> ob)) p xs n = links h p xs n"
  by (rule links_frame) auto

lemma links_same_links:
  assumes "\<And>x ob. x \<in> set xs \<Longrightarrow> h x = Some ob \<Longrightarrow>
      \<exists>ob'. h' x = Some ob' \<and> od_prev ob' = od_prev ob \<and> od_next ob' = od_next ob"
  shows "links h p xs n \<Longrightarrow> links h' p xs n"
  using assms by (induction xs arbitrary: p) fastforce+

lemma links_store: "links h p xs n \<Longrightarrow> x \<in> set xs \<Longrightarrow> \<exists>ob. h x = Some ob"
  by (induction xs arbitrary: p) auto

section \<open>A level and its list\<close>

text \<open>What list operations leave alone in every order: its data, and mostly its level.\<close>

definition order_data :: "ladder_order \<Rightarrow> u64 \<times> u64 \<times> u64 \<times> order_side2" where
  "order_data ob = (od_orderId ob, od_priceTick ob, od_volume ob, od_side ob)"

definition same_data :: "order_store \<Rightarrow> order_store \<Rightarrow> bool" where
  "same_data h h' \<longleftrightarrow> (\<forall>x. map_option order_data (h' x) = map_option order_data (h x))"

definition same_levels :: "order_store \<Rightarrow> order_store \<Rightarrow> bool" where
  "same_levels h h' \<longleftrightarrow> (\<forall>x. map_option od_level (h' x) = map_option od_level (h x))"

lemma same_refl [simp]: "same_data h h" "same_levels h h"
  by (simp_all add: same_data_def same_levels_def)

lemma same_data_trans: "same_data h h1 \<Longrightarrow> same_data h1 h2 \<Longrightarrow> same_data h h2"
  by (simp add: same_data_def)

lemma same_levels_trans: "same_levels h h1 \<Longrightarrow> same_levels h1 h2 \<Longrightarrow> same_levels h h2"
  by (simp add: same_levels_def)

lemma same_update:
  "h a = Some ob \<Longrightarrow> order_data ob' = order_data ob \<Longrightarrow> same_data h (h(a \<mapsto> ob'))"
  "h a = Some ob \<Longrightarrow> od_level ob' = od_level ob \<Longrightarrow> same_levels h (h(a \<mapsto> ob'))"
  by (simp_all add: same_data_def same_levels_def)

lemma same_dataD:
  assumes "same_data h h'" "h x = Some ob"
  shows "\<exists>ob'. h' x = Some ob' \<and> od_orderId ob' = od_orderId ob \<and> od_priceTick ob' = od_priceTick ob
    \<and> od_volume ob' = od_volume ob \<and> od_side ob' = od_side ob"
proof -
  from assms have "map_option order_data (h' x) = Some (order_data ob)" by (simp add: same_data_def)
  then show ?thesis by (auto simp: order_data_def)
qed

lemma same_levelsD: "same_levels h h' \<Longrightarrow> h x = Some ob \<Longrightarrow> \<exists>ob'. h' x = Some ob' \<and> od_level ob' = od_level ob"
  by (auto simp: same_levels_def dest!: spec [of _ x])

lemma order_data_links [simp]:
  "order_data (ob\<lparr>od_prev := p\<rparr>) = order_data ob" "order_data (ob\<lparr>od_next := n\<rparr>) = order_data ob"
  "order_data (ob\<lparr>od_level := l\<rparr>) = order_data ob"
  by (simp_all add: order_data_def)

definition volume_of :: "order_store \<Rightarrow> addr list \<Rightarrow> u64" where
  "volume_of h xs = (\<Sum>x\<leftarrow>xs. od_volume (the (h x)))"

definition side_volume_of :: "order_side2 \<Rightarrow> order_store \<Rightarrow> addr list \<Rightarrow> u64" where
  "side_volume_of s h xs = (\<Sum>x\<leftarrow>filter (\<lambda>x. od_side (the (h x)) = s) xs. od_volume (the (h x)))"

definition holds :: "order_store \<Rightarrow> nat \<Rightarrow> ladder_level \<Rightarrow> addr list \<Rightarrow> bool" where
  "holds h li lv xs \<longleftrightarrow> distinct xs \<and> links h None xs None
     \<and> lv_head lv = first_or None xs \<and> lv_tail lv = last_or None xs
     \<and> lv_totalVolume lv = volume_of h xs
     \<and> (\<forall>x\<in>set xs. od_level (the (h x)) = Some li)"

lemma volume_of_simps [simp]:
  "volume_of h [] = 0" "volume_of h (x # xs) = od_volume (the (h x)) + volume_of h xs"
  "volume_of h (xs @ ys) = volume_of h xs + volume_of h ys"
  by (simp_all add: volume_of_def)

lemma volume_of_frame:
  "(\<And>x. x \<in> set xs \<Longrightarrow> od_volume (the (h' x)) = od_volume (the (h x))) \<Longrightarrow> volume_of h' xs = volume_of h xs"
  by (induction xs) auto

lemma holds_frame:
  "(\<And>x. x \<in> set xs \<Longrightarrow> h' x = h x) \<Longrightarrow> holds h' li lv xs = holds h li lv xs"
  unfolding holds_def using links_frame [of xs h' h] volume_of_frame [of xs h' h] by simp

lemma holds_prefix_nonempty: "lv_tail lv = last_or None xs \<Longrightarrow> lv_tail lv = Some t \<Longrightarrow> \<exists>ys. xs = ys @ [t]"
  by (cases xs rule: rev_cases) auto

text \<open>Adding at the end.\<close>

lemma level_addOrder_holds:
  assumes "holds h li lv xs" "a \<notin> set xs" "h a = Some ob"
  obtains lv' h' where "level_addOrder li a lv h = Some (lv', h')" "holds h' li lv' (xs @ [a])"
    "lv_priceTick lv' = lv_priceTick lv"
    "\<And>x. x \<notin> set xs \<Longrightarrow> x \<noteq> a \<Longrightarrow> h' x = h x"
    "same_data h h'"
proof (cases xs rule: rev_cases)
  case Nil
  show ?thesis
  proof (rule that)
    show "level_addOrder li a lv h = Some (lv\<lparr>lv_head := Some a, lv_tail := Some a,
        lv_totalVolume := lv_totalVolume lv + od_volume ob\<rparr>,
        h(a \<mapsto> ob\<lparr>od_level := Some li, od_prev := None, od_next := None\<rparr>))"
      using assms Nil by (simp add: level_addOrder_def holds_def)
  qed (use assms Nil in \<open>auto simp: holds_def same_data_def order_data_def\<close>)
next
  case (snoc ys t)
  with assms(1) obtain ot where ot: "h t = Some ot" "od_prev ot = last_or None ys" "od_next ot = None"
    by (auto simp: holds_def)
  have neq: "t \<noteq> a" "t \<notin> set ys" "a \<notin> set ys" using assms snoc by (auto simp: holds_def)
  let ?h1 = "h(a \<mapsto> ob\<lparr>od_level := Some li, od_prev := Some t, od_next := None\<rparr>)"
  let ?h = "?h1(t \<mapsto> ot\<lparr>od_next := Some a\<rparr>)"
  show ?thesis
  proof (rule that)
    show "level_addOrder li a lv h = Some (lv\<lparr>lv_tail := Some a,
        lv_totalVolume := lv_totalVolume lv + od_volume ob\<rparr>, ?h)"
      using assms snoc ot neq by (simp add: level_addOrder_def holds_def)
    have "volume_of ?h xs = volume_of h xs"
      using assms(2) ot(1) by (intro volume_of_frame) auto
    then show "holds ?h li (lv\<lparr>lv_tail := Some a, lv_totalVolume := lv_totalVolume lv + od_volume ob\<rparr>) (xs @ [a])"
      using assms snoc ot neq by (auto simp: holds_def)
  qed (use assms snoc ot in \<open>auto simp: holds_def same_data_def order_data_def\<close>)
qed


text \<open>Removing from the middle: the two neighbours are joined.\<close>

lemma unlink_prev_links:
  assumes "links h None (ys @ a # zs) None" "distinct (ys @ a # zs)" "h a = Some ob"
    "lv_head lv = first_or None (ys @ a # zs)"
  obtains lv1 h1 where "unlink_prev a lv h = Some (lv1, h1)"
    "links h1 None ys (first_or None zs)" "links h1 (Some a) zs None" "h1 a = Some ob"
    "lv_head lv1 = first_or None (ys @ zs)" "lv_tail lv1 = lv_tail lv"
    "lv_totalVolume lv1 = lv_totalVolume lv" "lv_priceTick lv1 = lv_priceTick lv"
    "\<forall>x. x \<notin> set ys \<longrightarrow> h1 x = h x"
    "same_data h h1" "same_levels h h1"
proof (cases ys rule: rev_cases)
  case Nil
  show ?thesis
  proof (rule that)
    show "unlink_prev a lv h = Some (lv\<lparr>lv_head := od_next ob\<rparr>, h)"
      using assms Nil by (simp add: unlink_prev_def)
  qed (use assms Nil in auto)
next
  case (snoc ys' p)
  with assms obtain op where op: "h p = Some op" "od_prev op = last_or None ys'" by auto
  have ob: "od_prev ob = Some p" "od_next ob = first_or None zs" using assms snoc by auto
  have neq: "p \<noteq> a" "p \<notin> set ys'" "p \<notin> set zs" using assms(2) snoc by auto
  let ?h = "h(p \<mapsto> op\<lparr>od_next := first_or None zs\<rparr>)"
  show ?thesis
  proof (rule that)
    show "unlink_prev a lv h = Some (lv, ?h)" using assms(3) ob op by (simp add: unlink_prev_def)
    show "lv_head lv = first_or None (ys @ zs)" using assms(4) snoc by (cases ys') simp_all
  qed (use assms snoc op neq in \<open>auto intro: same_update\<close>)
qed

lemma unlink_next_links:
  assumes "links h None ys (first_or None zs)" "links h (Some a) zs None" "distinct (ys @ a # zs)"
    "h a = Some ob" "od_prev ob = last_or None ys" "od_next ob = first_or None zs"
    "lv_tail lv = last_or None (ys @ a # zs)"
  obtains lv1 h1 where "unlink_next a lv h = Some (lv1, h1)"
    "links h1 None (ys @ zs) None" "h1 a = Some ob"
    "lv_tail lv1 = last_or None (ys @ zs)" "lv_head lv1 = lv_head lv"
    "lv_totalVolume lv1 = lv_totalVolume lv" "lv_priceTick lv1 = lv_priceTick lv"
    "\<forall>x. x \<notin> set zs \<longrightarrow> h1 x = h x"
    "same_data h h1" "same_levels h h1"
proof (cases zs)
  case Nil
  show ?thesis
  proof (rule that)
    show "unlink_next a lv h = Some (lv\<lparr>lv_tail := od_prev ob\<rparr>, h)"
      using assms Nil by (simp add: unlink_next_def)
  qed (use assms Nil in auto)
next
  case (Cons n zs')
  with assms obtain on where on: "h n = Some on" "od_next on = first_or None zs'" by auto
  have neq: "n \<noteq> a" "n \<notin> set zs'" "n \<notin> set ys" using assms(3) Cons by auto
  let ?h = "h(n \<mapsto> on\<lparr>od_prev := od_prev ob\<rparr>)"
  show ?thesis
  proof (rule that)
    show "unlink_next a lv h = Some (lv, ?h)" using assms(4,6) Cons on by (simp add: unlink_next_def)
  qed (use assms Cons on neq in \<open>auto intro: same_update\<close>)
qed

lemma level_removeOrder_holds:
  assumes "holds h li lv (ys @ a # zs)" "h a = Some ob"
  obtains lv' h' where "level_removeOrder a lv h = Some (lv', h')" "holds h' li lv' (ys @ zs)"
    "lv_priceTick lv' = lv_priceTick lv"
    "\<And>x. x \<notin> set (ys @ a # zs) \<Longrightarrow> h' x = h x"
    "same_data h h'"
    "\<exists>ob'. h' a = Some ob' \<and> od_level ob' = None \<and> od_prev ob' = None \<and> od_next ob' = None"
proof -
  have inv: "distinct (ys @ a # zs)" "links h None (ys @ a # zs) None" "lv_head lv = first_or None (ys @ a # zs)"
    "lv_tail lv = last_or None (ys @ a # zs)" "lv_totalVolume lv = volume_of h (ys @ a # zs)"
    "\<forall>x\<in>set (ys @ a # zs). od_level (the (h x)) = Some li"
    using assms(1) by (simp_all add: holds_def)
  obtain lv1 h1 where 1: "unlink_prev a lv h = Some (lv1, h1)"
    "links h1 None ys (first_or None zs)" "links h1 (Some a) zs None" "h1 a = Some ob"
    "lv_head lv1 = first_or None (ys @ zs)" "lv_tail lv1 = lv_tail lv"
    "lv_totalVolume lv1 = lv_totalVolume lv" "lv_priceTick lv1 = lv_priceTick lv"
    "\<forall>x. x \<notin> set ys \<longrightarrow> h1 x = h x"
    "same_data h h1" "same_levels h h1"
    by (rule unlink_prev_links [OF inv(2,1) assms(2) inv(3)])
  have ob: "od_prev ob = last_or None ys" "od_next ob = first_or None zs" using inv(2) assms(2) by auto
  have tail: "lv_tail lv1 = last_or None (ys @ a # zs)" using 1(6) inv(4) by simp
  obtain lv2 h2 where 2: "unlink_next a lv1 h1 = Some (lv2, h2)"
    "links h2 None (ys @ zs) None" "h2 a = Some ob"
    "lv_tail lv2 = last_or None (ys @ zs)" "lv_head lv2 = lv_head lv1"
    "lv_totalVolume lv2 = lv_totalVolume lv1" "lv_priceTick lv2 = lv_priceTick lv1"
    "\<forall>x. x \<notin> set zs \<longrightarrow> h2 x = h1 x"
    "same_data h1 h2" "same_levels h1 h2"
    by (rule unlink_next_links [OF 1(2,3) inv(1) 1(4) ob tail])
  let ?ob = "ob\<lparr>od_level := None, od_prev := None, od_next := None\<rparr>"
  let ?h = "h2(a \<mapsto> ?ob)"
  let ?lv = "lv2\<lparr>lv_totalVolume := lv_totalVolume lv2 - od_volume ob\<rparr>"
  have data: "same_data h h2" "same_levels h h2"
    using same_data_trans [OF 1(10) 2(9)] same_levels_trans [OF 1(11) 2(10)] by simp_all
  have in_store: "\<exists>ox. h x = Some ox" if "x \<in> set (ys @ zs)" for x
    using links_store [OF inv(2), of x] that by auto
  have vol: "volume_of h2 (ys @ zs) = volume_of h (ys @ zs)"
    by (rule volume_of_frame) (use in_store same_dataD [OF data(1)] in fastforce)
  have lev: "od_level (the (?h x)) = Some li" if "x \<in> set (ys @ zs)" for x
  proof -
    from in_store [OF that] obtain ox where ox: "h x = Some ox" by blast
    have "x \<noteq> a" using that inv(1) by auto
    moreover have "od_level (the (h x)) = Some li" using inv(6) that by simp
    ultimately show ?thesis using same_levelsD [OF data(2) ox] ox by auto
  qed
  show ?thesis
  proof (rule that)
    show "level_removeOrder a lv h = Some (?lv, ?h)"
      using 1(1) 2(1,3) by (simp add: level_removeOrder_def clear_links_def)
    have a: "a \<notin> set (ys @ zs)" using inv(1) by auto
    have "volume_of ?h (ys @ zs) = volume_of h2 (ys @ zs)" by (rule volume_of_frame) (use a in auto)
    then show "holds ?h li ?lv (ys @ zs)"
      using 1(5) 2(2,4,5,6) 1(7) inv(1,5) assms(2) vol lev a
      by (simp add: holds_def links_update_other del: links_append)
    show "lv_priceTick ?lv = lv_priceTick lv" using 1(8) 2(7) by simp
    show "?h x = h x" if "x \<notin> set (ys @ a # zs)" for x using that 1(9) 2(8) by simp
    show "same_data h ?h"
      by (rule same_data_trans [OF data(1) same_update(1)]) (use 2(3) in auto)
  qed auto
qed


section \<open>The whole ladder\<close>

definition level_count :: "price_ladder \<Rightarrow> nat" where
  "level_count l = length (ld_levels l)"

definition ladder_shape :: "price_ladder \<Rightarrow> bool" where
  "ladder_shape l \<longleftrightarrow>
     unat (ld_maxPriceTick l) + 1 = unat (ld_minPriceTick l) + level_count l
     \<and> unat (ld_numLevels l) = level_count l
     \<and> ld_bidLevels l = rev [0..<level_count l] \<and> ld_askLevels l = [0..<level_count l]"

definition ladder_inv :: "price_ladder \<Rightarrow> (nat \<Rightarrow> addr list) \<Rightarrow> bool" where
  "ladder_inv l L \<longleftrightarrow> ladder_shape l
     \<and> (\<forall>i<level_count l. lv_priceTick (ld_levels l ! i) = ld_minPriceTick l + of_nat i
          \<and> holds (ld_orders l) i (ld_levels l ! i) (L i))
     \<and> (\<forall>i\<ge>level_count l. L i = [])
     \<and> (\<forall>i. \<forall>a\<in>set (L i). od_priceTick (the (ld_orders l a)) = ld_minPriceTick l + of_nat i)
     \<and> (\<forall>k a. ld_orderIndex l k = Some a \<longleftrightarrow> (\<exists>i. a \<in> set (L i)) \<and> od_orderId (the (ld_orders l a)) = k)"

lemma ladder_invI:
  assumes "ladder_shape l"
    and "\<And>i. i < level_count l \<Longrightarrow> lv_priceTick (ld_levels l ! i) = ld_minPriceTick l + of_nat i"
    and "\<And>i. i < level_count l \<Longrightarrow> holds (ld_orders l) i (ld_levels l ! i) (L i)"
    and "\<And>i. level_count l \<le> i \<Longrightarrow> L i = []"
    and "\<And>i a. a \<in> set (L i) \<Longrightarrow> od_priceTick (the (ld_orders l a)) = ld_minPriceTick l + of_nat i"
    and "\<And>k a. ld_orderIndex l k = Some a \<longleftrightarrow> (\<exists>i. a \<in> set (L i)) \<and> od_orderId (the (ld_orders l a)) = k"
  shows "ladder_inv l L"
  using assms by (simp add: ladder_inv_def)

lemma ladder_invD:
  assumes "ladder_inv l L"
  shows "ladder_shape l"
    and "i < level_count l \<Longrightarrow> lv_priceTick (ld_levels l ! i) = ld_minPriceTick l + of_nat i"
    and "i < level_count l \<Longrightarrow> holds (ld_orders l) i (ld_levels l ! i) (L i)"
    and "level_count l \<le> i \<Longrightarrow> L i = []"
    and "a \<in> set (L i) \<Longrightarrow> od_priceTick (the (ld_orders l a)) = ld_minPriceTick l + of_nat i"
    and "ld_orderIndex l k = Some a \<longleftrightarrow> (\<exists>i. a \<in> set (L i)) \<and> od_orderId (the (ld_orders l a)) = k"
  using assms by (simp_all add: ladder_inv_def)

lemma ladder_holds: "ladder_inv l L \<Longrightarrow> i < level_count l \<Longrightarrow> holds (ld_orders l) i (ld_levels l ! i) (L i)"
  by (simp add: ladder_inv_def)

lemma in_ladder:
  assumes "ladder_inv l L" "a \<in> set (L i)"
  shows "i < level_count l" "\<exists>ob. ld_orders l a = Some ob \<and> od_level ob = Some i"
proof -
  show i: "i < level_count l" using assms by (cases "i < level_count l") (auto simp: ladder_inv_def)
  from ladder_holds [OF assms(1) i] assms(2) links_store show "\<exists>ob. ld_orders l a = Some ob \<and> od_level ob = Some i"
    unfolding holds_def by fastforce
qed

lemma one_level: "ladder_inv l L \<Longrightarrow> a \<in> set (L i) \<Longrightarrow> a \<in> set (L j) \<Longrightarrow> i = j"
  using in_ladder(2) [of l L a i] in_ladder(2) [of l L a j] by auto

lemma holds_same:
  assumes "holds h i lv xs" "\<And>x. x \<in> set xs \<Longrightarrow> h' x = h x"
  shows "holds h' i lv xs"
  using assms holds_frame [of xs h' h] by simp

text \<open>One level changes: the rest of the ladder follows.\<close>

lemma ladder_inv_level:
  assumes inv: "ladder_inv l L" and i: "i < level_count l"
    and lv: "holds h i lv xs" "lv_priceTick lv = lv_priceTick (ld_levels l ! i)"
    and frame: "\<And>x j. j \<noteq> i \<Longrightarrow> x \<in> set (L j) \<Longrightarrow> h x = ld_orders l x"
    and prices: "\<And>x. x \<in> set xs \<Longrightarrow> od_priceTick (the (h x)) = ld_minPriceTick l + of_nat i"
    and index: "\<And>k a. index k = Some a \<longleftrightarrow> (\<exists>j. a \<in> set ((L(i := xs)) j)) \<and> od_orderId (the (h a)) = k"
  shows "ladder_inv (l\<lparr>ld_levels := (ld_levels l)[i := lv], ld_orders := h, ld_orderIndex := index\<rparr>) (L(i := xs))"
proof -
  let ?l = "l\<lparr>ld_levels := (ld_levels l)[i := lv], ld_orders := h, ld_orderIndex := index\<rparr>"
  have n: "level_count ?l = level_count l" by (simp add: level_count_def)
  have len: "length (ld_levels l) = level_count l" by (simp add: level_count_def)
  note D = ladder_invD [OF inv]
  show ?thesis
  proof (rule ladder_invI)
    show "ladder_shape ?l" using D(1) by (simp add: ladder_shape_def n)
    fix j assume "j < level_count ?l"
    then have j: "j < level_count l" by (simp only: n)
    show "lv_priceTick (ld_levels ?l ! j) = ld_minPriceTick ?l + of_nat j"
      using D(2) [OF j] D(2) [OF i] lv(2) j len by (cases "j = i") simp_all
    show "holds (ld_orders ?l) j (ld_levels ?l ! j) ((L(i := xs)) j)"
      using lv(1) i len holds_same [OF D(3) [OF j], of h] frame [of j] by (cases "j = i") simp_all
  next
    show "(L(i := xs)) j = []" if "level_count ?l \<le> j" for j using that i D(4) by (simp add: n)
    show "od_priceTick (the (ld_orders ?l a)) = ld_minPriceTick ?l + of_nat j" if "a \<in> set ((L(i := xs)) j)" for j a
      using that prices [of a] frame [of j a] D(5) [of a j] by (cases "j = i") simp_all
  qed (simp add: index del: fun_upd_apply)
qed

lemma level_of_price:
  assumes "ladder_shape l" "ld_minPriceTick l \<le> p" "p \<le> ld_maxPriceTick l"
  shows "unat (p - ld_minPriceTick l) < level_count l" "ld_minPriceTick l + of_nat (unat (p - ld_minPriceTick l)) = p"
    "getLevel p l = Some (unat (p - ld_minPriceTick l))"
proof -
  have "unat (p - ld_minPriceTick l) = unat p - unat (ld_minPriceTick l)" using assms(2) by (simp add: unat_sub)
  moreover have "unat p \<le> unat (ld_maxPriceTick l)" "unat (ld_minPriceTick l) \<le> unat p"
    using assms(2,3) by (simp_all add: word_le_nat_alt)
  ultimately show *: "unat (p - ld_minPriceTick l) < level_count l" using assms(1) by (auto simp: ladder_shape_def)
  then show "getLevel p l = Some (unat (p - ld_minPriceTick l))" by (simp add: getLevel_def level_count_def)
  show "ld_minPriceTick l + of_nat (unat (p - ld_minPriceTick l)) = p" by simp
qed

lemma price_outside:
  assumes "ladder_shape l" "\<not> (ld_minPriceTick l \<le> p \<and> p \<le> ld_maxPriceTick l)"
  shows "getLevel p l = None"
proof -
  have "level_count l + unat (ld_minPriceTick l) \<le> 2 ^ 64"
    using assms(1) unsigned_less [of "ld_maxPriceTick l", where 'a = nat] by (simp add: ladder_shape_def)
  moreover have "unat p < unat (ld_minPriceTick l) \<or> unat (ld_maxPriceTick l) < unat p"
    using assms(2) by (auto simp: word_le_nat_alt)
  ultimately have "level_count l \<le> unat (p - ld_minPriceTick l)"
    using assms(1) by (auto simp: unat_sub_if' ladder_shape_def)
  then show ?thesis by (simp add: getLevel_def level_count_def)
qed

section \<open>The operations\<close>

lemma ladder_addOrder_inv:
  assumes inv: "ladder_inv l L" and ob: "ld_orders l a = Some ob" and fresh: "\<And>i. a \<notin> set (L i)"
    and id: "ld_orderIndex l (od_orderId ob) = None"
    and price: "ld_minPriceTick l \<le> od_priceTick ob" "od_priceTick ob \<le> ld_maxPriceTick l"
  defines "i \<equiv> unat (od_priceTick ob - ld_minPriceTick l)"
  obtains l' where "ladder_addOrder a l = Some l'" "ladder_inv l' (L(i := L i @ [a]))"
    "same_data (ld_orders l) (ld_orders l')"
proof -
  note D = ladder_invD [OF inv]
  note P = level_of_price [OF D(1) price, folded i_def]
  obtain lv h where lv: "level_addOrder i a (ld_levels l ! i) (ld_orders l) = Some (lv, h)"
    "holds h i lv (L i @ [a])" "lv_priceTick lv = lv_priceTick (ld_levels l ! i)"
    "\<And>x. x \<notin> set (L i) \<Longrightarrow> x \<noteq> a \<Longrightarrow> h x = ld_orders l x" "same_data (ld_orders l) h"
    using level_addOrder_holds [OF D(3) [OF P(1)] fresh ob] by metis
  let ?index = "(ld_orderIndex l)(od_orderId ob \<mapsto> a)"
  let ?l = "l\<lparr>ld_levels := (ld_levels l)[i := lv], ld_orders := h, ld_orderIndex := ?index\<rparr>"
  have data: "od_orderId (the (h x)) = od_orderId (the (ld_orders l x))
      \<and> od_priceTick (the (h x)) = od_priceTick (the (ld_orders l x))" if "x \<in> set (L j) \<or> x = a" for x j
  proof -
    from that ob in_ladder(2) [OF inv] obtain ox where "ld_orders l x = Some ox" by blast
    with same_dataD [OF lv(5) this] show ?thesis by auto
  qed
  show ?thesis
  proof (rule that)
    show "ladder_addOrder a l = Some ?l" using ob P(3) lv(1) id by (simp add: ladder_addOrder_def)
    show "ladder_inv ?l (L(i := L i @ [a]))"
    proof (rule ladder_inv_level [OF inv P(1) lv(2,3)])
      show "h x = ld_orders l x" if "j \<noteq> i" "x \<in> set (L j)" for x j
        using lv(4) [of x] that fresh one_level [OF inv that(2), of i] by blast
      show "od_priceTick (the (h x)) = ld_minPriceTick l + of_nat i" if "x \<in> set (L i @ [a])" for x
        using that data [of x i] D(5) [of x i] ob P(2) by auto
      show "?index k = Some x \<longleftrightarrow> (\<exists>j. x \<in> set ((L(i := L i @ [a])) j)) \<and> od_orderId (the (h x)) = k" for k x
      proof (cases "x = a")
        case True
        have "ld_orderIndex l k \<noteq> Some a" using D(6) [of k a] fresh by blast
        then show ?thesis using True data [of a i] ob by auto
      next
        case False
        then have member: "(\<exists>j. x \<in> set ((L(i := L i @ [a])) j)) \<longleftrightarrow> (\<exists>j. x \<in> set (L j))" by auto
        show ?thesis
        proof (cases "\<exists>j. x \<in> set (L j)")
          case True
          then have "od_orderId (the (h x)) = od_orderId (the (ld_orders l x))" using data by blast
          with True False show ?thesis unfolding member using D(6) [of k x] D(6) [of "od_orderId ob" x] id by auto
        next
          case not_in: False
          with False show ?thesis unfolding member using D(6) [of k x] by auto
        qed
      qed
    qed
    show "same_data (ld_orders l) (ld_orders ?l)" using lv(5) by simp
  qed
qed


lemma ladder_removeOrder_inv:
  assumes inv: "ladder_inv l L" and a: "a \<in> set (L i)"
  obtains l' where "ladder_removeOrder a l = Some l'" "ladder_inv l' (L(i := remove1 a (L i)))"
    "same_data (ld_orders l) (ld_orders l')"
proof -
  note D = ladder_invD [OF inv]
  note i = in_ladder(1) [OF inv a]
  obtain ob where ob: "ld_orders l a = Some ob" "od_level ob = Some i" using in_ladder(2) [OF inv a] by blast
  obtain ys zs where split: "L i = ys @ a # zs" "a \<notin> set ys" using a by (meson split_list_first)
  have dist: "distinct (L i)" using D(3) [OF i] by (simp add: holds_def)
  then have rest: "remove1 a (L i) = ys @ zs" using split by (simp add: remove1_append)
  obtain lv h where lv: "level_removeOrder a (ld_levels l ! i) (ld_orders l) = Some (lv, h)"
    "holds h i lv (ys @ zs)" "lv_priceTick lv = lv_priceTick (ld_levels l ! i)"
    "\<And>x. x \<notin> set (ys @ a # zs) \<Longrightarrow> h x = ld_orders l x" "same_data (ld_orders l) h"
    using level_removeOrder_holds [OF D(3) [OF i, unfolded split(1)] ob(1)] by metis
  let ?index = "(ld_orderIndex l)(od_orderId ob := None)"
  let ?l = "l\<lparr>ld_levels := (ld_levels l)[i := lv], ld_orders := h, ld_orderIndex := ?index\<rparr>"
  have data: "od_orderId (the (h x)) = od_orderId (the (ld_orders l x))
      \<and> od_priceTick (the (h x)) = od_priceTick (the (ld_orders l x))" if "x \<in> set (L j)" for x j
  proof -
    from that in_ladder(2) [OF inv] obtain ox where "ld_orders l x = Some ox" by blast
    with same_dataD [OF lv(5) this] show ?thesis by auto
  qed
  have member: "(\<exists>j. x \<in> set ((L(i := ys @ zs)) j)) \<longleftrightarrow> x \<noteq> a \<and> (\<exists>j. x \<in> set (L j))" for x
  proof -
    have other: "a \<notin> set (L j)" if "j \<noteq> i" for j using one_level [OF inv a] that by blast
    show ?thesis
    proof
      assume "\<exists>j. x \<in> set ((L(i := ys @ zs)) j)"
      then obtain j where "x \<in> set ((L(i := ys @ zs)) j)" by blast
      then show "x \<noteq> a \<and> (\<exists>j. x \<in> set (L j))"
        using other split dist by (cases "j = i") (auto intro: exI [of _ i] exI [of _ j])
    next
      assume "x \<noteq> a \<and> (\<exists>j. x \<in> set (L j))"
      then obtain j where "x \<noteq> a" "x \<in> set (L j)" by blast
      then have "x \<in> set ((L(i := ys @ zs)) j)" using split by (cases "j = i") auto
      then show "\<exists>j. x \<in> set ((L(i := ys @ zs)) j)" by blast
    qed
  qed
  show ?thesis
  proof (rule that)
    show "ladder_removeOrder a l = Some ?l" using ob lv(1) by (simp add: ladder_removeOrder_def)
    show "ladder_inv ?l (L(i := remove1 a (L i)))"
      unfolding rest
    proof (rule ladder_inv_level [OF inv i lv(2,3)])
      show "h x = ld_orders l x" if "j \<noteq> i" "x \<in> set (L j)" for x j
        using lv(4) [of x] that split(1) one_level [OF inv that(2), of i] by auto
      show "od_priceTick (the (h x)) = ld_minPriceTick l + of_nat i" if "x \<in> set (ys @ zs)" for x
        using that data [of x i] D(5) [of x i] split(1) by auto
      show "?index k = Some x \<longleftrightarrow> (\<exists>j. x \<in> set ((L(i := ys @ zs)) j)) \<and> od_orderId (the (h x)) = k" for k x
      proof (cases "\<exists>j. x \<in> set (L j)")
        case True
        have "ld_orderIndex l (od_orderId ob) = Some a" using D(6) a ob(1) by auto
        moreover have "od_orderId (the (ld_orders l a)) = od_orderId ob" using ob(1) by simp
        ultimately show ?thesis using True data D(6) [of k x] unfolding member by auto
      next
        case False
        with D(6) [of k x] show ?thesis unfolding member by auto
      qed
    qed
    show "same_data (ld_orders l) (ld_orders ?l)" using lv(5) by simp
  qed
qed

lemma modifyOrderVolume_inv:
  assumes inv: "ladder_inv l L" and a: "a \<in> set (L i)" and ob: "ld_orders l a = Some ob"
  obtains l' where "modifyOrderVolume a v l = Some l'" "ladder_inv l' L"
    "ld_orders l' = (ld_orders l)(a \<mapsto> ob\<lparr>od_volume := v\<rparr>)"
proof -
  note D = ladder_invD [OF inv]
  note i = in_ladder(1) [OF inv a]
  have lev: "od_level ob = Some i" using in_ladder(2) [OF inv a] ob by simp
  let ?h = "(ld_orders l)(a \<mapsto> ob\<lparr>od_volume := v\<rparr>)"
  let ?lv = "(ld_levels l ! i)\<lparr>lv_totalVolume := lv_totalVolume (ld_levels l ! i) - od_volume ob + v\<rparr>"
  let ?l = "l\<lparr>ld_levels := (ld_levels l)[i := ?lv], ld_orders := ?h, ld_orderIndex := ld_orderIndex l\<rparr>"
  obtain ys zs where split: "L i = ys @ a # zs" "a \<notin> set ys" using a by (meson split_list_first)
  note old = D(3) [OF i]
  have nz: "a \<notin> set zs" using old split by (simp add: holds_def)
  have "volume_of ?h ys = volume_of (ld_orders l) ys" "volume_of ?h zs = volume_of (ld_orders l) zs"
    using split nz by (auto intro!: volume_of_frame)
  then have "volume_of ?h (L i) = volume_of (ld_orders l) (L i) - od_volume ob + v"
    using split ob by (simp add: algebra_simps)
  moreover have "links ?h None (L i) None"
    by (rule links_same_links [where h = "ld_orders l"]) (use old ob in \<open>auto simp: holds_def\<close>)
  ultimately have new: "holds ?h i ?lv (L i)" using old lev by (simp add: holds_def)
  show ?thesis
  proof (rule that)
    show "modifyOrderVolume a v l = Some ?l" using ob lev by (simp add: modifyOrderVolume_def Let_def)
    have "ladder_inv ?l (L(i := L i))"
    proof (rule ladder_inv_level [OF inv i new])
      show "lv_priceTick ?lv = lv_priceTick (ld_levels l ! i)" by simp
      show "?h x = ld_orders l x" if "j \<noteq> i" "x \<in> set (L j)" for x j
        using that one_level [OF inv a] by auto
      show "od_priceTick (the (?h x)) = ld_minPriceTick l + of_nat i" if "x \<in> set (L i)" for x
        using D(5) [OF that] ob by auto
      show "ld_orderIndex l k = Some x \<longleftrightarrow> (\<exists>j. x \<in> set ((L(i := L i)) j)) \<and> od_orderId (the (?h x)) = k" for k x
        using D(6) [of k x] ob by auto
    qed
    then show "ladder_inv ?l L" by simp
  qed simp
qed

section \<open>Walks and scans\<close>

lemma hasOrdersOfSide_links:
  "links h p xs None \<Longrightarrow> hasOrdersOfSide s h (first_or None xs) = Some (\<exists>x\<in>set xs. od_side (the (h x)) = s)"
proof (induction xs arbitrary: p)
  case Nil
  then show ?case by (subst hasOrdersOfSide.simps) simp
next
  case (Cons x xs)
  then show ?case by (subst hasOrdersOfSide.simps) auto
qed

lemma volume_walk_links:
  "links h p xs None \<Longrightarrow> volume_walk s h (first_or None xs) v = Some (v + side_volume_of s h xs)"
proof (induction xs arbitrary: p v)
  case Nil
  then show ?case by (subst volume_walk.simps) (simp add: side_volume_of_def)
next
  case (Cons x xs)
  then show ?case by (subst volume_walk.simps) (auto simp: side_volume_of_def algebra_simps)
qed

definition has_side :: "order_side2 \<Rightarrow> price_ladder \<Rightarrow> (nat \<Rightarrow> addr list) \<Rightarrow> nat \<Rightarrow> bool" where
  "has_side s l L i \<longleftrightarrow> (\<exists>x\<in>set (L i). od_side (the (ld_orders l x)) = s)"

lemma hasOrders_level:
  assumes "ladder_inv l L" "i < level_count l"
  shows "hasOrdersOfSide s (ld_orders l) (lv_head (ld_levels l ! i)) = Some (has_side s l L i)"
  using ladder_invD(3) [OF assms] hasOrdersOfSide_links [of "ld_orders l" None "L i" s]
  by (simp add: holds_def has_side_def)

lemma volume_level:
  assumes "ladder_inv l L" "i < level_count l"
  shows "getVolumeBySide s (ld_orders l) (ld_levels l ! i) = Some (side_volume_of s (ld_orders l) (L i))"
  using ladder_invD(3) [OF assms] volume_walk_links [of "ld_orders l" None "L i" s 0]
  by (simp add: holds_def getVolumeBySide_def)

definition nth_opt :: "'a list \<Rightarrow> nat \<Rightarrow> 'a option" where
  "nth_opt xs d = (if d < length xs then Some (xs ! d) else None)"

lemma depth_scan_nth:
  assumes "ladder_inv l L" "\<forall>i\<in>set is. i < level_count l" "c \<le> d"
  shows "depth_scan s l is c d = Some (nth_opt (filter (has_side s l L) is) (d - c))"
  using assms(2,3)
proof (induction "is" arbitrary: c)
  case Nil
  then show ?case by (simp add: nth_opt_def)
next
  case (Cons i "is")
  show ?case
  proof (cases "has_side s l L i \<and> c \<noteq> d")
    case True
    then have "c < d" using Cons.prems(2) by simp
    then have "d - c = Suc (d - Suc c)" by simp
    with Cons True show ?thesis by (simp add: hasOrders_level [OF assms(1)] nth_opt_def)
  next
    case False
    with Cons show ?thesis by (auto simp: hasOrders_level [OF assms(1)] nth_opt_def)
  qed
qed

lemma first_scan_nth:
  assumes "ladder_inv l L" "\<forall>i\<in>set is. i < level_count l"
  shows "first_scan s l is = Some (nth_opt (filter (has_side s l L) is) 0)"
  using assms(2) by (induction "is") (auto simp: hasOrders_level [OF assms(1)] nth_opt_def)

end
