(* ===== verification/Ladder_Properties.thy ===== *)
theory Ladder_Properties
  imports Ladder_Laws
begin

text \<open>
  The properties of the price ladder: on which ranges its constructor returns, that every operation
  is the operation on lists it stands for, and that the queries of both sides are exact.
\<close>

section \<open>The constructor's loops\<close>

lemma ascending_loop_returns:
  assumes "unat price \<le> unat m + 1" "unat m + 1 < 2 ^ 64"
  shows "ascending_loop f price m acc = Some (acc @ map (\<lambda>k. f (price + of_nat k)) [0..<unat m + 1 - unat price])"
  using assms(1)
proof (induction "unat m + 1 - unat price" arbitrary: price acc)
  case 0
  then have "\<not> price \<le> m" by (simp add: word_le_nat_alt)
  with 0 show ?case by (subst ascending_loop.simps) simp
next
  case (Suc n)
  then have le: "price \<le> m" by (simp add: word_le_nat_alt)
  have step: "unat (price + 1) = unat price + 1"
    using le assms(2) by (intro unat_inc) (auto simp: word_le_nat_alt unat_eq_zero [symmetric] unat_word_ariths simp del: unat_eq_zero)
  have "ascending_loop f (price + 1) m (acc @ [f price])
      = Some ((acc @ [f price]) @ map (\<lambda>k. f (price + 1 + of_nat k)) [0..<unat m + 1 - unat (price + 1)])"
    using Suc.hyps(2) step le by (intro Suc.hyps(1)) (auto simp: word_le_nat_alt)
  moreover have "[0..<unat m + 1 - unat price] = 0 # map Suc [0..<unat m + 1 - unat (price + 1)]"
    using le [unfolded word_le_nat_alt] step by (simp add: upt_conv_Cons map_Suc_upt Suc_diff_le del: upt_Suc)
  ultimately show ?case using le by (subst ascending_loop.simps) (simp add: algebra_simps comp_def)
qed

lemma ascending_loop_diverges: "ascending_loop f price (- 1) acc = None"
proof (rule ccontr)
  assume "ascending_loop f price (- 1) acc \<noteq> None"
  then obtain r where "ascending_loop f price (- 1) acc = Some r" by blast
  then show False
  proof (rule ascending_loop.raw_induct [where P = "\<lambda>f price m acc r. m \<noteq> - 1", THEN notE, rotated])
    show "(- 1 :: u64) = - 1" ..
  qed (auto split: if_splits)
qed


lemma descending_loop_returns:
  assumes "0 < m" "unat m \<le> unat price + 1"
  shows "descending_loop f price m acc = Some (acc @ map (\<lambda>k. f (price - of_nat k)) [0..<unat price + 1 - unat m])"
  using assms(2)
proof (induction "unat price + 1 - unat m" arbitrary: price acc)
  case 0
  then have "\<not> m \<le> price" by (simp add: word_le_nat_alt)
  with 0 show ?case by (subst descending_loop.simps) simp
next
  case (Suc n)
  then have le: "m \<le> price" by (simp add: word_le_nat_alt)
  with assms(1) have "price \<noteq> 0" by (metis word_gt_0 word_zero_le antisym)
  then have step: "unat (price - 1) = unat price - 1" by (rule unat_minus_one)
  have pos: "0 < unat price" using \<open>price \<noteq> 0\<close> by (simp add: unat_gt_0)
  have "descending_loop f (price - 1) m (acc @ [f price])
      = Some ((acc @ [f price]) @ map (\<lambda>k. f (price - 1 - of_nat k)) [0..<unat (price - 1) + 1 - unat m])"
    using Suc.hyps(2) step le pos by (intro Suc.hyps(1)) (auto simp: word_le_nat_alt)
  moreover have "[0..<unat price + 1 - unat m] = 0 # map Suc [0..<unat (price - 1) + 1 - unat m]"
    using le [unfolded word_le_nat_alt] step pos
    by (simp add: upt_conv_Cons map_Suc_upt Suc_diff_le del: upt_Suc)
  ultimately show ?case using le by (subst descending_loop.simps) (simp add: algebra_simps comp_def)
qed

lemma descending_loop_diverges: "descending_loop f price 0 acc = None"
proof (rule ccontr)
  assume "descending_loop f price 0 acc \<noteq> None"
  then obtain r where "descending_loop f price 0 acc = Some r" by blast
  then show False
  proof (rule descending_loop.raw_induct [where P = "\<lambda>f price m acc r. m \<noteq> 0", THEN notE, rotated])
    show "(0 :: u64) = 0" ..
  qed (auto split: if_splits)
qed

lemma not_max_word: "(m :: u64) \<noteq> - 1 \<Longrightarrow> unat m + 1 < 2 ^ 64"
proof -
  assume "m \<noteq> - 1"
  then have "unat m \<noteq> unat (- 1 :: u64)" by (metis word_unat_eq_iff)
  moreover have "unat (- 1 :: u64) = 2 ^ 64 - 1" by (simp add: unsigned_minus_1_eq_mask mask_eq_exp_minus_1)
  moreover have "unat m < 2 ^ 64" using unsigned_less [of m, where 'a = nat] by simp
  ultimately show ?thesis by simp
qed

lemma new_ladder_returns:
  assumes "0 < mn" "mn \<le> mx" "mx \<noteq> - 1" "unat (mx - mn + 1) \<le> max_levels"
  shows "\<exists>l. new_ladder mn mx h = Some l \<and> ladder_inv l (\<lambda>_. [])
    \<and> ld_minPriceTick l = mn \<and> ld_maxPriceTick l = mx \<and> ld_orders l = h"
proof -
  let ?n = "unat mx + 1 - unat mn"
  have le: "unat mn \<le> unat mx" using assms(2) by (simp add: word_le_nat_alt)
  have mx: "unat mx + 1 < 2 ^ 64" by (rule not_max_word [OF assms(3)])
  have up: "ascending_loop f mn mx [] = Some (map (\<lambda>k. f (mn + of_nat k)) [0..<?n])" for f :: "u64 \<Rightarrow> 'b"
    using ascending_loop_returns [of mn mx f "[]"] le mx by simp
  have down: "descending_loop f mx mn [] = Some (map (\<lambda>k. f (mx - of_nat k)) [0..<?n])" for f :: "u64 \<Rightarrow> nat"
    using descending_loop_returns [of mn mx f "[]"] le assms(1) by simp
  have small: "unat (of_nat k :: u64) = k" if "k < ?n" for k
    using that mx by (simp add: unat_of_nat take_bit_nat_eq_self)
  have ask: "map (\<lambda>k. unat (mn + of_nat k - mn)) [0..<?n] = [0..<?n]"
    by (rule map_idI) (use small in auto)
  have bid: "map (\<lambda>k. unat (mx - of_nat k - mn)) [0..<?n] = rev [0..<?n]"
  proof (rule nth_equalityI)
    fix i assume "i < length (map (\<lambda>k. unat (mx - of_nat k - mn)) [0..<?n])"
    then have i: "i < ?n" by simp
    have "mx - of_nat i - mn = of_nat (?n - 1 - i)"
    proof -
      have "of_nat (?n - 1 - i) = (of_nat (unat mx - unat mn - i) :: u64)" by simp
      also have "\<dots> = of_nat (unat mx) - of_nat (unat mn) - of_nat i" using i le by (simp add: of_nat_diff)
      finally show ?thesis by simp
    qed
    then have "unat (mx - of_nat i - mn) = ?n - 1 - i" using small [of "?n - 1 - i"] i by (simp only:)
    with i show "map (\<lambda>k. unat (mx - of_nat k - mn)) [0..<?n] ! i = rev [0..<?n] ! i"
      by (simp add: rev_nth)
  qed simp
  have num: "unat (mx - mn + 1) = ?n"
  proof -
    have diff: "unat (mx - mn) = unat mx - unat mn" using assms(2) by (simp add: unat_sub)
    have "mx - mn + 1 \<noteq> 0" by (rule inc_nonzero) (use diff mx in simp)
    with diff show ?thesis using le by (simp add: unat_inc)
  qed
  let ?l = "\<lparr>ld_minPriceTick = mn, ld_maxPriceTick = mx, ld_numLevels = mx - mn + 1,
      ld_levels = map (\<lambda>k. new_level (mn + of_nat k)) [0..<?n], ld_bidLevels = rev [0..<?n],
      ld_askLevels = [0..<?n], ld_orderIndex = Map.empty, ld_orders = h\<rparr>"
  have new: "new_ladder mn mx h = Some ?l"
    using up [of new_level] up [of "\<lambda>price. unat (price - mn)"] down [of "\<lambda>price. unat (price - mn)"] ask bid assms(4)
    by (simp add: new_ladder_def del: upt_Suc)
  have "ladder_inv ?l (\<lambda>_. [])"
    by (rule ladder_invI)
       (use le num in \<open>auto simp: ladder_shape_def level_count_def holds_def new_level_def\<close>)
  with new show ?thesis by auto
qed


section \<open>The book of lists\<close>

text \<open>The abstract ladder: the data of every order object (id, price, volume, side), and for each level
  the orders resting there, oldest first. An operation with no result breaks the caller's contract:
  an order is added that rests already, whose id rests, or whose price is outside the range; or an
  order is removed or modified that does not rest.\<close>

record list_book =
  lb_min :: u64
  lb_max :: u64
  lb_data :: "addr \<Rightarrow> (u64 \<times> u64 \<times> u64 \<times> order_side2) option"
  lb_levels :: "nat \<Rightarrow> addr list"

definition resting :: "list_book \<Rightarrow> addr set" where
  "resting b = (\<Union>i. set (lb_levels b i))"

definition data_id :: "list_book \<Rightarrow> addr \<Rightarrow> u64" where
  "data_id b a = fst (the (lb_data b a))"

definition data_price :: "list_book \<Rightarrow> addr \<Rightarrow> u64" where
  "data_price b a = fst (snd (the (lb_data b a)))"

definition data_volume :: "list_book \<Rightarrow> addr \<Rightarrow> u64" where
  "data_volume b a = fst (snd (snd (the (lb_data b a))))"

definition data_side :: "list_book \<Rightarrow> addr \<Rightarrow> order_side2" where
  "data_side b a = snd (snd (snd (the (lb_data b a))))"

datatype ladder_op = AddOp addr | RemoveOp addr | ModifyOp addr u64

fun ladder_step :: "ladder_op \<Rightarrow> price_ladder \<Rightarrow> price_ladder option" where
  "ladder_step (AddOp a) l = ladder_addOrder a l"
| "ladder_step (RemoveOp a) l = ladder_removeOrder a l"
| "ladder_step (ModifyOp a v) l = modifyOrderVolume a v l"

fun list_step :: "ladder_op \<Rightarrow> list_book \<Rightarrow> list_book option" where
  "list_step (AddOp a) b =
    (if lb_data b a \<noteq> None \<and> a \<notin> resting b \<and> data_id b a \<notin> data_id b ` resting b
        \<and> lb_min b \<le> data_price b a \<and> data_price b a \<le> lb_max b
     then let i = unat (data_price b a - lb_min b)
          in Some (b\<lparr>lb_levels := (lb_levels b)(i := lb_levels b i @ [a])\<rparr>)
     else None)"
| "list_step (RemoveOp a) b =
    (if a \<in> resting b then Some (b\<lparr>lb_levels := \<lambda>i. remove1 a (lb_levels b i)\<rparr>) else None)"
| "list_step (ModifyOp a v) b =
    (if a \<in> resting b
     then Some (b\<lparr>lb_data := (lb_data b)(a \<mapsto> (data_id b a, data_price b a, v, data_side b a))\<rparr>) else None)"

fun ladder_run :: "ladder_op list \<Rightarrow> price_ladder \<Rightarrow> price_ladder option" where
  "ladder_run [] l = Some l"
| "ladder_run (op # ops) l = Option.bind (ladder_step op l) (ladder_run ops)"

fun list_run :: "ladder_op list \<Rightarrow> list_book \<Rightarrow> list_book option" where
  "list_run [] b = Some b"
| "list_run (op # ops) b = Option.bind (list_step op b) (list_run ops)"

definition new_book :: "u64 \<Rightarrow> u64 \<Rightarrow> order_store \<Rightarrow> list_book" where
  "new_book mn mx h = \<lparr>lb_min = mn, lb_max = mx, lb_data = (\<lambda>a. map_option order_data (h a)), lb_levels = (\<lambda>_. [])\<rparr>"

definition refines :: "price_ladder \<Rightarrow> list_book \<Rightarrow> bool" where
  "refines l b \<longleftrightarrow> ladder_inv l (lb_levels b) \<and> ld_minPriceTick l = lb_min b \<and> ld_maxPriceTick l = lb_max b
     \<and> (\<forall>a. map_option order_data (ld_orders l a) = lb_data b a)"

lemma refines_data:
  assumes "refines l b" "ld_orders l a = Some ob"
  shows "data_id b a = od_orderId ob" "data_price b a = od_priceTick ob"
    "data_volume b a = od_volume ob" "data_side b a = od_side ob"
proof -
  from assms have "lb_data b a = Some (order_data ob)" by (metis option.simps(9) refines_def)
  then show "data_id b a = od_orderId ob" "data_price b a = od_priceTick ob"
    "data_volume b a = od_volume ob" "data_side b a = od_side ob"
    by (simp_all add: data_id_def data_price_def data_volume_def data_side_def order_data_def)
qed

lemma refines_resting:
  assumes "refines l b" "a \<in> resting b"
  obtains i ob where "a \<in> set (lb_levels b i)" "ld_orders l a = Some ob"
  using assms in_ladder(2) by (fastforce simp: refines_def resting_def)

lemma refines_index:
  assumes "refines l b"
  shows "ld_orderIndex l k = Some a \<longleftrightarrow> a \<in> resting b \<and> data_id b a = k"
proof -
  have inv: "ladder_inv l (lb_levels b)" using assms by (simp add: refines_def)
  have "od_orderId (the (ld_orders l a)) = data_id b a" if "a \<in> resting b"
    using refines_resting [OF assms that] refines_data(1) [OF assms] by (metis option.sel)
  then show ?thesis using ladder_invD(6) [OF inv, of k a] by (cases "a \<in> resting b") (simp_all add: resting_def)
qed

lemma ladder_frame:
  "ladder_addOrder a l = Some l' \<Longrightarrow> ld_minPriceTick l' = ld_minPriceTick l \<and> ld_maxPriceTick l' = ld_maxPriceTick l"
  "ladder_removeOrder a l = Some l' \<Longrightarrow> ld_minPriceTick l' = ld_minPriceTick l \<and> ld_maxPriceTick l' = ld_maxPriceTick l"
  "modifyOrderVolume a v l = Some l' \<Longrightarrow> ld_minPriceTick l' = ld_minPriceTick l \<and> ld_maxPriceTick l' = ld_maxPriceTick l"
  by (auto simp: ladder_addOrder_def ladder_removeOrder_def modifyOrderVolume_def bind_eq_Some_conv Let_def)

lemma refines_step:
  assumes "refines l b" "list_step op b = Some b'"
  shows "\<exists>l'. ladder_step op l = Some l' \<and> refines l' b'"
proof (cases op)
  case (AddOp a)
  have inv: "ladder_inv l (lb_levels b)" using assms(1) by (simp add: refines_def)
  from assms(2) AddOp have ok: "lb_data b a \<noteq> None" "a \<notin> resting b" "data_id b a \<notin> data_id b ` resting b"
      "lb_min b \<le> data_price b a" "data_price b a \<le> lb_max b"
    and b': "b' = b\<lparr>lb_levels := (lb_levels b)(unat (data_price b a - lb_min b) := lb_levels b (unat (data_price b a - lb_min b)) @ [a])\<rparr>"
    by (auto simp: Let_def split: if_splits)
  obtain ob where ob: "ld_orders l a = Some ob" using ok(1) assms(1) by (metis option.simps(8) not_None_eq refines_def)
  note data = refines_data [OF assms(1) ob]
  have "ld_orderIndex l (od_orderId ob) = None"
    using refines_index [OF assms(1), of "od_orderId ob"] ok(3) data(1) by (metis imageI not_None_eq)
  moreover have "\<And>i. a \<notin> set (lb_levels b i)" using ok(2) by (simp add: resting_def)
  moreover have "ld_minPriceTick l \<le> od_priceTick ob" "od_priceTick ob \<le> ld_maxPriceTick l"
    using ok(4,5) data(2) assms(1) by (simp_all add: refines_def)
  ultimately obtain l' where l': "ladder_addOrder a l = Some l'" "same_data (ld_orders l) (ld_orders l')"
    "ladder_inv l' ((lb_levels b)(unat (od_priceTick ob - ld_minPriceTick l) := lb_levels b (unat (od_priceTick ob - ld_minPriceTick l)) @ [a]))"
    using ladder_addOrder_inv [OF inv ob] by metis
  then show ?thesis
    using assms(1) AddOp b' data(2) ladder_frame(1) [OF l'(1)] by (simp add: refines_def same_data_def)
next
  case (RemoveOp a)
  have inv: "ladder_inv l (lb_levels b)" using assms(1) by (simp add: refines_def)
  from assms(2) RemoveOp have rest: "a \<in> resting b" and b': "b' = b\<lparr>lb_levels := \<lambda>i. remove1 a (lb_levels b i)\<rparr>"
    by (auto split: if_splits)
  then obtain i where i: "a \<in> set (lb_levels b i)" by (auto simp: resting_def)
  from ladder_removeOrder_inv [OF inv i] obtain l' where l': "ladder_removeOrder a l = Some l'"
    "ladder_inv l' ((lb_levels b)(i := remove1 a (lb_levels b i)))" "same_data (ld_orders l) (ld_orders l')" by blast
  have "(lb_levels b)(i := remove1 a (lb_levels b i)) = (\<lambda>i. remove1 a (lb_levels b i))"
    using one_level [OF inv i] by (auto simp: fun_eq_iff) (metis remove1_idem)
  with l' show ?thesis
    using assms(1) RemoveOp b' ladder_frame(2) [OF l'(1)] by (simp add: refines_def same_data_def)
next
  case (ModifyOp a v)
  have inv: "ladder_inv l (lb_levels b)" using assms(1) by (simp add: refines_def)
  from assms(2) ModifyOp have rest: "a \<in> resting b"
    and b': "b' = b\<lparr>lb_data := (lb_data b)(a \<mapsto> (data_id b a, data_price b a, v, data_side b a))\<rparr>"
    by (auto split: if_splits)
  from refines_resting [OF assms(1) rest] obtain i ob where i: "a \<in> set (lb_levels b i)" "ld_orders l a = Some ob" by blast
  from modifyOrderVolume_inv [OF inv i, of v] obtain l' where l': "modifyOrderVolume a v l = Some l'"
    "ladder_inv l' (lb_levels b)" "ld_orders l' = (ld_orders l)(a \<mapsto> ob\<lparr>od_volume := v\<rparr>)" by blast
  then show ?thesis
    using assms(1) ModifyOp b' ladder_frame(3) [OF l'(1)] refines_data [OF assms(1) i(2)]
    by (simp add: refines_def order_data_def)
qed

lemma refines_run:
  "refines l b \<Longrightarrow> list_run ops b = Some b' \<Longrightarrow> \<exists>l'. ladder_run ops l = Some l' \<and> refines l' b'"
proof (induction ops arbitrary: l b)
  case (Cons op ops)
  then obtain b1 where b1: "list_step op b = Some b1" "list_run ops b1 = Some b'" by (auto simp: bind_eq_Some_conv)
  from refines_step [OF Cons.prems(1) b1(1)] obtain l1 where "ladder_step op l = Some l1" "refines l1 b1" by blast
  with Cons.IH [OF _ b1(2)] show ?case by auto
qed simp

text \<open>The constructor returns exactly on the ranges whose lowest tick is positive and whose highest
  is not the largest 64-bit number, since one loop counts down past the lowest tick and the others up
  past the highest, and whose number of levels, computed with wrap-around, fits a vector; the ladder it
  builds is empty and well linked, and without levels if the range is the wrong way round.\<close>

theorem ladder_constructor_returns:
  "if 0 < mn \<and> mx \<noteq> - 1 \<and> unat (mx - mn + 1) \<le> max_levels
   then \<exists>l. new_ladder mn mx h = Some l \<and> (if mn \<le> mx then refines l (new_book mn mx h) else ld_levels l = [])
   else new_ladder mn mx h = None"
proof (cases "0 < mn \<and> mx \<noteq> - 1 \<and> unat (mx - mn + 1) \<le> max_levels")
  case ok: True
  show ?thesis
  proof (cases "mn \<le> mx")
    case True
    with ok show ?thesis
      using new_ladder_returns [of mn mx h] by (auto simp: refines_def new_book_def)
  next
    case False
    then have "new_ladder mn mx h = Some \<lparr>ld_minPriceTick = mn, ld_maxPriceTick = mx, ld_numLevels = mx - mn + 1,
        ld_levels = [], ld_bidLevels = [], ld_askLevels = [], ld_orderIndex = Map.empty, ld_orders = h\<rparr>"
      using ok by (simp add: new_ladder_def ascending_loop.simps descending_loop.simps)
    with ok False show ?thesis by simp
  qed
next
  case False
  then have "mn = 0 \<or> mx = - 1 \<or> max_levels < unat (mx - mn + 1)" by (auto simp: word_gt_0)
  then have "new_ladder mn mx h = None"
    by (auto simp: new_ladder_def ascending_loop_diverges descending_loop_diverges bind_eq_None_conv)
  with False show ?thesis by argo
qed


text \<open>C20. Every sequence of calls that keeps the caller's contract (an order is added once, under an id
  that does not rest, at a price of the range; only resting orders are removed or modified) runs
  through the pointers without a fault, and the ladder then holds exactly the lists of orders that
  appending, removing and updating give: forward and backward links, heads, tails, total volumes, the
  level of every order, and the index.\<close>

theorem ladder_refines_list_book:
  assumes "0 < mn" "mn \<le> mx" "mx \<noteq> - 1" "unat (mx - mn + 1) \<le> max_levels" "list_run ops (new_book mn mx h) = Some b"
  shows "\<exists>l. Option.bind (new_ladder mn mx h) (ladder_run ops) = Some l \<and> refines l b"
proof -
  from assms(1-4) obtain l where l: "new_ladder mn mx h = Some l" "refines l (new_book mn mx h)"
    using new_ladder_returns [of mn mx h] by (auto simp: refines_def new_book_def)
  from refines_run [OF l(2) assms(5)] l(1) show ?thesis by simp
qed

definition sample_order :: "u64 \<Rightarrow> u64 \<Rightarrow> u64 \<Rightarrow> order_side2 \<Rightarrow> ladder_order" where
  "sample_order k p v s = \<lparr>od_prev = None, od_next = None, od_orderId = k, od_priceTick = p, od_volume = v,
     od_timestampNs = 0, od_side = s, od_level = None\<rparr>"

definition sample_orders :: order_store where
  "sample_orders = [0 \<mapsto> sample_order 7 10 5 Buy, 1 \<mapsto> sample_order 8 10 6 Buy, 2 \<mapsto> sample_order 9 12 4 Sell]"

definition sample_ops :: "ladder_op list" where
  "sample_ops = [AddOp 0, AddOp 1, AddOp 2, ModifyOp 1 9, RemoveOp 0]"

lemma resting_iff: "a \<in> resting b \<longleftrightarrow> (\<exists>i. a \<in> set (lb_levels b i))"
  by (simp add: resting_def)

definition sample_book :: "u64 \<Rightarrow> (nat \<Rightarrow> addr list) \<Rightarrow> list_book" where
  "sample_book v ls = \<lparr>lb_min = 10, lb_max = 12,
     lb_data = [0 \<mapsto> (7, 10, 5, Buy), 1 \<mapsto> (8, 10, v, Buy), 2 \<mapsto> (9, 12, 4, Sell)], lb_levels = ls\<rparr>"

lemma sample_book_data [simp]:
  "data_id (sample_book v ls) 0 = 7" "data_id (sample_book v ls) (Suc 0) = 8" "data_id (sample_book v ls) 2 = 9"
  "data_price (sample_book v ls) 0 = 10" "data_price (sample_book v ls) (Suc 0) = 10" "data_price (sample_book v ls) 2 = 12"
  "data_side (sample_book v ls) (Suc 0) = Buy"
  "lb_min (sample_book v ls) = 10" "lb_max (sample_book v ls) = 12" "lb_levels (sample_book v ls) = ls"
  "lb_data (sample_book v ls) 0 = Some (7, 10, 5, Buy)" "lb_data (sample_book v ls) (Suc 0) = Some (8, 10, v, Buy)"
  "lb_data (sample_book v ls) 2 = Some (9, 12, 4, Sell)"
  "sample_book v ls\<lparr>lb_levels := ls'\<rparr> = sample_book v ls'"
  by (simp_all add: sample_book_def data_id_def data_price_def data_side_def)

lemma sample_run: "list_run sample_ops (new_book 10 12 sample_orders)
    = Some (sample_book 9 (\<lambda>i. if i = 0 then [1] else if i = 2 then [2] else []))"
proof -
  have start: "new_book 10 12 sample_orders = sample_book 6 (\<lambda>_. [])"
    by (simp add: new_book_def sample_book_def sample_orders_def sample_order_def order_data_def fun_eq_iff)
  have rest: "resting (sample_book v (\<lambda>_. [])) = {}"
    "resting (sample_book v (\<lambda>i. if i = 0 then xs else [])) = set xs"
    "resting (sample_book v (\<lambda>i. if i = 0 then xs else if i = 2 then ys else [])) = set xs \<union> set ys" for v xs ys
    by (auto simp: resting_def split: if_splits) (metis (full_types) less_numeral_extra(3) zero_less_numeral)
  have "list_step (AddOp 0) (sample_book 6 (\<lambda>_. [])) = Some (sample_book 6 (\<lambda>i. if i = 0 then [0] else []))"
    by (simp add: rest Let_def fun_upd_def)
  moreover have "list_step (AddOp 1) (sample_book 6 (\<lambda>i. if i = 0 then [0] else []))
      = Some (sample_book 6 (\<lambda>i. if i = 0 then [0, 1] else []))"
    by (simp add: rest Let_def fun_upd_def cong: if_cong)
  moreover have "list_step (AddOp 2) (sample_book 6 (\<lambda>i. if i = 0 then [0, 1] else []))
      = Some (sample_book 6 (\<lambda>i. if i = 0 then [0, 1] else if i = 2 then [2] else []))"
    by (simp add: rest Let_def fun_upd_def) (rule arg_cong [where f = "sample_book 6"], auto)
  moreover have "list_step (ModifyOp 1 9) (sample_book 6 (\<lambda>i. if i = 0 then [0, 1] else if i = 2 then [2] else []))
      = Some (sample_book 9 (\<lambda>i. if i = 0 then [0, 1] else if i = 2 then [2] else []))"
    by (simp add: rest) (simp add: sample_book_def fun_eq_iff)
  moreover have "list_step (RemoveOp 0) (sample_book 9 (\<lambda>i. if i = 0 then [0, 1] else if i = 2 then [2] else []))
      = Some (sample_book 9 (\<lambda>i. if i = 0 then [1] else if i = 2 then [2] else []))"
    by (simp add: rest) (rule arg_cong [where f = "sample_book 9"], auto)
  ultimately show ?thesis by (simp add: sample_ops_def start)
qed

theorem ladder_refines_list_book_witness:
  "\<exists>b l. list_run sample_ops (new_book 10 12 sample_orders) = Some b
     \<and> Option.bind (new_ladder 10 12 sample_orders) (ladder_run sample_ops) = Some l \<and> refines l b"
proof -
  obtain b where b: "list_run sample_ops (new_book 10 12 sample_orders) = Some b" by (simp add: sample_run)
  with ladder_refines_list_book [OF _ _ _ _ b] show ?thesis by (auto simp: max_levels_def)
qed


section \<open>The queries\<close>

text \<open>What the queries of a side are about: the levels with an order of the side, best first, and the
  volume of the side's orders there.\<close>

definition has_orders :: "order_side2 \<Rightarrow> list_book \<Rightarrow> nat \<Rightarrow> bool" where
  "has_orders s b i \<longleftrightarrow> (\<exists>a\<in>set (lb_levels b i). data_side b a = s)"

definition side_levels :: "order_side2 \<Rightarrow> list_book \<Rightarrow> nat list" where
  "side_levels s b = (let is = filter (has_orders s b) [0..<unat (lb_max b) + 1 - unat (lb_min b)]
     in case s of Buy \<Rightarrow> rev is | Sell \<Rightarrow> is)"

definition price_at :: "u64 \<Rightarrow> order_side2 \<Rightarrow> list_book \<Rightarrow> nat \<Rightarrow> u64" where
  "price_at absent s b d =
     (if d < length (side_levels s b) then lb_min b + of_nat (side_levels s b ! d) else absent)"

definition volume_at :: "order_side2 \<Rightarrow> list_book \<Rightarrow> nat \<Rightarrow> u64" where
  "volume_at s b d =
     (if d < length (side_levels s b)
      then (\<Sum>a\<leftarrow>filter (\<lambda>a. data_side b a = s) (lb_levels b (side_levels s b ! d)). data_volume b a) else 0)"

lemma refines_member:
  assumes "refines l b" "a \<in> set (lb_levels b i)"
  shows "od_side (the (ld_orders l a)) = data_side b a" "od_volume (the (ld_orders l a)) = data_volume b a"
proof -
  from assms(2) have "a \<in> resting b" by (auto simp: resting_def)
  from refines_resting [OF assms(1) this] obtain ob where "ld_orders l a = Some ob" by blast
  with refines_data [OF assms(1) this]
  show "od_side (the (ld_orders l a)) = data_side b a" "od_volume (the (ld_orders l a)) = data_volume b a" by simp_all
qed

lemma refines_has_side: "refines l b \<Longrightarrow> has_side s l (lb_levels b) i = has_orders s b i"
  by (simp add: has_side_def has_orders_def refines_member)

lemma refines_count: "refines l b \<Longrightarrow> level_count l = unat (lb_max b) + 1 - unat (lb_min b)"
  by (auto simp: refines_def ladder_inv_def ladder_shape_def)

lemma side_scan:
  assumes "refines l b"
  shows "depth_scan Buy l (ld_bidLevels l) 0 d = Some (nth_opt (side_levels Buy b) d)"
    "depth_scan Sell l (ld_askLevels l) 0 d = Some (nth_opt (side_levels Sell b) d)"
    "first_scan Buy l (ld_bidLevels l) = Some (nth_opt (side_levels Buy b) 0)"
    "first_scan Sell l (ld_askLevels l) = Some (nth_opt (side_levels Sell b) 0)"
proof -
  have inv: "ladder_inv l (lb_levels b)" using assms by (simp add: refines_def)
  have sides: "ld_bidLevels l = rev [0..<level_count l]" "ld_askLevels l = [0..<level_count l]"
    using inv by (simp_all add: ladder_inv_def ladder_shape_def)
  have fil: "filter (has_side s l (lb_levels b)) [0..<level_count l]
      = filter (has_orders s b) [0..<unat (lb_max b) + 1 - unat (lb_min b)]" for s
    unfolding refines_count [OF assms] by (rule filter_cong) (simp_all add: refines_has_side [OF assms])
  show "depth_scan Buy l (ld_bidLevels l) 0 d = Some (nth_opt (side_levels Buy b) d)"
    "depth_scan Sell l (ld_askLevels l) 0 d = Some (nth_opt (side_levels Sell b) d)"
    "first_scan Buy l (ld_bidLevels l) = Some (nth_opt (side_levels Buy b) 0)"
    "first_scan Sell l (ld_askLevels l) = Some (nth_opt (side_levels Sell b) 0)"
    using sides depth_scan_nth [OF inv, of _ 0 d] first_scan_nth [OF inv]
    by (simp_all add: side_levels_def rev_filter [symmetric] fil)
qed

lemma side_level_bound: "refines l b \<Longrightarrow> d < length (side_levels s b) \<Longrightarrow> side_levels s b ! d < level_count l"
proof -
  assume "refines l b" "d < length (side_levels s b)"
  then have "side_levels s b ! d \<in> set (side_levels s b)" by simp
  then show ?thesis using refines_count [OF \<open>refines l b\<close>]
    by (cases s) (auto simp: side_levels_def Let_def)
qed

lemma side_price: "refines l b \<Longrightarrow> price_or p l (nth_opt (side_levels s b) d) = price_at p s b d"
  using side_level_bound [of l b d s] ladder_invD(2) [of l "lb_levels b"]
  by (simp add: price_or_def nth_opt_def price_at_def refines_def)

lemma side_volume:
  assumes "refines l b"
  shows "volume_or_zero s l (nth_opt (side_levels s b) d) = Some (volume_at s b d)"
proof (cases "d < length (side_levels s b)")
  case True
  let ?i = "side_levels s b ! d"
  have inv: "ladder_inv l (lb_levels b)" using assms by (simp add: refines_def)
  have "filter (\<lambda>x. od_side (the (ld_orders l x)) = s) (lb_levels b ?i) = filter (\<lambda>a. data_side b a = s) (lb_levels b ?i)"
    by (rule filter_cong) (simp_all add: refines_member [OF assms])
  moreover have "(\<Sum>x\<leftarrow>filter (\<lambda>a. data_side b a = s) (lb_levels b ?i). od_volume (the (ld_orders l x)))
      = (\<Sum>a\<leftarrow>filter (\<lambda>a. data_side b a = s) (lb_levels b ?i). data_volume b a)"
    by (rule arg_cong [where f = sum_list], rule map_cong) (auto simp: refines_member [OF assms])
  ultimately show ?thesis
    using True volume_level [OF inv side_level_bound [OF assms True], of s]
    by (simp add: volume_or_zero_def nth_opt_def volume_at_def side_volume_of_def)
qed (simp add: volume_or_zero_def nth_opt_def volume_at_def)

lemma refines_index_card:
  assumes "refines l b"
  shows "card (dom (ld_orderIndex l)) = card (resting b)" "dom (ld_orderIndex l) = {} \<longleftrightarrow> resting b = {}"
proof -
  have "dom (ld_orderIndex l) = data_id b ` resting b" using refines_index [OF assms] by (auto simp: dom_def)
  moreover have "inj_on (data_id b) (resting b)"
  proof (rule inj_onI)
    fix x y assume "x \<in> resting b" "y \<in> resting b" "data_id b x = data_id b y"
    then have "ld_orderIndex l (data_id b x) = Some x" "ld_orderIndex l (data_id b x) = Some y"
      using refines_index [OF assms] by simp_all
    then show "x = y" by simp
  qed
  ultimately show "card (dom (ld_orderIndex l)) = card (resting b)" "dom (ld_orderIndex l) = {} \<longleftrightarrow> resting b = {}"
    by (simp_all add: card_image)
qed

text \<open>C21. On a ladder that holds the lists of a book, every query answers from the lists: the bid
  queries go through the levels with a resting buy order from the highest price down, the ask queries
  through those with a sell order from the lowest up, volumes add the orders of that side only, the
  lookup finds exactly the resting order with the id, and the count is the number of resting orders.\<close>

theorem ladder_queries_exact:
  assumes "refines l b"
  shows "getBestBid l = Some (price_at 0 Buy b 0)
    \<and> getBestAsk l = Some (price_at max_price Sell b 0)
    \<and> getBidPriceAtDepth d l = Some (price_at 0 Buy b d)
    \<and> getAskPriceAtDepth d l = Some (price_at max_price Sell b d)
    \<and> getBestBidVolume l = Some (volume_at Buy b 0)
    \<and> getBestAskVolume l = Some (volume_at Sell b 0)
    \<and> getBidVolumeAtDepth d l = Some (volume_at Buy b d)
    \<and> getAskVolumeAtDepth d l = Some (volume_at Sell b d)
    \<and> (findOrder k l = Some a \<longleftrightarrow> a \<in> resting b \<and> data_id b a = k)
    \<and> getOrderCount l = card (resting b)
    \<and> (ladder_isEmpty l \<longleftrightarrow> resting b = {})"
  by (simp add: refines_index [OF assms] refines_index_card [OF assms] 
      getBestBid_def getBestAsk_def getBidPriceAtDepth_def getAskPriceAtDepth_def getBestBidVolume_def
      getBestAskVolume_def getBestBidLevel_def getBestAskLevel_def getBidVolumeAtDepth_def getAskVolumeAtDepth_def
      side_scan [OF assms] side_price [OF assms] side_volume [OF assms] findOrder_def getOrderCount_def
      ladder_isEmpty_def del: dom_eq_empty_conv)

theorem ladder_queries_exact_witness:
  "\<exists>l b. Option.bind (new_ladder 10 12 sample_orders) (ladder_run sample_ops) = Some l
     \<and> getBestBid l = Some 10 \<and> getBestAsk l = Some 12 \<and> getBidPriceAtDepth 1 l = Some 0
     \<and> getBestBidVolume l = Some 9 \<and> getBestAskVolume l = Some 4 \<and> getOrderCount l = 2
     \<and> findOrder 8 l = Some 1"
proof -
  let ?b = "sample_book 9 (\<lambda>i. if i = 0 then [1] else if i = 2 then [2] else [])"
  obtain l0 where l0: "new_ladder 10 12 sample_orders = Some l0" "refines l0 (new_book 10 12 sample_orders)"
    using new_ladder_returns [of 10 12 sample_orders] by (auto simp: refines_def new_book_def max_levels_def)
  obtain l where l: "ladder_run sample_ops l0 = Some l" "refines l ?b"
    using refines_run [OF l0(2) sample_run] by blast
  have rest: "resting ?b = {1, 2}" by (auto simp: resting_def split: if_splits) (rule exI [of _ 2], simp)
  have data: "data_volume ?b (Suc 0) = 9" "data_volume ?b 2 = 4" "data_side ?b 2 = Sell"
    by (simp_all add: sample_book_def data_volume_def data_side_def)
  have max: "lb_max ?b = 12" "lb_min ?b = 10" by simp_all
  have levels: "side_levels Buy ?b = [0]" "side_levels Sell ?b = [2]"
    by (simp_all add: side_levels_def has_orders_def data max upt_rec)
  show ?thesis
    using l0(1) l(1) ladder_queries_exact [OF l(2), of 1 8 1]
    by (simp add: price_at_def volume_at_def levels rest data)
qed

end
