(* ===== verification/Flat_Side.thy ===== *)
theory Flat_Side
  imports Flat_Map
begin

text \<open>
  The flat side of \<open>PricingEngine/flat_level_map/FlatLevelMap.cpp\<close>: the levels of one side in an array
  of 64, best first, found by binary search, and the depth book of two sides. \<open>isBid\<close> is the template
  argument \<open>IsBid\<close>. Nothing checks that the array is not full: an update that would need a 65th level
  writes outside the array and has no result. Prices and quantities are \<open>double\<close>s that are compared and
  tested for zero; any linear order with a zero stands for them (\<open>mid\<close>, which computes with them, is
  left out). Indices are natural numbers: no \<open>size_t\<close> here exceeds 129.
\<close>

definition MaxLevels :: nat where "MaxLevels = 64"

record ('p, 'q) flat_side =
  fs_lvls :: "('p \<times> 'q) list"
  fs_size :: nat

definition new_side :: "('p :: zero, 'q :: zero) flat_side" where
  "new_side = \<lparr>fs_lvls = replicate MaxLevels (0, 0), fs_size = 0\<rparr>"

definition better :: "bool \<Rightarrow> 'p :: linorder \<Rightarrow> 'p \<Rightarrow> bool" where
  "better isBid a b = (if isBid then a > b else a < b)"

text \<open>The binary search of \<open>find_price\<close>; the result -1 is \<open>Some None\<close>.\<close>

function find_price_loop ::
  "bool \<Rightarrow> 'p :: linorder \<Rightarrow> ('p \<times> 'q) list \<Rightarrow> nat \<Rightarrow> nat \<Rightarrow> nat option option" where
  "find_price_loop isBid price lvls left right =
    (if left < right
     then let mid = (left + right) div 2
          in if mid < length lvls
             then (if fst (lvls ! mid) = price then Some (Some mid)
                   else if better isBid price (fst (lvls ! mid)) then find_price_loop isBid price lvls left mid
                   else find_price_loop isBid price lvls (mid + 1) right)
             else None
     else Some None)"
  by pat_completeness auto
termination by (relation "measure (\<lambda>(_, _, _, left, right). right - left)") auto

definition find_price :: "bool \<Rightarrow> 'p :: linorder \<Rightarrow> ('p, 'q) flat_side \<Rightarrow> nat option option" where
  "find_price isBid price s = find_price_loop isBid price (fs_lvls s) 0 (fs_size s)"

function insert_pos_loop ::
  "bool \<Rightarrow> 'p :: linorder \<Rightarrow> ('p \<times> 'q) list \<Rightarrow> nat \<Rightarrow> nat \<Rightarrow> nat option" where
  "insert_pos_loop isBid price lvls left right =
    (if left < right
     then let mid = (left + right) div 2
          in if mid < length lvls
             then (if better isBid price (fst (lvls ! mid)) then insert_pos_loop isBid price lvls left mid
                   else insert_pos_loop isBid price lvls (mid + 1) right)
             else None
     else Some left)"
  by pat_completeness auto
termination by (relation "measure (\<lambda>(_, _, _, left, right). right - left)") auto

declare find_price_loop.simps [simp del] insert_pos_loop.simps [simp del]

definition find_insert_pos :: "bool \<Rightarrow> 'p :: linorder \<Rightarrow> ('p, 'q) flat_side \<Rightarrow> nat option" where
  "find_insert_pos isBid price s = insert_pos_loop isBid price (fs_lvls s) 0 (fs_size s)"

text \<open>\<open>update\<close>; the loops that shift are \<open>shift_left\<close>, from the level behind the removed one, and
  \<open>shift_right\<close>, from the end down to the new place.\<close>

definition side_update ::
  "bool \<Rightarrow> 'p :: linorder \<Rightarrow> 'q :: zero \<Rightarrow> ('p, 'q) flat_side \<Rightarrow> ('p, 'q) flat_side option" where
  "side_update isBid price qty s =
    do {
      idx \<leftarrow> find_price isBid price s;
      (case idx of
         Some i \<Rightarrow>
           if qty = 0
           then do { d \<leftarrow> shift_left (i + 1) (fs_size s) (fs_lvls s);
                     Some (s\<lparr>fs_lvls := d, fs_size := fs_size s - 1\<rparr>) }
           else Some (s\<lparr>fs_lvls := (fs_lvls s)[i := (fst (fs_lvls s ! i), qty)]\<rparr>)
       | None \<Rightarrow>
           if qty = 0 then Some s
           else do {
             pos \<leftarrow> find_insert_pos isBid price s;
             d \<leftarrow> shift_right pos (fs_size s) (fs_lvls s);
             if pos < length d then Some (s\<lparr>fs_lvls := d[pos := (price, qty)], fs_size := fs_size s + 1\<rparr>)
             else None }) }"

definition side_best :: "('p, 'q) flat_side \<Rightarrow> ('p \<times> 'q) option" where
  "side_best s = (if fs_size s \<noteq> 0 then Some (fs_lvls s ! 0) else None)"

record ('p, 'q) flat_depth_book =
  fb_bids :: "('p, 'q) flat_side"
  fb_asks :: "('p, 'q) flat_side"

definition best_bid :: "('p :: zero, 'q) flat_depth_book \<Rightarrow> 'p" where
  "best_bid b = (if fs_size (fb_bids b) \<noteq> 0 then fst (fs_lvls (fb_bids b) ! 0) else 0)"

definition best_ask :: "('p :: zero, 'q) flat_depth_book \<Rightarrow> 'p" where
  "best_ask b = (if fs_size (fb_asks b) \<noteq> 0 then fst (fs_lvls (fb_asks b) ! 0) else 0)"

section \<open>The searches\<close>

definition side_order :: "bool \<Rightarrow> sort_order" where
  "side_order isBid = (if isBid then Descending else Ascending)"

lemma better_before: "better isBid = before (side_order isBid)"
  by (auto simp: better_def before_def side_order_def fun_eq_iff)

lemma before_total: "\<not> before ord a b \<Longrightarrow> a \<noteq> b \<Longrightarrow> before ord b a"
  by (auto simp: before_def split: sort_order.splits)

text \<open>What holds of a search interval: the key is not left of it and not right of it.\<close>

definition brackets :: "sort_order \<Rightarrow> 'p :: linorder \<Rightarrow> ('p \<times> 'q) list \<Rightarrow> nat \<Rightarrow> nat \<Rightarrow> nat \<Rightarrow> bool" where
  "brackets ord price d n left right \<longleftrightarrow> left \<le> right \<and> right \<le> n
     \<and> (\<forall>i<left. before ord (fst (d ! i)) price) \<and> (\<forall>i. right \<le> i \<and> i < n \<longrightarrow> before ord price (fst (d ! i)))"

lemma brackets_narrow:
  assumes "sorted_keys ord (take n d)" "n \<le> length d" "brackets ord price d n left right" "left < right"
  defines "mid \<equiv> (left + right) div 2"
  shows "before ord price (fst (d ! mid)) \<Longrightarrow> brackets ord price d n left mid"
    and "before ord (fst (d ! mid)) price \<Longrightarrow> brackets ord price d n (mid + 1) right"
proof -
  have mid: "left \<le> mid" "mid < right" "right \<le> n" using assms(3,4) by (auto simp: mid_def brackets_def)
  have less: "before ord (fst (d ! i)) (fst (d ! j))" if "i < j" "j < n" for i j
    using assms(1,2) that by (auto simp: sorted_keys_def sorted_wrt_iff_nth_less)
  {
    assume m: "before ord price (fst (d ! mid))"
    have "before ord price (fst (d ! i))" if "mid \<le> i" "i < n" for i
      using m less [of mid i] that by (cases "mid = i") (auto intro: before_trans)
    with mid assms(3) show "brackets ord price d n left mid" by (simp add: brackets_def)
  next
    assume m: "before ord (fst (d ! mid)) price"
    have "before ord (fst (d ! i)) price" if "i < mid + 1" for i
      using m less [of i mid] that mid by (cases "i = mid") (auto intro: before_trans)
    with mid assms(3) show "brackets ord price d n (mid + 1) right" by (simp add: brackets_def)
  }
qed

lemma find_price_loop_finds:
  assumes "sorted_keys (side_order isBid) (take n d)" "n \<le> length d" "brackets (side_order isBid) price d n left right"
  shows "\<exists>r. find_price_loop isBid price d left right = Some r
    \<and> (case r of Some i \<Rightarrow> i < n \<and> fst (d ! i) = price | None \<Rightarrow> \<forall>i<n. fst (d ! i) \<noteq> price)"
  using assms(3)
proof (induction "right - left" arbitrary: left right rule: less_induct)
  case less
  note B = less.prems [unfolded brackets_def]
  show ?case
  proof (cases "left < right")
    case False
    then have "left = right" using B by simp
    then have "before (side_order isBid) (fst (d ! i)) price \<or> before (side_order isBid) price (fst (d ! i))" if "i < n" for i
      using B that by (cases "i < left") auto
    then have "fst (d ! i) \<noteq> price" if "i < n" for i using that by fastforce
    with False show ?thesis by (subst find_price_loop.simps) auto
  next
    case True
    let ?mid = "(left + right) div 2"
    have mid: "?mid < n" "?mid < length d" using True B assms(2) by auto
    consider "fst (d ! ?mid) = price" | "before (side_order isBid) price (fst (d ! ?mid))"
      | "before (side_order isBid) (fst (d ! ?mid)) price" "\<not> before (side_order isBid) price (fst (d ! ?mid))"
      by (metis before_total)
    then show ?thesis
    proof cases
      case 1
      with True mid show ?thesis by (subst find_price_loop.simps) auto
    next
      case 2
      then have "fst (d ! ?mid) \<noteq> price" by auto
      with 2 True mid have "find_price_loop isBid price d left right = find_price_loop isBid price d left ?mid"
        by (subst find_price_loop.simps) (simp add: better_before Let_def)
      with less.hyps [OF _ brackets_narrow(1) [OF assms(1,2) less.prems True 2]] True show ?thesis by simp
    next
      case 3
      then have "fst (d ! ?mid) \<noteq> price" by auto
      with 3 True mid have "find_price_loop isBid price d left right = find_price_loop isBid price d (?mid + 1) right"
        by (subst find_price_loop.simps) (simp add: better_before Let_def)
      with less.hyps [OF _ brackets_narrow(2) [OF assms(1,2) less.prems True 3(1)]] True show ?thesis by simp
    qed
  qed
qed

lemma insert_pos_loop_finds:
  assumes "sorted_keys (side_order isBid) (take n d)" "n \<le> length d" "brackets (side_order isBid) price d n left right"
    "\<And>i. i < n \<Longrightarrow> fst (d ! i) \<noteq> price"
  shows "\<exists>p. insert_pos_loop isBid price d left right = Some p \<and> brackets (side_order isBid) price d n p p"
  using assms(3)
proof (induction "right - left" arbitrary: left right rule: less_induct)
  case less
  show ?case
  proof (cases "left < right")
    case False
    then have "left = right" using less.prems by (simp add: brackets_def)
    with less.prems show ?thesis by (subst insert_pos_loop.simps) auto
  next
    case True
    let ?mid = "(left + right) div 2"
    have mid: "?mid < n" "?mid < length d" using True less.prems assms(2) by (auto simp: brackets_def)
    show ?thesis
    proof (cases "before (side_order isBid) price (fst (d ! ?mid))")
      case b: True
      then have "insert_pos_loop isBid price d left right = insert_pos_loop isBid price d left ?mid"
        using True mid by (subst insert_pos_loop.simps) (simp add: better_before Let_def)
      with less.hyps [OF _ brackets_narrow(1) [OF assms(1,2) less.prems True b]] True show ?thesis by simp
    next
      case nb: False
      with before_total [OF this] assms(4) [OF mid(1)] have b: "before (side_order isBid) (fst (d ! ?mid)) price" by metis
      from nb have "insert_pos_loop isBid price d left right = insert_pos_loop isBid price d (?mid + 1) right"
        using True mid by (subst insert_pos_loop.simps) (simp add: better_before Let_def)
      with less.hyps [OF _ brackets_narrow(2) [OF assms(1,2) less.prems True b]] True show ?thesis by simp
    qed
  qed
qed

section \<open>The side as a bounded table\<close>

definition side_list :: "('p, 'q) flat_side \<Rightarrow> ('p \<times> 'q) list" where
  "side_list s = take (fs_size s) (fs_lvls s)"

definition side_wf :: "bool \<Rightarrow> ('p :: linorder, 'q) flat_side \<Rightarrow> bool" where
  "side_wf isBid s \<longleftrightarrow> length (fs_lvls s) = MaxLevels \<and> fs_size s \<le> MaxLevels
     \<and> sorted_keys (side_order isBid) (side_list s)"

lemma length_side_list: "side_wf isBid s \<Longrightarrow> length (side_list s) = fs_size s"
  by (simp add: side_wf_def side_list_def)

lemma sorted_keys_unique:
  "sorted_keys ord xs \<Longrightarrow> sorted_keys ord ys \<Longrightarrow> map_of xs = map_of ys \<Longrightarrow> xs = ys"
proof (induction xs arbitrary: ys)
  case Nil
  then show ?case by (cases ys) (auto simp: fun_eq_iff split: if_splits)
next
  case (Cons x xs)
  have keys: "fst ` set (x # xs) = fst ` set ys" using Cons.prems(3) by (metis dom_map_of_conv_image_fst)
  then obtain y ys' where ys: "ys = y # ys'" by (cases ys) auto
  have "fst x = fst y"
  proof (rule ccontr)
    assume "fst x \<noteq> fst y"
    with keys ys have "fst x \<in> fst ` set ys'" "fst y \<in> fst ` set xs"
      by (simp_all, (metis insert_iff)+)
    with Cons.prems(1,2) ys have "before ord (fst y) (fst x)" "before ord (fst x) (fst y)" by auto
    then show False using before_trans before_irrefl by blast
  qed
  moreover from this have "snd x = snd y" using fun_cong [OF Cons.prems(3), of "fst x"] ys by simp
  moreover have "map_of zs = (map_of (z # zs))(fst z := None)" if "sorted_keys ord (z # zs)" for z zs
    using sorted_keys_distinct [OF that] by (auto simp: fun_eq_iff map_of_eq_None_iff)
  then have "map_of xs = map_of ys'" using Cons.prems ys \<open>fst x = fst y\<close> by metis
  then have "xs = ys'" using Cons.IH [of ys'] Cons.prems(1,2) ys by simp
  ultimately show ?case using ys by (simp add: prod_eq_iff)
qed

lemma find_price_correct:
  assumes "side_wf isBid s"
  obtains (found) i as q bs where "find_price isBid price s = Some (Some i)" "i < fs_size s"
      "side_list s = as @ (price, q) # bs" "length as = i"
  | (absent) "find_price isBid price s = Some None" "map_of (side_list s) price = None"
proof -
  let ?d = "fs_lvls s" and ?n = "fs_size s"
  have wf: "sorted_keys (side_order isBid) (take ?n ?d)" "?n \<le> length ?d"
    using assms by (simp_all add: side_wf_def side_list_def)
  have "brackets (side_order isBid) price ?d ?n 0 ?n" by (auto simp: brackets_def)
  from find_price_loop_finds [OF wf this] obtain r where r: "find_price isBid price s = Some r"
    "case r of Some i \<Rightarrow> i < ?n \<and> fst (?d ! i) = price | None \<Rightarrow> \<forall>i<?n. fst (?d ! i) \<noteq> price"
    by (auto simp: find_price_def)
  show thesis
  proof (cases r)
    case None
    with r wf(2) have "map_of (side_list s) price = None"
      by (auto simp: side_list_def map_of_eq_None_iff in_set_conv_nth) (metis fst_conv)
    with r None absent show thesis by simp
  next
    case (Some i)
    with r(2) have i: "i < ?n" "fst (?d ! i) = price" by simp_all
    have "side_list s ! i = (price, snd (?d ! i))" using i by (simp add: side_list_def prod_eq_iff)
    then have "side_list s = take i (side_list s) @ (price, snd (?d ! i)) # drop (Suc i) (side_list s)"
      using list_split_at [of i "side_list s"] i wf(2) by (simp add: side_list_def)
    moreover have "length (take i (side_list s)) = i" using i(1) wf(2) by (simp add: side_list_def)
    ultimately show thesis using found r(1) Some i(1) by blast
  qed
qed

lemma find_insert_pos_correct:
  assumes "side_wf isBid s" "map_of (side_list s) price = None"
  obtains pos where "find_insert_pos isBid price s = Some pos" "pos \<le> fs_size s"
    "\<forall>x\<in>set (take pos (side_list s)). before (side_order isBid) (fst x) price"
    "\<forall>x\<in>set (drop pos (side_list s)). before (side_order isBid) price (fst x)"
proof -
  let ?d = "fs_lvls s" and ?n = "fs_size s"
  have wf: "sorted_keys (side_order isBid) (take ?n ?d)" "?n \<le> length ?d"
    using assms(1) by (simp_all add: side_wf_def side_list_def)
  have start: "brackets (side_order isBid) price ?d ?n 0 ?n" by (auto simp: brackets_def)
  have absent: "fst (?d ! i) \<noteq> price" if "i < ?n" for i
    using assms(2) that wf(2) by (force simp: side_list_def map_of_eq_None_iff in_set_conv_nth image_iff)
  from insert_pos_loop_finds [OF wf start absent] obtain pos where pos: "find_insert_pos isBid price s = Some pos"
    "brackets (side_order isBid) price ?d ?n pos pos" by (auto simp: find_insert_pos_def)
  show thesis
  proof (rule that [OF pos(1)])
    show "pos \<le> ?n" using pos(2) by (simp add: brackets_def)
    show "\<forall>x\<in>set (take pos (side_list s)). before (side_order isBid) (fst x) price"
      using pos(2) wf(2) by (auto simp: brackets_def side_list_def in_set_conv_nth) (metis fst_conv)
    show "\<forall>x\<in>set (drop pos (side_list s)). before (side_order isBid) price (fst x)"
    proof
      fix x assume "x \<in> set (drop pos (side_list s))"
      then obtain i where "i < ?n - pos" "x = ?d ! (pos + i)"
        using wf(2) pos(2) by (auto simp: brackets_def side_list_def in_set_conv_nth)
      with pos(2) show "before (side_order isBid) price (fst x)" by (simp add: brackets_def)
    qed
  qed
qed

lemma shift_right_full: "length d = n \<Longrightarrow> pos \<le> n \<Longrightarrow> shift_right pos n d = (if pos < n then None else Some d)"
  by (cases n) auto

text \<open>The map a list of levels is after an update.\<close>

definition put_side :: "'p \<Rightarrow> 'q :: zero \<Rightarrow> ('p \<Rightarrow> 'q option) \<Rightarrow> 'p \<Rightarrow> 'q option" where
  "put_side price qty M = M(price := (if qty = 0 then None else Some qty))"

lemma map_of_between:
  "sorted_keys ord (as @ (k, q) # bs) \<Longrightarrow> map_of (as @ bs) = (map_of (as @ (k, q) # bs))(k := None)
    \<and> map_of (as @ (k, q') # bs) = (map_of (as @ (k, q) # bs))(k \<mapsto> q') \<and> sorted_keys ord (as @ (k, q') # bs)
    \<and> sorted_keys ord (as @ bs)"
  using sorted_keys_distinct [of ord "as @ (k, q) # bs"]
  by (auto simp: fun_eq_iff map_add_def map_of_eq_None_iff sorted_keys_append image_iff split: option.split)

lemma card_levels: "sorted_keys ord xs \<Longrightarrow> card (dom (map_of xs)) = length xs"
  using sorted_keys_distinct [of ord xs] by (metis distinct_card dom_map_of_conv_image_fst length_map set_map)

lemma side_update_map:
  fixes price :: "'p :: linorder" and qty :: "'q :: zero"
  assumes "side_wf isBid s"
  defines "M \<equiv> put_side price qty (map_of (side_list s))"
  shows "if card (dom M) \<le> MaxLevels
    then \<exists>s'. side_update isBid price qty s = Some s' \<and> side_wf isBid s' \<and> map_of (side_list s') = M
    else side_update isBid price qty s = None"
proof -
  let ?d = "fs_lvls s" and ?n = "fs_size s" and ?ord = "side_order isBid"
  have wf: "length ?d = MaxLevels" "?n \<le> MaxLevels" "sorted_keys ?ord (side_list s)"
    using assms(1) by (simp_all add: side_wf_def)
  show ?thesis
  proof (cases rule: find_price_correct [OF assms(1), of price, case_names found absent])
    case (found i as q bs)
    note parts = map_of_between [OF wf(3) [unfolded found(3)], of qty]
    have len: "Suc (length as + length bs) = ?n" using length_side_list [OF assms(1)] found(3) by simp
    have as: "as = take i ?d" "(price, q) = ?d ! i" "bs = take (?n - Suc i) (drop (Suc i) ?d)"
    proof -
      have "take i (side_list s) = as" "side_list s ! i = (price, q)" "drop (Suc i) (side_list s) = bs"
        using found(3,4) by (auto simp: nth_append)
      then show "as = take i ?d" "(price, q) = ?d ! i" "bs = take (?n - Suc i) (drop (Suc i) ?d)"
        using found(2) by (simp_all add: side_list_def drop_take)
    qed
    show ?thesis
    proof (cases "qty = 0")
      case True
      let ?e = "take i ?d @ take (?n - Suc i) (drop (Suc i) ?d) @ drop (?n - 1) ?d"
      have "shift_left (i + 1) ?n ?d = Some ?e"
        using shift_left_eq [of "i + 1" ?n ?d] found(2) wf(1,2) by simp
      then have upd: "side_update isBid price qty s = Some (s\<lparr>fs_lvls := ?e, fs_size := ?n - 1\<rparr>)"
        using found(1) True by (simp add: side_update_def)
      have list': "side_list (s\<lparr>fs_lvls := ?e, fs_size := ?n - 1\<rparr>) = as @ bs"
      proof -
        have "?n - 1 = length (as @ bs)" using len by simp
        then have "take (?n - 1) ((as @ bs) @ drop (?n - 1) ?d) = as @ bs" by simp
        then show ?thesis using as(1,3) by (simp add: side_list_def)
      qed
      have "M = map_of (as @ bs)" using parts True found(3) by (simp add: M_def put_side_def)
      moreover have "card (dom (map_of (as @ bs))) \<le> MaxLevels"
      proof -
        have "card (dom (map_of (as @ bs))) = length (as @ bs)" using card_levels parts by blast
        with len wf(2) show ?thesis by (simp del: map_of_append)
      qed
      moreover have "side_wf isBid (s\<lparr>fs_lvls := ?e, fs_size := ?n - 1\<rparr>)"
        unfolding side_wf_def list' using parts wf(1,2) found(2) by auto
      ultimately show ?thesis using upd list' by auto
    next
      case False
      let ?s = "s\<lparr>fs_lvls := ?d[i := (fst (?d ! i), qty)]\<rparr>"
      have upd: "side_update isBid price qty s = Some ?s" using found(1) False by (simp add: side_update_def)
      have list': "side_list ?s = as @ (price, qty) # bs"
        using found(2,4) as(2) found(3)
        by (simp add: side_list_def take_update_swap) (metis fst_conv list_update_length)
      have "M = map_of (as @ (price, qty) # bs)" using parts False found(3) by (simp add: M_def put_side_def)
      moreover have "card (dom (map_of (as @ (price, qty) # bs))) \<le> MaxLevels"
      proof -
        have "card (dom (map_of (as @ (price, qty) # bs))) = length (as @ (price, qty) # bs)"
          using card_levels parts by blast
        with len wf(2) show ?thesis by (simp del: map_of_append)
      qed
      moreover have "side_wf isBid ?s" unfolding side_wf_def list' using parts wf(1,2) by simp
      ultimately show ?thesis using upd list' by auto
    qed
  next
    case absent
    show ?thesis
    proof (cases "qty = 0")
      case True
      then have "M = map_of (side_list s)" using absent(2) by (auto simp: M_def put_side_def fun_eq_iff)
      moreover have "card (dom (map_of (side_list s))) \<le> MaxLevels"
        using card_levels [OF wf(3)] length_side_list [OF assms(1)] wf(2) by simp
      ultimately show ?thesis using absent(1) True assms(1) by (simp add: side_update_def)
    next
      case False
      obtain pos where pos: "find_insert_pos isBid price s = Some pos" "pos \<le> ?n"
        "\<forall>x\<in>set (take pos (side_list s)). before ?ord (fst x) price"
        "\<forall>x\<in>set (drop pos (side_list s)). before ?ord price (fst x)"
        by (rule find_insert_pos_correct [OF assms(1) absent(2)])
      have "dom M = insert price (dom (map_of (side_list s)))" using False by (auto simp: M_def put_side_def)
      then have card: "card (dom M) = Suc ?n"
        using absent(2) card_levels [OF wf(3)] length_side_list [OF assms(1)]
        by (simp add: finite_dom_map_of domIff)
      show ?thesis
      proof (cases "?n = MaxLevels")
        case True
        then have "shift_right pos ?n ?d = (if pos < ?n then None else Some ?d)"
          using wf(1) pos(2) by (intro shift_right_full) simp_all
        then have "side_update isBid price qty s = None"
          using absent(1) False pos(1,2) True wf(1) by (simp add: side_update_def)
        with card True show ?thesis by simp
      next
        case room: False
        let ?e = "take (Suc pos) ?d @ take (?n - pos) (drop pos ?d) @ drop (Suc ?n) ?d"
        let ?s = "s\<lparr>fs_lvls := ?e[pos := (price, qty)], fs_size := ?n + 1\<rparr>"
        have "shift_right pos ?n ?d = Some ?e"
          using shift_right_eq [OF pos(2), of ?d] room wf(1,2) by simp
        moreover have "pos < length ?e"
        using pos(2) room wf(1,2) by (cases "Suc pos \<le> length ?d") (simp_all add: min_absorb1 min_absorb2)
        ultimately have upd: "side_update isBid price qty s = Some ?s"
          using absent(1) False pos(1) by (simp add: side_update_def)
        let ?new = "take pos (side_list s) @ (price, qty) # drop pos (side_list s)"
        have list': "side_list ?s = ?new"
          using pos(2) room wf(1,2)
          by (cases "?n = pos")
             (simp_all add: side_list_def take_Suc_conv_app_nth list_update_append min_def drop_take Suc_diff_le)
        have parts: "sorted_keys ?ord (take pos (side_list s) @ drop pos (side_list s))" using wf(3) by simp
        have sorted: "sorted_keys ?ord ?new"
          using parts pos(3,4) unfolding sorted_keys_append sorted_keys_Cons by (auto intro: before_trans)
        then have "map_of ?new = (map_of (side_list s))(price \<mapsto> qty)"
          using map_of_between [OF sorted, of qty] by (metis append_take_drop_id fun_upd_upd map_of_between)
        then have "M = map_of ?new" using False by (simp add: M_def put_side_def)
        moreover have "side_wf isBid ?s"
          unfolding side_wf_def list'
        proof (intro conjI sorted)
          have "?n < MaxLevels" using room wf(2) by simp
          then show "length (fs_lvls ?s) = MaxLevels" "fs_size ?s \<le> MaxLevels"
            using pos(2) wf(1) by auto
        qed
        ultimately show ?thesis using upd list' card room wf(2) by auto
      qed
    qed
  qed
qed

text \<open>A side is a bounded table of levels in the sense of the flat map: below its bound it sets and
  removes levels as intended.\<close>

lemma keys_set_level: "x \<in> set (set_level ord k q xs) \<Longrightarrow> fst x = k \<or> (\<exists>y\<in>set xs. fst x = fst y)"
  by (induction xs) (auto split: if_splits)

lemma sorted_set_level: "sorted_keys ord xs \<Longrightarrow> sorted_keys ord (set_level ord k q xs)"
proof (induction xs)
  case (Cons x xs)
  show ?case
  proof (cases "compare_keys ord k (fst x)")
    case True
    with Cons.prems show ?thesis by (auto simp: compare_before intro: before_trans)
  next
    case False
    then have "before ord (fst x) k" "k \<noteq> fst x" by (auto simp: not_compare)
    with False Cons show ?thesis by (auto dest!: keys_set_level)
  qed
qed simp

lemma updated_levels_map:
  assumes "sorted_keys ord xs" "length xs < n \<or> map_of xs k \<noteq> None" "length xs \<le> n"
  shows "map_of (updated_levels n ord k q xs) = put_side k q (map_of xs)"
    "sorted_keys ord (updated_levels n ord k q xs)"
proof -
  have "length (set_level ord k q xs) \<le> n"
  proof (cases "map_of xs k = None")
    case True
    with assms(2) length_set_level [of ord k q xs] show ?thesis by simp
  next
    case False
    have "sorted_keys ord (set_level ord k q xs)" using assms(1) by (rule sorted_set_level)
    then have "length (set_level ord k q xs) = card (dom (map_of (set_level ord k q xs)))" by (simp add: card_levels)
    also have "\<dots> = card (dom (map_of xs))"
      using False map_of_set_level [OF assms(1), of k q] by (simp add: insert_absorb domIff)
    also have "\<dots> = length xs" using assms(1) by (rule card_levels)
    finally show ?thesis using assms(3) by simp
  qed
  then show "map_of (updated_levels n ord k q xs) = put_side k q (map_of xs)"
    using map_of_set_level [OF assms(1)] by (simp add: updated_levels_def map_of_filter_key put_side_def)
  show "sorted_keys ord (updated_levels n ord k q xs)"
    using sorted_set_level [OF assms(1)] assms(1)
    by (simp add: updated_levels_def sorted_keys_take) (simp add: sorted_keys_def sorted_wrt_filter)
qed

interpretation array_side: level_table "side_update isBid" side_list "\<lambda>_. MaxLevels" "side_wf isBid"
    "\<lambda>price s. fs_size s < MaxLevels \<or> map_of (side_list s) price \<noteq> None" "side_order isBid" for isBid
proof
  fix s :: "('p :: linorder, 'q :: zero) flat_side" and price qty
  assume wf: "side_wf isBid s" and room: "fs_size s < MaxLevels \<or> map_of (side_list s) price \<noteq> None"
  have list: "sorted_keys (side_order isBid) (side_list s)" "length (side_list s) \<le> MaxLevels"
    "length (side_list s) < MaxLevels \<or> map_of (side_list s) price \<noteq> None"
    using wf room length_side_list [OF wf] by (simp_all add: side_wf_def)
  note upd = updated_levels_map [OF list(1,3,2), of qty]
  have "length (updated_levels MaxLevels (side_order isBid) price qty (side_list s)) \<le> MaxLevels"
    using list(2) by (auto simp: updated_levels_def intro: le_trans length_filter_le)
  then have "card (dom (put_side price qty (map_of (side_list s)))) \<le> MaxLevels"
    using card_levels [OF upd(2)] upd(1) by simp
  with side_update_map [OF wf, of price qty] obtain s' where s': "side_update isBid price qty s = Some s'"
    "side_wf isBid s'" "map_of (side_list s') = put_side price qty (map_of (side_list s))" by auto
  moreover have "side_list s' = updated_levels MaxLevels (side_order isBid) price qty (side_list s)"
    using s'(2,3) upd by (intro sorted_keys_unique [where ord = "side_order isBid"]) (simp_all add: side_wf_def)
  ultimately show "\<exists>s'. side_update isBid price qty s = Some s' \<and> side_wf isBid s' \<and> MaxLevels = MaxLevels
      \<and> side_list s' = updated_levels MaxLevels (side_order isBid) price qty (side_list s)" by blast
next
  fix s :: "('p :: linorder, 'q :: zero) flat_side"
  assume "side_wf isBid s"
  then show "sorted_keys (side_order isBid) (side_list s) \<and> length (side_list s) \<le> MaxLevels"
    using length_side_list [of isBid s] by (simp add: side_wf_def)
qed

section \<open>Property\<close>

fun side_run :: "bool \<Rightarrow> ('p :: linorder \<times> 'q :: zero) list \<Rightarrow> ('p, 'q) flat_side \<Rightarrow> ('p, 'q) flat_side option" where
  "side_run isBid [] s = Some s"
| "side_run isBid ((price, qty) # us) s = Option.bind (side_update isBid price qty s) (side_run isBid us)"

text \<open>The number of levels at no time exceeds the array.\<close>

fun fits :: "('p \<times> 'q :: zero) list \<Rightarrow> ('p \<Rightarrow> 'q option) \<Rightarrow> bool" where
  "fits [] M = True"
| "fits ((price, qty) # us) M =
     (card (dom (put_side price qty M)) \<le> MaxLevels \<and> fits us (put_side price qty M))"

lemma side_run_map:
  "side_wf isBid s \<Longrightarrow> if fits us (map_of (side_list s))
    then \<exists>s'. side_run isBid us s = Some s' \<and> side_wf isBid s'
      \<and> map_of (side_list s') = fold (\<lambda>(price, qty). put_side price qty) us (map_of (side_list s))
    else side_run isBid us s = None"
proof (induction us arbitrary: s)
  case (Cons u us)
  obtain price qty where u: "u = (price, qty)" by (cases u)
  let ?M = "put_side price qty (map_of (side_list s))"
  note upd = side_update_map [OF Cons.prems, of price qty]
  show ?case
  proof (cases "card (dom ?M) \<le> MaxLevels")
    case True
    with upd obtain s' where "side_update isBid price qty s = Some s'" "side_wf isBid s'" "map_of (side_list s') = ?M"
      by auto
    with Cons.IH [of s'] True u show ?thesis by (cases "fits us ?M") simp_all
  next
    case False
    with upd u show ?thesis by simp
  qed
qed simp

text \<open>C30. From an empty side every sequence of updates sets and removes the levels it names, and the
  array holds them best first, exactly as long as there are never more than 64 levels at once; the
  update that would make a 65th level writes outside the array. The best level is the extreme one.\<close>

theorem flat_side_exact:
  fixes us :: "('p :: {linorder, zero} \<times> 'q :: zero) list"
  shows "if fits us Map.empty
   then \<exists>s. side_run isBid us new_side = Some s
     \<and> map_of (side_list s) = fold (\<lambda>(price, qty). put_side price qty) us Map.empty
     \<and> sorted_wrt (\<lambda>a b. better isBid (fst a) (fst b)) (side_list s)
     \<and> side_best s = (if side_list s = [] then None else Some (hd (side_list s)))
   else side_run isBid us new_side = None"
proof -
  have wf: "side_wf isBid (new_side :: ('p, 'q) flat_side)" and empty: "side_list (new_side :: ('p, 'q) flat_side) = []"
    by (simp_all add: side_wf_def side_list_def new_side_def)
  have best: "side_best s = (if side_list s = [] then None else Some (hd (side_list s)))" if "side_wf isBid s" for s :: "('p, 'q) flat_side"
    using that by (auto simp: side_best_def side_wf_def side_list_def hd_conv_nth MaxLevels_def)
  show ?thesis
  proof (cases "fits us (Map.empty :: 'p \<Rightarrow> 'q option)")
    case True
    with side_run_map [OF wf, of us] obtain s where s: "side_run isBid us new_side = Some s" "side_wf isBid s"
      "map_of (side_list s) = fold (\<lambda>(price, qty). put_side price qty) us Map.empty" by (auto simp: empty)
    from s(2) have "sorted_wrt (\<lambda>a b. better isBid (fst a) (fst b)) (side_list s)"
      by (simp add: side_wf_def sorted_keys_def better_before)
    with True s best [OF s(2)] show ?thesis by auto
  next
    case False
    with side_run_map [OF wf, of us] show ?thesis by (simp add: empty)
  qed
qed

end
