(* ===== verification/Command_Book.thy ===== *)
theory Command_Book
  imports Price_Text String_Tools "HOL-Library.Multiset" "HOL-Library.Sublist" "HOL-Library.Monad_Syntax"
begin

text \<open>
  The order book driven by a file of commands, \<open>DaVinchiTest/DaVinchiTest_LinkedList.cpp\<close>: the parsing
  of a line of seven fields, the book with one list of orders per symbol and side, and its two
  reports. Orders are list nodes shared with an index of iterators: \<open>sb_nodes\<close> is the store of nodes,
  a list holds their addresses, \<open>sb_fresh\<close> is the next address. An access outside an array, to an
  erased node, or the erasing of a node from a list it is not in has no result. The \<open>float\<close> of a price
  is read by the argument \<open>strtof\<close> and only compared; any linear order with a zero stands for it.
\<close>

section \<open>Lines\<close>

datatype command_side = CBuy | CSell

datatype command_operation = OpInsert | OpCancel | OpAmend | OpOther byte

record 'f command_order =
  co_timestamp :: "byte list"
  co_symbol :: "byte list"
  co_id :: "byte list"
  co_volume :: u32
  co_price :: 'f
  co_operation :: command_operation
  co_side :: command_side

definition semicolon :: "byte list" where "semicolon = text_of '';''"

text \<open>The parts go into an array of seven strings; an eighth would be written behind it.\<close>

definition splitOrder :: "byte list \<Rightarrow> byte list list option" where
  "splitOrder str =
    (case split_loop str semicolon 0 [] of
       None \<Rightarrow> None
     | Some parts \<Rightarrow> if length parts \<le> 7 then Some (parts @ replicate (7 - length parts) []) else None)"

definition getOperation :: "byte list \<Rightarrow> command_operation option" where
  "getOperation op =
    (case op of
       [] \<Rightarrow> None
     | c # _ \<Rightarrow> Some (if c = byte_of (CHR ''I'') then OpInsert
                    else if c = byte_of (CHR ''C'') then OpCancel
                    else if c = byte_of (CHR ''A'') then OpAmend else OpOther c))"

definition getSide :: "byte list \<Rightarrow> command_side" where
  "getSide method = (if method = text_of ''BUY'' then CBuy else CSell)"

text \<open>\<open>extractType<uint32_t>\<close>: \<open>std::from_chars\<close> reads the longest prefix of digits and leaves the result,
  zero, unchanged when there is none or the value does not fit.\<close>

definition extract_u32 :: "byte list \<Rightarrow> u32" where
  "extract_u32 str =
    (let ds = takeWhile is_digit str
     in if ds = [] \<or> decimal ds \<ge> 2 ^ 32 then 0 else word_of_int (decimal ds))"

definition parseOrder :: "(byte list \<Rightarrow> 'f) \<Rightarrow> byte list \<Rightarrow> 'f command_order option" where
  "parseOrder strtof rawOrder =
    do {
      params \<leftarrow> splitOrder rawOrder;
      operation \<leftarrow> getOperation (params ! 3);
      Some \<lparr>co_timestamp = params ! 0, co_symbol = params ! 1, co_id = params ! 2,
            co_volume = extract_u32 (params ! 5), co_price = strtof (params ! 6),
            co_operation = operation, co_side = getSide (params ! 4)\<rparr> }"

section \<open>The book (SimpleOrderBook)\<close>

record symbol_orders =
  so_buyOrders :: "nat list"
  so_sellOrders :: "nat list"

definition new_symbol_orders :: symbol_orders where
  "new_symbol_orders = \<lparr>so_buyOrders = [], so_sellOrders = []\<rparr>"

definition getOrders :: "command_side \<Rightarrow> symbol_orders \<Rightarrow> nat list" where
  "getOrders s so = (if s = CBuy then so_buyOrders so else so_sellOrders so)"

definition set_orders :: "command_side \<Rightarrow> nat list \<Rightarrow> symbol_orders \<Rightarrow> symbol_orders" where
  "set_orders s xs so = (if s = CBuy then so\<lparr>so_buyOrders := xs\<rparr> else so\<lparr>so_sellOrders := xs\<rparr>)"

definition symbol_orders_size :: "symbol_orders \<Rightarrow> nat" where
  "symbol_orders_size so = length (so_buyOrders so) + length (so_sellOrders so)"

record 'f simple_book =
  sb_orderBook :: "byte list \<Rightarrow> symbol_orders option"
  sb_ordersById :: "byte list \<Rightarrow> nat option"
  sb_nodes :: "nat \<Rightarrow> 'f command_order option"
  sb_fresh :: nat

definition new_simple_book :: "'f simple_book" where
  "new_simple_book = \<lparr>sb_orderBook = Map.empty, sb_ordersById = Map.empty, sb_nodes = Map.empty, sb_fresh = 0\<rparr>"

text \<open>\<open>processOrder\<close> after the parsing. The entry of the symbol is made in every case; the message on
  the error stream is left out.\<close>

definition symbol_entry :: "byte list \<Rightarrow> 'f simple_book \<Rightarrow> symbol_orders" where
  "symbol_entry symbol b = (case sb_orderBook b symbol of None \<Rightarrow> new_symbol_orders | Some s \<Rightarrow> s)"

definition put_entry :: "byte list \<Rightarrow> symbol_orders \<Rightarrow> 'f simple_book \<Rightarrow> 'f simple_book" where
  "put_entry symbol so b = b\<lparr>sb_orderBook := (sb_orderBook b)(symbol \<mapsto> so)\<rparr>"

definition apply_command :: "'f command_order \<Rightarrow> 'f simple_book \<Rightarrow> 'f simple_book option" where
  "apply_command ord b =
    (let so = symbol_entry (co_symbol ord) b;
         orders = getOrders (co_side ord) so;
         b1 = put_entry (co_symbol ord) so b;
         put = (\<lambda>xs. put_entry (co_symbol ord) (set_orders (co_side ord) xs so))
     in if co_operation ord = OpInsert
        then Some (put (orders @ [sb_fresh b1])
               (b1\<lparr>sb_nodes := (sb_nodes b1)(sb_fresh b1 \<mapsto> ord), sb_fresh := sb_fresh b1 + 1,
                   sb_ordersById := (sb_ordersById b1)(co_id ord \<mapsto> sb_fresh b1)\<rparr>))
        else (case sb_ordersById b1 (co_id ord) of
                None \<Rightarrow> Some b1
              | Some it \<Rightarrow>
                  if co_operation ord = OpCancel
                  then (if it \<in> set orders
                        then Some (put (remove1 it orders)
                               (b1\<lparr>sb_nodes := (sb_nodes b1)(it := None),
                                   sb_ordersById := (sb_ordersById b1)(co_id ord := None)\<rparr>))
                        else None)
                  else if co_operation ord = OpAmend
                  then (case sb_nodes b1 it of
                          None \<Rightarrow> None
                        | Some o1 \<Rightarrow> Some (b1\<lparr>sb_nodes := (sb_nodes b1)(it \<mapsto>
                              o1\<lparr>co_price := co_price ord, co_volume := co_volume ord\<rparr>)\<rparr>))
                  else Some b1))"

definition processOrder :: "(byte list \<Rightarrow> 'f) \<Rightarrow> byte list \<Rightarrow> 'f simple_book \<Rightarrow> 'f simple_book option" where
  "processOrder strtof rawOrder b = Option.bind (parseOrder strtof rawOrder) (\<lambda>ord. apply_command ord b)"

text \<open>\<open>readAndProcessOrders\<close>, over the lines of the file.\<close>

fun process_lines :: "(byte list \<Rightarrow> 'f) \<Rightarrow> byte list list \<Rightarrow> 'f simple_book \<Rightarrow> 'f simple_book option" where
  "process_lines strtof [] b = Some b"
| "process_lines strtof (line # rest) b = Option.bind (processOrder strtof line b) (process_lines strtof rest)"

section \<open>The reports\<close>

definition compareByVolume :: "'f command_order \<Rightarrow> 'f command_order \<Rightarrow> bool" where
  "compareByVolume x y \<longleftrightarrow> co_volume x > co_volume y"

text \<open>\<open>std::make_heap\<close> on at most three elements: the child that \<open>cmp\<close> puts last takes the place of the
  first element unless the first is to stay. It is only called on such vectors.\<close>

fun make_heap :: "('a \<Rightarrow> 'a \<Rightarrow> bool) \<Rightarrow> 'a list \<Rightarrow> 'a list" where
  "make_heap cmp [a, b] = (if cmp b a then [a, b] else [b, a])"
| "make_heap cmp [a, b, c] =
     (if cmp c b then (if cmp b a then [a, b, c] else [b, a, c])
      else (if cmp c a then [a, b, c] else [c, b, a]))"
| "make_heap cmp xs = xs"

fun top_loop :: "'f command_order list \<Rightarrow> 'f command_order list \<Rightarrow> 'f command_order list" where
  "top_loop tops [] = tops"
| "top_loop tops (it # rest) =
     (let h = make_heap compareByVolume tops
      in top_loop (if compareByVolume it (hd h) then it # tl h else h) rest)"

definition topSize :: nat where "topSize = 3"

text \<open>What \<open>BiggestBuyOrders\<close> prints, and \<open>BestSellAtTime\<close>; nothing for an unknown symbol.\<close>

definition orders_of :: "'f simple_book \<Rightarrow> nat list \<Rightarrow> 'f command_order list" where
  "orders_of b xs = map (\<lambda>a. the (sb_nodes b a)) xs"

definition BiggestBuyOrders :: "byte list \<Rightarrow> 'f simple_book \<Rightarrow> 'f command_order list" where
  "BiggestBuyOrders symbol b =
    (case sb_orderBook b symbol of
       None \<Rightarrow> []
     | Some so \<Rightarrow>
         (let buyOrders = orders_of b (so_buyOrders so)
          in top_loop (take topSize buyOrders) (drop topSize buyOrders)))"

definition best_step ::
  "byte list \<Rightarrow> ('f :: linorder) command_order \<Rightarrow> 'f \<times> u32 \<Rightarrow> 'f \<times> u32" where
  "best_step timeStr ord best =
    (if prefix timeStr (co_timestamp ord) \<and> co_price ord > fst best then (co_price ord, co_volume ord) else best)"

definition BestSellAtTime ::
  "byte list \<Rightarrow> byte list \<Rightarrow> ('f :: {linorder, zero}) simple_book \<Rightarrow> ('f \<times> u32) option" where
  "BestSellAtTime symbol timeStr b =
    (case sb_orderBook b symbol of
       None \<Rightarrow> None
     | Some so \<Rightarrow>
         (let best = fold (best_step timeStr) (orders_of b (so_sellOrders so)) (0, 0)
          in if snd best \<noteq> 0 then Some best else None))"

section \<open>The live orders\<close>

text \<open>The specification: the orders that rest, oldest first. A command outside the contract (an
  identifier inserted while it rests; a cancellation with another symbol or side than its order) has
  no meaning.\<close>

definition order_with :: "byte list \<Rightarrow> 'f command_order list \<Rightarrow> 'f command_order option" where
  "order_with k live = find (\<lambda>o1. co_id o1 = k) live"

definition live_step :: "'f command_order \<Rightarrow> 'f command_order list \<Rightarrow> 'f command_order list option" where
  "live_step ord live =
    (case co_operation ord of
       OpInsert \<Rightarrow> if order_with (co_id ord) live = None then Some (live @ [ord]) else None
     | OpCancel \<Rightarrow>
         (case order_with (co_id ord) live of
            None \<Rightarrow> Some live
          | Some o1 \<Rightarrow> if co_symbol o1 = co_symbol ord \<and> co_side o1 = co_side ord
                      then Some (filter (\<lambda>o2. co_id o2 \<noteq> co_id ord) live) else None)
     | OpAmend \<Rightarrow> Some (map (\<lambda>o2. if co_id o2 = co_id ord
                  then o2\<lparr>co_price := co_price ord, co_volume := co_volume ord\<rparr> else o2) live)
     | OpOther _ \<Rightarrow> Some live)"

fun live_run :: "'f command_order list \<Rightarrow> 'f command_order list \<Rightarrow> 'f command_order list option" where
  "live_run [] live = Some live"
| "live_run (ord # ords) live = Option.bind (live_step ord live) (live_run ords)"

definition side_orders :: "'f simple_book \<Rightarrow> byte list \<Rightarrow> command_side \<Rightarrow> nat list" where
  "side_orders b symbol s = (case sb_orderBook b symbol of None \<Rightarrow> [] | Some so \<Rightarrow> getOrders s so)"

definition is_for :: "byte list \<Rightarrow> command_side \<Rightarrow> 'f command_order \<Rightarrow> bool" where
  "is_for symbol s ord \<longleftrightarrow> co_symbol ord = symbol \<and> co_side ord = s"

text \<open>\<open>holds_live b L\<close>: the nodes in use with their orders are the pairs of \<open>L\<close>.\<close>

definition holds_live :: "'f simple_book \<Rightarrow> (nat \<times> 'f command_order) list \<Rightarrow> bool" where
  "holds_live b L \<longleftrightarrow> distinct (map fst L) \<and> distinct (map (co_id \<circ> snd) L)
     \<and> (\<forall>(a, ord)\<in>set L. a < sb_fresh b \<and> sb_nodes b a = Some ord)
     \<and> (\<forall>k a. sb_ordersById b k = Some a \<longleftrightarrow> (\<exists>ord. (a, ord) \<in> set L \<and> co_id ord = k))
     \<and> (\<forall>symbol s. side_orders b symbol s = map fst (filter (\<lambda>(a, ord). is_for symbol s ord) L))"

lemma holds_liveD:
  assumes "holds_live b L"
  shows "distinct (map fst L)" "distinct (map (co_id \<circ> snd) L)"
    "(a, ord) \<in> set L \<Longrightarrow> a < sb_fresh b" "(a, ord) \<in> set L \<Longrightarrow> sb_nodes b a = Some ord"
    "sb_ordersById b k = Some a \<longleftrightarrow> (\<exists>ord. (a, ord) \<in> set L \<and> co_id ord = k)"
    "side_orders b symbol s = map fst (filter (\<lambda>(a, ord). is_for symbol s ord) L)"
  using assms by (auto simp: holds_live_def)

lemma holds_liveI:
  assumes "distinct (map fst L)" "distinct (map (co_id \<circ> snd) L)"
    and "\<And>a ord. (a, ord) \<in> set L \<Longrightarrow> a < sb_fresh b \<and> sb_nodes b a = Some ord"
    and "\<And>k a. sb_ordersById b k = Some a \<longleftrightarrow> (\<exists>ord. (a, ord) \<in> set L \<and> co_id ord = k)"
    and "\<And>symbol s. side_orders b symbol s = map fst (filter (\<lambda>(a, ord). is_for symbol s ord) L)"
  shows "holds_live b L"
  using assms by (auto simp: holds_live_def)

lemma same_node: "holds_live b L \<Longrightarrow> (a, o1) \<in> set L \<Longrightarrow> (a, o2) \<in> set L \<Longrightarrow> o1 = o2"
  using holds_liveD(4) by (metis option.inject)

lemma same_id: "holds_live b L \<Longrightarrow> (a1, o1) \<in> set L \<Longrightarrow> (a2, o2) \<in> set L \<Longrightarrow> co_id o1 = co_id o2 \<Longrightarrow> a1 = a2"
  using holds_liveD(5) [of b L "co_id o1"] by (metis option.inject)

lemma order_with_live:
  assumes "holds_live b L"
  shows "order_with k (map snd L) = None \<longleftrightarrow> sb_ordersById b k = None"
    and "order_with k (map snd L) = Some o1 \<Longrightarrow> \<exists>a. (a, o1) \<in> set L \<and> co_id o1 = k \<and> sb_ordersById b k = Some a"
proof -
  have "order_with k (map snd L) = None \<longleftrightarrow> (\<nexists>a ord. (a, ord) \<in> set L \<and> co_id ord = k)"
    by (auto simp: order_with_def find_None_iff) blast
  also have "\<dots> \<longleftrightarrow> sb_ordersById b k = None"
    using holds_liveD(5) [OF assms, of k] by (metis not_None_eq)
  finally show "order_with k (map snd L) = None \<longleftrightarrow> sb_ordersById b k = None" .
  assume "order_with k (map snd L) = Some o1"
  then have "o1 \<in> set (map snd L)" "co_id o1 = k" by (auto simp: order_with_def find_Some_iff)
  then show "\<exists>a. (a, o1) \<in> set L \<and> co_id o1 = k \<and> sb_ordersById b k = Some a"
    using holds_liveD(5) [OF assms, of k] by force
qed

lemma put_entry_simps [simp]:
  "sb_nodes (put_entry symbol so b) = sb_nodes b" "sb_fresh (put_entry symbol so b) = sb_fresh b"
  "sb_ordersById (put_entry symbol so b) = sb_ordersById b"
  by (simp_all add: put_entry_def)

lemma side_orders_put:
  "side_orders (put_entry symbol so b) symbol' s = (if symbol' = symbol then getOrders s so else side_orders b symbol' s)"
  "side_orders (b\<lparr>sb_nodes := nodes\<rparr>) symbol' s = side_orders b symbol' s"
  "side_orders (b\<lparr>sb_ordersById := index\<rparr>) symbol' s = side_orders b symbol' s"
  "side_orders (b\<lparr>sb_fresh := n\<rparr>) symbol' s = side_orders b symbol' s"
  "getOrders s (symbol_entry symbol b) = side_orders b symbol s"
  "getOrders s (set_orders s' xs so) = (if s = s' then xs else getOrders s so)"
  by (cases s; cases s'; auto simp: side_orders_def put_entry_def getOrders_def set_orders_def symbol_entry_def
      new_symbol_orders_def split: option.split)+

lemma idle_live: "holds_live b L \<Longrightarrow> holds_live (put_entry symbol (symbol_entry symbol b) b) L"
  by (rule holds_liveI) (auto simp: side_orders_put dest: holds_liveD)

lemma insert_live:
  assumes "holds_live b L" "co_operation ord = OpInsert" "order_with (co_id ord) (map snd L) = None"
  shows "\<exists>b'. apply_command ord b = Some b' \<and> holds_live b' (L @ [(sb_fresh b, ord)])"
proof -
  note D = holds_liveD [OF assms(1)]
  have "sb_ordersById b (co_id ord) = None" using assms(3) order_with_live(1) [OF assms(1)] by simp
  then have fresh_id: "co_id o1 \<noteq> co_id ord" if "(a, o1) \<in> set L" for a o1
    using D(5) [of "co_id ord" a] that by auto
  have fresh: "(sb_fresh b, o1) \<notin> set L" for o1 using D(3) by blast
  from assms(2) obtain b' where b': "apply_command ord b = Some b'"
    "sb_nodes b' = (sb_nodes b)(sb_fresh b \<mapsto> ord)" "sb_fresh b' = sb_fresh b + 1"
    "sb_ordersById b' = (sb_ordersById b)(co_id ord \<mapsto> sb_fresh b)"
    "\<And>symbol s. side_orders b' symbol s = (if is_for symbol s ord then side_orders b symbol s @ [sb_fresh b] else side_orders b symbol s)"
    by (auto simp: apply_command_def Let_def side_orders_put is_for_def)
  have "holds_live b' (L @ [(sb_fresh b, ord)])"
  proof (rule holds_liveI)
    show "distinct (map fst (L @ [(sb_fresh b, ord)]))" using D(1) fresh by auto
    show "distinct (map (co_id \<circ> snd) (L @ [(sb_fresh b, ord)]))" using D(2) fresh_id by fastforce
    show "a < sb_fresh b' \<and> sb_nodes b' a = Some o1" if "(a, o1) \<in> set (L @ [(sb_fresh b, ord)])" for a o1
      using that D(3,4) [of a o1] fresh b'(2,3) by (auto dest: less_SucI)
    show "sb_ordersById b' k = Some a \<longleftrightarrow> (\<exists>o1. (a, o1) \<in> set (L @ [(sb_fresh b, ord)]) \<and> co_id o1 = k)" for k a
      using D(5) [of k a] fresh_id fresh b'(4) by (cases "k = co_id ord") auto
    show "side_orders b' symbol s = map fst (filter (\<lambda>(a, o1). is_for symbol s o1) (L @ [(sb_fresh b, ord)]))" for symbol s
      using D(6) [of symbol s] b'(5) by simp
  qed
  with b'(1) show ?thesis by blast
qed

lemma filter_fst: "map fst (filter (\<lambda>(a, x). P a \<and> Q x) L) = filter P (map fst (filter (\<lambda>(a, x). Q x) L))"
  by (induction L) auto

lemma cancel_live:
  assumes "holds_live b L" "co_operation ord = OpCancel" "(it, o1) \<in> set L" "co_id o1 = co_id ord"
    "is_for (co_symbol ord) (co_side ord) o1"
  shows "\<exists>b'. apply_command ord b = Some b' \<and> holds_live b' (filter (\<lambda>(a, o2). co_id o2 \<noteq> co_id ord) L)"
proof -
  note D = holds_liveD [OF assms(1)]
  let ?orders = "side_orders b (co_symbol ord) (co_side ord)"
  let ?L = "filter (\<lambda>(a, o2). co_id o2 \<noteq> co_id ord) L"
  have other: "co_id o2 \<noteq> co_id ord \<longleftrightarrow> a \<noteq> it" if "(a, o2) \<in> set L" for a o2
    using that assms(3,4) same_id [OF assms(1) that assms(3)] same_node [OF assms(1) _ assms(3), of o2] by auto
  have it: "it \<in> set ?orders" using assms(3,5) D(6) [of "co_symbol ord" "co_side ord"] by force
  have not_in: "it \<notin> set (side_orders b symbol s)" if "\<not> is_for symbol s ord" for symbol s
    using that assms(5) same_node [OF assms(1) _ assms(3)] unfolding D(6) by (auto simp: is_for_def)
  have "distinct ?orders" using D(1,6) by (simp add: distinct_map_filter)
  then have rm: "remove1 it ?orders = filter (\<lambda>a. a \<noteq> it) ?orders"
    by (simp add: distinct_remove1_removeAll removeAll_filter_not_eq eq_commute)
  have index: "sb_ordersById b (co_id ord) = Some it" using D(5) assms(3,4) by blast
  with assms(2) it obtain b' where b': "apply_command ord b = Some b'"
    "sb_nodes b' = (sb_nodes b)(it := None)" "sb_fresh b' = sb_fresh b"
    "sb_ordersById b' = (sb_ordersById b)(co_id ord := None)"
    and side: "\<And>symbol s. side_orders b' symbol s = (if is_for symbol s ord then remove1 it ?orders else side_orders b symbol s)"
    by (auto simp: apply_command_def Let_def side_orders_put is_for_def)
  have "filter (\<lambda>a. a \<noteq> it) (side_orders b symbol s) = side_orders b symbol s" if "\<not> is_for symbol s ord" for symbol s
    using not_in [OF that] by (auto simp: filter_id_conv)
  with side rm have lists: "side_orders b' symbol s = filter (\<lambda>a. a \<noteq> it) (side_orders b symbol s)" for symbol s
    by (auto simp: is_for_def)
  have "holds_live b' ?L"
  proof (rule holds_liveI)
    show "distinct (map fst ?L)" "distinct (map (co_id \<circ> snd) ?L)"
      using D(1,2) by (simp_all add: distinct_map_filter)
    show "a < sb_fresh b' \<and> sb_nodes b' a = Some o2" if "(a, o2) \<in> set ?L" for a o2
      using that D(3,4) [of a o2] other [of a o2] b'(2,3) by auto
    show "sb_ordersById b' k = Some a \<longleftrightarrow> (\<exists>o2. (a, o2) \<in> set ?L \<and> co_id o2 = k)" for k a
      using D(5) [of k a] b'(4) by auto
    show "side_orders b' symbol s = map fst (filter (\<lambda>(a, o2). is_for symbol s o2) ?L)" for symbol s
    proof -
      have "filter (\<lambda>(a, o2). is_for symbol s o2) ?L = filter (\<lambda>(a, o2). a \<noteq> it \<and> is_for symbol s o2) L"
        using other by (auto intro!: filter_cong)
      with lists D(6) filter_fst [of "\<lambda>a. a \<noteq> it" "is_for symbol s" L] show ?thesis by simp
    qed
  qed
  with b'(1) show ?thesis by blast
qed

definition amended :: "'f command_order \<Rightarrow> 'f command_order \<Rightarrow> 'f command_order" where
  "amended ord o2 = (if co_id o2 = co_id ord then o2\<lparr>co_price := co_price ord, co_volume := co_volume ord\<rparr> else o2)"

lemma amended_simps [simp]: "co_id (amended ord o2) = co_id o2" "is_for symbol s (amended ord o2) = is_for symbol s o2"
  by (simp_all add: amended_def is_for_def)

lemma amend_live:
  assumes "holds_live b L" "co_operation ord = OpAmend" "(it, o1) \<in> set L" "co_id o1 = co_id ord"
  shows "\<exists>b'. apply_command ord b = Some b' \<and> holds_live b' (map (\<lambda>(a, o2). (a, amended ord o2)) L)"
proof -
  note D = holds_liveD [OF assms(1)]
  let ?L = "map (\<lambda>(a, o2). (a, amended ord o2)) L"
  have index: "sb_ordersById b (co_id ord) = Some it" using D(5) assms(3,4) by blast
  with assms(2,4) D(4) [OF assms(3)] obtain b' where b': "apply_command ord b = Some b'"
    "sb_nodes b' = (sb_nodes b)(it \<mapsto> amended ord o1)" "sb_fresh b' = sb_fresh b" "sb_ordersById b' = sb_ordersById b"
    "\<And>symbol s. side_orders b' symbol s = side_orders b symbol s"
    by (auto simp: apply_command_def Let_def side_orders_put amended_def)
  have "holds_live b' ?L"
  proof (rule holds_liveI)
    have "map fst ?L = map fst L" "map (co_id \<circ> snd) ?L = map (co_id \<circ> snd) L" by auto
    then show "distinct (map fst ?L)" "distinct (map (co_id \<circ> snd) ?L)" using D(1,2) by (simp_all only:)
    show "a < sb_fresh b' \<and> sb_nodes b' a = Some o3" if "(a, o3) \<in> set ?L" for a o3
    proof -
      from that obtain o2 where o2: "(a, o2) \<in> set L" "o3 = amended ord o2" by auto
      have "amended ord o2 = o2" if "a \<noteq> it"
        using o2(1) assms(3,4) that same_id [OF assms(1) o2(1) assms(3)] by (auto simp: amended_def)
      with o2 b'(2,3) D(3,4) [OF o2(1)] same_node [OF assms(1) _ assms(3), of o2] show ?thesis by auto
    qed
    show "sb_ordersById b' k = Some a \<longleftrightarrow> (\<exists>o3. (a, o3) \<in> set ?L \<and> co_id o3 = k)" for k a
      using D(5) [of k a] b'(4) by force
    show "side_orders b' symbol s = map fst (filter (\<lambda>(a, o3). is_for symbol s o3) ?L)" for symbol s
    proof -
      have "map fst (filter (\<lambda>(a, o3). is_for symbol s o3) ?L) = map fst (filter (\<lambda>(a, o2). is_for symbol s o2) L)"
        by (induction L) auto
      then show ?thesis using D(6) [of symbol s] b'(5) by simp
    qed
  qed
  with b'(1) show ?thesis by blast
qed

lemma apply_command_live:
  assumes "holds_live b L" "live_step ord (map snd L) = Some live'"
  shows "\<exists>b' L'. apply_command ord b = Some b' \<and> holds_live b' L' \<and> map snd L' = live'"
proof (cases "co_operation ord")
  case OpInsert
  with assms(2) have "order_with (co_id ord) (map snd L) = None" "live' = map snd L @ [ord]"
    by (auto simp: live_step_def split: if_splits)
  with insert_live [OF assms(1) OpInsert] show ?thesis by fastforce
next
  case OpCancel
  show ?thesis
  proof (cases "order_with (co_id ord) (map snd L)")
    case None
    with OpCancel assms(2) have "live' = map snd L" by (simp add: live_step_def)
    moreover have "apply_command ord b = Some (put_entry (co_symbol ord) (symbol_entry (co_symbol ord) b) b)"
      using None OpCancel order_with_live(1) [OF assms(1), of "co_id ord"] by (simp add: apply_command_def Let_def)
    ultimately show ?thesis using idle_live [OF assms(1)] by blast
  next
    case (Some o1)
    with OpCancel assms(2) have "is_for (co_symbol ord) (co_side ord) o1"
      "live' = filter (\<lambda>o2. co_id o2 \<noteq> co_id ord) (map snd L)"
      by (auto simp: live_step_def is_for_def split: if_splits)
    moreover from order_with_live(2) [OF assms(1) Some] obtain it where "(it, o1) \<in> set L" "co_id o1 = co_id ord" by blast
    ultimately have "\<exists>b'. apply_command ord b = Some b' \<and> holds_live b' (filter (\<lambda>(a, o2). co_id o2 \<noteq> co_id ord) L)"
      using cancel_live [OF assms(1) OpCancel] by blast
    moreover have "map snd (filter (\<lambda>(a, o2). co_id o2 \<noteq> co_id ord) L) = live'"
      unfolding \<open>live' = _\<close> by (induction L) auto
    ultimately show ?thesis by blast
  qed
next
  case OpAmend
  then have live': "live' = map (amended ord) (map snd L)" using assms(2) by (auto simp: live_step_def amended_def fun_eq_iff)
  show ?thesis
  proof (cases "order_with (co_id ord) (map snd L)")
    case None
    then have "co_id o2 \<noteq> co_id ord" if "o2 \<in> set (map snd L)" for o2 using that by (auto simp: order_with_def find_None_iff)
    then have "live' = map snd L" unfolding live' by (intro map_idI) (auto simp: amended_def)
    moreover have "apply_command ord b = Some (put_entry (co_symbol ord) (symbol_entry (co_symbol ord) b) b)"
      using None OpAmend order_with_live(1) [OF assms(1), of "co_id ord"] by (simp add: apply_command_def Let_def)
    ultimately show ?thesis using idle_live [OF assms(1)] by blast
  next
    case (Some o1)
    from order_with_live(2) [OF assms(1) Some] obtain it where "(it, o1) \<in> set L" "co_id o1 = co_id ord" by blast
    from amend_live [OF assms(1) OpAmend this] obtain b' where "apply_command ord b = Some b'"
      "holds_live b' (map (\<lambda>(a, o2). (a, amended ord o2)) L)" by blast
    moreover have "map snd (map (\<lambda>(a, o2). (a, amended ord o2)) L) = live'" unfolding live' by auto
    ultimately show ?thesis by blast
  qed
next
  case (OpOther x)
  with assms(2) have "live' = map snd L" by (simp add: live_step_def)
  moreover have "apply_command ord b = Some (put_entry (co_symbol ord) (symbol_entry (co_symbol ord) b) b)"
    using OpOther by (cases "sb_ordersById b (co_id ord)") (simp_all add: apply_command_def Let_def)
  ultimately show ?thesis using idle_live [OF assms(1)] by blast
qed

section \<open>Lines and their fields\<close>

lemma contains_one [simp]: "contains w [c] \<longleftrightarrow> c \<in> set w"
  by (auto simp: contains_def in_set_conv_decomp)

lemma append_at_first:
  "c \<notin> set x \<Longrightarrow> c \<notin> set y \<Longrightarrow> x @ c # A = y @ c # B \<longleftrightarrow> x = y \<and> A = B"
proof (induction x arbitrary: y)
  case Nil
  then show ?case by (cases y) auto
next
  case (Cons a x)
  then show ?case by (cases y) auto
qed

lemma join_unique:
  "join [c] xs = join [c] ys \<Longrightarrow> xs \<noteq> [] \<Longrightarrow> ys \<noteq> [] \<Longrightarrow> \<forall>w\<in>set xs \<union> set ys. c \<notin> set w \<Longrightarrow> xs = ys"
proof (induction xs arbitrary: ys)
  case (Cons x xs)
  then obtain y ys' where ys: "ys = y # ys'" by (cases ys) auto
  show ?case
  proof (cases xs)
    case Nil
    with Cons.prems ys show ?thesis by (cases ys') auto
  next
    case (Cons v vs)
    show ?thesis
    proof (cases ys')
      case Nil
      with Cons Cons.prems ys show ?thesis by auto
    next
      case (Cons u us)
      with \<open>xs = v # vs\<close> Cons.prems ys have "x @ c # join [c] xs = y @ c # join [c] ys'" by simp
      then have "x = y" "join [c] xs = join [c] ys'"
        using Cons.prems(4) ys append_at_first [of c x y] by auto
      with Cons.IH [of ys'] \<open>xs = v # vs\<close> Cons Cons.prems(4) ys show ?thesis by auto
    qed
  qed
qed simp

lemma split_join:
  assumes "parts \<noteq> []" "\<forall>w\<in>set parts. byte_of (CHR '';'') \<notin> set w"
  shows "split_loop (join semicolon parts) semicolon 0 [] = Some parts"
proof -
  have semi: "semicolon = [byte_of (CHR '';'')]" by (simp add: semicolon_def)
  obtain ps where ps: "split_loop (join semicolon parts) semicolon 0 [] = Some ps" "ps \<noteq> []"
    "join semicolon ps = join semicolon parts" "list_all (\<lambda>w. \<not> contains w semicolon) ps"
    using split_loop_parts [of semicolon 0 "join semicolon parts" "[]"] by (auto simp: semi)
  have "ps = parts"
    using ps(2-4) assms join_unique [of "byte_of (CHR '';'')" ps parts] by (auto simp: semi list_all_iff)
  with ps(1) show ?thesis by simp
qed

definition operation_text :: "command_operation \<Rightarrow> byte list" where
  "operation_text op = (case op of OpInsert \<Rightarrow> text_of ''I'' | OpCancel \<Rightarrow> text_of ''C'' | OpAmend \<Rightarrow> text_of ''A'' | OpOther c \<Rightarrow> [c])"

definition side_text :: "command_side \<Rightarrow> byte list" where
  "side_text s = (case s of CBuy \<Rightarrow> text_of ''BUY'' | CSell \<Rightarrow> text_of ''SELL'')"

text \<open>A line written in the documented format is read back as the order it describes.\<close>

theorem command_line_round_trip:
  assumes "\<forall>w\<in>{timestamp, symbol, orderId, volume, price}. byte_of (CHR '';'') \<notin> set w"
    and "op \<in> {OpInsert, OpCancel, OpAmend}" "volume \<noteq> []" "\<forall>c\<in>set volume. is_digit c" "decimal volume < 2 ^ 32"
  shows "parseOrder strtof (join semicolon [timestamp, symbol, orderId, operation_text op, side_text s, volume, price])
    = Some \<lparr>co_timestamp = timestamp, co_symbol = symbol, co_id = orderId, co_volume = word_of_int (decimal volume),
        co_price = strtof price, co_operation = op, co_side = s\<rparr>"
proof -
  have texts: "byte_of (CHR '';'') \<notin> set (operation_text op)" "byte_of (CHR '';'') \<notin> set (side_text s)"
    "getOperation (operation_text op) = Some op" "getSide (side_text s) = s"
    using assms(2) by (cases s; auto simp: operation_text_def side_text_def getOperation_def getSide_def byte_of_def)+
  have "takeWhile is_digit volume = volume" using assms(4) by simp
  then have "extract_u32 volume = word_of_int (decimal volume)"
    unfolding extract_u32_def Let_def using assms(3,5) by (simp only: if_False not_le [symmetric] HOL.simp_thms)
  moreover have "splitOrder (join semicolon [timestamp, symbol, orderId, operation_text op, side_text s, volume, price])
      = Some [timestamp, symbol, orderId, operation_text op, side_text s, volume, price]"
    unfolding splitOrder_def by (subst split_join) (use assms(1) texts in auto)
  ultimately show ?thesis using texts by (simp add: parseOrder_def)
qed

section \<open>Properties\<close>

lemma live_lines:
  assumes "holds_live b L" "map (parseOrder strtof) lines = map Some ords" "live_run ords (map snd L) = Some live"
  shows "\<exists>b' L'. process_lines strtof lines b = Some b' \<and> holds_live b' L' \<and> map snd L' = live"
  using assms
proof (induction lines arbitrary: b L ords)
  case (Cons line lines)
  then obtain ord ords' where ords: "ords = ord # ords'" "parseOrder strtof line = Some ord"
    "map (parseOrder strtof) lines = map Some ords'" by (cases ords) auto
  with Cons.prems(3) obtain live1 where l1: "live_step ord (map snd L) = Some live1" "live_run ords' live1 = Some live"
    by (auto simp: bind_eq_Some_conv)
  from apply_command_live [OF Cons.prems(1) l1(1)] obtain b1 L1 where b1: "apply_command ord b = Some b1"
    "holds_live b1 L1" "map snd L1 = live1" by blast
  with Cons.IH [OF b1(2) ords(3)] l1(2) ords(2) show ?case by (simp add: processOrder_def)
qed auto

lemma holds_live_orders:
  assumes "holds_live b L"
  shows "map (sb_nodes b) (side_orders b symbol s) = map Some (filter (is_for symbol s) (map snd L))"
proof -
  have "map (sb_nodes b) (side_orders b symbol s) = map (\<lambda>(a, ord). Some ord) (filter (\<lambda>(a, ord). is_for symbol s ord) L)"
    unfolding holds_liveD(6) [OF assms] using holds_liveD(4) [OF assms] by auto
  also have "\<dots> = map Some (filter (is_for symbol s) (map snd L))"
    by (induction L) auto
  finally show ?thesis .
qed

text \<open>C31. Reading the lines of a file whose commands keep the contract never touches an erased order,
  and the book then holds for every symbol and side exactly the live orders, oldest first, with their
  last price and volume, and finds each by its identifier.\<close>

theorem simple_book_tracks_live_orders:
  assumes "map (parseOrder strtof) lines = map Some ords" "live_run ords [] = Some live"
  shows "\<exists>b. process_lines strtof lines new_simple_book = Some b
    \<and> map (sb_nodes b) (side_orders b symbol s) = map Some (filter (is_for symbol s) live)
    \<and> Option.bind (sb_ordersById b k) (sb_nodes b) = order_with k live"
proof -
  have "holds_live new_simple_book []"
    by (rule holds_liveI) (simp_all add: new_simple_book_def side_orders_def)
  from live_lines [OF this assms(1)] assms(2) obtain b L where b: "process_lines strtof lines new_simple_book = Some b"
    "holds_live b L" "map snd L = live" by auto
  have "Option.bind (sb_ordersById b k) (sb_nodes b) = order_with k live"
  proof (cases "order_with k live")
    case None
    with order_with_live(1) [OF b(2), of k] b(3) show ?thesis by simp
  next
    case (Some o1)
    with order_with_live(2) [OF b(2), of k o1] b(3) holds_liveD(4) [OF b(2)] show ?thesis by auto
  qed
  with b holds_live_orders [OF b(2)] show ?thesis by auto
qed

definition sample_lines :: "byte list list" where
  "sample_lines = map (\<lambda>(k, op, s, v, p). join semicolon [text_of ''14:17'', text_of ''DVAM1'', k, operation_text op, side_text s, v, p])
     [(text_of ''1'', OpInsert, CBuy, text_of ''100'', text_of ''12''),
      (text_of ''2'', OpInsert, CBuy, text_of ''37'', text_of ''13''),
      (text_of ''1'', OpAmend, CBuy, text_of ''90'', text_of ''11''),
      (text_of ''2'', OpCancel, CBuy, text_of ''37'', text_of ''13'')]"

definition sample_command :: "byte list \<Rightarrow> command_operation \<Rightarrow> u32 \<Rightarrow> int \<Rightarrow> int command_order" where
  "sample_command k op v p = \<lparr>co_timestamp = text_of ''14:17'', co_symbol = text_of ''DVAM1'', co_id = k,
     co_volume = v, co_price = p, co_operation = op, co_side = CBuy\<rparr>"

lemma sample_line:
  assumes "byte_of (CHR '';'') \<notin> set k" "byte_of (CHR '';'') \<notin> set v" "byte_of (CHR '';'') \<notin> set p"
    "op \<in> {OpInsert, OpCancel, OpAmend}" "v \<noteq> []" "\<forall>c\<in>set v. is_digit c" "decimal v < 2 ^ 32"
  shows "parseOrder decimal (join semicolon [text_of ''14:17'', text_of ''DVAM1'', k, operation_text op, side_text CBuy, v, p])
    = Some (sample_command k op (word_of_int (decimal v)) (decimal p))"
  unfolding sample_command_def
  by (rule command_line_round_trip) (use assms in \<open>auto simp: byte_of_def\<close>)

lemma sample_parses: "map (parseOrder decimal) sample_lines = map Some
  [sample_command (text_of ''1'') OpInsert 100 12, sample_command (text_of ''2'') OpInsert 37 13,
   sample_command (text_of ''1'') OpAmend 90 11, sample_command (text_of ''2'') OpCancel 37 13]"
proof -
  have d: "decimal (text_of ''100'') = 100" "decimal (text_of ''37'') = 37" "decimal (text_of ''90'') = 90"
    "decimal (text_of ''12'') = 12" "decimal (text_of ''13'') = 13" "decimal (text_of ''11'') = 11"
    by (simp_all add: decimal_def byte_of_def)
  have 1: "parseOrder decimal (join semicolon [text_of ''14:17'', text_of ''DVAM1'', text_of ''1'', operation_text OpInsert,
      side_text CBuy, text_of ''100'', text_of ''12'']) = Some (sample_command (text_of ''1'') OpInsert (word_of_int 100) 12)"
    by (rule sample_line [of _ "text_of ''100''" "text_of ''12''", unfolded d]) (simp_all add: byte_of_def is_digit_def)
  have 2: "parseOrder decimal (join semicolon [text_of ''14:17'', text_of ''DVAM1'', text_of ''2'', operation_text OpInsert,
      side_text CBuy, text_of ''37'', text_of ''13'']) = Some (sample_command (text_of ''2'') OpInsert (word_of_int 37) 13)"
    by (rule sample_line [of _ "text_of ''37''" "text_of ''13''", unfolded d]) (simp_all add: byte_of_def is_digit_def)
  have 3: "parseOrder decimal (join semicolon [text_of ''14:17'', text_of ''DVAM1'', text_of ''1'', operation_text OpAmend,
      side_text CBuy, text_of ''90'', text_of ''11'']) = Some (sample_command (text_of ''1'') OpAmend (word_of_int 90) 11)"
    by (rule sample_line [of _ "text_of ''90''" "text_of ''11''", unfolded d]) (simp_all add: byte_of_def is_digit_def)
  have 4: "parseOrder decimal (join semicolon [text_of ''14:17'', text_of ''DVAM1'', text_of ''2'', operation_text OpCancel,
      side_text CBuy, text_of ''37'', text_of ''13'']) = Some (sample_command (text_of ''2'') OpCancel (word_of_int 37) 13)"
    by (rule sample_line [of _ "text_of ''37''" "text_of ''13''", unfolded d]) (simp_all add: byte_of_def is_digit_def)
  have "map (parseOrder decimal) sample_lines = map Some
    [sample_command (text_of ''1'') OpInsert (word_of_int 100) 12, sample_command (text_of ''2'') OpInsert (word_of_int 37) 13,
     sample_command (text_of ''1'') OpAmend (word_of_int 90) 11, sample_command (text_of ''2'') OpCancel (word_of_int 37) 13]"
    by (simp only: sample_lines_def list.map(1) list.map(2) prod.case
        1 [unfolded list.map(1) list.map(2)] 2 [unfolded list.map(1) list.map(2)]
        3 [unfolded list.map(1) list.map(2)] 4 [unfolded list.map(1) list.map(2)])
  then show ?thesis by (simp only: word_of_int_numeral)
qed

theorem simple_book_tracks_live_orders_witness:
  "\<exists>b. process_lines decimal sample_lines new_simple_book = Some b
     \<and> map (sb_nodes b) (side_orders b (text_of ''DVAM1'') CBuy) = [Some (sample_command (text_of ''1'') OpInsert 90 11)]"
proof -
  have "live_run [sample_command (text_of ''1'') OpInsert 100 12, sample_command (text_of ''2'') OpInsert 37 13,
      sample_command (text_of ''1'') OpAmend 90 11, sample_command (text_of ''2'') OpCancel 37 13] []
    = Some [sample_command (text_of ''1'') OpInsert 90 11]"
    by (simp add: sample_command_def live_step_def order_with_def byte_of_def)
  from simple_book_tracks_live_orders [OF sample_parses this, of "text_of ''DVAM1''" CBuy "[]"] show ?thesis
    by (auto simp: is_for_def sample_command_def)
qed

lemma make_heap_min:
  assumes "xs \<noteq> []" "length xs \<le> 3"
  shows "mset (make_heap compareByVolume xs) = mset xs"
    and "\<forall>x\<in>set xs. co_volume (hd (make_heap compareByVolume xs)) \<le> co_volume x"
proof -
  from assms obtain a b c where "xs = [a] \<or> xs = [a, b] \<or> xs = [a, b, c]"
    by (cases xs; cases "tl xs"; cases "tl (tl xs)"; auto)
  then show "mset (make_heap compareByVolume xs) = mset xs"
    "\<forall>x\<in>set xs. co_volume (hd (make_heap compareByVolume xs)) \<le> co_volume x"
    by (auto simp: compareByVolume_def)
qed

lemma top_loop_largest:
  assumes "length tops \<le> 3" "tops = [] \<Longrightarrow> rest = []" "\<forall>t\<in>set tops. \<forall>x\<in>#Q. co_volume x \<le> co_volume t"
  shows "\<exists>Q'. mset tops + Q + mset rest = mset (top_loop tops rest) + Q' \<and> length (top_loop tops rest) = length tops
    \<and> (\<forall>t\<in>set (top_loop tops rest). \<forall>x\<in>#Q'. co_volume x \<le> co_volume t)"
  using assms
proof (induction rest arbitrary: tops Q)
  case (Cons it rest)
  then have ne: "tops \<noteq> []" by auto
  let ?h = "make_heap compareByVolume tops"
  note heap = make_heap_min [OF ne Cons.prems(1)]
  have set_h: "set ?h = set tops" and len_h: "length ?h = length tops"
    using mset_eq_setD [OF heap(1)] mset_eq_length [OF heap(1)] by simp_all
  then obtain m hs where h: "?h = m # hs" using ne by (cases ?h) auto
  show ?case
  proof (cases "co_volume it > co_volume m")
    case True
    have "\<forall>t\<in>set (it # hs). \<forall>x\<in>#add_mset m Q. co_volume x \<le> co_volume t"
    proof (intro ballI)
      fix t x assume t: "t \<in> set (it # hs)" and x: "x \<in># add_mset m Q"
      have "co_volume x \<le> co_volume m" using x Cons.prems(3) set_h h by auto
      moreover have "co_volume m \<le> co_volume t" using t True heap(2) set_h h by auto
      ultimately show "co_volume x \<le> co_volume t" by simp
    qed
    from Cons.IH [OF _ _ this] obtain Q' where Q': "mset (it # hs) + add_mset m Q + mset rest = mset (top_loop (it # hs) rest) + Q'"
      "length (top_loop (it # hs) rest) = length (it # hs)"
      "\<forall>t\<in>set (top_loop (it # hs) rest). \<forall>x\<in>#Q'. co_volume x \<le> co_volume t"
      using Cons.prems(1) len_h h by auto
    have "top_loop tops (it # rest) = top_loop (it # hs) rest" using True h by (simp add: compareByVolume_def)
    moreover have "mset tops + Q + mset (it # rest) = mset (top_loop (it # hs) rest) + Q'"
      using heap(1) h unfolding Q'(1) [symmetric] by (simp add: union_ac)
    moreover have "length (it # hs) = length tops" using len_h h by simp
    ultimately show ?thesis using Q'(2,3) by metis
  next
    case False
    have "\<forall>t\<in>set ?h. \<forall>x\<in>#add_mset it Q. co_volume x \<le> co_volume t"
      using False heap(2) Cons.prems(3) set_h h by (fastforce intro: order_trans)
    from Cons.IH [OF _ _ this] obtain Q' where Q': "mset ?h + add_mset it Q + mset rest = mset (top_loop ?h rest) + Q'"
      "length (top_loop ?h rest) = length ?h" "\<forall>t\<in>set (top_loop ?h rest). \<forall>x\<in>#Q'. co_volume x \<le> co_volume t"
      using Cons.prems(1) len_h h by auto
    have "top_loop tops (it # rest) = top_loop ?h rest" using False h by (simp add: compareByVolume_def)
    moreover have "mset tops + Q + mset (it # rest) = mset (top_loop ?h rest) + Q'"
      using heap(1) unfolding Q'(1) [symmetric] by (simp add: union_ac)
    ultimately show ?thesis using Q'(2,3) len_h by metis
  qed
qed auto

text \<open>The report of the biggest buy orders lists three orders of the symbol, or all if there are
  fewer, and no order left out has a larger volume than a listed one.\<close>

theorem biggest_buy_orders_are_largest:
  assumes "sb_orderBook b symbol = Some so"
  shows "\<exists>rest. mset (orders_of b (so_buyOrders so)) = mset (BiggestBuyOrders symbol b) + rest
    \<and> length (BiggestBuyOrders symbol b) = min 3 (length (so_buyOrders so))
    \<and> (\<forall>t\<in>set (BiggestBuyOrders symbol b). \<forall>x\<in>#rest. co_volume x \<le> co_volume t)"
proof -
  let ?os = "orders_of b (so_buyOrders so)"
  have "mset ?os = mset (take 3 ?os) + {#} + mset (drop 3 ?os)"
    by (metis add.right_neutral append_take_drop_id mset_append)
  moreover have "take 3 ?os = [] \<Longrightarrow> drop 3 ?os = []" by simp
  moreover have "length ?os = length (so_buyOrders so)" by (simp add: orders_of_def)
  ultimately show ?thesis
    using top_loop_largest [of "take 3 ?os" "drop 3 ?os" "{#}"] assms
    by (simp add: BiggestBuyOrders_def topSize_def Let_def min.commute)
qed

theorem biggest_buy_orders_are_largest_witness:
  "map co_volume (BiggestBuyOrders [1] \<lparr>sb_orderBook = [[1] \<mapsto> \<lparr>so_buyOrders = [0, 1, 2, 3], so_sellOrders = []\<rparr>],
     sb_ordersById = Map.empty, sb_nodes = (\<lambda>a. Some (sample_command [] OpInsert (word_of_nat (5 - a)) 1)), sb_fresh = 4\<rparr>) = [3, 4, 5]
   \<and> length (BiggestBuyOrders [1] \<lparr>sb_orderBook = [[1] \<mapsto> \<lparr>so_buyOrders = [0, 1, 2, 3], so_sellOrders = []\<rparr>],
     sb_ordersById = Map.empty, sb_nodes = (\<lambda>a. Some (sample_command [] OpInsert (word_of_nat (5 - a)) 1)), sb_fresh = 4\<rparr>) = 3"
  using biggest_buy_orders_are_largest [of "\<lparr>sb_orderBook = [[1] \<mapsto> \<lparr>so_buyOrders = [0, 1, 2, 3], so_sellOrders = []\<rparr>],
     sb_ordersById = Map.empty, sb_nodes = (\<lambda>a. Some (sample_command [] OpInsert (word_of_nat (5 - a)) 1)), sb_fresh = 4\<rparr>" "[1]"
     "\<lparr>so_buyOrders = [0, 1, 2, 3], so_sellOrders = []\<rparr>"]
  by (simp add: BiggestBuyOrders_def orders_of_def topSize_def sample_command_def compareByVolume_def)

text \<open>The report of the best sell order: the first with the highest price among those whose
  timestamp has the given beginning.\<close>

lemma best_sell_fold:
  shows "fst p0 \<le> fst (fold (best_step timeStr) os p0)"
    and "x \<in> set os \<Longrightarrow> prefix timeStr (co_timestamp x) \<Longrightarrow> co_price x \<le> fst (fold (best_step timeStr) os p0)"
    and "fold (best_step timeStr) os p0 = p0
      \<or> (\<exists>x\<in>set os. prefix timeStr (co_timestamp x) \<and> fold (best_step timeStr) os p0 = (co_price x, co_volume x))"
proof -
  have mono: "fst p \<le> fst (fold (best_step timeStr) os p)" for os p
    by (induction os arbitrary: p) (auto simp: best_step_def intro: order_trans less_imp_le)
  show "fst p0 \<le> fst (fold (best_step timeStr) os p0)" by (rule mono)
  show "x \<in> set os \<Longrightarrow> prefix timeStr (co_timestamp x) \<Longrightarrow> co_price x \<le> fst (fold (best_step timeStr) os p0)"
  proof (induction os arbitrary: p0)
    case (Cons y os)
    show ?case
    proof (cases "x = y")
      case True
      then have "co_price x \<le> fst (best_step timeStr y p0)" using Cons.prems(2) by (simp add: best_step_def not_less)
      with mono [of "best_step timeStr y p0" os] show ?thesis by simp
    next
      case False
      with Cons show ?thesis by simp
    qed
  qed simp
  show "fold (best_step timeStr) os p0 = p0 \<or> (\<exists>x\<in>set os. prefix timeStr (co_timestamp x) \<and> fold (best_step timeStr) os p0 = (co_price x, co_volume x))"
  proof (induction os arbitrary: p0)
    case (Cons y os)
    from Cons.IH [of "best_step timeStr y p0"] show ?case by (auto simp: best_step_def)
  qed simp
qed

end
