(* ===== verification/Priced_Book.thy ===== *)
theory Priced_Book
  imports Command_Book
begin

text \<open>
  The other book of the command file, \<open>DaVinchiTest/DaVinchiTest.cpp\<close>: per symbol and side a
  \<open>std::map\<close> from prices to orders, so one order per price, and an index of map iterators by
  identifier. A map node is an address in \<open>pb_nodes\<close> with its key and order; erasing through an
  iterator has a result only if its node is in the map it is erased from. A cancellation or amendment
  of an unknown identifier goes on with the end iterator and has no result. The \<open>float\<close> is read by the
  argument \<open>from_chars\<close>; the map's key is its conversion to \<open>double\<close>, which is exact.
\<close>

section \<open>Parsing\<close>

definition split_line :: "byte list \<Rightarrow> byte list list option" where
  "split_line str = split_loop str semicolon 0 []"

definition parse_priced :: "(byte list \<Rightarrow> 'f) \<Rightarrow> byte list \<Rightarrow> 'f command_order option" where
  "parse_priced from_chars rawOrder =
    do {
      params \<leftarrow> split_line rawOrder;
      if length params < 7 then None else do {
      operation \<leftarrow> getOperation (params ! 3);
      Some \<lparr>co_timestamp = params ! 0, co_symbol = params ! 1, co_id = params ! 2,
            co_volume = extract_u32 (params ! 5), co_price = from_chars (params ! 6),
            co_operation = operation, co_side = getSide (params ! 4)\<rparr> } }"

section \<open>The book\<close>

record 'f priced_sides =
  ps_buyOrders :: "'f \<Rightarrow> nat option"
  ps_sellOrders :: "'f \<Rightarrow> nat option"

definition no_sides :: "'f priced_sides" where
  "no_sides = \<lparr>ps_buyOrders = Map.empty, ps_sellOrders = Map.empty\<rparr>"

definition side_prices :: "command_side \<Rightarrow> 'f priced_sides \<Rightarrow> 'f \<Rightarrow> nat option" where
  "side_prices s so = (if s = CBuy then ps_buyOrders so else ps_sellOrders so)"

definition set_side_prices :: "command_side \<Rightarrow> ('f \<Rightarrow> nat option) \<Rightarrow> 'f priced_sides \<Rightarrow> 'f priced_sides" where
  "set_side_prices s m so = (if s = CBuy then so\<lparr>ps_buyOrders := m\<rparr> else so\<lparr>ps_sellOrders := m\<rparr>)"

record 'f priced_book =
  pb_orderBook :: "byte list \<Rightarrow> 'f priced_sides option"
  pb_ordersById :: "byte list \<Rightarrow> nat option"
  pb_nodes :: "nat \<Rightarrow> ('f \<times> 'f command_order) option"
  pb_fresh :: nat

definition new_priced_book :: "'f priced_book" where
  "new_priced_book = \<lparr>pb_orderBook = Map.empty, pb_ordersById = Map.empty, pb_nodes = Map.empty, pb_fresh = 0\<rparr>"

definition priced_entry :: "byte list \<Rightarrow> 'f priced_book \<Rightarrow> 'f priced_sides" where
  "priced_entry symbol b = (case pb_orderBook b symbol of None \<Rightarrow> no_sides | Some so \<Rightarrow> so)"

text \<open>Writing the map of a side back, with the entry of the symbol made.\<close>

definition put_prices :: "byte list \<Rightarrow> command_side \<Rightarrow> ('f \<Rightarrow> nat option) \<Rightarrow> 'f priced_book \<Rightarrow> 'f priced_book" where
  "put_prices symbol s m b =
     b\<lparr>pb_orderBook := (pb_orderBook b)(symbol \<mapsto> set_side_prices s m (priced_entry symbol b))\<rparr>"

text \<open>A node inserted at a free price, and a node erased through its iterator.\<close>

definition insert_node ::
  "'f command_order \<Rightarrow> ('f \<Rightarrow> nat option) \<Rightarrow> 'f priced_book \<Rightarrow> 'f priced_book" where
  "insert_node ord orders b =
    (put_prices (co_symbol ord) (co_side ord) (orders(co_price ord \<mapsto> pb_fresh b)) b)
       \<lparr>pb_nodes := (pb_nodes b)(pb_fresh b \<mapsto> (co_price ord, ord)), pb_fresh := pb_fresh b + 1,
        pb_ordersById := (pb_ordersById b)(co_id ord \<mapsto> pb_fresh b)\<rparr>"

definition erase_node :: "nat \<Rightarrow> 'f command_order \<Rightarrow> 'f priced_book \<Rightarrow> 'f priced_book option" where
  "erase_node it ord b =
    (let orders = side_prices (co_side ord) (priced_entry (co_symbol ord) b)
     in case pb_nodes b it of
          None \<Rightarrow> None
        | Some (price, o1) \<Rightarrow>
            if orders price = Some it
            then Some ((put_prices (co_symbol ord) (co_side ord) (orders(price := None)) b)
                         \<lparr>pb_nodes := (pb_nodes b)(it := None)\<rparr>)
            else None)"

text \<open>\<open>processRawOrder2\<close> after the parsing.\<close>

definition apply_priced :: "'f command_order \<Rightarrow> 'f priced_book \<Rightarrow> 'f priced_book option" where
  "apply_priced ord b0 =
    (let orders = side_prices (co_side ord) (priced_entry (co_symbol ord) b0);
         b = put_prices (co_symbol ord) (co_side ord) orders b0
     in case co_operation ord of
          OpCancel \<Rightarrow>
            do { it \<leftarrow> pb_ordersById b (co_id ord);
                 b1 \<leftarrow> erase_node it ord b;
                 Some (b1\<lparr>pb_ordersById := (pb_ordersById b1)(co_id ord := None)\<rparr>) }
        | OpAmend \<Rightarrow>
            do { it \<leftarrow> pb_ordersById b (co_id ord);
                 (price, o1) \<leftarrow> pb_nodes b it;
                 if co_price ord \<noteq> co_price o1
                 then do { b1 \<leftarrow> erase_node it ord b;
                           let orders1 = side_prices (co_side ord) (priced_entry (co_symbol ord) b1);
                           Some (case orders1 (co_price ord) of
                                   Some it2 \<Rightarrow> b1\<lparr>pb_ordersById := (pb_ordersById b1)(co_id ord \<mapsto> it2)\<rparr>
                                 | None \<Rightarrow> insert_node ord orders1 b1) }
                 else Some (b\<lparr>pb_nodes := (pb_nodes b)(it \<mapsto> (price, o1\<lparr>co_volume := co_volume ord\<rparr>))\<rparr>) }
        | OpInsert \<Rightarrow>
            Some (if orders (co_price ord) = None then insert_node ord orders b else b)
        | OpOther _ \<Rightarrow> Some b)"

definition processRawOrder2 :: "(byte list \<Rightarrow> 'f) \<Rightarrow> byte list \<Rightarrow> 'f priced_book \<Rightarrow> 'f priced_book option" where
  "processRawOrder2 from_chars rawOrder b = Option.bind (parse_priced from_chars rawOrder) (\<lambda>ord. apply_priced ord b)"

text \<open>\<open>processRawOrder\<close>, which no longer has a caller: volumes added up per price, without the index. Its
  prints are left out.\<close>

definition empty_order :: "('f :: zero) command_order" where
  "empty_order = \<lparr>co_timestamp = [], co_symbol = [], co_id = [], co_volume = 0, co_price = 0,
     co_operation = OpInsert, co_side = CBuy\<rparr>"

definition processRawOrder ::
  "(byte list \<Rightarrow> 'f :: zero) \<Rightarrow> byte list \<Rightarrow> 'f priced_book \<Rightarrow> 'f priced_book option" where
  "processRawOrder from_chars rawOrder b0 =
    do {
      ord \<leftarrow> parse_priced from_chars rawOrder;
      let orders = side_prices (co_side ord) (priced_entry (co_symbol ord) b0);
      let b = put_prices (co_symbol ord) (co_side ord) orders b0;
      if co_operation ord = OpInsert
      then (case orders (co_price ord) of
              Some it \<Rightarrow>
                do { (price, o1) \<leftarrow> pb_nodes b it;
                     Some (b\<lparr>pb_nodes := (pb_nodes b)(it \<mapsto> (price, o1\<lparr>co_volume := co_volume o1 + co_volume ord\<rparr>))\<rparr>) }
            | None \<Rightarrow>
                Some ((put_prices (co_symbol ord) (co_side ord) (orders(co_price ord \<mapsto> pb_fresh b)) b)
                  \<lparr>pb_nodes := (pb_nodes b)(pb_fresh b \<mapsto> (co_price ord, empty_order\<lparr>co_volume := co_volume ord\<rparr>)),
                   pb_fresh := pb_fresh b + 1\<rparr>))
      else Some b }"

text \<open>\<open>readOrders\<close>, over the lines of the file.\<close>

fun read_orders :: "(byte list \<Rightarrow> 'f) \<Rightarrow> byte list list \<Rightarrow> 'f priced_book \<Rightarrow> 'f priced_book option" where
  "read_orders from_chars [] b = Some b"
| "read_orders from_chars (line # rest) b =
     Option.bind (processRawOrder2 from_chars line b) (read_orders from_chars rest)"

text \<open>\<open>info\<close>: the number of orders in the maps of the given symbols.\<close>

definition priced_size :: "'f priced_sides \<Rightarrow> nat" where
  "priced_size so = card (dom (ps_buyOrders so)) + card (dom (ps_sellOrders so))"

section \<open>The live orders by identifier\<close>

text \<open>The contract: an identifier is inserted while it does not rest, at a free price of its side; it
  is cancelled or amended while it rests, with its own symbol and side, and amended to its own price
  or a free one.\<close>

type_synonym 'f live_map = "byte list \<Rightarrow> 'f command_order option"

definition price_taken :: "'f command_order \<Rightarrow> 'f live_map \<Rightarrow> bool" where
  "price_taken ord M \<longleftrightarrow> (\<exists>o1\<in>ran M. co_symbol o1 = co_symbol ord \<and> co_side o1 = co_side ord \<and> co_price o1 = co_price ord)"

definition same_place :: "'f command_order \<Rightarrow> 'f command_order \<Rightarrow> bool" where
  "same_place o1 ord \<longleftrightarrow> co_symbol o1 = co_symbol ord \<and> co_side o1 = co_side ord"

definition priced_step :: "'f command_order \<Rightarrow> 'f live_map \<Rightarrow> 'f live_map option" where
  "priced_step ord M =
    (case co_operation ord of
       OpInsert \<Rightarrow> if M (co_id ord) = None \<and> \<not> price_taken ord M then Some (M(co_id ord \<mapsto> ord)) else None
     | OpCancel \<Rightarrow>
         (case M (co_id ord) of
            Some o1 \<Rightarrow> if same_place o1 ord then Some (M(co_id ord := None)) else None
          | None \<Rightarrow> None)
     | OpAmend \<Rightarrow>
         (case M (co_id ord) of
            Some o1 \<Rightarrow>
              if co_price ord = co_price o1 then Some (M(co_id ord \<mapsto> o1\<lparr>co_volume := co_volume ord\<rparr>))
              else if same_place o1 ord \<and> \<not> price_taken ord M then Some (M(co_id ord \<mapsto> ord)) else None
          | None \<Rightarrow> None)
     | OpOther _ \<Rightarrow> Some M)"

fun priced_run :: "'f command_order list \<Rightarrow> 'f live_map \<Rightarrow> 'f live_map option" where
  "priced_run [] M = Some M"
| "priced_run (ord # ords) M = Option.bind (priced_step ord M) (priced_run ords)"

definition prices_of :: "'f priced_book \<Rightarrow> byte list \<Rightarrow> command_side \<Rightarrow> 'f \<Rightarrow> nat option" where
  "prices_of b symbol s = side_prices s (priced_entry symbol b)"

definition holds_map :: "'f priced_book \<Rightarrow> 'f live_map \<Rightarrow> bool" where
  "holds_map b M \<longleftrightarrow>
     (\<forall>k o1. M k = Some o1 \<longrightarrow> co_id o1 = k \<and> (\<exists>n<pb_fresh b. pb_ordersById b k = Some n
        \<and> pb_nodes b n = Some (co_price o1, o1) \<and> prices_of b (co_symbol o1) (co_side o1) (co_price o1) = Some n))
     \<and> (\<forall>k. pb_ordersById b k \<noteq> None \<longrightarrow> M k \<noteq> None)
     \<and> (\<forall>symbol s p n. prices_of b symbol s p = Some n \<longrightarrow> (\<exists>k o1. M k = Some o1 \<and> pb_ordersById b k = Some n
          \<and> co_symbol o1 = symbol \<and> co_side o1 = s \<and> co_price o1 = p))"

lemma put_prices_simps [simp]:
  "pb_nodes (put_prices symbol s m b) = pb_nodes b" "pb_fresh (put_prices symbol s m b) = pb_fresh b"
  "pb_ordersById (put_prices symbol s m b) = pb_ordersById b"
  by (simp_all add: put_prices_def)

lemma prices_of_simps [simp]:
  "prices_of (put_prices symbol s m b) symbol' s' = (if symbol' = symbol \<and> s' = s then m else prices_of b symbol' s')"
  "prices_of (b\<lparr>pb_nodes := nodes\<rparr>) symbol' s' = prices_of b symbol' s'"
  "prices_of (b\<lparr>pb_ordersById := index\<rparr>) symbol' s' = prices_of b symbol' s'"
  "prices_of (b\<lparr>pb_fresh := n\<rparr>) symbol' s' = prices_of b symbol' s'"
  by (cases s; cases s'; auto simp: prices_of_def put_prices_def priced_entry_def side_prices_def set_side_prices_def)+

lemma side_prices_of: "side_prices s (priced_entry symbol b) = prices_of b symbol s"
  by (simp add: prices_of_def)

lemma insert_node_simps [simp]:
  "pb_nodes (insert_node ord orders b) = (pb_nodes b)(pb_fresh b \<mapsto> (co_price ord, ord))"
  "pb_fresh (insert_node ord orders b) = pb_fresh b + 1"
  "pb_ordersById (insert_node ord orders b) = (pb_ordersById b)(co_id ord \<mapsto> pb_fresh b)"
  "prices_of (insert_node ord orders b) symbol s = (if symbol = co_symbol ord \<and> s = co_side ord
     then orders(co_price ord \<mapsto> pb_fresh b) else prices_of b symbol s)"
  by (simp_all add: insert_node_def)

section \<open>The operations on the live orders\<close>

lemma holds_map_cong:
  assumes "holds_map b M" "pb_nodes b' = pb_nodes b" "pb_fresh b' = pb_fresh b" "pb_ordersById b' = pb_ordersById b"
    "\<And>symbol s. prices_of b' symbol s = prices_of b symbol s"
  shows "holds_map b' M"
  using assms by (simp add: holds_map_def)

lemma live_node:
  assumes "holds_map b M" "M k = Some o1"
  obtains n where "n < pb_fresh b" "pb_ordersById b k = Some n" "pb_nodes b n = Some (co_price o1, o1)"
    "prices_of b (co_symbol o1) (co_side o1) (co_price o1) = Some n" "co_id o1 = k"
  using assms unfolding holds_map_def by blast

lemma index_live: "holds_map b M \<Longrightarrow> pb_ordersById b k = Some n \<Longrightarrow> \<exists>o1. M k = Some o1"
  unfolding holds_map_def by blast

lemma index_inj:
  assumes "holds_map b M" "pb_ordersById b k = Some n" "pb_ordersById b k' = Some n"
  shows "k = k'"
proof -
  obtain o1 where o1: "M k = Some o1" using index_live [OF assms(1,2)] by blast
  obtain o2 where o2: "M k' = Some o2" using index_live [OF assms(1,3)] by blast
  obtain n1 where n1: "pb_ordersById b k = Some n1" "pb_nodes b n1 = Some (co_price o1, o1)" "co_id o1 = k"
    by (rule live_node [OF assms(1) o1])
  obtain n2 where n2: "pb_ordersById b k' = Some n2" "pb_nodes b n2 = Some (co_price o2, o2)" "co_id o2 = k'"
    by (rule live_node [OF assms(1) o2])
  from n1 n2 assms(2,3) show ?thesis by simp
qed

lemma prices_live:
  assumes "holds_map b M" "prices_of b symbol s p = Some n"
  obtains k o1 where "M k = Some o1" "pb_ordersById b k = Some n" "co_symbol o1 = symbol" "co_side o1 = s" "co_price o1 = p"
  using assms unfolding holds_map_def by blast

lemma price_free:
  assumes "holds_map b M"
  shows "price_taken ord M \<longleftrightarrow> prices_of b (co_symbol ord) (co_side ord) (co_price ord) \<noteq> None"
proof
  assume "price_taken ord M"
  then obtain k o1 where "M k = Some o1" "co_symbol o1 = co_symbol ord" "co_side o1 = co_side ord" "co_price o1 = co_price ord"
    by (auto simp: price_taken_def ran_def)
  note o1 = this
  obtain n where "prices_of b (co_symbol o1) (co_side o1) (co_price o1) = Some n" by (rule live_node [OF assms o1(1)])
  with o1 show "prices_of b (co_symbol ord) (co_side ord) (co_price ord) \<noteq> None" by simp
next
  assume "prices_of b (co_symbol ord) (co_side ord) (co_price ord) \<noteq> None"
  then obtain n where "prices_of b (co_symbol ord) (co_side ord) (co_price ord) = Some n" by blast
  then obtain k o1 where "M k = Some o1" "co_symbol o1 = co_symbol ord" "co_side o1 = co_side ord" "co_price o1 = co_price ord"
    by (rule prices_live [OF assms])
  then show "price_taken ord M" unfolding price_taken_def by (intro bexI [of _ o1]) (auto intro: ranI)
qed

lemma insert_node_holds:
  assumes "holds_map b M" "M (co_id ord) = None" "\<not> price_taken ord M"
  shows "holds_map (insert_node ord (prices_of b (co_symbol ord) (co_side ord)) b) (M(co_id ord \<mapsto> ord))"
    (is "holds_map ?b ?M")
proof -
  have free: "prices_of b (co_symbol ord) (co_side ord) (co_price ord) = None" using assms(3) price_free [OF assms(1)] by blast
  have prices: "prices_of ?b symbol s p = (if symbol = co_symbol ord \<and> s = co_side ord \<and> p = co_price ord
      then Some (pb_fresh b) else prices_of b symbol s p)" for symbol s p by auto
  show ?thesis
    unfolding holds_map_def
  proof (intro conjI allI impI)
    fix k o1 assume k: "?M k = Some o1"
    have "\<exists>n<pb_fresh ?b. pb_ordersById ?b k = Some n \<and> pb_nodes ?b n = Some (co_price o1, o1)
      \<and> prices_of ?b (co_symbol o1) (co_side o1) (co_price o1) = Some n \<and> co_id o1 = k"
    proof (cases "k = co_id ord")
      case True
      with k have "o1 = ord" by simp
      with True show ?thesis by (intro exI [of _ "pb_fresh b"]) simp
    next
      case False
      with k have live: "M k = Some o1" by simp
      obtain n where n: "n < pb_fresh b" "pb_ordersById b k = Some n" "pb_nodes b n = Some (co_price o1, o1)"
        "prices_of b (co_symbol o1) (co_side o1) (co_price o1) = Some n" "co_id o1 = k"
        by (rule live_node [OF assms(1) live])
      then have "\<not> (co_symbol o1 = co_symbol ord \<and> co_side o1 = co_side ord \<and> co_price o1 = co_price ord)"
        using free by auto
      with False n show ?thesis unfolding prices by (intro exI [of _ n]) simp
    qed
    then show "co_id o1 = k" "\<exists>n<pb_fresh ?b. pb_ordersById ?b k = Some n \<and> pb_nodes ?b n = Some (co_price o1, o1)
      \<and> prices_of ?b (co_symbol o1) (co_side o1) (co_price o1) = Some n" by blast+
  next
    fix k assume "pb_ordersById ?b k \<noteq> None"
    then show "?M k \<noteq> None" using index_live [OF assms(1), of k] by (auto split: if_splits)
  next
    fix symbol s p n assume at: "prices_of ?b symbol s p = Some n"
    show "\<exists>k o1. ?M k = Some o1 \<and> pb_ordersById ?b k = Some n \<and> co_symbol o1 = symbol \<and> co_side o1 = s \<and> co_price o1 = p"
    proof (cases "symbol = co_symbol ord \<and> s = co_side ord \<and> p = co_price ord")
      case True
      with at have "n = pb_fresh b" unfolding prices by simp
      with True show ?thesis by (intro exI [of _ "co_id ord"] exI [of _ ord]) simp
    next
      case False
      with at have at2: "prices_of b symbol s p = Some n" unfolding prices by (simp only: if_False)
      obtain k2 o2 where k2: "M k2 = Some o2" "pb_ordersById b k2 = Some n" "co_symbol o2 = symbol" "co_side o2 = s" "co_price o2 = p"
        by (rule prices_live [OF assms(1) at2])
      with assms(2) have "k2 \<noteq> co_id ord" by auto
      with k2 show ?thesis by (intro exI [of _ k2] exI [of _ o2]) simp
    qed
  qed
qed

lemma erase_node_holds:
  assumes "holds_map b M" "M k = Some o1" "same_place o1 ord" "pb_ordersById b k = Some it"
  obtains b1 where "erase_node it ord b = Some b1" "pb_fresh b1 = pb_fresh b" "pb_ordersById b1 = pb_ordersById b"
    "holds_map (b1\<lparr>pb_ordersById := (pb_ordersById b1)(k := None)\<rparr>) (M(k := None))"
proof -
  obtain n where n: "n < pb_fresh b" "pb_ordersById b k = Some n" "pb_nodes b n = Some (co_price o1, o1)"
    "prices_of b (co_symbol o1) (co_side o1) (co_price o1) = Some n" "co_id o1 = k"
    by (rule live_node [OF assms(1,2)])
  with assms(4) have it: "n = it" by simp
  let ?prices = "(prices_of b (co_symbol ord) (co_side ord))(co_price o1 := None)"
  let ?b1 = "(put_prices (co_symbol ord) (co_side ord) ?prices b)\<lparr>pb_nodes := (pb_nodes b)(it := None)\<rparr>"
  have place: "co_symbol o1 = co_symbol ord" "co_side o1 = co_side ord" using assms(3) by (simp_all add: same_place_def)
  have erase: "erase_node it ord b = Some ?b1" using n(3,4) it place by (simp add: erase_node_def side_prices_of)
  let ?b = "?b1\<lparr>pb_ordersById := (pb_ordersById ?b1)(k := None)\<rparr>"
  have prices: "prices_of ?b symbol s p = (if symbol = co_symbol o1 \<and> s = co_side o1 \<and> p = co_price o1
      then None else prices_of b symbol s p)" for symbol s p using place by auto
  have "holds_map ?b (M(k := None))"
    unfolding holds_map_def
  proof (intro conjI allI impI)
    fix k2 o2 assume k2: "(M(k := None)) k2 = Some o2"
    then have ne: "k2 \<noteq> k" and live: "M k2 = Some o2" by (auto split: if_splits)
    obtain m where m: "m < pb_fresh b" "pb_ordersById b k2 = Some m" "pb_nodes b m = Some (co_price o2, o2)"
      "prices_of b (co_symbol o2) (co_side o2) (co_price o2) = Some m" "co_id o2 = k2"
      by (rule live_node [OF assms(1) live])
    have "m \<noteq> it" using index_inj [OF assms(1) m(2)] n(2) it ne by blast
    then have "\<not> (co_symbol o2 = co_symbol o1 \<and> co_side o2 = co_side o1 \<and> co_price o2 = co_price o1)"
      using m(4) n(4) it by auto
    with m ne \<open>m \<noteq> it\<close> show "co_id o2 = k2" "\<exists>n<pb_fresh ?b. pb_ordersById ?b k2 = Some n
      \<and> pb_nodes ?b n = Some (co_price o2, o2) \<and> prices_of ?b (co_symbol o2) (co_side o2) (co_price o2) = Some n"
      unfolding prices by auto
  next
    fix k2 assume "pb_ordersById ?b k2 \<noteq> None"
    then show "(M(k := None)) k2 \<noteq> None" using index_live [OF assms(1), of k2] by (auto split: if_splits)
  next
    fix symbol s p m assume "prices_of ?b symbol s p = Some m"
    then have m: "prices_of b symbol s p = Some m" "\<not> (symbol = co_symbol o1 \<and> s = co_side o1 \<and> p = co_price o1)"
      unfolding prices by (auto split: if_splits)
    obtain k2 o2 where k2: "M k2 = Some o2" "pb_ordersById b k2 = Some m" "co_symbol o2 = symbol" "co_side o2 = s" "co_price o2 = p"
      by (rule prices_live [OF assms(1) m(1)])
    with m(2) assms(2) have "k2 \<noteq> k" by auto
    with k2 show "\<exists>k2 o2. (M(k := None)) k2 = Some o2 \<and> pb_ordersById ?b k2 = Some m
      \<and> co_symbol o2 = symbol \<and> co_side o2 = s \<and> co_price o2 = p" by auto
  qed
  with erase show thesis by (intro that [of ?b1]) simp_all
qed

lemma amend_volume_holds:
  assumes "holds_map b M" "M k = Some o1" "pb_ordersById b k = Some it"
  shows "holds_map (b\<lparr>pb_nodes := (pb_nodes b)(it \<mapsto> (co_price o1, o1\<lparr>co_volume := v\<rparr>))\<rparr>) (M(k \<mapsto> o1\<lparr>co_volume := v\<rparr>))"
    (is "holds_map ?b ?M")
  unfolding holds_map_def
proof (intro conjI allI impI)
  fix k2 o2 assume k2: "?M k2 = Some o2"
  have "\<exists>n<pb_fresh ?b. pb_ordersById ?b k2 = Some n \<and> pb_nodes ?b n = Some (co_price o2, o2)
      \<and> prices_of ?b (co_symbol o2) (co_side o2) (co_price o2) = Some n \<and> co_id o2 = k2"
  proof (cases "k2 = k")
    case True
    obtain n where n: "n < pb_fresh b" "pb_ordersById b k = Some n" "pb_nodes b n = Some (co_price o1, o1)"
      "prices_of b (co_symbol o1) (co_side o1) (co_price o1) = Some n" "co_id o1 = k"
      by (rule live_node [OF assms(1,2)])
    with True k2 assms(3) show ?thesis by (intro exI [of _ n]) auto
  next
    case False
    with k2 have live: "M k2 = Some o2" by simp
    obtain n where n: "n < pb_fresh b" "pb_ordersById b k2 = Some n" "pb_nodes b n = Some (co_price o2, o2)"
      "prices_of b (co_symbol o2) (co_side o2) (co_price o2) = Some n" "co_id o2 = k2"
      by (rule live_node [OF assms(1) live])
    have "n \<noteq> it" using index_inj [OF assms(1) n(2)] assms(3) False by blast
    with n False show ?thesis by (intro exI [of _ n]) simp
  qed
  then show "co_id o2 = k2" "\<exists>n<pb_fresh ?b. pb_ordersById ?b k2 = Some n \<and> pb_nodes ?b n = Some (co_price o2, o2)
      \<and> prices_of ?b (co_symbol o2) (co_side o2) (co_price o2) = Some n" by blast+
next
  fix k2 assume "pb_ordersById ?b k2 \<noteq> None"
  then show "?M k2 \<noteq> None" using index_live [OF assms(1), of k2] by auto
next
  fix symbol s p n assume "prices_of ?b symbol s p = Some n"
  then have "prices_of b symbol s p = Some n" by simp
  then obtain k2 o2 where "M k2 = Some o2" "pb_ordersById b k2 = Some n" "co_symbol o2 = symbol" "co_side o2 = s" "co_price o2 = p"
    by (rule prices_live [OF assms(1)])
  then show "\<exists>k2 o2. ?M k2 = Some o2 \<and> pb_ordersById ?b k2 = Some n \<and> co_symbol o2 = symbol \<and> co_side o2 = s \<and> co_price o2 = p"
    using assms(2) by (cases "k2 = k") auto
qed

lemma holds_map_put: "holds_map (put_prices symbol s (prices_of b symbol s) b) M = holds_map b M"
proof -
  have "prices_of (put_prices symbol s (prices_of b symbol s) b) symbol' s' = prices_of b symbol' s'" for symbol' s' by simp
  then show ?thesis by (simp add: holds_map_def)
qed

lemma same_place_amend:
  assumes "holds_map b M" "M k = Some o1" "same_place o1 ord" "\<not> price_taken ord M"
  shows "\<not> price_taken ord (M(k := None))"
proof
  assume "price_taken ord (M(k := None))"
  then have "price_taken ord M" unfolding price_taken_def ran_def by (auto split: if_splits)
  with assms(4) show False by contradiction
qed

lemma insert_overwrites_index:
  "insert_node ord orders (b\<lparr>pb_ordersById := (pb_ordersById b)(co_id ord := x)\<rparr>) = insert_node ord orders b"
  by (simp add: insert_node_def put_prices_def priced_entry_def)

lemma move_node_holds:
  assumes "holds_map b M" "M (co_id ord) = Some o1" "same_place o1 ord" "pb_ordersById b (co_id ord) = Some it"
    "\<not> price_taken ord M"
  obtains b1 where "erase_node it ord b = Some b1" "prices_of b1 (co_symbol ord) (co_side ord) (co_price ord) = None"
    "holds_map (insert_node ord (prices_of b1 (co_symbol ord) (co_side ord)) b1) (M(co_id ord \<mapsto> ord))"
proof -
  obtain b1 where b1: "erase_node it ord b = Some b1"
    "holds_map (b1\<lparr>pb_ordersById := (pb_ordersById b1)(co_id ord := None)\<rparr>) (M(co_id ord := None))"
    by (rule erase_node_holds [OF assms(1-4)])
  have free: "\<not> price_taken ord (M(co_id ord := None))" by (rule same_place_amend [OF assms(1-3,5)])
  have "holds_map (insert_node ord (prices_of b1 (co_symbol ord) (co_side ord)) b1) (M(co_id ord \<mapsto> ord))"
    using insert_node_holds [OF b1(2) _ free] by (simp add: insert_overwrites_index)
  moreover have "prices_of b1 (co_symbol ord) (co_side ord) (co_price ord) = None"
    using free price_free [OF b1(2), of ord] by simp
  ultimately show thesis using that b1(1) by blast
qed

lemma apply_priced_holds:
  assumes "holds_map b0 M" "priced_step ord M = Some M'"
  shows "\<exists>b'. apply_priced ord b0 = Some b' \<and> holds_map b' M'"
proof -
  define b where "b = put_prices (co_symbol ord) (co_side ord) (prices_of b0 (co_symbol ord) (co_side ord)) b0"
  have b: "holds_map b M" using assms(1) by (simp add: b_def holds_map_put)
  show ?thesis
  proof (cases "co_operation ord")
    case OpInsert
    with assms(2) have M: "M (co_id ord) = None" "\<not> price_taken ord M" "M' = M(co_id ord \<mapsto> ord)"
      by (auto simp: priced_step_def split: if_splits)
    then have "prices_of b (co_symbol ord) (co_side ord) (co_price ord) = None" using price_free [OF b] by blast
    with OpInsert insert_node_holds [OF b M(1,2)] M(3) show ?thesis by (simp add: apply_priced_def Let_def side_prices_of b_def)
  next
    case OpCancel
    with assms(2) obtain o1 where M: "M (co_id ord) = Some o1" "same_place o1 ord" "M' = M(co_id ord := None)"
      by (auto simp: priced_step_def split: option.splits if_splits)
    obtain it where it: "pb_ordersById b (co_id ord) = Some it" by (rule live_node [OF b M(1)])
    obtain b1 where "erase_node it ord b = Some b1"
      "holds_map (b1\<lparr>pb_ordersById := (pb_ordersById b1)(co_id ord := None)\<rparr>) (M(co_id ord := None))"
      by (rule erase_node_holds [OF b M(1,2) it])
    with OpCancel it M(3) show ?thesis by (simp add: apply_priced_def Let_def side_prices_of b_def)
  next
    case OpAmend
    with assms(2) obtain o1 where M: "M (co_id ord) = Some o1" by (auto simp: priced_step_def split: option.splits)
    obtain it where it: "pb_ordersById b (co_id ord) = Some it" "pb_nodes b it = Some (co_price o1, o1)"
      by (rule live_node [OF b M])
    show ?thesis
    proof (cases "co_price ord = co_price o1")
      case True
      with OpAmend M assms(2) have "M' = M(co_id ord \<mapsto> o1\<lparr>co_volume := co_volume ord\<rparr>)" by (simp add: priced_step_def)
      with OpAmend True it amend_volume_holds [OF b M it(1)] show ?thesis by (simp add: apply_priced_def Let_def side_prices_of b_def)
    next
      case False
      with OpAmend M assms(2) have M': "same_place o1 ord" "\<not> price_taken ord M" "M' = M(co_id ord \<mapsto> ord)"
        by (auto simp: priced_step_def split: if_splits)
      obtain b1 where "erase_node it ord b = Some b1" "prices_of b1 (co_symbol ord) (co_side ord) (co_price ord) = None"
        "holds_map (insert_node ord (prices_of b1 (co_symbol ord) (co_side ord)) b1) (M(co_id ord \<mapsto> ord))"
        by (rule move_node_holds [OF b M M'(1) it(1) M'(2)])
      with OpAmend False it M'(3) show ?thesis by (simp add: apply_priced_def Let_def side_prices_of b_def)
    qed
  next
    case (OpOther c)
    with assms(2) b show ?thesis by (simp add: apply_priced_def priced_step_def Let_def side_prices_of b_def)
  qed
qed

lemma priced_lines:
  assumes "holds_map b M" "those (map (parse_priced from_chars) lines) = Some ords" "priced_run ords M = Some M'"
  shows "\<exists>b'. read_orders from_chars lines b = Some b' \<and> holds_map b' M'"
  using assms
proof (induction lines arbitrary: b M ords)
  case (Cons line lines)
  from Cons.prems(2) obtain ord rest where line: "parse_priced from_chars line = Some ord" "ords = ord # rest"
    "those (map (parse_priced from_chars) lines) = Some rest" by (auto split: option.splits)
  with Cons.prems(3) obtain M1 where M1: "priced_step ord M = Some M1" "priced_run rest M1 = Some M'" by (auto split: bind_splits)
  from apply_priced_holds [OF Cons.prems(1) M1(1)] obtain b1 where b1: "apply_priced ord b = Some b1" "holds_map b1 M1" by blast
  from Cons.IH [OF b1(2) line(3) M1(2)] b1(1) line(1) show ?case by (simp add: processRawOrder2_def)
qed simp

section \<open>Properties\<close>

text \<open>The book of one order per price refines the map of live orders: over a file whose commands keep
  the contract, \<open>readOrders\<close> has a result, the index leads every identifier to the map node of its live
  order, keyed by the order's price, and the map of a symbol and side has at a price exactly the live
  order there.\<close>

theorem priced_book_tracks_live_orders:
  assumes "those (map (parse_priced from_chars) lines) = Some ords" "priced_run ords Map.empty = Some M"
  shows "\<exists>b. read_orders from_chars lines new_priced_book = Some b
     \<and> Option.bind (pb_ordersById b k) (pb_nodes b) = map_option (\<lambda>o1. (co_price o1, o1)) (M k)
     \<and> (Option.bind (prices_of b symbol s p) (pb_nodes b) = Some (p, o1)
        \<longleftrightarrow> M (co_id o1) = Some o1 \<and> co_symbol o1 = symbol \<and> co_side o1 = s \<and> co_price o1 = p)"
proof -
  have "holds_map new_priced_book Map.empty"
    by (simp add: holds_map_def new_priced_book_def prices_of_def priced_entry_def side_prices_def no_sides_def)
  from priced_lines [OF this assms] obtain b where b: "read_orders from_chars lines new_priced_book = Some b" "holds_map b M" by blast
  have "Option.bind (pb_ordersById b k) (pb_nodes b) = map_option (\<lambda>o1. (co_price o1, o1)) (M k)"
  proof (cases "M k")
    case None
    with index_live [OF b(2), of k] show ?thesis by (cases "pb_ordersById b k") auto
  next
    case (Some o2)
    obtain n where "pb_ordersById b k = Some n" "pb_nodes b n = Some (co_price o2, o2)" by (rule live_node [OF b(2) Some])
    with Some show ?thesis by simp
  qed
  moreover have "M (co_id o1) = Some o1 \<and> co_symbol o1 = symbol \<and> co_side o1 = s \<and> co_price o1 = p"
    if "Option.bind (prices_of b symbol s p) (pb_nodes b) = Some (p, o1)"
  proof -
    from that obtain n where n: "prices_of b symbol s p = Some n" "pb_nodes b n = Some (p, o1)" by (auto split: bind_splits)
    obtain k2 o2 where k2: "M k2 = Some o2" "pb_ordersById b k2 = Some n" "co_symbol o2 = symbol" "co_side o2 = s" "co_price o2 = p"
      by (rule prices_live [OF b(2) n(1)])
    obtain m where m: "pb_ordersById b k2 = Some m" "pb_nodes b m = Some (co_price o2, o2)" "co_id o2 = k2"
      by (rule live_node [OF b(2) k2(1)])
    from k2 m n(2) show ?thesis by simp
  qed
  moreover have "Option.bind (prices_of b symbol s p) (pb_nodes b) = Some (p, o1)"
    if "M (co_id o1) = Some o1 \<and> co_symbol o1 = symbol \<and> co_side o1 = s \<and> co_price o1 = p"
  proof -
    from that have live: "M (co_id o1) = Some o1" by blast
    obtain n where "pb_nodes b n = Some (co_price o1, o1)" "prices_of b (co_symbol o1) (co_side o1) (co_price o1) = Some n"
      by (rule live_node [OF b(2) live])
    with that show ?thesis by auto
  qed
  ultimately show ?thesis using b(1) by blast
qed

text \<open>The sample file of the other book, whose lines have seven fields: both parsers agree on it.\<close>

lemma parse_priced_seven:
  "split_line line = Some params \<Longrightarrow> length params = 7 \<Longrightarrow> parse_priced from_chars line = parseOrder from_chars line"
  by (simp add: parse_priced_def parseOrder_def splitOrder_def split_line_def)

lemma sample_seven: "list_all (\<lambda>line. \<exists>params. split_line line = Some params \<and> length params = 7) sample_lines"
proof -
  have join: "\<exists>params. split_line (join semicolon ps) = Some params \<and> length params = 7"
    if "length ps = 7" "\<forall>p\<in>set ps. byte_of (CHR '';'') \<notin> set p" for ps
  proof -
    from that have "split_line (join semicolon ps) = Some ps" unfolding split_line_def by (intro split_join) auto
    with that show ?thesis by blast
  qed
  show ?thesis
    unfolding sample_lines_def list.map prod.case list.pred_inject
    by (intro conjI join) (auto simp: byte_of_def operation_text_def side_text_def)
qed

lemma sample_parses_priced: "map (parse_priced decimal) sample_lines = map (parseOrder decimal) sample_lines"
proof (rule map_cong [OF refl])
  fix line assume "line \<in> set sample_lines"
  with sample_seven show "parse_priced decimal line = parseOrder decimal line"
    unfolding list_all_iff using parse_priced_seven by blast
qed

lemma price_taken_empty: "\<not> price_taken ord Map.empty"
  by (simp add: price_taken_def)

lemma price_taken_update:
  "M k = None \<Longrightarrow> price_taken ord (M(k \<mapsto> o1)) \<longleftrightarrow> same_place o1 ord \<and> co_price o1 = co_price ord \<or> price_taken ord M"
  unfolding price_taken_def same_place_def by (auto simp: ran_map_upd)

theorem priced_book_tracks_live_orders_witness:
  "\<exists>b. read_orders decimal sample_lines new_priced_book = Some b
     \<and> Option.bind (prices_of b (text_of ''DVAM1'') CBuy 11) (pb_nodes b) = Some (11, sample_command (text_of ''1'') OpAmend 90 11)"
proof -
  have ords: "those (map (parse_priced decimal) sample_lines) = Some [sample_command (text_of ''1'') OpInsert 100 12,
      sample_command (text_of ''2'') OpInsert 37 13, sample_command (text_of ''1'') OpAmend 90 11, sample_command (text_of ''2'') OpCancel 37 13]"
    unfolding sample_parses_priced sample_parses by simp
  have run: "priced_run [sample_command (text_of ''1'') OpInsert 100 12, sample_command (text_of ''2'') OpInsert 37 13,
      sample_command (text_of ''1'') OpAmend 90 11, sample_command (text_of ''2'') OpCancel 37 13] Map.empty
    = Some [text_of ''1'' \<mapsto> sample_command (text_of ''1'') OpAmend 90 11]"
    by (simp add: sample_command_def priced_step_def price_taken_empty price_taken_update same_place_def byte_of_def)
  from priced_book_tracks_live_orders [OF ords run, where k = "[]" and symbol = "text_of ''DVAM1''" and s = CBuy and p = 11
      and ?o1.0 = "sample_command (text_of ''1'') OpAmend 90 11"]
  show ?thesis by (auto simp: sample_command_def)
qed

text \<open>Amending an order to a price where another order of its side rests loses it: its own node is
  erased, nothing is inserted, and both identifiers lead to the other order's node. Cancelling the first
  then takes the other order out of the book, and cancelling the other after it uses an erased node.\<close>

theorem amend_to_occupied_price_loses_order:
  assumes "holds_map b M" "M (co_id ord) = Some o1" "M k2 = Some o2" "k2 \<noteq> co_id ord"
    "same_place o1 ord" "same_place o2 ord" "co_operation ord = OpAmend" "co_price ord = co_price o2"
  shows "\<exists>b1 it2. apply_priced ord b = Some b1 \<and> pb_nodes b1 it2 = Some (co_price o2, o2)
     \<and> pb_ordersById b1 (co_id ord) = Some it2 \<and> pb_ordersById b1 k2 = Some it2
     \<and> Option.bind (apply_priced (ord\<lparr>co_operation := OpCancel\<rparr>) b1)
         (apply_priced (ord\<lparr>co_operation := OpCancel, co_id := k2\<rparr>)) = None"
proof -
  define b0 where "b0 = put_prices (co_symbol ord) (co_side ord) (prices_of b (co_symbol ord) (co_side ord)) b"
  have b0: "holds_map b0 M" using assms(1) by (simp add: b0_def holds_map_put)
  have place: "co_symbol o1 = co_symbol ord" "co_side o1 = co_side ord" "co_symbol o2 = co_symbol ord" "co_side o2 = co_side ord"
    using assms(5,6) by (simp_all add: same_place_def)
  obtain n1 where n1: "pb_ordersById b0 (co_id ord) = Some n1" "pb_nodes b0 n1 = Some (co_price o1, o1)"
    "prices_of b0 (co_symbol o1) (co_side o1) (co_price o1) = Some n1" by (rule live_node [OF b0 assms(2)])
  obtain n2 where n2: "pb_ordersById b0 k2 = Some n2" "pb_nodes b0 n2 = Some (co_price o2, o2)"
    "prices_of b0 (co_symbol o2) (co_side o2) (co_price o2) = Some n2" by (rule live_node [OF b0 assms(3)])
  have ne: "n1 \<noteq> n2" using index_inj [OF b0 n1(1)] n2(1) assms(4) by blast
  then have price: "co_price o1 \<noteq> co_price o2" using n1(3) n2(3) place by auto
  let ?m = "(prices_of b0 (co_symbol ord) (co_side ord))(co_price o1 := None)"
  let ?b1 = "(put_prices (co_symbol ord) (co_side ord) ?m b0)\<lparr>pb_nodes := (pb_nodes b0)(n1 := None),
    pb_ordersById := (pb_ordersById b0)(co_id ord \<mapsto> n2)\<rparr>"
  have "erase_node n1 ord b0 = Some ((put_prices (co_symbol ord) (co_side ord) ?m b0)\<lparr>pb_nodes := (pb_nodes b0)(n1 := None)\<rparr>)"
    using n1(2,3) place by (simp add: erase_node_def side_prices_of)
  then have step: "apply_priced ord b = Some ?b1"
    unfolding apply_priced_def Let_def side_prices_of b0_def [symmetric]
    using assms(7,8) n1 n2(3) price place by simp
  have "Option.bind (apply_priced (ord\<lparr>co_operation := OpCancel\<rparr>) ?b1)
         (apply_priced (ord\<lparr>co_operation := OpCancel, co_id := k2\<rparr>)) = None"
    using n2 assms(4) ne price place by (simp add: apply_priced_def Let_def side_prices_of erase_node_def)
  with step n2 ne assms(4) show ?thesis by (intro exI [of _ ?b1] exI [of _ n2]) simp
qed

definition crowded_book :: "int priced_book" where
  "crowded_book = insert_node (sample_command (text_of ''2'') OpInsert 37 13) [12 \<mapsto> 0]
     (insert_node (sample_command (text_of ''1'') OpInsert 100 12) Map.empty new_priced_book)"

lemma crowded_holds: "holds_map crowded_book
  [text_of ''1'' \<mapsto> sample_command (text_of ''1'') OpInsert 100 12, text_of ''2'' \<mapsto> sample_command (text_of ''2'') OpInsert 37 13]"
proof -
  let ?o1 = "sample_command (text_of ''1'') OpInsert 100 12" and ?o2 = "sample_command (text_of ''2'') OpInsert 37 13"
  have 0: "holds_map new_priced_book Map.empty"
    by (simp add: holds_map_def new_priced_book_def prices_of_def priced_entry_def side_prices_def no_sides_def)
  have p0: "prices_of new_priced_book (co_symbol ?o1) (co_side ?o1) = Map.empty"
    by (simp add: new_priced_book_def prices_of_def priced_entry_def side_prices_def no_sides_def sample_command_def)
  have 1: "holds_map (insert_node ?o1 Map.empty new_priced_book) [text_of ''1'' \<mapsto> ?o1]"
    using insert_node_holds [OF 0, of ?o1, unfolded p0] by (simp add: price_taken_empty sample_command_def)
  have p1: "prices_of (insert_node ?o1 Map.empty new_priced_book) (co_symbol ?o2) (co_side ?o2) = [12 \<mapsto> 0]"
    by (simp add: sample_command_def new_priced_book_def)
  show ?thesis
    using insert_node_holds [OF 1, of ?o2, unfolded p1]
    by (simp add: crowded_book_def price_taken_empty price_taken_update sample_command_def byte_of_def)
qed

theorem amend_to_occupied_price_loses_order_witness:
  "\<exists>b1. apply_priced (sample_command (text_of ''1'') OpAmend 90 13) crowded_book = Some b1
     \<and> pb_ordersById b1 (text_of ''1'') = pb_ordersById b1 (text_of ''2'')"
  using amend_to_occupied_price_loses_order [OF crowded_holds, of "sample_command (text_of ''1'') OpAmend 90 13"
      "sample_command (text_of ''1'') OpInsert 100 12" "text_of ''2''" "sample_command (text_of ''2'') OpInsert 37 13"]
  by (auto simp: sample_command_def same_place_def byte_of_def)

end
