(* ===== verification/Store_Engine.thy ===== *)
theory Store_Engine
  imports Engine_Properties "HOL-Library.Monad_Syntax"
begin

text \<open>
  The load-tested matching engine, \<open>MatchingEngine/MatchingEngine.cpp\<close>: the orders are nodes of one
  owner list, a price level is a list of iterators to them, allocated by \<open>new\<close> and reached through a
  raw pointer. \<open>se_nodes\<close> is the store of the owner list's nodes, \<open>se_lists\<close> that of the level lists.
  An order enters one level list once, so its place in that list (\<open>priceOrderIter\<close>) is its node's
  address. A filled order leaves its level and the index but not the owner list, and an emptied
  level's list is not deleted. As in the other engine, \<open>cancelOrder\<close> reads the order and the level
  pointer after erasing both; \<open>dead\<close> says what such reads give.

  A simulation shows that this engine and the unit-tested one (\<open>Matching_Engine\<close>) have a defined
  result on the same sequences of orders, with the same trades and the same book.
\<close>

section \<open>State\<close>

record store_refs =
  sr_orderIter :: nat
  sr_levelList :: nat

record 'm store_engine =
  se_orders :: "nat list"
  se_nodes :: "nat \<Rightarrow> engine_order option"
  se_nextNode :: nat
  se_orderByID :: "(u64, store_refs) smap"
  se_bids :: 'm
  se_asks :: 'm
  se_trades :: "engine_trade list"
  se_lists :: "nat \<Rightarrow> nat list option"
  se_nextList :: nat

definition new_store_engine :: "(order_side \<Rightarrow> 'm flat_map_ops) \<Rightarrow> 'm store_engine" where
  "new_store_engine ops =
     \<lparr>se_orders = [], se_nodes = Map.empty, se_nextNode = 0, se_orderByID = [],
      se_bids = fo_new (ops BUY), se_asks = fo_new (ops SELL), se_trades = [],
      se_lists = Map.empty, se_nextList = 0\<rparr>"

definition store_side :: "order_side \<Rightarrow> 'm store_engine \<Rightarrow> 'm" where
  "store_side s e = (case s of BUY \<Rightarrow> se_bids e | SELL \<Rightarrow> se_asks e)"

definition set_store_side :: "order_side \<Rightarrow> 'm \<Rightarrow> 'm store_engine \<Rightarrow> 'm store_engine" where
  "set_store_side s m e = (case s of BUY \<Rightarrow> e\<lparr>se_bids := m\<rparr> | SELL \<Rightarrow> e\<lparr>se_asks := m\<rparr>)"

section \<open>Matching\<close>

fun store_match_orders ::
  "engine_order \<Rightarrow> nat list \<Rightarrow> 'm store_engine \<Rightarrow> (engine_order \<times> nat list \<times> 'm store_engine) option" where
  "store_match_orders ord [] e = Some (ord, [], e)"
| "store_match_orders ord (n # rest) e =
     (case se_nodes e n of
        None \<Rightarrow> None
      | Some matchedOrder \<Rightarrow>
          let e1 = e\<lparr>se_trades := se_trades e @ [make_trade ord matchedOrder]\<rparr>
          in if eo_quantity ord \<ge> eo_quantity matchedOrder
             then store_match_orders (ord\<lparr>eo_quantity := eo_quantity ord - eo_quantity matchedOrder\<rparr>) rest
                    (e1\<lparr>se_nodes := (se_nodes e1)(n \<mapsto> matchedOrder\<lparr>eo_quantity := 0\<rparr>),
                        se_orderByID := smap_erase (eo_orderId matchedOrder) (se_orderByID e1)\<rparr>)
             else Some (ord\<lparr>eo_quantity := 0\<rparr>, n # rest,
                    e1\<lparr>se_nodes := (se_nodes e1)(n \<mapsto>
                        matchedOrder\<lparr>eo_quantity := eo_quantity matchedOrder - eo_quantity ord\<rparr>)\<rparr>))"

definition store_matchOrderList ::
  "engine_order \<Rightarrow> nat \<Rightarrow> 'm store_engine \<Rightarrow> (bool \<times> engine_order \<times> 'm store_engine) option" where
  "store_matchOrderList ord level e =
     do {
       orders \<leftarrow> se_lists e level;
       (ord', orders', e') \<leftarrow> store_match_orders ord orders e;
       Some (orders' = [], ord', e'\<lparr>se_lists := (se_lists e')(level \<mapsto> orders')\<rparr>) }"

partial_function (option) store_match_levels ::
  "(order_side \<Rightarrow> 'm flat_map_ops) \<Rightarrow> order_side \<Rightarrow> nat \<Rightarrow> engine_order \<Rightarrow> 'm store_engine
    \<Rightarrow> (engine_order \<times> 'm store_engine) option" where
  "store_match_levels ops opposite i ord e =
     (case fo_at (ops opposite) (store_side opposite e) i of
        None \<Rightarrow> Some (ord, e)
      | Some (levelPrice, levelPtr) \<Rightarrow>
          if eo_quantity ord > 0 \<and> comparator opposite levelPrice (eo_price ord)
          then (case levelPtr of
                  None \<Rightarrow> None
                | Some level \<Rightarrow>
                    (case store_matchOrderList ord level e of
                       None \<Rightarrow> None
                     | Some (levelEmpty, ord', e') \<Rightarrow>
                         if levelEmpty
                         then store_match_levels ops opposite i ord'
                                (set_store_side opposite (fo_erase_at (ops opposite) i (store_side opposite e')) e')
                         else store_match_levels ops opposite (i + 1) ord' e'))
          else Some (ord, e))"

definition store_matchOrder ::
  "(order_side \<Rightarrow> 'm flat_map_ops) \<Rightarrow> engine_order \<Rightarrow> 'm store_engine
    \<Rightarrow> (u64 \<times> engine_order \<times> 'm store_engine) option" where
  "store_matchOrder ops ord e =
     (case store_match_levels ops (opposite_side (eo_side ord)) 0 ord e of
        None \<Rightarrow> None
      | Some (ord', e') \<Rightarrow> Some (eo_quantity ord', ord', e'))"

section \<open>Handlers\<close>

definition store_getOrderPriceList ::
  "(order_side \<Rightarrow> 'm flat_map_ops) \<Rightarrow> order_side \<Rightarrow> u64 \<Rightarrow> 'm store_engine
    \<Rightarrow> (nat \<times> 'm store_engine) option" where
  "store_getOrderPriceList ops s price e =
     (case fo_emplace (ops s) price None (store_side s e) of
        (iter, inserted, m) \<Rightarrow>
          let (m1, e1) =
            (if inserted
             then (fo_assign (ops s) iter (Some (se_nextList e)) m,
                   e\<lparr>se_lists := (se_lists e)(se_nextList e \<mapsto> []), se_nextList := se_nextList e + 1\<rparr>)
             else (m, e))
          in (case fo_at (ops s) m1 iter of
                Some (_, Some level) \<Rightarrow> Some (level, set_store_side s m1 e1)
              | _ \<Rightarrow> None))"

text \<open>The new list node is filled after the level and the index entry are set.\<close>

definition store_handleOrderNew ::
  "(order_side \<Rightarrow> 'm flat_map_ops) \<Rightarrow> engine_order \<Rightarrow> 'm store_engine \<Rightarrow> 'm store_engine option" where
  "store_handleOrderNew ops ord0 e0 =
     do {
       (remaining, ord, e) \<leftarrow> store_matchOrder ops ord0 e0;
       if remaining = 0 then Some e
       else if smap_find (se_orderByID e) (eo_orderId ord) \<noteq> None then Some e
       else do {
         let orderIter = se_nextNode e;
         let e1 = e\<lparr>se_orders := se_orders e @ [orderIter], se_nextNode := orderIter + 1\<rparr>;
         (level, e2) \<leftarrow> store_getOrderPriceList ops (if eo_side ord = BUY then BUY else SELL) (eo_price ord) e1;
         orders \<leftarrow> se_lists e2 level;
         Some (e2\<lparr>se_lists := (se_lists e2)(level \<mapsto> orders @ [orderIter]),
                  se_orderByID := smap_assign (eo_orderId ord)
                    \<lparr>sr_orderIter = orderIter, sr_levelList = level\<rparr> (se_orderByID e2),
                  se_nodes := (se_nodes e2)(orderIter \<mapsto> ord)\<rparr>) } }"

definition store_cancelOrder ::
  "dead_memory \<Rightarrow> (order_side \<Rightarrow> 'm flat_map_ops) \<Rightarrow> u64 \<Rightarrow> store_refs \<Rightarrow> 'm store_engine \<Rightarrow> 'm store_engine option" where
  "store_cancelOrder dead ops key refs e =
     do {
       destroyed \<leftarrow> se_nodes e (sr_orderIter refs);
       orders \<leftarrow> se_lists e (sr_levelList refs);
       if sr_orderIter refs \<in> set orders \<and> sr_orderIter refs \<in> set (se_orders e) then do {
         let orders1 = remove1 (sr_orderIter refs) orders;
         let e1 = e\<lparr>se_lists := (se_lists e)(sr_levelList refs \<mapsto> orders1),
                    se_orders := remove1 (sr_orderIter refs) (se_orders e),
                    se_nodes := (se_nodes e)(sr_orderIter refs := None),
                    se_orderByID := smap_erase key (se_orderByID e)\<rparr>;
         priceLevelOrderList \<leftarrow> read_dead dead (sr_levelList refs);
         orders2 \<leftarrow> se_lists e1 priceLevelOrderList;
         if orders2 = [] then do {
           ord \<leftarrow> read_dead dead destroyed;
           let s = (if eo_side ord = BUY then BUY else SELL);
           Some (set_store_side s (fo_erase_key (ops s) (eo_price ord) (store_side s e1)) e1) }
         else Some e1 }
       else None }"

definition store_handleOrderCancel ::
  "dead_memory \<Rightarrow> (order_side \<Rightarrow> 'm flat_map_ops) \<Rightarrow> engine_order \<Rightarrow> 'm store_engine \<Rightarrow> 'm store_engine option" where
  "store_handleOrderCancel dead ops ord e =
     (case smap_find (se_orderByID e) (eo_orderId ord) of
        None \<Rightarrow> Some e
      | Some refs \<Rightarrow>
          do { resting \<leftarrow> se_nodes e (sr_orderIter refs);
               if eo_side ord = eo_side resting then store_cancelOrder dead ops (eo_orderId ord) refs e
               else Some e })"

definition store_handleOrderAmend ::
  "dead_memory \<Rightarrow> (order_side \<Rightarrow> 'm flat_map_ops) \<Rightarrow> engine_order \<Rightarrow> 'm store_engine \<Rightarrow> 'm store_engine option" where
  "store_handleOrderAmend dead ops ord e =
     (case smap_find (se_orderByID e) (eo_orderId ord) of
        None \<Rightarrow> Some e
      | Some refs \<Rightarrow>
          do { orderOriginal \<leftarrow> se_nodes e (sr_orderIter refs);
               if eo_side orderOriginal \<noteq> eo_side ord then Some e
               else if eo_price orderOriginal \<noteq> eo_price ord
               then do { e1 \<leftarrow> store_cancelOrder dead ops (eo_orderId ord) refs e; store_handleOrderNew ops ord e1 }
               else Some (e\<lparr>se_nodes := (se_nodes e)(sr_orderIter refs \<mapsto>
                              orderOriginal\<lparr>eo_quantity := eo_quantity ord\<rparr>)\<rparr>) })"

definition store_processOrder ::
  "dead_memory \<Rightarrow> (order_side \<Rightarrow> 'm flat_map_ops) \<Rightarrow> engine_order \<Rightarrow> 'm store_engine \<Rightarrow> 'm store_engine option" where
  "store_processOrder dead ops ord e =
     (case eo_action ord of
        NEW \<Rightarrow> store_handleOrderNew ops ord e
      | CANCEL \<Rightarrow> store_handleOrderCancel dead ops ord e
      | AMEND \<Rightarrow> store_handleOrderAmend dead ops ord e
      | _ \<Rightarrow> Some e)"

text \<open>As in the other engine, what reads destroyed objects is the cancellation of a resting order.\<close>

definition store_cancels :: "engine_order \<Rightarrow> 'm store_engine \<Rightarrow> bool" where
  "store_cancels ord f =
     (case Option.bind (smap_find (se_orderByID f) (eo_orderId ord)) (\<lambda>refs. se_nodes f (sr_orderIter refs)) of
        None \<Rightarrow> False
      | Some resting \<Rightarrow> takes_out ord resting)"

lemma store_cancelOrder_undefined [simp]: "store_cancelOrder Undefined_Reads ops key refs e = None"
  by (simp add: store_cancelOrder_def Let_def split: bind_splits)

lemma store_processOrder_strict:
  "store_processOrder Undefined_Reads ops ord f =
     (if store_cancels ord f then None else store_processOrder Contents_Stay ops ord f)"
proof (cases "smap_find (se_orderByID f) (eo_orderId ord)")
  case None
  then show ?thesis
    by (simp add: store_processOrder_def store_handleOrderCancel_def store_handleOrderAmend_def store_cancels_def
        split: order_action_type.split)
next
  case (Some refs)
  then show ?thesis
    by (cases "eo_action ord"; cases "se_nodes f (sr_orderIter refs)")
      (auto simp: store_processOrder_def store_handleOrderCancel_def store_handleOrderAmend_def store_cancels_def takes_out_def)
qed

text \<open>The queries of the tester.\<close>

definition store_best_order ::
  "(order_side \<Rightarrow> 'm flat_map_ops) \<Rightarrow> order_side \<Rightarrow> 'm store_engine \<Rightarrow> engine_order option option" where
  "store_best_order ops s e =
     (case fo_at (ops s) (store_side s e) 0 of
        None \<Rightarrow> Some None
      | Some (_, ptr) \<Rightarrow>
          do { level \<leftarrow> ptr; orders \<leftarrow> se_lists e level;
               (case orders of [] \<Rightarrow> None | n # _ \<Rightarrow> map_option Some (se_nodes e n)) })"

definition store_getOrdersCount :: "'m store_engine \<Rightarrow> nat" where
  "store_getOrdersCount e = length (se_orderByID e)"

definition store_side_count :: "(order_side \<Rightarrow> 'm flat_map_ops) \<Rightarrow> order_side \<Rightarrow> 'm store_engine \<Rightarrow> nat option" where
  "store_side_count ops s e =
     fold (\<lambda>i count. do { c \<leftarrow> count; (_, ptr) \<leftarrow> fo_at (ops s) (store_side s e) i; level \<leftarrow> ptr;
                          orders \<leftarrow> se_lists e level; Some (c + length orders) })
       [0..<fo_size (ops s) (store_side s e)] (Some 0)"

definition store_level_count :: "(order_side \<Rightarrow> 'm flat_map_ops) \<Rightarrow> order_side \<Rightarrow> 'm store_engine \<Rightarrow> nat" where
  "store_level_count ops s e = fo_size (ops s) (store_side s e)"

end
