(* ===== verification/Store_Simulation.thy ===== *)
theory Store_Simulation
  imports Store_Engine
begin

text \<open>
  The simulation between the unit-tested engine, whose level lists own the orders, and the engine over
  a store of order nodes: equal maps, trades and level addresses; each level of the former is a list
  of nodes of the latter that hold its orders; the two indexes agree.
\<close>

section \<open>The simulation relation\<close>

definition store_sim :: "'m matching_engine \<Rightarrow> 'm store_engine \<Rightarrow> bool" where
  "store_sim e f \<longleftrightarrow>
     en_bids e = se_bids f \<and> en_asks e = se_asks f \<and> en_trades e = se_trades f \<and> en_fresh e = se_nextList f
   \<and> smap_wf (en_orderByID e) \<and> smap_wf (se_orderByID f)
   \<and> set (se_orders f) = dom (se_nodes f) \<and> distinct (se_orders f) \<and> (\<forall>n\<in>dom (se_nodes f). n < se_nextNode f)
   \<and> (\<forall>a l. en_levels e a = Some l \<longrightarrow> (\<exists>xs. se_lists f a = Some xs \<and> distinct xs
        \<and> map (se_nodes f) xs = map Some (pl_orders l) \<and> a < se_nextList f))
   \<and> (\<forall>a b xs ys. a \<noteq> b \<longrightarrow> en_levels e a \<noteq> None \<longrightarrow> en_levels e b \<noteq> None \<longrightarrow> se_lists f a = Some xs
        \<longrightarrow> se_lists f b = Some ys \<longrightarrow> set xs \<inter> set ys = {})
   \<and> (\<forall>i. map_option rf_priceLevel (smap_find (en_orderByID e) i) = map_option sr_levelList (smap_find (se_orderByID f) i))
   \<and> (\<forall>i r. smap_find (se_orderByID f) i = Some r \<longrightarrow> (\<exists>xs x. se_lists f (sr_levelList r) = Some xs
        \<and> sr_orderIter r \<in> set xs \<and> se_nodes f (sr_orderIter r) = Some x \<and> eo_orderId x = i \<and> sr_levelList r < se_nextList f))"

lemma store_simD:
  assumes "store_sim e f"
  shows "en_bids e = se_bids f" "en_asks e = se_asks f" "en_trades e = se_trades f" "en_fresh e = se_nextList f"
    "smap_wf (en_orderByID e)" "smap_wf (se_orderByID f)"
    "set (se_orders f) = dom (se_nodes f)" "distinct (se_orders f)" "\<And>n x. se_nodes f n = Some x \<Longrightarrow> n < se_nextNode f"
    "\<And>a l. en_levels e a = Some l \<Longrightarrow> \<exists>xs. se_lists f a = Some xs \<and> distinct xs \<and> map (se_nodes f) xs = map Some (pl_orders l)
      \<and> a < se_nextList f"
    "\<And>a b xs ys. a \<noteq> b \<Longrightarrow> en_levels e a \<noteq> None \<Longrightarrow> en_levels e b \<noteq> None \<Longrightarrow> se_lists f a = Some xs
      \<Longrightarrow> se_lists f b = Some ys \<Longrightarrow> set xs \<inter> set ys = {}"
    "\<And>i. map_option rf_priceLevel (smap_find (en_orderByID e) i) = map_option sr_levelList (smap_find (se_orderByID f) i)"
    "\<And>i r. smap_find (se_orderByID f) i = Some r \<Longrightarrow> \<exists>xs x. se_lists f (sr_levelList r) = Some xs
        \<and> sr_orderIter r \<in> set xs \<and> se_nodes f (sr_orderIter r) = Some x \<and> eo_orderId x = i \<and> sr_levelList r < se_nextList f"
  using assms unfolding store_sim_def by blast+

lemma store_simI:
  assumes "en_bids e = se_bids f" "en_asks e = se_asks f" "en_trades e = se_trades f" "en_fresh e = se_nextList f"
    "smap_wf (en_orderByID e)" "smap_wf (se_orderByID f)"
    "set (se_orders f) = dom (se_nodes f)" "distinct (se_orders f)" "\<And>n x. se_nodes f n = Some x \<Longrightarrow> n < se_nextNode f"
    "\<And>a l. en_levels e a = Some l \<Longrightarrow> \<exists>xs. se_lists f a = Some xs \<and> distinct xs \<and> map (se_nodes f) xs = map Some (pl_orders l)
      \<and> a < se_nextList f"
    "\<And>a b xs ys. a \<noteq> b \<Longrightarrow> en_levels e a \<noteq> None \<Longrightarrow> en_levels e b \<noteq> None \<Longrightarrow> se_lists f a = Some xs
      \<Longrightarrow> se_lists f b = Some ys \<Longrightarrow> set xs \<inter> set ys = {}"
    "\<And>i. map_option rf_priceLevel (smap_find (en_orderByID e) i) = map_option sr_levelList (smap_find (se_orderByID f) i)"
    "\<And>i r. smap_find (se_orderByID f) i = Some r \<Longrightarrow> \<exists>xs x. se_lists f (sr_levelList r) = Some xs
        \<and> sr_orderIter r \<in> set xs \<and> se_nodes f (sr_orderIter r) = Some x \<and> eo_orderId x = i \<and> sr_levelList r < se_nextList f"
  shows "store_sim e f"
  using assms unfolding store_sim_def by blast

lemma new_store_sim: "store_sim (new_engine ops) (new_store_engine ops)"
  by (rule store_simI) (simp_all add: new_engine_def new_store_engine_def)

section \<open>Matching\<close>

text \<open>What matching against a list of nodes changes.\<close>

definition matched_nodes ::
  "'m store_engine \<Rightarrow> nat list \<Rightarrow> nat list \<Rightarrow> u64 set \<Rightarrow> engine_trade list \<Rightarrow> 'm store_engine \<Rightarrow> bool" where
  "matched_nodes f gone xs' ids T' f' \<longleftrightarrow>
     (\<exists>N J. f' = f\<lparr>se_trades := T', se_nodes := N, se_orderByID := J\<rparr>)
   \<and> (\<forall>n. n \<notin> set gone \<union> set xs' \<longrightarrow> se_nodes f' n = se_nodes f n)
   \<and> (\<forall>n. map_option eo_orderId (se_nodes f' n) = map_option eo_orderId (se_nodes f n))
   \<and> smap_find (se_orderByID f') = (\<lambda>i. if i \<in> ids then None else smap_find (se_orderByID f) i)
   \<and> (smap_wf (se_orderByID f) \<longrightarrow> smap_wf (se_orderByID f'))
   \<and> (\<forall>n\<in>set gone. \<exists>x. se_nodes f n = Some x \<and> eo_orderId x \<in> ids)"

lemma store_match_orders_sim:
  assumes "map (se_nodes f) xs = map Some os" "distinct xs"
    "match_orders ord os (se_trades f) I = (ord', os', T', I')"
  shows "\<exists>gone xs' ids f'. xs = gone @ xs' \<and> store_match_orders ord xs f = Some (ord', xs', f')
     \<and> map (se_nodes f') xs' = map Some os' \<and> matched_nodes f gone xs' ids T' f'
     \<and> smap_find I' = (\<lambda>i. if i \<in> ids then None else smap_find I i) \<and> (smap_wf I \<longrightarrow> smap_wf I')"
  using assms
proof (induction ord xs f arbitrary: os I rule: store_match_orders.induct)
  case (1 ord f)
  have "matched_nodes f [] [] {} (se_trades f) f" 
    unfolding matched_nodes_def by (auto intro!: exI [of _ "se_nodes f"] exI [of _ "se_orderByID f"])
  with 1 show ?case by (intro exI [of _ "[]"] exI [of _ "{}"] exI [of _ f]) simp
next
  case (2 ord n rest f)
  then obtain x os1 where os: "os = x # os1" "se_nodes f n = Some x" "map (se_nodes f) rest = map Some os1" by (cases os) auto
  let ?f1 = "f\<lparr>se_trades := se_trades f @ [make_trade ord x]\<rparr>"
  show ?case
  proof (cases "eo_quantity ord \<ge> eo_quantity x")
    case True
    let ?ord = "ord\<lparr>eo_quantity := eo_quantity ord - eo_quantity x\<rparr>"
    let ?f2 = "?f1\<lparr>se_nodes := (se_nodes ?f1)(n \<mapsto> x\<lparr>eo_quantity := 0\<rparr>),
      se_orderByID := smap_erase (eo_orderId x) (se_orderByID ?f1)\<rparr>"
    have "map (se_nodes ?f2) rest = map Some os1" "distinct rest" using os(3) "2.prems"(2) by auto
    moreover have "match_orders ?ord os1 (se_trades ?f2) (smap_erase (eo_orderId x) I) = (ord', os', T', I')"
      using "2.prems"(3) True by (simp add: os(1))
    ultimately obtain gone xs' ids f' where ih: "rest = gone @ xs'" "store_match_orders ?ord rest ?f2 = Some (ord', xs', f')"
      "map (se_nodes f') xs' = map Some os'" "matched_nodes ?f2 gone xs' ids T' f'"
      "smap_find I' = (\<lambda>i. if i \<in> ids then None else smap_find (smap_erase (eo_orderId x) I) i)"
      "smap_wf (smap_erase (eo_orderId x) I) \<longrightarrow> smap_wf I'"
      using "2.IH" [OF os(2) refl True, of os1 "smap_erase (eo_orderId x) I"] by blast
    have ne: "n \<notin> set rest" using "2.prems"(2) by simp
    have "matched_nodes f (n # gone) xs' (insert (eo_orderId x) ids) T' f'"
      unfolding matched_nodes_def
    proof (intro conjI)
      show "\<exists>N J. f' = f\<lparr>se_trades := T', se_nodes := N, se_orderByID := J\<rparr>"
        using ih(4) by (auto simp: matched_nodes_def)
      show "\<forall>m. m \<notin> set (n # gone) \<union> set xs' \<longrightarrow> se_nodes f' m = se_nodes f m"
        using ih(4) by (simp add: matched_nodes_def)
      show "\<forall>m. map_option eo_orderId (se_nodes f' m) = map_option eo_orderId (se_nodes f m)"
        using ih(4) os(2) by (simp add: matched_nodes_def)
      show "smap_find (se_orderByID f') = (\<lambda>i. if i \<in> insert (eo_orderId x) ids then None else smap_find (se_orderByID f) i)"
        using ih(4) by (auto simp: matched_nodes_def)
      show "smap_wf (se_orderByID f) \<longrightarrow> smap_wf (se_orderByID f')" using ih(4) by (simp add: matched_nodes_def)
      show "\<forall>m\<in>set (n # gone). \<exists>y. se_nodes f m = Some y \<and> eo_orderId y \<in> insert (eo_orderId x) ids"
        using ih(4) os(2) ne ih(1) by (auto simp: matched_nodes_def split: if_splits)
    qed
    with ih True os(2) show ?thesis
      by - (rule exI [of _ "n # gone"], rule exI [of _ xs'], rule exI [of _ "insert (eo_orderId x) ids"], rule exI [of _ f'],
        auto simp: Let_def fun_eq_iff)
  next
    case False
    let ?f' = "?f1\<lparr>se_nodes := (se_nodes ?f1)(n \<mapsto> x\<lparr>eo_quantity := eo_quantity x - eo_quantity ord\<rparr>)\<rparr>"
    have r: "ord' = ord\<lparr>eo_quantity := 0\<rparr>" "os' = x\<lparr>eo_quantity := eo_quantity x - eo_quantity ord\<rparr> # os1"
      "T' = se_trades f @ [make_trade ord x]" "I' = I" using "2.prems"(3) False by (simp_all add: os(1))
    have "map (se_nodes ?f') (n # rest) = map Some os'" using os(3) "2.prems"(2) r(2) by auto
    moreover have "matched_nodes f [] (n # rest) {} T' ?f'"
      using os(2) by (auto simp: matched_nodes_def r(3) intro!: exI [of _ "se_nodes ?f'"] exI [of _ "se_orderByID f"])
    moreover have "store_match_orders ord (n # rest) f = Some (ord', n # rest, ?f')" using os(2) False r(1) by (simp add: Let_def)
    ultimately show ?thesis
      by - (rule exI [of _ "[]"], rule exI [of _ "n # rest"], rule exI [of _ "{}"], rule exI [of _ ?f'],
        intro conjI; (assumption | simp add: r(4)))
  qed
qed

lemma matchOrderList_sim:
  assumes sim: "store_sim e f" and m: "matchOrderList ord a e = Some (b, ord', e')"
  shows "\<exists>f'. store_matchOrderList ord a f = Some (b, ord', f') \<and> store_sim e' f'"
proof -
  note s = store_simD [OF sim]
  from m obtain l os' T' I' where l: "en_levels e a = Some l"
    "match_orders ord (pl_orders l) (en_trades e) (en_orderByID e) = (ord', os', T', I')"
    "b = (os' = [])" "e' = e\<lparr>en_levels := (en_levels e)(a \<mapsto> l\<lparr>pl_orders := os'\<rparr>), en_trades := T', en_orderByID := I'\<rparr>"
    by (auto simp: matchOrderList_def split: option.splits prod.splits)
  from s(10) [OF l(1)] obtain xs where xs: "se_lists f a = Some xs" "distinct xs" "map (se_nodes f) xs = map Some (pl_orders l)"
    "a < se_nextList f" by blast
  from store_match_orders_sim [OF xs(3,2) l(2) [unfolded s(3)]] obtain gone xs' ids f1 where r:
    "xs = gone @ xs'" "store_match_orders ord xs f = Some (ord', xs', f1)" "map (se_nodes f1) xs' = map Some os'"
    "matched_nodes f gone xs' ids T' f1" "smap_find I' = (\<lambda>i. if i \<in> ids then None else smap_find (en_orderByID e) i)"
    "smap_wf (en_orderByID e) \<longrightarrow> smap_wf I'" by blast
  from r(4) obtain N J where f1: "f1 = f\<lparr>se_trades := T', se_nodes := N, se_orderByID := J\<rparr>" unfolding matched_nodes_def by blast
  have N: "\<And>n. n \<notin> set xs \<Longrightarrow> N n = se_nodes f n" "\<And>n. map_option eo_orderId (N n) = map_option eo_orderId (se_nodes f n)"
    and J: "smap_find J = (\<lambda>i. if i \<in> ids then None else smap_find (se_orderByID f) i)" "smap_wf J"
    and gone: "\<And>n. n \<in> set gone \<Longrightarrow> \<exists>x. se_nodes f n = Some x \<and> eo_orderId x \<in> ids"
    using r(4) [unfolded matched_nodes_def f1] s(6) by (simp_all add: r(1))
  have dom: "dom N = dom (se_nodes f)"
  proof (rule set_eqI)
    fix n show "n \<in> dom N \<longleftrightarrow> n \<in> dom (se_nodes f)" using N(2) [of n] by (cases "N n"; cases "se_nodes f n") auto
  qed
  let ?f' = "f1\<lparr>se_lists := (se_lists f1)(a \<mapsto> xs')\<rparr>"
  have "store_sim e' ?f'"
  proof (rule store_simI)
    show "n < se_nextNode ?f'" if "se_nodes ?f' n = Some x" for n x
    proof -
      from that dom obtain y where "se_nodes f n = Some y" by (auto simp: f1 dom_def set_eq_iff)
      from s(9) [OF this] show ?thesis by (simp add: f1)
    qed
    show "\<exists>ys. se_lists ?f' c = Some ys \<and> distinct ys \<and> map (se_nodes ?f') ys = map Some (pl_orders k) \<and> c < se_nextList ?f'"
      if "en_levels e' c = Some k" for c k
    proof (cases "c = a")
      case True
      with that r(1,3) xs(2,4) show ?thesis by (auto simp: l(4) f1)
    next
      case False
      with that have k: "en_levels e c = Some k" by (simp add: l(4))
      from s(10) [OF k] obtain ys where ys: "se_lists f c = Some ys" "distinct ys" "map (se_nodes f) ys = map Some (pl_orders k)"
        "c < se_nextList f" by blast
      have "set ys \<inter> set xs = {}" using s(11) [OF False _ _ ys(1) xs(1)] k l(1) by simp
      then have "map N ys = map (se_nodes f) ys" using N(1) by auto
      with ys False show ?thesis by (simp add: f1)
    qed
    show "set ys \<inter> set zs = {}" if "c \<noteq> d" "en_levels e' c \<noteq> None" "en_levels e' d \<noteq> None"
      "se_lists ?f' c = Some ys" "se_lists ?f' d = Some zs" for c d ys zs
    proof -
      have "set (xs') \<subseteq> set xs" using r(1) by simp
      with that s(11) [of c d] xs(1) l(1) show ?thesis by (auto simp: l(4) f1 split: if_splits)
    qed
    show "map_option rf_priceLevel (smap_find (en_orderByID e') i) = map_option sr_levelList (smap_find (se_orderByID ?f') i)" for i
      using s(12) [of i] by (simp add: l(4) f1 r(5) J)
    show "\<exists>ys x. se_lists ?f' (sr_levelList q) = Some ys \<and> sr_orderIter q \<in> set ys
        \<and> se_nodes ?f' (sr_orderIter q) = Some x \<and> eo_orderId x = i \<and> sr_levelList q < se_nextList ?f'" if q: "smap_find (se_orderByID ?f') i = Some q" for i q
    proof -
      from q have i: "i \<notin> ids" "smap_find (se_orderByID f) i = Some q" by (auto simp: f1 J split: if_splits)
      from s(13) [OF i(2)] obtain ys x where ys: "se_lists f (sr_levelList q) = Some ys" "sr_orderIter q \<in> set ys"
        "se_nodes f (sr_orderIter q) = Some x" "eo_orderId x = i" "sr_levelList q < se_nextList f" by blast
      from N(2) [of "sr_orderIter q"] ys(3) obtain y where y: "N (sr_orderIter q) = Some y" "eo_orderId y = eo_orderId x" by auto
      show ?thesis
      proof (cases "sr_levelList q = a")
        case True
        have "set xs = set gone \<union> set xs'" by (simp add: r(1))
        with True ys(1,2) xs(1) have "sr_orderIter q \<in> set gone \<union> set xs'" by simp
        moreover have "sr_orderIter q \<notin> set gone" using gone ys(3,4) i(1) by force
        ultimately show ?thesis using y ys(4,5) True by (simp add: f1)
      next
        case False
        with ys y show ?thesis by (simp add: f1)
      qed
    qed
  qed (use s r(6) J(2) dom in \<open>simp_all add: l(4) f1\<close>)
  moreover have "store_matchOrderList ord a f = Some (b, ord', ?f')" using xs(1) r(2) l(3) f1
    by (simp add: store_matchOrderList_def r(3) [symmetric]) (metis list.map_disc_iff r(3))
  ultimately show ?thesis by blast
qed

lemma store_side_sim: "store_sim e f \<Longrightarrow> store_side s f = side_map s e"
  by (cases s) (simp_all add: store_side_def side_map_def store_simD(1,2))

lemma set_store_side_sim: "store_sim e f \<Longrightarrow> store_sim (set_side_map s m e) (set_store_side s m f)"
  by (cases s) (simp_all add: store_sim_def set_side_map_def set_store_side_def)

lemma drop_level_sim:
  assumes sim: "store_sim e f"
  shows "store_sim (e\<lparr>en_levels := (en_levels e)(a := None)\<rparr>) f"
proof (rule store_simI)
  note s = store_simD [OF sim]
  let ?e = "e\<lparr>en_levels := (en_levels e)(a := None)\<rparr>"
  show "\<exists>xs. se_lists f c = Some xs \<and> distinct xs \<and> map (se_nodes f) xs = map Some (pl_orders l) \<and> c < se_nextList f"
    if "en_levels ?e c = Some l" for c l
    using that by (intro s(10)) (simp split: if_splits)
  show "set xs \<inter> set ys = {}" if "c \<noteq> d" "en_levels ?e c \<noteq> None" "en_levels ?e d \<noteq> None"
    "se_lists f c = Some xs" "se_lists f d = Some ys" for c d xs ys
    by (rule s(11) [OF that(1) _ _ that(4,5)]) (use that(2,3) in \<open>simp_all split: if_splits\<close>)
qed (use store_simD [OF sim] in \<open>(assumption | simp)+\<close>)

lemma set_side_levels_frame:
  "en_levels (set_side_map s m e) = en_levels e"
  by (cases s) (simp_all add: set_side_map_def)

lemma match_levels_sim:
  assumes "match_levels ops opposite i ord e = Some r"
  shows "\<forall>f. store_sim e f \<longrightarrow>
    (\<exists>f'. store_match_levels ops opposite i ord f = Some (fst r, f') \<and> store_sim (snd r) f')"
proof (rule match_levels.raw_induct [where P = "\<lambda>ops opposite i ord e r. \<forall>f. store_sim e f \<longrightarrow>
    (\<exists>f'. store_match_levels ops opposite i ord f = Some (fst r, f') \<and> store_sim (snd r) f')", OF _ assms], intro allI impI)
  fix F and ops :: "order_side \<Rightarrow> 'a flat_map_ops" and opposite i ord e r and f :: "'a store_engine"
  assume ih: "\<And>ops opposite i ord e r. F ops opposite i ord e = Some r \<Longrightarrow> \<forall>f. store_sim e f \<longrightarrow>
      (\<exists>f'. store_match_levels ops opposite i ord f = Some (fst r, f') \<and> store_sim (snd r) f')"
    and step: "(case fo_at (ops opposite) (side_map opposite e) i of None \<Rightarrow> Some (ord, e)
      | Some (levelPrice, levelPtr) \<Rightarrow>
          if 0 < eo_quantity ord \<and> comparator opposite levelPrice (eo_price ord)
          then case levelPtr of None \<Rightarrow> None
            | Some level \<Rightarrow> (case matchOrderList ord level e of None \<Rightarrow> None
                | Some (levelEmpty, ord', e') \<Rightarrow>
                    if levelEmpty then F ops opposite i ord' (erase_level_at ops opposite i level e')
                    else F ops opposite (i + 1) ord' e')
          else Some (ord, e)) = Some r"
    and f: "store_sim e f"
  note side = store_side_sim [OF f, of opposite] and unfold = store_match_levels.simps [of ops opposite i ord f]
  show "\<exists>f'. store_match_levels ops opposite i ord f = Some (fst r, f') \<and> store_sim (snd r) f'"
  proof (cases "fo_at (ops opposite) (side_map opposite e) i")
    case None
    with step f show ?thesis by (auto simp: unfold side)
  next
    case (Some entry)
    obtain levelPrice levelPtr where entry: "entry = (levelPrice, levelPtr)" by (cases entry)
    show ?thesis
    proof (cases "eo_quantity ord > 0 \<and> comparator opposite levelPrice (eo_price ord)")
      case False
      with step Some entry have "r = (ord, e)" by auto
      with False f Some entry show ?thesis by (auto simp: unfold side)
    next
      case True
      with step Some entry obtain level b ord1 e1 where l: "levelPtr = Some level" "matchOrderList ord level e = Some (b, ord1, e1)"
        by (auto split: option.splits)
      from matchOrderList_sim [OF f l(2)] obtain f1 where f1: "store_matchOrderList ord level f = Some (b, ord1, f1)" "store_sim e1 f1" by blast
      show ?thesis
      proof (cases b)
        case b: True
        let ?f2 = "set_store_side opposite (fo_erase_at (ops opposite) i (store_side opposite f1)) f1"
        have "store_sim (erase_level_at ops opposite i level e1) ?f2"
          using drop_level_sim [OF set_store_side_sim [OF f1(2), of opposite
              "fo_erase_at (ops opposite) i (store_side opposite f1)"], of level]
          by (simp add: erase_level_at_def set_side_levels_frame store_side_sim [OF f1(2)])
        moreover have "F ops opposite i ord1 (erase_level_at ops opposite i level e1) = Some r"
          using step Some entry True l b by simp
        ultimately obtain f' where "store_match_levels ops opposite i ord1 ?f2 = Some (fst r, f')" "store_sim (snd r) f'"
          using ih by blast
        with Some entry True l b f1 show ?thesis by (simp add: unfold side)
      next
        case b: False
        have "F ops opposite (i + 1) ord1 e1 = Some r" using step Some entry True l b by simp
        then obtain f' where "store_match_levels ops opposite (i + 1) ord1 f1 = Some (fst r, f')" "store_sim (snd r) f'"
          using ih f1(2) by blast
        with Some entry True l b f1 show ?thesis by (simp add: unfold side)
      qed
    qed
  qed
qed

lemma matchOrder_sim:
  assumes "matchOrder ops ord e = Some (q, ord', e')" "store_sim e f"
  shows "\<exists>f'. store_matchOrder ops ord f = Some (q, ord', f') \<and> store_sim e' f'"
  using assms match_levels_sim [of ops "opposite_side (eo_side ord)" 0 ord e "(ord', e')"]
  by (auto simp: matchOrder_def store_matchOrder_def split: option.splits prod.splits)

section \<open>The handlers\<close>

lemma add_level_sim:
  assumes sim: "store_sim e f"
  shows "store_sim (e\<lparr>en_levels := (en_levels e)(en_fresh e \<mapsto> \<lparr>pl_orders = [], pl_quantity = 0\<rparr>), en_fresh := en_fresh e + 1\<rparr>)
    (f\<lparr>se_lists := (se_lists f)(se_nextList f \<mapsto> []), se_nextList := se_nextList f + 1\<rparr>)" (is "store_sim ?e ?f")
proof (rule store_simI)
  note s = store_simD [OF sim]
  show "\<exists>xs. se_lists ?f c = Some xs \<and> distinct xs \<and> map (se_nodes ?f) xs = map Some (pl_orders l) \<and> c < se_nextList ?f"
    if "en_levels ?e c = Some l" for c l
    using that s(4) s(10) [of c l] by (cases "c = se_nextList f") auto
  show "set xs \<inter> set ys = {}" if "c \<noteq> d" "en_levels ?e c \<noteq> None" "en_levels ?e d \<noteq> None"
    "se_lists ?f c = Some xs" "se_lists ?f d = Some ys" for c d xs ys
    using that s(4) s(11) [of c d xs ys] by (cases "c = se_nextList f"; cases "d = se_nextList f") auto
  show "\<exists>xs x. se_lists ?f (sr_levelList r) = Some xs \<and> sr_orderIter r \<in> set xs
        \<and> se_nodes ?f (sr_orderIter r) = Some x \<and> eo_orderId x = i \<and> sr_levelList r < se_nextList ?f"
    if "smap_find (se_orderByID ?f) i = Some r" for i r
    using that s(13) [of i r] by auto
qed (use store_simD [OF sim] in \<open>(assumption | simp)+\<close>)

lemma getOrderPriceList_sim:
  assumes "getOrderPriceList ops s price e = Some (a, e')" "store_sim e f"
  shows "\<exists>f'. store_getOrderPriceList ops s price f = Some (a, f') \<and> store_sim e' f'"
proof -
  note side = store_side_sim [OF assms(2), of s] and fresh = store_simD(4) [OF assms(2)]
  obtain iter inserted m where em: "fo_emplace (ops s) price None (side_map s e) = (iter, inserted, m)" by (metis prod_cases3)
  show ?thesis
  proof (cases inserted)
    case True
    from True assms(1) em obtain p where at: "fo_at (ops s) (fo_assign (ops s) iter (Some (en_fresh e)) m) iter = Some (p, Some a)"
      and e': "e' = set_side_map s (fo_assign (ops s) iter (Some (en_fresh e)) m)
        (e\<lparr>en_levels := (en_levels e)(en_fresh e \<mapsto> \<lparr>pl_orders = [], pl_quantity = 0\<rparr>), en_fresh := en_fresh e + 1\<rparr>)"
      by (auto simp: getOrderPriceList_def Let_def split: option.splits)
    from True em at show ?thesis unfolding e'
      using set_store_side_sim [OF add_level_sim [OF assms(2)], of s "fo_assign (ops s) iter (Some (en_fresh e)) m"]
      by (auto simp: store_getOrderPriceList_def Let_def side fresh)
  next
    case False
    with assms(1) em obtain p where at: "fo_at (ops s) m iter = Some (p, Some a)" and e': "e' = set_side_map s m e"
      by (auto simp: getOrderPriceList_def Let_def split: option.splits)
    from False em at show ?thesis unfolding e' using set_store_side_sim [OF assms(2), of s m]
      by (auto simp: store_getOrderPriceList_def Let_def side)
  qed
qed

lemma add_order_sim:
  assumes sim: "store_sim e f" and l: "en_levels e a = Some l" and new: "smap_find (en_orderByID e) (eo_orderId ord) = None"
  shows "\<exists>xs. se_lists f a = Some xs \<and> store_sim
    (e\<lparr>en_levels := (en_levels e)(a \<mapsto> l\<lparr>pl_quantity := q, pl_orders := pl_orders l @ [ord]\<rparr>),
       en_orderByID := smap_assign (eo_orderId ord) \<lparr>rf_order = eo_orderId ord, rf_priceLevel = a\<rparr> (en_orderByID e)\<rparr>)
    (f\<lparr>se_orders := se_orders f @ [se_nextNode f], se_nextNode := se_nextNode f + 1,
       se_lists := (se_lists f)(a \<mapsto> xs @ [se_nextNode f]),
       se_orderByID := smap_assign (eo_orderId ord) \<lparr>sr_orderIter = se_nextNode f, sr_levelList = a\<rparr> (se_orderByID f),
       se_nodes := (se_nodes f)(se_nextNode f \<mapsto> ord)\<rparr>)" (is "\<exists>xs. _ \<and> store_sim ?e (?f xs)")
proof -
  note s = store_simD [OF sim]
  let ?n = "se_nextNode f"
  have free: "se_nodes f ?n = None" using s(9) [of ?n] by (cases "se_nodes f ?n") auto
  from s(10) [OF l] obtain xs where xs: "se_lists f a = Some xs" "distinct xs" "map (se_nodes f) xs = map Some (pl_orders l)"
    "a < se_nextList f" by blast
  have other: "?n \<notin> set ys" if "map (se_nodes f) ys = map Some os" for ys os
  proof
    assume "?n \<in> set ys"
    then have "se_nodes f ?n \<in> set (map Some os)" unfolding that [symmetric] by simp
    with free show False by auto
  qed
  have same: "map ((se_nodes f)(?n \<mapsto> ord)) ys = map Some os" if "map (se_nodes f) ys = map Some os" for ys os
    using other [OF that] that by (simp add: map_fun_upd)
  have "store_sim ?e (?f xs)"
  proof (rule store_simI)
    show "\<exists>ys. se_lists (?f xs) c = Some ys \<and> distinct ys \<and> map (se_nodes (?f xs)) ys = map Some (pl_orders k)
        \<and> c < se_nextList (?f xs)" if k: "en_levels ?e c = Some k" for c k
    proof (cases "c = a")
      case True
      with k have k': "k = l\<lparr>pl_quantity := q, pl_orders := pl_orders l @ [ord]\<rparr>" by simp
      from True xs other [OF xs(3)] same [OF xs(3)] show ?thesis unfolding k' by simp
    next
      case False
      with k s(10) [of c k] same show ?thesis by auto
    qed
    show "set ys \<inter> set zs = {}" if "c \<noteq> d" "en_levels ?e c \<noteq> None" "en_levels ?e d \<noteq> None"
      "se_lists (?f xs) c = Some ys" "se_lists (?f xs) d = Some zs" for c d ys zs
    proof -
      have nn: "?n \<notin> set vs" if "en_levels e b = Some k" "se_lists f b = Some vs" for b k vs
        using s(10) [OF that(1)] that(2) other by auto
      consider "c = a" | "d = a" | "c \<noteq> a" "d \<noteq> a" by blast
      then show ?thesis
      proof cases
        case 1
        with that l obtain k where "en_levels e d = Some k" "se_lists f d = Some zs" "ys = xs @ [?n]" by auto
        with s(11) [of a d xs zs] nn [of d k zs] 1 that(1) l xs(1) show ?thesis by auto
      next
        case 2
        with that l obtain k where "en_levels e c = Some k" "se_lists f c = Some ys" "zs = xs @ [?n]" by auto
        with s(11) [of a c xs ys] nn [of c k ys] 2 that(1) l xs(1) show ?thesis by auto
      next
        case 3
        with that s(11) [of c d ys zs] show ?thesis by simp
      qed
    qed
    show "map_option rf_priceLevel (smap_find (en_orderByID ?e) i) = map_option sr_levelList (smap_find (se_orderByID (?f xs)) i)" for i
      using s(5,6) s(12) [of i] by simp
    show "\<exists>ys x. se_lists (?f xs) (sr_levelList r) = Some ys \<and> sr_orderIter r \<in> set ys
        \<and> se_nodes (?f xs) (sr_orderIter r) = Some x \<and> eo_orderId x = i \<and> sr_levelList r < se_nextList (?f xs)"
      if r: "smap_find (se_orderByID (?f xs)) i = Some r" for i r
    proof (cases "i = eo_orderId ord")
      case True
      with r s(6) xs(4) show ?thesis by auto
    next
      case False
      with r s(6) have "smap_find (se_orderByID f) i = Some r" by simp
      from s(13) [OF this] obtain ys x where ys: "se_lists f (sr_levelList r) = Some ys" "sr_orderIter r \<in> set ys"
        "se_nodes f (sr_orderIter r) = Some x" "eo_orderId x = i" "sr_levelList r < se_nextList f" by blast
      then have "sr_orderIter r \<noteq> ?n" using free by auto
      with ys xs(1) show ?thesis by auto
    qed
    show "m < se_nextNode (?f xs)" if "se_nodes (?f xs) m = Some x" for m x
      using that s(9) [of m] by (auto split: if_splits intro: less_SucI)
    show "distinct (se_orders (?f xs))" using s(7,8) free by auto
  qed (use s free in \<open>simp_all add: smap_wf_assign\<close>)
  with xs(1) show ?thesis by blast
qed

lemma store_getOrderPriceList_frame:
  "store_getOrderPriceList ops s price (f\<lparr>se_orders := os, se_nextNode := n\<rparr>) =
     map_option (\<lambda>(a, f'). (a, f'\<lparr>se_orders := os, se_nextNode := n\<rparr>)) (store_getOrderPriceList ops s price f)"
  by (cases s) (auto simp: store_getOrderPriceList_def Let_def store_side_def set_store_side_def
      split: option.splits prod.splits)

lemma store_getOrderPriceList_keeps:
  "store_getOrderPriceList ops s price f = Some (a, f') \<Longrightarrow> se_orders f' = se_orders f \<and> se_nextNode f' = se_nextNode f
    \<and> se_nodes f' = se_nodes f \<and> se_orderByID f' = se_orderByID f"
  by (cases s) (auto simp: store_getOrderPriceList_def Let_def set_store_side_def split: option.splits prod.splits if_splits)

lemma getOrderPriceList_index: "getOrderPriceList ops s price e = Some (a, e') \<Longrightarrow> en_orderByID e' = en_orderByID e"
  by (cases s) (auto simp: getOrderPriceList_def Let_def set_side_map_def split: option.splits prod.splits if_splits)

lemma index_unknown_sim:
  "store_sim e f \<Longrightarrow> smap_find (se_orderByID f) i = None \<longleftrightarrow> smap_find (en_orderByID e) i = None"
  using store_simD(12) [of e f i] by (metis map_option_is_None)

lemma handleOrderNew_sim:
  assumes "handleOrderNew ops ord0 e0 = Some e'" "store_sim e0 f0"
  shows "\<exists>f'. store_handleOrderNew ops ord0 f0 = Some f' \<and> store_sim e' f'"
proof -
  from assms(1) obtain q ord e where m: "matchOrder ops ord0 e0 = Some (q, ord, e)"
    by (cases "matchOrder ops ord0 e0") (auto simp: handleOrderNew_def)
  from matchOrder_sim [OF m assms(2)] obtain f where f: "store_matchOrder ops ord0 f0 = Some (q, ord, f)" "store_sim e f" by blast
  show ?thesis
  proof (cases "q = 0 \<or> smap_find (en_orderByID e) (eo_orderId ord) \<noteq> None")
    case True
    with assms(1) m have "e' = e" by (auto simp: handleOrderNew_rest)
    with True f index_unknown_sim [OF f(2), of "eo_orderId ord"] show ?thesis by (auto simp: store_handleOrderNew_def)
  next
    case False
    with assms(1) m have "rest_order ops ord e = Some e'" by (simp add: handleOrderNew_rest)
    then obtain a e1 l where e1: "getOrderPriceList ops (if eo_side ord = BUY then BUY else SELL) (eo_price ord) e = Some (a, e1)"
      "en_levels e1 a = Some l" "e' = e1\<lparr>en_levels := (en_levels e1)(a \<mapsto> l\<lparr>pl_quantity := pl_quantity l + ucast (eo_quantity ord),
           pl_orders := pl_orders l @ [ord]\<rparr>),
         en_orderByID := smap_assign (eo_orderId ord) \<lparr>rf_order = eo_orderId ord, rf_priceLevel = a\<rparr> (en_orderByID e1)\<rparr>"
      by (auto simp: rest_order_def Let_def split: bind_splits)
    from getOrderPriceList_sim [OF e1(1) f(2)] obtain f1 where
      f1: "store_getOrderPriceList ops (if eo_side ord = BUY then BUY else SELL) (eo_price ord) f = Some (a, f1)" "store_sim e1 f1" by blast
    note keeps = store_getOrderPriceList_keeps [OF f1(1)]
    have "smap_find (en_orderByID e1) (eo_orderId ord) = None" using getOrderPriceList_index [OF e1(1)] False by simp
    from add_order_sim [OF f1(2) e1(2) this, of "pl_quantity l + ucast (eo_quantity ord)"]
    show ?thesis
      using f(1) False index_unknown_sim [OF f(2), of "eo_orderId ord"] f1(1) keeps
      by (auto simp: store_handleOrderNew_def Let_def store_getOrderPriceList_frame e1(3))
  qed
qed

text \<open>Erasing an order from its level.\<close>

lemma erase_order_sim:
  assumes "map N xs = map Some os" "distinct xs" "distinct (map eo_orderId os)" "n \<in> set xs" "N n = Some x"
  shows "order_with_id (eo_orderId x) os = Some x" "map N (remove1 n xs) = map Some (erase_order (eo_orderId x) os)"
    "map (N(n \<mapsto> x\<lparr>eo_quantity := q\<rparr>)) xs = map Some (assign_quantity (eo_orderId x) q os)"
  using assms
proof (induction xs arbitrary: os)
  case (Cons m xs)
  {
    case 1
    then obtain y ys where os: "os = y # ys" "N m = Some y" "map N xs = map Some ys" by (cases os) auto
    show ?case
    proof (cases "m = n")
      case True
      with os 1 show ?thesis by (simp add: order_with_id_def)
    next
      case False
      with 1 have "n \<in> set xs" by simp
      then have "Some x \<in> set (map N xs)" using 1(5) by force
      then have "x \<in> set ys" unfolding os(3) by auto
      with 1(3) os(1) have "eo_orderId y \<noteq> eo_orderId x" by force
      with Cons.IH(1) [of ys] os 1 \<open>n \<in> set xs\<close> show ?thesis by (simp add: order_with_id_def)
    qed
  next
    case 2
    then obtain y ys where os: "os = y # ys" "N m = Some y" "map N xs = map Some ys" by (cases os) auto
    show ?case
    proof (cases "m = n")
      case True
      with os 2 show ?thesis by simp
    next
      case False
      with 2 have "n \<in> set xs" by simp
      then have "Some x \<in> set (map N xs)" using 2(5) by force
      then have "x \<in> set ys" unfolding os(3) by auto
      with 2(3) os(1) have "eo_orderId y \<noteq> eo_orderId x" by force
      with Cons.IH(2) [of ys] os 2 False \<open>n \<in> set xs\<close> show ?thesis by simp
    qed
  next
    case 3
    then obtain y ys where os: "os = y # ys" "N m = Some y" "map N xs = map Some ys" by (cases os) auto
    show ?case
    proof (cases "m = n")
      case True
      with 3 have "n \<notin> set xs" by simp
      then have upd: "map (\<lambda>a. if a = n then v else N a) xs = map N xs" for v by (intro map_cong) auto
      from True os 3 show ?thesis by (simp add: upd)
    next
      case False
      with 3 have "n \<in> set xs" by simp
      then have "Some x \<in> set (map N xs)" using 3(5) by force
      then have "x \<in> set ys" unfolding os(3) by auto
      with 3(3) os(1) have "eo_orderId y \<noteq> eo_orderId x" by force
      with Cons.IH(3) [of ys] os 3 False \<open>n \<in> set xs\<close> show ?thesis by simp
    qed
  }
qed simp_all

text \<open>The order of an index entry, in both engines.\<close>

lemma index_entry_sim:
  assumes "store_sim e f" "engine_wf entries e" "smap_find (en_orderByID e) i = Some refs"
  obtains r a l xs x where "smap_find (se_orderByID f) i = Some r" "refs = \<lparr>rf_order = i, rf_priceLevel = a\<rparr>"
    "sr_levelList r = a" "en_levels e a = Some l" "se_lists f a = Some xs" "distinct xs"
    "map (se_nodes f) xs = map Some (pl_orders l)" "distinct (map eo_orderId (pl_orders l))"
    "sr_orderIter r \<in> set xs" "se_nodes f (sr_orderIter r) = Some x" "eo_orderId x = i" "order_with_id i (pl_orders l) = Some x"
proof -
  obtain s p a xs' ys' l x where wf: "refs = \<lparr>rf_order = i, rf_priceLevel = a\<rparr>" "en_levels e a = Some l"
    "level_ok s p (pl_orders l)" by (rule resting_order [OF assms(2,3)])
  note sim = store_simD [OF assms(1)]
  from sim(12) [of i] assms(3) wf(1) obtain r where r: "smap_find (se_orderByID f) i = Some r" "sr_levelList r = a"
    by (cases "smap_find (se_orderByID f) i") auto
  from sim(13) [OF r(1)] r(2) obtain xs y where y: "se_lists f a = Some xs" "sr_orderIter r \<in> set xs"
    "se_nodes f (sr_orderIter r) = Some y" "eo_orderId y = i" by blast
  from sim(10) [OF wf(2)] y(1) have xs: "distinct xs" "map (se_nodes f) xs = map Some (pl_orders l)" by auto
  have ids: "distinct (map eo_orderId (pl_orders l))" using wf(3) by (simp add: level_ok_def)
  from erase_order_sim(1) [OF xs(2,1) ids y(2,3)] y(4) have "order_with_id i (pl_orders l) = Some y" by simp
  with that r wf(1,2) y xs ids show thesis by blast
qed

lemma cancelOrder_sim:
  assumes sim: "store_sim e f" and wf: "engine_wf entries e" and refs: "smap_find (en_orderByID e) i = Some refs"
    and r: "smap_find (se_orderByID f) i = Some r" and run: "cancelOrder Contents_Stay ops i refs e = Some e'"
  shows "\<exists>f'. store_cancelOrder Contents_Stay ops i r f = Some f' \<and> store_sim e' f'"
proof -
  note s = store_simD [OF sim]
  obtain a l xs x where en: "refs = \<lparr>rf_order = i, rf_priceLevel = a\<rparr>" "sr_levelList r = a" "en_levels e a = Some l"
    "se_lists f a = Some xs" "distinct xs" "map (se_nodes f) xs = map Some (pl_orders l)" "distinct (map eo_orderId (pl_orders l))"
    "sr_orderIter r \<in> set xs" "se_nodes f (sr_orderIter r) = Some x" "eo_orderId x = i" "order_with_id i (pl_orders l) = Some x"
    by (rule index_entry_sim [OF sim wf refs]) (use r in auto)
  let ?n = "sr_orderIter r" let ?os = "erase_order i (pl_orders l)" let ?xs = "remove1 ?n xs"
  have erased: "map (se_nodes f) ?xs = map Some ?os" using erase_order_sim(2) [OF en(6,5,7-9)] en(10) by simp
  let ?l = "l\<lparr>pl_orders := ?os, pl_quantity := pl_quantity l - ucast (eo_quantity x)\<rparr>"
  let ?e1 = "e\<lparr>en_levels := (en_levels e)(a \<mapsto> ?l), en_orderByID := smap_erase i (en_orderByID e)\<rparr>"
  let ?f1 = "f\<lparr>se_lists := (se_lists f)(a \<mapsto> ?xs), se_orders := remove1 ?n (se_orders f),
      se_nodes := (se_nodes f)(?n := None), se_orderByID := smap_erase i (se_orderByID f)\<rparr>"
  have n: "?n \<in> set (se_orders f)" using s(7) en(9) by auto
  have away: "?n \<notin> set ys" if "c \<noteq> a" "en_levels e c = Some k" "se_lists f c = Some ys" for c k ys
    using s(11) [OF that(1) _ _ that(3) en(4)] that(2) en(3,8) by auto
  have same: "map ((se_nodes f)(?n := None)) ys = map (se_nodes f) ys" if "?n \<notin> set ys" for ys
    using that by (intro map_cong) auto
  have sim1: "store_sim ?e1 ?f1"
  proof (rule store_simI)
    show "\<exists>ys. se_lists ?f1 c = Some ys \<and> distinct ys \<and> map (se_nodes ?f1) ys = map Some (pl_orders k)
        \<and> c < se_nextList ?f1" if k: "en_levels ?e1 c = Some k" for c k
    proof (cases "c = a")
      case True
      with k have "k = ?l" by simp
      moreover have "?n \<notin> set ?xs" using en(5) by simp
      moreover have "a < se_nextList f" using s(10) [OF en(3)] by blast
      ultimately show ?thesis using True en(5) erased same [of ?xs] by simp
    next
      case False
      with k have live: "en_levels e c = Some k" by simp
      from s(10) [OF live] obtain ys where ys: "se_lists f c = Some ys" "distinct ys"
        "map (se_nodes f) ys = map Some (pl_orders k)" "c < se_nextList f" by blast
      with False same [OF away [OF False live ys(1)]] show ?thesis by simp
    qed
    show "set ys \<inter> set zs = {}" if "c \<noteq> d" "en_levels ?e1 c \<noteq> None" "en_levels ?e1 d \<noteq> None"
      "se_lists ?f1 c = Some ys" "se_lists ?f1 d = Some zs" for c d ys zs
    proof -
      have sub: "\<exists>vs. se_lists f b = Some vs \<and> set us \<subseteq> set vs" if "se_lists ?f1 b = Some us" for b us
        using that en(4) set_remove1_subset [of ?n xs] by (cases "b = a") auto
      from sub [OF that(4)] sub [OF that(5)] obtain ys' zs' where
        "se_lists f c = Some ys'" "set ys \<subseteq> set ys'" "se_lists f d = Some zs'" "set zs \<subseteq> set zs'" by blast
      moreover have "en_levels e c \<noteq> None" "en_levels e d \<noteq> None" using that(2,3) en(3) by (auto split: if_splits)
      ultimately show ?thesis using s(11) [OF that(1)] by blast
    qed
    show "map_option rf_priceLevel (smap_find (en_orderByID ?e1) j) = map_option sr_levelList (smap_find (se_orderByID ?f1) j)" for j
      using s(12) [of j] by simp
    show "\<exists>ys y. se_lists ?f1 (sr_levelList q) = Some ys \<and> sr_orderIter q \<in> set ys
        \<and> se_nodes ?f1 (sr_orderIter q) = Some y \<and> eo_orderId y = j \<and> sr_levelList q < se_nextList ?f1"
      if q: "smap_find (se_orderByID ?f1) j = Some q" for j q
    proof -
      from q have j: "j \<noteq> i" "smap_find (se_orderByID f) j = Some q" by (auto split: if_splits)
      from s(13) [OF j(2)] obtain ys y where y: "se_lists f (sr_levelList q) = Some ys" "sr_orderIter q \<in> set ys"
        "se_nodes f (sr_orderIter q) = Some y" "eo_orderId y = j" "sr_levelList q < se_nextList f" by blast
      with j(1) en(9,10) have ne: "sr_orderIter q \<noteq> ?n" by auto
      with y en(4,5) show ?thesis by (cases "sr_levelList q = a") auto
    qed
    show "m < se_nextNode ?f1" if "se_nodes ?f1 m = Some y" for m y using that s(9) [of m] by (auto split: if_splits)
  qed (use s in \<open>auto simp: set_remove1_eq\<close>)
  have e': "e' = (if ?os = [] then (set_side_map (eo_side x) (fo_erase_key (ops (eo_side x)) (eo_price x) (side_map (eo_side x) ?e1)) ?e1)
      \<lparr>en_levels := (en_levels ?e1)(a := None)\<rparr> else ?e1)"
    using run en(1,3,11) by (simp add: cancelOrder_def Let_def split: if_splits)
  have empty: "?xs = [] \<longleftrightarrow> ?os = []" using erased by (metis list.map_disc_iff)
  let ?f' = "if ?os = [] then set_store_side (eo_side x) (fo_erase_key (ops (eo_side x)) (eo_price x) (store_side (eo_side x) ?f1)) ?f1 else ?f1"
  have "store_cancelOrder Contents_Stay ops i r f = Some ?f'"
    using en(2,4,8,9) n empty by (simp add: store_cancelOrder_def Let_def)
  moreover have "store_sim e' ?f'"
  proof (cases "?os = []")
    case True
    then show ?thesis
      using drop_level_sim [OF set_store_side_sim [OF sim1, of "eo_side x"
          "fo_erase_key (ops (eo_side x)) (eo_price x) (store_side (eo_side x) ?f1)"], of a]
      unfolding e' by (simp add: set_side_levels_frame store_side_sim [OF sim1])
  next
    case False
    then show ?thesis using sim1 unfolding e' by simp
  qed
  ultimately show ?thesis by blast
qed

lemma handleOrderCancel_sim:
  assumes "store_sim e f" "engine_wf entries e" "handleOrderCancel Contents_Stay ops ord e = Some e'"
  shows "\<exists>f'. store_handleOrderCancel Contents_Stay ops ord f = Some f' \<and> store_sim e' f'"
proof (cases "smap_find (en_orderByID e) (eo_orderId ord)")
  case None
  with assms index_unknown_sim [OF assms(1), of "eo_orderId ord"] show ?thesis
    by (auto simp: handleOrderCancel_def store_handleOrderCancel_def)
next
  case (Some refs)
  obtain r a l xs x where en: "smap_find (se_orderByID f) (eo_orderId ord) = Some r"
    "refs = \<lparr>rf_order = eo_orderId ord, rf_priceLevel = a\<rparr>" "en_levels e a = Some l"
    "se_nodes f (sr_orderIter r) = Some x" "order_with_id (eo_orderId ord) (pl_orders l) = Some x"
    by (rule index_entry_sim [OF assms(1,2) Some])
  show ?thesis
  proof (cases "eo_side ord = eo_side x")
    case True
    with assms(3) Some en have run: "cancelOrder Contents_Stay ops (eo_orderId ord) refs e = Some e'" by (simp add: handleOrderCancel_def)
    from cancelOrder_sim [OF assms(1,2) Some en(1) run] True en show ?thesis by (simp add: store_handleOrderCancel_def)
  next
    case False
    with assms(1,3) Some en show ?thesis by (simp add: handleOrderCancel_def store_handleOrderCancel_def)
  qed
qed

lemma assign_quantity_sim:
  assumes sim: "store_sim e f" and en: "en_levels e a = Some l" "se_lists f a = Some xs" "distinct xs"
    "map (se_nodes f) xs = map Some (pl_orders l)" "distinct (map eo_orderId (pl_orders l))" "n \<in> set xs" "se_nodes f n = Some x"
  shows "store_sim (e\<lparr>en_levels := (en_levels e)(a \<mapsto> l\<lparr>pl_quantity := v, pl_orders := assign_quantity (eo_orderId x) q (pl_orders l)\<rparr>)\<rparr>)
    (f\<lparr>se_nodes := (se_nodes f)(n \<mapsto> x\<lparr>eo_quantity := q\<rparr>)\<rparr>)" (is "store_sim ?e ?f")
proof (rule store_simI)
  note s = store_simD [OF sim]
  show "\<exists>ys. se_lists ?f c = Some ys \<and> distinct ys \<and> map (se_nodes ?f) ys = map Some (pl_orders k) \<and> c < se_nextList ?f"
    if k: "en_levels ?e c = Some k" for c k
  proof (cases "c = a")
    case True
    with k have k': "k = l\<lparr>pl_quantity := v, pl_orders := assign_quantity (eo_orderId x) q (pl_orders l)\<rparr>" by simp
    have "a < se_nextList f" using s(10) [OF en(1)] by blast
    with True en(2,3) erase_order_sim(3) [OF en(4,3,5-7), of q] show ?thesis unfolding k' by simp
  next
    case False
    with k have live: "en_levels e c = Some k" by simp
    from s(10) [OF live] obtain ys where ys: "se_lists f c = Some ys" "distinct ys"
      "map (se_nodes f) ys = map Some (pl_orders k)" "c < se_nextList f" by blast
    have "n \<notin> set ys" using s(11) [OF False _ _ ys(1) en(2)] live en(1,6) by auto
    then have "map (se_nodes ?f) ys = map (se_nodes f) ys" by (intro map_cong) auto
    with ys show ?thesis by simp
  qed
  show "set ys \<inter> set zs = {}" if "c \<noteq> d" "en_levels ?e c \<noteq> None" "en_levels ?e d \<noteq> None"
    "se_lists ?f c = Some ys" "se_lists ?f d = Some zs" for c d ys zs
    using that s(11) [of c d ys zs] en(1) by (simp split: if_splits)
  show "\<exists>ys y. se_lists ?f (sr_levelList r) = Some ys \<and> sr_orderIter r \<in> set ys
      \<and> se_nodes ?f (sr_orderIter r) = Some y \<and> eo_orderId y = i \<and> sr_levelList r < se_nextList ?f"
    if "smap_find (se_orderByID ?f) i = Some r" for i r
    using that s(13) [of i r] en(7) by auto
  show "m < se_nextNode ?f" if "se_nodes ?f m = Some y" for m y
    using that s(9) [of m] en(7) by (auto split: if_splits)
qed (use store_simD [OF sim] en(7) in \<open>auto simp: insert_absorb domI\<close>)

lemma handleOrderAmend_sim:
  assumes "engine_maps ops entries" "store_sim e f" "engine_wf entries e" "handleOrderAmend Contents_Stay ops ord e = Some e'"
  shows "\<exists>f'. store_handleOrderAmend Contents_Stay ops ord f = Some f' \<and> store_sim e' f'"
proof (cases "smap_find (en_orderByID e) (eo_orderId ord)")
  case None
  with assms index_unknown_sim [OF assms(2), of "eo_orderId ord"] show ?thesis
    by (auto simp: handleOrderAmend_def store_handleOrderAmend_def)
next
  case (Some refs)
  obtain r a l xs x where en: "smap_find (se_orderByID f) (eo_orderId ord) = Some r"
    "refs = \<lparr>rf_order = eo_orderId ord, rf_priceLevel = a\<rparr>" "en_levels e a = Some l" "se_lists f a = Some xs" "distinct xs"
    "map (se_nodes f) xs = map Some (pl_orders l)" "distinct (map eo_orderId (pl_orders l))" "sr_orderIter r \<in> set xs"
    "se_nodes f (sr_orderIter r) = Some x" "eo_orderId x = eo_orderId ord" "order_with_id (eo_orderId ord) (pl_orders l) = Some x"
    by (rule index_entry_sim [OF assms(2,3) Some])
  consider (side) "eo_side x \<noteq> eo_side ord" | (price) "eo_side x = eo_side ord" "eo_price x \<noteq> eo_price ord"
    | (quantity) "eo_side x = eo_side ord" "eo_price x = eo_price ord" by blast
  then show ?thesis
  proof cases
    case side
    with assms(2,4) Some en show ?thesis by (simp add: handleOrderAmend_def store_handleOrderAmend_def)
  next
    case price
    with assms(4) Some en obtain e1 where e1: "cancelOrder Contents_Stay ops (eo_orderId ord) refs e = Some e1" "handleOrderNew ops ord e1 = Some e'"
      by (auto simp: handleOrderAmend_def split: bind_splits)
    from cancelOrder_sim [OF assms(2,3) Some en(1) e1(1)] obtain f1 where
      f1: "store_cancelOrder Contents_Stay ops (eo_orderId ord) r f = Some f1" "store_sim e1 f1" by blast
    from handleOrderNew_sim [OF e1(2) f1(2)] f1(1) price en(1,9) show ?thesis by (simp add: store_handleOrderAmend_def)
  next
    case quantity
    with assms(4) Some en have e': "e' = e\<lparr>en_levels := (en_levels e)(a \<mapsto>
        l\<lparr>pl_quantity := pl_quantity l - ucast (eo_quantity x) + ucast (eo_quantity ord),
          pl_orders := assign_quantity (eo_orderId x) (eo_quantity ord) (pl_orders l)\<rparr>)\<rparr>"
      by (simp add: handleOrderAmend_def Let_def)
    from assign_quantity_sim [OF assms(2) en(3-9), where q = "eo_quantity ord"
        and v = "pl_quantity l - ucast (eo_quantity x) + ucast (eo_quantity ord)"]
      quantity en(1,9) show ?thesis unfolding e' by (simp add: store_handleOrderAmend_def)
  qed
qed

lemma processOrder_sim:
  assumes "engine_maps ops entries" "store_sim e f" "engine_wf entries e" "processOrder Contents_Stay ops ord e = Some e'"
  shows "\<exists>f'. store_processOrder Contents_Stay ops ord f = Some f' \<and> store_sim e' f'"
  using assms(4) handleOrderNew_sim [OF _ assms(2)] handleOrderCancel_sim [OF assms(2,3)] handleOrderAmend_sim [OF assms(1-3)] assms(2)
  by (cases "eo_action ord") (auto simp: processOrder_def store_processOrder_def)

section \<open>Properties\<close>

fun store_process_orders ::
  "dead_memory \<Rightarrow> (order_side \<Rightarrow> 'm flat_map_ops) \<Rightarrow> engine_order list \<Rightarrow> 'm store_engine \<Rightarrow> 'm store_engine option" where
  "store_process_orders dead ops [] e = Some e"
| "store_process_orders dead ops (ord # orders) e =
     (case store_processOrder dead ops ord e of None \<Rightarrow> None | Some e' \<Rightarrow> store_process_orders dead ops orders e')"

text \<open>The levels of a side with the orders their iterators lead to.\<close>

definition store_levels :: "('m \<Rightarrow> (u64 \<times> nat option) list) \<Rightarrow> 'm store_engine \<Rightarrow> order_side \<Rightarrow> book_levels" where
  "store_levels entries f s =
     map (\<lambda>(p, v). (p, map (\<lambda>n. the (se_nodes f n)) (the (se_lists f (the v))))) (entries (store_side s f))"

lemma store_levels_sim:
  assumes "store_sim e f" "engine_wf entries e"
  shows "store_levels entries f s = side_levels entries e s"
proof -
  have "map (\<lambda>n. the (se_nodes f n)) (the (se_lists f (the v))) = orders_at (en_levels e) (the v)"
    if pv: "(p, v) \<in> set (entries (side_map s e))" for p v
  proof -
    from book_wfD(2) [OF assms(2) [unfolded engine_wf_def], of p v s] pv obtain a where a: "v = Some a" "level_ok s p (orders_at (en_levels e) a)"
      by (auto simp: side_entries_def)
    then obtain l where l: "en_levels e a = Some l" by (auto simp: level_ok_def orders_at_def split: option.splits)
    from store_simD(10) [OF assms(1) l] obtain xs where xs: "se_lists f a = Some xs" "map (se_nodes f) xs = map Some (pl_orders l)" by blast
    have "map the (map (se_nodes f) xs) = pl_orders l" unfolding xs(2) by (simp add: comp_def)
    with a l xs(1) show ?thesis by (simp add: orders_at_def comp_def)
  qed
  then show ?thesis unfolding store_levels_def side_levels_def levels_of_def side_entries_def store_side_sim [OF assms(1)]
    by (intro map_cong) auto
qed

lemma store_runs:
  assumes "engine_maps ops entries" "engine_wf entries e" "engine_uncrossed entries e" "store_sim e f"
  shows "\<exists>e' f'. process_orders Contents_Stay ops orders e = Some e' \<and> store_process_orders Contents_Stay ops orders f = Some f'
    \<and> store_sim e' f' \<and> engine_wf entries e'"
  using assms(2-)
proof (induction orders arbitrary: e f)
  case (Cons ord orders)
  obtain e1 where e1: "processOrder Contents_Stay ops ord e = Some e1" "engine_wf entries e1" "engine_uncrossed entries e1"
    using engine_maps.processOrder_keeps [OF assms(1) Cons.prems(1,2)] by blast
  from processOrder_sim [OF assms(1) Cons.prems(3,1) e1(1)] obtain f1 where "store_processOrder Contents_Stay ops ord f = Some f1" "store_sim e1 f1" by blast
  with Cons.IH [OF e1(2,3)] e1(1) show ?case by simp
qed auto

lemma store_cancels_sim:
  assumes "store_sim e f" "engine_wf entries e"
  shows "store_cancels ord f = cancels_resting ord e"
proof (cases "smap_find (en_orderByID e) (eo_orderId ord)")
  case None
  with index_unknown_sim [OF assms(1), of "eo_orderId ord"] show ?thesis
    by (simp add: store_cancels_def cancels_resting_def named_order_def)
next
  case (Some refs)
  obtain r a l xs x where "smap_find (se_orderByID f) (eo_orderId ord) = Some r"
    "refs = \<lparr>rf_order = eo_orderId ord, rf_priceLevel = a\<rparr>" "en_levels e a = Some l"
    "se_nodes f (sr_orderIter r) = Some x" "order_with_id (eo_orderId ord) (pl_orders l) = Some x"
    by (rule index_entry_sim [OF assms Some])
  with Some show ?thesis by (simp add: store_cancels_def cancels_resting_def named_order_def)
qed

lemma store_runs_strict:
  assumes "engine_maps ops entries" "engine_wf entries e" "engine_uncrossed entries e" "store_sim e f"
  shows "store_process_orders Undefined_Reads ops orders f =
    (if cancels_during ops orders e then None else store_process_orders Contents_Stay ops orders f)"
  using assms(2-)
proof (induction orders arbitrary: e f)
  case (Cons ord orders)
  obtain e1 where e1: "processOrder Contents_Stay ops ord e = Some e1" "engine_wf entries e1" "engine_uncrossed entries e1"
    using engine_maps.processOrder_keeps [OF assms(1) Cons.prems(1,2)] by blast
  from processOrder_sim [OF assms(1) Cons.prems(3,1) e1(1)] obtain f1 where
    "store_processOrder Contents_Stay ops ord f = Some f1" "store_sim e1 f1" by blast
  with Cons.IH [OF e1(2,3)] e1(1) store_cancels_sim [OF Cons.prems(3,1)] show ?case
    by (simp add: store_processOrder_strict)
qed simp



text \<open>What a filled order leaves behind.\<close>

lemma store_match_orders_keeps:
  "store_match_orders ord xs f = Some (ord', xs', f') \<Longrightarrow> se_orders f' = se_orders f \<and> (\<forall>m. se_nodes f' m = None \<longleftrightarrow> se_nodes f m = None)"
proof (induction ord xs f rule: store_match_orders.induct)
  case (2 ord n rest f)
  then obtain x where x: "se_nodes f n = Some x" by (auto split: option.splits)
  with 2 show ?case by (cases "eo_quantity ord \<ge> eo_quantity x") (auto simp: Let_def split: if_splits)
qed simp

lemma store_match_levels_keeps:
  assumes "store_match_levels ops opposite i ord f = Some r"
  shows "se_orders (snd r) = se_orders f \<and> (\<forall>m. se_nodes (snd r) m = None \<longleftrightarrow> se_nodes f m = None)"
proof (rule store_match_levels.raw_induct [where P = "\<lambda>ops opposite i ord f r. se_orders (snd r) = se_orders f
    \<and> (\<forall>m. se_nodes (snd r) m = None \<longleftrightarrow> se_nodes f m = None)", OF _ assms])
  fix F and ops :: "order_side \<Rightarrow> 'a flat_map_ops" and opposite i ord r and f :: "'a store_engine"
  assume ih: "\<And>ops opposite i ord f r. F ops opposite i ord f = Some r \<Longrightarrow>
      se_orders (snd r) = se_orders f \<and> (\<forall>m. se_nodes (snd r) m = None \<longleftrightarrow> se_nodes f m = None)"
    and step: "(case fo_at (ops opposite) (store_side opposite f) i of None \<Rightarrow> Some (ord, f)
      | Some (levelPrice, levelPtr) \<Rightarrow>
          if 0 < eo_quantity ord \<and> comparator opposite levelPrice (eo_price ord)
          then case levelPtr of None \<Rightarrow> None
            | Some level \<Rightarrow> (case store_matchOrderList ord level f of None \<Rightarrow> None
                | Some (levelEmpty, ord', f') \<Rightarrow>
                    if levelEmpty then F ops opposite i ord'
                      (set_store_side opposite (fo_erase_at (ops opposite) i (store_side opposite f')) f')
                    else F ops opposite (i + 1) ord' f')
          else Some (ord, f)) = Some r"
  have "se_orders f' = se_orders f \<and> (\<forall>m. se_nodes f' m = None \<longleftrightarrow> se_nodes f m = None)"
    if "store_matchOrderList ord level f = Some (b, ord', f')" for level b ord' f'
    using that by (auto simp: store_matchOrderList_def split: bind_splits dest!: store_match_orders_keeps)
  moreover have "se_orders (set_store_side s m f') = se_orders f'" "se_nodes (set_store_side s m f') = se_nodes f'" for s m and f' :: "'a store_engine"
    by (cases s; simp add: set_store_side_def)+
  ultimately show "se_orders (snd r) = se_orders f \<and> (\<forall>m. se_nodes (snd r) m = None \<longleftrightarrow> se_nodes f m = None)"
    using step by (auto split: option.splits if_splits prod.splits dest!: ih)
qed

text \<open>Matching never shrinks the owner list: whatever a new order fills, every order that was in
  the list stays there, and its node stays allocated, although the filled orders are in no level and
  not in the index any more.\<close>

theorem filled_orders_stay_in_owner_list:
  assumes "store_handleOrderNew ops ord f = Some f'"
  shows "\<exists>new. se_orders f' = se_orders f @ new \<and> length new \<le> 1 \<and> dom (se_nodes f) \<subseteq> dom (se_nodes f')"
proof -
  from assms obtain q ord1 f1 where m: "store_match_levels ops (opposite_side (eo_side ord)) 0 ord f = Some (ord1, f1)" "q = eo_quantity ord1"
    by (auto simp: store_handleOrderNew_def store_matchOrder_def split: bind_splits option.splits prod.splits)
  note keeps = store_match_levels_keeps [OF m(1), simplified]
  show ?thesis
  proof (cases "q = 0 \<or> smap_find (se_orderByID f1) (eo_orderId ord1) \<noteq> None")
    case True
    with assms m have "f' = f1" by (auto simp: store_handleOrderNew_def store_matchOrder_def split: if_splits)
    with keeps show ?thesis by (intro exI [of _ "[]"]) (auto simp: dom_def)
  next
    case False
    with assms m obtain a g xs where g: "store_getOrderPriceList ops (if eo_side ord1 = BUY then BUY else SELL) (eo_price ord1) f1 = Some (a, g)"
      "se_orders f' = se_orders f1 @ [se_nextNode f1]" "se_nodes f' = (se_nodes g)(se_nextNode f1 \<mapsto> ord1)"
      by (auto simp: store_handleOrderNew_def store_matchOrder_def Let_def store_getOrderPriceList_frame split: bind_splits)
    have "dom (se_nodes f) \<subseteq> dom (se_nodes f')"
    proof
      fix n assume "n \<in> dom (se_nodes f)"
      with keeps have "se_nodes f1 n \<noteq> None" by auto
      with store_getOrderPriceList_keeps [OF g(1)] g(3) show "n \<in> dom (se_nodes f')" by auto
    qed
    with keeps g(2) show ?thesis by (intro exI [of _ "[se_nextNode f1]"]) simp
  qed
qed

theorem filled_orders_stay_in_owner_list_witness:
  "\<exists>f f'. store_process_orders Contents_Stay list_side_ops [limit_order BUY NEW 1 100 5] (new_store_engine list_side_ops) = Some f
     \<and> store_handleOrderNew list_side_ops (limit_order SELL NEW 2 100 5) f = Some f'
     \<and> dom (se_nodes f) \<subseteq> dom (se_nodes f')"
proof -
  from store_runs [OF list_maps.engine_maps_axioms engine_maps.new_engine_wf [OF list_maps.engine_maps_axioms] new_store_sim,
      of "[limit_order BUY NEW 1 100 5, limit_order SELL NEW 2 100 5]"]
  obtain f f' where "store_process_orders Contents_Stay list_side_ops [limit_order BUY NEW 1 100 5] (new_store_engine list_side_ops) = Some f"
    "store_handleOrderNew list_side_ops (limit_order SELL NEW 2 100 5) f = Some f'"
    by (auto split: option.splits simp: store_processOrder_def)
  with filled_orders_stay_in_owner_list [OF this(2)] show ?thesis by blast
qed

end
