(* ===== verification/Lower_Bound_Engine.thy ===== *)
theory Lower_Bound_Engine
  imports Store_Engine
begin

text \<open>
  The matching engine of \<open>MatchingEngine/MatchingEngine_PriceLvLPtr.cpp\<close> (the engines of
  \<open>MatchingEngine_Simple.cpp\<close> and of the two \<open>MatchingEngine_OrderAsPtr\<close> files, in theories of their
  own, match in the same way). Its members are those of the
  load-tested engine, and so are the loop over one level and the creation of a level; but the bids
  are kept in ascending and the asks in descending order, a new order is matched from the lower
  bound of its price on, an emptied level stays, and an order is cancelled whatever its side.
  \<open>lower_bound\<close> belongs to the third-party map: it is the argument \<open>lb\<close>.
\<close>

section \<open>The engine\<close>

definition lb_match_list ::
  "engine_order \<Rightarrow> nat \<Rightarrow> 'm store_engine \<Rightarrow> (engine_order \<times> 'm store_engine) option" where
  "lb_match_list ord level e =
     do {
       orders \<leftarrow> se_lists e level;
       (ord', orders', e') \<leftarrow> store_match_orders ord orders e;
       Some (ord', e'\<lparr>se_lists := (se_lists e')(level \<mapsto> orders')\<rparr>) }"

partial_function (option) lb_match_levels ::
  "(order_side \<Rightarrow> 'm flat_map_ops) \<Rightarrow> order_side \<Rightarrow> nat \<Rightarrow> engine_order \<Rightarrow> 'm store_engine
    \<Rightarrow> (engine_order \<times> 'm store_engine) option" where
  "lb_match_levels ops opposite i ord e =
     (case fo_at (ops opposite) (store_side opposite e) i of
        None \<Rightarrow> Some (ord, e)
      | Some (_, levelPtr) \<Rightarrow>
          if eo_quantity ord > 0
          then (case levelPtr of
                  None \<Rightarrow> None
                | Some level \<Rightarrow>
                    (case lb_match_list ord level e of
                       None \<Rightarrow> None
                     | Some (ord', e') \<Rightarrow> lb_match_levels ops opposite (i + 1) ord' e'))
          else Some (ord, e))"

definition lb_matchOrder ::
  "(order_side \<Rightarrow> 'm flat_map_ops) \<Rightarrow> (order_side \<Rightarrow> u64 \<Rightarrow> 'm \<Rightarrow> nat) \<Rightarrow> engine_order \<Rightarrow> 'm store_engine
    \<Rightarrow> (u64 \<times> engine_order \<times> 'm store_engine) option" where
  "lb_matchOrder ops lb ord e =
     (let opposite = opposite_side (eo_side ord)
      in case lb_match_levels ops opposite (lb opposite (eo_price ord) (store_side opposite e)) ord e of
           None \<Rightarrow> None
         | Some (ord', e') \<Rightarrow> Some (eo_quantity ord', ord', e'))"

definition lb_handleOrderNew ::
  "(order_side \<Rightarrow> 'm flat_map_ops) \<Rightarrow> (order_side \<Rightarrow> u64 \<Rightarrow> 'm \<Rightarrow> nat) \<Rightarrow> engine_order \<Rightarrow> 'm store_engine
    \<Rightarrow> 'm store_engine option" where
  "lb_handleOrderNew ops lb ord0 e0 =
     do {
       (remaining, ord, e) \<leftarrow> lb_matchOrder ops lb ord0 e0;
       if remaining = 0 then Some e
       else if smap_find (se_orderByID e) (eo_orderId ord) \<noteq> None then Some e
       else do {
         let orderIter = se_nextNode e;
         let e1 = e\<lparr>se_orders := se_orders e @ [orderIter], se_nextNode := orderIter + 1,
                    se_nodes := (se_nodes e)(orderIter \<mapsto> ord)\<rparr>;
         (level, e2) \<leftarrow> store_getOrderPriceList ops (if eo_side ord = BUY then BUY else SELL) (eo_price ord) e1;
         orders \<leftarrow> se_lists e2 level;
         Some (e2\<lparr>se_lists := (se_lists e2)(level \<mapsto> orders @ [orderIter]),
                  se_orderByID := smap_assign (eo_orderId ord)
                    \<lparr>sr_orderIter = orderIter, sr_levelList = level\<rparr> (se_orderByID e2)\<rparr>) } }"

definition lb_handleOrderCancel :: "engine_order \<Rightarrow> 'm store_engine \<Rightarrow> 'm store_engine option" where
  "lb_handleOrderCancel ord e =
     (case smap_find (se_orderByID e) (eo_orderId ord) of
        None \<Rightarrow> Some e
      | Some refs \<Rightarrow>
          do { orders \<leftarrow> se_lists e (sr_levelList refs);
               if sr_orderIter refs \<in> set orders \<and> sr_orderIter refs \<in> set (se_orders e)
               then Some (e\<lparr>se_lists := (se_lists e)(sr_levelList refs \<mapsto> remove1 (sr_orderIter refs) orders),
                            se_orders := remove1 (sr_orderIter refs) (se_orders e),
                            se_nodes := (se_nodes e)(sr_orderIter refs := None),
                            se_orderByID := smap_erase (eo_orderId ord) (se_orderByID e)\<rparr>)
               else None })"

definition lb_handleOrderAmend ::
  "(order_side \<Rightarrow> 'm flat_map_ops) \<Rightarrow> (order_side \<Rightarrow> u64 \<Rightarrow> 'm \<Rightarrow> nat) \<Rightarrow> engine_order \<Rightarrow> 'm store_engine
    \<Rightarrow> 'm store_engine option" where
  "lb_handleOrderAmend ops lb ord e =
     (case smap_find (se_orderByID e) (eo_orderId ord) of
        None \<Rightarrow> Some e
      | Some refs \<Rightarrow>
          do { orderOriginal \<leftarrow> se_nodes e (sr_orderIter refs);
               if eo_side orderOriginal \<noteq> eo_side ord then Some e
               else if eo_price orderOriginal \<noteq> eo_price ord
               then do { e1 \<leftarrow> lb_handleOrderCancel ord e; lb_handleOrderNew ops lb ord e1 }
               else Some (e\<lparr>se_nodes := (se_nodes e)(sr_orderIter refs \<mapsto>
                              orderOriginal\<lparr>eo_quantity := eo_quantity ord\<rparr>)\<rparr>) })"

definition lb_processOrder ::
  "(order_side \<Rightarrow> 'm flat_map_ops) \<Rightarrow> (order_side \<Rightarrow> u64 \<Rightarrow> 'm \<Rightarrow> nat) \<Rightarrow> engine_order \<Rightarrow> 'm store_engine
    \<Rightarrow> 'm store_engine option" where
  "lb_processOrder ops lb ord e =
     (case eo_action ord of
        NEW \<Rightarrow> lb_handleOrderNew ops lb ord e
      | CANCEL \<Rightarrow> lb_handleOrderCancel ord e
      | AMEND \<Rightarrow> lb_handleOrderAmend ops lb ord e
      | _ \<Rightarrow> Some e)"

fun lb_process_orders ::
  "(order_side \<Rightarrow> 'm flat_map_ops) \<Rightarrow> (order_side \<Rightarrow> u64 \<Rightarrow> 'm \<Rightarrow> nat) \<Rightarrow> engine_order list \<Rightarrow> 'm store_engine
    \<Rightarrow> 'm store_engine option" where
  "lb_process_orders ops lb [] e = Some e"
| "lb_process_orders ops lb (ord # rest) e = Option.bind (lb_processOrder ops lb ord e) (lb_process_orders ops lb rest)"

text \<open>\<open>std::less\<close> orders the bids here and \<open>std::greater\<close> the asks.\<close>

definition lb_order :: "order_side \<Rightarrow> sort_order" where
  "lb_order s = (case s of BUY \<Rightarrow> Ascending | SELL \<Rightarrow> Descending)"

locale lower_bound_maps =
  fixes ops :: "order_side \<Rightarrow> 'm flat_map_ops"
    and entries :: "'m \<Rightarrow> (u64 \<times> nat option) list"
    and lb :: "order_side \<Rightarrow> u64 \<Rightarrow> 'm \<Rightarrow> nat"
  assumes maps: "price_map (ops s) entries (lb_order s)"
    and lower_bound: "sorted_keys (lb_order s) (entries m) \<Longrightarrow>
      lb s k m = length (takeWhile (\<lambda>x. before (lb_order s) (fst x) k) (entries m))"

definition list_lower_bound :: "order_side \<Rightarrow> u64 \<Rightarrow> (u64 \<times> nat option) list \<Rightarrow> nat" where
  "list_lower_bound s k m = length (takeWhile (\<lambda>x. before (lb_order s) (fst x) k) m)"

interpretation lb_list_maps: lower_bound_maps "\<lambda>s. list_ops (lb_order s)" "\<lambda>m. m" list_lower_bound
  by unfold_locales (simp_all add: list_lower_bound_def)

section \<open>What the state stands for\<close>

definition level_nodes :: "'m store_engine \<Rightarrow> nat \<Rightarrow> nat list" where
  "level_nodes e a = (case se_lists e a of Some xs \<Rightarrow> xs | None \<Rightarrow> [])"

definition node_orders :: "'m store_engine \<Rightarrow> nat list \<Rightarrow> engine_order list" where
  "node_orders e xs = map (\<lambda>n. the (se_nodes e n)) xs"

definition lbe_levels :: "('m \<Rightarrow> (u64 \<times> nat option) list) \<Rightarrow> 'm store_engine \<Rightarrow> order_side \<Rightarrow> book_levels" where
  "lbe_levels entries e s = map (\<lambda>(p, v). (p, node_orders e (level_nodes e (the v)))) (entries (store_side s e))"

definition node_ok :: "'m store_engine \<Rightarrow> order_side \<Rightarrow> u64 \<Rightarrow> nat \<Rightarrow> nat \<Rightarrow> bool" where
  "node_ok e s p a n \<longleftrightarrow> (\<exists>x. se_nodes e n = Some x \<and> eo_side x = s \<and> eo_price x = p
     \<and> smap_find (se_orderByID e) (eo_orderId x) = Some \<lparr>sr_orderIter = n, sr_levelList = a\<rparr>)"

definition lb_wf :: "('m \<Rightarrow> (u64 \<times> nat option) list) \<Rightarrow> 'm store_engine \<Rightarrow> bool" where
  "lb_wf entries e \<longleftrightarrow>
     (\<forall>s. sorted_keys (lb_order s) (entries (store_side s e)))
   \<and> (\<forall>s p v. (p, v) \<in> set (entries (store_side s e)) \<longrightarrow>
        (\<exists>a xs. v = Some a \<and> a < se_nextList e \<and> se_lists e a = Some xs \<and> distinct xs \<and> (\<forall>n\<in>set xs. node_ok e s p a n)))
   \<and> (\<forall>s s' p p' a. (p, Some a) \<in> set (entries (store_side s e)) \<longrightarrow> (p', Some a) \<in> set (entries (store_side s' e)) \<longrightarrow>
        s = s' \<and> p = p')
   \<and> (\<forall>i r. smap_find (se_orderByID e) i = Some r \<longrightarrow>
        (\<exists>s p. (p, Some (sr_levelList r)) \<in> set (entries (store_side s e)))
        \<and> sr_orderIter r \<in> set (level_nodes e (sr_levelList r))
        \<and> (\<exists>x. se_nodes e (sr_orderIter r) = Some x \<and> eo_orderId x = i))
   \<and> smap_wf (se_orderByID e) \<and> set (se_orders e) = dom (se_nodes e) \<and> distinct (se_orders e)
   \<and> (\<forall>n. se_nodes e n \<noteq> None \<longrightarrow> n < se_nextNode e)"

lemma lb_wfD:
  assumes "lb_wf entries e"
  shows "sorted_keys (lb_order s) (entries (store_side s e))"
    "(p, v) \<in> set (entries (store_side s e)) \<Longrightarrow>
        \<exists>a xs. v = Some a \<and> a < se_nextList e \<and> se_lists e a = Some xs \<and> distinct xs \<and> (\<forall>n\<in>set xs. node_ok e s p a n)"
    "(p, Some a) \<in> set (entries (store_side s e)) \<Longrightarrow> (p', Some a) \<in> set (entries (store_side s' e)) \<Longrightarrow> s = s' \<and> p = p'"
    "smap_find (se_orderByID e) i = Some r \<Longrightarrow> \<exists>s p. (p, Some (sr_levelList r)) \<in> set (entries (store_side s e))"
    "smap_find (se_orderByID e) i = Some r \<Longrightarrow> sr_orderIter r \<in> set (level_nodes e (sr_levelList r))"
    "smap_find (se_orderByID e) i = Some r \<Longrightarrow> \<exists>x. se_nodes e (sr_orderIter r) = Some x \<and> eo_orderId x = i"
    "smap_wf (se_orderByID e)" "set (se_orders e) = dom (se_nodes e)" "distinct (se_orders e)"
    "se_nodes e n \<noteq> None \<Longrightarrow> n < se_nextNode e"
  using assms unfolding lb_wf_def by blast+

lemma lb_wfI:
  assumes "\<And>s. sorted_keys (lb_order s) (entries (store_side s e))"
    "\<And>s p v. (p, v) \<in> set (entries (store_side s e)) \<Longrightarrow>
        \<exists>a xs. v = Some a \<and> a < se_nextList e \<and> se_lists e a = Some xs \<and> distinct xs \<and> (\<forall>n\<in>set xs. node_ok e s p a n)"
    "\<And>s s' p p' a. (p, Some a) \<in> set (entries (store_side s e)) \<Longrightarrow> (p', Some a) \<in> set (entries (store_side s' e)) \<Longrightarrow>
        s = s' \<and> p = p'"
    "\<And>i r. smap_find (se_orderByID e) i = Some r \<Longrightarrow>
        (\<exists>s p. (p, Some (sr_levelList r)) \<in> set (entries (store_side s e)))
        \<and> sr_orderIter r \<in> set (level_nodes e (sr_levelList r))
        \<and> (\<exists>x. se_nodes e (sr_orderIter r) = Some x \<and> eo_orderId x = i)"
    "smap_wf (se_orderByID e)" "set (se_orders e) = dom (se_nodes e)" "distinct (se_orders e)"
    "\<And>n. se_nodes e n \<noteq> None \<Longrightarrow> n < se_nextNode e"
  shows "lb_wf entries e"
  using assms unfolding lb_wf_def by blast

end
