(* ===== verification/Lower_Bound_Matching.thy ===== *)
theory Lower_Bound_Matching
  imports Lower_Bound_Engine
begin

text \<open>
  The lower-bound engine (\<open>MatchingEngine/MatchingEngine_PriceLvLPtr.cpp\<close>) on the abstract book: what
  its loops and handlers do to the levels, and that every operation keeps its state well-formed.
\<close>

section \<open>One level\<close>

definition same_order :: "engine_order option \<Rightarrow> engine_order option \<Rightarrow> bool" where
  "same_order x y \<longleftrightarrow>
     map_option (\<lambda>o1. (eo_orderId o1, eo_side o1, eo_price o1)) x = map_option (\<lambda>o1. (eo_orderId o1, eo_side o1, eo_price o1)) y"

lemma same_order_refl [simp]: "same_order x x"
  by (simp add: same_order_def)

lemma same_order_trans: "same_order x y \<Longrightarrow> same_order y z \<Longrightarrow> same_order x z"
  by (simp add: same_order_def)

lemma same_order_quantity [simp]: "same_order (Some (x\<lparr>eo_quantity := q\<rparr>)) (Some x)" "same_order (Some x) (Some (x\<lparr>eo_quantity := q\<rparr>))"
  by (simp_all add: same_order_def)

lemma same_order_fields:
  "same_order (Some x) y \<Longrightarrow> \<exists>z. y = Some z \<and> eo_orderId z = eo_orderId x \<and> eo_side z = eo_side x \<and> eo_price z = eo_price x"
  by (cases y) (simp_all add: same_order_def)

text \<open>What matching a level's nodes \<open>xs\<close> changes, when the first \<open>k\<close> of them are filled.\<close>

definition matches :: "nat list \<Rightarrow> nat \<Rightarrow> engine_order list \<Rightarrow> engine_trade list \<Rightarrow> 'm store_engine \<Rightarrow> 'm store_engine \<Rightarrow> bool" where
  "matches xs k os ts f f' \<longleftrightarrow>
     (\<exists>N J. f' = f\<lparr>se_trades := se_trades f @ ts, se_nodes := N, se_orderByID := J\<rparr>)
   \<and> (\<forall>n. n \<notin> set xs \<longrightarrow> se_nodes f' n = se_nodes f n) \<and> (\<forall>n. same_order (se_nodes f' n) (se_nodes f n))
   \<and> (\<forall>i. smap_find (se_orderByID f') i = (if i \<in> order_ids (take k os) then None else smap_find (se_orderByID f) i))
   \<and> (smap_wf (se_orderByID f) \<longrightarrow> smap_wf (se_orderByID f'))"

lemma store_match_fill:
  "map (se_nodes f) xs = map Some os \<Longrightarrow> distinct xs \<Longrightarrow> fill_level ord os = (ord', os', ts) \<Longrightarrow>
     \<exists>k f'. store_match_orders ord xs f = Some (ord', drop k xs, f') \<and> k \<le> length xs
       \<and> map (se_nodes f') (drop k xs) = map Some os' \<and> matches xs k os ts f f'"
proof (induction os arbitrary: xs f ord ts)
  case Nil
  then show ?case
    by (intro exI [of _ 0] exI [of _ f]) (auto simp: matches_def intro!: exI [of _ "se_nodes f"] exI [of _ "se_orderByID f"])
next
  case (Cons x os)
  then obtain n xs1 where xs: "xs = n # xs1" "se_nodes f n = Some x" "map (se_nodes f) xs1 = map Some os" by (cases xs) auto
  have n: "n \<notin> set xs1" "distinct xs1" using Cons.prems(2) xs(1) by simp_all
  let ?f1 = "f\<lparr>se_trades := se_trades f @ [make_trade ord x]\<rparr>"
  show ?case
  proof (cases "eo_quantity ord \<ge> eo_quantity x")
    case True
    let ?ord = "ord\<lparr>eo_quantity := eo_quantity ord - eo_quantity x\<rparr>"
    let ?f2 = "?f1\<lparr>se_nodes := (se_nodes ?f1)(n \<mapsto> x\<lparr>eo_quantity := 0\<rparr>),
                  se_orderByID := smap_erase (eo_orderId x) (se_orderByID ?f1)\<rparr>"
    obtain t1 where t1: "fill_level ?ord os = (ord', os', t1)" "ts = make_trade ord x # t1"
      using Cons.prems(3) True by (auto split: prod.splits)
    have "map (se_nodes ?f2) xs1 = map Some os" using xs(3) n(1) by auto
    from Cons.IH [OF this n(2) t1(1)] obtain k f' where ih: "store_match_orders ?ord xs1 ?f2 = Some (ord', drop k xs1, f')"
      "k \<le> length xs1" "map (se_nodes f') (drop k xs1) = map Some os'" "matches xs1 k os t1 ?f2 f'" by blast
    have "matches xs (Suc k) (x # os) ts f f'"
      unfolding matches_def
    proof (intro conjI)
      show "\<exists>N J. f' = f\<lparr>se_trades := se_trades f @ ts, se_nodes := N, se_orderByID := J\<rparr>"
        using ih(4) t1(2) by (auto simp: matches_def)
      show "\<forall>m. m \<notin> set xs \<longrightarrow> se_nodes f' m = se_nodes f m" using ih(4) xs(1) by (auto simp: matches_def)
      show "\<forall>m. same_order (se_nodes f' m) (se_nodes f m)"
      proof
        fix m
        have "same_order (se_nodes f' m) (se_nodes ?f2 m)" using ih(4) by (simp add: matches_def)
        moreover have "same_order (se_nodes ?f2 m) (se_nodes f m)" using xs(2) by simp
        ultimately show "same_order (se_nodes f' m) (se_nodes f m)" by (rule same_order_trans)
      qed
      show "\<forall>i. smap_find (se_orderByID f') i
          = (if i \<in> order_ids (take (Suc k) (x # os)) then None else smap_find (se_orderByID f) i)"
        using ih(4) by (auto simp: matches_def)
      show "smap_wf (se_orderByID f) \<longrightarrow> smap_wf (se_orderByID f')" using ih(4) by (simp add: matches_def)
    qed
    with ih xs True show ?thesis by (intro exI [of _ "Suc k"] exI [of _ f']) (simp add: Let_def)
  next
    case False
    let ?f' = "?f1\<lparr>se_nodes := (se_nodes ?f1)(n \<mapsto> x\<lparr>eo_quantity := eo_quantity x - eo_quantity ord\<rparr>)\<rparr>"
    have r: "ord' = ord\<lparr>eo_quantity := 0\<rparr>" "os' = x\<lparr>eo_quantity := eo_quantity x - eo_quantity ord\<rparr> # os"
      "ts = [make_trade ord x]" using Cons.prems(3) False by simp_all
    have "matches xs 0 (x # os) ts f ?f'"
      using xs(1,2) by (auto simp: matches_def r(3) intro!: exI [of _ "se_nodes ?f'"] exI [of _ "se_orderByID f"])
    moreover have "map (se_nodes ?f') (drop 0 xs) = map Some os'" using xs n r(2) by auto
    moreover have "store_match_orders ord xs f = Some (ord', drop 0 xs, ?f')" using xs False r(1) by (simp add: Let_def)
    ultimately show ?thesis by blast
  qed
qed

lemma level_nodes_entry:
  assumes "lb_wf entries e" "(p, Some a) \<in> set (entries (store_side s e))"
  shows "se_lists e a = Some (level_nodes e a)" "distinct (level_nodes e a)" "a < se_nextList e"
    "n \<in> set (level_nodes e a) \<Longrightarrow> node_ok e s p a n"
  using lb_wfD(2) [OF assms] by (auto simp: level_nodes_def)

lemma level_nodes_index:
  assumes "lb_wf entries e" "(p, Some a) \<in> set (entries (store_side s e))" "n \<in> set (level_nodes e a)" "se_nodes e n = Some x"
  shows "smap_find (se_orderByID e) (eo_orderId x) = Some \<lparr>sr_orderIter = n, sr_levelList = a\<rparr>"
  using level_nodes_entry(4) [OF assms(1-3)] assms(4) by (auto simp: node_ok_def)

lemma level_nodes_Some:
  assumes "lb_wf entries e" "(p, Some a) \<in> set (entries (store_side s e))"
  shows "map (se_nodes e) (level_nodes e a) = map Some (node_orders e (level_nodes e a))"
  using level_nodes_entry(4) [OF assms] by (fastforce simp: node_orders_def node_ok_def)

lemma levels_disjoint:
  assumes "lb_wf entries e" "(p, Some a) \<in> set (entries (store_side s e))" "(p', Some b) \<in> set (entries (store_side s' e))"
    "n \<in> set (level_nodes e a)" "n \<in> set (level_nodes e b)"
  shows "a = b"
  using level_nodes_entry(4) [OF assms(1,2,4)] level_nodes_entry(4) [OF assms(1,3,5)] by (auto simp: node_ok_def)

lemma node_orders_cong: "(\<And>n. n \<in> set xs \<Longrightarrow> se_nodes e n = se_nodes f n) \<Longrightarrow> node_orders e xs = node_orders f xs"
  by (simp add: node_orders_def)

lemma taken_ids:
  assumes wf: "lb_wf entries e" "(p, Some a) \<in> set (entries (store_side s e))"
    and n: "node_ok e s' p' b n" "n \<notin> set (take k (level_nodes e a))"
    and x: "se_nodes e n = Some x"
  shows "eo_orderId x \<notin> order_ids (take k (node_orders e (level_nodes e a)))"
proof
  assume "eo_orderId x \<in> order_ids (take k (node_orders e (level_nodes e a)))"
  then obtain m where m: "m \<in> set (take k (level_nodes e a))" "eo_orderId (the (se_nodes e m)) = eo_orderId x"
    by (auto simp: order_ids_def node_orders_def take_map)
  then obtain y where y: "se_nodes e m = Some y" "eo_orderId y = eo_orderId x"
    using level_nodes_entry(4) [OF wf, of m] in_set_takeD [OF m(1)] by (auto simp: node_ok_def)
  have "smap_find (se_orderByID e) (eo_orderId y) = Some \<lparr>sr_orderIter = m, sr_levelList = a\<rparr>"
    by (rule level_nodes_index [OF wf in_set_takeD [OF m(1)] y(1)])
  then have "m = n" using n(1) x y(2) by (auto simp: node_ok_def)
  with m(1) n(2) show False by simp
qed

lemma lb_match_list_level:
  assumes wf: "lb_wf entries e" "(p, Some a) \<in> set (entries (store_side s e))"
    and fill: "fill_level ord (node_orders e (level_nodes e a)) = (ord', os', ts)"
  shows "\<exists>e'. lb_match_list ord a e = Some (ord', e') \<and> lb_wf entries e' \<and> se_bids e' = se_bids e \<and> se_asks e' = se_asks e
    \<and> se_trades e' = se_trades e @ ts \<and> node_orders e' (level_nodes e' a) = os'
    \<and> (\<forall>s' p' b. (p', Some b) \<in> set (entries (store_side s' e)) \<longrightarrow> b \<noteq> a \<longrightarrow>
         node_orders e' (level_nodes e' b) = node_orders e (level_nodes e b))"
proof -
  let ?xs = "level_nodes e a" and ?os = "node_orders e (level_nodes e a)"
  obtain k f where f: "store_match_orders ord ?xs e = Some (ord', drop k ?xs, f)" "map (se_nodes f) (drop k ?xs) = map Some os'"
    "matches ?xs k ?os ts e f"
    using store_match_fill [OF level_nodes_Some [OF wf] level_nodes_entry(2) [OF wf] fill] by blast
  obtain N J where NJ: "f = e\<lparr>se_trades := se_trades e @ ts, se_nodes := N, se_orderByID := J\<rparr>"
    using f(3) by (auto simp: matches_def)
  have m: "\<And>n. n \<notin> set ?xs \<Longrightarrow> N n = se_nodes e n" "\<And>n. same_order (N n) (se_nodes e n)"
    "\<And>i. smap_find J i = (if i \<in> order_ids (take k ?os) then None else smap_find (se_orderByID e) i)" "smap_wf J"
    using f(3) lb_wfD(7) [OF wf(1)] by (auto simp: matches_def NJ)
  define e' where "e' = f\<lparr>se_lists := (se_lists f)(a \<mapsto> drop k ?xs)\<rparr>"
  have e': "se_bids e' = se_bids e" "se_asks e' = se_asks e" "se_trades e' = se_trades e @ ts" "se_nodes e' = N"
    "se_orderByID e' = J" "se_lists e' = (se_lists e)(a \<mapsto> drop k ?xs)" "se_nextList e' = se_nextList e"
    "se_nextNode e' = se_nextNode e" "se_orders e' = se_orders e"
    by (simp_all add: e'_def NJ)
  have side: "store_side s' e' = store_side s' e" for s' by (cases s') (simp_all add: store_side_def e'(1,2))
  have nodes: "level_nodes e' b = (if b = a then drop k ?xs else level_nodes e b)" for b
    by (simp add: level_nodes_def e'(6))
  have dom: "N n = None \<longleftrightarrow> se_nodes e n = None" for n using m(2) [of n] by (auto simp: same_order_def)
  have keep: "node_ok e' s' p' b n" if n: "node_ok e s' p' b n" "n \<notin> set (take k ?xs)" for s' p' b n
  proof -
    obtain x where x: "se_nodes e n = Some x" "eo_side x = s'" "eo_price x = p'"
      "smap_find (se_orderByID e) (eo_orderId x) = Some \<lparr>sr_orderIter = n, sr_levelList = b\<rparr>"
      using n(1) by (auto simp: node_ok_def)
    obtain y where y: "N n = Some y" "eo_orderId y = eo_orderId x" "eo_side y = eo_side x" "eo_price y = eo_price x"
      using m(2) [of n] x(1) by (auto simp: same_order_def)
    have "smap_find J (eo_orderId x) = smap_find (se_orderByID e) (eo_orderId x)"
      using m(3) taken_ids [OF wf n x(1)] by simp
    with x y show ?thesis by (simp add: node_ok_def e'(4,5))
  qed
  have "lb_wf entries e'"
  proof (rule lb_wfI)
    fix s' p' v assume "(p', v) \<in> set (entries (store_side s' e'))"
    then have en: "(p', v) \<in> set (entries (store_side s' e))" by (simp add: side)
    obtain b where b: "v = Some b" using lb_wfD(2) [OF wf(1) en] by auto
    note ln = level_nodes_entry [OF wf(1) en [unfolded b]]
    have "node_ok e' s' p' b n" if "n \<in> set (level_nodes e' b)" for n
    proof (rule keep)
      have n: "n \<in> set (level_nodes e b)" using that by (auto simp: nodes dest: in_set_dropD split: if_splits)
      then show "node_ok e s' p' b n" by (rule ln(4))
      show "n \<notin> set (take k ?xs)"
      proof
        assume t: "n \<in> set (take k ?xs)"
        then have "b = a" using levels_disjoint [OF wf(1) en [unfolded b] wf(2) n] in_set_takeD by fast
        then show False using t that level_nodes_entry(2) [OF wf] set_take_disj_set_drop_if_distinct [of ?xs k k]
          by (auto simp: nodes)
      qed
    qed
    moreover have "se_lists e' b = Some (level_nodes e' b)" using ln(1) by (auto simp: e'(6) nodes)
    moreover have "distinct (level_nodes e' b)" using ln(2) level_nodes_entry(2) [OF wf] by (simp add: nodes)
    ultimately show "\<exists>a xs. v = Some a \<and> a < se_nextList e' \<and> se_lists e' a = Some xs \<and> distinct xs \<and> (\<forall>n\<in>set xs. node_ok e' s' p' a n)"
      using b ln(3) by (auto simp: e'(7))
  next
    fix i r assume "smap_find (se_orderByID e') i = Some r"
    then have r: "smap_find (se_orderByID e) i = Some r" "i \<notin> order_ids (take k ?os)" using m(3) [of i] by (auto simp: e'(5) split: if_splits)
    have "\<exists>s p. (p, Some (sr_levelList r)) \<in> set (entries (store_side s e'))" using lb_wfD(4) [OF wf(1) r(1)] by (simp add: side)
    moreover obtain x where x: "se_nodes e (sr_orderIter r) = Some x" "eo_orderId x = i" using lb_wfD(6) [OF wf(1) r(1)] by blast
    moreover have "\<exists>y. se_nodes e' (sr_orderIter r) = Some y \<and> eo_orderId y = i"
      using m(2) [of "sr_orderIter r"] x by (auto simp: same_order_def e'(4))
    moreover have "sr_orderIter r \<in> set (level_nodes e' (sr_levelList r))"
    proof (cases "sr_levelList r = a")
      case True
      have "sr_orderIter r \<in> set ?xs" using lb_wfD(5) [OF wf(1) r(1)] True by simp
      moreover have "sr_orderIter r \<notin> set (take k ?xs)"
      proof
        assume "sr_orderIter r \<in> set (take k ?xs)"
        then have "the (se_nodes e (sr_orderIter r)) \<in> set (take k ?os)" by (simp add: node_orders_def take_map)
        with x r(2) show False by (auto simp: order_ids_def)
      qed
      moreover have "set ?xs = set (take k ?xs) \<union> set (drop k ?xs)" by (metis append_take_drop_id set_append)
      ultimately show ?thesis using True by (simp add: nodes)
    next
      case False
      then show ?thesis using lb_wfD(5) [OF wf(1) r(1)] by (simp add: nodes)
    qed
    ultimately show "(\<exists>s p. (p, Some (sr_levelList r)) \<in> set (entries (store_side s e')))
        \<and> sr_orderIter r \<in> set (level_nodes e' (sr_levelList r))
        \<and> (\<exists>x. se_nodes e' (sr_orderIter r) = Some x \<and> eo_orderId x = i)" by blast
  next
    show "set (se_orders e') = dom (se_nodes e')" using lb_wfD(8) [OF wf(1)] dom by (auto simp: e'(4,9) dom_def)
    show "n < se_nextNode e'" if "se_nodes e' n \<noteq> None" for n
      using that lb_wfD(10) [OF wf(1), of n] dom [of n] by (simp add: e'(4,8))
    show "s1 = s2 \<and> p1 = p2" if "(p1, Some b) \<in> set (entries (store_side s1 e'))" "(p2, Some b) \<in> set (entries (store_side s2 e'))"
      for s1 s2 p1 p2 b using that lb_wfD(3) [OF wf(1)] by (simp add: side)
  qed (use lb_wfD(1,9) [OF wf(1)] m(4) in \<open>simp_all add: side e'(5,9)\<close>)
  moreover have "node_orders e' (level_nodes e' a) = os'"
  proof -
    have "map (the \<circ> se_nodes f) (drop k ?xs) = os'" using f(2) by (metis list.map_comp map_idI comp_apply option.sel)
    then show ?thesis by (simp add: node_orders_def nodes e'(4) NJ comp_def)
  qed
  moreover have "node_orders e' (level_nodes e' b) = node_orders e (level_nodes e b)"
    if "(p', Some b) \<in> set (entries (store_side s' e))" "b \<noteq> a" for s' p' b
  proof -
    have "n \<notin> set ?xs" if "n \<in> set (level_nodes e b)" for n
      using levels_disjoint [OF wf(1) \<open>(p', Some b) \<in> _\<close> wf(2) that] \<open>b \<noteq> a\<close> by blast
    then show ?thesis using that by (simp add: nodes node_orders_def e'(4) m(1))
  qed
  moreover have "lb_match_list ord a e = Some (ord', e')"
    using f(1) level_nodes_entry(1) [OF wf] by (simp add: lb_match_list_def e'_def)
  ultimately show ?thesis using e'(1-3) by blast
qed

section \<open>The levels from the lower bound on\<close>

fun sweep_all :: "engine_order \<Rightarrow> book_levels \<Rightarrow> engine_order \<times> book_levels \<times> engine_trade list" where
  "sweep_all ord [] = (ord, [], [])"
| "sweep_all ord ((p, os) # ls) =
     (if eo_quantity ord > 0
      then (case fill_level ord os of
              (ord1, os1, t1) \<Rightarrow> (case sweep_all ord1 ls of (ord2, ls2, t2) \<Rightarrow> (ord2, (p, os1) # ls2, t1 @ t2)))
      else (ord, (p, os) # ls, []))"

lemma lb_levels_same_sides:
  assumes "se_bids e' = se_bids e" "se_asks e' = se_asks e"
  shows "store_side s e' = store_side s e"
  using assms by (cases s) (simp_all add: store_side_def)

lemma lb_levels_update:
  assumes wf: "lb_wf entries e" and i: "i < length (entries (store_side s e))" "entries (store_side s e) ! i = (p, Some a)"
    and side: "\<And>s. entries (store_side s e') = entries (store_side s e)"
    and a: "node_orders e' (level_nodes e' a) = os'"
    and others: "\<forall>s' p' b. (p', Some b) \<in> set (entries (store_side s' e)) \<longrightarrow> b \<noteq> a \<longrightarrow>
         node_orders e' (level_nodes e' b) = node_orders e (level_nodes e b)"
  shows "lbe_levels entries e' s' = (if s' = s then (lbe_levels entries e s)[i := (p, os')] else lbe_levels entries e s')"
proof (rule nth_equalityI)
  show len: "length (lbe_levels entries e' s') =
      length (if s' = s then (lbe_levels entries e s)[i := (p, os')] else lbe_levels entries e s')"
    by (simp add: lbe_levels_def side)
  have here: "(p, Some a) \<in> set (entries (store_side s e))" using i nth_mem by metis
  fix j assume "j < length (lbe_levels entries e' s')"
  then have j: "j < length (entries (store_side s' e))" by (simp add: lbe_levels_def side)
  obtain q v where qv: "entries (store_side s' e) ! j = (q, v)" by (cases "entries (store_side s' e) ! j")
  then have mem: "(q, v) \<in> set (entries (store_side s' e))" using j nth_mem by metis
  obtain b where b: "v = Some b" using lb_wfD(2) [OF wf mem] by auto
  have index: "s' = s \<and> j = i" if "b = a"
  proof -
    have sq: "s' = s" "q = p" using lb_wfD(3) [OF wf mem [unfolded b that] here] by simp_all
    have "distinct (map fst (entries (store_side s e)))" by (rule sorted_keys_distinct [OF lb_wfD(1) [OF wf]])
    moreover have "map fst (entries (store_side s e)) ! j = map fst (entries (store_side s e)) ! i"
      using qv i j sq by simp
    ultimately have "j = i"
      using i(1) j sq(1) nth_eq_iff_index_eq [of "map fst (entries (store_side s e))" j i] by simp
    with sq(1) show ?thesis by simp
  qed
  show "lbe_levels entries e' s' ! j = (if s' = s then (lbe_levels entries e s)[i := (p, os')] else lbe_levels entries e s') ! j"
  proof (cases "b = a")
    case True
    with index i qv b a show ?thesis by (simp add: lbe_levels_def side)
  next
    case False
    have "s' \<noteq> s \<or> j \<noteq> i" using False i(2) qv b by auto
    moreover have "node_orders e' (level_nodes e' b) = node_orders e (level_nodes e b)" using others mem b False by blast
    ultimately show ?thesis using j qv b by (auto simp: lbe_levels_def side nth_list_update)
  qed
qed

context lower_bound_maps
begin

lemma lb_at: "fo_at (ops s) m i = (if i < length (entries m) then Some (entries m ! i) else None)"
  by (rule price_map.at_eq [OF maps])

lemma lb_match_levels_sweep:
  assumes "lb_wf entries e" "sweep_all ord (drop i (lbe_levels entries e s)) = (ord', ls', ts)"
  shows "\<exists>e'. lb_match_levels ops s i ord e = Some (ord', e') \<and> lb_wf entries e' \<and> se_bids e' = se_bids e \<and> se_asks e' = se_asks e
    \<and> se_trades e' = se_trades e @ ts \<and> lbe_levels entries e' s = take i (lbe_levels entries e s) @ ls'
    \<and> (\<forall>s'. s' \<noteq> s \<longrightarrow> lbe_levels entries e' s' = lbe_levels entries e s')"
  using assms
proof (induction "length (entries (store_side s e)) - i" arbitrary: i e ord ls' ts)
  case 0
  then have "\<not> i < length (entries (store_side s e))" "drop i (lbe_levels entries e s) = []" by (simp_all add: lbe_levels_def)
  with 0 show ?case by (subst lb_match_levels.simps) (simp add: lb_at lbe_levels_def)
next
  case (Suc d)
  then have i: "i < length (entries (store_side s e))" by simp
  obtain p v where pv: "entries (store_side s e) ! i = (p, v)" by (cases "entries (store_side s e) ! i")
  then have mem: "(p, v) \<in> set (entries (store_side s e))" using i nth_mem by metis
  obtain a where a: "v = Some a" using lb_wfD(2) [OF Suc.prems(1) mem] by auto
  let ?ls = "lbe_levels entries e s" and ?os = "node_orders e (level_nodes e a)"
  have il: "i < length ?ls" using i by (simp add: lbe_levels_def)
  have here: "?ls ! i = (p, ?os)" using i pv a by (simp add: lbe_levels_def)
  have drop: "drop i ?ls = (p, ?os) # drop (Suc i) ?ls" using Cons_nth_drop_Suc [OF il] here by simp
  show ?case
  proof (cases "eo_quantity ord > 0")
    case False
    then have r: "ord' = ord" "ls' = drop i ?ls" "ts = []" using Suc.prems(2) by (simp_all add: drop)
    have "lb_match_levels ops s i ord e = Some (ord, e)"
      using False i pv by (subst lb_match_levels.simps) (simp add: lb_at)
    with r Suc.prems(1) show ?thesis by (intro exI [of _ e]) simp
  next
    case True
    obtain ord1 os1 t1 where fill: "fill_level ord ?os = (ord1, os1, t1)" by (cases "fill_level ord ?os")
    obtain ls2 t2 where rest: "sweep_all ord1 (drop (Suc i) ?ls) = (ord', ls2, t2)" "ls' = (p, os1) # ls2" "ts = t1 @ t2"
      using Suc.prems(2) drop True fill by (auto split: prod.splits)
    obtain e1 where e1: "lb_match_list ord a e = Some (ord1, e1)" "lb_wf entries e1" "se_bids e1 = se_bids e" "se_asks e1 = se_asks e"
      "se_trades e1 = se_trades e @ t1" "node_orders e1 (level_nodes e1 a) = os1"
      "\<forall>s' p' b. (p', Some b) \<in> set (entries (store_side s' e)) \<longrightarrow> b \<noteq> a \<longrightarrow>
         node_orders e1 (level_nodes e1 b) = node_orders e (level_nodes e b)"
      using lb_match_list_level [OF Suc.prems(1) mem [unfolded a] fill] by blast
    have side: "store_side s' e1 = store_side s' e" for s' by (rule lb_levels_same_sides [OF e1(3,4)])
    have "entries (store_side s' e1) = entries (store_side s' e)" for s' by (simp add: side)
    note lev = lb_levels_update [OF Suc.prems(1) i pv [unfolded a] this e1(6,7)]
    have "sweep_all ord1 (drop (Suc i) (lbe_levels entries e1 s)) = (ord', ls2, t2)" using rest(1) by (simp add: lev)
    moreover have "d = length (entries (store_side s e1)) - Suc i" using Suc.hyps(2) by (simp add: side)
    ultimately obtain e' where e': "lb_match_levels ops s (Suc i) ord1 e1 = Some (ord', e')" "lb_wf entries e'"
      "se_bids e' = se_bids e1" "se_asks e' = se_asks e1" "se_trades e' = se_trades e1 @ t2"
      "lbe_levels entries e' s = take (Suc i) (lbe_levels entries e1 s) @ ls2"
      "\<forall>s'. s' \<noteq> s \<longrightarrow> lbe_levels entries e' s' = lbe_levels entries e1 s'"
      using Suc.hyps(1) [of e1 "Suc i" ord1 ls2 t2] e1(2) by blast
    have "take (Suc i) (lbe_levels entries e1 s) = take i ?ls @ [(p, os1)]" using il by (simp add: lev take_Suc_conv_app_nth)
    then have "lbe_levels entries e' s = take i ?ls @ ls'" by (simp add: e'(6) rest(2))
    moreover have "lb_match_levels ops s i ord e = Some (ord', e')"
      using True i pv a e1(1) e'(1) by (subst lb_match_levels.simps) (simp add: lb_at)
    moreover have "\<forall>s'. s' \<noteq> s \<longrightarrow> lbe_levels entries e' s' = lbe_levels entries e s'" using e'(7) lev by simp
    ultimately show ?thesis using e'(2-5) e1(3-5) rest(3) by simp
  qed
qed

end

section \<open>Resting the remainder\<close>

lemma lb_fresh_node:
  assumes "lb_wf entries e"
  shows "se_nodes e (se_nextNode e) = None" "se_nextNode e \<notin> set (se_orders e)"
    "node_ok e s p a n \<Longrightarrow> n \<noteq> se_nextNode e"
proof -
  show none: "se_nodes e (se_nextNode e) = None" using lb_wfD(10) [OF assms, of "se_nextNode e"] by fastforce
  then show "se_nextNode e \<notin> set (se_orders e)" using lb_wfD(8) [OF assms] by auto
  show "node_ok e s p a n \<Longrightarrow> n \<noteq> se_nextNode e" using none by (auto simp: node_ok_def)
qed

lemma lb_add_wf:
  assumes wf: "lb_wf entries e" and new: "smap_find (se_orderByID e) (eo_orderId ord) = None"
    and s: "s = eo_side ord" "p = eo_price ord"
    and sorted: "sorted_keys (lb_order s) (entries m')" and set: "set (entries m') = insert (p, Some a) (set (entries (store_side s e)))"
    and which: "(p, Some a) \<in> set (entries (store_side s e)) \<and> xs = level_nodes e a \<and> F' = se_nextList e
      \<or> p \<notin> fst ` set (entries (store_side s e)) \<and> a = se_nextList e \<and> xs = [] \<and> F' = Suc (se_nextList e)"
    and lists: "L' a = Some (xs @ [se_nextNode e])" "\<And>b. b \<noteq> a \<Longrightarrow> L' b = se_lists e b"
    and e': "store_side s e' = m'" "\<And>s'. s' \<noteq> s \<Longrightarrow> store_side s' e' = store_side s' e"
      "se_orders e' = se_orders e @ [se_nextNode e]" "se_nextNode e' = se_nextNode e + 1"
      "se_nodes e' = (se_nodes e)(se_nextNode e \<mapsto> ord)" "se_lists e' = L'" "se_nextList e' = F'"
      "se_orderByID e' = smap_assign (eo_orderId ord) \<lparr>sr_orderIter = se_nextNode e, sr_levelList = a\<rparr> (se_orderByID e)"
  shows "lb_wf entries e'" "node_orders e' (level_nodes e' a) = node_orders e xs @ [ord]"
    "(p', Some b) \<in> set (entries (store_side s' e)) \<Longrightarrow> b \<noteq> a \<Longrightarrow>
       node_orders e' (level_nodes e' b) = node_orders e (level_nodes e b)"
proof -
  let ?n = "se_nextNode e"
  note fresh = lb_fresh_node [OF wf]
  note [simp] = smap_find_assign [OF lb_wfD(7) [OF wf]]
  have nodes: "level_nodes e' b = (if b = a then xs @ [?n] else level_nodes e b)" for b
    using lists by (simp add: level_nodes_def e'(6))
  have keep: "node_ok e' s' p' b n" if old: "node_ok e s' p' b n" for s' p' b n
  proof -
    obtain x where x: "se_nodes e n = Some x" "eo_side x = s'" "eo_price x = p'"
      "smap_find (se_orderByID e) (eo_orderId x) = Some \<lparr>sr_orderIter = n, sr_levelList = b\<rparr>"
      using old by (auto simp: node_ok_def)
    then have "eo_orderId x \<noteq> eo_orderId ord" "n \<noteq> ?n" using new fresh(1) by auto
    with x show ?thesis by (simp add: node_ok_def e'(5,8))
  qed
  have here: "node_ok e' s p a ?n" by (simp add: node_ok_def e'(5,8) s)
  have mem: "(p', v) \<in> set (entries (store_side s' e')) \<longleftrightarrow>
      (p', v) \<in> set (entries (store_side s' e)) \<or> s' = s \<and> p' = p \<and> v = Some a" for s' p' v
    using set e'(1) e'(2) [of s'] by (cases "s' = s") auto
  have xs: "distinct xs" "\<And>n. n \<in> set xs \<Longrightarrow> node_ok e s p a n" "a < F'" "se_nextList e \<le> F'"
    using which level_nodes_entry [OF wf, of p a s] by auto
  have fresh_xs: "?n \<notin> set xs" using xs(2) fresh(3) by blast
  have bound: "b < se_nextList e" if "(p', Some b) \<in> set (entries (store_side s' e))" for p' b s'
    by (rule level_nodes_entry(3) [OF wf that])
  have only: "s' = s \<and> p' = p" if m: "(p', Some a) \<in> set (entries (store_side s' e'))" for s' p'
  proof (cases "(p', Some a) \<in> set (entries (store_side s' e))")
    case True
    then have "(p, Some a) \<in> set (entries (store_side s e))" using which bound [OF True] by auto
    from lb_wfD(3) [OF wf this True] show ?thesis by simp
  next
    case False
    then show ?thesis using m by (simp add: mem)
  qed
  show "lb_wf entries e'"
  proof (rule lb_wfI)
    fix s' show "sorted_keys (lb_order s') (entries (store_side s' e'))"
      using sorted e'(1) e'(2) [of s'] lb_wfD(1) [OF wf, of s'] by (cases "s' = s") auto
  next
    fix s' p' v assume m: "(p', v) \<in> set (entries (store_side s' e'))"
    obtain b where b: "v = Some b"
    proof (cases "(p', v) \<in> set (entries (store_side s' e))")
      case True
      from lb_wfD(2) [OF wf True] that show ?thesis by blast
    qed (use m that in \<open>simp add: mem\<close>)
    show "\<exists>a xs. v = Some a \<and> a < se_nextList e' \<and> se_lists e' a = Some xs \<and> distinct xs \<and> (\<forall>n\<in>set xs. node_ok e' s' p' a n)"
    proof (cases "b = a")
      case True
      with only [of p' s'] m b have "s' = s" "p' = p" by simp_all
      with True b xs fresh_xs here keep show ?thesis by (auto simp: e'(6,7) lists(1))
    next
      case False
      with m b have "(p', Some b) \<in> set (entries (store_side s' e))" by (auto simp: mem)
      from level_nodes_entry [OF wf this] False b keep xs(4) show ?thesis by (auto simp: e'(6,7) lists(2))
    qed
  next
    fix s1 s2 p1 p2 b
    assume *: "(p1, Some b) \<in> set (entries (store_side s1 e'))" "(p2, Some b) \<in> set (entries (store_side s2 e'))"
    show "s1 = s2 \<and> p1 = p2"
    proof (cases "b = a")
      case True
      with only *(1,2) show ?thesis by blast
    next
      case False
      with * have "(p1, Some b) \<in> set (entries (store_side s1 e))" "(p2, Some b) \<in> set (entries (store_side s2 e))"
        by (simp_all add: mem)
      then show ?thesis by (rule lb_wfD(3) [OF wf])
    qed
  next
    fix i r assume r: "smap_find (se_orderByID e') i = Some r"
    show "(\<exists>s p. (p, Some (sr_levelList r)) \<in> set (entries (store_side s e')))
        \<and> sr_orderIter r \<in> set (level_nodes e' (sr_levelList r)) \<and> (\<exists>x. se_nodes e' (sr_orderIter r) = Some x \<and> eo_orderId x = i)"
    proof (cases "i = eo_orderId ord")
      case True
      with r have "r = \<lparr>sr_orderIter = ?n, sr_levelList = a\<rparr>" by (simp add: e'(8))
      then show ?thesis using True mem [of p "Some a" s] by (auto simp: nodes e'(5))
    next
      case False
      with r have r': "smap_find (se_orderByID e) i = Some r" by (simp add: e'(8))
      from lb_wfD(4) [OF wf r'] obtain s1 p1 where en: "(p1, Some (sr_levelList r)) \<in> set (entries (store_side s1 e))" by blast
      have "sr_levelList r = a \<Longrightarrow> xs = level_nodes e a" using which bound [OF en] by auto
      then have "sr_orderIter r \<in> set (level_nodes e' (sr_levelList r))" using lb_wfD(5) [OF wf r'] by (auto simp: nodes)
      moreover obtain x where "se_nodes e (sr_orderIter r) = Some x" "eo_orderId x = i" using lb_wfD(6) [OF wf r'] by blast
      ultimately show ?thesis using en fresh(1) by (auto simp: mem e'(5))
    qed
  next
    show "set (se_orders e') = dom (se_nodes e')" using lb_wfD(8) [OF wf] by (simp add: e'(3,5))
    show "distinct (se_orders e')" using lb_wfD(9) [OF wf] fresh(2) by (simp add: e'(3))
    show "smap_wf (se_orderByID e')" using lb_wfD(7) [OF wf] by (simp add: e'(8))
    show "n < se_nextNode e'" if "se_nodes e' n \<noteq> None" for n
      using that lb_wfD(10) [OF wf, of n] by (auto simp: e'(4,5) split: if_splits)
  qed
  have "n \<in> set xs \<Longrightarrow> se_nodes e' n = se_nodes e n" for n using fresh_xs by (auto simp: e'(5))
  then show "node_orders e' (level_nodes e' a) = node_orders e xs @ [ord]"
    by (simp add: nodes node_orders_def e'(5))
  assume b: "(p', Some b) \<in> set (entries (store_side s' e))" "b \<noteq> a"
  have "?n \<notin> set (level_nodes e b)" using level_nodes_entry(4) [OF wf b(1)] fresh(3) by blast
  then show "node_orders e' (level_nodes e' b) = node_orders e (level_nodes e b)"
    using b(2) by (auto simp: nodes node_orders_def e'(5))
qed

lemma map_insert_entry_resting:
  assumes "p \<notin> fst ` set E" "p = eo_price ord" "g (p, v) = (p, [ord])" "\<And>x. x \<in> set E \<Longrightarrow> g x = g0 x" "\<And>x. fst (g0 x) = fst x"
  shows "map g (insert_entry so (p, v) E) = add_resting so ord (map g0 E)"
  using assms(1,4)
proof (induction E)
  case Nil
  then show ?case using assms(2,3) by simp
next
  case (Cons x E)
  have IH: "map g (insert_entry so (p, v) E) = add_resting so ord (map g0 E)" using Cons by simp
  have x: "g x = g0 x" "map g E = map g0 E" "fst x \<noteq> p" using Cons.prems by auto
  obtain q os where q: "g0 x = (q, os)" "q = fst x" using assms(5) [of x] by (cases "g0 x") simp
  show ?case using IH x q assms(2,3) by (auto simp: compare_before)
qed

definition lb_rest ::
  "(order_side \<Rightarrow> 'm flat_map_ops) \<Rightarrow> engine_order \<Rightarrow> 'm store_engine \<Rightarrow> 'm store_engine option" where
  "lb_rest ops ord e =
     do {
       let orderIter = se_nextNode e;
       let e1 = e\<lparr>se_orders := se_orders e @ [orderIter], se_nextNode := orderIter + 1,
                  se_nodes := (se_nodes e)(orderIter \<mapsto> ord)\<rparr>;
       (level, e2) \<leftarrow> store_getOrderPriceList ops (if eo_side ord = BUY then BUY else SELL) (eo_price ord) e1;
       orders \<leftarrow> se_lists e2 level;
       Some (e2\<lparr>se_lists := (se_lists e2)(level \<mapsto> orders @ [orderIter]),
                se_orderByID := smap_assign (eo_orderId ord)
                  \<lparr>sr_orderIter = orderIter, sr_levelList = level\<rparr> (se_orderByID e2)\<rparr>) }"

lemma lb_handleOrderNew_rest:
  "lb_handleOrderNew ops lb ord0 e0 =
     (case lb_matchOrder ops lb ord0 e0 of
        None \<Rightarrow> None
      | Some (remaining, ord, e) \<Rightarrow>
          if remaining = 0 \<or> smap_find (se_orderByID e) (eo_orderId ord) \<noteq> None then Some e
          else lb_rest ops ord e)"
  by (auto simp: lb_handleOrderNew_def lb_rest_def split: option.splits)

lemma set_store_side_simps [simp]:
  "store_side s (set_store_side s m e) = m"
  "s' \<noteq> s \<Longrightarrow> store_side s' (set_store_side s m e) = store_side s' e"
  "se_orders (set_store_side s m e) = se_orders e" "se_nodes (set_store_side s m e) = se_nodes e"
  "se_nextNode (set_store_side s m e) = se_nextNode e" "se_orderByID (set_store_side s m e) = se_orderByID e"
  "se_trades (set_store_side s m e) = se_trades e" "se_lists (set_store_side s m e) = se_lists e"
  "se_nextList (set_store_side s m e) = se_nextList e"
  by (cases s; cases s'; simp add: store_side_def set_store_side_def)+

lemma store_side_frame [simp]:
  "store_side s (e\<lparr>se_orders := x1, se_nextNode := x2, se_nodes := x3\<rparr>) = store_side s e"
  "store_side s (e\<lparr>se_lists := x4, se_orderByID := x5\<rparr>) = store_side s e"
  "store_side s (e\<lparr>se_lists := x4, se_nextList := x6\<rparr>) = store_side s e"
  by (cases s; simp add: store_side_def)+

context lower_bound_maps
begin

lemma lb_rest_present:
  assumes wf: "lb_wf entries e" and new: "smap_find (se_orderByID e) (eo_orderId ord) = None"
    and here: "eo_price ord \<in> fst ` set (entries (store_side (eo_side ord) e))"
  shows "\<exists>e'. lb_rest ops ord e = Some e' \<and> lb_wf entries e' \<and> se_trades e' = se_trades e
    \<and> (\<forall>s. lbe_levels entries e' s = (if s = eo_side ord then add_resting (lb_order s) ord (lbe_levels entries e s)
         else lbe_levels entries e s))"
proof -
  let ?s = "eo_side ord" and ?p = "eo_price ord"
  let ?E = "entries (store_side ?s e)"
  have sorted: "sorted_keys (lb_order ?s) ?E" by (rule lb_wfD(1) [OF wf])
  obtain i m' where m': "fo_emplace (ops ?s) ?p None (store_side ?s e) = (i, False, m')" "entries m' = ?E"
    "i < length ?E" "fst (?E ! i) = ?p"
    using price_map.emplace_present [OF maps sorted here] by blast
  have "?E ! i = (?p, snd (?E ! i))" using m'(4) by (metis prod.collapse)
  then have "(?p, snd (?E ! i)) \<in> set ?E" using m'(3) nth_mem by metis
  then obtain a where "snd (?E ! i) = Some a" using lb_wfD(2) [OF wf] by blast
  then have nth: "?E ! i = (?p, Some a)" using \<open>?E ! i = _\<close> by simp
  then have mem: "(?p, Some a) \<in> set ?E" using m'(3) nth_mem by metis
  note ln = level_nodes_entry [OF wf mem]
  let ?n = "se_nextNode e"
  define e' where "e' = (set_store_side ?s m' (e\<lparr>se_orders := se_orders e @ [?n], se_nextNode := ?n + 1,
      se_nodes := (se_nodes e)(?n \<mapsto> ord)\<rparr>))\<lparr>se_lists := (se_lists e)(a \<mapsto> level_nodes e a @ [?n]),
      se_orderByID := smap_assign (eo_orderId ord) \<lparr>sr_orderIter = ?n, sr_levelList = a\<rparr> (se_orderByID e)\<rparr>"
  have run: "lb_rest ops ord e = Some e'"
    using m'(1-3) nth ln(1) by (simp add: lb_rest_def store_getOrderPriceList_def lb_at Let_def e'_def)
  have same: "entries (store_side s e') = entries (store_side s e)" for s
    using m'(2) by (cases "s = ?s") (simp_all add: e'_def)
  have h: "sorted_keys (lb_order ?s) (entries m')" "set (entries m') = insert (?p, Some a) (set ?E)"
    "(?p, Some a) \<in> set ?E \<and> level_nodes e a = level_nodes e a \<and> se_nextList e = se_nextList e
      \<or> ?p \<notin> fst ` set ?E \<and> a = se_nextList e \<and> level_nodes e a = [] \<and> se_nextList e = Suc (se_nextList e)"
    "se_lists e' a = Some (level_nodes e a @ [?n])" "\<And>b. b \<noteq> a \<Longrightarrow> se_lists e' b = se_lists e b"
    "store_side ?s e' = m'" "\<And>s. s \<noteq> ?s \<Longrightarrow> store_side s e' = store_side s e"
    "se_orders e' = se_orders e @ [?n]" "se_nextNode e' = ?n + 1" "se_nodes e' = (se_nodes e)(?n \<mapsto> ord)"
    "se_lists e' = se_lists e'" "se_nextList e' = se_nextList e"
    "se_orderByID e' = smap_assign (eo_orderId ord) \<lparr>sr_orderIter = ?n, sr_levelList = a\<rparr> (se_orderByID e)"
    using sorted m'(2) mem by (auto simp: e'_def)
  note w = lb_add_wf [OF wf new refl refl h]
  have others: "\<forall>s' p' b. (p', Some b) \<in> set (entries (store_side s' e)) \<longrightarrow> b \<noteq> a \<longrightarrow>
      node_orders e' (level_nodes e' b) = node_orders e (level_nodes e b)"
    using w(3) by blast
  have lev: "lbe_levels entries e' s = (if s = ?s then (lbe_levels entries e ?s)[i := (?p, node_orders e (level_nodes e a) @ [ord])]
      else lbe_levels entries e s)" for s
    by (rule lb_levels_update [OF wf m'(3) nth same w(2) others])
  have split: "?E = take i ?E @ (?p, Some a) # drop (Suc i) ?E" using m'(3) nth by (metis id_take_nth_drop)
  let ?f = "\<lambda>(p, v). (p, node_orders e (level_nodes e (the v)))"
  have il: "i < length (lbe_levels entries e ?s)" using m'(3) by (simp add: lbe_levels_def)
  have hd: "lbe_levels entries e ?s ! i = (?p, node_orders e (level_nodes e a))" using m'(3) nth by (simp add: lbe_levels_def)
  have before: "before (lb_order ?s) (fst x) ?p" if "x \<in> set (take i (lbe_levels entries e ?s))" for x
  proof -
    have "sorted_keys (lb_order ?s) (take i ?E @ (?p, Some a) # drop (Suc i) ?E)" using sorted split by simp
    then have "before (lb_order ?s) (fst y) ?p" if "y \<in> set (take i ?E)" for y
      using that by (auto simp: sorted_keys_append)
    then show ?thesis using that by (fastforce simp: lbe_levels_def take_map)
  qed
  have "add_resting (lb_order ?s) ord (lbe_levels entries e ?s)
      = (lbe_levels entries e ?s)[i := (?p, node_orders e (level_nodes e a) @ [ord])]"
    using add_resting_present [of "take i (lbe_levels entries e ?s)" "lb_order ?s" ord "node_orders e (level_nodes e a)"
        "drop (Suc i) (lbe_levels entries e ?s)"] before il hd id_take_nth_drop [OF il] upd_conv_take_nth_drop [OF il] by simp
  with lev run w(1) show ?thesis by (auto simp: e'_def)
qed

lemma lb_rest_new:
  assumes wf: "lb_wf entries e" and new: "smap_find (se_orderByID e) (eo_orderId ord) = None"
    and absent: "eo_price ord \<notin> fst ` set (entries (store_side (eo_side ord) e))"
  shows "\<exists>e'. lb_rest ops ord e = Some e' \<and> lb_wf entries e' \<and> se_trades e' = se_trades e
    \<and> (\<forall>s. lbe_levels entries e' s = (if s = eo_side ord then add_resting (lb_order s) ord (lbe_levels entries e s)
         else lbe_levels entries e s))"
proof -
  let ?s = "eo_side ord" and ?p = "eo_price ord" and ?F = "se_nextList e" and ?n = "se_nextNode e"
  let ?so = "lb_order ?s" and ?E = "entries (store_side ?s e)"
  have sorted: "sorted_keys ?so ?E" by (rule lb_wfD(1) [OF wf])
  obtain i m' where m': "fo_emplace (ops ?s) ?p None (store_side ?s e) = (i, True, m')"
    "entries m' = insert_entry ?so (?p, None) ?E" "i < length (entries m')" "entries m' ! i = (?p, None)"
    using price_map.emplace_new [OF maps sorted absent] by blast
  let ?m = "fo_assign (ops ?s) i (Some ?F) m'"
  have E': "entries ?m = insert_entry ?so (?p, Some ?F) ?E"
    using price_map.assign_eq [OF maps m'(3)] m'(2,4) insert_entry_assign [OF absent, of i ?so None "Some ?F"] m'(3) by simp
  have at: "entries ?m ! i = (?p, Some ?F)" "i < length (entries ?m)"
    using price_map.assign_eq [OF maps m'(3)] m'(3,4) by simp_all
  define e' where "e' = (set_store_side ?s ?m (e\<lparr>se_orders := se_orders e @ [?n], se_nextNode := ?n + 1,
      se_nodes := (se_nodes e)(?n \<mapsto> ord), se_lists := (se_lists e)(?F \<mapsto> []), se_nextList := ?F + 1\<rparr>))
      \<lparr>se_lists := (se_lists e)(?F \<mapsto> [?n]),
      se_orderByID := smap_assign (eo_orderId ord) \<lparr>sr_orderIter = ?n, sr_levelList = ?F\<rparr> (se_orderByID e)\<rparr>"
  have run: "lb_rest ops ord e = Some e'"
    using m'(1) at by (simp add: lb_rest_def store_getOrderPriceList_def lb_at Let_def e'_def)
  have st: "store_side ?s e' = ?m" "\<And>s. s \<noteq> ?s \<Longrightarrow> store_side s e' = store_side s e"
    by (auto simp: e'_def store_side_def set_store_side_def split: order_side.splits)
  have h: "sorted_keys ?so (entries ?m)" "set (entries ?m) = insert (?p, Some ?F) (set ?E)"
    "(?p, Some ?F) \<in> set ?E \<and> [] = level_nodes e ?F \<and> Suc ?F = ?F
      \<or> ?p \<notin> fst ` set ?E \<and> ?F = ?F \<and> [] = [] \<and> Suc ?F = Suc ?F"
    "se_lists e' ?F = Some ([] @ [?n])" "\<And>b. b \<noteq> ?F \<Longrightarrow> se_lists e' b = se_lists e b"
    "store_side ?s e' = ?m" "\<And>s. s \<noteq> ?s \<Longrightarrow> store_side s e' = store_side s e"
    "se_orders e' = se_orders e @ [?n]" "se_nextNode e' = ?n + 1" "se_nodes e' = (se_nodes e)(?n \<mapsto> ord)"
    "se_lists e' = se_lists e'" "se_nextList e' = Suc ?F"
    "se_orderByID e' = smap_assign (eo_orderId ord) \<lparr>sr_orderIter = ?n, sr_levelList = ?F\<rparr> (se_orderByID e)"
    using sorted_insert_entry [OF sorted, of "(?p, Some ?F)"] set_insert_entry_new [OF absent] absent st
    by (simp_all add: E' e'_def)
  note w = lb_add_wf [OF wf new refl refl h]
  let ?g = "\<lambda>f (p, v). (p, node_orders f (level_nodes f (the v)))"
  have frame: "?g e' x = ?g e x" if "x \<in> set (entries (store_side s e))" for x s
  proof -
    obtain q v where x: "x = (q, v)" by (cases x)
    then have "(q, v) \<in> set (entries (store_side s e))" using that by simp
    from lb_wfD(2) [OF wf this] obtain b where b: "v = Some b" "b < ?F" by auto
    then show ?thesis using w(3) [of q b s] that x by simp
  qed
  have "lbe_levels entries e' ?s = add_resting ?so ord (lbe_levels entries e ?s)"
    unfolding lbe_levels_def st(1) E'
    by (rule map_insert_entry_resting [OF absent refl]) (use w(2) frame in \<open>simp_all add: node_orders_def split_beta\<close>)
  moreover have "lbe_levels entries e' s = lbe_levels entries e s" if "s \<noteq> ?s" for s
    unfolding lbe_levels_def st(2) [OF that] by (rule map_cong [OF refl frame])
  ultimately show ?thesis using run w(1) by (auto simp: e'_def)
qed

lemmas lb_rest_adds = lb_rest_present lb_rest_new

end

end
