(* ===== verification/Lower_Bound_Properties.thy ===== *)
theory Lower_Bound_Properties
  imports Lower_Bound_Matching
begin

text \<open>
  The abstract book of the lower-bound engine (\<open>MatchingEngine/MatchingEngine_PriceLvLPtr.cpp\<close>), that
  every run of the engine is one of the book, and in which order it matches: from the worst
  acceptable price for the new order to the best.
\<close>

section \<open>The abstract book\<close>

type_synonym lbe_book = "order_side \<Rightarrow> book_levels"

definition not_acceptable :: "order_side \<Rightarrow> u64 \<Rightarrow> u64 \<times> engine_order list \<Rightarrow> bool" where
  "not_acceptable opposite price l \<longleftrightarrow> before (lb_order opposite) (fst l) price"

definition book_has :: "u64 \<Rightarrow> lbe_book \<Rightarrow> bool" where
  "book_has i B \<longleftrightarrow> (\<exists>s. i \<in> order_ids (queue_of (B s)))"

definition book_new :: "engine_order \<Rightarrow> lbe_book \<Rightarrow> engine_trade list \<times> lbe_book" where
  "book_new ord B =
    (let opposite = opposite_side (eo_side ord); no = not_acceptable opposite (eo_price ord)
     in case sweep_all ord (dropWhile no (B opposite)) of
          (ord', ls', ts) \<Rightarrow>
            (let B1 = B(opposite := takeWhile no (B opposite) @ ls')
             in (ts, if eo_quantity ord' = 0 \<or> book_has (eo_orderId ord) B1 then B1
                     else B1(eo_side ord := add_resting (lb_order (eo_side ord)) ord' (B1 (eo_side ord))))))"

definition without_order :: "u64 \<Rightarrow> book_levels \<Rightarrow> book_levels" where
  "without_order i ls = map (\<lambda>(p, os). (p, filter (\<lambda>x. eo_orderId x \<noteq> i) os)) ls"

definition book_cancel :: "u64 \<Rightarrow> lbe_book \<Rightarrow> lbe_book" where
  "book_cancel i B = (\<lambda>s. without_order i (B s))"

definition book_find :: "u64 \<Rightarrow> lbe_book \<Rightarrow> engine_order option" where
  "book_find i B = find (\<lambda>x. eo_orderId x = i) (queue_of (B BUY) @ queue_of (B SELL))"

definition book_amend :: "engine_order \<Rightarrow> lbe_book \<Rightarrow> engine_trade list \<times> lbe_book" where
  "book_amend ord B =
    (case book_find (eo_orderId ord) B of
       None \<Rightarrow> ([], B)
     | Some x \<Rightarrow>
         if eo_side x \<noteq> eo_side ord then ([], B)
         else if eo_price x \<noteq> eo_price ord then book_new ord (book_cancel (eo_orderId ord) B)
         else ([], \<lambda>s. requantify (eo_orderId ord) (eo_quantity ord) (B s)))"

definition book_process :: "engine_order \<Rightarrow> lbe_book \<Rightarrow> engine_trade list \<times> lbe_book" where
  "book_process ord B =
    (case eo_action ord of
       NEW \<Rightarrow> book_new ord B
     | CANCEL \<Rightarrow> ([], book_cancel (eo_orderId ord) B)
     | AMEND \<Rightarrow> book_amend ord B
     | _ \<Rightarrow> ([], B))"

fun book_run :: "engine_order list \<Rightarrow> lbe_book \<Rightarrow> engine_trade list \<times> lbe_book" where
  "book_run [] B = ([], B)"
| "book_run (ord # rest) B =
     (case book_process ord B of (ts, B1) \<Rightarrow> (case book_run rest B1 of (ts', B2) \<Rightarrow> (ts @ ts', B2)))"

section \<open>New orders\<close>

lemma queue_of_map: "queue_of (map (\<lambda>(p, v). (p, f v)) xs) = concat (map (\<lambda>x. f (snd x)) xs)"
  by (induction xs) auto

lemma lb_queue_ids:
  assumes "lb_wf entries e"
  shows "smap_find (se_orderByID e) i \<noteq> None \<longleftrightarrow> book_has i (lbe_levels entries e)"
proof
  assume "smap_find (se_orderByID e) i \<noteq> None"
  then obtain r where r: "smap_find (se_orderByID e) i = Some r" by blast
  obtain s p where en: "(p, Some (sr_levelList r)) \<in> set (entries (store_side s e))" using lb_wfD(4) [OF assms r] by blast
  obtain x where x: "se_nodes e (sr_orderIter r) = Some x" "eo_orderId x = i" using lb_wfD(6) [OF assms r] by blast
  have "x \<in> set (node_orders e (level_nodes e (sr_levelList r)))"
    using lb_wfD(5) [OF assms r] x(1) by (force simp: node_orders_def)
  then have "x \<in> set (queue_of (lbe_levels entries e s))" using en by (force simp: lbe_levels_def queue_of_map)
  then show "book_has i (lbe_levels entries e)" using x(2) by (auto simp: book_has_def order_ids_def)
next
  assume "book_has i (lbe_levels entries e)"
  then obtain s x where x: "x \<in> set (queue_of (lbe_levels entries e s))" "eo_orderId x = i"
    by (auto simp: book_has_def order_ids_def)
  then obtain p v where en: "(p, v) \<in> set (entries (store_side s e))" "x \<in> set (node_orders e (level_nodes e (the v)))"
    by (force simp: lbe_levels_def queue_of_map)
  obtain a where a: "v = Some a" using lb_wfD(2) [OF assms en(1)] by blast
  obtain n where n: "n \<in> set (level_nodes e a)" "x = the (se_nodes e n)" using en(2) a by (auto simp: node_orders_def)
  show "smap_find (se_orderByID e) i \<noteq> None"
    using level_nodes_entry(4) [OF assms en(1) [unfolded a] n(1)] n(2) x(2) by (auto simp: node_ok_def)
qed

lemma sweep_all_order: "sweep_all ord ls = (ord', ls', ts) \<Longrightarrow> \<exists>q. ord' = ord\<lparr>eo_quantity := q\<rparr>"
proof (induction ord ls arbitrary: ord' ls' ts rule: sweep_all.induct)
  case (1 ord)
  then show ?case by (auto intro: exI [of _ "eo_quantity ord"])
next
  case (2 ord p os ls)
  obtain ord1 os1 t1 where f: "fill_level ord os = (ord1, os1, t1)" by (cases "fill_level ord os")
  obtain q where q: "ord1 = ord\<lparr>eo_quantity := q\<rparr>" using fill_level_facts(1) [OF f] by blast
  show ?case
  proof (cases "eo_quantity ord > 0")
    case True
    with "2.prems" f obtain ls2 t2 where "sweep_all ord1 ls = (ord', ls2, t2)" by (auto split: prod.splits)
    from "2.IH" [OF True f [symmetric] refl this] q show ?thesis by auto
  next
    case False
    with "2.prems" have "ord' = ord\<lparr>eo_quantity := eo_quantity ord\<rparr>" by simp
    then show ?thesis by blast
  qed
qed

lemma opposite_not_own: "opposite_side s \<noteq> s"
  by (cases s) (simp_all add: opposite_side_def)

context lower_bound_maps
begin

lemma lb_matchOrder_sweep:
  assumes wf: "lb_wf entries e"
    and sw: "sweep_all ord (dropWhile (not_acceptable opp (eo_price ord)) (lbe_levels entries e opp)) = (ord', ls', ts)"
    and opp: "opp = opposite_side (eo_side ord)"
  shows "\<exists>e'. lb_matchOrder ops lb ord e = Some (eo_quantity ord', ord', e') \<and> lb_wf entries e' \<and> se_trades e' = se_trades e @ ts
    \<and> lbe_levels entries e' =
        (lbe_levels entries e)(opp := takeWhile (not_acceptable opp (eo_price ord)) (lbe_levels entries e opp) @ ls')"
proof -
  let ?no = "not_acceptable opp (eo_price ord)" and ?ls = "lbe_levels entries e opp"
  let ?i = "lb opp (eo_price ord) (store_side opp e)"
  have "?i = length (takeWhile (\<lambda>x. before (lb_order opp) (fst x) (eo_price ord)) (entries (store_side opp e)))"
    by (rule lower_bound [OF lb_wfD(1) [OF wf]])
  also have "\<dots> = length (takeWhile ?no ?ls)"
    by (simp add: lbe_levels_def takeWhile_map not_acceptable_def comp_def split_beta)
  finally have i: "?i = length (takeWhile ?no ?ls)" .
  have "drop ?i ?ls = dropWhile ?no ?ls" "take ?i ?ls = takeWhile ?no ?ls"
    by (simp_all add: i dropWhile_eq_drop flip: takeWhile_eq_take)
  with lb_match_levels_sweep [OF wf, of ord ?i opp ord' ls' ts] sw
  obtain e' where e': "lb_match_levels ops opp ?i ord e = Some (ord', e')" "lb_wf entries e'"
    "se_trades e' = se_trades e @ ts" "lbe_levels entries e' opp = takeWhile ?no ?ls @ ls'"
    "\<forall>s'. s' \<noteq> opp \<longrightarrow> lbe_levels entries e' s' = lbe_levels entries e s'" by auto
  have "lb_matchOrder ops lb ord e = Some (eo_quantity ord', ord', e')"
    using e'(1) by (simp add: lb_matchOrder_def opp Let_def)
  moreover have "lbe_levels entries e' = (lbe_levels entries e)(opp := takeWhile ?no ?ls @ ls')"
    using e'(4,5) by (simp add: fun_eq_iff)
  ultimately show ?thesis using e'(2,3) by blast
qed

lemma lb_new_is_book_new:
  assumes wf: "lb_wf entries e"
  shows "\<exists>e'. lb_handleOrderNew ops lb ord e = Some e' \<and> lb_wf entries e'
    \<and> book_new ord (lbe_levels entries e) = (drop (length (se_trades e)) (se_trades e'), lbe_levels entries e')
    \<and> take (length (se_trades e)) (se_trades e') = se_trades e"
proof -
  let ?opp = "opposite_side (eo_side ord)"
  obtain ord' ls' ts where sw: "sweep_all ord (dropWhile (not_acceptable ?opp (eo_price ord)) (lbe_levels entries e ?opp)) = (ord', ls', ts)"
    by (cases "sweep_all ord (dropWhile (not_acceptable ?opp (eo_price ord)) (lbe_levels entries e ?opp))")
  obtain q where q: "ord' = ord\<lparr>eo_quantity := q\<rparr>" using sweep_all_order [OF sw] by blast
  obtain e1 where e1: "lb_matchOrder ops lb ord e = Some (eo_quantity ord', ord', e1)" "lb_wf entries e1"
    "se_trades e1 = se_trades e @ ts" "lbe_levels entries e1 =
        (lbe_levels entries e)(?opp := takeWhile (not_acceptable ?opp (eo_price ord)) (lbe_levels entries e ?opp) @ ls')"
    using lb_matchOrder_sweep [OF wf sw refl] by blast
  have known: "smap_find (se_orderByID e1) (eo_orderId ord') \<noteq> None \<longleftrightarrow> book_has (eo_orderId ord) (lbe_levels entries e1)"
    using lb_queue_ids [OF e1(2)] q by simp
  have new: "book_new ord (lbe_levels entries e) = (ts,
      if eo_quantity ord' = 0 \<or> book_has (eo_orderId ord) (lbe_levels entries e1) then lbe_levels entries e1
      else (lbe_levels entries e1)(eo_side ord := add_resting (lb_order (eo_side ord)) ord' (lbe_levels entries e1 (eo_side ord))))"
    by (simp add: book_new_def sw e1(4) Let_def)
  show ?thesis
  proof (cases "eo_quantity ord' = 0 \<or> smap_find (se_orderByID e1) (eo_orderId ord') \<noteq> None")
    case True
    have "lb_handleOrderNew ops lb ord e = Some e1" using e1(1) True by (simp add: lb_handleOrderNew_rest)
    with new True known e1(2,3) show ?thesis by (intro exI [of _ e1]) simp
  next
    case False
    then obtain e2 where e2: "lb_rest ops ord' e1 = Some e2" "lb_wf entries e2" "se_trades e2 = se_trades e1"
      "\<forall>s. lbe_levels entries e2 s = (if s = eo_side ord' then add_resting (lb_order s) ord' (lbe_levels entries e1 s)
         else lbe_levels entries e1 s)"
      using lb_rest_adds [OF e1(2), of ord'] by blast
    have "lbe_levels entries e2 =
        (lbe_levels entries e1)(eo_side ord := add_resting (lb_order (eo_side ord)) ord' (lbe_levels entries e1 (eo_side ord)))"
      using e2(4) q by (simp add: fun_eq_iff)
    moreover have "lb_handleOrderNew ops lb ord e = Some e2" using e1(1) e2(1) False by (simp add: lb_handleOrderNew_rest)
    ultimately show ?thesis using new False known e2(2,3) e1(3) by (intro exI [of _ e2]) simp
  qed
qed

end

section \<open>Cancelling\<close>

text \<open>In the well-formed state an order's identifier tells its node.\<close>

lemma lb_node_of_id:
  assumes wf: "lb_wf entries e" and r: "smap_find (se_orderByID e) i = Some r"
    and n: "node_ok e s p a n" "se_nodes e n = Some x"
  shows "eo_orderId x = i \<longleftrightarrow> n = sr_orderIter r"
proof
  assume "eo_orderId x = i"
  then show "n = sr_orderIter r" using n r by (auto simp: node_ok_def)
next
  assume "n = sr_orderIter r"
  then show "eo_orderId x = i" using lb_wfD(6) [OF wf r] n(2) by auto
qed

lemma lb_levels_map:
  assumes "lb_wf entries e" "\<And>s. entries (store_side s e') = entries (store_side s e)"
    and "\<And>s p a. (p, Some a) \<in> set (entries (store_side s e)) \<Longrightarrow>
      node_orders e' (level_nodes e' a) = g (node_orders e (level_nodes e a))"
  shows "lbe_levels entries e' s = map (\<lambda>(p, os). (p, g os)) (lbe_levels entries e s)"
proof -
  have "node_orders e' (level_nodes e' (the v)) = g (node_orders e (level_nodes e (the v)))"
    if m: "(p, v) \<in> set (entries (store_side s e))" for p v
  proof -
    obtain a where a: "v = Some a" using lb_wfD(2) [OF assms(1) m] by blast
    show ?thesis using assms(3) [OF m [unfolded a]] by (simp add: a)
  qed
  then show ?thesis unfolding lbe_levels_def assms(2) list.map_comp by (intro map_cong refl) (auto simp: split_beta)
qed

lemma lb_cancel:
  assumes wf: "lb_wf entries e"
  shows "\<exists>e'. lb_handleOrderCancel ord e = Some e' \<and> lb_wf entries e' \<and> se_trades e' = se_trades e
    \<and> lbe_levels entries e' = book_cancel (eo_orderId ord) (lbe_levels entries e)"
proof (cases "smap_find (se_orderByID e) (eo_orderId ord)")
  case None
  then have no: "\<not> book_has (eo_orderId ord) (lbe_levels entries e)" using lb_queue_ids [OF wf] by blast
  have "without_order (eo_orderId ord) (lbe_levels entries e s) = lbe_levels entries e s" for s
    unfolding without_order_def
  proof (rule map_idI)
    fix l assume l: "l \<in> set (lbe_levels entries e s)"
    have "eo_orderId x \<noteq> eo_orderId ord" if "x \<in> set (snd l)" for x
    proof -
      have "x \<in> set (queue_of (lbe_levels entries e s))" using l that by (auto simp: queue_of_def)
      then show ?thesis using no unfolding book_has_def order_ids_def by (metis image_eqI)
    qed
    then show "(case l of (p, os) \<Rightarrow> (p, filter (\<lambda>x. eo_orderId x \<noteq> eo_orderId ord) os)) = l"
      by (cases l) simp
  qed
  then show ?thesis using None wf by (simp add: lb_handleOrderCancel_def book_cancel_def fun_eq_iff)
next
  case (Some r)
  let ?i = "eo_orderId ord" and ?n = "sr_orderIter r" and ?a = "sr_levelList r"
  let ?xs = "level_nodes e ?a"
  obtain s p where en: "(p, Some ?a) \<in> set (entries (store_side s e))" using lb_wfD(4) [OF wf Some] by blast
  note ln = level_nodes_entry [OF wf en]
  have n: "?n \<in> set ?xs" by (rule lb_wfD(5) [OF wf Some])
  have own: "?n \<in> set (se_orders e)" using lb_wfD(6) [OF wf Some] lb_wfD(8) [OF wf] by auto
  define e' where "e' = e\<lparr>se_lists := (se_lists e)(?a \<mapsto> remove1 ?n ?xs), se_orders := remove1 ?n (se_orders e),
      se_nodes := (se_nodes e)(?n := None), se_orderByID := smap_erase ?i (se_orderByID e)\<rparr>"
  have run: "lb_handleOrderCancel ord e = Some e'"
    using Some ln(1) n own by (simp add: lb_handleOrderCancel_def e'_def)
  have e': "se_nodes e' = (se_nodes e)(?n := None)" "se_trades e' = se_trades e" "se_nextList e' = se_nextList e"
    "se_nextNode e' = se_nextNode e" "se_orders e' = remove1 ?n (se_orders e)" "se_orderByID e' = smap_erase ?i (se_orderByID e)"
    "se_lists e' = (se_lists e)(?a \<mapsto> remove1 ?n ?xs)" by (simp_all add: e'_def)
  have side: "store_side s' e' = store_side s' e" for s' by (cases s') (simp_all add: store_side_def e'_def)
  have find: "smap_find (se_orderByID e') j = (if j = ?i then None else smap_find (se_orderByID e) j)" for j
    using lb_wfD(7) [OF wf] by (simp add: e'(6))
  have nodes: "level_nodes e' b = filter (\<lambda>m. m \<noteq> ?n) (level_nodes e b)"
    if b: "(p', Some b) \<in> set (entries (store_side s' e))" for s' p' b
  proof (cases "b = ?a")
    case True
    then show ?thesis using ln(2)
      by (simp add: level_nodes_def e'(7) distinct_remove1_removeAll removeAll_filter_not_eq eq_commute)
  next
    case False
    then have "?n \<notin> set (level_nodes e b)" using levels_disjoint [OF wf b en _ n] by blast
    then have "filter (\<lambda>m. m \<noteq> ?n) (level_nodes e b) = level_nodes e b" by (auto intro: filter_True)
    then show ?thesis using False by (simp add: level_nodes_def e'(7))
  qed
  have keep: "node_ok e' s' p' b m" if m: "node_ok e s' p' b m" "m \<noteq> ?n" for s' p' b m
    using m lb_node_of_id [OF wf Some m(1)] by (auto simp: node_ok_def e'(1) find)
  have "lb_wf entries e'"
  proof (rule lb_wfI)
    fix s' p' v assume "(p', v) \<in> set (entries (store_side s' e'))"
    then have m: "(p', v) \<in> set (entries (store_side s' e))" by (simp add: side)
    then obtain b where b: "v = Some b" using lb_wfD(2) [OF wf] by blast
    note lb = level_nodes_entry [OF wf m [unfolded b]]
    have "se_lists e' b = Some (level_nodes e' b)" using lb(1) by (simp add: level_nodes_def e'(7))
    with lb keep b nodes [OF m [unfolded b]] show "\<exists>a xs. v = Some a \<and> a < se_nextList e' \<and> se_lists e' a = Some xs
        \<and> distinct xs \<and> (\<forall>n\<in>set xs. node_ok e' s' p' a n)" by (simp add: e'(3))
  next
    fix j q assume "smap_find (se_orderByID e') j = Some q"
    then have q: "smap_find (se_orderByID e) j = Some q" "j \<noteq> ?i" by (simp_all add: find split: if_splits)
    obtain s' p' where m: "(p', Some (sr_levelList q)) \<in> set (entries (store_side s' e))" using lb_wfD(4) [OF wf q(1)] by blast
    have "sr_orderIter q \<noteq> ?n" using lb_wfD(6) [OF wf q(1)] lb_wfD(6) [OF wf Some] q(2) by auto
    with m lb_wfD(5,6) [OF wf q(1)] show "(\<exists>s p. (p, Some (sr_levelList q)) \<in> set (entries (store_side s e')))
        \<and> sr_orderIter q \<in> set (level_nodes e' (sr_levelList q)) \<and> (\<exists>x. se_nodes e' (sr_orderIter q) = Some x \<and> eo_orderId x = j)"
      by (auto simp: side nodes [OF m] e'(1))
  next
    show "set (se_orders e') = dom (se_nodes e')" using lb_wfD(8,9) [OF wf] by (auto simp: e'(1,5))
  next
    fix m assume "se_nodes e' m \<noteq> None"
    then show "m < se_nextNode e'" using lb_wfD(10) [OF wf, of m] by (simp add: e'(1,4) split: if_splits)
  next
    fix s1 s2 p1 p2 b
    assume "(p1, Some b) \<in> set (entries (store_side s1 e'))" "(p2, Some b) \<in> set (entries (store_side s2 e'))"
    then show "s1 = s2 \<and> p1 = p2" using lb_wfD(3) [OF wf] by (simp add: side)
  qed (use lb_wfD(1,7,9) [OF wf] in \<open>simp_all add: side e'(5,6)\<close>)
  moreover have "lbe_levels entries e' s' = without_order ?i (lbe_levels entries e s')" for s'
    unfolding without_order_def
  proof (rule lb_levels_map [OF wf])
    fix s1 p1 b assume b: "(p1, Some b) \<in> set (entries (store_side s1 e))"
    have "(eo_orderId (the (se_nodes e m)) \<noteq> ?i) = (m \<noteq> ?n)" if "m \<in> set (level_nodes e b)" for m
      using level_nodes_entry(4) [OF wf b that] lb_node_of_id [OF wf Some] by (fastforce simp: node_ok_def)
    then show "node_orders e' (level_nodes e' b) = filter (\<lambda>x. eo_orderId x \<noteq> ?i) (node_orders e (level_nodes e b))"
      by (simp add: nodes [OF b] node_orders_def e'(1) filter_map comp_def cong: filter_cong map_cong)
  qed (simp add: side)
  ultimately show ?thesis using run e'(2) by (auto simp: book_cancel_def)
qed

section \<open>Amending\<close>

lemma find_SomeD: "find P xs = Some x \<Longrightarrow> x \<in> set xs \<and> P x"
  by (induction xs) (auto split: if_splits)

lemma lb_find:
  assumes wf: "lb_wf entries e"
  shows "book_find i (lbe_levels entries e)
    = (case smap_find (se_orderByID e) i of None \<Rightarrow> None | Some r \<Rightarrow> se_nodes e (sr_orderIter r))"
proof -
  let ?q = "queue_of (lbe_levels entries e BUY) @ queue_of (lbe_levels entries e SELL)"
  have has: "smap_find (se_orderByID e) i \<noteq> None \<longleftrightarrow> (\<exists>x\<in>set ?q. eo_orderId x = i)"
  proof -
    have "(\<exists>s. P s) \<longleftrightarrow> P BUY \<or> P SELL" for P :: "order_side \<Rightarrow> bool" by (metis order_side.exhaust)
    then have "(\<exists>s. i \<in> order_ids (queue_of (lbe_levels entries e s))) \<longleftrightarrow> (\<exists>x\<in>set ?q. eo_orderId x = i)"
      by (simp add: order_ids_def image_iff bex_Un eq_commute)
    then show ?thesis using lb_queue_ids [OF wf] by (simp add: book_has_def)
  qed
  show ?thesis
  proof (cases "smap_find (se_orderByID e) i")
    case None
    with has have "find (\<lambda>x. eo_orderId x = i) ?q = None" by (auto simp: find_None_iff)
    with None show ?thesis by (simp add: book_find_def)
  next
    case (Some r)
    have only: "se_nodes e (sr_orderIter r) = Some x" if x: "x \<in> set ?q" "eo_orderId x = i" for x
    proof -
      obtain s where "x \<in> set (queue_of (lbe_levels entries e s))" using x(1) by auto
      then obtain p v where en: "(p, v) \<in> set (entries (store_side s e))" "x \<in> set (node_orders e (level_nodes e (the v)))"
        by (force simp: lbe_levels_def queue_of_map)
      obtain a where a: "v = Some a" using lb_wfD(2) [OF wf en(1)] by blast
      obtain n where n: "n \<in> set (level_nodes e a)" "x = the (se_nodes e n)" using en(2) a by (auto simp: node_orders_def)
      have ok: "node_ok e s p a n" by (rule level_nodes_entry(4) [OF wf en(1) [unfolded a] n(1)])
      then have "se_nodes e n = Some x" using n(2) by (auto simp: node_ok_def)
      with lb_node_of_id [OF wf Some ok this] x(2) show ?thesis by simp
    qed
    obtain x where "find (\<lambda>x. eo_orderId x = i) ?q = Some x" using has Some by (cases "find (\<lambda>x. eo_orderId x = i) ?q") (auto simp: find_None_iff)
    moreover from this have "x \<in> set ?q" "eo_orderId x = i" by (auto dest: find_SomeD)
    ultimately show ?thesis using only Some by (simp add: book_find_def)
  qed
qed

lemma lb_requantify:
  assumes wf: "lb_wf entries e" and r: "smap_find (se_orderByID e) i = Some r" and x: "se_nodes e (sr_orderIter r) = Some x"
    and e': "e' = e\<lparr>se_nodes := (se_nodes e)(sr_orderIter r \<mapsto> x\<lparr>eo_quantity := q\<rparr>)\<rparr>"
  shows "lb_wf entries e'" "lbe_levels entries e' s = requantify i q (lbe_levels entries e s)"
proof -
  let ?n = "sr_orderIter r"
  have side: "store_side s e' = store_side s e" for s by (cases s) (simp_all add: store_side_def e')
  have same: "same_order (se_nodes e' m) (se_nodes e m)" for m using x by (simp add: e')
  have nodes: "level_nodes e' b = level_nodes e b" for b by (simp add: level_nodes_def e')
  have keep: "node_ok e' s p a m" if "node_ok e s p a m" for s p a m
    using that x by (auto simp: node_ok_def e')
  show "lb_wf entries e'"
  proof (rule lb_wfI)
    fix s p v assume "(p, v) \<in> set (entries (store_side s e'))"
    then have "(p, v) \<in> set (entries (store_side s e))" by (simp add: side)
    from lb_wfD(2) [OF wf this] keep show "\<exists>a xs. v = Some a \<and> a < se_nextList e' \<and> se_lists e' a = Some xs
        \<and> distinct xs \<and> (\<forall>n\<in>set xs. node_ok e' s p a n)" by (fastforce simp: e')
  next
    fix j t assume "smap_find (se_orderByID e') j = Some t"
    then have t: "smap_find (se_orderByID e) j = Some t" by (simp add: e')
    have "\<exists>y. se_nodes e' (sr_orderIter t) = Some y \<and> eo_orderId y = j"
      using lb_wfD(6) [OF wf t] x by (auto simp: e')
    with lb_wfD(4,5) [OF wf t] show "(\<exists>s p. (p, Some (sr_levelList t)) \<in> set (entries (store_side s e')))
        \<and> sr_orderIter t \<in> set (level_nodes e' (sr_levelList t)) \<and> (\<exists>y. se_nodes e' (sr_orderIter t) = Some y \<and> eo_orderId y = j)"
      by (simp add: side nodes)
  next
    fix s1 s2 p1 p2 b
    assume "(p1, Some b) \<in> set (entries (store_side s1 e'))" "(p2, Some b) \<in> set (entries (store_side s2 e'))"
    then show "s1 = s2 \<and> p1 = p2" using lb_wfD(3) [OF wf] by (simp add: side)
  next
    show "set (se_orders e') = dom (se_nodes e')" using lb_wfD(8) [OF wf] x by (auto simp: e')
    show "m < se_nextNode e'" if "se_nodes e' m \<noteq> None" for m
      using that lb_wfD(10) [OF wf, of m] x by (auto simp: e' split: if_splits)
  qed (use lb_wfD(1,7,9) [OF wf] in \<open>simp_all add: side, simp_all add: e'\<close>)
  show "lbe_levels entries e' s = requantify i q (lbe_levels entries e s)"
    unfolding requantify_def
  proof (rule lb_levels_map [OF wf])
    fix s1 p1 b assume b: "(p1, Some b) \<in> set (entries (store_side s1 e))"
    have "the (se_nodes e' m) = requantify_order i q (the (se_nodes e m))" if m: "m \<in> set (level_nodes e b)" for m
    proof -
      have ok: "node_ok e s1 p1 b m" by (rule level_nodes_entry(4) [OF wf b m])
      then obtain y where y: "se_nodes e m = Some y" by (auto simp: node_ok_def)
      from lb_node_of_id [OF wf r ok y] y x show ?thesis by (auto simp: e' requantify_order_def)
    qed
    then show "node_orders e' (level_nodes e' b) = map (requantify_order i q) (node_orders e (level_nodes e b))"
      by (simp add: nodes node_orders_def)
  qed (simp add: side)
qed

text \<open>What an operation of the engine on a well-formed state must do to be the book's operation \<open>f\<close>.\<close>

definition lb_does ::
  "('m \<Rightarrow> (u64 \<times> nat option) list) \<Rightarrow> 'm store_engine \<Rightarrow> 'm store_engine option \<Rightarrow> engine_trade list \<times> lbe_book \<Rightarrow> bool" where
  "lb_does entries e r b \<longleftrightarrow>
     (\<exists>e'. r = Some e' \<and> lb_wf entries e' \<and> se_trades e' = se_trades e @ fst b \<and> lbe_levels entries e' = snd b)"

context lower_bound_maps
begin

lemma lb_new_does: "lb_wf entries e \<Longrightarrow> lb_does entries e (lb_handleOrderNew ops lb ord e) (book_new ord (lbe_levels entries e))"
proof -
  assume "lb_wf entries e"
  from lb_new_is_book_new [OF this] obtain e' where e': "lb_handleOrderNew ops lb ord e = Some e'" "lb_wf entries e'"
    "book_new ord (lbe_levels entries e) = (drop (length (se_trades e)) (se_trades e'), lbe_levels entries e')"
    "take (length (se_trades e)) (se_trades e') = se_trades e" by blast
  from e'(4) have "se_trades e' = se_trades e @ drop (length (se_trades e)) (se_trades e')"
    by (metis append_take_drop_id)
  with e' show ?thesis by (simp add: lb_does_def)
qed

lemma lb_cancel_does:
  "lb_wf entries e \<Longrightarrow> lb_does entries e (lb_handleOrderCancel ord e) ([], book_cancel (eo_orderId ord) (lbe_levels entries e))"
  using lb_cancel [of entries e ord] by (auto simp: lb_does_def)

lemma lb_amend_does:
  assumes wf: "lb_wf entries e"
  shows "lb_does entries e (lb_handleOrderAmend ops lb ord e) (book_amend ord (lbe_levels entries e))"
proof (cases "smap_find (se_orderByID e) (eo_orderId ord)")
  case None
  with wf show ?thesis by (simp add: lb_does_def lb_handleOrderAmend_def book_amend_def lb_find [OF wf])
next
  case (Some r)
  obtain x where x: "se_nodes e (sr_orderIter r) = Some x" using lb_wfD(6) [OF wf Some] by blast
  have find: "book_find (eo_orderId ord) (lbe_levels entries e) = Some x" using lb_find [OF wf] Some x by simp
  consider "eo_side x \<noteq> eo_side ord" | "eo_side x = eo_side ord" "eo_price x \<noteq> eo_price ord"
    | "eo_side x = eo_side ord" "eo_price x = eo_price ord" by blast
  then show ?thesis
  proof cases
    case 1
    with Some x find wf show ?thesis by (simp add: lb_does_def lb_handleOrderAmend_def book_amend_def)
  next
    case 2
    obtain e1 where e1: "lb_handleOrderCancel ord e = Some e1" "lb_wf entries e1" "se_trades e1 = se_trades e"
      "lbe_levels entries e1 = book_cancel (eo_orderId ord) (lbe_levels entries e)" using lb_cancel [OF wf] by blast
    from lb_new_does [OF e1(2), of ord] 2 Some x find e1 show ?thesis
      by (simp add: lb_does_def lb_handleOrderAmend_def book_amend_def)
  next
    case 3
    from lb_requantify [OF wf Some x refl, of "eo_quantity ord"] 3 Some x find show ?thesis
      by (auto simp: lb_does_def lb_handleOrderAmend_def book_amend_def)
  qed
qed

lemma lb_process_does:
  assumes "lb_wf entries e"
  shows "lb_does entries e (lb_processOrder ops lb ord e) (book_process ord (lbe_levels entries e))"
  using lb_new_does [OF assms, of ord] lb_cancel_does [OF assms, of ord] lb_amend_does [OF assms, of ord] assms
  by (simp add: lb_processOrder_def book_process_def lb_does_def split: order_action_type.splits)

lemma lb_process_orders_does:
  "lb_wf entries e \<Longrightarrow> lb_does entries e (lb_process_orders ops lb orders e) (book_run orders (lbe_levels entries e))"
proof (induction orders arbitrary: e)
  case Nil
  then show ?case by (simp add: lb_does_def)
next
  case (Cons ord orders)
  obtain ts B where b: "book_process ord (lbe_levels entries e) = (ts, B)" by fastforce
  with lb_process_does [OF Cons.prems, of ord] obtain e1 where e1: "lb_processOrder ops lb ord e = Some e1" "lb_wf entries e1"
    "se_trades e1 = se_trades e @ ts" "lbe_levels entries e1 = B" by (auto simp: lb_does_def)
  obtain ts' B' where "book_run orders B = (ts', B')" by fastforce
  with Cons.IH [OF e1(2)] e1 b show ?case by (auto simp: lb_does_def)
qed

lemma lb_new_wf: "lb_wf entries (new_store_engine ops)" "lbe_levels entries (new_store_engine ops) s = []"
proof -
  have "entries (store_side s (new_store_engine ops)) = []" for s
    using price_map.entries_new [OF maps, of s] by (cases s) (simp_all add: store_side_def new_store_engine_def)
  then show "lb_wf entries (new_store_engine ops)" "lbe_levels entries (new_store_engine ops) s = []"
    by (auto intro!: lb_wfI simp: lbe_levels_def) (simp_all add: new_store_engine_def)
qed

lemma lb_run_from_empty:
  "\<exists>e. lb_process_orders ops lb orders (new_store_engine ops) = Some e
    \<and> book_run orders (\<lambda>_. []) = (se_trades e, lbe_levels entries e)"
proof -
  have "lbe_levels entries (new_store_engine ops) = (\<lambda>_. [])" using lb_new_wf(2) by (simp add: fun_eq_iff)
  moreover have "se_trades (new_store_engine ops) = []" by (simp add: new_store_engine_def)
  ultimately show ?thesis using lb_process_orders_does [OF lb_new_wf(1), of orders]
    by (auto simp: lb_does_def intro!: prod_eqI)
qed

end

section \<open>Every run is one of the book\<close>

definition lb_run_orders :: "engine_order list" where
  "lb_run_orders = [limit_order SELL NEW 1 10 1, limit_order SELL NEW 2 12 1, limit_order BUY NEW 3 9 4,
     limit_order BUY AMEND 3 11 4, limit_order BUY CANCEL 2 0 0]"

text \<open>C34. Every sequence of orders runs through the lower-bound engine without a null level pointer or a
  dangling iterator, and it computes the book: the trades are those of the abstract operations on two
  lists of levels, and after the run the levels, emptied ones included, hold the orders of the book in
  the same queues. A cancel removes the identifier wherever it rests, an amend of the price is a cancel
  followed by a new order, an amend of the quantity keeps the place in the queue.\<close>

theorem lower_bound_engine_refines_book:
  assumes "lower_bound_maps ops entries lb"
  shows "\<exists>e. lb_process_orders ops lb orders (new_store_engine ops) = Some e
    \<and> book_run orders (\<lambda>_. []) = (se_trades e, lbe_levels entries e)"
  by (rule lower_bound_maps.lb_run_from_empty [OF assms])

theorem lower_bound_engine_refines_book_witness:
  "\<exists>e. lb_process_orders (\<lambda>s. list_ops (lb_order s)) list_lower_bound lb_run_orders
         (new_store_engine (\<lambda>s. list_ops (lb_order s))) = Some e
    \<and> book_run lb_run_orders (\<lambda>_. []) = (se_trades e, lbe_levels (\<lambda>m. m) e)"
  by (rule lower_bound_engine_refines_book [OF lb_list_maps.lower_bound_maps_axioms])

section \<open>The worst price first\<close>

definition resting_price :: "order_side \<Rightarrow> engine_trade \<Rightarrow> u64" where
  "resting_price s t = oi_price (if s = SELL then et_buyOrderInfo t else et_sellOrderInfo t)"

lemma resting_price_make: "resting_price (eo_side ord) (make_trade ord x) = eo_price x"
  by (simp add: resting_price_def make_trade_def Let_def setBuyOrder_def setSellOrder_def order_info_of_def)

lemma dropWhile_filter_sorted:
  assumes "sorted_wrt R xs" "\<And>x y. R x y \<Longrightarrow> P y \<Longrightarrow> P x"
  shows "dropWhile P xs = filter (\<lambda>x. \<not> P x) xs"
  using assms(1)
proof (induction xs)
  case (Cons x xs)
  show ?case
  proof (cases "P x")
    case False
    then have "filter (\<lambda>x. \<not> P x) xs = xs" using Cons.prems assms(2) by (auto intro!: filter_True)
    with False show ?thesis by simp
  qed (use Cons in simp)
qed simp

lemma acceptable_comparator: "\<not> before (lb_order s) p q \<longleftrightarrow> comparator s p q"
  by (cases s) (auto simp: before_def lb_order_def comparator_def)

lemma lbe_levels_sorted:
  assumes "lb_wf entries e"
  shows "sorted_wrt (\<lambda>x y. before (lb_order s) (fst x) (fst y)) (lbe_levels entries e s)"
  using lb_wfD(1) [OF assms, of s] by (simp add: lbe_levels_def sorted_keys_def sorted_wrt_map split_beta)

lemma lbe_level_prices:
  assumes "lb_wf entries e" "(p, os) \<in> set (lbe_levels entries e s)" "x \<in> set os"
  shows "eo_price x = p" "eo_side x = s"
proof -
  obtain v where v: "(p, v) \<in> set (entries (store_side s e))" "os = node_orders e (level_nodes e (the v))"
    using assms(2) by (auto simp: lbe_levels_def)
  obtain a where a: "v = Some a" using lb_wfD(2) [OF assms(1) v(1)] by blast
  obtain n where "n \<in> set (level_nodes e a)" "x = the (se_nodes e n)" using assms(3) v(2) a by (auto simp: node_orders_def)
  with level_nodes_entry(4) [OF assms(1) v(1) [unfolded a]] show "eo_price x = p" "eo_side x = s" by (fastforce simp: node_ok_def)+
qed

lemma fill_level_prices:
  "fill_level ord os = (ord', os', ts) \<Longrightarrow> (\<And>x. x \<in> set os \<Longrightarrow> eo_price x = p) \<Longrightarrow> t \<in> set ts \<Longrightarrow>
     resting_price (eo_side ord) t = p"
proof (induction ord os arbitrary: ord' os' ts rule: fill_level.induct)
  case (2 ord x xs)
  have x: "resting_price (eo_side ord) (make_trade ord x) = p"
    using "2.prems"(2) [of x] by (simp add: resting_price_make)
  show ?case
  proof (cases "eo_quantity ord \<ge> eo_quantity x")
    case True
    then obtain ts1 where f: "fill_level (ord\<lparr>eo_quantity := eo_quantity ord - eo_quantity x\<rparr>) xs = (ord', os', ts1)"
      "ts = make_trade ord x # ts1" using "2.prems"(1) by (auto split: prod.splits)
    then show ?thesis using "2.IH" [OF True f(1)] "2.prems"(2,3) x by auto
  next
    case False
    then show ?thesis using "2.prems" x by auto
  qed
qed simp

lemma sweep_all_prices:
  "sweep_all ord ls = (ord', ls', ts) \<Longrightarrow> sorted_wrt (\<lambda>x y. before so (fst x) (fst y)) ls \<Longrightarrow>
   \<forall>(p, os)\<in>set ls. \<forall>x\<in>set os. eo_price x = p \<Longrightarrow>
   sorted_wrt (\<lambda>t u. resting_price (eo_side ord) t = resting_price (eo_side ord) u
       \<or> before so (resting_price (eo_side ord) t) (resting_price (eo_side ord) u)) ts
   \<and> (\<forall>t\<in>set ts. resting_price (eo_side ord) t \<in> fst ` set ls)"
proof (induction ord ls arbitrary: ord' ls' ts rule: sweep_all.induct)
  case (2 ord p os ls)
  obtain ord1 os1 t1 where f: "fill_level ord os = (ord1, os1, t1)" by (cases "fill_level ord os")
  have side: "eo_side ord1 = eo_side ord" using fill_level_facts(1) [OF f] by auto
  show ?case
  proof (cases "eo_quantity ord > 0")
    case True
    with "2.prems"(1) f obtain ls2 t2 where r: "sweep_all ord1 ls = (ord', ls2, t2)" "ts = t1 @ t2"
      by (auto split: prod.splits)
    have t1: "\<And>t. t \<in> set t1 \<Longrightarrow> resting_price (eo_side ord) t = p"
      using fill_level_prices [OF f, of p] "2.prems"(3) by auto
    have "sorted_wrt (\<lambda>x y. before so (fst x) (fst y)) ls" "\<forall>(p, os)\<in>set ls. \<forall>x\<in>set os. eo_price x = p"
      using "2.prems"(2,3) by auto
    note ih = "2.IH" [OF True f [symmetric] refl r(1) this, unfolded side]
    have "sorted_wrt (\<lambda>t u. resting_price (eo_side ord) t = resting_price (eo_side ord) u
       \<or> before so (resting_price (eo_side ord) t) (resting_price (eo_side ord) u)) t1"
      using t1 by (simp add: sorted_wrt_iff_nth_less)
    moreover have "before so p (resting_price (eo_side ord) u)" if u: "u \<in> set t2" for u
    proof -
      have "resting_price (eo_side ord) u \<in> fst ` set ls" using ih u by blast
      then obtain x where "x \<in> set ls" "fst x = resting_price (eo_side ord) u" by auto
      with "2.prems"(2) show ?thesis by auto
    qed
    ultimately show ?thesis using ih t1 by (auto simp: r(2) sorted_wrt_append)
  qed (use "2.prems"(1) in simp)
qed simp

text \<open>C35. The lower-bound engine trades at the worst acceptable prices first. After every run, a new
  order meets exactly the resting levels its limit accepts, in the order in which \<open>std::less\<close> bids
  and \<open>std::greater\<close> asks keep them: a buyer pays the highest acceptable ask before the lower ones, a
  seller gets the lowest acceptable bid before the higher ones.\<close>

theorem lower_bound_engine_matches_worst_price_first:
  assumes "lower_bound_maps ops entries lb"
    and "lb_process_orders ops lb orders (new_store_engine ops) = Some e"
    and "opp = opposite_side (eo_side ord)"
  shows "\<exists>e' ts. lb_handleOrderNew ops lb ord e = Some e' \<and> se_trades e' = se_trades e @ ts
    \<and> ts = snd (snd (sweep_all ord (filter (\<lambda>(p, _). comparator opp p (eo_price ord)) (lbe_levels entries e opp))))
    \<and> sorted_wrt (\<lambda>t u. if eo_side ord = BUY then resting_price BUY t \<ge> resting_price BUY u
                         else resting_price SELL t \<le> resting_price SELL u) ts"
proof -
  note run = lower_bound_maps.lb_process_orders_does [OF assms(1) lower_bound_maps.lb_new_wf(1) [OF assms(1)], of orders]
  have wf: "lb_wf entries e" using run assms(2) by (auto simp: lb_does_def)
  let ?ls = "lbe_levels entries e opp" and ?no = "not_acceptable opp (eo_price ord)"
  have R: "sorted_wrt (\<lambda>x y. before (lb_order opp) (fst x) (fst y)) ?ls" by (rule lbe_levels_sorted [OF wf])
  have "dropWhile ?no ?ls = filter (\<lambda>x. \<not> ?no x) ?ls"
    by (rule dropWhile_filter_sorted [OF R]) (use before_trans in \<open>auto simp: not_acceptable_def\<close>)
  then have drop: "dropWhile ?no ?ls = filter (\<lambda>(p, _). comparator opp p (eo_price ord)) ?ls"
    by (simp add: not_acceptable_def acceptable_comparator case_prod_unfold)
  obtain ord' ls' ts where sw: "sweep_all ord (filter (\<lambda>(p, _). comparator opp p (eo_price ord)) ?ls) = (ord', ls', ts)"
    by (cases "sweep_all ord (filter (\<lambda>(p, _). comparator opp p (eo_price ord)) ?ls)")
  have "fst (book_new ord (lbe_levels entries e)) = ts"
    by (simp add: book_new_def Let_def drop sw flip: assms(3))
  with lower_bound_maps.lb_new_does [OF assms(1) wf, of ord]
  obtain e' where e': "lb_handleOrderNew ops lb ord e = Some e'" "se_trades e' = se_trades e @ ts" by (auto simp: lb_does_def)
  have h: "sorted_wrt (\<lambda>x y. before (lb_order opp) (fst x) (fst y)) (filter (\<lambda>(p, _). comparator opp p (eo_price ord)) ?ls)"
    "\<forall>(p, os)\<in>set (filter (\<lambda>(p, _). comparator opp p (eo_price ord)) ?ls). \<forall>x\<in>set os. eo_price x = p"
    using sorted_wrt_filter [OF R] lbe_level_prices(1) [OF wf] by auto
  have "sorted_wrt (\<lambda>t u. if eo_side ord = BUY then resting_price BUY t \<ge> resting_price BUY u
      else resting_price SELL t \<le> resting_price SELL u) ts"
    by (rule sorted_wrt_mono_rel [OF _ conjunct1 [OF sweep_all_prices [OF sw h]]])
      (cases "eo_side ord"; auto simp: assms(3) opposite_side_def lb_order_def before_def)
  with e' sw show ?thesis by auto
qed

theorem lower_bound_engine_matches_worst_price_first_witness:
  "\<exists>e e'. lb_process_orders (\<lambda>s. list_ops (lb_order s)) list_lower_bound
         [limit_order SELL NEW 1 10 1, limit_order SELL NEW 2 12 1] (new_store_engine (\<lambda>s. list_ops (lb_order s))) = Some e
    \<and> lb_handleOrderNew (\<lambda>s. list_ops (lb_order s)) list_lower_bound (limit_order BUY NEW 3 15 1) e = Some e'
    \<and> map (resting_price BUY) (se_trades e') = [12]"
proof -
  let ?ops = "\<lambda>s. list_ops (lb_order s)" and ?orders = "[limit_order SELL NEW 1 10 1, limit_order SELL NEW 2 12 1]"
  obtain e where e: "lb_process_orders ?ops list_lower_bound ?orders (new_store_engine ?ops) = Some e"
    "book_run ?orders (\<lambda>_. []) = (se_trades e, lbe_levels (\<lambda>m. m) e)"
    using lower_bound_maps.lb_run_from_empty [OF lb_list_maps.lower_bound_maps_axioms, of ?orders] by blast
  have "book_run ?orders (\<lambda>_. []) =
      ([], (\<lambda>_. [])(SELL := [(12, [limit_order SELL NEW 2 12 1]), (10, [limit_order SELL NEW 1 10 1])]))"
    by (auto simp: book_process_def book_new_def opposite_side_def Let_def lb_order_def before_def
        book_has_def queue_of_def fun_eq_iff)
  with e(2) have B: "se_trades e = []" "lbe_levels (\<lambda>m. m) e SELL =
      [(12, [limit_order SELL NEW 2 12 1]), (10, [limit_order SELL NEW 1 10 1])]"
    by (metis fst_conv, metis snd_conv fun_upd_same)
  from lower_bound_engine_matches_worst_price_first [OF lb_list_maps.lower_bound_maps_axioms e(1) refl, of "limit_order BUY NEW 3 15 1"]
  obtain e' where "lb_handleOrderNew ?ops list_lower_bound (limit_order BUY NEW 3 15 1) e = Some e'"
    "se_trades e' = snd (snd (sweep_all (limit_order BUY NEW 3 15 1) (filter (\<lambda>(p, _). comparator SELL p 15)
       [(12, [limit_order SELL NEW 2 12 1]), (10, [limit_order SELL NEW 1 10 1])])))"
    by (auto simp: B opposite_side_def)
  with e(1) show ?thesis
    by (auto simp: comparator_def make_trade_def Let_def setBuyOrder_def setSellOrder_def order_info_of_def resting_price_def)
qed

end
