(* ===== verification/Object_Pool.thy ===== *)
theory Object_Pool
  imports Prelude "HOL-Library.Monad_Syntax"
begin

text \<open>
  The pool the engines take their orders from, \<open>MatchingEngine_UnitTests/common/ObjectPool.h\<close> (the
  other engines and \<open>PricingEngine\<close> hold copies of it). A pointer is a block and an index into it.
  \<open>po_blocks\<close> is the allocator's view, the live blocks and their sizes, and \<open>po_objects\<close> the objects
  constructed in them. \<open>max_block\<close> is the largest block the allocator gives; a larger request throws,
  which is no result, so the sizes stay below \<open>4 * max_block\<close> and are natural numbers here. The
  destructor's assertion is an argument: it is compiled out with \<open>NDEBUG\<close>.
\<close>

type_synonym pool_ptr = "nat \<times> nat"

record 'o object_pool =
  po_pool :: "nat list"
  po_available :: "pool_ptr list"
  po_new_block_size :: nat
  po_capacity :: nat
  po_blocks :: "nat \<Rightarrow> nat option"
  po_next_block :: nat
  po_objects :: "pool_ptr \<Rightarrow> 'o option"

definition DEFAULT_CHUNK_SIZE :: nat where "DEFAULT_CHUNK_SIZE = 10"

definition GROWTH_STRATEGY :: nat where "GROWTH_STRATEGY = 4"

definition new_pool :: "'o object_pool" where
  "new_pool = \<lparr>po_pool = [], po_available = [], po_new_block_size = DEFAULT_CHUNK_SIZE, po_capacity = 0,
     po_blocks = Map.empty, po_next_block = 0, po_objects = Map.empty\<rparr>"

definition addChunk :: "nat \<Rightarrow> 'o object_pool \<Rightarrow> 'o object_pool option" where
  "addChunk max_block p =
    (let size = po_new_block_size p; newBlock = po_next_block p
     in if size > max_block then None
        else Some (p\<lparr>po_blocks := (po_blocks p)(newBlock \<mapsto> size), po_next_block := newBlock + 1,
                     po_pool := po_pool p @ [newBlock],
                     po_available := map (Pair newBlock) [0..<size],
                     po_capacity := po_capacity p + size,
                     po_new_block_size := size * GROWTH_STRATEGY\<rparr>))"

definition acquireObject :: "nat \<Rightarrow> 'o \<Rightarrow> 'o object_pool \<Rightarrow> (pool_ptr \<times> 'o object_pool) option" where
  "acquireObject max_block v p0 =
    do {
      p \<leftarrow> (if po_available p0 = [] then addChunk max_block p0 else Some p0);
      let objectPtr = last (po_available p);
      Some (objectPtr, p\<lparr>po_objects := (po_objects p)(objectPtr \<mapsto> v), po_available := butlast (po_available p)\<rparr>) }"

text \<open>The deleter; destroying an object that is not there has no result.\<close>

definition return_object :: "pool_ptr \<Rightarrow> 'o object_pool \<Rightarrow> 'o object_pool option" where
  "return_object object p =
    (if po_objects p object = None then None
     else Some (p\<lparr>po_objects := (po_objects p)(object := None), po_available := po_available p @ [object]\<rparr>))"

text \<open>The destructor. A block is given back with the size it was allocated with.\<close>

fun deallocate_chunks :: "nat list \<Rightarrow> nat \<Rightarrow> 'o object_pool \<Rightarrow> 'o object_pool option" where
  "deallocate_chunks [] chunkSize p = Some p"
| "deallocate_chunks (chunk # rest) chunkSize p =
     (if po_blocks p chunk = Some chunkSize
      then deallocate_chunks rest (chunkSize * GROWTH_STRATEGY) (p\<lparr>po_blocks := (po_blocks p)(chunk := None)\<rparr>)
      else None)"

definition destroy_pool :: "bool \<Rightarrow> 'o object_pool \<Rightarrow> 'o object_pool option" where
  "destroy_pool asserts p =
    (if asserts \<and> length (po_available p) \<noteq> DEFAULT_CHUNK_SIZE * (2 ^ length (po_pool p) - 1) then None
     else deallocate_chunks (po_pool p) DEFAULT_CHUNK_SIZE p)"

section \<open>The invariant\<close>

definition valid_ptrs :: "'o object_pool \<Rightarrow> pool_ptr set" where
  "valid_ptrs p = {(b, i). \<exists>n. po_blocks p b = Some n \<and> i < n}"

definition chunk_sizes :: "nat \<Rightarrow> nat list" where
  "chunk_sizes k = map (\<lambda>i. 10 * 4 ^ i) [0..<k]"

definition pool_wf :: "'o object_pool \<Rightarrow> bool" where
  "pool_wf p \<longleftrightarrow>
     map (po_blocks p) (po_pool p) = map Some (chunk_sizes (length (po_pool p)))
   \<and> dom (po_blocks p) = set (po_pool p) \<and> distinct (po_pool p) \<and> (\<forall>b\<in>set (po_pool p). b < po_next_block p)
   \<and> po_new_block_size p = 10 * 4 ^ length (po_pool p) \<and> po_capacity p = sum_list (chunk_sizes (length (po_pool p)))
   \<and> distinct (po_available p)
   \<and> set (po_available p) \<inter> dom (po_objects p) = {} \<and> set (po_available p) \<union> dom (po_objects p) = valid_ptrs p"

lemma pool_wfD:
  assumes "pool_wf p"
  shows "map (po_blocks p) (po_pool p) = map Some (chunk_sizes (length (po_pool p)))"
    "dom (po_blocks p) = set (po_pool p)" "distinct (po_pool p)" "\<And>b. b \<in> set (po_pool p) \<Longrightarrow> b < po_next_block p"
    "po_new_block_size p = 10 * 4 ^ length (po_pool p)" "po_capacity p = sum_list (chunk_sizes (length (po_pool p)))"
    "distinct (po_available p)" "set (po_available p) \<inter> dom (po_objects p) = {}"
    "set (po_available p) \<union> dom (po_objects p) = valid_ptrs p"
  using assms unfolding pool_wf_def by blast+

lemma chunk_sizes_Suc [simp]: "chunk_sizes (Suc k) = chunk_sizes k @ [10 * 4 ^ k]"
  by (simp add: chunk_sizes_def)

lemma sum_chunk_sizes: "3 * sum_list (chunk_sizes k) + 10 = 10 * 4 ^ k"
  by (induction k) (simp_all add: chunk_sizes_def)

lemma new_pool_wf: "pool_wf new_pool"
  by (simp add: pool_wf_def new_pool_def chunk_sizes_def valid_ptrs_def DEFAULT_CHUNK_SIZE_def)

lemma addChunk_wf:
  assumes wf: "pool_wf p" and empty: "po_available p = []" and run: "addChunk max_block p = Some p'"
  shows "pool_wf p'" "po_objects p' = po_objects p" "po_available p' \<noteq> []"
proof -
  note w = pool_wfD [OF wf]
  let ?n = "po_next_block p" let ?s = "po_new_block_size p"
  have p': "p' = p\<lparr>po_blocks := (po_blocks p)(?n \<mapsto> ?s), po_next_block := ?n + 1, po_pool := po_pool p @ [?n],
      po_available := map (Pair ?n) [0..<?s], po_capacity := po_capacity p + ?s, po_new_block_size := ?s * GROWTH_STRATEGY\<rparr>"
    using run by (simp add: addChunk_def Let_def split: if_splits)
  have new: "?n \<notin> set (po_pool p)" using w(4) by blast
  have free: "po_blocks p ?n = None" using new w(2) by auto
  have same: "map ((po_blocks p)(?n \<mapsto> ?s)) (po_pool p) = map (po_blocks p) (po_pool p)" using new by (intro map_cong) auto
  have valid: "valid_ptrs p' = valid_ptrs p \<union> Pair ?n ` {0..<?s}"
    using free by (auto simp: valid_ptrs_def p' split: if_splits)
  have old: "dom (po_objects p) = valid_ptrs p" using w(9) empty by simp
  have fresh: "(?n, i) \<notin> valid_ptrs p" for i using free by (simp add: valid_ptrs_def)
  show "pool_wf p'"
    unfolding pool_wf_def
  proof (intro conjI)
    show "map (po_blocks p') (po_pool p') = map Some (chunk_sizes (length (po_pool p')))"
      using same w(1,5) by (simp add: p')
    show "set (po_available p') \<union> dom (po_objects p') = valid_ptrs p'" using old valid by (auto simp: p')
    show "set (po_available p') \<inter> dom (po_objects p') = {}" using old fresh by (auto simp: p')
    show "distinct (po_available p')" by (simp add: p' distinct_map inj_on_def)
    show "\<forall>b\<in>set (po_pool p'). b < po_next_block p'" using w(4) by (auto simp: p' less_SucI)
  qed (use w new in \<open>simp_all add: p' GROWTH_STRATEGY_def\<close>)
  show "po_objects p' = po_objects p" by (simp add: p')
  show "po_available p' \<noteq> []" using w(5) by (simp add: p')
qed

lemma acquireObject_wf:
  assumes wf: "pool_wf p" and run: "acquireObject max_block v p = Some (a, p')"
  shows "pool_wf p'" "po_objects p a = None" "po_objects p' = (po_objects p)(a \<mapsto> v)"
proof -
  from run obtain p1 where p1: "(if po_available p = [] then addChunk max_block p else Some p) = Some p1"
    "a = last (po_available p1)" "p' = p1\<lparr>po_objects := (po_objects p1)(a \<mapsto> v), po_available := butlast (po_available p1)\<rparr>"
    by (auto simp: acquireObject_def Let_def split: bind_splits)
  have keep: "pool_wf p1" "po_objects p1 = po_objects p" "po_available p1 \<noteq> []"
    using p1(1) addChunk_wf [OF wf] wf by (auto split: if_splits)
  then obtain xs where xs: "po_available p1 = xs @ [a]" using p1(2) by (metis append_butlast_last_id)
  note w = pool_wfD [OF keep(1)]
  have "valid_ptrs p' = valid_ptrs p1" by (simp add: valid_ptrs_def p1(3))
  with w xs show "pool_wf p'" unfolding pool_wf_def p1(3) by auto
  show "po_objects p a = None" using w(8) xs by (auto simp: keep(2))
  show "po_objects p' = (po_objects p)(a \<mapsto> v)" by (simp add: p1(3) keep(2))
qed

lemma return_object_wf:
  assumes wf: "pool_wf p" and run: "return_object a p = Some p'"
  shows "pool_wf p'" "po_objects p' = (po_objects p)(a := None)"
proof -
  note w = pool_wfD [OF wf]
  have p': "po_objects p a \<noteq> None" "p' = p\<lparr>po_objects := (po_objects p)(a := None), po_available := po_available p @ [a]\<rparr>"
    using run by (auto simp: return_object_def split: if_splits)
  have "valid_ptrs p' = valid_ptrs p" by (simp add: valid_ptrs_def p'(2))
  with w p'(1) show "pool_wf p'" unfolding pool_wf_def p'(2) by auto
  show "po_objects p' = (po_objects p)(a := None)" by (simp add: p'(2))
qed

lemma valid_ptrs_card:
  assumes "pool_wf p"
  shows "finite (valid_ptrs p)" "card (valid_ptrs p) = po_capacity p"
proof -
  note w = pool_wfD [OF assms]
  have eq: "valid_ptrs p = Sigma (set (po_pool p)) (\<lambda>b. {..<the (po_blocks p b)})"
    using w(2) by (fastforce simp: valid_ptrs_def)
  show "finite (valid_ptrs p)" unfolding eq by simp
  have "card (valid_ptrs p) = (\<Sum>b\<in>set (po_pool p). the (po_blocks p b))" unfolding eq by simp
  also have "\<dots> = sum_list (map the (map (po_blocks p) (po_pool p)))"
    using w(3) by (simp add: sum_list_distinct_conv_sum_set comp_def)
  also have "\<dots> = po_capacity p" unfolding w(1,6) by (simp add: comp_def)
  finally show "card (valid_ptrs p) = po_capacity p" .
qed

section \<open>Properties\<close>

datatype 'o pool_op = Acquire 'o | Return pool_ptr

text \<open>A run, with the pointers handed out in order.\<close>

fun pool_run :: "nat \<Rightarrow> 'o pool_op list \<Rightarrow> 'o object_pool \<Rightarrow> (pool_ptr list \<times> 'o object_pool) option" where
  "pool_run max_block [] p = Some ([], p)"
| "pool_run max_block (Acquire v # ops) p =
     do { (a, p1) \<leftarrow> acquireObject max_block v p; (as, p2) \<leftarrow> pool_run max_block ops p1; Some (a # as, p2) }"
| "pool_run max_block (Return a # ops) p =
     do { p1 \<leftarrow> return_object a p; pool_run max_block ops p1 }"

text \<open>The client's view: the objects it holds. A pointer handed out must be one it does not hold.\<close>

fun client_run :: "'o pool_op list \<Rightarrow> pool_ptr list \<Rightarrow> (pool_ptr \<Rightarrow> 'o option) \<Rightarrow> (pool_ptr \<Rightarrow> 'o option) option" where
  "client_run [] [] M = Some M"
| "client_run (Acquire v # ops) (a # as) M = (if M a = None then client_run ops as (M(a \<mapsto> v)) else None)"
| "client_run (Return a # ops) as M = (if M a = None then None else client_run ops as (M(a := None)))"
| "client_run ops as M = None"

lemma pool_run_client:
  "pool_wf p \<Longrightarrow> pool_run max_block ops p = Some (as, p') \<Longrightarrow> pool_wf p' \<and> client_run ops as (po_objects p) = Some (po_objects p')"
proof (induction ops arbitrary: p as)
  case (Cons op ops)
  show ?case
  proof (cases op)
    case (Acquire v)
    with Cons.prems(2) obtain a p1 as1 where run: "acquireObject max_block v p = Some (a, p1)" "as = a # as1"
      "pool_run max_block ops p1 = Some (as1, p')" by (auto split: bind_splits)
    note a = acquireObject_wf [OF Cons.prems(1) run(1)]
    from Cons.IH [OF a(1) run(3), unfolded a(3)] a(2) Acquire run(2) show ?thesis by (simp del: fun_upd_apply)
  next
    case (Return a)
    with Cons.prems(2) obtain p1 where run: "return_object a p = Some p1" "pool_run max_block ops p1 = Some (as, p')"
      by (auto split: bind_splits)
    note r = return_object_wf [OF Cons.prems(1) run(1)]
    from run(1) have "po_objects p a \<noteq> None" by (simp add: return_object_def split: if_splits)
    with Cons.IH [OF r(1) run(2), unfolded r(2)] Return show ?thesis by (simp del: fun_upd_apply)
  qed
qed simp

text \<open>The pool never hands out memory that is in use: in every run each object is constructed at an
  address where no live object is, live objects keep their values until they are returned, and the
  objects in use and the free ones together are the capacity, a third of ten times a power of four less
  ten.\<close>

theorem pool_never_shares_memory:
  assumes "pool_run max_block ops new_pool = Some (as, p)"
  shows "client_run ops as Map.empty = Some (po_objects p)
     \<and> card (dom (po_objects p)) + length (po_available p) = po_capacity p
     \<and> 3 * po_capacity p + 10 = 10 * 4 ^ length (po_pool p)"
proof -
  from pool_run_client [OF new_pool_wf assms] have wf: "pool_wf p" and run: "client_run ops as Map.empty = Some (po_objects p)"
    by (simp_all add: new_pool_def)
  note w = pool_wfD [OF wf]
  have fin: "finite (dom (po_objects p))" using valid_ptrs_card(1) [OF wf] w(9) by (metis finite_Un)
  have "card (set (po_available p) \<union> dom (po_objects p)) = length (po_available p) + card (dom (po_objects p))"
    using card_Un_disjoint [OF _ fin w(8)] distinct_card [OF w(7)] by simp
  with valid_ptrs_card(2) [OF wf] w(9) have "card (dom (po_objects p)) + length (po_available p) = po_capacity p" by simp
  with run w(6) sum_chunk_sizes show ?thesis by simp
qed

theorem pool_never_shares_memory_witness:
  "\<exists>p. pool_run 10 [Acquire ''a'', Acquire ''b'', Return (0, 9), Acquire ''c''] new_pool = Some ([(0, 9), (0, 8), (0, 9)], p)
     \<and> 3 * po_capacity p + 10 = 40"
proof -
  have "\<exists>p. pool_run 10 [Acquire ''a'', Acquire ''b'', Return (0, 9), Acquire ''c''] new_pool = Some ([(0, 9), (0, 8), (0, 9)], p)
      \<and> length (po_pool p) = 1"
    by (simp add: acquireObject_def addChunk_def return_object_def new_pool_def DEFAULT_CHUNK_SIZE_def upt_rec Let_def)
  then obtain p where p: "pool_run 10 [Acquire ''a'', Acquire ''b'', Return (0, 9), Acquire ''c''] new_pool = Some ([(0, 9), (0, 8), (0, 9)], p)"
    "length (po_pool p) = 1" by blast
  from pool_never_shares_memory [OF p(1)] p show ?thesis by auto
qed

lemma deallocate_all:
  "map (po_blocks p) bs = map Some (map (\<lambda>i. s * 4 ^ i) [0..<length bs]) \<Longrightarrow> distinct bs \<Longrightarrow>
   \<exists>p'. deallocate_chunks bs s p = Some p' \<and> po_blocks p' = (\<lambda>b. if b \<in> set bs then None else po_blocks p b)"
proof (induction bs arbitrary: s p)
  case Nil
  then show ?case by simp
next
  case (Cons b bs)
  have split: "map (\<lambda>i. s * 4 ^ i) [0..<length (b # bs)] = s # map (\<lambda>i. (s * 4) * 4 ^ i) [0..<length bs]"
    by (simp add: upt_conv_Cons map_Suc_upt [symmetric] comp_def del: upt_Suc)
  from Cons.prems(1) have b: "po_blocks p b = Some s" "map (po_blocks p) bs = map Some (map (\<lambda>i. (s * 4) * 4 ^ i) [0..<length bs])"
    unfolding split by simp_all
  let ?p = "p\<lparr>po_blocks := (po_blocks p)(b := None)\<rparr>"
  have "map (po_blocks ?p) bs = map (po_blocks p) bs" using Cons.prems(2) by (intro map_cong) auto
  from Cons.IH [of ?p "s * 4", unfolded this b(2)] Cons.prems(2) obtain p' where "deallocate_chunks bs (s * 4) ?p = Some p'"
    "po_blocks p' = (\<lambda>c. if c \<in> set bs then None else po_blocks ?p c)" by auto
  with b(1) show ?case by (auto simp: GROWTH_STRATEGY_def fun_eq_iff)
qed

text \<open>With every object returned the destructor gives every block back with the size it was
  allocated with; but with assertions compiled in it does so only while there is at most one block:
  from the second block on the asserted count, for doubling blocks, is not the number of free objects.\<close>

theorem pool_destructor_asserts_wrong_count:
  assumes "pool_run max_block ops new_pool = Some (as, p)" "length (po_available p) = po_capacity p"
  shows "(\<exists>p'. destroy_pool False p = Some p' \<and> po_blocks p' = Map.empty)
     \<and> (destroy_pool True p = None \<longleftrightarrow> length (po_pool p) \<ge> 2)"
proof -
  have wf: "pool_wf p" using pool_run_client [OF new_pool_wf assms(1)] by simp
  note w = pool_wfD [OF wf]
  let ?k = "length (po_pool p)"
  obtain p' where p': "deallocate_chunks (po_pool p) 10 p = Some p'"
    "po_blocks p' = (\<lambda>b. if b \<in> set (po_pool p) then None else po_blocks p b)"
    using deallocate_all [of p "po_pool p" 10] w(1,3) by (auto simp: chunk_sizes_def)
  have "po_blocks p' = Map.empty" using p'(2) w(2) by (auto simp: fun_eq_iff)
  moreover have "po_capacity p = 10 * (2 ^ ?k - 1) \<longleftrightarrow> ?k < 2"
  proof -
    have sum: "3 * po_capacity p + 10 = 10 * 4 ^ ?k" using w(6) sum_chunk_sizes by simp
    have four: "(4::nat) ^ ?k = 2 ^ ?k * 2 ^ ?k" by (metis numeral_Bit0 mult_2 power_mult_distrib numeral_times_numeral semiring_norm(13) mult.right_neutral semiring_norm(11))
    have pos: "(1::nat) \<le> 2 ^ ?k" by simp
    show ?thesis
    proof (cases "?k < 2")
      case True
      then consider "?k = 0" | "?k = 1" by linarith
      then show ?thesis using sum by cases auto
    next
      case False
      then have "(2::nat) ^ 2 \<le> 2 ^ ?k" by (intro power_increasing) auto
      then obtain d where d: "(2::nat) ^ ?k = 4 + d" by (metis le_iff_add numeral_Bit0 power2_eq_square mult_2 numeral_times_numeral semiring_norm(11,12,13) mult.right_neutral)
      have "3 * po_capacity p + 10 = 10 * ((4 + d) * (4 + d))" using sum four d by simp
      then have "po_capacity p \<noteq> 10 * (3 + d)" by (auto simp: algebra_simps)
      with False d show ?thesis by simp
    qed
  qed
  ultimately show ?thesis using p'(1) assms(2) by (auto simp: destroy_pool_def DEFAULT_CHUNK_SIZE_def)
qed

theorem pool_destructor_asserts_wrong_count_witness:
  "\<exists>as p. pool_run 40 (replicate 11 (Acquire ()) @ map Return ((1, 39) # map (Pair 0) [0..<10])) new_pool = Some (as, p)
     \<and> destroy_pool True p = None"
proof -
  have "case pool_run 40 (replicate 11 (Acquire ()) @ map Return ((1, 39) # map (Pair 0) [0..<10])) new_pool of
      None \<Rightarrow> False | Some (as, p) \<Rightarrow> length (po_available p) = po_capacity p \<and> length (po_pool p) = 2"
    by code_simp
  then obtain as p where p: "pool_run 40 (replicate 11 (Acquire ()) @ map Return ((1, 39) # map (Pair 0) [0..<10])) new_pool = Some (as, p)"
    "length (po_available p) = po_capacity p" "length (po_pool p) = 2" by (auto split: option.splits)
  from pool_destructor_asserts_wrong_count [OF p(1,2)] p(1,3) show ?thesis by auto
qed

end
