(* ===== verification/Spin_Lock.thy ===== *)
theory Spin_Lock
  imports Prelude
begin

text \<open>
  The spin lock of \<open>CommonModules/locking/SpinLock.cpp\<close> and the threads of its test: \<open>threadsMax\<close>
  threads take the lock, increment a plain counter and release it, \<open>iterCount\<close> times each. A step is
  one atomic access of one thread; the increment is a read and a write. \<open>compare_exchange_weak\<close> may
  fail although the lock is free. The accesses are taken in one sequence for all threads: acquiring
  with \<open>acquire\<close> and releasing with \<open>release\<close> orders the plain accesses between them, which is what the
  lock is for. \<open>FastSpinLock2\<close> acquires with \<open>relaxed\<close> and is not covered.
\<close>

section \<open>Threads\<close>

text \<open>Where a thread is: in the loop of \<open>lock\<close> with its counter, between lock and unlock before the
  read and the write of the counter, before the unlock, or at the end.\<close>

datatype spin_pc = At_lock nat | At_read | At_write u64 | At_unlock | At_end

record spin_state =
  sl_isLocked :: bool
  sl_counter :: u64
  sl_pc :: "nat \<Rightarrow> spin_pc"
  sl_idx :: "nat \<Rightarrow> nat"

text \<open>The counter of the loop: reset when the thread sleeps, and incremented.\<close>

definition next_spin :: "nat \<Rightarrow> nat" where
  "next_spin n = (if n = 8 then 0 else n) + 1"

text \<open>The loop of the task: another round or the end.\<close>

definition start_round :: "nat \<Rightarrow> nat \<Rightarrow> spin_pc" where
  "start_round iterCount idx = (if idx < iterCount then At_lock 0 else At_end)"

definition spin_start :: "nat \<Rightarrow> spin_state" where
  "spin_start iterCount = \<lparr>sl_isLocked = False, sl_counter = 0, sl_pc = (\<lambda>_. start_round iterCount 0), sl_idx = (\<lambda>_. 0)\<rparr>"

inductive spin_step :: "nat \<Rightarrow> nat \<Rightarrow> spin_state \<Rightarrow> spin_state \<Rightarrow> bool" for iterCount t where
  lock_taken: "sl_pc s t = At_lock n \<Longrightarrow> \<not> sl_isLocked s \<Longrightarrow>
    spin_step iterCount t s (s\<lparr>sl_isLocked := True, sl_pc := (sl_pc s)(t := At_read)\<rparr>)"
| lock_missed: "sl_pc s t = At_lock n \<Longrightarrow>
    spin_step iterCount t s (s\<lparr>sl_pc := (sl_pc s)(t := At_lock (next_spin n))\<rparr>)"
| counter_read: "sl_pc s t = At_read \<Longrightarrow>
    spin_step iterCount t s (s\<lparr>sl_pc := (sl_pc s)(t := At_write (sl_counter s))\<rparr>)"
| counter_written: "sl_pc s t = At_write v \<Longrightarrow>
    spin_step iterCount t s (s\<lparr>sl_counter := v + 1, sl_pc := (sl_pc s)(t := At_unlock)\<rparr>)"
| unlocked: "sl_pc s t = At_unlock \<Longrightarrow>
    spin_step iterCount t s (s\<lparr>sl_isLocked := False, sl_idx := (sl_idx s)(t := sl_idx s t + 1),
      sl_pc := (sl_pc s)(t := start_round iterCount (sl_idx s t + 1))\<rparr>)"

inductive spin_reachable :: "nat \<Rightarrow> nat \<Rightarrow> spin_state \<Rightarrow> bool" for threadsMax iterCount where
  start: "spin_reachable threadsMax iterCount (spin_start iterCount)"
| step: "spin_reachable threadsMax iterCount s \<Longrightarrow> t < threadsMax \<Longrightarrow> spin_step iterCount t s s' \<Longrightarrow>
    spin_reachable threadsMax iterCount s'"

inductive_cases spin_stepE: "spin_step iterCount t s s'"

section \<open>The invariant\<close>

definition in_critical :: "spin_state \<Rightarrow> nat \<Rightarrow> bool" where
  "in_critical s t = (case sl_pc s t of At_read \<Rightarrow> True | At_write _ \<Rightarrow> True | At_unlock \<Rightarrow> True | _ \<Rightarrow> False)"

text \<open>The increments a thread has written.\<close>

definition increments :: "spin_state \<Rightarrow> nat \<Rightarrow> nat" where
  "increments s t = sl_idx s t + (if sl_pc s t = At_unlock then 1 else 0)"

definition thread_ok :: "nat \<Rightarrow> spin_state \<Rightarrow> nat \<Rightarrow> bool" where
  "thread_ok iterCount s t =
     (case sl_pc s t of
        At_lock n \<Rightarrow> n \<le> 8 \<and> sl_idx s t < iterCount
      | At_read \<Rightarrow> sl_idx s t < iterCount
      | At_write v \<Rightarrow> sl_idx s t < iterCount \<and> v = sl_counter s
      | At_unlock \<Rightarrow> sl_idx s t < iterCount
      | At_end \<Rightarrow> sl_idx s t = iterCount)"

definition spin_inv :: "nat \<Rightarrow> nat \<Rightarrow> spin_state \<Rightarrow> bool" where
  "spin_inv threadsMax iterCount s \<longleftrightarrow>
     (\<forall>t t'. in_critical s t \<longrightarrow> in_critical s t' \<longrightarrow> t = t')
   \<and> (sl_isLocked s \<longleftrightarrow> (\<exists>t. in_critical s t)) \<and> (\<forall>t. thread_ok iterCount s t)
   \<and> sl_counter s = of_nat (\<Sum>t<threadsMax. increments s t)"

lemma sum_change_one:
  fixes f g :: "nat \<Rightarrow> nat"
  assumes "t < n" "\<And>i. i \<noteq> t \<Longrightarrow> g i = f i"
  shows "(\<Sum>i<n. g i) + f t = (\<Sum>i<n. f i) + g t"
proof -
  have "(\<Sum>i<n. g i) = g t + (\<Sum>i\<in>{..<n} - {t}. g i)" "(\<Sum>i<n. f i) = f t + (\<Sum>i\<in>{..<n} - {t}. f i)"
    using assms(1) by (simp_all add: sum.remove)
  moreover have "(\<Sum>i\<in>{..<n} - {t}. g i) = (\<Sum>i\<in>{..<n} - {t}. f i)" using assms(2) by (intro sum.cong) auto
  ultimately show ?thesis by simp
qed

lemma spin_inv_start: "spin_inv threadsMax iterCount (spin_start iterCount)"
  by (auto simp: spin_inv_def spin_start_def in_critical_def start_round_def thread_ok_def increments_def)

lemma spin_inv_step:
  assumes inv: "spin_inv threadsMax iterCount s" and t: "t < threadsMax" and step: "spin_step iterCount t s s'"
  shows "spin_inv threadsMax iterCount s'"
proof -
  have unique: "\<And>a b. in_critical s a \<Longrightarrow> in_critical s b \<Longrightarrow> a = b"
    and locked: "sl_isLocked s \<longleftrightarrow> (\<exists>t. in_critical s t)" and ok: "\<And>a. thread_ok iterCount s a"
    and counter: "sl_counter s = of_nat (\<Sum>i<threadsMax. increments s i)"
    using inv unfolding spin_inv_def by blast+
  have others: "sl_pc s' i = sl_pc s i \<and> sl_idx s' i = sl_idx s i" if "i \<noteq> t" for i
    using step that by (cases rule: spin_stepE) auto
  then have crit: "in_critical s' i = in_critical s i" "increments s' i = increments s i" if "i \<noteq> t" for i
    using that by (simp_all add: in_critical_def increments_def)
  have sum: "(\<Sum>i<threadsMax. increments s' i) + increments s t = (\<Sum>i<threadsMax. increments s i) + increments s' t"
    by (rule sum_change_one [OF t]) (rule crit(2))
  have same_sum: "sl_counter s' = of_nat (\<Sum>i<threadsMax. increments s' i)"
    if "increments s' t = increments s t" "sl_counter s' = sl_counter s"
    using sum counter unfolding that by (simp only: add_right_cancel)
  have keep: "spin_inv threadsMax iterCount s'"
    if c: "\<And>i. in_critical s' i = in_critical s i" "\<And>i. thread_ok iterCount s' i"
      "sl_counter s' = of_nat (\<Sum>i<threadsMax. increments s' i)" "sl_isLocked s' = sl_isLocked s"
  proof -
    have "sl_isLocked s' \<longleftrightarrow> (\<exists>t. in_critical s' t)" unfolding c(1,4) by (rule locked)
    moreover have "\<forall>a b. in_critical s' a \<longrightarrow> in_critical s' b \<longrightarrow> a = b" unfolding c(1) using unique by blast
    ultimately show ?thesis using c(2,3) unfolding spin_inv_def by blast
  qed
  have same_counter: "thread_ok iterCount s' i" if "i \<noteq> t" "sl_counter s' = sl_counter s" for i
    using ok [of i] others [OF that(1)] that(2) by (simp add: thread_ok_def split: spin_pc.splits)
  note okt = ok [of t, unfolded thread_ok_def]
  show ?thesis
    using step
  proof (cases rule: spin_step.cases)
    case (lock_taken n)
    then have free: "\<not> in_critical s i" for i using locked by blast
    have inside: "in_critical s' i \<longleftrightarrow> i = t" for i using crit(1) [of i] free [of i] lock_taken(1) by (cases "i = t") (auto simp: in_critical_def)
    have "thread_ok iterCount s' i" for i
      using same_counter [of i] okt lock_taken by (cases "i = t") (auto simp: thread_ok_def)
    moreover have "sl_counter s' = of_nat (\<Sum>i<threadsMax. increments s' i)"
      by (rule same_sum) (use lock_taken in \<open>simp_all add: increments_def\<close>)
    moreover have "sl_isLocked s'" by (simp add: lock_taken(1))
    moreover have "\<exists>i. in_critical s' i" using inside by blast
    ultimately show ?thesis unfolding spin_inv_def inside by blast
  next
    case (lock_missed n)
    then have "in_critical s' i = in_critical s i" for i using crit(1) [of i] by (cases "i = t") (auto simp: in_critical_def)
    moreover have "thread_ok iterCount s' i" for i
      using same_counter [of i] okt lock_missed by (cases "i = t") (auto simp: thread_ok_def next_spin_def)
    moreover have "sl_counter s' = of_nat (\<Sum>i<threadsMax. increments s' i)"
      by (rule same_sum) (use lock_missed in \<open>simp_all add: increments_def\<close>)
    ultimately show ?thesis by (rule keep) (simp add: lock_missed(1))
  next
    case counter_read
    then have "in_critical s' i = in_critical s i" for i using crit(1) [of i] by (cases "i = t") (auto simp: in_critical_def)
    moreover have "thread_ok iterCount s' i" for i
      using same_counter [of i] okt counter_read by (cases "i = t") (auto simp: thread_ok_def)
    moreover have "sl_counter s' = of_nat (\<Sum>i<threadsMax. increments s' i)"
      by (rule same_sum) (use counter_read in \<open>simp_all add: increments_def\<close>)
    ultimately show ?thesis by (rule keep) (simp add: counter_read(1))
  next
    case (counter_written v)
    then have same: "in_critical s' i = in_critical s i" for i using crit(1) [of i] by (cases "i = t") (auto simp: in_critical_def)
    have only: "i = t" if "in_critical s i" for i using unique [OF that, of t] counter_written(2) by (simp add: in_critical_def)
    have "thread_ok iterCount s' i" for i
    proof (cases "i = t")
      case True
      then show ?thesis using okt counter_written by (simp add: thread_ok_def)
    next
      case False
      then have "\<not> in_critical s i" using only by blast
      then show ?thesis using ok [of i] others [OF False] by (auto simp: thread_ok_def in_critical_def split: spin_pc.splits)
    qed
    moreover have "sl_counter s' = of_nat (\<Sum>i<threadsMax. increments s' i)"
    proof -
      have "v = sl_counter s" using okt counter_written(2) by simp
      moreover have "(\<Sum>i<threadsMax. increments s' i) = (\<Sum>i<threadsMax. increments s i) + 1"
      proof -
        have "increments s' t = increments s t + 1" using counter_written by (simp add: increments_def)
        with sum show ?thesis by linarith
      qed
      ultimately show ?thesis using counter counter_written(1) by (simp only:) simp
    qed
    ultimately show ?thesis by (rule keep [OF same]) (simp add: counter_written(1))
  next
    case unlocked
    have only: "i = t" if "in_critical s i" for i using unique [OF that, of t] unlocked(2) by (simp add: in_critical_def)
    have "\<not> in_critical s' i" for i
    proof (cases "i = t")
      case True
      then show ?thesis using unlocked(1) by (simp add: in_critical_def start_round_def)
    next
      case False
      then have "\<not> in_critical s i" using only by blast
      then show ?thesis by (simp add: crit(1) [OF False])
    qed
    moreover have "thread_ok iterCount s' i" for i
      using same_counter [of i] okt unlocked by (cases "i = t") (auto simp: thread_ok_def start_round_def)
    moreover have "sl_counter s' = of_nat (\<Sum>i<threadsMax. increments s' i)"
      by (rule same_sum) (use unlocked in \<open>simp_all add: increments_def start_round_def\<close>)
    moreover have "\<not> sl_isLocked s'" by (simp add: unlocked(1))
    ultimately show ?thesis unfolding spin_inv_def by blast
  qed
qed

lemma spin_reachable_inv: "spin_reachable threadsMax iterCount s \<Longrightarrow> spin_inv threadsMax iterCount s"
  by (induction rule: spin_reachable.induct) (blast intro: spin_inv_start spin_inv_step)+

section \<open>Properties\<close>

text \<open>However the threads interleave and however often the compare-and-exchange fails, two threads
  are never between \<open>lock\<close> and \<open>unlock\<close> together, the lock is taken exactly when one is, and the loop
  counter of \<open>lock\<close> stays at most 8.\<close>

theorem spin_lock_excludes:
  assumes "spin_reachable threadsMax iterCount s"
  shows "(in_critical s t \<and> in_critical s t' \<longrightarrow> t = t') \<and> (sl_isLocked s \<longleftrightarrow> (\<exists>t. in_critical s t))
     \<and> (sl_pc s t = At_lock n \<longrightarrow> n \<le> 8)"
proof -
  have "thread_ok iterCount s t" using spin_reachable_inv [OF assms] unfolding spin_inv_def by blast
  then have "sl_pc s t = At_lock n \<longrightarrow> n \<le> 8" by (auto simp: thread_ok_def)
  with spin_reachable_inv [OF assms] show ?thesis unfolding spin_inv_def by blast
qed

text \<open>No increment is lost: the plain counter is always the number of increments written, and when
  every thread has ended it is the number of threads times the rounds, in 64 bits.\<close>

theorem spin_lock_counts_exactly:
  assumes "spin_reachable threadsMax iterCount s"
  shows "sl_counter s = of_nat (\<Sum>t<threadsMax. increments s t)
     \<and> ((\<forall>t<threadsMax. sl_pc s t = At_end) \<longrightarrow> sl_counter s = of_nat (threadsMax * iterCount))"
proof -
  have counter: "sl_counter s = of_nat (\<Sum>t<threadsMax. increments s t)" and ok: "\<And>t. thread_ok iterCount s t"
    using spin_reachable_inv [OF assms] unfolding spin_inv_def by blast+
  have "(\<Sum>t<threadsMax. increments s t) = threadsMax * iterCount" if "\<forall>t<threadsMax. sl_pc s t = At_end"
  proof -
    have "increments s t = iterCount" if "t < threadsMax" for t
      using ok [of t] \<open>\<forall>t<threadsMax. sl_pc s t = At_end\<close> that by (simp add: thread_ok_def increments_def)
    then show ?thesis by simp
  qed
  then have "sl_counter s = of_nat (threadsMax * iterCount)" if "\<forall>t<threadsMax. sl_pc s t = At_end"
    using that counter by (simp only:)
  with counter show ?thesis by blast
qed

text \<open>A run of two threads: the second fails while the first is inside.\<close>

lemma spin_sample:
  "\<exists>s. spin_reachable 2 1 s \<and> in_critical s 0 \<and> sl_pc s 1 = At_lock 1"
proof -
  let ?s1 = "(spin_start 1)\<lparr>sl_isLocked := True, sl_pc := (sl_pc (spin_start 1))(0 := At_read)\<rparr>"
  have 1: "spin_reachable 2 1 ?s1"
    by (rule spin_reachable.step [OF spin_reachable.start, of 0], simp, rule spin_step.lock_taken [of _ _ 0])
      (simp_all add: spin_start_def start_round_def)
  let ?s2 = "?s1\<lparr>sl_pc := (sl_pc ?s1)(1 := At_lock (next_spin 0))\<rparr>"
  have "spin_reachable 2 1 ?s2"
    by (rule spin_reachable.step [OF 1, of 1], simp, rule spin_step.lock_missed [of _ _ 0])
      (simp_all add: spin_start_def start_round_def)
  then show ?thesis by (intro exI [of _ ?s2]) (simp add: in_critical_def next_spin_def)
qed

theorem spin_lock_excludes_witness: "\<exists>s. spin_reachable 2 1 s \<and> in_critical s 0 \<and> sl_isLocked s"
  using spin_sample spin_lock_excludes by blast

theorem spin_lock_counts_exactly_witness:
  "\<exists>s. spin_reachable 2 1 s \<and> in_critical s 0 \<and> sl_counter s = of_nat (\<Sum>t<2. increments s t)"
  using spin_sample spin_lock_counts_exactly by blast

end
