(* ===== verification/Overwriting_Rings.thy ===== *)
theory Overwriting_Rings
  imports Ring_Buffer
begin

text \<open>
  The rings of \<open>CommonModules\<close> that overwrite their oldest item instead of refusing a new one:
  \<open>ring_buffer_ex/RingBufferEx.cpp\<close> and the ring of the logger, \<open>logging/LowLatencyLogger.cpp\<close>. Both
  are compared with a queue that keeps its last items. They are operations of one thread here; the
  logger uses its ring from two.
\<close>

section \<open>A queue that drops its oldest items\<close>

definition queue_put :: "nat \<Rightarrow> 'a \<Rightarrow> 'a list \<Rightarrow> 'a list" where
  "queue_put n v q = (if length q = n then tl q @ [v] else q @ [v])"

definition queue_get :: "'a list \<Rightarrow> ('a \<times> 'a list) option" where
  "queue_get q = (case q of [] \<Rightarrow> None | x # r \<Rightarrow> Some (x, r))"

datatype 'a drop_op = Drop_put 'a | Drop_get

section \<open>RingBufferEx\<close>

record 'a drop_ring =
  dr_buffer :: "'a list"
  dr_idxWrite :: u32
  dr_idxRead :: u32
  dr_full :: bool

definition new_drop_ring :: "u32 \<Rightarrow> 'a \<Rightarrow> 'a drop_ring" where
  "new_drop_ring C d = \<lparr>dr_buffer = replicate (unat C) d, dr_idxWrite = 0, dr_idxRead = 0, dr_full = False\<rparr>"

definition drop_empty :: "'a drop_ring \<Rightarrow> bool" where
  "drop_empty r \<longleftrightarrow> \<not> dr_full r \<and> dr_idxWrite r = dr_idxRead r"

definition drop_put :: "u32 \<Rightarrow> 'a \<Rightarrow> 'a drop_ring \<Rightarrow> 'a drop_ring option" where
  "drop_put C value r =
    (if unat (dr_idxWrite r) < length (dr_buffer r)
     then (let r1 = r\<lparr>dr_buffer := (dr_buffer r)[unat (dr_idxWrite r) := value]\<rparr>;
               r2 = (if dr_full r1 then r1\<lparr>dr_idxRead := fast_modulo (dr_idxRead r1 + 1) C\<rparr> else r1);
               r3 = r2\<lparr>dr_idxWrite := fast_modulo (dr_idxWrite r2 + 1) C\<rparr>
           in Some (r3\<lparr>dr_full := (dr_idxWrite r3 = dr_idxRead r3)\<rparr>))
     else None)"

definition drop_get :: "u32 \<Rightarrow> 'a drop_ring \<Rightarrow> ('a option \<times> 'a drop_ring) option" where
  "drop_get C r =
    (if drop_empty r then Some (None, r)
     else if unat (dr_idxRead r) < length (dr_buffer r)
     then Some (Some (dr_buffer r ! unat (dr_idxRead r)),
                r\<lparr>dr_full := False, dr_idxRead := fast_modulo (dr_idxRead r + 1) C\<rparr>)
     else None)"

text \<open>The items held: \<open>c\<close> of them from slot \<open>t\<close> on.\<close>

definition held :: "'a list \<Rightarrow> nat \<Rightarrow> nat \<Rightarrow> 'a list" where
  "held b t c = map (\<lambda>i. b ! ((t + i) mod length b)) [0..<c]"

definition drop_holds :: "u32 \<Rightarrow> 'a drop_ring \<Rightarrow> 'a list \<Rightarrow> bool" where
  "drop_holds C r q \<longleftrightarrow>
     is_pow_of_2 C \<and> length (dr_buffer r) = unat C \<and> unat (dr_idxRead r) < unat C \<and> length q \<le> unat C
   \<and> unat (dr_idxWrite r) = (unat (dr_idxRead r) + length q) mod unat C
   \<and> (dr_full r \<longleftrightarrow> length q = unat C) \<and> q = held (dr_buffer r) (unat (dr_idxRead r)) (length q)"

lemma pow_pos: "is_pow_of_2 C \<Longrightarrow> 0 < unat C"
  by (auto simp: is_pow_of_2_def unat_gt_0)

lemma length_held [simp]: "length (held b t c) = c"
  by (simp add: held_def)

lemma held_0 [simp]: "held b t 0 = []"
  by (simp add: held_def)

lemma held_Suc: "held b t (Suc c) = held b t c @ [b ! ((t + c) mod length b)]"
  by (simp add: held_def)

lemma held_Cons: "held b t (Suc c) = b ! (t mod length b) # held b (Suc t) c"
  by (simp add: held_def upt_conv_Cons map_Suc_upt [symmetric] comp_def del: upt_Suc)

lemma held_mod: "held b (t mod length b) c = held b t c"
  by (simp add: held_def mod_add_left_eq)

lemma held_update:
  assumes "\<And>i. i < c \<Longrightarrow> (t + i) mod length b \<noteq> p"
  shows "held (b[p := v]) t c = held b t c"
proof -
  have "b[p := v] ! ((t + i) mod length b) = b ! ((t + i) mod length b)" if "i < c" for i
    using assms [OF that] by (intro nth_list_update_neq) simp
  then show ?thesis unfolding held_def by (intro map_cong) auto
qed

lemma mod_offset_le:
  assumes "(t + i) mod n = (t + j) mod n" "j < n" "i \<le> j"
  shows "i = (j :: nat)"
proof -
  have "n dvd (t + j) - (t + i)"
    using assms by (metis add_le_cancel_left mod_eq_dvd_iff_nat)
  then have "n dvd j - i" by simp
  with assms show ?thesis by (metis dvd_imp_le le_antisym less_imp_diff_less linorder_not_le not_gr_zero diff_is_0_eq)
qed

lemma mod_offset_inj: "(t + i) mod n = (t + j) mod n \<Longrightarrow> i < n \<Longrightarrow> j < n \<Longrightarrow> i = (j :: nat)"
  by (cases "i \<le> j") (auto dest: mod_offset_le mod_offset_le [OF sym])

lemma mod_offset_round: "t < n \<Longrightarrow> c < n \<Longrightarrow> (t + Suc c) mod n = t \<longleftrightarrow> Suc c = (n :: nat)"
  using mod_offset_inj [of t "Suc c" n 0] by (cases "Suc c = n") auto

lemma unat_next: "is_pow_of_2 C \<Longrightarrow> unat i < unat C \<Longrightarrow> unat (fast_modulo (i + 1) C) = Suc (unat i) mod unat C"
  by (simp add: fast_modulo_next next_index_def)

subsection \<open>Each operation is one of the queue\<close>

lemma drop_holdsD:
  assumes "drop_holds C r q"
  shows "is_pow_of_2 C" "length (dr_buffer r) = unat C" "unat (dr_idxRead r) < unat C" "length q \<le> unat C"
    "unat (dr_idxWrite r) = (unat (dr_idxRead r) + length q) mod unat C" "dr_full r \<longleftrightarrow> length q = unat C"
    "q = held (dr_buffer r) (unat (dr_idxRead r)) (length q)" "0 < unat C"
  using assms pow_pos by (auto simp: drop_holds_def)

lemma new_drop_ring_holds: "is_pow_of_2 C \<Longrightarrow> drop_holds C (new_drop_ring C d) []"
  by (auto simp: drop_holds_def new_drop_ring_def pow_pos dest: pow_pos)

lemma drop_write_slot: "drop_holds C r q \<Longrightarrow> unat (dr_idxWrite r) < unat C"
  using drop_holdsD [of C r q] by simp

lemma held_put:
  assumes "length b = n" "c < n" "0 < n"
  shows "held (b[(t + c) mod n := v]) t (Suc c) = held b t c @ [v]"
proof -
  have "held (b[(t + c) mod n := v]) t c = held b t c"
  proof (rule held_update)
    fix i assume "i < c"
    then show "(t + i) mod length b \<noteq> (t + c) mod n" using assms mod_offset_inj [of t i n c] by auto
  qed
  then show ?thesis using assms by (simp add: held_Suc)
qed

lemma drop_put_room:
  assumes "drop_holds C r q" "length q < unat C"
  shows "\<exists>r'. drop_put C v r = Some r' \<and> drop_holds C r' (q @ [v])"
proof -
  note d = drop_holdsD [OF assms(1)]
  have slot: "unat (dr_idxWrite r) < unat C" by (rule drop_write_slot [OF assms(1)])
  have nf: "\<not> dr_full r" using d(6) assms(2) by simp
  let ?w = "fast_modulo (dr_idxWrite r + 1) C"
  let ?r = "r\<lparr>dr_buffer := (dr_buffer r)[unat (dr_idxWrite r) := v], dr_idxWrite := ?w,
              dr_full := (?w = dr_idxRead r)\<rparr>"
  have uw: "unat ?w = (unat (dr_idxRead r) + Suc (length q)) mod unat C"
    using unat_next [OF d(1) slot] d(5) by (simp add: mod_Suc_eq)
  have full: "?w = dr_idxRead r \<longleftrightarrow> Suc (length q) = unat C"
    using mod_offset_round [OF d(3) assms(2)] uw by (simp add: word_unat_eq_iff)
  have q: "q @ [v] = held ((dr_buffer r)[unat (dr_idxWrite r) := v]) (unat (dr_idxRead r)) (Suc (length q))"
    using held_put [OF d(2) assms(2) d(8), of "unat (dr_idxRead r)" v] d(5,7) by simp
  have "drop_put C v r = Some ?r" using slot nf d(2) by (simp add: drop_put_def Let_def)
  moreover have "drop_holds C ?r (q @ [v])"
    unfolding drop_holds_def using d assms(2) uw full q by simp
  ultimately show ?thesis by blast
qed

lemma drop_put_full:
  assumes "drop_holds C r q" "length q = unat C"
  shows "\<exists>r'. drop_put C v r = Some r' \<and> drop_holds C r' (tl q @ [v])"
proof -
  note d = drop_holdsD [OF assms(1)]
  obtain m where m: "unat C = Suc m" using d(8) gr0_implies_Suc by blast
  have same: "dr_idxWrite r = dr_idxRead r" using d(3,5) assms(2) by (simp add: word_unat_eq_iff)
  let ?t = "unat (dr_idxRead r)" and ?w = "fast_modulo (dr_idxRead r + 1) C"
  let ?b = "(dr_buffer r)[?t := v]"
  let ?r = "r\<lparr>dr_buffer := ?b, dr_idxRead := ?w, dr_idxWrite := ?w, dr_full := True\<rparr>"
  have uw: "unat ?w = Suc ?t mod unat C" by (rule unat_next [OF d(1,3)])
  have "q = held (dr_buffer r) ?t (Suc m)" using d(7) assms(2) m by simp
  then have tail: "tl q = held (dr_buffer r) (Suc ?t) m" by (simp add: held_Cons)
  have "Suc ?t + m = ?t + unat C" using m by simp
  then have wrap: "(Suc ?t + m) mod unat C = ?t" using d(3) by (metis mod_add_self2 mod_less)
  have "held ?b (Suc ?t) (Suc m) = tl q @ [v]"
    using held_put [of "dr_buffer r" "unat C" m "Suc ?t" v] d(2,8) m wrap tail by simp
  then have q: "held ?b (unat ?w) (Suc m) = tl q @ [v]"
    using held_mod [of ?b "Suc ?t" "Suc m"] uw d(2) by simp
  have "drop_put C v r = Some ?r"
    using d same assms(2) by (simp add: drop_put_def Let_def)
  moreover have "drop_holds C ?r (tl q @ [v])"
    unfolding drop_holds_def
  proof (intro conjI)
    have "length (tl q @ [v]) = unat C" using assms(2) m by simp
    then show "unat (dr_idxWrite ?r) = (unat (dr_idxRead ?r) + length (tl q @ [v])) mod unat C"
      using uw by (simp del: length_append)
  qed (use d m uw q assms(2) in simp_all)
  ultimately show ?thesis by blast
qed

lemma drop_put_refines:
  assumes "drop_holds C r q"
  shows "\<exists>r'. drop_put C v r = Some r' \<and> drop_holds C r' (queue_put (unat C) v q)"
  using drop_put_room [OF assms] drop_put_full [OF assms] drop_holdsD(4) [OF assms]
  by (cases "length q = unat C") (auto simp: queue_put_def)

lemma drop_empty_iff:
  assumes "drop_holds C r q"
  shows "drop_empty r \<longleftrightarrow> q = []"
proof -
  note d = drop_holdsD [OF assms]
  have "unat (dr_idxWrite r) = unat (dr_idxRead r) \<longleftrightarrow> length q = 0" if "length q < unat C"
    using mod_offset_inj [of "unat (dr_idxRead r)" "length q" "unat C" 0] d(3,5,8) that by auto
  moreover have "q \<noteq> []" if "length q = unat C" using d(8) that by auto
  ultimately show ?thesis using d(4,6) by (cases "length q = unat C") (auto simp: drop_empty_def word_unat_eq_iff)
qed

lemma drop_get_refines:
  assumes "drop_holds C r q"
  shows "\<exists>r'. drop_get C r = Some (map_option fst (queue_get q), r')
    \<and> drop_holds C r' (case queue_get q of None \<Rightarrow> q | Some (_, rest) \<Rightarrow> rest)"
proof (cases q)
  case Nil
  then show ?thesis using assms drop_empty_iff [OF assms] by (simp add: drop_get_def queue_get_def)
next
  case (Cons x rest)
  note d = drop_holdsD [OF assms]
  let ?t = "unat (dr_idxRead r)" and ?w = "fast_modulo (dr_idxRead r + 1) C"
  have uw: "unat ?w = Suc ?t mod unat C" by (rule unat_next [OF d(1,3)])
  have h: "x = dr_buffer r ! ?t" "rest = held (dr_buffer r) (Suc ?t) (length rest)"
    using d(2,3,7) Cons by (simp_all add: held_Cons)
  let ?r = "r\<lparr>dr_full := False, dr_idxRead := ?w\<rparr>"
  have "drop_get C r = Some (Some x, ?r)"
    using Cons h(1) d(2,3) drop_empty_iff [OF assms] by (simp add: drop_get_def)
  moreover have "drop_holds C ?r rest"
    unfolding drop_holds_def
    using d Cons uw h(2) held_mod [of "dr_buffer r" "Suc ?t" "length rest"] by (simp add: mod_add_left_eq)
  ultimately show ?thesis using Cons by (simp add: queue_get_def)
qed

subsection \<open>Every run\<close>

fun drop_run :: "u32 \<Rightarrow> 'a drop_op list \<Rightarrow> 'a drop_ring \<Rightarrow> ('a option list \<times> 'a drop_ring) option" where
  "drop_run C [] r = Some ([], r)"
| "drop_run C (Drop_put v # ops) r = Option.bind (drop_put C v r) (drop_run C ops)"
| "drop_run C (Drop_get # ops) r =
    Option.bind (drop_get C r) (\<lambda>(x, r'). map_option (\<lambda>(xs, r''). (x # xs, r'')) (drop_run C ops r'))"

fun drop_queue_run :: "nat \<Rightarrow> 'a drop_op list \<Rightarrow> 'a list \<Rightarrow> 'a option list \<times> 'a list" where
  "drop_queue_run n [] q = ([], q)"
| "drop_queue_run n (Drop_put v # ops) q = drop_queue_run n ops (queue_put n v q)"
| "drop_queue_run n (Drop_get # ops) q =
    (case queue_get q of
       None \<Rightarrow> (let (xs, q') = drop_queue_run n ops q in (None # xs, q'))
     | Some (x, rest) \<Rightarrow> (let (xs, q') = drop_queue_run n ops rest in (Some x # xs, q')))"

lemma drop_run_refines:
  assumes "drop_holds C r q"
  shows "\<exists>r'. drop_run C ops r = Some (fst (drop_queue_run (unat C) ops q), r')
    \<and> drop_holds C r' (snd (drop_queue_run (unat C) ops q))"
  using assms
proof (induction ops arbitrary: r q)
  case Nil
  then show ?case by simp
next
  case (Cons op ops)
  show ?case
  proof (cases op)
    case (Drop_put v)
    then show ?thesis using drop_put_refines [OF Cons.prems, of v] Cons.IH by fastforce
  next
    case Drop_get
    obtain r' where r': "drop_get C r = Some (map_option fst (queue_get q), r')"
      "drop_holds C r' (case queue_get q of None \<Rightarrow> q | Some (_, rest) \<Rightarrow> rest)"
      using drop_get_refines [OF Cons.prems] by blast
    then show ?thesis using Cons.IH [OF r'(2)] Drop_get
      by (auto simp: split_beta split: option.splits)
  qed
qed

text \<open>
  C38. \<open>RingBufferEx\<close> drops its oldest item when it is full and never refuses one: from a new ring of
  a capacity that is a power of two, every sequence of \<open>put\<close> and \<open>get\<close> runs inside the buffer and
  returns exactly what a queue that keeps its last \<open>Capacity\<close> items returns, in the same order.
\<close>

theorem ring_keeps_its_last_items:
  "is_pow_of_2 C \<Longrightarrow>
     map_option fst (drop_run C ops (new_drop_ring C d)) = Some (fst (drop_queue_run (unat C) ops []))"
  using drop_run_refines [OF new_drop_ring_holds [of C d], of ops] by auto

theorem ring_keeps_its_last_items_witness:
  "is_pow_of_2 4 \<and> map_option fst (drop_run 4 [Drop_put 1, Drop_put 2, Drop_put 3, Drop_put 4, Drop_put 5,
       Drop_get, Drop_put 6, Drop_put 7, Drop_get, Drop_get, Drop_get, Drop_get, Drop_get] (new_drop_ring 4 (0 :: nat)))
   = Some [Some 2, Some 4, Some 5, Some 6, Some 7, None]"
proof -
  have c: "is_pow_of_2 4" by (simp add: is_pow_of_2_def)
  show ?thesis
    using c ring_keeps_its_last_items [OF c, of "[Drop_put 1, Drop_put 2, Drop_put 3, Drop_put 4, Drop_put 5,
       Drop_get, Drop_put 6, Drop_put 7, Drop_get, Drop_get, Drop_get, Drop_get, Drop_get]" "0 :: nat"]
    by (simp add: queue_put_def queue_get_def)
qed

end
