(* ===== verification/Logger_Ring.thy ===== *)
theory Logger_Ring
  imports Overwriting_Rings
begin

text \<open>
  The ring in which a thread keeps its log entries, \<open>CommonModules/logging/LowLatencyLogger.cpp\<close>: it
  marks a wrapped writer by a flag instead of a count. One thread puts and another gets; the
  operations are taken as single steps here, which the code does not ensure: \<open>Logger_Race\<close> has their
  atomic accesses, of which these are the uninterrupted calls. Indices never pass the size of a ring, so
  they are natural numbers.
\<close>

section \<open>The ring of a thread\<close>

record 'a log_ring =
  lr_idxRead :: nat
  lr_idxWrite :: nat
  lr_overflow :: bool
  lr_buffer :: "'a list"

definition new_log_ring :: "nat \<Rightarrow> 'a \<Rightarrow> 'a log_ring" where
  "new_log_ring n d = \<lparr>lr_idxRead = 0, lr_idxWrite = 0, lr_overflow = False, lr_buffer = replicate n d\<rparr>"

definition log_put :: "'a \<Rightarrow> 'a log_ring \<Rightarrow> 'a log_ring option" where
  "log_put v r =
    (let r1 = (if lr_idxWrite r = length (lr_buffer r) then r\<lparr>lr_idxWrite := 0, lr_overflow := True\<rparr> else r);
         r2 = (if lr_overflow r1 \<and> lr_idxWrite r1 = lr_idxRead r1
               then r1\<lparr>lr_idxRead := lr_idxRead r1 + 1\<rparr> else r1)
     in if lr_idxWrite r2 < length (lr_buffer r2)
        then Some (r2\<lparr>lr_buffer := (lr_buffer r2)[lr_idxWrite r2 := v], lr_idxWrite := lr_idxWrite r2 + 1\<rparr>)
        else None)"

definition log_get :: "'a log_ring \<Rightarrow> ('a option \<times> 'a log_ring) option" where
  "log_get r =
    (if \<not> lr_overflow r \<and> lr_idxWrite r = lr_idxRead r then Some (None, r)
     else let r1 = (if lr_idxRead r = length (lr_buffer r)
                    then r\<lparr>lr_idxRead := 0, lr_overflow := False\<rparr> else r)
          in if lr_idxRead r1 < length (lr_buffer r1)
             then Some (Some (lr_buffer r1 ! lr_idxRead r1), r1\<lparr>lr_idxRead := lr_idxRead r1 + 1\<rparr>)
             else None)"

text \<open>The entries a ring holds, and its invariant.\<close>

definition log_pending :: "'a log_ring \<Rightarrow> 'a list" where
  "log_pending r =
    (if lr_overflow r then drop (lr_idxRead r) (lr_buffer r) @ take (lr_idxWrite r) (lr_buffer r)
     else drop (lr_idxRead r) (take (lr_idxWrite r) (lr_buffer r)))"

definition log_ok :: "nat \<Rightarrow> 'a log_ring \<Rightarrow> bool" where
  "log_ok N r \<longleftrightarrow> 0 < N \<and> length (lr_buffer r) = N
    \<and> (if lr_overflow r then 1 \<le> lr_idxWrite r \<and> lr_idxWrite r \<le> lr_idxRead r \<and> lr_idxRead r \<le> N
       else lr_idxRead r \<le> lr_idxWrite r \<and> lr_idxWrite r \<le> N)"

lemma new_log_ring_ok [simp]: "log_ok N (new_log_ring N d) \<longleftrightarrow> 0 < N"
  by (simp add: log_ok_def new_log_ring_def)

lemma new_log_ring_pending [simp]: "log_pending (new_log_ring N d) = []"
  by (simp add: log_pending_def new_log_ring_def)

lemma log_pending_length: "log_ok N r \<Longrightarrow> length (log_pending r) \<le> N"
  by (auto simp: log_ok_def log_pending_def split: if_splits)

lemma take_update_Suc: "w < length b \<Longrightarrow> take (Suc w) (b[w := v]) = take w b @ [v]"
  by (simp add: take_Suc_conv_app_nth)

lemma tl_update_0 [simp]: "tl (b[0 := v]) = tl b"
  by (cases b) simp_all

lemma tl_drop_Suc: "tl (drop w b) = drop (Suc w) b"
  by (simp add: drop_Suc tl_drop)

lemma log_put_plain:
  assumes "log_ok N r" "\<not> lr_overflow r" "lr_idxWrite r < N"
  shows "\<exists>r'. log_put v r = Some r' \<and> log_ok N r' \<and> log_pending r' = log_pending r @ [v]"
  using assms by (auto simp: log_put_def log_ok_def log_pending_def Let_def take_update_Suc)

lemma log_put_wrap:
  assumes "log_ok N r" "\<not> lr_overflow r" "lr_idxWrite r = N"
  shows "\<exists>r'. log_put v r = Some r' \<and> log_ok N r' \<and> log_pending r' = queue_put N v (log_pending r)"
proof (cases "lr_idxRead r")
  case 0
  with assms show ?thesis
    by (auto simp: log_put_def log_ok_def log_pending_def Let_def queue_put_def take_Suc_conv_app_nth drop_Suc)
next
  case (Suc k)
  with assms show ?thesis
    by (auto simp: log_put_def log_ok_def log_pending_def Let_def queue_put_def take_Suc_conv_app_nth)
qed

lemma log_put_over:
  assumes "log_ok N r" "lr_overflow r" "lr_idxWrite r < N"
  shows "\<exists>r'. log_put v r = Some r' \<and> log_ok N r' \<and> log_pending r' = queue_put N v (log_pending r)"
proof (cases "lr_idxWrite r = lr_idxRead r")
  case True
  with assms show ?thesis
    by (auto simp: log_put_def log_ok_def log_pending_def Let_def queue_put_def take_update_Suc tl_append2 tl_drop_Suc)
next
  case False
  with assms show ?thesis
    by (auto simp: log_put_def log_ok_def log_pending_def Let_def queue_put_def take_update_Suc)
qed

text \<open>The ring full at the end of its buffer: all the entries held are forgotten.\<close>

lemma log_put_forgets:
  assumes "log_ok N r" "lr_overflow r" "lr_idxWrite r = N"
  shows "\<exists>r'. log_put v r = Some r' \<and> log_ok N r' \<and> log_pending r' = [v]"
  using assms by (auto simp: log_put_def log_ok_def log_pending_def Let_def take_Suc_conv_app_nth)

lemma log_put_room:
  assumes "log_ok N r" "length (log_pending r) < N"
  shows "\<exists>r'. log_put v r = Some r' \<and> log_ok N r' \<and> log_pending r' = log_pending r @ [v]"
proof -
  have "\<not> (lr_overflow r \<and> lr_idxWrite r = N)"
    using assms by (auto simp: log_ok_def log_pending_def)
  moreover have "lr_idxWrite r \<le> N" using assms(1) by (auto simp: log_ok_def split: if_splits)
  ultimately show ?thesis
    using log_put_plain [OF assms(1)] log_put_wrap [OF assms(1)] log_put_over [OF assms(1)] assms(2)
    by (cases "lr_idxWrite r = N"; cases "lr_overflow r") (auto simp: queue_put_def)
qed

lemma log_get_none: "log_ok N r \<Longrightarrow> log_pending r = [] \<Longrightarrow> log_get r = Some (None, r)"
  by (auto simp: log_get_def log_ok_def log_pending_def split: if_splits)

lemma drop_nth: "k < length b \<Longrightarrow> drop k b = b ! k # drop (Suc k) b"
  by (rule Cons_nth_drop_Suc [symmetric])

lemma drop_take_nth: "k < w \<Longrightarrow> w \<le> length b \<Longrightarrow> drop k (take w b) = b ! k # drop (Suc k) (take w b)"
  using drop_nth [of k "take w b"] by simp

lemma take_nth_0: "1 \<le> w \<Longrightarrow> w \<le> length b \<Longrightarrow> take w b = b ! 0 # drop 1 (take w b)"
  using drop_take_nth [of 0 w b] by simp

lemma log_get_some:
  assumes ok: "log_ok N r" and p: "log_pending r = v # q"
  shows "\<exists>r'. log_get r = Some (Some v, r') \<and> log_ok N r' \<and> log_pending r' = q"
proof -
  consider (last) "lr_overflow r" "lr_idxRead r = N" | (over) "lr_overflow r" "lr_idxRead r < N"
    | (plain) "\<not> lr_overflow r"
    using ok by (cases "lr_idxRead r = N") (auto simp: log_ok_def split: if_splits)
  then show ?thesis
  proof cases
    case last
    then have "log_pending r = take (lr_idxWrite r) (lr_buffer r)" using ok by (simp add: log_pending_def log_ok_def)
    with p last ok take_nth_0 [of "lr_idxWrite r" "lr_buffer r"]
    have "v = lr_buffer r ! 0" "q = drop 1 (take (lr_idxWrite r) (lr_buffer r))" by (auto simp: log_ok_def)
    with last ok show ?thesis by (auto simp: log_get_def log_ok_def log_pending_def Let_def)
  next
    case over
    with p ok drop_nth [of "lr_idxRead r" "lr_buffer r"]
    have "v = lr_buffer r ! lr_idxRead r" "q = drop (Suc (lr_idxRead r)) (lr_buffer r) @ take (lr_idxWrite r) (lr_buffer r)"
      by (auto simp: log_ok_def log_pending_def)
    with over ok show ?thesis by (auto simp: log_get_def log_ok_def log_pending_def Let_def)
  next
    case plain
    have lt: "lr_idxRead r < lr_idxWrite r" using p plain ok by (auto simp: log_ok_def log_pending_def intro: ccontr)
    with p plain ok drop_take_nth [of "lr_idxRead r" "lr_idxWrite r" "lr_buffer r"]
    have "v = lr_buffer r ! lr_idxRead r" "q = drop (Suc (lr_idxRead r)) (take (lr_idxWrite r) (lr_buffer r))"
      by (auto simp: log_ok_def log_pending_def)
    with lt plain ok show ?thesis by (auto simp: log_get_def log_ok_def log_pending_def Let_def)
  qed
qed

subsection \<open>Runs of a ring\<close>

fun log_run :: "'a drop_op list \<Rightarrow> 'a log_ring \<Rightarrow> ('a option list \<times> 'a log_ring) option" where
  "log_run [] r = Some ([], r)"
| "log_run (Drop_put v # ops) r = Option.bind (log_put v r) (log_run ops)"
| "log_run (Drop_get # ops) r =
    Option.bind (log_get r) (\<lambda>(x, r'). map_option (\<lambda>(xs, r''). (x # xs, r'')) (log_run ops r'))"

text \<open>Every entry is put while fewer than \<open>N\<close> are held.\<close>

fun puts_fit :: "nat \<Rightarrow> 'a drop_op list \<Rightarrow> nat \<Rightarrow> bool" where
  "puts_fit N [] k \<longleftrightarrow> True"
| "puts_fit N (Drop_put v # ops) k \<longleftrightarrow> k < N \<and> puts_fit N ops (k + 1)"
| "puts_fit N (Drop_get # ops) k \<longleftrightarrow> puts_fit N ops (k - 1)"

lemma log_run_fifo:
  "log_ok N r \<Longrightarrow> puts_fit N ops (length (log_pending r)) \<Longrightarrow>
     \<exists>r'. log_run ops r = Some (fst (drop_queue_run N ops (log_pending r)), r')"
proof (induction ops arbitrary: r)
  case Nil
  then show ?case by simp
next
  case (Cons op ops)
  show ?case
  proof (cases op)
    case (Drop_put v)
    then obtain r' where r': "log_put v r = Some r'" "log_ok N r'" "log_pending r' = log_pending r @ [v]"
      using log_put_room [OF Cons.prems(1)] Cons.prems(2) by fastforce
    with Cons.IH [OF r'(2)] Cons.prems(2) Drop_put show ?thesis by (auto simp: queue_put_def)
  next
    case Drop_get
    show ?thesis
    proof (cases "log_pending r")
      case Nil
      with log_get_none [OF Cons.prems(1) Nil] Cons.IH [OF Cons.prems(1)] Cons.prems(2) Drop_get
      show ?thesis by (auto simp: queue_get_def split_beta)
    next
      case q: (Cons v q)
      then obtain r' where r': "log_get r = Some (Some v, r')" "log_ok N r'" "log_pending r' = q"
        using log_get_some [OF Cons.prems(1)] by blast
      with Cons.IH [OF r'(2)] Cons.prems(2) Drop_get q show ?thesis by (auto simp: queue_get_def split_beta)
    qed
  qed
qed

text \<open>
  While it has room, the logger's ring is a queue: every sequence of \<open>put\<close> and \<open>get\<close> in which an
  entry is put only while fewer than \<open>N\<close> are held stays inside the buffer and returns the entries in
  the order in which they were put, none lost and none twice.
\<close>

theorem log_ring_is_fifo_with_room:
  "0 < N \<Longrightarrow> puts_fit N ops 0 \<Longrightarrow>
     map_option fst (log_run ops (new_log_ring N d)) = Some (fst (drop_queue_run N ops []))"
  using log_run_fifo [of N "new_log_ring N d" ops] by auto

theorem log_ring_is_fifo_with_room_witness:
  "map_option fst (log_run [Drop_put 1, Drop_put 2, Drop_get, Drop_put 3, Drop_get, Drop_get, Drop_get]
     (new_log_ring 2 (0 :: nat))) = Some [Some 1, Some 2, Some 3, None]"
  using log_ring_is_fifo_with_room [of 2 "[Drop_put 1, Drop_put 2, Drop_get, Drop_put 3, Drop_get, Drop_get, Drop_get]" "0 :: nat"]
  by (simp add: queue_put_def queue_get_def)

text \<open>Only puts: after \<open>j\<close> rounds and \<open>i\<close> puts of the next.\<close>

definition filled :: "nat \<Rightarrow> nat \<Rightarrow> nat \<Rightarrow> 'a log_ring \<Rightarrow> bool" where
  "filled N j i r \<longleftrightarrow> length (lr_buffer r) = N \<and> 1 \<le> i \<and> i \<le> N \<and> lr_idxWrite r = i
    \<and> (lr_overflow r \<longleftrightarrow> 0 < j) \<and> lr_idxRead r = (if j = 0 then 0 else if j = 1 then i else N)"

lemma filled_ok: "filled N j i r \<Longrightarrow> log_ok N r"
  by (auto simp: filled_def log_ok_def)

lemma filled_put:
  assumes "filled N j i r" "i < N"
  shows "\<exists>r'. log_put v r = Some r' \<and> filled N j (Suc i) r'"
  using assms by (auto simp: filled_def log_put_def Let_def)

lemma filled_round:
  assumes "filled N j N r"
  shows "\<exists>r'. log_put v r = Some r' \<and> filled N (Suc j) 1 r'"
  using assms by (auto simp: filled_def log_put_def Let_def)

lemma filled_puts:
  "filled N j i r \<Longrightarrow> i + length vs = N \<Longrightarrow> \<exists>r'. log_run (map Drop_put vs) r = Some ([], r') \<and> filled N j N r'"
proof (induction vs arbitrary: i r)
  case (Cons v vs)
  then obtain r' where "log_put v r = Some r'" "filled N j (Suc i) r'" using filled_put by fastforce
  with Cons.IH [of "Suc i" r'] Cons.prems(2) show ?case by auto
qed simp

lemma filled_next_round:
  assumes "filled N j N r" "length vs = N" "0 < N"
  shows "\<exists>r'. log_run (map Drop_put vs) r = Some ([], r') \<and> filled N (Suc j) N r'"
proof (cases vs)
  case (Cons v vs')
  then obtain r' where "log_put v r = Some r'" "filled N (Suc j) 1 r'" using filled_round [OF assms(1)] by blast
  with filled_puts [of N "Suc j" 1 r' vs'] Cons assms(2) show ?thesis by auto
qed (use assms in simp)

lemma log_run_append:
  "log_run (map Drop_put vs @ ops) r = Option.bind (log_run (map Drop_put vs) r) (\<lambda>(_, r'). log_run ops r')"
  by (induction vs arbitrary: r) (auto split: Option.bind_splits)

lemma filled_rounds:
  "filled N j N r \<Longrightarrow> length vs = k * N \<Longrightarrow> 0 < N \<Longrightarrow>
     \<exists>r'. log_run (map Drop_put vs) r = Some ([], r') \<and> filled N (j + k) N r'"
proof (induction k arbitrary: j r vs)
  case (Suc k)
  then obtain r' where r': "log_run (map Drop_put (take N vs)) r = Some ([], r')" "filled N (Suc j) N r'"
    using filled_next_round [OF Suc.prems(1), of "take N vs"] by auto
  have "log_run (map Drop_put vs) r = log_run (map Drop_put (drop N vs)) r'"
    using log_run_append [of "take N vs" "map Drop_put (drop N vs)" r] r'(1)
    by (simp flip: map_append)
  with Suc.IH [OF r'(2), of "drop N vs"] Suc.prems show ?case by simp
qed simp

lemma filled_first:
  assumes "length vs = N" "0 < N"
  shows "\<exists>r'. log_run (map Drop_put vs) (new_log_ring N d) = Some ([], r') \<and> filled N 0 N r'"
proof (cases vs)
  case (Cons v vs')
  have "\<exists>r'. log_put v (new_log_ring N d) = Some r' \<and> filled N 0 1 r'"
    using assms(2) by (auto simp: log_put_def new_log_ring_def filled_def Let_def)
  then obtain r' where "log_put v (new_log_ring N d) = Some r'" "filled N 0 1 r'" by blast
  with filled_puts [of N 0 1 r' vs'] Cons assms(1) show ?thesis by auto
qed (use assms in simp)

text \<open>
  The ring does not keep its last entries: when two or more whole rounds have been put and none
  taken, the next \<open>put\<close> finds both indices at the end of the buffer and forgets all \<open>N\<close> entries that
  were held; only the new one is left.
\<close>

theorem log_ring_forgets_a_full_buffer:
  assumes "0 < N" "2 \<le> k" "length vs = k * N"
  shows "\<exists>r r'. log_run (map Drop_put vs) (new_log_ring N d) = Some ([], r) \<and> length (log_pending r) = N
    \<and> log_put v r = Some r' \<and> log_pending r' = [v]"
proof -
  obtain r1 where r1: "log_run (map Drop_put (take N vs)) (new_log_ring N d) = Some ([], r1)" "filled N 0 N r1"
    using filled_first [of "take N vs" N d] assms by (cases k) auto
  have "length (drop N vs) = (k - 1) * N" using assms(3) by (simp add: diff_mult_distrib)
  then obtain r where r: "log_run (map Drop_put (drop N vs)) r1 = Some ([], r)" "filled N (k - 1) N r"
    using filled_rounds [OF r1(2) _ assms(1)] by fastforce
  have "log_run (map Drop_put vs) (new_log_ring N d) = Some ([], r)"
    using log_run_append [of "take N vs" "map Drop_put (drop N vs)" "new_log_ring N d"] r1(1) r(1)
    by (simp flip: map_append)
  moreover have "length (log_pending r) = N" using r(2) assms(2) by (auto simp: filled_def log_pending_def)
  moreover have "\<exists>r'. log_put v r = Some r' \<and> log_pending r' = [v]"
    using log_put_forgets [OF filled_ok [OF r(2)], of v] r(2) assms(2) by (auto simp: filled_def)
  ultimately show ?thesis by blast
qed

theorem log_ring_forgets_a_full_buffer_witness:
  "\<exists>r r'. log_run (map Drop_put [1, 2, 3, 4 :: nat]) (new_log_ring 2 0) = Some ([], r) \<and> length (log_pending r) = 2
    \<and> log_put 5 r = Some r' \<and> log_pending r' = [5]"
  by (rule log_ring_forgets_a_full_buffer [of 2 2]) simp_all

end
