(* ===== verification/Logger.thy ===== *)
theory Logger
  imports Logger_Ring "HOL-Library.Multiset" "HOL-Library.Monad_Syntax"
begin

text \<open>
  The logger of \<open>CommonModules/logging/LowLatencyLogger.cpp\<close>: each thread logs into its own ring, one
  thread collects the rings into blocks, another sorts each block by time and hands it to the
  handlers. A step is one call of \<open>log\<close>, or one iteration of \<open>consumeLogs\<close> or of \<open>handleLogs\<close>; that
  calls of \<open>log\<close> do not overlap the iterations that read their ring is assumed, and \<open>Logger_Race\<close> shows
  what happens otherwise. The clock gives the entries' times, the text of an entry is formatted by an argument \<open>render\<close>, and
  whether the log file can be opened is an argument of each write. \<open>std::sort\<close> may order entries of
  the same time in any way, so a block is handled in some sorted order.
\<close>

section \<open>Entries\<close>

datatype log_level = TRACE | DEBUG | INFO | WARN | ERROR | FATAL | SILENT

primrec level_code :: "log_level \<Rightarrow> nat" where
  "level_code TRACE = 0" | "level_code DEBUG = 1" | "level_code INFO = 2" | "level_code WARN = 3"
| "level_code ERROR = 4" | "level_code FATAL = 5" | "level_code SILENT = 6"

lemma level_code_inj: "level_code a = level_code b \<Longrightarrow> a = b"
  by (cases a; cases b) simp_all

instantiation log_level :: linorder
begin

definition less_eq_log_level :: "log_level \<Rightarrow> log_level \<Rightarrow> bool" where
  "less_eq_log_level a b \<longleftrightarrow> level_code a \<le> level_code b"

definition less_log_level :: "log_level \<Rightarrow> log_level \<Rightarrow> bool" where
  "less_log_level a b \<longleftrightarrow> level_code a < level_code b"

instance
  by standard (auto simp: less_eq_log_level_def less_log_level_def intro: level_code_inj)

end

record log_entry =
  le_timestamp :: int
  le_text :: string
  le_level :: log_level

definition entry_less :: "log_entry \<Rightarrow> log_entry \<Rightarrow> bool" where
  "entry_less a b \<longleftrightarrow> le_timestamp a < le_timestamp b"

section \<open>Handlers\<close>

record console_handler =
  ch_level :: log_level
  ch_out :: string

definition console_handleEntry :: "(log_entry \<Rightarrow> string) \<Rightarrow> log_entry \<Rightarrow> console_handler \<Rightarrow> console_handler" where
  "console_handleEntry render e h =
    (if ch_level h > le_level e then h else h\<lparr>ch_out := ch_out h @ render e\<rparr>)"

record file_handler =
  fh_level :: log_level
  fh_buffer :: string
  fh_file :: string

definition bundleSizeMax :: nat where "bundleSizeMax = 1024"

text \<open>\<open>opens\<close>: the file can be opened and written now.\<close>

definition file_handleEntry :: "(log_entry \<Rightarrow> string) \<Rightarrow> bool \<Rightarrow> log_entry \<Rightarrow> file_handler \<Rightarrow> file_handler" where
  "file_handleEntry render opens e h =
    (if fh_level h > le_level e then h
     else let h1 = h\<lparr>fh_buffer := fh_buffer h @ render e\<rparr>
          in if length (fh_buffer h1) > bundleSizeMax
             then (if opens then h1\<lparr>fh_file := fh_file h1 @ fh_buffer h1\<rparr> else h1)\<lparr>fh_buffer := []\<rparr>
             else h1)"

datatype log_handler = Console_handler console_handler | File_handler file_handler

primrec handleEntry :: "(log_entry \<Rightarrow> string) \<Rightarrow> bool \<Rightarrow> log_entry \<Rightarrow> log_handler \<Rightarrow> log_handler" where
  "handleEntry render opens e (Console_handler h) = Console_handler (console_handleEntry render e h)"
| "handleEntry render opens e (File_handler h) = File_handler (file_handleEntry render opens e h)"

section \<open>The logger\<close>

definition logBundleSize :: nat where "logBundleSize = 1024"

definition consumeBlockSize :: nat where "consumeBlockSize = 1000"

text \<open>\<open>lg_bundle\<close>: the thread-local reference of each thread, to a ring of the list.\<close>

record logger =
  lg_threadLogs :: "log_entry log_ring list"
  lg_bundle :: "nat \<Rightarrow> nat option"
  lg_logsToHandle :: "log_entry list list"
  lg_handlers :: "log_handler list"

definition new_logger :: "log_handler list \<Rightarrow> logger" where
  "new_logger hs = \<lparr>lg_threadLogs = [], lg_bundle = Map.empty, lg_logsToHandle = [], lg_handlers = hs\<rparr>"

definition getThreadLocalLogs :: "log_entry \<Rightarrow> nat \<Rightarrow> logger \<Rightarrow> nat \<times> logger" where
  "getThreadLocalLogs d t s =
    (case lg_bundle s t of
       Some i \<Rightarrow> (i, s)
     | None \<Rightarrow> (length (lg_threadLogs s),
         s\<lparr>lg_threadLogs := lg_threadLogs s @ [new_log_ring logBundleSize d],
           lg_bundle := (lg_bundle s)(t \<mapsto> length (lg_threadLogs s))\<rparr>))"

definition log_log :: "log_entry \<Rightarrow> nat \<Rightarrow> int \<Rightarrow> log_level \<Rightarrow> string \<Rightarrow> logger \<Rightarrow> logger option" where
  "log_log d t now level info s =
    (case getThreadLocalLogs d t s of
       (i, s1) \<Rightarrow>
         if i < length (lg_threadLogs s1)
         then map_option (\<lambda>r. s1\<lparr>lg_threadLogs := (lg_threadLogs s1)[i := r]\<rparr>)
                (log_put \<lparr>le_timestamp = now, le_text = info, le_level = level\<rparr> (lg_threadLogs s1 ! i))
         else None)"

fun drain_bundle :: "nat \<Rightarrow> 'a log_ring \<Rightarrow> ('a list \<times> 'a log_ring) option" where
  "drain_bundle 0 r = Some ([], r)"
| "drain_bundle (Suc n) r =
     (case log_get r of
        None \<Rightarrow> None
      | Some (None, r') \<Rightarrow> Some ([], r')
      | Some (Some e, r') \<Rightarrow> map_option (\<lambda>(es, r''). (e # es, r'')) (drain_bundle n r'))"

fun drain_bundles :: "'a log_ring list \<Rightarrow> ('a list \<times> 'a log_ring list) option" where
  "drain_bundles [] = Some ([], [])"
| "drain_bundles (r # rs) =
     do { (es, r') \<leftarrow> drain_bundle consumeBlockSize r;
          (es', rs') \<leftarrow> drain_bundles rs;
          Some (es @ es', r' # rs') }"

definition consume_iteration :: "logger \<Rightarrow> logger option" where
  "consume_iteration s =
     do { (logsLocal, rs) \<leftarrow> drain_bundles (lg_threadLogs s);
          let s1 = s\<lparr>lg_threadLogs := rs\<rparr>;
          Some (if logsLocal = [] then s1 else s1\<lparr>lg_logsToHandle := lg_logsToHandle s1 @ [logsLocal]\<rparr>) }"

text \<open>Every handler gets every entry; \<open>opens\<close> says for each write whether the file can be opened.\<close>

fun deliver :: "(log_entry \<Rightarrow> string) \<Rightarrow> (nat \<Rightarrow> bool) \<Rightarrow> log_entry list \<Rightarrow> log_handler list \<Rightarrow> log_handler list" where
  "deliver render opens [] hs = hs"
| "deliver render opens (e # es) hs =
     deliver render (\<lambda>n. opens (Suc n)) es (map (handleEntry render (opens 0) e) hs)"

definition sorted_block :: "log_entry list \<Rightarrow> log_entry list \<Rightarrow> bool" where
  "sorted_block block es \<longleftrightarrow> mset es = mset block \<and> sorted_wrt (\<lambda>a b. \<not> entry_less b a) es"

inductive handle_iteration ::
  "(log_entry \<Rightarrow> string) \<Rightarrow> (nat \<Rightarrow> bool) \<Rightarrow> logger \<Rightarrow> log_entry list \<Rightarrow> logger \<Rightarrow> bool" for render opens where
  nothing: "lg_logsToHandle s = [] \<Longrightarrow> handle_iteration render opens s [] s"
| block: "lg_logsToHandle s = block # rest \<Longrightarrow> sorted_block block es \<Longrightarrow>
    handle_iteration render opens s es
      (s\<lparr>lg_logsToHandle := rest, lg_handlers := deliver render opens es (lg_handlers s)\<rparr>)"

section \<open>Runs\<close>

text \<open>The two workers' iterations, with the entries handled.\<close>

inductive worker_step ::
  "(log_entry \<Rightarrow> string) \<Rightarrow> (nat \<Rightarrow> bool) \<Rightarrow> logger \<Rightarrow> log_entry list \<Rightarrow> logger \<Rightarrow> bool" for render opens where
  consumes: "consume_iteration s = Some s' \<Longrightarrow> worker_step render opens s [] s'"
| handles: "handle_iteration render opens s es s' \<Longrightarrow> worker_step render opens s es s'"

inductive worker_run ::
  "(log_entry \<Rightarrow> string) \<Rightarrow> (nat \<Rightarrow> bool) \<Rightarrow> logger \<Rightarrow> log_entry list list \<Rightarrow> logger \<Rightarrow> bool" for render opens where
  stays: "worker_run render opens s [] s"
| works: "worker_step render opens s es s' \<Longrightarrow> worker_run render opens s' bs s'' \<Longrightarrow> worker_run render opens s (es # bs) s''"

text \<open>A thread's ring has room for another entry.\<close>

definition room :: "nat \<Rightarrow> logger \<Rightarrow> bool" where
  "room t s = (case lg_bundle s t of None \<Rightarrow> True | Some i \<Rightarrow> length (log_pending (lg_threadLogs s ! i)) < logBundleSize)"

text \<open>\<open>ls\<close>: what was logged; \<open>bs\<close>: what was handled. Every entry is logged while its ring has room.\<close>

inductive logger_run ::
  "(log_entry \<Rightarrow> string) \<Rightarrow> (nat \<Rightarrow> bool) \<Rightarrow> log_entry \<Rightarrow> log_handler list \<Rightarrow> logger \<Rightarrow> log_entry list
    \<Rightarrow> log_entry list list \<Rightarrow> bool" for render opens d hs where
  starts: "logger_run render opens d hs (new_logger hs) [] []"
| logs: "logger_run render opens d hs s ls bs \<Longrightarrow> room t s \<Longrightarrow> log_log d t now level info s = Some s' \<Longrightarrow>
    logger_run render opens d hs s' (ls @ [\<lparr>le_timestamp = now, le_text = info, le_level = level\<rparr>]) bs"
| worked: "logger_run render opens d hs s ls bs \<Longrightarrow> worker_step render opens s es s' \<Longrightarrow>
    logger_run render opens d hs s' ls (bs @ [es])"

definition held_entries :: "logger \<Rightarrow> log_entry multiset" where
  "held_entries s = mset (concat (lg_logsToHandle s)) + mset (concat (map log_pending (lg_threadLogs s)))"

definition logger_ok :: "logger \<Rightarrow> bool" where
  "logger_ok s \<longleftrightarrow> (\<forall>r\<in>set (lg_threadLogs s). log_ok logBundleSize r)
    \<and> (\<forall>t i. lg_bundle s t = Some i \<longrightarrow> i < length (lg_threadLogs s))"

lemma drain_bundle_takes:
  "log_ok N r \<Longrightarrow> \<exists>r'. drain_bundle n r = Some (take n (log_pending r), r') \<and> log_ok N r'
    \<and> log_pending r' = drop n (log_pending r)"
proof (induction n arbitrary: r)
  case (Suc n)
  show ?case
  proof (cases "log_pending r")
    case Nil
    with log_get_none [OF Suc.prems Nil] Suc.prems show ?thesis by simp
  next
    case (Cons v q)
    then obtain r1 where r1: "log_get r = Some (Some v, r1)" "log_ok N r1" "log_pending r1 = q"
      using log_get_some [OF Suc.prems] by blast
    with Suc.IH [OF r1(2)] Cons show ?thesis by auto
  qed
qed simp

lemma drain_bundles_takes:
  "\<forall>r\<in>set rs. log_ok N r \<Longrightarrow>
    \<exists>rs'. drain_bundles rs = Some (concat (map (\<lambda>r. take consumeBlockSize (log_pending r)) rs), rs')
      \<and> length rs' = length rs \<and> (\<forall>r\<in>set rs'. log_ok N r)
      \<and> map log_pending rs' = map (\<lambda>r. drop consumeBlockSize (log_pending r)) rs"
proof (induction rs)
  case (Cons r rs)
  then show ?case using drain_bundle_takes [of N r consumeBlockSize] by fastforce
qed simp

lemma mset_take_drop: "mset (take n xs) + mset (drop n xs) = mset xs"
  by (metis append_take_drop_id mset_append)

lemma drained_mset:
  "mset (concat (map (\<lambda>r. take n (f r)) rs)) + mset (concat (map (\<lambda>r. drop n (f r)) rs)) = mset (concat (map f rs))"
proof (induction rs)
  case (Cons r rs)
  then show ?case using mset_take_drop [of n "f r"] by (simp add: ac_simps)
qed simp

lemma consume_keeps:
  assumes "logger_ok s"
  shows "\<exists>s'. consume_iteration s = Some s' \<and> logger_ok s' \<and> held_entries s' = held_entries s
    \<and> map log_pending (lg_threadLogs s') = map (\<lambda>r. drop consumeBlockSize (log_pending r)) (lg_threadLogs s)
    \<and> lg_handlers s' = lg_handlers s"
proof -
  let ?l = "concat (map (\<lambda>r. take consumeBlockSize (log_pending r)) (lg_threadLogs s))"
  obtain rs' where rs': "drain_bundles (lg_threadLogs s) = Some (?l, rs')" "length rs' = length (lg_threadLogs s)"
    "\<forall>r\<in>set rs'. log_ok logBundleSize r"
    "map log_pending rs' = map (\<lambda>r. drop consumeBlockSize (log_pending r)) (lg_threadLogs s)"
    using drain_bundles_takes [of "lg_threadLogs s" logBundleSize] assms by (auto simp: logger_ok_def)
  let ?s = "s\<lparr>lg_threadLogs := rs'\<rparr>"
  define s' where "s' = (if ?l = [] then ?s else ?s\<lparr>lg_logsToHandle := lg_logsToHandle ?s @ [?l]\<rparr>)"
  have run: "consume_iteration s = Some s'"
    by (simp add: consume_iteration_def rs'(1) Let_def s'_def del: concat_eq_Nil_conv)
  have same: "lg_threadLogs s' = rs'" "lg_bundle s' = lg_bundle s" "lg_handlers s' = lg_handlers s"
    by (simp_all add: s'_def)
  have blocks: "mset (concat (lg_logsToHandle s')) = mset (concat (lg_logsToHandle s)) + mset ?l"
    by (cases "?l = []") (simp_all add: s'_def del: concat_eq_Nil_conv)
  have "logger_ok s'" using assms rs'(2,3) same by (auto simp: logger_ok_def)
  moreover have "held_entries s' = held_entries s"
    unfolding held_entries_def blocks same(1) rs'(4)
    using drained_mset [of consumeBlockSize log_pending "lg_threadLogs s"] by (simp add: add.assoc)
  ultimately show ?thesis using run same rs'(4) by auto
qed

lemma handle_keeps:
  assumes "handle_iteration render opens s es s'"
  shows "held_entries s = mset es + held_entries s'" "logger_ok s' = logger_ok s"
    "lg_handlers s' = deliver render opens es (lg_handlers s)" "sorted_wrt (\<lambda>a b. \<not> entry_less b a) es"
  using assms by (auto simp: held_entries_def logger_ok_def sorted_block_def add.assoc elim!: handle_iteration.cases)

lemma mset_concat_update:
  "i < length rs \<Longrightarrow> mset (concat (map f (rs[i := x]))) + mset (f (rs ! i)) = mset (concat (map f rs)) + mset (f x)"
proof (induction rs arbitrary: i)
  case (Cons r rs)
  then show ?case by (cases i) (auto simp: ac_simps)
qed simp

lemma put_in_ring:
  assumes "logger_ok s" "i < length (lg_threadLogs s)" "length (log_pending (lg_threadLogs s ! i)) < logBundleSize"
  shows "\<exists>r. log_put v (lg_threadLogs s ! i) = Some r
    \<and> logger_ok (s\<lparr>lg_threadLogs := (lg_threadLogs s)[i := r]\<rparr>)
    \<and> held_entries (s\<lparr>lg_threadLogs := (lg_threadLogs s)[i := r]\<rparr>) = held_entries s + {#v#}"
proof -
  have ok: "log_ok logBundleSize (lg_threadLogs s ! i)" using assms(1,2) by (simp add: logger_ok_def)
  obtain r where r: "log_put v (lg_threadLogs s ! i) = Some r" "log_ok logBundleSize r"
    "log_pending r = log_pending (lg_threadLogs s ! i) @ [v]"
    using log_put_room [OF ok assms(3)] by blast
  have "logger_ok (s\<lparr>lg_threadLogs := (lg_threadLogs s)[i := r]\<rparr>)"
    using assms(1) r(2) set_update_subset_insert [of "lg_threadLogs s" i r] by (auto simp: logger_ok_def)
  moreover have "mset (concat (map log_pending ((lg_threadLogs s)[i := r])))
      = mset (concat (map log_pending (lg_threadLogs s))) + {#v#}"
    using mset_concat_update [OF assms(2), of log_pending r] r(3) by simp
  then have "held_entries (s\<lparr>lg_threadLogs := (lg_threadLogs s)[i := r]\<rparr>) = held_entries s + {#v#}"
    by (simp add: held_entries_def)
  ultimately show ?thesis using r(1) by blast
qed

lemma new_bundle_ok:
  assumes "logger_ok s" "getThreadLocalLogs d t s = (i, s1)" "room t s"
  shows "logger_ok s1" "held_entries s1 = held_entries s" "i < length (lg_threadLogs s1)"
    "length (log_pending (lg_threadLogs s1 ! i)) < logBundleSize" "lg_handlers s1 = lg_handlers s"
  using assms
  by (auto simp: getThreadLocalLogs_def logger_ok_def held_entries_def room_def logBundleSize_def less_Suc_eq nth_append
      split: option.splits if_splits)

lemma log_keeps:
  assumes "logger_ok s" "room t s"
  shows "\<exists>s'. log_log d t now level info s = Some s' \<and> logger_ok s' \<and> lg_handlers s' = lg_handlers s
    \<and> held_entries s' = held_entries s + {#\<lparr>le_timestamp = now, le_text = info, le_level = level\<rparr>#}"
proof -
  obtain i s1 where g: "getThreadLocalLogs d t s = (i, s1)" by force
  note n = new_bundle_ok [OF assms(1) g assms(2)]
  from put_in_ring [OF n(1,3,4)] n(2,3,5) g show ?thesis by (fastforce simp: log_log_def)
qed

lemma deliver_always: "deliver render (\<lambda>_. True) es hs = map (fold (handleEntry render True) es) hs"
  by (induction es arbitrary: hs) simp_all

lemma worker_keeps:
  assumes "worker_step render opens s es s'" "logger_ok s"
  shows "logger_ok s' \<and> held_entries s = mset es + held_entries s'
    \<and> lg_handlers s' = deliver render opens es (lg_handlers s) \<and> sorted_wrt (\<lambda>a b. \<not> entry_less b a) es"
  using assms(1)
proof (cases rule: worker_step.cases)
  case consumes
  with consume_keeps [OF assms(2)] show ?thesis by auto
next
  case handles
  with handle_keeps [OF handles] assms(2) show ?thesis by simp
qed

lemma logger_run_keeps:
  "logger_run render opens d hs s ls bs \<Longrightarrow>
     logger_ok s \<and> mset ls = mset (concat bs) + held_entries s
     \<and> (\<forall>es\<in>set bs. sorted_wrt (\<lambda>a b. \<not> entry_less b a) es)"
proof (induction rule: logger_run.induct)
  case starts
  then show ?case by (simp add: logger_ok_def held_entries_def new_logger_def)
next
  case (logs s ls bs t now level info s')
  then show ?case using log_keeps [of s t d now level info] by auto
next
  case (worked s ls bs es s')
  then show ?case using worker_keeps [OF worked.hyps(2)] by auto
qed

text \<open>The workers can always finish: two rounds of collecting empty the rings, then block after block is handled.\<close>

lemma collected_twice:
  assumes "logger_ok s"
  shows "\<exists>s'. worker_run render opens s [[], []] s' \<and> logger_ok s' \<and> concat (map log_pending (lg_threadLogs s')) = []"
proof -
  obtain s1 where s1: "consume_iteration s = Some s1" "logger_ok s1"
    "map log_pending (lg_threadLogs s1) = map (\<lambda>r. drop consumeBlockSize (log_pending r)) (lg_threadLogs s)"
    using consume_keeps [OF assms] by blast
  obtain s2 where s2: "consume_iteration s1 = Some s2" "logger_ok s2"
    "map log_pending (lg_threadLogs s2) = map (\<lambda>r. drop consumeBlockSize (log_pending r)) (lg_threadLogs s1)"
    using consume_keeps [OF s1(2)] by blast
  have "map log_pending (lg_threadLogs s2) = map (drop consumeBlockSize) (map log_pending (lg_threadLogs s1))"
    using s2(3) by (simp add: comp_def)
  also have "\<dots> = map (\<lambda>r. drop (2 * consumeBlockSize) (log_pending r)) (lg_threadLogs s)"
    unfolding s1(3) by (simp add: mult_2)
  also have "\<dots> = map (\<lambda>_. []) (lg_threadLogs s)"
  proof (rule map_cong [OF refl])
    fix r assume "r \<in> set (lg_threadLogs s)"
    then have "length (log_pending r) \<le> logBundleSize" using assms log_pending_length by (auto simp: logger_ok_def)
    then show "drop (2 * consumeBlockSize) (log_pending r) = []" by (simp add: logBundleSize_def consumeBlockSize_def)
  qed
  finally have "concat (map log_pending (lg_threadLogs s2)) = []" by simp
  moreover have "worker_run render opens s [[], []] s2"
    by (intro works [OF consumes [OF s1(1)]] works [OF consumes [OF s2(1)]] stays)
  ultimately show ?thesis using s2(2) by blast
qed

lemma handled_all:
  assumes "logger_ok s"
  shows "\<exists>bs s'. worker_run render opens s bs s' \<and> lg_logsToHandle s' = [] \<and> lg_threadLogs s' = lg_threadLogs s"
  using assms
proof (induction "lg_logsToHandle s" arbitrary: s)
  case Nil
  then show ?case using stays by metis
next
  case (Cons b rest)
  let ?s = "s\<lparr>lg_logsToHandle := rest, lg_handlers := deliver render opens (sort_key le_timestamp b) (lg_handlers s)\<rparr>"
  have "sorted_block b (sort_key le_timestamp b)"
    using sorted_sort_key [of le_timestamp b] by (simp add: sorted_block_def entry_less_def sorted_wrt_map not_less)
  then have step: "worker_step render opens s (sort_key le_timestamp b) ?s"
    using Cons.hyps(2) by (intro handles handle_iteration.block) auto
  obtain bs s' where "worker_run render opens ?s bs s'" "lg_logsToHandle s' = []" "lg_threadLogs s' = lg_threadLogs ?s"
    using Cons.hyps(1) [of ?s] Cons.prems by (auto simp: logger_ok_def)
  then show ?case using works [OF step] by fastforce
qed

lemma worker_run_append:
  "worker_run render opens s bs s' \<Longrightarrow> worker_run render opens s' bs' s'' \<Longrightarrow> worker_run render opens s (bs @ bs') s''"
  by (induction rule: worker_run.induct) (auto intro: works)

lemma worker_run_keeps:
  "worker_run render opens s bs s' \<Longrightarrow> logger_ok s \<Longrightarrow> logger_ok s' \<and> held_entries s = mset (concat bs) + held_entries s'"
proof (induction rule: worker_run.induct)
  case (works s es s' bs s'')
  then show ?case using worker_keeps [OF works.hyps(1) works.prems] by auto
qed simp

lemma workers_finish:
  assumes "logger_ok s"
  shows "\<exists>bs s'. worker_run render opens s bs s' \<and> held_entries s = mset (concat bs) \<and> held_entries s' = {#}"
proof -
  obtain s1 where s1: "worker_run render opens s [[], []] s1" "logger_ok s1" "concat (map log_pending (lg_threadLogs s1)) = []"
    using collected_twice [OF assms] by blast
  obtain bs s2 where s2: "worker_run render opens s1 bs s2" "lg_logsToHandle s2 = []" "lg_threadLogs s2 = lg_threadLogs s1"
    using handled_all [OF s1(2)] by blast
  have "held_entries s2 = {#}" using s1(3) s2(2,3) by (simp add: held_entries_def del: concat_eq_Nil_conv)
  with worker_run_append [OF s1(1) s2(1)] worker_run_keeps [OF _ assms] show ?thesis by fastforce
qed

subsection \<open>The file\<close>

text \<open>What a handler of a level writes of some entries.\<close>

definition rendered :: "(log_entry \<Rightarrow> string) \<Rightarrow> log_level \<Rightarrow> log_entry list \<Rightarrow> string" where
  "rendered render level es = concat (map render (filter (\<lambda>e. level \<le> le_level e) es))"

lemma rendered_simps [simp]:
  "rendered render level [] = []"
  "rendered render level (e # es) = (if level \<le> le_level e then render e else []) @ rendered render level es"
  "rendered render level (es @ es') = rendered render level es @ rendered render level es'"
  by (simp_all add: rendered_def)

lemma file_handler_fold:
  "length (fh_buffer h) \<le> bundleSizeMax \<Longrightarrow>
     (let h' = fold (file_handleEntry render True) es h in
        fh_level h' = fh_level h \<and> length (fh_buffer h') \<le> bundleSizeMax
      \<and> fh_file h' @ fh_buffer h' = fh_file h @ fh_buffer h @ rendered render (fh_level h) es
      \<and> (length (fh_buffer h) + length (rendered render (fh_level h) es) \<le> bundleSizeMax \<longrightarrow> fh_file h' = fh_file h))"
proof (induction es arbitrary: h)
  case (Cons e es)
  have "length (fh_buffer (file_handleEntry render True e h)) \<le> bundleSizeMax"
    using Cons.prems by (auto simp: file_handleEntry_def Let_def)
  from Cons.IH [OF this] show ?case
    by (cases "fh_level h > le_level e"; cases "length (fh_buffer h @ render e) > bundleSizeMax")
      (auto simp: file_handleEntry_def Let_def not_less leD)
qed simp

lemma handleEntry_file:
  "fold (handleEntry render True) es (File_handler h) = File_handler (fold (file_handleEntry render True) es h)"
  by (induction es arbitrary: h) simp_all

lemma logger_run_handlers:
  "logger_run render (\<lambda>_. True) d hs s ls bs \<Longrightarrow>
     lg_handlers s = map (fold (handleEntry render True) (concat bs)) hs \<and> logger_ok s"
proof (induction rule: logger_run.induct)
  case starts
  then show ?case by (simp add: new_logger_def logger_ok_def)
next
  case (logs s ls bs t now level info s')
  then show ?case using log_keeps [of s t d now level info] by auto
next
  case (worked s ls bs es s')
  then show ?case using worker_keeps [OF worked.hyps(2)] by (simp add: deliver_always)
qed

section \<open>What the logger does\<close>

text \<open>
  While every thread logs only when its ring has room, and no \<open>put\<close> into a ring overlaps a \<open>get\<close> from it
  (which nothing in the code ensures, see \<open>Logger_Race\<close>), no entry is lost and none handled twice:
  in every run the entries logged are those handled and those still held, as multisets, each block is
  handled in the order of its times, a thread can log whenever its ring has room, and the two workers
  can always finish, after which every entry logged has been handled.
\<close>

theorem logger_loses_nothing:
  assumes "logger_run render opens d hs s ls bs"
  shows "mset ls = mset (concat bs) + held_entries s
    \<and> (\<forall>es\<in>set bs. sorted_wrt (\<lambda>a b. \<not> entry_less b a) es)
    \<and> (\<forall>t now level info. room t s \<longrightarrow> log_log d t now level info s \<noteq> None)
    \<and> (\<exists>bs' s'. worker_run render opens s bs' s' \<and> held_entries s' = {#} \<and> mset ls = mset (concat (bs @ bs')))"
proof -
  note k = logger_run_keeps [OF assms]
  then have ok: "logger_ok s" by simp
  obtain bs' s' where "worker_run render opens s bs' s'" "held_entries s = mset (concat bs')" "held_entries s' = {#}"
    using workers_finish [OF ok] by blast
  moreover have "\<forall>t now level info. room t s \<longrightarrow> log_log d t now level info s \<noteq> None"
    using log_keeps [OF ok] by fastforce
  ultimately show ?thesis using k by (metis concat_append mset_append)
qed

text \<open>
  A file handler writes what it is given only in bundles of more than 1024 symbols. If the file
  can always be opened, the file and the buffer together are the rendered entries of sufficient
  level in the order in which they were handled, and at most 1024 symbols wait in the buffer; but
  as long as everything handled so far has no more than 1024 symbols, nothing is in the file, and
  nothing in the code writes the rest.
\<close>

theorem file_handler_keeps_last_bundle:
  assumes "logger_run render (\<lambda>_. True) d hs s ls bs" "i < length hs"
    "hs ! i = File_handler \<lparr>fh_level = level, fh_buffer = [], fh_file = file\<rparr>"
  shows "\<exists>h. lg_handlers s ! i = File_handler h \<and> length (fh_buffer h) \<le> bundleSizeMax
    \<and> fh_file h @ fh_buffer h = file @ rendered render level (concat bs)
    \<and> (length (rendered render level (concat bs)) \<le> bundleSizeMax \<longrightarrow> fh_file h = file)"
proof -
  have "lg_handlers s = map (fold (handleEntry render True) (concat bs)) hs" using logger_run_handlers [OF assms(1)] by blast
  then have "lg_handlers s ! i
      = File_handler (fold (file_handleEntry render True) (concat bs) \<lparr>fh_level = level, fh_buffer = [], fh_file = file\<rparr>)"
    using assms(2,3) by (simp add: handleEntry_file)
  then show ?thesis
    using file_handler_fold [of "\<lparr>fh_level = level, fh_buffer = [], fh_file = file\<rparr>" render "concat bs"] by (simp add: Let_def)
qed

subsection \<open>Two threads, one entry each\<close>

abbreviation sample_entry :: "int \<Rightarrow> string \<Rightarrow> log_level \<Rightarrow> log_entry" where
  "sample_entry now info level \<equiv> \<lparr>le_timestamp = now, le_text = info, le_level = level\<rparr>"

lemma sample_log:
  assumes "lg_bundle s t = None"
  shows "\<exists>r. log_log d t now level info s =
      Some (s\<lparr>lg_threadLogs := lg_threadLogs s @ [r], lg_bundle := (lg_bundle s)(t \<mapsto> length (lg_threadLogs s))\<rparr>)
    \<and> log_ok logBundleSize r \<and> log_pending r = [sample_entry now info level]"
proof -
  obtain r where r: "log_put (sample_entry now info level) (new_log_ring logBundleSize d) = Some r"
    "log_ok logBundleSize r" "log_pending r = [sample_entry now info level]"
    using log_put_room [of logBundleSize "new_log_ring logBundleSize d" "sample_entry now info level"]
    by (auto simp: logBundleSize_def)
  have "log_log d t now level info s =
      Some (s\<lparr>lg_threadLogs := lg_threadLogs s @ [r], lg_bundle := (lg_bundle s)(t \<mapsto> length (lg_threadLogs s))\<rparr>)"
    using assms r(1) by (simp add: log_log_def getThreadLocalLogs_def)
  with r(2,3) show ?thesis by blast
qed

lemma sample_logger_run:
  "\<exists>s. logger_run render opens d hs s [sample_entry 5 ''ab'' INFO, sample_entry 3 ''c'' ERROR]
     [[], [sample_entry 3 ''c'' ERROR, sample_entry 5 ''ab'' INFO]]"
proof -
  let ?e1 = "sample_entry 5 ''ab'' INFO" and ?e2 = "sample_entry 3 ''c'' ERROR"
  obtain r1 where r1: "log_log d 0 5 INFO ''ab'' (new_logger hs) =
      Some ((new_logger hs)\<lparr>lg_threadLogs := [r1], lg_bundle := [0 \<mapsto> 0]\<rparr>)"
    "log_ok logBundleSize r1" "log_pending r1 = [?e1]"
    using sample_log [of "new_logger hs" 0 d 5 INFO "''ab''"] by (auto simp: new_logger_def)
  let ?s1 = "(new_logger hs)\<lparr>lg_threadLogs := [r1], lg_bundle := [0 \<mapsto> 0]\<rparr>"
  obtain r2 where r2: "log_log d 1 3 ERROR ''c'' ?s1 =
      Some (?s1\<lparr>lg_threadLogs := [r1, r2], lg_bundle := [0 \<mapsto> 0, 1 \<mapsto> 1]\<rparr>)"
    "log_ok logBundleSize r2" "log_pending r2 = [?e2]"
    using sample_log [of ?s1 1 d 3 ERROR "''c''"] by (auto simp: fun_upd_def)
  let ?s2 = "?s1\<lparr>lg_threadLogs := [r1, r2], lg_bundle := [0 \<mapsto> 0, 1 \<mapsto> 1]\<rparr>"
  obtain rs where rs: "drain_bundles [r1, r2] = Some ([?e1, ?e2], rs)"
    using drain_bundles_takes [of "[r1, r2]" logBundleSize] r1(2,3) r2(2,3) by (auto simp: consumeBlockSize_def)
  let ?s3 = "?s2\<lparr>lg_threadLogs := rs, lg_logsToHandle := [[?e1, ?e2]]\<rparr>"
  have c: "consume_iteration ?s2 = Some ?s3" using rs by (simp add: consume_iteration_def new_logger_def)
  have "logger_run render opens d hs ?s1 [?e1] []"
    using logs [OF starts _ r1(1)] by (simp add: room_def new_logger_def)
  from logs [OF this _ r2(1)] have "logger_run render opens d hs ?s2 [?e1, ?e2] []" by (simp add: room_def new_logger_def)
  from worked [OF this consumes [OF c]] have run: "logger_run render opens d hs ?s3 [?e1, ?e2] [[]]" by simp
  have "sorted_block [?e1, ?e2] [?e2, ?e1]" by (simp add: sorted_block_def entry_less_def)
  then have "handle_iteration render opens ?s3 [?e2, ?e1]
      (?s3\<lparr>lg_logsToHandle := [], lg_handlers := deliver render opens [?e2, ?e1] (lg_handlers ?s3)\<rparr>)"
    by (intro handle_iteration.block) simp_all
  from worked [OF run handles [OF this]] show ?thesis by auto
qed

theorem logger_loses_nothing_witness:
  "\<exists>s. mset [sample_entry 5 ''ab'' INFO, sample_entry 3 ''c'' ERROR]
      = mset (concat [[], [sample_entry 3 ''c'' ERROR, sample_entry 5 ''ab'' INFO]]) + held_entries s
    \<and> logger_run le_text (\<lambda>_. True) (sample_entry 0 [] TRACE) [] s
        [sample_entry 5 ''ab'' INFO, sample_entry 3 ''c'' ERROR]
        [[], [sample_entry 3 ''c'' ERROR, sample_entry 5 ''ab'' INFO]]"
proof -
  obtain s where s: "logger_run le_text (\<lambda>_. True) (sample_entry 0 [] TRACE) [] s
      [sample_entry 5 ''ab'' INFO, sample_entry 3 ''c'' ERROR]
      [[], [sample_entry 3 ''c'' ERROR, sample_entry 5 ''ab'' INFO]]"
    using sample_logger_run by blast
  show ?thesis using logger_loses_nothing [OF s] s by blast
qed

theorem file_handler_keeps_last_bundle_witness:
  "\<exists>(s :: logger) h. lg_handlers s ! 0 = File_handler h \<and> fh_file h = ''old'' \<and> fh_buffer h = ''cab''"
proof -
  let ?h = "File_handler \<lparr>fh_level = INFO, fh_buffer = [], fh_file = ''old''\<rparr>"
  obtain s where s: "logger_run le_text (\<lambda>_. True) (sample_entry 0 [] TRACE) [?h] s
      [sample_entry 5 ''ab'' INFO, sample_entry 3 ''c'' ERROR]
      [[], [sample_entry 3 ''c'' ERROR, sample_entry 5 ''ab'' INFO]]"
    using sample_logger_run by blast
  have "rendered le_text INFO (concat [[], [sample_entry 3 ''c'' ERROR, sample_entry 5 ''ab'' INFO]]) = ''cab''"
    by (simp add: less_eq_log_level_def)
  then obtain h where "lg_handlers s ! 0 = File_handler h" "fh_file h = ''old''" "fh_buffer h = ''cab''"
    using file_handler_keeps_last_bundle [OF s, of 0 INFO "''old''"] by (auto simp: bundleSizeMax_def simp del: concat.simps)
  then show ?thesis by blast
qed

end
