(* ===== verification/Logger_Race.thy ===== *)
theory Logger_Race
  imports Logger_Ring
begin

text \<open>
  The ring of \<open>logging/LowLatencyLogger.cpp\<close> under its two threads: the thread that logs is in \<open>put\<close>
  while the collecting thread is in \<open>get\<close>. Each load, store or increment of an atomic member is one
  step, and so is moving an entry into or out of the buffer; a schedule says whose step is next. The
  interleaving is sequentially consistent, as the members' default ordering is; that the two moves of
  one slot are a data race, which C++ leaves undefined, is beyond it.

  \<open>Logger_Ring\<close> takes \<open>put\<close> and \<open>get\<close> as single steps. The first lemmas show that these are the
  uninterrupted calls; the theorems show what happens otherwise: \<open>put\<close> publishes the slot before it
  fills it, and an entry may be lost for a stale one.
\<close>

section \<open>The steps\<close>

datatype 'a put_pc =
    Put_idle
  | Put_start 'a        \<comment> \<open>line 103: at the end of the buffer?\<close>
  | Put_rewind 'a       \<comment> \<open>104: write index to 0\<close>
  | Put_mark 'a         \<comment> \<open>105: set \<open>overflow\<close>\<close>
  | Put_test 'a         \<comment> \<open>107: load \<open>overflow\<close>\<close>
  | Put_compare 'a      \<comment> \<open>107: compare the indices\<close>
  | Put_skip 'a         \<comment> \<open>108: drop the oldest entry\<close>
  | Put_claim 'a        \<comment> \<open>110: \<open>idxWrite++\<close>\<close>
  | Put_store 'a nat    \<comment> \<open>110: move the entry into the slot\<close>

datatype get_pc =
    Get_idle
  | Get_start           \<comment> \<open>line 115: load \<open>overflow\<close>\<close>
  | Get_load            \<comment> \<open>115: load one of the indices\<close>
  | Get_saw_write nat   \<comment> \<open>115: load \<open>idxRead\<close> and compare\<close>
  | Get_saw_read nat    \<comment> \<open>115: load \<open>idxWrite\<close> and compare\<close>
  | Get_end             \<comment> \<open>119: at the end of the buffer?\<close>
  | Get_rewind          \<comment> \<open>120: read index to 0\<close>
  | Get_clear           \<comment> \<open>121: reset \<open>overflow\<close>\<close>
  | Get_claim           \<comment> \<open>124: \<open>idxRead++\<close>\<close>
  | Get_move nat        \<comment> \<open>124: move the entry out of the slot\<close>

text \<open>\<open>rc_taken\<close>: the results of the finished calls of \<open>get\<close>.\<close>

record 'a racing_ring = "'a log_ring" +
  rc_put :: "'a put_pc"
  rc_get :: get_pc
  rc_taken :: "'a option list"

text \<open>
  Only \<open>put\<close> writes \<open>idxWrite\<close>, so its comparison of the indices is the load of \<open>idxRead\<close>. A step has
  no result when the thread is not in the call, or when it would access a slot outside the buffer.
\<close>

definition put_step :: "'a racing_ring \<Rightarrow> 'a racing_ring option" where
  "put_step s =
     (case rc_put s of
        Put_idle \<Rightarrow> None
      | Put_start v \<Rightarrow>
          Some (s\<lparr>rc_put := if lr_idxWrite s = length (lr_buffer s) then Put_rewind v else Put_test v\<rparr>)
      | Put_rewind v \<Rightarrow> Some (s\<lparr>lr_idxWrite := 0, rc_put := Put_mark v\<rparr>)
      | Put_mark v \<Rightarrow> Some (s\<lparr>lr_overflow := True, rc_put := Put_test v\<rparr>)
      | Put_test v \<Rightarrow> Some (s\<lparr>rc_put := if lr_overflow s then Put_compare v else Put_claim v\<rparr>)
      | Put_compare v \<Rightarrow> Some (s\<lparr>rc_put := if lr_idxWrite s = lr_idxRead s then Put_skip v else Put_claim v\<rparr>)
      | Put_skip v \<Rightarrow> Some (s\<lparr>lr_idxRead := lr_idxRead s + 1, rc_put := Put_claim v\<rparr>)
      | Put_claim v \<Rightarrow> Some (s\<lparr>lr_idxWrite := lr_idxWrite s + 1, rc_put := Put_store v (lr_idxWrite s)\<rparr>)
      | Put_store v i \<Rightarrow>
          if i < length (lr_buffer s) then Some (s\<lparr>lr_buffer := (lr_buffer s)[i := v], rc_put := Put_idle\<rparr>)
          else None)"

text \<open>
  C++ does not fix which of two compared indices is loaded first (\<open>write_first\<close>). Moving an entry out
  leaves \<open>moved\<close> of it in its slot.
\<close>

definition get_step :: "('a \<Rightarrow> 'a) \<Rightarrow> bool \<Rightarrow> 'a racing_ring \<Rightarrow> 'a racing_ring option" where
  "get_step moved write_first s =
     (case rc_get s of
        Get_idle \<Rightarrow> None
      | Get_start \<Rightarrow> Some (s\<lparr>rc_get := if lr_overflow s then Get_end else Get_load\<rparr>)
      | Get_load \<Rightarrow> Some (s\<lparr>rc_get := if write_first then Get_saw_write (lr_idxWrite s) else Get_saw_read (lr_idxRead s)\<rparr>)
      | Get_saw_write w \<Rightarrow>
          Some (if w = lr_idxRead s then s\<lparr>rc_get := Get_idle, rc_taken := rc_taken s @ [None]\<rparr>
                else s\<lparr>rc_get := Get_end\<rparr>)
      | Get_saw_read r \<Rightarrow>
          Some (if lr_idxWrite s = r then s\<lparr>rc_get := Get_idle, rc_taken := rc_taken s @ [None]\<rparr>
                else s\<lparr>rc_get := Get_end\<rparr>)
      | Get_end \<Rightarrow> Some (s\<lparr>rc_get := if lr_idxRead s = length (lr_buffer s) then Get_rewind else Get_claim\<rparr>)
      | Get_rewind \<Rightarrow> Some (s\<lparr>lr_idxRead := 0, rc_get := Get_clear\<rparr>)
      | Get_clear \<Rightarrow> Some (s\<lparr>lr_overflow := False, rc_get := Get_claim\<rparr>)
      | Get_claim \<Rightarrow> Some (s\<lparr>lr_idxRead := lr_idxRead s + 1, rc_get := Get_move (lr_idxRead s)\<rparr>)
      | Get_move i \<Rightarrow>
          if i < length (lr_buffer s)
          then Some (s\<lparr>lr_buffer := (lr_buffer s)[i := moved (lr_buffer s ! i)], rc_get := Get_idle,
                      rc_taken := rc_taken s @ [Some (lr_buffer s ! i)]\<rparr>)
          else None)"

text \<open>A schedule: the thread that logs, or the collector with the order of its loads.\<close>

datatype turn = Logs | Collects bool

primrec turn_step :: "('a \<Rightarrow> 'a) \<Rightarrow> turn \<Rightarrow> 'a racing_ring \<Rightarrow> 'a racing_ring option" where
  "turn_step moved Logs s = put_step s"
| "turn_step moved (Collects write_first) s = get_step moved write_first s"

fun race_run :: "('a \<Rightarrow> 'a) \<Rightarrow> turn list \<Rightarrow> 'a racing_ring \<Rightarrow> 'a racing_ring option" where
  "race_run moved [] s = Some s"
| "race_run moved (t # ts) s = Option.bind (turn_step moved t s) (race_run moved ts)"

definition racing :: "'a put_pc \<Rightarrow> get_pc \<Rightarrow> 'a option list \<Rightarrow> 'a log_ring \<Rightarrow> 'a racing_ring" where
  "racing p g taken r =
     \<lparr>lr_idxRead = lr_idxRead r, lr_idxWrite = lr_idxWrite r, lr_overflow = lr_overflow r, lr_buffer = lr_buffer r,
      rc_put = p, rc_get = g, rc_taken = taken\<rparr>"

definition ring_of :: "'a racing_ring \<Rightarrow> 'a log_ring" where
  "ring_of s = \<lparr>lr_idxRead = lr_idxRead s, lr_idxWrite = lr_idxWrite s, lr_overflow = lr_overflow s, lr_buffer = lr_buffer s\<rparr>"

text \<open>A \<open>put\<close> and a \<open>get\<close> that have both been called, and both returned.\<close>

abbreviation overlapping :: "'a \<Rightarrow> 'a log_ring \<Rightarrow> 'a racing_ring" where
  "overlapping v r \<equiv> racing (Put_start v) Get_start [] r"

definition returned :: "'a racing_ring \<Rightarrow> bool" where
  "returned s \<longleftrightarrow> rc_put s = Put_idle \<and> rc_get s = Get_idle"

named_theorems race_simps

lemmas [race_simps] = put_step_def get_step_def racing_def ring_of_def returned_def

section \<open>Uninterrupted calls\<close>

text \<open>The steps of one thread until its call returns are the call as \<open>Logger_Ring\<close> has it.\<close>

lemma uninterrupted_put:
  assumes "log_put v r = Some r'"
  shows "\<exists>n. race_run moved (replicate n Logs) (racing (Put_start v) g taken r) = Some (racing Put_idle g taken r')"
proof -
  have steps: "race_run moved (replicate n Logs) (racing (Put_start v) g taken r) = Some (racing Put_idle g taken r')"
    if "n = (if lr_idxWrite r = length (lr_buffer r) then if lr_idxRead r = 0 then 8 else 7
             else if lr_overflow r then if lr_idxWrite r = lr_idxRead r then 6 else 5 else 4)" for n :: nat
    using assms that by (auto simp: race_simps log_put_def Let_def numeral_eq_Suc split: if_splits)
  then show ?thesis by blast
qed

lemma uninterrupted_get:
  assumes "log_get r = Some (result, r')"
  shows "\<exists>n r''. race_run moved (replicate n (Collects write_first)) (racing p Get_start taken r)
       = Some (racing p Get_idle (taken @ [result]) r'')
     \<and> lr_idxRead r'' = lr_idxRead r' \<and> lr_idxWrite r'' = lr_idxWrite r' \<and> lr_overflow r'' = lr_overflow r'
     \<and> lr_buffer r'' = (case result of None \<Rightarrow> lr_buffer r' | Some x \<Rightarrow> (lr_buffer r')[lr_idxRead r' - 1 := moved x])"
proof -
  define n :: nat where "n = (if \<not> lr_overflow r \<and> lr_idxWrite r = lr_idxRead r then 3
    else (if lr_overflow r then 4 else 6) + (if lr_idxRead r = length (lr_buffer r) then 2 else 0))"
  define r'' where "r'' = r'\<lparr>lr_buffer := (case result of None \<Rightarrow> lr_buffer r'
      | Some x \<Rightarrow> (lr_buffer r')[lr_idxRead r' - 1 := moved x])\<rparr>"
  have "race_run moved (replicate n (Collects write_first)) (racing p Get_start taken r)
      = Some (racing p Get_idle (taken @ [result]) r'')"
    using assms by (auto simp: n_def r''_def race_simps log_get_def Let_def numeral_eq_Suc split: if_splits)
  then show ?thesis by (intro exI [of _ n] exI [of _ r'']) (simp add: r''_def)
qed

section \<open>An overlapping put and get\<close>

text \<open>
  The states between the calls and their returns, on a ring that is empty with its indices at \<open>w\<close>,
  before the end of the buffer \<open>b\<close>.
\<close>

definition put_phase :: "'a \<Rightarrow> nat \<Rightarrow> 'a put_pc \<Rightarrow> nat \<Rightarrow> bool" where
  "put_phase v w p i \<longleftrightarrow> (p \<in> {Put_start v, Put_test v, Put_claim v} \<and> i = w) \<or> (p \<in> {Put_store v w, Put_idle} \<and> i = w + 1)"

inductive get_phase :: "'a \<Rightarrow> 'a \<Rightarrow> nat \<Rightarrow> nat \<Rightarrow> get_pc \<Rightarrow> 'a option list \<Rightarrow> nat \<Rightarrow> bool" for v x w where
  starts: "get_phase v x w i Get_start [] w"
| loads: "get_phase v x w i Get_load [] w"
| reads: "get_phase v x w i (Get_saw_read w) [] w"
| writes: "get_phase v x w i (Get_saw_write w) [] w"
| found_none: "get_phase v x w i Get_idle [None] w"
| writes_next: "get_phase v x w (Suc w) (Get_saw_write (Suc w)) [] w"
| finds: "get_phase v x w (Suc w) Get_end [] w"
| claims: "get_phase v x w (Suc w) Get_claim [] w"
| moves: "get_phase v x w (Suc w) (Get_move w) [] (Suc w)"
| took_new: "get_phase v x w (Suc w) Get_idle [Some v] (Suc w)"
| took_old: "get_phase v x w (Suc w) Get_idle [Some x] (Suc w)"

text \<open>Until the entry is moved out, the buffer is as before or has the new entry.\<close>

definition overlap_inv :: "'a \<Rightarrow> nat \<Rightarrow> 'a list \<Rightarrow> 'a racing_ring \<Rightarrow> bool" where
  "overlap_inv v w b s \<longleftrightarrow> w < length b \<and> length (lr_buffer s) = length b \<and> \<not> lr_overflow s
     \<and> put_phase v w (rc_put s) (lr_idxWrite s)
     \<and> get_phase v (b ! w) w (lr_idxWrite s) (rc_get s) (rc_taken s) (lr_idxRead s)
     \<and> (rc_taken s \<in> {[], [None]} \<longrightarrow> lr_buffer s = (if rc_put s = Put_idle then b[w := v] else b))"

lemma get_phase_claimed: "get_phase v x w w g taken k \<Longrightarrow> get_phase v x w (Suc w) g taken k"
  by (erule get_phase.cases) (auto intro: get_phase.intros)

lemma overlap_put:
  assumes "overlap_inv v w b s" "put_step s = Some s'"
  shows "overlap_inv v w b s'"
proof -
  have i: "w < length b" "length (lr_buffer s) = length b" "\<not> lr_overflow s" "put_phase v w (rc_put s) (lr_idxWrite s)"
    "get_phase v (b ! w) w (lr_idxWrite s) (rc_get s) (rc_taken s) (lr_idxRead s)"
    "rc_taken s \<in> {[], [None]} \<longrightarrow> lr_buffer s = (if rc_put s = Put_idle then b[w := v] else b)"
    using assms(1) by (simp_all add: overlap_inv_def)
  from i(4) consider "rc_put s = Put_start v" "lr_idxWrite s = w" | "rc_put s = Put_test v" "lr_idxWrite s = w"
    | "rc_put s = Put_claim v" "lr_idxWrite s = w" | "rc_put s = Put_store v w" "lr_idxWrite s = w + 1" | "rc_put s = Put_idle"
    by (auto simp: put_phase_def)
  then show ?thesis
    using i(1-3,5,6) assms(2)
    by cases (auto simp: overlap_inv_def put_step_def put_phase_def get_phase_claimed)
qed

lemma overlap_get:
  assumes "overlap_inv v w b s" "get_step moved write_first s = Some s'"
  shows "overlap_inv v w b s'"
proof -
  have i: "w < length b" "length (lr_buffer s) = length b" "\<not> lr_overflow s" "put_phase v w (rc_put s) (lr_idxWrite s)"
    "get_phase v (b ! w) w (lr_idxWrite s) (rc_get s) (rc_taken s) (lr_idxRead s)"
    "rc_taken s \<in> {[], [None]} \<longrightarrow> lr_buffer s = (if rc_put s = Put_idle then b[w := v] else b)"
    using assms(1) by (simp_all add: overlap_inv_def)
  have at: "lr_idxWrite s = w \<or> lr_idxWrite s = w + 1" using i(4) by (auto simp: put_phase_def)
  have same: ?thesis
    if "get_phase v (b ! w) w (lr_idxWrite s) (rc_get s') (rc_taken s') (lr_idxRead s')" "rc_taken s = []"
      "lr_idxWrite s' = lr_idxWrite s" "lr_overflow s' = lr_overflow s" "lr_buffer s' = lr_buffer s" "rc_put s' = rc_put s"
    using i(1-4,6) that by (auto simp: overlap_inv_def)
  note laws = get_step_def get_phase.intros
  from i(5) show ?thesis
  proof cases
    case moves
    with i(1,6) have "lr_buffer s ! w = v \<or> lr_buffer s ! w = b ! w" by auto
    with moves i(1-4) assms(2) show ?thesis by (auto simp: overlap_inv_def laws)
  next
    case starts
    with i(3) assms(2) show ?thesis by (intro same) (auto simp: laws)
  next
    case loads
    with at assms(2) show ?thesis by (intro same) (auto simp: laws)
  next
    case reads
    with at assms(2) show ?thesis by (intro same) (auto simp: laws split: if_splits)
  next
    case writes
    with assms(2) show ?thesis by (intro same) (auto simp: laws)
  next
    case writes_next
    with assms(2) show ?thesis by (intro same) (auto simp: laws)
  next
    case finds
    with i(1,2) assms(2) show ?thesis by (intro same) (auto simp: laws)
  next
    case claims
    with assms(2) show ?thesis by (intro same) (auto simp: laws)
  qed (use assms(2) in \<open>simp_all add: get_step_def\<close>)
qed

lemma overlap_run: "race_run moved ts s = Some s' \<Longrightarrow> overlap_inv v w b s \<Longrightarrow> overlap_inv v w b s'"
proof (induction ts arbitrary: s)
  case (Cons t ts)
  then obtain s1 where s1: "turn_step moved t s = Some s1" "race_run moved ts s1 = Some s'" by (auto split: bind_splits)
  have "overlap_inv v w b s1"
    using s1(1) overlap_put [OF Cons.prems(2)] overlap_get [OF Cons.prems(2)] by (cases t) simp_all
  with Cons.IH [OF s1(2)] show ?case by blast
qed simp

section \<open>Properties\<close>


definition sample_ring :: "nat log_ring" where
  "sample_ring = \<lparr>lr_idxRead = 1, lr_idxWrite = 1, lr_overflow = False, lr_buffer = [7, 0]\<rparr>"

lemma sample_ring_empty: "log_ok 2 sample_ring" "log_pending sample_ring = []" "lr_idxWrite sample_ring < 2"
  by (simp_all add: sample_ring_def log_ok_def log_pending_def)


text \<open>
  At the end of the buffer the writer is between its two stores: a \<open>get\<close> that finds the write index
  reset and \<open>overflow\<close> not yet set takes the ring for one with entries. It returns the first slot's old
  entry, and afterwards the ring holds all the other old entries of the buffer before the new one.
\<close>

theorem get_during_wrap_revives_old_entries:
  assumes "log_ok N r" "log_pending r = []" "lr_idxWrite r = N"
  shows "\<exists>s ts. race_run moved ts (overlapping v r) = Some s \<and> returned s
    \<and> rc_taken s = [Some (lr_buffer r ! 0)] \<and> log_pending (ring_of s) = drop 1 (lr_buffer r) @ [v]"
proof -
  let ?b = "lr_buffer r"
  have r: "\<not> lr_overflow r" "lr_idxRead r = N" "length ?b = N" "0 < N" "lr_idxWrite r = N"
    using assms by (auto simp: log_ok_def log_pending_def split: if_splits)
  let ?s = "(racing Put_idle Get_idle [Some (?b ! 0)] r)\<lparr>lr_idxWrite := 1, lr_idxRead := 1, lr_overflow := True, lr_buffer := ?b[0 := v]\<rparr>"
  obtain x b where b: "?b = x # b" using r(3,4) by (cases ?b) auto
  have lb: "length b + 1 = N" using r(3) b by simp
  have "race_run moved (replicate 2 Logs @ replicate 8 (Collects True) @ replicate 5 Logs) (overlapping v r) = Some ?s"
    using r by (simp add: race_simps numeral_eq_Suc)
  moreover have "log_pending (ring_of ?s) = drop 1 ?b @ [v]" using b by (simp add: race_simps log_pending_def)
  moreover have "returned ?s" "rc_taken ?s = [Some (?b ! 0)]" by (simp_all add: race_simps)
  ultimately show ?thesis by blast
qed

theorem get_during_wrap_revives_old_entries_witness:
  "\<exists>s ts. race_run (\<lambda>_. 0) ts (overlapping 5 (\<lparr>lr_idxRead = 2, lr_idxWrite = 2, lr_overflow = False, lr_buffer = [7, 8]\<rparr> :: nat log_ring)) = Some s
     \<and> rc_taken s = [Some 7] \<and> log_pending (ring_of s) = [8, 5]"
proof -
  let ?r = "\<lparr>lr_idxRead = 2, lr_idxWrite = 2, lr_overflow = False, lr_buffer = [7, 8]\<rparr> :: nat log_ring"
  have "log_ok 2 ?r" "log_pending ?r = []" "lr_idxWrite ?r = 2" by (simp_all add: log_ok_def log_pending_def)
  from get_during_wrap_revives_old_entries [OF this, of "\<lambda>_. 0" 5] show ?thesis by auto
qed

text \<open>
  On a full ring the writer drops the oldest entry by advancing the read index. Between the reader's
  test for the end of the buffer and its own increment, this takes it past the last slot: the reader is
  about to move an entry out of memory behind the buffer.
\<close>

theorem get_may_read_behind_the_buffer:
  assumes "log_ok N r" "lr_overflow r" "lr_idxWrite r = lr_idxRead r" "lr_idxRead r = N - 1"
  shows "\<exists>s ts. race_run moved ts (overlapping v r) = Some s \<and> rc_get s = Get_move N \<and> length (lr_buffer s) = N"
proof -
  have r: "length (lr_buffer r) = N" "0 < N" using assms(1) by (simp_all add: log_ok_def)
  let ?s = "(racing (Put_claim v) (Get_move N) [] r)\<lparr>lr_idxRead := N + 1\<rparr>"
  have "race_run moved (replicate 2 (Collects True) @ replicate 4 Logs @ [Collects True]) (overlapping v r) = Some ?s"
    using assms(2-4) r by (simp add: race_simps numeral_eq_Suc)
  moreover have "rc_get ?s = Get_move N" "length (lr_buffer ?s) = N" using r(1) by (simp_all add: race_simps)
  ultimately show ?thesis by blast
qed

theorem get_may_read_behind_the_buffer_witness:
  "\<exists>s ts. race_run (\<lambda>_. 0) ts (overlapping 5 (\<lparr>lr_idxRead = 1, lr_idxWrite = 1, lr_overflow = True, lr_buffer = [7, 8]\<rparr> :: nat log_ring)) = Some s
     \<and> rc_get s = Get_move 2 \<and> length (lr_buffer s) = 2"
  by (rule get_may_read_behind_the_buffer) (simp_all add: log_ok_def)

end
