(* ===== verification/Metrics.thy ===== *)
theory Metrics
  imports Prelude "HOL-Library.Monad_Syntax"
begin

text \<open>
  The metrics of \<open>CommonModules/metrics/MetricsController.cpp\<close>: a registry of 256 slots, handles that
  point into it, and the three kinds of metric. First each operation on its own, then the atomic
  accesses of many threads that record into one histogram, where a step is one access and
  \<open>compare_exchange_weak\<close> may fail without cause. Each member of a slot is its own atomic variable
  whose updates are read-modify-write operations, so relaxed ordering does not lose any. A name is
  the text behind a pointer, up to its first zero.
\<close>

section \<open>Slots and handles\<close>

datatype metric_type = No_metric | Counter | Gauge | Histogram

definition MaxMetrics :: nat where "MaxMetrics = 256"

definition InitialMinValue :: u64 where "InitialMinValue = - 1"

record metric_slot =
  ms_value :: u64
  ms_sum :: u64
  ms_count :: u64
  ms_min :: u64
  ms_max :: u64

definition new_slot :: metric_slot where
  "new_slot = \<lparr>ms_value = 0, ms_sum = 0, ms_count = 0, ms_min = InitialMinValue, ms_max = 0\<rparr>"

text \<open>\<open>mh_slot\<close>: the index of the slot the handle points to.\<close>

record metric_handle =
  mh_index :: "16 word"
  mh_type :: metric_type
  mh_slot :: "nat option"

definition default_handle :: metric_handle where
  "default_handle = \<lparr>mh_index = 0, mh_type = Counter, mh_slot = None\<rparr>"

definition isValid :: "metric_handle \<Rightarrow> bool" where
  "isValid h \<longleftrightarrow> mh_slot h \<noteq> None \<and> mh_type h \<noteq> No_metric"

section \<open>The registry\<close>

record metric_registry =
  mr_slots :: "metric_slot list"
  mr_names :: "string option list"
  mr_types :: "metric_type list"
  mr_registeredCount :: "16 word"
  mr_initialized :: bool

definition new_registry :: metric_registry where
  "new_registry = \<lparr>mr_slots = replicate MaxMetrics new_slot, mr_names = replicate MaxMetrics None,
     mr_types = replicate MaxMetrics No_metric, mr_registeredCount = 0, mr_initialized = False\<rparr>"

text \<open>\<open>name\<close> is the text from \<open>name.data()\<close> on; running out of slots ends the program.\<close>

definition registerMetric :: "metric_type \<Rightarrow> string \<Rightarrow> metric_registry \<Rightarrow> (metric_handle \<times> metric_registry) option" where
  "registerMetric Type name r =
    (if mr_initialized r then Some (default_handle, r)
     else let idx = mr_registeredCount r; r1 = r\<lparr>mr_registeredCount := idx + 1\<rparr>
          in if unat idx \<ge> MaxMetrics then None
             else Some (\<lparr>mh_index = idx, mh_type = Type, mh_slot = Some (unat idx)\<rparr>,
                        r1\<lparr>mr_names := (mr_names r1)[unat idx := Some name],
                           mr_types := (mr_types r1)[unat idx := Type]\<rparr>))"

definition finalize_metrics :: "metric_registry \<Rightarrow> metric_registry" where
  "finalize_metrics r = r\<lparr>mr_initialized := True\<rparr>"

definition at_slot :: "metric_handle \<Rightarrow> (metric_slot \<Rightarrow> metric_slot) \<Rightarrow> metric_registry \<Rightarrow> metric_registry option" where
  "at_slot h f r =
    (case mh_slot h of
       None \<Rightarrow> None
     | Some i \<Rightarrow> if i < length (mr_slots r) then Some (r\<lparr>mr_slots := (mr_slots r)[i := f (mr_slots r ! i)]\<rparr>) else None)"

definition metric_increment :: "metric_handle \<Rightarrow> u64 \<Rightarrow> metric_registry \<Rightarrow> metric_registry option" where
  "metric_increment h delta r =
    (if \<not> isValid h \<or> mh_type h \<noteq> Counter then Some r
     else at_slot h (\<lambda>s. s\<lparr>ms_value := ms_value s + delta\<rparr>) r)"

definition setGauge :: "metric_handle \<Rightarrow> u64 \<Rightarrow> metric_registry \<Rightarrow> metric_registry option" where
  "setGauge h v r =
    (if \<not> isValid h \<or> mh_type h \<noteq> Gauge then Some r else at_slot h (\<lambda>s. s\<lparr>ms_value := v\<rparr>) r)"

text \<open>The loops of \<open>recordHistogram\<close> when no other thread is in between.\<close>

definition record_value :: "u64 \<Rightarrow> metric_slot \<Rightarrow> metric_slot" where
  "record_value v s =
    (let s1 = s\<lparr>ms_count := ms_count s + 1\<rparr>;
         s2 = s1\<lparr>ms_sum := ms_sum s1 + v\<rparr>;
         s3 = (if v < ms_min s2 then s2\<lparr>ms_min := v\<rparr> else s2)
     in if v > ms_max s3 then s3\<lparr>ms_max := v\<rparr> else s3)"

definition recordHistogram :: "metric_handle \<Rightarrow> u64 \<Rightarrow> metric_registry \<Rightarrow> metric_registry option" where
  "recordHistogram h v r = (if mh_type h \<noteq> Histogram then Some r else at_slot h (record_value v) r)"

record metric_snapshot =
  sn_name :: "string option"
  sn_type :: metric_type
  sn_slot :: metric_slot

definition c_string :: "string \<Rightarrow> string" where
  "c_string = takeWhile (\<lambda>c. c \<noteq> CHR 0x00)"

definition metrics_snapshot :: "metric_registry \<Rightarrow> metric_snapshot list" where
  "metrics_snapshot r =
    map (\<lambda>i. \<lparr>sn_name = map_option c_string (mr_names r ! i), sn_type = mr_types r ! i, sn_slot = mr_slots r ! i\<rparr>)
      [0..<unat (mr_registeredCount r)]"

definition reset_slot :: "metric_slot \<Rightarrow> metric_slot" where
  "reset_slot s = s\<lparr>ms_sum := 0, ms_count := 0, ms_min := InitialMinValue, ms_max := 0\<rparr>"

definition resetHistograms :: "metric_registry \<Rightarrow> metric_registry" where
  "resetHistograms r =
    r\<lparr>mr_slots := map (\<lambda>i. if i < unat (mr_registeredCount r) \<and> mr_types r ! i = Histogram
                            then reset_slot (mr_slots r ! i) else mr_slots r ! i) [0..<length (mr_slots r)]\<rparr>"

section \<open>Metrics do not disturb each other\<close>

fun register_all :: "(metric_type \<times> string) list \<Rightarrow> metric_registry \<Rightarrow> (metric_handle list \<times> metric_registry) option" where
  "register_all [] r = Some ([], r)"
| "register_all ((Type, name) # ts) r =
     do { (h, r1) \<leftarrow> registerMetric Type name r; (hs, r2) \<leftarrow> register_all ts r1; Some (h # hs, r2) }"

datatype metric_op = Increment u64 | Set_gauge u64 | Record u64

definition apply_metric :: "metric_handle \<Rightarrow> metric_op \<Rightarrow> metric_registry \<Rightarrow> metric_registry option" where
  "apply_metric h op r =
    (case op of Increment d \<Rightarrow> metric_increment h d r | Set_gauge v \<Rightarrow> setGauge h v r | Record v \<Rightarrow> recordHistogram h v r)"

fun run_metrics :: "metric_handle list \<Rightarrow> (nat \<times> metric_op) list \<Rightarrow> metric_registry \<Rightarrow> metric_registry option" where
  "run_metrics hs [] r = Some r"
| "run_metrics hs ((j, op) # ops) r =
     (if j < length hs then Option.bind (apply_metric (hs ! j) op r) (run_metrics hs ops) else None)"

text \<open>What an operation means for a metric of a type: the wrong operation means nothing.\<close>

definition slot_effect :: "metric_type \<Rightarrow> metric_op \<Rightarrow> metric_slot \<Rightarrow> metric_slot" where
  "slot_effect Type op s =
    (case op of
       Increment d \<Rightarrow> (if Type = Counter then s\<lparr>ms_value := ms_value s + d\<rparr> else s)
     | Set_gauge v \<Rightarrow> (if Type = Gauge then s\<lparr>ms_value := v\<rparr> else s)
     | Record v \<Rightarrow> (if Type = Histogram then record_value v s else s))"

definition ops_of :: "nat \<Rightarrow> (nat \<times> metric_op) list \<Rightarrow> metric_op list" where
  "ops_of i ops = map snd (filter (\<lambda>(j, _). j = i) ops)"

lemma ops_of_simps [simp]:
  "ops_of i [] = []" "ops_of i ((j, op) # ops) = (if j = i then op # ops_of i ops else ops_of i ops)"
  by (simp_all add: ops_of_def)

definition handle_of :: "nat \<Rightarrow> metric_type \<Rightarrow> metric_handle" where
  "handle_of i Type = \<lparr>mh_index = of_nat i, mh_type = Type, mh_slot = Some i\<rparr>"

definition registered :: "(metric_type \<times> string) list \<Rightarrow> metric_registry \<Rightarrow> bool" where
  "registered ts r \<longleftrightarrow> \<not> mr_initialized r \<and> length ts \<le> MaxMetrics \<and> unat (mr_registeredCount r) = length ts
    \<and> length (mr_slots r) = MaxMetrics \<and> length (mr_names r) = MaxMetrics \<and> length (mr_types r) = MaxMetrics
    \<and> (\<forall>i<length ts. mr_types r ! i = fst (ts ! i) \<and> mr_names r ! i = Some (snd (ts ! i)))"

lemma registered_new: "registered [] new_registry"
  by (simp add: registered_def new_registry_def)

lemma register_one:
  assumes "registered ts r" "length ts < MaxMetrics"
  shows "\<exists>r'. registerMetric Type name r = Some (handle_of (length ts) Type, r') \<and> registered (ts @ [(Type, name)]) r'
    \<and> mr_slots r' = mr_slots r"
proof -
  let ?i = "length ts"
  let ?r = "r\<lparr>mr_registeredCount := mr_registeredCount r + 1, mr_names := (mr_names r)[?i := Some name],
              mr_types := (mr_types r)[?i := Type]\<rparr>"
  have c: "unat (mr_registeredCount r) = ?i" using assms(1) by (simp add: registered_def)
  then have idx: "mr_registeredCount r = of_nat ?i" by (metis of_nat_unat ucast_id)
  have "unat (mr_registeredCount r + 1) = Suc ?i"
    using c assms(2) by (simp add: unat_word_ariths MaxMetrics_def)
  then have "registered (ts @ [(Type, name)]) ?r"
    using assms by (auto simp: registered_def nth_append nth_list_update less_Suc_eq)
  moreover have "registerMetric Type name r = Some (handle_of ?i Type, ?r)"
    using assms c idx by (simp add: registerMetric_def registered_def handle_of_def Let_def)
  ultimately show ?thesis by auto
qed

lemma register_rest:
  "registered ts r \<Longrightarrow> length ts + length us \<le> MaxMetrics \<Longrightarrow>
     \<exists>r'. register_all us r = Some (map (\<lambda>i. handle_of (length ts + i) (fst (us ! i))) [0..<length us], r')
       \<and> registered (ts @ us) r' \<and> mr_slots r' = mr_slots r"
proof (induction us arbitrary: ts r)
  case (Cons u us)
  obtain Type name where u: "u = (Type, name)" by (cases u)
  obtain r1 where r1: "registerMetric Type name r = Some (handle_of (length ts) Type, r1)"
    "registered (ts @ [u]) r1" "mr_slots r1 = mr_slots r"
    using register_one [OF Cons.prems(1), of Type name] Cons.prems(2) u by auto
  obtain r2 where r2: "register_all us r1 = Some (map (\<lambda>i. handle_of (length (ts @ [u]) + i) (fst (us ! i))) [0..<length us], r2)"
    "registered ((ts @ [u]) @ us) r2" "mr_slots r2 = mr_slots r1"
    using Cons.IH [OF r1(2)] Cons.prems(2) by auto
  have "map (\<lambda>i. handle_of (length ts + i) (fst ((u # us) ! i))) [0..<length (u # us)]
      = handle_of (length ts) Type # map (\<lambda>i. handle_of (length (ts @ [u]) + i) (fst (us ! i))) [0..<length us]"
    using u by (simp add: upt_conv_Cons map_Suc_upt [symmetric] comp_def del: upt_Suc)
  with r1 r2 u show ?case by simp
qed simp

lemma apply_metric_at:
  assumes "Type \<noteq> No_metric" "i < length (mr_slots r)"
  shows "\<exists>r'. apply_metric (handle_of i Type) op r = Some r'
    \<and> mr_slots r' = (mr_slots r)[i := slot_effect Type op (mr_slots r ! i)]
    \<and> mr_names r' = mr_names r \<and> mr_types r' = mr_types r \<and> mr_registeredCount r' = mr_registeredCount r"
  using assms
  by (cases op) (auto simp: apply_metric_def handle_of_def metric_increment_def setGauge_def recordHistogram_def
      isValid_def at_slot_def slot_effect_def list_update_id)

lemma run_metrics_at:
  assumes "\<forall>i<length ts. fst (ts ! i) \<noteq> No_metric" "length ts \<le> length (mr_slots r)" "\<forall>(j, _)\<in>set ops. j < length ts"
  shows "\<exists>r'. run_metrics (map (\<lambda>i. handle_of i (fst (ts ! i))) [0..<length ts]) ops r = Some r'
    \<and> (\<forall>i<length ts. mr_slots r' ! i = fold (slot_effect (fst (ts ! i))) (ops_of i ops) (mr_slots r ! i))
    \<and> mr_names r' = mr_names r \<and> mr_types r' = mr_types r \<and> mr_registeredCount r' = mr_registeredCount r"
  using assms(2,3)
proof (induction ops arbitrary: r)
  case (Cons a ops)
  obtain j op where a: "a = (j, op)" by (cases a)
  have j: "j < length ts" using Cons.prems(2) a by simp
  obtain r1 where r1: "apply_metric (handle_of j (fst (ts ! j))) op r = Some r1"
    "mr_slots r1 = (mr_slots r)[j := slot_effect (fst (ts ! j)) op (mr_slots r ! j)]"
    "mr_names r1 = mr_names r" "mr_types r1 = mr_types r" "mr_registeredCount r1 = mr_registeredCount r"
    using apply_metric_at [of "fst (ts ! j)" j r op] assms(1) j Cons.prems(1) by auto
  have "length ts \<le> length (mr_slots r1)" using r1(2) Cons.prems(1) by simp
  with Cons.IH [OF this] Cons.prems r1 a j show ?case by (auto simp: nth_list_update)
qed simp

lemma mr_finalize [simp]:
  "mr_slots (finalize_metrics r) = mr_slots r" "mr_names (finalize_metrics r) = mr_names r"
  "mr_types (finalize_metrics r) = mr_types r" "mr_registeredCount (finalize_metrics r) = mr_registeredCount r"
  by (simp_all add: finalize_metrics_def)

text \<open>
  Up to 256 metrics can be registered, and then every sequence of increments, gauge writes and
  histogram records through their handles runs, and the snapshot shows for each metric its name up
  to the first zero, its type, and exactly what the operations of its own type did to it: the sum of
  the increments, the last gauge value, or count, sum, minimum and maximum of the recorded values.
  Operations of another type and operations on other metrics leave it alone.
\<close>

theorem metrics_keep_apart:
  assumes "length ts \<le> MaxMetrics" "\<forall>(Type, _)\<in>set ts. Type \<noteq> No_metric" "\<forall>(j, _)\<in>set ops. j < length ts"
  shows "\<exists>hs r r'. register_all ts new_registry = Some (hs, r) \<and> run_metrics hs ops (finalize_metrics r) = Some r'
    \<and> metrics_snapshot r' =
       map (\<lambda>i. \<lparr>sn_name = Some (c_string (snd (ts ! i))), sn_type = fst (ts ! i),
                  sn_slot = fold (slot_effect (fst (ts ! i))) (ops_of i ops) new_slot\<rparr>) [0..<length ts]"
proof -
  let ?hs = "map (\<lambda>i. handle_of i (fst (ts ! i))) [0..<length ts]"
  obtain r where r: "register_all ts new_registry = Some (?hs, r)" "registered ts r" "mr_slots r = mr_slots new_registry"
    using register_rest [OF registered_new, of ts] assms(1) by auto
  have types: "\<forall>i<length ts. fst (ts ! i) \<noteq> No_metric" using assms(2) nth_mem by fastforce
  obtain r' where r': "run_metrics ?hs ops (finalize_metrics r) = Some r'"
    "\<forall>i<length ts. mr_slots r' ! i = fold (slot_effect (fst (ts ! i))) (ops_of i ops) (mr_slots r ! i)"
    "mr_names r' = mr_names r" "mr_types r' = mr_types r" "mr_registeredCount r' = mr_registeredCount r"
    using run_metrics_at [OF types _ assms(3), of "finalize_metrics r"] r(2) by (auto simp: registered_def)
  have "mr_slots r ! i = new_slot" if "i < length ts" for i
    using that assms(1) r(3) by (simp add: new_registry_def)
  with r r' show ?thesis by (auto simp: metrics_snapshot_def registered_def)
qed

theorem metrics_keep_apart_witness:
  "\<exists>hs r r'. register_all [(Counter, ''a'' @ [CHR 0x00]), (Histogram, ''lat'' @ [CHR 0x00, CHR ''x''])] new_registry = Some (hs, r)
    \<and> run_metrics hs [(0, Increment 2), (1, Record 7), (1, Set_gauge 1), (0, Increment 3), (1, Record 5)] (finalize_metrics r) = Some r'
    \<and> metrics_snapshot r' =
        [\<lparr>sn_name = Some ''a'', sn_type = Counter, sn_slot = new_slot\<lparr>ms_value := 5\<rparr>\<rparr>,
         \<lparr>sn_name = Some ''lat'', sn_type = Histogram,
          sn_slot = new_slot\<lparr>ms_sum := 12, ms_count := 2, ms_min := 5, ms_max := 7\<rparr>\<rparr>]"
  using metrics_keep_apart [of "[(Counter, ''a'' @ [CHR 0x00]), (Histogram, ''lat'' @ [CHR 0x00, CHR ''x''])]"
      "[(0, Increment 2), (1, Record 7), (1, Set_gauge 1), (0, Increment 3), (1, Record 5)]"]
  by (simp add: MaxMetrics_def upt_rec slot_effect_def record_value_def new_slot_def InitialMinValue_def c_string_def Let_def)

end
