(* ===== verification/Metrics_Concurrent.thy ===== *)
theory Metrics_Concurrent
  imports Metrics
begin

text \<open>
  Many threads that record into one histogram, \<open>MetricRegistry::recordHistogram\<close> of
  \<open>CommonModules/metrics/MetricsController.cpp\<close>, as an interleaving of their atomic accesses, and the
  exporter that resets the histogram between them. A failed \<open>compare_exchange_weak\<close> leaves the value
  it found in the caller's variable; it may also fail although the values agree.
\<close>

section \<open>Threads\<close>

text \<open>Where a recording thread is, with its \<open>value\<close> and its \<open>oldMin\<close> or \<open>oldMax\<close>.\<close>

datatype record_pc =
    Idle
  | At_sum u64
  | At_min_load u64
  | At_min_cas u64 u64
  | At_max_load u64
  | At_max_cas u64 u64

record hist_state =
  hs_slot :: metric_slot
  hs_pc :: "nat \<Rightarrow> record_pc"

definition hist_start :: hist_state where
  "hist_start = \<lparr>hs_slot = new_slot, hs_pc = (\<lambda>_. Idle)\<rparr>"

text \<open>The conditions of the two loops.\<close>

definition min_loop :: "u64 \<Rightarrow> u64 \<Rightarrow> record_pc" where
  "min_loop v oldMin = (if v < oldMin then At_min_cas v oldMin else At_max_load v)"

definition max_loop :: "u64 \<Rightarrow> u64 \<Rightarrow> record_pc" where
  "max_loop v oldMax = (if v > oldMax then At_max_cas v oldMax else Idle)"

abbreviation goes :: "nat \<Rightarrow> record_pc \<Rightarrow> hist_state \<Rightarrow> hist_state" where
  "goes t pc s \<equiv> s\<lparr>hs_pc := (hs_pc s)(t := pc)\<rparr>"

text \<open>One access of thread \<open>t\<close>; the third argument is the value whose recording begins with it.\<close>

inductive record_step :: "nat \<Rightarrow> hist_state \<Rightarrow> u64 list \<Rightarrow> hist_state \<Rightarrow> bool" for t where
  count: "hs_pc s t = Idle \<Longrightarrow>
    record_step t s [v] (goes t (At_sum v) (s\<lparr>hs_slot := (hs_slot s)\<lparr>ms_count := ms_count (hs_slot s) + 1\<rparr>\<rparr>))"
| sum: "hs_pc s t = At_sum v \<Longrightarrow>
    record_step t s [] (goes t (At_min_load v) (s\<lparr>hs_slot := (hs_slot s)\<lparr>ms_sum := ms_sum (hs_slot s) + v\<rparr>\<rparr>))"
| min_load: "hs_pc s t = At_min_load v \<Longrightarrow> record_step t s [] (goes t (min_loop v (ms_min (hs_slot s))) s)"
| min_set: "hs_pc s t = At_min_cas v oldMin \<Longrightarrow> ms_min (hs_slot s) = oldMin \<Longrightarrow>
    record_step t s [] (goes t (At_max_load v) (s\<lparr>hs_slot := (hs_slot s)\<lparr>ms_min := v\<rparr>\<rparr>))"
| min_failed: "hs_pc s t = At_min_cas v oldMin \<Longrightarrow> record_step t s [] (goes t (min_loop v (ms_min (hs_slot s))) s)"
| max_load: "hs_pc s t = At_max_load v \<Longrightarrow> record_step t s [] (goes t (max_loop v (ms_max (hs_slot s))) s)"
| max_set: "hs_pc s t = At_max_cas v oldMax \<Longrightarrow> ms_max (hs_slot s) = oldMax \<Longrightarrow>
    record_step t s [] (goes t Idle (s\<lparr>hs_slot := (hs_slot s)\<lparr>ms_max := v\<rparr>\<rparr>))"
| max_failed: "hs_pc s t = At_max_cas v oldMax \<Longrightarrow> record_step t s [] (goes t (max_loop v (ms_max (hs_slot s))) s)"

inductive_cases record_stepE: "record_step t s vs s'"

text \<open>Runs of \<open>n\<close> threads, with the values whose recording has begun.\<close>

inductive record_run :: "nat \<Rightarrow> hist_state \<Rightarrow> u64 list \<Rightarrow> bool" for n where
  starts: "record_run n hist_start []"
| steps: "record_run n s vs \<Longrightarrow> t < n \<Longrightarrow> record_step t s new s' \<Longrightarrow> record_run n s' (vs @ new)"

section \<open>The invariant\<close>

definition sum_due :: "record_pc \<Rightarrow> u64" where
  "sum_due pc = (case pc of At_sum v \<Rightarrow> v | _ \<Rightarrow> 0)"

definition min_due :: "record_pc \<Rightarrow> u64 \<Rightarrow> bool" where
  "min_due pc v \<longleftrightarrow> (case pc of At_sum w \<Rightarrow> w = v | At_min_load w \<Rightarrow> w = v | At_min_cas w _ \<Rightarrow> w = v | _ \<Rightarrow> False)"

definition max_due :: "record_pc \<Rightarrow> u64 \<Rightarrow> bool" where
  "max_due pc v \<longleftrightarrow> (case pc of At_max_load w \<Rightarrow> w = v | At_max_cas w _ \<Rightarrow> w = v | _ \<Rightarrow> min_due pc v)"

definition pc_value :: "record_pc \<Rightarrow> u64 option" where
  "pc_value pc = (case pc of Idle \<Rightarrow> None | At_sum v \<Rightarrow> Some v | At_min_load v \<Rightarrow> Some v | At_min_cas v _ \<Rightarrow> Some v
     | At_max_load v \<Rightarrow> Some v | At_max_cas v _ \<Rightarrow> Some v)"

definition pc_ok :: "record_pc \<Rightarrow> bool" where
  "pc_ok pc = (case pc of At_min_cas v old \<Rightarrow> v < old | At_max_cas v old \<Rightarrow> v > old | _ \<Rightarrow> True)"

text \<open>Each part of the invariant on its own: the members of the slot are independent.\<close>

definition counts_ok :: "hist_state \<Rightarrow> u64 list \<Rightarrow> bool" where
  "counts_ok s vs \<longleftrightarrow> ms_count (hs_slot s) = of_nat (length vs)"

definition sums_ok :: "nat \<Rightarrow> hist_state \<Rightarrow> u64 list \<Rightarrow> bool" where
  "sums_ok n s vs \<longleftrightarrow> ms_sum (hs_slot s) + (\<Sum>t<n. sum_due (hs_pc s t)) = sum_list vs"

definition mins_ok :: "hist_state \<Rightarrow> u64 list \<Rightarrow> bool" where
  "mins_ok s vs \<longleftrightarrow> (\<forall>v\<in>set vs. ms_min (hs_slot s) \<le> v \<or> (\<exists>t. min_due (hs_pc s t) v))
    \<and> (ms_min (hs_slot s) = InitialMinValue \<or> ms_min (hs_slot s) \<in> set vs)"

definition maxs_ok :: "hist_state \<Rightarrow> u64 list \<Rightarrow> bool" where
  "maxs_ok s vs \<longleftrightarrow> (\<forall>v\<in>set vs. v \<le> ms_max (hs_slot s) \<or> (\<exists>t. max_due (hs_pc s t) v))
    \<and> (ms_max (hs_slot s) = 0 \<or> ms_max (hs_slot s) \<in> set vs)"

definition pcs_ok :: "hist_state \<Rightarrow> u64 list \<Rightarrow> bool" where
  "pcs_ok s vs \<longleftrightarrow> (\<forall>t. pc_ok (hs_pc s t) \<and> (\<forall>v. pc_value (hs_pc s t) = Some v \<longrightarrow> v \<in> set vs))"

lemmas pc_defs = sum_due_def min_due_def max_due_def pc_value_def pc_ok_def min_loop_def max_loop_def

lemma pcs_step: "record_step t s new s' \<Longrightarrow> pcs_ok s vs \<Longrightarrow> pcs_ok s' (vs @ new)"
  by (cases rule: record_stepE, assumption) (auto simp: pcs_ok_def pc_defs split: record_pc.splits if_splits)

lemma counts_step: "record_step t s new s' \<Longrightarrow> counts_ok s vs \<Longrightarrow> counts_ok s' (vs @ new)"
  by (cases rule: record_stepE, assumption) (auto simp: counts_ok_def)

lemma sum_update:
  fixes f :: "nat \<Rightarrow> u64"
  assumes "t < n" "\<And>i. i \<noteq> t \<Longrightarrow> g i = f i"
  shows "(\<Sum>i<n. g i) = (\<Sum>i<n. f i) - f t + g t"
proof -
  have "(\<Sum>i<n. g i) = g t + (\<Sum>i\<in>{..<n} - {t}. g i)" "(\<Sum>i<n. f i) = f t + (\<Sum>i\<in>{..<n} - {t}. f i)"
    using assms(1) by (simp_all add: sum.remove)
  moreover have "(\<Sum>i\<in>{..<n} - {t}. g i) = (\<Sum>i\<in>{..<n} - {t}. f i)" using assms(2) by (intro sum.cong) auto
  ultimately show ?thesis by simp
qed

lemma sums_step:
  assumes "record_step t s new s'" "t < n" "sums_ok n s vs"
  shows "sums_ok n s' (vs @ new)"
proof -
  have others: "hs_pc s' i = hs_pc s i" if "i \<noteq> t" for i
    using assms(1) that by (cases rule: record_stepE) auto
  have "ms_sum (hs_slot s') + sum_due (hs_pc s' t) = ms_sum (hs_slot s) + sum_due (hs_pc s t) + sum_list new"
    using assms(1) by (cases rule: record_stepE) (auto simp: pc_defs)
  then have sum: "ms_sum (hs_slot s') = ms_sum (hs_slot s) + sum_due (hs_pc s t) + sum_list new - sum_due (hs_pc s' t)"
    by (metis add_diff_cancel_right')
  have "(\<Sum>i<n. sum_due (hs_pc s' i)) = (\<Sum>i<n. sum_due (hs_pc s i)) - sum_due (hs_pc s t) + sum_due (hs_pc s' t)"
    by (rule sum_update [OF assms(2)]) (use others in simp)
  then have "ms_sum (hs_slot s') + (\<Sum>i<n. sum_due (hs_pc s' i))
      = ms_sum (hs_slot s) + (\<Sum>i<n. sum_due (hs_pc s i)) + sum_list new"
    unfolding sum by (simp add: algebra_simps)
  with assms(3) show ?thesis by (simp add: sums_ok_def)
qed

lemma step_others: "record_step t s new s' \<Longrightarrow> i \<noteq> t \<Longrightarrow> hs_pc s' i = hs_pc s i"
  by (cases rule: record_stepE, assumption) auto

lemma min_step_mono: "record_step t s new s' \<Longrightarrow> pc_ok (hs_pc s t) \<Longrightarrow> ms_min (hs_slot s') \<le> ms_min (hs_slot s)"
  by (cases rule: record_stepE, assumption) (auto simp: pc_ok_def)

lemma min_step_due:
  "record_step t s new s' \<Longrightarrow> min_due (hs_pc s t) v \<Longrightarrow> min_due (hs_pc s' t) v \<or> ms_min (hs_slot s') \<le> v"
  by (cases rule: record_stepE, assumption) (simp_all add: min_due_def min_loop_def not_less)

lemma min_step_new: "record_step t s new s' \<Longrightarrow> v \<in> set new \<Longrightarrow> min_due (hs_pc s' t) v"
  by (cases rule: record_stepE, assumption) (simp_all add: min_due_def)

lemma min_step_source:
  "record_step t s new s' \<Longrightarrow>
     ms_min (hs_slot s') = ms_min (hs_slot s) \<or> pc_value (hs_pc s t) = Some (ms_min (hs_slot s'))"
  by (cases rule: record_stepE, assumption) (simp_all add: pc_value_def)

lemma max_step_mono: "record_step t s new s' \<Longrightarrow> pc_ok (hs_pc s t) \<Longrightarrow> ms_max (hs_slot s) \<le> ms_max (hs_slot s')"
  by (cases rule: record_stepE, assumption) (auto simp: pc_ok_def)

lemma max_step_due:
  "record_step t s new s' \<Longrightarrow> max_due (hs_pc s t) v \<Longrightarrow> max_due (hs_pc s' t) v \<or> v \<le> ms_max (hs_slot s')"
  by (cases rule: record_stepE, assumption)
    (simp_all add: max_due_def min_due_def max_loop_def min_loop_def not_less)

lemma max_step_new: "record_step t s new s' \<Longrightarrow> v \<in> set new \<Longrightarrow> max_due (hs_pc s' t) v"
  by (cases rule: record_stepE, assumption) (simp_all add: max_due_def min_due_def)

lemma max_step_source:
  "record_step t s new s' \<Longrightarrow>
     ms_max (hs_slot s') = ms_max (hs_slot s) \<or> pc_value (hs_pc s t) = Some (ms_max (hs_slot s'))"
  by (cases rule: record_stepE, assumption) (simp_all add: pc_value_def)

lemma mins_step:
  assumes step: "record_step t s new s'" and pcs: "pcs_ok s vs" and mins: "mins_ok s vs"
  shows "mins_ok s' (vs @ new)"
proof -
  have ok: "pc_ok (hs_pc s t)" using pcs by (simp add: pcs_ok_def)
  note f = min_step_mono [OF step ok] min_step_due [OF step] min_step_new [OF step] min_step_source [OF step]
  have "ms_min (hs_slot s') \<le> v \<or> (\<exists>i. min_due (hs_pc s' i) v)" if v: "v \<in> set (vs @ new)" for v
  proof (cases "v \<in> set new")
    case True
    then show ?thesis using f(3) by blast
  next
    case False
    then consider "ms_min (hs_slot s) \<le> v" | i where "min_due (hs_pc s i) v"
      using v mins unfolding mins_ok_def by (metis Un_iff set_append)
    then show ?thesis
    proof cases
      case 1
      then show ?thesis using f(1) by (meson order_trans)
    next
      case 2
      then show ?thesis using f(2) [of v] step_others [OF step, of i] by (cases "i = t") metis+
    qed
  qed
  moreover have "ms_min (hs_slot s') = InitialMinValue \<or> ms_min (hs_slot s') \<in> set (vs @ new)"
    using f(4) mins pcs by (auto simp: mins_ok_def pcs_ok_def)
  ultimately show ?thesis by (simp add: mins_ok_def)
qed

lemma maxs_step:
  assumes step: "record_step t s new s'" and pcs: "pcs_ok s vs" and maxs: "maxs_ok s vs"
  shows "maxs_ok s' (vs @ new)"
proof -
  have ok: "pc_ok (hs_pc s t)" using pcs by (simp add: pcs_ok_def)
  note f = max_step_mono [OF step ok] max_step_due [OF step] max_step_new [OF step] max_step_source [OF step]
  have "v \<le> ms_max (hs_slot s') \<or> (\<exists>i. max_due (hs_pc s' i) v)" if v: "v \<in> set (vs @ new)" for v
  proof (cases "v \<in> set new")
    case True
    then show ?thesis using f(3) by blast
  next
    case False
    then consider "v \<le> ms_max (hs_slot s)" | i where "max_due (hs_pc s i) v"
      using v maxs unfolding maxs_ok_def by (metis Un_iff set_append)
    then show ?thesis
    proof cases
      case 1
      then show ?thesis using f(1) by (meson order_trans)
    next
      case 2
      then show ?thesis using f(2) [of v] step_others [OF step, of i] by (cases "i = t") metis+
    qed
  qed
  moreover have "ms_max (hs_slot s') = 0 \<or> ms_max (hs_slot s') \<in> set (vs @ new)"
    using f(4) maxs pcs by (auto simp: maxs_ok_def pcs_ok_def)
  ultimately show ?thesis by (simp add: maxs_ok_def)
qed

lemma record_run_inv:
  "record_run n s vs \<Longrightarrow> pcs_ok s vs \<and> counts_ok s vs \<and> sums_ok n s vs \<and> mins_ok s vs \<and> maxs_ok s vs"
proof (induction rule: record_run.induct)
  case starts
  then show ?case
    by (simp add: hist_start_def new_slot_def pcs_ok_def counts_ok_def sums_ok_def mins_ok_def maxs_ok_def pc_defs)
next
  case (steps s vs t new s')
  then show ?case
    using pcs_step [OF steps.hyps(3)] counts_step [OF steps.hyps(3)] sums_step [OF steps.hyps(3,2)]
      mins_step [OF steps.hyps(3)] maxs_step [OF steps.hyps(3)] by blast
qed

lemma fold_min_unique:
  fixes m :: u64
  assumes "\<And>v. v \<in> set vs \<Longrightarrow> m \<le> v" "m = InitialMinValue \<or> m \<in> set vs"
  shows "m = fold min vs InitialMinValue"
proof -
  have top: "x \<le> InitialMinValue" for x :: u64 by (simp add: InitialMinValue_def)
  have "fold min vs InitialMinValue = Min (insert InitialMinValue (set vs))" by (simp add: Min.set_eq_fold flip: list.set(2))
  moreover have "Min (insert InitialMinValue (set vs)) = m"
    using assms top by (intro Min_eqI) auto
  ultimately show ?thesis by simp
qed

lemma fold_max_unique:
  fixes m :: u64
  assumes "\<And>v. v \<in> set vs \<Longrightarrow> v \<le> m" "m = 0 \<or> m \<in> set vs"
  shows "m = fold max vs 0"
proof -
  have "fold max vs 0 = Max (insert 0 (set vs))" by (simp add: Max.set_eq_fold flip: list.set(2))
  moreover have "Max (insert 0 (set vs)) = m" using assms by (intro Max_eqI) auto
  ultimately show ?thesis by simp
qed

text \<open>
  C40. However the threads that record into a histogram are interleaved, and however often a
  \<open>compare_exchange_weak\<close> fails, nothing is lost: whenever no thread is inside \<open>recordHistogram\<close>, the
  count, the sum, the minimum and the maximum are those of all the values recorded.
\<close>

theorem concurrent_histogram_exact:
  assumes "record_run n s vs" "\<forall>t. hs_pc s t = Idle"
  shows "ms_count (hs_slot s) = of_nat (length vs) \<and> ms_sum (hs_slot s) = sum_list vs
    \<and> ms_min (hs_slot s) = fold min vs InitialMinValue \<and> ms_max (hs_slot s) = fold max vs 0"
proof -
  note i = record_run_inv [OF assms(1)]
  have "ms_min (hs_slot s) = fold min vs InitialMinValue"
    by (rule fold_min_unique) (use i assms(2) in \<open>auto simp: mins_ok_def pc_defs\<close>)
  moreover have "ms_max (hs_slot s) = fold max vs 0"
    by (rule fold_max_unique) (use i assms(2) in \<open>auto simp: maxs_ok_def pc_defs\<close>)
  ultimately show ?thesis using i assms(2) by (simp add: counts_ok_def sums_ok_def pc_defs)
qed

text \<open>One thread records 5, another 9; both find the initial minimum, and the second one's exchange fails.\<close>

definition two_state :: "u64 \<Rightarrow> u64 \<Rightarrow> u64 \<Rightarrow> u64 \<Rightarrow> record_pc \<Rightarrow> record_pc \<Rightarrow> hist_state" where
  "two_state c s m x p q =
     \<lparr>hs_slot = \<lparr>ms_value = 0, ms_sum = s, ms_count = c, ms_min = m, ms_max = x\<rparr>,
      hs_pc = (\<lambda>t. if t = 0 then p else if t = 1 then q else Idle)\<rparr>"

lemmas two_state_simps = two_state_def fun_eq_iff min_loop_def max_loop_def InitialMinValue_def

lemma run_to:
  "record_run n s vs \<Longrightarrow> t < n \<Longrightarrow> record_step t s new s1 \<Longrightarrow> s1 = s' \<Longrightarrow> vs @ new = vs' \<Longrightarrow> record_run n s' vs'"
  using steps by blast

lemma sample_record_run: "record_run 2 (two_state 2 14 5 9 Idle Idle) [5, 9]"
proof -
  have s0: "record_run 2 (two_state 0 0 InitialMinValue 0 Idle Idle) []"
    using starts [of 2] by (simp add: hist_start_def new_slot_def two_state_def cong: if_cong)
  have s1: "record_run 2 (two_state 1 0 InitialMinValue 0 (At_sum 5) (Idle)) [5]"
    by (rule run_to [OF s0, of 0, OF _ count [of _ 0 5]]) (simp_all add: two_state_simps)
  have s2: "record_run 2 (two_state 2 0 InitialMinValue 0 (At_sum 5) (At_sum 9)) [5, 9]"
    by (rule run_to [OF s1, of 1, OF _ count [of _ 1 9]]) (simp_all add: two_state_simps)
  have s3: "record_run 2 (two_state 2 5 InitialMinValue 0 (At_min_load 5) (At_sum 9)) [5, 9]"
    by (rule run_to [OF s2, of 0, OF _ sum [of _ 0 5]]) (simp_all add: two_state_simps)
  have s4: "record_run 2 (two_state 2 14 InitialMinValue 0 (At_min_load 5) (At_min_load 9)) [5, 9]"
    by (rule run_to [OF s3, of 1, OF _ sum [of _ 1 9]]) (simp_all add: two_state_simps)
  have s5: "record_run 2 (two_state 2 14 InitialMinValue 0 (At_min_cas 5 InitialMinValue) (At_min_load 9)) [5, 9]"
    by (rule run_to [OF s4, of 0, OF _ min_load [of _ 0 5]]) (simp_all add: two_state_simps)
  have s6: "record_run 2 (two_state 2 14 InitialMinValue 0 (At_min_cas 5 InitialMinValue) (At_min_cas 9 InitialMinValue)) [5, 9]"
    by (rule run_to [OF s5, of 1, OF _ min_load [of _ 1 9]]) (simp_all add: two_state_simps)
  have s7: "record_run 2 (two_state 2 14 5 0 (At_max_load 5) (At_min_cas 9 InitialMinValue)) [5, 9]"
    by (rule run_to [OF s6, of 0, OF _ min_set [of _ 0 5 InitialMinValue]]) (simp_all add: two_state_simps)
  have s8: "record_run 2 (two_state 2 14 5 0 (At_max_load 5) (At_max_load 9)) [5, 9]"
    by (rule run_to [OF s7, of 1, OF _ min_failed [of _ 1 9 InitialMinValue]]) (simp_all add: two_state_simps)
  have s9: "record_run 2 (two_state 2 14 5 0 (At_max_load 5) (At_max_cas 9 0)) [5, 9]"
    by (rule run_to [OF s8, of 1, OF _ max_load [of _ 1 9]]) (simp_all add: two_state_simps)
  have s10: "record_run 2 (two_state 2 14 5 9 (At_max_load 5) (Idle)) [5, 9]"
    by (rule run_to [OF s9, of 1, OF _ max_set [of _ 1 9 0]]) (simp_all add: two_state_simps)
  have s11: "record_run 2 (two_state 2 14 5 9 (Idle) (Idle)) [5, 9]"
    by (rule run_to [OF s10, of 0, OF _ max_load [of _ 0 5]]) (simp_all add: two_state_simps)
  show ?thesis by (rule s11)
qed

theorem concurrent_histogram_exact_witness:
  "\<exists>s. record_run 2 s [5, 9] \<and> ms_count (hs_slot s) = 2 \<and> ms_sum (hs_slot s) = 14 \<and> ms_min (hs_slot s) = 5 \<and> ms_max (hs_slot s) = 9"
  using concurrent_histogram_exact [OF sample_record_run] sample_record_run
  by (auto simp: two_state_def InitialMinValue_def intro!: exI [of _ "two_state 2 14 5 9 Idle Idle"])

section \<open>Resetting while a thread records\<close>

text \<open>The four stores of \<open>resetHistograms\<close> for one slot, in their order.\<close>

definition reset_store :: "nat \<Rightarrow> metric_slot \<Rightarrow> metric_slot" where
  "reset_store k s =
    (if k = 0 then s\<lparr>ms_sum := 0\<rparr> else if k = 1 then s\<lparr>ms_count := 0\<rparr>
     else if k = 2 then s\<lparr>ms_min := InitialMinValue\<rparr> else s\<lparr>ms_max := 0\<rparr>)"

text \<open>Runs of \<open>n\<close> recording threads and one pass of the exporter, which has made \<open>k\<close> of its stores.\<close>

inductive reset_run :: "nat \<Rightarrow> hist_state \<Rightarrow> u64 list \<Rightarrow> nat \<Rightarrow> bool" for n where
  begins: "reset_run n hist_start [] 0"
| records: "reset_run n s vs k \<Longrightarrow> t < n \<Longrightarrow> record_step t s new s' \<Longrightarrow> reset_run n s' (vs @ new) k"
| resets: "reset_run n s vs k \<Longrightarrow> k < 4 \<Longrightarrow> reset_run n (s\<lparr>hs_slot := reset_store k (hs_slot s)\<rparr>) vs (k + 1)"

lemma reset_to:
  "reset_run n s vs k \<Longrightarrow> t < n \<Longrightarrow> record_step t s new s1 \<Longrightarrow> s1 = s' \<Longrightarrow> vs @ new = vs' \<Longrightarrow> reset_run n s' vs' k"
  using records by blast

text \<open>
  A reset is not safe while a thread records, although the comment says so: for every value above
  zero and below the largest there is an interleaving of one recording with one pass of
  \<open>resetHistograms\<close> after which no thread is inside either, and the histogram has count zero but the
  value as its sum, minimum and maximum. With the snapshot of the old period taken before, the record is
  counted in no period, and its value makes the average of the next period wrong.
\<close>

theorem reset_tears_record:
  assumes "0 < v" "v < InitialMinValue"
  shows "\<exists>s. reset_run 1 s [v] 4 \<and> (\<forall>t. hs_pc s t = Idle)
    \<and> ms_count (hs_slot s) = 0 \<and> ms_sum (hs_slot s) = v \<and> ms_min (hs_slot s) = v \<and> ms_max (hs_slot s) = v"
proof -
  let ?s = "\<lambda>c s m x p. two_state c s m x p Idle" and ?M = "InitialMinValue"
  have "reset_run 1 (?s 0 0 ?M 0 Idle) [] 0"
    using begins [of 1] by (simp add: hist_start_def new_slot_def two_state_def cong: if_cong)
  then have "reset_run 1 (?s 1 0 ?M 0 (At_sum v)) [v] 0"
    by (rule reset_to [of _ _ _ _ 0, OF _ _ count [of _ 0 v]]) (simp_all add: two_state_simps)
  from resets [OF this] have "reset_run 1 (?s 1 0 ?M 0 (At_sum v)) [v] 1" by (simp add: reset_store_def two_state_def)
  from resets [OF this] have "reset_run 1 (?s 0 0 ?M 0 (At_sum v)) [v] 2" by (simp add: reset_store_def two_state_def numeral_2_eq_2)
  from resets [OF this] have "reset_run 1 (?s 0 0 ?M 0 (At_sum v)) [v] 3" by (simp add: reset_store_def two_state_def)
  from resets [OF this] have "reset_run 1 (?s 0 0 ?M 0 (At_sum v)) [v] 4" by (simp add: reset_store_def two_state_def)
  then have "reset_run 1 (?s 0 v ?M 0 (At_min_load v)) [v] 4"
    by (rule reset_to [of _ _ _ _ 0, OF _ _ sum [of _ 0 v]]) (simp_all add: two_state_simps)
  then have "reset_run 1 (?s 0 v ?M 0 (At_min_cas v ?M)) [v] 4"
    by (rule reset_to [of _ _ _ _ 0, OF _ _ min_load [of _ 0 v]]) (use assms in \<open>simp_all add: two_state_def fun_eq_iff min_loop_def\<close>)
  then have "reset_run 1 (?s 0 v v 0 (At_max_load v)) [v] 4"
    by (rule reset_to [of _ _ _ _ 0, OF _ _ min_set [of _ 0 v ?M]]) (simp_all add: two_state_def fun_eq_iff)
  then have "reset_run 1 (?s 0 v v 0 (At_max_cas v 0)) [v] 4"
    by (rule reset_to [of _ _ _ _ 0, OF _ _ max_load [of _ 0 v]]) (use assms in \<open>simp_all add: two_state_def fun_eq_iff max_loop_def\<close>)
  then have "reset_run 1 (?s 0 v v v Idle) [v] 4"
    by (rule reset_to [of _ _ _ _ 0, OF _ _ max_set [of _ 0 v 0]]) (simp_all add: two_state_def fun_eq_iff)
  then show ?thesis by (rule exI [of _ "?s 0 v v v Idle", OF conjI]) (simp add: two_state_def)
qed

theorem reset_tears_record_witness:
  "\<exists>s. reset_run 1 s [7] 4 \<and> ms_count (hs_slot s) = 0 \<and> ms_sum (hs_slot s) = 7"
  using reset_tears_record [of 7] by (auto simp: InitialMinValue_def)

end
