(* ===== verification/Json_Events.thy ===== *)
theory Json_Events
  imports Prelude "HOL-Library.Sublist"
begin

text \<open>
  The Binance messages of the pricer (\<open>TradingSystem_MVP_Ps3\<close>, the same in Ps2): the event types of
  market_data/MarketData.hpp, the field by field readers of market_data/BinanceDataParser.cpp and the
  dispatch on the stream's name in parser/Parser.cpp.

  The JSON library is third-party code: \<open>json_ops\<close> holds the operations the code calls, on an
  arbitrary type of documents and of floating-point numbers. A reader returns a value, throws
  (\<open>at\<close> on an absent key, a value of another type, a text that is no number) or has undefined
  behaviour (\<open>operator[]\<close> on a constant document without the key or the index).
\<close>

section \<open>The library's interface\<close>

datatype 'a outcome = Value 'a | Throws | Undefined

primrec and_then :: "'a outcome \<Rightarrow> ('a \<Rightarrow> 'b outcome) \<Rightarrow> 'b outcome" where
  "and_then (Value x) f = f x"
| "and_then Throws f = Throws"
| "and_then Undefined f = Undefined"

definition or_throws :: "'a option \<Rightarrow> 'a outcome" where
  "or_throws x = (case x of Some v \<Rightarrow> Value v | None \<Rightarrow> Throws)"

lemma or_throws_simps [simp]: "or_throws (Some v) = Value v" "or_throws None = Throws"
  by (simp_all add: or_throws_def)

text \<open>
  \<open>jo_object\<close> gives the members of an object, \<open>jo_array\<close> the elements of an array, \<open>jo_elements\<close> what
  a range-based \<open>for\<close> visits; \<open>jo_stod\<close> is \<open>std::stod\<close>.
\<close>

record ('j, 'd) json_ops =
  jo_parse :: "8 word list \<Rightarrow> 'j option"
  jo_object :: "'j \<Rightarrow> (string \<Rightarrow> 'j option) option"
  jo_array :: "'j \<Rightarrow> 'j list option"
  jo_elements :: "'j \<Rightarrow> 'j list"
  jo_string :: "'j \<Rightarrow> string option"
  jo_number :: "'j \<Rightarrow> u64 option"
  jo_bool :: "'j \<Rightarrow> bool option"
  jo_stod :: "string \<Rightarrow> 'd option"

text \<open>\<open>data.at(key)\<close>, \<open>data[key]\<close> and \<open>lvl[index]\<close> on a constant document.\<close>

definition json_at :: "('j, 'd) json_ops \<Rightarrow> 'j \<Rightarrow> string \<Rightarrow> 'j outcome" where
  "json_at js data key =
     (case jo_object js data of None \<Rightarrow> Throws | Some members \<Rightarrow> or_throws (members key))"

definition json_key :: "('j, 'd) json_ops \<Rightarrow> 'j \<Rightarrow> string \<Rightarrow> 'j outcome" where
  "json_key js data key =
     (case jo_object js data of
        None \<Rightarrow> Throws
      | Some members \<Rightarrow> (case members key of Some v \<Rightarrow> Value v | None \<Rightarrow> Undefined))"

definition json_index :: "('j, 'd) json_ops \<Rightarrow> 'j \<Rightarrow> nat \<Rightarrow> 'j outcome" where
  "json_index js lvl i =
     (case jo_array js lvl of
        None \<Rightarrow> Throws
      | Some xs \<Rightarrow> if i < length xs then Value (xs ! i) else Undefined)"

definition get_string :: "('j, 'd) json_ops \<Rightarrow> 'j \<Rightarrow> string \<Rightarrow> string outcome" where
  "get_string js data key = and_then (json_at js data key) (\<lambda>v. or_throws (jo_string js v))"

definition get_number :: "('j, 'd) json_ops \<Rightarrow> 'j \<Rightarrow> string \<Rightarrow> u64 outcome" where
  "get_number js data key = and_then (json_at js data key) (\<lambda>v. or_throws (jo_number js v))"

definition get_bool :: "('j, 'd) json_ops \<Rightarrow> 'j \<Rightarrow> string \<Rightarrow> bool outcome" where
  "get_bool js data key = and_then (json_at js data key) (\<lambda>v. or_throws (jo_bool js v))"

definition asDouble :: "('j, 'd) json_ops \<Rightarrow> 'j \<Rightarrow> 'd outcome" where
  "asDouble js data = and_then (or_throws (jo_string js data)) (\<lambda>s. or_throws (jo_stod js s))"

definition get_double :: "('j, 'd) json_ops \<Rightarrow> 'j \<Rightarrow> string \<Rightarrow> 'd outcome" where
  "get_double js data key = and_then (json_at js data key) (asDouble js)"

section \<open>Events\<close>

record 'd mini_ticker =
  mt_symbol :: string
  mt_timestamp :: u64
  mt_close :: 'd
  mt_open :: 'd
  mt_high :: 'd
  mt_low :: 'd
  mt_volume :: 'd
  mt_quantity :: 'd

record 'd book_ticker =
  bt_symbol :: string
  bt_bidPrice :: 'd
  bt_bidQuantity :: 'd
  bt_askPrice :: 'd
  bt_askQuantity :: 'd
  bt_updateId :: u64

record 'd depth_levels =
  dl_symbol :: string
  dl_firstUpdateId :: u64
  dl_finalUpdateId :: u64
  dl_eventTime :: u64
  dl_bids :: "('d \<times> 'd) list"
  dl_asks :: "('d \<times> 'd) list"

record 'd book_snapshot =
  bs_lastUpdateId :: u64
  bs_bids :: "('d \<times> 'd) list"
  bs_asks :: "('d \<times> 'd) list"

record 'd trade_event =
  te_symbol :: string
  te_eventTime :: u64
  te_tradeId :: u64
  te_price :: 'd
  te_quantity :: 'd
  te_buyerOrderId :: u64
  te_sellerOrderId :: u64
  te_tradeTime :: u64
  te_isBuyerMaker :: bool

record 'd agg_trade =
  at_symbol :: string
  at_eventTime :: u64
  at_aggregateTradeId :: u64
  at_price :: 'd
  at_quantity :: 'd
  at_firstTradeId :: u64
  at_lastTradeId :: u64
  at_tradeTime :: u64
  at_isBuyerMaker :: bool

datatype 'd binance_event =
    BookTicker "'d book_ticker"
  | MiniTicker "'d mini_ticker"
  | TradeEvent "'d trade_event"
  | AggTrade "'d agg_trade"
  | DepthUpdate "'d depth_levels"
  | NoYetImplemented string

section \<open>Readers\<close>

text \<open>The identifiers of the two orders keep their initial zero: the lines that read them are disabled.\<close>

definition parseTrade :: "('j, 'd) json_ops \<Rightarrow> 'j \<Rightarrow> 'd trade_event outcome" where
  "parseTrade js data =
     and_then (get_string js data ''s'') (\<lambda>symbol.
     and_then (get_number js data ''E'') (\<lambda>eventTime.
     and_then (get_number js data ''t'') (\<lambda>tradeId.
     and_then (get_number js data ''T'') (\<lambda>tradeTime.
     and_then (get_bool js data ''m'') (\<lambda>isBuyerMaker.
     and_then (get_double js data ''p'') (\<lambda>price.
     and_then (get_double js data ''q'') (\<lambda>quantity.
     Value \<lparr>te_symbol = symbol, te_eventTime = eventTime, te_tradeId = tradeId, te_price = price,
            te_quantity = quantity, te_buyerOrderId = 0, te_sellerOrderId = 0,
            te_tradeTime = tradeTime, te_isBuyerMaker = isBuyerMaker\<rparr>)))))))"

definition parseAggTrade :: "('j, 'd) json_ops \<Rightarrow> 'j \<Rightarrow> 'd agg_trade outcome" where
  "parseAggTrade js data =
     and_then (get_string js data ''s'') (\<lambda>symbol.
     and_then (get_number js data ''E'') (\<lambda>eventTime.
     and_then (get_number js data ''a'') (\<lambda>aggregateTradeId.
     and_then (get_number js data ''f'') (\<lambda>firstTradeId.
     and_then (get_number js data ''l'') (\<lambda>lastTradeId.
     and_then (get_number js data ''T'') (\<lambda>tradeTime.
     and_then (get_bool js data ''m'') (\<lambda>isBuyerMaker.
     and_then (get_double js data ''p'') (\<lambda>price.
     and_then (get_double js data ''q'') (\<lambda>quantity.
     Value \<lparr>at_symbol = symbol, at_eventTime = eventTime, at_aggregateTradeId = aggregateTradeId,
            at_price = price, at_quantity = quantity, at_firstTradeId = firstTradeId,
            at_lastTradeId = lastTradeId, at_tradeTime = tradeTime, at_isBuyerMaker = isBuyerMaker\<rparr>)))))))))"

definition parseMiniTicker :: "('j, 'd) json_ops \<Rightarrow> 'j \<Rightarrow> 'd mini_ticker outcome" where
  "parseMiniTicker js data =
     and_then (get_number js data ''E'') (\<lambda>timestamp.
     and_then (get_string js data ''s'') (\<lambda>symbol.
     and_then (get_double js data ''c'') (\<lambda>close.
     and_then (get_double js data ''o'') (\<lambda>open.
     and_then (get_double js data ''h'') (\<lambda>high.
     and_then (get_double js data ''l'') (\<lambda>low.
     and_then (get_double js data ''v'') (\<lambda>volume.
     and_then (get_double js data ''q'') (\<lambda>quantity.
     Value \<lparr>mt_symbol = symbol, mt_timestamp = timestamp, mt_close = close, mt_open = open,
            mt_high = high, mt_low = low, mt_volume = volume, mt_quantity = quantity\<rparr>))))))))"

definition parseBookTicker :: "('j, 'd) json_ops \<Rightarrow> 'j \<Rightarrow> 'd book_ticker outcome" where
  "parseBookTicker js data =
     and_then (get_string js data ''s'') (\<lambda>symbol.
     and_then (get_double js data ''b'') (\<lambda>bidPrice.
     and_then (get_double js data ''B'') (\<lambda>bidQuantity.
     and_then (get_double js data ''a'') (\<lambda>askPrice.
     and_then (get_double js data ''A'') (\<lambda>askQuantity.
     and_then (get_number js data ''u'') (\<lambda>updateId.
     Value \<lparr>bt_symbol = symbol, bt_bidPrice = bidPrice, bt_bidQuantity = bidQuantity,
            bt_askPrice = askPrice, bt_askQuantity = askQuantity, bt_updateId = updateId\<rparr>))))))"

text \<open>The loop over one side; the two arguments of \<open>emplace_back\<close> are taken from left to right.\<close>

fun read_levels :: "('j, 'd) json_ops \<Rightarrow> 'j list \<Rightarrow> ('d \<times> 'd) list outcome" where
  "read_levels js [] = Value []"
| "read_levels js (lvl # rest) =
     and_then (json_index js lvl 0) (\<lambda>p. and_then (asDouble js p) (\<lambda>price.
     and_then (json_index js lvl 1) (\<lambda>q. and_then (asDouble js q) (\<lambda>quantity.
     and_then (read_levels js rest) (\<lambda>levels. Value ((price, quantity) # levels))))))"

definition parseDepthUpdate :: "('j, 'd) json_ops \<Rightarrow> 'j \<Rightarrow> 'd depth_levels outcome" where
  "parseDepthUpdate js data =
     and_then (get_string js data ''s'') (\<lambda>symbol.
     and_then (get_number js data ''E'') (\<lambda>eventTime.
     and_then (get_number js data ''U'') (\<lambda>firstUpdateId.
     and_then (get_number js data ''u'') (\<lambda>finalUpdateId.
     and_then (json_key js data ''b'') (\<lambda>b. and_then (read_levels js (jo_elements js b)) (\<lambda>bids.
     and_then (json_key js data ''a'') (\<lambda>a. and_then (read_levels js (jo_elements js a)) (\<lambda>asks.
     Value \<lparr>dl_symbol = symbol, dl_firstUpdateId = firstUpdateId, dl_finalUpdateId = finalUpdateId,
            dl_eventTime = eventTime, dl_bids = bids, dl_asks = asks\<rparr>))))))))"

definition parseBookSnapshot :: "('j, 'd) json_ops \<Rightarrow> 'j \<Rightarrow> 'd book_snapshot outcome" where
  "parseBookSnapshot js data =
     and_then (get_number js data ''lastUpdateId'') (\<lambda>lastUpdateId.
     and_then (json_key js data ''bids'') (\<lambda>b. and_then (read_levels js (jo_elements js b)) (\<lambda>bids.
     and_then (json_key js data ''asks'') (\<lambda>a. and_then (read_levels js (jo_elements js a)) (\<lambda>asks.
     Value \<lparr>bs_lastUpdateId = lastUpdateId, bs_bids = bids, bs_asks = asks\<rparr>)))))"

section \<open>Dispatch\<close>

text \<open>What \<open>remove_prefix(find('@') + 1)\<close> leaves; without an \<open>@\<close> the sum wraps to zero.\<close>

definition after_at :: "string \<Rightarrow> string" where
  "after_at stream = (case dropWhile (\<lambda>c. c \<noteq> CHR ''@'') stream of [] \<Rightarrow> stream | _ # rest \<Rightarrow> rest)"

definition wrap_event :: "('a \<Rightarrow> 'b) \<Rightarrow> 'a outcome \<Rightarrow> 'b outcome" where
  "wrap_event f x = and_then x (\<lambda>v. Value (f v))"

definition parseEventData :: "('j, 'd) json_ops \<Rightarrow> 'j \<Rightarrow> 'd binance_event outcome" where
  "parseEventData js jsonData =
     and_then (json_key js jsonData ''stream'') (\<lambda>s.
     and_then (or_throws (jo_string js s)) (\<lambda>name.
     let stream = after_at name in
     and_then (json_key js jsonData ''data'') (\<lambda>data.
       if prefix ''miniTicker'' stream then wrap_event MiniTicker (parseMiniTicker js data)
       else if prefix ''bookTicker'' stream then wrap_event BookTicker (parseBookTicker js data)
       else if prefix ''trade'' stream then wrap_event TradeEvent (parseTrade js data)
       else if prefix ''aggTrade'' stream then wrap_event AggTrade (parseAggTrade js data)
       else if prefix ''depth'' stream then wrap_event DepthUpdate (parseDepthUpdate js data)
       else Value (NoYetImplemented stream))))"

definition binance_parse :: "('j, 'd) json_ops \<Rightarrow> 8 word list \<Rightarrow> 'd binance_event outcome" where
  "binance_parse js bytes = and_then (or_throws (jo_parse js bytes)) (parseEventData js)"

definition bybit_parse :: "8 word list \<Rightarrow> 'd :: zero binance_event outcome" where
  "bybit_parse bytes = Value (BookTicker \<lparr>bt_symbol = [], bt_bidPrice = 0, bt_bidQuantity = 0, bt_askPrice = 0,
     bt_askQuantity = 0, bt_updateId = 0\<rparr>)"

end
