(* ===== verification/Json_Documents.thy ===== *)
theory Json_Documents
  imports Json_Events
begin

text \<open>
  Which documents the readers of \<open>Json_Events\<close> (market_data/BinanceDataParser.cpp and
  parser/Parser.cpp) take, and what they do with the others: the messages of the exchange's stream
  documentation are read back exactly, any other message ends the program or is undefined.
\<close>

section \<open>Documents\<close>

record ('j, 'd) json_makers =
  mk_object :: "(string \<times> 'j) list \<Rightarrow> 'j"
  mk_array :: "'j list \<Rightarrow> 'j"
  mk_string :: "string \<Rightarrow> 'j"
  mk_number :: "u64 \<Rightarrow> 'j"
  mk_bool :: "bool \<Rightarrow> 'j"
  mk_text :: "'d \<Rightarrow> string"

locale json_library =
  fixes js :: "('j, 'd) json_ops" and mk :: "('j, 'd) json_makers"
  assumes object_made: "distinct (map fst kvs) \<Longrightarrow> jo_object js (mk_object mk kvs) = Some (map_of kvs)"
    and array_made: "jo_array js (mk_array mk xs) = Some xs"
    and elements_made: "jo_elements js (mk_array mk xs) = xs"
    and string_made: "jo_string js (mk_string mk s) = Some s"
    and number_made: "jo_number js (mk_number mk n) = Some n"
    and bool_made: "jo_bool js (mk_bool mk b) = Some b"
    and text_made: "jo_stod js (mk_text mk d) = Some d"

definition mk_double :: "('j, 'd) json_makers \<Rightarrow> 'd \<Rightarrow> 'j" where
  "mk_double mk d = mk_string mk (mk_text mk d)"

definition mk_levels :: "('j, 'd) json_makers \<Rightarrow> ('d \<times> 'd) list \<Rightarrow> 'j" where
  "mk_levels mk ls = mk_array mk (map (\<lambda>(p, q). mk_array mk [mk_double mk p, mk_double mk q]) ls)"

fun event_data :: "('j, 'd) json_makers \<Rightarrow> 'd binance_event \<Rightarrow> (string \<times> 'j) list" where
  "event_data mk (BookTicker t) =
     [(''u'', mk_number mk (bt_updateId t)), (''s'', mk_string mk (bt_symbol t)),
      (''b'', mk_double mk (bt_bidPrice t)), (''B'', mk_double mk (bt_bidQuantity t)),
      (''a'', mk_double mk (bt_askPrice t)), (''A'', mk_double mk (bt_askQuantity t))]"
| "event_data mk (MiniTicker t) =
     [(''e'', mk_string mk ''24hrMiniTicker''), (''E'', mk_number mk (mt_timestamp t)), (''s'', mk_string mk (mt_symbol t)),
      (''c'', mk_double mk (mt_close t)), (''o'', mk_double mk (mt_open t)), (''h'', mk_double mk (mt_high t)),
      (''l'', mk_double mk (mt_low t)), (''v'', mk_double mk (mt_volume t)), (''q'', mk_double mk (mt_quantity t))]"
| "event_data mk (TradeEvent t) =
     [(''e'', mk_string mk ''trade''), (''E'', mk_number mk (te_eventTime t)), (''s'', mk_string mk (te_symbol t)),
      (''t'', mk_number mk (te_tradeId t)), (''p'', mk_double mk (te_price t)), (''q'', mk_double mk (te_quantity t)),
      (''T'', mk_number mk (te_tradeTime t)), (''m'', mk_bool mk (te_isBuyerMaker t))]"
| "event_data mk (AggTrade t) =
     [(''e'', mk_string mk ''aggTrade''), (''E'', mk_number mk (at_eventTime t)), (''s'', mk_string mk (at_symbol t)),
      (''a'', mk_number mk (at_aggregateTradeId t)), (''p'', mk_double mk (at_price t)), (''q'', mk_double mk (at_quantity t)),
      (''f'', mk_number mk (at_firstTradeId t)), (''l'', mk_number mk (at_lastTradeId t)),
      (''T'', mk_number mk (at_tradeTime t)), (''m'', mk_bool mk (at_isBuyerMaker t))]"
| "event_data mk (DepthUpdate u) =
     [(''e'', mk_string mk ''depthUpdate''), (''E'', mk_number mk (dl_eventTime u)), (''s'', mk_string mk (dl_symbol u)),
      (''U'', mk_number mk (dl_firstUpdateId u)), (''u'', mk_number mk (dl_finalUpdateId u)),
      (''b'', mk_levels mk (dl_bids u)), (''a'', mk_levels mk (dl_asks u))]"
| "event_data mk (NoYetImplemented s) = []"

fun stream_kind :: "'d binance_event \<Rightarrow> string" where
  "stream_kind (BookTicker t) = ''bookTicker''"
| "stream_kind (MiniTicker t) = ''miniTicker''"
| "stream_kind (TradeEvent t) = ''trade''"
| "stream_kind (AggTrade t) = ''aggTrade''"
| "stream_kind (DepthUpdate u) = ''depth''"
| "stream_kind (NoYetImplemented s) = s"

definition stream_document :: "('j, 'd) json_makers \<Rightarrow> string \<Rightarrow> (string \<times> 'j) list \<Rightarrow> 'j" where
  "stream_document mk stream data =
     mk_object mk [(''stream'', mk_string mk stream), (''data'', mk_object mk data)]"

definition snapshot_data :: "('j, 'd) json_makers \<Rightarrow> 'd book_snapshot \<Rightarrow> (string \<times> 'j) list" where
  "snapshot_data mk s =
     [(''lastUpdateId'', mk_number mk (bs_lastUpdateId s)), (''bids'', mk_levels mk (bs_bids s)),
      (''asks'', mk_levels mk (bs_asks s))]"

text \<open>The events a message can stand for: a trade's order identifiers are not read.\<close>

fun readable :: "'d binance_event \<Rightarrow> bool" where
  "readable (TradeEvent t) = (te_buyerOrderId t = 0 \<and> te_sellerOrderId t = 0)"
| "readable (NoYetImplemented s) = (\<forall>k\<in>{''miniTicker'', ''bookTicker'', ''trade'', ''aggTrade'', ''depth''}. \<not> prefix k s)"
| "readable _ = True"

lemma after_at_symbol: "CHR ''@'' \<notin> set symbol \<Longrightarrow> after_at (symbol @ CHR ''@'' # kind) = kind"
proof -
  assume "CHR ''@'' \<notin> set symbol"
  then have "dropWhile (\<lambda>c. c \<noteq> CHR ''@'') (symbol @ CHR ''@'' # kind) = CHR ''@'' # kind"
    by (induction symbol) auto
  then show ?thesis by (simp add: after_at_def)
qed

context json_library
begin

lemmas made = object_made array_made elements_made string_made number_made bool_made text_made

lemma double_made: "asDouble js (mk_double mk d) = Value d"
  by (simp add: asDouble_def mk_double_def made)

lemma levels_made: "read_levels js (jo_elements js (mk_levels mk ls)) = Value ls"
proof -
  have "read_levels js (map (\<lambda>(p, q). mk_array mk [mk_double mk p, mk_double mk q]) ls) = Value ls"
    by (induction ls) (auto simp: json_index_def array_made double_made)
  then show ?thesis by (simp add: mk_levels_def elements_made)
qed

lemma fields_made:
  assumes "distinct (map fst kvs)"
  shows "map_of kvs k = Some v \<Longrightarrow> json_at js (mk_object mk kvs) k = Value v"
    "map_of kvs k = Some v \<Longrightarrow> json_key js (mk_object mk kvs) k = Value v"
    "map_of kvs k = None \<Longrightarrow> json_at js (mk_object mk kvs) k = Throws"
    "map_of kvs k = None \<Longrightarrow> json_key js (mk_object mk kvs) k = Undefined"
  using object_made [OF assms] by (simp_all add: json_at_def json_key_def)

lemmas readers_made = get_string_def get_number_def get_bool_def get_double_def double_made levels_made fields_made
  string_made number_made bool_made

lemma stream_document_dispatch:
  assumes "CHR ''@'' \<notin> set symbol"
  shows "parseEventData js (stream_document mk (symbol @ CHR ''@'' # stream) data) =
    (if prefix ''miniTicker'' stream then wrap_event MiniTicker (parseMiniTicker js (mk_object mk data))
     else if prefix ''bookTicker'' stream then wrap_event BookTicker (parseBookTicker js (mk_object mk data))
     else if prefix ''trade'' stream then wrap_event TradeEvent (parseTrade js (mk_object mk data))
     else if prefix ''aggTrade'' stream then wrap_event AggTrade (parseAggTrade js (mk_object mk data))
     else if prefix ''depth'' stream then wrap_event DepthUpdate (parseDepthUpdate js (mk_object mk data))
     else Value (NoYetImplemented stream))"
  using after_at_symbol [OF assms, of stream]
  by (simp add: parseEventData_def stream_document_def fields_made string_made Let_def)

lemma event_data_read:
  "parseBookTicker js (mk_object mk (event_data mk (BookTicker bt))) = Value bt"
  "parseMiniTicker js (mk_object mk (event_data mk (MiniTicker mt))) = Value mt"
  "te_buyerOrderId te = 0 \<Longrightarrow> te_sellerOrderId te = 0 \<Longrightarrow>
     parseTrade js (mk_object mk (event_data mk (TradeEvent te))) = Value te"
  "parseAggTrade js (mk_object mk (event_data mk (AggTrade ag))) = Value ag"
  "parseDepthUpdate js (mk_object mk (event_data mk (DepthUpdate du))) = Value du"
  by (simp_all add: parseBookTicker_def parseMiniTicker_def parseTrade_def parseAggTrade_def parseDepthUpdate_def
      readers_made)

lemma event_document_read:
  assumes "CHR ''@'' \<notin> set symbol" "readable ev" "(\<exists>s. ev = NoYetImplemented s) \<Longrightarrow> speed = []"
  shows "parseEventData js (stream_document mk (symbol @ CHR ''@'' # stream_kind ev @ speed) (event_data mk ev)) = Value ev"
  using assms(2,3) by (cases ev) (simp_all add: stream_document_dispatch [OF assms(1)] wrap_event_def event_data_read
      del: event_data.simps)

lemma snapshot_read: "parseBookSnapshot js (mk_object mk (snapshot_data mk s)) = Value s"
  by (simp add: parseBookSnapshot_def snapshot_data_def readers_made)

lemma snapshot_stream_throws:
  assumes "CHR ''@'' \<notin> set symbol"
  shows "parseEventData js (stream_document mk (symbol @ CHR ''@'' # ''depth20'' @ speed) (snapshot_data mk s)) = Throws"
  by (simp add: stream_document_dispatch [OF assms] wrap_event_def parseDepthUpdate_def snapshot_data_def readers_made)

lemma reply_undefined:
  "distinct (map fst kvs) \<Longrightarrow> ''stream'' \<notin> fst ` set kvs \<Longrightarrow> parseEventData js (mk_object mk kvs) = Undefined"
  by (simp add: parseEventData_def fields_made map_of_eq_None_iff)

end

section \<open>A concrete library\<close>

text \<open>Documents as a datatype, with the floating-point numbers that are natural.\<close>

datatype json_value =
    JObject "(string \<times> json_value) list"
  | JArray "json_value list"
  | JString string
  | JNumber u64
  | JBool bool
  | JNull

fun json_children :: "json_value \<Rightarrow> json_value list" where
  "json_children (JObject kvs) = map snd kvs"
| "json_children (JArray xs) = xs"
| "json_children JNull = []"
| "json_children v = [v]"

fun decimal_text :: "nat \<Rightarrow> string" where
  "decimal_text n = (if n < 10 then [char_of (48 + n)] else decimal_text (n div 10) @ [char_of (48 + n mod 10)])"

declare decimal_text.simps [simp del]

definition text_value :: "string \<Rightarrow> nat" where
  "text_value s = foldl (\<lambda>n c. 10 * n + (of_char c - 48)) 0 s"

definition text_number :: "string \<Rightarrow> nat option" where
  "text_number s = (if s \<noteq> [] \<and> list_all (\<lambda>c. 48 \<le> (of_char c :: nat) \<and> (of_char c :: nat) \<le> 57) s
     then Some (text_value s) else None)"

lemma text_number_decimal: "text_number (decimal_text n) = Some n"
proof -
  have digit: "of_char (char_of (48 + d) :: char) = 48 + d" if "d < 10" for d :: nat
    using that by (simp add: of_char_of)
  have "text_value (decimal_text n) = n \<and> decimal_text n \<noteq> []
    \<and> list_all (\<lambda>c. 48 \<le> (of_char c :: nat) \<and> (of_char c :: nat) \<le> 57) (decimal_text n)"
  proof (induction n rule: decimal_text.induct)
    case (1 n)
    show ?case
    proof (cases "n < 10")
      case True
      then show ?thesis using digit [of n] by (subst (1 2 3) decimal_text.simps) (simp add: text_value_def)
    next
      case False
      then show ?thesis using 1 [OF False] digit [of "n mod 10"]
        by (subst (1 2 3) decimal_text.simps) (simp add: text_value_def)
    qed
  qed
  then show ?thesis by (simp add: text_number_def)
qed

definition value_ops :: "(8 word list \<Rightarrow> json_value option) \<Rightarrow> (json_value, nat) json_ops" where
  "value_ops parse =
     \<lparr>jo_parse = parse,
      jo_object = (\<lambda>v. case v of JObject kvs \<Rightarrow> Some (map_of kvs) | _ \<Rightarrow> None),
      jo_array = (\<lambda>v. case v of JArray xs \<Rightarrow> Some xs | _ \<Rightarrow> None),
      jo_elements = json_children,
      jo_string = (\<lambda>v. case v of JString s \<Rightarrow> Some s | _ \<Rightarrow> None),
      jo_number = (\<lambda>v. case v of JNumber n \<Rightarrow> Some n | _ \<Rightarrow> None),
      jo_bool = (\<lambda>v. case v of JBool b \<Rightarrow> Some b | _ \<Rightarrow> None),
      jo_stod = text_number\<rparr>"

definition value_makers :: "(json_value, nat) json_makers" where
  "value_makers = \<lparr>mk_object = JObject, mk_array = JArray, mk_string = JString, mk_number = JNumber, mk_bool = JBool,
     mk_text = decimal_text\<rparr>"

interpretation json_values: json_library "value_ops parse" value_makers for parse
  by unfold_locales (simp_all add: value_ops_def value_makers_def text_number_decimal)

section \<open>Properties\<close>

text \<open>C27. Reading a message of the exchange gives back the event it stands for: for every event of the five
  kinds the pricer knows, whatever follows the kind in the stream's name (such as \<open>@100ms\<close>), and the
  event of an unknown stream carries the stream's name. Levels keep their order and no field is taken
  from another key.\<close>

theorem stream_messages_round_trip:
  assumes "json_library js mk" "CHR ''@'' \<notin> set symbol" "readable ev" "(\<exists>s. ev = NoYetImplemented s) \<longrightarrow> speed = []"
  shows "parseEventData js (stream_document mk (symbol @ CHR ''@'' # stream_kind ev @ speed) (event_data mk ev)) = Value ev"
  using json_library.event_document_read [OF assms(1-3)] assms(4) by blast

theorem stream_messages_round_trip_witness:
  "parseEventData (value_ops Map.empty) (stream_document value_makers (''btcusdt'' @ CHR ''@'' # ''depth'' @ ''@100ms'')
     (event_data value_makers (DepthUpdate \<lparr>dl_symbol = ''BTCUSDT'', dl_firstUpdateId = 157, dl_finalUpdateId = 160,
        dl_eventTime = 123, dl_bids = [(100, 7), (99, 0)], dl_asks = []\<rparr>)))
   = Value (DepthUpdate \<lparr>dl_symbol = ''BTCUSDT'', dl_firstUpdateId = 157, dl_finalUpdateId = 160,
        dl_eventTime = 123, dl_bids = [(100, 7), (99, 0)], dl_asks = []\<rparr>)"
  using stream_messages_round_trip [OF json_values.json_library_axioms [of Map.empty], of "''btcusdt''"
      "DepthUpdate \<lparr>dl_symbol = ''BTCUSDT'', dl_firstUpdateId = 157, dl_finalUpdateId = 160,
        dl_eventTime = 123, dl_bids = [(100, 7), (99, 0)], dl_asks = []\<rparr>" "''@100ms''"] by simp

text \<open>Messages of the exchange that are no event of these kinds are not skipped. A message without a
  stream, such as the reply to a subscription, is read through \<open>operator[]\<close> on a constant document
  without the key, which is undefined; a snapshot of a \<open>depth20\<close> stream is taken for a depth update, whose
  symbol it does not have, and throws.\<close>

theorem other_messages_are_not_skipped:
  assumes "json_library js mk" "CHR ''@'' \<notin> set symbol"
    and "distinct (map fst kvs)" "''stream'' \<notin> fst ` set kvs"
  shows "parseEventData js (mk_object mk kvs) = Undefined
    \<and> parseEventData js (stream_document mk (symbol @ CHR ''@'' # ''depth20'' @ speed) (snapshot_data mk s)) = Throws"
  using json_library.reply_undefined [OF assms(1,3,4)] json_library.snapshot_stream_throws [OF assms(1,2)] by simp_all

theorem other_messages_are_not_skipped_witness:
  "parseEventData (value_ops Map.empty) (mk_object value_makers [(''result'', JNull), (''id'', JNumber 1)]) = Undefined"
  using other_messages_are_not_skipped [OF json_values.json_library_axioms [of Map.empty], of "[]"
      "[(''result'', JNull), (''id'', JNumber 1)]"] by simp

end
