(* ===== verification/Event_Processor.thy ===== *)
theory Event_Processor
  imports Message_Ring Flat_Map Json_Documents Pricing_Pipeline
begin

text \<open>
  The latest pricer, \<open>TradingSystem_MVP_Ps3\<close>: price_engine/ExchangeDataProcessor.cpp (a ring of
  buffers, the parser of the exchange, the depth book and the worker's loop) and
  price_engine/MarketStateManager.cpp (one processor per exchange). The ring, the buffer and the depth
  book are those of \<open>Ring_Buffer\<close>, \<open>Buffer\<close> and \<open>Flat_Map\<close> under new namespaces.

  A result \<open>None\<close> is undefined behaviour or the end of the program: \<open>push\<close> uses the slot without
  asking whether there is one, and an exception of the parser leaves the worker's function. Whole
  operations interleave; \<open>Ring_Concurrent\<close> shows that the two threads of a ring keep apart inside them.
\<close>

section \<open>A processor\<close>

datatype event_parser = BinanceParser | ByBitParser

record 'd event_processor =
  ep_queue :: "buffer slot_ring"
  ep_book :: "('d, 'd) depth_book"
  ep_parser :: event_parser
  ep_misses :: u32

definition processor_bufferSize :: u32 where
  "processor_bufferSize = 1024"

definition new_processor :: "event_parser \<Rightarrow> 'd :: zero event_processor" where
  "new_processor parser =
     \<lparr>ep_queue = slot_ring_new processor_bufferSize buffer_default, ep_book = new_depth_book,
      ep_parser = parser, ep_misses = 0\<rparr>"

definition processor_push :: "byte list \<Rightarrow> 'd event_processor \<Rightarrow> 'd event_processor option" where
  "processor_push eventData p =
     (case getItem processor_bufferSize (ep_queue p) of
        (None, _) \<Rightarrow> None
      | (Some slot, queue) \<Rightarrow>
          do {
            response \<leftarrow> fetch (rb_buffer queue) slot;
            filled \<leftarrow> receive_entry eventData response;
            b \<leftarrow> store slot filled (rb_buffer queue);
            Some (p\<lparr>ep_queue := commit (queue\<lparr>rb_buffer := b\<rparr>)\<rparr>) })"

definition parse_item :: "('j, 'd :: zero) json_ops \<Rightarrow> event_parser \<Rightarrow> byte list \<Rightarrow> 'd binance_event outcome" where
  "parse_item js parser item =
     (case parser of BinanceParser \<Rightarrow> binance_parse js item | ByBitParser \<Rightarrow> bybit_parse item)"

text \<open>\<open>EventHandler\<close>: four events are ignored, two are printed; the calls that would update the book
  are in a comment.\<close>

fun visit_event :: "'d binance_event \<Rightarrow> ('d, 'd) depth_book \<Rightarrow> ('d, 'd) depth_book" where
  "visit_event (BookTicker ticker) marketDepthBook = marketDepthBook"
| "visit_event (MiniTicker ticker) marketDepthBook = marketDepthBook"
| "visit_event (TradeEvent trade) marketDepthBook = marketDepthBook"
| "visit_event (AggTrade aggTrade) marketDepthBook = marketDepthBook"
| "visit_event (DepthUpdate depthUpdate) marketDepthBook = marketDepthBook"
| "visit_event (NoYetImplemented streamName) marketDepthBook = marketDepthBook"

text \<open>One round of \<open>handleEvents\<close>, with the event visited; after many misses it sleeps as well.\<close>

definition handle_round ::
  "('j, 'd :: zero) json_ops \<Rightarrow> 'd event_processor \<Rightarrow> ('d binance_event option \<times> 'd event_processor) option" where
  "handle_round js p =
     (case pop_slot processor_bufferSize (ep_queue p) of
        (None, queue) \<Rightarrow> Some (None, p\<lparr>ep_queue := queue, ep_misses := ep_misses p + 1\<rparr>)
      | (Some slot, queue) \<Rightarrow>
          do {
            item \<leftarrow> fetch (rb_buffer queue) slot;
            (case parse_item js (ep_parser p) (buffer_bytes item) of
               Value event \<Rightarrow>
                 do { b \<leftarrow> store slot (buffer_clear item) (rb_buffer queue);
                      Some (Some event, p\<lparr>ep_queue := queue\<lparr>rb_buffer := b\<rparr>,
                        ep_book := visit_event event (ep_book p), ep_misses := 0\<rparr>) }
             | _ \<Rightarrow> None) })"

section \<open>The manager\<close>

type_synonym 'd market_state = "'d event_processor list"

definition new_market_state :: "'d :: zero market_state" where
  "new_market_state = [new_processor BinanceParser, new_processor ByBitParser]"

definition market_push :: "exchange \<Rightarrow> byte list \<Rightarrow> 'd market_state \<Rightarrow> 'd market_state option" where
  "market_push exchange eventData books =
     (if exchange_index exchange < length books
      then map_option (\<lambda>p. books[exchange_index exchange := p])
             (processor_push eventData (books ! exchange_index exchange))
      else None)"

text \<open>What the threads do: a message arrives, or the worker of a book makes a round.\<close>

datatype market_step = Arrive exchange "byte list" | Round nat

definition market_round ::
  "('j, 'd :: zero) json_ops \<Rightarrow> nat \<Rightarrow> 'd market_state \<Rightarrow> ((nat \<times> 'd binance_event) list \<times> 'd market_state) option" where
  "market_round js i books =
     (if i < length books
      then map_option (\<lambda>(event, p). (case event of None \<Rightarrow> [] | Some e \<Rightarrow> [(i, e)], books[i := p]))
             (handle_round js (books ! i))
      else Some ([], books))"

fun market_run ::
  "('j, 'd :: zero) json_ops \<Rightarrow> market_step list \<Rightarrow> 'd market_state
    \<Rightarrow> ((nat \<times> 'd binance_event) list \<times> 'd market_state) option" where
  "market_run js [] books = Some ([], books)"
| "market_run js (Arrive exchange eventData # steps) books =
     Option.bind (market_push exchange eventData books) (market_run js steps)"
| "market_run js (Round i # steps) books =
     do { (events, books1) \<leftarrow> market_round js i books;
          (events', books2) \<leftarrow> market_run js steps books1;
          Some (events @ events', books2) }"

section \<open>What it stands for\<close>

text \<open>A queue of messages per exchange, of at most 1023; the worker takes the first and reads it.\<close>

fun market_queues ::
  "('j, 'd :: zero) json_ops \<Rightarrow> market_step list \<Rightarrow> byte list list list
    \<Rightarrow> ((nat \<times> 'd binance_event) list \<times> byte list list list) option" where
  "market_queues js [] qs = Some ([], qs)"
| "market_queues js (Arrive exchange eventData # steps) qs =
     (let i = exchange_index exchange
      in if i < length qs \<and> length (qs ! i) < 1023
         then market_queues js steps (qs[i := qs ! i @ [eventData]]) else None)"
| "market_queues js (Round i # steps) qs =
     (if i < length qs
      then (case qs ! i of
              [] \<Rightarrow> market_queues js steps qs
            | message # rest \<Rightarrow>
                (case parse_item js (if i = 0 then BinanceParser else ByBitParser) message of
                   Value event \<Rightarrow> map_option (apfst (Cons (i, event))) (market_queues js steps (qs[i := rest]))
                 | _ \<Rightarrow> None))
      else market_queues js steps qs)"

definition market_wf :: "'d market_state \<Rightarrow> bool" where
  "market_wf books \<longleftrightarrow> (\<forall>i<length books. queue_wf processor_bufferSize (ep_queue (books ! i))
     \<and> ep_parser (books ! i) = (if i = 0 then BinanceParser else ByBitParser))"

definition market_waiting :: "'d market_state \<Rightarrow> byte list list list" where
  "market_waiting books = map (\<lambda>p. queue_entries (ep_queue p)) books"

fun step_fits :: "market_step \<Rightarrow> bool" where
  "step_fits (Arrive exchange eventData) = entry_fits eventData"
| "step_fits (Round i) = True"

lemma bufferSize_nat [simp]: "unat processor_bufferSize = 1024"
  by (simp add: processor_bufferSize_def)

lemma processor_push_connector:
  "processor_push eventData p = (case connector_step processor_bufferSize eventData (ep_queue p) of
     Some (True, q) \<Rightarrow> Some (p\<lparr>ep_queue := q\<rparr>) | _ \<Rightarrow> None)"
  by (auto simp: processor_push_def connector_step_def split: prod.splits option.splits bind_splits)

lemma processor_push_room:
  assumes "queue_wf processor_bufferSize (ep_queue p)" "entry_fits eventData" "length (queue_entries (ep_queue p)) < 1023"
  shows "\<exists>q. processor_push eventData p = Some (p\<lparr>ep_queue := q\<rparr>) \<and> queue_wf processor_bufferSize q
    \<and> queue_entries q = queue_entries (ep_queue p) @ [eventData]"
  using connector_step_room [OF assms(1,2)] assms(3) by (auto simp: processor_push_connector)

lemma processor_push_full:
  assumes "queue_wf processor_bufferSize (ep_queue p)" "\<not> length (queue_entries (ep_queue p)) < 1023"
  shows "processor_push eventData p = None"
  using connector_step_full [OF assms(1), of eventData] assms(2) by (auto simp: processor_push_connector)

lemma handle_round_parser:
  "handle_round js p = (case parser_step processor_bufferSize (ep_queue p) of
     None \<Rightarrow> None
   | Some (None, q) \<Rightarrow> Some (None, p\<lparr>ep_queue := q, ep_misses := ep_misses p + 1\<rparr>)
   | Some (Some bytes, q) \<Rightarrow>
       (case parse_item js (ep_parser p) bytes of
          Value event \<Rightarrow> Some (Some event, p\<lparr>ep_queue := q, ep_book := visit_event event (ep_book p), ep_misses := 0\<rparr>)
        | _ \<Rightarrow> None))"
  by (auto simp: handle_round_def parser_step_def split: prod.splits option.splits bind_splits outcome.splits)

section \<open>Refinement\<close>

lemma market_wfD:
  assumes "market_wf books" "i < length books"
  shows "queue_wf processor_bufferSize (ep_queue (books ! i))"
    "ep_parser (books ! i) = (if i = 0 then BinanceParser else ByBitParser)"
  using assms by (simp_all add: market_wf_def)

lemma market_wf_update:
  assumes "market_wf books" "i < length books" "queue_wf processor_bufferSize (ep_queue p)" "ep_parser p = ep_parser (books ! i)"
  shows "market_wf (books[i := p])"
  using assms by (auto simp: market_wf_def nth_list_update)

lemma market_waiting_simps [simp]:
  "length (market_waiting books) = length books"
  "i < length books \<Longrightarrow> market_waiting books ! i = queue_entries (ep_queue (books ! i))"
  "market_waiting (books[i := p]) = (market_waiting books)[i := queue_entries (ep_queue p)]"
  by (simp_all add: market_waiting_def map_update)

lemma market_push_room:
  assumes "market_wf books" "entry_fits eventData" "exchange_index exchange < length books"
    "length (market_waiting books ! exchange_index exchange) < 1023"
  shows "\<exists>books'. market_push exchange eventData books = Some books' \<and> market_wf books'
    \<and> market_waiting books' = (market_waiting books)
        [exchange_index exchange := market_waiting books ! exchange_index exchange @ [eventData]]"
proof -
  let ?i = "exchange_index exchange"
  have wf: "queue_wf processor_bufferSize (ep_queue (books ! ?i))" using market_wfD(1) [OF assms(1,3)] .
  obtain q where q: "processor_push eventData (books ! ?i) = Some ((books ! ?i)\<lparr>ep_queue := q\<rparr>)"
    "queue_wf processor_bufferSize q" "queue_entries q = queue_entries (ep_queue (books ! ?i)) @ [eventData]"
    using processor_push_room [OF wf assms(2)] assms(3,4) by auto
  then show ?thesis using assms(3) market_wf_update [OF assms(1,3), of "(books ! ?i)\<lparr>ep_queue := q\<rparr>"]
    by (simp add: market_push_def)
qed

lemma market_push_fault:
  assumes "market_wf books"
    "\<not> (exchange_index exchange < length books \<and> length (market_waiting books ! exchange_index exchange) < 1023)"
  shows "market_push exchange eventData books = None"
  using assms processor_push_full [OF market_wfD(1) [OF assms(1)]] by (auto simp: market_push_def)

lemma market_round_empty:
  assumes "market_wf books" "i < length books \<longrightarrow> market_waiting books ! i = []"
  shows "\<exists>books'. market_round js i books = Some ([], books') \<and> market_wf books' \<and> market_waiting books' = market_waiting books"
proof (cases "i < length books")
  case True
  note wf = market_wfD [OF assms(1) True]
  obtain q where "parser_step processor_bufferSize (ep_queue (books ! i)) = Some (None, q)" "queue_wf processor_bufferSize q"
    "queue_entries q = []" using parser_step_empty [OF wf(1)] assms(2) True by auto
  then show ?thesis using True assms(2) market_wf_update [OF assms(1) True,
      of "(books ! i)\<lparr>ep_queue := q, ep_misses := ep_misses (books ! i) + 1\<rparr>"] list_update_id [of "market_waiting books" i]
    by (simp add: market_round_def handle_round_parser)
qed (use assms(1) in \<open>simp add: market_round_def\<close>)

lemma market_round_item:
  assumes "market_wf books" "i < length books" "market_waiting books ! i = message # rest"
  shows "case parse_item js (if i = 0 then BinanceParser else ByBitParser) message of
      Value event \<Rightarrow> \<exists>books'. market_round js i books = Some ([(i, event)], books') \<and> market_wf books'
        \<and> market_waiting books' = (market_waiting books)[i := rest]
    | _ \<Rightarrow> market_round js i books = None"
proof -
  note wf = market_wfD [OF assms(1,2)]
  obtain q where q: "parser_step processor_bufferSize (ep_queue (books ! i)) = Some (Some message, q)"
    "queue_wf processor_bufferSize q" "queue_entries q = rest"
    using parser_step_item [OF wf(1)] assms(2,3) by auto
  show ?thesis
  proof (cases "parse_item js (ep_parser (books ! i)) message")
    case (Value event)
    let ?p = "(books ! i)\<lparr>ep_queue := q, ep_book := visit_event event (ep_book (books ! i)), ep_misses := 0\<rparr>"
    have "market_round js i books = Some ([(i, event)], books[i := ?p])"
      using Value q(1) assms(2) by (simp add: market_round_def handle_round_parser)
    then show ?thesis using Value wf(2) market_wf_update [OF assms(1,2), of ?p] q(2,3) by simp
  qed (use q(1) assms(2) wf(2) in \<open>simp_all add: market_round_def handle_round_parser\<close>)
qed

lemma market_run_queues:
  "market_wf books \<Longrightarrow> list_all step_fits steps \<Longrightarrow>
   map_option (apsnd market_waiting) (market_run js steps books) = market_queues js steps (market_waiting books)"
proof (induction js steps books rule: market_run.induct)
  case (2 js exchange eventData steps books)
  let ?i = "exchange_index exchange"
  show ?case
  proof (cases "?i < length books \<and> length (market_waiting books ! ?i) < 1023")
    case True
    obtain books' where b: "market_push exchange eventData books = Some books'" "market_wf books'"
      "market_waiting books' = (market_waiting books)[?i := market_waiting books ! ?i @ [eventData]]"
      using market_push_room [OF "2.prems"(1), of eventData exchange] True "2.prems"(2) by auto
    then show ?thesis using "2.IH" [OF b(1,2)] b(1,3) "2.prems"(2) True by (simp add: Let_def) auto
  next
    case False
    then have "\<not> (?i < length (market_waiting books) \<and> length (market_waiting books ! ?i) < 1023)" by simp
    then show ?thesis using market_push_fault [OF "2.prems"(1) False] by (simp only: market_run.simps market_queues.simps Let_def) simp
  qed
next
  case (3 js i steps books)
  have fits: "list_all step_fits steps" using "3.prems"(2) by simp
  consider "i < length books \<longrightarrow> market_waiting books ! i = []" |
    message rest where "i < length books" "market_waiting books ! i = message # rest"
    by (cases "market_waiting books ! i") auto
  then show ?case
  proof cases
    case 1
    obtain books' where b: "market_round js i books = Some ([], books')" "market_wf books'"
      "market_waiting books' = market_waiting books" using market_round_empty [OF "3.prems"(1) 1] by blast
    have "market_run js (Round i # steps) books = market_run js steps books'"
      using b(1) by (simp add: prod.case_distrib cong: option.case_cong)
    moreover have "market_queues js (Round i # steps) (market_waiting books) = market_queues js steps (market_waiting books)"
      using 1 by auto
    moreover have "map_option (apsnd market_waiting) (market_run js steps books') = market_queues js steps (market_waiting books')"
      using "3.IH" [of "([], books')" "[]" books'] b(1,2) fits by simp
    ultimately show ?thesis using b(3) by simp
  next
    case (2 message rest)
    note round = market_round_item [OF "3.prems"(1) 2, of js]
    show ?thesis
    proof (cases "parse_item js (if i = 0 then BinanceParser else ByBitParser) message")
      case (Value event)
      with round obtain books' where b: "market_round js i books = Some ([(i, event)], books')" "market_wf books'"
        "market_waiting books' = (market_waiting books)[i := rest]" by auto
      have "market_queues js steps ((market_waiting books)[i := rest]) = map_option (apsnd market_waiting) (market_run js steps books')"
        using "3.IH" [of "([(i, event)], books')" "[(i, event)]" books'] b fits by simp
      then show ?thesis using b(1) 2 Value by (cases "market_run js steps books'") auto
    qed (use round 2 in simp_all)
  qed
qed simp

lemma new_market_wf: "market_wf new_market_state" "market_waiting new_market_state = [[], []]"
proof -
  have "queue_wf processor_bufferSize (ep_queue (new_processor parser)) \<and> queue_entries (ep_queue (new_processor parser)) = []" for parser
    using queue_new_wf [of processor_bufferSize] queue_new_entries [of processor_bufferSize]
    by (simp add: new_processor_def queue_new_def processor_bufferSize_def is_pow_of_2_def)
  then show "market_wf new_market_state" "market_waiting new_market_state = [[], []]"
    by (simp_all add: market_wf_def market_waiting_def new_market_state_def less_Suc_eq nth_Cons' new_processor_def)
qed

section \<open>Properties\<close>

definition ack :: "byte list" where
  "ack = [1]"

definition ack_ops :: "(json_value, nat) json_ops" where
  "ack_ops = value_ops (\<lambda>bytes. if bytes = ack then Some (stream_document value_makers ''btcusdt@kline_1m'' []) else None)"

lemma ack_parsed: "binance_parse ack_ops ack = Value (NoYetImplemented ''kline_1m'')"
proof -
  note read = json_values.event_document_read [of "''btcusdt''" "NoYetImplemented ''kline_1m''" "[]"
      "\<lambda>bytes. if bytes = ack then Some (stream_document value_makers ''btcusdt@kline_1m'' []) else None"]
  then have "parseEventData ack_ops (stream_document value_makers ''btcusdt@kline_1m'' []) = Value (NoYetImplemented ''kline_1m'')"
    by (simp add: ack_ops_def)
  then show ?thesis by (simp add: binance_parse_def ack_ops_def value_ops_def)
qed

lemma ack_fits: "entry_fits ack"
  by (simp add: entry_fits_def ack_def)

text \<open>C26. The pricer is two queues. For every sequence of arriving messages (of at most \<open>2 ^ 30\<close> bytes) and
  rounds of the workers it computes what a queue of up to 1023 messages per exchange does, whose worker
  takes the oldest message and reads it with the parser of its exchange; and it fails exactly where they
  do: when a message arrives at a full ring, comes from an exchange other than the first two, or is one
  the parser does not read.\<close>

theorem pricer_refines_queues:
  assumes "list_all step_fits steps"
  shows "map_option (apsnd market_waiting) (market_run js steps new_market_state) = market_queues js steps [[], []]"
  using market_run_queues [OF new_market_wf(1) assms, of js] by (simp add: new_market_wf(2))

theorem pricer_refines_queues_witness:
  "map_option (apsnd market_waiting) (market_run ack_ops [Arrive Binance ack, Arrive ByBit [], Round 0, Arrive Binance []]
     new_market_state) = Some ([(0, NoYetImplemented ''kline_1m'')], [[[]], [[]]])"
proof -
  have "list_all step_fits [Arrive Binance ack, Arrive ByBit [], Round 0, Arrive Binance []]"
    by (simp add: ack_fits) (simp add: entry_fits_def)
  from pricer_refines_queues [OF this, of ack_ops] show ?thesis
    by (simp add: Let_def parse_item_def ack_parsed)
qed

text \<open>The messages that arrive from the exchange of a queue, and the events its worker visits.\<close>

fun arrivals :: "nat \<Rightarrow> market_step list \<Rightarrow> byte list list" where
  "arrivals i [] = []"
| "arrivals i (Arrive exchange eventData # steps) =
     (if exchange_index exchange = i then [eventData] else []) @ arrivals i steps"
| "arrivals i (Round j # steps) = arrivals i steps"

definition visited :: "nat \<Rightarrow> (nat \<times> 'd binance_event) list \<Rightarrow> 'd binance_event list" where
  "visited i es = map snd (filter (\<lambda>e. fst e = i) es)"

lemma market_queues_in_order:
  "market_queues js steps qs = Some (es, qs') \<Longrightarrow> i < length qs \<Longrightarrow>
   \<exists>taken. qs ! i @ arrivals i steps = taken @ qs' ! i
     \<and> map (parse_item js (if i = 0 then BinanceParser else ByBitParser)) taken = map Value (visited i es)"
proof (induction js steps qs arbitrary: es rule: market_queues.induct)
  case (1 js qs)
  then show ?case by (auto simp: visited_def)
next
  case (2 js exchange eventData steps qs)
  let ?k = "exchange_index exchange"
  have run: "?k < length qs \<and> length (qs ! ?k) < 1023" "market_queues js steps (qs[?k := qs ! ?k @ [eventData]]) = Some (es, qs')"
    using "2.prems"(1) by (auto simp: Let_def split: if_splits)
  from "2.IH" [OF refl run(1) run(2)] "2.prems"(2) show ?case by (cases "?k = i") auto
next
  case (3 js k steps qs)
  consider "k < length qs \<longrightarrow> qs ! k = []" "market_queues js steps qs = Some (es, qs')" |
    message rest event es1 where "k < length qs" "qs ! k = message # rest"
      "parse_item js (if k = 0 then BinanceParser else ByBitParser) message = Value event"
      "market_queues js steps (qs[k := rest]) = Some (es1, qs')" "es = (k, event) # es1"
    using "3.prems"(1) by (auto split: if_splits list.splits outcome.splits)
  then show ?case
  proof cases
    case 1
    then show ?thesis using "3.IH"(1,3) "3.prems"(2) by (cases "k < length qs") auto
  next
    case (2 message rest event es1)
    obtain taken where t: "qs[k := rest] ! i @ arrivals i steps = taken @ qs' ! i"
      "map (parse_item js (if i = 0 then BinanceParser else ByBitParser)) taken = map Value (visited i es1)"
      using "3.IH"(2) [OF 2(1,2,3) 2(4)] "3.prems"(2) by auto
    show ?thesis
    proof (cases "k = i")
      case True
      with t 2 show ?thesis by (intro exI [of _ "message # taken"]) (auto simp: visited_def)
    next
      case False
      with t 2 show ?thesis by (intro exI [of _ taken]) (auto simp: visited_def)
    qed
  qed
qed

text \<open>The pricer loses no message and mixes up none. While it has not failed, the messages that
  arrived from an exchange are those its worker has taken followed by those still waiting, and the events
  visited are what the exchange's parser makes of the messages taken, one each and in order.\<close>

theorem pricer_events_in_order:
  assumes "list_all step_fits steps" "market_run js steps new_market_state = Some (es, books)" "i < 2"
  shows "\<exists>taken. arrivals i steps = taken @ market_waiting books ! i
    \<and> map (parse_item js (if i = 0 then BinanceParser else ByBitParser)) taken = map Value (visited i es)"
proof -
  have "market_queues js steps [[], []] = Some (es, market_waiting books)"
    using market_run_queues [OF new_market_wf(1) assms(1), of js] assms(2) by (simp add: new_market_wf(2))
  from market_queues_in_order [OF this, of i] assms(3) show ?thesis
    by (cases i) (auto simp: less_Suc_eq)
qed

lemma processor_push_book: "processor_push eventData p = Some p' \<Longrightarrow> ep_book p' = ep_book p"
  by (auto simp: processor_push_def split: prod.splits option.splits bind_splits)

lemma handle_round_book: "handle_round js p = Some (ev, p') \<Longrightarrow> ep_book p' = ep_book p"
proof -
  have visit: "visit_event e b = b" for e :: "'a binance_event" and b by (cases e) simp_all
  assume "handle_round js p = Some (ev, p')"
  then show ?thesis
    by (auto simp: handle_round_parser visit split: option.splits prod.splits outcome.splits)
qed

lemma market_run_books:
  "market_run js steps bs = Some (es, books) \<Longrightarrow> map ep_book books = map ep_book bs"
proof (induction js steps bs arbitrary: es rule: market_run.induct)
  case (2 js exchange eventData steps bs)
  then obtain bs1 where bs1: "market_push exchange eventData bs = Some bs1" "market_run js steps bs1 = Some (es, books)"
    by (auto split: bind_splits)
  have "map ep_book bs1 = map ep_book bs"
    using bs1(1) processor_push_book [of eventData "bs ! exchange_index exchange"]
    by (auto simp: market_push_def map_update split: if_splits)
      (metis length_map list_update_id nth_map)
  with "2.IH" [OF bs1] show ?case by simp
next
  case (3 js i steps bs)
  then obtain es1 bs1 es2 where bs1: "market_round js i bs = Some (es1, bs1)" "market_run js steps bs1 = Some (es2, books)"
    by (auto split: bind_splits)
  have "map ep_book bs1 = map ep_book bs"
    using bs1(1) handle_round_book [of js "bs ! i"]
    by (auto simp: market_round_def map_update split: if_splits) (metis length_map list_update_id nth_map)
  with "3.IH" [OF bs1(1) refl bs1(2)] show ?case by simp
qed simp

text \<open>The depth books are never updated. Whatever arrives, depth updates included, every processor's
  book stays empty: both best prices are absent in every state the pricer reaches.\<close>

theorem pricer_never_updates_book:
  assumes "market_run js steps new_market_state = Some (es, books)" "p \<in> set books"
  shows "ep_book p = new_depth_book \<and> getBestBid (ep_book p) = Some None \<and> getBestAsk (ep_book p) = Some None"
proof -
  have "ep_book p \<in> set (map ep_book books)" using assms(2) by simp
  then have "ep_book p = new_depth_book"
    unfolding market_run_books [OF assms(1)] by (simp add: new_market_state_def new_processor_def)
  then show ?thesis
    by (simp add: getBestBid_def getBestAsk_def getBestPrice_def new_depth_book_def fm_empty_def new_flat_map_def)
qed

theorem pricer_never_updates_book_witness:
  "\<exists>es books. market_run ack_ops [Arrive Binance ack, Round 0] new_market_state = Some (es, books)
     \<and> (\<forall>p\<in>set books. getBestBid (ep_book p) = Some None)"
proof -
  have "map_option (apsnd market_waiting) (market_run ack_ops [Arrive Binance ack, Round 0] new_market_state)
      = Some ([(0, NoYetImplemented ''kline_1m'')], [[], []])"
    using market_run_queues [OF new_market_wf(1), of "[Arrive Binance ack, Round 0]" ack_ops]
    by (simp add: new_market_wf(2) Let_def parse_item_def ack_parsed ack_fits)
  then obtain es books where "market_run ack_ops [Arrive Binance ack, Round 0] new_market_state = Some (es, books)" by auto
  with pricer_never_updates_book [OF this] show ?thesis by blast
qed

end
