(* ===== verification/Fix_Client.thy ===== *)
theory Fix_Client
  imports Prelude "HOL-Library.Monad_Syntax"
begin

text \<open>
  The FIX client of \<open>FixExperiments/client/Application.cpp\<close>: it asks its user for the fields of an
  order, a cancellation, a replacement or a market data request, builds the message of one of six
  versions of the protocol and sends it.

  The FIX library is third-party code. Messages are an arbitrary type with the library's operations
  (\<open>fix_ops\<close>); the locale \<open>fix_library\<close> states that a field reads back as it was set. Constants of the
  protocol are kept under their names. The console is the function from a prompt, and how often it has
  been shown for this message, to the answer: C++ leaves open in which order the arguments of a
  constructor are evaluated, so the order of the prompts is not part of the model. An answer that is
  none of the choices throws, and nothing is sent (\<open>None\<close>). Extractions that fail are not modelled.
\<close>

section \<open>The library's interface\<close>

datatype fix_version = FIX40 | FIX41 | FIX42 | FIX43 | FIX44 | FIX50

datatype fix_type = NewOrderSingle | OrderCancelRequest | OrderCancelReplaceRequest | MarketDataRequest | ExecutionReport

text \<open>\<open>LastShares\<close> was renamed \<open>LastQty\<close> in version 4.3; both are the same field.\<close>

datatype fix_field =
    F_Account | F_AvgPx | F_ClOrdID | F_CumQty | F_CxlType | F_ExecID | F_ExecTransType | F_ExecType | F_HandlInst
  | F_LastPx | F_LastShares | F_LeavesQty | F_MarketDepth | F_MDEntryType | F_MDReqID | F_OrderID | F_OrderQty
  | F_OrdStatus | F_OrdType | F_OrigClOrdID | F_PossDupFlag | F_Price | F_SenderCompID | F_Side | F_StopPx
  | F_SubscriptionRequestType | F_Symbol | F_TargetCompID | F_TargetSubID | F_TimeInForce | F_TransactTime

datatype 'd fix_value = FText string | FChar char | FNum 'd | FConst string | FBool bool

datatype fix_group = NoMDEntryTypes | NoRelatedSym

record ('m, 'd) fix_ops =
  fx_empty :: 'm
  fx_new :: "fix_version \<Rightarrow> fix_type \<Rightarrow> 'm"
  fx_kind :: "'m \<Rightarrow> (fix_version \<times> fix_type) option"
  fx_set :: "fix_field \<Rightarrow> 'd fix_value \<Rightarrow> 'm \<Rightarrow> 'm"
  fx_get :: "fix_field \<Rightarrow> 'm \<Rightarrow> 'd fix_value option"
  fx_setHeader :: "fix_field \<Rightarrow> 'd fix_value \<Rightarrow> 'm \<Rightarrow> 'm"
  fx_getHeader :: "fix_field \<Rightarrow> 'm \<Rightarrow> 'd fix_value option"
  fx_addGroup :: "fix_group \<Rightarrow> (fix_field \<times> 'd fix_value) list \<Rightarrow> 'm \<Rightarrow> 'm"

locale fix_library =
  fixes fx :: "('m, 'd) fix_ops"
  assumes kind_new [simp]: "fx_kind fx (fx_new fx v t) = Some (v, t)"
    and kind_empty [simp]: "fx_kind fx (fx_empty fx) = None"
    and kind_set [simp]: "fx_kind fx (fx_set fx f x m) = fx_kind fx m"
    and kind_setHeader [simp]: "fx_kind fx (fx_setHeader fx f x m) = fx_kind fx m"
    and kind_addGroup [simp]: "fx_kind fx (fx_addGroup fx grp fs m) = fx_kind fx m"
    and get_new [simp]: "fx_get fx f (fx_new fx v t) = None"
    and get_set [simp]: "fx_get fx f (fx_set fx g x m) = (if f = g then Some x else fx_get fx f m)"
    and get_setHeader [simp]: "fx_get fx f (fx_setHeader fx g x m) = fx_get fx f m"
    and get_addGroup [simp]: "fx_get fx f (fx_addGroup fx grp fs m) = fx_get fx f m"
    and header_new [simp]: "fx_getHeader fx f (fx_new fx v t) = None"
    and header_empty [simp]: "fx_getHeader fx f (fx_empty fx) = None"
    and header_set [simp]: "fx_getHeader fx f (fx_set fx g x m) = fx_getHeader fx f m"
    and header_setHeader [simp]: "fx_getHeader fx f (fx_setHeader fx g x m) = (if f = g then Some x else fx_getHeader fx f m)"
    and header_addGroup [simp]: "fx_getHeader fx f (fx_addGroup fx grp fs m) = fx_getHeader fx f m"

definition set_fields :: "('m, 'd) fix_ops \<Rightarrow> (fix_field \<times> 'd fix_value) list \<Rightarrow> 'm \<Rightarrow> 'm" where
  "set_fields fx fs m = foldl (\<lambda>m (f, x). fx_set fx f x m) m fs"

section \<open>The console\<close>

record 'd fix_user =
  us_char :: "string \<Rightarrow> nat \<Rightarrow> char"
  us_string :: "string \<Rightarrow> nat \<Rightarrow> string"
  us_long :: "string \<Rightarrow> nat \<Rightarrow> i64"
  us_double :: "string \<Rightarrow> nat \<Rightarrow> 'd"
  us_now :: string
  us_of_long :: "i64 \<Rightarrow> 'd"

definition query_text :: "'d fix_user \<Rightarrow> string \<Rightarrow> 'd fix_value" where
  "query_text us prompt = FText (us_string us prompt 0)"

definition queryConfirm :: "'d fix_user \<Rightarrow> string \<Rightarrow> bool" where
  "queryConfirm us query = (case us_string us query 0 of [] \<Rightarrow> False | c # _ \<Rightarrow> c = CHR ''y'' \<or> c = CHR ''Y'')"

definition queryAction :: "'d fix_user \<Rightarrow> char option" where
  "queryAction us =
     (let value = us_char us ''Action'' 0
      in if value \<in> set ''12345'' then Some value else None)"

definition queryVersion :: "'d fix_user \<Rightarrow> fix_version option" where
  "queryVersion us =
     map_of (zip ''123456'' [FIX40, FIX41, FIX42, FIX43, FIX44, FIX50]) (us_char us ''BeginString'' 0)"

definition querySide :: "'d fix_user \<Rightarrow> 'd fix_value option" where
  "querySide us =
     map_of (zip ''1234567'' [FConst ''Side_BUY'', FConst ''Side_SELL'', FConst ''Side_SELL_SHORT'',
       FConst ''Side_SELL_SHORT_EXEMPT'', FConst ''Side_CROSS'', FConst ''Side_CROSS_SHORT'', FChar CHR ''A''])
       (us_char us ''Side'' 0)"

definition queryOrdType :: "'d fix_user \<Rightarrow> 'd fix_value option" where
  "queryOrdType us =
     map_of (zip ''1234'' [FConst ''OrdType_MARKET'', FConst ''OrdType_LIMIT'', FConst ''OrdType_STOP'',
       FConst ''OrdType_STOP_LIMIT'']) (us_char us ''OrdType'' 0)"

definition queryTimeInForce :: "'d fix_user \<Rightarrow> 'd fix_value option" where
  "queryTimeInForce us =
     map_of (zip ''12345'' [FConst ''TimeInForce_DAY'', FConst ''TimeInForce_IMMEDIATE_OR_CANCEL'',
       FConst ''TimeInForce_AT_THE_OPENING'', FConst ''TimeInForce_GOOD_TILL_CANCEL'',
       FConst ''TimeInForce_GOOD_TILL_CROSSING'']) (us_char us ''TimeInForce'' 0)"

definition queryOrderQty :: "'d fix_user \<Rightarrow> nat \<Rightarrow> 'd fix_value" where
  "queryOrderQty us n = FNum (us_of_long us (us_long us ''OrderQty'' n))"

definition queryPrice :: "'d fix_user \<Rightarrow> 'd fix_value" where
  "queryPrice us = FNum (us_double us ''Price'' 0)"

definition queryStopPx :: "'d fix_user \<Rightarrow> 'd fix_value" where
  "queryStopPx us = FNum (us_double us ''StopPx'' 0)"

definition queryHeader :: "('m, 'd) fix_ops \<Rightarrow> 'd fix_user \<Rightarrow> 'm \<Rightarrow> 'm" where
  "queryHeader fx us m =
     (let m1 = fx_setHeader fx F_TargetCompID (query_text us ''TargetCompID'')
                 (fx_setHeader fx F_SenderCompID (query_text us ''SenderCompID'') m)
      in if queryConfirm us ''Use a TargetSubID'' then fx_setHeader fx F_TargetSubID (query_text us ''TargetSubID'') m1
         else m1)"

section \<open>New orders\<close>

text \<open>The end all six functions share: the quantity and time in force are set before it where they are
  no arguments of the constructor, then the prices the type needs, then the header.\<close>

definition set_prices :: "('m, 'd) fix_ops \<Rightarrow> 'd fix_user \<Rightarrow> 'd fix_value \<Rightarrow> 'm \<Rightarrow> 'm" where
  "set_prices fx us ordType m =
     (let m1 = (if ordType = FConst ''OrdType_LIMIT'' \<or> ordType = FConst ''OrdType_STOP_LIMIT''
                then fx_set fx F_Price (queryPrice us) m else m)
      in if ordType = FConst ''OrdType_STOP'' \<or> ordType = FConst ''OrdType_STOP_LIMIT''
         then fx_set fx F_StopPx (queryStopPx us) m1 else m1)"

definition queryNewOrderSingle40 :: "('m, 'd) fix_ops \<Rightarrow> 'd fix_user \<Rightarrow> 'm option" where
  "queryNewOrderSingle40 fx us =
     do {
       side \<leftarrow> querySide us; ordType \<leftarrow> queryOrdType us;
       let m = set_fields fx [(F_ClOrdID, query_text us ''ClOrdID''), (F_HandlInst, FChar CHR ''1''),
          (F_Symbol, query_text us ''Symbol''), (F_Side, side), (F_OrderQty, queryOrderQty us 0), (F_OrdType, ordType)]
          (fx_new fx FIX40 NewOrderSingle);
       tif \<leftarrow> queryTimeInForce us;
       Some (queryHeader fx us (set_prices fx us ordType (fx_set fx F_TimeInForce tif m))) }"

definition queryNewOrderSingle41 :: "('m, 'd) fix_ops \<Rightarrow> 'd fix_user \<Rightarrow> 'm option" where
  "queryNewOrderSingle41 fx us =
     do {
       side \<leftarrow> querySide us; ordType \<leftarrow> queryOrdType us;
       let m = set_fields fx [(F_ClOrdID, query_text us ''ClOrdID''), (F_HandlInst, FChar CHR ''1''),
          (F_Symbol, query_text us ''Symbol''), (F_Side, side), (F_OrdType, ordType)] (fx_new fx FIX41 NewOrderSingle);
       tif \<leftarrow> queryTimeInForce us;
       Some (queryHeader fx us (set_prices fx us ordType
         (set_fields fx [(F_OrderQty, queryOrderQty us 0), (F_TimeInForce, tif)] m))) }"

definition queryNewOrderSingle42 :: "('m, 'd) fix_ops \<Rightarrow> 'd fix_user \<Rightarrow> 'm option" where
  "queryNewOrderSingle42 fx us =
     do {
       side \<leftarrow> querySide us; ordType \<leftarrow> queryOrdType us;
       let m = set_fields fx [(F_ClOrdID, query_text us ''ClOrdID''), (F_HandlInst, FChar CHR ''1''),
          (F_Symbol, query_text us ''Symbol''), (F_Side, side), (F_TransactTime, FText (us_now us)), (F_OrdType, ordType)]
          (fx_new fx FIX42 NewOrderSingle);
       tif \<leftarrow> queryTimeInForce us;
       Some (queryHeader fx us (set_prices fx us ordType
         (set_fields fx [(F_OrderQty, queryOrderQty us 0), (F_TimeInForce, tif)] m))) }"

definition queryNewOrderSingle43 :: "('m, 'd) fix_ops \<Rightarrow> 'd fix_user \<Rightarrow> 'm option" where
  "queryNewOrderSingle43 fx us =
     do {
       ordType \<leftarrow> queryOrdType us; side \<leftarrow> querySide us;
       let m = set_fields fx [(F_ClOrdID, query_text us ''ClOrdID''), (F_HandlInst, FChar CHR ''1''), (F_Side, side),
          (F_TransactTime, FText (us_now us)), (F_OrdType, ordType)] (fx_new fx FIX43 NewOrderSingle);
       tif \<leftarrow> queryTimeInForce us;
       Some (queryHeader fx us (set_prices fx us ordType (set_fields fx [(F_Symbol, query_text us ''Symbol''),
         (F_OrderQty, queryOrderQty us 0), (F_TimeInForce, tif)] m))) }"

definition queryNewOrderSingle44 :: "('m, 'd) fix_ops \<Rightarrow> 'd fix_user \<Rightarrow> 'm option" where
  "queryNewOrderSingle44 fx us =
     do {
       side \<leftarrow> querySide us; ordType \<leftarrow> queryOrdType us;
       let m = set_fields fx [(F_ClOrdID, query_text us ''ClOrdID''), (F_Side, side),
          (F_TransactTime, FText (us_now us)), (F_OrdType, ordType)] (fx_new fx FIX44 NewOrderSingle);
       tif \<leftarrow> queryTimeInForce us;
       Some (queryHeader fx us (set_prices fx us ordType (set_fields fx [(F_HandlInst, FChar CHR ''1''),
         (F_Symbol, query_text us ''Symbol''), (F_OrderQty, queryOrderQty us 0), (F_TimeInForce, tif)] m))) }"

definition queryNewOrderSingle50 :: "('m, 'd) fix_ops \<Rightarrow> 'd fix_user \<Rightarrow> 'm option" where
  "queryNewOrderSingle50 fx us =
     do {
       side \<leftarrow> querySide us; ordType \<leftarrow> queryOrdType us;
       let m = set_fields fx [(F_ClOrdID, query_text us ''ClOrdID''), (F_Side, side),
          (F_TransactTime, FText (us_now us)), (F_OrdType, ordType)] (fx_new fx FIX50 NewOrderSingle);
       tif \<leftarrow> queryTimeInForce us;
       Some (queryHeader fx us (set_prices fx us ordType (set_fields fx [(F_HandlInst, FChar CHR ''1''),
         (F_Symbol, query_text us ''Symbol''), (F_OrderQty, queryOrderQty us 0), (F_TimeInForce, tif)] m))) }"

section \<open>Cancellations\<close>

definition queryOrderCancelRequest40 :: "('m, 'd) fix_ops \<Rightarrow> 'd fix_user \<Rightarrow> 'm option" where
  "queryOrderCancelRequest40 fx us =
     do {
       side \<leftarrow> querySide us;
       Some (queryHeader fx us (set_fields fx [(F_OrigClOrdID, query_text us ''OrigClOrdID''), (F_ClOrdID, query_text us ''ClOrdID''),
         (F_CxlType, FChar CHR ''F''), (F_Symbol, query_text us ''Symbol''), (F_Side, side), (F_OrderQty, queryOrderQty us 0)]
         (fx_new fx FIX40 OrderCancelRequest))) }"

definition queryOrderCancelRequest41 :: "('m, 'd) fix_ops \<Rightarrow> 'd fix_user \<Rightarrow> 'm option" where
  "queryOrderCancelRequest41 fx us =
     do {
       side \<leftarrow> querySide us;
       Some (queryHeader fx us (fx_set fx F_OrderQty (queryOrderQty us 0)
         (set_fields fx [(F_OrigClOrdID, query_text us ''OrigClOrdID''), (F_ClOrdID, query_text us ''ClOrdID''),
           (F_Symbol, query_text us ''Symbol''), (F_Side, side)] (fx_new fx FIX41 OrderCancelRequest)))) }"

definition queryOrderCancelRequest42 :: "('m, 'd) fix_ops \<Rightarrow> 'd fix_user \<Rightarrow> 'm option" where
  "queryOrderCancelRequest42 fx us =
     do {
       side \<leftarrow> querySide us;
       Some (queryHeader fx us (fx_set fx F_OrderQty (queryOrderQty us 0)
         (set_fields fx [(F_OrigClOrdID, query_text us ''OrigClOrdID''), (F_ClOrdID, query_text us ''ClOrdID''),
           (F_Symbol, query_text us ''Symbol''), (F_Side, side), (F_TransactTime, FText (us_now us))]
           (fx_new fx FIX42 OrderCancelRequest)))) }"

text \<open>From version 4.3 on the symbol is set after the construction.\<close>

definition cancel_request_later :: "fix_version \<Rightarrow> ('m, 'd) fix_ops \<Rightarrow> 'd fix_user \<Rightarrow> 'm option" where
  "cancel_request_later v fx us =
     do {
       side \<leftarrow> querySide us;
       Some (queryHeader fx us (set_fields fx [(F_Symbol, query_text us ''Symbol''), (F_OrderQty, queryOrderQty us 0)]
         (set_fields fx [(F_OrigClOrdID, query_text us ''OrigClOrdID''), (F_ClOrdID, query_text us ''ClOrdID''),
           (F_Side, side), (F_TransactTime, FText (us_now us))] (fx_new fx v OrderCancelRequest)))) }"

definition queryOrderCancelRequest43 :: "('m, 'd) fix_ops \<Rightarrow> 'd fix_user \<Rightarrow> 'm option" where
  "queryOrderCancelRequest43 = cancel_request_later FIX43"

definition queryOrderCancelRequest44 :: "('m, 'd) fix_ops \<Rightarrow> 'd fix_user \<Rightarrow> 'm option" where
  "queryOrderCancelRequest44 = cancel_request_later FIX44"

definition queryOrderCancelRequest50 :: "('m, 'd) fix_ops \<Rightarrow> 'd fix_user \<Rightarrow> 'm option" where
  "queryOrderCancelRequest50 = cancel_request_later FIX50"

section \<open>Replacements\<close>

text \<open>The changes the user confirms; \<open>n\<close> is how often the quantity has been asked for before.\<close>

definition set_changes :: "('m, 'd) fix_ops \<Rightarrow> 'd fix_user \<Rightarrow> nat \<Rightarrow> 'm \<Rightarrow> 'm" where
  "set_changes fx us n m =
     (let m1 = (if queryConfirm us ''New price'' then fx_set fx F_Price (queryPrice us) m else m)
      in if queryConfirm us ''New quantity'' then fx_set fx F_OrderQty (queryOrderQty us n) m1 else m1)"

definition queryCancelReplaceRequest40 :: "('m, 'd) fix_ops \<Rightarrow> 'd fix_user \<Rightarrow> 'm option" where
  "queryCancelReplaceRequest40 fx us =
     do {
       side \<leftarrow> querySide us; ordType \<leftarrow> queryOrdType us;
       Some (queryHeader fx us (set_changes fx us 1 (set_fields fx [(F_OrigClOrdID, query_text us ''OrigClOrdID''),
         (F_ClOrdID, query_text us ''ClOrdID''), (F_HandlInst, FChar CHR ''1''), (F_Symbol, query_text us ''Symbol''),
         (F_Side, side), (F_OrderQty, queryOrderQty us 0), (F_OrdType, ordType)]
         (fx_new fx FIX40 OrderCancelReplaceRequest)))) }"

definition queryCancelReplaceRequest41 :: "('m, 'd) fix_ops \<Rightarrow> 'd fix_user \<Rightarrow> 'm option" where
  "queryCancelReplaceRequest41 fx us =
     do {
       side \<leftarrow> querySide us; ordType \<leftarrow> queryOrdType us;
       Some (queryHeader fx us (set_changes fx us 0 (set_fields fx [(F_OrigClOrdID, query_text us ''OrigClOrdID''),
         (F_ClOrdID, query_text us ''ClOrdID''), (F_HandlInst, FChar CHR ''1''), (F_Symbol, query_text us ''Symbol''),
         (F_Side, side), (F_OrdType, ordType)] (fx_new fx FIX41 OrderCancelReplaceRequest)))) }"

definition queryCancelReplaceRequest42 :: "('m, 'd) fix_ops \<Rightarrow> 'd fix_user \<Rightarrow> 'm option" where
  "queryCancelReplaceRequest42 fx us =
     do {
       side \<leftarrow> querySide us; ordType \<leftarrow> queryOrdType us;
       Some (queryHeader fx us (set_changes fx us 0 (set_fields fx [(F_OrigClOrdID, query_text us ''OrigClOrdID''),
         (F_ClOrdID, query_text us ''ClOrdID''), (F_HandlInst, FChar CHR ''1''), (F_Symbol, query_text us ''Symbol''),
         (F_Side, side), (F_TransactTime, FText (us_now us)), (F_OrdType, ordType)]
         (fx_new fx FIX42 OrderCancelReplaceRequest)))) }"

definition queryCancelReplaceRequest43 :: "('m, 'd) fix_ops \<Rightarrow> 'd fix_user \<Rightarrow> 'm option" where
  "queryCancelReplaceRequest43 fx us =
     do {
       side \<leftarrow> querySide us; ordType \<leftarrow> queryOrdType us;
       Some (queryHeader fx us (set_changes fx us 0 (fx_set fx F_Symbol (query_text us ''Symbol'')
         (set_fields fx [(F_OrigClOrdID, query_text us ''OrigClOrdID''), (F_ClOrdID, query_text us ''ClOrdID''),
           (F_HandlInst, FChar CHR ''1''), (F_Side, side), (F_TransactTime, FText (us_now us)), (F_OrdType, ordType)]
           (fx_new fx FIX43 OrderCancelReplaceRequest))))) }"

definition replace_request_later :: "fix_version \<Rightarrow> ('m, 'd) fix_ops \<Rightarrow> 'd fix_user \<Rightarrow> 'm option" where
  "replace_request_later v fx us =
     do {
       side \<leftarrow> querySide us; ordType \<leftarrow> queryOrdType us;
       Some (queryHeader fx us (set_changes fx us 0
         (set_fields fx [(F_HandlInst, FChar CHR ''1''), (F_Symbol, query_text us ''Symbol'')]
           (set_fields fx [(F_OrigClOrdID, query_text us ''OrigClOrdID''), (F_ClOrdID, query_text us ''ClOrdID''),
             (F_Side, side), (F_TransactTime, FText (us_now us)), (F_OrdType, ordType)]
             (fx_new fx v OrderCancelReplaceRequest))))) }"

definition queryCancelReplaceRequest44 :: "('m, 'd) fix_ops \<Rightarrow> 'd fix_user \<Rightarrow> 'm option" where
  "queryCancelReplaceRequest44 = replace_request_later FIX44"

definition queryCancelReplaceRequest50 :: "('m, 'd) fix_ops \<Rightarrow> 'd fix_user \<Rightarrow> 'm option" where
  "queryCancelReplaceRequest50 = replace_request_later FIX50"

section \<open>Market data requests\<close>

definition market_data_request :: "fix_version \<Rightarrow> ('m, 'd) fix_ops \<Rightarrow> 'd fix_user \<Rightarrow> 'm" where
  "market_data_request v fx us =
     queryHeader fx us
       (fx_addGroup fx NoRelatedSym [(F_Symbol, FText ''LNUX'')]
         (fx_addGroup fx NoMDEntryTypes [(F_MDEntryType, FConst ''MDEntryType_BID'')]
           (set_fields fx [(F_MDReqID, FText ''MARKETDATAID''),
              (F_SubscriptionRequestType, FConst ''SubscriptionRequestType_SNAPSHOT''),
              (F_MarketDepth, FNum (us_of_long us 0))] (fx_new fx v MarketDataRequest))))"

definition queryMarketDataRequest43 :: "('m, 'd) fix_ops \<Rightarrow> 'd fix_user \<Rightarrow> 'm" where
  "queryMarketDataRequest43 = market_data_request FIX43"

definition queryMarketDataRequest44 :: "('m, 'd) fix_ops \<Rightarrow> 'd fix_user \<Rightarrow> 'm" where
  "queryMarketDataRequest44 = market_data_request FIX44"

definition queryMarketDataRequest50 :: "('m, 'd) fix_ops \<Rightarrow> 'd fix_user \<Rightarrow> 'm" where
  "queryMarketDataRequest50 = market_data_request FIX50"

section \<open>The menu\<close>

text \<open>What an entry of the menu hands to \<open>sendToTarget\<close>: nothing when an answer throws (outer option) or the
  user does not confirm (inner).\<close>

definition queryEnterOrder :: "('m, 'd) fix_ops \<Rightarrow> 'd fix_user \<Rightarrow> 'm option option" where
  "queryEnterOrder fx us =
     do {
       version \<leftarrow> queryVersion us;
       ord \<leftarrow> (case version of
           FIX40 \<Rightarrow> queryNewOrderSingle40 fx us | FIX41 \<Rightarrow> queryNewOrderSingle41 fx us
         | FIX42 \<Rightarrow> queryNewOrderSingle42 fx us | FIX43 \<Rightarrow> queryNewOrderSingle43 fx us
         | FIX44 \<Rightarrow> queryNewOrderSingle44 fx us | FIX50 \<Rightarrow> queryNewOrderSingle50 fx us);
       Some (if queryConfirm us ''Send order'' then Some ord else None) }"

definition queryCancelOrder :: "('m, 'd) fix_ops \<Rightarrow> 'd fix_user \<Rightarrow> 'm option option" where
  "queryCancelOrder fx us =
     do {
       version \<leftarrow> queryVersion us;
       cancel \<leftarrow> (case version of
           FIX40 \<Rightarrow> queryOrderCancelRequest40 fx us | FIX41 \<Rightarrow> queryOrderCancelRequest41 fx us
         | FIX42 \<Rightarrow> queryOrderCancelRequest42 fx us | FIX43 \<Rightarrow> queryOrderCancelRequest43 fx us
         | FIX44 \<Rightarrow> queryOrderCancelRequest44 fx us | FIX50 \<Rightarrow> queryOrderCancelRequest50 fx us);
       Some (if queryConfirm us ''Send cancel'' then Some cancel else None) }"

definition queryReplaceOrder :: "('m, 'd) fix_ops \<Rightarrow> 'd fix_user \<Rightarrow> 'm option option" where
  "queryReplaceOrder fx us =
     do {
       version \<leftarrow> queryVersion us;
       replace \<leftarrow> (case version of
           FIX40 \<Rightarrow> queryCancelReplaceRequest40 fx us | FIX41 \<Rightarrow> queryCancelReplaceRequest41 fx us
         | FIX42 \<Rightarrow> queryCancelReplaceRequest42 fx us | FIX43 \<Rightarrow> queryCancelReplaceRequest43 fx us
         | FIX44 \<Rightarrow> queryCancelReplaceRequest44 fx us | FIX50 \<Rightarrow> queryCancelReplaceRequest50 fx us);
       Some (if queryConfirm us ''Send replace'' then Some replace else None) }"

text \<open>For a version without such requests the message that was only constructed is sent.\<close>

definition queryMarketDataRequest :: "('m, 'd) fix_ops \<Rightarrow> 'd fix_user \<Rightarrow> 'm option option" where
  "queryMarketDataRequest fx us =
     do {
       version \<leftarrow> queryVersion us;
       Some (Some (case version of
           FIX43 \<Rightarrow> queryMarketDataRequest43 fx us | FIX44 \<Rightarrow> queryMarketDataRequest44 fx us
         | FIX50 \<Rightarrow> queryMarketDataRequest50 fx us | _ \<Rightarrow> fx_empty fx)) }"

text \<open>The menu's loop over the answers of its rounds: the messages sent until the user quits.\<close>

fun client_run :: "('m, 'd) fix_ops \<Rightarrow> 'd fix_user list \<Rightarrow> 'm list" where
  "client_run fx [] = []"
| "client_run fx (us # rest) =
     (if queryAction us = Some CHR ''5'' then []
      else (let sent = (case queryAction us of
                    None \<Rightarrow> None
                  | Some action \<Rightarrow>
                      if action = CHR ''1'' then queryEnterOrder fx us
                      else if action = CHR ''2'' then queryCancelOrder fx us
                      else if action = CHR ''3'' then queryReplaceOrder fx us
                      else if action = CHR ''4'' then queryMarketDataRequest fx us
                      else None)
            in (case sent of Some (Some m) \<Rightarrow> [m] | _ \<Rightarrow> []) @ client_run fx rest))"

text \<open>\<open>toApp\<close>: a message flagged as a possible duplicate is not sent.\<close>

definition toApp_sends :: "('m, 'd) fix_ops \<Rightarrow> 'm \<Rightarrow> bool" where
  "toApp_sends fx m \<longleftrightarrow> fx_getHeader fx F_PossDupFlag m \<noteq> Some (FBool True)"

end
