(* ===== verification/Fix_Executor.thy ===== *)
theory Fix_Executor
  imports Fix_Client Json_Documents
begin

text \<open>
  The FIX server of \<open>FixExperiments/server/Application.cpp\<close>, which reports every limit order as filled,
  and the two programs together: what the server answers to what the client sends. The library is the
  one of \<open>Fix_Client\<close>; an exception the server throws to it is a value. The two counters have 32 bits
  and a sign: counting beyond the largest one is undefined (\<open>None\<close>).
\<close>

section \<open>The server\<close>

datatype fix_error = FieldNotFound fix_field | IncorrectTagValue fix_field | UnsupportedMessageType

record fix_server =
  sv_orderID :: int
  sv_execID :: int

definition new_fix_server :: fix_server where
  "new_fix_server = \<lparr>sv_orderID = 0, sv_execID = 0\<rparr>"

definition max_fix_id :: int where "max_fix_id = 2 ^ 31 - 1"

definition genOrderID :: "fix_server \<Rightarrow> (string \<times> fix_server) option" where
  "genOrderID s = (if sv_orderID s = max_fix_id then None
     else Some (decimal_text (nat (sv_orderID s + 1)), s\<lparr>sv_orderID := sv_orderID s + 1\<rparr>))"

definition genExecID :: "fix_server \<Rightarrow> (string \<times> fix_server) option" where
  "genExecID s = (if sv_execID s = max_fix_id then None
     else Some (decimal_text (nat (sv_execID s + 1)), s\<lparr>sv_execID := sv_execID s + 1\<rparr>))"

definition get_field :: "('m, 'd) fix_ops \<Rightarrow> 'm \<Rightarrow> fix_field \<Rightarrow> fix_error + 'd fix_value" where
  "get_field fx message f = (case fx_get fx f message of None \<Rightarrow> Inl (FieldNotFound f) | Some x \<Rightarrow> Inr x)"

primrec or_else :: "'e + 'a \<Rightarrow> ('a \<Rightarrow> 'e + 'b) \<Rightarrow> 'e + 'b" where
  "or_else (Inl e) f = Inl e"
| "or_else (Inr x) f = f x"

record 'd order_fields =
  of_symbol :: "'d fix_value"
  of_side :: "'d fix_value"
  of_orderQty :: "'d fix_value"
  of_price :: "'d fix_value"
  of_clOrdID :: "'d fix_value"

text \<open>The reading all six handlers begin with.\<close>

definition read_order :: "('m, 'd) fix_ops \<Rightarrow> 'm \<Rightarrow> fix_error + 'd order_fields" where
  "read_order fx message =
     or_else (get_field fx message F_OrdType) (\<lambda>ordType.
       if ordType \<noteq> FConst ''OrdType_LIMIT'' then Inl (IncorrectTagValue F_OrdType)
       else or_else (get_field fx message F_Symbol) (\<lambda>symbol.
         or_else (get_field fx message F_Side) (\<lambda>side.
         or_else (get_field fx message F_OrderQty) (\<lambda>orderQty.
         or_else (get_field fx message F_Price) (\<lambda>price.
         or_else (get_field fx message F_ClOrdID) (\<lambda>clOrdID.
           Inr \<lparr>of_symbol = symbol, of_side = side, of_orderQty = orderQty, of_price = price, of_clOrdID = clOrdID\<rparr>))))))"

text \<open>The fields of the report, in the order in which each version sets them; \<open>zero\<close> is the number 0.\<close>

definition report40 :: "string \<Rightarrow> string \<Rightarrow> 'd \<Rightarrow> 'd order_fields \<Rightarrow> (fix_field \<times> 'd fix_value) list" where
  "report40 orderID execID zero r =
     [(F_OrderID, FText orderID), (F_ExecID, FText execID), (F_ExecTransType, FConst ''ExecTransType_NEW''),
      (F_OrdStatus, FConst ''OrdStatus_FILLED''), (F_Symbol, of_symbol r), (F_Side, of_side r), (F_OrderQty, of_orderQty r),
      (F_LastShares, of_orderQty r), (F_LastPx, of_price r), (F_CumQty, of_orderQty r), (F_AvgPx, of_price r),
      (F_ClOrdID, of_clOrdID r)]"

definition report41 :: "string \<Rightarrow> string \<Rightarrow> 'd \<Rightarrow> 'd order_fields \<Rightarrow> (fix_field \<times> 'd fix_value) list" where
  "report41 orderID execID zero r =
     [(F_OrderID, FText orderID), (F_ExecID, FText execID), (F_ExecTransType, FConst ''ExecTransType_NEW''),
      (F_ExecType, FConst ''ExecType_FILL''), (F_OrdStatus, FConst ''OrdStatus_FILLED''), (F_Symbol, of_symbol r),
      (F_Side, of_side r), (F_OrderQty, of_orderQty r), (F_LastShares, of_orderQty r), (F_LastPx, of_price r),
      (F_LeavesQty, FNum zero), (F_CumQty, of_orderQty r), (F_AvgPx, of_price r), (F_ClOrdID, of_clOrdID r)]"

definition report42 :: "string \<Rightarrow> string \<Rightarrow> 'd \<Rightarrow> 'd order_fields \<Rightarrow> (fix_field \<times> 'd fix_value) list" where
  "report42 orderID execID zero r =
     [(F_OrderID, FText orderID), (F_ExecID, FText execID), (F_ExecTransType, FConst ''ExecTransType_NEW''),
      (F_ExecType, FConst ''ExecType_FILL''), (F_OrdStatus, FConst ''OrdStatus_FILLED''), (F_Symbol, of_symbol r),
      (F_Side, of_side r), (F_LeavesQty, FNum zero), (F_CumQty, of_orderQty r), (F_AvgPx, of_price r),
      (F_ClOrdID, of_clOrdID r), (F_OrderQty, of_orderQty r), (F_LastShares, of_orderQty r), (F_LastPx, of_price r)]"

definition report43 :: "string \<Rightarrow> string \<Rightarrow> 'd \<Rightarrow> 'd order_fields \<Rightarrow> (fix_field \<times> 'd fix_value) list" where
  "report43 orderID execID zero r =
     [(F_OrderID, FText orderID), (F_ExecID, FText execID), (F_ExecType, FConst ''ExecType_FILL''),
      (F_OrdStatus, FConst ''OrdStatus_FILLED''), (F_Side, of_side r), (F_LeavesQty, FNum zero),
      (F_CumQty, of_orderQty r), (F_AvgPx, of_price r), (F_ClOrdID, of_clOrdID r), (F_Symbol, of_symbol r),
      (F_OrderQty, of_orderQty r), (F_LastShares, of_orderQty r), (F_LastPx, of_price r)]"

definition report44 :: "string \<Rightarrow> string \<Rightarrow> 'd \<Rightarrow> 'd order_fields \<Rightarrow> (fix_field \<times> 'd fix_value) list" where
  "report44 orderID execID zero r =
     [(F_OrderID, FText orderID), (F_ExecID, FText execID), (F_ExecType, FConst ''ExecType_TRADE''),
      (F_OrdStatus, FConst ''OrdStatus_FILLED''), (F_Side, of_side r), (F_LeavesQty, FNum zero),
      (F_CumQty, of_orderQty r), (F_AvgPx, of_price r), (F_ClOrdID, of_clOrdID r), (F_Symbol, of_symbol r),
      (F_OrderQty, of_orderQty r), (F_LastShares, of_orderQty r), (F_LastPx, of_price r)]"

definition report50 :: "string \<Rightarrow> string \<Rightarrow> 'd \<Rightarrow> 'd order_fields \<Rightarrow> (fix_field \<times> 'd fix_value) list" where
  "report50 orderID execID zero r =
     [(F_OrderID, FText orderID), (F_ExecID, FText execID), (F_ExecType, FConst ''ExecType_TRADE''),
      (F_OrdStatus, FConst ''OrdStatus_FILLED''), (F_Side, of_side r), (F_LeavesQty, FNum zero),
      (F_CumQty, of_orderQty r), (F_ClOrdID, of_clOrdID r), (F_Symbol, of_symbol r), (F_OrderQty, of_orderQty r),
      (F_LastShares, of_orderQty r), (F_LastPx, of_price r), (F_AvgPx, of_price r)]"

definition report_fields ::
  "fix_version \<Rightarrow> string \<Rightarrow> string \<Rightarrow> 'd \<Rightarrow> 'd order_fields \<Rightarrow> (fix_field \<times> 'd fix_value) list" where
  "report_fields v = (case v of FIX40 \<Rightarrow> report40 | FIX41 \<Rightarrow> report41 | FIX42 \<Rightarrow> report42
     | FIX43 \<Rightarrow> report43 | FIX44 \<Rightarrow> report44 | FIX50 \<Rightarrow> report50)"

text \<open>The handler of a version. The account is copied when there is one; a session that is not found is
  ignored, so the report counts as sent.\<close>

definition onMessage ::
  "('m, 'd) fix_ops \<Rightarrow> 'd \<Rightarrow> fix_version \<Rightarrow> 'm \<Rightarrow> fix_server \<Rightarrow> ((fix_error + 'm) \<times> fix_server) option" where
  "onMessage fx zero v message s =
     (case read_order fx message of
        Inl e \<Rightarrow> Some (Inl e, s)
      | Inr r \<Rightarrow>
          do {
            (orderID, s1) \<leftarrow> genOrderID s;
            (execID, s2) \<leftarrow> genExecID s1;
            let report = set_fields fx (report_fields v orderID execID zero r) (fx_new fx v ExecutionReport);
            Some (Inr (case fx_get fx F_Account message of
                         None \<Rightarrow> report | Some account \<Rightarrow> fx_set fx F_Account account report), s2) })"

text \<open>\<open>fromApp\<close> cracks the message: the version and type choose the handler, other messages are
  unsupported.\<close>

definition server_fromApp ::
  "('m, 'd) fix_ops \<Rightarrow> 'd \<Rightarrow> 'm \<Rightarrow> fix_server \<Rightarrow> ((fix_error + 'm) \<times> fix_server) option" where
  "server_fromApp fx zero message s =
     (case fx_kind fx message of
        Some (v, NewOrderSingle) \<Rightarrow> onMessage fx zero v message s
      | _ \<Rightarrow> Some (Inl UnsupportedMessageType, s))"

fun server_run ::
  "('m, 'd) fix_ops \<Rightarrow> 'd \<Rightarrow> 'm list \<Rightarrow> fix_server \<Rightarrow> ((fix_error + 'm) list \<times> fix_server) option" where
  "server_run fx zero [] s = Some ([], s)"
| "server_run fx zero (m # ms) s =
     do { (answer, s1) \<leftarrow> server_fromApp fx zero m s;
          (answers, s2) \<leftarrow> server_run fx zero ms s1;
          Some (answer # answers, s2) }"

section \<open>A concrete library\<close>

record fix_message =
  fm_kind :: "(fix_version \<times> fix_type) option"
  fm_header :: "fix_field \<Rightarrow> nat fix_value option"
  fm_body :: "fix_field \<Rightarrow> nat fix_value option"
  fm_groups :: "(fix_group \<times> (fix_field \<times> nat fix_value) list) list"

definition message_ops :: "(fix_message, nat) fix_ops" where
  "message_ops =
     \<lparr>fx_empty = \<lparr>fm_kind = None, fm_header = Map.empty, fm_body = Map.empty, fm_groups = []\<rparr>,
      fx_new = (\<lambda>v t. \<lparr>fm_kind = Some (v, t), fm_header = Map.empty, fm_body = Map.empty, fm_groups = []\<rparr>),
      fx_kind = fm_kind,
      fx_set = (\<lambda>f x m. m\<lparr>fm_body := (fm_body m)(f \<mapsto> x)\<rparr>),
      fx_get = (\<lambda>f m. fm_body m f),
      fx_setHeader = (\<lambda>f x m. m\<lparr>fm_header := (fm_header m)(f \<mapsto> x)\<rparr>),
      fx_getHeader = (\<lambda>f m. fm_header m f),
      fx_addGroup = (\<lambda>grp fs m. m\<lparr>fm_groups := fm_groups m @ [(grp, fs)]\<rparr>)\<rparr>"

interpretation message_library: fix_library message_ops
  by unfold_locales (simp_all add: message_ops_def)

section \<open>What the server reads and reports\<close>

context fix_library
begin

lemma get_set_fields:
  "fx_get fx f (set_fields fx fs m) = (case map_of (rev fs) f of Some x \<Rightarrow> Some x | None \<Rightarrow> fx_get fx f m)"
proof (induction fs rule: rev_induct)
  case (snoc a fs)
  then show ?case by (cases a) (simp add: set_fields_def)
qed (simp add: set_fields_def)

lemma kind_set_fields [simp]: "fx_kind fx (set_fields fx fs m) = fx_kind fx m"
  by (induction fs rule: rev_induct) (auto simp: set_fields_def)

lemma header_set_fields [simp]: "fx_getHeader fx f (set_fields fx fs m) = fx_getHeader fx f m"
  by (induction fs rule: rev_induct) (auto simp: set_fields_def)

lemma queryHeader_body [simp]:
  "fx_get fx f (queryHeader fx us m) = fx_get fx f m" "fx_kind fx (queryHeader fx us m) = fx_kind fx m"
  by (simp_all add: queryHeader_def Let_def)

lemma set_prices_body [simp]:
  "f \<noteq> F_Price \<Longrightarrow> f \<noteq> F_StopPx \<Longrightarrow> fx_get fx f (set_prices fx us t m) = fx_get fx f m"
  "fx_get fx F_Price (set_prices fx us (FConst ''OrdType_LIMIT'') m) = Some (queryPrice us)"
  "fx_kind fx (set_prices fx us t m) = fx_kind fx m"
  by (auto simp: set_prices_def Let_def)

text \<open>The fields of the order a client enters, in every version.\<close>

lemma entered_order:
  assumes "queryEnterOrder fx us = Some (Some m)"
  shows "\<exists>v side t. queryVersion us = Some v \<and> querySide us = Some side \<and> queryOrdType us = Some t
    \<and> fx_kind fx m = Some (v, NewOrderSingle) \<and> fx_get fx F_OrdType m = Some t \<and> fx_get fx F_Side m = Some side
    \<and> fx_get fx F_Symbol m = Some (query_text us ''Symbol'') \<and> fx_get fx F_OrderQty m = Some (queryOrderQty us 0)
    \<and> fx_get fx F_ClOrdID m = Some (query_text us ''ClOrdID'') \<and> fx_get fx F_Account m = None
    \<and> (t = FConst ''OrdType_LIMIT'' \<longrightarrow> fx_get fx F_Price m = Some (queryPrice us))"
proof -
  obtain v where v: "queryVersion us = Some v" using assms by (auto simp: queryEnterOrder_def split: bind_splits)
  obtain side t where st: "querySide us = Some side" "queryOrdType us = Some t"
    using assms v by (cases v) (auto simp: queryEnterOrder_def queryNewOrderSingle40_def queryNewOrderSingle41_def
      queryNewOrderSingle42_def queryNewOrderSingle43_def queryNewOrderSingle44_def queryNewOrderSingle50_def
      split: bind_splits)
  show ?thesis
    using assms v st by (cases v) (auto simp: queryEnterOrder_def queryNewOrderSingle40_def queryNewOrderSingle41_def
      queryNewOrderSingle42_def queryNewOrderSingle43_def queryNewOrderSingle44_def queryNewOrderSingle50_def
      get_set_fields Let_def split: bind_splits if_splits)
qed

text \<open>What every version reports about an order read.\<close>

lemma report_content:
  assumes "read_order fx message = Inr r" "sv_orderID s < max_fix_id" "sv_execID s < max_fix_id"
  shows "\<exists>report. onMessage fx zero v message s
      = Some (Inr report, s\<lparr>sv_orderID := sv_orderID s + 1, sv_execID := sv_execID s + 1\<rparr>)
    \<and> fx_kind fx report = Some (v, ExecutionReport)
    \<and> fx_get fx F_OrderID report = Some (FText (decimal_text (nat (sv_orderID s + 1))))
    \<and> fx_get fx F_ExecID report = Some (FText (decimal_text (nat (sv_execID s + 1))))
    \<and> fx_get fx F_OrdStatus report = Some (FConst ''OrdStatus_FILLED'')
    \<and> fx_get fx F_Symbol report = Some (of_symbol r) \<and> fx_get fx F_Side report = Some (of_side r)
    \<and> fx_get fx F_OrderQty report = Some (of_orderQty r) \<and> fx_get fx F_CumQty report = Some (of_orderQty r)
    \<and> fx_get fx F_LastShares report = Some (of_orderQty r) \<and> fx_get fx F_LastPx report = Some (of_price r)
    \<and> fx_get fx F_AvgPx report = Some (of_price r) \<and> fx_get fx F_ClOrdID report = Some (of_clOrdID r)
    \<and> fx_get fx F_LeavesQty report = (if v = FIX40 then None else Some (FNum zero))
    \<and> fx_get fx F_Account report = fx_get fx F_Account message"
proof -
  let ?o = "decimal_text (nat (sv_orderID s + 1))" and ?e = "decimal_text (nat (sv_execID s + 1))"
  let ?m = "set_fields fx (report_fields v ?o ?e zero r) (fx_new fx v ExecutionReport)"
  let ?report = "case fx_get fx F_Account message of None \<Rightarrow> ?m | Some account \<Rightarrow> fx_set fx F_Account account ?m"
  have "onMessage fx zero v message s = Some (Inr ?report, s\<lparr>sv_orderID := sv_orderID s + 1, sv_execID := sv_execID s + 1\<rparr>)"
    using assms by (simp add: onMessage_def genOrderID_def genExecID_def Let_def)
  moreover have "fx_kind fx ?report = Some (v, ExecutionReport)" by (simp split: option.split)
  moreover have body: "fx_get fx f ?m = map_of (rev (report_fields v ?o ?e zero r)) f" for f
    by (simp add: get_set_fields split: option.split)
  have "fx_get fx F_Account ?report = fx_get fx F_Account message"
    using body [of F_Account] by (cases v; cases "fx_get fx F_Account message")
      (simp_all add: report_fields_def report40_def report41_def report42_def report43_def report44_def report50_def)
  moreover have "fx_get fx f ?report = map_of (rev (report_fields v ?o ?e zero r)) f" if "f \<noteq> F_Account" for f
    using body [of f] that by (simp split: option.split)
  ultimately show ?thesis
    by (intro exI [of _ ?report]) (cases v; simp add: report_fields_def report40_def report41_def report42_def
      report43_def report44_def report50_def)
qed

end

section \<open>Client and server\<close>

definition limit_order_user :: "nat fix_user" where
  "limit_order_user =
     \<lparr>us_char = (\<lambda>prompt n. if prompt = ''OrdType'' then CHR ''2'' else if prompt = ''BeginString'' then CHR ''5'' else CHR ''1''),
      us_string = (\<lambda>prompt n. if prompt = ''Symbol'' then ''LNUX'' else if prompt = ''ClOrdID'' then ''A7'' else ''y''),
      us_long = (\<lambda>prompt n. 100), us_double = (\<lambda>prompt n. 42), us_now = [], us_of_long = (\<lambda>n. nat (sint n))\<rparr>"

text \<open>C28. What the client enters the server answers. In every version of the protocol an entered limit order
  is reported as filled in full, with the client's own identifier, symbol and side, the whole quantity as
  filled and its limit as the price, nothing left over, and no account; an order of another type, whose
  message has no price or a stop price only, is refused for its type and leaves the server as it was.\<close>

theorem entered_orders_are_filled_or_refused:
  assumes "fix_library fx" "queryEnterOrder fx us = Some (Some m)"
    and "sv_orderID s < max_fix_id" "sv_execID s < max_fix_id"
  shows "\<exists>answer s'. server_fromApp fx zero m s = Some (answer, s')
    \<and> (if queryOrdType us = Some (FConst ''OrdType_LIMIT'')
        then s' = s\<lparr>sv_orderID := sv_orderID s + 1, sv_execID := sv_execID s + 1\<rparr>
          \<and> (\<exists>report v. answer = Inr report \<and> queryVersion us = Some v \<and> fx_kind fx report = Some (v, ExecutionReport)
            \<and> fx_get fx F_OrdStatus report = Some (FConst ''OrdStatus_FILLED'')
            \<and> fx_get fx F_ClOrdID report = Some (query_text us ''ClOrdID'')
            \<and> fx_get fx F_Symbol report = Some (query_text us ''Symbol'')
            \<and> fx_get fx F_Side report = querySide us
            \<and> fx_get fx F_CumQty report = Some (queryOrderQty us 0) \<and> fx_get fx F_LastShares report = Some (queryOrderQty us 0)
            \<and> fx_get fx F_LastPx report = Some (queryPrice us) \<and> fx_get fx F_AvgPx report = Some (queryPrice us)
            \<and> fx_get fx F_LeavesQty report = (if v = FIX40 then None else Some (FNum zero))
            \<and> fx_get fx F_Account report = None)
        else answer = Inl (IncorrectTagValue F_OrdType) \<and> s' = s)"
proof -
  obtain v side t where m: "queryVersion us = Some v" "querySide us = Some side" "queryOrdType us = Some t"
    "fx_kind fx m = Some (v, NewOrderSingle)" "fx_get fx F_OrdType m = Some t" "fx_get fx F_Side m = Some side"
    "fx_get fx F_Symbol m = Some (query_text us ''Symbol'')" "fx_get fx F_OrderQty m = Some (queryOrderQty us 0)"
    "fx_get fx F_ClOrdID m = Some (query_text us ''ClOrdID'')" "fx_get fx F_Account m = None"
    "t = FConst ''OrdType_LIMIT'' \<longrightarrow> fx_get fx F_Price m = Some (queryPrice us)"
    using fix_library.entered_order [OF assms(1,2)] by blast
  have app: "server_fromApp fx zero m s = onMessage fx zero v m s" using m(4) by (simp add: server_fromApp_def)
  show ?thesis
  proof (cases "t = FConst ''OrdType_LIMIT''")
    case True
    let ?r = "\<lparr>of_symbol = query_text us ''Symbol'', of_side = side, of_orderQty = queryOrderQty us 0,
      of_price = queryPrice us, of_clOrdID = query_text us ''ClOrdID''\<rparr>"
    have "read_order fx m = Inr ?r" using m True by (simp add: read_order_def get_field_def)
    from fix_library.report_content [OF assms(1) this assms(3,4), of zero v] m True app show ?thesis by auto
  next
    case False
    then have "read_order fx m = Inl (IncorrectTagValue F_OrdType)" using m(5) by (simp add: read_order_def get_field_def)
    then show ?thesis using app m(3) False by (simp add: onMessage_def)
  qed
qed

theorem entered_orders_are_filled_or_refused_witness:
  "\<exists>m report s'. queryEnterOrder message_ops limit_order_user = Some (Some m)
     \<and> server_fromApp message_ops 0 m new_fix_server = Some (Inr report, s')
     \<and> fx_get message_ops F_CumQty report = Some (FNum 100) \<and> fx_get message_ops F_LastPx report = Some (FNum 42)"
proof -
  have user: "queryVersion limit_order_user = Some FIX44" "querySide limit_order_user = Some (FConst ''Side_BUY'')"
    "queryOrdType limit_order_user = Some (FConst ''OrdType_LIMIT'')" "queryTimeInForce limit_order_user = Some (FConst ''TimeInForce_DAY'')"
    "queryConfirm limit_order_user ''Send order''" "queryOrderQty limit_order_user 0 = FNum 100" "queryPrice limit_order_user = FNum 42"
    by (simp_all add: queryVersion_def querySide_def queryOrdType_def queryTimeInForce_def queryConfirm_def queryOrderQty_def
        queryPrice_def limit_order_user_def)
  then obtain m where m: "queryEnterOrder message_ops limit_order_user = Some (Some m)"
    by (simp add: queryEnterOrder_def queryNewOrderSingle44_def Let_def)
  have ids: "sv_orderID new_fix_server < max_fix_id" "sv_execID new_fix_server < max_fix_id"
    by (simp_all add: new_fix_server_def max_fix_id_def)
  from entered_orders_are_filled_or_refused [OF message_library.fix_library_axioms m ids, of 0] user m
  show ?thesis by fastforce
qed

section \<open>Identifiers\<close>

definition report_ids :: "('m, 'd) fix_ops \<Rightarrow> fix_field \<Rightarrow> (fix_error + 'm) list \<Rightarrow> 'd fix_value option list" where
  "report_ids fx f answers = concat (map (\<lambda>a. case a of Inl e \<Rightarrow> [] | Inr report \<Rightarrow> [fx_get fx f report]) answers)"

definition fix_id :: "nat \<Rightarrow> 'd fix_value option" where
  "fix_id n = Some (FText (decimal_text n))"

lemma fix_id_inj: "fix_id m = fix_id n \<longleftrightarrow> m = n"
  using text_number_decimal by (auto simp: fix_id_def) (metis option.inject)

lemma server_step_ids:
  assumes "fix_library fx" "sv_orderID s = int n" "sv_execID s = int n" "int n < max_fix_id"
  shows "\<exists>answer s'. server_fromApp fx zero m s = Some (answer, s')
    \<and> ((\<exists>e. answer = Inl e) \<and> s' = s
      \<or> (\<exists>report. answer = Inr report \<and> fx_get fx F_OrderID report = fix_id (Suc n) \<and> fx_get fx F_ExecID report = fix_id (Suc n))
        \<and> sv_orderID s' = int (Suc n) \<and> sv_execID s' = int (Suc n))"
proof (cases "\<exists>v. fx_kind fx m = Some (v, NewOrderSingle)")
  case True
  then obtain v where v: "server_fromApp fx zero m s = onMessage fx zero v m s" by (auto simp: server_fromApp_def)
  show ?thesis
  proof (cases "read_order fx m")
    case (Inl e)
    then show ?thesis using v by (simp add: onMessage_def)
  next
    case (Inr r)
    have h: "sv_orderID s < max_fix_id" "sv_execID s < max_fix_id" using assms(2-4) by simp_all
    have "nat (int n + 1) = Suc n" by simp
    with fix_library.report_content [OF assms(1) Inr h, of zero v] assms(2,3) v show ?thesis
      by (auto simp: fix_id_def)
  qed
next
  case False
  then show ?thesis by (auto simp: server_fromApp_def split: option.split fix_type.split)
qed

lemma server_run_ids:
  assumes "fix_library fx"
  shows "sv_orderID s = int n \<Longrightarrow> sv_execID s = int n \<Longrightarrow> int (n + length ms) \<le> max_fix_id \<Longrightarrow>
    \<exists>answers s' k. server_run fx zero ms s = Some (answers, s') \<and> length answers = length ms
      \<and> report_ids fx F_OrderID answers = map fix_id [Suc n..<Suc n + k]
      \<and> report_ids fx F_ExecID answers = map fix_id [Suc n..<Suc n + k]"
proof (induction ms arbitrary: s n)
  case Nil
  then show ?case by (intro exI [of _ "[]"] exI [of _ s] exI [of _ 0]) (simp add: report_ids_def)
next
  case (Cons m ms)
  from Cons.prems have lt: "int n < max_fix_id" by simp
  from server_step_ids [OF assms Cons.prems(1,2) lt, of zero m]
  obtain answer s1 where s1: "server_fromApp fx zero m s = Some (answer, s1)"
    "(\<exists>e. answer = Inl e) \<and> s1 = s
      \<or> (\<exists>report. answer = Inr report \<and> fx_get fx F_OrderID report = fix_id (Suc n) \<and> fx_get fx F_ExecID report = fix_id (Suc n))
        \<and> sv_orderID s1 = int (Suc n) \<and> sv_execID s1 = int (Suc n)" by blast
  from s1(2) show ?case
  proof
    assume a: "(\<exists>e. answer = Inl e) \<and> s1 = s"
    with Cons.IH [of s n] Cons.prems obtain answers s' k where "server_run fx zero ms s1 = Some (answers, s')"
      "length answers = length ms" "report_ids fx F_OrderID answers = map fix_id [Suc n..<Suc n + k]"
      "report_ids fx F_ExecID answers = map fix_id [Suc n..<Suc n + k]" by auto
    with s1(1) a show ?thesis by (intro exI [of _ "answer # answers"] exI [of _ s'] exI [of _ k]) (auto simp: report_ids_def)
  next
    assume a: "(\<exists>report. answer = Inr report \<and> fx_get fx F_OrderID report = fix_id (Suc n) \<and> fx_get fx F_ExecID report = fix_id (Suc n))
        \<and> sv_orderID s1 = int (Suc n) \<and> sv_execID s1 = int (Suc n)"
    with Cons.IH [of s1 "Suc n"] Cons.prems(3) obtain answers s' k where r: "server_run fx zero ms s1 = Some (answers, s')"
      "length answers = length ms" "report_ids fx F_OrderID answers = map fix_id [Suc (Suc n)..<Suc (Suc n) + k]"
      "report_ids fx F_ExecID answers = map fix_id [Suc (Suc n)..<Suc (Suc n) + k]" by auto
    have "[Suc n..<Suc n + Suc k] = Suc n # [Suc (Suc n)..<Suc (Suc n) + k]" by (simp add: upt_rec [of "Suc n"])
    with s1(1) a r show ?thesis
      by (intro exI [of _ "answer # answers"] exI [of _ s'] exI [of _ "Suc k"]) (auto simp: report_ids_def)
  qed
qed

text \<open>The server answers every message, and the order and execution identifiers it gives are the numbers
  from one on, in the order of the reports: none is given twice, and a refused message uses none up, as
  long as no more than \<open>2 ^ 31 - 1\<close> messages arrive.\<close>

theorem server_identifiers_are_consecutive:
  assumes "fix_library fx" "int (length ms) \<le> max_fix_id"
  shows "\<exists>answers s' k. server_run fx zero ms new_fix_server = Some (answers, s') \<and> length answers = length ms
    \<and> report_ids fx F_OrderID answers = map fix_id [1..<1 + k] \<and> report_ids fx F_ExecID answers = map fix_id [1..<1 + k]
    \<and> distinct (report_ids fx F_OrderID answers)"
proof -
  obtain answers s' k where r: "server_run fx zero ms new_fix_server = Some (answers, s')" "length answers = length ms"
    "report_ids fx F_OrderID answers = map fix_id [1..<1 + k]" "report_ids fx F_ExecID answers = map fix_id [1..<1 + k]"
    using server_run_ids [OF assms(1), of new_fix_server 0 ms zero] assms(2) by (auto simp: new_fix_server_def)
  have "distinct (map fix_id [1..<1 + k] :: 'b fix_value option list)" by (simp add: distinct_map inj_on_def fix_id_inj)
  with r show ?thesis by auto
qed

theorem server_identifiers_are_consecutive_witness:
  "\<exists>answers s'. server_run message_ops 0 [fx_empty message_ops, fx_new message_ops FIX40 NewOrderSingle] new_fix_server
     = Some (answers, s') \<and> length answers = 2"
  using server_identifiers_are_consecutive [OF message_library.fix_library_axioms,
      of "[fx_empty message_ops, fx_new message_ops FIX40 NewOrderSingle]" 0] by (auto simp: max_fix_id_def numeral_2_eq_2)

text \<open>A market data request of a version before 4.3: the message sent has no type, and the server takes it for
  unsupported.\<close>

theorem old_market_data_requests_are_empty:
  assumes "fix_library fx" "queryVersion us = Some v" "v \<in> {FIX40, FIX41, FIX42}"
  shows "queryMarketDataRequest fx us = Some (Some (fx_empty fx)) \<and> fx_kind fx (fx_empty fx) = None
    \<and> fx_getHeader fx F_SenderCompID (fx_empty fx) = None
    \<and> server_fromApp fx zero (fx_empty fx) s = Some (Inl UnsupportedMessageType, s)"
  using assms fix_library.kind_empty [OF assms(1)] fix_library.header_empty [OF assms(1)]
  by (auto simp: queryMarketDataRequest_def server_fromApp_def)

end
