(* ===== verification/Config_Loader.thy ===== *)
theory Config_Loader
  imports Risk Json_Documents
begin

text \<open>
  The configuration of the trading core (\<open>TradingCore/src/config/config.hpp\<close> and
  \<open>json_config_loader.cpp\<close>): the fields present in a JSON file replace the defaults. The library's
  interface is that of \<open>Json_Events\<close> with the conversions to the two integer types the loader asks
  for; the file is its content, or absent when it cannot be opened. Every key read has been tested for
  before, so the only exceptions are those the loader catches.
\<close>

section \<open>The loader\<close>

record config =
  cf_instrument :: instrument_id
  cf_strategyOrderQuantity :: quantity
  cf_strategyThresholdNumerator :: i64
  cf_strategyThresholdDenominator :: i64
  cf_riskLimits :: risk_limits

definition default_config :: config where
  "default_config =
     \<lparr>cf_instrument = 1, cf_strategyOrderQuantity = ScaledValue 100000000, cf_strategyThresholdNumerator = 7,
      cf_strategyThresholdDenominator = 10, cf_riskLimits = no_limits\<rparr>"

datatype config_error = FileOpenFailed | InvalidJson | InvalidConfiguration

record 'j json_integers =
  ji_uint32 :: "'j \<Rightarrow> u32 option"
  ji_int64 :: "'j \<Rightarrow> i64 option"

text \<open>\<open>json.contains(key)\<close> and then \<open>json.at(key)\<close>: a document that is no object contains nothing.\<close>

definition json_member :: "('j, 'd) json_ops \<Rightarrow> 'j \<Rightarrow> string \<Rightarrow> 'j option" where
  "json_member js json key = Option.bind (jo_object js json) (\<lambda>members. members key)"

text \<open>A field: unchanged if absent, otherwise converted; \<open>None\<close> is the type error.\<close>

definition read_field ::
  "('j, 'd) json_ops \<Rightarrow> 'j \<Rightarrow> string \<Rightarrow> ('j \<Rightarrow> 'a option) \<Rightarrow> ('a \<Rightarrow> config \<Rightarrow> config) \<Rightarrow> config \<Rightarrow> config option" where
  "read_field js json key convert assign config =
     (case json_member js json key of
        None \<Rightarrow> Some config
      | Some v \<Rightarrow> map_option (\<lambda>x. assign x config) (convert v))"

definition read_strategy :: "('j, 'd) json_ops \<Rightarrow> 'j json_integers \<Rightarrow> 'j \<Rightarrow> config \<Rightarrow> config option" where
  "read_strategy js ji strategy config =
     Option.bind (read_field js strategy ''orderQuantity'' (ji_int64 ji) (\<lambda>x c. c\<lparr>cf_strategyOrderQuantity := ScaledValue x\<rparr>) config)
       (\<lambda>config. Option.bind (read_field js strategy ''thresholdNumerator'' (ji_int64 ji)
           (\<lambda>x c. c\<lparr>cf_strategyThresholdNumerator := x\<rparr>) config)
         (read_field js strategy ''thresholdDenominator'' (ji_int64 ji) (\<lambda>x c. c\<lparr>cf_strategyThresholdDenominator := x\<rparr>)))"

definition read_config :: "('j, 'd) json_ops \<Rightarrow> 'j json_integers \<Rightarrow> 'j \<Rightarrow> config option" where
  "read_config js ji json =
     Option.bind (read_field js json ''instrument'' (ji_uint32 ji) (\<lambda>x c. c\<lparr>cf_instrument := x\<rparr>) default_config)
       (\<lambda>config. Option.bind
          (case json_member js json ''strategy'' of
             None \<Rightarrow> Some config
           | Some strategy \<Rightarrow> read_strategy js ji strategy config)
          (\<lambda>config. (case json_member js json ''risk'' of None \<Rightarrow> Some config | Some risk \<Rightarrow> Some config)))"

definition config_load ::
  "('j, 'd) json_ops \<Rightarrow> 'j json_integers \<Rightarrow> 8 word list option \<Rightarrow> config_error + config" where
  "config_load js ji file =
     (case file of
        None \<Rightarrow> Inl FileOpenFailed
      | Some bytes \<Rightarrow>
          (case jo_parse js bytes of
             None \<Rightarrow> Inl InvalidJson
           | Some json \<Rightarrow>
               (case read_config js ji json of
                  None \<Rightarrow> Inl InvalidConfiguration
                | Some config \<Rightarrow> Inr config)))"

section \<open>Documents\<close>

text \<open>\<open>get<T>\<close> converts an integer of the document to \<open>T\<close> without testing its range.\<close>

locale config_library = json_library js mk for js :: "('j, 'd) json_ops" and mk :: "('j, 'd) json_makers" +
  fixes ji :: "'j json_integers" and mk_int :: "int \<Rightarrow> 'j"
  assumes uint32_made: "ji_uint32 ji (mk_int n) = Some (word_of_int n)"
    and int64_made: "ji_int64 ji (mk_int n) = Some (word_of_int n)"

definition strategy_document :: "('j, 'd) json_makers \<Rightarrow> (int \<Rightarrow> 'j) \<Rightarrow> int \<Rightarrow> int \<Rightarrow> int \<Rightarrow> 'j" where
  "strategy_document mk mk_int quantity numerator denominator =
     mk_object mk [(''orderQuantity'', mk_int quantity), (''thresholdNumerator'', mk_int numerator),
       (''thresholdDenominator'', mk_int denominator)]"

definition config_document :: "('j, 'd) json_makers \<Rightarrow> (int \<Rightarrow> 'j) \<Rightarrow> int \<Rightarrow> 'j \<Rightarrow> 'j \<Rightarrow> 'j" where
  "config_document mk mk_int instrument strategy risk =
     mk_object mk [(''instrument'', mk_int instrument), (''strategy'', strategy), (''risk'', risk)]"

context config_library
begin

lemma member_made: "distinct (map fst kvs) \<Longrightarrow> json_member js (mk_object mk kvs) k = map_of kvs k"
  using object_made [of kvs] by (simp add: json_member_def)

lemma config_document_read:
  "read_config js ji (config_document mk mk_int instrument (strategy_document mk mk_int q n d) risk)
   = Some \<lparr>cf_instrument = word_of_int instrument, cf_strategyOrderQuantity = ScaledValue (word_of_int q),
       cf_strategyThresholdNumerator = word_of_int n, cf_strategyThresholdDenominator = word_of_int d, cf_riskLimits = no_limits\<rparr>"
  by (simp add: read_config_def read_strategy_def read_field_def config_document_def strategy_document_def member_made
      uint32_made int64_made default_config_def)

end

definition value_integers :: "json_value json_integers" where
  "value_integers =
     \<lparr>ji_uint32 = (\<lambda>v. case v of JNumber n \<Rightarrow> Some (ucast n) | JBool b \<Rightarrow> Some (of_bool b) | _ \<Rightarrow> None),
      ji_int64 = (\<lambda>v. case v of JNumber n \<Rightarrow> Some n | JBool b \<Rightarrow> Some (of_bool b) | _ \<Rightarrow> None)\<rparr>"

definition value_int :: "int \<Rightarrow> json_value" where
  "value_int n = JNumber (word_of_int n)"

interpretation config_values: config_library "value_ops parse" value_makers value_integers value_int for parse
  by unfold_locales (simp_all add: value_integers_def value_int_def ucast_eq unsigned_of_int word_of_int_eq_iff)

lemma jo_parse_value_ops: "jo_parse (value_ops parse) = parse"
  by (simp add: value_ops_def)

section \<open>Properties\<close>

text \<open>The loader reads a complete file back, except that whatever the risk section says is dropped.\<close>

theorem config_file_read_back:
  assumes "config_library js mk ji mk_int"
    and "jo_parse js bytes = Some (config_document mk mk_int instrument (strategy_document mk mk_int q n d) risk)"
  shows "config_load js ji (Some bytes)
    = Inr \<lparr>cf_instrument = word_of_int instrument, cf_strategyOrderQuantity = ScaledValue (word_of_int q),
        cf_strategyThresholdNumerator = word_of_int n, cf_strategyThresholdDenominator = word_of_int d, cf_riskLimits = no_limits\<rparr>"
  using assms(2) config_library.config_document_read [OF assms(1)] by (simp add: config_load_def)

lemma read_strategy_limits: "read_strategy js ji s c = Some c' \<Longrightarrow> cf_riskLimits c' = cf_riskLimits c"
  by (auto simp: read_strategy_def read_field_def split: bind_splits option.splits)

text \<open>No configuration file sets a limit. Whatever the file holds, a risk section included, a configuration
  that loads has every limit disabled, so a risk manager set up with it accepts every order at every
  position.\<close>

theorem loaded_limits_are_disabled:
  assumes "config_load js ji file = Inr config"
  shows "cf_riskLimits config = no_limits
    \<and> fst (checkOrder request pos (new_risk_manager (cf_riskLimits config))) = RiskAccepted"
proof -
  have "cf_riskLimits config = no_limits"
    using assms by (auto simp: config_load_def read_config_def read_field_def default_config_def dest!: read_strategy_limits
      split: option.splits bind_splits)
  then show ?thesis
    by (simp add: checkOrder_result within_limits_def quantity_ok_def position_ok_def notional_ok_def new_risk_manager_def no_limits_def)
qed

theorem loaded_limits_are_disabled_witness:
  "\<exists>config. config_load (value_ops (\<lambda>bytes. Some (config_document value_makers value_int 7
       (strategy_document value_makers value_int 5 3 4) (JObject [(''maxOrderQuantity'', JNumber 1)])))) value_integers (Some [])
     = Inr config \<and> cf_instrument config = 7 \<and> cf_riskLimits config = no_limits"
proof -
  let ?risk = "JObject [(''maxOrderQuantity'', JNumber 1)]"
  let ?json = "config_document value_makers value_int 7 (strategy_document value_makers value_int 5 3 4) ?risk"
  let ?ops = "value_ops (\<lambda>bytes. Some ?json)"
  have "config_load ?ops value_integers (Some [])
      = Inr \<lparr>cf_instrument = word_of_int 7, cf_strategyOrderQuantity = ScaledValue (word_of_int 5),
          cf_strategyThresholdNumerator = word_of_int 3, cf_strategyThresholdDenominator = word_of_int 4, cf_riskLimits = no_limits\<rparr>"
    using config_values.config_document_read [of "\<lambda>bytes. Some ?json" 7 5 3 4 ?risk]
    by (simp add: config_load_def jo_parse_value_ops)
  from this loaded_limits_are_disabled [OF this] show ?thesis by auto
qed

end
