(* ===== verification/Pooled_Engine.thy ===== *)
theory Pooled_Engine
  imports Engine_Properties Object_Pool
begin

text \<open>
  The engine of \<open>MatchingEngine/MatchingEngineEx.cpp\<close> with the pool its orders live in: an order is
  memory of the pool, owned by the caller until a level's list takes it over, and given back when its
  list node, or the caller's pointer, is destroyed. \<open>pe_pool\<close> is the pool (its code is that of
  \<open>Object_Pool\<close>); a pointer to an order is an address of it. An order is in one list once, so an
  iterator to its node (\<open>iterPriceLevelOrder\<close>) is the order's address.

  The operations fail on an address without a live order. \<open>cancelOrder\<close> reads the order after
  destroying it, and the level pointer of the index entry after erasing that; \<open>dead\<close> says what such
  reads give. The maps are those of \<open>Matching_Engine\<close>.
\<close>

section \<open>State\<close>

record pooled_refs =
  pr_order :: pool_ptr
  pr_priceLevel :: nat

record pooled_level =
  pv_orders :: "pool_ptr list"
  pv_quantity :: u32

record 'm pooled_engine =
  pe_pool :: "engine_order object_pool"
  pe_orderByID :: "(u64, pooled_refs) smap"
  pe_bids :: 'm
  pe_asks :: 'm
  pe_trades :: "engine_trade list"
  pe_levels :: "nat \<Rightarrow> pooled_level option"
  pe_fresh :: nat

definition new_pooled_engine :: "(order_side \<Rightarrow> 'm flat_map_ops) \<Rightarrow> 'm pooled_engine" where
  "new_pooled_engine ops =
     \<lparr>pe_pool = new_pool, pe_orderByID = [], pe_bids = fo_new (ops BUY), pe_asks = fo_new (ops SELL),
      pe_trades = [], pe_levels = Map.empty, pe_fresh = 0\<rparr>"

definition pooled_side :: "order_side \<Rightarrow> 'm pooled_engine \<Rightarrow> 'm" where
  "pooled_side s f = (case s of BUY \<Rightarrow> pe_bids f | SELL \<Rightarrow> pe_asks f)"

definition set_pooled_side :: "order_side \<Rightarrow> 'm \<Rightarrow> 'm pooled_engine \<Rightarrow> 'm pooled_engine" where
  "set_pooled_side s m f = (case s of BUY \<Rightarrow> f\<lparr>pe_bids := m\<rparr> | SELL \<Rightarrow> f\<lparr>pe_asks := m\<rparr>)"

text \<open>Reading and writing an order through its pointer, and destroying the pointer.\<close>

definition order_at :: "pool_ptr \<Rightarrow> 'm pooled_engine \<Rightarrow> engine_order option" where
  "order_at p f = po_objects (pe_pool f) p"

definition write_order :: "pool_ptr \<Rightarrow> engine_order \<Rightarrow> 'm pooled_engine \<Rightarrow> 'm pooled_engine" where
  "write_order p x f = f\<lparr>pe_pool := (pe_pool f)\<lparr>po_objects := (po_objects (pe_pool f))(p \<mapsto> x)\<rparr>\<rparr>"

definition destroy_order :: "pool_ptr \<Rightarrow> 'm pooled_engine \<Rightarrow> 'm pooled_engine option" where
  "destroy_order p f = map_option (\<lambda>pool. f\<lparr>pe_pool := pool\<rparr>) (return_object p (pe_pool f))"

section \<open>Matching\<close>

fun pooled_match_orders ::
  "pool_ptr \<Rightarrow> pool_ptr list \<Rightarrow> 'm pooled_engine \<Rightarrow> (pool_ptr list \<times> 'm pooled_engine) option" where
  "pooled_match_orders a [] f = Some ([], f)"
| "pooled_match_orders a (p # rest) f =
     do {
       ord \<leftarrow> order_at a f;
       matchedOrder \<leftarrow> order_at p f;
       let f1 = f\<lparr>pe_trades := pe_trades f @ [make_trade ord matchedOrder]\<rparr>;
       if eo_quantity ord \<ge> eo_quantity matchedOrder then do {
         let f2 = write_order p (matchedOrder\<lparr>eo_quantity := 0\<rparr>)
                    (write_order a (ord\<lparr>eo_quantity := eo_quantity ord - eo_quantity matchedOrder\<rparr>) f1);
         let f3 = f2\<lparr>pe_orderByID := smap_erase (eo_orderId matchedOrder) (pe_orderByID f2)\<rparr>;
         f4 \<leftarrow> destroy_order p f3;
         pooled_match_orders a rest f4 }
       else Some (p # rest,
              write_order a (ord\<lparr>eo_quantity := 0\<rparr>)
                (write_order p (matchedOrder\<lparr>eo_quantity := eo_quantity matchedOrder - eo_quantity ord\<rparr>) f1)) }"

definition pooled_matchOrderList ::
  "pool_ptr \<Rightarrow> nat \<Rightarrow> 'm pooled_engine \<Rightarrow> (bool \<times> 'm pooled_engine) option" where
  "pooled_matchOrderList a priceLevel f =
     do {
       level \<leftarrow> pe_levels f priceLevel;
       (orders, f') \<leftarrow> pooled_match_orders a (pv_orders level) f;
       Some (orders = [], f'\<lparr>pe_levels := (pe_levels f')(priceLevel \<mapsto> level\<lparr>pv_orders := orders\<rparr>)\<rparr>) }"

definition pooled_erase_at ::
  "(order_side \<Rightarrow> 'm flat_map_ops) \<Rightarrow> order_side \<Rightarrow> nat \<Rightarrow> nat \<Rightarrow> 'm pooled_engine \<Rightarrow> 'm pooled_engine" where
  "pooled_erase_at ops s i level f =
     (set_pooled_side s (fo_erase_at (ops s) i (pooled_side s f)) f)\<lparr>pe_levels := (pe_levels f)(level := None)\<rparr>"

partial_function (option) pooled_match_levels ::
  "(order_side \<Rightarrow> 'm flat_map_ops) \<Rightarrow> order_side \<Rightarrow> nat \<Rightarrow> pool_ptr \<Rightarrow> 'm pooled_engine \<Rightarrow> 'm pooled_engine option" where
  "pooled_match_levels ops opposite i a f =
     (case fo_at (ops opposite) (pooled_side opposite f) i of
        None \<Rightarrow> Some f
      | Some (levelPrice, levelPtr) \<Rightarrow>
          (case order_at a f of
             None \<Rightarrow> None
           | Some ord \<Rightarrow>
               if eo_quantity ord > 0 \<and> comparator opposite levelPrice (eo_price ord)
               then (case levelPtr of
                       None \<Rightarrow> None
                     | Some level \<Rightarrow>
                         (case pooled_matchOrderList a level f of
                            None \<Rightarrow> None
                          | Some (levelEmpty, f') \<Rightarrow>
                              if levelEmpty
                              then pooled_match_levels ops opposite i a (pooled_erase_at ops opposite i level f')
                              else pooled_match_levels ops opposite (i + 1) a f'))
               else Some f))"

definition pooled_matchOrder ::
  "(order_side \<Rightarrow> 'm flat_map_ops) \<Rightarrow> pool_ptr \<Rightarrow> 'm pooled_engine \<Rightarrow> (u64 \<times> 'm pooled_engine) option" where
  "pooled_matchOrder ops a f =
     do {
       ord \<leftarrow> order_at a f;
       f' \<leftarrow> pooled_match_levels ops (opposite_side (eo_side ord)) 0 a f;
       ord' \<leftarrow> order_at a f';
       Some (eo_quantity ord', f') }"

section \<open>Handlers\<close>

definition pooled_getOrderPriceList ::
  "(order_side \<Rightarrow> 'm flat_map_ops) \<Rightarrow> order_side \<Rightarrow> u64 \<Rightarrow> 'm pooled_engine \<Rightarrow> (nat \<times> 'm pooled_engine) option" where
  "pooled_getOrderPriceList ops s price f =
     (case fo_emplace (ops s) price None (pooled_side s f) of
        (iter, inserted, m) \<Rightarrow>
          let (m1, f1) =
            (if inserted
             then (fo_assign (ops s) iter (Some (pe_fresh f)) m,
                   f\<lparr>pe_levels := (pe_levels f)(pe_fresh f \<mapsto> \<lparr>pv_orders = [], pv_quantity = 0\<rparr>),
                     pe_fresh := pe_fresh f + 1\<rparr>)
             else (m, f))
          in (case fo_at (ops s) m1 iter of
                Some (_, Some level) \<Rightarrow> Some (level, set_pooled_side s m1 f1)
              | _ \<Rightarrow> None))"

text \<open>The handlers of an order that may be taken over also say whether it was.\<close>

definition pooled_handleOrderNew ::
  "(order_side \<Rightarrow> 'm flat_map_ops) \<Rightarrow> pool_ptr \<Rightarrow> 'm pooled_engine \<Rightarrow> (bool \<times> 'm pooled_engine) option" where
  "pooled_handleOrderNew ops a f0 =
     do {
       (remaining, f) \<leftarrow> pooled_matchOrder ops a f0;
       if remaining = 0 then Some (False, f)
       else do {
         ord \<leftarrow> order_at a f;
         if smap_find (pe_orderByID f) (eo_orderId ord) \<noteq> None then Some (False, f)
         else do {
           (level, f1) \<leftarrow> pooled_getOrderPriceList ops (if eo_side ord = BUY then BUY else SELL) (eo_price ord) f;
           l \<leftarrow> pe_levels f1 level;
           let l1 = l\<lparr>pv_quantity := pv_quantity l + ucast (eo_quantity ord)\<rparr>;
           let l2 = l1\<lparr>pv_orders := pv_orders l1 @ [a]\<rparr>;
           Some (True, f1\<lparr>pe_levels := (pe_levels f1)(level \<mapsto> l2),
                          pe_orderByID := smap_assign (eo_orderId ord) \<lparr>pr_order = a, pr_priceLevel = level\<rparr>
                            (pe_orderByID f1)\<rparr>) } } }"

definition pooled_cancelOrder ::
  "dead_memory \<Rightarrow> (order_side \<Rightarrow> 'm flat_map_ops) \<Rightarrow> u64 \<Rightarrow> pooled_refs \<Rightarrow> 'm pooled_engine \<Rightarrow> 'm pooled_engine option" where
  "pooled_cancelOrder dead ops key refs f =
     do {
       l \<leftarrow> pe_levels f (pr_priceLevel refs);
       destroyed \<leftarrow> order_at (pr_order refs) f;
       if pr_order refs \<in> set (pv_orders l) then do {
         f0 \<leftarrow> destroy_order (pr_order refs) f;
         let l1 = l\<lparr>pv_orders := remove1 (pr_order refs) (pv_orders l)\<rparr>;
         ord \<leftarrow> read_dead dead destroyed;
         let l2 = l1\<lparr>pv_quantity := pv_quantity l1 - ucast (eo_quantity ord)\<rparr>;
         let f1 = f0\<lparr>pe_levels := (pe_levels f0)(pr_priceLevel refs \<mapsto> l2),
                     pe_orderByID := smap_erase key (pe_orderByID f0)\<rparr>;
         priceLevel \<leftarrow> read_dead dead (pr_priceLevel refs);
         Some (if pv_orders l2 = []
               then let s = (if eo_side ord = BUY then BUY else SELL)
                    in (set_pooled_side s (fo_erase_key (ops s) (eo_price ord) (pooled_side s f1)) f1)
                         \<lparr>pe_levels := (pe_levels f1)(priceLevel := None)\<rparr>
               else f1) }
       else None }"

definition pooled_handleOrderCancel ::
  "dead_memory \<Rightarrow> (order_side \<Rightarrow> 'm flat_map_ops) \<Rightarrow> pool_ptr \<Rightarrow> 'm pooled_engine \<Rightarrow> 'm pooled_engine option" where
  "pooled_handleOrderCancel dead ops a f =
     do {
       ord \<leftarrow> order_at a f;
       (case smap_find (pe_orderByID f) (eo_orderId ord) of
          None \<Rightarrow> Some f
        | Some refs \<Rightarrow>
            do { resting \<leftarrow> order_at (pr_order refs) f;
                 if eo_side ord = eo_side resting then pooled_cancelOrder dead ops (eo_orderId ord) refs f
                 else Some f }) }"

definition pooled_handleOrderAmend ::
  "dead_memory \<Rightarrow> (order_side \<Rightarrow> 'm flat_map_ops) \<Rightarrow> pool_ptr \<Rightarrow> 'm pooled_engine \<Rightarrow> (bool \<times> 'm pooled_engine) option" where
  "pooled_handleOrderAmend dead ops a f =
     do {
       ord \<leftarrow> order_at a f;
       (case smap_find (pe_orderByID f) (eo_orderId ord) of
          None \<Rightarrow> Some (False, f)
        | Some refs \<Rightarrow>
            do { orderOriginal \<leftarrow> order_at (pr_order refs) f;
                 if eo_side orderOriginal \<noteq> eo_side ord then Some (False, f)
                 else if eo_price orderOriginal \<noteq> eo_price ord
                 then do { f1 \<leftarrow> pooled_cancelOrder dead ops (eo_orderId ord) refs f; pooled_handleOrderNew ops a f1 }
                 else do {
                   l \<leftarrow> pe_levels f (pr_priceLevel refs);
                   let l1 = l\<lparr>pv_quantity := pv_quantity l - ucast (eo_quantity orderOriginal)\<rparr>;
                   let l2 = l1\<lparr>pv_quantity := pv_quantity l1 + ucast (eo_quantity ord)\<rparr>;
                   Some (False, write_order (pr_order refs) (orderOriginal\<lparr>eo_quantity := eo_quantity ord\<rparr>)
                     (f\<lparr>pe_levels := (pe_levels f)(pr_priceLevel refs \<mapsto> l2)\<rparr>)) } }) }"

definition pooled_processOrder ::
  "dead_memory \<Rightarrow> (order_side \<Rightarrow> 'm flat_map_ops) \<Rightarrow> pool_ptr \<Rightarrow> 'm pooled_engine \<Rightarrow> (bool \<times> 'm pooled_engine) option" where
  "pooled_processOrder dead ops a f =
     do {
       ord \<leftarrow> order_at a f;
       (case eo_action ord of
          NEW \<Rightarrow> pooled_handleOrderNew ops a f
        | CANCEL \<Rightarrow> map_option (Pair False) (pooled_handleOrderCancel dead ops a f)
        | AMEND \<Rightarrow> pooled_handleOrderAmend dead ops a f
        | _ \<Rightarrow> Some (False, f)) }"

text \<open>What reads destroyed objects is the cancellation of a resting order.\<close>

definition pooled_cancels :: "engine_order \<Rightarrow> 'm pooled_engine \<Rightarrow> bool" where
  "pooled_cancels ord f =
     (case Option.bind (smap_find (pe_orderByID f) (eo_orderId ord)) (\<lambda>refs. order_at (pr_order refs) f) of
        None \<Rightarrow> False
      | Some resting \<Rightarrow> takes_out ord resting)"

lemma pooled_cancelOrder_undefined [simp]: "pooled_cancelOrder Undefined_Reads ops key refs f = None"
  by (simp add: pooled_cancelOrder_def Let_def split: bind_splits)

lemma pooled_processOrder_strict:
  assumes "order_at a f = Some ord"
  shows "pooled_processOrder Undefined_Reads ops a f =
     (if pooled_cancels ord f then None else pooled_processOrder Contents_Stay ops a f)"
proof (cases "smap_find (pe_orderByID f) (eo_orderId ord)")
  case None
  with assms show ?thesis
    by (simp add: pooled_processOrder_def pooled_handleOrderCancel_def pooled_handleOrderAmend_def pooled_cancels_def
        split: order_action_type.split)
next
  case (Some refs)
  with assms show ?thesis
    by (cases "eo_action ord"; cases "order_at (pr_order refs) f")
      (auto simp: pooled_processOrder_def pooled_handleOrderCancel_def pooled_handleOrderAmend_def pooled_cancels_def takes_out_def)
qed

section \<open>The program around it\<close>

record order_request =
  oq_side :: order_side
  oq_action :: order_action_type
  oq_price :: u64
  oq_quantity :: u64
  oq_orderId :: u64

text \<open>\<open>createOrder\<close>: an order of the pool, filled in member by member.\<close>

definition pooled_createOrder ::
  "nat \<Rightarrow> order_request \<Rightarrow> 'm pooled_engine \<Rightarrow> (pool_ptr \<times> 'm pooled_engine) option" where
  "pooled_createOrder max_block q f =
     do {
       (a, pool) \<leftarrow> acquireObject max_block default_order (pe_pool f);
       let f1 = f\<lparr>pe_pool := pool\<rparr>;
       o0 \<leftarrow> order_at a f1;
       let o1 = o0\<lparr>eo_action := oq_action q\<rparr>;
       let o2 = o1\<lparr>eo_side := oq_side q\<rparr>;
       let o3 = o2\<lparr>eo_price := oq_price q\<rparr>;
       let o4 = o3\<lparr>eo_quantity := oq_quantity q\<rparr>;
       Some (a, write_order a (o4\<lparr>eo_orderId := oq_orderId q\<rparr>) f1) }"

text \<open>\<open>engine.processOrder(createOrder(...))\<close>: a pointer that was not moved from is destroyed at the
  end of the full expression.\<close>

definition submit_order ::
  "dead_memory \<Rightarrow> nat \<Rightarrow> (order_side \<Rightarrow> 'm flat_map_ops) \<Rightarrow> order_request \<Rightarrow> 'm pooled_engine \<Rightarrow> 'm pooled_engine option" where
  "submit_order dead max_block ops q f =
     do {
       (a, f1) \<leftarrow> pooled_createOrder max_block q f;
       (moved, f2) \<leftarrow> pooled_processOrder dead ops a f1;
       if moved then Some f2 else destroy_order a f2 }"

fun submit_orders ::
  "dead_memory \<Rightarrow> nat \<Rightarrow> (order_side \<Rightarrow> 'm flat_map_ops) \<Rightarrow> order_request list \<Rightarrow> 'm pooled_engine \<Rightarrow> 'm pooled_engine option" where
  "submit_orders dead max_block ops [] f = Some f"
| "submit_orders dead max_block ops (q # qs) f =
     do { f1 \<leftarrow> submit_order dead max_block ops q f; submit_orders dead max_block ops qs f1 }"

text \<open>The queries of the tester.\<close>

definition pooled_best_order ::
  "(order_side \<Rightarrow> 'm flat_map_ops) \<Rightarrow> order_side \<Rightarrow> 'm pooled_engine \<Rightarrow> pool_ptr option option" where
  "pooled_best_order ops s f =
     (case fo_at (ops s) (pooled_side s f) 0 of
        None \<Rightarrow> Some None
      | Some (_, ptr) \<Rightarrow>
          do { level \<leftarrow> ptr; l \<leftarrow> pe_levels f level;
               (case pv_orders l of [] \<Rightarrow> None | p # _ \<Rightarrow> Some (Some p)) })"

definition pooled_getOrdersCount :: "'m pooled_engine \<Rightarrow> nat" where
  "pooled_getOrdersCount f = length (pe_orderByID f)"

definition pooled_side_count :: "(order_side \<Rightarrow> 'm flat_map_ops) \<Rightarrow> order_side \<Rightarrow> 'm pooled_engine \<Rightarrow> nat option" where
  "pooled_side_count ops s f =
     fold (\<lambda>i count. do { c \<leftarrow> count; (_, ptr) \<leftarrow> fo_at (ops s) (pooled_side s f) i; level \<leftarrow> ptr;
                          l \<leftarrow> pe_levels f level; Some (c + length (pv_orders l)) })
       [0..<fo_size (ops s) (pooled_side s f)] (Some 0)"

definition pooled_level_count :: "(order_side \<Rightarrow> 'm flat_map_ops) \<Rightarrow> order_side \<Rightarrow> 'm pooled_engine \<Rightarrow> nat" where
  "pooled_level_count ops s f = fo_size (ops s) (pooled_side s f)"

end
