(* ===== verification/Pooled_Simulation.thy ===== *)
theory Pooled_Simulation
  imports Pooled_Engine
begin

text \<open>
  The engine over the pool against the unit-tested engine of \<open>Matching_Engine\<close>, whose lists hold the
  orders themselves. \<open>abs_engine\<close> reads the orders out of the pool; the invariant \<open>pooled_inv\<close> says that
  the live memory of the pool is the resting orders and the pointers \<open>held\<close> by the caller, each once.
  Every step of one engine is the step of the other on the abstraction.
\<close>

section \<open>The abstraction\<close>

definition alive :: "'m pooled_engine \<Rightarrow> pool_ptr set" where
  "alive f = dom (po_objects (pe_pool f))"

definition abs_level :: "(pool_ptr \<Rightarrow> engine_order option) \<Rightarrow> pooled_level \<Rightarrow> price_level" where
  "abs_level M l = \<lparr>pl_orders = map (\<lambda>p. the (M p)) (pv_orders l), pl_quantity = pv_quantity l\<rparr>"

definition abs_index :: "(u64, pooled_refs) smap \<Rightarrow> (u64, references_block) smap" where
  "abs_index m = map (\<lambda>(k, r). (k, \<lparr>rf_order = k, rf_priceLevel = pr_priceLevel r\<rparr>)) m"

definition abs_engine :: "'m pooled_engine \<Rightarrow> 'm matching_engine" where
  "abs_engine f =
     \<lparr>en_orderByID = abs_index (pe_orderByID f), en_bids = pe_bids f, en_asks = pe_asks f, en_trades = pe_trades f,
      en_levels = (\<lambda>c. map_option (abs_level (po_objects (pe_pool f))) (pe_levels f c)), en_fresh = pe_fresh f\<rparr>"

lemma abs_index_laws [simp]:
  "abs_index [] = []" "length (abs_index m) = length m"
  "abs_index (smap_erase k m) = smap_erase k (abs_index m)"
  "smap_find (abs_index m) k = map_option (\<lambda>r. \<lparr>rf_order = k, rf_priceLevel = pr_priceLevel r\<rparr>) (smap_find m k)"
  "abs_index (smap_assign k r m) = smap_assign k \<lparr>rf_order = k, rf_priceLevel = pr_priceLevel r\<rparr> (abs_index m)"
  by (induction m) (auto simp: abs_index_def smap_erase_def)

lemma abs_engine_simps [simp]:
  "en_orderByID (abs_engine f) = abs_index (pe_orderByID f)" "en_trades (abs_engine f) = pe_trades f"
  "en_levels (abs_engine f) c = map_option (abs_level (po_objects (pe_pool f))) (pe_levels f c)"
  "en_fresh (abs_engine f) = pe_fresh f" "side_map s (abs_engine f) = pooled_side s f"
  by (cases s; simp add: abs_engine_def side_map_def pooled_side_def)+

lemma set_pooled_side_frame [simp]:
  "pe_pool (set_pooled_side s m f) = pe_pool f" "pe_orderByID (set_pooled_side s m f) = pe_orderByID f"
  "pe_levels (set_pooled_side s m f) = pe_levels f" "pe_fresh (set_pooled_side s m f) = pe_fresh f"
  "order_at p (set_pooled_side s m f) = order_at p f" "alive (set_pooled_side s m f) = alive f"
  by (cases s; simp add: set_pooled_side_def order_at_def alive_def)+

lemma abs_engine_set_side [simp]: "abs_engine (set_pooled_side s m f) = set_side_map s m (abs_engine f)"
  by (cases s) (simp_all add: abs_engine_def set_pooled_side_def set_side_map_def)

section \<open>The invariant\<close>

definition pooled_inv :: "pool_ptr set \<Rightarrow> 'm pooled_engine \<Rightarrow> bool" where
  "pooled_inv held f \<longleftrightarrow>
     pool_wf (pe_pool f) \<and> smap_wf (pe_orderByID f)
   \<and> (\<forall>c l. pe_levels f c = Some l \<longrightarrow> c < pe_fresh f \<and> distinct (pv_orders l)
        \<and> (\<forall>p \<in> set (pv_orders l). p \<notin> held
             \<and> (\<exists>x. order_at p f = Some x \<and> smap_find (pe_orderByID f) (eo_orderId x) = Some \<lparr>pr_order = p, pr_priceLevel = c\<rparr>)))
   \<and> (\<forall>k r. smap_find (pe_orderByID f) k = Some r \<longrightarrow>
        (\<exists>l x. pe_levels f (pr_priceLevel r) = Some l \<and> pr_order r \<in> set (pv_orders l)
           \<and> order_at (pr_order r) f = Some x \<and> eo_orderId x = k))
   \<and> alive f = held \<union> pr_order ` ran (smap_find (pe_orderByID f))"

lemma pooled_invD:
  assumes "pooled_inv held f"
  shows "pool_wf (pe_pool f)" "smap_wf (pe_orderByID f)"
    "\<And>c l. pe_levels f c = Some l \<Longrightarrow> c < pe_fresh f \<and> distinct (pv_orders l)"
    "\<And>c l p. pe_levels f c = Some l \<Longrightarrow> p \<in> set (pv_orders l) \<Longrightarrow> p \<notin> held
       \<and> (\<exists>x. order_at p f = Some x \<and> smap_find (pe_orderByID f) (eo_orderId x) = Some \<lparr>pr_order = p, pr_priceLevel = c\<rparr>)"
    "\<And>k r. smap_find (pe_orderByID f) k = Some r \<Longrightarrow>
        \<exists>l x. pe_levels f (pr_priceLevel r) = Some l \<and> pr_order r \<in> set (pv_orders l)
           \<and> order_at (pr_order r) f = Some x \<and> eo_orderId x = k"
    "alive f = held \<union> pr_order ` ran (smap_find (pe_orderByID f))"
  using assms unfolding pooled_inv_def by blast+

lemma pooled_invI:
  assumes "pool_wf (pe_pool f)" "smap_wf (pe_orderByID f)"
    "\<And>c l. pe_levels f c = Some l \<Longrightarrow> c < pe_fresh f \<and> distinct (pv_orders l)"
    "\<And>c l p. pe_levels f c = Some l \<Longrightarrow> p \<in> set (pv_orders l) \<Longrightarrow> p \<notin> held
       \<and> (\<exists>x. order_at p f = Some x \<and> smap_find (pe_orderByID f) (eo_orderId x) = Some \<lparr>pr_order = p, pr_priceLevel = c\<rparr>)"
    "\<And>k r. smap_find (pe_orderByID f) k = Some r \<Longrightarrow>
        \<exists>l x. pe_levels f (pr_priceLevel r) = Some l \<and> pr_order r \<in> set (pv_orders l)
           \<and> order_at (pr_order r) f = Some x \<and> eo_orderId x = k"
    "alive f = held \<union> pr_order ` ran (smap_find (pe_orderByID f))"
  shows "pooled_inv held f"
  using assms unfolding pooled_inv_def by blast

text \<open>Pointers of one order, and of one level.\<close>

lemma same_id_same_order:
  assumes "pooled_inv held f" "pe_levels f c = Some l" "p \<in> set (pv_orders l)" "pe_levels f d = Some k" "q \<in> set (pv_orders k)"
    and "order_at p f = Some x" "order_at q f = Some y" "eo_orderId x = eo_orderId y"
  shows "p = q \<and> c = d"
  using pooled_invD(4) [OF assms(1-3)] pooled_invD(4) [OF assms(1,4,5)] assms(6-8) by auto

lemma pooled_inv_frame [simp]:
  "pooled_inv held (f\<lparr>pe_trades := t\<rparr>) = pooled_inv held f"
  "pooled_inv held (set_pooled_side s m f) = pooled_inv held f"
  by (simp_all add: pooled_inv_def order_at_def alive_def)

lemma order_at_simps [simp]:
  "order_at p (f\<lparr>pe_trades := t\<rparr>) = order_at p f" "order_at p (f\<lparr>pe_levels := L\<rparr>) = order_at p f"
  "order_at p (f\<lparr>pe_orderByID := I\<rparr>) = order_at p f" "order_at p (f\<lparr>pe_fresh := n\<rparr>) = order_at p f"
  "order_at p (write_order q x f) = (if p = q then Some x else order_at p f)"
  by (simp_all add: order_at_def write_order_def)

lemma write_order_frame [simp]:
  "pe_orderByID (write_order p x f) = pe_orderByID f" "pe_levels (write_order p x f) = pe_levels f"
  "pe_trades (write_order p x f) = pe_trades f" "pe_fresh (write_order p x f) = pe_fresh f"
  "pe_bids (write_order p x f) = pe_bids f" "pe_asks (write_order p x f) = pe_asks f"
  by (simp_all add: write_order_def)

lemma pool_wf_write:
  assumes "pool_wf p" "po_objects p a \<noteq> None"
  shows "pool_wf (p\<lparr>po_objects := (po_objects p)(a \<mapsto> x)\<rparr>)"
proof -
  have "dom ((po_objects p)(a \<mapsto> x)) = dom (po_objects p)" using assms(2) by auto
  with assms(1) show ?thesis by (simp add: pool_wf_def valid_ptrs_def)
qed

text \<open>Writing an order of the caller.\<close>

lemma write_held:
  assumes "pooled_inv held f" "p \<in> held"
  shows "pooled_inv held (write_order p y f)" "abs_engine (write_order p y f) = abs_engine f"
    "alive (write_order p y f) = alive f"
proof -
  note i = pooled_invD [OF assms(1)]
  have p: "po_objects (pe_pool f) p \<noteq> None" using i(6) assms(2) by (auto simp: alive_def)
  then show al: "alive (write_order p y f) = alive f" by (auto simp: alive_def write_order_def)
  have ne: "q \<noteq> p" if "pe_levels f c = Some l" "q \<in> set (pv_orders l)" for c l q
    using i(4) [OF that] assms(2) by blast
  show "pooled_inv held (write_order p y f)"
  proof (rule pooled_invI)
    show "pool_wf (pe_pool (write_order p y f))" using pool_wf_write [OF i(1) p] by (simp add: write_order_def)
    show "\<exists>l x. pe_levels (write_order p y f) (pr_priceLevel r) = Some l \<and> pr_order r \<in> set (pv_orders l)
        \<and> order_at (pr_order r) (write_order p y f) = Some x \<and> eo_orderId x = k"
      if "smap_find (pe_orderByID (write_order p y f)) k = Some r" for k r
      using i(5) [of k r] that ne by fastforce
  qed (use i ne al in \<open>fastforce+\<close>)
  have "map_option (abs_level ((po_objects (pe_pool f))(p \<mapsto> y))) (pe_levels f c)
      = map_option (abs_level (po_objects (pe_pool f))) (pe_levels f c)" for c
    using ne [of c] by (cases "pe_levels f c") (auto simp: abs_level_def)
  then show "abs_engine (write_order p y f) = abs_engine f" by (simp add: abs_engine_def write_order_def)
qed

section \<open>Steps on resting orders\<close>

abbreviation value_at :: "'m pooled_engine \<Rightarrow> pool_ptr \<Rightarrow> engine_order" where
  "value_at f p \<equiv> the (order_at p f)"

lemma abs_level_value: "abs_level (po_objects (pe_pool f)) l = \<lparr>pl_orders = map (value_at f) (pv_orders l), pl_quantity = pv_quantity l\<rparr>"
  by (simp add: abs_level_def order_at_def)

lemma abs_levels_update:
  assumes "\<And>d l q. d \<noteq> c \<Longrightarrow> pe_levels f d = Some l \<Longrightarrow> q \<in> set (pv_orders l) \<Longrightarrow> M q = po_objects (pe_pool f) q"
  shows "(\<lambda>d. map_option (abs_level M) (((pe_levels f)(c := l1)) d)) = (en_levels (abs_engine f))(c := map_option (abs_level M) l1)"
proof (rule ext)
  fix d
  show "map_option (abs_level M) (((pe_levels f)(c := l1)) d) = ((en_levels (abs_engine f))(c := map_option (abs_level M) l1)) d"
    using assms [of d] by (cases "pe_levels f d") (auto simp: abs_level_def)
qed

text \<open>The quantity of a resting order changes, and maybe that of its level.\<close>

lemma write_resting:
  assumes inv: "pooled_inv held f" and l: "pe_levels f c = Some l" "pv_orders l = xs @ p # ys"
    and x: "order_at p f = Some x" "eo_orderId y = eo_orderId x"
    and F: "F = write_order p y (f\<lparr>pe_levels := (pe_levels f)(c \<mapsto> l\<lparr>pv_quantity := q\<rparr>)\<rparr>)"
  shows "pooled_inv held F"
    "abs_engine F = (abs_engine f)\<lparr>en_levels := (en_levels (abs_engine f))(c \<mapsto>
       \<lparr>pl_orders = map (value_at f) xs @ y # map (value_at f) ys, pl_quantity = q\<rparr>)\<rparr>"
    "alive F = alive f"
proof -
  note i = pooled_invD [OF inv]
  let ?M = "(po_objects (pe_pool f))(p \<mapsto> y)"
  have in_l: "p \<in> set (pv_orders l)" by (simp add: l(2))
  have idx: "smap_find (pe_orderByID f) (eo_orderId y) = Some \<lparr>pr_order = p, pr_priceLevel = c\<rparr>"
    using i(4) [OF l(1) in_l] x by simp
  have p: "po_objects (pe_pool f) p \<noteq> None" using x(1) by (simp add: order_at_def)
  then show al: "alive F = alive f" by (auto simp: alive_def F write_order_def)
  show "pooled_inv held F"
  proof (rule pooled_invI)
    show "pool_wf (pe_pool F)" using pool_wf_write [OF i(1) p] by (simp add: F write_order_def)
    show "d < pe_fresh F \<and> distinct (pv_orders k)" if "pe_levels F d = Some k" for d k
      using that i(3) [of c] l(1) i(3) [of d] by (auto simp: F split: if_splits)
    show "r \<notin> held \<and> (\<exists>z. order_at r F = Some z \<and> smap_find (pe_orderByID F) (eo_orderId z) = Some \<lparr>pr_order = r, pr_priceLevel = d\<rparr>)"
      if k: "pe_levels F d = Some k" "r \<in> set (pv_orders k)" for d k r
    proof -
      obtain k0 where k0: "pe_levels f d = Some k0" "r \<in> set (pv_orders k0)" using k l(1) by (auto simp: F split: if_splits)
      from i(4) [OF k0] x idx show ?thesis by (auto simp: F)
    qed
    show "\<exists>k z. pe_levels F (pr_priceLevel r) = Some k \<and> pr_order r \<in> set (pv_orders k)
        \<and> order_at (pr_order r) F = Some z \<and> eo_orderId z = i" if "smap_find (pe_orderByID F) i = Some r" for i r
    proof -
      from that i(5) [of i r] obtain k z where "pe_levels f (pr_priceLevel r) = Some k" "pr_order r \<in> set (pv_orders k)"
        "order_at (pr_order r) f = Some z" "eo_orderId z = i" by (auto simp: F)
      with x l(1) show ?thesis by (auto simp: F)
    qed
  qed (use i al in \<open>simp_all add: F\<close>)
  have other: "?M r = po_objects (pe_pool f) r" if "d \<noteq> c" "pe_levels f d = Some k" "r \<in> set (pv_orders k)" for d k r
    using i(4) [OF that(2,3)] i(4) [OF l(1) in_l] that(1) by auto
  have "p \<notin> set xs" "p \<notin> set ys" using i(3) [OF l(1)] by (auto simp: l(2))
  then have "abs_level ?M (l\<lparr>pv_quantity := q\<rparr>) = \<lparr>pl_orders = map (value_at f) xs @ y # map (value_at f) ys, pl_quantity = q\<rparr>"
    by (auto simp: abs_level_def l(2) order_at_def)
  with abs_levels_update [of c f ?M "Some (l\<lparr>pv_quantity := q\<rparr>)", OF other]
  show "abs_engine F = (abs_engine f)\<lparr>en_levels := (en_levels (abs_engine f))(c \<mapsto>
       \<lparr>pl_orders = map (value_at f) xs @ y # map (value_at f) ys, pl_quantity = q\<rparr>)\<rparr>"
    by (simp add: F abs_engine_def write_order_def)
qed

text \<open>A resting order leaves its level, the index and the pool.\<close>

lemma destroy_order_iff: "destroy_order p f = Some (f\<lparr>pe_pool := pool\<rparr>) \<longleftrightarrow> return_object p (pe_pool f) = Some pool"
  by (auto simp: destroy_order_def dest: arg_cong [of _ _ pe_pool])

lemma destroy_order_some:
  assumes "pool_wf (pe_pool f)" "order_at p f = Some x"
  obtains pool where "destroy_order p f = Some (f\<lparr>pe_pool := pool\<rparr>)" "pool_wf pool"
    "po_objects pool = (po_objects (pe_pool f))(p := None)"
proof -
  obtain pool where "return_object p (pe_pool f) = Some pool" using assms(2) by (simp add: return_object_def order_at_def)
  with return_object_wf [OF assms(1) this] that show thesis by (simp add: destroy_order_def)
qed

lemma remove_resting_order:
  assumes inv: "pooled_inv held f" and l: "pe_levels f c = Some l" "pv_orders l = xs @ p # ys"
    and x: "order_at p f = Some x" and d: "destroy_order p f = Some f1"
    and F: "F = f1\<lparr>pe_levels := (pe_levels f1)(c \<mapsto> l\<lparr>pv_orders := xs @ ys, pv_quantity := q\<rparr>),
      pe_orderByID := smap_erase (eo_orderId x) (pe_orderByID f1)\<rparr>"
  shows "pooled_inv held F"
    "abs_engine F = (abs_engine f)\<lparr>en_levels := (en_levels (abs_engine f))(c \<mapsto>
       \<lparr>pl_orders = map (value_at f) (xs @ ys), pl_quantity = q\<rparr>), en_orderByID := smap_erase (eo_orderId x) (abs_index (pe_orderByID f))\<rparr>"
    "alive F = alive f - {p}" "r \<noteq> p \<Longrightarrow> order_at r F = order_at r f"
proof -
  note i = pooled_invD [OF inv]
  obtain pool where pool: "f1 = f\<lparr>pe_pool := pool\<rparr>" "pool_wf pool" "po_objects pool = (po_objects (pe_pool f))(p := None)"
  proof (rule destroy_order_some [OF i(1) x])
    fix pool assume "destroy_order p f = Some (f\<lparr>pe_pool := pool\<rparr>)" "pool_wf pool" "po_objects pool = (po_objects (pe_pool f))(p := None)"
    with d show thesis by (intro that [of pool]) simp_all
  qed
  have at: "order_at r F = (if r = p then None else order_at r f)" for r by (simp add: F pool(1,3) order_at_def)
  then show "r \<noteq> p \<Longrightarrow> order_at r F = order_at r f" by simp
  show al: "alive F = alive f - {p}" by (auto simp: alive_def F pool(1,3))
  have in_l: "p \<in> set (pv_orders l)" by (simp add: l(2))
  have idx: "p \<notin> held" "smap_find (pe_orderByID f) (eo_orderId x) = Some \<lparr>pr_order = p, pr_priceLevel = c\<rparr>"
    using i(4) [OF l(1) in_l] x by simp_all
  have notin: "p \<notin> set xs" "p \<notin> set ys" using i(3) [OF l(1)] by (auto simp: l(2))
  have other: "p \<noteq> r" if "d \<noteq> c" "pe_levels f d = Some k" "r \<in> set (pv_orders k)" for d k r
    using i(4) [OF that(2,3)] i(4) [OF l(1) in_l] that(1) by auto
  have only: "r = \<lparr>pr_order = p, pr_priceLevel = c\<rparr> \<and> k = eo_orderId x" if "smap_find (pe_orderByID f) k = Some r" "pr_order r = p" for k r
    using i(5) [OF that(1)] that x idx(2) by auto
  show "pooled_inv held F"
  proof (rule pooled_invI)
    show "d < pe_fresh F \<and> distinct (pv_orders k)" if "pe_levels F d = Some k" for d k
      using that i(3) [of c] l i(3) [of d] by (auto simp: F pool(1) split: if_splits)
    show "r \<notin> held \<and> (\<exists>z. order_at r F = Some z \<and> smap_find (pe_orderByID F) (eo_orderId z) = Some \<lparr>pr_order = r, pr_priceLevel = d\<rparr>)"
      if k: "pe_levels F d = Some k" "r \<in> set (pv_orders k)" for d k r
    proof -
      have "\<exists>k0. pe_levels f d = Some k0 \<and> r \<in> set (pv_orders k0) \<and> r \<noteq> p"
      proof (cases "d = c")
        case True
        with k l notin show ?thesis by (auto simp: F pool(1))
      next
        case False
        with k have "pe_levels f d = Some k" by (simp add: F pool(1))
        with other [OF False this k(2)] k(2) show ?thesis by auto
      qed
      then obtain k0 where k0: "pe_levels f d = Some k0" "r \<in> set (pv_orders k0)" "r \<noteq> p" by blast
      from i(4) [OF k0(1,2)] obtain z where z: "r \<notin> held" "order_at r f = Some z"
        "smap_find (pe_orderByID f) (eo_orderId z) = Some \<lparr>pr_order = r, pr_priceLevel = d\<rparr>" by blast
      with idx(2) k0(3) have "eo_orderId z \<noteq> eo_orderId x" by auto
      with z k0(3) at show ?thesis by (simp add: F pool(1))
    qed
    show "\<exists>k z. pe_levels F (pr_priceLevel r) = Some k \<and> pr_order r \<in> set (pv_orders k)
        \<and> order_at (pr_order r) F = Some z \<and> eo_orderId z = i" if r: "smap_find (pe_orderByID F) i = Some r" for i r
    proof -
      from r have r1: "i \<noteq> eo_orderId x" "smap_find (pe_orderByID f) i = Some r" by (auto simp: F pool(1) split: if_splits)
      from i(5) [OF r1(2)] obtain k z where "pe_levels f (pr_priceLevel r) = Some k" "pr_order r \<in> set (pv_orders k)"
        "order_at (pr_order r) f = Some z" "eo_orderId z = i" by blast
      moreover have "pr_order r \<noteq> p" using only [OF r1(2)] r1(1) by blast
      ultimately show ?thesis using l at by (auto simp: F pool(1))
    qed
    have "pr_order ` ran (smap_find (pe_orderByID F)) = pr_order ` ran (smap_find (pe_orderByID f)) - {p}"
    proof
      show "pr_order ` ran (smap_find (pe_orderByID F)) \<subseteq> pr_order ` ran (smap_find (pe_orderByID f)) - {p}"
        using only by (fastforce simp: F pool(1) ran_def split: if_splits)
      show "pr_order ` ran (smap_find (pe_orderByID f)) - {p} \<subseteq> pr_order ` ran (smap_find (pe_orderByID F))"
      proof
        fix r assume "r \<in> pr_order ` ran (smap_find (pe_orderByID f)) - {p}"
        then obtain k b where k: "smap_find (pe_orderByID f) k = Some b" "r = pr_order b" "r \<noteq> p" by (auto simp: ran_def)
        with idx(2) have "smap_find (pe_orderByID F) k = Some b" by (auto simp: F pool(1))
        with k(2) show "r \<in> pr_order ` ran (smap_find (pe_orderByID F))" by (auto simp: ran_def)
      qed
    qed
    with i(6) idx(1) al show "alive F = held \<union> pr_order ` ran (smap_find (pe_orderByID F))" by auto
  qed (use i(2) pool in \<open>simp_all add: F\<close>)
  have "(po_objects pool) r = po_objects (pe_pool f) r" if "d \<noteq> c" "pe_levels f d = Some k" "r \<in> set (pv_orders k)" for d k r
    using other [OF that] by (simp add: pool(3))
  from abs_levels_update [of c f "po_objects pool" "Some (l\<lparr>pv_orders := xs @ ys, pv_quantity := q\<rparr>)", OF this]
  have "(\<lambda>d. map_option (abs_level (po_objects pool)) (((pe_levels f)(c \<mapsto> l\<lparr>pv_orders := xs @ ys, pv_quantity := q\<rparr>)) d))
      = (en_levels (abs_engine f))(c \<mapsto> \<lparr>pl_orders = map (value_at f) (xs @ ys), pl_quantity = q\<rparr>)"
    using notin by (auto simp: abs_level_def pool(3) order_at_def fun_eq_iff)
  then show "abs_engine F = (abs_engine f)\<lparr>en_levels := (en_levels (abs_engine f))(c \<mapsto>
       \<lparr>pl_orders = map (value_at f) (xs @ ys), pl_quantity = q\<rparr>), en_orderByID := smap_erase (eo_orderId x) (abs_index (pe_orderByID f))\<rparr>"
    by (simp add: F pool(1) abs_engine_def)
qed

section \<open>Levels and the caller's pointers\<close>

lemma drop_empty_level:
  assumes inv: "pooled_inv held f" and l: "pe_levels f c = Some l" "pv_orders l = []"
  shows "pooled_inv held (f\<lparr>pe_levels := (pe_levels f)(c := None)\<rparr>)"
    "abs_engine (f\<lparr>pe_levels := (pe_levels f)(c := None)\<rparr>) = (abs_engine f)\<lparr>en_levels := (en_levels (abs_engine f))(c := None)\<rparr>"
proof -
  note i = pooled_invD [OF inv]
  let ?F = "f\<lparr>pe_levels := (pe_levels f)(c := None)\<rparr>"
  show "pooled_inv held ?F"
  proof (rule pooled_invI)
    show "\<exists>k x. pe_levels ?F (pr_priceLevel r) = Some k \<and> pr_order r \<in> set (pv_orders k)
        \<and> order_at (pr_order r) ?F = Some x \<and> eo_orderId x = i" if "smap_find (pe_orderByID ?F) i = Some r" for i r
    proof -
      from that have "smap_find (pe_orderByID f) i = Some r" by simp
      from i(5) [OF this] l show ?thesis by auto
    qed
    show "d < pe_fresh ?F \<and> distinct (pv_orders k)" if "pe_levels ?F d = Some k" for d k
      using that i(3) [of d] by (auto split: if_splits)
    show "p \<notin> held \<and> (\<exists>x. order_at p ?F = Some x \<and> smap_find (pe_orderByID ?F) (eo_orderId x) = Some \<lparr>pr_order = p, pr_priceLevel = d\<rparr>)"
      if "pe_levels ?F d = Some k" "p \<in> set (pv_orders k)" for d k p
      using that i(4) [of d k p] by (auto split: if_splits)
  qed (use i in \<open>simp_all add: alive_def\<close>)
  show "abs_engine ?F = (abs_engine f)\<lparr>en_levels := (en_levels (abs_engine f))(c := None)\<rparr>"
    by (simp add: abs_engine_def fun_eq_iff)
qed

lemma add_empty_level:
  assumes inv: "pooled_inv held f"
    and F: "F = f\<lparr>pe_levels := (pe_levels f)(pe_fresh f \<mapsto> \<lparr>pv_orders = [], pv_quantity = 0\<rparr>), pe_fresh := pe_fresh f + 1\<rparr>"
  shows "pooled_inv held F"
    "abs_engine F = (abs_engine f)\<lparr>en_levels := (en_levels (abs_engine f))(pe_fresh f \<mapsto> \<lparr>pl_orders = [], pl_quantity = 0\<rparr>),
       en_fresh := pe_fresh f + 1\<rparr>"
proof -
  note i = pooled_invD [OF inv]
  have new: "pe_levels f (pe_fresh f) = None" using i(3) [of "pe_fresh f"] by (cases "pe_levels f (pe_fresh f)") auto
  show "pooled_inv held F"
  proof (rule pooled_invI)
    show "\<exists>k x. pe_levels F (pr_priceLevel r) = Some k \<and> pr_order r \<in> set (pv_orders k)
        \<and> order_at (pr_order r) F = Some x \<and> eo_orderId x = i" if "smap_find (pe_orderByID F) i = Some r" for i r
    proof -
      from that have "smap_find (pe_orderByID f) i = Some r" by (simp add: F)
      from i(5) [OF this] new show ?thesis by (auto simp: F)
    qed
    show "d < pe_fresh F \<and> distinct (pv_orders k)" if "pe_levels F d = Some k" for d k
      using that i(3) [of d] by (auto simp: F split: if_splits)
    show "p \<notin> held \<and> (\<exists>x. order_at p F = Some x \<and> smap_find (pe_orderByID F) (eo_orderId x) = Some \<lparr>pr_order = p, pr_priceLevel = d\<rparr>)"
      if "pe_levels F d = Some k" "p \<in> set (pv_orders k)" for d k p
      using that i(4) [of d k p] by (auto simp: F split: if_splits)
  qed (use i in \<open>simp_all add: alive_def F\<close>)
  show "abs_engine F = (abs_engine f)\<lparr>en_levels := (en_levels (abs_engine f))(pe_fresh f \<mapsto> \<lparr>pl_orders = [], pl_quantity = 0\<rparr>),
       en_fresh := pe_fresh f + 1\<rparr>"
    by (simp add: F abs_engine_def fun_eq_iff abs_level_def)
qed

text \<open>The caller's order joins a level.\<close>

lemma rest_held_order:
  assumes inv: "pooled_inv {a} f" and l: "pe_levels f c = Some l" and x: "order_at a f = Some x"
    and free: "smap_find (pe_orderByID f) (eo_orderId x) = None"
    and F: "F = f\<lparr>pe_levels := (pe_levels f)(c \<mapsto> l\<lparr>pv_quantity := q, pv_orders := pv_orders l @ [a]\<rparr>),
      pe_orderByID := smap_assign (eo_orderId x) \<lparr>pr_order = a, pr_priceLevel = c\<rparr> (pe_orderByID f)\<rparr>"
  shows "pooled_inv {} F"
    "abs_engine F = (abs_engine f)\<lparr>en_levels := (en_levels (abs_engine f))(c \<mapsto>
       \<lparr>pl_orders = map (value_at f) (pv_orders l) @ [x], pl_quantity = q\<rparr>),
       en_orderByID := smap_assign (eo_orderId x) \<lparr>rf_order = eo_orderId x, rf_priceLevel = c\<rparr> (abs_index (pe_orderByID f))\<rparr>"
    "alive F = alive f"
proof -
  note i = pooled_invD [OF inv]
  have notin: "a \<notin> set (pv_orders k)" if "pe_levels f d = Some k" for d k using i(4) [OF that] by blast
  have find: "smap_find (pe_orderByID F) = (smap_find (pe_orderByID f))(eo_orderId x \<mapsto> \<lparr>pr_order = a, pr_priceLevel = c\<rparr>)"
    using i(2) by (simp add: F)
  show al: "alive F = alive f" by (simp add: alive_def F)
  show "pooled_inv {} F"
  proof (rule pooled_invI)
    show "\<exists>k z. pe_levels F (pr_priceLevel r) = Some k \<and> pr_order r \<in> set (pv_orders k)
        \<and> order_at (pr_order r) F = Some z \<and> eo_orderId z = i" if "smap_find (pe_orderByID F) i = Some r" for i r
    proof (cases "i = eo_orderId x")
      case True
      with that x show ?thesis unfolding find by (auto simp: F)
    next
      case False
      with that find have "smap_find (pe_orderByID f) i = Some r" by simp
      from i(5) [OF this] l show ?thesis by (auto simp: F)
    qed
    show "d < pe_fresh F \<and> distinct (pv_orders k)" if "pe_levels F d = Some k" for d k
      using that i(3) [of d] i(3) [of c] l notin by (auto simp: F split: if_splits)
    show "p \<notin> {} \<and> (\<exists>z. order_at p F = Some z \<and> smap_find (pe_orderByID F) (eo_orderId z) = Some \<lparr>pr_order = p, pr_priceLevel = d\<rparr>)"
      if k: "pe_levels F d = Some k" "p \<in> set (pv_orders k)" for d k p
    proof (cases "p = a")
      case True
      with k notin l have "d = c" by (auto simp: F split: if_splits)
      with True x show ?thesis unfolding find by (auto simp: F)
    next
      case False
      with k l obtain k0 where "pe_levels f d = Some k0" "p \<in> set (pv_orders k0)" by (auto simp: F split: if_splits)
      from i(4) [OF this] free show ?thesis unfolding find by (auto simp: F)
    qed
    have "ran (smap_find (pe_orderByID F)) = insert \<lparr>pr_order = a, pr_priceLevel = c\<rparr> (ran (smap_find (pe_orderByID f)))"
      unfolding find using free by simp
    with i(6) al show "alive F = {} \<union> pr_order ` ran (smap_find (pe_orderByID F))" by auto
  qed (use i in \<open>simp_all add: F\<close>)
  show "abs_engine F = (abs_engine f)\<lparr>en_levels := (en_levels (abs_engine f))(c \<mapsto>
       \<lparr>pl_orders = map (value_at f) (pv_orders l) @ [x], pl_quantity = q\<rparr>),
       en_orderByID := smap_assign (eo_orderId x) \<lparr>rf_order = eo_orderId x, rf_priceLevel = c\<rparr> (abs_index (pe_orderByID f))\<rparr>"
    using x by (simp add: F abs_engine_def fun_eq_iff abs_level_def order_at_def)
qed

text \<open>The caller's order comes from the pool and goes back.\<close>

lemma acquire_held:
  assumes inv: "pooled_inv {} f" and a: "acquireObject max_block v (pe_pool f) = Some (a, pool)"
  shows "pooled_inv {a} (f\<lparr>pe_pool := pool\<rparr>)" "abs_engine (f\<lparr>pe_pool := pool\<rparr>) = abs_engine f"
    "order_at a (f\<lparr>pe_pool := pool\<rparr>) = Some v" "alive (f\<lparr>pe_pool := pool\<rparr>) = insert a (alive f)" "a \<notin> alive f"
proof -
  note i = pooled_invD [OF inv] and w = acquireObject_wf [OF i(1) a]
  let ?F = "f\<lparr>pe_pool := pool\<rparr>"
  have at: "order_at p ?F = (if p = a then Some v else order_at p f)" for p by (simp add: order_at_def w(3))
  then show "order_at a ?F = Some v" by simp
  show al: "alive ?F = insert a (alive f)" "a \<notin> alive f" using w(2) by (auto simp: alive_def w(3))
  have other: "p \<noteq> a" if "pe_levels f c = Some l" "p \<in> set (pv_orders l)" for c l p
    using i(4) [OF that] w(2) by (auto simp: order_at_def)
  show "pooled_inv {a} ?F"
  proof (rule pooled_invI)
    show "p \<notin> {a} \<and> (\<exists>x. order_at p ?F = Some x \<and> smap_find (pe_orderByID ?F) (eo_orderId x) = Some \<lparr>pr_order = p, pr_priceLevel = c\<rparr>)"
      if "pe_levels ?F c = Some l" "p \<in> set (pv_orders l)" for c l p
      using that i(4) [of c l p] other [of c l p] at by simp
    show "\<exists>l x. pe_levels ?F (pr_priceLevel r) = Some l \<and> pr_order r \<in> set (pv_orders l)
        \<and> order_at (pr_order r) ?F = Some x \<and> eo_orderId x = k" if "smap_find (pe_orderByID ?F) k = Some r" for k r
    proof -
      from that have "smap_find (pe_orderByID f) k = Some r" by simp
      from i(5) [OF this] other at show ?thesis by (metis pooled_engine.select_convs(6) pooled_engine.surjective pooled_engine.update_convs(1))
    qed
  qed (use i w al in simp_all)
  have "map_option (abs_level (po_objects pool)) (pe_levels f c) = map_option (abs_level (po_objects (pe_pool f))) (pe_levels f c)" for c
    using other [of c] by (cases "pe_levels f c") (auto simp: abs_level_def w(3))
  then show "abs_engine ?F = abs_engine f" by (simp add: abs_engine_def)
qed

lemma destroy_held:
  assumes inv: "pooled_inv {a} f"
  obtains f' where "destroy_order a f = Some f'" "pooled_inv {} f'" "abs_engine f' = abs_engine f" "alive f' = alive f - {a}"
proof -
  note i = pooled_invD [OF inv]
  obtain x where x: "order_at a f = Some x" using i(6) by (auto simp: alive_def order_at_def)
  obtain pool where pool: "destroy_order a f = Some (f\<lparr>pe_pool := pool\<rparr>)" "pool_wf pool"
    "po_objects pool = (po_objects (pe_pool f))(a := None)" by (rule destroy_order_some [OF i(1) x])
  let ?F = "f\<lparr>pe_pool := pool\<rparr>"
  have at: "order_at p ?F = (if p = a then None else order_at p f)" for p by (simp add: order_at_def pool(3))
  have al: "alive ?F = alive f - {a}" by (auto simp: alive_def pool(3))
  have other: "p \<noteq> a" if "pe_levels f c = Some l" "p \<in> set (pv_orders l)" for c l p using i(4) [OF that] by blast
  have ran: "a \<notin> pr_order ` ran (smap_find (pe_orderByID f))"
  proof
    assume "a \<in> pr_order ` ran (smap_find (pe_orderByID f))"
    then obtain k r where "smap_find (pe_orderByID f) k = Some r" "pr_order r = a" by (auto simp: ran_def)
    with i(5) [OF this(1)] other show False by blast
  qed
  have "pooled_inv {} ?F"
  proof (rule pooled_invI)
    show "p \<notin> {} \<and> (\<exists>x. order_at p ?F = Some x \<and> smap_find (pe_orderByID ?F) (eo_orderId x) = Some \<lparr>pr_order = p, pr_priceLevel = c\<rparr>)"
      if "pe_levels ?F c = Some l" "p \<in> set (pv_orders l)" for c l p
      using that i(4) [of c l p] other [of c l p] at by simp
    show "\<exists>l x. pe_levels ?F (pr_priceLevel r) = Some l \<and> pr_order r \<in> set (pv_orders l)
        \<and> order_at (pr_order r) ?F = Some x \<and> eo_orderId x = k" if "smap_find (pe_orderByID ?F) k = Some r" for k r
    proof -
      from that have "smap_find (pe_orderByID f) k = Some r" by simp
      from i(5) [OF this] other at show ?thesis by (metis pooled_engine.select_convs(6) pooled_engine.surjective pooled_engine.update_convs(1))
    qed
    show "alive ?F = {} \<union> pr_order ` ran (smap_find (pe_orderByID ?F))" using al i(6) ran by auto
  qed (use i pool in simp_all)
  moreover have "map_option (abs_level (po_objects pool)) (pe_levels f c) = map_option (abs_level (po_objects (pe_pool f))) (pe_levels f c)" for c
    using other [of c] by (cases "pe_levels f c") (auto simp: abs_level_def pool(3))
  then have "abs_engine ?F = abs_engine f" by (simp add: abs_engine_def)
  ultimately show thesis using that pool(1) al by blast
qed

section \<open>Matching\<close>

text \<open>While the loop runs over a level's list, the list is a value of the loop.\<close>

definition with_list :: "nat \<Rightarrow> pooled_level \<Rightarrow> pool_ptr list \<Rightarrow> 'm pooled_engine \<Rightarrow> 'm pooled_engine" where
  "with_list c l ps f = f\<lparr>pe_levels := (pe_levels f)(c \<mapsto> l\<lparr>pv_orders := ps\<rparr>)\<rparr>"

lemma with_list_simps [simp]:
  "order_at p (with_list c l ps f) = order_at p f" "pe_levels (with_list c l ps f) c = Some (l\<lparr>pv_orders := ps\<rparr>)"
  "pe_orderByID (with_list c l ps f) = pe_orderByID f" "pe_trades (with_list c l ps f) = pe_trades f"
  "alive (with_list c l ps f) = alive f" "pe_pool (with_list c l ps f) = pe_pool f"
  by (simp_all add: with_list_def alive_def)

lemma with_list_commutes:
  "with_list c l ps (write_order p x f) = write_order p x (with_list c l ps f)"
  "with_list c l ps (f\<lparr>pe_trades := t\<rparr>) = (with_list c l ps f)\<lparr>pe_trades := t\<rparr>"
  by (simp_all add: with_list_def write_order_def)

text \<open>The order of the level's front, filled completely.\<close>

lemma fill_front:
  assumes inv: "pooled_inv {a} (with_list c l (p # rest) f)" and a: "order_at a f = Some ord" and x: "order_at p f = Some x"
    and f3: "f3 = write_order p (x\<lparr>eo_quantity := 0\<rparr>) (write_order a incoming (f\<lparr>pe_trades := t\<rparr>))"
  obtains f4 where "destroy_order p (f3\<lparr>pe_orderByID := smap_erase (eo_orderId x) (pe_orderByID f3)\<rparr>) = Some f4"
    "pooled_inv {a} (with_list c l rest f4)" "order_at a f4 = Some incoming" "\<forall>r\<in>set rest. order_at r f4 = order_at r f"
    "alive f4 \<subseteq> alive f" "pe_trades f4 = t" "abs_index (pe_orderByID f4) = smap_erase (eo_orderId x) (abs_index (pe_orderByID f))"
    "\<exists>os. abs_engine (with_list c l rest f4) = (abs_engine (with_list c l (p # rest) f))\<lparr>
       en_levels := (en_levels (abs_engine (with_list c l (p # rest) f)))(c \<mapsto> \<lparr>pl_orders = os, pl_quantity = pv_quantity l\<rparr>),
       en_trades := t, en_orderByID := smap_erase (eo_orderId x) (abs_index (pe_orderByID f))\<rparr>"
proof -
  let ?G = "with_list c l (p # rest) f"
  let ?x = "x\<lparr>eo_quantity := 0\<rparr>" and ?l = "l\<lparr>pv_orders := p # rest\<rparr>"
  note i = pooled_invD [OF inv]
  have ne: "p \<noteq> a" "a \<notin> set rest" using i(4) [of c ?l p] i(4) [of c ?l a] by auto
  have dist: "p \<notin> set rest" using i(3) [of c ?l] by simp
  define h where "h = write_order a incoming (?G\<lparr>pe_trades := t\<rparr>)"
  have h: "pooled_inv {a} h" "abs_engine h = abs_engine (?G\<lparr>pe_trades := t\<rparr>)" "alive h = alive (?G\<lparr>pe_trades := t\<rparr>)"
    using write_held [of "{a}" "?G\<lparr>pe_trades := t\<rparr>" a incoming] inv by (simp_all add: h_def)
  have lh: "pe_levels h c = Some ?l" "order_at p h = Some x" using ne x by (simp_all add: h_def)
  define g where "g = write_order p ?x h"
  have same: "h\<lparr>pe_levels := (pe_levels h)(c \<mapsto> ?l\<lparr>pv_quantity := pv_quantity l\<rparr>)\<rparr> = h"
    using lh(1) by (simp add: fun_upd_idem)
  have "g = write_order p ?x (h\<lparr>pe_levels := (pe_levels h)(c \<mapsto> ?l\<lparr>pv_quantity := pv_quantity l\<rparr>)\<rparr>)" by (simp only: same g_def)
  from write_resting [OF h(1) lh(1) _ lh(2) _ this, of "[]" rest]
  have g: "pooled_inv {a} g" "abs_engine g = (abs_engine h)\<lparr>en_levels := (en_levels (abs_engine h))(c \<mapsto>
       \<lparr>pl_orders = ?x # map (value_at h) rest, pl_quantity = pv_quantity l\<rparr>)\<rparr>" "alive g = alive h" by simp_all
  have lg: "pe_levels g c = Some ?l" "pv_orders ?l = [] @ p # rest" "order_at p g = Some ?x" using lh by (simp_all add: g_def)
  obtain pool where pool: "destroy_order p g = Some (g\<lparr>pe_pool := pool\<rparr>)"
    by (rule destroy_order_some [OF pooled_invD(1) [OF g(1)] lg(3)])
  let ?f3 = "f3\<lparr>pe_orderByID := smap_erase (eo_orderId x) (pe_orderByID f3)\<rparr>"
  have "pe_pool ?f3 = pe_pool g" by (simp add: f3 g_def h_def write_order_def)
  with pool have d: "destroy_order p ?f3 = Some (?f3\<lparr>pe_pool := pool\<rparr>)" by (simp add: destroy_order_iff)
  let ?f4 = "?f3\<lparr>pe_pool := pool\<rparr>"
  have "with_list c l rest ?f4 = (g\<lparr>pe_pool := pool\<rparr>)\<lparr>pe_levels := (pe_levels (g\<lparr>pe_pool := pool\<rparr>))(c \<mapsto> ?l\<lparr>pv_orders := [] @ rest, pv_quantity := pv_quantity l\<rparr>),
      pe_orderByID := smap_erase (eo_orderId ?x) (pe_orderByID (g\<lparr>pe_pool := pool\<rparr>))\<rparr>"
    by (simp add: with_list_def f3 g_def h_def write_order_def)
  note r = remove_resting_order [OF g(1) lg pool this]
  have "order_at a ?f4 = Some incoming" using r(4) [of a] ne by (simp add: g_def h_def)
  moreover have "\<forall>q\<in>set rest. order_at q ?f4 = order_at q f"
  proof
    fix q assume "q \<in> set rest"
    with dist ne have "q \<noteq> p" "q \<noteq> a" by auto
    with r(4) [of q] show "order_at q ?f4 = order_at q f" by (simp add: g_def h_def)
  qed
  moreover have "alive ?f4 \<subseteq> alive f" using r(3) g(3) h(3) by (auto simp: alive_def with_list_def)
  moreover have "abs_engine (with_list c l rest ?f4) = (abs_engine ?G)\<lparr>
       en_levels := (en_levels (abs_engine ?G))(c \<mapsto> \<lparr>pl_orders = map (value_at g) rest, pl_quantity = pv_quantity l\<rparr>),
       en_trades := t, en_orderByID := smap_erase (eo_orderId x) (abs_index (pe_orderByID f))\<rparr>"
    unfolding r(2) g(2) h(2) by (simp add: abs_engine_def g_def h_def)
  ultimately show thesis using that [OF d] r(1) by (auto simp: f3)
qed

lemma pooled_match_orders_sim:
  assumes "pooled_inv {a} (with_list c l ps f)" "order_at a f = Some ord"
    "match_orders ord (map (value_at f) ps) (pe_trades f) (abs_index (pe_orderByID f)) = (ord', os', T', I')"
  shows "\<exists>ps' f'. pooled_match_orders a ps f = Some (ps', f') \<and> pooled_inv {a} (with_list c l ps' f')
     \<and> order_at a f' = Some ord' \<and> alive f' \<subseteq> alive f
     \<and> abs_engine (with_list c l ps' f') = (abs_engine (with_list c l ps f))\<lparr>
         en_levels := (en_levels (abs_engine (with_list c l ps f)))(c \<mapsto> \<lparr>pl_orders = os', pl_quantity = pv_quantity l\<rparr>),
         en_trades := T', en_orderByID := I'\<rparr>"
  using assms
proof (induction ps arbitrary: f ord)
  case Nil
  have "abs_engine (with_list c l [] f) = (abs_engine (with_list c l [] f))\<lparr>
         en_levels := (en_levels (abs_engine (with_list c l [] f)))(c \<mapsto> \<lparr>pl_orders = [], pl_quantity = pv_quantity l\<rparr>),
         en_trades := pe_trades f, en_orderByID := abs_index (pe_orderByID f)\<rparr>"
    by (simp add: abs_engine_def fun_eq_iff with_list_def abs_level_def)
  moreover have r: "ord' = ord" "os' = []" "T' = pe_trades f" "I' = abs_index (pe_orderByID f)" using Nil by simp_all
  ultimately show ?case unfolding r using Nil(1,2)
    by (intro exI [of _ "[]"] exI [of _ f] conjI) (assumption | simp only: pooled_match_orders.simps subset_refl)+
next
  case (Cons p rest)
  let ?G = "with_list c l (p # rest) f"
  note i = pooled_invD [OF Cons.prems(1)]
  obtain x where x: "order_at p f = Some x" "p \<noteq> a" using i(4) [of c "l\<lparr>pv_orders := p # rest\<rparr>" p] by auto
  let ?t = "pe_trades f @ [make_trade ord x]"
  show ?case
  proof (cases "eo_quantity ord \<ge> eo_quantity x")
    case True
    let ?ord = "ord\<lparr>eo_quantity := eo_quantity ord - eo_quantity x\<rparr>"
    obtain f4 where f4: "destroy_order p ((write_order p (x\<lparr>eo_quantity := 0\<rparr>) (write_order a ?ord (f\<lparr>pe_trades := ?t\<rparr>)))
        \<lparr>pe_orderByID := smap_erase (eo_orderId x) (pe_orderByID (write_order p (x\<lparr>eo_quantity := 0\<rparr>) (write_order a ?ord (f\<lparr>pe_trades := ?t\<rparr>))))\<rparr>) = Some f4"
      "pooled_inv {a} (with_list c l rest f4)" "order_at a f4 = Some ?ord" "\<forall>r\<in>set rest. order_at r f4 = order_at r f"
      "alive f4 \<subseteq> alive f" "pe_trades f4 = ?t" "abs_index (pe_orderByID f4) = smap_erase (eo_orderId x) (abs_index (pe_orderByID f))"
      "\<exists>os. abs_engine (with_list c l rest f4) = (abs_engine ?G)\<lparr>
       en_levels := (en_levels (abs_engine ?G))(c \<mapsto> \<lparr>pl_orders = os, pl_quantity = pv_quantity l\<rparr>),
       en_trades := ?t, en_orderByID := smap_erase (eo_orderId x) (abs_index (pe_orderByID f))\<rparr>"
      using fill_front [where incoming = ?ord and t = ?t, OF Cons.prems(1,2) x(1) refl] by blast
    have same: "map (value_at f4) rest = map (value_at f) rest" using f4(4) by simp
    have "match_orders ?ord (map (value_at f4) rest) (pe_trades f4) (abs_index (pe_orderByID f4)) = (ord', os', T', I')"
      using Cons.prems(3) x(1) True by (simp add: same f4(6,7))
    from Cons.IH [OF f4(2,3) this] obtain ps' f' where r: "pooled_match_orders a rest f4 = Some (ps', f')" "pooled_inv {a} (with_list c l ps' f')"
      "order_at a f' = Some ord'" "alive f' \<subseteq> alive f4"
      "abs_engine (with_list c l ps' f') = (abs_engine (with_list c l rest f4))\<lparr>
         en_levels := (en_levels (abs_engine (with_list c l rest f4)))(c \<mapsto> \<lparr>pl_orders = os', pl_quantity = pv_quantity l\<rparr>),
         en_trades := T', en_orderByID := I'\<rparr>" by blast
    have "pooled_match_orders a (p # rest) f = Some (ps', f')"
      using Cons.prems(2) x(1) True f4(1) r(1) by (simp add: Let_def)
    moreover have "abs_engine (with_list c l ps' f') = (abs_engine ?G)\<lparr>
         en_levels := (en_levels (abs_engine ?G))(c \<mapsto> \<lparr>pl_orders = os', pl_quantity = pv_quantity l\<rparr>),
         en_trades := T', en_orderByID := I'\<rparr>" using f4(8) r(5) by auto
    ultimately show ?thesis using r(2-4) f4(5) by blast
  next
    case False
    let ?x = "x\<lparr>eo_quantity := eo_quantity x - eo_quantity ord\<rparr>" and ?ord = "ord\<lparr>eo_quantity := 0\<rparr>" and ?l = "l\<lparr>pv_orders := p # rest\<rparr>"
    let ?h = "?G\<lparr>pe_trades := ?t\<rparr>"
    have r: "ord' = ?ord" "os' = ?x # map (value_at f) rest" "T' = ?t" "I' = abs_index (pe_orderByID f)"
      using Cons.prems(3) x(1) False by simp_all
    have same: "?h\<lparr>pe_levels := (pe_levels ?h)(c \<mapsto> ?l\<lparr>pv_quantity := pv_quantity l\<rparr>)\<rparr> = ?h" by (simp add: with_list_def)
    have F: "write_order p ?x ?h = write_order p ?x (?h\<lparr>pe_levels := (pe_levels ?h)(c \<mapsto> ?l\<lparr>pv_quantity := pv_quantity l\<rparr>)\<rparr>)" by (simp only: same)
    have lh: "pooled_inv {a} ?h" "pe_levels ?h c = Some ?l" "order_at p ?h = Some x" using Cons.prems(1) x(1) by simp_all
    note w = write_resting [OF lh(1,2) _ lh(3) _ F, of "[]" rest, simplified]
    note v = write_held [OF w(1), of a ?ord, simplified]
    let ?f' = "write_order a ?ord (write_order p ?x (f\<lparr>pe_trades := ?t\<rparr>))"
    have "with_list c l (p # rest) ?f' = write_order a ?ord (write_order p ?x ?h)" by (simp add: with_list_commutes)
    moreover have "abs_engine (write_order a ?ord (write_order p ?x ?h)) = (abs_engine ?G)\<lparr>
         en_levels := (en_levels (abs_engine ?G))(c \<mapsto> \<lparr>pl_orders = os', pl_quantity = pv_quantity l\<rparr>),
         en_trades := T', en_orderByID := I'\<rparr>"
      unfolding v(2) w(2) r by (simp add: abs_engine_def)
    moreover have "pooled_match_orders a (p # rest) f = Some (p # rest, ?f')" using Cons.prems(2) x(1) False by (simp add: Let_def)
    moreover have "alive ?f' = alive f" using v(3) w(3) by (auto simp: alive_def write_order_def)
    moreover have "order_at a ?f' = Some ord'" by (simp add: r)
    ultimately show ?thesis using v(1) by (metis subset_refl)
  qed
qed

lemma pooled_matchOrderList_sim:
  assumes inv: "pooled_inv {a} f" and a: "order_at a f = Some ord"
    and m: "matchOrderList ord c (abs_engine f) = Some (b, ord', e')"
  shows "\<exists>f'. pooled_matchOrderList a c f = Some (b, f') \<and> pooled_inv {a} f' \<and> abs_engine f' = e'
    \<and> order_at a f' = Some ord' \<and> alive f' \<subseteq> alive f
    \<and> (\<exists>l. pe_levels f' c = Some l \<and> (b \<longrightarrow> pv_orders l = []))"
proof -
  obtain l where l: "pe_levels f c = Some l" using m by (auto simp: matchOrderList_def split: option.splits)
  have self: "with_list c l (pv_orders l) f = f" using l by (simp add: with_list_def fun_upd_idem)
  obtain os' T' I' where o: "match_orders ord (map (value_at f) (pv_orders l)) (pe_trades f) (abs_index (pe_orderByID f)) = (ord', os', T', I')"
    "b = (os' = [])" "e' = (abs_engine f)\<lparr>en_levels := (en_levels (abs_engine f))(c \<mapsto> \<lparr>pl_orders = os', pl_quantity = pv_quantity l\<rparr>),
      en_trades := T', en_orderByID := I'\<rparr>"
    using m l by (auto simp: matchOrderList_def abs_level_value split: prod.splits)
  from pooled_match_orders_sim [of a c l "pv_orders l" f ord ord' os' T' I'] inv a o(1)
  obtain ps' f' where r: "pooled_match_orders a (pv_orders l) f = Some (ps', f')" "pooled_inv {a} (with_list c l ps' f')"
    "order_at a f' = Some ord'" "alive f' \<subseteq> alive f" "abs_engine (with_list c l ps' f') = e'"
    by (auto simp: self o(3))
  have "map_option (abs_level (po_objects (pe_pool f'))) (Some (l\<lparr>pv_orders := ps'\<rparr>)) = Some \<lparr>pl_orders = os', pl_quantity = pv_quantity l\<rparr>"
    using arg_cong [OF r(5), of "\<lambda>e. en_levels e c"] by (simp add: o(3))
  then have "ps' = [] \<longleftrightarrow> b" by (auto simp: abs_level_def o(2))
  moreover have "pooled_matchOrderList a c f = Some (ps' = [], with_list c l ps' f')"
    using l r(1) by (simp add: pooled_matchOrderList_def with_list_def)
  ultimately show ?thesis using r(2-5) by auto
qed

lemma pooled_erase_at_sim:
  assumes "pooled_inv held f" "pe_levels f c = Some l" "pv_orders l = []"
  shows "pooled_inv held (pooled_erase_at ops s i c f)" "abs_engine (pooled_erase_at ops s i c f) = erase_level_at ops s i c (abs_engine f)"
    "order_at p (pooled_erase_at ops s i c f) = order_at p f" "alive (pooled_erase_at ops s i c f) = alive f"
proof -
  let ?F = "set_pooled_side s (fo_erase_at (ops s) i (pooled_side s f)) f"
  have "pooled_inv held ?F" "pe_levels ?F c = Some l" using assms by simp_all
  from drop_empty_level [OF this assms(3)]
  show "pooled_inv held (pooled_erase_at ops s i c f)" "abs_engine (pooled_erase_at ops s i c f) = erase_level_at ops s i c (abs_engine f)"
    by (simp_all add: pooled_erase_at_def erase_level_at_def)
  show "order_at p (pooled_erase_at ops s i c f) = order_at p f" by (simp add: pooled_erase_at_def)
  show "alive (pooled_erase_at ops s i c f) = alive f"
    using set_pooled_side_frame(6) [of s "fo_erase_at (ops s) i (pooled_side s f)" f] by (simp add: pooled_erase_at_def alive_def)
qed

definition simulated :: "pool_ptr \<Rightarrow> engine_order \<Rightarrow> 'm matching_engine \<Rightarrow> 'm pooled_engine \<Rightarrow> bool" where
  "simulated a ord e f \<longleftrightarrow> pooled_inv {a} f \<and> abs_engine f = e \<and> order_at a f = Some ord"

lemma pooled_match_levels_sim:
  assumes "match_levels ops opposite i ord e = Some r"
  shows "\<forall>f. simulated a ord e f \<longrightarrow>
    (\<exists>f'. pooled_match_levels ops opposite i a f = Some f' \<and> simulated a (fst r) (snd r) f' \<and> alive f' \<subseteq> alive f)"
proof (rule match_levels.raw_induct [where P = "\<lambda>ops opposite i ord e r. \<forall>f. simulated a ord e f \<longrightarrow>
    (\<exists>f'. pooled_match_levels ops opposite i a f = Some f' \<and> simulated a (fst r) (snd r) f' \<and> alive f' \<subseteq> alive f)", OF _ assms], intro allI impI)
  fix F and ops :: "order_side \<Rightarrow> 'a flat_map_ops" and opposite i ord e r and f :: "'a pooled_engine"
  assume ih: "\<And>ops opposite i ord e r. F ops opposite i ord e = Some r \<Longrightarrow> \<forall>f. simulated a ord e f \<longrightarrow>
      (\<exists>f'. pooled_match_levels ops opposite i a f = Some f' \<and> simulated a (fst r) (snd r) f' \<and> alive f' \<subseteq> alive f)"
    and step: "(case fo_at (ops opposite) (side_map opposite e) i of None \<Rightarrow> Some (ord, e)
      | Some (levelPrice, levelPtr) \<Rightarrow>
          if 0 < eo_quantity ord \<and> comparator opposite levelPrice (eo_price ord)
          then case levelPtr of None \<Rightarrow> None
            | Some level \<Rightarrow> (case matchOrderList ord level e of None \<Rightarrow> None
                | Some (levelEmpty, ord', e') \<Rightarrow>
                    if levelEmpty then F ops opposite i ord' (erase_level_at ops opposite i level e')
                    else F ops opposite (i + 1) ord' e')
          else Some (ord, e)) = Some r"
    and f: "simulated a ord e f"
  from f have f: "pooled_inv {a} f" "abs_engine f = e" "order_at a f = Some ord" "simulated a ord e f" by (simp_all add: simulated_def)
  then have side: "side_map opposite e = pooled_side opposite f" by auto
  note unfold = pooled_match_levels.simps [of ops opposite i a f]
  show "\<exists>f'. pooled_match_levels ops opposite i a f = Some f' \<and> simulated a (fst r) (snd r) f' \<and> alive f' \<subseteq> alive f"
  proof (cases "fo_at (ops opposite) (pooled_side opposite f) i")
    case None
    with step f show ?thesis by (auto simp: unfold side)
  next
    case (Some entry)
    obtain levelPrice levelPtr where entry: "entry = (levelPrice, levelPtr)" by (cases entry)
    show ?thesis
    proof (cases "eo_quantity ord > 0 \<and> comparator opposite levelPrice (eo_price ord)")
      case False
      with step Some entry side have "r = (ord, e)" by auto
      with False f Some entry show ?thesis by (auto simp: unfold)
    next
      case True
      with step Some entry side obtain c b ord1 e1 where l: "levelPtr = Some c" "matchOrderList ord c e = Some (b, ord1, e1)"
        by (auto split: option.splits)
      from pooled_matchOrderList_sim [OF f(1,3), unfolded f(2), OF l(2)] obtain f1 k where f1: "pooled_matchOrderList a c f = Some (b, f1)"
        "pooled_inv {a} f1" "abs_engine f1 = e1" "order_at a f1 = Some ord1" "alive f1 \<subseteq> alive f"
        "pe_levels f1 c = Some k" "b \<longrightarrow> pv_orders k = []" by blast
      show ?thesis
      proof (cases b)
        case b: True
        let ?f2 = "pooled_erase_at ops opposite i c f1"
        from b f1(7) have "pv_orders k = []" by simp
        note e2 = pooled_erase_at_sim [where ops = ops and s = opposite and i = i, OF f1(2,6) this]
        have "simulated a ord1 (erase_level_at ops opposite i c e1) ?f2" using e2 f1(3,4) by (simp add: simulated_def)
        moreover have "F ops opposite i ord1 (erase_level_at ops opposite i c e1) = Some r"
          using step Some entry True l b side by simp
        ultimately obtain f' where "pooled_match_levels ops opposite i a ?f2 = Some f'" "simulated a (fst r) (snd r) f'" "alive f' \<subseteq> alive ?f2"
          using ih by blast
        with Some entry True l b f f1 e2(4) show ?thesis by (simp add: unfold)
      next
        case b: False
        have "F ops opposite (i + 1) ord1 e1 = Some r" using step Some entry True l b side by simp
        moreover have "simulated a ord1 e1 f1" using f1 by (simp add: simulated_def)
        ultimately obtain f' where "pooled_match_levels ops opposite (i + 1) a f1 = Some f'" "simulated a (fst r) (snd r) f'" "alive f' \<subseteq> alive f1"
          using ih by blast
        with Some entry True l b f f1 show ?thesis by (auto simp: unfold)
      qed
    qed
  qed
qed

lemma pooled_matchOrder_sim:
  assumes "matchOrder ops ord e = Some (q, ord', e')" "simulated a ord e f"
  shows "\<exists>f'. pooled_matchOrder ops a f = Some (q, f') \<and> simulated a ord' e' f' \<and> alive f' \<subseteq> alive f \<and> q = eo_quantity ord'"
proof -
  have m: "match_levels ops (opposite_side (eo_side ord)) 0 ord e = Some (ord', e')" "q = eo_quantity ord'"
    using assms(1) by (auto simp: matchOrder_def split: option.splits)
  from pooled_match_levels_sim [OF m(1), of a] assms(2) obtain f' where f': "pooled_match_levels ops (opposite_side (eo_side ord)) 0 a f = Some f'"
    "simulated a ord' e' f'" "alive f' \<subseteq> alive f" by auto
  moreover have "order_at a f = Some ord" "order_at a f' = Some ord'" using assms(2) f'(2) by (simp_all add: simulated_def)
  ultimately show ?thesis using m(2) by (simp add: pooled_matchOrder_def)
qed

end
