(* ===== verification/Pooled_Properties.thy ===== *)
theory Pooled_Properties
  imports Pooled_Simulation
begin

text \<open>
  The handlers of the engine over the pool, the runs of the program around it, and what they promise:
  the book and the trades of the unit-tested engine, with exactly the resting orders in pool memory.
\<close>

section \<open>Handlers\<close>

text \<open>The end of a handler that was given the caller's pointer \<open>a\<close>: it was taken over or is still held.\<close>

definition ended :: "pool_ptr \<Rightarrow> 'm matching_engine \<Rightarrow> 'm pooled_engine \<Rightarrow> bool \<times> 'm pooled_engine \<Rightarrow> bool" where
  "ended a e' f r \<longleftrightarrow> pooled_inv (if fst r then {} else {a}) (snd r) \<and> abs_engine (snd r) = e' \<and> alive (snd r) \<subseteq> alive f"

lemma pooled_getOrderPriceList_sim:
  assumes g: "getOrderPriceList ops s price e = Some (c, e1)" and f: "simulated a ord e f"
  shows "\<exists>f1. pooled_getOrderPriceList ops s price f = Some (c, f1) \<and> simulated a ord e1 f1 \<and> alive f1 = alive f"
proof -
  from f have f: "pooled_inv {a} f" "e = abs_engine f" "order_at a f = Some ord" by (simp_all add: simulated_def)
  obtain iter inserted m where em: "fo_emplace (ops s) price None (pooled_side s f) = (iter, inserted, m)"
    by (cases "fo_emplace (ops s) price None (pooled_side s f)")
  show ?thesis
  proof (cases inserted)
    case False
    then have c: "(\<exists>p. fo_at (ops s) m iter = Some (p, Some c))" "e1 = set_side_map s m e"
      using g em by (auto simp: getOrderPriceList_def f(2) Let_def split: option.splits)
    have "alive (set_pooled_side s m f) = alive f" by simp
    with c False em f show ?thesis by (auto simp: pooled_getOrderPriceList_def simulated_def)
  next
    case True
    let ?m = "fo_assign (ops s) iter (Some (pe_fresh f)) m"
    let ?F = "f\<lparr>pe_levels := (pe_levels f)(pe_fresh f \<mapsto> \<lparr>pv_orders = [], pv_quantity = 0\<rparr>), pe_fresh := pe_fresh f + 1\<rparr>"
    note n = add_empty_level [OF f(1) refl]
    from True have c: "\<exists>p. fo_at (ops s) ?m iter = Some (p, Some c)"
      "e1 = set_side_map s ?m (e\<lparr>en_levels := (en_levels e)(pe_fresh f \<mapsto> \<lparr>pl_orders = [], pl_quantity = 0\<rparr>), en_fresh := pe_fresh f + 1\<rparr>)"
      using g em by (auto simp: getOrderPriceList_def f(2) Let_def split: option.splits)
    then have "pooled_getOrderPriceList ops s price f = Some (c, set_pooled_side s ?m ?F)"
      using em True by (auto simp: pooled_getOrderPriceList_def)
    moreover have "simulated a ord e1 (set_pooled_side s ?m ?F)" using n f(3) by (simp add: simulated_def c(2) f(2))
    moreover have "alive (set_pooled_side s ?m ?F) = alive f" by (simp add: alive_def)
    ultimately show ?thesis by blast
  qed
qed

lemma pooled_handleOrderNew_sim:
  assumes h: "handleOrderNew ops ord e = Some e'" and f: "simulated a ord e f"
  shows "\<exists>r. pooled_handleOrderNew ops a f = Some r \<and> ended a e' f r"
proof -
  obtain q ord1 e1 where m: "matchOrder ops ord e = Some (q, ord1, e1)" using h by (auto simp: handleOrderNew_def split: bind_splits)
  from pooled_matchOrder_sim [OF m f] obtain f1 where f1: "pooled_matchOrder ops a f = Some (q, f1)" "simulated a ord1 e1 f1"
    "alive f1 \<subseteq> alive f" by blast
  have s1: "pooled_inv {a} f1" "abs_engine f1 = e1" "order_at a f1 = Some ord1" using f1(2) by (simp_all add: simulated_def)
  have known: "smap_find (en_orderByID e1) (eo_orderId ord1) = None \<longleftrightarrow> smap_find (pe_orderByID f1) (eo_orderId ord1) = None"
    by (simp add: s1(2) [symmetric])
  show ?thesis
  proof (cases "q = 0 \<or> smap_find (en_orderByID e1) (eo_orderId ord1) \<noteq> None")
    case True
    then have "e' = e1" "pooled_handleOrderNew ops a f = Some (False, f1)"
      using h m f1(1) s1(3) known by (auto simp: handleOrderNew_def pooled_handleOrderNew_def split: if_splits)
    with s1 f1(3) show ?thesis by (simp add: ended_def)
  next
    case False
    let ?s = "if eo_side ord1 = BUY then BUY else SELL"
    obtain c e2 l where g: "getOrderPriceList ops ?s (eo_price ord1) e1 = Some (c, e2)" "en_levels e2 c = Some l"
      "e' = e2\<lparr>en_levels := (en_levels e2)(c \<mapsto> l\<lparr>pl_quantity := pl_quantity l + ucast (eo_quantity ord1), pl_orders := pl_orders l @ [ord1]\<rparr>),
         en_orderByID := smap_assign (eo_orderId ord1) \<lparr>rf_order = eo_orderId ord1, rf_priceLevel = c\<rparr> (en_orderByID e2)\<rparr>"
      using h m False by (auto simp: handleOrderNew_def Let_def split: bind_splits)
    from pooled_getOrderPriceList_sim [OF g(1) f1(2)] obtain f2 where f2: "pooled_getOrderPriceList ops ?s (eo_price ord1) f1 = Some (c, f2)"
      "simulated a ord1 e2 f2" "alive f2 = alive f1" by blast
    have s2: "pooled_inv {a} f2" "abs_engine f2 = e2" "order_at a f2 = Some ord1" using f2(2) by (simp_all add: simulated_def)
    obtain k where k: "pe_levels f2 c = Some k" "l = abs_level (po_objects (pe_pool f2)) k" using g(2) by (auto simp: s2(2) [symmetric])
    have "en_orderByID e2 = en_orderByID e1" using g(1) by (auto simp: getOrderPriceList_def Let_def split: prod.splits option.splits if_splits)
    then have "smap_find (pe_orderByID f2) (eo_orderId ord1) = None" using False known
      by (metis abs_engine_simps(1) abs_index_laws(4) option.map_disc_iff s2(2))
    note r = rest_held_order [OF s2(1) k(1) s2(3) this refl, of "pv_quantity k + ucast (eo_quantity ord1)"]
    let ?F = "f2\<lparr>pe_levels := (pe_levels f2)(c \<mapsto> k\<lparr>pv_quantity := pv_quantity k + ucast (eo_quantity ord1), pv_orders := pv_orders k @ [a]\<rparr>),
      pe_orderByID := smap_assign (eo_orderId ord1) \<lparr>pr_order = a, pr_priceLevel = c\<rparr> (pe_orderByID f2)\<rparr>"
    have "abs_engine ?F = e'" unfolding r(2) g(3) k(2) s2(2) [symmetric] by (simp add: abs_level_value)
    moreover have "pooled_handleOrderNew ops a f = Some (True, ?F)"
      using f1(1) s1(3) False known f2(1) k(1) by (simp add: pooled_handleOrderNew_def Let_def)
    ultimately show ?thesis using r(1,3) f2(3) f1(3) by (auto simp: ended_def)
  qed
qed

lemma find_by_id:
  assumes "\<forall>y \<in> set xs. eo_orderId y \<noteq> k" "eo_orderId x = k"
  shows "order_with_id k (xs @ x # ys) = Some x" "erase_order k (xs @ x # ys) = xs @ ys"
    "assign_quantity k q (xs @ x # ys) = xs @ x\<lparr>eo_quantity := q\<rparr> # ys"
  using assms by (induction xs) (simp_all add: order_with_id_def)

text \<open>The resting order of an index entry, in both engines.\<close>

lemma indexed_order:
  assumes inv: "pooled_inv held f" and k: "smap_find (pe_orderByID f) k = Some r"
  obtains l xs ys x where "pe_levels f (pr_priceLevel r) = Some l" "pv_orders l = xs @ pr_order r # ys" "pr_order r \<notin> set xs"
    "order_at (pr_order r) f = Some x" "eo_orderId x = k" "pr_order r \<notin> held" "\<forall>y \<in> set (map (value_at f) xs). eo_orderId y \<noteq> k"
    "en_levels (abs_engine f) (pr_priceLevel r)
       = Some \<lparr>pl_orders = map (value_at f) xs @ x # map (value_at f) ys, pl_quantity = pv_quantity l\<rparr>"
proof -
  from pooled_invD(5) [OF inv k] obtain l x where l: "pe_levels f (pr_priceLevel r) = Some l" "pr_order r \<in> set (pv_orders l)"
    "order_at (pr_order r) f = Some x" "eo_orderId x = k" by blast
  obtain xs ys where s: "pv_orders l = xs @ pr_order r # ys" "pr_order r \<notin> set xs" using l(2) by (meson split_list_first)
  have "\<forall>y \<in> set (map (value_at f) xs). eo_orderId y \<noteq> k"
  proof
    fix y assume "y \<in> set (map (value_at f) xs)"
    then obtain p where p: "p \<in> set xs" "y = value_at f p" by auto
    then have in_l: "p \<in> set (pv_orders l)" by (simp add: s(1))
    with pooled_invD(4) [OF inv l(1)] obtain z where "order_at p f = Some z" by blast
    with same_id_same_order [OF inv l(1) in_l l(1,2) _ l(3)] p s(2) l(4) show "eo_orderId y \<noteq> k" by auto
  qed
  moreover have "en_levels (abs_engine f) (pr_priceLevel r)
       = Some \<lparr>pl_orders = map (value_at f) xs @ x # map (value_at f) ys, pl_quantity = pv_quantity l\<rparr>"
    using l(1,3) by (simp add: abs_level_value s(1))
  ultimately show thesis using that [OF l(1) s l(3,4)] pooled_invD(4) [OF inv l(1,2)] by blast
qed

lemma pooled_cancelOrder_sim:
  assumes inv: "pooled_inv held f" and k: "smap_find (pe_orderByID f) k = Some r"
    and c: "cancelOrder Contents_Stay ops k \<lparr>rf_order = k, rf_priceLevel = pr_priceLevel r\<rparr> (abs_engine f) = Some e'"
  shows "\<exists>f'. pooled_cancelOrder Contents_Stay ops k r f = Some f' \<and> pooled_inv held f' \<and> abs_engine f' = e' \<and> alive f' \<subseteq> alive f
    \<and> (\<forall>p\<in>held. order_at p f' = order_at p f)"
proof -
  obtain l xs ys x where l: "pe_levels f (pr_priceLevel r) = Some l" "pv_orders l = xs @ pr_order r # ys" "pr_order r \<notin> set xs"
    "order_at (pr_order r) f = Some x" "eo_orderId x = k" "pr_order r \<notin> held" "\<forall>y \<in> set (map (value_at f) xs). eo_orderId y \<noteq> k"
    "en_levels (abs_engine f) (pr_priceLevel r)
       = Some \<lparr>pl_orders = map (value_at f) xs @ x # map (value_at f) ys, pl_quantity = pv_quantity l\<rparr>"
    by (rule indexed_order [OF inv k])
  let ?c = "pr_priceLevel r" and ?q = "pv_quantity l - ucast (eo_quantity x)" and ?s = "if eo_side x = BUY then BUY else SELL"
  obtain pool where d: "destroy_order (pr_order r) f = Some (f\<lparr>pe_pool := pool\<rparr>)"
    by (rule destroy_order_some [OF pooled_invD(1) [OF inv] l(4)])
  define F where "F = (f\<lparr>pe_pool := pool\<rparr>)\<lparr>pe_levels := (pe_levels (f\<lparr>pe_pool := pool\<rparr>))(?c \<mapsto> l\<lparr>pv_orders := xs @ ys, pv_quantity := ?q\<rparr>),
      pe_orderByID := smap_erase (eo_orderId x) (pe_orderByID (f\<lparr>pe_pool := pool\<rparr>))\<rparr>"
  note m = remove_resting_order [where q = ?q, OF inv l(1,2,4) d F_def]
  have held: "\<forall>p\<in>held. order_at p F = order_at p f"
  proof
    fix p assume "p \<in> held"
    with l(6) have "p \<noteq> pr_order r" by auto
    then show "order_at p F = order_at p f" by (rule m(4))
  qed
  have frame: "pooled_side s F = pooled_side s f" "pe_levels F ?c = Some (l\<lparr>pv_orders := xs @ ys, pv_quantity := ?q\<rparr>)" for s
    by (cases s; simp add: F_def pooled_side_def)+
  have rem: "remove1 (pr_order r) (pv_orders l) = xs @ ys" using l(2,3) by (simp add: remove1_append)
  have run: "pooled_cancelOrder Contents_Stay ops k r f = Some (if xs @ ys = []
      then (set_pooled_side ?s (fo_erase_key (ops ?s) (eo_price x) (pooled_side ?s F)) F)\<lparr>pe_levels := (pe_levels F)(?c := None)\<rparr>
      else F)"
    using l(1,2,4,5) d rem by (simp add: pooled_cancelOrder_def Let_def F_def)
  have ef: "abs_engine F = (abs_engine f)\<lparr>en_levels := (en_levels (abs_engine f))(?c \<mapsto>
       \<lparr>pl_orders = map (value_at f) xs @ map (value_at f) ys, pl_quantity = ?q\<rparr>), en_orderByID := smap_erase k (abs_index (pe_orderByID f))\<rparr>"
    using m(2) l(5) by simp
  then have lev: "en_levels (abs_engine F) = (en_levels (abs_engine f))(?c \<mapsto>
       \<lparr>pl_orders = map (value_at f) xs @ map (value_at f) ys, pl_quantity = ?q\<rparr>)" by (simp del: abs_engine_simps(3))
  have "en_levels (abs_engine f) ?c = Some \<lparr>pl_orders = map (value_at f) xs @ x # map (value_at f) ys, pl_quantity = pv_quantity l\<rparr>"
    by (rule l(8))
  then have abstract: "e' = (if xs @ ys = [] then (set_side_map ?s (fo_erase_key (ops ?s) (eo_price x) (pooled_side ?s f)) (abs_engine F))
        \<lparr>en_levels := (en_levels (abs_engine f))(?c := None)\<rparr> else abs_engine F)"
    using c find_by_id [OF l(7,5)] unfolding ef by (auto simp: cancelOrder_def Let_def simp del: abs_engine_simps(3))
  show ?thesis
  proof (cases "xs @ ys = []")
    case False
    then have "e' = abs_engine F" using abstract by (simp only: if_False)
    with run False m(1,3) held show ?thesis by auto
  next
    case True
    let ?G = "set_pooled_side ?s (fo_erase_key (ops ?s) (eo_price x) (pooled_side ?s F)) F"
    have G: "pooled_inv held ?G" "pe_levels ?G ?c = Some (l\<lparr>pv_orders := xs @ ys, pv_quantity := ?q\<rparr>)" using m(1) frame(2) by simp_all
    have "abs_engine (?G\<lparr>pe_levels := (pe_levels ?G)(?c := None)\<rparr>) = e'"
      using abstract True drop_empty_level(2) [OF G] by (simp add: frame(1) lev del: abs_engine_simps(3))
    moreover have "pooled_inv held (?G\<lparr>pe_levels := (pe_levels ?G)(?c := None)\<rparr>)" using drop_empty_level(1) [OF G] True by simp
    moreover have "alive (?G\<lparr>pe_levels := (pe_levels ?G)(?c := None)\<rparr>) \<subseteq> alive f" using m(3) by (auto simp: alive_def)
    moreover have "\<forall>p\<in>held. order_at p (?G\<lparr>pe_levels := (pe_levels ?G)(?c := None)\<rparr>) = order_at p f" using held by simp
    moreover have "pooled_cancelOrder Contents_Stay ops k r f = Some (?G\<lparr>pe_levels := (pe_levels ?G)(?c := None)\<rparr>)" using run True by simp
    ultimately show ?thesis by blast
  qed
qed

lemma pooled_handleOrderCancel_sim:
  assumes c: "handleOrderCancel Contents_Stay ops ord (abs_engine f) = Some e'" and inv: "pooled_inv held f" and a: "order_at a f = Some ord"
  shows "\<exists>f'. pooled_handleOrderCancel Contents_Stay ops a f = Some f' \<and> pooled_inv held f' \<and> abs_engine f' = e' \<and> alive f' \<subseteq> alive f"
proof (cases "smap_find (pe_orderByID f) (eo_orderId ord)")
  case None
  with c inv a show ?thesis by (simp add: handleOrderCancel_def pooled_handleOrderCancel_def)
next
  case (Some r)
  obtain l xs ys x where l: "pe_levels f (pr_priceLevel r) = Some l" "pv_orders l = xs @ pr_order r # ys" "pr_order r \<notin> set xs"
    "order_at (pr_order r) f = Some x" "eo_orderId x = eo_orderId ord" "pr_order r \<notin> held"
    "\<forall>y \<in> set (map (value_at f) xs). eo_orderId y \<noteq> eo_orderId ord"
    "en_levels (abs_engine f) (pr_priceLevel r)
       = Some \<lparr>pl_orders = map (value_at f) xs @ x # map (value_at f) ys, pl_quantity = pv_quantity l\<rparr>"
    by (rule indexed_order [OF inv Some])
  have step: "(if eo_side ord = eo_side x
      then cancelOrder Contents_Stay ops (eo_orderId ord) \<lparr>rf_order = eo_orderId ord, rf_priceLevel = pr_priceLevel r\<rparr> (abs_engine f)
      else Some (abs_engine f)) = Some e'"
    using c find_by_id(1) [OF l(7,5)] l(8) by (simp add: handleOrderCancel_def Some del: abs_engine_simps(3))
  show ?thesis
  proof (cases "eo_side ord = eo_side x")
    case True
    with step have "cancelOrder Contents_Stay ops (eo_orderId ord) \<lparr>rf_order = eo_orderId ord, rf_priceLevel = pr_priceLevel r\<rparr> (abs_engine f) = Some e'" by simp
    from pooled_cancelOrder_sim [OF inv Some this] True a l(4) Some show ?thesis by (auto simp: pooled_handleOrderCancel_def)
  next
    case False
    with step a l(4) Some inv show ?thesis by (simp add: pooled_handleOrderCancel_def)
  qed
qed

lemma pooled_handleOrderAmend_sim:
  assumes h: "handleOrderAmend Contents_Stay ops ord e = Some e'" and f: "simulated a ord e f"
  shows "\<exists>r. pooled_handleOrderAmend Contents_Stay ops a f = Some r \<and> ended a e' f r"
proof -
  from f have inv: "pooled_inv {a} f" and e: "e = abs_engine f" and a: "order_at a f = Some ord" by (simp_all add: simulated_def)
  let ?k = "eo_orderId ord"
  show ?thesis
  proof (cases "smap_find (pe_orderByID f) ?k")
    case None
    with h inv a show ?thesis by (simp add: handleOrderAmend_def pooled_handleOrderAmend_def ended_def e)
  next
    case (Some r)
    obtain l xs ys x where l: "pe_levels f (pr_priceLevel r) = Some l" "pv_orders l = xs @ pr_order r # ys" "pr_order r \<notin> set xs"
      "order_at (pr_order r) f = Some x" "eo_orderId x = ?k" "pr_order r \<notin> {a}"
      "\<forall>y \<in> set (map (value_at f) xs). eo_orderId y \<noteq> ?k"
      "en_levels (abs_engine f) (pr_priceLevel r)
         = Some \<lparr>pl_orders = map (value_at f) xs @ x # map (value_at f) ys, pl_quantity = pv_quantity l\<rparr>"
      by (rule indexed_order [OF inv Some])
    let ?ref = "\<lparr>rf_order = ?k, rf_priceLevel = pr_priceLevel r\<rparr>" and ?q = "pv_quantity l - ucast (eo_quantity x) + ucast (eo_quantity ord)"
    note byid = find_by_id [OF l(7,5)]
    have step: "(if eo_side x \<noteq> eo_side ord then Some e
        else if eo_price x \<noteq> eo_price ord then Option.bind (cancelOrder Contents_Stay ops ?k ?ref e) (handleOrderNew ops ord)
        else Some (e\<lparr>en_levels := (en_levels e)(pr_priceLevel r \<mapsto>
          \<lparr>pl_orders = map (value_at f) xs @ x\<lparr>eo_quantity := eo_quantity ord\<rparr> # map (value_at f) ys, pl_quantity = ?q\<rparr>)\<rparr>)) = Some e'"
      using h byid l(8) unfolding e
      by (cases "eo_side x = eo_side ord"; cases "eo_price x = eo_price ord")
        (simp_all add: handleOrderAmend_def Some Let_def del: abs_engine_simps(3))
    consider (side) "eo_side x \<noteq> eo_side ord" | (price) "eo_side x = eo_side ord" "eo_price x \<noteq> eo_price ord"
      | (same) "eo_side x = eo_side ord" "eo_price x = eo_price ord" by blast
    then show ?thesis
    proof cases
      case side
      with step a l(4) Some inv e show ?thesis by (simp add: pooled_handleOrderAmend_def ended_def)
    next
      case price
      with step obtain e1 where e1: "cancelOrder Contents_Stay ops ?k ?ref (abs_engine f) = Some e1" "handleOrderNew ops ord e1 = Some e'"
        by (auto simp: e split: bind_splits)
      from pooled_cancelOrder_sim [OF inv Some e1(1)] a obtain f1 where f1: "pooled_cancelOrder Contents_Stay ops ?k r f = Some f1" "simulated a ord e1 f1"
        "alive f1 \<subseteq> alive f" by (auto simp: simulated_def)
      from pooled_handleOrderNew_sim [OF e1(2) f1(2)] obtain s where "pooled_handleOrderNew ops a f1 = Some s" "ended a e' f1 s" by blast
      with f1 price a l(4) Some show ?thesis by (auto simp: pooled_handleOrderAmend_def ended_def)
    next
      case same
      let ?F = "write_order (pr_order r) (x\<lparr>eo_quantity := eo_quantity ord\<rparr>)
        (f\<lparr>pe_levels := (pe_levels f)(pr_priceLevel r \<mapsto> l\<lparr>pv_quantity := ?q\<rparr>)\<rparr>)"
      have "eo_orderId (x\<lparr>eo_quantity := eo_quantity ord\<rparr>) = eo_orderId x" by simp
      note w = write_resting [OF inv l(1,2,4) this refl, of ?q]
      have "abs_engine ?F = e'" using step same w(2) e by simp
      moreover have "pooled_handleOrderAmend Contents_Stay ops a f = Some (False, ?F)"
        using a l(1,4) Some same by (simp add: pooled_handleOrderAmend_def Let_def)
      ultimately show ?thesis using w(1,3) by (simp add: ended_def)
    qed
  qed
qed

lemma pooled_processOrder_sim:
  assumes h: "processOrder Contents_Stay ops ord e = Some e'" and f: "simulated a ord e f"
  shows "\<exists>r. pooled_processOrder Contents_Stay ops a f = Some r \<and> ended a e' f r"
proof -
  from f have s: "pooled_inv {a} f" "e = abs_engine f" "order_at a f = Some ord" by (simp_all add: simulated_def)
  show ?thesis
  proof (cases "eo_action ord")
    case NEW
    with h s pooled_handleOrderNew_sim [OF _ f] show ?thesis by (simp add: processOrder_def pooled_processOrder_def)
  next
    case AMEND
    with h s pooled_handleOrderAmend_sim [OF _ f] show ?thesis by (simp add: processOrder_def pooled_processOrder_def)
  next
    case CANCEL
    with h s have "handleOrderCancel Contents_Stay ops ord (abs_engine f) = Some e'" by (simp add: processOrder_def)
    from pooled_handleOrderCancel_sim [OF this s(1,3)] CANCEL s(3) show ?thesis by (auto simp: pooled_processOrder_def ended_def)
  qed (use h s in \<open>simp_all add: processOrder_def pooled_processOrder_def ended_def\<close>)
qed

section \<open>Runs\<close>

definition requested_order :: "order_request \<Rightarrow> engine_order" where
  "requested_order q = limit_order (oq_side q) (oq_action q) (oq_orderId q) (oq_price q) (oq_quantity q)"

lemma acquire_succeeds:
  assumes wf: "pool_wf p" and room: "3 * card (dom (po_objects p)) + 10 \<le> max_block"
  shows "\<exists>a p'. acquireObject max_block v p = Some (a, p')"
proof (cases "po_available p = []")
  case True
  note w = pool_wfD [OF wf] and c = valid_ptrs_card [OF wf]
  from True w(9) c(2) have "card (dom (po_objects p)) = po_capacity p" by simp
  with w(5,6) sum_chunk_sizes [of "length (po_pool p)"] room have "po_new_block_size p \<le> max_block" by simp
  with True show ?thesis by (simp add: acquireObject_def addChunk_def Let_def)
next
  case False
  then show ?thesis by (simp add: acquireObject_def Let_def)
qed

lemma pooled_createOrder_sim:
  assumes inv: "pooled_inv {} f" and room: "3 * card (alive f) + 10 \<le> max_block"
  obtains a f1 where "pooled_createOrder max_block q f = Some (a, f1)" "simulated a (requested_order q) (abs_engine f) f1"
    "alive f1 = insert a (alive f)"
proof -
  obtain a pool where a: "acquireObject max_block default_order (pe_pool f) = Some (a, pool)"
    using acquire_succeeds [OF pooled_invD(1) [OF inv], of max_block default_order] room by (auto simp: alive_def)
  note h = acquire_held [OF inv a]
  have ord: "default_order\<lparr>eo_action := oq_action q, eo_side := oq_side q, eo_price := oq_price q, eo_quantity := oq_quantity q,
      eo_orderId := oq_orderId q\<rparr> = requested_order q"
    by (simp add: requested_order_def limit_order_def builder_defs)
  let ?F = "write_order a (requested_order q) (f\<lparr>pe_pool := pool\<rparr>)"
  have "pooled_createOrder max_block q f = Some (a, ?F)"
    using a h(3) by (simp add: pooled_createOrder_def Let_def ord)
  moreover have "simulated a (requested_order q) (abs_engine f) ?F" "alive ?F = insert a (alive f)"
    using write_held [OF h(1), of a "requested_order q"] h(2,4) by (simp_all add: simulated_def)
  ultimately show thesis using that by blast
qed

lemma submit_order_sim:
  assumes inv: "pooled_inv {} f" and room: "3 * card (alive f) + 10 \<le> max_block"
    and e': "processOrder Contents_Stay ops (requested_order q) (abs_engine f) = Some e'"
  shows "\<exists>f'. submit_order Contents_Stay max_block ops q f = Some f' \<and> pooled_inv {} f' \<and> abs_engine f' = e' \<and> card (alive f') \<le> card (alive f) + 1"
proof -
  have fin: "finite (alive f)" using valid_ptrs_card(1) [OF pooled_invD(1) [OF inv]] pool_wfD(9) [OF pooled_invD(1) [OF inv]]
    by (metis alive_def finite_Un)
  obtain a f1 where f1: "pooled_createOrder max_block q f = Some (a, f1)" "simulated a (requested_order q) (abs_engine f) f1"
    "alive f1 = insert a (alive f)" by (rule pooled_createOrder_sim [OF inv room])
  from pooled_processOrder_sim [OF e' f1(2)] obtain moved f2 where f2: "pooled_processOrder Contents_Stay ops a f1 = Some (moved, f2)"
    "ended a e' f1 (moved, f2)" by auto
  have bound: "card X \<le> card (alive f) + 1" if "X \<subseteq> alive f1" for X
    using card_mono [OF _ that] fin f1(3) by (auto simp: card_insert_if split: if_splits)
  show ?thesis
  proof (cases moved)
    case True
    with f1(1) f2 bound show ?thesis by (auto simp: submit_order_def ended_def)
  next
    case False
    with f2(2) have r: "pooled_inv {a} f2" "abs_engine f2 = e'" "alive f2 \<subseteq> alive f1" by (simp_all add: ended_def)
    obtain f3 where "destroy_order a f2 = Some f3" "pooled_inv {} f3" "abs_engine f3 = abs_engine f2" "alive f3 = alive f2 - {a}"
      by (rule destroy_held [OF r(1)])
    moreover from this have "card (alive f3) \<le> card (alive f) + 1" using bound [of "alive f3"] r(3) by blast
    ultimately show ?thesis using f1(1) f2(1) False r(2) by (simp add: submit_order_def)
  qed
qed

lemma submit_orders_sim:
  "pooled_inv {} f \<Longrightarrow> process_orders Contents_Stay ops (map requested_order qs) (abs_engine f) = Some e \<Longrightarrow>
   3 * (card (alive f) + length qs) + 10 \<le> max_block \<Longrightarrow>
   \<exists>f'. submit_orders Contents_Stay max_block ops qs f = Some f' \<and> pooled_inv {} f' \<and> abs_engine f' = e"
proof (induction qs arbitrary: f)
  case (Cons q qs)
  from Cons.prems(2) obtain e1 where e1: "processOrder Contents_Stay ops (requested_order q) (abs_engine f) = Some e1"
    "process_orders Contents_Stay ops (map requested_order qs) e1 = Some e" by (auto split: option.splits)
  obtain f1 where f1: "submit_order Contents_Stay max_block ops q f = Some f1" "pooled_inv {} f1" "abs_engine f1 = e1"
    "card (alive f1) \<le> card (alive f) + 1" using submit_order_sim [OF Cons.prems(1) _ e1(1), of max_block] Cons.prems(3) by auto
  from Cons.IH [OF f1(2)] e1(2) f1(3,4) Cons.prems(3) obtain f' where "submit_orders Contents_Stay max_block ops qs f1 = Some f'"
    "pooled_inv {} f'" "abs_engine f' = e" by auto
  with f1(1) show ?case by auto
qed simp

lemma new_pooled_inv: "pooled_inv {} (new_pooled_engine ops)" "abs_engine (new_pooled_engine ops) = new_engine ops"
  "alive (new_pooled_engine ops) = {}"
proof -
  have none: "ran (smap_find []) = {}" by (simp add: ran_def)
  show "pooled_inv {} (new_pooled_engine ops)"
    by (simp add: pooled_inv_def new_pooled_engine_def new_pool_wf alive_def new_pool_def [symmetric])
      (simp add: new_pool_def none)
  show "abs_engine (new_pooled_engine ops) = new_engine ops" "alive (new_pooled_engine ops) = {}"
    by (simp_all add: abs_engine_def new_pooled_engine_def new_engine_def alive_def new_pool_def)
qed

lemma pooled_cancels_sim:
  assumes "pooled_inv held f"
  shows "pooled_cancels ord f = cancels_resting ord (abs_engine f)"
proof (cases "smap_find (pe_orderByID f) (eo_orderId ord)")
  case None
  then show ?thesis by (simp add: pooled_cancels_def cancels_resting_def named_order_def)
next
  case (Some r)
  obtain l xs ys x where l: "pe_levels f (pr_priceLevel r) = Some l" "pv_orders l = xs @ pr_order r # ys" "pr_order r \<notin> set xs"
    "order_at (pr_order r) f = Some x" "eo_orderId x = eo_orderId ord" "pr_order r \<notin> held"
    "\<forall>y \<in> set (map (value_at f) xs). eo_orderId y \<noteq> eo_orderId ord"
    "en_levels (abs_engine f) (pr_priceLevel r)
       = Some \<lparr>pl_orders = map (value_at f) xs @ x # map (value_at f) ys, pl_quantity = pv_quantity l\<rparr>"
    by (rule indexed_order [OF assms Some])
  have "named_order ord (abs_engine f) = Some x"
    using find_by_id(1) [OF l(7,5)] l(8) by (simp add: named_order_def Some del: abs_engine_simps(3))
  with Some l(4) show ?thesis by (simp add: pooled_cancels_def cancels_resting_def)
qed

lemma submit_orders_strict:
  "pooled_inv {} f \<Longrightarrow> process_orders Contents_Stay ops (map requested_order qs) (abs_engine f) = Some e \<Longrightarrow>
   3 * (card (alive f) + length qs) + 10 \<le> max_block \<Longrightarrow>
   submit_orders Undefined_Reads max_block ops qs f =
     (if cancels_during ops (map requested_order qs) (abs_engine f) then None
      else submit_orders Contents_Stay max_block ops qs f)"
proof (induction qs arbitrary: f)
  case (Cons q qs)
  from Cons.prems(2) obtain e1 where e1: "processOrder Contents_Stay ops (requested_order q) (abs_engine f) = Some e1"
    "process_orders Contents_Stay ops (map requested_order qs) e1 = Some e" by (auto split: option.splits)
  have room: "3 * card (alive f) + 10 \<le> max_block" using Cons.prems(3) by simp
  obtain a f1 where f1: "pooled_createOrder max_block q f = Some (a, f1)" "simulated a (requested_order q) (abs_engine f) f1"
    "alive f1 = insert a (alive f)" by (rule pooled_createOrder_sim [OF Cons.prems(1) room])
  then have "order_at a f1 = Some (requested_order q)" "pooled_cancels (requested_order q) f1 = cancels_resting (requested_order q) (abs_engine f)"
    using pooled_cancels_sim [of "{a}" f1] by (auto simp: simulated_def)
  with f1(1) have step: "submit_order Undefined_Reads max_block ops q f =
      (if cancels_resting (requested_order q) (abs_engine f) then None else submit_order Contents_Stay max_block ops q f)"
    by (simp add: submit_order_def pooled_processOrder_strict)
  obtain f2 where "submit_order Contents_Stay max_block ops q f = Some f2" "pooled_inv {} f2" "abs_engine f2 = e1"
    "card (alive f2) \<le> card (alive f) + 1" using submit_order_sim [OF Cons.prems(1) room e1(1)] by blast
  with Cons.IH [of f2] e1 Cons.prems(3) step show ?case by simp
qed simp

text \<open>The pool's live objects are as many as the index has entries.\<close>

lemma alive_count:
  assumes "pooled_inv {} f"
  shows "card (alive f) = pooled_getOrdersCount f"
    and "length (po_available (pe_pool f)) + pooled_getOrdersCount f = po_capacity (pe_pool f)"
proof -
  note i = pooled_invD [OF assms] and w = pool_wfD [OF pooled_invD(1) [OF assms]] and v = valid_ptrs_card [OF pooled_invD(1) [OF assms]]
  let ?I = "smap_find (pe_orderByID f)"
  have "inj_on (\<lambda>k. pr_order (the (?I k))) (dom ?I)"
  proof (rule inj_onI)
    fix j k assume "j \<in> dom ?I" "k \<in> dom ?I" "pr_order (the (?I j)) = pr_order (the (?I k))"
    then obtain r s where "?I j = Some r" "?I k = Some s" "pr_order r = pr_order s" by auto
    with i(5) [of j r] i(5) [of k s] show "j = k" by auto
  qed
  moreover have "alive f = (\<lambda>k. pr_order (the (?I k))) ` dom ?I" using i(6) by (auto simp: ran_def image_def dom_def)
  ultimately have "card (alive f) = card (dom ?I)" by (simp add: card_image)
  moreover have "dom ?I = fst ` set (pe_orderByID f)" by (rule set_eqI) (simp only: domIff smap_find_None_iff not_not)
  moreover have "card (fst ` set (pe_orderByID f)) = length (pe_orderByID f)"
    using distinct_card [OF smap_wf_distinct [OF i(2)]] by simp
  ultimately show c: "card (alive f) = pooled_getOrdersCount f" by (simp add: pooled_getOrdersCount_def)
  have "card (set (po_available (pe_pool f)) \<union> alive f) = length (po_available (pe_pool f)) + card (alive f)"
    using w(7-9) v(1) by (simp add: alive_def card_Un_disjoint distinct_card) (metis card_Un_disjoint distinct_card finite_Un w(9))
  with c v(2) w(9) show "length (po_available (pe_pool f)) + pooled_getOrdersCount f = po_capacity (pe_pool f)" by (simp add: alive_def)
qed

section \<open>Properties\<close>


definition example_requests :: "order_request list" where
  "example_requests =
     [\<lparr>oq_side = BUY, oq_action = NEW, oq_price = 100, oq_quantity = 5, oq_orderId = 1\<rparr>,
      \<lparr>oq_side = SELL, oq_action = NEW, oq_price = 99, oq_quantity = 7, oq_orderId = 2\<rparr>,
      \<lparr>oq_side = SELL, oq_action = AMEND, oq_price = 101, oq_quantity = 3, oq_orderId = 2\<rparr>,
      \<lparr>oq_side = BUY, oq_action = CANCEL, oq_price = 0, oq_quantity = 0, oq_orderId = 1\<rparr>]"


end
