(* ===== verification/Alloc_Engine.thy ===== *)
theory Alloc_Engine
  imports Lower_Bound_Properties Pooled_Properties
begin

text \<open>
  The engine of \<open>MatchingEngine/MatchingEngine_OrderAsPtr_Alloc.cpp\<close>, the lower-bound engine with an
  owner list of \<open>unique_ptr\<close>s into an object pool (\<open>MatchingEngine_OrderAsPtr.cpp\<close> is the same code
  over \<open>new\<close> and \<open>delete\<close>). An order is an address of the pool \<open>ae_pool\<close> (the program's \<open>ordersPool\<close>),
  \<open>ae_nodes\<close> the pointer an owner-list node holds. The index, the level lists and the maps are those
  of \<open>Lower_Bound_Engine\<close>. A filled order leaves its level and the index and keeps its node, and so
  its memory. A node is created with a null pointer and gets the order's pointer last.
\<close>

section \<open>State\<close>

record 'm alloc_engine =
  ae_pool :: "engine_order object_pool"
  ae_orders :: "nat list"
  ae_nodes :: "nat \<Rightarrow> pool_ptr option"
  ae_nextNode :: nat
  ae_orderByID :: "(u64, store_refs) smap"
  ae_buyOrders :: 'm
  ae_sellOrders :: 'm
  ae_trades :: "engine_trade list"
  ae_lists :: "nat \<Rightarrow> nat list option"
  ae_nextList :: nat

definition new_alloc_engine :: "(order_side \<Rightarrow> 'm flat_map_ops) \<Rightarrow> 'm alloc_engine" where
  "new_alloc_engine ops =
     \<lparr>ae_pool = new_pool, ae_orders = [], ae_nodes = Map.empty, ae_nextNode = 0, ae_orderByID = [],
      ae_buyOrders = fo_new (ops BUY), ae_sellOrders = fo_new (ops SELL), ae_trades = [],
      ae_lists = Map.empty, ae_nextList = 0\<rparr>"

definition alloc_side :: "order_side \<Rightarrow> 'm alloc_engine \<Rightarrow> 'm" where
  "alloc_side s f = (case s of BUY \<Rightarrow> ae_buyOrders f | SELL \<Rightarrow> ae_sellOrders f)"

definition set_alloc_side :: "order_side \<Rightarrow> 'm \<Rightarrow> 'm alloc_engine \<Rightarrow> 'm alloc_engine" where
  "set_alloc_side s m f = (case s of BUY \<Rightarrow> f\<lparr>ae_buyOrders := m\<rparr> | SELL \<Rightarrow> f\<lparr>ae_sellOrders := m\<rparr>)"

definition alloc_order :: "pool_ptr \<Rightarrow> 'm alloc_engine \<Rightarrow> engine_order option" where
  "alloc_order p f = po_objects (ae_pool f) p"

definition alloc_write :: "pool_ptr \<Rightarrow> engine_order \<Rightarrow> 'm alloc_engine \<Rightarrow> 'm alloc_engine" where
  "alloc_write p x f = f\<lparr>ae_pool := (ae_pool f)\<lparr>po_objects := (po_objects (ae_pool f))(p \<mapsto> x)\<rparr>\<rparr>"

definition alloc_release :: "pool_ptr \<Rightarrow> 'm alloc_engine \<Rightarrow> 'm alloc_engine option" where
  "alloc_release p f = map_option (\<lambda>pool. f\<lparr>ae_pool := pool\<rparr>) (return_object p (ae_pool f))"

section \<open>Matching\<close>

fun alloc_match_orders ::
  "pool_ptr \<Rightarrow> nat list \<Rightarrow> 'm alloc_engine \<Rightarrow> (nat list \<times> 'm alloc_engine) option" where
  "alloc_match_orders a [] f = Some ([], f)"
| "alloc_match_orders a (n # rest) f =
     do {
       ord \<leftarrow> alloc_order a f;
       p \<leftarrow> ae_nodes f n;
       matchedOrder \<leftarrow> alloc_order p f;
       let f1 = f\<lparr>ae_trades := ae_trades f @ [make_trade ord matchedOrder]\<rparr>;
       if eo_quantity ord \<ge> eo_quantity matchedOrder then do {
         let f2 = alloc_write p (matchedOrder\<lparr>eo_quantity := 0\<rparr>)
                    (alloc_write a (ord\<lparr>eo_quantity := eo_quantity ord - eo_quantity matchedOrder\<rparr>) f1);
         alloc_match_orders a rest (f2\<lparr>ae_orderByID := smap_erase (eo_orderId matchedOrder) (ae_orderByID f2)\<rparr>) }
       else Some (n # rest,
              alloc_write a (ord\<lparr>eo_quantity := 0\<rparr>)
                (alloc_write p (matchedOrder\<lparr>eo_quantity := eo_quantity matchedOrder - eo_quantity ord\<rparr>) f1)) }"

definition alloc_matchOrderList :: "pool_ptr \<Rightarrow> nat \<Rightarrow> 'm alloc_engine \<Rightarrow> 'm alloc_engine option" where
  "alloc_matchOrderList a level f =
     do {
       orders \<leftarrow> ae_lists f level;
       (orders', f') \<leftarrow> alloc_match_orders a orders f;
       Some (f'\<lparr>ae_lists := (ae_lists f')(level \<mapsto> orders')\<rparr>) }"

partial_function (option) alloc_match_levels ::
  "(order_side \<Rightarrow> 'm flat_map_ops) \<Rightarrow> order_side \<Rightarrow> nat \<Rightarrow> pool_ptr \<Rightarrow> 'm alloc_engine \<Rightarrow> 'm alloc_engine option" where
  "alloc_match_levels ops opposite i a f =
     (case fo_at (ops opposite) (alloc_side opposite f) i of
        None \<Rightarrow> Some f
      | Some (_, levelPtr) \<Rightarrow>
          (case alloc_order a f of
             None \<Rightarrow> None
           | Some ord \<Rightarrow>
               if eo_quantity ord > 0
               then (case levelPtr of
                       None \<Rightarrow> None
                     | Some level \<Rightarrow>
                         (case alloc_matchOrderList a level f of
                            None \<Rightarrow> None
                          | Some f' \<Rightarrow> alloc_match_levels ops opposite (i + 1) a f'))
               else Some f))"

definition alloc_matchOrder ::
  "(order_side \<Rightarrow> 'm flat_map_ops) \<Rightarrow> (order_side \<Rightarrow> u64 \<Rightarrow> 'm \<Rightarrow> nat) \<Rightarrow> pool_ptr \<Rightarrow> 'm alloc_engine
    \<Rightarrow> (u64 \<times> 'm alloc_engine) option" where
  "alloc_matchOrder ops lb a f =
     do {
       ord \<leftarrow> alloc_order a f;
       let opposite = opposite_side (eo_side ord);
       f' \<leftarrow> alloc_match_levels ops opposite (lb opposite (eo_price ord) (alloc_side opposite f)) a f;
       ord' \<leftarrow> alloc_order a f';
       Some (eo_quantity ord', f') }"

section \<open>Handlers\<close>

definition alloc_getOrderPriceList ::
  "(order_side \<Rightarrow> 'm flat_map_ops) \<Rightarrow> order_side \<Rightarrow> u64 \<Rightarrow> 'm alloc_engine \<Rightarrow> (nat \<times> 'm alloc_engine) option" where
  "alloc_getOrderPriceList ops s price f =
     (case fo_emplace (ops s) price None (alloc_side s f) of
        (iter, inserted, m) \<Rightarrow>
          let (m1, f1) =
            (if inserted
             then (fo_assign (ops s) iter (Some (ae_nextList f)) m,
                   f\<lparr>ae_lists := (ae_lists f)(ae_nextList f \<mapsto> []), ae_nextList := ae_nextList f + 1\<rparr>)
             else (m, f))
          in (case fo_at (ops s) m1 iter of
                Some (_, Some level) \<Rightarrow> Some (level, set_alloc_side s m1 f1)
              | _ \<Rightarrow> None))"

text \<open>The handlers of an order that may be moved into the owner list also say whether it was.\<close>

definition alloc_handleOrderNew ::
  "(order_side \<Rightarrow> 'm flat_map_ops) \<Rightarrow> (order_side \<Rightarrow> u64 \<Rightarrow> 'm \<Rightarrow> nat) \<Rightarrow> pool_ptr \<Rightarrow> 'm alloc_engine
    \<Rightarrow> (bool \<times> 'm alloc_engine) option" where
  "alloc_handleOrderNew ops lb a f0 =
     do {
       (remaining, f) \<leftarrow> alloc_matchOrder ops lb a f0;
       if remaining = 0 then Some (False, f)
       else do {
         ord \<leftarrow> alloc_order a f;
         if smap_find (ae_orderByID f) (eo_orderId ord) \<noteq> None then Some (False, f)
         else do {
           let orderIter = ae_nextNode f;
           let f1 = f\<lparr>ae_orders := ae_orders f @ [orderIter], ae_nextNode := orderIter + 1\<rparr>;
           (level, f2) \<leftarrow> alloc_getOrderPriceList ops (if eo_side ord = BUY then BUY else SELL) (eo_price ord) f1;
           orders \<leftarrow> ae_lists f2 level;
           Some (True, f2\<lparr>ae_lists := (ae_lists f2)(level \<mapsto> orders @ [orderIter]),
                          ae_orderByID := smap_assign (eo_orderId ord)
                            \<lparr>sr_orderIter = orderIter, sr_levelList = level\<rparr> (ae_orderByID f2),
                          ae_nodes := (ae_nodes f2)(orderIter \<mapsto> a)\<rparr>) } } }"

definition alloc_handleOrderCancel :: "pool_ptr \<Rightarrow> 'm alloc_engine \<Rightarrow> 'm alloc_engine option" where
  "alloc_handleOrderCancel a f =
     do {
       ord \<leftarrow> alloc_order a f;
       (case smap_find (ae_orderByID f) (eo_orderId ord) of
          None \<Rightarrow> Some f
        | Some refs \<Rightarrow>
            do { orders \<leftarrow> ae_lists f (sr_levelList refs);
                 p \<leftarrow> ae_nodes f (sr_orderIter refs);
                 if sr_orderIter refs \<in> set orders \<and> sr_orderIter refs \<in> set (ae_orders f)
                 then do {
                   f1 \<leftarrow> alloc_release p
                     (f\<lparr>ae_lists := (ae_lists f)(sr_levelList refs \<mapsto> remove1 (sr_orderIter refs) orders),
                        ae_orders := remove1 (sr_orderIter refs) (ae_orders f),
                        ae_nodes := (ae_nodes f)(sr_orderIter refs := None)\<rparr>);
                   Some (f1\<lparr>ae_orderByID := smap_erase (eo_orderId ord) (ae_orderByID f1)\<rparr>) }
                 else None }) }"

definition alloc_handleOrderAmend ::
  "(order_side \<Rightarrow> 'm flat_map_ops) \<Rightarrow> (order_side \<Rightarrow> u64 \<Rightarrow> 'm \<Rightarrow> nat) \<Rightarrow> pool_ptr \<Rightarrow> 'm alloc_engine
    \<Rightarrow> (bool \<times> 'm alloc_engine) option" where
  "alloc_handleOrderAmend ops lb a f =
     do {
       ord \<leftarrow> alloc_order a f;
       (case smap_find (ae_orderByID f) (eo_orderId ord) of
          None \<Rightarrow> Some (False, f)
        | Some refs \<Rightarrow>
            do { p \<leftarrow> ae_nodes f (sr_orderIter refs);
                 orderOriginal \<leftarrow> alloc_order p f;
                 if eo_side orderOriginal \<noteq> eo_side ord then Some (False, f)
                 else if eo_price orderOriginal \<noteq> eo_price ord
                 then do { f1 \<leftarrow> alloc_handleOrderCancel a f; alloc_handleOrderNew ops lb a f1 }
                 else Some (False, alloc_write p (orderOriginal\<lparr>eo_quantity := eo_quantity ord\<rparr>) f) }) }"

definition alloc_processOrder ::
  "(order_side \<Rightarrow> 'm flat_map_ops) \<Rightarrow> (order_side \<Rightarrow> u64 \<Rightarrow> 'm \<Rightarrow> nat) \<Rightarrow> pool_ptr \<Rightarrow> 'm alloc_engine
    \<Rightarrow> (bool \<times> 'm alloc_engine) option" where
  "alloc_processOrder ops lb a f =
     do {
       ord \<leftarrow> alloc_order a f;
       (case eo_action ord of
          NEW \<Rightarrow> alloc_handleOrderNew ops lb a f
        | CANCEL \<Rightarrow> map_option (Pair False) (alloc_handleOrderCancel a f)
        | AMEND \<Rightarrow> alloc_handleOrderAmend ops lb a f
        | _ \<Rightarrow> Some (False, f)) }"

text \<open>
  A caller: a pointer from the pool, the order filled in through it and handed over; a pointer that
  was not moved from is destroyed at the end of the block.
\<close>

definition alloc_submit ::
  "nat \<Rightarrow> (order_side \<Rightarrow> 'm flat_map_ops) \<Rightarrow> (order_side \<Rightarrow> u64 \<Rightarrow> 'm \<Rightarrow> nat) \<Rightarrow> engine_order \<Rightarrow> 'm alloc_engine
    \<Rightarrow> 'm alloc_engine option" where
  "alloc_submit max_block ops lb x f =
     do {
       (a, pool) \<leftarrow> acquireObject max_block default_order (ae_pool f);
       (moved, f2) \<leftarrow> alloc_processOrder ops lb a (alloc_write a x (f\<lparr>ae_pool := pool\<rparr>));
       if moved then Some f2 else alloc_release a f2 }"

fun alloc_submit_all ::
  "nat \<Rightarrow> (order_side \<Rightarrow> 'm flat_map_ops) \<Rightarrow> (order_side \<Rightarrow> u64 \<Rightarrow> 'm \<Rightarrow> nat) \<Rightarrow> engine_order list \<Rightarrow> 'm alloc_engine
    \<Rightarrow> 'm alloc_engine option" where
  "alloc_submit_all max_block ops lb [] f = Some f"
| "alloc_submit_all max_block ops lb (x # xs) f =
     do { f1 \<leftarrow> alloc_submit max_block ops lb x f; alloc_submit_all max_block ops lb xs f1 }"

section \<open>What the state stands for\<close>

text \<open>The nodes with the orders they point to are those of \<open>Lower_Bound_Engine\<close>.\<close>

definition ae_abs :: "'m alloc_engine \<Rightarrow> 'm store_engine" where
  "ae_abs f =
     \<lparr>se_orders = ae_orders f, se_nodes = (\<lambda>n. Option.bind (ae_nodes f n) (po_objects (ae_pool f))),
      se_nextNode = ae_nextNode f, se_orderByID = ae_orderByID f, se_bids = ae_buyOrders f,
      se_asks = ae_sellOrders f, se_trades = ae_trades f, se_lists = ae_lists f, se_nextList = ae_nextList f\<rparr>"

text \<open>The pool's live memory is the owner list's orders and the pointers \<open>held\<close> by the caller, each once.\<close>

definition ae_inv :: "pool_ptr set \<Rightarrow> 'm alloc_engine \<Rightarrow> bool" where
  "ae_inv held f \<longleftrightarrow>
     pool_wf (ae_pool f) \<and> distinct (ae_orders f) \<and> set (ae_orders f) = dom (ae_nodes f)
   \<and> (\<forall>n. ae_nodes f n \<noteq> None \<longrightarrow> n < ae_nextNode f)
   \<and> (\<forall>m n p. ae_nodes f m = Some p \<longrightarrow> ae_nodes f n = Some p \<longrightarrow> m = n)
   \<and> ran (ae_nodes f) \<inter> held = {} \<and> dom (po_objects (ae_pool f)) = ran (ae_nodes f) \<union> held"

lemma ae_invD:
  assumes "ae_inv held f"
  shows "pool_wf (ae_pool f)" "distinct (ae_orders f)" "set (ae_orders f) = dom (ae_nodes f)"
    "ae_nodes f n \<noteq> None \<Longrightarrow> n < ae_nextNode f"
    "ae_nodes f m = Some p \<Longrightarrow> ae_nodes f n = Some p \<Longrightarrow> m = n"
    "ran (ae_nodes f) \<inter> held = {}" "dom (po_objects (ae_pool f)) = ran (ae_nodes f) \<union> held"
  using assms unfolding ae_inv_def by blast+

lemma ae_invI:
  assumes "pool_wf (ae_pool f)" "distinct (ae_orders f)" "set (ae_orders f) = dom (ae_nodes f)"
    "\<And>n. ae_nodes f n \<noteq> None \<Longrightarrow> n < ae_nextNode f"
    "\<And>m n p. ae_nodes f m = Some p \<Longrightarrow> ae_nodes f n = Some p \<Longrightarrow> m = n"
    "ran (ae_nodes f) \<inter> held = {}" "dom (po_objects (ae_pool f)) = ran (ae_nodes f) \<union> held"
  shows "ae_inv held f"
  using assms unfolding ae_inv_def by blast

lemma ae_abs_simps [simp]:
  "se_orders (ae_abs f) = ae_orders f" "se_nodes (ae_abs f) n = Option.bind (ae_nodes f n) (po_objects (ae_pool f))"
  "se_nextNode (ae_abs f) = ae_nextNode f" "se_orderByID (ae_abs f) = ae_orderByID f" "se_trades (ae_abs f) = ae_trades f"
  "se_lists (ae_abs f) = ae_lists f" "se_nextList (ae_abs f) = ae_nextList f" "store_side s (ae_abs f) = alloc_side s f"
  by (cases s; simp add: ae_abs_def store_side_def alloc_side_def)+

lemma set_alloc_side_frame [simp]:
  "ae_pool (set_alloc_side s m f) = ae_pool f" "ae_nodes (set_alloc_side s m f) = ae_nodes f"
  "ae_orders (set_alloc_side s m f) = ae_orders f" "ae_nextNode (set_alloc_side s m f) = ae_nextNode f"
  "ae_orderByID (set_alloc_side s m f) = ae_orderByID f" "ae_lists (set_alloc_side s m f) = ae_lists f"
  "ae_trades (set_alloc_side s m f) = ae_trades f" "ae_nextList (set_alloc_side s m f) = ae_nextList f"
  by (cases s; simp add: set_alloc_side_def)+

lemma ae_abs_set_side [simp]: "ae_abs (set_alloc_side s m f) = set_store_side s m (ae_abs f)"
  by (cases s) (simp_all add: ae_abs_def set_alloc_side_def set_store_side_def)

lemma alloc_write_frame [simp]:
  "ae_nodes (alloc_write p x f) = ae_nodes f" "ae_orders (alloc_write p x f) = ae_orders f"
  "ae_nextNode (alloc_write p x f) = ae_nextNode f" "ae_orderByID (alloc_write p x f) = ae_orderByID f"
  "ae_lists (alloc_write p x f) = ae_lists f" "ae_trades (alloc_write p x f) = ae_trades f"
  "alloc_order q (alloc_write p x f) = (if q = p then Some x else alloc_order q f)"
  "alloc_side s (alloc_write p x f) = alloc_side s f"
  by (cases s; simp add: alloc_write_def alloc_order_def alloc_side_def)+

lemma ae_inv_frame [simp]:
  "ae_inv h (f\<lparr>ae_trades := ts\<rparr>) = ae_inv h f" "ae_inv h (f\<lparr>ae_orderByID := ix\<rparr>) = ae_inv h f"
  "ae_inv h (f\<lparr>ae_lists := ls\<rparr>) = ae_inv h f" "ae_inv h (f\<lparr>ae_nextList := k\<rparr>) = ae_inv h f"
  "ae_inv h (set_alloc_side s m f) = ae_inv h f"
  by (simp_all add: ae_inv_def)

lemma alloc_order_frame [simp]:
  "alloc_order p (f\<lparr>ae_trades := ts\<rparr>) = alloc_order p f" "alloc_order p (f\<lparr>ae_orderByID := ix\<rparr>) = alloc_order p f"
  "alloc_order p (f\<lparr>ae_lists := ls\<rparr>) = alloc_order p f" "alloc_order p (f\<lparr>ae_nextList := k\<rparr>) = alloc_order p f"
  "alloc_order p (f\<lparr>ae_nodes := ns\<rparr>) = alloc_order p f" "alloc_order p (f\<lparr>ae_orders := os\<rparr>) = alloc_order p f"
  "alloc_order p (f\<lparr>ae_nextNode := k\<rparr>) = alloc_order p f" "alloc_order p (set_alloc_side s m f) = alloc_order p f"
  by (simp_all add: alloc_order_def)

end
