(* ===== verification/Alloc_Properties.thy ===== *)
theory Alloc_Properties
  imports Alloc_Engine
begin

text \<open>
  The engine over the pool does what the lower-bound engine does with the orders its nodes point to
  (\<open>alloc_sim\<close>, step by step), so it computes the same book and trades; and its memory is that of the
  owner list: a filled order is never given back.
\<close>

section \<open>Matching\<close>

definition alloc_sim :: "pool_ptr \<Rightarrow> engine_order \<Rightarrow> 'm store_engine \<Rightarrow> 'm alloc_engine \<Rightarrow> bool" where
  "alloc_sim a ord e f \<longleftrightarrow> ae_inv {a} f \<and> ae_abs f = e \<and> alloc_order a f = Some ord"

lemma alloc_simD:
  assumes "alloc_sim a ord e f"
  shows "ae_inv {a} f" "ae_abs f = e" "alloc_order a f = Some ord"
  using assms by (simp_all add: alloc_sim_def)

lemma alloc_write_inv:
  assumes "ae_inv h f" "alloc_order p f \<noteq> None"
  shows "ae_inv h (alloc_write p x f)"
proof -
  note i = ae_invD [OF assms(1)]
  have live: "po_objects (ae_pool f) p \<noteq> None" using assms(2) by (simp add: alloc_order_def)
  show ?thesis
  proof (rule ae_invI)
    show "pool_wf (ae_pool (alloc_write p x f))" using pool_wf_write [OF i(1) live] by (simp add: alloc_write_def)
    have "dom ((po_objects (ae_pool f))(p \<mapsto> x)) = dom (po_objects (ae_pool f))" using live by auto
    with i(7) show "dom (po_objects (ae_pool (alloc_write p x f))) = ran (ae_nodes (alloc_write p x f)) \<union> h"
      by (simp add: alloc_write_def)
    fix n assume "ae_nodes (alloc_write p x f) n \<noteq> None"
    with i(4) [of n] show "n < ae_nextNode (alloc_write p x f)" by simp
  next
    fix m n q assume "ae_nodes (alloc_write p x f) m = Some q" "ae_nodes (alloc_write p x f) n = Some q"
    with i(5) [of m q n] show "m = n" by simp
  qed (use i(2,3,6) in simp_all)
qed

text \<open>Writing to the caller's order changes no node; writing to a node's order changes that node.\<close>

lemma write_caller:
  assumes "ae_inv {a} f"
  shows "ae_abs (alloc_write a x f) = ae_abs f"
proof -
  have "ae_nodes f n \<noteq> Some a" for n using ae_invD(6) [OF assms] by (auto simp: ran_def)
  then have "Option.bind (ae_nodes f n) ((po_objects (ae_pool f))(a \<mapsto> x)) = Option.bind (ae_nodes f n) (po_objects (ae_pool f))" for n
    by (cases "ae_nodes f n") auto
  then show ?thesis by (simp add: ae_abs_def alloc_write_def)
qed

lemma write_node:
  assumes "ae_inv h f" "ae_nodes f n = Some p"
  shows "ae_abs (alloc_write p x f) = (ae_abs f)\<lparr>se_nodes := (se_nodes (ae_abs f))(n \<mapsto> x)\<rparr>"
proof -
  have "Option.bind (ae_nodes f m) ((po_objects (ae_pool f))(p \<mapsto> x))
      = ((\<lambda>n. Option.bind (ae_nodes f n) (po_objects (ae_pool f)))(n \<mapsto> x)) m" for m
    using assms(2) ae_invD(5) [OF assms(1), of m p n] by (cases "ae_nodes f m") auto
  then show ?thesis by (simp add: ae_abs_def alloc_write_def fun_eq_iff)
qed

lemma node_not_held: "ae_inv {a} f \<Longrightarrow> ae_nodes f n = Some p \<Longrightarrow> p \<noteq> a"
  using ae_invD(6) [of "{a}" f] by (auto simp: ran_def)

lemma ae_abs_frame [simp]:
  "ae_abs (f\<lparr>ae_trades := ts\<rparr>) = (ae_abs f)\<lparr>se_trades := ts\<rparr>" "ae_abs (f\<lparr>ae_orderByID := ix\<rparr>) = (ae_abs f)\<lparr>se_orderByID := ix\<rparr>"
  "ae_abs (f\<lparr>ae_lists := ls\<rparr>) = (ae_abs f)\<lparr>se_lists := ls\<rparr>" "ae_abs (f\<lparr>ae_nextList := k\<rparr>) = (ae_abs f)\<lparr>se_nextList := k\<rparr>"
  by (simp_all add: ae_abs_def)

lemma alloc_match_orders_sim:
  "store_match_orders ord xs e = Some (ord', ys, e') \<Longrightarrow> alloc_sim a ord e f \<Longrightarrow>
   \<exists>f'. alloc_match_orders a xs f = Some (ys, f') \<and> alloc_sim a ord' e' f' \<and> ae_nodes f' = ae_nodes f"
proof (induction ord xs e arbitrary: f rule: store_match_orders.induct)
  case (1 ord e)
  then show ?case by auto
next
  case (2 ord n rest e)
  note s = alloc_simD [OF 2(3)]
  from 2(2) obtain x where x: "se_nodes e n = Some x" by (auto split: option.splits)
  then obtain p where p: "ae_nodes f n = Some p" "alloc_order p f = Some x"
    unfolding s(2) [symmetric] by (auto simp: alloc_order_def bind_eq_Some_conv)
  have pa: "p \<noteq> a" by (rule node_not_held [OF s(1) p(1)])
  let ?f1 = "f\<lparr>ae_trades := ae_trades f @ [make_trade ord x]\<rparr>"
  let ?e1 = "e\<lparr>se_trades := se_trades e @ [make_trade ord x]\<rparr>"
  have i1: "ae_inv {a} ?f1" "ae_abs ?f1 = ?e1" using s by auto
  show ?case
  proof (cases "eo_quantity ord \<ge> eo_quantity x")
    case True
    let ?o = "ord\<lparr>eo_quantity := eo_quantity ord - eo_quantity x\<rparr>"
    let ?fa = "alloc_write a ?o ?f1"
    let ?f2 = "alloc_write p (x\<lparr>eo_quantity := 0\<rparr>) ?fa"
    let ?f3 = "?f2\<lparr>ae_orderByID := smap_erase (eo_orderId x) (ae_orderByID ?f2)\<rparr>"
    let ?e2 = "?e1\<lparr>se_nodes := (se_nodes ?e1)(n \<mapsto> x\<lparr>eo_quantity := 0\<rparr>),
                   se_orderByID := smap_erase (eo_orderId x) (se_orderByID ?e1)\<rparr>"
    have ia: "ae_inv {a} ?fa" "ae_abs ?fa = ?e1"
      using alloc_write_inv [OF i1(1), of a] write_caller [OF i1(1)] i1(2) s(3) by simp_all
    have i2: "ae_inv {a} ?f2" by (rule alloc_write_inv [OF ia(1)]) (use p(2) in simp)
    have "ae_abs ?f2 = ?e1\<lparr>se_nodes := (se_nodes ?e1)(n \<mapsto> x\<lparr>eo_quantity := 0\<rparr>)\<rparr>"
      using write_node [OF ia(1), of n p] p(1) ia(2) by simp
    then have "ae_abs ?f3 = ?e2" by (simp, use s(2) in auto)
    with i2 have sim: "alloc_sim a ?o ?e2 ?f3" using pa by (simp add: alloc_sim_def)
    have run: "store_match_orders ?o rest ?e2 = Some (ord', ys, e')" using 2(2) x True by (simp add: Let_def)
    from 2(1) [OF x refl True run sim] obtain f' where "alloc_match_orders a rest ?f3 = Some (ys, f')"
      "alloc_sim a ord' e' f'" "ae_nodes f' = ae_nodes f" by auto
    moreover have "alloc_match_orders a (n # rest) f = alloc_match_orders a rest ?f3"
      using s(3) p True by (simp add: Let_def)
    ultimately show ?thesis by simp
  next
    case False
    let ?fp = "alloc_write p (x\<lparr>eo_quantity := eo_quantity x - eo_quantity ord\<rparr>) ?f1"
    let ?fa = "alloc_write a (ord\<lparr>eo_quantity := 0\<rparr>) ?fp"
    have ip: "ae_inv {a} ?fp" by (rule alloc_write_inv [OF i1(1)]) (use p(2) in simp)
    have ia: "ae_inv {a} ?fa" by (rule alloc_write_inv [OF ip]) (use s(3) in simp)
    have "ae_abs ?fa = ?e1\<lparr>se_nodes := (se_nodes ?e1)(n \<mapsto> x\<lparr>eo_quantity := eo_quantity x - eo_quantity ord\<rparr>)\<rparr>"
      using write_caller [OF ip] write_node [OF i1(1), of n p] p(1) i1(2) s(2) by simp
    with ia have "alloc_sim a ord' e' ?fa" using 2(2) x False by (auto simp: alloc_sim_def Let_def)
    moreover have "alloc_match_orders a (n # rest) f = Some (ys, ?fa)"
      using s(3) p False 2(2) x by (auto simp: Let_def)
    ultimately show ?thesis by simp
  qed
qed

lemma alloc_matchOrderList_sim:
  assumes run: "lb_match_list ord level e = Some (ord', e')" and sim: "alloc_sim a ord e f"
  shows "\<exists>f'. alloc_matchOrderList a level f = Some f' \<and> alloc_sim a ord' e' f' \<and> ae_nodes f' = ae_nodes f"
proof -
  note s = alloc_simD [OF sim]
  from run obtain xs ys e1 where r: "se_lists e level = Some xs" "store_match_orders ord xs e = Some (ord', ys, e1)"
    "e' = e1\<lparr>se_lists := (se_lists e1)(level \<mapsto> ys)\<rparr>" by (auto simp: lb_match_list_def bind_eq_Some_conv)
  from alloc_match_orders_sim [OF r(2) sim] obtain f1 where f1: "alloc_match_orders a xs f = Some (ys, f1)" "alloc_sim a ord' e1 f1"
    "ae_nodes f1 = ae_nodes f" by blast
  note s1 = alloc_simD [OF f1(2)]
  have "alloc_matchOrderList a level f = Some (f1\<lparr>ae_lists := (ae_lists f1)(level \<mapsto> ys)\<rparr>)"
    using r(1) s(2) f1(1) by (auto simp: alloc_matchOrderList_def)
  moreover have "alloc_sim a ord' e' (f1\<lparr>ae_lists := (ae_lists f1)(level \<mapsto> ys)\<rparr>)"
    using s1 r(3) by (auto simp: alloc_sim_def)
  ultimately show ?thesis using f1(3) by auto
qed

lemma alloc_match_levels_sim:
  assumes "lb_match_levels ops opposite i ord e = Some (ord', e')" "alloc_sim a ord e f"
  shows "\<exists>f'. alloc_match_levels ops opposite i a f = Some f' \<and> alloc_sim a ord' e' f' \<and> ae_nodes f' = ae_nodes f"
proof -
  have "\<forall>f. alloc_sim a ord e f \<longrightarrow> (\<exists>f'. alloc_match_levels ops opposite i a f = Some f'
      \<and> alloc_sim a (fst (ord', e')) (snd (ord', e')) f' \<and> ae_nodes f' = ae_nodes f)"
  proof (rule lb_match_levels.raw_induct [where P = "\<lambda>ops opposite i ord e r. \<forall>f. alloc_sim a ord e f \<longrightarrow>
      (\<exists>f'. alloc_match_levels ops opposite i a f = Some f' \<and> alloc_sim a (fst r) (snd r) f'
        \<and> ae_nodes f' = ae_nodes f)", OF _ assms(1)],
      intro allI impI)
    fix rec ops opposite i ord e r f
    assume IH: "\<And>ops opposite i ord e r. rec ops opposite i ord e = Some r \<Longrightarrow>
        \<forall>f. alloc_sim a ord e f \<longrightarrow> (\<exists>f'. alloc_match_levels ops opposite i a f = Some f' \<and> alloc_sim a (fst r) (snd r) f'
          \<and> ae_nodes f' = ae_nodes f)"
      and run: "(case fo_at (ops opposite) (store_side opposite e) i of None \<Rightarrow> Some (ord, e)
        | Some (_, levelPtr) \<Rightarrow> if eo_quantity ord > 0
            then (case levelPtr of None \<Rightarrow> None | Some level \<Rightarrow>
              (case lb_match_list ord level e of None \<Rightarrow> None | Some (ord', e') \<Rightarrow> rec ops opposite (i + 1) ord' e'))
            else Some (ord, e)) = Some r" and sim: "alloc_sim a ord e f"
    note s = alloc_simD [OF sim]
    have side: "alloc_side opposite f = store_side opposite e" by (simp add: s(2) [symmetric])
    show "\<exists>f'. alloc_match_levels ops opposite i a f = Some f' \<and> alloc_sim a (fst r) (snd r) f' \<and> ae_nodes f' = ae_nodes f"
    proof (cases "fo_at (ops opposite) (store_side opposite e) i")
      case None
      with run sim show ?thesis by (subst alloc_match_levels.simps) (auto simp: side)
    next
      case (Some entry)
      obtain p v where pv: "entry = (p, v)" by fastforce
      show ?thesis
      proof (cases "eo_quantity ord > 0")
        case False
        with run sim Some pv s(3) show ?thesis by (subst alloc_match_levels.simps) (auto simp: side)
      next
        case True
        with run Some pv obtain level o1 e1 where l: "v = Some level" "lb_match_list ord level e = Some (o1, e1)"
          "rec ops opposite (i + 1) o1 e1 = Some r" by (auto split: option.splits)
        from alloc_matchOrderList_sim [OF l(2) sim] obtain f1 where f1: "alloc_matchOrderList a level f = Some f1"
          "alloc_sim a o1 e1 f1" "ae_nodes f1 = ae_nodes f" by blast
        from IH [OF l(3)] f1(2) obtain f' where "alloc_match_levels ops opposite (i + 1) a f1 = Some f'"
          "alloc_sim a (fst r) (snd r) f'" "ae_nodes f' = ae_nodes f1" by blast
        with True Some pv s(3) l(1) f1(1,3) show ?thesis by (subst alloc_match_levels.simps) (auto simp: side)
      qed
    qed
  qed
  with assms(2) show ?thesis by simp
qed

lemma alloc_matchOrder_sim:
  assumes run: "lb_matchOrder ops lb ord e = Some (q, ord', e')" and sim: "alloc_sim a ord e f"
  shows "\<exists>f'. alloc_matchOrder ops lb a f = Some (q, f') \<and> alloc_sim a ord' e' f' \<and> ae_nodes f' = ae_nodes f"
proof -
  note s = alloc_simD [OF sim]
  let ?o = "opposite_side (eo_side ord)"
  have side: "alloc_side ?o f = store_side ?o e" by (simp add: s(2) [symmetric])
  from run have r: "lb_match_levels ops ?o (lb ?o (eo_price ord) (store_side ?o e)) ord e = Some (ord', e')" "eo_quantity ord' = q"
    by (auto simp: lb_matchOrder_def Let_def split: option.splits)
  from alloc_match_levels_sim [OF r(1) sim] obtain f' where f': "alloc_match_levels ops ?o (lb ?o (eo_price ord) (store_side ?o e)) a f = Some f'"
    "alloc_sim a ord' e' f'" "ae_nodes f' = ae_nodes f" by blast
  with s(3) r(2) alloc_simD(3) [OF f'(2)] show ?thesis by (simp add: alloc_matchOrder_def Let_def side)
qed

section \<open>Handlers\<close>

lemma alloc_getOrderPriceList_sim:
  assumes "store_getOrderPriceList ops s p (ae_abs f) = Some (l, e2)"
  shows "\<exists>f2. alloc_getOrderPriceList ops s p f = Some (l, f2) \<and> ae_abs f2 = e2 \<and> ae_nodes f2 = ae_nodes f
    \<and> (\<forall>h. ae_inv h f2 = ae_inv h f) \<and> (\<forall>q. alloc_order q f2 = alloc_order q f) \<and> ae_orders f2 = ae_orders f"
proof -
  obtain iter inserted m where m: "fo_emplace (ops s) p None (alloc_side s f) = (iter, inserted, m)" by (metis prod_cases3)
  with assms show ?thesis
    by (cases inserted) (auto simp: store_getOrderPriceList_def alloc_getOrderPriceList_def Let_def split: option.splits)
qed

lemma alloc_getOrderPriceList_nodes:
  "alloc_getOrderPriceList ops s p (f\<lparr>ae_nodes := ns\<rparr>)
     = map_option (\<lambda>(l, f2). (l, f2\<lparr>ae_nodes := ns\<rparr>)) (alloc_getOrderPriceList ops s p f)"
  by (cases s) (simp_all add: alloc_getOrderPriceList_def Let_def alloc_side_def set_alloc_side_def split: option.splits prod.splits)

text \<open>
  How a handler ends: the owner list has taken the order over (\<open>moved\<close>) or the caller still holds it,
  and no memory was taken from the pool.
\<close>

definition alloc_ended :: "pool_ptr \<Rightarrow> 'm store_engine \<Rightarrow> 'm alloc_engine \<Rightarrow> bool \<times> 'm alloc_engine \<Rightarrow> bool" where
  "alloc_ended a e' f r \<longleftrightarrow> ae_inv (if fst r then {} else {a}) (snd r) \<and> ae_abs (snd r) = e'
     \<and> dom (po_objects (ae_pool (snd r))) \<subseteq> dom (po_objects (ae_pool f))"

lemma live_nodes: "ae_inv h f \<Longrightarrow> dom (po_objects (ae_pool f)) = ran (ae_nodes f) \<union> h"
  by (rule ae_invD(7))

text \<open>The new node takes the caller's order over.\<close>

lemma take_over:
  assumes sim: "alloc_sim a ord e f"
  defines "F \<equiv> f\<lparr>ae_orders := ae_orders f @ [ae_nextNode f], ae_nextNode := ae_nextNode f + 1,
    ae_nodes := (ae_nodes f)(ae_nextNode f \<mapsto> a)\<rparr>"
  shows "ae_inv {} F" "ae_abs F = e\<lparr>se_orders := se_orders e @ [se_nextNode e], se_nextNode := se_nextNode e + 1,
    se_nodes := (se_nodes e)(se_nextNode e \<mapsto> ord)\<rparr>"
proof -
  note s = alloc_simD [OF sim] and i = ae_invD [OF alloc_simD(1) [OF sim]]
  have new: "ae_nodes f (ae_nextNode f) = None" using i(4) [of "ae_nextNode f"] by blast
  have ran: "ran (ae_nodes F) = insert a (ran (ae_nodes f))" using new by (simp add: F_def)
  have other: "ae_nodes f n \<noteq> Some a" for n using i(6) by (auto simp: ran_def)
  show "ae_inv {} F"
  proof (rule ae_invI)
    show "distinct (ae_orders F)" using i(2,3) new by (auto simp: F_def)
    show "set (ae_orders F) = dom (ae_nodes F)" using i(3) by (simp add: F_def)
    show "dom (po_objects (ae_pool F)) = ran (ae_nodes F) \<union> {}" using i(7) ran by (simp add: F_def)
    show "pool_wf (ae_pool F)" using i(1) by (simp add: F_def)
    fix m n p
    show "ae_nodes F n \<noteq> None \<Longrightarrow> n < ae_nextNode F" using i(4) [of n] by (auto simp: F_def split: if_splits)
    show "ae_nodes F m = Some p \<Longrightarrow> ae_nodes F n = Some p \<Longrightarrow> m = n"
      using i(5) [of m p n] other by (auto simp: F_def split: if_splits)
  qed simp
  show "ae_abs F = e\<lparr>se_orders := se_orders e @ [se_nextNode e], se_nextNode := se_nextNode e + 1,
      se_nodes := (se_nodes e)(se_nextNode e \<mapsto> ord)\<rparr>"
    using s(2,3) new by (auto simp: F_def ae_abs_def alloc_order_def fun_eq_iff)
qed

lemma alloc_handleOrderNew_sim:
  assumes run: "lb_handleOrderNew ops lb ord e = Some e'" and sim: "alloc_sim a ord e f"
  shows "\<exists>r. alloc_handleOrderNew ops lb a f = Some r \<and> alloc_ended a e' f r \<and> ae_nodes f \<subseteq>\<^sub>m ae_nodes (snd r)"
proof -
  from run obtain q o1 e1 where m: "lb_matchOrder ops lb ord e = Some (q, o1, e1)"
    by (auto simp: lb_handleOrderNew_def bind_eq_Some_conv)
  from alloc_matchOrder_sim [OF m sim] obtain f1 where f1: "alloc_matchOrder ops lb a f = Some (q, f1)"
    "alloc_sim a o1 e1 f1" "ae_nodes f1 = ae_nodes f" by blast
  note s = alloc_simD [OF f1(2)]
  have live: "dom (po_objects (ae_pool f1)) = dom (po_objects (ae_pool f))"
    using live_nodes [OF s(1)] live_nodes [OF alloc_simD(1) [OF sim]] f1(3) by simp
  show ?thesis
  proof (cases "q = 0 \<or> smap_find (se_orderByID e1) (eo_orderId o1) \<noteq> None")
    case True
    then have "e' = e1" using run m by (auto simp: lb_handleOrderNew_def split: if_splits)
    moreover have "alloc_handleOrderNew ops lb a f = Some (False, f1)"
      using True f1(1) s(2,3) by (auto simp: alloc_handleOrderNew_def)
    ultimately show ?thesis using s live f1(3) by (auto simp: alloc_ended_def)
  next
    case False
    let ?s = "if eo_side o1 = BUY then BUY else SELL"
    let ?n = "ae_nextNode f1"
    let ?G = "f1\<lparr>ae_orders := ae_orders f1 @ [?n], ae_nextNode := ?n + 1\<rparr>"
    let ?F = "?G\<lparr>ae_nodes := (ae_nodes f1)(?n \<mapsto> a)\<rparr>"
    note t = take_over [OF f1(2)]
    from False run m s(2) obtain level e2 orders where g: "store_getOrderPriceList ops ?s (eo_price o1) (ae_abs ?F) = Some (level, e2)"
      "se_lists e2 level = Some orders" "e' = e2\<lparr>se_lists := (se_lists e2)(level \<mapsto> orders @ [?n]),
         se_orderByID := smap_assign (eo_orderId o1) \<lparr>sr_orderIter = ?n, sr_levelList = level\<rparr> (se_orderByID e2)\<rparr>"
      unfolding t(2) by (auto simp: lb_handleOrderNew_def Let_def bind_eq_Some_conv)
    from alloc_getOrderPriceList_sim [OF g(1)] obtain F2 where F2: "alloc_getOrderPriceList ops ?s (eo_price o1) ?F = Some (level, F2)"
      "ae_abs F2 = e2" "ae_nodes F2 = ae_nodes ?F" "\<And>h. ae_inv h F2 = ae_inv h ?F" "\<And>q. alloc_order q F2 = alloc_order q ?F" by blast
    from F2(1) obtain G2 where G2: "alloc_getOrderPriceList ops ?s (eo_price o1) ?G = Some (level, G2)"
      "F2 = G2\<lparr>ae_nodes := (ae_nodes f1)(?n \<mapsto> a)\<rparr>" unfolding alloc_getOrderPriceList_nodes by auto
    have kept: "ae_nodes G2 = ae_nodes f1"
      using G2(1) by (auto simp: alloc_getOrderPriceList_def Let_def split: option.splits prod.splits if_splits)
    let ?R = "G2\<lparr>ae_lists := (ae_lists G2)(level \<mapsto> orders @ [?n]),
        ae_orderByID := smap_assign (eo_orderId o1) \<lparr>sr_orderIter = ?n, sr_levelList = level\<rparr> (ae_orderByID G2),
        ae_nodes := (ae_nodes G2)(?n \<mapsto> a)\<rparr>"
    have R: "?R = F2\<lparr>ae_lists := (ae_lists F2)(level \<mapsto> orders @ [?n]),
        ae_orderByID := smap_assign (eo_orderId o1) \<lparr>sr_orderIter = ?n, sr_levelList = level\<rparr> (ae_orderByID F2)\<rparr>"
      unfolding G2(2) by (simp add: kept)
    have lists: "ae_lists G2 level = Some orders" using g(2) F2(2) G2(2) by auto
    have "alloc_handleOrderNew ops lb a f = Some (True, ?R)"
      using False f1(1) s(2,3) G2(1) lists by (auto simp: alloc_handleOrderNew_def Let_def)
    moreover have "alloc_ended a e' f (True, ?R)"
    proof -
      have "ae_inv {} ?R" unfolding R using t(1) F2(4) by simp
      moreover have "ae_abs ?R = e'" unfolding R using F2(2) g(3) by auto
      moreover have "dom (po_objects (ae_pool ?R)) = dom (po_objects (ae_pool f1))"
        using live_nodes [OF \<open>ae_inv {} ?R\<close>] live_nodes [OF t(1)] F2(3) unfolding R by simp
      ultimately show ?thesis using live by (simp add: alloc_ended_def)
    qed
    moreover have "ae_nodes f \<subseteq>\<^sub>m ae_nodes ?R"
      using ae_invD(4) [OF s(1), of ?n] f1(3) kept by (auto simp: map_le_def dom_def)
    ultimately show ?thesis by auto
  qed
qed

text \<open>A node destroyed with its order, and the caller's pointer destroyed.\<close>

lemma release_node:
  assumes inv: "ae_inv h f" and p: "ae_nodes f n = Some p"
  shows "\<exists>pool. return_object p (ae_pool f) = Some pool \<and> po_objects pool = (po_objects (ae_pool f))(p := None)
    \<and> ae_inv h (f\<lparr>ae_orders := remove1 n (ae_orders f), ae_nodes := (ae_nodes f)(n := None), ae_pool := pool\<rparr>)
    \<and> ae_abs (f\<lparr>ae_orders := remove1 n (ae_orders f), ae_nodes := (ae_nodes f)(n := None), ae_pool := pool\<rparr>)
      = (ae_abs f)\<lparr>se_orders := remove1 n (ae_orders f), se_nodes := (se_nodes (ae_abs f))(n := None)\<rparr>"
proof -
  note i = ae_invD [OF inv]
  have live: "po_objects (ae_pool f) p \<noteq> None" using p i(7) by (metis UnI1 domIff ranI)
  then obtain pool where pool: "return_object p (ae_pool f) = Some pool" by (simp add: return_object_def)
  note w = return_object_wf [OF i(1) pool]
  let ?F = "f\<lparr>ae_orders := remove1 n (ae_orders f), ae_nodes := (ae_nodes f)(n := None), ae_pool := pool\<rparr>"
  have only: "ae_nodes f m = Some p \<Longrightarrow> m = n" for m using i(5) p by blast
  have free: "p \<notin> h" using i(6) ranI [of "ae_nodes f", OF p] by blast
  have ran: "ran ((ae_nodes f)(n := None)) = ran (ae_nodes f) - {p}"
  proof (rule set_eqI, rule iffI)
    fix q assume "q \<in> ran ((ae_nodes f)(n := None))"
    then obtain k where "k \<noteq> n" "ae_nodes f k = Some q" by (auto simp: ran_def split: if_splits)
    then show "q \<in> ran (ae_nodes f) - {p}" using only [of k] by (auto intro: ranI)
  next
    fix q assume "q \<in> ran (ae_nodes f) - {p}"
    then obtain k where "ae_nodes f k = Some q" "q \<noteq> p" by (auto simp: ran_def)
    then show "q \<in> ran ((ae_nodes f)(n := None))" using p by (intro ranI [of _ k]) auto
  qed
  have "ae_inv h ?F"
  proof (rule ae_invI)
    show "pool_wf (ae_pool ?F)" using w(1) by simp
    show "distinct (ae_orders ?F)" using i(2) by simp
    show "set (ae_orders ?F) = dom (ae_nodes ?F)" using i(2,3) by auto
    show "ran (ae_nodes ?F) \<inter> h = {}" using i(6) ran by auto
    show "dom (po_objects (ae_pool ?F)) = ran (ae_nodes ?F) \<union> h" using i(7) w(2) ran free by auto
    fix m k q
    show "ae_nodes ?F m \<noteq> None \<Longrightarrow> m < ae_nextNode ?F" using i(4) [of m] by (auto split: if_splits)
    show "ae_nodes ?F m = Some q \<Longrightarrow> ae_nodes ?F k = Some q \<Longrightarrow> m = k" using i(5) [of m q k] by (auto split: if_splits)
  qed
  moreover have "Option.bind (((ae_nodes f)(n := None)) m) ((po_objects (ae_pool f))(p := None))
      = ((\<lambda>n. Option.bind (ae_nodes f n) (po_objects (ae_pool f)))(n := None)) m" for m
    using only by (cases "ae_nodes f m") auto
  then have "ae_abs ?F = (ae_abs f)\<lparr>se_orders := remove1 n (ae_orders f), se_nodes := (se_nodes (ae_abs f))(n := None)\<rparr>"
    by (simp add: ae_abs_def w(2) fun_eq_iff)
  ultimately show ?thesis using pool w(2) by blast
qed

lemma release_held:
  assumes inv: "ae_inv {a} f"
  shows "\<exists>f'. alloc_release a f = Some f' \<and> ae_inv {} f' \<and> ae_abs f' = ae_abs f \<and> ae_nodes f' = ae_nodes f
    \<and> dom (po_objects (ae_pool f')) \<subseteq> dom (po_objects (ae_pool f))"
proof -
  note i = ae_invD [OF inv]
  have "po_objects (ae_pool f) a \<noteq> None" using i(7) by auto
  then obtain pool where pool: "return_object a (ae_pool f) = Some pool" by (simp add: return_object_def)
  note w = return_object_wf [OF i(1) pool]
  have other: "ae_nodes f n \<noteq> Some a" for n using i(6) by (auto simp: ran_def)
  have "ae_inv {} (f\<lparr>ae_pool := pool\<rparr>)"
  proof (rule ae_invI)
    show "dom (po_objects (ae_pool (f\<lparr>ae_pool := pool\<rparr>))) = ran (ae_nodes (f\<lparr>ae_pool := pool\<rparr>)) \<union> {}"
      using i(6,7) w(2) by auto
    fix m n q
    show "ae_nodes (f\<lparr>ae_pool := pool\<rparr>) m \<noteq> None \<Longrightarrow> m < ae_nextNode (f\<lparr>ae_pool := pool\<rparr>)" using i(4) [of m] by simp
    show "ae_nodes (f\<lparr>ae_pool := pool\<rparr>) m = Some q \<Longrightarrow> ae_nodes (f\<lparr>ae_pool := pool\<rparr>) n = Some q \<Longrightarrow> m = n"
      using i(5) [of m q n] by simp
  qed (use i(2,3) w(1) in simp_all)
  moreover have "Option.bind (ae_nodes f n) ((po_objects (ae_pool f))(a := None)) = Option.bind (ae_nodes f n) (po_objects (ae_pool f))" for n
    using other [of n] by (cases "ae_nodes f n") auto
  then have "ae_abs (f\<lparr>ae_pool := pool\<rparr>) = ae_abs f" by (simp add: ae_abs_def w(2) fun_eq_iff)
  ultimately show ?thesis using pool w(2) by (auto simp: alloc_release_def)
qed

lemma alloc_handleOrderCancel_sim:
  assumes run: "lb_handleOrderCancel ord e = Some e'" and sim: "alloc_sim a ord e f"
  shows "\<exists>f'. alloc_handleOrderCancel a f = Some f' \<and> alloc_sim a ord e' f'
    \<and> dom (po_objects (ae_pool f')) \<subseteq> dom (po_objects (ae_pool f))"
proof -
  note s = alloc_simD [OF sim]
  show ?thesis
  proof (cases "smap_find (ae_orderByID f) (eo_orderId ord)")
    case None
    with run sim s show ?thesis by (auto simp: lb_handleOrderCancel_def alloc_handleOrderCancel_def)
  next
    case (Some refs)
    let ?n = "sr_orderIter refs" let ?l = "sr_levelList refs"
    from run Some s(2) obtain orders where r: "ae_lists f ?l = Some orders" "?n \<in> set orders" "?n \<in> set (ae_orders f)"
      "e' = e\<lparr>se_lists := (se_lists e)(?l \<mapsto> remove1 ?n orders), se_orders := remove1 ?n (se_orders e),
         se_nodes := (se_nodes e)(?n := None), se_orderByID := smap_erase (eo_orderId ord) (se_orderByID e)\<rparr>"
      by (auto simp: lb_handleOrderCancel_def bind_eq_Some_conv split: if_splits)
    from r(3) ae_invD(3) [OF s(1)] obtain p where p: "ae_nodes f ?n = Some p" by blast
    from release_node [OF s(1) p] obtain pool where pool: "return_object p (ae_pool f) = Some pool"
      "po_objects pool = (po_objects (ae_pool f))(p := None)"
      "ae_inv {a} (f\<lparr>ae_orders := remove1 ?n (ae_orders f), ae_nodes := (ae_nodes f)(?n := None), ae_pool := pool\<rparr>)"
      "ae_abs (f\<lparr>ae_orders := remove1 ?n (ae_orders f), ae_nodes := (ae_nodes f)(?n := None), ae_pool := pool\<rparr>)
        = (ae_abs f)\<lparr>se_orders := remove1 ?n (ae_orders f), se_nodes := (se_nodes (ae_abs f))(?n := None)\<rparr>" by blast
    let ?F = "f\<lparr>ae_orders := remove1 ?n (ae_orders f), ae_nodes := (ae_nodes f)(?n := None), ae_pool := pool\<rparr>"
    let ?R = "?F\<lparr>ae_lists := (ae_lists f)(?l \<mapsto> remove1 ?n orders), ae_orderByID := smap_erase (eo_orderId ord) (ae_orderByID f)\<rparr>"
    have "alloc_handleOrderCancel a f = Some ?R"
      using Some s(3) r(1-3) p pool(1) by (simp add: alloc_handleOrderCancel_def alloc_release_def)
    moreover have "ae_inv {a} ?R" using pool(3) by simp
    moreover have "ae_abs ?R = e'" unfolding ae_abs_frame pool(4) r(4) by (simp add: s(2) [symmetric])
    moreover have "alloc_order a ?R = Some ord"
      using s(3) node_not_held [OF s(1) p] pool(2) by (simp add: alloc_order_def)
    moreover have "dom (po_objects (ae_pool ?R)) \<subseteq> dom (po_objects (ae_pool f))" using pool(2) by auto
    ultimately show ?thesis by (auto simp: alloc_sim_def)
  qed
qed

lemma alloc_handleOrderAmend_sim:
  assumes run: "lb_handleOrderAmend ops lb ord e = Some e'" and sim: "alloc_sim a ord e f"
  shows "\<exists>r. alloc_handleOrderAmend ops lb a f = Some r \<and> alloc_ended a e' f r"
proof -
  note s = alloc_simD [OF sim]
  show ?thesis
  proof (cases "smap_find (ae_orderByID f) (eo_orderId ord)")
    case None
    with run s show ?thesis by (auto simp: lb_handleOrderAmend_def alloc_handleOrderAmend_def alloc_ended_def)
  next
    case (Some refs)
    from run Some s(2) obtain x where x: "se_nodes e (sr_orderIter refs) = Some x"
      by (auto simp: lb_handleOrderAmend_def bind_eq_Some_conv)
    then obtain p where p: "ae_nodes f (sr_orderIter refs) = Some p" "alloc_order p f = Some x"
      unfolding s(2) [symmetric] by (auto simp: alloc_order_def bind_eq_Some_conv)
    have found: "smap_find (se_orderByID e) (eo_orderId ord) = Some refs" using Some s(2) by auto
    consider "eo_side x \<noteq> eo_side ord" | "eo_side x = eo_side ord" "eo_price x \<noteq> eo_price ord"
      | "eo_side x = eo_side ord" "eo_price x = eo_price ord" by blast
    then show ?thesis
    proof cases
      case 1
      with run found Some x p s show ?thesis
        by (auto simp: lb_handleOrderAmend_def alloc_handleOrderAmend_def alloc_ended_def)
    next
      case 2
      with run found x obtain e1 where e1: "lb_handleOrderCancel ord e = Some e1" "lb_handleOrderNew ops lb ord e1 = Some e'"
        by (auto simp: lb_handleOrderAmend_def bind_eq_Some_conv)
      from alloc_handleOrderCancel_sim [OF e1(1) sim] obtain f1 where f1: "alloc_handleOrderCancel a f = Some f1" "alloc_sim a ord e1 f1"
        "dom (po_objects (ae_pool f1)) \<subseteq> dom (po_objects (ae_pool f))" by blast
      from alloc_handleOrderNew_sim [OF e1(2) f1(2)] obtain r where r: "alloc_handleOrderNew ops lb a f1 = Some r" "alloc_ended a e' f1 r" by blast
      from r(2) have "alloc_ended a e' f r" using subset_trans [OF _ f1(3)] by (simp add: alloc_ended_def)
      with 2 Some p s(3) f1(1) r(1) show ?thesis by (simp add: alloc_handleOrderAmend_def)
    next
      case 3
      let ?R = "alloc_write p (x\<lparr>eo_quantity := eo_quantity ord\<rparr>) f"
      have "alloc_handleOrderAmend ops lb a f = Some (False, ?R)" using 3 Some p s(3) by (simp add: alloc_handleOrderAmend_def)
      moreover have "e' = e\<lparr>se_nodes := (se_nodes e)(sr_orderIter refs \<mapsto> x\<lparr>eo_quantity := eo_quantity ord\<rparr>)\<rparr>"
        using run found x 3 by (simp add: lb_handleOrderAmend_def)
      then have "ae_abs ?R = e'" using write_node [OF s(1) p(1)] s(2) by simp
      moreover have "ae_inv {a} ?R" by (rule alloc_write_inv [OF s(1)]) (use p(2) in simp)
      moreover have "dom (po_objects (ae_pool ?R)) = dom (po_objects (ae_pool f))"
        using live_nodes [OF \<open>ae_inv {a} ?R\<close>] live_nodes [OF s(1)] by simp
      ultimately show ?thesis by (simp add: alloc_ended_def)
    qed
  qed
qed

lemma alloc_processOrder_sim:
  assumes run: "lb_processOrder ops lb ord e = Some e'" and sim: "alloc_sim a ord e f"
  shows "\<exists>r. alloc_processOrder ops lb a f = Some r \<and> alloc_ended a e' f r
    \<and> (eo_action ord = NEW \<longrightarrow> ae_nodes f \<subseteq>\<^sub>m ae_nodes (snd r))"
proof (cases "eo_action ord")
  case NEW
  with run alloc_handleOrderNew_sim [OF _ sim, of ops lb e'] alloc_simD(3) [OF sim] show ?thesis
    by (auto simp: lb_processOrder_def alloc_processOrder_def)
next
  case AMEND
  with run alloc_handleOrderAmend_sim [OF _ sim, of ops lb e'] alloc_simD(3) [OF sim] show ?thesis
    by (auto simp: lb_processOrder_def alloc_processOrder_def)
next
  case CANCEL
  with run alloc_handleOrderCancel_sim [OF _ sim, of e'] alloc_simD(3) [OF sim] show ?thesis
    by (auto simp: lb_processOrder_def alloc_processOrder_def alloc_ended_def alloc_sim_def)
qed (use run alloc_simD [OF sim] in \<open>simp_all add: lb_processOrder_def alloc_processOrder_def alloc_ended_def\<close>)

section \<open>Runs\<close>

text \<open>The live memory is the owner list's.\<close>

lemma live_count:
  assumes "ae_inv {} f"
  shows "card (dom (po_objects (ae_pool f))) = length (ae_orders f)" "finite (dom (po_objects (ae_pool f)))"
proof -
  note i = ae_invD [OF assms]
  have fin: "finite (dom (ae_nodes f))" using i(3) by (metis List.finite_set)
  have image: "ran (ae_nodes f) = (\<lambda>n. the (ae_nodes f n)) ` dom (ae_nodes f)" by (force simp: ran_def image_def)
  have "inj_on (\<lambda>n. the (ae_nodes f n)) (dom (ae_nodes f))" using i(5) by (fastforce intro!: inj_onI)
  then have "card (ran (ae_nodes f)) = card (set (ae_orders f))" unfolding image i(3) by (rule card_image)
  then show "card (dom (po_objects (ae_pool f))) = length (ae_orders f)" using i(2,7) by (simp add: distinct_card)
  show "finite (dom (po_objects (ae_pool f)))" using i(7) fin image by simp
qed

lemma acquire_held_order:
  assumes inv: "ae_inv {} f" and run: "acquireObject max_block v (ae_pool f) = Some (a, pool)"
  shows "alloc_sim a x (ae_abs f) (alloc_write a x (f\<lparr>ae_pool := pool\<rparr>))"
    "ae_nodes (alloc_write a x (f\<lparr>ae_pool := pool\<rparr>)) = ae_nodes f"
    "dom (po_objects (ae_pool (alloc_write a x (f\<lparr>ae_pool := pool\<rparr>)))) = insert a (dom (po_objects (ae_pool f)))"
proof -
  note i = ae_invD [OF inv] and w = acquireObject_wf [OF ae_invD(1) [OF inv] run]
  have other: "ae_nodes f n \<noteq> Some a" for n using i(7) w(2) by (metis Un_empty_right domIff ranI)
  have inv1: "ae_inv {a} (f\<lparr>ae_pool := pool\<rparr>)"
  proof (rule ae_invI)
    show "ran (ae_nodes (f\<lparr>ae_pool := pool\<rparr>)) \<inter> {a} = {}" using other by (auto simp: ran_def)
    show "dom (po_objects (ae_pool (f\<lparr>ae_pool := pool\<rparr>))) = ran (ae_nodes (f\<lparr>ae_pool := pool\<rparr>)) \<union> {a}"
      using i(7) w(3) by simp
    fix m n q
    show "ae_nodes (f\<lparr>ae_pool := pool\<rparr>) m \<noteq> None \<Longrightarrow> m < ae_nextNode (f\<lparr>ae_pool := pool\<rparr>)" using i(4) [of m] by simp
    show "ae_nodes (f\<lparr>ae_pool := pool\<rparr>) m = Some q \<Longrightarrow> ae_nodes (f\<lparr>ae_pool := pool\<rparr>) n = Some q \<Longrightarrow> m = n"
      using i(5) [of m q n] by simp
  qed (use i(2,3) w(1) in simp_all)
  have "Option.bind (ae_nodes f n) ((po_objects (ae_pool f))(a \<mapsto> v)) = Option.bind (ae_nodes f n) (po_objects (ae_pool f))" for n
    using other [of n] by (cases "ae_nodes f n") auto
  then have same: "ae_abs (f\<lparr>ae_pool := pool\<rparr>) = ae_abs f" by (simp add: ae_abs_def w(3) fun_eq_iff)
  have live: "alloc_order a (f\<lparr>ae_pool := pool\<rparr>) \<noteq> None" by (simp add: alloc_order_def w(3))
  show "alloc_sim a x (ae_abs f) (alloc_write a x (f\<lparr>ae_pool := pool\<rparr>))"
    using alloc_write_inv [OF inv1 live] write_caller [OF inv1] same by (simp add: alloc_sim_def)
  show "ae_nodes (alloc_write a x (f\<lparr>ae_pool := pool\<rparr>)) = ae_nodes f" by simp
  show "dom (po_objects (ae_pool (alloc_write a x (f\<lparr>ae_pool := pool\<rparr>)))) = insert a (dom (po_objects (ae_pool f)))"
    by (simp add: alloc_write_def w(3))
qed

lemma alloc_submit_sim:
  assumes inv: "ae_inv {} f" and room: "3 * length (ae_orders f) + 10 \<le> max_block"
    and e': "lb_processOrder ops lb x (ae_abs f) = Some e'"
  shows "\<exists>f'. alloc_submit max_block ops lb x f = Some f' \<and> ae_inv {} f' \<and> ae_abs f' = e'
    \<and> length (ae_orders f') \<le> length (ae_orders f) + 1 \<and> (eo_action x = NEW \<longrightarrow> ae_nodes f \<subseteq>\<^sub>m ae_nodes f')"
proof -
  note c = live_count [OF inv]
  obtain a pool where a: "acquireObject max_block default_order (ae_pool f) = Some (a, pool)"
    using acquire_succeeds [OF ae_invD(1) [OF inv], of max_block default_order] room c(1) by auto
  note h = acquire_held_order [OF inv a, of x]
  from alloc_processOrder_sim [OF e' h(1)] h(2) obtain moved f2 where
    f2: "alloc_processOrder ops lb a (alloc_write a x (f\<lparr>ae_pool := pool\<rparr>)) = Some (moved, f2)"
    "ae_inv (if moved then {} else {a}) f2" "ae_abs f2 = e'"
    "dom (po_objects (ae_pool f2)) \<subseteq> insert a (dom (po_objects (ae_pool f)))"
    "eo_action x = NEW \<Longrightarrow> ae_nodes f \<subseteq>\<^sub>m ae_nodes f2" by (auto simp: alloc_ended_def h(3))
  have bound: "length (ae_orders g) \<le> length (ae_orders f) + 1"
    if "ae_inv {} g" "dom (po_objects (ae_pool g)) \<subseteq> insert a (dom (po_objects (ae_pool f)))" for g
  proof -
    have "card (dom (po_objects (ae_pool g))) \<le> card (insert a (dom (po_objects (ae_pool f))))"
      by (rule card_mono) (use c(2) that(2) in auto)
    also have "\<dots> \<le> card (dom (po_objects (ae_pool f))) + 1" using c(2) by (simp add: card_insert_if)
    finally show ?thesis using live_count(1) [OF that(1)] c(1) by simp
  qed
  show ?thesis
  proof (cases moved)
    case True
    with f2 a bound show ?thesis by (auto simp: alloc_submit_def)
  next
    case False
    with f2(2) have "ae_inv {a} f2" by simp
    from release_held [OF this] obtain f3 where f3: "alloc_release a f2 = Some f3" "ae_inv {} f3" "ae_abs f3 = ae_abs f2"
      "ae_nodes f3 = ae_nodes f2" "dom (po_objects (ae_pool f3)) \<subseteq> dom (po_objects (ae_pool f2))" by blast
    have "length (ae_orders f3) \<le> length (ae_orders f) + 1" by (rule bound [OF f3(2) subset_trans [OF f3(5) f2(4)]])
    with False f2(1,3,5) f3 a show ?thesis by (auto simp: alloc_submit_def)
  qed
qed

lemma alloc_submit_all_sim:
  "ae_inv {} f \<Longrightarrow> lb_process_orders ops lb xs (ae_abs f) = Some e \<Longrightarrow>
   3 * (length (ae_orders f) + length xs) + 10 \<le> max_block \<Longrightarrow>
   \<exists>f'. alloc_submit_all max_block ops lb xs f = Some f' \<and> ae_inv {} f' \<and> ae_abs f' = e
     \<and> length (ae_orders f') \<le> length (ae_orders f) + length xs
     \<and> ((\<forall>x\<in>set xs. eo_action x = NEW) \<longrightarrow> ae_nodes f \<subseteq>\<^sub>m ae_nodes f')"
proof (induction xs arbitrary: f)
  case (Cons x xs)
  from Cons.prems(2) obtain e1 where e1: "lb_processOrder ops lb x (ae_abs f) = Some e1" "lb_process_orders ops lb xs e1 = Some e"
    by (auto simp: bind_eq_Some_conv)
  obtain f1 where f1: "alloc_submit max_block ops lb x f = Some f1" "ae_inv {} f1" "ae_abs f1 = e1"
    "length (ae_orders f1) \<le> length (ae_orders f) + 1" "eo_action x = NEW \<Longrightarrow> ae_nodes f \<subseteq>\<^sub>m ae_nodes f1"
    using alloc_submit_sim [OF Cons.prems(1) _ e1(1), of max_block] Cons.prems(3) by auto
  from Cons.IH [OF f1(2)] e1(2) f1(3,4) Cons.prems(3) obtain f' where f': "alloc_submit_all max_block ops lb xs f1 = Some f'"
    "ae_inv {} f'" "ae_abs f' = e" "length (ae_orders f') \<le> length (ae_orders f1) + length xs"
    "(\<forall>x\<in>set xs. eo_action x = NEW) \<Longrightarrow> ae_nodes f1 \<subseteq>\<^sub>m ae_nodes f'" by auto
  have "alloc_submit_all max_block ops lb (x # xs) f = Some f'" using f1(1) f'(1) by simp
  moreover have "length (ae_orders f') \<le> length (ae_orders f) + length (x # xs)" using f'(4) f1(4) by simp
  moreover have "(\<forall>x\<in>set (x # xs). eo_action x = NEW) \<longrightarrow> ae_nodes f \<subseteq>\<^sub>m ae_nodes f'"
    using map_le_trans [OF f1(5) f'(5)] by simp
  ultimately show ?case using f'(2,3) by blast
qed simp

lemma alloc_submit_all_append:
  "alloc_submit_all max_block ops lb (xs @ ys) f
     = Option.bind (alloc_submit_all max_block ops lb xs f) (alloc_submit_all max_block ops lb ys)"
proof (induction xs arbitrary: f)
  case (Cons x xs)
  then show ?case by (cases "alloc_submit max_block ops lb x f") simp_all
qed simp

lemma lb_process_orders_append:
  "lb_process_orders ops lb (xs @ ys) g = Option.bind (lb_process_orders ops lb xs g) (lb_process_orders ops lb ys)"
proof (induction xs arbitrary: g)
  case (Cons x xs)
  then show ?case by (cases "lb_processOrder ops lb x g") simp_all
qed simp

lemma new_alloc_inv: "ae_inv {} (new_alloc_engine ops)" "ae_abs (new_alloc_engine ops) = new_store_engine ops"
  by (auto intro!: ae_invI simp: new_alloc_engine_def new_pool_wf) (simp_all add: new_pool_def ae_abs_def new_store_engine_def)

lemma ran_mono_map:
  assumes "m \<subseteq>\<^sub>m m'"
  shows "ran m \<subseteq> ran m'"
proof
  fix q assume "q \<in> ran m"
  then obtain k where "m k = Some q" by (auto simp: ran_def)
  with assms have "m' k = Some q" by (metis domI map_le_def)
  then show "q \<in> ran m'" by (rule ranI)
qed

lemma alloc_run_from_empty:
  assumes "lb_process_orders ops lb xs (new_store_engine ops) = Some e" "3 * length xs + 10 \<le> max_block"
  obtains f where "alloc_submit_all max_block ops lb xs (new_alloc_engine ops) = Some f" "ae_inv {} f" "ae_abs f = e"
    "length (ae_orders f) \<le> length xs"
proof -
  have none: "ae_orders (new_alloc_engine ops) = []" by (simp add: new_alloc_engine_def)
  from alloc_submit_all_sim [where f = "new_alloc_engine ops" and xs = xs and max_block = max_block,
      OF new_alloc_inv(1), unfolded new_alloc_inv(2), OF assms(1)] assms(2)
  obtain f where "alloc_submit_all max_block ops lb xs (new_alloc_engine ops) = Some f" "ae_inv {} f" "ae_abs f = e"
    "length (ae_orders f) \<le> length xs" by (auto simp: none)
  then show thesis by (rule that)
qed

section \<open>Properties\<close>

text \<open>The engine over the pool, from construction on, over any orders, never follows a dangling
  pointer and never destroys an order twice; its trades and levels are those of the book, and the
  memory in use is that of its owner list, at most one order per order received. The pool never asks for a block larger than
  three times the number of orders and ten.\<close>

theorem alloc_engine_refines_book:
  assumes "lower_bound_maps ops entries lb" "3 * length xs + 10 \<le> max_block"
  shows "\<exists>f. alloc_submit_all max_block ops lb xs (new_alloc_engine ops) = Some f
    \<and> book_run xs (\<lambda>_. []) = (ae_trades f, lbe_levels entries (ae_abs f))
    \<and> card (dom (po_objects (ae_pool f))) = length (ae_orders f) \<and> length (ae_orders f) \<le> length xs"
proof -
  from lower_bound_maps.lb_run_from_empty [OF assms(1), of xs] obtain e where e: "lb_process_orders ops lb xs (new_store_engine ops) = Some e"
    "book_run xs (\<lambda>_. []) = (se_trades e, lbe_levels entries e)" by blast
  from alloc_run_from_empty [OF e(1) assms(2)] obtain f where f:
    "alloc_submit_all max_block ops lb xs (new_alloc_engine ops) = Some f" "ae_inv {} f" "ae_abs f = e" "length (ae_orders f) \<le> length xs" .
  with e(2) live_count(1) [OF f(2)] show ?thesis by auto
qed

theorem alloc_engine_refines_book_witness:
  "\<exists>f. alloc_submit_all 25 (\<lambda>s. list_ops (lb_order s)) list_lower_bound lb_run_orders (new_alloc_engine (\<lambda>s. list_ops (lb_order s))) = Some f
    \<and> book_run lb_run_orders (\<lambda>_. []) = (ae_trades f, lbe_levels (\<lambda>m. m) (ae_abs f))"
proof -
  have "3 * length lb_run_orders + 10 \<le> 25" by (simp add: lb_run_orders_def)
  from alloc_engine_refines_book [OF lb_list_maps.lower_bound_maps_axioms this] show ?thesis by blast
qed

text \<open>C37. No new order ever gives memory back, however many resting orders it fills: every node of the
  owner list keeps the pointer it has, and the memory in use only grows. (An order's memory comes
  back when it is cancelled or moved to another price, which a filled order no longer can be.)\<close>

theorem new_orders_return_no_memory:
  assumes "lower_bound_maps ops entries lb" "3 * length (xs @ ys) + 10 \<le> max_block" "\<forall>y\<in>set ys. eo_action y = NEW"
  shows "\<exists>f f'. alloc_submit_all max_block ops lb xs (new_alloc_engine ops) = Some f
    \<and> alloc_submit_all max_block ops lb (xs @ ys) (new_alloc_engine ops) = Some f'
    \<and> ae_nodes f \<subseteq>\<^sub>m ae_nodes f' \<and> dom (po_objects (ae_pool f)) \<subseteq> dom (po_objects (ae_pool f'))"
proof -
  from lower_bound_maps.lb_run_from_empty [OF assms(1), of "xs @ ys"] obtain e' where
    e': "lb_process_orders ops lb (xs @ ys) (new_store_engine ops) = Some e'" by blast
  from e' obtain e where e: "lb_process_orders ops lb xs (new_store_engine ops) = Some e" "lb_process_orders ops lb ys e = Some e'"
    unfolding lb_process_orders_append by (auto simp: bind_eq_Some_conv)
  have room: "3 * length xs + 10 \<le> max_block" using assms(2) by simp
  from alloc_run_from_empty [OF e(1) room] obtain f where f:
    "alloc_submit_all max_block ops lb xs (new_alloc_engine ops) = Some f" "ae_inv {} f" "ae_abs f = e" "length (ae_orders f) \<le> length xs" .
  from alloc_submit_all_sim [where ops = ops and lb = lb and xs = ys and e = e' and max_block = max_block, OF f(2)]
    e(2) assms(2,3) f(3,4) obtain f' where f': "alloc_submit_all max_block ops lb ys f = Some f'" "ae_inv {} f'" "ae_nodes f \<subseteq>\<^sub>m ae_nodes f'"
    by auto
  have "dom (po_objects (ae_pool f)) \<subseteq> dom (po_objects (ae_pool f'))"
    using live_nodes [OF f(2)] live_nodes [OF f'(2)] ran_mono_map [OF f'(3)] by simp
  with f f' show ?thesis by (auto simp: alloc_submit_all_append)
qed

theorem new_orders_return_no_memory_witness:
  "\<exists>f f'. alloc_submit_all 40 (\<lambda>s. list_ops (lb_order s)) list_lower_bound [limit_order BUY NEW 1 10 5]
         (new_alloc_engine (\<lambda>s. list_ops (lb_order s))) = Some f
    \<and> alloc_submit_all 40 (\<lambda>s. list_ops (lb_order s)) list_lower_bound ([limit_order BUY NEW 1 10 5] @ [limit_order SELL NEW 2 10 5])
         (new_alloc_engine (\<lambda>s. list_ops (lb_order s))) = Some f'
    \<and> dom (po_objects (ae_pool f)) \<subseteq> dom (po_objects (ae_pool f'))"
proof -
  have "\<forall>y\<in>set [limit_order SELL NEW 2 10 5]. eo_action y = NEW" by (simp add: limit_order_def builder_defs)
  moreover have "3 * length ([limit_order BUY NEW 1 10 5] @ [limit_order SELL NEW 2 10 5]) + 10 \<le> 40" by simp
  ultimately show ?thesis using new_orders_return_no_memory [OF lb_list_maps.lower_bound_maps_axioms] by metis
qed

end
