(* ===== verification/Simple_Engine.thy ===== *)
theory Simple_Engine
  imports Lower_Bound_Properties
begin

text \<open>
  The matching engine of \<open>MatchingEngine/MatchingEngine_Simple.cpp\<close>. It matches like the lower-bound
  engine, but its maps hold the lists of the levels themselves: the list of an entry is kept under a
  name of its own (\<open>se_lists\<close>), which moves with the entry when the map grows.

  An order's reference block points to the list inside the map (\<open>&buyOrders[order.price]\<close>). A
  \<open>flat_map\<close> is a vector: documented is that an insertion moves its elements, so the pointer is good
  until the next level is inserted on that side. Levels are never erased, so this is the case exactly
  while the map has the size it had then: a pointer is kept with its side and that size
  (\<open>si_pointer\<close>), and following it later is undefined, no result. Iterators into a list stay good
  when the list is moved.
\<close>

section \<open>State\<close>

record 'm simple_engine =
  si_base :: "'m store_engine"
  si_pointer :: "u64 \<Rightarrow> order_side \<times> nat"

definition new_simple_engine :: "(order_side \<Rightarrow> 'm flat_map_ops) \<Rightarrow> 'm simple_engine" where
  "new_simple_engine ops = \<lparr>si_base = new_store_engine ops, si_pointer = (\<lambda>_. (BUY, 0))\<rparr>"

text \<open>Whether the list pointer of an order's reference block is still good.\<close>

definition pointer_good :: "(order_side \<Rightarrow> 'm flat_map_ops) \<Rightarrow> u64 \<Rightarrow> 'm simple_engine \<Rightarrow> bool" where
  "pointer_good ops i s \<longleftrightarrow> (case si_pointer s i of (side, n) \<Rightarrow> fo_size (ops side) (store_side side (si_base s)) = n)"

section \<open>Handlers\<close>

definition simple_matchOrder ::
  "(order_side \<Rightarrow> 'm flat_map_ops) \<Rightarrow> (order_side \<Rightarrow> u64 \<Rightarrow> 'm \<Rightarrow> nat) \<Rightarrow> engine_order \<Rightarrow> 'm simple_engine
    \<Rightarrow> (u64 \<times> engine_order \<times> 'm simple_engine) option" where
  "simple_matchOrder ops lb ord s =
     map_option (\<lambda>(remaining, ord', e). (remaining, ord', s\<lparr>si_base := e\<rparr>)) (lb_matchOrder ops lb ord (si_base s))"

definition simple_handleOrderNew ::
  "(order_side \<Rightarrow> 'm flat_map_ops) \<Rightarrow> (order_side \<Rightarrow> u64 \<Rightarrow> 'm \<Rightarrow> nat) \<Rightarrow> engine_order \<Rightarrow> 'm simple_engine
    \<Rightarrow> 'm simple_engine option" where
  "simple_handleOrderNew ops lb ord0 s0 =
     do {
       (remaining, ord, s) \<leftarrow> simple_matchOrder ops lb ord0 s0;
       if remaining = 0 then Some s
       else if smap_find (se_orderByID (si_base s)) (eo_orderId ord) \<noteq> None then Some s
       else do {
         let e = si_base s;
         let side = (if eo_side ord = BUY then BUY else SELL);
         let orderIter = se_nextNode e;
         let e1 = e\<lparr>se_orders := se_orders e @ [orderIter], se_nextNode := orderIter + 1,
                    se_nodes := (se_nodes e)(orderIter \<mapsto> ord)\<rparr>;
         (level, e2) \<leftarrow> store_getOrderPriceList ops side (eo_price ord) e1;
         orders \<leftarrow> se_lists e2 level;
         let e3 = e2\<lparr>se_lists := (se_lists e2)(level \<mapsto> orders @ [orderIter]),
                     se_orderByID := smap_assign (eo_orderId ord)
                       \<lparr>sr_orderIter = orderIter, sr_levelList = level\<rparr> (se_orderByID e2)\<rparr>;
         Some \<lparr>si_base = e3,
               si_pointer = (si_pointer s)(eo_orderId ord := (side, fo_size (ops side) (store_side side e3)))\<rparr> } }"

definition simple_handleOrderCancel ::
  "(order_side \<Rightarrow> 'm flat_map_ops) \<Rightarrow> engine_order \<Rightarrow> 'm simple_engine \<Rightarrow> 'm simple_engine option" where
  "simple_handleOrderCancel ops ord s =
     (let e = si_base s
      in case smap_find (se_orderByID e) (eo_orderId ord) of
           None \<Rightarrow> Some s
         | Some refs \<Rightarrow>
             if \<not> pointer_good ops (eo_orderId ord) s then None
             else do {
               orders \<leftarrow> se_lists e (sr_levelList refs);
               if sr_orderIter refs \<in> set orders \<and> sr_orderIter refs \<in> set (se_orders e)
               then Some (s\<lparr>si_base := e\<lparr>se_lists := (se_lists e)(sr_levelList refs \<mapsto> remove1 (sr_orderIter refs) orders),
                              se_orders := remove1 (sr_orderIter refs) (se_orders e),
                              se_nodes := (se_nodes e)(sr_orderIter refs := None),
                              se_orderByID := smap_erase (eo_orderId ord) (se_orderByID e)\<rparr>\<rparr>)
               else None })"

definition simple_handleOrderAmend ::
  "(order_side \<Rightarrow> 'm flat_map_ops) \<Rightarrow> (order_side \<Rightarrow> u64 \<Rightarrow> 'm \<Rightarrow> nat) \<Rightarrow> engine_order \<Rightarrow> 'm simple_engine
    \<Rightarrow> 'm simple_engine option" where
  "simple_handleOrderAmend ops lb ord s =
     (let e = si_base s
      in case smap_find (se_orderByID e) (eo_orderId ord) of
           None \<Rightarrow> Some s
         | Some refs \<Rightarrow>
             do { orderOriginal \<leftarrow> se_nodes e (sr_orderIter refs);
                  if eo_side orderOriginal \<noteq> eo_side ord then Some s
                  else if eo_price orderOriginal \<noteq> eo_price ord
                  then do { s1 \<leftarrow> simple_handleOrderCancel ops ord s; simple_handleOrderNew ops lb ord s1 }
                  else Some (s\<lparr>si_base := e\<lparr>se_nodes := (se_nodes e)(sr_orderIter refs \<mapsto>
                               orderOriginal\<lparr>eo_quantity := eo_quantity ord\<rparr>)\<rparr>\<rparr>) })"

definition simple_processOrder ::
  "(order_side \<Rightarrow> 'm flat_map_ops) \<Rightarrow> (order_side \<Rightarrow> u64 \<Rightarrow> 'm \<Rightarrow> nat) \<Rightarrow> engine_order \<Rightarrow> 'm simple_engine
    \<Rightarrow> 'm simple_engine option" where
  "simple_processOrder ops lb ord s =
     (case eo_action ord of
        NEW \<Rightarrow> simple_handleOrderNew ops lb ord s
      | CANCEL \<Rightarrow> simple_handleOrderCancel ops ord s
      | AMEND \<Rightarrow> simple_handleOrderAmend ops lb ord s
      | _ \<Rightarrow> Some s)"

fun simple_process_orders ::
  "(order_side \<Rightarrow> 'm flat_map_ops) \<Rightarrow> (order_side \<Rightarrow> u64 \<Rightarrow> 'm \<Rightarrow> nat) \<Rightarrow> engine_order list \<Rightarrow> 'm simple_engine
    \<Rightarrow> 'm simple_engine option" where
  "simple_process_orders ops lb [] s = Some s"
| "simple_process_orders ops lb (ord # rest) s =
     Option.bind (simple_processOrder ops lb ord s) (simple_process_orders ops lb rest)"

section \<open>Against the lower-bound engine\<close>

lemma simple_new_base:
  "map_option si_base (simple_handleOrderNew ops lb ord s) = lb_handleOrderNew ops lb ord (si_base s)"
  by (auto simp: simple_handleOrderNew_def lb_handleOrderNew_def simple_matchOrder_def Let_def split: option.splits bind_splits prod.splits)

lemma simple_cancel_base:
  "simple_handleOrderCancel ops ord s =
     (if smap_find (se_orderByID (si_base s)) (eo_orderId ord) = None \<or> pointer_good ops (eo_orderId ord) s
      then map_option (\<lambda>e. s\<lparr>si_base := e\<rparr>) (lb_handleOrderCancel ord (si_base s)) else None)"
  by (auto simp: simple_handleOrderCancel_def lb_handleOrderCancel_def Let_def split: option.splits bind_splits)

lemma simple_new_SomeD:
  "simple_handleOrderNew ops lb ord s = Some s' \<Longrightarrow> lb_handleOrderNew ops lb ord (si_base s) = Some (si_base s')"
  using simple_new_base [of ops lb ord s] by simp

lemma simple_amend_SomeD:
  assumes "simple_handleOrderAmend ops lb ord s = Some s'"
  shows "lb_handleOrderAmend ops lb ord (si_base s) = Some (si_base s')"
proof (cases "smap_find (se_orderByID (si_base s)) (eo_orderId ord)")
  case None
  with assms show ?thesis by (simp add: simple_handleOrderAmend_def lb_handleOrderAmend_def Let_def)
next
  case (Some refs)
  with assms obtain x where x: "se_nodes (si_base s) (sr_orderIter refs) = Some x"
    by (auto simp: simple_handleOrderAmend_def Let_def bind_eq_Some_conv)
  consider "eo_side x \<noteq> eo_side ord" | "eo_side x = eo_side ord" "eo_price x \<noteq> eo_price ord"
    | "eo_side x = eo_side ord" "eo_price x = eo_price ord" by blast
  then show ?thesis
  proof cases
    case 2
    with assms Some x obtain s1 where "simple_handleOrderCancel ops ord s = Some s1" "simple_handleOrderNew ops lb ord s1 = Some s'"
      by (auto simp: simple_handleOrderAmend_def Let_def bind_eq_Some_conv)
    with simple_new_SomeD [of ops lb ord s1 s'] have "lb_handleOrderCancel ord (si_base s) = Some (si_base s1)"
      "lb_handleOrderNew ops lb ord (si_base s1) = Some (si_base s')" by (auto simp: simple_cancel_base split: if_splits)
    with 2 Some x show ?thesis by (simp add: lb_handleOrderAmend_def)
  qed (use assms Some x in \<open>auto simp: simple_handleOrderAmend_def lb_handleOrderAmend_def Let_def\<close>)
qed

lemma simple_processOrder_SomeD:
  assumes "simple_processOrder ops lb ord s = Some s'"
  shows "lb_processOrder ops lb ord (si_base s) = Some (si_base s')"
  using assms simple_new_SomeD [of ops lb ord s s'] simple_amend_SomeD [of ops lb ord s s']
  by (auto simp: simple_processOrder_def lb_processOrder_def simple_cancel_base split: order_action_type.splits if_splits)

lemma simple_run_SomeD:
  "simple_process_orders ops lb orders s = Some s' \<Longrightarrow> lb_process_orders ops lb orders (si_base s) = Some (si_base s')"
  by (induction orders arbitrary: s) (auto simp: bind_eq_Some_conv dest!: simple_processOrder_SomeD)

context lower_bound_maps
begin

lemma simple_keeps_wf:
  assumes "lb_wf entries (si_base s)" "simple_process_orders ops lb orders s = Some s'"
  shows "lb_wf entries (si_base s')"
  using lb_process_orders_does [OF assms(1), of orders] simple_run_SomeD [OF assms(2)] by (simp add: lb_does_def)

lemma simple_reached_wf:
  "simple_process_orders ops lb orders (new_simple_engine ops) = Some s \<Longrightarrow> lb_wf entries (si_base s)"
  using simple_keeps_wf [of "new_simple_engine ops"] lb_new_wf(1) by (simp add: new_simple_engine_def)

lemma matched_order_id:
  assumes "lb_wf entries e" "lb_matchOrder ops lb ord e = Some (q, ord', e')"
  shows "eo_orderId ord' = eo_orderId ord" "eo_side ord' = eo_side ord"
proof -
  let ?opp = "opposite_side (eo_side ord)"
  obtain o1 ls ts where sw: "sweep_all ord (dropWhile (not_acceptable ?opp (eo_price ord)) (lbe_levels entries e ?opp)) = (o1, ls, ts)"
    by (cases "sweep_all ord (dropWhile (not_acceptable ?opp (eo_price ord)) (lbe_levels entries e ?opp))")
  from lb_matchOrder_sweep [OF assms(1) sw refl] assms(2) have "ord' = o1" by auto
  with sweep_all_order [OF sw] show "eo_orderId ord' = eo_orderId ord" "eo_side ord' = eo_side ord" by auto
qed

text \<open>Only an order with the same identifier changes a pointer.\<close>

lemma simple_new_pointer:
  assumes wf: "lb_wf entries (si_base s)" and run: "simple_handleOrderNew ops lb ord s = Some s'" and i: "i \<noteq> eo_orderId ord"
  shows "si_pointer s' i = si_pointer s i"
proof -
  obtain q o1 e1 where m: "lb_matchOrder ops lb ord (si_base s) = Some (q, o1, e1)"
    using run by (auto simp: simple_handleOrderNew_def simple_matchOrder_def bind_eq_Some_conv)
  with run i matched_order_id(1) [OF wf m] show ?thesis
    by (auto simp: simple_handleOrderNew_def simple_matchOrder_def Let_def bind_eq_Some_conv split: if_splits)
qed

lemma simple_cancel_wf:
  assumes "lb_wf entries (si_base s)" "simple_handleOrderCancel ops ord s = Some s'"
  shows "lb_wf entries (si_base s')" "si_pointer s' = si_pointer s"
  using lb_cancel [OF assms(1), of ord] assms(2) by (auto simp: simple_cancel_base split: if_splits)

lemma simple_process_pointer:
  assumes wf: "lb_wf entries (si_base s)" and run: "simple_processOrder ops lb ord s = Some s'" and i: "i \<noteq> eo_orderId ord"
  shows "si_pointer s' i = si_pointer s i"
proof (cases "eo_action ord")
  case NEW
  with run simple_new_pointer [OF wf _ i] show ?thesis by (simp add: simple_processOrder_def)
next
  case CANCEL
  with run simple_cancel_wf(2) [OF wf] show ?thesis by (simp add: simple_processOrder_def)
next
  case AMEND
  with run have a: "simple_handleOrderAmend ops lb ord s = Some s'" by (simp add: simple_processOrder_def)
  then consider "si_pointer s' = si_pointer s"
    | s1 where "simple_handleOrderCancel ops ord s = Some s1" "simple_handleOrderNew ops lb ord s1 = Some s'"
    by (auto simp: simple_handleOrderAmend_def Let_def bind_eq_Some_conv split: option.splits if_splits)
  then show ?thesis
  proof cases
    case 2
    with simple_new_pointer [OF simple_cancel_wf(1) [OF wf] _ i] simple_cancel_wf(2) [OF wf] show ?thesis by metis
  qed simp
qed (use run in \<open>simp_all add: simple_processOrder_def\<close>)

lemma simple_run_pointer:
  "lb_wf entries (si_base s) \<Longrightarrow> simple_process_orders ops lb orders s = Some s' \<Longrightarrow> \<forall>y\<in>set orders. eo_orderId y \<noteq> i \<Longrightarrow>
     si_pointer s' i = si_pointer s i"
proof (induction orders arbitrary: s)
  case (Cons y ys)
  from Cons.prems(2) obtain s1 where s1: "simple_processOrder ops lb y s = Some s1" "simple_process_orders ops lb ys s1 = Some s'"
    by (auto simp: bind_eq_Some_conv)
  have "lb_wf entries (si_base s1)" using simple_keeps_wf [OF Cons.prems(1), of "[y]" s1] s1(1) by simp
  from Cons.IH [OF this s1(2)] Cons.prems(3) simple_process_pointer [OF Cons.prems(1) s1(1), of i] show ?case by auto
qed simp

end

text \<open>Matching only takes entries out of the index.\<close>

lemma store_match_orders_index:
  "store_match_orders ord xs e = Some (ord', ys, e') \<Longrightarrow> smap_find (se_orderByID e) i = None \<Longrightarrow> smap_find (se_orderByID e') i = None"
proof (induction ord xs e arbitrary: ord' ys e' rule: store_match_orders.induct)
  case (2 ord n rest e)
  then show ?case by (auto simp: Let_def split: option.splits if_splits)
qed simp

lemma lb_match_levels_index:
  assumes "lb_match_levels ops opposite k ord e = Some (ord', e')" "smap_find (se_orderByID e) i = None"
  shows "smap_find (se_orderByID e') i = None"
proof -
  have "smap_find (se_orderByID e) i = None \<longrightarrow> smap_find (se_orderByID (snd (ord', e'))) i = None"
  proof (rule lb_match_levels.raw_induct [where P = "\<lambda>ops opposite k ord e r.
      smap_find (se_orderByID e) i = None \<longrightarrow> smap_find (se_orderByID (snd r)) i = None", OF _ assms(1)])
    fix rec ops opposite k ord e r
    assume IH: "\<And>ops opposite k ord e r. rec ops opposite k ord e = Some r \<Longrightarrow>
        smap_find (se_orderByID e) i = None \<longrightarrow> smap_find (se_orderByID (snd r)) i = None"
      and run: "(case fo_at (ops opposite) (store_side opposite e) k of None \<Rightarrow> Some (ord, e)
        | Some (_, levelPtr) \<Rightarrow> if eo_quantity ord > 0
            then (case levelPtr of None \<Rightarrow> None | Some level \<Rightarrow>
              (case lb_match_list ord level e of None \<Rightarrow> None | Some (ord', e') \<Rightarrow> rec ops opposite (k + 1) ord' e'))
            else Some (ord, e)) = Some r"
    have step: "smap_find (se_orderByID e) i = None \<Longrightarrow> smap_find (se_orderByID e1) i = None"
      if "lb_match_list ord level e = Some (o1, e1)" for level o1 e1
      using that store_match_orders_index [of ord _ e _ _ _ i] by (auto simp: lb_match_list_def bind_eq_Some_conv)
    show "smap_find (se_orderByID e) i = None \<longrightarrow> smap_find (se_orderByID (snd r)) i = None"
    proof (cases "r = (ord, e)")
      case False
      with run obtain level o1 e1 where l: "lb_match_list ord level e = Some (o1, e1)" "rec ops opposite (k + 1) o1 e1 = Some r"
        by (auto split: option.splits if_splits)
      show ?thesis
      proof
        assume "smap_find (se_orderByID e) i = None"
        then have "smap_find (se_orderByID e1) i = None" by (rule step [OF l(1)])
        with IH [OF l(2)] show "smap_find (se_orderByID (snd r)) i = None" by simp
      qed
    qed simp
  qed
  with assms(2) show ?thesis by simp
qed

lemma lb_matchOrder_index:
  "lb_matchOrder ops lb ord e = Some (q, ord', e') \<Longrightarrow> smap_find (se_orderByID e) i = None \<Longrightarrow> smap_find (se_orderByID e') i = None"
  using lb_match_levels_index [of ops _ _ ord e ord' e' i] by (auto simp: lb_matchOrder_def Let_def split: option.splits)

section \<open>Properties\<close>

text \<open>The number of levels of a side, emptied ones included.\<close>

definition simple_levels :: "(order_side \<Rightarrow> 'm flat_map_ops) \<Rightarrow> order_side \<Rightarrow> 'm simple_engine \<Rightarrow> nat" where
  "simple_levels ops side s = fo_size (ops side) (store_side side (si_base s))"

definition simple_rests :: "u64 \<Rightarrow> 'm simple_engine \<Rightarrow> bool" where
  "simple_rests i s \<longleftrightarrow> smap_find (se_orderByID (si_base s)) i \<noteq> None"

lemma simple_new_enters:
  assumes maps: "lower_bound_maps ops entries lb" and wf: "lb_wf entries (si_base s0)"
    and run: "simple_handleOrderNew ops lb ord s0 = Some s1"
    and rests: "\<not> simple_rests (eo_orderId ord) s0" "simple_rests (eo_orderId ord) s1"
  shows "si_pointer s1 (eo_orderId ord) = (eo_side ord, simple_levels ops (eo_side ord) s1)"
proof -
  obtain q o1 e1 where m: "lb_matchOrder ops lb ord (si_base s0) = Some (q, o1, e1)"
    using run by (auto simp: simple_handleOrderNew_def simple_matchOrder_def bind_eq_Some_conv)
  have o1: "eo_orderId o1 = eo_orderId ord" "eo_side o1 = eo_side ord"
    by (rule lower_bound_maps.matched_order_id [OF maps wf m])+
  have "smap_find (se_orderByID e1) (eo_orderId ord) = None"
    using lb_matchOrder_index [OF m] rests(1) by (simp add: simple_rests_def)
  with run m rests(2) o1 show ?thesis
    by (auto simp: simple_handleOrderNew_def simple_matchOrder_def Let_def bind_eq_Some_conv simple_rests_def simple_levels_def
        split: if_splits)
qed

text \<open>Any sequence of orders, up to the first that follows a stale pointer, computes the book of the
  lower-bound engine: the same trades, and the same levels with the same queues. New orders alone never
  follow a pointer.\<close>

theorem simple_engine_refines_book:
  assumes "lower_bound_maps ops entries lb"
  shows "case simple_process_orders ops lb orders (new_simple_engine ops) of
      Some s \<Rightarrow> book_run orders (\<lambda>_. []) = (se_trades (si_base s), lbe_levels entries (si_base s))
    | None \<Rightarrow> \<exists>ord\<in>set orders. eo_action ord = CANCEL \<or> eo_action ord = AMEND"
proof (cases "simple_process_orders ops lb orders (new_simple_engine ops)")
  case None
  have "simple_process_orders ops lb orders s \<noteq> None"
    if "lb_wf entries (si_base s)" "\<forall>ord\<in>set orders. eo_action ord \<noteq> CANCEL \<and> eo_action ord \<noteq> AMEND" for s
    using that
  proof (induction orders arbitrary: s)
    case (Cons ord orders)
    obtain s1 where s1: "simple_processOrder ops lb ord s = Some s1"
    proof (cases "eo_action ord = NEW")
      case True
      from lower_bound_maps.lb_new_is_book_new [OF assms Cons.prems(1), of ord] obtain e where "lb_handleOrderNew ops lb ord (si_base s) = Some e"
        by blast
      with simple_new_base [of ops lb ord s] obtain s1 where "simple_handleOrderNew ops lb ord s = Some s1" by auto
      with True that show thesis by (simp add: simple_processOrder_def)
    next
      case False
      with Cons.prems(2) have "simple_processOrder ops lb ord s = Some s"
        by (auto simp: simple_processOrder_def split: order_action_type.splits)
      then show thesis by (rule that)
    qed
    have "lb_wf entries (si_base s1)"
      using lower_bound_maps.simple_keeps_wf [OF assms Cons.prems(1), of "[ord]" s1] s1 by simp
    with Cons.IH [of s1] Cons.prems(2) s1 show ?case by simp
  qed simp
  from this [of "new_simple_engine ops"] lower_bound_maps.lb_new_wf(1) [OF assms] None show ?thesis
    by (auto simp: new_simple_engine_def)
next
  case (Some s)
  from lower_bound_maps.lb_run_from_empty [OF assms, of orders] simple_run_SomeD [OF Some] have
    "book_run orders (\<lambda>_. []) = (se_trades (si_base s), lbe_levels entries (si_base s))"
    by (simp add: new_simple_engine_def)
  with Some show ?thesis by simp
qed

text \<open>C36. An order that came to rest is cancelled exactly if no level was created on its side since: the
  cancel that comes after a new level follows a pointer into the vector the map has outgrown.\<close>

theorem cancel_after_a_new_level_is_undefined:
  assumes maps: "lower_bound_maps ops entries lb"
    and s0: "simple_process_orders ops lb xs (new_simple_engine ops) = Some s0"
    and s1: "eo_action ord = NEW" "simple_processOrder ops lb ord s0 = Some s1"
    and s2: "simple_process_orders ops lb ys s1 = Some s2" "\<forall>y\<in>set ys. eo_orderId y \<noteq> eo_orderId ord"
    and rests: "\<not> simple_rests (eo_orderId ord) s0" "simple_rests (eo_orderId ord) s1" "simple_rests (eo_orderId ord) s2"
    and c: "eo_action c = CANCEL" "eo_orderId c = eo_orderId ord"
  shows "case simple_processOrder ops lb c s2 of
      None \<Rightarrow> simple_levels ops (eo_side ord) s2 \<noteq> simple_levels ops (eo_side ord) s1
    | Some s3 \<Rightarrow> simple_levels ops (eo_side ord) s2 = simple_levels ops (eo_side ord) s1 \<and> \<not> simple_rests (eo_orderId ord) s3"
proof -
  note wf0 = lower_bound_maps.simple_reached_wf [OF maps s0]
  have new: "simple_handleOrderNew ops lb ord s0 = Some s1" using s1 by (simp add: simple_processOrder_def)
  have wf1: "lb_wf entries (si_base s1)"
    using lower_bound_maps.simple_keeps_wf [OF maps wf0, of "[ord]" s1] s1(2) by simp
  have wf2: "lb_wf entries (si_base s2)" by (rule lower_bound_maps.simple_keeps_wf [OF maps wf1 s2(1)])
  have "si_pointer s2 (eo_orderId ord) = (eo_side ord, simple_levels ops (eo_side ord) s1)"
    using simple_new_enters [OF maps wf0 new rests(1,2)] lower_bound_maps.simple_run_pointer [OF maps wf1 s2] by simp
  then have good: "pointer_good ops (eo_orderId ord) s2 \<longleftrightarrow> simple_levels ops (eo_side ord) s2 = simple_levels ops (eo_side ord) s1"
    by (simp add: pointer_good_def simple_levels_def)
  from lb_cancel [OF wf2, of c] obtain e where e: "lb_handleOrderCancel c (si_base s2) = Some e" by blast
  have "smap_find (se_orderByID e) (eo_orderId ord) = None"
    using e rests(3) c(2) lb_wfD(7) [OF wf2] by (auto simp: lb_handleOrderCancel_def simple_rests_def bind_eq_Some_conv split: if_splits)
  with e c rests(3) good show ?thesis
    by (cases "pointer_good ops (eo_orderId ord) s2") (auto simp: simple_processOrder_def simple_cancel_base simple_rests_def)
qed

text \<open>An order at 10, then one at 9: the second level comes first in the vector.\<close>

definition stale_orders :: "engine_order list" where
  "stale_orders = [limit_order BUY NEW 1 10 5, limit_order BUY NEW 2 9 5]"

definition stale_state :: "engine_order list \<Rightarrow> (u64 \<times> nat option) list simple_engine option" where
  "stale_state orders = simple_process_orders (\<lambda>s. list_ops (lb_order s)) list_lower_bound orders
     (new_simple_engine (\<lambda>s. list_ops (lb_order s)))"

lemma stale_states:
  "map_option (\<lambda>s. (simple_rests 1 s, simple_levels (\<lambda>s. list_ops (lb_order s)) BUY s)) (stale_state [limit_order BUY NEW 1 10 5]) = Some (True, 1)"
  "map_option (\<lambda>s. (simple_rests 1 s, simple_levels (\<lambda>s. list_ops (lb_order s)) BUY s)) (stale_state stale_orders) = Some (True, 2)"
  by (simp_all add: stale_state_def stale_orders_def limit_order_def builder_defs simple_processOrder_def simple_handleOrderNew_def
      simple_matchOrder_def lb_matchOrder_def lb_match_levels.simps Let_def list_ops_def store_side_def new_simple_engine_def
      new_store_engine_def store_getOrderPriceList_def set_store_side_def simple_rests_def simple_levels_def lb_order_def
      before_def opposite_side_def list_lower_bound_def)

theorem simple_engine_refines_book_witness:
  "\<exists>s. simple_process_orders (\<lambda>s. list_ops (lb_order s)) list_lower_bound stale_orders
         (new_simple_engine (\<lambda>s. list_ops (lb_order s))) = Some s
     \<and> book_run stale_orders (\<lambda>_. []) = (se_trades (si_base s), lbe_levels (\<lambda>m. m) (si_base s))"
  using simple_engine_refines_book [OF lb_list_maps.lower_bound_maps_axioms, of stale_orders]
  by (auto simp: stale_orders_def limit_order_def builder_defs split: option.splits)

theorem cancel_after_a_new_level_is_undefined_witness:
  "\<exists>s1 s2. simple_processOrder (\<lambda>s. list_ops (lb_order s)) list_lower_bound (limit_order BUY NEW 1 10 5)
      (new_simple_engine (\<lambda>s. list_ops (lb_order s))) = Some s1
    \<and> simple_process_orders (\<lambda>s. list_ops (lb_order s)) list_lower_bound [limit_order BUY NEW 2 9 5] s1 = Some s2
    \<and> simple_processOrder (\<lambda>s. list_ops (lb_order s)) list_lower_bound (limit_order BUY CANCEL 1 10 5) s2 = None"
proof -
  obtain s1 where s1: "stale_state [limit_order BUY NEW 1 10 5] = Some s1" "simple_rests 1 s1" "simple_levels (\<lambda>s. list_ops (lb_order s)) BUY s1 = 1"
    using stale_states(1) by auto
  obtain s2 where s2: "stale_state stale_orders = Some s2" "simple_rests 1 s2" "simple_levels (\<lambda>s. list_ops (lb_order s)) BUY s2 = 2"
    using stale_states(2) by auto
  let ?new = "new_simple_engine (\<lambda>s. list_ops (lb_order s))"
  have run0: "simple_process_orders (\<lambda>s. list_ops (lb_order s)) list_lower_bound [] ?new = Some ?new" by simp
  have run1: "simple_processOrder (\<lambda>s. list_ops (lb_order s)) list_lower_bound (limit_order BUY NEW 1 10 5) ?new = Some s1"
    using s1(1) by (auto simp: stale_state_def bind_eq_Some_conv)
  have run2: "simple_process_orders (\<lambda>s. list_ops (lb_order s)) list_lower_bound [limit_order BUY NEW 2 9 5] s1 = Some s2"
    using s2(1) run1 by (simp add: stale_state_def stale_orders_def)
  have fresh: "\<not> simple_rests 1 ?new" by (simp add: simple_rests_def new_simple_engine_def new_store_engine_def)
  have fields: "eo_action (limit_order BUY NEW 1 10 5) = NEW" "eo_orderId (limit_order BUY NEW 1 10 5) = 1"
    "eo_side (limit_order BUY NEW 1 10 5) = BUY" "\<forall>y\<in>set [limit_order BUY NEW 2 9 5]. eo_orderId y \<noteq> 1"
    "eo_action (limit_order BUY CANCEL 1 10 5) = CANCEL" "eo_orderId (limit_order BUY CANCEL 1 10 5) = 1"
    by (simp_all add: limit_order_def builder_defs)
  from cancel_after_a_new_level_is_undefined [OF lb_list_maps.lower_bound_maps_axioms run0 fields(1) run1 run2,
      where c = "limit_order BUY CANCEL 1 10 5", unfolded fields, OF fields(4) fresh s1(2) s2(2)] s1(3) s2(3)
  have "simple_processOrder (\<lambda>s. list_ops (lb_order s)) list_lower_bound (limit_order BUY CANCEL 1 10 5) s2 = None"
    by (auto split: option.splits)
  with run1 run2 show ?thesis by blast
qed

end
