(* ===== verification/Mvp_Parser.thy ===== *)
theory Mvp_Parser
  imports Pricing_Pipeline Json_Events
begin

text \<open>
  The parser of \<open>TradingSystem_MVP\<close> (market_data/Parser.cpp) and the keeper's loop with it
  (engine/Engine.cpp). The parser writes into the event object of the caller, field by field, and
  keeps the two numbers of a level in a global array: both carry values over from one message to the next.

  The JSON library (simdjson) is third-party code: \<open>simd_ops\<close> holds the operations called. \<open>sj_field\<close> is
  \<open>operator[]\<close>; no result stands for an error code, which the implicit conversions turn into an
  exception and \<open>get_string\<close> with a target ignores, leaving the target as it was. When \<open>iterate\<close>
  fails, the code goes on with the document of an earlier call: undefined. An exception leaves the
  function of the keeper's thread and ends the program. Only the first keeper gets messages, so the
  globals have one user.
\<close>

section \<open>The library's interface\<close>

record ('j, 'd) simd_ops =
  sj_iterate :: "byte list \<Rightarrow> 'j option"
  sj_field :: "'j \<Rightarrow> string \<Rightarrow> 'j option"
  sj_is_object :: "'j \<Rightarrow> bool"
  sj_string :: "'j \<Rightarrow> byte list option"
  sj_int64 :: "'j \<Rightarrow> i64 option"
  sj_double_in_string :: "'j \<Rightarrow> 'd option"
  sj_array :: "'j \<Rightarrow> 'j list option"

definition field_string :: "('j, 'd) simd_ops \<Rightarrow> 'j \<Rightarrow> string \<Rightarrow> byte list option" where
  "field_string js obj key = Option.bind (sj_field js obj key) (sj_string js)"

definition field_int64 :: "('j, 'd) simd_ops \<Rightarrow> 'j \<Rightarrow> string \<Rightarrow> i64 outcome" where
  "field_int64 js obj key = or_throws (Option.bind (sj_field js obj key) (sj_int64 js))"

definition field_double :: "('j, 'd) simd_ops \<Rightarrow> 'j \<Rightarrow> string \<Rightarrow> 'd outcome" where
  "field_double js obj key = or_throws (Option.bind (sj_field js obj key) (sj_double_in_string js))"

definition field_array :: "('j, 'd) simd_ops \<Rightarrow> 'j \<Rightarrow> string \<Rightarrow> 'j list option" where
  "field_array js obj key = Option.bind (sj_field js obj key) (sj_array js)"

text \<open>\<open>get_string(target)\<close>, its error code ignored.\<close>

definition assign_string :: "('j, 'd) simd_ops \<Rightarrow> 'j \<Rightarrow> string \<Rightarrow> byte list \<Rightarrow> byte list" where
  "assign_string js obj key old = (case field_string js obj key of None \<Rightarrow> old | Some s \<Rightarrow> s)"

section \<open>The event\<close>

record 'd mvp_ticker =
  tk_priceChange :: 'd
  tk_priceChangePercent :: 'd
  tk_lastPrice :: 'd
  tk_lastQuantity :: 'd
  tk_openPrice :: 'd
  tk_highPrice :: 'd
  tk_lowPrice :: 'd
  tk_totalTradedVolume :: 'd
  tk_totalTradedBaseAssetVolume :: 'd
  tk_firstTradeId :: i64
  tk_lastTradeId :: i64
  tk_totalTradesNumber :: i64

text \<open>The members of \<open>Event\<close> that are only ever written, on top of those the keeper reads.\<close>

record 'd mvp_event = "('d, 'd) market_event" +
  ev_pair :: "byte list"
  ev_eventTime :: i64
  ev_ticker :: "'d mvp_ticker"

definition new_ticker :: "'d :: zero mvp_ticker" where
  "new_ticker = \<lparr>tk_priceChange = 0, tk_priceChangePercent = 0, tk_lastPrice = 0, tk_lastQuantity = 0, tk_openPrice = 0,
     tk_highPrice = 0, tk_lowPrice = 0, tk_totalTradedVolume = 0, tk_totalTradedBaseAssetVolume = 0,
     tk_firstTradeId = 0, tk_lastTradeId = 0, tk_totalTradesNumber = 0\<rparr>"

definition new_mvp_event :: "'d :: zero mvp_event" where
  "new_mvp_event = \<lparr>me_type = EvNone, me_symbol = [], me_depth = \<lparr>dp_bid = [], dp_ask = []\<rparr>,
     ev_pair = [], ev_eventTime = 0, ev_ticker = new_ticker\<rparr>"

section \<open>Reading a message\<close>

definition parse_ticker :: "('j, 'd) simd_ops \<Rightarrow> 'j \<Rightarrow> 'd mvp_event \<Rightarrow> 'd mvp_event outcome" where
  "parse_ticker js obj e0 =
     (let e1 = e0\<lparr>me_type := EvTicker\<rparr>;
          e2 = e1\<lparr>me_symbol := assign_string js obj ''s'' (me_symbol e1)\<rparr>;
          e3 = e2\<lparr>ev_pair := assign_string js obj ''ps'' (ev_pair e2)\<rparr>
      in and_then (field_int64 js obj ''E'') (\<lambda>eventTime.
         and_then (field_double js obj ''p'') (\<lambda>priceChange.
         and_then (field_double js obj ''P'') (\<lambda>priceChangePercent.
         and_then (field_double js obj ''c'') (\<lambda>lastPrice.
         and_then (field_double js obj ''Q'') (\<lambda>lastQuantity.
         and_then (field_double js obj ''o'') (\<lambda>openPrice.
         and_then (field_double js obj ''h'') (\<lambda>highPrice.
         and_then (field_double js obj ''l'') (\<lambda>lowPrice.
         and_then (field_double js obj ''v'') (\<lambda>totalTradedVolume.
         and_then (field_double js obj ''q'') (\<lambda>totalTradedBaseAssetVolume.
         and_then (field_int64 js obj ''F'') (\<lambda>firstTradeId.
         and_then (field_int64 js obj ''L'') (\<lambda>lastTradeId.
         and_then (field_int64 js obj ''n'') (\<lambda>totalTradesNumber.
           Value (e3\<lparr>ev_eventTime := eventTime, ev_ticker :=
             \<lparr>tk_priceChange = priceChange, tk_priceChangePercent = priceChangePercent, tk_lastPrice = lastPrice,
              tk_lastQuantity = lastQuantity, tk_openPrice = openPrice, tk_highPrice = highPrice, tk_lowPrice = lowPrice,
              tk_totalTradedVolume = totalTradedVolume, tk_totalTradedBaseAssetVolume = totalTradedBaseAssetVolume,
              tk_firstTradeId = firstTradeId, tk_lastTradeId = lastTradeId,
              tk_totalTradesNumber = totalTradesNumber\<rparr>\<rparr>)))))))))))))))"

text \<open>\<open>values[i++] = v.get_double_in_string()\<close> over the numbers of a level; the array has two places.\<close>

fun read_values :: "('j, 'd) simd_ops \<Rightarrow> 'j list \<Rightarrow> nat \<Rightarrow> 'd \<times> 'd \<Rightarrow> ('d \<times> 'd) outcome" where
  "read_values js [] i values = Value values"
| "read_values js (v # vs) i values =
     and_then (or_throws (sj_double_in_string js v)) (\<lambda>x.
       if i = 0 then read_values js vs (i + 1) (x, snd values)
       else if i = 1 then read_values js vs (i + 1) (fst values, x)
       else Undefined)"

fun read_levels ::
  "('j, 'd) simd_ops \<Rightarrow> 'j list \<Rightarrow> 'd \<times> 'd \<Rightarrow> ('d \<times> 'd) list \<Rightarrow> (('d \<times> 'd) list \<times> 'd \<times> 'd) outcome" where
  "read_levels js [] values lvls = Value (lvls, values)"
| "read_levels js (entry # entries) values lvls =
     and_then (or_throws (sj_array js entry)) (\<lambda>vs.
     and_then (read_values js vs 0 values) (\<lambda>values'.
       read_levels js entries values' (lvls @ [values'])))"

definition set_bid :: "('d \<times> 'd) list \<Rightarrow> 'd mvp_event \<Rightarrow> 'd mvp_event" where
  "set_bid lvls e = e\<lparr>me_depth := (me_depth e)\<lparr>dp_bid := lvls\<rparr>\<rparr>"

definition set_ask :: "('d \<times> 'd) list \<Rightarrow> 'd mvp_event \<Rightarrow> 'd mvp_event" where
  "set_ask lvls e = e\<lparr>me_depth := (me_depth e)\<lparr>dp_ask := lvls\<rparr>\<rparr>"

definition parse_depth ::
  "('j, 'd) simd_ops \<Rightarrow> 'j \<Rightarrow> 'd \<times> 'd \<Rightarrow> 'd mvp_event \<Rightarrow> (bool \<times> ('d \<times> 'd) \<times> 'd mvp_event) outcome" where
  "parse_depth js obj values e0 =
     (let e1 = e0\<lparr>me_type := EvDepthUpdate\<rparr>;
          e2 = e1\<lparr>me_symbol := assign_string js obj ''s'' (me_symbol e1)\<rparr>
      in and_then (field_int64 js obj ''E'') (\<lambda>eventTime.
           let e3 = set_bid [] (e2\<lparr>ev_eventTime := eventTime\<rparr>)
           in case field_array js obj ''b'' of
                None \<Rightarrow> Value (False, values, e3)
              | Some bids \<Rightarrow>
                  and_then (read_levels js bids values []) (\<lambda>(bid, values1).
                    let e4 = set_ask [] (set_bid bid e3)
                    in case field_array js obj ''a'' of
                         None \<Rightarrow> Value (False, values1, e4)
                       | Some asks \<Rightarrow>
                           and_then (read_levels js asks values1 []) (\<lambda>(ask, values2).
                             Value (True, values2, set_ask ask e4)))))"

definition mvp_parse ::
  "('j, 'd) simd_ops \<Rightarrow> byte list \<Rightarrow> 'd \<times> 'd \<Rightarrow> 'd mvp_event \<Rightarrow> (bool \<times> ('d \<times> 'd) \<times> 'd mvp_event) outcome" where
  "mvp_parse js data values event =
     (case sj_iterate js data of
        None \<Rightarrow> Undefined
      | Some document \<Rightarrow>
          (case sj_field js document ''data'' of
             None \<Rightarrow> Value (False, values, event\<lparr>me_type := EvResult\<rparr>)
           | Some dataObj \<Rightarrow>
               if \<not> sj_is_object js dataObj then Value (False, values, event\<lparr>me_type := EvResult\<rparr>)
               else and_then (or_throws (field_string js dataObj ''e'')) (\<lambda>eventType.
                 if eventType = text_of ''24hrTicker''
                 then and_then (parse_ticker js dataObj event) (\<lambda>e. Value (True, values, e))
                 else if eventType = text_of ''24hrMiniTicker'' then Value (True, values, event\<lparr>me_type := EvMiniTicker\<rparr>)
                 else if eventType = text_of ''aggTrade'' then Value (True, values, event\<lparr>me_type := EvAggTrade\<rparr>)
                 else if eventType = text_of ''trade'' then Value (True, values, event\<lparr>me_type := EvTrade\<rparr>)
                 else if eventType = text_of ''depthUpdate'' then parse_depth js dataObj values event
                 else Value (True, values, event))))"

section \<open>The keeper's loop\<close>

text \<open>The keeper with its event object in full and the parser's global array.\<close>

type_synonym ('m, 'd) mvp_state = "('d \<times> 'd) \<times> 'd mvp_event \<times> ('m, 'd, 'd) book_keeper"

definition mvp_handle ::
  "('m, 'd :: zero, 'd) level_ops \<Rightarrow> ('m, 'd, 'd) level_ops \<Rightarrow> ('j, 'd) simd_ops \<Rightarrow> byte list
    \<Rightarrow> ('m, 'd) mvp_state \<Rightarrow> ('m, 'd) mvp_state option" where
  "mvp_handle bops sops js message s =
     (let (values, event, k) = s
      in case mvp_parse js message values event of
           Value (_, values', event') \<Rightarrow>
             map_option (\<lambda>k'. (values', event', k'))
               (handle_message bops sops (\<lambda>_ _. market_event.truncate event') message k)
         | _ \<Rightarrow> None)"

fun mvp_handle_all ::
  "('m, 'd :: zero, 'd) level_ops \<Rightarrow> ('m, 'd, 'd) level_ops \<Rightarrow> ('j, 'd) simd_ops \<Rightarrow> byte list list
    \<Rightarrow> ('m, 'd) mvp_state \<Rightarrow> ('m, 'd) mvp_state option" where
  "mvp_handle_all bops sops js [] s = Some s"
| "mvp_handle_all bops sops js (m # ms) s = Option.bind (mvp_handle bops sops js m s) (mvp_handle_all bops sops js ms)"

definition new_mvp_state :: "('m, 'd :: zero, 'd) level_ops \<Rightarrow> ('m, 'd, 'd) level_ops \<Rightarrow> ('m, 'd) mvp_state" where
  "new_mvp_state bops sops = ((0, 0), new_mvp_event, new_keeper bops sops)"

end
