(* ===== verification/Mvp_Keeper.thy ===== *)
theory Mvp_Keeper
  imports Mvp_Parser
begin

text \<open>
  What the carried-over event means for the books of a keeper: a message of a type the parser does not
  know makes the keeper handle the event before once more, which changes no level (\<open>keep_first\<close> is
  idempotent), unless it is the first message; a depth update without its bids takes the asks of the
  event before. Well-formed depth updates are read exactly. The maps are any that satisfy the laws of
  \<open>Level_Map\<close>.
\<close>

section \<open>Handling the same levels twice\<close>

definition keep_at :: "'p \<Rightarrow> 'p \<times> 'q :: zero \<Rightarrow> 'q option \<Rightarrow> 'q option" where
  "keep_at p lvl x = (if fst lvl = p then (if snd lvl = 0 then None else if x = None then Some (snd lvl) else x) else x)"

lemma keep_first_at: "fold keep_first lvls L p = fold (keep_at p) lvls (L p)"
  by (induction lvls arbitrary: L) (simp_all add: keep_first_def keep_at_def)

text \<open>What a list of levels does to one price: a fixed value, the first quantity if there is none, or nothing.\<close>

definition level_effect :: "('q option \<Rightarrow> 'q option) \<Rightarrow> bool" where
  "level_effect f \<longleftrightarrow> (\<exists>c. \<forall>x. f x = c) \<or> (\<exists>v. \<forall>x. f x = (if x = None then Some v else x)) \<or> (\<forall>x. f x = x)"

lemma level_effect_step: "level_effect f \<Longrightarrow> level_effect (\<lambda>x. keep_at p lvl (f x))"
proof (cases "fst lvl = p \<and> snd lvl \<noteq> 0")
  case True
  then have k: "keep_at p lvl x = (if x = None then Some (snd lvl) else x)" for x by (simp add: keep_at_def)
  assume "level_effect f"
  then show ?thesis
    unfolding level_effect_def k
  proof (elim disjE exE)
    fix v assume f: "\<forall>x. f x = (if x = None then Some v else x)"
    show "(\<exists>c. \<forall>x. (if f x = None then Some (snd lvl) else f x) = c)
      \<or> (\<exists>v. \<forall>x. (if f x = None then Some (snd lvl) else f x) = (if x = None then Some v else x))
      \<or> (\<forall>x. (if f x = None then Some (snd lvl) else f x) = x)"
      by (intro disjI2 disjI1 exI [of _ v]) (simp add: f)
  qed auto
next
  case False
  then have "(\<forall>x. keep_at p lvl x = None) \<or> (\<forall>x. keep_at p lvl x = x)" by (auto simp: keep_at_def)
  moreover assume "level_effect f"
  ultimately show ?thesis by (auto simp: level_effect_def)
qed

lemma level_effect_fold: "level_effect (fold (keep_at p) lvls)"
proof (induction lvls rule: rev_induct)
  case (snoc lvl lvls)
  have "fold (keep_at p) (lvls @ [lvl]) = (\<lambda>x. keep_at p lvl (fold (keep_at p) lvls x))" by (simp add: fun_eq_iff)
  with level_effect_step [OF snoc, of p lvl] show ?case by simp
qed (simp add: level_effect_def)

lemma keep_first_idempotent: "fold keep_first lvls (fold keep_first lvls L) = fold keep_first lvls L"
proof
  fix p
  show "fold keep_first lvls (fold keep_first lvls L) p = fold keep_first lvls L p"
    using level_effect_fold [of p lvls] unfolding level_effect_def keep_first_at by (elim disjE exE) simp_all
qed

section \<open>The states the loop reaches\<close>

definition applied ::
  "('m \<Rightarrow> 'd \<Rightarrow> 'd option) \<Rightarrow> ('m \<Rightarrow> 'd \<Rightarrow> 'd option) \<Rightarrow> ('d :: zero, 'd) depth \<Rightarrow> 'm price_level_book \<Rightarrow> bool" where
  "applied blook slook d b \<longleftrightarrow> fold keep_first (dp_bid d) (blook (pb_buyOrders b)) = blook (pb_buyOrders b)
     \<and> fold keep_first (dp_ask d) (slook (pb_sellOrders b)) = slook (pb_sellOrders b)"

definition same_levels ::
  "('m \<Rightarrow> 'd \<Rightarrow> 'd option) \<Rightarrow> ('m \<Rightarrow> 'd \<Rightarrow> 'd option) \<Rightarrow> (byte list \<rightharpoonup> 'm price_level_book)
    \<Rightarrow> (byte list \<rightharpoonup> 'm price_level_book) \<Rightarrow> bool" where
  "same_levels blook slook B B' \<longleftrightarrow> (\<forall>t. rel_option (\<lambda>b b'. pb_pair b = pb_pair b'
     \<and> blook (pb_buyOrders b) = blook (pb_buyOrders b') \<and> slook (pb_sellOrders b) = slook (pb_sellOrders b')) (B t) (B' t))"

lemma same_levels_refl [simp]: "same_levels blook slook B B"
  by (simp add: same_levels_def option.rel_refl)

definition reached ::
  "('m \<Rightarrow> 'd \<Rightarrow> 'd option) \<Rightarrow> ('m \<Rightarrow> bool) \<Rightarrow> ('m \<Rightarrow> 'd \<Rightarrow> 'd option) \<Rightarrow> ('m \<Rightarrow> bool) \<Rightarrow> byte list list
    \<Rightarrow> ('m, 'd :: zero) mvp_state \<Rightarrow> bool" where
  "reached blook binv slook sinv ms s \<longleftrightarrow> (case s of (vs, ev, k) \<Rightarrow>
     dom (bk_orderBooks k) = set tickers
   \<and> (\<forall>t b. bk_orderBooks k t = Some b \<longrightarrow> binv (pb_buyOrders b) \<and> sinv (pb_sellOrders b)
        \<and> (me_type ev = EvDepthUpdate \<longrightarrow> t = me_symbol ev \<longrightarrow> applied blook slook (me_depth ev) b))
   \<and> (ms = [] \<longrightarrow> ev = new_mvp_event) \<and> (ms \<noteq> [] \<longrightarrow> me_type ev = EvResult \<or> me_symbol ev \<in> set tickers))"

lemma reached_book:
  assumes "reached blook binv slook sinv ms (vs, ev, k)"
  shows "bk_orderBooks k t = None \<longleftrightarrow> t \<notin> set tickers"
    "bk_orderBooks k t = Some b \<Longrightarrow> binv (pb_buyOrders b)" "bk_orderBooks k t = Some b \<Longrightarrow> sinv (pb_sellOrders b)"
    "bk_orderBooks k (me_symbol ev) = Some b \<Longrightarrow> me_type ev = EvDepthUpdate \<Longrightarrow> applied blook slook (me_depth ev) b"
    "dom (bk_orderBooks k) = set tickers"
  using assms by (auto simp: reached_def)

lemma reached_event:
  assumes "reached blook binv slook sinv ms (vs, ev, k)"
  shows "ms = [] \<Longrightarrow> ev = new_mvp_event" "ms \<noteq> [] \<Longrightarrow> me_type ev = EvResult \<or> me_symbol ev \<in> set tickers"
  using assms by (simp_all add: reached_def)

lemma reachedI:
  assumes "\<And>t. bk_orderBooks k t = None \<longleftrightarrow> t \<notin> set tickers"
    "\<And>t b. bk_orderBooks k t = Some b \<Longrightarrow> binv (pb_buyOrders b)" "\<And>t b. bk_orderBooks k t = Some b \<Longrightarrow> sinv (pb_sellOrders b)"
    "\<And>b. bk_orderBooks k (me_symbol ev) = Some b \<Longrightarrow> me_type ev = EvDepthUpdate \<Longrightarrow> applied blook slook (me_depth ev) b"
    "ms = [] \<Longrightarrow> ev = new_mvp_event" "ms \<noteq> [] \<Longrightarrow> me_type ev = EvResult \<or> me_symbol ev \<in> set tickers"
  shows "reached blook binv slook sinv ms (vs, ev, k)"
proof -
  have "dom (bk_orderBooks k) = set tickers" by (rule set_eqI) (simp only: domIff assms(1) not_not)
  with assms(2-6) show ?thesis unfolding reached_def by auto
qed

locale keeper_maps =
  bids: loop_side bops blook bbefore binv + asks: loop_side sops slook sbefore sinv
  for bops :: "('m, 'd :: zero, 'd) level_ops" and blook bbefore binv
    and sops :: "('m, 'd, 'd) level_ops" and slook sbefore sinv
begin

lemma new_keeper_books: "bk_orderBooks (new_keeper bops sops) t
    = (if t \<in> set tickers then Some \<lparr>pb_pair = t, pb_buyOrders = lo_new bops, pb_sellOrders = lo_new sops\<rparr> else None)"
  by (auto simp: new_keeper_def tickers_def)

lemma reached_new: "reached blook binv slook sinv [] (new_mvp_state bops sops)"
  unfolding new_mvp_state_def
  by (rule reachedI) (auto simp: new_keeper_books new_mvp_event_def bids.invar_new asks.invar_new split: if_splits)

text \<open>A book with an event handled once holds its levels.\<close>

lemma process_applied:
  assumes "binv (pb_buyOrders b)" "sinv (pb_sellOrders b)"
  shows "binv (pb_buyOrders (processEvent bops sops e b))" "sinv (pb_sellOrders (processEvent bops sops e b))"
    "me_type e = EvDepthUpdate \<Longrightarrow> applied blook slook (me_depth e) (processEvent bops sops e b)"
  using bids.level_loop_levels [OF assms(1), of "dp_bid (me_depth e)"] asks.level_loop_levels [OF assms(2), of "dp_ask (me_depth e)"] assms
  by (auto simp: processEvent_def book_handleDepthUpdate_def applied_def keep_first_idempotent split: event_type.splits)

text \<open>Handling it again changes no level.\<close>

lemma process_again:
  assumes "binv (pb_buyOrders b)" "sinv (pb_sellOrders b)" "me_type e = EvDepthUpdate \<Longrightarrow> applied blook slook (me_depth e) b"
  shows "pb_pair (processEvent bops sops e b) = pb_pair b"
    "blook (pb_buyOrders (processEvent bops sops e b)) = blook (pb_buyOrders b)"
    "slook (pb_sellOrders (processEvent bops sops e b)) = slook (pb_sellOrders b)"
  using bids.level_loop_levels [OF assms(1), of "dp_bid (me_depth e)"] asks.level_loop_levels [OF assms(2), of "dp_ask (me_depth e)"] assms(3)
  by (auto simp: processEvent_def book_handleDepthUpdate_def applied_def split: event_type.splits)

text \<open>The keeper survives a message exactly if the parser returns and the event's symbol has a book.\<close>

lemma mvp_handle_survives:
  assumes r: "reached blook binv slook sinv ms (values, ev, k)" and p: "mvp_parse js m values ev = Value (ok, values', ev')"
  shows "mvp_handle bops sops js m (values, ev, k) =
    (if me_type ev' = EvResult then Some (values', ev', k\<lparr>bk_event := market_event.truncate ev'\<rparr>)
     else if me_symbol ev' \<in> set tickers
     then Some (values', ev', k\<lparr>bk_event := market_event.truncate ev', bk_orderBooks := (bk_orderBooks k)(me_symbol ev' \<mapsto>
            processEvent bops sops (market_event.truncate ev') (the (bk_orderBooks k (me_symbol ev'))))\<rparr>)
     else None)"
proof -
  show ?thesis
    using p reached_book(1) [OF r, of "me_symbol ev'"]
    by (cases "bk_orderBooks k (me_symbol ev')") (auto simp: mvp_handle_def handle_message_def Let_def market_event.truncate_def)
qed

lemma mvp_handle_throws: "(\<And>r. mvp_parse js m values ev \<noteq> Value r) \<Longrightarrow> mvp_handle bops sops js m (values, ev, k) = None"
  by (auto simp: mvp_handle_def split: outcome.splits)

lemma reached_step:
  assumes r: "reached blook binv slook sinv ms s" and h: "mvp_handle bops sops js m s = Some s'"
  shows "reached blook binv slook sinv (ms @ [m]) s'"
proof -
  obtain vs ev k where s: "s = (vs, ev, k)" by (cases s)
  from h obtain ok vs' ev' where p: "mvp_parse js m vs ev = Value (ok, vs', ev')"
    by (auto simp: mvp_handle_def s split: outcome.splits)
  note q = mvp_handle_survives [OF r [unfolded s] p] and b = reached_book [OF r [unfolded s]]
  show ?thesis
  proof (cases "me_type ev' = EvResult")
    case True
    with q h have s': "s' = (vs', ev', k\<lparr>bk_event := market_event.truncate ev'\<rparr>)" by (simp add: s)
    show ?thesis unfolding s' by (rule reachedI) (use b(1-3) True in auto)
  next
    case False
    with q h have t: "me_symbol ev' \<in> set tickers" by (auto simp: s split: if_splits)
    then obtain book where book: "bk_orderBooks k (me_symbol ev') = Some book" using b(1) by blast
    let ?e = "market_event.truncate ev'"
    let ?b = "processEvent bops sops ?e book"
    have s': "s' = (vs', ev', k\<lparr>bk_event := ?e, bk_orderBooks := (bk_orderBooks k)(me_symbol ev' \<mapsto> ?b)\<rparr>)"
      using q h False t book by (simp add: s)
    have e: "me_type ?e = me_type ev'" "me_depth ?e = me_depth ev'" by (simp_all add: market_event.truncate_def)
    note p = process_applied [OF b(2,3) [OF book], of ?e, unfolded e]
    show ?thesis
      unfolding s' by (rule reachedI) (use p t b(1-3) in \<open>auto split: if_splits\<close>)
  qed
qed

lemma reached_run:
  "reached blook binv slook sinv ms s \<Longrightarrow> mvp_handle_all bops sops js ns s = Some s' \<Longrightarrow> reached blook binv slook sinv (ms @ ns) s'"
proof (induction ns arbitrary: ms s)
  case (Cons m ns)
  from Cons.prems(2) obtain s1 where "mvp_handle bops sops js m s = Some s1" "mvp_handle_all bops sops js ns s1 = Some s'"
    by (auto simp: bind_eq_Some_conv)
  with Cons.IH [OF reached_step [OF Cons.prems(1)]] show ?case by fastforce
qed simp

lemma replay:
  assumes r: "reached blook binv slook sinv ms (values, ev, k)" and p: "mvp_parse js m values ev = Value (ok, values, ev)"
  shows "case mvp_handle bops sops js m (values, ev, k) of
      None \<Rightarrow> ms = []
    | Some s' \<Rightarrow> ms \<noteq> [] \<and> fst s' = values \<and> fst (snd s') = ev
        \<and> same_levels blook slook (bk_orderBooks k) (bk_orderBooks (snd (snd s')))"
proof (cases "ms = []")
  case True
  then have "me_type ev \<noteq> EvResult" "me_symbol ev \<notin> set tickers"
    using reached_event(1) [OF r] by (simp_all add: new_mvp_event_def tickers_def)
  with mvp_handle_survives [OF r p] True show ?thesis by simp
next
  case False
  note q = mvp_handle_survives [OF r p] and b = reached_book [OF r]
  show ?thesis
  proof (cases "me_type ev = EvResult")
    case True
    with q False show ?thesis by simp
  next
    case type: False
    with reached_event(2) [OF r False] have t: "me_symbol ev \<in> set tickers" by simp
    then obtain book where book: "bk_orderBooks k (me_symbol ev) = Some book" using b(1) by blast
    let ?e = "market_event.truncate ev"
    have e: "me_type ?e = me_type ev" "me_depth ?e = me_depth ev" by (simp_all add: market_event.truncate_def)
    have again: "me_type ?e = EvDepthUpdate \<Longrightarrow> applied blook slook (me_depth ?e) book" unfolding e by (rule b(4) [OF book])
    have "same_levels blook slook (bk_orderBooks k) ((bk_orderBooks k)(me_symbol ev \<mapsto> processEvent bops sops ?e book))"
      using process_again [OF b(2,3) [OF book] again] book by (auto simp: same_levels_def option.rel_refl)
    with q type t book False show ?thesis by simp
  qed
qed

end

section \<open>Properties\<close>

definition known_types :: "byte list list" where
  "known_types = [text_of ''24hrTicker'', text_of ''24hrMiniTicker'', text_of ''aggTrade'', text_of ''trade'', text_of ''depthUpdate'']"

text \<open>A message with an object of data and this event type.\<close>

definition message_of_type :: "('j, 'd) simd_ops \<Rightarrow> byte list \<Rightarrow> byte list \<Rightarrow> bool" where
  "message_of_type js m et \<longleftrightarrow> (case sj_iterate js m of None \<Rightarrow> False
     | Some document \<Rightarrow> (case sj_field js document ''data'' of None \<Rightarrow> False
       | Some obj \<Rightarrow> sj_is_object js obj \<and> field_string js obj ''e'' = Some et))"

lemma unknown_parse: "message_of_type js m et \<Longrightarrow> et \<notin> set known_types \<Longrightarrow> mvp_parse js m vs ev = Value (True, vs, ev)"
  by (auto simp: message_of_type_def mvp_parse_def known_types_def split: option.splits)

text \<open>C24. The parser reports success for a message of a type it does not know and leaves the event of the
  message before in place, which the keeper handles once more. As the first message this has no defined
  result: the event names no symbol yet, and the keeper calls a member function through the null
  pointer that is the book of the empty symbol (a build whose member function reads nothing for an
  event without a type may go on). After any other messages it changes no level of any book.\<close>

theorem unknown_messages_replay_harmlessly:
  assumes "loop_side bops blook bbefore binv" "loop_side sops slook sbefore sinv"
    and run: "mvp_handle_all bops sops js ms (new_mvp_state bops sops) = Some (vs, ev, k)"
    and unknown: "message_of_type js m et" "et \<notin> set known_types"
  shows "case mvp_handle bops sops js m (vs, ev, k) of
      None \<Rightarrow> ms = []
    | Some (vs', ev', k') \<Rightarrow> ms \<noteq> [] \<and> vs' = vs \<and> ev' = ev \<and> same_levels blook slook (bk_orderBooks k) (bk_orderBooks k')"
proof -
  note keeper = keeper_maps.intro [OF assms(1,2)]
  have "reached blook binv slook sinv ([] @ ms) (vs, ev, k)"
    by (rule keeper_maps.reached_run [OF keeper keeper_maps.reached_new [OF keeper] run])
  from keeper_maps.replay [OF keeper this [unfolded append_Nil] unknown_parse [OF unknown]]
  show ?thesis by (auto split: option.splits)
qed

text \<open>A well-formed level: an array of two numbers in strings.\<close>

definition level_entry :: "('j, 'd) simd_ops \<Rightarrow> 'j \<Rightarrow> 'd \<times> 'd \<Rightarrow> bool" where
  "level_entry js entry lvl \<longleftrightarrow> (\<exists>x y. sj_array js entry = Some [x, y]
     \<and> sj_double_in_string js x = Some (fst lvl) \<and> sj_double_in_string js y = Some (snd lvl))"

lemma read_levels_exact:
  "list_all2 (level_entry js) entries lvls \<Longrightarrow> \<exists>vs'. read_levels js entries vs acc = Value (acc @ lvls, vs')"
proof (induction entries lvls arbitrary: vs acc rule: list_all2_induct)
  case (Cons entry entries lvl lvls)
  from Cons.hyps(1) obtain x y where "sj_array js entry = Some [x, y]" "sj_double_in_string js x = Some (fst lvl)"
    "sj_double_in_string js y = Some (snd lvl)" by (auto simp: level_entry_def)
  with Cons.IH [of lvl "acc @ [lvl]"] show ?case by simp
qed simp

text \<open>A depth update with an object of data: its symbol, its time and its arrays of levels, where present.\<close>

definition depth_message ::
  "('j, 'd) simd_ops \<Rightarrow> byte list \<Rightarrow> byte list \<Rightarrow> i64 \<Rightarrow> 'j list option \<Rightarrow> 'j list option \<Rightarrow> bool" where
  "depth_message js m s t bids asks \<longleftrightarrow> (case sj_iterate js m of None \<Rightarrow> False
     | Some document \<Rightarrow> (case sj_field js document ''data'' of None \<Rightarrow> False
       | Some obj \<Rightarrow> sj_is_object js obj \<and> field_string js obj ''e'' = Some (text_of ''depthUpdate'')
           \<and> field_string js obj ''s'' = Some s \<and> field_int64 js obj ''E'' = Value t
           \<and> field_array js obj ''b'' = bids \<and> field_array js obj ''a'' = asks))"

lemma depth_parse:
  assumes "depth_message js m s t bids asks"
  obtains obj where "field_string js obj ''s'' = Some s" "field_int64 js obj ''E'' = Value t"
    "field_array js obj ''b'' = bids" "field_array js obj ''a'' = asks" "\<And>vs ev. mvp_parse js m vs ev = parse_depth js obj vs ev"
  using assms by (auto simp: depth_message_def mvp_parse_def split: option.splits intro: that)

text \<open>A well-formed depth update is read exactly: type, symbol, time and all levels of both sides, in
  order, are those of the message, whatever the event and the global array held before.\<close>

theorem depth_updates_are_read_exactly:
  assumes "depth_message js m s t (Some bs) (Some as)"
    and "list_all2 (level_entry js) bs bids" "list_all2 (level_entry js) as asks"
  shows "\<exists>vs'. mvp_parse js m vs ev = Value (True, vs', ev\<lparr>me_type := EvDepthUpdate, me_symbol := s, ev_eventTime := t,
    me_depth := \<lparr>dp_bid = bids, dp_ask = asks\<rparr>\<rparr>)"
proof -
  obtain obj where obj: "field_string js obj ''s'' = Some s" "field_int64 js obj ''E'' = Value t"
    "field_array js obj ''b'' = Some bs" "field_array js obj ''a'' = Some as" "\<And>vs ev. mvp_parse js m vs ev = parse_depth js obj vs ev"
    by (rule depth_parse [OF assms(1)]) blast
  obtain vs1 where vs1: "read_levels js bs vs [] = Value (bids, vs1)" using read_levels_exact [OF assms(2), of vs "[]"] by auto
  obtain vs2 where vs2: "read_levels js as vs1 [] = Value (asks, vs2)" using read_levels_exact [OF assms(3), of vs1 "[]"] by auto
  show ?thesis
    using obj vs1 vs2 by (simp add: parse_depth_def Let_def assign_string_def set_bid_def set_ask_def)
qed

text \<open>C25. A depth update without its bids: the parser reports failure, which the keeper does not look at,
  after it has set type and symbol and emptied the bids. The asks of the event before, of whatever
  symbol, are then entered in the book of this one.\<close>

theorem depth_without_bids_takes_old_asks:
  assumes "loop_side bops blook bbefore binv" "loop_side sops slook sbefore sinv"
    and run: "mvp_handle_all bops sops js ms (new_mvp_state bops sops) = Some (vs, ev, k)"
    and message: "depth_message js m s t None asks" "s \<in> set tickers"
  shows "\<exists>ev' k' book book'. mvp_handle bops sops js m (vs, ev, k) = Some (vs, ev', k')
    \<and> bk_orderBooks k s = Some book \<and> bk_orderBooks k' s = Some book'
    \<and> blook (pb_buyOrders book') = blook (pb_buyOrders book)
    \<and> slook (pb_sellOrders book') = fold keep_first (dp_ask (me_depth ev)) (slook (pb_sellOrders book))"
proof -
  note keeper = keeper_maps.intro [OF assms(1,2)]
  have r: "reached blook binv slook sinv ms (vs, ev, k)"
    using keeper_maps.reached_run [OF keeper keeper_maps.reached_new [OF keeper] run] by simp
  then obtain book where book: "bk_orderBooks k s = Some book" "binv (pb_buyOrders book)" "sinv (pb_sellOrders book)"
    using message(2) reached_book(1-3) [of blook binv slook sinv ms vs ev k s] by blast
  obtain obj where obj: "field_string js obj ''s'' = Some s" "field_int64 js obj ''E'' = Value t"
    "field_array js obj ''b'' = None" "\<And>vs ev. mvp_parse js m vs ev = parse_depth js obj vs ev"
    by (rule depth_parse [OF message(1)]) blast
  let ?ev = "set_bid [] (ev\<lparr>me_type := EvDepthUpdate, me_symbol := s, ev_eventTime := t\<rparr>)"
  have p: "mvp_parse js m vs ev = Value (False, vs, ?ev)"
    using obj by (simp add: parse_depth_def Let_def assign_string_def)
  have e: "me_type ?ev = EvDepthUpdate" "me_symbol ?ev = s" by (simp_all add: set_bid_def)
  let ?e = "market_event.truncate ?ev"
  have te: "me_type ?e = EvDepthUpdate" "dp_bid (me_depth ?e) = []" "dp_ask (me_depth ?e) = dp_ask (me_depth ev)"
    by (simp_all add: set_bid_def market_event.truncate_def)
  let ?b = "processEvent bops sops ?e book"
  have "mvp_handle bops sops js m (vs, ev, k)
      = Some (vs, ?ev, k\<lparr>bk_event := ?e, bk_orderBooks := (bk_orderBooks k)(s \<mapsto> ?b)\<rparr>)"
    using keeper_maps.mvp_handle_survives [OF keeper r p] e message(2) book(1) by simp
  moreover have "blook (pb_buyOrders ?b) = blook (pb_buyOrders book)"
    "slook (pb_sellOrders ?b) = fold keep_first (dp_ask (me_depth ev)) (slook (pb_sellOrders book))"
    using loop_side.level_loop_levels [OF assms(1) book(2)] loop_side.level_loop_levels [OF assms(2) book(3)] te
    by (simp_all add: processEvent_def book_handleDepthUpdate_def)
  ultimately show ?thesis using book(1) by auto
qed

section \<open>Examples\<close>

interpretation mvp_keeper: keeper_maps "seq_ops (>) :: (('d :: {linorder, zero} \<times> 'd) list, 'd, 'd) level_ops" map_of "(>)" "seq_sorted (>)"
  "seq_ops (<)" map_of "(<)" "seq_sorted (<)" ..

datatype sj_value = SObject "(string \<times> sj_value) list" | SArray "sj_value list" | SText "byte list" | SInt i64 | SDecimal nat

definition example_documents :: "sj_value list" where
  "example_documents =
     [SObject [(''data'', SObject [(''e'', SText (text_of ''depthUpdate'')), (''s'', SText (text_of ''BTCUSDT'')), (''E'', SInt 1),
        (''b'', SArray [SArray [SDecimal 10, SDecimal 5]]), (''a'', SArray [SArray [SDecimal 12, SDecimal 3]])])],
      SObject [(''data'', SObject [(''e'', SText (text_of ''kline''))])],
      SObject [(''data'', SObject [(''e'', SText (text_of ''depthUpdate'')), (''s'', SText (text_of ''XRPUSDT'')), (''E'', SInt 2)])]]"

text \<open>A message of one byte is a document of the list.\<close>

definition example_simd :: "(sj_value, nat) simd_ops" where
  "example_simd =
     \<lparr>sj_iterate = (\<lambda>m. if length m = 1 \<and> unat (hd m) < 3 then Some (example_documents ! unat (hd m)) else None),
      sj_field = (\<lambda>v key. case v of SObject ms \<Rightarrow> map_of ms key | _ \<Rightarrow> None),
      sj_is_object = (\<lambda>v. case v of SObject _ \<Rightarrow> True | _ \<Rightarrow> False),
      sj_string = (\<lambda>v. case v of SText s \<Rightarrow> Some s | _ \<Rightarrow> None),
      sj_int64 = (\<lambda>v. case v of SInt i \<Rightarrow> Some i | _ \<Rightarrow> None),
      sj_double_in_string = (\<lambda>v. case v of SDecimal d \<Rightarrow> Some d | _ \<Rightarrow> None),
      sj_array = (\<lambda>v. case v of SArray vs \<Rightarrow> Some vs | _ \<Rightarrow> None)\<rparr>"

lemmas example_simps = example_simd_def example_documents_def field_string_def field_array_def field_int64_def

lemma example_messages:
  "depth_message example_simd [0] (text_of ''BTCUSDT'') 1 (Some [SArray [SDecimal 10, SDecimal 5]]) (Some [SArray [SDecimal 12, SDecimal 3]])"
  "message_of_type example_simd [1] (text_of ''kline'')"
  "depth_message example_simd [2] (text_of ''XRPUSDT'') 2 None None"
  by (simp_all add: depth_message_def message_of_type_def example_simps)


definition example_event :: "nat mvp_event" where
  "example_event = new_mvp_event\<lparr>me_type := EvDepthUpdate, me_symbol := text_of ''BTCUSDT'', ev_eventTime := 1,
     me_depth := \<lparr>dp_bid = [(10, 5)], dp_ask = [(12, 3)]\<rparr>\<rparr>"

lemma example_reached:
  "\<exists>k. mvp_handle_all (seq_ops (>)) (seq_ops (<)) example_simd [[0]] (new_mvp_state (seq_ops (>)) (seq_ops (<)))
     = Some ((12, 3), example_event, k)"
proof -
  have p: "mvp_parse example_simd [0] (0, 0) new_mvp_event = Value (True, (12, 3), example_event)"
    by (simp add: mvp_parse_def parse_depth_def example_simps assign_string_def set_bid_def set_ask_def example_event_def)
  have "me_type example_event = EvDepthUpdate" "me_symbol example_event \<in> set tickers"
    by (simp_all add: example_event_def tickers_def)
  with mvp_keeper.mvp_handle_survives [OF mvp_keeper.reached_new [unfolded new_mvp_state_def] p] show ?thesis
    by (simp add: new_mvp_state_def)
qed

theorem depth_updates_are_read_exactly_witness:
  "\<exists>vs' ev'. mvp_parse example_simd [0] (7, 7) new_mvp_event = Value (True, vs', ev')
     \<and> me_symbol ev' = text_of ''BTCUSDT'' \<and> me_depth ev' = \<lparr>dp_bid = [(10, 5)], dp_ask = [(12, 3)]\<rparr>"
proof -
  have "list_all2 (level_entry example_simd) [SArray [SDecimal 10, SDecimal 5]] [(10, 5)]"
    "list_all2 (level_entry example_simd) [SArray [SDecimal 12, SDecimal 3]] [(12, 3)]"
    by (simp_all add: level_entry_def example_simps)
  from depth_updates_are_read_exactly [OF example_messages(1) this] show ?thesis by fastforce
qed

theorem unknown_messages_replay_harmlessly_witness:
  "\<exists>k k'. mvp_handle (seq_ops (>)) (seq_ops (<)) example_simd [1] ((12, 3), example_event, k) = Some ((12, 3), example_event, k')
     \<and> same_levels map_of map_of (bk_orderBooks k) (bk_orderBooks k')"
proof -
  obtain k where run: "mvp_handle_all (seq_ops (>)) (seq_ops (<)) example_simd [[0]] (new_mvp_state (seq_ops (>)) (seq_ops (<)))
      = Some ((12, 3), example_event, k)" using example_reached by blast
  have "text_of ''kline'' \<notin> set known_types" by (simp add: known_types_def byte_of_def)
  from unknown_messages_replay_harmlessly [OF buy_side.loop_side_axioms sell_side.loop_side_axioms run example_messages(2) this]
  have "\<exists>k'. mvp_handle (seq_ops (>)) (seq_ops (<)) example_simd [1] ((12, 3), example_event, k) = Some ((12, 3), example_event, k')
      \<and> same_levels map_of map_of (bk_orderBooks k) (bk_orderBooks k')" by (auto split: option.splits)
  then show ?thesis by blast
qed

theorem depth_without_bids_takes_old_asks_witness:
  "\<exists>k k' ev' book book'. mvp_handle (seq_ops (>)) (seq_ops (<)) example_simd [2] ((12, 3), example_event, k) = Some ((12, 3), ev', k')
     \<and> bk_orderBooks k (text_of ''XRPUSDT'') = Some book \<and> bk_orderBooks k' (text_of ''XRPUSDT'') = Some book'
     \<and> map_of (pb_sellOrders book') = keep_first (12, 3) (map_of (pb_sellOrders book))"
proof -
  obtain k where run: "mvp_handle_all (seq_ops (>)) (seq_ops (<)) example_simd [[0]] (new_mvp_state (seq_ops (>)) (seq_ops (<)))
      = Some ((12, 3), example_event, k)" using example_reached by blast
  have "text_of ''XRPUSDT'' \<in> set tickers" by (simp add: tickers_def)
  from depth_without_bids_takes_old_asks [OF buy_side.loop_side_axioms sell_side.loop_side_axioms run example_messages(3) this]
  obtain ev' k' book book' where "mvp_handle (seq_ops (>)) (seq_ops (<)) example_simd [2] ((12, 3), example_event, k) = Some ((12, 3), ev', k')"
    "bk_orderBooks k (text_of ''XRPUSDT'') = Some book" "bk_orderBooks k' (text_of ''XRPUSDT'') = Some book'"
    "map_of (pb_sellOrders book') = fold keep_first (dp_ask (me_depth example_event)) (map_of (pb_sellOrders book))" by blast
  moreover have "dp_ask (me_depth example_event) = [(12, 3)]" by (simp add: example_event_def)
  ultimately show ?thesis by auto
qed

end
