(* ===== verification/Spec2Isabelle.thy ===== *)
theory Spec2Isabelle
  imports Trading_App Pnl Flat_Map Static_Collections Message_Ring Ring_Concurrent Engine_Properties
    String_Tools Price_Text Depth_Engine Pricing_Pipeline Ladder_Properties Flat_Side Command_Book Priced_Book
    Store_Simulation Lower_Bound_Properties Object_Pool Spin_Lock Logger Logger_Race Metrics_Concurrent
    Event_Processor Fix_Executor Config_Loader
    Pooled_Properties Alloc_Properties Simple_Engine Mvp_Keeper
begin

text \<open>
  A verification library for the trading code of this repository. All paths are under \<open>src/\<close>.

  \<^bold>\<open>The program.\<close> The repository holds one layered trading core, \<open>TradingCore\<close>, several versions of a
  market data pricer (\<open>TradingSystem_*\<close>), two order books with matching or levels
  (\<open>MatchingEngine*\<close>, \<open>Collection/PriceLevels\<close>), and the containers, rings and text helpers they are
  built on. In \<open>TradingCore\<close> a market data message is parsed into book updates; a \<open>BookBuilder\<close>
  applies them to its \<open>OrderBook\<close> and publishes the top of the book as a \<open>MarketEvent\<close>; the event
  handler records it, asks the strategy for a signal and hands the signal to the executor, which
  creates an order through the \<open>OrderManager\<close>: the risk manager checks it, the gateway sends it.
  Execution reports come back through \<open>ExecutionReportHandler\<close> into the order manager, its position
  and the position manager. In the pricers a connector thread fills a ring of buffers and a parser
  thread or a book keeper reads it and updates a depth book.

  \<^bold>\<open>Theories and sources.\<close>
  \<^item> \<open>Prelude\<close>: machine integers at their width (\<open>i64\<close>, \<open>u64\<close>, \<open>u32\<close> words; \<open>__int128\<close> as \<open>int\<close> wrapped
    to 128 bits) and the lemmas all components share. \<open>Std_Map\<close>: \<open>std::map\<close> as the ascending list of
    its entries, behind the locale \<open>ordered_map\<close>.
  \<^item> \<open>TradingCore/src\<close>: \<open>Core_Types\<close> (core/), \<open>Order_Book\<close>, \<open>Market_Event\<close>, \<open>Market_Data\<close>
    (market_data/, exchanges/binance), \<open>Execution_Types\<close>, \<open>Execution_Gateway\<close>, \<open>Order_Manager\<close>,
    \<open>Exec_Report_Handler\<close> (execution/), \<open>Position\<close>, \<open>Pnl\<close>, \<open>Risk\<close>, \<open>Recording\<close>, \<open>Strategy\<close> (the
    directories of these names), \<open>Config_Loader\<close> (config/), and \<open>Trading_App\<close> (app/), which composes them as the application does.
    Each class is a record of its members, each method a function on it; a reference to an interface
    is a locale (\<open>risk_gate\<close>, \<open>execution_gateway\<close>, \<open>event_log\<close>, \<open>event_handler\<close>, \<open>market_data_parser\<close>), interpreted on the classes here.
  \<^item> \<open>MarketDepthBook\<close>: \<open>Sorted_Array\<close> (arrays with checked access, shifting loops, binary search) and
    \<open>Flat_Map\<close> (FlatMap.hpp with its stale nodes behind the end, MarketDepthBook.hpp). \<open>Collection\<close>:
    \<open>Static_Collections\<close> on the same arrays.
  \<^item> \<open>Collection/PriceLevels\<close>: \<open>Price_Ladder\<close> (the levels, their intrusive order lists over a store of
    orders, the ladder), \<open>Ladder_Laws\<close> (what the pointers stand for), \<open>Ladder_Properties\<close>.
  \<^item> \<open>MatchingEngine_UnitTests\<close>: \<open>Engine_Order\<close> (orders and their builder), \<open>Matching_Engine\<close> (the
    engine over a store of level objects, for any level map with the documented behaviour of
    \<open>boost::container::flat_map\<close>), \<open>Engine_Book\<close> (the locale \<open>price_map\<close>, the invariant, the abstract
    book), \<open>Engine_Matching\<close> and \<open>Engine_Properties\<close>; \<open>Object_Pool\<close> (common/ObjectPool.h).
    \<open>MatchingEngine\<close>: \<open>Store_Engine\<close> (the engine over an owner list of order nodes) and
    \<open>Store_Simulation\<close> (that it does what the unit-tested one does); \<open>Lower_Bound_Engine\<close>,
    \<open>Lower_Bound_Matching\<close>, \<open>Lower_Bound_Properties\<close> (MatchingEngine_PriceLvLPtr.cpp, which matches
    from the lower bound of the price, against a book of two lists of levels); \<open>Pooled_Engine\<close>,
    \<open>Pooled_Simulation\<close>, \<open>Pooled_Properties\<close> (MatchingEngineEx.cpp with the pool its orders live in); \<open>Alloc_Engine\<close>,
    \<open>Alloc_Properties\<close> (MatchingEngine_OrderAsPtr_Alloc.cpp, the lower-bound engine over the pool);
    \<open>Simple_Engine\<close> (MatchingEngine_Simple.cpp, which points into the vectors of its maps).
  \<^item> \<open>TradingSystem_MVP_Ps1\<close>: \<open>Ring_Buffer\<close> (the rings one operation at a time), \<open>Ring_Concurrent\<close> (the
    atomic accesses of the two threads as an interleaving of steps), \<open>Buffer\<close> (the growing byte
    buffer), \<open>Message_Ring\<close> (connector and parser loop around the ring of buffers).
  \<^item> \<open>TradingSystem_MVP\<close>: \<open>Pricing_Pipeline\<close> (books, keepers, engine, pointer queue, receiving loop),
    \<open>Mvp_Parser\<close>, \<open>Mvp_Keeper\<close> (the parser with the event it carries over, and the keeper's loop with it)
    and \<open>Price_Text\<close> (decimal prices). \<open>TradingSystem_Experimental\<close>: \<open>Depth_Engine\<close> (the synchronisation
    of snapshot and updates, the dispatcher). Both over \<open>Level_Map\<close>, the interface of the flat maps.
  \<^item> \<open>TradingSystem_MVP_Ps3\<close>: \<open>Json_Events\<close> (market_data/, parser/: the events and their readers),
    \<open>Json_Documents\<close> (which documents they take), \<open>Event_Processor\<close> (price_engine/: a processor per
    exchange and the manager).
  \<^item> \<open>PricingEngine\<close>: \<open>Flat_Side\<close> (the array of 64 levels, interpreted as a \<open>level_table\<close>).
    \<open>DaVinchiTest\<close>: \<open>Command_Book\<close> (the book of order lists driven by a file of commands) and
    \<open>Priced_Book\<close> (its form with one order per price), over stores of list and map nodes.
  \<^item> \<open>CommonModules\<close>: \<open>Spin_Lock\<close> (locking/, the threads of the test as steps), \<open>Overwriting_Rings\<close>
    (ring_buffer_ex/), \<open>Logger_Ring\<close>, \<open>Logger_Race\<close> and \<open>Logger\<close> (logging/LowLatencyLogger.cpp: rings one
    call at a time, the accesses of the two threads of a ring, collecting and handling), \<open>Metrics\<close> and \<open>Metrics_Concurrent\<close> (metrics/MetricsController.cpp: one operation at a
    time, and the accesses of many threads).
  \<^item> \<open>FixExperiments\<close>: \<open>Fix_Client\<close> (client/: the queries and the messages built from the answers)
    and \<open>Fix_Executor\<close> (server/), over the interface \<open>fix_library\<close> of the FIX library.
  \<^item> \<open>Utilities\<close>: \<open>Text_Codec\<close> (hexadecimal and base 64) and \<open>String_Tools\<close>.

  \<^bold>\<open>How the code is rendered.\<close> A result \<open>None\<close> of an operation means that the C++ code has undefined
  behaviour there (an access outside an array, a null pointer, a shift by the width), ends the
  program, or does not return; the theorems say when that cannot happen, and the error properties
  when it does. Reads of objects already destroyed are an argument of the operations that make them
  (\<open>dead_memory\<close>): undefined, or what the object held. Errors the code itself reports are values (\<open>order_creation_error\<close>, optional results,
  flags). Objects reached through pointers live in a store from addresses to records (orders of the
  ladder, levels of the matching engine). Third-party containers are arguments with their documented
  laws in a locale, interpreted on sorted lists: \<open>flat_map_ops\<close> with \<open>price_map\<close>, \<open>level_ops\<close> with
  \<open>level_map\<close>. The JSON library is the record of the operations called (\<open>json_ops\<close> with \<open>json_library\<close>), the FIX library likewise; whole parsers built on others, clocks, \<open>malloc\<close> and transports are function
  arguments. Prices that are \<open>double\<close> in the code are only compared there; any linear order stands
  for them, so NaN is outside the model. No fuel is used: loops over data are structural or have a
  measure, and the few that may not end are partial functions whose \<open>None\<close> says so
  (\<open>split_loop\<close>, \<open>ascending_loop\<close>, \<open>match_levels\<close> and the walks of the ladder), each with a theorem or
  lemma about when they return.

  \<^bold>\<open>What the theorems show.\<close> They are labelled C1, C2 and so on where they stand.
  \<^item> Core: every order at the venue answers a recorded event with a signal within the three limits; the
    order book follows its stream or is invalid; positions, profit and risk follow their documented
    rules in integers wherever nothing overflows; order manager and position manager agree; the
    application as wired never trades; no configuration file sets a limit.
  \<^item> Containers: the flat map holds the intended bounded sorted levels, except that an emptied one is
    corrupted by its stale first node; the ladder's pointers always hold the lists of an abstract book
    and its queries are exact; its constructor returns exactly on certain ranges.
  \<^item> Books: the flat side is exact up to 64 levels and writes outside its array at the 65th; the two
    books of the command file hold exactly the live orders while the file keeps the contract, and the
    amendment that breaks it loses an order; the report of the biggest orders lists the largest.
  \<^item> Matching engine: a new order's trades are the greedy price-time fills, cancelling and amending
    touch one order, and no sequence of orders breaks the invariant; but cancelling a resting order reads
    destroyed objects, so these hold for runs that cancel none, or in which such memory still shows what
    it held. The load-tested engine makes the same trades, but keeps the nodes of filled orders for ever; the lower-bound engine computes an
    abstract book in which a new order meets the worst acceptable price first. The object pool never hands out the same
    memory twice, and after any requests the engine over it uses the memory of the resting orders only;
    in the lower-bound engine over it new orders never give memory back. With the level lists inside
    the maps an order can be cancelled only until its side gets a new level.
  \<^item> Rings and pipelines: every interleaving delivers a prefix of what was committed, the threads never
    share a slot, what is committed is deliverable; the feeder queue delivers entries byte for byte;
    the MVP keeper sees the received messages while it is less than a ring behind, replays the event
    before at an unknown one, and mixes symbols when a depth update has no bids; the depth engine
    replays exactly the newer updates. The latest pricer is one bounded queue of messages per exchange;
    it reads each documented message back as its event, ends at any other, and never updates its books.
  \<^item> Threads: the spin lock excludes and no increment is lost; the overwriting ring is a queue of the
    last items, the logger's ring is not; while the rings have room and no \<open>put\<close> overlaps a \<open>get\<close> the
    logger handles every entry once, and when they overlap on an empty ring the entry may be lost; a histogram is exact in every interleaving of its recorders, and torn by a reset.
  \<^item> FIX: an order entered at the client is answered with a complete fill of its own fields exactly if
    it is a limit order, and the identifiers of the reports are consecutive.
  \<^item> Text: hexadecimal round trip, base 64 against RFC 4648, exact decimal prices, when splitting
    returns, and on which texts the trimming helpers agree.

  \<^bold>\<open>Not modelled.\<close> Sockets, TLS, HTTP and threads as such; JSON parsing and FIX sessions, which are
  third-party code; formatting and benchmarks; the tests and demonstration mains. The second
  version of the pricer (Ps2), \<open>MarketDataFeeders\<close> and the other rings of \<open>CommonModules\<close> repeat
  the ring, buffer and flat map modelled here. The weak memory orderings of the rings are taken as
  sequentially consistent, for the reason given in \<open>Ring_Concurrent\<close>. Memory is taken to suffice.
\<close>

end
